(* ===== verification/Prelude.thy ===== *)
theory Prelude
  imports Main "HOL-Library.Word"
begin

text \<open>
  The prelude of the development: the error types shared by the models, sequencing of fallible
  computations, the part of JavaScript's number and array semantics that the emitted runtime uses,
  and generic lemmas on lists and bits.

  The jco sources are Rust, and a large part of them is JavaScript text that the Rust code emits
  (the intrinsics, \<open>src/crates/js-component-bindgen/src/intrinsics\<close>). Rust code that panics or
  returns an error is modelled with \<open>rust_error\<close>; emitted JavaScript that throws is modelled
  with \<open>js_error\<close>. An exception carries its class and the constant part of its message; the
  interpolated values of a template string are left out. \<open>OutOfModel\<close> is no exception of the
  code: it marks an input on which JavaScript would do something that this development does not
  describe (parsing a string as a number, a property of a built-in object), so that no theorem says
  anything about it.
\<close>

section \<open>Errors as values\<close>

datatype js_error =
    TypeErr string
  | Err string
  | RangeErr string
  | RefErr string
  | OutOfModel string

datatype rust_error =
    Panic string
  | Bail string

type_synonym 'a js = "js_error + 'a"
type_synonym 'a rust = "rust_error + 'a"

text \<open>A pair of an outcome and a state: a JavaScript method that throws keeps what it already
  assigned, so the state is returned in both cases.\<close>

type_synonym ('a, 's) jsm = "(js_error + 'a) \<times> 's"

definition rbind :: "'e + 'a \<Rightarrow> ('a \<Rightarrow> 'e + 'b) \<Rightarrow> 'e + 'b" where
  "rbind m f = (case m of Inl e \<Rightarrow> Inl e | Inr a \<Rightarrow> f a)"

lemma rbind_simps [simp]: "rbind (Inl e) f = Inl e" "rbind (Inr a) f = f a"
  by (simp_all add: rbind_def)

lemma rbind_Inr_iff: "rbind m f = Inr b \<longleftrightarrow> (\<exists>a. m = Inr a \<and> f a = Inr b)"
  by (cases m) auto

lemma rbind_InrE [elim]:
  assumes "rbind m f = Inr b"
  obtains a where "m = Inr a" "f a = Inr b"
  using assms by (auto simp: rbind_Inr_iff)

lemma rbind_assoc: "rbind (rbind m f) g = rbind m (\<lambda>a. rbind (f a) g)"
  by (cases m) auto

lemma rbind_cong [fundef_cong]:
  "m = m' \<Longrightarrow> (\<And>a. m' = Inr a \<Longrightarrow> f a = f' a) \<Longrightarrow> rbind m f = rbind m' f'"
  by (cases m') auto

primrec rfold :: "('a \<Rightarrow> 's \<Rightarrow> 'e + 's) \<Rightarrow> 'a list \<Rightarrow> 's \<Rightarrow> 'e + 's" where
  "rfold f [] s = Inr s"
| "rfold f (x # xs) s = rbind (f x s) (rfold f xs)"

lemma rfold_append: "rfold f (xs @ ys) s = rbind (rfold f xs s) (rfold f ys)"
proof (induction xs arbitrary: s)
  case Nil
  then show ?case by simp
next
  case (Cons x xs)
  then show ?case by (cases "f x s") auto
qed

text \<open>A property that every step of a fold keeps holds of its result.\<close>

lemma rfold_invariant:
  assumes "rfold f xs s = Inr s'" "P s" "\<And>x s s'. x \<in> set xs \<Longrightarrow> P s \<Longrightarrow> f x s = Inr s' \<Longrightarrow> P s'"
  shows "P s'"
  using assms
proof (induction xs arbitrary: s)
  case Nil
  then show ?case by simp
next
  case (Cons x xs)
  from Cons.prems(1) obtain t where t: "f x s = Inr t" "rfold f xs t = Inr s'"
    by auto
  with Cons.prems(2,3) have "P t" by (meson list.set_intros(1))
  with t(2) Cons.prems(3) show ?case by (intro Cons.IH [of t]) (auto intro: Cons.prems(3))
qed

section \<open>Methods that throw and assign\<close>

text \<open>A JavaScript method on the state \<open>'s\<close>: what it assigned before it threw stays assigned.\<close>

type_synonym ('a, 's) jsop = "'s \<Rightarrow> ('a, 's) jsm"

definition jret :: "'a \<Rightarrow> ('a, 's) jsop" where
  "jret a s = (Inr a, s)"

definition jthrow :: "js_error \<Rightarrow> ('a, 's) jsop" where
  "jthrow e s = (Inl e, s)"

definition jassign :: "('s \<Rightarrow> 's) \<Rightarrow> (unit, 's) jsop" where
  "jassign f s = (Inr (), f s)"

definition jbind :: "('a, 's) jsop \<Rightarrow> ('a \<Rightarrow> ('b, 's) jsop) \<Rightarrow> ('b, 's) jsop" where
  "jbind m f s = (case m s of (Inl e, s') \<Rightarrow> (Inl e, s') | (Inr a, s') \<Rightarrow> f a s')"

text \<open>\<open>if (c s) { throw e; }\<close>\<close>

definition jguard :: "('s \<Rightarrow> bool) \<Rightarrow> js_error \<Rightarrow> (unit, 's) jsop" where
  "jguard c e s = (if c s then (Inl e, s) else (Inr (), s))"

primrec jseq :: "('x \<Rightarrow> (unit, 's) jsop) \<Rightarrow> 'x list \<Rightarrow> (unit, 's) jsop" where
  "jseq f [] = jret ()"
| "jseq f (x # xs) = jbind (f x) (\<lambda>_. jseq f xs)"

text \<open>A method of an object that is a part of the state.\<close>

definition jpart :: "('s \<Rightarrow> 't) \<Rightarrow> ('t \<Rightarrow> 's \<Rightarrow> 's) \<Rightarrow> ('a, 't) jsop \<Rightarrow> ('a, 's) jsop" where
  "jpart get put m s = (case m (get s) of (r, t) \<Rightarrow> (r, put t s))"

definition jkeeps :: "('s \<Rightarrow> bool) \<Rightarrow> ('a, 's) jsop \<Rightarrow> bool" where
  "jkeeps P m \<longleftrightarrow> (\<forall>s. P s \<longrightarrow> P (snd (m s)))"

named_theorems keeps "operations that keep an invariant, whether they throw or not"

lemma jkeeps_ret [keeps, simp]: "jkeeps P (jret a)" "jkeeps P (jthrow e)" "jkeeps P (jguard c e)"
  by (auto simp: jkeeps_def jret_def jthrow_def jguard_def)

lemma jkeeps_assign: "(\<And>s. P s \<Longrightarrow> P (f s)) \<Longrightarrow> jkeeps P (jassign f)"
  by (simp add: jkeeps_def jassign_def)

lemma jkeeps_bind [keeps]:
  assumes "jkeeps P m" "\<And>a. jkeeps P (f a)"
  shows "jkeeps P (jbind m f)"
proof -
  have "P (snd (jbind m f s))" if "P s" for s
  proof (cases "m s")
    case (Pair r s')
    with assms(1) that have "P s'" by (metis jkeeps_def snd_conv)
    with assms(2) Pair show ?thesis by (cases r) (simp_all add: jbind_def jkeeps_def)
  qed
  then show ?thesis by (simp add: jkeeps_def)
qed

lemma jkeeps_if [keeps]: "jkeeps P m \<Longrightarrow> jkeeps P n \<Longrightarrow> jkeeps P (if c then m else n)"
  by simp

lemma jkeeps_seq [keeps]: "(\<And>x. jkeeps P (f x)) \<Longrightarrow> jkeeps P (jseq f xs)"
  by (induction xs) (simp_all add: jkeeps_bind)

lemma jkeeps_part: "jkeeps Q m \<Longrightarrow> (\<And>s. P s \<Longrightarrow> Q (get s)) \<Longrightarrow> (\<And>s t. P s \<Longrightarrow> Q t \<Longrightarrow> P (put t s)) \<Longrightarrow> jkeeps P (jpart get put m)"
  by (auto simp: jkeeps_def jpart_def split: prod.split) (metis snd_conv)

lemma jkeeps_dep: "(\<And>x. jkeeps P (m x)) \<Longrightarrow> jkeeps P (\<lambda>s. m s s)"
  by (simp add: jkeeps_def)

lemma jkeepsD: "jkeeps P m \<Longrightarrow> P s \<Longrightarrow> P (snd (m s))"
  by (simp add: jkeeps_def)

section \<open>Association lists\<close>

lemma map_of_snoc: "k \<notin> fst ` set xs \<Longrightarrow> map_of (xs @ [(k, v)]) = (map_of xs)(k \<mapsto> v)"
  by (induction xs) (auto simp: fun_eq_iff)

section \<open>JavaScript numbers\<close>

unbundle bit_operations_syntax

text \<open>
  The numbers of the model are JavaScript's integral numbers, as \<open>int\<close>. \<open>to_int32\<close> is
  ECMAScript's ToInt32 (the operands of \<open>|\<close>, \<open>&\<close>, \<open><<\<close> and \<open>>>\<close>), and
  \<open>to_uint32\<close> its ToUint32 (\<open>>>>\<close>).
\<close>

definition to_int32 :: "int \<Rightarrow> int" where
  "to_int32 x = signed_take_bit 31 x"

definition to_uint32 :: "int \<Rightarrow> int" where
  "to_uint32 x = take_bit 32 x"

definition js_and :: "int \<Rightarrow> int \<Rightarrow> int" where
  "js_and a b = (to_int32 a AND to_int32 b)"

definition js_or :: "int \<Rightarrow> int \<Rightarrow> int" where
  "js_or a b = (to_int32 a OR to_int32 b)"

definition js_not :: "int \<Rightarrow> int" where
  "js_not a = NOT (to_int32 a)"

text \<open>\<open>a << n\<close> and \<open>a >> n\<close> for a literal shift count below 32.\<close>

definition js_shl :: "int \<Rightarrow> nat \<Rightarrow> int" where
  "js_shl a n = to_int32 (push_bit n (to_int32 a))"

definition js_shr :: "int \<Rightarrow> nat \<Rightarrow> int" where
  "js_shr a n = drop_bit n (to_int32 a)"

lemma to_int32_id: "- (2 ^ 31) \<le> x \<Longrightarrow> x < 2 ^ 31 \<Longrightarrow> to_int32 x = x"
  unfolding to_int32_def by (rule signed_take_bit_int_eq_self)

lemma to_int32_small [simp]: "0 \<le> x \<Longrightarrow> x < 2147483648 \<Longrightarrow> to_int32 x = x"
  by (rule to_int32_id) auto

lemma to_int32_range: "- (2 ^ 31) \<le> to_int32 x" "to_int32 x < 2 ^ 31"
  unfolding to_int32_def
  by (rule signed_take_bit_int_greater_eq_minus_exp, rule signed_take_bit_int_less_exp)

lemma to_uint32_mod: "to_uint32 x = x mod 2 ^ 32"
  by (simp add: to_uint32_def take_bit_eq_mod)

lemma to_uint32_id: "0 \<le> x \<Longrightarrow> x < 2 ^ 32 \<Longrightarrow> to_uint32 x = x"
  by (simp add: to_uint32_mod)

lemma js_shl1 [simp]: "0 \<le> x \<Longrightarrow> x < 1073741824 \<Longrightarrow> js_shl x (Suc 0) = 2 * x"
  by (simp add: js_shl_def push_bit_eq_mult)

lemma js_shr1 [simp]: "0 \<le> x \<Longrightarrow> x < 2147483648 \<Longrightarrow> js_shr x (Suc 0) = x div 2"
  by (simp add: js_shr_def drop_bit_eq_div)

lemma and_not_push_bit: "0 \<le> x \<Longrightarrow> x < 2 ^ n \<Longrightarrow> x AND NOT (push_bit n 1) = (x :: int)"
proof -
  assume "0 \<le> x" "x < 2 ^ n"
  then have x: "take_bit n x = x" by (simp add: take_bit_int_eq_self)
  have "take_bit n x AND NOT (push_bit n 1) = take_bit n x"
    by (rule bit_eqI) (auto simp: bit_simps)
  then show ?thesis by (simp only: x)
qed

lemma and_push_bit: "0 \<le> x \<Longrightarrow> x < 2 ^ n \<Longrightarrow> x AND push_bit n 1 = (0 :: int)"
proof -
  assume "0 \<le> x" "x < 2 ^ n"
  then have x: "take_bit n x = x" by (simp add: take_bit_int_eq_self)
  have "take_bit n x AND push_bit n 1 = 0"
    by (rule bit_eqI) (auto simp: bit_simps)
  then show ?thesis by (simp only: x)
qed

lemma or_push_bit:
  assumes "0 \<le> x" "x < 2 ^ n"
  shows "x OR push_bit n 1 = x + (2 ^ n :: int)"
proof -
  have "x OR push_bit n 1 = x + push_bit n 1"
    using plus_and_or [of x "push_bit n 1"] and_push_bit [OF assms] by linarith
  then show ?thesis by (simp add: push_bit_eq_mult)
qed

lemma signed_wrap:
  "signed_take_bit n (x :: int) = (if take_bit (Suc n) x \<ge> 2 ^ n then take_bit (Suc n) x - 2 ^ Suc n else take_bit (Suc n) x)"
proof (cases "bit x n")
  case True
  then have "signed_take_bit n x = take_bit (Suc n) x - 2 ^ Suc n"
    by (simp add: signed_take_bit_eq_take_bit_minus)
  moreover have "take_bit (Suc n) x \<ge> 2 ^ n"
    using True by (simp add: take_bit_Suc_from_most)
  ultimately show ?thesis by simp
next
  case False
  then have "take_bit (Suc n) x = take_bit n x" by (simp add: take_bit_Suc_from_most)
  moreover have "\<not> 2 ^ n \<le> take_bit n x" using take_bit_int_less_exp [of n x] by linarith
  ultimately show ?thesis using False by (simp add: signed_take_bit_eq_take_bit_minus)
qed

text \<open>The remainder \<open>a % b\<close> of two integral numbers takes the sign of \<open>a\<close>.\<close>

definition js_rem :: "int \<Rightarrow> int \<Rightarrow> int" where
  "js_rem a b = (if 0 \<le> a then a mod \<bar>b\<bar> else - ((- a) mod \<bar>b\<bar>))"

lemma js_rem_pos: "0 \<le> a \<Longrightarrow> 0 < b \<Longrightarrow> js_rem a b = a mod b"
  by (simp add: js_rem_def)

section \<open>JavaScript values and arrays\<close>

text \<open>
  The values the runtime's tables hold: a number, \<open>null\<close>, \<open>undefined\<close>, or an object.
\<close>

datatype 'a jsv = JNum int | JNull | JUndef | JObj 'a

primrec truthy :: "'a jsv \<Rightarrow> bool" where
  "truthy (JNum n) = (n \<noteq> 0)"
| "truthy JNull = False"
| "truthy JUndef = False"
| "truthy (JObj a) = True"

text \<open>ToInt32 of a value that is not a number: \<open>null\<close> gives 0, \<open>undefined\<close> and an object
  (through NaN) give 0.\<close>

primrec num_of :: "'a jsv \<Rightarrow> int" where
  "num_of (JNum n) = n"
| "num_of JNull = 0"
| "num_of JUndef = 0"
| "num_of (JObj a) = 0"

text \<open>
  Reading an array outside its bounds gives \<open>undefined\<close>; writing past the end extends it, and
  the holes read as \<open>undefined\<close>. A negative index is a property that is no element: its value is
  not modelled (it reads as \<open>undefined\<close>).
\<close>

definition js_get :: "'a jsv list \<Rightarrow> int \<Rightarrow> 'a jsv" where
  "js_get xs i = (if 0 \<le> i \<and> nat i < length xs then xs ! nat i else JUndef)"

definition js_set :: "'a jsv list \<Rightarrow> int \<Rightarrow> 'a jsv \<Rightarrow> 'a jsv list" where
  "js_set xs i v =
     (if i < 0 then xs
      else if nat i < length xs then xs[nat i := v]
      else xs @ replicate (nat i - length xs) JUndef @ [v])"

lemma js_get_nth [simp]: "i < length xs \<Longrightarrow> js_get xs (int i) = xs ! i"
  by (simp add: js_get_def)

lemma js_get_out: "length xs \<le> i \<Longrightarrow> js_get xs (int i) = JUndef"
  by (simp add: js_get_def)

lemma js_set_nth [simp]: "i < length xs \<Longrightarrow> js_set xs (int i) v = xs[i := v]"
  by (simp add: js_set_def)

end
