(* ===== verification/Js_Values.thy ===== *)
theory Js_Values
  imports Prelude
begin

text \<open>
  The JavaScript values that the lift and lower functions handle, the abstract operations of
  ECMAScript on them that the emitted code uses (truthiness, ToNumber and ToBigInt where a typed
  store applies them, property access, the elements of an array), and the bytes of an integer.

  Numbers are the integral ones; floating point values, strings with characters beyond those of
  names and tags, and values with a user-defined conversion are not modelled: an operation that
  would need one gives \<open>OutOfModel\<close>.
\<close>

section \<open>Values\<close>

datatype typed_kind =
    Uint8Array | Int8Array | Uint16Array | Int16Array | Uint32Array | Int32Array
  | BigUint64Array | BigInt64Array

text \<open>\<open>VUtf16\<close> is a string with a code unit above 255; other strings are \<open>VStr\<close>.\<close>

datatype val =
    VBool bool
  | VNum int
  | VBig int
  | VStr string
  | VUtf16 "nat list"
  | VNull
  | VUndef
  | VObj "(string \<times> val) list"
  | VArr "val list"
  | VTyped typed_kind "int list"
  | VMap "(val \<times> val) list"

fun val_truthy :: "val \<Rightarrow> bool" where
  "val_truthy (VBool b) = b"
| "val_truthy (VNum n) = (n \<noteq> 0)"
| "val_truthy (VBig n) = (n \<noteq> 0)"
| "val_truthy (VStr s) = (s \<noteq> [])"
| "val_truthy (VUtf16 s) = (s \<noteq> [])"
| "val_truthy VNull = False"
| "val_truthy VUndef = False"
| "val_truthy _ = True"

text \<open>\<open>typeof v === 'object'\<close>: true of \<open>null\<close> too.\<close>

fun typeof_object :: "val \<Rightarrow> bool" where
  "typeof_object VNull = True"
| "typeof_object (VObj _) = True"
| "typeof_object (VArr _) = True"
| "typeof_object (VTyped _ _) = True"
| "typeof_object (VMap _) = True"
| "typeof_object _ = False"

text \<open>ToNumber as an integer store uses it: NaN and the infinities store 0. Of the strings, a
  single digit is its number and any other single character is NaN or, for white space, 0.\<close>

fun to_number :: "val \<Rightarrow> int js" where
  "to_number (VBool b) = Inr (if b then 1 else 0)"
| "to_number (VNum n) = Inr n"
| "to_number (VBig n) = Inl (TypeErr ''Cannot convert a BigInt value to a number'')"
| "to_number VNull = Inr 0"
| "to_number VUndef = Inr 0"
| "to_number (VStr [c]) = Inr (if 48 \<le> (of_char c :: int) \<and> (of_char c :: int) \<le> 57 then of_char c - 48 else 0)"
| "to_number (VUtf16 [c]) = Inr 0"
| "to_number _ = Inl (OutOfModel ''ToNumber'')"

fun to_bigint :: "val \<Rightarrow> int js" where
  "to_bigint (VBool b) = Inr (if b then 1 else 0)"
| "to_bigint (VBig n) = Inr n"
| "to_bigint (VNum n) = Inl (TypeErr ''Cannot convert to a BigInt'')"
| "to_bigint VNull = Inl (TypeErr ''Cannot convert to a BigInt'')"
| "to_bigint VUndef = Inl (TypeErr ''Cannot convert to a BigInt'')"
| "to_bigint _ = Inl (OutOfModel ''ToBigInt'')"

text \<open>\<open>String.fromCharCode(n)\<close> keeps the low 16 bits of \<open>n\<close>.\<close>

definition from_char_code :: "int \<Rightarrow> val" where
  "from_char_code n =
     (let u = nat (n mod 65536) in if u < 256 then VStr [char_of u] else VUtf16 [u])"

section \<open>Objects and arrays\<close>

text \<open>Own properties, in the order of insertion.\<close>

definition obj_get :: "(string \<times> val) list \<Rightarrow> string \<Rightarrow> val" where
  "obj_get kvs k = (case map_of kvs k of None \<Rightarrow> VUndef | Some v \<Rightarrow> v)"

primrec obj_set :: "(string \<times> val) list \<Rightarrow> string \<Rightarrow> val \<Rightarrow> (string \<times> val) list" where
  "obj_set [] k v = [(k, v)]"
| "obj_set (kv # kvs) k v = (if fst kv = k then (k, v) # kvs else kv # obj_set kvs k v)"

text \<open>\<open>r[k]\<close>: \<open>null\<close> and \<open>undefined\<close> have no properties; a number, a boolean or a
  bigint has none of the names the runtime reads.\<close>

fun js_prop :: "val \<Rightarrow> string \<Rightarrow> val js" where
  "js_prop (VObj kvs) k = Inr (obj_get kvs k)"
| "js_prop VNull k = Inl (TypeErr ''Cannot read properties of null'')"
| "js_prop VUndef k = Inl (TypeErr ''Cannot read properties of undefined'')"
| "js_prop (VBool b) k = Inr VUndef"
| "js_prop (VNum n) k = Inr VUndef"
| "js_prop (VBig n) k = Inr VUndef"
| "js_prop _ k = Inl (OutOfModel ''property of a built-in object'')"

text \<open>\<open>t[i]\<close> for a tuple.\<close>

fun js_index :: "val \<Rightarrow> nat \<Rightarrow> val js" where
  "js_index (VArr vs) i = Inr (if i < length vs then vs ! i else VUndef)"
| "js_index VNull i = Inl (TypeErr ''Cannot read properties of null'')"
| "js_index VUndef i = Inl (TypeErr ''Cannot read properties of undefined'')"
| "js_index (VBool b) i = Inr VUndef"
| "js_index (VNum n) i = Inr VUndef"
| "js_index (VBig n) i = Inr VUndef"
| "js_index _ i = Inl (OutOfModel ''index of a built-in object'')"

text \<open>The name of the property that a value used as a key selects.\<close>

fun prop_key :: "val \<Rightarrow> string js" where
  "prop_key (VStr s) = Inr s"
| "prop_key VUndef = Inr ''undefined''"
| "prop_key VNull = Inr ''null''"
| "prop_key (VBool b) = Inr (if b then ''true'' else ''false'')"
| "prop_key _ = Inl (OutOfModel ''ToPropertyKey'')"

fun is_big_kind :: "typed_kind \<Rightarrow> bool" where
  "is_big_kind BigUint64Array = True"
| "is_big_kind BigInt64Array = True"
| "is_big_kind _ = False"

text \<open>The value range of an element: \<open>(signed, bytes)\<close>.\<close>

fun kind_width :: "typed_kind \<Rightarrow> bool \<times> nat" where
  "kind_width Uint8Array = (False, 1)"
| "kind_width Int8Array = (True, 1)"
| "kind_width Uint16Array = (False, 2)"
| "kind_width Int16Array = (True, 2)"
| "kind_width Uint32Array = (False, 4)"
| "kind_width Int32Array = (True, 4)"
| "kind_width BigUint64Array = (False, 8)"
| "kind_width BigInt64Array = (True, 8)"

text \<open>An integer stored in \<open>n\<close> bytes and read back, signed or unsigned.\<close>

definition wrap_int :: "bool \<Rightarrow> nat \<Rightarrow> int \<Rightarrow> int" where
  "wrap_int sgned n v = (if sgned then signed_take_bit (8 * n - 1) v else take_bit (8 * n) v)"

primrec rmap :: "('a \<Rightarrow> 'e + 'b) \<Rightarrow> 'a list \<Rightarrow> 'e + 'b list" where
  "rmap f [] = Inr []"
| "rmap f (x # xs) = rbind (f x) (\<lambda>y. rbind (rmap f xs) (\<lambda>ys. Inr (y # ys)))"

text \<open>\<open>new typedArray(values)\<close> converts each value to the element type.\<close>

definition new_typed :: "typed_kind \<Rightarrow> val list \<Rightarrow> val js" where
  "new_typed k vs =
     rbind (rmap (\<lambda>v. rbind ((if is_big_kind k then to_bigint else to_number) v)
                        (\<lambda>n. Inr (wrap_int (fst (kind_width k)) (snd (kind_width k)) n))) vs)
       (\<lambda>ns. Inr (VTyped k ns))"

text \<open>The elements of an array or a typed array. Iterating another value throws, or (for a string, a
  map or an object) is not modelled.\<close>

fun list_elems :: "val \<Rightarrow> val list js" where
  "list_elems (VArr vs) = Inr vs"
| "list_elems (VTyped k ns) = Inr (map (if is_big_kind k then VBig else VNum) ns)"
| "list_elems (VStr s) = Inl (OutOfModel ''elements of a string'')"
| "list_elems (VUtf16 s) = Inl (OutOfModel ''elements of a string'')"
| "list_elems (VObj kvs) = Inl (OutOfModel ''elements of an object'')"
| "list_elems (VMap kvs) = Inl (OutOfModel ''elements of a map'')"
| "list_elems _ = Inl (TypeErr ''elems is not iterable'')"

lemma obj_get_set [simp]: "obj_get (obj_set kvs k v) k' = (if k' = k then v else obj_get kvs k')"
  by (induction kvs) (auto simp: obj_get_def)

lemma obj_set_fresh: "k \<notin> fst ` set kvs \<Longrightarrow> obj_set kvs k v = kvs @ [(k, v)]"
  by (induction kvs) auto

lemma rmap_Inr_length: "rmap f xs = Inr ys \<Longrightarrow> length ys = length xs"
  by (induction xs arbitrary: ys) (auto simp: rbind_Inr_iff)

lemma wrap_int_id:
  assumes "0 < n" "if sgned then - (2 ^ (8 * n - 1)) \<le> v \<and> v < 2 ^ (8 * n - 1) else 0 \<le> v \<and> v < 2 ^ (8 * n)"
  shows "wrap_int sgned n v = v"
  using assms by (auto simp: wrap_int_def signed_take_bit_int_eq_self take_bit_int_eq_self)

section \<open>Bytes\<close>

text \<open>The \<open>n\<close> bytes of an integer, least significant first, and the number they stand for.\<close>

primrec le_bytes :: "nat \<Rightarrow> int \<Rightarrow> 8 word list" where
  "le_bytes 0 v = []"
| "le_bytes (Suc n) v = word_of_int v # le_bytes n (v div 256)"

primrec le_val :: "8 word list \<Rightarrow> int" where
  "le_val [] = 0"
| "le_val (b # bs) = uint b + 256 * le_val bs"

lemma length_le_bytes [simp]: "length (le_bytes n v) = n"
  by (induction n arbitrary: v) auto

lemma le_val_bounds: "0 \<le> le_val bs \<and> le_val bs < 256 ^ length bs"
proof (induction bs)
  case Nil
  then show ?case by simp
next
  case (Cons b bs)
  have "0 \<le> uint b" "uint b \<le> 255" using uint_bounded [of b] by simp_all
  with Cons show ?case by simp
qed

lemma le_val_le_bytes: "le_val (le_bytes n v) = take_bit (8 * n) v"
proof (induction n arbitrary: v)
  case 0
  then show ?case by simp
next
  case (Suc n)
  have e: "take_bit (8 + 8 * n) v = take_bit 8 v + push_bit 8 (take_bit (8 * n) (drop_bit 8 v))"
    using take_bit_eq_mod [of "8 + 8 * n" v] zmod_zmult2_eq [of "2 ^ (8 * n)" v "2 ^ 8"]
    by (simp add: take_bit_eq_mod drop_bit_eq_div push_bit_eq_mult power_add algebra_simps)
  have "uint (word_of_int v :: 8 word) = take_bit 8 v" by (simp add: unsigned_of_int)
  with Suc e show ?case by (simp add: drop_bit_eq_div push_bit_eq_mult)
qed

lemma wrap_take_bit: "0 < n \<Longrightarrow> wrap_int sgned n (take_bit (8 * n) v) = wrap_int sgned n v"
  by (auto simp: wrap_int_def signed_take_bit_take_bit)

lemma wrap_le_bytes: "0 < n \<Longrightarrow> wrap_int sgned n (le_val (le_bytes n v)) = wrap_int sgned n v"
  by (simp add: le_val_le_bytes wrap_take_bit)

end
