(* ===== verification/Core_Augment.thy ===== *)
theory Core_Augment
  imports Js_Values
begin

text \<open>
  The rewriting of core modules with several memories into modules with one
  (\<open>src/crates/js-component-bindgen/src/core.rs\<close>), and the JavaScript functions that stand for the
  accesses to the other memories (\<open>augmented_import_def\<close> in
  \<open>src/crates/js-component-bindgen/src/transpile_bindgen.rs\<close>).

  Parsing, validating and encoding the binary format are third-party code. A module is the list of
  payloads that the parser yields; an instruction is one of the augmented memory accesses,
  \<open>memory.size\<close>, another instruction with a memory argument, an instruction with a function index, or
  any other instruction, which is passed through. The encoded module is the list of its sections.
  Rust's panics and errors are values of \<open>rust_error\<close>.
\<close>

section \<open>Modules\<close>

datatype augmented_op =
    I32Load | I32Load8U | I32Load8S | I32Load16U | I32Load16S | I64Load | F32Load | F64Load
  | I32Store | I32Store8 | I32Store16 | I64Store | F32Store | F64Store | MemorySize

datatype val_type = TI32 | TI64 | TF32 | TF64 | TOther nat

type_synonym func_type = "val_type list \<times> val_type list"

datatype type_ref = RefFuncTy nat | RefMemory | RefOther

record import_entry =
  im_module :: string
  im_name :: string
  im_ty :: type_ref

datatype external_kind = ExtFunc | ExtTable | ExtMemory | ExtGlobal | ExtTag | ExtFuncExact

record export_entry =
  ex_name :: string
  ex_kind :: external_kind
  ex_index :: nat

record memarg =
  ma_offset :: nat
  ma_memory :: nat

text \<open>\<open>OpAccess\<close> are the loads and stores of \<open>AugmentedOp\<close>; \<open>OpOtherMem\<close> any other instruction
  with a memory index; \<open>OpFunc\<close> an instruction with a function index (\<open>call\<close>, \<open>ref.func\<close>); and
  \<open>OpPlain\<close> the others. \<open>OpConst\<close> is \<open>i32.const\<close>.\<close>

datatype 'i operator =
    OpAccess augmented_op memarg
  | OpMemorySize nat
  | OpOtherMem 'i nat
  | OpCall nat
  | OpFunc 'i nat
  | OpConst int
  | OpPlain 'i

datatype 'i payload =
    TypeSection "func_type list"
  | ImportSection "import_entry list"
  | ExportSection "export_entry list"
  | FunctionSection "nat list"
  | CodeSectionEntry "'i operator list"
  | UnsupportedSection
  | ComponentSection
  | OtherPayload

section \<open>The augmenter\<close>

record 'i augmenter =
  imports_removed :: "(string \<times> string) set"
  imports_added :: "(string \<times> string \<times> nat \<times> augmented_op) list"
  augments :: "nat \<times> augmented_op \<Rightarrow> nat option"
  types :: "func_type list"
  aug_imports :: "import_entry list"
  imported_funcs :: nat
  imported_memories :: nat
  exports :: "export_entry list"
  local_funcs :: "'i operator list list"
  local_func_tys :: "nat list"

definition augmenter_new :: "'i augmenter" where
  "augmenter_new = \<lparr>imports_removed = {}, imports_added = [], augments = Map.empty, types = [],
     aug_imports = [], imported_funcs = 0, imported_memories = 0, exports = [], local_funcs = [],
     local_func_tys = []\<rparr>"

definition parse_import :: "import_entry \<Rightarrow> 'i augmenter \<Rightarrow> ('i augmenter) rust" where
  "parse_import i a =
     (case im_ty i of
        RefFuncTy _ \<Rightarrow> Inr (a\<lparr>imported_funcs := imported_funcs a + 1, aug_imports := aug_imports a @ [i]\<rparr>)
      | RefMemory \<Rightarrow>
          if imported_memories a > 0 then
            (if (im_module i, im_name i) \<in> imports_removed a then Inl (Panic ''assertion failed: ok'')
             else Inr (a\<lparr>imports_removed := insert (im_module i, im_name i) (imports_removed a)\<rparr>))
          else Inr (a\<lparr>imported_memories := imported_memories a + 1, aug_imports := aug_imports a @ [i]\<rparr>)
      | RefOther \<Rightarrow> Inr (a\<lparr>aug_imports := aug_imports a @ [i]\<rparr>))"

definition parse_payload :: "'i payload \<Rightarrow> 'i augmenter \<Rightarrow> ('i augmenter) rust" where
  "parse_payload p a =
     (case p of
        TypeSection ts \<Rightarrow> Inr (a\<lparr>types := types a @ ts\<rparr>)
      | ImportSection es \<Rightarrow> rfold parse_import es a
      | ExportSection es \<Rightarrow> Inr (a\<lparr>exports := exports a @ es\<rparr>)
      | FunctionSection ts \<Rightarrow> Inr (a\<lparr>local_func_tys := local_func_tys a @ ts\<rparr>)
      | CodeSectionEntry b \<Rightarrow> Inr (a\<lparr>local_funcs := local_funcs a @ [b]\<rparr>)
      | UnsupportedSection \<Rightarrow> Inl (Bail ''unsupported section found in module using multiple memories'')
      | ComponentSection \<Rightarrow> Inl (Bail ''component section found in module using multiple memories'')
      | OtherPayload \<Rightarrow> Inr a)"

text \<open>\<open>format!("mem{mem} {op:?}")\<close>\<close>

fun show_nat :: "nat \<Rightarrow> string" where
  "show_nat n = (if n < 10 then [char_of (48 + n)] else show_nat (n div 10) @ [char_of (48 + n mod 10)])"

declare show_nat.simps [simp del]

fun op_name :: "augmented_op \<Rightarrow> string" where
  "op_name I32Load = ''I32Load''"
| "op_name I32Load8U = ''I32Load8U''"
| "op_name I32Load8S = ''I32Load8S''"
| "op_name I32Load16U = ''I32Load16U''"
| "op_name I32Load16S = ''I32Load16S''"
| "op_name I64Load = ''I64Load''"
| "op_name F32Load = ''F32Load''"
| "op_name F64Load = ''F64Load''"
| "op_name I32Store = ''I32Store''"
| "op_name I32Store8 = ''I32Store8''"
| "op_name I32Store16 = ''I32Store16''"
| "op_name I64Store = ''I64Store''"
| "op_name F32Store = ''F32Store''"
| "op_name F64Store = ''F64Store''"
| "op_name MemorySize = ''MemorySize''"

definition augment_op :: "nat \<Rightarrow> augmented_op \<Rightarrow> 'i augmenter \<Rightarrow> 'i augmenter" where
  "augment_op mem op a =
     (if mem = 0 then a
      else let index = mem - 1 in
        (case augments a (index, op) of
           Some _ \<Rightarrow> a
         | None \<Rightarrow>
             let idx = imported_funcs a + length (imports_added a) in
             a\<lparr>imports_added := imports_added a @ [(''augments'', ''mem'' @ show_nat mem @ '' '' @ op_name op, index, op)],
               augments := (augments a)((index, op) \<mapsto> idx)\<rparr>))"

text \<open>\<open>CollectMemOps\<close>: the macro \<open>define_visit\<close> panics on every instruction with a memory argument
  that is not in its list, whatever the index is.\<close>

definition visit_operator :: "'i operator \<Rightarrow> 'i augmenter \<Rightarrow> ('i augmenter) rust" where
  "visit_operator op a =
     (case op of
        OpAccess o1 ma \<Rightarrow> Inr (augment_op (ma_memory ma) o1 a)
      | OpMemorySize mem \<Rightarrow> Inr (augment_op mem MemorySize a)
      | OpOtherMem _ _ \<Rightarrow> Inl (Panic ''missed case'')
      | _ \<Rightarrow> Inr a)"

section \<open>Encoding\<close>

definition remap_func :: "'i augmenter \<Rightarrow> nat \<Rightarrow> nat" where
  "remap_func a index = (if index < imported_funcs a then index else index + length (imports_added a))"

definition remap_memory :: "nat \<Rightarrow> nat rust" where
  "remap_memory index = (if index < 1 then Inr index else Inl (Panic ''assertion failed: index < 1''))"

fun encode_type :: "augmented_op \<Rightarrow> func_type" where
  "encode_type I32Load = ([TI32, TI32], [TI32])"
| "encode_type I32Load8U = ([TI32, TI32], [TI32])"
| "encode_type I32Load8S = ([TI32, TI32], [TI32])"
| "encode_type I32Load16U = ([TI32, TI32], [TI32])"
| "encode_type I32Load16S = ([TI32, TI32], [TI32])"
| "encode_type I64Load = ([TI32, TI32], [TI64])"
| "encode_type F32Load = ([TI32, TI32], [TF32])"
| "encode_type F64Load = ([TI32, TI32], [TF64])"
| "encode_type I32Store = ([TI32, TI32, TI32], [])"
| "encode_type I32Store8 = ([TI32, TI32, TI32], [])"
| "encode_type I32Store16 = ([TI32, TI32, TI32], [])"
| "encode_type I64Store = ([TI32, TI64, TI32], [])"
| "encode_type F32Store = ([TI32, TF32, TI32], [])"
| "encode_type F64Store = ([TI32, TF64, TI32], [])"
| "encode_type MemorySize = ([], [TI32])"

text \<open>Indexing the hash map panics when there is no entry.\<close>

definition augment_index :: "'i augmenter \<Rightarrow> nat \<times> augmented_op \<Rightarrow> nat rust" where
  "augment_index a k = (case augments a k of None \<Rightarrow> Inl (Panic ''no entry found for key'') | Some f \<Rightarrow> Inr f)"

text \<open>\<open>memarg.offset as i32\<close> keeps the low 32 bits.\<close>

definition augment :: "'i augmenter \<Rightarrow> augmented_op \<Rightarrow> memarg \<Rightarrow> ('i operator list) rust" where
  "augment a op ma =
     rbind (augment_index a (ma_memory ma - 1, op)) (\<lambda>f.
       Inr [OpConst (to_int32 (int (ma_offset ma))), OpCall f])"

text \<open>The fall-back \<open>self.instruction(operator)\<close> re-encodes an instruction with its function and memory
  indices remapped.\<close>

definition translate :: "'i augmenter \<Rightarrow> 'i operator \<Rightarrow> ('i operator list) rust" where
  "translate a op =
     (case op of
        OpAccess o1 ma \<Rightarrow>
          if ma_memory ma > 0 then augment a o1 ma
          else rbind (remap_memory (ma_memory ma)) (\<lambda>m. Inr [OpAccess o1 (ma\<lparr>ma_memory := m\<rparr>)])
      | OpMemorySize mem \<Rightarrow>
          if mem > 0 then rbind (augment_index a (mem - 1, MemorySize)) (\<lambda>f. Inr [OpCall f])
          else rbind (remap_memory mem) (\<lambda>m. Inr [OpMemorySize m])
      | OpOtherMem i mem \<Rightarrow> rbind (remap_memory mem) (\<lambda>m. Inr [OpOtherMem i m])
      | OpCall f \<Rightarrow> Inr [OpCall (remap_func a f)]
      | OpFunc i f \<Rightarrow> Inr [OpFunc i (remap_func a f)]
      | OpConst n \<Rightarrow> Inr [OpConst n]
      | OpPlain i \<Rightarrow> Inr [OpPlain i])"

definition encode_export :: "'i augmenter \<Rightarrow> export_entry \<Rightarrow> export_entry rust" where
  "encode_export a e =
     (case ex_kind e of
        ExtFunc \<Rightarrow> Inr (e\<lparr>ex_index := remap_func a (ex_index e)\<rparr>)
      | ExtFuncExact \<Rightarrow> Inr (e\<lparr>ex_kind := ExtFunc, ex_index := remap_func a (ex_index e)\<rparr>)
      | ExtMemory \<Rightarrow> if ex_index e < 1 then Inr e else Inl (Panic ''assertion failed: e.index < 1'')
      | _ \<Rightarrow> Inr e)"

record 'i encoded =
  en_types :: "func_type list"
  en_imports :: "import_entry list"
  en_funcs :: "nat list"
  en_exports :: "export_entry list"
  en_code :: "'i operator list list"

text \<open>The imports of the accessors, each with a type of its own at the end of the type section.\<close>

definition added_imports :: "'i augmenter \<Rightarrow> import_entry list" where
  "added_imports a =
     map (\<lambda>(k, (m, n, _, _)). \<lparr>im_module = m, im_name = n, im_ty = RefFuncTy (length (types a) + k)\<rparr>)
       (zip [0..<length (imports_added a)] (imports_added a))"

definition encode :: "'i augmenter \<Rightarrow> ('i encoded) rust" where
  "encode a =
     rbind (rmap (encode_export a) (exports a)) (\<lambda>es.
     rbind (rmap (\<lambda>body. rbind (rmap (translate a) body) (\<lambda>ops. Inr (concat ops))) (local_funcs a)) (\<lambda>code.
       Inr \<lparr>en_types = types a @ map (\<lambda>(_, _, _, op). encode_type op) (imports_added a),
            en_imports = aug_imports a @ added_imports a,
            en_funcs = local_func_tys a, en_exports = es, en_code = code\<rparr>))"

definition augmenter_run :: "'i payload list \<Rightarrow> ('i encoded \<times> 'i augmenter) rust" where
  "augmenter_run ps =
     rbind (rfold parse_payload ps augmenter_new) (\<lambda>a.
     rbind (rfold visit_operator (concat (local_funcs a)) a) (\<lambda>a'.
     rbind (encode a') (\<lambda>m. Inr (m, a'))))"

section \<open>Translations\<close>

record 'i module_translation =
  mt_payloads :: "'i payload list"
  mt_imports :: "(string \<times> string) list"
  mt_exports :: "(string \<times> nat) list"

datatype 'i translation =
    Normal "'i module_translation"
  | Augmented "'i module_translation" "'i encoded" "(string \<times> string) set" "(string \<times> string \<times> nat \<times> augmented_op) list"

text \<open>\<open>valid_single\<close> and \<open>valid_multi\<close> are the validator's answers without and with the
  multi-memory feature.\<close>

definition translation_new :: "bool \<Rightarrow> bool \<Rightarrow> 'i module_translation \<Rightarrow> bool \<Rightarrow> ('i translation) rust" where
  "translation_new valid_single valid_multi t multi_memory =
     (if multi_memory then Inr (Normal t)
      else if valid_single then Inr (Normal t)
      else if \<not> valid_multi then Inl (Bail ''validation failed'')
      else rbind (augmenter_run (mt_payloads t)) (\<lambda>(wasm, a).
        Inr (Augmented t wasm (imports_removed a) (imports_added a))))"

datatype 'd augmented_import = ImpCoreDef 'd | ImpMemory 'd augmented_op

fun split_imports ::
    "(string \<times> string) set \<Rightarrow> ((string \<times> string) \<times> 'd) list \<Rightarrow> (string \<times> string \<times> 'd augmented_import) list \<times> 'd list" where
  "split_imports removed [] = ([], [])"
| "split_imports removed (((m, n), arg) # xs) =
     (let (ret, mems) = split_imports removed xs in
      if (m, n) \<in> removed then (ret, arg # mems) else ((m, n, ImpCoreDef arg) # ret, mems))"

definition translation_imports :: "'i translation \<Rightarrow> 'd list \<Rightarrow> ((string \<times> string \<times> 'd augmented_import) list) rust" where
  "translation_imports t args =
     (case t of
        Normal mt \<Rightarrow>
          if length (mt_imports mt) \<noteq> length args then Inl (Panic ''assertion failed: lengths'')
          else Inr (map (\<lambda>((m, n), arg). (m, n, ImpCoreDef arg)) (zip (mt_imports mt) args))
      | Augmented mt _ removed added \<Rightarrow>
          let (ret, memories) = split_imports removed (zip (mt_imports mt) args) in
          rbind (rmap (\<lambda>(m, n, index, op).
                   if index < length memories then Inr (m, n, ImpMemory (memories ! index) op)
                   else Inl (Panic ''index out of bounds'')) added)
            (\<lambda>extra. Inr (ret @ extra)))"

definition translation_exports :: "'i translation \<Rightarrow> (string \<times> nat) list" where
  "translation_exports t = (case t of Normal mt \<Rightarrow> mt_exports mt | Augmented mt _ _ _ \<Rightarrow> mt_exports mt)"

section \<open>The accessor functions\<close>

text \<open>A value on WebAssembly's stack. Floats are not modelled.\<close>

datatype wval = WI32 "32 word" | WI64 "64 word"

text \<open>The width of an access and whether it extends the sign.\<close>

fun access_width :: "augmented_op \<Rightarrow> (bool \<times> nat) option" where
  "access_width I32Load = Some (True, 4)"
| "access_width I32Load8U = Some (False, 1)"
| "access_width I32Load8S = Some (True, 1)"
| "access_width I32Load16U = Some (False, 2)"
| "access_width I32Load16S = Some (True, 2)"
| "access_width I64Load = Some (True, 8)"
| "access_width I32Store = Some (True, 4)"
| "access_width I32Store8 = Some (True, 1)"
| "access_width I32Store16 = Some (True, 2)"
| "access_width I64Store = Some (True, 8)"
| "access_width _ = None"

definition view_get :: "bool \<Rightarrow> nat \<Rightarrow> 8 word list \<Rightarrow> int \<Rightarrow> int js" where
  "view_get sgned n mem p =
     (if 0 \<le> p \<and> p + int n \<le> int (length mem) then Inr (wrap_int sgned n (le_val (take n (drop (nat p) mem))))
      else Inl (RangeErr ''Offset is outside the bounds of the DataView''))"

definition view_set :: "nat \<Rightarrow> 8 word list \<Rightarrow> int \<Rightarrow> int \<Rightarrow> (8 word list) js" where
  "view_set n mem p v =
     (if 0 \<le> p \<and> p + int n \<le> int (length mem)
      then Inr (take (nat p) mem @ le_bytes n v @ drop (nat p + n) mem)
      else Inl (RangeErr ''Offset is outside the bounds of the DataView''))"

text \<open>The function that \<open>augmented_import_def\<close> writes for an operation on the memory \<open>mem\<close>. A
  parameter of type \<open>i32\<close> or \<open>i64\<close> arrives in JavaScript as a signed number or bigint, and a result
  is reduced to the width of its type.\<close>

definition augmented_import_def :: "augmented_op \<Rightarrow> 8 word list \<Rightarrow> wval list \<Rightarrow> (wval list \<times> 8 word list) js" where
  "augmented_import_def op mem args =
     (case (access_width op, args) of
        (Some (sgned, n), [WI32 ptr, WI32 off]) \<Rightarrow>
          if op \<in> {I32Load, I32Load8U, I32Load8S, I32Load16U, I32Load16S} then
            rbind (view_get sgned n mem (sint ptr + sint off)) (\<lambda>x. Inr ([WI32 (word_of_int x)], mem))
          else if op = I64Load then
            rbind (view_get sgned n mem (sint ptr + sint off)) (\<lambda>x. Inr ([WI64 (word_of_int x)], mem))
          else Inl (OutOfModel ''arity'')
      | (Some (_, n), [WI32 ptr, WI32 v, WI32 off]) \<Rightarrow>
          if op \<in> {I32Store, I32Store8, I32Store16} then
            rbind (view_set n mem (sint ptr + sint off) (sint v)) (\<lambda>mem'. Inr ([], mem'))
          else Inl (OutOfModel ''arity'')
      | (Some (_, n), [WI32 ptr, WI64 v, WI32 off]) \<Rightarrow>
          if op = I64Store then
            rbind (view_set n mem (sint ptr + sint off) (sint v)) (\<lambda>mem'. Inr ([], mem'))
          else Inl (OutOfModel ''arity'')
      | (None, []) \<Rightarrow>
          if op = MemorySize then Inr ([WI32 (word_of_int (int (length mem) div 65536))], mem)
          else Inl (OutOfModel ''floats'')
      | _ \<Rightarrow> Inl (OutOfModel ''arity or floats''))"

end
