(* ===== verification/Names.thy ===== *)
theory Names
  imports Core_Augment "HOL-Library.List_Lexorder" "HOL-Library.Char_ord"
begin

text \<open>
  Identifiers of the generated JavaScript (\<open>src/crates/js-component-bindgen/src/names.rs\<close>):
  conversion of arbitrary names to identifiers, and \<open>LocalNames\<close>, which hands out names that are
  not in use yet. Strings are lists of 8-bit characters. The conversion to camel case is a
  third-party function (\<open>heck\<close>), the parameter \<open>camel\<close>; the hash of a unique id is a number.
\<close>

section \<open>Reserved words\<close>

definition RESERVED_KEYWORDS :: "string list" where
  "RESERVED_KEYWORDS =
    [''await'', ''break'', ''case'', ''catch'', ''class'', ''const'', ''continue'', ''debugger'', ''default'',
     ''delete'', ''do'', ''eval'', ''else'', ''enum'', ''export'', ''extends'', ''false'', ''finally'', ''for'',
     ''function'', ''if'', ''implements'', ''import'', ''in'', ''instanceof'', ''interface'', ''let'', ''new'',
     ''null'', ''package'', ''private'', ''protected'', ''public'', ''return'', ''static'', ''super'', ''switch'',
     ''this'', ''throw'', ''true'', ''try'', ''typeof'', ''var'', ''void'', ''while'', ''with'', ''yield'']"

text \<open>\<open>slice::binary_search\<close> of the standard library (since Rust 1.82): \<open>base\<close> moves up while the
  middle element is not greater than the key.\<close>

function bsearch_base :: "('a :: linorder) list \<Rightarrow> 'a \<Rightarrow> nat \<Rightarrow> nat \<Rightarrow> nat" where
  "bsearch_base xs x base sz =
     (if sz > 1 then
        (let half = sz div 2; mid = base + half in
         bsearch_base xs x (if xs ! mid > x then base else mid) (sz - half))
      else base)"
  by pat_completeness auto
termination by (relation "measure (\<lambda>(_, _, _, sz). sz)") auto

declare bsearch_base.simps [simp del]

definition binary_search_ok :: "('a :: linorder) list \<Rightarrow> 'a \<Rightarrow> bool" where
  "binary_search_ok xs x = (xs \<noteq> [] \<and> xs ! bsearch_base xs x 0 (length xs) = x)"

definition is_js_reserved_word :: "string \<Rightarrow> bool" where
  "is_js_reserved_word s = binary_search_ok RESERVED_KEYWORDS s"

section \<open>Identifiers\<close>

definition is_letter :: "char \<Rightarrow> bool" where
  "is_letter c = (let n = of_char c :: nat in 65 \<le> n \<and> n \<le> 90 \<or> 97 \<le> n \<and> n \<le> 122)"

definition is_digit :: "char \<Rightarrow> bool" where
  "is_digit c = (let n = of_char c :: nat in 48 \<le> n \<and> n \<le> 57)"

definition is_valid_js_identifier_start :: "char \<Rightarrow> bool" where
  "is_valid_js_identifier_start c = (is_letter c \<or> c = CHR ''$'' \<or> c = CHR ''_'')"

definition is_valid_js_identifier_char :: "char \<Rightarrow> bool" where
  "is_valid_js_identifier_char c = (is_digit c \<or> is_letter c \<or> c = CHR ''$'' \<or> c = CHR ''_'')"

definition is_valid_js_identifier :: "string \<Rightarrow> bool" where
  "is_valid_js_identifier s =
     (case s of
        [] \<Rightarrow> False
      | c # cs \<Rightarrow> is_valid_js_identifier_start c \<and> list_all is_valid_js_identifier_char cs \<and> \<not> is_js_reserved_word s)"

text \<open>The loop over the characters of the camel-case name.\<close>

fun identifier_of :: "string \<Rightarrow> string \<Rightarrow> string" where
  "identifier_of acc [] = acc"
| "identifier_of acc (c # cs) =
     (let valid_char = (if acc = [] then is_valid_js_identifier_start c else is_valid_js_identifier_char c)
      in identifier_of (acc @ [if valid_char then c else if c = CHR ''.'' then CHR ''_'' else CHR ''$'']) cs)"

definition to_js_identifier :: "(string \<Rightarrow> string) \<Rightarrow> string \<Rightarrow> string rust" where
  "to_js_identifier camel goal_name =
     (if is_valid_js_identifier goal_name then Inr goal_name
      else
        let identifier = identifier_of [] (camel goal_name) in
        if \<not> is_valid_js_identifier identifier then
          let identifier = CHR ''_'' # identifier in
          if \<not> is_valid_js_identifier identifier then Inl (Panic ''Unable to generate valid identifier'')
          else Inr identifier
        else Inr identifier)"

definition maybe_quote_id :: "string \<Rightarrow> string" where
  "maybe_quote_id name = (if is_valid_js_identifier name then name else [CHR 0x27] @ name @ [CHR 0x27])"

definition maybe_quote_member :: "string \<Rightarrow> string" where
  "maybe_quote_member name =
     (if name = ''*'' then ''''
      else if is_valid_js_identifier name then CHR ''.'' # name
      else ''['' @ [CHR 0x27] @ name @ [CHR 0x27] @ '']'')"

section \<open>Local names\<close>

record local_names =
  local_name_ids :: "(nat \<times> string) list"
  local_name_set :: "string list"

definition local_names_default :: local_names where
  "local_names_default = \<lparr>local_name_ids = [], local_name_set = []\<rparr>"

definition exclude_globals :: "string list \<Rightarrow> local_names \<Rightarrow> local_names" where
  "exclude_globals globals s = s\<lparr>local_name_set := fold List.insert globals (local_name_set s)\<rparr>"

text \<open>The part of the name behind the last slash.\<close>

definition after_last_slash :: "string \<Rightarrow> string" where
  "after_last_slash s = rev (takeWhile (\<lambda>c. c \<noteq> CHR ''/'') (rev s))"

text \<open>The search for a free suffix, with fuel. One more step than there are names is enough.\<close>

primrec free_suffix :: "nat \<Rightarrow> string list \<Rightarrow> string \<Rightarrow> nat \<Rightarrow> string option" where
  "free_suffix 0 names goal idx = None"
| "free_suffix (Suc fuel) names goal idx =
     (let valid_name_suffixed = goal @ CHR ''$'' # show_nat idx in
      if valid_name_suffixed \<notin> set names then Some valid_name_suffixed
      else free_suffix fuel names goal (Suc idx))"

definition create_once :: "(string \<Rightarrow> string) \<Rightarrow> string \<Rightarrow> local_names \<Rightarrow> (string \<times> local_names) rust" where
  "create_once camel goal_name s =
     rbind (to_js_identifier camel (after_last_slash goal_name)) (\<lambda>goal.
       rbind (if goal \<in> set (local_name_set s)
              then (case free_suffix (Suc (length (local_name_set s))) (local_name_set s) goal 1 of
                      None \<Rightarrow> Inl (Panic ''out of fuel'')
                    | Some g \<Rightarrow> Inr g)
              else Inr goal) (\<lambda>goal.
         Inr (goal, s\<lparr>local_name_set := List.insert goal (local_name_set s)\<rparr>)))"

definition local_names_get :: "nat \<Rightarrow> local_names \<Rightarrow> string rust" where
  "local_names_get hash s =
     (case map_of (local_name_ids s) hash of
        None \<Rightarrow> Inl (Panic ''Internal error, no name defined in local names map'')
      | Some n \<Rightarrow> Inr n)"

definition local_names_try_get :: "nat \<Rightarrow> local_names \<Rightarrow> string option" where
  "local_names_try_get hash s = map_of (local_name_ids s) hash"

definition get_or_create :: "(string \<Rightarrow> string) \<Rightarrow> nat \<Rightarrow> string \<Rightarrow> local_names \<Rightarrow> ((string \<times> bool) \<times> local_names) rust" where
  "get_or_create camel hash goal_name s =
     (case map_of (local_name_ids s) hash of
        Some n \<Rightarrow> Inr ((n, True), s)
      | None \<Rightarrow>
          rbind (create_once camel goal_name s) (\<lambda>(goal, s').
            Inr ((goal, False), s'\<lparr>local_name_ids := (hash, goal) # local_name_ids s'\<rparr>)))"

section \<open>Decimal numbers\<close>

lemma digit_char: "n < 10 \<Longrightarrow> is_digit (char_of (48 + n :: nat))"
  by (simp add: is_digit_def Let_def)

lemma show_nat_digits: "list_all is_digit (show_nat n)"
proof (induction n rule: show_nat.induct)
  case (1 n)
  then show ?case by (subst show_nat.simps) (auto simp: digit_char)
qed

lemma show_nat_nonempty: "show_nat n \<noteq> []"
  by (subst show_nat.simps) auto

lemma show_nat_inj: "show_nat n = show_nat m \<Longrightarrow> n = m"
proof (induction n arbitrary: m rule: show_nat.induct)
  case (1 n)
  have ch: "char_of (48 + a :: nat) = char_of (48 + b) \<Longrightarrow> a < 10 \<Longrightarrow> b < 10 \<Longrightarrow> a = b" for a b :: nat
    by (drule arg_cong [where f = "of_char :: char \<Rightarrow> nat"]) simp
  show ?case
  proof (cases "n < 10"; cases "m < 10")
    assume "n < 10" "m < 10"
    with 1(2) ch show ?thesis by (simp add: show_nat.simps [of n] show_nat.simps [of m])
  next
    assume "n < 10" "\<not> m < 10"
    with 1(2) show ?thesis by (simp add: show_nat.simps [of n] show_nat.simps [of m] show_nat_nonempty show_nat_nonempty [symmetric])
  next
    assume "\<not> n < 10" "m < 10"
    with 1(2) show ?thesis by (simp add: show_nat.simps [of n] show_nat.simps [of m] show_nat_nonempty show_nat_nonempty [symmetric])
  next
    assume n: "\<not> n < 10" and m: "\<not> m < 10"
    with 1(2) have "show_nat (n div 10) = show_nat (m div 10)" "char_of (48 + n mod 10) = (char_of (48 + m mod 10) :: char)"
      by (simp_all add: show_nat.simps [of n] show_nat.simps [of m])
    then have "n div 10 = m div 10" "n mod 10 = m mod 10" using 1(1) [OF n] ch [of "n mod 10" "m mod 10"] by auto
    then show ?thesis by (metis div_mult_mod_eq)
  qed
qed

section \<open>Reserved words and identifiers\<close>

lemma binary_search_mem: "binary_search_ok xs x \<Longrightarrow> x \<in> set xs"
proof -
  have "base + sz \<le> length xs \<Longrightarrow> 0 < sz \<Longrightarrow> bsearch_base xs x base sz < length xs" for base sz
  proof (induction xs x base sz rule: bsearch_base.induct)
    case (1 xs x base sz)
    then show ?case by (subst bsearch_base.simps) (auto simp: Let_def)
  qed
  from this [of 0 "length xs"] show "binary_search_ok xs x \<Longrightarrow> x \<in> set xs"
    by (auto simp: binary_search_ok_def) (metis length_greater_0_conv nth_mem)
qed

lemma reserved_mem: "is_js_reserved_word s \<Longrightarrow> s \<in> set RESERVED_KEYWORDS"
  by (simp add: is_js_reserved_word_def binary_search_mem)

lemma reserved_letters: "s \<in> set RESERVED_KEYWORDS \<Longrightarrow> CHR ''$'' \<notin> set s \<and> CHR ''_'' \<notin> set s"
  by (auto simp: RESERVED_KEYWORDS_def)

lemma start_char_valid: "is_valid_js_identifier_start c \<Longrightarrow> is_valid_js_identifier_char c"
  by (auto simp: is_valid_js_identifier_start_def is_valid_js_identifier_char_def)

lemma sep_chars:
  "is_valid_js_identifier_start (CHR ''_'')" "is_valid_js_identifier_start (CHR ''$'')"
  "is_valid_js_identifier_char (CHR ''_'')" "is_valid_js_identifier_char (CHR ''$'')"
  by (simp_all add: is_valid_js_identifier_start_def is_valid_js_identifier_char_def)

definition ident_shape :: "string \<Rightarrow> bool" where
  "ident_shape s = (case s of [] \<Rightarrow> True | c # cs \<Rightarrow> is_valid_js_identifier_start c \<and> list_all is_valid_js_identifier_char cs)"

lemma identifier_of_shape: "ident_shape acc \<Longrightarrow> ident_shape (identifier_of acc cs)"
proof (induction acc cs rule: identifier_of.induct)
  case (1 acc)
  then show ?case by simp
next
  case (2 acc c cs)
  let ?c = "if (if acc = [] then is_valid_js_identifier_start c else is_valid_js_identifier_char c) then c
    else if c = CHR ''.'' then CHR ''_'' else CHR ''$''"
  have "ident_shape (acc @ [?c])"
    using 2(2) by (cases acc) (auto simp: ident_shape_def sep_chars)
  from 2(1) [OF refl this] show ?case by (simp add: Let_def)
qed

lemma underscore_valid: "ident_shape s \<Longrightarrow> is_valid_js_identifier (CHR ''_'' # s)"
proof -
  assume "ident_shape s"
  then have "list_all is_valid_js_identifier_char s"
    by (cases s) (auto simp: ident_shape_def start_char_valid)
  moreover have "\<not> is_js_reserved_word (CHR ''_'' # s)"
    using reserved_mem reserved_letters by fastforce
  ultimately show ?thesis by (simp add: is_valid_js_identifier_def sep_chars)
qed

lemma to_js_identifier_valid: "\<exists>s. to_js_identifier camel name = Inr s \<and> is_valid_js_identifier s"
proof -
  have "ident_shape (identifier_of [] (camel name))" by (rule identifier_of_shape) (simp add: ident_shape_def)
  then show ?thesis using underscore_valid by (auto simp: to_js_identifier_def Let_def)
qed

lemma suffix_valid:
  assumes "is_valid_js_identifier g"
  shows "is_valid_js_identifier (g @ CHR ''$'' # show_nat n)"
proof -
  from assms obtain c cs where g: "g = c # cs" "is_valid_js_identifier_start c" "list_all is_valid_js_identifier_char cs"
    by (auto simp: is_valid_js_identifier_def split: list.splits)
  have "list_all is_valid_js_identifier_char (show_nat n)"
    using show_nat_digits [of n] by (simp add: list_all_iff is_valid_js_identifier_char_def)
  moreover have "\<not> is_js_reserved_word (g @ CHR ''$'' # show_nat n)"
    using reserved_mem reserved_letters by fastforce
  ultimately show ?thesis using g by (simp add: is_valid_js_identifier_def sep_chars)
qed

section \<open>Fresh names\<close>

lemma free_suffix_Some:
  "free_suffix fuel names goal idx = Some g \<Longrightarrow> g \<notin> set names \<and> (\<exists>n. g = goal @ CHR ''$'' # show_nat n)"
  by (induction fuel arbitrary: idx) (auto simp: Let_def split: if_splits)

lemma free_suffix_None:
  "free_suffix fuel names goal idx = None \<Longrightarrow> (\<lambda>n. goal @ CHR ''$'' # show_nat n) ` {idx..<idx + fuel} \<subseteq> set names"
proof (induction fuel arbitrary: idx)
  case 0
  then show ?case by simp
next
  case (Suc fuel)
  have "{idx..<idx + Suc fuel} = insert idx {Suc idx..<Suc idx + fuel}" by auto
  with Suc.prems Suc.IH [of "Suc idx"] show ?case by (auto simp: Let_def split: if_splits)
qed

lemma free_suffix_enough: "free_suffix (Suc (length names)) names goal idx \<noteq> None"
proof
  assume "free_suffix (Suc (length names)) names goal idx = None"
  from free_suffix_None [OF this] have
    s: "(\<lambda>n. goal @ CHR ''$'' # show_nat n) ` {idx..<idx + Suc (length names)} \<subseteq> set names" .
  have "inj_on (\<lambda>n. goal @ CHR ''$'' # show_nat n) {idx..<idx + Suc (length names)}"
    by (rule inj_onI) (auto dest: show_nat_inj)
  from card_image [OF this] card_mono [OF _ s] have "Suc (length names) \<le> card (set names)" by simp
  with card_length [of names] show False by simp
qed

text \<open>The names in use cover the ids' names, and different ids have different names.\<close>

definition names_inv :: "local_names \<Rightarrow> bool" where
  "names_inv s \<longleftrightarrow>
     distinct (map fst (local_name_ids s)) \<and> distinct (map snd (local_name_ids s)) \<and>
     snd ` set (local_name_ids s) \<subseteq> set (local_name_set s)"

lemma create_once_spec:
  "\<exists>g s'. create_once camel goal s = Inr (g, s') \<and> g \<notin> set (local_name_set s) \<and> is_valid_js_identifier g \<and>
     local_name_ids s' = local_name_ids s \<and> set (local_name_set s') = insert g (set (local_name_set s))"
proof -
  obtain g0 where g0: "to_js_identifier camel (after_last_slash goal) = Inr g0" "is_valid_js_identifier g0"
    using to_js_identifier_valid by blast
  show ?thesis
  proof (cases "g0 \<in> set (local_name_set s)")
    case True
    obtain g where g: "free_suffix (Suc (length (local_name_set s))) (local_name_set s) g0 1 = Some g"
      using free_suffix_enough by (metis not_Some_eq)
    with free_suffix_Some [OF g] suffix_valid [OF g0(2)] True g0(1) show ?thesis by (auto simp: create_once_def)
  next
    case False
    with g0 show ?thesis by (simp add: create_once_def)
  qed
qed

datatype name_op = Exclude "string list" | CreateOnce string | GetOrCreate nat string

definition name_step :: "(string \<Rightarrow> string) \<Rightarrow> name_op \<Rightarrow> local_names \<Rightarrow> local_names rust" where
  "name_step camel op s =
     (case op of
        Exclude gs \<Rightarrow> Inr (exclude_globals gs s)
      | CreateOnce g \<Rightarrow> rbind (create_once camel g s) (\<lambda>(_, s'). Inr s')
      | GetOrCreate h g \<Rightarrow> rbind (get_or_create camel h g s) (\<lambda>(_, s'). Inr s'))"

lemma set_fold_insert: "set (fold List.insert xs ys) = set xs \<union> set ys"
  by (induction xs arbitrary: ys) auto

lemma name_step_inv:
  assumes "names_inv s"
  shows "\<exists>s'. name_step camel op s = Inr s' \<and> names_inv s' \<and> (\<forall>h n. map_of (local_name_ids s) h = Some n \<longrightarrow> map_of (local_name_ids s') h = Some n)"
proof (cases op)
  case (Exclude gs)
  with assms show ?thesis by (auto simp: name_step_def exclude_globals_def names_inv_def set_fold_insert)
next
  case (CreateOnce g)
  obtain n s' where "create_once camel g s = Inr (n, s')" "local_name_ids s' = local_name_ids s"
    "set (local_name_set s') = insert n (set (local_name_set s))" using create_once_spec by blast
  with CreateOnce assms show ?thesis by (auto simp: name_step_def names_inv_def)
next
  case (GetOrCreate h g)
  obtain n s' where c: "create_once camel g s = Inr (n, s')" "local_name_ids s' = local_name_ids s" "n \<notin> set (local_name_set s)"
    "set (local_name_set s') = insert n (set (local_name_set s))" using create_once_spec by blast
  show ?thesis
  proof (cases "map_of (local_name_ids s) h")
    case None
    then have "h \<notin> fst ` set (local_name_ids s)" by (simp add: map_of_eq_None_iff)
    moreover have "n \<notin> snd ` set (local_name_ids s)" using c(3) assms by (auto simp: names_inv_def)
    ultimately have "names_inv (s'\<lparr>local_name_ids := (h, n) # local_name_ids s\<rparr>)"
      using assms c by (auto simp: names_inv_def)
    then show ?thesis using GetOrCreate None c by (auto simp: name_step_def get_or_create_def)
  next
    case (Some n)
    with GetOrCreate assms show ?thesis by (simp add: name_step_def get_or_create_def)
  qed
qed

lemma name_run_inv:
  "names_inv s \<Longrightarrow> \<exists>s'. rfold (name_step camel) ops s = Inr s' \<and> names_inv s' \<and>
    (\<forall>h n. map_of (local_name_ids s) h = Some n \<longrightarrow> map_of (local_name_ids s') h = Some n)"
proof (induction ops arbitrary: s)
  case Nil
  then show ?case by simp
next
  case (Cons op ops)
  from name_step_inv [OF Cons.prems, of camel op] obtain s1 where s1: "name_step camel op s = Inr s1" "names_inv s1"
    "\<forall>h n. map_of (local_name_ids s) h = Some n \<longrightarrow> map_of (local_name_ids s1) h = Some n" by blast
  from Cons.IH [OF s1(2)] s1 show ?case by auto
qed

section \<open>Properties\<close>


text \<open>C26. After any sequence of operations on new local names, different ids have different names, and
  a name once given to an id stays with it.\<close>

theorem local_names_injective:
  assumes "rfold (name_step camel) ops local_names_default = Inr s"
    and "map_of (local_name_ids s) h = Some n" "map_of (local_name_ids s) h' = Some n'" "h \<noteq> h'"
  shows "n \<noteq> n' \<and> (\<exists>s'. rfold (name_step camel) ops' s = Inr s' \<and> local_names_get h s' = Inr n)"
proof -
  have "names_inv local_names_default" by (simp add: names_inv_def local_names_default_def)
  from name_run_inv [OF this, of camel ops] assms(1) have i: "names_inv s" by auto
  have m: "(h, n) \<in> set (local_name_ids s)" "(h', n') \<in> set (local_name_ids s)"
    using assms(2,3) by (simp_all add: map_of_SomeD)
  have "n \<noteq> n'"
  proof
    assume "n = n'"
    moreover from i have "inj_on snd (set (local_name_ids s))" by (simp add: names_inv_def distinct_map)
    ultimately have "(h, n) = (h', n')" using m by (auto dest!: inj_onD [where x = "(h, n)" and y = "(h', n')"])
    with assms(4) show False by simp
  qed
  moreover from name_run_inv [OF i] assms(2) have "\<exists>s'. rfold (name_step camel) ops' s = Inr s' \<and> map_of (local_name_ids s') h = Some n"
    by blast
  ultimately show ?thesis by (auto simp: local_names_get_def)
qed

lemma demo_names:
  "rfold (name_step (\<lambda>s. s)) [GetOrCreate 1 ''wasi:io/poll'', GetOrCreate 2 ''poll''] local_names_default =
     Inr \<lparr>local_name_ids = [(2, ''poll$1''), (1, ''poll'')], local_name_set = [''poll$1'', ''poll'']\<rparr>"
  by code_simp

theorem local_names_injective_witness:
  "\<exists>s'. rfold (name_step (\<lambda>s. s)) [CreateOnce ''poll'']
     \<lparr>local_name_ids = [(2, ''poll$1''), (1, ''poll'')], local_name_set = [''poll$1'', ''poll'']\<rparr> = Inr s'
     \<and> local_names_get 1 s' = Inr ''poll''"
  using local_names_injective [OF demo_names, of 1 "''poll''" 2 "''poll$1''" "[CreateOnce ''poll'']"] by simp

text \<open>The list of reserved words is not sorted (\<open>eval\<close> stands before \<open>else\<close>), so the binary search
  recognises all of them but \<open>eval\<close>, which is taken for an ordinary identifier.\<close>

theorem reserved_words_but_eval:
  "is_js_reserved_word s \<longleftrightarrow> s \<in> set RESERVED_KEYWORDS \<and> s \<noteq> ''eval''"
proof
  have e: "\<not> is_js_reserved_word ''eval''" by code_simp
  show "is_js_reserved_word s \<Longrightarrow> s \<in> set RESERVED_KEYWORDS \<and> s \<noteq> ''eval''"
    using reserved_mem e by blast
  have "list_all (\<lambda>s. s = ''eval'' \<or> is_js_reserved_word s) RESERVED_KEYWORDS" by code_simp
  then show "s \<in> set RESERVED_KEYWORDS \<and> s \<noteq> ''eval'' \<Longrightarrow> is_js_reserved_word s"
    by (auto simp: list_all_iff)
qed

end
