(* ===== verification/Emit_Source.thy ===== *)
theory Emit_Source
  imports Names
begin

text \<open>
  The text the generator writes: \<open>Source\<close> of \<open>src/crates/js-component-bindgen/src/source.rs\<close>, a string that
  is indented as it grows, and \<open>Files\<close> of \<open>files.rs\<close>, the generated files by name. The formatting macros
  \<open>uwrite!\<close> and \<open>uwriteln!\<close> pass each literal part and each argument to \<open>push_str\<close> on its own. Characters
  are 8-bit; Rust's white space among them is the ASCII white space, NEL and the no-break space.
\<close>

section \<open>Lines and white space\<close>

definition is_ws :: "char \<Rightarrow> bool" where
  "is_ws c = (let n = of_char c :: nat in 9 \<le> n \<and> n \<le> 13 \<or> n = 32 \<or> n = 133 \<or> n = 160)"

abbreviation NL :: char where "NL \<equiv> CHR 0x0A"

definition trim_start :: "string \<Rightarrow> string" where
  "trim_start s = dropWhile is_ws s"

definition trim_end :: "string \<Rightarrow> string" where
  "trim_end s = rev (dropWhile is_ws (rev s))"

definition trim :: "string \<Rightarrow> string" where
  "trim s = trim_end (trim_start s)"

text \<open>\<open>str::lines\<close>: a line ends with a newline or with a carriage return and a newline.\<close>

definition strip_cr :: "string \<Rightarrow> string" where
  "strip_cr l = (if l \<noteq> [] \<and> last l = CHR 0x0D then butlast l else l)"

lemma dropWhile_shorter: "dropWhile P s = x # xs \<Longrightarrow> length xs < length s"
  using length_dropWhile_le [of P s] by simp

function str_lines :: "string \<Rightarrow> string list" where
  "str_lines s =
     (if s = [] then []
      else case dropWhile (\<lambda>c. c \<noteq> NL) s of
             [] \<Rightarrow> [s]
           | _ # rest \<Rightarrow> strip_cr (takeWhile (\<lambda>c. c \<noteq> NL) s) # str_lines rest)"
  by pat_completeness auto
termination by (relation "measure length") (auto dest: dropWhile_shorter)

declare str_lines.simps [simp del]

definition starts_with :: "char \<Rightarrow> string \<Rightarrow> bool" where
  "starts_with c s = (s \<noteq> [] \<and> hd s = c)"

definition ends_with :: "char \<Rightarrow> string \<Rightarrow> bool" where
  "ends_with c s = (s \<noteq> [] \<and> last s = c)"

section \<open>Sources\<close>

record source =
  src_text :: string
  src_indent :: nat

definition source_default :: source where
  "source_default = \<lparr>src_text = [], src_indent = 0\<rparr>"

definition newline :: "source \<Rightarrow> source" where
  "newline s = s\<lparr>src_text := src_text s @ NL # concat (replicate (src_indent s) ''  '')\<rparr>"

text \<open>One turn of the loop of \<open>push_str\<close>: \<open>only\<close> says that there is one line, \<open>nl\<close> that a new line follows.\<close>

definition push_line :: "bool \<Rightarrow> bool \<Rightarrow> string \<Rightarrow> source \<Rightarrow> source" where
  "push_line only nl line s =
     (let trimmed = trim line;
          t0 = src_text s;
          t1 = (if starts_with (CHR ''}'') trimmed \<and> take 2 (rev t0) = ''  '' then butlast (butlast t0) else t0);
          t2 = t1 @ (if only then line else trim_start line);
          i1 = (if ends_with (CHR ''{'') trimmed then src_indent s + 1 else src_indent s);
          i2 = (if starts_with (CHR ''}'') trimmed then i1 - 1 else i1);
          s' = \<lparr>src_text = t2, src_indent = i2\<rparr>
      in if nl then newline s' else s')"

primrec push_lines :: "bool \<Rightarrow> bool \<Rightarrow> string list \<Rightarrow> source \<Rightarrow> source" where
  "push_lines only ends [] s = s"
| "push_lines only ends (l # ls) s = push_lines only ends ls (push_line only (ls \<noteq> [] \<or> ends) l s)"

definition push_str :: "string \<Rightarrow> source \<Rightarrow> source" where
  "push_str src s = (let ls = str_lines src in push_lines (length ls = 1) (ends_with NL src) ls s)"

definition prepend_str :: "string \<Rightarrow> source \<Rightarrow> source" where
  "prepend_str src s =
     (let ind = (case str_lines (src_text s) of [] \<Rightarrow> 0 | line # _ \<Rightarrow> (length line - length (trim_start line)) div 2);
          new_start = push_str src \<lparr>src_text = [], src_indent = ind\<rparr>
      in s\<lparr>src_text := src_text new_start @ src_text s\<rparr>)"

definition indent_by :: "nat \<Rightarrow> source \<Rightarrow> source" where
  "indent_by amt s = s\<lparr>src_indent := src_indent s + amt\<rparr>"

definition deindent_by :: "nat \<Rightarrow> source \<Rightarrow> source rust" where
  "deindent_by amt s =
     (if amt \<le> src_indent s then Inr (s\<lparr>src_indent := src_indent s - amt\<rparr>)
      else Inl (Panic ''attempt to subtract with overflow''))"

text \<open>\<open>uwrite!\<close> with the parts of its format string and its arguments in order; \<open>uwriteln!\<close> adds a newline to the
  last literal part.\<close>

definition uwrite :: "string list \<Rightarrow> source \<Rightarrow> source" where
  "uwrite parts s = fold push_str parts s"

section \<open>Files\<close>

text \<open>A \<open>BTreeMap\<close> with names as keys: an association list in the order of the keys.\<close>

primrec bt_put :: "string \<Rightarrow> 'v \<Rightarrow> (string \<times> 'v) list \<Rightarrow> (string \<times> 'v) list" where
  "bt_put k v [] = [(k, v)]"
| "bt_put k v (e # es) =
     (if k < fst e then (k, v) # e # es else if k = fst e then (k, v) # es else e # bt_put k v es)"

type_synonym files = "(string \<times> string) list"

definition files_push :: "string \<Rightarrow> string \<Rightarrow> files \<Rightarrow> files" where
  "files_push name contents fs =
     (case map_of fs name of
        None \<Rightarrow> bt_put name contents fs
      | Some old \<Rightarrow> bt_put name (old @ contents) fs)"

definition files_get_size :: "string \<Rightarrow> files \<Rightarrow> nat option" where
  "files_get_size name fs = map_option length (map_of fs name)"

definition files_remove :: "string \<Rightarrow> files \<Rightarrow> string option \<times> files" where
  "files_remove name fs = (map_of fs name, filter (\<lambda>e. fst e \<noteq> name) fs)"

section \<open>Ordered maps\<close>

definition bt_ok :: "(string \<times> 'v) list \<Rightarrow> bool" where
  "bt_ok m = sorted_wrt (<) (map fst m)"

lemma map_of_bt_put [simp]: "map_of (bt_put k v m) = (map_of m)(k \<mapsto> v)"
  by (induction m) auto

lemma keys_bt_put: "fst ` set (bt_put k v m) = insert k (fst ` set m)"
  by (induction m) auto

lemma bt_ok_put [simp]: "bt_ok m \<Longrightarrow> bt_ok (bt_put k v m)"
proof (induction m)
  case (Cons e m)
  have "\<forall>x \<in> set (bt_put k v m). fst e < fst x" if "\<not> k < fst e" "k \<noteq> fst e"
  proof
    fix x assume "x \<in> set (bt_put k v m)"
    then have "fst x \<in> insert k (fst ` set m)" using keys_bt_put by (metis imageI)
    with Cons.prems that show "fst e < fst x" by (auto simp: bt_ok_def)
  qed
  with Cons show ?case by (auto simp: bt_ok_def)
qed (simp add: bt_ok_def)

lemma bt_ok_distinct: "bt_ok m \<Longrightarrow> distinct (map fst m)"
  by (simp add: bt_ok_def strict_sorted_iff)

lemma bt_ok_mem: "bt_ok m \<Longrightarrow> (k, v) \<in> set m \<longleftrightarrow> map_of m k = Some v"
  using bt_ok_distinct by (metis map_of_eq_Some_iff)

section \<open>What is written\<close>

text \<open>The characters that the layout does not touch: line ends and everything that is not white space.\<close>

definition kept :: "string \<Rightarrow> string" where
  "kept s = filter (\<lambda>c. c = NL \<or> \<not> is_ws c) s"

lemma kept_simps [simp]: "kept [] = []" "kept (s @ t) = kept s @ kept t" "kept (concat ss) = concat (map kept ss)"
  by (induction ss) (simp_all add: kept_def)

lemma is_ws_chars [simp]: "is_ws NL" "is_ws (CHR '' '')" "is_ws (CHR 0x0D)" "\<not> is_ws (CHR ''{'')" "\<not> is_ws (CHR ''}'')"
  by (simp_all add: is_ws_def Let_def)

lemma kept_white: "(\<And>c. c \<in> set s \<Longrightarrow> is_ws c \<and> c \<noteq> NL) \<Longrightarrow> kept s = []"
  by (auto simp: kept_def filter_empty_conv)

lemma kept_trim_start: "NL \<notin> set l \<Longrightarrow> kept (trim_start l) = kept l"
  by (induction l) (auto simp: trim_start_def kept_def)

lemma kept_newline: "kept (src_text (newline s)) = kept (src_text s) @ [NL]"
proof -
  have "kept (concat (replicate n ''  '')) = []" for n by (induction n) (simp_all add: kept_def)
  then show ?thesis by (simp add: newline_def kept_def)
qed

lemma kept_drop_two: "take 2 (rev t) = ''  '' \<Longrightarrow> kept (butlast (butlast t)) = kept t"
proof -
  assume a: "take 2 (rev t) = ''  ''"
  then have "rev t = ''  '' @ drop 2 (rev t)" by (metis append_take_drop_id)
  then have "t = rev (drop 2 (rev t)) @ ''  ''" by (metis rev_append rev_rev_ident rev.simps append_Nil append_Cons)
  then obtain u where t: "t = u @ ''  ''" by blast
  show ?thesis unfolding t by (simp add: butlast_append kept_def)
qed

lemma kept_push_line:
  assumes "NL \<notin> set l"
  shows "kept (src_text (push_line only nl l s)) = kept (src_text s) @ kept l @ (if nl then [NL] else [])"
  using kept_trim_start [OF assms] kept_drop_two [of "src_text s"]
  by (simp add: push_line_def Let_def kept_newline)

text \<open>The lines of a text with their line ends.\<close>

primrec joined :: "bool \<Rightarrow> string list \<Rightarrow> string" where
  "joined ends [] = []"
| "joined ends (l # ls) = kept l @ (if ls \<noteq> [] \<or> ends then [NL] else []) @ joined ends ls"

lemma kept_push_lines:
  "(\<And>l. l \<in> set ls \<Longrightarrow> NL \<notin> set l) \<Longrightarrow>
     kept (src_text (push_lines only ends ls s)) = kept (src_text s) @ joined ends ls"
  by (induction ls arbitrary: s) (simp_all add: kept_push_line)

lemma kept_strip_cr: "kept (strip_cr l) = kept l"
proof (cases "l \<noteq> [] \<and> last l = CHR 0x0D")
  case True
  then have "l = butlast l @ [CHR 0x0D]" by (metis append_butlast_last_id)
  then have "kept l = kept (butlast l) @ kept [CHR 0x0D]" by (metis kept_simps(2))
  with True show ?thesis by (simp add: strip_cr_def kept_def)
qed (auto simp: strip_cr_def)

lemma strip_cr_NL: "NL \<notin> set l \<Longrightarrow> NL \<notin> set (strip_cr l)"
  by (auto simp: strip_cr_def dest: in_set_butlastD)

lemma str_lines_props: "(\<forall>l \<in> set (str_lines s). NL \<notin> set l) \<and> joined (ends_with NL s) (str_lines s) = kept s"
proof (induction s rule: str_lines.induct)
  case (1 s)
  show ?case
  proof (cases "dropWhile (\<lambda>c. c \<noteq> NL) s")
    case Nil
    then have "NL \<notin> set s" by (auto simp: dropWhile_eq_Nil_conv)
    moreover have "str_lines s = (if s = [] then [] else [s])" by (subst str_lines.simps) (simp only: Nil list.case)
    moreover have "\<not> ends_with NL s" using \<open>NL \<notin> set s\<close> by (auto simp: ends_with_def dest: last_in_set)
    ultimately show ?thesis by simp
  next
    case (Cons c rest)
    then have sc: "s = takeWhile (\<lambda>c. c \<noteq> NL) s @ c # rest \<and> \<not> c \<noteq> NL" by (rule iffD1 [OF dropWhile_eq_Cons_conv])
    note s' = conjunct1 [OF sc]
    have c: "c = NL" using conjunct2 [OF sc] by blast
    have s: "s = takeWhile (\<lambda>c. c \<noteq> NL) s @ NL # rest" using s' unfolding c .
    have ne: "s \<noteq> []" using Cons by auto
    have lines: "str_lines s = strip_cr (takeWhile (\<lambda>c. c \<noteq> NL) s) # str_lines rest"
      using Cons ne by (subst str_lines.simps) simp
    have "NL \<notin> set (takeWhile (\<lambda>c. c \<noteq> NL) s)" by (auto dest: set_takeWhileD)
    note head = strip_cr_NL [OF this]
    note IH = 1 [OF ne Cons]
    have "joined (ends_with NL s) (str_lines rest) = joined (ends_with NL rest) (str_lines rest)"
      "str_lines rest \<noteq> [] \<or> ends_with NL s"
    proof -
      have "ends_with NL s \<longleftrightarrow> rest = [] \<or> ends_with NL rest" by (subst s) (auto simp: ends_with_def)
      moreover have "str_lines rest \<noteq> []" if "rest \<noteq> []" using that by (subst str_lines.simps) (auto split: list.split)
      moreover have "str_lines [] = []" by (simp add: str_lines.simps)
      ultimately show "joined (ends_with NL s) (str_lines rest) = joined (ends_with NL rest) (str_lines rest)"
        "str_lines rest \<noteq> [] \<or> ends_with NL s" by (cases "rest = []"; auto)+
    qed
    then have "joined (ends_with NL s) (str_lines s) = kept (takeWhile (\<lambda>c. c \<noteq> NL) s) @ NL # kept rest"
      using IH by (simp add: lines kept_strip_cr)
    also have "\<dots> = kept (takeWhile (\<lambda>c. c \<noteq> NL) s @ NL # rest)" by (simp add: kept_def)
    finally show ?thesis using s head IH lines by auto
  qed
qed

lemma kept_push_str: "kept (src_text (push_str src s)) = kept (src_text s) @ kept src"
  using str_lines_props [of src] by (simp add: push_str_def Let_def kept_push_lines)

lemma kept_uwrite: "kept (src_text (uwrite parts s)) = kept (src_text s) @ kept (concat parts)"
  by (induction parts arbitrary: s) (simp_all add: uwrite_def kept_push_str)

text \<open>A part without line ends and without a brace at its ends is written as it is.\<close>

definition plain :: "string \<Rightarrow> bool" where
  "plain p \<longleftrightarrow> NL \<notin> set p \<and> \<not> starts_with (CHR ''}'') (trim p) \<and> \<not> ends_with (CHR ''{'') (trim p)"

lemma str_lines_single: "NL \<notin> set p \<Longrightarrow> str_lines p = (if p = [] then [] else [p])"
proof -
  assume "NL \<notin> set p"
  then have d: "dropWhile (\<lambda>c. c \<noteq> NL) p = []" by (auto simp: dropWhile_eq_Nil_conv)
  show ?thesis by (subst str_lines.simps) (simp only: d list.case)
qed

lemma push_plain:
  assumes "plain p"
  shows "push_str p s = s\<lparr>src_text := src_text s @ p\<rparr>"
proof -
  from assms have p: "NL \<notin> set p" "\<not> starts_with (CHR ''}'') (trim p)" "\<not> ends_with (CHR ''{'') (trim p)"
    by (auto simp: plain_def)
  have "\<not> ends_with NL p" using p(1) by (auto simp: ends_with_def dest: last_in_set)
  with p show ?thesis by (cases "p = []") (simp_all add: push_str_def str_lines_single push_line_def Let_def)
qed

lemma trim_ends: "starts_with c (trim p) \<Longrightarrow> c \<in> set p" "ends_with c (trim p) \<Longrightarrow> c \<in> set p"
proof -
  have sub: "set (trim p) \<subseteq> set p"
    by (auto simp: trim_def trim_end_def trim_start_def dest!: set_dropWhileD)
  show "starts_with c (trim p) \<Longrightarrow> c \<in> set p" "ends_with c (trim p) \<Longrightarrow> c \<in> set p"
    using sub by (auto simp: starts_with_def ends_with_def)
qed

lemma plainI: "NL \<notin> set p \<Longrightarrow> CHR ''{'' \<notin> set p \<Longrightarrow> CHR ''}'' \<notin> set p \<Longrightarrow> plain p"
  using trim_ends by (auto simp: plain_def)

section \<open>Files keep what is pushed\<close>

lemma files_push_all:
  "map_of (fold (\<lambda>(n, c). files_push n c) ps fs) name =
     (if map_of fs name = None \<and> name \<notin> fst ` set ps then None
      else Some (concat (map snd (filter (\<lambda>p. fst p = name) ((name, case map_of fs name of None \<Rightarrow> [] | Some c \<Rightarrow> c) # ps)))))"
proof (induction ps arbitrary: fs)
  case (Cons p ps)
  obtain n c where p: "p = (n, c)" by (cases p)
  show ?case unfolding p using Cons.IH [of "files_push n c fs"] by (auto simp: files_push_def split: option.splits)
qed (auto split: option.splits)

section \<open>Properties\<close>

text \<open>C25. Writing text changes its layout only: after any sequence of writes the characters that are not
  white space, and the line ends, are those of the parts written, in order.\<close>

theorem written_text_kept:
  "kept (src_text (fold uwrite writes source_default)) = kept (concat (map concat writes))"
proof -
  have "kept (src_text (fold uwrite writes s)) = kept (src_text s) @ kept (concat (map concat writes))" for s
    by (induction writes arbitrary: s) (simp_all add: kept_uwrite)
  then show ?thesis by (simp add: source_default_def)
qed

text \<open>The tests of the source file.\<close>

lemma source_tests:
  "src_text (push_str [NL, CHR ''a''] (fold push_str [''x'', ''y'', ''z '', '' a ''] source_default)) = ''xyz  a '' @ [NL, CHR ''a'']"
  "src_text (fold push_str [''function() {'' @ [NL], ''y'' @ [NL], ''}'' @ [NL]] source_default) =
     ''function() {'' @ [NL] @ ''  y'' @ [NL] @ ''}'' @ [NL]"
  "src_text (fold push_str [''if() {'' @ [NL], ''y'' @ [NL], ''} else if () {'' @ [NL], ''z'' @ [NL], ''}'' @ [NL]] source_default) =
     ''if() {'' @ [NL] @ ''  y'' @ [NL] @ ''} else if () {'' @ [NL] @ ''  z'' @ [NL] @ ''}'' @ [NL]"
  "src_text (push_str (''function() {'' @ [NL] @ ''     x'' @ [NL] @ ''     }'') source_default) =
     ''function() {'' @ [NL] @ ''  x'' @ [NL] @ ''}''"
  by code_simp+

end
