(* ===== verification/Conversion.thy ===== *)
theory Conversion
  imports Js_Values
begin

text \<open>
  The conversion functions emitted by \<open>ConversionIntrinsic\<close>
  (\<open>src/crates/js-component-bindgen/src/intrinsics/conversion.rs\<close>): the integer coercions of
  WebIDL's kind, their optional strict checks, the character conversion, and the split of a 64-bit
  integer into two 32-bit halves. \<open>strict\<close> stands for \<open>transpile_opts.strict\<close>, which decides
  whether the checks are emitted. The four reinterpretations between floats and integers and the
  two string renderings are not modelled.
\<close>

unbundle bit_operations_syntax

section \<open>Definitions\<close>

text \<open>The numbers of the model are integral, so comparisons of other kinds of values with a number
  are left out: a boolean compares as 0 or 1, and \<open>null\<close> and \<open>undefined\<close> never get to the
  comparison.\<close>

fun cmp_num :: "val \<Rightarrow> int js" where
  "cmp_num (VNum n) = Inr n"
| "cmp_num (VBig n) = Inr n"
| "cmp_num (VBool b) = Inr (if b then 1 else 0)"
| "cmp_num _ = Inl (OutOfModel ''comparison with a number'')"

definition in_range :: "int \<Rightarrow> int \<Rightarrow> val \<Rightarrow> bool js" where
  "in_range lo hi v = rbind (cmp_num v) (\<lambda>n. Inr (lo \<le> n \<and> n \<le> hi))"

definition isValidNumericPrimitive :: "string \<Rightarrow> val \<Rightarrow> bool js" where
  "isValidNumericPrimitive ty v =
     (if v = VUndef \<or> v = VNull then Inr False
      else if ty = ''bool'' then Inr (v = VNum 0 \<or> v = VNum 1)
      else if ty = ''u8'' then in_range 0 255 v
      else if ty = ''s8'' then in_range (- 128) 127 v
      else if ty = ''u16'' then in_range 0 65535 v
      else if ty = ''s16'' then in_range (- 32768) 32767 v
      else if ty = ''u32'' then in_range 0 4294967295 v
      else if ty = ''s32'' then in_range (- 2147483648) 2147483647 v
      else if ty = ''u64'' then
        (case v of VBig n \<Rightarrow> Inr (0 \<le> n \<and> n \<le> 18446744073709551615) | _ \<Rightarrow> Inr False)
      else if ty = ''s64'' then
        (case v of VBig n \<Rightarrow> Inr (- 9223372036854775808 \<le> n \<and> n \<le> 9223372036854775807) | _ \<Rightarrow> Inr False)
      else if ty = ''f32'' \<or> ty = ''f64'' then (case v of VNum n \<Rightarrow> Inr True | _ \<Rightarrow> Inr False)
      else Inr False)"

definition requireValidNumericPrimitive :: "string \<Rightarrow> val \<Rightarrow> unit js" where
  "requireValidNumericPrimitive ty v =
     (if v = VUndef \<or> v = VNull then Inl (TypeErr ''invalid value'')
      else rbind (isValidNumericPrimitive ty v) (\<lambda>ok.
        if ok then Inr () else Inl (TypeErr ''invalid value'')))"

definition strict_checks :: "bool \<Rightarrow> string \<Rightarrow> val \<Rightarrow> unit js" where
  "strict_checks strict ty v = (if strict then requireValidNumericPrimitive ty v else Inr ())"

text \<open>\<open>val >>>= 0\<close> applies ToNumber and ToUint32; a bigint has no unsigned shift, and throws
  there.\<close>

definition ushr0 :: "val \<Rightarrow> int js" where
  "ushr0 v = rbind (to_number v) (\<lambda>n. Inr (to_uint32 n))"

definition toInt8 :: "bool \<Rightarrow> val \<Rightarrow> val js" where
  "toInt8 strict v = rbind (strict_checks strict ''s8'' v) (\<lambda>_. rbind (ushr0 v) (\<lambda>a.
     let b = js_rem a (2 ^ 8) in Inr (VNum (if b \<ge> 2 ^ 7 then b - 2 ^ 8 else b))))"

definition toUint8 :: "bool \<Rightarrow> val \<Rightarrow> val js" where
  "toUint8 strict v = rbind (strict_checks strict ''u8'' v) (\<lambda>_. rbind (ushr0 v) (\<lambda>a.
     Inr (VNum (js_rem a (2 ^ 8)))))"

definition toInt16 :: "bool \<Rightarrow> val \<Rightarrow> val js" where
  "toInt16 strict v = rbind (strict_checks strict ''s16'' v) (\<lambda>_. rbind (ushr0 v) (\<lambda>a.
     let b = js_rem a (2 ^ 16) in Inr (VNum (if b \<ge> 2 ^ 15 then b - 2 ^ 16 else b))))"

definition toUint16 :: "bool \<Rightarrow> val \<Rightarrow> val js" where
  "toUint16 strict v = rbind (strict_checks strict ''u16'' v) (\<lambda>_. rbind (ushr0 v) (\<lambda>a.
     Inr (VNum (js_rem a (2 ^ 16)))))"

text \<open>\<open>val >> 0\<close> on a bigint mixes bigint and number, which throws a TypeError as \<open>to_number\<close>
  does.\<close>

definition toInt32 :: "bool \<Rightarrow> val \<Rightarrow> val js" where
  "toInt32 strict v = rbind (strict_checks strict ''s32'' v) (\<lambda>_. rbind (to_number v) (\<lambda>n.
     Inr (VNum (js_shr n 0))))"

definition toUint32 :: "bool \<Rightarrow> val \<Rightarrow> val js" where
  "toUint32 strict v = rbind (strict_checks strict ''u32'' v) (\<lambda>_. rbind (ushr0 v) (\<lambda>a.
     Inr (VNum a)))"

text \<open>\<open>BigInt(val)\<close>: an integral number is converted, unlike ToBigInt.\<close>

fun bigint_of :: "val \<Rightarrow> int js" where
  "bigint_of (VNum n) = Inr n"
| "bigint_of v = to_bigint v"

definition toInt64 :: "bool \<Rightarrow> val \<Rightarrow> val js" where
  "toInt64 strict v = rbind (bigint_of v) (\<lambda>converted.
     rbind (strict_checks strict ''s64'' (VBig converted)) (\<lambda>_.
       Inr (VBig (signed_take_bit 63 converted))))"

definition toUint64 :: "bool \<Rightarrow> val \<Rightarrow> val js" where
  "toUint64 strict v = rbind (bigint_of v) (\<lambda>converted.
     rbind (strict_checks strict ''u64'' (VBig converted)) (\<lambda>_.
       Inr (VBig (take_bit 64 converted))))"

definition i32ToChar :: "val \<Rightarrow> val js" where
  "i32ToChar v = (case v of
     VNum n \<Rightarrow>
       if n = 0 then Inl (Err ''invalid i32'')
       else if n < 0 then Inl (Err ''i32 must be greater than zero'')
       else if n \<ge> 1114112 then Inl (Err ''invalid i32, out of range'')
       else if 55296 \<le> n \<and> n \<le> 57343 then Inl (Err ''invalid i32 out of range'')
       else Inr (from_char_code n)
   | _ \<Rightarrow> Inl (Err ''invalid i32''))"

text \<open>\<open>Number(x) | 0\<close> of a non-negative bigint below \<open>2 ^ 32\<close> is exact, so it is its ToInt32.\<close>

definition splitInt64 :: "int \<Rightarrow> int \<times> int" where
  "splitInt64 i = (to_int32 (i AND 4294967295), to_int32 (drop_bit 32 i AND 4294967295))"

definition mergeInt64 :: "int \<Rightarrow> int \<Rightarrow> int" where
  "mergeInt64 l h = (to_int32 l OR push_bit 32 (to_int32 h))"

section \<open>Lemmas\<close>

lemma mod_take_bit: "to_uint32 n mod 2 ^ k = take_bit k n" if "k \<le> 32" for n :: int
  using that by (simp add: to_uint32_def flip: take_bit_eq_mod)

lemma js_rem_uint32: "k \<le> 32 \<Longrightarrow> js_rem (to_uint32 n) (2 ^ k) = take_bit k n"
  by (simp add: js_rem_pos to_uint32_def flip: take_bit_eq_mod)

section \<open>Properties\<close>

lemma to_small_int_wraps_lemma:
  "toInt8 False (VNum n) = Inr (VNum (signed_take_bit 7 n))"
  "toUint8 False (VNum n) = Inr (VNum (take_bit 8 n))"
  "toInt16 False (VNum n) = Inr (VNum (signed_take_bit 15 n))"
  "toUint16 False (VNum n) = Inr (VNum (take_bit 16 n))"
proof -
  have s: "js_rem (to_uint32 n) 256 = take_bit 8 n" "js_rem (to_uint32 n) 65536 = take_bit 16 n"
    using js_rem_uint32 [of 8 n] js_rem_uint32 [of 16 n] by simp_all
  have e: "signed_take_bit 7 n = (if take_bit 8 n \<ge> 128 then take_bit 8 n - 256 else take_bit 8 n)"
    "signed_take_bit 15 n = (if take_bit 16 n \<ge> 32768 then take_bit 16 n - 65536 else take_bit 16 n)"
    using signed_wrap [of 7 n] signed_wrap [of 15 n] by simp_all
  show "toInt8 False (VNum n) = Inr (VNum (signed_take_bit 7 n))"
    "toUint8 False (VNum n) = Inr (VNum (take_bit 8 n))"
    "toInt16 False (VNum n) = Inr (VNum (signed_take_bit 15 n))"
    "toUint16 False (VNum n) = Inr (VNum (take_bit 16 n))"
    by (simp_all add: toInt8_def toUint8_def toInt16_def toUint16_def strict_checks_def ushr0_def s e Let_def)
qed

text \<open>Without strict checks the small integer conversions are the wrapping casts of the Canonical
  ABI: each is total on integral numbers and gives the two's complement value of the argument's low
  bits.\<close>

theorem to_small_int_wraps:
  "toInt8 False (VNum n) = Inr (VNum (signed_take_bit 7 n))
   \<and> toUint8 False (VNum n) = Inr (VNum (take_bit 8 n))
   \<and> toInt16 False (VNum n) = Inr (VNum (signed_take_bit 15 n))
   \<and> toUint16 False (VNum n) = Inr (VNum (take_bit 16 n))
   \<and> toInt32 False (VNum n) = Inr (VNum (signed_take_bit 31 n))
   \<and> toUint32 False (VNum n) = Inr (VNum (take_bit 32 n))
   \<and> toInt64 False (VNum n) = Inr (VBig (signed_take_bit 63 n))
   \<and> toUint64 False (VNum n) = Inr (VBig (take_bit 64 n))"
by (simp add: to_small_int_wraps_lemma toInt32_def toUint32_def toInt64_def toUint64_def
    strict_checks_def ushr0_def js_shr_def to_int32_def) (simp add: to_uint32_def)

text \<open>With strict checks a conversion accepts exactly the numbers of its type and then returns
  them unchanged; on any other number it throws.\<close>

theorem strict_conversion_is_checked_identity:
  "toInt8 True (VNum n) = (if - 128 \<le> n \<and> n \<le> 127 then Inr (VNum n) else Inl (TypeErr ''invalid value''))
   \<and> toUint8 True (VNum n) = (if 0 \<le> n \<and> n \<le> 255 then Inr (VNum n) else Inl (TypeErr ''invalid value''))
   \<and> toInt16 True (VNum n) = (if - 32768 \<le> n \<and> n \<le> 32767 then Inr (VNum n) else Inl (TypeErr ''invalid value''))
   \<and> toUint16 True (VNum n) = (if 0 \<le> n \<and> n \<le> 65535 then Inr (VNum n) else Inl (TypeErr ''invalid value''))"
proof -
  have r: "strict_checks True ty v = requireValidNumericPrimitive ty v" for ty v
    by (simp add: strict_checks_def)
  have b: "signed_take_bit 7 n = n" if "- 128 \<le> n" "n \<le> 127"
    using that by (intro signed_take_bit_int_eq_self) auto
  have w: "signed_take_bit 15 n = n" if "- 32768 \<le> n" "n \<le> 32767"
    using that by (intro signed_take_bit_int_eq_self) auto
  note u = take_bit_int_eq_self [of n 8] take_bit_int_eq_self [of n 16]
  note f = to_small_int_wraps_lemma [of n]
  show ?thesis
    using f b w u
    by (simp add: toInt8_def toUint8_def toInt16_def toUint16_def r requireValidNumericPrimitive_def
      isValidNumericPrimitive_def in_range_def strict_checks_def)
qed

text \<open>Merging the halves of a 64-bit integer gives the integer back exactly when bit 31 is clear:
  otherwise the low half is sign-extended over the high half, which is lost.\<close>

theorem merge_split_int64:
  assumes "- (2 ^ 63) \<le> i" "i < 2 ^ 63"
  shows "(case splitInt64 i of (l, h) \<Rightarrow> mergeInt64 l h) = (if bit i 31 then signed_take_bit 31 i else i)"
proof -
  have m: "(4294967295 :: int) = mask 32" by (simp add: mask_eq_exp_minus_1)
  have h: "signed_take_bit 31 (drop_bit 32 i) = drop_bit 32 i"
    using assms by (intro signed_take_bit_int_eq_self) (auto simp: drop_bit_eq_div)
  have "(case splitInt64 i of (l, h) \<Rightarrow> mergeInt64 l h) = signed_take_bit 31 i OR push_bit 32 (drop_bit 32 i)"
    unfolding splitInt64_def mergeInt64_def to_int32_def m
    by (simp add: take_bit_eq_mask [symmetric] signed_take_bit_take_bit h)
  also have "\<dots> = (if bit i 31 then signed_take_bit 31 i else i)"
  proof (rule bit_eqI)
    fix n :: nat
    have "32 + (n - 32) = n \<or> n \<le> 31" by arith
    then show "bit (signed_take_bit 31 i OR push_bit 32 (drop_bit 32 i)) n =
        bit (if bit i 31 then signed_take_bit 31 i else i) n"
      by (auto simp: bit_simps min_def not_less dest: le_antisym)
  qed
  finally show ?thesis .
qed

theorem merge_split_int64_witness:
  "(case splitInt64 2147483648 of (l, h) \<Rightarrow> mergeInt64 l h) = - 2147483648
   \<and> (case splitInt64 4294967301 of (l, h) \<Rightarrow> mergeInt64 l h) = 4294967301"
  using merge_split_int64 [of 2147483648] merge_split_int64 [of 4294967301]
  by (simp add: bit_iff_odd signed_take_bit_eq_take_bit_minus)

text \<open>\<open>i32ToChar\<close> accepts exactly the non-zero Unicode scalar values, so it throws on the
  valid character 0; and it cuts a supplementary character to its low 16 bits, so that 17 different
  code points give the same string.\<close>

theorem i32ToChar_domain:
  "(isl (i32ToChar (VNum n)) \<longleftrightarrow> n \<le> 0 \<or> 1114112 \<le> n \<or> (55296 \<le> n \<and> n \<le> 57343))
   \<and> (0 < n \<longrightarrow> n < 55296 \<longrightarrow> 0 \<le> k \<longrightarrow> k \<le> 16 \<longrightarrow>
        i32ToChar (VNum (65536 * k + n)) = i32ToChar (VNum n))"
proof (intro conjI impI)
  show "isl (i32ToChar (VNum n)) \<longleftrightarrow> n \<le> 0 \<or> 1114112 \<le> n \<or> (55296 \<le> n \<and> n \<le> 57343)"
    by (simp add: i32ToChar_def)
  assume n: "0 < n" "n < 55296" and k: "0 \<le> k" "k \<le> 16"
  have "\<not> (55296 \<le> 65536 * k + n \<and> 65536 * k + n \<le> 57343)"
  proof (cases "k = 0")
    case False
    with k n show ?thesis by linarith
  qed (use n in simp)
  with n k show "i32ToChar (VNum (65536 * k + n)) = i32ToChar (VNum n)"
    by (simp add: i32ToChar_def from_char_code_def)
qed

theorem i32ToChar_domain_witness:
  "i32ToChar (VNum 65601) = i32ToChar (VNum 65)"
  using i32ToChar_domain [of 65 1] by simp

end
