(* ===== verification/Flat_Ctx.thy ===== *)
theory Flat_Ctx
  imports Conversion
begin

text \<open>
  The context object that the flat lift and lower functions
  (\<open>src/crates/js-component-bindgen/src/intrinsics/lift.rs\<close> and \<open>lower.rs\<close>) read and update, and
  the accesses to linear memory through a \<open>DataView\<close>.

  A lift or lower function is a function from the context to an outcome: the updated context (with
  the lifted value), or the exception. What is left of the context after an exception is not
  modelled. \<open>storagePtr\<close> is \<open>None\<close> both when the field is \<open>undefined\<close> and when it became NaN
  by arithmetic on \<open>undefined\<close>: in both cases arithmetic on it gives NaN, it is not true, and a
  \<open>DataView\<close> access at it is an access at 0. \<open>realloc\<close> is the guest's allocator, code that is not
  part of the repository: a function from the four arguments and the memory to the pointer and the
  memory it leaves, or a trap.
\<close>

section \<open>The context\<close>

type_synonym mem = "8 word list"

record ctx =
  memory :: "mem option"
  storagePtr :: "int option"
  storageLen :: "int option"
  params :: "val list"
  useDirectParams :: bool
  inVariant :: bool
  vals :: "val list"
  realloc :: "(int \<Rightarrow> int \<Rightarrow> int \<Rightarrow> int \<Rightarrow> mem \<Rightarrow> (int \<times> mem) js) option"
  componentIdx :: "int option"

type_synonym lower_fn = "ctx \<Rightarrow> ctx js"
type_synonym lift_fn = "ctx \<Rightarrow> (val \<times> ctx) js"

definition val0 :: "ctx \<Rightarrow> val" where
  "val0 c = (case vals c of [] \<Rightarrow> VUndef | v # _ \<Rightarrow> v)"

definition set_val0 :: "val \<Rightarrow> ctx \<Rightarrow> ctx" where
  "set_val0 v c = c\<lparr>vals := v # tl (vals c)\<rparr>"

section \<open>Pointer arithmetic\<close>

text \<open>\<open>const rem = p % a; if (rem !== 0) { p += a - rem; }\<close>; a remainder by 0 is NaN.\<close>

definition align_up :: "int \<Rightarrow> int \<Rightarrow> int" where
  "align_up a p = (let r = js_rem p a in if r \<noteq> 0 then p + (a - r) else p)"

definition align_ptr :: "int \<Rightarrow> ctx \<Rightarrow> ctx" where
  "align_ptr a c = c\<lparr>storagePtr := (if a = 0 then None else map_option (align_up a) (storagePtr c))\<rparr>"

definition add_ptr :: "int \<Rightarrow> ctx \<Rightarrow> ctx" where
  "add_ptr n c = c\<lparr>storagePtr := map_option (\<lambda>p. p + n) (storagePtr c)\<rparr>"

text \<open>\<open>ctx.storagePtr = Math.max(ctx.storagePtr, base + n)\<close>\<close>

definition max_ptr :: "int option \<Rightarrow> int \<Rightarrow> ctx \<Rightarrow> ctx" where
  "max_ptr base n c =
     c\<lparr>storagePtr := (case (storagePtr c, base) of (Some p, Some b) \<Rightarrow> Some (max p (b + n)) | _ \<Rightarrow> None)\<rparr>"

definition sub_len :: "int \<Rightarrow> ctx \<Rightarrow> ctx" where
  "sub_len n c = c\<lparr>storageLen := map_option (\<lambda>l. l - n) (storageLen c)\<rparr>"

section \<open>DataView accesses\<close>

definition addr :: "ctx \<Rightarrow> int" where
  "addr c = (case storagePtr c of None \<Rightarrow> 0 | Some p \<Rightarrow> p)"

definition mem_write :: "int \<Rightarrow> mem \<Rightarrow> mem \<Rightarrow> mem" where
  "mem_write p bs m = take (nat p) m @ bs @ drop (nat p + length bs) m"

definition mem_read :: "int \<Rightarrow> nat \<Rightarrow> mem \<Rightarrow> mem" where
  "mem_read p n m = take n (drop (nat p) m)"

definition ctx_mem :: "ctx \<Rightarrow> mem js" where
  "ctx_mem c = (case memory c of None \<Rightarrow> Inl (TypeErr ''Cannot read properties of undefined'') | Some m \<Rightarrow> Inr m)"

text \<open>\<open>new DataView(ctx.memory.buffer).setInt<8n>(ctx.storagePtr, v, true)\<close>: the value is
  converted before the bounds are checked. \<open>dv_set_big\<close> is the 64-bit store.\<close>

definition dv_store :: "nat \<Rightarrow> int js \<Rightarrow> ctx \<Rightarrow> ctx js" where
  "dv_store n x c =
     rbind (ctx_mem c) (\<lambda>m.
       if addr c < 0 then Inl (RangeErr ''Offset is outside the bounds of the DataView'')
       else rbind x (\<lambda>v.
         if addr c + int n \<le> int (length m)
         then Inr (c\<lparr>memory := Some (mem_write (addr c) (le_bytes n v) m)\<rparr>)
         else Inl (RangeErr ''Offset is outside the bounds of the DataView'')))"

definition dv_set :: "nat \<Rightarrow> val \<Rightarrow> ctx \<Rightarrow> ctx js" where
  "dv_set n v = dv_store n (to_number v)"

definition dv_set_big :: "val \<Rightarrow> ctx \<Rightarrow> ctx js" where
  "dv_set_big v = dv_store 8 (to_bigint v)"

definition dv_get :: "bool \<Rightarrow> nat \<Rightarrow> ctx \<Rightarrow> int js" where
  "dv_get sgned n c =
     rbind (ctx_mem c) (\<lambda>m.
       if 0 \<le> addr c \<and> addr c + int n \<le> int (length m)
       then Inr (wrap_int sgned n (le_val (mem_read (addr c) n m)))
       else Inl (RangeErr ''Offset is outside the bounds of the DataView''))"

section \<open>Lemmas\<close>

lemma align_up_id: "0 \<le> p \<Longrightarrow> 0 < a \<Longrightarrow> p mod a = 0 \<Longrightarrow> align_up a p = p"
  by (simp add: align_up_def js_rem_pos)

lemma align_up_props:
  assumes "0 \<le> p" "0 < a"
  shows "p \<le> align_up a p" "align_up a p < p + a" "align_up a p mod a = 0"
proof -
  have m: "0 \<le> p mod a" "p mod a < a" using assms by simp_all
  show "p \<le> align_up a p" "align_up a p < p + a"
    using assms m by (auto simp: align_up_def js_rem_pos Let_def)
  have "(p + (a - p mod a)) mod a = (p - p mod a) mod a"
    using mod_add_self2 [of "p - p mod a" a] by (simp add: algebra_simps)
  also have "\<dots> = 0" using minus_mod_eq_mult_div [of p a] by simp
  finally show "align_up a p mod a = 0"
    using assms by (simp add: align_up_def js_rem_pos Let_def)
qed

lemma align_up_least:
  assumes "0 \<le> p" "0 < a" "p \<le> q" "q mod a = 0"
  shows "align_up a p \<le> q"
proof (rule ccontr)
  assume "\<not> align_up a p \<le> q"
  with assms align_up_props [OF assms(1,2)] have "0 < align_up a p - q" "align_up a p - q < a" by linarith+
  moreover have "(align_up a p - q) mod a = 0"
    using assms(4) align_up_props(3) [OF assms(1,2)] by (simp add: mod_diff_eq [symmetric])
  ultimately show False by (simp add: mod_pos_pos_trivial)
qed

lemma length_mem_write [simp]:
  "0 \<le> p \<Longrightarrow> p + int (length bs) \<le> int (length m) \<Longrightarrow> length (mem_write p bs m) = length m"
  by (simp add: mem_write_def)

lemma mem_read_write:
  "0 \<le> p \<Longrightarrow> p + int (length bs) \<le> int (length m) \<Longrightarrow> mem_read p (length bs) (mem_write p bs m) = bs"
  by (simp add: mem_read_def mem_write_def)

lemma mem_write_nth:
  assumes "0 \<le> p" "p + int (length bs) \<le> int (length m)" "i < length m"
    "int i < p \<or> p + int (length bs) \<le> int i"
  shows "mem_write p bs m ! i = m ! i"
  using assms by (auto simp: mem_write_def nth_append not_less)

lemma mem_read_cong:
  assumes "0 \<le> p" "p + int n \<le> int (length m)" "length m' = length m"
    "\<And>i. p \<le> int i \<Longrightarrow> int i < p + int n \<Longrightarrow> m' ! i = m ! i"
  shows "mem_read p n m' = mem_read p n m"
  unfolding mem_read_def by (rule nth_equalityI) (use assms in auto)

end
