(* ===== verification/Flat_Lower.thy ===== *)
theory Flat_Lower
  imports Flat_Ctx
begin

text \<open>
  The flat lower functions (\<open>src/crates/js-component-bindgen/src/intrinsics/lower.rs\<close>): each
  writes the value \<open>ctx.vals[0]\<close> at \<open>ctx.storagePtr\<close> of linear memory and moves the pointer past
  it. A composite type's function is built from the functions of its parts: \<open>fieldMetas\<close>,
  \<open>caseMetas\<close> and \<open>elemLowerMetas\<close> are lists of them with names, sizes and alignments. The calls
  \<open>_requireValidNumericPrimitive.bind(...)\<close> bind a function and do not call it, so they check
  nothing and have no counterpart here. Not modelled: floats, strings, futures, streams and
  error contexts.
\<close>

section \<open>Numbers\<close>

definition one_val :: "string \<Rightarrow> ctx \<Rightarrow> val js" where
  "one_val msg c = (case vals c of [v] \<Rightarrow> Inr v | _ \<Rightarrow> Inl (Err msg))"

definition need_memory :: "ctx \<Rightarrow> unit js" where
  "need_memory c = (if memory c = None then Inl (Err ''missing memory for lower'') else Inr ())"

definition lowerFlatBool :: lower_fn where
  "lowerFlatBool c =
     rbind (need_memory c) (\<lambda>_. rbind (one_val ''unexpected number of vals'' c) (\<lambda>v.
       rbind (dv_set 1 (VNum (if val_truthy v then 1 else 0)) c) (\<lambda>c. Inr (add_ptr 1 c))))"

definition lowerFlatS8 :: lower_fn where
  "lowerFlatS8 c =
     rbind (one_val ''unexpected number of vals'' c) (\<lambda>v. rbind (need_memory c) (\<lambda>_.
       rbind (dv_set 1 v c) (\<lambda>c. Inr (add_ptr 1 c))))"

definition lowerFlatU8 :: lower_fn where
  "lowerFlatU8 c =
     rbind (one_val ''unexpected number of vals'' c) (\<lambda>v. rbind (need_memory c) (\<lambda>_.
       rbind (dv_set 1 v c) (\<lambda>c. Inr (add_ptr 1 c))))"

definition lowerFlatS16 :: lower_fn where
  "lowerFlatS16 c =
     rbind (need_memory c) (\<lambda>_. rbind (one_val ''unexpected number of vals'' c) (\<lambda>v.
       rbind (dv_set 2 v (align_ptr 2 c)) (\<lambda>c. Inr (add_ptr 2 c))))"

definition lowerFlatU16 :: lower_fn where
  "lowerFlatU16 c =
     rbind (need_memory c) (\<lambda>_. rbind (one_val ''unexpected number of vals'' c) (\<lambda>v.
       rbind (dv_set 2 v (align_ptr 2 c)) (\<lambda>c. Inr (add_ptr 2 c))))"

definition lowerFlatS32 :: lower_fn where
  "lowerFlatS32 c =
     rbind (one_val ''unexpected number of vals'' c) (\<lambda>v.
       rbind (dv_set 4 v (align_ptr 4 c)) (\<lambda>c. Inr (add_ptr 4 c)))"

definition lowerFlatU32 :: lower_fn where
  "lowerFlatU32 c =
     rbind (one_val ''expected single value to lower'' c) (\<lambda>v.
       rbind (dv_set 4 v (align_ptr 4 c)) (\<lambda>c. Inr (add_ptr 4 c)))"

definition lowerFlatS64 :: lower_fn where
  "lowerFlatS64 c =
     rbind (one_val ''unexpected number of vals'' c) (\<lambda>v.
       rbind (dv_set_big v (align_ptr 8 c)) (\<lambda>c. Inr (add_ptr 8 c)))"

definition lowerFlatU64 :: lower_fn where
  "lowerFlatU64 c =
     rbind (one_val ''unexpected number of vals'' c) (\<lambda>v.
       rbind (dv_set_big v (align_ptr 8 c)) (\<lambda>c. Inr (add_ptr 8 c)))"

text \<open>The string that \<open>i32ToChar\<close> returns is stored with \<open>setUint32\<close>.\<close>

definition lowerFlatChar :: lower_fn where
  "lowerFlatChar c =
     rbind (one_val ''unexpected number of vals'' c) (\<lambda>v.
       rbind (ctx_mem c) (\<lambda>_.
         rbind (i32ToChar v) (\<lambda>s.
           rbind (dv_set 4 s (align_ptr 4 c)) (\<lambda>c. Inr (add_ptr 4 c)))))"

section \<open>Records and tuples\<close>

text \<open>An entry of \<open>fieldMetas\<close>: \<open>[tag, lowerFn, size32, align32]\<close>.\<close>

type_synonym lower_field = "string \<times> lower_fn \<times> int \<times> int"

fun lower_fields :: "val \<Rightarrow> lower_field list \<Rightarrow> lower_fn" where
  "lower_fields r [] c = Inr c"
| "lower_fields r ((tag, lowerFn, size32, align32) # fs) c =
     (let c1 = align_ptr align32 c; fieldPtr = storagePtr c1 in
      rbind (js_prop r tag) (\<lambda>v.
        rbind (lowerFn (c1\<lparr>vals := [v]\<rparr>)) (\<lambda>c2.
          lower_fields r fs (max_ptr fieldPtr size32 c2))))"

definition lowerFlatRecord :: "lower_field list \<Rightarrow> int \<Rightarrow> int \<Rightarrow> lower_fn" where
  "lowerFlatRecord fieldMetas recordSize32 recordAlign32 c =
     (let originalPtr = storagePtr c; r = val0 c in
      rbind (lower_fields r fieldMetas c) (\<lambda>c1.
        Inr (align_ptr recordAlign32 (max_ptr originalPtr recordSize32 c1))))"

text \<open>An entry of \<open>elemLowerMetas\<close>: \<open>[lowerFn, size32, align32]\<close>.\<close>

type_synonym lower_elem = "lower_fn \<times> int \<times> int"

fun lower_elems :: "val \<Rightarrow> nat \<Rightarrow> lower_elem list \<Rightarrow> lower_fn" where
  "lower_elems t idx [] c = Inr c"
| "lower_elems t idx ((lowerFn, size32, align32) # es) c =
     (let c1 = align_ptr align32 c; elemPtr = storagePtr c1 in
      rbind (js_index t idx) (\<lambda>v.
        rbind (lowerFn (c1\<lparr>vals := [v]\<rparr>)) (\<lambda>c2.
          lower_elems t (Suc idx) es (max_ptr elemPtr size32 c2))))"

definition lowerFlatTuple :: "lower_elem list \<Rightarrow> int \<Rightarrow> int \<Rightarrow> lower_fn" where
  "lowerFlatTuple elemLowerMetas tupleSize32 tupleAlign32 c =
     (let originalPtr = storagePtr c; tuple = val0 c in
      rbind (lower_elems tuple 0 elemLowerMetas c) (\<lambda>c1.
        Inr (align_ptr tupleAlign32 (max_ptr originalPtr tupleSize32 c1))))"

section \<open>Variants, enums, options and results\<close>

text \<open>An entry of \<open>caseMetas\<close>: the tag and the payload's lower function, if it has one. (The case's
  size, alignment and flat count are not used by the lower function.)\<close>

type_synonym lower_case = "string \<times> lower_fn option"

text \<open>\<open>caseLookup\<close> maps a tag to the last case with it and the index of that case.\<close>

definition case_lookup :: "lower_case list \<Rightarrow> string \<Rightarrow> (nat \<times> lower_case) option" where
  "case_lookup cases tag =
     map_of (rev (map (\<lambda>(i, m). (fst m, (i, m))) (zip [0..<length cases] cases))) tag"

definition disc_lower :: "nat \<Rightarrow> lower_fn js" where
  "disc_lower n =
     (if n < 256 then Inr lowerFlatU8
      else if n < 65536 then Inr lowerFlatU16
      else if int n < 4294967296 then Inr lowerFlatU32
      else Inl (Err ''unsupported number of cases''))"

text \<open>The last statement names an undeclared variable, so it throws when it is reached.\<close>

definition lowerFlatVariant :: "lower_case list \<Rightarrow> int \<Rightarrow> int \<Rightarrow> int \<Rightarrow> lower_fn" where
  "lowerFlatVariant caseMetas variantSize32 variantAlign32 variantPayloadOffset32 c =
     rbind (js_prop (val0 c) ''tag'') (\<lambda>tag.
     rbind (js_prop (val0 c) ''val'') (\<lambda>val.
     rbind (prop_key tag) (\<lambda>key.
       case case_lookup caseMetas key of
         None \<Rightarrow> Inl (Err ''missing tag'')
       | Some (discriminant, (_, lowerFn)) \<Rightarrow>
           let originalPtr = storagePtr c in
           rbind (disc_lower (length caseMetas)) (\<lambda>disc.
           rbind (disc (c\<lparr>vals := [VNum (int discriminant)]\<rparr>)) (\<lambda>c1.
             let payloadOffsetPtr = map_option (\<lambda>p. p + variantPayloadOffset32) originalPtr;
                 c2 = c1\<lparr>storagePtr := payloadOffsetPtr, vals := [val]\<rparr>
             in rbind (case lowerFn of None \<Rightarrow> Inr c2 | Some f \<Rightarrow> f c2) (\<lambda>c3.
               let c4 = max_ptr originalPtr variantSize32 c3
               in if (case storagePtr c4 of None \<Rightarrow> True | Some p \<Rightarrow> variantAlign32 = 0 \<or> js_rem p variantAlign32 \<noteq> 0)
                  then Inl (RefErr ''varianttAlign32 is not defined'') else Inr c4))))))"

text \<open>\<open>Object.keys(v).length !== 2 || !('tag' in v)\<close> for an object \<open>v\<close>; on \<open>null\<close>,
  \<open>Object.keys\<close> throws.\<close>

definition two_keys_with_tag :: "val \<Rightarrow> bool" where
  "two_keys_with_tag v = (case v of VObj kvs \<Rightarrow> length kvs = 2 \<and> ''tag'' \<in> set (map fst kvs) | _ \<Rightarrow> False)"

definition has_val_key :: "val \<Rightarrow> bool" where
  "has_val_key v = (case v of VObj kvs \<Rightarrow> ''val'' \<in> set (map fst kvs) | _ \<Rightarrow> False)"

definition tag_of :: "val \<Rightarrow> val" where
  "tag_of v = (case v of VObj kvs \<Rightarrow> obj_get kvs ''tag'' | _ \<Rightarrow> VUndef)"

definition lowerFlatEnum :: "lower_case list \<Rightarrow> int \<Rightarrow> int \<Rightarrow> int \<Rightarrow> lower_fn" where
  "lowerFlatEnum caseMetas sz align off c =
     (let v = val0 c in
      if v = VNull then Inl (TypeErr ''Cannot convert undefined or null to object'')
      else lowerFlatVariant caseMetas sz align off
             (if two_keys_with_tag v then c else set_val0 (VObj [(''tag'', v)]) c))"

definition is_option_object :: "val \<Rightarrow> bool" where
  "is_option_object v \<longleftrightarrow>
     two_keys_with_tag v \<and> tag_of v \<in> {VStr ''some'', VStr ''none''} \<and> has_val_key v"

definition lowerFlatOption :: "lower_case list \<Rightarrow> int \<Rightarrow> int \<Rightarrow> int \<Rightarrow> lower_fn" where
  "lowerFlatOption caseMetas sz align off c =
     (let v = val0 c in
      lowerFlatVariant caseMetas sz align off
        (if v = VNull \<or> v = VUndef then set_val0 (VObj [(''tag'', VStr ''none'')]) c
         else if is_option_object v then c
         else set_val0 (VObj [(''tag'', VStr ''some''), (''val'', v)]) c))"

definition is_result_object :: "val \<Rightarrow> bool" where
  "is_result_object v \<longleftrightarrow>
     two_keys_with_tag v \<and> tag_of v \<in> {VStr ''ok'', VStr ''err''} \<and> has_val_key v"

definition lowerFlatResult :: "lower_case list \<Rightarrow> int \<Rightarrow> int \<Rightarrow> int \<Rightarrow> lower_fn" where
  "lowerFlatResult caseMetas sz align off c =
     (let v = val0 c in
      if v = VNull then Inl (TypeErr ''Cannot convert undefined or null to object'')
      else lowerFlatVariant caseMetas sz align off
             (if is_result_object v then c
              else set_val0 (VObj [(''tag'', VStr ''ok''), (''val'', v)]) c))"

section \<open>Flags\<close>

text \<open>\<open>flagValue |= 1 << idx\<close>, where a shift count is taken modulo 32.\<close>

fun flag_bits_of :: "val \<Rightarrow> nat \<Rightarrow> string list \<Rightarrow> int \<Rightarrow> int js" where
  "flag_bits_of v idx [] acc = Inr acc"
| "flag_bits_of v idx (name # names) acc =
     rbind (js_prop v name) (\<lambda>x.
       flag_bits_of v (Suc idx) names (if x = VBool True then js_or acc (js_shl 1 (idx mod 32)) else acc))"

definition lowerFlatFlags :: "string list \<Rightarrow> int \<Rightarrow> int \<Rightarrow> lower_fn" where
  "lowerFlatFlags names align32 intSizeBytes c =
     rbind (one_val ''unexpected number of vals'' c) (\<lambda>flagObj.
     rbind (if typeof_object flagObj \<and> flagObj \<noteq> VNull then flag_bits_of flagObj 0 names 0
            else if flagObj \<noteq> VNull \<and> flagObj \<noteq> VUndef
            then Inl (TypeErr ''only an object, undefined or null can be converted to flags'')
            else Inr 0) (\<lambda>flagValue.
       let c1 = align_ptr align32 c in
       rbind (ctx_mem c1) (\<lambda>_.
       rbind (if intSizeBytes = 1 then dv_set 1 (VNum flagValue) c1
              else if intSizeBytes = 2 then dv_set 2 (VNum flagValue) c1
              else if intSizeBytes = 4 then dv_set 4 (VNum flagValue) c1
              else Inl (Err ''unrecognized flag size'')) (\<lambda>c2.
         Inr (add_ptr intSizeBytes c2)))))"

section \<open>Lists and maps\<close>

text \<open>\<open>size32\<close> is \<open>undefined\<close> for lists of unknown length: the product with it is NaN and the test of the
  storage left is false.\<close>

record lower_list_meta =
  ll_elemLowerFn :: lower_fn
  ll_knownLen :: "nat option"
  ll_size32 :: "int option"
  ll_elemSize32 :: int
  ll_elemAlign32 :: int

text \<open>The loops over the elements: each element is written at \<open>base + idx * elemSize32\<close>.\<close>

fun lower_list_loop :: "lower_fn \<Rightarrow> int \<Rightarrow> int option \<Rightarrow> nat \<Rightarrow> val list \<Rightarrow> lower_fn" where
  "lower_list_loop f elemSize32 base idx [] c = Inr c"
| "lower_list_loop f elemSize32 base idx (v # vs) c =
     (let elemPtr = map_option (\<lambda>b. b + int idx * elemSize32) base in
      rbind (f (c\<lparr>storagePtr := elemPtr, vals := [v]\<rparr>)) (\<lambda>c1.
        lower_list_loop f elemSize32 base (Suc idx) vs (max_ptr elemPtr elemSize32 c1)))"

definition num_param :: "val \<Rightarrow> int js" where
  "num_param v = (case v of VNum n \<Rightarrow> Inr n | _ \<Rightarrow> Inl (OutOfModel ''pointer that is no number''))"

text \<open>With direct parameters the elements are lowered through a context of their own, which has only
  the pointer, the memory and the string encoding.\<close>

definition elem_ctx :: "int \<Rightarrow> ctx \<Rightarrow> ctx" where
  "elem_ctx p c = \<lparr>memory = memory c, storagePtr = Some p, storageLen = None, params = [],
     useDirectParams = False, inVariant = False, vals = [], realloc = None, componentIdx = None\<rparr>"

definition lowerFlatList :: "lower_list_meta \<Rightarrow> lower_fn" where
  "lowerFlatList meta c =
     (let f = ll_elemLowerFn meta; es = ll_elemSize32 meta;
          check = (\<lambda>elems c'.
            case storageLen c' of
              None \<Rightarrow> Inr c'
            | Some l \<Rightarrow> (case ll_size32 meta of
                  None \<Rightarrow> Inr c'
                | Some s \<Rightarrow> if int (length elems) * s > l
                    then Inl (Err ''not enough storage remaining for list flat lower'') else Inr c'))
      in
      if useDirectParams c then
        (case params c of
           p # _ # ps \<Rightarrow>
             rbind (num_param p) (\<lambda>sp.
               let c1 = c\<lparr>params := ps\<rparr>; list = val0 c1 in
               if \<not> val_truthy list then Inl (Err ''missing direct param value'')
               else rbind (list_elems list) (\<lambda>vs.
                 rbind (lower_list_loop f es (Some sp) 0 vs (elem_ctx sp c1)) (\<lambda>lc.
                   Inr (c1\<lparr>memory := memory lc, storagePtr := storagePtr lc\<rparr>))))
         | _ \<Rightarrow> Inl (Err ''insufficient params left to lower list''))
      else
        (case ll_knownLen meta of
           None \<Rightarrow>
             (case realloc c of
                None \<Rightarrow> Inl (Err ''missing realloc during flat string lower'')
              | Some ra \<Rightarrow>
                  rbind (list_elems (val0 c)) (\<lambda>elems.
                  rbind (ctx_mem c) (\<lambda>m.
                  rbind (ra 0 0 (ll_elemAlign32 meta) (es * int (length elems)) m) (\<lambda>(dataPtr, m').
                  rbind (lowerFlatU32 (set_val0 (VNum dataPtr) (c\<lparr>memory := Some m'\<rparr>))) (\<lambda>c1.
                  rbind (lowerFlatU32 (set_val0 (VNum (int (length elems))) c1)) (\<lambda>c2.
                    let origPtr = storagePtr c2 in
                    rbind (lower_list_loop f es (Some dataPtr) 0 elems (c2\<lparr>storagePtr := Some dataPtr\<rparr>)) (\<lambda>c3.
                      check elems (c3\<lparr>storagePtr := origPtr\<rparr>))))))))
         | Some n \<Rightarrow>
             rbind (list_elems (val0 c)) (\<lambda>elems.
               if length elems \<noteq> n then Inl (TypeErr ''invalid list input of length'')
               else rbind (lower_list_loop f es (storagePtr c) 0 elems c) (check elems))))"

record lower_map_meta =
  lm_keyLowerFn :: lower_fn
  lm_valueLowerFn :: lower_fn
  lm_entrySize32 :: int
  lm_entryAlign32 :: int
  lm_valueOffset32 :: int

fun lower_map_loop :: "lower_map_meta \<Rightarrow> int \<Rightarrow> nat \<Rightarrow> (val \<times> val) list \<Rightarrow> lower_fn" where
  "lower_map_loop meta dataPtr idx [] c = Inr c"
| "lower_map_loop meta dataPtr idx ((key, v) # kvs) c =
     (let entryPtr = dataPtr + int idx * lm_entrySize32 meta in
      rbind (lm_keyLowerFn meta (c\<lparr>storagePtr := Some entryPtr, vals := [key]\<rparr>)) (\<lambda>c1.
      rbind (lm_valueLowerFn meta (c1\<lparr>storagePtr := Some (entryPtr + lm_valueOffset32 meta), vals := [v]\<rparr>)) (\<lambda>c2.
        lower_map_loop meta dataPtr (Suc idx) kvs c2)))"

definition lowerFlatMap :: "lower_map_meta \<Rightarrow> lower_fn" where
  "lowerFlatMap meta c =
     (case val0 c of
        VMap kvs \<Rightarrow>
          if useDirectParams c then
            (case params c of
               p # l # ps \<Rightarrow>
                 if l \<noteq> VNum (int (length kvs)) then Inl (Err ''map length does not match allocated storage'')
                 else rbind (num_param p) (\<lambda>dataPtr.
                   rbind (lower_map_loop meta dataPtr 0 kvs (c\<lparr>params := ps\<rparr>)) (\<lambda>c1.
                     Inr (c1\<lparr>storagePtr := storagePtr c\<rparr>)))
             | _ \<Rightarrow> Inl (Err ''insufficient params left to lower map''))
          else
            (case realloc c of
               None \<Rightarrow> Inl (Err ''missing realloc during flat map lower'')
             | Some ra \<Rightarrow>
                 rbind (ctx_mem c) (\<lambda>m.
                 rbind (ra 0 0 (lm_entryAlign32 meta) (lm_entrySize32 meta * int (length kvs)) m) (\<lambda>(dataPtr, m').
                 rbind (lowerFlatU32 (set_val0 (VNum dataPtr) (c\<lparr>memory := Some m'\<rparr>))) (\<lambda>c1.
                 rbind (lowerFlatU32 (set_val0 (VNum (int (length kvs))) c1)) (\<lambda>c2.
                   let restorePtr = storagePtr c2 in
                   rbind (lower_map_loop meta dataPtr 0 kvs c2) (\<lambda>c3.
                     Inr (c3\<lparr>storagePtr := restorePtr\<rparr>)))))))
      | _ \<Rightarrow> Inl (TypeErr ''expected a Map''))"

section \<open>Resources\<close>

text \<open>\<open>lowerFn\<close> is the resource's generated function from the object to its handle, and
  \<open>expectedIdx\<close> the component index of the metadata.\<close>

definition lowerFlatOwn :: "(val \<Rightarrow> val js) \<Rightarrow> int \<Rightarrow> lower_fn" where
  "lowerFlatOwn lowerFn expectedIdx c =
     (if componentIdx c \<noteq> Some expectedIdx then Inl (Err ''component index mismatch'')
      else if val0 c = VUndef \<or> val0 c = VNull then Inl (Err ''missing resource'')
      else rbind (lowerFn (val0 c)) (\<lambda>handle. lowerFlatU32 (set_val0 handle c)))"

definition lowerFlatBorrow :: lower_fn where
  "lowerFlatBorrow c = Inl (Err ''flat lower for borrowed resources is not supported!'')"

end
