(* ===== verification/Flat_Lift.thy ===== *)
theory Flat_Lift
  imports Flat_Ctx
begin

text \<open>
  The flat lift functions (\<open>src/crates/js-component-bindgen/src/intrinsics/lift.rs\<close>): each reads a
  value either from the flat parameters (\<open>useDirectParams\<close>) or from linear memory at
  \<open>ctx.storagePtr\<close>, of which \<open>ctx.storageLen\<close> bytes may be used. Not modelled: floats (but for the
  test that a payload's function is the one of \<open>f64\<close>), strings, futures, streams and error
  contexts.
\<close>

section \<open>Numbers\<close>

definition enough_len :: "int \<Rightarrow> ctx \<Rightarrow> unit js" where
  "enough_len n c =
     (case storageLen c of
        None \<Rightarrow> Inr ()
      | Some l \<Rightarrow> if l < n then Inl (Err ''insufficient storage for lift'') else Inr ())"

definition first_param :: "string \<Rightarrow> ctx \<Rightarrow> (val \<times> ctx) js" where
  "first_param msg c = (case params c of [] \<Rightarrow> Inl (Err msg) | v # ps \<Rightarrow> Inr (v, c\<lparr>params := ps\<rparr>))"

text \<open>The common shape: \<open>n\<close> bytes at the pointer, with the budget check before and the pointer and
  the budget moved after.\<close>

definition lift_mem :: "bool \<Rightarrow> nat \<Rightarrow> (int \<Rightarrow> val) \<Rightarrow> lift_fn" where
  "lift_mem sgned n mk c =
     rbind (enough_len (int n) c) (\<lambda>_. rbind (dv_get sgned n c) (\<lambda>x.
       Inr (mk x, sub_len (int n) (add_ptr (int n) c))))"

definition liftFlatBool :: lift_fn where
  "liftFlatBool c =
     (if useDirectParams c
      then rbind (first_param ''expected at least a single i32 argument'' c) (\<lambda>(v, c'). Inr (VBool (v = VNum 1), c'))
      else lift_mem False 1 (\<lambda>x. VBool (x = 1)) c)"

definition liftFlatS8 :: lift_fn where
  "liftFlatS8 c =
     (if useDirectParams c then first_param ''expected at least a single i32 argument'' c
      else lift_mem True 1 VNum c)"

definition liftFlatU8 :: lift_fn where
  "liftFlatU8 c =
     (if useDirectParams c then first_param ''expected at least a single i32 argument'' c
      else lift_mem False 1 VNum c)"

definition liftFlatS16 :: lift_fn where
  "liftFlatS16 c =
     (if useDirectParams c then first_param ''expected at least a single i32 argument'' c
      else lift_mem True 2 VNum c)"

definition liftFlatU16 :: lift_fn where
  "liftFlatU16 c =
     (if useDirectParams c then first_param ''expected at least a single i32 argument'' c
      else rbind (lift_mem False 2 VNum c) (\<lambda>(v, c'). Inr (v, align_ptr 2 c')))"

definition liftFlatS32 :: lift_fn where
  "liftFlatS32 c =
     (if useDirectParams c then first_param ''expected at least a single i32 argument'' c
      else lift_mem True 4 VNum c)"

definition liftFlatU32 :: lift_fn where
  "liftFlatU32 c =
     (if useDirectParams c then first_param ''expected at least a single i34 argument'' c
      else lift_mem False 4 VNum c)"

definition bigint_param :: "ctx \<Rightarrow> (val \<times> ctx) js" where
  "bigint_param c =
     rbind (first_param ''expected at least one single i64 argument'' c) (\<lambda>(v, c').
       case v of VBig n \<Rightarrow> Inr (v, c') | _ \<Rightarrow> Inl (Err ''expected bigint''))"

definition liftFlatS64 :: lift_fn where
  "liftFlatS64 c = (if useDirectParams c then bigint_param c else lift_mem True 8 VBig c)"

definition liftFlatU64 :: lift_fn where
  "liftFlatU64 c = (if useDirectParams c then bigint_param c else lift_mem False 8 VBig c)"

definition liftFlatChar :: lift_fn where
  "liftFlatChar c =
     (if useDirectParams c
      then rbind (first_param ''expected at least one single i32 argument'' c) (\<lambda>(v, c').
             rbind (i32ToChar v) (\<lambda>s. Inr (s, c')))
      else rbind (lift_mem False 4 VNum c) (\<lambda>(v, c'). rbind (i32ToChar v) (\<lambda>s. Inr (s, c'))))"

section \<open>Records and tuples\<close>

text \<open>The pointer after a part of size \<open>size32\<close> that started at \<open>base\<close>, if \<open>base\<close> is defined; and
  the storage budget after it, computed from the budget before it.\<close>

definition max_ptr_defined :: "int option \<Rightarrow> int \<Rightarrow> ctx \<Rightarrow> ctx" where
  "max_ptr_defined base n c = (if base = None then c else max_ptr base n c)"

definition restore_len :: "int option \<Rightarrow> int \<Rightarrow> ctx \<Rightarrow> ctx" where
  "restore_len len n c = (case len of None \<Rightarrow> c | Some l \<Rightarrow> c\<lparr>storageLen := Some (l - n)\<rparr>)"

type_synonym lift_field = "string \<times> lift_fn \<times> int \<times> int"

fun lift_fields :: "(string \<times> val) list \<Rightarrow> lift_field list \<Rightarrow> ctx \<Rightarrow> ((string \<times> val) list \<times> ctx) js" where
  "lift_fields res [] c = Inr (res, c)"
| "lift_fields res ((key, liftFn, size32, align32) # fs) c =
     (let c1 = align_ptr align32 c; fieldPtr = storagePtr c1; fieldLen = storageLen c1 in
      rbind (liftFn c1) (\<lambda>(v, c2).
        lift_fields (obj_set res key v) fs (restore_len fieldLen size32 (max_ptr_defined fieldPtr size32 c2))))"

definition liftFlatRecord :: "lift_field list \<Rightarrow> int \<Rightarrow> int \<Rightarrow> lift_fn" where
  "liftFlatRecord fieldMetas recordSize32 recordAlign32 c =
     (let originalPtr = storagePtr c in
      rbind (lift_fields [] fieldMetas c) (\<lambda>(res, c1).
        Inr (VObj res, align_ptr recordAlign32 (max_ptr_defined originalPtr recordSize32 c1))))"

type_synonym lift_elem = "lift_fn \<times> int \<times> int"

fun lift_elems :: "val list \<Rightarrow> lift_elem list \<Rightarrow> ctx \<Rightarrow> (val list \<times> ctx) js" where
  "lift_elems acc [] c = Inr (acc, c)"
| "lift_elems acc ((liftFn, size32, align32) # es) c =
     (let c1 = align_ptr align32 c; elemPtr = storagePtr c1; elemLen = storageLen c1 in
      rbind (liftFn c1) (\<lambda>(v, c2).
        lift_elems (acc @ [v]) es (restore_len elemLen size32 (max_ptr_defined elemPtr size32 c2))))"

definition liftFlatTuple :: "lift_elem list \<Rightarrow> int \<Rightarrow> int \<Rightarrow> lift_fn" where
  "liftFlatTuple elemLiftFns tupleSize32 tupleAlign32 c =
     (let originalPtr = storagePtr c in
      rbind (lift_elems [] elemLiftFns c) (\<lambda>(vs, c1).
        Inr (VArr vs, align_ptr tupleAlign32 (max_ptr_defined originalPtr tupleSize32 c1))))"

section \<open>Variants, enums, options and results\<close>

text \<open>An entry of \<open>caseMetas\<close>. \<open>lc_isF64\<close> says that the payload's function is
  \<open>_liftFlatFloat64\<close>, which the code finds out by comparing functions.\<close>

record lift_case =
  lc_tag :: string
  lc_liftFn :: "lift_fn option"
  lc_isF64 :: bool
  lc_flatCount :: "int option"

record lift_variant_meta =
  lv_caseMetas :: "lift_case list"
  lv_size32 :: int
  lv_align32 :: int
  lv_payloadOffset32 :: "int option"
  lv_flatCount :: "int option"
  lv_isEnum :: bool

definition disc_lift :: "nat \<Rightarrow> lift_fn js" where
  "disc_lift n =
     (if n < 256 then Inr liftFlatU8
      else if n < 65536 then Inr liftFlatU16
      else if int n < 4294967296 then Inr liftFlatU32
      else Inl (Err ''unsupported number of variant cases''))"

text \<open>\<open>caseMetas[caseIdx]\<close>: outside the array it is \<open>undefined\<close>, and destructuring it throws.\<close>

definition nth_case :: "lift_case list \<Rightarrow> val \<Rightarrow> lift_case js" where
  "nth_case cs v = (case v of
     VNum i \<Rightarrow> if 0 \<le> i \<and> i < int (length cs) then Inr (cs ! nat i) else Inl (TypeErr ''undefined is not iterable'')
   | VBig i \<Rightarrow> if 0 \<le> i \<and> i < int (length cs) then Inr (cs ! nat i) else Inl (TypeErr ''undefined is not iterable'')
   | _ \<Rightarrow> Inl (OutOfModel ''index that is no number''))"

text \<open>Before a payload is lifted from the parameters, a bigint there is turned into a number, unless
  the payload is an \<open>f64\<close>.\<close>

definition join_param :: "bool \<Rightarrow> ctx \<Rightarrow> ctx js" where
  "join_param isF64 c =
     (if useDirectParams c \<and> \<not> isF64 then
        (case params c of
           VBig n # ps \<Rightarrow>
             if n > 9007199254740991 then Inl (Err ''invalid value, reinterpreted i32/f32 too large'')
             else Inr (c\<lparr>params := VNum n # ps\<rparr>)
         | _ \<Rightarrow> Inr c)
      else Inr c)"

definition lift_payload :: "lift_case \<Rightarrow> int option \<Rightarrow> int \<Rightarrow> lift_fn" where
  "lift_payload k originalPtr variantSize32 c =
     (case lc_liftFn k of
        None \<Rightarrow> Inr (VObj [(''tag'', VStr (lc_tag k))],
          if originalPtr = None then c else c\<lparr>storagePtr := map_option (\<lambda>p. p + variantSize32) originalPtr\<rparr>)
      | Some f \<Rightarrow>
          rbind (join_param (lc_isF64 k) c) (\<lambda>c1. rbind (f c1) (\<lambda>(v, c2).
            Inr (VObj [(''tag'', VStr (lc_tag k)), (''val'', v)], c2))))"

text \<open>Dropping the parameters that the case does not use: the flat form of a variant is as long as its
  longest case.\<close>

definition drop_rest :: "lift_variant_meta \<Rightarrow> lift_case \<Rightarrow> ctx \<Rightarrow> ctx js" where
  "drop_rest meta k c =
     (case lv_flatCount meta of
        None \<Rightarrow> Inl (Err ''cannot lift variant with unknown flat count'')
      | Some vfc \<Rightarrow>
          (case lc_flatCount k of
             None \<Rightarrow> Inl (Err ''cannot lift case with unknown flat count'')
           | Some cfc \<Rightarrow>
               let remaining = vfc - cfc - (if lv_isEnum meta then 0 else 1) in
               if remaining < 0 then Inl (Err ''invalid variant flat count metadata'')
               else if int (length (params c)) < remaining
               then Inl (Err ''expected at least remaining variant payload params'')
               else Inr (c\<lparr>params := drop (nat remaining) (params c)\<rparr>)))"

definition liftFlatVariant :: "lift_variant_meta \<Rightarrow> lift_fn" where
  "liftFlatVariant meta c =
     (let origUseParams = useDirectParams c; wasInVariant = inVariant c; originalPtr = storagePtr c in
      rbind (disc_lift (length (lv_caseMetas meta))) (\<lambda>disc.
      rbind (disc (c\<lparr>inVariant := True\<rparr>)) (\<lambda>(caseIdx, c1).
      rbind (nth_case (lv_caseMetas meta) caseIdx) (\<lambda>k.
      case lv_payloadOffset32 meta of
        None \<Rightarrow> Inl (Err ''unexpectedly missing payload offset'')
      | Some off \<Rightarrow>
          let c2 = (if originalPtr = None then c1 else c1\<lparr>storagePtr := map_option (\<lambda>p. p + off) originalPtr\<rparr>) in
          rbind (lift_payload k originalPtr (lv_size32 meta) c2) (\<lambda>(v, c3).
          rbind (if origUseParams then drop_rest meta k c3 else Inr c3) (\<lambda>c4.
            Inr (v, (align_ptr (lv_align32 meta) c4)\<lparr>inVariant := wasInVariant\<rparr>)))))))"

text \<open>An enum's metadata is marked as such, and its lifted value is the tag.\<close>

definition liftFlatEnum :: "lift_variant_meta \<Rightarrow> lift_fn" where
  "liftFlatEnum meta c =
     rbind (liftFlatVariant (meta\<lparr>lv_isEnum := True\<rparr>) c) (\<lambda>(v, c').
       rbind (js_prop v ''tag'') (\<lambda>t. Inr (t, c')))"

definition liftFlatOption :: "lift_variant_meta \<Rightarrow> lift_fn" where
  "liftFlatOption meta = liftFlatVariant meta"

definition liftFlatResult :: "lift_variant_meta \<Rightarrow> lift_fn" where
  "liftFlatResult meta = liftFlatVariant meta"

section \<open>Flags\<close>

text \<open>\<open>bits\<close> is a number, or (a direct parameter) a value whose ToInt32 is taken.\<close>

fun flags_of_bits :: "int \<Rightarrow> string list \<Rightarrow> (string \<times> val) list \<Rightarrow> (string \<times> val) list" where
  "flags_of_bits bits [] res = res"
| "flags_of_bits bits (name # names) res =
     flags_of_bits (drop_bit 1 (to_uint32 bits)) names (obj_set res name (VBool (odd bits)))"

definition liftFlatFlags :: "string list \<Rightarrow> int \<Rightarrow> int \<Rightarrow> lift_fn" where
  "liftFlatFlags names align32 intSizeBytes c =
     rbind (if intSizeBytes = 1 then liftFlatU8 c
            else if intSizeBytes = 2 then liftFlatU16 c
            else if intSizeBytes = 4 then liftFlatU32 c
            else Inl (Err ''invalid flags size'')) (\<lambda>(v, c1).
     rbind (if names = [] then Inr 0 else to_number v) (\<lambda>bits.
       Inr (VObj (flags_of_bits bits names []), align_ptr align32 c1)))"

section \<open>Lists and maps\<close>

record lift_list_meta =
  li_elemLiftFn :: lift_fn
  li_elemSize32 :: int
  li_knownLen :: "nat option"
  li_typedArray :: "typed_kind option"

definition list_value :: "typed_kind option \<Rightarrow> val list \<Rightarrow> val js" where
  "list_value ta vs = (case ta of None \<Rightarrow> Inr (VArr vs) | Some k \<Rightarrow> new_typed k vs)"

text \<open>The loop \<open>for (i = 0; i < len; i++)\<close>, with \<open>n\<close> rounds left.\<close>

fun read_values :: "lift_fn \<Rightarrow> int \<Rightarrow> int option \<Rightarrow> nat \<Rightarrow> nat \<Rightarrow> val list \<Rightarrow> ctx \<Rightarrow> (val list \<times> ctx) js" where
  "read_values f elemSize32 dataPtr i 0 acc c = Inr (acc, c)"
| "read_values f elemSize32 dataPtr i (Suc n) acc c =
     (let elemPtr = map_option (\<lambda>p. p + int i * elemSize32) dataPtr in
      rbind (f (c\<lparr>storagePtr := elemPtr\<rparr>)) (\<lambda>(v, c1).
        read_values f elemSize32 dataPtr (Suc i) n (acc @ [v]) (max_ptr elemPtr elemSize32 c1)))"

text \<open>\<open>readValuesAndReset\<close>: \<open>originalPtr\<close> is \<open>null\<close> (here \<open>None\<close>) when the pointer is to be left
  after the elements.\<close>

definition readValuesAndReset ::
    "lift_list_meta \<Rightarrow> ctx \<Rightarrow> int option option \<Rightarrow> int option \<Rightarrow> int option \<Rightarrow> nat \<Rightarrow> (val \<times> ctx) js" where
  "readValuesAndReset meta c originalPtr originalLen dataPtr len =
     rbind (read_values (li_elemLiftFn meta) (li_elemSize32 meta) dataPtr 0 len [] (c\<lparr>storagePtr := dataPtr\<rparr>))
       (\<lambda>(vs, c1).
         let c2 = (case originalPtr of None \<Rightarrow> c1 | Some p \<Rightarrow> c1\<lparr>storagePtr := p\<rparr>);
             c3 = c2\<lparr>storageLen := originalLen\<rparr>
         in rbind (list_value (li_typedArray meta) vs) (\<lambda>v. Inr (v, c3)))"

definition two_params :: "ctx \<Rightarrow> (int \<times> int \<times> ctx) js" where
  "two_params c = (case params c of
     VNum p # VNum l # ps \<Rightarrow> Inr (p, l, c\<lparr>params := ps\<rparr>)
   | _ \<Rightarrow> Inl (OutOfModel ''pointer or length that is no number''))"

definition lift_header :: "ctx \<Rightarrow> (int \<times> int \<times> ctx) js" where
  "lift_header c =
     rbind (liftFlatU32 c) (\<lambda>(p, c1). rbind (to_number p) (\<lambda>dataPtr.
     rbind (liftFlatU32 c1) (\<lambda>(l, c2). rbind (to_number l) (\<lambda>len.
       Inr (dataPtr, len, c2)))))"

definition liftFlatList :: "lift_list_meta \<Rightarrow> lift_fn" where
  "liftFlatList meta c =
     (case li_knownLen meta of
        Some n \<Rightarrow>
          if useDirectParams c then
            rbind (list_value (li_typedArray meta) (take n (params c))) (\<lambda>v.
              Inr (v, c\<lparr>params := drop n (params c)\<rparr>))
          else if memory c = None then Inl (Err ''memory missing while lifting known length list'')
          else readValuesAndReset meta (c\<lparr>storageLen := Some (int n * li_elemSize32 meta)\<rparr>) None (storageLen c)
                 (storagePtr c) n
      | None \<Rightarrow>
          if useDirectParams c then
            rbind (two_params c) (\<lambda>(dataPtr, len, c1).
            rbind (readValuesAndReset meta
                    (c1\<lparr>useDirectParams := False, storageLen := Some (len * li_elemSize32 meta)\<rparr>)
                    (Some (storagePtr c1)) (storageLen c1) (Some dataPtr) (nat len)) (\<lambda>(v, c2).
              Inr (v, c2\<lparr>useDirectParams := True\<rparr>)))
          else
            rbind (lift_header (c\<lparr>storageLen := Some 8\<rparr>)) (\<lambda>(dataPtr, len, c1).
              readValuesAndReset meta (c1\<lparr>storageLen := Some (len * li_elemSize32 meta)\<rparr>)
                (Some (storagePtr c1)) (storageLen c) (Some dataPtr) (nat len)))"

record lift_map_meta =
  lm_keyLiftFn :: lift_fn
  lm_valueLiftFn :: lift_fn
  lift_entrySize32 :: int
  lift_valueOffset32 :: int

text \<open>\<open>val.set(key, value)\<close> replaces the value of an equal key and else adds an entry.\<close>

primrec map_set :: "(val \<times> val) list \<Rightarrow> val \<Rightarrow> val \<Rightarrow> (val \<times> val) list" where
  "map_set [] k v = [(k, v)]"
| "map_set (e # es) k v = (if fst e = k then (k, v) # es else e # map_set es k v)"

fun read_entries :: "lift_map_meta \<Rightarrow> int \<Rightarrow> nat \<Rightarrow> nat \<Rightarrow> (val \<times> val) list \<Rightarrow> ctx \<Rightarrow> ((val \<times> val) list \<times> ctx) js" where
  "read_entries meta dataPtr i 0 acc c = Inr (acc, c)"
| "read_entries meta dataPtr i (Suc n) acc c =
     (let entryPtr = dataPtr + int i * lift_entrySize32 meta in
      rbind (lm_keyLiftFn meta (c\<lparr>storagePtr := Some entryPtr\<rparr>)) (\<lambda>(key, c1).
      rbind (lm_valueLiftFn meta (c1\<lparr>storagePtr := Some (entryPtr + lift_valueOffset32 meta)\<rparr>)) (\<lambda>(v, c2).
        if typeof_object key then Inl (OutOfModel ''identity of object keys'')
        else read_entries meta dataPtr (Suc i) n (map_set acc key v) c2)))"

definition liftFlatMap :: "lift_map_meta \<Rightarrow> lift_fn" where
  "liftFlatMap meta c =
     (let originalLen = storageLen c; wasDirect = useDirectParams c in
      rbind (if useDirectParams c
             then rbind (two_params c) (\<lambda>(p, l, c1). Inr (p, l, c1, storagePtr c))
             else rbind (lift_header (c\<lparr>storageLen := Some 8\<rparr>)) (\<lambda>(p, l, c1). Inr (p, l, c1, storagePtr c1)))
        (\<lambda>(dataPtr, len, c1, originalPtr).
      rbind (read_entries meta dataPtr 0 (nat len) []
               (c1\<lparr>useDirectParams := False, storageLen := Some (len * lift_entrySize32 meta)\<rparr>)) (\<lambda>(kvs, c2).
        Inr (VMap kvs, c2\<lparr>storagePtr := originalPtr, storageLen := originalLen, useDirectParams := wasDirect\<rparr>))))"

section \<open>Resources\<close>

text \<open>\<open>createResourceFn\<close> is the resource's generated function from the handle to its object.\<close>

definition liftFlatOwn :: "(val \<Rightarrow> val js) \<Rightarrow> int \<Rightarrow> lift_fn" where
  "liftFlatOwn createResourceFn expectedIdx c =
     (if componentIdx c \<noteq> Some expectedIdx then Inl (Err ''invalid component for resource lift'')
      else rbind (liftFlatU32 c) (\<lambda>(handle, c1).
        rbind (createResourceFn handle) (\<lambda>resource. Inr (resource, c1))))"

definition liftFlatBorrow :: lift_fn where
  "liftFlatBorrow c = Inl (Err ''flat lift for borrowed resources is not supported!'')"

end
