(* ===== verification/Flat_Codec.thy ===== *)
theory Flat_Codec
  imports Flat_Lower Flat_Lift
begin

text \<open>
  What the flat lower and lift functions promise each other when they work through linear memory: a
  lower function with size \<open>sz\<close> and alignment \<open>al\<close> writes the \<open>sz\<close> bytes at an aligned pointer and
  nothing else, moves the pointer past them, and the matching lift function reads the value back from
  any memory that has these bytes there, without moving the pointer beyond them. (It may leave the
  pointer before their end: a variant does, after a case that is shorter than the longest one.) The contract is the locale \<open>flat_codec\<close>; the number types
  are interpretations of it, and each constructor of composite types carries it from its parts to the
  whole.
\<close>

section \<open>The contract\<close>

text \<open>A context that points at an aligned area of \<open>sz\<close> bytes inside the memory \<open>m\<close>, with indirect
  parameters.\<close>

definition ready :: "int \<Rightarrow> int \<Rightarrow> mem \<Rightarrow> int \<Rightarrow> ctx \<Rightarrow> bool" where
  "ready sz al m p c \<longleftrightarrow>
     memory c = Some m \<and> storagePtr c = Some p \<and> \<not> useDirectParams c \<and>
     0 \<le> p \<and> al dvd p \<and> p + sz \<le> int (length m)"

text \<open>Two memories that agree on an area that lies inside the second.\<close>

definition agree :: "int \<Rightarrow> int \<Rightarrow> mem \<Rightarrow> mem \<Rightarrow> bool" where
  "agree p sz m m2 \<longleftrightarrow>
     p + sz \<le> int (length m2) \<and> (\<forall>i. p \<le> int i \<longrightarrow> int i < p + sz \<longrightarrow> m2 ! i = m ! i)"

text \<open>Two memories that differ only on an area.\<close>

definition only_in :: "int \<Rightarrow> int \<Rightarrow> mem \<Rightarrow> mem \<Rightarrow> bool" where
  "only_in p sz m m' \<longleftrightarrow>
     length m' = length m \<and> (\<forall>i < length m. int i < p \<or> p + sz \<le> int i \<longrightarrow> m' ! i = m ! i)"

definition budget :: "int \<Rightarrow> ctx \<Rightarrow> bool" where
  "budget sz c \<longleftrightarrow> (case storageLen c of None \<Rightarrow> True | Some l \<Rightarrow> sz \<le> l)"

definition budget_after :: "int \<Rightarrow> int option \<Rightarrow> int option \<Rightarrow> bool" where
  "budget_after sz before after \<longleftrightarrow>
     (case before of None \<Rightarrow> after = None | Some l \<Rightarrow> (\<exists>l'. after = Some l' \<and> l - sz \<le> l'))"

text \<open>What a lower function leaves behind, and what a lift function finds.\<close>

definition wrote :: "int \<Rightarrow> mem \<Rightarrow> int \<Rightarrow> ctx \<Rightarrow> ctx \<Rightarrow> mem \<Rightarrow> bool" where
  "wrote sz m p c c' m' \<longleftrightarrow>
     memory c' = Some m' \<and> only_in p sz m m' \<and> storagePtr c' = Some (p + sz) \<and>
     \<not> useDirectParams c' \<and> storageLen c' = storageLen c"

definition reads :: "lift_fn \<Rightarrow> int \<Rightarrow> int \<Rightarrow> val \<Rightarrow> mem \<Rightarrow> int \<Rightarrow> bool" where
  "reads lift sz al v m p \<longleftrightarrow>
     (\<forall>d. ready sz al m p d \<longrightarrow> budget sz d \<longrightarrow>
       (\<exists>d' q. lift d = Inr (v, d') \<and> memory d' = Some m \<and> storagePtr d' = Some q \<and> p \<le> q \<and> q \<le> p + sz \<and>
             \<not> useDirectParams d' \<and> budget_after sz (storageLen d) (storageLen d')))"

definition stores :: "lower_fn \<Rightarrow> lift_fn \<Rightarrow> int \<Rightarrow> int \<Rightarrow> val \<Rightarrow> val \<Rightarrow> bool" where
  "stores lower lift sz al v v' \<longleftrightarrow>
     (\<forall>c m p. ready sz al m p c \<longrightarrow> storageLen c = None \<longrightarrow> vals c = [v] \<longrightarrow>
       (\<exists>c' m'. lower c = Inr c' \<and> wrote sz m p c c' m' \<and>
          (\<forall>m2. agree p sz m' m2 \<longrightarrow> reads lift sz al v' m2 p)))"

locale flat_codec =
  fixes lower :: lower_fn and lift :: lift_fn and sz :: int and al :: int
    and rel :: "val \<Rightarrow> val \<Rightarrow> bool"
  assumes al_pos: "0 < al"
    and sz_nonneg: "0 \<le> sz"
    and al_dvd: "al dvd sz"
    and stores: "rel v v' \<Longrightarrow> stores lower lift sz al v v'"

lemma storesE:
  assumes "stores lower lift sz al v v'" "ready sz al m p c" "storageLen c = None" "vals c = [v]"
  obtains c' m' where "lower c = Inr c'" "wrote sz m p c c' m'"
    "\<And>m2. agree p sz m' m2 \<Longrightarrow> reads lift sz al v' m2 p"
  using assms unfolding stores_def by blast

lemma readsE:
  assumes "reads lift sz al v m p" "ready sz al m p d" "budget sz d"
  obtains d' q where "lift d = Inr (v, d')" "memory d' = Some m" "storagePtr d' = Some q" "p \<le> q" "q \<le> p + sz"
    "\<not> useDirectParams d'" "budget_after sz (storageLen d) (storageLen d')"
  using assms unfolding reads_def by blast

lemma only_in_trans:
  assumes "only_in p sz m m'" "only_in q sz' m' m''" "r \<le> p" "p + sz \<le> r + n" "r \<le> q" "q + sz' \<le> r + n"
  shows "only_in r n m m''"
  using assms unfolding only_in_def by auto

lemma only_in_mono: "only_in p sz m m' \<Longrightarrow> r \<le> p \<Longrightarrow> p + sz \<le> r + n \<Longrightarrow> only_in r n m m'"
  by (auto simp: only_in_def)

lemma only_in_refl: "only_in p sz m m"
  by (simp add: only_in_def)

lemma agree_mono: "agree r n m m2 \<Longrightarrow> r \<le> p \<Longrightarrow> p + sz \<le> r + n \<Longrightarrow> agree p sz m m2"
  by (auto simp: agree_def)

text \<open>What was written before and not touched since is still there.\<close>

lemma agree_only_in:
  assumes "agree r n m' m2" "only_in q sz' m m'" "r \<le> p" "p + sz \<le> r + n" "p + sz \<le> q \<or> q + sz' \<le> p"
    "0 \<le> p" "p + sz \<le> int (length m)"
  shows "agree p sz m m2"
  unfolding agree_def
proof (intro conjI allI impI)
  show "p + sz \<le> int (length m2)" using assms(1,4) by (simp add: agree_def)
  fix i assume i: "p \<le> int i" "int i < p + sz"
  with assms(1,3,4) have "m2 ! i = m' ! i" by (simp add: agree_def)
  also have "\<dots> = m ! i" using assms(2,5,7) i unfolding only_in_def by auto
  finally show "m2 ! i = m ! i" .
qed

section \<open>Numbers\<close>

lemma align_ptr_ready: "ready sz al m p c \<Longrightarrow> 0 < al \<Longrightarrow> align_ptr al c = c"
  by (simp add: ready_def align_ptr_def align_up_id)

lemma stores_number:
  assumes n: "0 < n" "0 < al"
    and lower: "\<And>c m p. ready (int n) al m p c \<Longrightarrow> vals c = [v] \<Longrightarrow>
      lower c = rbind (dv_store n (Inr x) c) (\<lambda>c. Inr (add_ptr (int n) c))"
    and lift: "\<And>d m p. ready (int n) al m p d \<Longrightarrow> budget (int n) d \<Longrightarrow> lift d = lift_mem sgned n mk d"
    and v': "v' = mk (wrap_int sgned n x)"
  shows "stores lower lift (int n) al v v'"
  unfolding stores_def
proof (intro allI impI)
  fix c m p
  assume r: "ready (int n) al m p c" and l: "storageLen c = None" and vs: "vals c = [v]"
  let ?m = "mem_write p (le_bytes n x) m"
  from r have p: "0 \<le> p" "p + int n \<le> int (length m)" by (simp_all add: ready_def)
  from r have "lower c = Inr (add_ptr (int n) (c\<lparr>memory := Some ?m\<rparr>))"
    by (simp add: lower [OF r vs] dv_store_def ctx_mem_def addr_def ready_def)
  moreover have "wrote (int n) m p c (add_ptr (int n) (c\<lparr>memory := Some ?m\<rparr>)) ?m"
    using r p by (auto simp: wrote_def only_in_def add_ptr_def ready_def mem_write_nth)
  moreover have "reads lift (int n) al v' m2 p" if a: "agree p (int n) ?m m2" for m2
    unfolding reads_def
  proof (intro allI impI)
    fix d assume d: "ready (int n) al m2 p d" "budget (int n) d"
    have "mem_read p n m2 = le_bytes n x"
    proof -
      have "mem_read p n m2 = mem_read p n ?m"
        using a p unfolding mem_read_def agree_def
        by (intro nth_equalityI) auto
      then show ?thesis using mem_read_write [of p "le_bytes n x" m] p by simp
    qed
    with d have "lift d = Inr (v', sub_len (int n) (add_ptr (int n) d))"
      by (auto simp: lift [OF d] lift_mem_def enough_len_def budget_def dv_get_def ctx_mem_def addr_def
        ready_def v' wrap_le_bytes [OF n(1)] split: option.splits)
    with d show "\<exists>d' q. lift d = Inr (v', d') \<and> memory d' = Some m2 \<and> storagePtr d' = Some q \<and> p \<le> q \<and> q \<le> p + int n \<and>
        \<not> useDirectParams d' \<and> budget_after (int n) (storageLen d) (storageLen d')"
      by (auto simp: ready_def sub_len_def add_ptr_def budget_after_def split: option.splits)
  qed
  ultimately show "\<exists>c' m'. lower c = Inr c' \<and> wrote (int n) m p c c' m' \<and>
      (\<forall>m2. agree p (int n) m' m2 \<longrightarrow> reads lift (int n) al v' m2 p)"
    by blast
qed

definition int_rel :: "int \<Rightarrow> int \<Rightarrow> val \<Rightarrow> val \<Rightarrow> bool" where
  "int_rel lo hi v v' \<longleftrightarrow> (\<exists>n. lo \<le> n \<and> n < hi \<and> v = VNum n \<and> v' = VNum n)"

definition big_rel :: "int \<Rightarrow> int \<Rightarrow> val \<Rightarrow> val \<Rightarrow> bool" where
  "big_rel lo hi v v' \<longleftrightarrow> (\<exists>n. lo \<le> n \<and> n < hi \<and> v = VBig n \<and> v' = VBig n)"

lemmas ready_memory = ready_def [THEN iffD1, THEN conjunct1]

lemma one_val_simp [simp]: "vals c = [v] \<Longrightarrow> one_val msg c = Inr v"
  by (simp add: one_val_def)

lemma need_memory_simp [simp]: "ready sz al m p c \<Longrightarrow> need_memory c = Inr ()"
  by (simp add: need_memory_def ready_def)

lemma not_direct: "ready sz al m p c \<Longrightarrow> \<not> useDirectParams c"
  by (simp add: ready_def)

lemma lift_mem_u16: 
  assumes "ready 2 2 m p d"
  shows "rbind (lift_mem False 2 VNum d) (\<lambda>(v, c'). Inr (v, align_ptr 2 c')) = lift_mem False 2 VNum d"
proof -
  from assms have p: "0 \<le> p" "even p" "storagePtr d = Some p" by (simp_all add: ready_def)
  then have "align_up 2 (p + 2) = p + 2" by (intro align_up_id) auto
  with p have "align_ptr 2 (sub_len 2 (add_ptr 2 d)) = sub_len 2 (add_ptr 2 d)"
    by (simp add: align_ptr_def add_ptr_def sub_len_def)
  then show ?thesis
    by (cases "enough_len 2 d"; cases "dv_get False 2 d") (simp_all add: lift_mem_def)
qed

lemma stores_bool: "stores lowerFlatBool liftFlatBool 1 1 v (VBool (val_truthy v))"
proof -
  let ?x = "if val_truthy v then 1 else 0 :: int"
  have "stores lowerFlatBool liftFlatBool (int 1) 1 v (VBool (val_truthy v))"
    by (rule stores_number [where x = ?x and sgned = False and mk = "\<lambda>x. VBool (x = 1)"])
      (simp_all add: lowerFlatBool_def liftFlatBool_def dv_set_def not_direct wrap_int_def)
  then show ?thesis by simp
qed

lemma wrap_int_range:
  "lo \<le> n \<Longrightarrow> n < hi \<Longrightarrow> 0 < k \<Longrightarrow> (if sgned then lo = - (2 ^ (8 * k - 1)) \<and> hi = 2 ^ (8 * k - 1) else lo = 0 \<and> hi = 2 ^ (8 * k)) \<Longrightarrow>
   wrap_int sgned k n = n"
  by (rule wrap_int_id) (auto split: if_splits)

interpretation bool_codec: flat_codec lowerFlatBool liftFlatBool 1 1 "\<lambda>v v'. v' = VBool (val_truthy v)"
  by unfold_locales (auto intro: stores_bool)

lemma stores_small:
  assumes "0 < k" "int_rel lo hi v v'"
    "if sgned then lo = - (2 ^ (8 * k - 1)) \<and> hi = 2 ^ (8 * k - 1) else lo = 0 \<and> hi = 2 ^ (8 * k)"
    "\<And>c m p. ready (int k) (int k) m p c \<Longrightarrow> vals c = [v] \<Longrightarrow>
      lower c = rbind (dv_set k v c) (\<lambda>c. Inr (add_ptr (int k) c))"
    "\<And>d m p. ready (int k) (int k) m p d \<Longrightarrow> lift d = lift_mem sgned k VNum d"
  shows "stores lower lift (int k) (int k) v v'"
proof -
  from assms(2) obtain n where n: "lo \<le> n" "n < hi" "v = VNum n" "v' = VNum n"
    by (auto simp: int_rel_def)
  show ?thesis
    using n assms(4,5) wrap_int_range [OF n(1,2) assms(1,3)] assms(1)
    by (intro stores_number [where x = n and sgned = sgned and mk = VNum]) (simp_all add: dv_set_def)
qed

lemma stores_large:
  assumes "big_rel lo hi v v'"
    "if sgned then lo = - (2 ^ 63) \<and> hi = 2 ^ 63 else lo = 0 \<and> hi = 2 ^ 64"
    "\<And>c m p. ready 8 8 m p c \<Longrightarrow> vals c = [v] \<Longrightarrow>
      lower c = rbind (dv_set_big v c) (\<lambda>c. Inr (add_ptr 8 c))"
    "\<And>d m p. ready 8 8 m p d \<Longrightarrow> lift d = lift_mem sgned 8 VBig d"
  shows "stores lower lift 8 8 v v'"
proof -
  from assms(1) obtain n where n: "lo \<le> n" "n < hi" "v = VBig n" "v' = VBig n"
    by (auto simp: big_rel_def)
  have "wrap_int sgned 8 n = n" using assms(2) by (intro wrap_int_range [OF n(1,2)]) auto
  with n assms(3,4) have "stores lower lift (int 8) 8 v v'"
    by (intro stores_number [where x = n and sgned = sgned and mk = VBig]) (simp_all add: dv_set_big_def)
  then show ?thesis by simp
qed

lemma stores_u8: "int_rel (0) 256 v v' \<Longrightarrow> stores lowerFlatU8 liftFlatU8 1 1 v v'"
proof -
  have lo: "lowerFlatU8 c = rbind (dv_set 1 v c) (\<lambda>c. Inr (add_ptr (int 1) c))"
    if "ready (int 1) (int 1) m p c" "vals c = [v]" for c m p
    using that need_memory_simp [OF that(1)] by (simp add: lowerFlatU8_def)
  have li: "liftFlatU8 d = lift_mem False 1 VNum d" if "ready (int 1) (int 1) m p d" for d m p
    using that not_direct [OF that] by (simp add: liftFlatU8_def)
  assume "int_rel (0) 256 v v'"
  then have "stores lowerFlatU8 liftFlatU8 (int 1) (int 1) v v'"
    by (rule stores_small [where k = 1 and sgned = False, rotated, OF _ _ lo li]) simp_all
  then show ?thesis by simp
qed

lemma stores_s8: "int_rel (- 128) 128 v v' \<Longrightarrow> stores lowerFlatS8 liftFlatS8 1 1 v v'"
proof -
  have lo: "lowerFlatS8 c = rbind (dv_set 1 v c) (\<lambda>c. Inr (add_ptr (int 1) c))"
    if "ready (int 1) (int 1) m p c" "vals c = [v]" for c m p
    using that need_memory_simp [OF that(1)] by (simp add: lowerFlatS8_def)
  have li: "liftFlatS8 d = lift_mem True 1 VNum d" if "ready (int 1) (int 1) m p d" for d m p
    using that not_direct [OF that] by (simp add: liftFlatS8_def)
  assume "int_rel (- 128) 128 v v'"
  then have "stores lowerFlatS8 liftFlatS8 (int 1) (int 1) v v'"
    by (rule stores_small [where k = 1 and sgned = True, rotated, OF _ _ lo li]) simp_all
  then show ?thesis by simp
qed

lemma stores_u16: "int_rel (0) 65536 v v' \<Longrightarrow> stores lowerFlatU16 liftFlatU16 2 2 v v'"
proof -
  have lo: "lowerFlatU16 c = rbind (dv_set 2 v c) (\<lambda>c. Inr (add_ptr (int 2) c))"
    if "ready (int 2) (int 2) m p c" "vals c = [v]" for c m p
    using that need_memory_simp [OF that(1)] align_ptr_ready [OF that(1)] by (simp add: lowerFlatU16_def)
  have li: "liftFlatU16 d = lift_mem False 2 VNum d" if "ready (int 2) (int 2) m p d" for d m p
    using that not_direct [OF that] lift_mem_u16 [of m p d] by (simp add: liftFlatU16_def)
  assume "int_rel (0) 65536 v v'"
  then have "stores lowerFlatU16 liftFlatU16 (int 2) (int 2) v v'"
    by (rule stores_small [where k = 2 and sgned = False, rotated, OF _ _ lo li]) simp_all
  then show ?thesis by simp
qed

lemma stores_s16: "int_rel (- 32768) 32768 v v' \<Longrightarrow> stores lowerFlatS16 liftFlatS16 2 2 v v'"
proof -
  have lo: "lowerFlatS16 c = rbind (dv_set 2 v c) (\<lambda>c. Inr (add_ptr (int 2) c))"
    if "ready (int 2) (int 2) m p c" "vals c = [v]" for c m p
    using that need_memory_simp [OF that(1)] align_ptr_ready [OF that(1)] by (simp add: lowerFlatS16_def)
  have li: "liftFlatS16 d = lift_mem True 2 VNum d" if "ready (int 2) (int 2) m p d" for d m p
    using that not_direct [OF that] by (simp add: liftFlatS16_def)
  assume "int_rel (- 32768) 32768 v v'"
  then have "stores lowerFlatS16 liftFlatS16 (int 2) (int 2) v v'"
    by (rule stores_small [where k = 2 and sgned = True, rotated, OF _ _ lo li]) simp_all
  then show ?thesis by simp
qed

lemma stores_u32: "int_rel (0) 4294967296 v v' \<Longrightarrow> stores lowerFlatU32 liftFlatU32 4 4 v v'"
proof -
  have lo: "lowerFlatU32 c = rbind (dv_set 4 v c) (\<lambda>c. Inr (add_ptr (int 4) c))"
    if "ready (int 4) (int 4) m p c" "vals c = [v]" for c m p
    using that need_memory_simp [OF that(1)] align_ptr_ready [OF that(1)] by (simp add: lowerFlatU32_def)
  have li: "liftFlatU32 d = lift_mem False 4 VNum d" if "ready (int 4) (int 4) m p d" for d m p
    using that not_direct [OF that] by (simp add: liftFlatU32_def)
  assume "int_rel (0) 4294967296 v v'"
  then have "stores lowerFlatU32 liftFlatU32 (int 4) (int 4) v v'"
    by (rule stores_small [where k = 4 and sgned = False, rotated, OF _ _ lo li]) simp_all
  then show ?thesis by simp
qed

lemma stores_s32: "int_rel (- 2147483648) 2147483648 v v' \<Longrightarrow> stores lowerFlatS32 liftFlatS32 4 4 v v'"
proof -
  have lo: "lowerFlatS32 c = rbind (dv_set 4 v c) (\<lambda>c. Inr (add_ptr (int 4) c))"
    if "ready (int 4) (int 4) m p c" "vals c = [v]" for c m p
    using that need_memory_simp [OF that(1)] align_ptr_ready [OF that(1)] by (simp add: lowerFlatS32_def)
  have li: "liftFlatS32 d = lift_mem True 4 VNum d" if "ready (int 4) (int 4) m p d" for d m p
    using that not_direct [OF that] by (simp add: liftFlatS32_def)
  assume "int_rel (- 2147483648) 2147483648 v v'"
  then have "stores lowerFlatS32 liftFlatS32 (int 4) (int 4) v v'"
    by (rule stores_small [where k = 4 and sgned = True, rotated, OF _ _ lo li]) simp_all
  then show ?thesis by simp
qed

lemma stores_u64: "big_rel 0 (2 ^ 64) v v' \<Longrightarrow> stores lowerFlatU64 liftFlatU64 8 8 v v'"
proof -
  have lo: "lowerFlatU64 c = rbind (dv_set_big v c) (\<lambda>c. Inr (add_ptr 8 c))"
    if "ready 8 8 m p c" "vals c = [v]" for c m p
    using that align_ptr_ready [OF that(1)] by (simp add: lowerFlatU64_def)
  have li: "liftFlatU64 d = lift_mem False 8 VBig d" if "ready 8 8 m p d" for d m p
    using not_direct [OF that] by (simp add: liftFlatU64_def)
  assume "big_rel 0 (2 ^ 64) v v'"
  then show ?thesis
    by (rule stores_large [where sgned = False, OF _ _ lo li]) simp_all
qed

lemma stores_s64: "big_rel (- (2 ^ 63)) (2 ^ 63) v v' \<Longrightarrow> stores lowerFlatS64 liftFlatS64 8 8 v v'"
proof -
  have lo: "lowerFlatS64 c = rbind (dv_set_big v c) (\<lambda>c. Inr (add_ptr 8 c))"
    if "ready 8 8 m p c" "vals c = [v]" for c m p
    using that align_ptr_ready [OF that(1)] by (simp add: lowerFlatS64_def)
  have li: "liftFlatS64 d = lift_mem True 8 VBig d" if "ready 8 8 m p d" for d m p
    using not_direct [OF that] by (simp add: liftFlatS64_def)
  assume "big_rel (- (2 ^ 63)) (2 ^ 63) v v'"
  then show ?thesis
    by (rule stores_large [where sgned = True, OF _ _ lo li]) simp_all
qed

interpretation u8: flat_codec lowerFlatU8 liftFlatU8 1 1 "int_rel (0) 256"
  by unfold_locales (simp_all add: stores_u8)

interpretation s8: flat_codec lowerFlatS8 liftFlatS8 1 1 "int_rel (- 128) 128"
  by unfold_locales (simp_all add: stores_s8)

interpretation u16: flat_codec lowerFlatU16 liftFlatU16 2 2 "int_rel (0) 65536"
  by unfold_locales (simp_all add: stores_u16)

interpretation s16: flat_codec lowerFlatS16 liftFlatS16 2 2 "int_rel (- 32768) 32768"
  by unfold_locales (simp_all add: stores_s16)

interpretation u32: flat_codec lowerFlatU32 liftFlatU32 4 4 "int_rel (0) 4294967296"
  by unfold_locales (simp_all add: stores_u32)

interpretation s32: flat_codec lowerFlatS32 liftFlatS32 4 4 "int_rel (- 2147483648) 2147483648"
  by unfold_locales (simp_all add: stores_s32)

interpretation u64: flat_codec lowerFlatU64 liftFlatU64 8 8 "big_rel 0 (2 ^ 64)"
  by unfold_locales (simp_all add: stores_u64)

interpretation s64: flat_codec lowerFlatS64 liftFlatS64 8 8 "big_rel (- (2 ^ 63)) (2 ^ 63)"
  by unfold_locales (simp_all add: stores_s64)

end
