(* ===== verification/Flat_Composite.thy ===== *)
theory Flat_Composite
  imports Flat_Codec
begin

text \<open>
  The contract \<open>flat_codec\<close> for composite types: records, tuples, variants, options, results, enums,
  flags and lists of a known length carry it from their parts; and a list of unknown length, whose
  elements lie in memory that the guest allocates, is read back as it was written.
\<close>

section \<open>Sequences of parts\<close>

text \<open>The common loop of the record and tuple functions: \<open>rv\<close> is the outcome of reading the part's
  value.\<close>

fun seq_lower :: "(val js \<times> lower_fn \<times> int \<times> int) list \<Rightarrow> lower_fn" where
  "seq_lower [] c = Inr c"
| "seq_lower ((rv, f, s, a) # ps) c =
     (let c1 = align_ptr a c; p = storagePtr c1 in
      rbind rv (\<lambda>v. rbind (f (c1\<lparr>vals := [v]\<rparr>)) (\<lambda>c2. seq_lower ps (max_ptr p s c2))))"

fun seq_lift :: "(lift_fn \<times> int \<times> int) list \<Rightarrow> ctx \<Rightarrow> (val list \<times> ctx) js" where
  "seq_lift [] c = Inr ([], c)"
| "seq_lift ((f, s, a) # ps) c =
     (let c1 = align_ptr a c; p = storagePtr c1; len = storageLen c1 in
      rbind (f c1) (\<lambda>(v, c2).
        rbind (seq_lift ps (restore_len len s (max_ptr_defined p s c2))) (\<lambda>(vs, c3). Inr (v # vs, c3))))"

lemma lower_fields_seq:
  "lower_fields r fs = seq_lower (map (\<lambda>(tag, f, s, a). (js_prop r tag, f, s, a)) fs)"
proof
  show "lower_fields r fs c = seq_lower (map (\<lambda>(tag, f, s, a). (js_prop r tag, f, s, a)) fs) c" for c
    by (induction r fs c rule: lower_fields.induct) (auto simp: Let_def intro!: rbind_cong)
qed

lemma lower_elems_seq:
  "lower_elems t i es = seq_lower (map (\<lambda>(j, (f, s, a)). (js_index t j, f, s, a)) (zip [i..<i + length es] es))"
proof
  show "lower_elems t i es c = seq_lower (map (\<lambda>(j, (f, s, a)). (js_index t j, f, s, a)) (zip [i..<i + length es] es)) c" for c
    by (induction t i es c rule: lower_elems.induct) (auto simp: Let_def upt_conv_Cons simp del: upt_Suc intro!: rbind_cong)
qed

lemma lift_elems_seq:
  "lift_elems acc es c = rbind (seq_lift es c) (\<lambda>(vs, c'). Inr (acc @ vs, c'))"
  by (induction acc es c rule: lift_elems.induct)
    (auto simp: Let_def rbind_assoc split_def intro!: rbind_cong)

fun set_all :: "(string \<times> val) list \<Rightarrow> string list \<Rightarrow> val list \<Rightarrow> (string \<times> val) list" where
  "set_all res (k # ks) (v # vs) = set_all (obj_set res k v) ks vs"
| "set_all res _ _ = res"

lemma lift_fields_seq:
  "lift_fields res fs c =
     rbind (seq_lift (map snd fs) c) (\<lambda>(vs, c'). Inr (set_all res (map fst fs) vs, c'))"
  by (induction res fs c rule: lift_fields.induct)
    (auto simp: Let_def rbind_assoc split_def intro!: rbind_cong)

lemma set_all_fresh:
  "length vs = length ks \<Longrightarrow> distinct ks \<Longrightarrow> fst ` set res \<inter> set ks = {} \<Longrightarrow> set_all res ks vs = res @ zip ks vs"
proof (induction res ks vs rule: set_all.induct)
  case (1 res k ks v vs)
  then have "k \<notin> fst ` set res" by auto
  with 1 show ?case by (auto simp: obj_set_fresh)
qed auto

text \<open>A part with the value that is lowered and the value that is lifted.\<close>

record part =
  pt_lower :: lower_fn
  pt_lift :: lift_fn
  pt_sz :: int
  pt_al :: int
  pt_val :: val
  pt_res :: val

definition part_ok :: "part \<Rightarrow> bool" where
  "part_ok x \<longleftrightarrow> 0 < pt_al x \<and> 0 \<le> pt_sz x \<and> stores (pt_lower x) (pt_lift x) (pt_sz x) (pt_al x) (pt_val x) (pt_res x)"

text \<open>Where the parts end when they are laid out from \<open>q\<close> on.\<close>

primrec ends :: "int \<Rightarrow> part list \<Rightarrow> int" where
  "ends q [] = q"
| "ends q (x # xs) = ends (align_up (pt_al x) q + pt_sz x) xs"

lemma ends_ge: "\<forall>x\<in>set xs. 0 < pt_al x \<and> 0 \<le> pt_sz x \<Longrightarrow> 0 \<le> q \<Longrightarrow> q \<le> ends q xs"
proof (induction xs arbitrary: q)
  case Nil
  then show ?case by simp
next
  case (Cons x xs)
  let ?q = "align_up (pt_al x) q + pt_sz x"
  from Cons.prems have "q \<le> ?q" using align_up_props(1) [of q "pt_al x"] by simp
  moreover from this Cons have "?q \<le> ends ?q xs" by simp
  ultimately show ?case by simp
qed

text \<open>The layout of aligned parts does not depend on an aligned start.\<close>

lemma align_up_shift:
  assumes "0 < a" "a dvd p" "0 \<le> p" "0 \<le> q"
  shows "align_up a (p + q) = p + align_up a q"
proof -
  have "(p + q) mod a = q mod a" using assms(2) by (auto elim: dvdE)
  with assms show ?thesis by (simp add: align_up_def js_rem_pos Let_def)
qed

lemma ends_shift:
  assumes "\<forall>x\<in>set xs. 0 < pt_al x \<and> 0 \<le> pt_sz x \<and> pt_al x dvd p" "0 \<le> p" "0 \<le> q"
  shows "ends (p + q) xs = p + ends q xs"
  using assms
proof (induction xs arbitrary: q)
  case Nil
  then show ?case by simp
next
  case (Cons x xs)
  have "0 \<le> align_up (pt_al x) q" using Cons.prems align_up_props(1) [of q "pt_al x"] by simp
  with Cons.prems Cons.IH [of "align_up (pt_al x) q + pt_sz x"] show ?case
    by (simp add: align_up_shift add.assoc)
qed

definition lower_entry :: "part \<Rightarrow> val js \<times> lower_fn \<times> int \<times> int" where
  "lower_entry x = (Inr (pt_val x), pt_lower x, pt_sz x, pt_al x)"

definition lift_entry :: "part \<Rightarrow> lift_fn \<times> int \<times> int" where
  "lift_entry x = (pt_lift x, pt_sz x, pt_al x)"

definition seq_reads :: "part list \<Rightarrow> int \<Rightarrow> mem \<Rightarrow> bool" where
  "seq_reads xs q m \<longleftrightarrow>
     (\<forall>d. memory d = Some m \<longrightarrow> storagePtr d = Some q \<longrightarrow> \<not> useDirectParams d \<longrightarrow> budget (ends q xs - q) d \<longrightarrow>
       (\<exists>d'. seq_lift (map lift_entry xs) d = Inr (map pt_res xs, d') \<and> memory d' = Some m \<and>
          storagePtr d' = Some (ends q xs) \<and> \<not> useDirectParams d' \<and>
          budget_after (ends q xs - q) (storageLen d) (storageLen d')))"

lemma seq_reads_Nil: "seq_reads [] q m"
  by (auto simp: seq_reads_def budget_after_def split: option.splits)

lemma seq_reads_Cons:
  assumes q: "0 \<le> q" and ok: "0 < pt_al x" "0 \<le> pt_sz x" "\<forall>y\<in>set xs. 0 < pt_al y \<and> 0 \<le> pt_sz y"
    and len: "align_up (pt_al x) q + pt_sz x \<le> int (length m)"
    and x: "reads (pt_lift x) (pt_sz x) (pt_al x) (pt_res x) m (align_up (pt_al x) q)"
    and xs: "seq_reads xs (align_up (pt_al x) q + pt_sz x) m"
  shows "seq_reads (x # xs) q m"
  unfolding seq_reads_def
proof (intro allI impI)
  let ?q1 = "align_up (pt_al x) q"
  let ?q2 = "?q1 + pt_sz x"
  note a = align_up_props [OF q ok(1)]
  have e: "?q2 \<le> ends ?q2 xs" using ok q a by (intro ends_ge) auto
  fix d
  assume d: "memory d = Some m" "storagePtr d = Some q" "\<not> useDirectParams d" "budget (ends q (x # xs) - q) d"
  let ?d1 = "align_ptr (pt_al x) d"
  have d1: "memory ?d1 = Some m" "storagePtr ?d1 = Some ?q1" "\<not> useDirectParams ?d1" "storageLen ?d1 = storageLen d"
    using d ok by (simp_all add: align_ptr_def)
  have b1: "budget (pt_sz x) ?d1"
    using d(4) e a unfolding budget_def d1(4) by (auto split: option.splits)
  have r1: "ready (pt_sz x) (pt_al x) m ?q1 ?d1"
    using d1 q a len by (simp add: ready_def dvd_eq_mod_eq_0)
  from readsE [OF x r1 b1] obtain d2 r where d2: "pt_lift x ?d1 = Inr (pt_res x, d2)" "memory d2 = Some m"
    "storagePtr d2 = Some r" "?q1 \<le> r" "r \<le> ?q2" "\<not> useDirectParams d2" "budget_after (pt_sz x) (storageLen ?d1) (storageLen d2)"
    by blast
  let ?d3 = "restore_len (storageLen ?d1) (pt_sz x) (max_ptr_defined (storagePtr ?d1) (pt_sz x) d2)"
  have d3: "memory ?d3 = Some m" "storagePtr ?d3 = Some ?q2" "\<not> useDirectParams ?d3"
    "storageLen ?d3 = map_option (\<lambda>l. l - pt_sz x) (storageLen d)"
    using d1 d2 by (auto simp: restore_len_def max_ptr_defined_def max_ptr_def budget_after_def split: option.splits)
  have "budget (ends ?q2 xs - ?q2) ?d3"
    using d(4) a unfolding budget_def d3(4) by (auto split: option.splits)
  with xs d3 obtain d4 where d4: "seq_lift (map lift_entry xs) ?d3 = Inr (map pt_res xs, d4)"
    "memory d4 = Some m" "storagePtr d4 = Some (ends ?q2 xs)" "\<not> useDirectParams d4"
    "budget_after (ends ?q2 xs - ?q2) (storageLen ?d3) (storageLen d4)"
    unfolding seq_reads_def by blast
  have "budget_after (ends q (x # xs) - q) (storageLen d) (storageLen d4)"
    using d4(5) a unfolding d3(4) budget_after_def by (auto split: option.splits)
  with d2 d4 show "\<exists>d'. seq_lift (map lift_entry (x # xs)) d = Inr (map pt_res (x # xs), d') \<and> memory d' = Some m \<and>
      storagePtr d' = Some (ends q (x # xs)) \<and> \<not> useDirectParams d' \<and>
      budget_after (ends q (x # xs) - q) (storageLen d) (storageLen d')"
    by (auto simp: lift_entry_def Let_def)
qed

definition seq_wrote :: "part list \<Rightarrow> int \<Rightarrow> mem \<Rightarrow> ctx \<Rightarrow> mem \<Rightarrow> bool" where
  "seq_wrote xs q m c' m' \<longleftrightarrow>
     memory c' = Some m' \<and> only_in q (ends q xs - q) m m' \<and> storagePtr c' = Some (ends q xs) \<and>
     \<not> useDirectParams c' \<and> storageLen c' = None \<and>
     (\<forall>m2. agree q (ends q xs - q) m' m2 \<longrightarrow> seq_reads xs q m2)"

lemma seq_lower_ok:
  assumes "\<forall>x\<in>set xs. part_ok x" "0 \<le> q" "ends q xs \<le> int (length m)"
    "memory c = Some m" "storagePtr c = Some q" "\<not> useDirectParams c" "storageLen c = None"
  shows "\<exists>c' m'. seq_lower (map lower_entry xs) c = Inr c' \<and> seq_wrote xs q m c' m'"
  using assms
proof (induction xs arbitrary: q m c)
  case Nil
  then show ?case by (auto simp: seq_wrote_def only_in_refl seq_reads_Nil)
next
  case (Cons x xs)
  let ?q1 = "align_up (pt_al x) q"
  let ?q2 = "?q1 + pt_sz x"
  let ?c1 = "align_ptr (pt_al x) c"
  from Cons.prems(1) have ok: "0 < pt_al x" "0 \<le> pt_sz x" "\<forall>y\<in>set xs. 0 < pt_al y \<and> 0 \<le> pt_sz y"
    and st: "stores (pt_lower x) (pt_lift x) (pt_sz x) (pt_al x) (pt_val x) (pt_res x)"
    by (auto simp: part_ok_def)
  note a = align_up_props [OF Cons.prems(2) ok(1)]
  have e: "?q2 \<le> ends ?q2 xs" using ok Cons.prems(2) a by (intro ends_ge) auto
  have r1: "ready (pt_sz x) (pt_al x) m ?q1 (?c1\<lparr>vals := [pt_val x]\<rparr>)"
    using Cons.prems a ok e by (simp add: ready_def align_ptr_def dvd_eq_mod_eq_0)
  have v1: "storageLen (?c1\<lparr>vals := [pt_val x]\<rparr>) = None" "vals (?c1\<lparr>vals := [pt_val x]\<rparr>) = [pt_val x]"
    using Cons.prems by (simp_all add: align_ptr_def)
  from storesE [OF st r1 v1] obtain c2 m1 where c2: "pt_lower x (?c1\<lparr>vals := [pt_val x]\<rparr>) = Inr c2"
    and w: "wrote (pt_sz x) m ?q1 (?c1\<lparr>vals := [pt_val x]\<rparr>) c2 m1"
    and r: "\<And>m2. agree ?q1 (pt_sz x) m1 m2 \<Longrightarrow> reads (pt_lift x) (pt_sz x) (pt_al x) (pt_res x) m2 ?q1"
    by blast
  let ?c3 = "max_ptr (storagePtr ?c1) (pt_sz x) c2"
  have c3: "memory ?c3 = Some m1" "storagePtr ?c3 = Some ?q2" "\<not> useDirectParams ?c3" "storageLen ?c3 = None"
    using w Cons.prems ok by (auto simp: wrote_def max_ptr_def align_ptr_def)
  have l: "length m1 = length m" and o1: "only_in ?q1 (pt_sz x) m m1" using w by (auto simp: wrote_def only_in_def)
  from Cons.IH [of ?q2 m1 ?c3] Cons.prems c3 ok a l obtain c' m' where
    s: "seq_lower (map lower_entry xs) ?c3 = Inr c'" and w': "seq_wrote xs ?q2 m1 c' m'"
    by auto
  have o2: "only_in ?q2 (ends ?q2 xs - ?q2) m1 m'" using w' by (simp add: seq_wrote_def)
  have o: "only_in q (ends q (x # xs) - q) m m'"
    using only_in_trans [OF o1 o2, of q "ends ?q2 xs - q"] a e ok by simp
  have rd: "seq_reads (x # xs) q m2" if ag: "agree q (ends q (x # xs) - q) m' m2" for m2
  proof (rule seq_reads_Cons [OF Cons.prems(2) ok])
    have "agree ?q1 (pt_sz x) m1 m2"
      using agree_only_in [OF ag o2, of ?q1 "pt_sz x"] a e ok l Cons.prems by simp
    then show "reads (pt_lift x) (pt_sz x) (pt_al x) (pt_res x) m2 ?q1" by (rule r)
    have "agree ?q2 (ends ?q2 xs - ?q2) m' m2" using agree_mono [OF ag] a e ok by simp
    then show "seq_reads xs ?q2 m2" using w' by (simp add: seq_wrote_def)
    show "?q2 \<le> int (length m2)" using ag e by (simp add: agree_def)
  qed
  have "seq_wrote (x # xs) q m c' m'"
    using w' o rd by (simp add: seq_wrote_def)
  moreover have "seq_lower (map lower_entry (x # xs)) c = Inr c'"
    using c2 s by (simp add: lower_entry_def [of x] Let_def)
  ultimately show ?case by blast
qed

lemma composite_stores:
  assumes ok: "\<forall>x\<in>set xs. part_ok x \<and> pt_al x dvd al" and al: "0 < al" "al dvd sz" "ends 0 xs \<le> sz"
    and lower: "\<And>c. vals c = [v] \<Longrightarrow> lower c =
      rbind (seq_lower (map lower_entry xs) c) (\<lambda>c1. Inr (align_ptr al (max_ptr (storagePtr c) sz c1)))"
    and lift: "\<And>d. lift d =
      rbind (seq_lift (map lift_entry xs) d) (\<lambda>(vs, d1). Inr (mk vs, align_ptr al (max_ptr_defined (storagePtr d) sz d1)))"
  shows "stores lower lift sz al v (mk (map pt_res xs))"
  unfolding stores_def
proof (intro allI impI)
  fix c m p
  assume r: "ready sz al m p c" and l: "storageLen c = None" and vs: "vals c = [v]"
  from r have p: "0 \<le> p" "al dvd p" "p + sz \<le> int (length m)" "storagePtr c = Some p" "memory c = Some m"
    "\<not> useDirectParams c" by (simp_all add: ready_def)
  have pos: "\<forall>x\<in>set xs. 0 < pt_al x \<and> 0 \<le> pt_sz x" using ok by (simp add: part_ok_def)
  have e: "ends p xs = p + ends 0 xs"
    using ends_shift [of xs p 0] ok pos p dvd_trans [OF _ p(2)] by auto
  have e0: "0 \<le> ends 0 xs" using ends_ge [OF pos, of 0] by simp
  have fin: "align_up al (p + sz) = p + sz" using p al e0 by (intro align_up_id) auto
  from seq_lower_ok [of xs p m c] ok p e al l obtain c1 m' where
    s: "seq_lower (map lower_entry xs) c = Inr c1" and w: "seq_wrote xs p m c1 m'" by auto
  let ?c' = "align_ptr al (max_ptr (storagePtr c) sz c1)"
  have "lower c = Inr ?c'" by (simp add: lower [OF vs] s)
  moreover have "wrote sz m p c ?c' m'"
    using w e p l al fin only_in_mono [of p "ends 0 xs" m m' p sz]
    by (auto simp: wrote_def seq_wrote_def align_ptr_def max_ptr_def max_def)
  moreover have "reads lift sz al (mk (map pt_res xs)) m2 p" if a: "agree p sz m' m2" for m2
    unfolding reads_def
  proof (intro allI impI)
    fix d assume d: "ready sz al m2 p d" "budget sz d"
    have "seq_reads xs p m2" using w agree_mono [OF a, of p "ends p xs - p"] e al by (simp add: seq_wrote_def)
    moreover have "budget (ends p xs - p) d" using d(2) e al by (auto simp: budget_def split: option.splits)
    ultimately obtain d1 where d1: "seq_lift (map lift_entry xs) d = Inr (map pt_res xs, d1)"
      "memory d1 = Some m2" "storagePtr d1 = Some (ends p xs)" "\<not> useDirectParams d1"
      "budget_after (ends p xs - p) (storageLen d) (storageLen d1)"
      using d(1) unfolding seq_reads_def ready_def by blast
    have "storagePtr d = Some p" using d by (simp add: ready_def)
    with d1 e al fin p have "lift d = Inr (mk (map pt_res xs), align_ptr al (max_ptr (Some p) sz d1))"
      "storagePtr (align_ptr al (max_ptr (Some p) sz d1)) = Some (p + sz)"
      by (auto simp: lift max_ptr_defined_def align_ptr_def max_ptr_def max_def)
    moreover have "budget_after sz (storageLen d) (storageLen (align_ptr al (max_ptr (Some p) sz d1)))"
      using d1(5) e al by (auto simp: budget_after_def align_ptr_def max_ptr_def split: option.splits)
    ultimately show "\<exists>d' q. lift d = Inr (mk (map pt_res xs), d') \<and> memory d' = Some m2 \<and>
        storagePtr d' = Some q \<and> p \<le> q \<and> q \<le> p + sz \<and> \<not> useDirectParams d' \<and> budget_after sz (storageLen d) (storageLen d')"
      using d1 e0 al by (auto simp: align_ptr_def max_ptr_def)
  qed
  ultimately show "\<exists>c' m'. lower c = Inr c' \<and> wrote sz m p c c' m' \<and>
      (\<forall>m2. agree p sz m' m2 \<longrightarrow> reads lift sz al (mk (map pt_res xs)) m2 p)"
    by blast
qed

section \<open>Records and tuples\<close>

text \<open>The metadata of a record whose fields are named \<open>ks\<close>, and of a tuple.\<close>

definition lower_field_metas :: "string list \<Rightarrow> part list \<Rightarrow> lower_field list" where
  "lower_field_metas ks xs = zip ks (map (\<lambda>x. (pt_lower x, pt_sz x, pt_al x)) xs)"

definition lift_field_metas :: "string list \<Rightarrow> part list \<Rightarrow> lift_field list" where
  "lift_field_metas ks xs = zip ks (map lift_entry xs)"

definition lower_elem_metas :: "part list \<Rightarrow> lower_elem list" where
  "lower_elem_metas xs = map (\<lambda>x. (pt_lower x, pt_sz x, pt_al x)) xs"

lemma val0_single [simp]: "vals c = [v] \<Longrightarrow> val0 c = v"
  by (simp add: val0_def)

lemma field_entries:
  assumes "list_all2 (\<lambda>k x. obj_get kvs k = pt_val x) ks xs"
  shows "map (\<lambda>(tag, f, s, a). (js_prop (VObj kvs) tag, f, s, a)) (lower_field_metas ks xs) = map lower_entry xs"
  using assms by (induction) (simp_all add: lower_field_metas_def lower_entry_def)

lemma seq_lift_length: "seq_lift es d = Inr (vs, d') \<Longrightarrow> length vs = length es"
  by (induction es arbitrary: vs d) (auto simp: Let_def rbind_Inr_iff split_def)

lemma set_all_seq:
  "length ks = length es \<Longrightarrow> distinct ks \<Longrightarrow>
   rbind (seq_lift es d) (\<lambda>(vs, c'). Inr (set_all [] ks vs, c')) =
   rbind (seq_lift es d) (\<lambda>(vs, c'). Inr (zip ks vs, c'))"
  by (cases "seq_lift es d") (auto dest: seq_lift_length simp: set_all_fresh)

lemma record_stores:
  assumes "\<forall>x\<in>set xs. part_ok x \<and> pt_al x dvd al" "0 < al" "al dvd sz" "ends 0 xs \<le> sz"
    and "distinct ks" "list_all2 (\<lambda>k x. obj_get kvs k = pt_val x) ks xs"
  shows "stores (lowerFlatRecord (lower_field_metas ks xs) sz al) (liftFlatRecord (lift_field_metas ks xs) sz al)
     sz al (VObj kvs) (VObj (zip ks (map pt_res xs)))"
proof -
  have len: "length ks = length xs" using assms(6) by (rule list_all2_lengthD)
  note sa = set_all_seq [of ks "map lift_entry xs", OF _ assms(5)]
  have m: "map snd (lift_field_metas ks xs) = map lift_entry xs" "map fst (lift_field_metas ks xs) = ks"
    using len by (simp_all add: lift_field_metas_def)
  show ?thesis
  proof (rule composite_stores [OF assms(1-4), where mk = "\<lambda>vs. VObj (zip ks vs)"])
    show "lowerFlatRecord (lower_field_metas ks xs) sz al c =
        rbind (seq_lower (map lower_entry xs) c) (\<lambda>c1. Inr (align_ptr al (max_ptr (storagePtr c) sz c1)))"
      if "vals c = [VObj kvs]" for c
      unfolding lowerFlatRecord_def lower_fields_seq val0_single [OF that] field_entries [OF assms(6)] Let_def
      by (rule refl)
    show "liftFlatRecord (lift_field_metas ks xs) sz al d =
        rbind (seq_lift (map lift_entry xs) d)
          (\<lambda>(vs, d1). Inr (VObj (zip ks vs), align_ptr al (max_ptr_defined (storagePtr d) sz d1)))" for d
      by (simp add: liftFlatRecord_def lift_fields_seq m Let_def sa len)
        (simp add: rbind_assoc split_def)
  qed
qed

lemma elem_entries:
  "map (\<lambda>(j, (f, s, a)). (js_index (VArr (us @ map pt_val xs)) j, f, s, a))
     (zip [length us..<length us + length xs] (lower_elem_metas xs)) = map lower_entry xs"
proof (induction xs arbitrary: us)
  case Nil
  then show ?case by (simp add: lower_elem_metas_def)
next
  case (Cons x xs)
  from Cons [of "us @ [pt_val x]"] show ?case
    by (simp add: lower_elem_metas_def lower_entry_def upt_conv_Cons del: upt_Suc)
qed

lemma tuple_stores:
  assumes "\<forall>x\<in>set xs. part_ok x \<and> pt_al x dvd al" "0 < al" "al dvd sz" "ends 0 xs \<le> sz"
  shows "stores (lowerFlatTuple (lower_elem_metas xs) sz al) (liftFlatTuple (map lift_entry xs) sz al)
     sz al (VArr (map pt_val xs)) (VArr (map pt_res xs))"
proof (rule composite_stores [OF assms, where mk = VArr])
  have "length (lower_elem_metas xs) = length xs" by (simp add: lower_elem_metas_def)
  then show "lowerFlatTuple (lower_elem_metas xs) sz al c =
      rbind (seq_lower (map lower_entry xs) c) (\<lambda>c1. Inr (align_ptr al (max_ptr (storagePtr c) sz c1)))"
    if "vals c = [VArr (map pt_val xs)]" for c
    using that elem_entries [of "[]" xs] by (simp add: lowerFlatTuple_def lower_elems_seq Let_def)
  show "liftFlatTuple (map lift_entry xs) sz al d =
      rbind (seq_lift (map lift_entry xs) d)
        (\<lambda>(vs, d1). Inr (VArr vs, align_ptr al (max_ptr_defined (storagePtr d) sz d1)))" for d
    by (simp add: liftFlatTuple_def lift_elems_seq Let_def rbind_assoc split_def)
qed

end
