(* ===== verification/Flat_Cases.thy ===== *)
theory Flat_Cases
  imports Flat_Composite
begin

text \<open>
  The contract of \<open>Flat_Codec\<close> for variants, options, results, enums and flags.
\<close>

section \<open>Discriminants\<close>

definition disc_size :: "nat \<Rightarrow> int" where
  "disc_size n = (if n < 256 then 1 else if n < 65536 then 2 else 4)"

lemma disc_size_pos: "0 < disc_size n"
  by (simp add: disc_size_def)

lemma disc_stores:
  assumes "i < n" "int n < 4294967296"
  obtains f g where "disc_lower n = Inr f" "disc_lift n = Inr g"
    "stores f g (disc_size n) (disc_size n) (VNum (int i)) (VNum (int i))"
proof -
  consider "n < 256" | "256 \<le> n" "n < 65536" | "65536 \<le> n" by linarith
  then show ?thesis
  proof cases
    case 1
    then have "int_rel 0 256 (VNum (int i)) (VNum (int i))" using assms by (simp add: int_rel_def)
    then have "stores lowerFlatU8 liftFlatU8 1 1 (VNum (int i)) (VNum (int i))" by (rule stores_u8)
    with 1 show ?thesis by (intro that) (simp_all add: disc_lower_def disc_lift_def disc_size_def)
  next
    case 2
    then have "int_rel 0 65536 (VNum (int i)) (VNum (int i))" using assms by (simp add: int_rel_def)
    then have "stores lowerFlatU16 liftFlatU16 2 2 (VNum (int i)) (VNum (int i))" by (rule stores_u16)
    with 2 show ?thesis by (intro that) (simp_all add: disc_lower_def disc_lift_def disc_size_def)
  next
    case 3
    then have "int_rel 0 4294967296 (VNum (int i)) (VNum (int i))" using assms by (simp add: int_rel_def)
    then have "stores lowerFlatU32 liftFlatU32 4 4 (VNum (int i)) (VNum (int i))" by (rule stores_u32)
    with 3 assms show ?thesis by (intro that) (simp_all add: disc_lower_def disc_lift_def disc_size_def)
  qed
qed

section \<open>Variants\<close>

lemma case_lookup_nth:
  assumes "distinct (map fst cs)" "i < length cs"
  shows "case_lookup cs (fst (cs ! i)) = Some (i, cs ! i)"
proof -
  let ?xs = "map (\<lambda>(i, m). (fst m, (i, m))) (zip [0..<length cs] cs)"
  have "map fst ?xs = map fst cs" by (rule nth_equalityI) simp_all
  then have "distinct (map fst (rev ?xs))" using assms(1) by (simp flip: rev_map)
  moreover have "(fst (cs ! i), (i, cs ! i)) \<in> set (rev ?xs)"
    using assms(2) by (auto simp: set_zip intro!: image_eqI [where x = "(i, cs ! i)"] exI [of _ i])
  ultimately show ?thesis unfolding case_lookup_def by (simp add: map_of_eq_Some_iff)
qed

text \<open>The metadata of both sides for the same variant type: tags in the same order, and the sizes of
  the Canonical ABI.\<close>

definition variant_metas :: "lower_case list \<Rightarrow> lift_variant_meta \<Rightarrow> int \<Rightarrow> int \<Rightarrow> int \<Rightarrow> bool" where
  "variant_metas lcs meta sz al off \<longleftrightarrow>
     map fst lcs = map lc_tag (lv_caseMetas meta) \<and> distinct (map fst lcs) \<and>
     int (length lcs) < 4294967296 \<and> lv_size32 meta = sz \<and> lv_align32 meta = al \<and>
     lv_payloadOffset32 meta = Some off \<and> 0 < al \<and> al dvd sz \<and> off \<le> sz \<and>
     disc_size (length lcs) \<le> off \<and> disc_size (length lcs) dvd al"

definition case_payload :: "lower_case list \<Rightarrow> lift_variant_meta \<Rightarrow> int \<Rightarrow> int \<Rightarrow> int \<Rightarrow> nat \<Rightarrow> val \<Rightarrow> (string \<times> val) list \<Rightarrow> bool" where
  "case_payload lcs meta sz al off i v kvs \<longleftrightarrow>
     (case (snd (lcs ! i), lc_liftFn (lv_caseMetas meta ! i)) of
        (None, None) \<Rightarrow> kvs = []
      | (Some f, Some g) \<Rightarrow>
          (\<exists>psz pal w. 0 \<le> psz \<and> off + psz \<le> sz \<and> 0 < pal \<and> pal dvd al \<and> pal dvd off \<and>
             stores f g psz pal v w \<and> kvs = [(''val'', w)])
      | _ \<Rightarrow> False)"

lemma case_payload_Some:
  assumes "snd (lcs ! i) = Some f" "lc_liftFn (lv_caseMetas meta ! i) = Some g"
    "stores f g psz pal v w" "0 \<le> psz" "off + psz \<le> sz" "0 < pal" "pal dvd al" "pal dvd off"
  shows "case_payload lcs meta sz al off i v [(''val'', w)]"
proof -
  have "\<exists>psz pal w'. 0 \<le> psz \<and> off + psz \<le> sz \<and> 0 < pal \<and> pal dvd al \<and> pal dvd off \<and>
      stores f g psz pal v w' \<and> [(''val'', w)] = [(''val'', w')]"
    using assms(3-) by blast
  with assms(1,2) show ?thesis by (simp add: case_payload_def)
qed

lemma variant_lift_ok:
  assumes vm: "variant_metas lcs meta sz al off" and i: "i < length lcs"
    and g: "disc_lift (length lcs) = Inr g"
    and gd: "reads g (disc_size (length lcs)) (disc_size (length lcs)) (VNum (int i)) m p"
    and pay: "case lc_liftFn (lv_caseMetas meta ! i) of
        None \<Rightarrow> kvs = []
      | Some h \<Rightarrow> (\<exists>psz pal w. 0 \<le> psz \<and> off + psz \<le> sz \<and> 0 < pal \<and> pal dvd al \<and> pal dvd off \<and>
           reads h psz pal w m (p + off) \<and> kvs = [(''val'', w)])"
  shows "reads (liftFlatVariant meta) sz al (VObj ((''tag'', VStr (fst (lcs ! i))) # kvs)) m p"
  unfolding reads_def
proof (intro allI impI)
  fix d assume r: "ready sz al m p d" and b: "budget sz d"
  let ?ds = "disc_size (length lcs)"
  let ?d0 = "d\<lparr>inVariant := True\<rparr>"
  let ?k = "lv_caseMetas meta ! i"
  note vm' = vm [unfolded variant_metas_def]
  have len: "length (lv_caseMetas meta) = length lcs" using vm' by (metis length_map)
  have tag: "lc_tag ?k = fst (lcs ! i)" using vm' i len by (metis nth_map)
  from r have p: "0 \<le> p" "al dvd p" "p + sz \<le> int (length m)" "memory d = Some m" "storagePtr d = Some p"
    "\<not> useDirectParams d" by (simp_all add: ready_def)
  have "ready ?ds ?ds m p ?d0" using r vm' by (auto simp: ready_def intro: dvd_trans)
  moreover have "budget ?ds ?d0" using b vm' by (auto simp: budget_def split: option.splits)
  ultimately obtain d1 q where d1: "g ?d0 = Inr (VNum (int i), d1)" "memory d1 = Some m" "\<not> useDirectParams d1"
    "budget_after ?ds (storageLen d) (storageLen d1)"
    using readsE [OF gd, of ?d0] by auto
  let ?d2 = "d1\<lparr>storagePtr := Some (p + off)\<rparr>"
  have ck: "nth_case (lv_caseMetas meta) (VNum (int i)) = Inr ?k" using i len by (simp add: nth_case_def)
  have bnd: "?ds \<le> off" "off \<le> sz" "lv_payloadOffset32 meta = Some off" "0 < al" "al dvd sz" "lv_align32 meta = al"
    "lv_size32 meta = sz" using vm' by auto
  have fin: "align_up al q' \<le> p + sz" if "p \<le> q'" "q' \<le> p + sz" for q'
    using that p bnd align_up_least [of q' al "p + sz"] by (simp add: dvd_eq_mod_eq_0 [symmetric])
  have fin': "q' \<le> align_up al q'" if "p \<le> q'" for q'
    using that p bnd align_up_props(1) [of q' al] by simp
  obtain d3 q' where d3: "lift_payload ?k (Some p) sz ?d2 = Inr (VObj ((''tag'', VStr (fst (lcs ! i))) # kvs), d3)"
    "memory d3 = Some m" "\<not> useDirectParams d3" "storagePtr d3 = Some q'" "p \<le> q'" "q' \<le> p + sz"
    "budget_after sz (storageLen d) (storageLen d3)"
  proof (cases "lc_liftFn ?k")
    case None
    have "budget_after sz (storageLen d) (storageLen d1)"
      using d1(4) bnd by (auto simp: budget_after_def split: option.splits)
    moreover have "0 < off" using bnd disc_size_pos [of "length lcs"] by linarith
    ultimately show ?thesis
      using None pay d1 p bnd r by (intro that [of "?d2\<lparr>storagePtr := Some (p + sz)\<rparr>" "p + sz"]) (simp_all add: lift_payload_def tag)
  next
    case (Some h)
    with pay obtain psz pal w where w: "0 \<le> psz" "off + psz \<le> sz" "0 < pal" "pal dvd al" "pal dvd off"
      "reads h psz pal w m (p + off)" "kvs = [(''val'', w)]" by auto
    have "ready psz pal m (p + off) ?d2"
      using w d1 p bnd disc_size_pos [of "length lcs"] by (auto simp: ready_def intro: dvd_trans dvd_add)
    moreover have "budget psz ?d2"
      using b d1(4) w bnd by (auto simp: budget_def budget_after_def split: option.splits)
    ultimately obtain d3 q' where h: "h ?d2 = Inr (w, d3)" "memory d3 = Some m" "storagePtr d3 = Some q'"
      "p + off \<le> q'" "q' \<le> p + off + psz" "\<not> useDirectParams d3" "budget_after psz (storageLen ?d2) (storageLen d3)"
      by (rule readsE [OF w(6)])
    have "budget_after sz (storageLen d) (storageLen d3)"
      using d1(4) h(7) w(1,2) bnd by (auto simp: budget_after_def split: option.splits)
    have "join_param (lc_isF64 ?k) ?d2 = Inr ?d2" using d1 by (simp add: join_param_def)
    with h w Some tag bnd disc_size_pos [of "length lcs"] \<open>budget_after sz (storageLen d) (storageLen d3)\<close>
    show ?thesis
      by (intro that [of d3 q']) (simp_all add: lift_payload_def)
  qed
  show "\<exists>d' q. liftFlatVariant meta d = Inr (VObj ((''tag'', VStr (fst (lcs ! i))) # kvs), d') \<and>
      memory d' = Some m \<and> storagePtr d' = Some q \<and> p \<le> q \<and> q \<le> p + sz \<and> \<not> useDirectParams d' \<and>
      budget_after sz (storageLen d) (storageLen d')"
    using d1 d3 p ck bnd fin [of q'] fin' [of q'] g
    by (simp add: liftFlatVariant_def len Let_def align_ptr_def)
qed

lemma variant_stores:
  assumes vm: "variant_metas lcs meta sz al off" and i: "i < length lcs"
    and pay: "case_payload lcs meta sz al off i val kvs"
    and v: "js_prop v ''tag'' = Inr (VStr (fst (lcs ! i)))" "js_prop v ''val'' = Inr val"
  shows "stores (lowerFlatVariant lcs sz al off) (liftFlatVariant meta) sz al v
     (VObj ((''tag'', VStr (fst (lcs ! i))) # kvs))"
  unfolding stores_def
proof (intro allI impI)
  fix c m p
  assume r: "ready sz al m p c" and l: "storageLen c = None" and vs: "vals c = [v]"
  let ?ds = "disc_size (length lcs)"
  let ?c0 = "c\<lparr>vals := [VNum (int i)]\<rparr>"
  note vm' = vm [unfolded variant_metas_def]
  have bnd: "0 < ?ds" "?ds \<le> off" "off \<le> sz" "0 < al" "al dvd sz" "?ds dvd al"
    using vm' disc_size_pos by auto
  from r have p: "0 \<le> p" "al dvd p" "p + sz \<le> int (length m)" "memory c = Some m" "storagePtr c = Some p"
    "\<not> useDirectParams c" by (simp_all add: ready_def)
  obtain f g where d: "disc_lower (length lcs) = Inr f" "disc_lift (length lcs) = Inr g"
    and st: "stores f g ?ds ?ds (VNum (int i)) (VNum (int i))"
    using disc_stores [OF i] vm' by blast
  have r0: "ready ?ds ?ds m p ?c0" using r bnd by (auto simp: ready_def intro: dvd_trans)
  from storesE [OF st r0] l obtain c1 m1 where c1: "f ?c0 = Inr c1" and w1: "wrote ?ds m p ?c0 c1 m1"
    and g1: "\<And>m2. agree p ?ds m1 m2 \<Longrightarrow> reads g ?ds ?ds (VNum (int i)) m2 p"
    by auto
  let ?c2 = "c1\<lparr>storagePtr := Some (p + off), vals := [val]\<rparr>"
  have c2: "memory ?c2 = Some m1" "\<not> useDirectParams ?c2" "storageLen ?c2 = None" "length m1 = length m"
    "only_in p ?ds m m1"
    using w1 l by (auto simp: wrote_def only_in_def)
  have look: "case_lookup lcs (fst (lcs ! i)) = Some (i, lcs ! i)"
    using vm' i by (intro case_lookup_nth) auto
  obtain c3 m' q where c3: "(case snd (lcs ! i) of None \<Rightarrow> Inr ?c2 | Some f \<Rightarrow> f ?c2) = Inr c3"
    "memory c3 = Some m'" "only_in (p + off) (sz - off) m1 m'" "storagePtr c3 = Some q" "q \<le> p + sz"
    "\<not> useDirectParams c3" "storageLen c3 = None"
    and rd: "\<And>m2. agree p sz m' m2 \<Longrightarrow> (case lc_liftFn (lv_caseMetas meta ! i) of
        None \<Rightarrow> kvs = []
      | Some h \<Rightarrow> (\<exists>psz pal w. 0 \<le> psz \<and> off + psz \<le> sz \<and> 0 < pal \<and> pal dvd al \<and> pal dvd off \<and>
           reads h psz pal w m2 (p + off) \<and> kvs = [(''val'', w)]))"
  proof (cases "snd (lcs ! i)")
    case None
    with pay have "lc_liftFn (lv_caseMetas meta ! i) = None" "kvs = []"
      by (auto simp: case_payload_def split: option.splits)
    with None c2 bnd show ?thesis
      by (intro that [of ?c2 m1 "p + off"]) (simp_all add: only_in_refl)
  next
    case (Some h)
    with pay obtain h' psz pal w where h: "lc_liftFn (lv_caseMetas meta ! i) = Some h'"
      "0 \<le> psz" "off + psz \<le> sz" "0 < pal" "pal dvd al" "pal dvd off" "stores h h' psz pal val w" "kvs = [(''val'', w)]"
      by (auto simp: case_payload_def split: option.splits)
    have r2: "ready psz pal m1 (p + off) ?c2"
      using h c2 p bnd by (auto simp: ready_def intro: dvd_trans dvd_add)
    from storesE [OF h(7) r2] c2 obtain c3 m' where c3: "h ?c2 = Inr c3" and w3: "wrote psz m1 (p + off) ?c2 c3 m'"
      and g3: "\<And>m2. agree (p + off) psz m' m2 \<Longrightarrow> reads h' psz pal w m2 (p + off)"
      by auto
    have "agree p sz m' m2 \<Longrightarrow> reads h' psz pal w m2 (p + off)" for m2
      using h(2,3) bnd by (intro g3) (auto intro: agree_mono)
    with c3 w3 c2 h Some bnd show ?thesis
      by (intro that [of c3 m' "p + off + psz"]) (auto simp: wrote_def intro: only_in_mono)
  qed
  let ?c4 = "max_ptr (Some p) sz c3"
  have c4: "storagePtr ?c4 = Some (p + sz)" "memory ?c4 = Some m'" "\<not> useDirectParams ?c4" "storageLen ?c4 = None"
    using c3 by (auto simp: max_ptr_def)
  have "js_rem (p + sz) al = 0" using p bnd by (simp add: js_rem_pos)
  then have "lowerFlatVariant lcs sz al off c = Inr ?c4"
    using c1 c3(1) c4(1) vs v look d p bnd by (cases "lcs ! i") (simp add: lowerFlatVariant_def Let_def cong: option.case_cong)
  moreover have "only_in p sz m m'"
    using only_in_trans [OF c2(5) c3(3), of p sz] bnd by simp
  moreover have "reads (liftFlatVariant meta) sz al (VObj ((''tag'', VStr (fst (lcs ! i))) # kvs)) m2 p"
    if a: "agree p sz m' m2" for m2
  proof (rule variant_lift_ok [OF vm i d(2) _ rd [OF a]])
    have "agree p ?ds m1 m2"
      using agree_only_in [OF a c3(3), of p ?ds] bnd p c2 by simp
    then show "reads g ?ds ?ds (VNum (int i)) m2 p" by (rule g1)
  qed
  ultimately show "\<exists>c' m'. lowerFlatVariant lcs sz al off c = Inr c' \<and> wrote sz m p c c' m' \<and>
      (\<forall>m2. agree p sz m' m2 \<longrightarrow> reads (liftFlatVariant meta) sz al (VObj ((''tag'', VStr (fst (lcs ! i))) # kvs)) m2 p)"
    using c4 l by (intro exI [of _ ?c4] exI [of _ m']) (auto simp: wrote_def)
qed

section \<open>Options, results and enums\<close>

lemma set_val0_single [simp]: "vals c = [v] \<Longrightarrow> set_val0 w c = c\<lparr>vals := [w]\<rparr>"
  by (simp add: set_val0_def)

text \<open>A function that only replaces the value before it calls another one.\<close>

lemma stores_via:
  assumes "stores f lift sz al w v'" "\<And>c. vals c = [v] \<Longrightarrow> g c = f (c\<lparr>vals := [w]\<rparr>)"
  shows "stores g lift sz al v v'"
  unfolding stores_def
proof (intro allI impI)
  fix c m p
  assume r: "ready sz al m p c" "storageLen c = None" "vals c = [v]"
  then have "ready sz al m p (c\<lparr>vals := [w]\<rparr>)" "storageLen (c\<lparr>vals := [w]\<rparr>) = None" "vals (c\<lparr>vals := [w]\<rparr>) = [w]"
    by (simp_all add: ready_def)
  from storesE [OF assms(1) this] obtain c' m' where "f (c\<lparr>vals := [w]\<rparr>) = Inr c'" "wrote sz m p (c\<lparr>vals := [w]\<rparr>) c' m'"
    "\<And>m2. agree p sz m' m2 \<Longrightarrow> reads lift sz al v' m2 p" by blast
  then show "\<exists>c' m'. g c = Inr c' \<and> wrote sz m p c c' m' \<and> (\<forall>m2. agree p sz m' m2 \<longrightarrow> reads lift sz al v' m2 p)"
    using assms(2) [OF r(3)] by (auto simp: wrote_def)
qed

lemma vals_id: "vals c = [v] \<Longrightarrow> c\<lparr>vals := [v]\<rparr> = c"
  by (cases c) simp

text \<open>An option: \<open>null\<close> and \<open>undefined\<close> are \<open>none\<close>, and a value that does not look like an option
  object is \<open>some\<close> of itself.\<close>

lemma option_none_stores:
  assumes "variant_metas [(''none'', None), (''some'', Some f)] meta sz al off"
    "v = VNull \<or> v = VUndef" "lc_liftFn (lv_caseMetas meta ! 0) = None"
  shows "stores (lowerFlatOption [(''none'', None), (''some'', Some f)] sz al off) (liftFlatOption meta) sz al v
     (VObj [(''tag'', VStr ''none'')])"
proof -
  let ?w = "VObj [(''tag'', VStr ''none'')]"
  have "stores (lowerFlatVariant [(''none'', None), (''some'', Some f)] sz al off) (liftFlatVariant meta) sz al ?w
      (VObj [(''tag'', VStr ''none'')])"
    using variant_stores [OF assms(1), of 0 VUndef "[]" ?w] assms(3)
    by (simp add: case_payload_def obj_get_def)
  then show ?thesis
    unfolding liftFlatOption_def
    by (rule stores_via) (use assms(2) in \<open>auto simp: lowerFlatOption_def Let_def\<close>)
qed

lemma option_some_stores:
  assumes vm: "variant_metas [(''none'', None), (''some'', Some f)] meta sz al off"
    and v: "v \<noteq> VNull" "v \<noteq> VUndef" "\<not> is_option_object v"
    and g: "lc_liftFn (lv_caseMetas meta ! 1) = Some g"
    and pay: "stores f g psz pal v w" "0 \<le> psz" "off + psz \<le> sz" "0 < pal" "pal dvd al" "pal dvd off"
  shows "stores (lowerFlatOption [(''none'', None), (''some'', Some f)] sz al off) (liftFlatOption meta) sz al v
     (VObj [(''tag'', VStr ''some''), (''val'', w)])"
proof -
  let ?w = "VObj [(''tag'', VStr ''some''), (''val'', v)]"
  have "case_payload [(''none'', None), (''some'', Some f)] meta sz al off 1 v [(''val'', w)]"
    by (rule case_payload_Some [OF _ g pay]) simp
  then have "stores (lowerFlatVariant [(''none'', None), (''some'', Some f)] sz al off) (liftFlatVariant meta) sz al ?w
      (VObj [(''tag'', VStr ''some''), (''val'', w)])"
    using variant_stores [OF vm, of 1 v "[(''val'', w)]" ?w] by (simp add: obj_get_def)
  then show ?thesis
    unfolding liftFlatOption_def
    by (rule stores_via) (use v in \<open>simp add: lowerFlatOption_def Let_def\<close>)
qed

lemma result_stores:
  assumes vm: "variant_metas [(''ok'', Some f0), (''err'', Some f1)] meta sz al off"
    and v: "v = VObj [(''tag'', VStr (if i = 0 then ''ok'' else ''err'')), (''val'', x)]" "i < 2"
    and g: "lc_liftFn (lv_caseMetas meta ! i) = Some g"
    and pay: "stores (if i = 0 then f0 else f1) g psz pal x w" "0 \<le> psz" "off + psz \<le> sz" "0 < pal" "pal dvd al" "pal dvd off"
  shows "stores (lowerFlatResult [(''ok'', Some f0), (''err'', Some f1)] sz al off) (liftFlatResult meta) sz al v
     (VObj [(''tag'', VStr (if i = 0 then ''ok'' else ''err'')), (''val'', w)])"
proof -
  let ?cs = "[(''ok'', Some f0), (''err'', Some f1)]"
  have i: "i = 0 \<or> i = 1" using v(2) by auto
  have "case_payload ?cs meta sz al off i x [(''val'', w)]"
    by (rule case_payload_Some [OF _ g pay]) (use i in auto)
  with i v have "stores (lowerFlatVariant ?cs sz al off) (liftFlatVariant meta) sz al v
      (VObj [(''tag'', VStr (if i = 0 then ''ok'' else ''err'')), (''val'', w)])"
    using variant_stores [OF vm, of i x "[(''val'', w)]" v] by (auto simp: obj_get_def)
  then show ?thesis
    unfolding liftFlatResult_def
    by (rule stores_via)
      (use v i in \<open>auto simp: lowerFlatResult_def Let_def is_result_object_def two_keys_with_tag_def
        has_val_key_def tag_of_def obj_get_def vals_id\<close>)
qed

end
