(* ===== verification/Flat_Lists.thy ===== *)
theory Flat_Lists
  imports Flat_Cases
begin

text \<open>
  The contract of \<open>Flat_Codec\<close> for flags and for lists of a known length, and the round trip of
  lists of unknown length through memory that the guest's \<open>realloc\<close> returns.
\<close>

section \<open>Flags\<close>

lemma bit_to_int32: "k < 32 \<Longrightarrow> bit (to_int32 x) k = bit x k"
proof -
  assume "k < 32"
  then have "k < 31 \<or> k = 31" by arith
  then show ?thesis by (auto simp: to_int32_def bit_signed_take_bit_iff min_def)
qed

lemma bit_js_or_shl:
  assumes "k < 32" "j < 32"
  shows "bit (js_or acc (js_shl 1 j)) k \<longleftrightarrow> bit acc k \<or> k = j"
proof -
  have "bit (push_bit j (to_int32 1)) k \<longleftrightarrow> k = j"
    by (auto simp: push_bit_eq_mult bit_exp_iff)
  with assms show ?thesis
    by (simp add: js_or_def js_shl_def bit_or_iff bit_to_int32)
qed

lemma flag_bits_of_bits:
  assumes "i + length names \<le> 32"
  shows "\<exists>r. flag_bits_of (VObj kvs) i names acc = Inr r \<and>
    (\<forall>k<32. bit r k \<longleftrightarrow> bit acc k \<or> (i \<le> k \<and> k < i + length names \<and> obj_get kvs (names ! (k - i)) = VBool True))"
  using assms
proof (induction names arbitrary: i acc)
  case Nil
  then show ?case by auto
next
  case (Cons name names)
  let ?acc = "if obj_get kvs name = VBool True then js_or acc (js_shl 1 (i mod 32)) else acc"
  from Cons.prems Cons.IH [of "Suc i" ?acc] obtain r where
    r: "flag_bits_of (VObj kvs) (Suc i) names ?acc = Inr r"
    "\<And>k. k < 32 \<Longrightarrow> bit r k \<longleftrightarrow> bit ?acc k \<or> (Suc i \<le> k \<and> k < Suc i + length names \<and> obj_get kvs (names ! (k - Suc i)) = VBool True)"
    by auto
  have "bit r k \<longleftrightarrow> bit acc k \<or> (i \<le> k \<and> k < i + length (name # names) \<and> obj_get kvs ((name # names) ! (k - i)) = VBool True)"
    if k: "k < 32" for k
  proof -
    have "bit ?acc k \<longleftrightarrow> bit acc k \<or> (k = i \<and> obj_get kvs name = VBool True)"
      using Cons.prems k by (auto simp: bit_js_or_shl)
    moreover have "(name # names) ! (k - i) = (if k = i then name else names ! (k - Suc i))" if "i \<le> k"
      using that by (auto simp: nth_Cons' Suc_diff_Suc)
    moreover have "k = i \<or> Suc i \<le> k" if "i \<le> k" using that by arith
    ultimately show ?thesis using r(2) [OF k] by auto
  qed
  with r(1) show ?case by auto
qed

lemma flags_of_bits_nth:
  assumes "0 \<le> bits" "bits < 2 ^ 32" "distinct names" "fst ` set res \<inter> set names = {}"
  shows "flags_of_bits bits names res = res @ map (\<lambda>k. (names ! k, VBool (bit bits k))) [0..<length names]"
  using assms
proof (induction bits names res rule: flags_of_bits.induct)
  case (1 bits res)
  then show ?case by simp
next
  case (2 bits name names res)
  have d: "0 \<le> drop_bit 1 bits" "drop_bit 1 bits < 2 ^ 32"
    using 2(2,3) by (auto simp: drop_bit_eq_div)
  have u: "to_uint32 bits = bits" using 2(2,3) by (simp add: to_uint32_id)
  have f: "obj_set res name (VBool (odd bits)) = res @ [(name, VBool (odd bits))]"
    using 2(5) by (intro obj_set_fresh) auto
  have "map (\<lambda>k. ((name # names) ! k, VBool (bit bits k))) [0..<length (name # names)] =
      (name, VBool (odd bits)) # map (\<lambda>k. (names ! k, VBool (bit bits (Suc k)))) [0..<length names]"
    by (simp add: upt_conv_Cons bit_0 map_Suc_upt [symmetric] del: upt_Suc)
  with 2(1) [unfolded u] d u f 2(4,5) show ?case by (simp add: bit_drop_bit_eq)
qed

lemma lift_mem_align:
  assumes "ready (int n) (int n) m p d" "0 < n"
  shows "rbind (lift_mem sgned n VNum d) (\<lambda>(v, c'). F v (align_ptr (int n) c')) =
    rbind (lift_mem sgned n VNum d) (\<lambda>(v, c'). F v c')"
proof -
  from assms have p: "0 \<le> p" "int n dvd p" "storagePtr d = Some p" by (simp_all add: ready_def)
  then have "align_up (int n) (p + int n) = p + int n" using assms(2) by (intro align_up_id) auto
  with p assms(2) have "align_ptr (int n) (sub_len (int n) (add_ptr (int n) d)) = sub_len (int n) (add_ptr (int n) d)"
    by (simp add: align_ptr_def add_ptr_def sub_len_def)
  then show ?thesis
    by (cases "enough_len (int n) d"; cases "dv_get sgned n d") (simp_all add: lift_mem_def)
qed

definition flags_val :: "string list \<Rightarrow> (string \<times> val) list \<Rightarrow> val" where
  "flags_val names kvs = VObj (map (\<lambda>name. (name, VBool (obj_get kvs name = VBool True))) names)"

lemma flags_stores:
  assumes "n \<in> {1, 2, 4}" "length names \<le> 8 * n" "distinct names"
  shows "stores (lowerFlatFlags names (int n) (int n)) (liftFlatFlags names (int n) (int n)) (int n) (int n)
    (VObj kvs) (flags_val names kvs)"
proof -
  from flag_bits_of_bits [of 0 names kvs 0] assms obtain r where r: "flag_bits_of (VObj kvs) 0 names 0 = Inr r"
    "\<And>k. k < 32 \<Longrightarrow> bit r k \<longleftrightarrow> k < length names \<and> obj_get kvs (names ! k) = VBool True"
    by auto
  let ?mk = "\<lambda>x. VObj (flags_of_bits x names [])"
  let ?x = "take_bit (8 * n) r"
  have x: "0 \<le> ?x" "?x < 2 ^ 32"
  proof -
    have "?x < 2 ^ (8 * n)" by simp
    also have "(2 :: int) ^ (8 * n) \<le> 2 ^ 32" using assms(1) by (intro power_increasing) auto
    finally show "?x < 2 ^ 32" .
  qed simp
  have eq: "flags_val names kvs = ?mk (wrap_int False n r)"
    unfolding flags_val_def wrap_int_def if_False flags_of_bits_nth [OF x assms(3), of "[]", simplified]
    using assms r(2) by (auto simp: bit_take_bit_iff intro!: nth_equalityI)
  have lo: "lowerFlatFlags names (int n) (int n) c = rbind (dv_store n (Inr r) c) (\<lambda>c. Inr (add_ptr (int n) c))"
    if "ready (int n) (int n) m p c" "vals c = [VObj kvs]" for c m p
  proof -
    have "align_ptr (int n) c = c" "ctx_mem c = Inr m" using align_ptr_ready [OF that(1)] assms that(1)
      by (auto simp: ctx_mem_def ready_def)
    then show ?thesis using that assms(1) r(1)
      by (auto simp: lowerFlatFlags_def dv_set_def)
  qed
  have li: "liftFlatFlags names (int n) (int n) d = lift_mem False n ?mk d" if "ready (int n) (int n) m p d" for d m p
  proof -
    have "(if int n = 1 then liftFlatU8 d else if int n = 2 then liftFlatU16 d else if int n = 4 then liftFlatU32 d
        else Inl (Err ''invalid flags size'')) = lift_mem False n VNum d"
      using assms(1) not_direct [OF that] lift_mem_u16 [of m p d] that
      by (auto simp: liftFlatU8_def liftFlatU16_def liftFlatU32_def)
    then have "liftFlatFlags names (int n) (int n) d = rbind (lift_mem False n VNum d) (\<lambda>(v, c1).
        rbind (if names = [] then Inr 0 else to_number v) (\<lambda>bits.
          Inr (VObj (flags_of_bits bits names []), align_ptr (int n) c1)))"
      by (simp add: liftFlatFlags_def)
    also have "\<dots> = rbind (lift_mem False n VNum d) (\<lambda>(v, c1).
        rbind (if names = [] then Inr 0 else to_number v) (\<lambda>bits. Inr (VObj (flags_of_bits bits names []), c1)))"
      using lift_mem_align [OF that, where F = "\<lambda>v c. rbind (if names = [] then Inr 0 else to_number v)
        (\<lambda>bits. Inr (VObj (flags_of_bits bits names []), c))"] assms(1) by auto
    also have "\<dots> = lift_mem False n ?mk d"
      by (cases "enough_len (int n) d"; cases "dv_get False n d"; cases names) (simp_all add: lift_mem_def)
    finally show ?thesis .
  qed
  show ?thesis
    by (rule stores_number [OF _ _ lo li eq]) (use assms(1) in auto)
qed

section \<open>Loops over elements\<close>

definition loop_reads :: "lift_fn \<Rightarrow> int \<Rightarrow> int \<Rightarrow> nat \<Rightarrow> val list \<Rightarrow> mem \<Rightarrow> bool" where
  "loop_reads g esz b i ws m \<longleftrightarrow>
     (\<forall>d acc. memory d = Some m \<longrightarrow> \<not> useDirectParams d \<longrightarrow> budget (int (length ws) * esz) d \<longrightarrow>
       (\<exists>d'. read_values g esz (Some b) i (length ws) acc d = Inr (acc @ ws, d') \<and> memory d' = Some m \<and>
          \<not> useDirectParams d' \<and>
          (if ws = [] then d' = d else storagePtr d' = Some (b + int (i + length ws) * esz))))"

lemma loop_reads_Cons:
  assumes "0 < al" "al dvd esz" "0 \<le> esz" "0 \<le> b" "al dvd b"
    "reads g esz al w m (b + int i * esz)" "loop_reads g esz b (Suc i) ws m"
    "b + int (Suc i) * esz \<le> int (length m)"
  shows "loop_reads g esz b i (w # ws) m"
  unfolding loop_reads_def
proof (intro allI impI)
  fix d acc
  assume d: "memory d = Some m" "\<not> useDirectParams d" "budget (int (length (w # ws)) * esz) d"
  let ?p = "b + int i * esz"
  let ?d = "d\<lparr>storagePtr := Some ?p\<rparr>"
  have r: "ready esz al m ?p ?d" using d assms by (simp add: ready_def distrib_right)
  have b: "budget esz ?d" using d(3) assms(3) by (auto simp: budget_def distrib_right split: option.splits)
      (smt (verit) mult_nonneg_nonneg of_nat_0_le_iff)
  from readsE [OF assms(6) r b] obtain d1 q where d1: "g ?d = Inr (w, d1)" "memory d1 = Some m" "storagePtr d1 = Some q"
    "q \<le> ?p + esz" "\<not> useDirectParams d1" "budget_after esz (storageLen ?d) (storageLen d1)" by blast
  let ?d2 = "max_ptr (Some ?p) esz d1"
  have d2: "memory ?d2 = Some m" "storagePtr ?d2 = Some (?p + esz)" "\<not> useDirectParams ?d2" "storageLen ?d2 = storageLen d1"
    using d1 by (auto simp: max_ptr_def)
  have "budget (int (length ws) * esz) ?d2"
    using d(3) d1(6) d2(4) by (auto simp: budget_def budget_after_def distrib_right split: option.splits)
  with assms(7) d2 obtain d3 where d3: "read_values g esz (Some b) (Suc i) (length ws) (acc @ [w]) ?d2 = Inr ((acc @ [w]) @ ws, d3)"
    "memory d3 = Some m" "\<not> useDirectParams d3"
    "if ws = [] then d3 = ?d2 else storagePtr d3 = Some (b + int (Suc i + length ws) * esz)"
    unfolding loop_reads_def by blast
  have "storagePtr d3 = Some (b + int (i + length (w # ws)) * esz)"
    using d3(4) d2(2) by (auto simp: distrib_right split: if_splits)
  with d1 d3 show "\<exists>d'. read_values g esz (Some b) i (length (w # ws)) acc d = Inr (acc @ w # ws, d') \<and> memory d' = Some m \<and>
      \<not> useDirectParams d' \<and> (if w # ws = [] then d' = d else storagePtr d' = Some (b + int (i + length (w # ws)) * esz))"
    by (auto simp: Let_def)
qed

definition loop_wrote :: "lift_fn \<Rightarrow> int \<Rightarrow> int \<Rightarrow> nat \<Rightarrow> val list \<Rightarrow> mem \<Rightarrow> ctx \<Rightarrow> ctx \<Rightarrow> mem \<Rightarrow> bool" where
  "loop_wrote g esz b i ws m c c' m' \<longleftrightarrow>
     memory c' = Some m' \<and> only_in (b + int i * esz) (int (length ws) * esz) m m' \<and>
     \<not> useDirectParams c' \<and> storageLen c' = None \<and>
     storagePtr c' = (if ws = [] then storagePtr c else Some (b + int (i + length ws) * esz)) \<and>
     (\<forall>m2. agree (b + int i * esz) (int (length ws) * esz) m' m2 \<longrightarrow> loop_reads g esz b i ws m2)"

lemma lower_loop_ok:
  assumes "list_all2 (stores f g esz al) vs ws" "0 < al" "al dvd esz" "0 \<le> esz" "0 \<le> b" "al dvd b"
    "memory c = Some m" "b + int (i + length vs) * esz \<le> int (length m)" "\<not> useDirectParams c" "storageLen c = None"
  shows "\<exists>c' m'. lower_list_loop f esz (Some b) i vs c = Inr c' \<and> loop_wrote g esz b i ws m c c' m'"
  using assms
proof (induction vs ws arbitrary: i c m rule: list_all2_induct)
  case Nil
  then show ?case by (auto simp: loop_wrote_def only_in_refl loop_reads_def)
next
  case (Cons v vs w ws)
  let ?p = "b + int i * esz"
  let ?c = "c\<lparr>storagePtr := Some ?p, vals := [v]\<rparr>"
  have len: "length ws = length vs" using Cons.hyps(2) by (simp add: list_all2_lengthD)
  have pos: "0 \<le> int (length ws) * esz" using Cons.prems by simp
  have nx: "b + int (Suc i) * esz = ?p + esz" by (simp add: distrib_right)
  have tot: "b + int (i + length (v # vs)) * esz = ?p + esz + int (length ws) * esz" by (simp add: len distrib_right)
  have "?p + esz \<le> int (length m)" using Cons.prems(7) pos unfolding tot by linarith
  then have r: "ready esz al m ?p ?c" using Cons.prems by (simp add: ready_def)
  from storesE [OF Cons.hyps(1) r] Cons.prems obtain c1 m1 where c1: "f ?c = Inr c1" and w1: "wrote esz m ?p ?c c1 m1"
    and g1: "\<And>m2. agree ?p esz m1 m2 \<Longrightarrow> reads g esz al w m2 ?p" by auto
  let ?c2 = "max_ptr (Some ?p) esz c1"
  have c2: "memory ?c2 = Some m1" "storagePtr ?c2 = Some (?p + esz)" "\<not> useDirectParams ?c2" "storageLen ?c2 = None"
    "length m1 = length m" "only_in ?p esz m m1"
    using w1 Cons.prems by (auto simp: wrote_def max_ptr_def only_in_def)
  have "b + int (Suc i + length vs) * esz \<le> int (length m1)"
    using Cons.prems(7) c2(5) by simp
  from Cons.IH [OF Cons.prems(1-5) c2(1) this c2(3,4)] obtain c' m' where
    s: "lower_list_loop f esz (Some b) (Suc i) vs ?c2 = Inr c'" and w: "loop_wrote g esz b (Suc i) ws m1 ?c2 c' m'"
    by blast
  have o2: "only_in (?p + esz) (int (length ws) * esz) m1 m'" using w unfolding loop_wrote_def nx by blast
  have sz: "int (length (w # ws)) * esz = esz + int (length ws) * esz" by (simp add: distrib_right)
  have "only_in ?p (int (length (w # ws)) * esz) m m'"
    unfolding sz using only_in_trans [OF c2(6) o2, of ?p "esz + int (length ws) * esz"] pos Cons.prems by simp
  moreover have "loop_reads g esz b i (w # ws) m2" if a: "agree ?p (int (length (w # ws)) * esz) m' m2" for m2
  proof (rule loop_reads_Cons [OF Cons.prems(1-5)])
    have a': "agree ?p (esz + int (length ws) * esz) m' m2" using a sz by simp
    have "0 \<le> ?p" using Cons.prems by simp
    have "?p + esz \<le> int (length m1)" using Cons.prems(7) pos c2(5) unfolding tot by linarith
    with \<open>0 \<le> ?p\<close> have "agree ?p esz m1 m2" using agree_only_in [OF a' o2, of ?p esz] pos by simp
    then show "reads g esz al w m2 ?p" by (rule g1)
    have "agree (?p + esz) (int (length ws) * esz) m' m2" using agree_mono [OF a'] Cons.prems by simp
    then show "loop_reads g esz b (Suc i) ws m2" using w unfolding loop_wrote_def nx by blast
    show "b + int (Suc i) * esz \<le> int (length m2)" unfolding nx using a' pos by (simp add: agree_def)
  qed
  moreover have "storagePtr c' = Some (b + int (i + length (w # ws)) * esz)"
    using w c2(2) by (auto simp: loop_wrote_def distrib_right split: if_splits)
  ultimately have "loop_wrote g esz b i (w # ws) m c c' m'" using w by (simp add: loop_wrote_def)
  moreover have "lower_list_loop f esz (Some b) i (v # vs) c = Inr c'" using c1 s by (simp add: Let_def)
  ultimately show ?case by blast
qed

section \<open>Lists of a known length\<close>

lemma known_list_stores:
  assumes el: "list_all2 (stores f g esz al) vs ws" "0 < al" "al dvd esz" "0 \<le> esz"
    and v: "list_elems v = Inr vs" "list_value ta ws = Inr w"
    and meta: "ll_elemLowerFn lm = f" "ll_knownLen lm = Some (length vs)" "ll_elemSize32 lm = esz"
      "li_elemLiftFn rm = g" "li_elemSize32 rm = esz" "li_knownLen rm = Some (length vs)" "li_typedArray rm = ta"
  shows "stores (lowerFlatList lm) (liftFlatList rm) (int (length vs) * esz) al v w"
  unfolding stores_def
proof (intro allI impI)
  fix c m p
  let ?sz = "int (length vs) * esz"
  assume r: "ready ?sz al m p c" and l: "storageLen c = None" and vc: "vals c = [v]"
  have len: "length ws = length vs" using el(1) by (simp add: list_all2_lengthD)
  have pos: "0 \<le> ?sz" using el(4) by simp
  from r have p: "0 \<le> p" "al dvd p" "p + ?sz \<le> int (length m)" "memory c = Some m" "storagePtr c = Some p"
    "\<not> useDirectParams c" by (simp_all add: ready_def)
  from lower_loop_ok [OF el p(1,2,4), of 0] p l obtain c' m' where
    s: "lower_list_loop f esz (Some p) 0 vs c = Inr c'" and w: "loop_wrote g esz p 0 ws m c c' m'" by auto
  have "lowerFlatList lm c = Inr c'"
    using s w meta v p vc by (simp add: lowerFlatList_def Let_def loop_wrote_def)
  moreover have "wrote ?sz m p c c' m'"
    using w l len p by (auto simp: wrote_def loop_wrote_def split: if_splits)
  moreover have "reads (liftFlatList rm) ?sz al w m2 p" if a: "agree p ?sz m' m2" for m2
    unfolding reads_def
  proof (intro allI impI)
    fix d assume d: "ready ?sz al m2 p d" "budget ?sz d"
    have lr: "loop_reads g esz p 0 ws m2" using w a len by (simp add: loop_wrote_def)
    let ?d = "d\<lparr>storageLen := Some ?sz, storagePtr := Some p\<rparr>"
    have "memory ?d = Some m2" "\<not> useDirectParams ?d" "budget (int (length ws) * esz) ?d"
      using d len by (simp_all add: ready_def budget_def)
    with lr obtain d' where d': "read_values g esz (Some p) 0 (length ws) [] ?d = Inr ([] @ ws, d')" "memory d' = Some m2"
      "\<not> useDirectParams d'" "if ws = [] then d' = ?d else storagePtr d' = Some (p + int (0 + length ws) * esz)"
      unfolding loop_reads_def by blast
    have "storagePtr d' = Some (p + ?sz)" using d'(4) len by (auto split: if_splits)
    moreover have "storagePtr d = Some p" "memory d = Some m2" "\<not> useDirectParams d" using d by (simp_all add: ready_def)
    moreover have "budget_after ?sz (storageLen d) (storageLen d)"
      using pos by (auto simp: budget_after_def split: option.splits)
    ultimately show "\<exists>d' q. liftFlatList rm d = Inr (w, d') \<and> memory d' = Some m2 \<and> storagePtr d' = Some q \<and> p \<le> q \<and>
        q \<le> p + ?sz \<and> \<not> useDirectParams d' \<and> budget_after ?sz (storageLen d) (storageLen d')"
      using d' len meta v pos by (simp add: liftFlatList_def readValuesAndReset_def)
  qed
  ultimately show "\<exists>c' m'. lowerFlatList lm c = Inr c' \<and> wrote ?sz m p c c' m' \<and>
      (\<forall>m2. agree p ?sz m' m2 \<longrightarrow> reads (liftFlatList rm) ?sz al w m2 p)" by blast
qed

section \<open>Lists of unknown length\<close>

text \<open>The pointer and length that a list is stored as.\<close>

lemma lower_u32_ready:
  assumes "memory c = Some m" "storagePtr c = Some p" "4 dvd p" "0 \<le> p" "p + 4 \<le> int (length m)"
    "vals c = [VNum n]"
  shows "lowerFlatU32 c = Inr (c\<lparr>memory := Some (mem_write p (le_bytes 4 n) m), storagePtr := Some (p + 4)\<rparr>)"
proof -
  have "align_up 4 p = p" using assms by (intro align_up_id) auto
  with assms show ?thesis
    by (simp add: lowerFlatU32_def align_ptr_def dv_set_def dv_store_def ctx_mem_def addr_def add_ptr_def)
qed

lemma lift_u32_ready:
  assumes "memory d = Some m" "storagePtr d = Some p" "0 \<le> p" "p + 4 \<le> int (length m)"
    "\<not> useDirectParams d" "storageLen d = Some l" "4 \<le> l"
    "mem_read p 4 m = le_bytes 4 n" "0 \<le> n" "n < 4294967296"
  shows "liftFlatU32 d = Inr (VNum n, d\<lparr>storagePtr := Some (p + 4), storageLen := Some (l - 4)\<rparr>)"
proof -
  have "wrap_int False 4 n = n" using assms(9,10) by (intro wrap_int_id) auto
  with assms wrap_le_bytes [of 4 False n] show ?thesis
    by (simp add: liftFlatU32_def lift_mem_def enough_len_def dv_get_def ctx_mem_def addr_def add_ptr_def sub_len_def)
qed

lemma mem_read_only_in:
  assumes "only_in q sz m m'" "p + int n \<le> q \<or> q + sz \<le> p" "0 \<le> p" "p + int n \<le> int (length m)"
  shows "mem_read p n m' = mem_read p n m"
  using assms by (intro mem_read_cong) (auto simp: only_in_def)

lemma only_in_write:
  "0 \<le> p \<Longrightarrow> p + int (length bs) \<le> int (length m) \<Longrightarrow> only_in p (int (length bs)) m (mem_write p bs m)"
  by (auto simp: only_in_def mem_write_nth)

text \<open>The list lives in \<open>[dp, dp + esz * len)\<close>, which the guest's allocator has just returned, and its
  pointer and length in the 8 bytes at \<open>p\<close>.\<close>

lemma unknown_list_lower:
  assumes el: "list_all2 (stores f g esz al) vs ws" "0 < al" "al dvd esz" "0 \<le> esz"
    and v: "vals c = [x]" "list_elems x = Inr vs"
    and meta: "ll_elemLowerFn lm = f" "ll_knownLen lm = None" "ll_elemSize32 lm = esz" "ll_elemAlign32 lm = al"
    and c: "memory c = Some m" "storagePtr c = Some p" "\<not> useDirectParams c" "storageLen c = None" "realloc c = Some ra"
    and ra: "ra 0 0 al (esz * int (length vs)) m = Inr (dp, m1)"
    and dp: "0 \<le> dp" "al dvd dp" "dp + esz * int (length vs) \<le> int (length m1)"
    and p: "0 \<le> p" "4 dvd p" "p + 8 \<le> int (length m1)" "p + 8 \<le> dp \<or> dp + esz * int (length vs) \<le> p"
  obtains c' m' where "lowerFlatList lm c = Inr c'" "memory c' = Some m'" "storagePtr c' = Some (p + 8)"
    "mem_read p 4 m' = le_bytes 4 dp" "mem_read (p + 4) 4 m' = le_bytes 4 (int (length vs))" "length m' = length m1"
    "loop_reads g esz dp 0 ws m'"
proof -
  let ?n = "int (length vs)"
  let ?m2 = "mem_write p (le_bytes 4 dp) m1"
  let ?m3 = "mem_write (p + 4) (le_bytes 4 ?n) ?m2"
  let ?ca = "c\<lparr>memory := Some m1, vals := [VNum dp]\<rparr>"
  let ?cb = "c\<lparr>memory := Some ?m2, storagePtr := Some (p + 4), vals := [VNum ?n]\<rparr>"
  let ?cc = "c\<lparr>memory := Some ?m3, storagePtr := Some (p + 8), vals := [VNum ?n]\<rparr>"
  have len: "length ws = length vs" using el(1) by (simp add: list_all2_lengthD)
  have l2: "length ?m2 = length m1" "length ?m3 = length m1" using p by simp_all
  have "lowerFlatU32 ?ca = Inr (?ca\<lparr>memory := Some ?m2, storagePtr := Some (p + 4)\<rparr>)"
    using c p by (intro lower_u32_ready) auto
  then have a: "lowerFlatU32 (set_val0 (VNum dp) (c\<lparr>memory := Some m1\<rparr>)) = Inr (?ca\<lparr>memory := Some ?m2, storagePtr := Some (p + 4)\<rparr>)"
    using v(1) by simp
  have b: "lowerFlatU32 (set_val0 (VNum ?n) (?ca\<lparr>memory := Some ?m2, storagePtr := Some (p + 4)\<rparr>)) = Inr ?cc"
    using lower_u32_ready [of ?cb ?m2 "p + 4" ?n] c p l2 by (simp add: set_val0_def)
  have "dp + int (0 + length vs) * esz \<le> int (length ?m3)"
    using dp(3) l2 by (simp add: mult.commute)
  from lower_loop_ok [OF el dp(1,2) _ this, of "?cc\<lparr>storagePtr := Some dp\<rparr>"] c obtain c3 m' where
    s: "lower_list_loop f esz (Some dp) 0 vs (?cc\<lparr>storagePtr := Some dp\<rparr>) = Inr c3"
    and w: "loop_wrote g esz dp 0 ws ?m3 (?cc\<lparr>storagePtr := Some dp\<rparr>) c3 m'" by auto
  have o: "only_in dp (?n * esz) ?m3 m'" using w len by (simp add: loop_wrote_def)
  show ?thesis
  proof (rule that)
    show "lowerFlatList lm c = Inr (c3\<lparr>storagePtr := Some (p + 8)\<rparr>)"
      using c meta v ra a b s w
      by (simp add: lowerFlatList_def Let_def ctx_mem_def loop_wrote_def)
    show "memory (c3\<lparr>storagePtr := Some (p + 8)\<rparr>) = Some m'" using w by (simp add: loop_wrote_def)
    show "storagePtr (c3\<lparr>storagePtr := Some (p + 8)\<rparr>) = Some (p + 8)" by simp
    show "length m' = length m1" using o l2 by (simp add: only_in_def)
    have d: "p + 8 \<le> dp \<or> dp + ?n * esz \<le> p" using p(4) by (simp add: mult.commute)
    have "mem_read p 4 m' = mem_read p 4 ?m3" using d p l2 by (intro mem_read_only_in [OF o]) auto
    also have "\<dots> = mem_read p 4 ?m2"
      using only_in_write [of "p + 4" "le_bytes 4 ?n" ?m2] p l2 by (intro mem_read_only_in) auto
    also have "\<dots> = le_bytes 4 dp" using mem_read_write [of p "le_bytes 4 dp" m1] p by simp
    finally show "mem_read p 4 m' = le_bytes 4 dp" .
    have "mem_read (p + 4) 4 m' = mem_read (p + 4) 4 ?m3" using d p l2 by (intro mem_read_only_in [OF o]) auto
    also have "\<dots> = le_bytes 4 ?n" using mem_read_write [of "p + 4" "le_bytes 4 ?n" ?m2] p l2 by simp
    finally show "mem_read (p + 4) 4 m' = le_bytes 4 ?n" .
    have "agree dp (?n * esz) m' m'" using dp(3) o l2 by (simp add: agree_def only_in_def mult.commute)
    then show "loop_reads g esz dp 0 ws m'" using w len by (simp add: loop_wrote_def)
  qed
qed

lemma unknown_list_lift:
  assumes lr: "loop_reads g esz dp 0 ws m'" and hd: "mem_read p 4 m' = le_bytes 4 dp"
    "mem_read (p + 4) 4 m' = le_bytes 4 (int (length ws))"
    and rng: "0 \<le> dp" "dp < 4294967296" "int (length ws) < 4294967296"
    and p: "0 \<le> p" "p + 8 \<le> int (length m')"
    and meta: "li_elemLiftFn rm = g" "li_elemSize32 rm = esz" "li_knownLen rm = None" "list_value (li_typedArray rm) ws = Inr w"
    and d: "memory d = Some m'" "storagePtr d = Some p" "\<not> useDirectParams d"
  shows "\<exists>d'. liftFlatList rm d = Inr (w, d') \<and> storagePtr d' = Some (p + 8) \<and> storageLen d' = storageLen d"
proof -
  let ?d1 = "d\<lparr>storagePtr := Some (p + 4), storageLen := Some 4\<rparr>"
  let ?d2 = "d\<lparr>storagePtr := Some (p + 8), storageLen := Some 0\<rparr>"
  have a: "liftFlatU32 (d\<lparr>storageLen := Some 8\<rparr>) = Inr (VNum dp, ?d1)"
    using lift_u32_ready [of "d\<lparr>storageLen := Some 8\<rparr>" m' p 8 dp] d hd rng p by simp
  have b: "liftFlatU32 ?d1 = Inr (VNum (int (length ws)), ?d2)"
    using lift_u32_ready [of ?d1 m' "p + 4" 4 "int (length ws)"] d hd rng p by simp
  let ?d3 = "?d2\<lparr>storageLen := Some (int (length ws) * esz), storagePtr := Some dp\<rparr>"
  have "memory ?d3 = Some m'" "\<not> useDirectParams ?d3" "budget (int (length ws) * esz) ?d3"
    using d by (simp_all add: budget_def)
  with lr obtain d4 where d4: "read_values g esz (Some dp) 0 (length ws) [] ?d3 = Inr ([] @ ws, d4)"
    unfolding loop_reads_def by blast
  with a b meta d show ?thesis
    by (simp add: liftFlatList_def lift_header_def readValuesAndReset_def)
qed

end
