(* ===== verification/Managed_Buffer.thy ===== *)
theory Managed_Buffer
  imports Flat_Lists
begin

text \<open>
  The buffers through which streams and futures copy values
  (\<open>src/crates/js-component-bindgen/src/intrinsics/mod.rs\<close>, the emitted classes \<open>ManagedBuffer\<close> and
  \<open>BufferManager\<close>). A buffer is a window of a component's linear memory that is read or written
  from its start on with the lift and lower functions of the element type, or an array of host
  values.

  The contents of the buffer's memory object are a field of its state, as in \<open>Flat_Ctx\<close>. A method
  that throws keeps what it assigned; the bytes that a lower function wrote before it threw itself
  are not modelled.
\<close>

section \<open>State\<close>

record elem_meta =
  isNone :: bool
  isNumeric :: bool
  isBorrowed :: bool
  align32 :: int
  payloadTypeName :: string
  stringEncoding :: "string option"
  liftFn :: lift_fn
  lowerFn :: lower_fn
  getRealloc :: "(int \<Rightarrow> int \<Rightarrow> int \<Rightarrow> int \<Rightarrow> mem \<Rightarrow> (int \<times> mem) js) option"

record managed_buffer =
  mb_componentIdx :: int
  mb_memory :: "mem option"
  mb_start :: "int option"
  mb_ptr :: "int option"
  mb_capacity :: int
  mb_processed :: int
  mb_elemMeta :: elem_meta
  mb_hostOnlyData :: val
  mb_target :: val

record buffer_args =
  ba_componentIdx :: "int option"
  ba_memory :: "mem option"
  ba_start :: "int option"
  ba_capacity :: "int option"
  ba_elemMeta :: "elem_meta option"
  ba_data :: val
  ba_target :: val

definition MAX_LENGTH :: int where
  "MAX_LENGTH = 2 ^ 28 - 1"

text \<open>\<open>start && start % align32 !== 0\<close>: a pointer 0 is not checked, and a remainder by 0 is NaN.\<close>

definition misaligned :: "int option \<Rightarrow> int \<Rightarrow> bool" where
  "misaligned start al = (case start of None \<Rightarrow> False | Some p \<Rightarrow> p \<noteq> 0 \<and> (al = 0 \<or> js_rem p al \<noteq> 0))"

fun is_array :: "val \<Rightarrow> bool" where
  "is_array (VArr _) = True"
| "is_array _ = False"

definition newManagedBuffer :: "buffer_args \<Rightarrow> managed_buffer js" where
  "newManagedBuffer a =
     (if (case ba_capacity a of None \<Rightarrow> False | Some n \<Rightarrow> MAX_LENGTH < n)
      then Inl (Err ''buffer size greater than max length'')
      else case ba_componentIdx a of None \<Rightarrow> Inl (TypeErr ''missing/invalid component idx'') | Some idx \<Rightarrow>
      (case ba_capacity a of None \<Rightarrow> Inl (TypeErr ''missing/invalid capacity'') | Some cap \<Rightarrow>
      (case ba_elemMeta a of None \<Rightarrow> Inl (TypeErr ''missing/invalid element metadata'') | Some meta \<Rightarrow>
        if ba_memory a = None \<and> ba_start a = None \<and> ba_data a = VUndef
        then Inl (TypeErr ''either memory and start ptr or data must be provided for managed buffers'')
        else if ba_memory a \<noteq> None \<and> ba_start a = None
        then Inl (TypeErr ''missing/invalid start ptr, depsite memory being present'')
        else if \<not> isNone meta \<and> 0 < cap \<and> misaligned (ba_start a) (align32 meta)
        then Inl (Err ''invalid alignment'')
        else if ba_data a \<noteq> VUndef \<and> \<not> is_array (ba_data a)
        then Inl (TypeErr ''host-only data must be an array'')
        else Inr \<lparr>mb_componentIdx = idx, mb_memory = ba_memory a, mb_start = ba_start a, mb_ptr = ba_start a,
                  mb_capacity = cap, mb_processed = 0, mb_elemMeta = meta, mb_hostOnlyData = ba_data a,
                  mb_target = ba_target a\<rparr>)))"

definition setTarget :: "val \<Rightarrow> managed_buffer \<Rightarrow> managed_buffer" where
  "setTarget tgt b = b\<lparr>mb_target := tgt\<rparr>"

definition remaining :: "managed_buffer \<Rightarrow> int" where
  "remaining b = mb_capacity b - mb_processed b"

definition isHostOwned :: "managed_buffer \<Rightarrow> bool" where
  "isHostOwned b = (mb_memory b = None)"

section \<open>Reading\<close>

text \<open>\<open>hostOnlyData.slice(0, n)\<close> and \<open>.slice(n)\<close> for \<open>n > 0\<close>; \<open>slice\<close> of \<open>undefined\<close>
  throws.\<close>

definition host_slice :: "int \<Rightarrow> val \<Rightarrow> (val list \<times> val list) js" where
  "host_slice n d = (case d of VArr vs \<Rightarrow> Inr (take (nat n) vs, drop (nat n) vs)
     | _ \<Rightarrow> Inl (TypeErr ''Cannot read properties of undefined''))"

text \<open>\<open>Array.from(new Uint8Array(memory.buffer, ptr, count))\<close>\<close>

definition byte_view :: "mem \<Rightarrow> int option \<Rightarrow> int \<Rightarrow> int js" where
  "byte_view m ptr count =
     (let p = (case ptr of None \<Rightarrow> 0 | Some p \<Rightarrow> p) in
      if 0 \<le> p \<and> 0 \<le> count \<and> p + count \<le> int (length m) then Inr p
      else Inl (RangeErr ''Invalid typed array length''))"

definition bytes_from :: "mem \<Rightarrow> int option \<Rightarrow> int \<Rightarrow> val list js" where
  "bytes_from m ptr count =
     rbind (byte_view m ptr count) (\<lambda>p. Inr (map (\<lambda>b. VNum (uint b)) (mem_read p (nat count) m)))"

text \<open>The \<open>while (currentCount > 0)\<close> loop: the lift function advances the context it is given.\<close>

fun lift_values :: "lift_fn \<Rightarrow> nat \<Rightarrow> ctx \<Rightarrow> (val list \<times> ctx) js" where
  "lift_values f 0 c = Inr ([], c)"
| "lift_values f (Suc n) c =
     rbind (f c) (\<lambda>(v, c1). rbind (lift_values f n c1) (\<lambda>(vs, c2). Inr (v # vs, c2)))"

definition buffer_ctx :: "managed_buffer \<Rightarrow> ctx" where
  "buffer_ctx b =
     \<lparr>memory = mb_memory b, storagePtr = mb_ptr b, storageLen = None, params = [], useDirectParams = False,
      inVariant = False, vals = [], realloc = getRealloc (mb_elemMeta b), componentIdx = Some (mb_componentIdx b)\<rparr>"

definition read_source :: "int \<Rightarrow> managed_buffer \<Rightarrow> (val list \<times> managed_buffer) js" where
  "read_source n b =
     (case mb_memory b of
        None \<Rightarrow> rbind (host_slice n (mb_hostOnlyData b)) (\<lambda>(vs, rest). Inr (vs, b\<lparr>mb_hostOnlyData := VArr rest\<rparr>))
      | Some m \<Rightarrow>
          if payloadTypeName (mb_elemMeta b) = ''U8''
          then rbind (bytes_from m (mb_ptr b) n) (\<lambda>vs. Inr (vs, b\<lparr>mb_ptr := map_option (\<lambda>p. p + n) (mb_ptr b)\<rparr>))
          else if stringEncoding (mb_elemMeta b) = None
          then Inl (Err ''string encoding unknown during read'')
          else rbind (lift_values (liftFn (mb_elemMeta b)) (nat n) (buffer_ctx b)) (\<lambda>(vs, c).
                 Inr (vs, b\<lparr>mb_ptr := storagePtr c, mb_memory := memory c\<rparr>)))"

definition buf_read :: "int option \<Rightarrow> managed_buffer \<Rightarrow> (val list, managed_buffer) jsm" where
  "buf_read count b =
     (case count of
        None \<Rightarrow> (Inl (TypeErr ''missing/invalid count''), b)
      | Some n \<Rightarrow>
          if n \<le> 0 then (Inl (TypeErr ''missing/invalid count''), b)
          else if mb_capacity b < n then (Inl (Err ''cannot read elements from buffer with capacity''), b)
          else case (if isNone (mb_elemMeta b) then Inr (replicate (nat n) VNull, b) else read_source n b) of
            Inl e \<Rightarrow> (Inl e, b)
          | Inr (vs, b') \<Rightarrow> (Inr vs, b'\<lparr>mb_processed := mb_processed b' + n\<rparr>))"

section \<open>Writing\<close>

text \<open>\<open>view.set(values)\<close> stores element by element: those before one that cannot be converted
  stay stored.\<close>

fun set_bytes :: "int \<Rightarrow> val list \<Rightarrow> mem \<Rightarrow> (unit, mem) jsm" where
  "set_bytes p [] m = (Inr (), m)"
| "set_bytes p (v # vs) m =
     (case to_number v of
        Inl e \<Rightarrow> (Inl e, m)
      | Inr n \<Rightarrow> set_bytes (p + 1) vs (mem_write p (le_bytes 1 n) m))"

text \<open>The loop over the values: a failing element leaves the context of the one before.\<close>

fun lower_values :: "lower_fn \<Rightarrow> val list \<Rightarrow> (unit, ctx) jsop" where
  "lower_values f [] c = (Inr (), c)"
| "lower_values f (v # vs) c =
     (case f (c\<lparr>vals := [v]\<rparr>) of
        Inl e \<Rightarrow> (Inl e, c)
      | Inr c1 \<Rightarrow> lower_values f vs c1)"

definition write_target :: "val list \<Rightarrow> (unit, managed_buffer) jsop" where
  "write_target vs b =
     (case mb_memory b of
        None \<Rightarrow> (case mb_hostOnlyData b of
            VArr ds \<Rightarrow> (Inr (), b\<lparr>mb_hostOnlyData := VArr (ds @ vs)\<rparr>)
          | _ \<Rightarrow> (Inl (TypeErr ''Cannot read properties of undefined''), b))
      | Some m \<Rightarrow>
          if payloadTypeName (mb_elemMeta b) = ''U8''
          then (case byte_view m (mb_ptr b) (int (length vs)) of
              Inl e \<Rightarrow> (Inl e, b)
            | Inr p \<Rightarrow> (case set_bytes p vs m of
                  (Inl e, m') \<Rightarrow> (Inl e, b\<lparr>mb_memory := Some m'\<rparr>)
                | (Inr _, m') \<Rightarrow> (Inr (), b\<lparr>mb_memory := Some m', mb_ptr := map_option (\<lambda>p. p + int (length vs)) (mb_ptr b)\<rparr>)))
          else if stringEncoding (mb_elemMeta b) = None
          then (Inl (Err ''string encoding unknown during write''), b)
          else (case lower_values (lowerFn (mb_elemMeta b)) vs (buffer_ctx b) of
              (Inl e, c) \<Rightarrow> (Inl e, b\<lparr>mb_memory := memory c\<rparr>)
            | (Inr _, c) \<Rightarrow> (Inr (), b\<lparr>mb_memory := memory c, mb_ptr := storagePtr c\<rparr>)))"

definition buf_write :: "val \<Rightarrow> (unit, managed_buffer) jsop" where
  "buf_write v b =
     (case v of
        VArr vs \<Rightarrow>
          if remaining b < int (length vs)
          then (Inl (Err ''cannot write elements to managed buffer with remaining capacity''), b)
          else (case (if isNone (mb_elemMeta b)
                      then (if list_all (\<lambda>v. v = VNull) vs then (Inr (), b)
                            else (Inl (Err ''non-null values in write() to unit managed buffer''), b))
                      else write_target vs b) of
              (Inl e, b') \<Rightarrow> (Inl e, b')
            | (Inr _, b') \<Rightarrow> (Inr (), b'\<lparr>mb_processed := mb_processed b' + int (length vs)\<rparr>))
      | _ \<Rightarrow> (Inl (TypeErr ''values input to write() must be an array''), b))"

section \<open>The buffer manager\<close>

text \<open>Buffers by component and id; the components without an entry have no map yet. The id
  counters are per component, the host's component index is \<open>- 1\<close>.\<close>

record buffer_manager =
  bm_buffers :: "int \<rightharpoonup> int \<rightharpoonup> managed_buffer"
  bm_bufferIDs :: "int \<rightharpoonup> int"

definition new_manager :: buffer_manager where
  "new_manager = \<lparr>bm_buffers = Map.empty, bm_bufferIDs = Map.empty\<rparr>"

definition getNextBufferID :: "int \<Rightarrow> buffer_manager \<Rightarrow> int \<times> buffer_manager" where
  "getNextBufferID idx s =
     (let next = (case bm_bufferIDs s idx of None \<Rightarrow> 1 | Some n \<Rightarrow> n + 1) in
      (next, s\<lparr>bm_bufferIDs := (bm_bufferIDs s)(idx \<mapsto> next)\<rparr>))"

definition getBuffer :: "int \<Rightarrow> int \<Rightarrow> buffer_manager \<Rightarrow> managed_buffer option" where
  "getBuffer idx bid s = (case bm_buffers s idx of None \<Rightarrow> None | Some bs \<Rightarrow> bs bid)"

text \<open>\<open>args.count\<close> is the capacity. Without a start the component index may be \<open>undefined\<close> here,
  but then the constructor throws; the map made for the key \<open>undefined\<close> is not modelled.\<close>

definition createBuffer :: "buffer_args \<Rightarrow> (int \<times> managed_buffer, buffer_manager) jsop" where
  "createBuffer a s =
     (if ba_start a = None \<and> ba_data a = VUndef
      then (Inl (TypeErr ''either a starting pointer or initial values must be provided''), s)
      else if ba_start a \<noteq> None \<and> ba_componentIdx a = None then (Inl (TypeErr ''missing/invalid component idx''), s)
      else if ba_capacity a = None then (Inl (TypeErr ''missing/invalid obj count''), s)
      else if ba_elemMeta a = None
      then (Inl (TypeErr ''missing/invalid element metadata for use with managed buffer''), s)
      else case ba_componentIdx a of
        None \<Rightarrow> (rbind (newManagedBuffer a) (\<lambda>b. Inr (1, b)), s)
      | Some idx \<Rightarrow>
         (let s1 = (if bm_buffers s idx = None then s\<lparr>bm_buffers := (bm_buffers s)(idx \<mapsto> Map.empty)\<rparr> else s);
              (bid, s2) = getNextBufferID idx s1 in
          case newManagedBuffer a of
            Inl e \<Rightarrow> (Inl e, s2)
          | Inr b \<Rightarrow>
             (case bm_buffers s2 idx of
                None \<Rightarrow> (Inl (TypeErr ''Cannot read properties of undefined''), s2)
              | Some bs \<Rightarrow>
                  if bs bid \<noteq> None then (Inl (Err ''managed buffer with ID already exists''), s2)
                  else (Inr (bid, b), s2\<lparr>bm_buffers := (bm_buffers s2)(idx \<mapsto> bs(bid \<mapsto> b))\<rparr>))))"

text \<open>The result is \<open>undefined\<close> (here \<open>None\<close>) when the component has no map.\<close>

definition deleteBuffer :: "int \<Rightarrow> int \<Rightarrow> buffer_manager \<Rightarrow> bool option \<times> buffer_manager" where
  "deleteBuffer idx bid s =
     (case bm_buffers s idx of
        None \<Rightarrow> (None, s)
      | Some bs \<Rightarrow> (Some (bs bid \<noteq> None), s\<lparr>bm_buffers := (bm_buffers s)(idx \<mapsto> bs(bid := None))\<rparr>))"

section \<open>What is written can be read\<close>

text \<open>A lift function that leaves the pointer exactly at the end of what it read, as the loop of
  \<open>read\<close> needs. The number types have this property; a variant has not (see below).\<close>

definition lands :: "lift_fn \<Rightarrow> int \<Rightarrow> int \<Rightarrow> bool" where
  "lands g sz al \<longleftrightarrow>
     (\<forall>m p d v d'. ready sz al m p d \<longrightarrow> g d = Inr (v, d') \<longrightarrow> storagePtr d' = Some (p + sz))"

definition lifts_all :: "lift_fn \<Rightarrow> int \<Rightarrow> val list \<Rightarrow> mem \<Rightarrow> int \<Rightarrow> bool" where
  "lifts_all g sz ws m p \<longleftrightarrow>
     (\<forall>d :: ctx. memory d = Some m \<longrightarrow> storagePtr d = Some p \<longrightarrow> \<not> useDirectParams d \<longrightarrow> storageLen d = None \<longrightarrow>
       (\<exists>d'. lift_values g (length ws) d = Inr (ws, d') \<and> memory d' = Some m \<and>
             storagePtr d' = Some (p + int (length ws) * sz)))"

lemma lifts_all_Cons:
  assumes "reads g sz al w m p" "lands g sz al" "lifts_all g sz ws m (p + sz)"
    "0 \<le> p" "al dvd p" "p + sz \<le> int (length m)"
  shows "lifts_all g sz (w # ws) m p"
  unfolding lifts_all_def
proof (intro allI impI)
  fix d :: ctx assume d: "memory d = Some m" "storagePtr d = Some p" "\<not> useDirectParams d" "storageLen d = None"
  then have r: "ready sz al m p d" using assms by (simp add: ready_def)
  from readsE [OF assms(1) r] d(4) obtain d1 where d1: "g d = Inr (w, d1)" "memory d1 = Some m"
    "\<not> useDirectParams d1" "storageLen d1 = None"
    by (auto simp: budget_def budget_after_def)
  moreover have "storagePtr d1 = Some (p + sz)" using assms(2) r d1(1) unfolding lands_def by blast
  ultimately obtain d2 where "lift_values g (length ws) d1 = Inr (ws, d2)" "memory d2 = Some m"
    "storagePtr d2 = Some (p + sz + int (length ws) * sz)"
    using assms(3) unfolding lifts_all_def by blast
  with d1 show "\<exists>d'. lift_values g (length (w # ws)) d = Inr (w # ws, d') \<and> memory d' = Some m \<and>
      storagePtr d' = Some (p + int (length (w # ws)) * sz)"
    by (auto simp: distrib_right)
qed

lemma lower_values_ok:
  assumes "list_all2 (stores f g sz al) vs ws" "lands g sz al" "0 < al" "al dvd sz" "0 \<le> sz"
    "memory c = Some m" "storagePtr c = Some p" "0 \<le> p" "al dvd p" "p + int (length vs) * sz \<le> int (length m)"
    "\<not> useDirectParams c" "storageLen c = None"
  shows "\<exists>c' m'. lower_values f vs c = (Inr (), c') \<and> memory c' = Some m' \<and> only_in p (int (length ws) * sz) m m' \<and>
    storagePtr c' = Some (p + int (length ws) * sz) \<and>
    (\<forall>m2. agree p (int (length ws) * sz) m' m2 \<longrightarrow> lifts_all g sz ws m2 p)"
  using assms
proof (induction vs ws arbitrary: c m p rule: list_all2_induct)
  case Nil
  then show ?case by (simp add: only_in_refl lifts_all_def)
next
  case (Cons v vs w ws)
  let ?c = "c\<lparr>vals := [v]\<rparr>"
  let ?n = "int (length ws) * sz"
  have len: "length ws = length vs" using Cons.hyps(2) by (simp add: list_all2_lengthD)
  have pos: "0 \<le> ?n" using Cons.prems by simp
  have tot: "p + sz + ?n \<le> int (length m)" using Cons.prems(9) len by (simp add: distrib_right)
  then have psz: "p + sz \<le> int (length m)" using pos by linarith
  then have r: "ready sz al m p ?c" using Cons.prems(5-11) by (simp add: ready_def)
  from storesE [OF Cons.hyps(1) r] Cons.prems obtain c1 m1 where c1: "f ?c = Inr c1" and w1: "wrote sz m p ?c c1 m1"
    and g1: "\<And>m2. agree p sz m1 m2 \<Longrightarrow> reads g sz al w m2 p" by auto
  have m1: "memory c1 = Some m1" "storagePtr c1 = Some (p + sz)" "\<not> useDirectParams c1" "storageLen c1 = None"
    "length m1 = length m" "only_in p sz m m1"
    using w1 Cons.prems by (auto simp: wrote_def only_in_def)
  have "0 \<le> p + sz" "al dvd p + sz" "p + sz + int (length vs) * sz \<le> int (length m1)"
    using Cons.prems(3,4,7,8) tot m1(5) len by simp_all
  from Cons.IH [OF Cons.prems(1-4) m1(1,2) this m1(3,4)] obtain c' m' where
    s: "lower_values f vs c1 = (Inr (), c')" "memory c' = Some m'" "only_in (p + sz) ?n m1 m'"
    "storagePtr c' = Some (p + sz + ?n)" and g: "\<And>m2. agree (p + sz) ?n m' m2 \<Longrightarrow> lifts_all g sz ws m2 (p + sz)"
    by blast
  have sz: "int (length (w # ws)) * sz = sz + ?n" by (simp add: distrib_right)
  have "only_in p (sz + ?n) m m'"
    using only_in_trans [OF m1(6) s(3), of p "sz + ?n"] pos Cons.prems by simp
  moreover have "lifts_all g sz (w # ws) m2 p" if a: "agree p (sz + ?n) m' m2" for m2
  proof (rule lifts_all_Cons [OF _ Cons.prems(1) _ Cons.prems(7,8)])
    have "agree p sz m1 m2" using agree_only_in [OF a s(3), of p sz] pos psz Cons.prems(4,7) m1(5) by simp
    then show "reads g sz al w m2 p" by (rule g1)
    show "lifts_all g sz ws m2 (p + sz)" by (rule g [OF agree_mono [OF a]]) (use Cons.prems in simp_all)
    show "p + sz \<le> int (length m2)" using a pos by (simp add: agree_def)
  qed
  ultimately show ?case using c1 s sz by (auto simp: add.assoc)
qed

lemma lands_number:
  assumes "0 < n" "\<And>d m p. ready (int n) al m p d \<Longrightarrow> g d = lift_mem sgned n mk d"
  shows "lands g (int n) al"
  unfolding lands_def
proof (intro allI impI)
  fix m p d v d'
  assume r: "ready (int n) al m p d" and "g d = Inr (v, d')"
  then have "lift_mem sgned n mk d = Inr (v, d')" using assms(2) by simp
  then show "storagePtr d' = Some (p + int n)"
    using r by (auto simp: lift_mem_def rbind_Inr_iff sub_len_def add_ptr_def ready_def)
qed

lemma lands_numbers:
  "lands liftFlatU8 1 1" "lands liftFlatS8 1 1" "lands liftFlatU16 2 2" "lands liftFlatS16 2 2"
  "lands liftFlatU32 4 4" "lands liftFlatS32 4 4" "lands liftFlatU64 8 8" "lands liftFlatS64 8 8"
proof -
  show "lands liftFlatU8 1 1" "lands liftFlatS8 1 1"
    using lands_number [of 1 1 liftFlatU8 False VNum] lands_number [of 1 1 liftFlatS8 True VNum]
    by (simp_all add: liftFlatU8_def liftFlatS8_def not_direct)
  show "lands liftFlatU16 2 2" "lands liftFlatS16 2 2"
    using lands_number [of 2 2 liftFlatU16 False VNum] lands_number [of 2 2 liftFlatS16 True VNum]
    by (simp_all add: liftFlatU16_def liftFlatS16_def not_direct lift_mem_u16)
  show "lands liftFlatU32 4 4" "lands liftFlatS32 4 4"
    using lands_number [of 4 4 liftFlatU32 False VNum] lands_number [of 4 4 liftFlatS32 True VNum]
    by (simp_all add: liftFlatU32_def liftFlatS32_def not_direct)
  show "lands liftFlatU64 8 8" "lands liftFlatS64 8 8"
    using lands_number [of 8 8 liftFlatU64 False VBig] lands_number [of 8 8 liftFlatS64 True VBig]
    by (simp_all add: liftFlatU64_def liftFlatS64_def not_direct)
qed

section \<open>The byte view against the lift and lower functions\<close>

definition retag :: "string \<Rightarrow> managed_buffer \<Rightarrow> managed_buffer" where
  "retag name b = b\<lparr>mb_elemMeta := (mb_elemMeta b)\<lparr>payloadTypeName := name\<rparr>\<rparr>"

lemma lift_values_u8:
  assumes "memory c = Some m" "storagePtr c = Some p" "\<not> useDirectParams c" "storageLen c = None"
    "0 \<le> p" "p + int n \<le> int (length m)"
  shows "lift_values liftFlatU8 n c = Inr (map (\<lambda>b. VNum (uint b)) (mem_read p n m), c\<lparr>storagePtr := Some (p + int n)\<rparr>)"
  using assms
proof (induction n arbitrary: c p)
  case 0
  then show ?case by (simp add: mem_read_def)
next
  case (Suc n)
  let ?c = "c\<lparr>storagePtr := Some (p + 1)\<rparr>"
  have p: "nat p < length m" using Suc.prems by simp
  have d: "mem_read p (Suc 0) m = [m ! nat p]" "mem_read p (Suc n) m = m ! nat p # mem_read (p + 1) n m"
    using p Suc.prems(5) by (simp_all add: mem_read_def Cons_nth_drop_Suc [symmetric] nat_add_distrib)
  have u: "take_bit 8 (uint (m ! nat p)) = uint (m ! nat p)"
    using uint_bounded [of "m ! nat p"] by (intro take_bit_int_eq_self) simp_all
  have "sub_len 1 (add_ptr 1 c) = ?c" using Suc.prems(2,4) by (simp add: add_ptr_def sub_len_def)
  then have "liftFlatU8 c = Inr (VNum (uint (m ! nat p)), ?c)"
    using Suc.prems p u
    by (simp add: liftFlatU8_def lift_mem_def enough_len_def dv_get_def ctx_mem_def addr_def d(1) wrap_int_def)
  moreover have "lift_values liftFlatU8 n ?c =
      Inr (map (\<lambda>b. VNum (uint b)) (mem_read (p + 1) n m), ?c\<lparr>storagePtr := Some (p + 1 + int n)\<rparr>)"
    using Suc.prems by (intro Suc.IH) simp_all
  ultimately show ?case using d(2) by (simp add: algebra_simps)
qed

lemma lower_values_u8:
  assumes "memory c = Some m" "storagePtr c = Some p" "\<not> useDirectParams c" "storageLen c = None"
    "0 \<le> p" "p + int (length xs) \<le> int (length m)"
  shows "\<exists>c' m'. lower_values lowerFlatU8 (map VNum xs) c = (Inr (), c') \<and> memory c' = Some m' \<and>
    storagePtr c' = Some (p + int (length xs)) \<and> set_bytes p (map VNum xs) m = (Inr (), m')"
  using assms
proof (induction xs arbitrary: c p m)
  case Nil
  then show ?case by simp
next
  case (Cons x xs)
  let ?m = "mem_write p (le_bytes 1 x) m"
  let ?c = "add_ptr 1 (c\<lparr>vals := [VNum x], memory := Some ?m\<rparr>)"
  have l: "length ?m = length m" using Cons.prems by simp
  have "lowerFlatU8 (c\<lparr>vals := [VNum x]\<rparr>) = Inr ?c"
    using Cons.prems
    by (simp add: lowerFlatU8_def one_val_def need_memory_def dv_set_def dv_store_def ctx_mem_def addr_def)
  moreover have "\<exists>c' m'. lower_values lowerFlatU8 (map VNum xs) ?c = (Inr (), c') \<and> memory c' = Some m' \<and>
      storagePtr c' = Some (p + 1 + int (length xs)) \<and> set_bytes (p + 1) (map VNum xs) ?m = (Inr (), m')"
    using Cons.prems l by (intro Cons.IH) (simp_all add: add_ptr_def)
  ultimately show ?case by (auto simp: algebra_simps)
qed

section \<open>Properties\<close>

text \<open>C16. Values written into a buffer of a component's memory are read back, in order, by a buffer over
  the same area: for an element type whose lower and lift functions match and whose lift function
  ends exactly at the end of the element, a write and a read move both pointers past the elements
  and account for their number, and the read changes no memory.\<close>

theorem managed_buffer_roundtrip:
  assumes el: "list_all2 (stores (lowerFn meta) (liftFn meta) sz al) vs ws" "lands (liftFn meta) sz al"
    "0 < al" "al dvd sz" "0 \<le> sz" "vs \<noteq> []"
    and meta: "\<not> isNone meta" "payloadTypeName meta \<noteq> ''U8''" "stringEncoding meta \<noteq> None"
    and b: "mb_elemMeta b = meta" "mb_memory b = Some m" "mb_ptr b = Some p" "0 \<le> p" "al dvd p"
      "p + int (length vs) * sz \<le> int (length m)" "int (length vs) \<le> remaining b"
  shows "\<exists>b' m'. buf_write (VArr vs) b = (Inr (), b') \<and> mb_memory b' = Some m' \<and>
    only_in p (int (length vs) * sz) m m' \<and>
    mb_ptr b' = Some (p + int (length vs) * sz) \<and> remaining b' = remaining b - int (length vs) \<and>
    (\<forall>r. mb_elemMeta r = meta \<and> mb_memory r = Some m' \<and> mb_ptr r = Some p \<and> int (length vs) \<le> mb_capacity r \<longrightarrow>
      buf_read (Some (int (length vs))) r =
        (Inr ws, r\<lparr>mb_ptr := Some (p + int (length vs) * sz), mb_processed := mb_processed r + int (length vs)\<rparr>))"
proof -
  have len: "length ws = length vs" using el(1) by (simp add: list_all2_lengthD)
  from lower_values_ok [OF el(1-5), of "buffer_ctx b" m p] b obtain c m' where
    c: "lower_values (lowerFn meta) vs (buffer_ctx b) = (Inr (), c)" "memory c = Some m'"
      "storagePtr c = Some (p + int (length vs) * sz)" "only_in p (int (length vs) * sz) m m'"
    and g: "\<And>m2. agree p (int (length vs) * sz) m' m2 \<Longrightarrow> lifts_all (liftFn meta) sz ws m2 p"
    by (auto simp: buffer_ctx_def len)
  let ?b = "b\<lparr>mb_memory := Some m', mb_ptr := Some (p + int (length vs) * sz),
    mb_processed := mb_processed b + int (length vs)\<rparr>"
  have "buf_write (VArr vs) b = (Inr (), ?b)"
    using b meta c by (auto simp: buf_write_def write_target_def)
  moreover have "lifts_all (liftFn meta) sz ws m' p"
    using c(4) b by (intro g) (simp add: agree_def only_in_def)
  then have "buf_read (Some (int (length vs))) r =
      (Inr ws, r\<lparr>mb_ptr := Some (p + int (length vs) * sz), mb_processed := mb_processed r + int (length vs)\<rparr>)"
    if r: "mb_elemMeta r = meta" "mb_memory r = Some m'" "mb_ptr r = Some p" "int (length vs) \<le> mb_capacity r" for r
  proof -
    from \<open>lifts_all (liftFn meta) sz ws m' p\<close> [unfolded lifts_all_def, rule_format, of "buffer_ctx r"] r obtain d where
      "lift_values (liftFn meta) (length vs) (buffer_ctx r) = Inr (ws, d)" "memory d = Some m'"
      "storagePtr d = Some (p + int (length vs) * sz)"
      by (auto simp: buffer_ctx_def len)
    then show ?thesis using r meta el(6) by (auto simp: buf_read_def read_source_def)
  qed
  ultimately show ?thesis using c(4) by (auto simp: remaining_def)
qed

definition demo_buf_meta :: elem_meta where
  "demo_buf_meta = \<lparr>isNone = False, isNumeric = True, isBorrowed = False, align32 = 2, payloadTypeName = ''U16'', stringEncoding = Some ''utf8'',
     liftFn = liftFlatU16, lowerFn = lowerFlatU16, getRealloc = None\<rparr>"

definition demo_buffer :: managed_buffer where
  "demo_buffer = \<lparr>mb_componentIdx = 0, mb_memory = Some (replicate 8 0), mb_start = Some 2, mb_ptr = Some 2,
     mb_capacity = 3, mb_processed = 0, mb_elemMeta = demo_buf_meta, mb_hostOnlyData = VUndef, mb_target = VUndef\<rparr>"

theorem managed_buffer_roundtrip_witness:
  "\<exists>b' m'. buf_write (VArr [VNum 513, VNum 7]) demo_buffer = (Inr (), b') \<and> mb_memory b' = Some m' \<and>
    mb_ptr b' = Some 6 \<and> remaining b' = 1 \<and>
    fst (buf_read (Some 2) (demo_buffer\<lparr>mb_memory := Some m'\<rparr>)) = Inr [VNum 513, VNum 7]"
proof -
  have st: "list_all2 (stores (lowerFn demo_buf_meta) (liftFn demo_buf_meta) 2 2) [VNum 513, VNum 7] [VNum 513, VNum 7]"
    by (auto simp: demo_buf_meta_def int_rel_def intro!: stores_u16)
  have la: "lands (liftFn demo_buf_meta) 2 2" by (simp add: demo_buf_meta_def lands_numbers)
  have "\<exists>b' m'. buf_write (VArr [VNum 513, VNum 7]) demo_buffer = (Inr (), b') \<and> mb_memory b' = Some m' \<and>
    only_in 2 4 (replicate 8 0) m' \<and> mb_ptr b' = Some 6 \<and> remaining b' = 1 \<and>
    (\<forall>r. mb_elemMeta r = demo_buf_meta \<and> mb_memory r = Some m' \<and> mb_ptr r = Some 2 \<and> 2 \<le> mb_capacity r \<longrightarrow>
      buf_read (Some 2) r = (Inr [VNum 513, VNum 7], r\<lparr>mb_ptr := Some 6, mb_processed := mb_processed r + 2\<rparr>))"
    using managed_buffer_roundtrip [OF st la, of demo_buffer "replicate 8 0" 2]
    by (simp add: demo_buffer_def demo_buf_meta_def remaining_def)
  then obtain b' m' where w: "buf_write (VArr [VNum 513, VNum 7]) demo_buffer = (Inr (), b')" "mb_memory b' = Some m'"
    "mb_ptr b' = Some 6" "remaining b' = 1"
    and r: "\<And>r. mb_elemMeta r = demo_buf_meta \<and> mb_memory r = Some m' \<and> mb_ptr r = Some 2 \<and> 2 \<le> mb_capacity r \<Longrightarrow>
      buf_read (Some 2) r = (Inr [VNum 513, VNum 7], r\<lparr>mb_ptr := Some 6, mb_processed := mb_processed r + 2\<rparr>)"
    by auto
  have "mb_elemMeta (demo_buffer\<lparr>mb_memory := Some m'\<rparr>) = demo_buf_meta \<and> mb_memory (demo_buffer\<lparr>mb_memory := Some m'\<rparr>) = Some m' \<and>
      mb_ptr (demo_buffer\<lparr>mb_memory := Some m'\<rparr>) = Some 2 \<and> 2 \<le> mb_capacity (demo_buffer\<lparr>mb_memory := Some m'\<rparr>)"
    by (simp add: demo_buffer_def)
  from r [OF this] w show ?thesis by auto
qed

text \<open>The byte view that buffers of bytes use is equivalent to lifting and lowering the bytes one by
  one: inside the memory, reads and writes of numbers give the same values, the same memory and the
  same buffer state as for the same buffer under another type name.\<close>

theorem u8_fast_path_equivalent:
  assumes meta: "\<not> isNone (mb_elemMeta b)" "payloadTypeName (mb_elemMeta b) = ''U8''" "name \<noteq> ''U8''"
    "stringEncoding (mb_elemMeta b) \<noteq> None" "liftFn (mb_elemMeta b) = liftFlatU8" "lowerFn (mb_elemMeta b) = lowerFlatU8"
    and b: "mb_memory b = Some m" "mb_ptr b = Some p" "0 \<le> p" "p + int n \<le> int (length m)"
      "p + int (length xs) \<le> int (length m)"
  shows "buf_read (Some (int n)) (retag name b) = map_prod id (retag name) (buf_read (Some (int n)) b) \<and>
    buf_write (VArr (map VNum xs)) (retag name b) = map_prod id (retag name) (buf_write (VArr (map VNum xs)) b)"
proof (intro conjI)
  have "lift_values liftFlatU8 n (buffer_ctx (retag name b)) =
      Inr (map (\<lambda>b. VNum (uint b)) (mem_read p n m), (buffer_ctx (retag name b))\<lparr>storagePtr := Some (p + int n)\<rparr>)"
    using b by (intro lift_values_u8) (simp_all add: buffer_ctx_def retag_def)
  then show "buf_read (Some (int n)) (retag name b) = map_prod id (retag name) (buf_read (Some (int n)) b)"
    using meta b by (auto simp: buf_read_def read_source_def bytes_from_def byte_view_def retag_def buffer_ctx_def)
  have "\<exists>c' m'. lower_values lowerFlatU8 (map VNum xs) (buffer_ctx (retag name b)) = (Inr (), c') \<and> memory c' = Some m' \<and>
      storagePtr c' = Some (p + int (length xs)) \<and> set_bytes p (map VNum xs) m = (Inr (), m')"
    using b by (intro lower_values_u8) (simp_all add: buffer_ctx_def retag_def)
  then show "buf_write (VArr (map VNum xs)) (retag name b) = map_prod id (retag name) (buf_write (VArr (map VNum xs)) b)"
    using meta b by (auto simp: buf_write_def write_target_def byte_view_def retag_def remaining_def)
qed

theorem u8_fast_path_equivalent_witness:
  "let b = demo_buffer\<lparr>mb_elemMeta := \<lparr>isNone = False, isNumeric = True, isBorrowed = False, align32 = 1, payloadTypeName = ''U8'', stringEncoding = Some ''utf8'',
      liftFn = liftFlatU8, lowerFn = lowerFlatU8, getRealloc = None\<rparr>\<rparr> in
   buf_read (Some (int 2)) (retag ''Bool'' b) = map_prod id (retag ''Bool'') (buf_read (Some (int 2)) b) \<and>
   buf_write (VArr (map VNum [300, 5])) (retag ''Bool'' b) = map_prod id (retag ''Bool'') (buf_write (VArr (map VNum [300, 5])) b)"
  unfolding Let_def
  by (rule u8_fast_path_equivalent [where m = "replicate 8 0" and p = 2]) (simp_all add: demo_buffer_def)

text \<open>Buffer ids are given out once: every id in use is at most the counter of its component.\<close>

definition manager_ok :: "buffer_manager \<Rightarrow> bool" where
  "manager_ok s \<longleftrightarrow> (\<forall>idx bs bid. bm_buffers s idx = Some bs \<longrightarrow> bs bid \<noteq> None \<longrightarrow>
     (\<exists>n. bm_bufferIDs s idx = Some n \<and> bid \<le> n))"

datatype manager_cmd = Create_Buffer buffer_args | Delete_Buffer int int

primrec manager_step :: "manager_cmd \<Rightarrow> buffer_manager \<Rightarrow> buffer_manager" where
  "manager_step (Create_Buffer a) s = snd (createBuffer a s)"
| "manager_step (Delete_Buffer idx bid) s = snd (deleteBuffer idx bid s)"

lemma createBuffer_cases:
  assumes "manager_ok s" "createBuffer a s = (r, s')"
  shows "manager_ok s' \<and>
    (case r of Inl e \<Rightarrow> (\<forall>idx bid. getBuffer idx bid s' = getBuffer idx bid s)
     | Inr (bid, b) \<Rightarrow> (\<exists>idx. ba_componentIdx a = Some idx \<and> newManagedBuffer a = Inr b \<and> getBuffer idx bid s = None \<and>
         (\<forall>i j. getBuffer i j s' = (if i = idx \<and> j = bid then Some b else getBuffer i j s))))"
proof (cases "ba_componentIdx a")
  case None
  then show ?thesis using assms
    by (auto simp: createBuffer_def newManagedBuffer_def split: if_splits option.splits sum.splits)
next
  case (Some idx)
  let ?next = "case bm_bufferIDs s idx of None \<Rightarrow> 1 | Some n \<Rightarrow> n + 1"
  let ?bs = "case bm_buffers s idx of None \<Rightarrow> Map.empty | Some bs \<Rightarrow> bs"
  have fresh: "?bs ?next = None"
    using assms(1) unfolding manager_ok_def by (force split: option.splits)
  have le: "\<exists>n. bm_bufferIDs s idx = Some n \<and> bid \<le> n" if "?bs bid \<noteq> None" for bid
    using assms(1) that unfolding manager_ok_def by (auto split: option.splits)
  show ?thesis
  proof (cases "(ba_start a = None \<and> ba_data a = VUndef) \<or> ba_capacity a = None \<or> ba_elemMeta a = None")
    case True
    then show ?thesis using assms Some by (auto simp: createBuffer_def split: if_splits)
  next
    case False
    then have e: "createBuffer a s =
        (let s2 = s\<lparr>bm_buffers := (bm_buffers s)(idx \<mapsto> ?bs), bm_bufferIDs := (bm_bufferIDs s)(idx \<mapsto> ?next)\<rparr> in
         case newManagedBuffer a of Inl e \<Rightarrow> (Inl e, s2)
         | Inr b \<Rightarrow> (Inr (?next, b), s2\<lparr>bm_buffers := (bm_buffers s)(idx \<mapsto> ?bs(?next \<mapsto> b))\<rparr>))"
      using Some fresh
      by (cases "bm_buffers s idx") (auto simp: createBuffer_def getNextBufferID_def Let_def map_upd_triv split: sum.splits)
    have ok: "\<exists>n. bm_bufferIDs s i = Some n \<and> j \<le> n" if "bm_buffers s i = Some bs" "bs j = Some b" for i bs j b
      using assms(1) that unfolding manager_ok_def by blast
    have le1: "j \<le> ?next" if "?bs j \<noteq> None" for j using le [OF that] by auto
    show ?thesis
    proof (cases "newManagedBuffer a")
      case (Inl err)
      then have s': "r = Inl err" "s' = s\<lparr>bm_buffers := (bm_buffers s)(idx \<mapsto> ?bs), bm_bufferIDs := (bm_bufferIDs s)(idx \<mapsto> ?next)\<rparr>"
        using assms(2) e by (simp_all add: Let_def)
      then show ?thesis using ok le1 by (auto simp: manager_ok_def getBuffer_def split: option.splits)
    next
      case (Inr b)
      then have s': "r = Inr (?next, b)"
        "s' = s\<lparr>bm_bufferIDs := (bm_bufferIDs s)(idx \<mapsto> ?next), bm_buffers := (bm_buffers s)(idx \<mapsto> ?bs(?next \<mapsto> b))\<rparr>"
        using assms(2) e by (auto simp: Let_def)
      have "manager_ok s'" unfolding s' manager_ok_def using ok le1 by (auto split: if_splits)
      moreover have "getBuffer idx ?next s = None" using fresh by (auto simp: getBuffer_def split: option.splits)
      moreover have "\<forall>i j. getBuffer i j s' = (if i = idx \<and> j = ?next then Some b else getBuffer i j s)"
        unfolding s' by (auto simp: getBuffer_def split: option.splits)
      ultimately show ?thesis using Some Inr s'(1) by simp
    qed
  qed
qed

lemma manager_step_ok: "manager_ok s \<Longrightarrow> manager_ok (manager_step cmd s)"
proof (cases cmd)
  case (Create_Buffer a)
  assume "manager_ok s"
  from createBuffer_cases [OF this, of a] Create_Buffer show ?thesis
    by (metis manager_step.simps(1) surj_pair snd_conv)
next
  case (Delete_Buffer idx bid)
  assume "manager_ok s"
  with Delete_Buffer show ?thesis
    by (auto simp: deleteBuffer_def manager_ok_def split: option.splits if_splits)
qed

lemma manager_run_ok: "manager_ok (fold manager_step cmds new_manager)"
proof -
  have "manager_ok s \<Longrightarrow> manager_ok (fold manager_step cmds s)" for s
    by (induction cmds arbitrary: s) (simp_all add: manager_step_ok)
  moreover have "manager_ok new_manager" by (simp add: manager_ok_def new_manager_def)
  ultimately show ?thesis .
qed

lemma newManagedBuffer_given:
  assumes "newManagedBuffer a = Inr b"
  obtains idx cap meta where "ba_componentIdx a = Some idx" "ba_capacity a = Some cap" "ba_elemMeta a = Some meta"
    "ba_start a \<noteq> None \<or> ba_data a \<noteq> VUndef"
  using assms by (auto simp: newManagedBuffer_def split: option.splits if_splits)

text \<open>Whatever buffers were created and deleted before, the buffer manager creates a buffer exactly
  when the buffer's constructor accepts the arguments: under an id that is not in use, without
  touching any other buffer. A failed creation changes no buffer.\<close>

theorem buffer_ids_unique:
  "let s = fold manager_step cmds new_manager in
   case newManagedBuffer a of
     Inl _ \<Rightarrow> (\<exists>e s'. createBuffer a s = (Inl e, s') \<and> (\<forall>i j. getBuffer i j s' = getBuffer i j s))
   | Inr b \<Rightarrow> (\<exists>idx bid s'. createBuffer a s = (Inr (bid, b), s') \<and> getBuffer idx bid s = None \<and>
       (\<forall>i j. getBuffer i j s' = (if i = idx \<and> j = bid then Some b else getBuffer i j s)))"
proof -
  let ?s = "fold manager_step cmds new_manager"
  obtain r s' where c: "createBuffer a ?s = (r, s')" by fastforce
  note k = createBuffer_cases [OF manager_run_ok c]
  show ?thesis
  proof (cases "newManagedBuffer a")
    case (Inl e)
    with c k show ?thesis by (cases r) (auto simp: Let_def)
  next
    case (Inr b)
    from newManagedBuffer_given [OF Inr] obtain idx cap meta where
      g: "ba_componentIdx a = Some idx" "ba_capacity a = Some cap" "ba_elemMeta a = Some meta"
      "ba_start a \<noteq> None \<or> ba_data a \<noteq> VUndef" .
    have fresh: "(case bm_buffers ?s idx of None \<Rightarrow> Map.empty | Some bs \<Rightarrow> bs)
        (case bm_bufferIDs ?s idx of None \<Rightarrow> 1 | Some n \<Rightarrow> n + 1) = None"
      using manager_run_ok [of cmds] unfolding manager_ok_def by (force split: option.splits)
    have "\<exists>bid. r = Inr (bid, b)"
      using c g Inr fresh
      by (cases "bm_buffers ?s idx") (auto simp: createBuffer_def getNextBufferID_def Let_def)
    then obtain bid where r: "r = Inr (bid, b)" by blast
    with k obtain i0 where i0: "getBuffer i0 bid ?s = None"
      "\<forall>i j. getBuffer i j s' = (if i = i0 \<and> j = bid then Some b else getBuffer i j ?s)"
      by auto
    have "\<exists>idx bid s'. createBuffer a ?s = (Inr (bid, b), s') \<and> getBuffer idx bid ?s = None \<and>
        (\<forall>i j. getBuffer i j s' = (if i = idx \<and> j = bid then Some b else getBuffer i j ?s))"
      using c r i0 by blast
    with Inr show ?thesis by (simp add: Let_def)
  qed
qed

text \<open>A variant of a byte and a pair of 32-bit integers, of size 12 and alignment 4.\<close>

definition byte_or_pair_lower :: "lower_case list" where
  "byte_or_pair_lower =
     [(''a'', Some lowerFlatU8), (''b'', Some (lowerFlatTuple [(lowerFlatU32, 4, 4), (lowerFlatU32, 4, 4)] 8 4))]"

definition byte_or_pair_lift :: lift_variant_meta where
  "byte_or_pair_lift =
     \<lparr>lv_caseMetas =
        [\<lparr>lc_tag = ''a'', lc_liftFn = Some liftFlatU8, lc_isF64 = False, lc_flatCount = Some 1\<rparr>,
         \<lparr>lc_tag = ''b'', lc_liftFn = Some (liftFlatTuple [(liftFlatU32, 4, 4), (liftFlatU32, 4, 4)] 8 4), lc_isF64 = False,
           lc_flatCount = Some 2\<rparr>],
      lv_size32 = 12, lv_align32 = 4, lv_payloadOffset32 = Some 4, lv_flatCount = Some 3, lv_isEnum = False\<rparr>"

definition byte_or_pair :: elem_meta where
  "byte_or_pair = \<lparr>isNone = False, isNumeric = True, isBorrowed = False, align32 = 4, payloadTypeName = ''Variant'', stringEncoding = Some ''utf8'',
     liftFn = liftFlatVariant byte_or_pair_lift, lowerFn = lowerFlatVariant byte_or_pair_lower 12 4 4, getRealloc = None\<rparr>"

definition case_a :: "int \<Rightarrow> val" where
  "case_a n = VObj [(''tag'', VStr ''a''), (''val'', VNum n)]"

definition pair_buffer :: managed_buffer where
  "pair_buffer = \<lparr>mb_componentIdx = 0, mb_memory = Some (replicate 24 0), mb_start = Some 0, mb_ptr = Some 0,
     mb_capacity = 2, mb_processed = 0, mb_elemMeta = byte_or_pair, mb_hostOnlyData = VUndef, mb_target = VUndef\<rparr>"

text \<open>A buffer of variants misreads: the lift function of a variant leaves the pointer at the end of the
  payload it read (the list lift advances it to the end of the element, the buffer's loop does not).
  Of two values written into a buffer whose case is the shorter one, the second is read back as
  another value.\<close>

theorem buffer_misreads_short_cases:
  "fst (buf_write (VArr [case_a 1, case_a 2]) pair_buffer) = Inr () \<and>
   fst (buf_read (Some 2) (pair_buffer\<lparr>mb_memory := mb_memory (snd (buf_write (VArr [case_a 1, case_a 2]) pair_buffer))\<rparr>)) =
     Inr [case_a 1, case_a 0]"
  by code_simp

end
