(* ===== verification/Func_Bindgen.thy ===== *)
theory Func_Bindgen
  imports Managed_Buffer
begin

text \<open>
  The bodies of lifted and lowered functions, as \<open>FunctionBindgen\<close>
  (\<open>src/crates/js-component-bindgen/src/function_bindgen.rs\<close>) emits them: one definition for each
  instruction of the canonical ABI, the effect of the JavaScript that \<open>emit\<close> writes for it.

  An instruction takes the values of its operands and gives the values of its results. The results
  are expressions that the code inlines where they are used; those of a load and of an array element
  are read at that point, the others only compute, so that when they are evaluated makes no
  difference beyond which exception comes first. A block (\<open>push_block\<close>, \<open>finish_block\<close>) is a step on
  the state \<open>'s\<close> that gives the values of its results; the block of a case that has a payload takes
  the payload, which the code names \<open>e\<close>. Which instructions there are for a type, and in which order,
  is decided by the crate \<open>wit-bindgen-core\<close>: no definition depends on it. An \<open>await\<close> in front of
  the allocator does not change its result. The names of fields, cases and flags are the JavaScript
  names, after the conversion to camel case. Generation that panics gives \<open>OutOfModel\<close>.
\<close>

section \<open>Options and small parts\<close>

datatype err_handling = NoErrHandling | ThrowResultErr | ResultCatchHandler

fun err_to_js_string :: "err_handling \<Rightarrow> string" where
  "err_to_js_string NoErrHandling = ''none''"
| "err_to_js_string ThrowResultErr = ''throw-result-err''"
| "err_to_js_string ResultCatchHandler = ''result-catch-handler''"

definition jlift :: "'a js \<Rightarrow> ('a, 's) jsop" where
  "jlift r s = (r, s)"

text \<open>The numbers of temporaries, and the stack of unfinished blocks. \<open>fb_src\<close> is the text of the
  current block, as the list of statements written so far.\<close>

record ('stmt, 'op) bindgen =
  fb_tmp :: nat
  fb_src :: "'stmt list"
  fb_block_storage :: "'stmt list list"
  fb_blocks :: "('stmt list \<times> 'op list) list"

definition fb_next_tmp :: "('stmt, 'op) bindgen \<Rightarrow> nat \<times> ('stmt, 'op) bindgen" where
  "fb_next_tmp b = (fb_tmp b, b\<lparr>fb_tmp := fb_tmp b + 1\<rparr>)"

definition push_block :: "('stmt, 'op) bindgen \<Rightarrow> ('stmt, 'op) bindgen" where
  "push_block b = b\<lparr>fb_src := [], fb_block_storage := fb_src b # fb_block_storage b\<rparr>"

definition finish_block :: "'op list \<Rightarrow> ('stmt, 'op) bindgen \<Rightarrow> ('stmt, 'op) bindgen rust" where
  "finish_block operands b =
     (case fb_block_storage b of
        [] \<Rightarrow> Inl (Panic ''called Option::unwrap() on a None value'')
      | to_restore # rest \<Rightarrow>
          Inr (b\<lparr>fb_src := to_restore, fb_block_storage := rest, fb_blocks := (fb_src b, operands) # fb_blocks b\<rparr>))"

section \<open>Scalars\<close>

definition clampGuest :: "int \<Rightarrow> int \<Rightarrow> val \<Rightarrow> val js" where
  "clampGuest lo hi i =
     rbind (cmp_num i) (\<lambda>n. if n < lo \<or> n > hi then Inl (TypeErr ''must be between min and max'') else Inr i)"

definition u8_from_i32 :: "val \<Rightarrow> val js" where
  "u8_from_i32 = clampGuest 0 255"

definition s8_from_i32 :: "val \<Rightarrow> val js" where
  "s8_from_i32 = clampGuest (- 128) 127"

definition u16_from_i32 :: "val \<Rightarrow> val js" where
  "u16_from_i32 = clampGuest 0 65535"

definition s16_from_i32 :: "val \<Rightarrow> val js" where
  "s16_from_i32 = clampGuest (- 32768) 32767"

definition u32_from_i32 :: "val \<Rightarrow> val js" where
  "u32_from_i32 op = rbind (ushr0 op) (\<lambda>n. Inr (VNum n))"

definition u64_from_i64 :: "val \<Rightarrow> val js" where
  "u64_from_i64 op = rbind (bigint_of op) (\<lambda>n. Inr (VBig (take_bit 64 n)))"

text \<open>\<open>S32FromI32\<close>, \<open>S64FromI64\<close>, \<open>F32FromCoreF32\<close> and \<open>F64FromCoreF64\<close>.\<close>

definition same_operand :: "val \<Rightarrow> val js" where
  "same_operand op = Inr op"

datatype lower_int = I32FromU8 | I32FromS8 | I32FromU16 | I32FromS16 | I32FromU32 | I32FromS32 | I64FromU64 | I64FromS64

fun lower_int_instr :: "bool \<Rightarrow> lower_int \<Rightarrow> val \<Rightarrow> val js" where
  "lower_int_instr strict I32FromU8 = toUint8 strict"
| "lower_int_instr strict I32FromS8 = toInt8 strict"
| "lower_int_instr strict I32FromU16 = toUint16 strict"
| "lower_int_instr strict I32FromS16 = toInt16 strict"
| "lower_int_instr strict I32FromU32 = toUint32 strict"
| "lower_int_instr strict I32FromS32 = toInt32 strict"
| "lower_int_instr strict I64FromU64 = toUint64 strict"
| "lower_int_instr strict I64FromS64 = toInt64 strict"

definition throwInvalidBool :: "val js" where
  "throwInvalidBool = Inl (TypeErr ''invalid variant discriminant for bool'')"

definition bool_from_i32 :: "bool \<Rightarrow> val \<Rightarrow> val js" where
  "bool_from_i32 valid_lifting op =
     (if valid_lifting then Inr (VBool (val_truthy op))
      else rbind (cmp_num op) (\<lambda>n.
        if n = 0 then Inr (VBool False) else if n = 1 then Inr (VBool True) else throwInvalidBool))"

definition i32_from_bool :: "val \<Rightarrow> val js" where
  "i32_from_bool op = Inr (VNum (if val_truthy op then 1 else 0))"

text \<open>\<open>String.fromCodePoint\<close> and \<open>codePointAt(0)\<close>: a code point above 65535 is two code units.\<close>

definition from_code_point :: "int \<Rightarrow> val js" where
  "from_code_point i =
     (if i < 0 \<or> 1114111 < i then Inl (RangeErr ''Invalid code point'')
      else if i < 256 then Inr (VStr [char_of (nat i)])
      else if i < 65536 then Inr (VUtf16 [nat i])
      else Inr (VUtf16 [55296 + nat (i - 65536) div 1024, 56320 + nat (i - 65536) mod 1024]))"

fun code_point_at0 :: "nat list \<Rightarrow> val" where
  "code_point_at0 [] = VUndef"
| "code_point_at0 [u] = VNum (int u)"
| "code_point_at0 (u # l # us) =
     (if 55296 \<le> u \<and> u \<le> 56319 \<and> 56320 \<le> l \<and> l \<le> 57343
      then VNum (int ((u - 55296) * 1024 + (l - 56320) + 65536)) else VNum (int u))"

definition validateGuestChar :: "val \<Rightarrow> val js" where
  "validateGuestChar i =
     rbind (cmp_num i) (\<lambda>n.
       if n > 1114111 \<or> 55296 \<le> n \<and> n \<le> 57343 then Inl (TypeErr ''not a valid char'')
       else from_code_point n)"

fun validateHostChar :: "val \<Rightarrow> val js" where
  "validateHostChar (VStr s) = Inr (code_point_at0 (map of_char s))"
| "validateHostChar (VUtf16 s) = Inr (code_point_at0 s)"
| "validateHostChar _ = Inl (TypeErr ''must be a string'')"

section \<open>Casts between core types\<close>

datatype bitcast =
    I32ToF32 | F32ToI32 | I64ToF64 | F64ToI64 | I32ToI64 | I64ToI32 | I64ToF32 | F32ToI64
  | NoCast | P64ToI64 | LToI32 | I32ToL | LToP | PToL | PToI32 | I32ToP
  | PToP64 | I64ToP64 | LToI64 | P64ToP | I64ToL
  | Sequence "bitcast list"

text \<open>The four reinterpretations of floats are given.\<close>

record float_casts =
  i32ToF32 :: "val \<Rightarrow> val js"
  f32ToI32 :: "val \<Rightarrow> val js"
  i64ToF64 :: "val \<Rightarrow> val js"
  f64ToI64 :: "val \<Rightarrow> val js"

definition js_BigInt :: "val \<Rightarrow> val js" where
  "js_BigInt op = rbind (bigint_of op) (\<lambda>n. Inr (VBig n))"

text \<open>\<open>Number(op)\<close>: a bigint is converted, unlike ToNumber. The doubles of the model are exact.\<close>

definition js_Number :: "val \<Rightarrow> val js" where
  "js_Number op = (case op of VBig n \<Rightarrow> Inr (VNum n) | _ \<Rightarrow> rbind (to_number op) (\<lambda>n. Inr (VNum n)))"

fun bitcast_instr :: "float_casts \<Rightarrow> bitcast \<Rightarrow> val \<Rightarrow> val js" where
  "bitcast_instr fl I32ToF32 op = i32ToF32 fl op"
| "bitcast_instr fl F32ToI32 op = f32ToI32 fl op"
| "bitcast_instr fl I64ToF64 op = i64ToF64 fl op"
| "bitcast_instr fl F64ToI64 op = f64ToI64 fl op"
| "bitcast_instr fl I32ToI64 op = js_BigInt op"
| "bitcast_instr fl I64ToI32 op = js_Number op"
| "bitcast_instr fl I64ToF32 op = rbind (js_Number op) (i32ToF32 fl)"
| "bitcast_instr fl F32ToI64 op = rbind (f32ToI32 fl op) js_BigInt"
| "bitcast_instr fl PToP64 op = js_BigInt op"
| "bitcast_instr fl I64ToP64 op = js_BigInt op"
| "bitcast_instr fl LToI64 op = js_BigInt op"
| "bitcast_instr fl P64ToP op = js_Number op"
| "bitcast_instr fl I64ToL op = js_Number op"
| "bitcast_instr fl (Sequence casts) op = fold (\<lambda>cast acc. rbind acc (bitcast_instr fl cast)) casts (Inr op)"
| "bitcast_instr fl _ op = Inr op"

section \<open>Records, tuples and flags\<close>

text \<open>\<open>var {a: v0, b: v1} = op\<close>\<close>

definition record_lower :: "string list \<Rightarrow> val \<Rightarrow> val list js" where
  "record_lower names op =
     (if op = VNull \<or> op = VUndef then Inl (TypeErr ''Cannot destructure'') else rmap (js_prop op) names)"

definition record_lift :: "string list \<Rightarrow> val list \<Rightarrow> val" where
  "record_lift names ops = VObj (fold (\<lambda>(k, v) kvs. obj_set kvs k v) (zip names ops) [])"

text \<open>\<open>var [v0, v1] = op\<close>: the pattern takes what the iterator gives and \<open>undefined\<close> after its end.\<close>

definition tuple_lower :: "nat \<Rightarrow> val \<Rightarrow> val list js" where
  "tuple_lower n op = rbind (list_elems op) (\<lambda>vs. Inr (take n vs @ replicate (n - length vs) VUndef))"

definition tuple_lift :: "val list \<Rightarrow> val" where
  "tuple_lift ops = VArr ops"

fun chunks32 :: "'a list \<Rightarrow> 'a list list" where
  "chunks32 xs = (if xs = [] then [] else take 32 xs # chunks32 (drop 32 xs))"

declare chunks32.simps [simp del]

text \<open>\<open>Boolean(op.a) << 0 | Boolean(op.b) << 1 | ...\<close>\<close>

definition flag_bit :: "val \<Rightarrow> string \<times> nat \<Rightarrow> int js" where
  "flag_bit op fi = rbind (js_prop op (fst fi)) (\<lambda>v. Inr (js_shl (if val_truthy v then 1 else 0) (snd fi)))"

definition flags_word :: "val \<Rightarrow> string list \<Rightarrow> val js" where
  "flags_word op chunk =
     rbind (rmap (flag_bit op) (zip chunk [0..<length chunk])) (\<lambda>bits. Inr (VNum (foldl js_or (hd bits) (tl bits))))"

definition flags_lower :: "string list \<Rightarrow> val \<Rightarrow> val list js" where
  "flags_lower flags op =
     (if typeof_object op \<and> op \<noteq> VNull then rmap (flags_word op) (chunks32 flags)
      else if op \<noteq> VNull \<and> op \<noteq> VUndef
      then Inl (TypeErr ''only an object, undefined or null can be converted to flags'')
      else Inr (replicate (length (chunks32 flags)) (VNum 0)))"

text \<open>\<open>0xffffffff << n\<close> on a \<open>u32\<close>, for the number of flags modulo 32.\<close>

definition extraneous_mask :: "nat \<Rightarrow> int" where
  "extraneous_mask n = take_bit 32 (push_bit n 4294967295)"

definition flags_lift :: "bool \<Rightarrow> string list \<Rightarrow> val list \<Rightarrow> val js" where
  "flags_lift valid_lifting flags ops =
     rbind (if ops \<noteq> [] \<and> length flags mod 32 \<noteq> 0 \<and> \<not> valid_lifting
            then rbind (to_number (last ops)) (\<lambda>n.
              if js_and n (extraneous_mask (length flags mod 32)) \<noteq> 0
              then Inl (TypeErr ''flags have extraneous bits set'') else Inr ())
            else Inr ()) (\<lambda>_.
     rbind (rmap (\<lambda>(flag, i). rbind (to_number (ops ! (i div 32))) (\<lambda>n.
                    Inr (flag, VBool (js_and n (push_bit (i mod 32) 1) \<noteq> 0)))) (zip flags [0..<length flags]))
       (\<lambda>kvs. Inr (VObj (fold (\<lambda>(k, v) o'. obj_set o' k v) kvs []))))"

section \<open>Variants, options, results and enums\<close>

text \<open>A case that has no payload has \<open>e\<close> undefined. A block that has more results than the variant
  assigns to variables that are not declared.\<close>

type_synonym 's lower_block = "val \<Rightarrow> (val list, 's) jsop"
type_synonym 's lift_block = "(val list, 's) jsop"

definition assign_results :: "nat \<Rightarrow> val list \<Rightarrow> val list js" where
  "assign_results n rs =
     (if length rs \<le> n then Inr (rs @ replicate (n - length rs) VUndef)
      else Inl (RefErr ''variant is not defined''))"

definition variant_lower :: "(string \<times> bool \<times> 's lower_block) list \<Rightarrow> nat \<Rightarrow> val \<Rightarrow> (val list, 's) jsop" where
  "variant_lower cases n op =
     jbind (jlift (js_prop op ''tag'')) (\<lambda>tag.
       case find (\<lambda>c. tag = VStr (fst c)) cases of
         Some (name, has_ty, block) \<Rightarrow>
           jbind (if has_ty then jlift (js_prop op ''val'') else jret VUndef) (\<lambda>e.
             jbind (block e) (\<lambda>rs. jlift (assign_results n rs)))
       | None \<Rightarrow> jthrow (TypeErr ''invalid variant tag value''))"

text \<open>A switch on the operand: the case with its number, or the default. Without the default
  (\<open>valid_lifting_optimization\<close>) the variable stays undefined.\<close>

definition switch_num :: "bool \<Rightarrow> string \<Rightarrow> (val, 's) jsop list \<Rightarrow> val \<Rightarrow> (val, 's) jsop" where
  "switch_num valid_lifting msg branches op =
     (case op of
        VNum d \<Rightarrow>
          if 0 \<le> d \<and> d < int (length branches) then branches ! nat d
          else if valid_lifting then jret VUndef else jthrow (TypeErr msg)
      | _ \<Rightarrow> if valid_lifting then jret VUndef else jthrow (TypeErr msg))"

text \<open>\<open>assert!(block_results.len() == 1)\<close>\<close>

definition one_result :: "val list \<Rightarrow> (val, 's) jsop" where
  "one_result rs = (case rs of [x] \<Rightarrow> jret x | _ \<Rightarrow> jthrow (OutOfModel ''the generation panics''))"

definition no_result :: "val list \<Rightarrow> (val, 's) jsop" where
  "no_result rs = (case rs of [] \<Rightarrow> jret VUndef | _ \<Rightarrow> jthrow (OutOfModel ''the generation panics''))"

definition variant_lift :: "bool \<Rightarrow> (string \<times> bool \<times> 's lift_block) list \<Rightarrow> val \<Rightarrow> (val, 's) jsop" where
  "variant_lift valid_lifting cases op =
     switch_num valid_lifting ''invalid variant discriminant''
       (map (\<lambda>(name, has_ty, block). jbind block (\<lambda>rs.
          if has_ty then jbind (one_result rs) (\<lambda>x. jret (VObj [(''tag'', VStr name), (''val'', x)]))
          else jbind (no_result rs) (\<lambda>_. jret (VObj [(''tag'', VStr name)])))) cases) op"

text \<open>\<open>some_results[i]\<close> for each result of the instruction.\<close>

definition first_results :: "nat \<Rightarrow> val list \<Rightarrow> (val list, 's) jsop" where
  "first_results n rs = (if n \<le> length rs then jret (take n rs) else jthrow (OutOfModel ''the generation panics''))"

definition option_lower :: "bool \<Rightarrow> nat \<Rightarrow> 's lift_block \<Rightarrow> 's lower_block \<Rightarrow> val \<Rightarrow> (val list, 's) jsop" where
  "option_lower payload_maybe_null n none some op =
     (if payload_maybe_null
      then jbind (jlift (js_prop op ''tag'')) (\<lambda>tag.
        if tag = VStr ''none'' then jbind none (first_results n)
        else if tag = VStr ''some''
        then jbind (jlift (js_prop op ''val'')) (\<lambda>e. jbind (some e) (first_results n))
        else jthrow (TypeErr ''invalid variant specified for option''))
      else if op = VNull \<or> op = VUndef then jbind none (first_results n)
      else jbind (some op) (first_results n))"

definition option_lift :: "bool \<Rightarrow> bool \<Rightarrow> 's lift_block \<Rightarrow> 's lift_block \<Rightarrow> val \<Rightarrow> (val, 's) jsop" where
  "option_lift valid_lifting payload_maybe_null none some op =
     (let v_none = (if payload_maybe_null then VObj [(''tag'', VStr ''none'')] else VUndef);
          v_some = (\<lambda>x. if payload_maybe_null then VObj [(''tag'', VStr ''some''), (''val'', x)] else x);
          on_none = jbind none (\<lambda>rs. jbind (no_result rs) (\<lambda>_. jret v_none));
          on_some = jbind some (\<lambda>rs. jbind (one_result rs) (\<lambda>x. jret (v_some x))) in
      if \<not> valid_lifting then switch_num False ''invalid variant discriminant for option'' [on_none, on_some] op
      else if val_truthy op then on_some else on_none)"

definition result_lower :: "nat \<Rightarrow> 's lower_block \<Rightarrow> 's lower_block \<Rightarrow> val \<Rightarrow> (val list, 's) jsop" where
  "result_lower n ok err op =
     jbind (jlift (js_prop op ''tag'')) (\<lambda>tag.
       if tag = VStr ''ok'' then jbind (jlift (js_prop op ''val'')) (\<lambda>e. jbind (ok e) (first_results n))
       else if tag = VStr ''err'' then jbind (jlift (js_prop op ''val'')) (\<lambda>e. jbind (err e) (first_results n))
       else jthrow (TypeErr ''invalid variant specified for result''))"

definition result_lift :: "bool \<Rightarrow> bool \<Rightarrow> bool \<Rightarrow> 's lift_block \<Rightarrow> 's lift_block \<Rightarrow> val \<Rightarrow> (val, 's) jsop" where
  "result_lift valid_lifting has_ok has_err ok err op =
     (let branch = (\<lambda>tag has_ty block. jbind block (\<lambda>rs.
            jbind (if has_ty then one_result rs else no_result rs) (\<lambda>x.
              jret (VObj [(''tag'', VStr tag), (''val'', x)]))));
          on_ok = branch ''ok'' has_ok ok; on_err = branch ''err'' has_err err in
      if \<not> valid_lifting then switch_num False ''invalid variant discriminant for expected'' [on_ok, on_err] op
      else if val_truthy op then on_err else on_ok)"

primrec enum_case :: "string list \<Rightarrow> nat \<Rightarrow> val \<Rightarrow> val js" where
  "enum_case [] i op = Inl (TypeErr ''not one of the cases'')"
| "enum_case (name # names) i op = (if op = VStr name then Inr (VNum (int i)) else enum_case names (Suc i) op)"

definition enum_lower :: "string list \<Rightarrow> val \<Rightarrow> val js" where
  "enum_lower names op = enum_case names 0 op"

definition enum_lift :: "bool \<Rightarrow> string list \<Rightarrow> val \<Rightarrow> (val, 's) jsop" where
  "enum_lift valid_lifting names op =
     switch_num valid_lifting ''invalid discriminant specified'' (map (\<lambda>name. jret (VStr name)) names) op"

section \<open>Types that null can stand for\<close>

text \<open>The types of \<open>wit-parser\<close>, with the definition of an identifier in its place: definitions have no
  cycles. \<open>OtherDef\<close> is an identifier of a definition that is neither an option nor an alias.\<close>

datatype wit_type =
    TBool | TU8 | TS8 | TU16 | TS16 | TU32 | TS32 | TU64 | TS64 | TF32 | TF64 | TChar | TString | TErrorContext
  | OptionDef wit_type | AliasDef wit_type | OtherDef

fun as_nullable :: "wit_type \<Rightarrow> wit_type option" where
  "as_nullable (OptionDef t) = (if as_nullable t = None then Some t else None)"
| "as_nullable (AliasDef t) = as_nullable t"
| "as_nullable _ = None"

definition maybe_null :: "wit_type \<Rightarrow> bool" where
  "maybe_null ty = (as_nullable ty \<noteq> None)"

text \<open>The two kinds of float arrays are left out of the values, but are array types.\<close>

fun js_array_ty :: "wit_type \<Rightarrow> string option" where
  "js_array_ty TU8 = Some ''Uint8Array''"
| "js_array_ty TS8 = Some ''Int8Array''"
| "js_array_ty TU16 = Some ''Uint16Array''"
| "js_array_ty TS16 = Some ''Int16Array''"
| "js_array_ty TU32 = Some ''Uint32Array''"
| "js_array_ty TS32 = Some ''Int32Array''"
| "js_array_ty TU64 = Some ''BigUint64Array''"
| "js_array_ty TS64 = Some ''BigInt64Array''"
| "js_array_ty TF32 = Some ''Float32Array''"
| "js_array_ty TF64 = Some ''Float64Array''"
| "js_array_ty (AliasDef t) = js_array_ty t"
| "js_array_ty _ = None"

definition is_list_canonical :: "wit_type \<Rightarrow> bool" where
  "is_list_canonical elem_ty = (js_array_ty elem_ty \<noteq> None)"

text \<open>The method that stores an element, and the name of its check.\<close>

fun dataview_set_and_check :: "wit_type \<Rightarrow> (string \<times> string) rust" where
  "dataview_set_and_check TBool = Inr (''setUint8'', ''u8'')"
| "dataview_set_and_check TU8 = Inr (''setUint8'', ''u8'')"
| "dataview_set_and_check TU16 = Inr (''setUint16'', ''u16'')"
| "dataview_set_and_check TU32 = Inr (''setUint32'', ''u32'')"
| "dataview_set_and_check TU64 = Inr (''setBigUint64'', ''u64'')"
| "dataview_set_and_check TS8 = Inr (''setInt8'', ''s8'')"
| "dataview_set_and_check TS16 = Inr (''setInt16'', ''s16'')"
| "dataview_set_and_check TS32 = Inr (''setInt32'', ''s32'')"
| "dataview_set_and_check TS64 = Inr (''setBigInt64'', ''s64'')"
| "dataview_set_and_check TF32 = Inr (''setFloat32'', ''f32'')"
| "dataview_set_and_check TF64 = Inr (''setFloat64'', ''f64'')"
| "dataview_set_and_check (AliasDef t) = dataview_set_and_check t"
| "dataview_set_and_check _ = Inl (Panic ''unsupported type for canonical list lower'')"

end
