(* ===== verification/Func_Cases.thy ===== *)
theory Func_Cases
  imports Func_Bindgen
begin

text \<open>
  The instructions of \<open>FunctionBindgen\<close> for variants, options, results and enums: a value that is lowered
  and lifted comes back, each case runs its own block on its own payload, and values of no case are
  refused. For options the question is which values \<open>null\<close> and \<open>undefined\<close> stand for: the lemmas
  give the JavaScript value of every value of a nest of options and show that no two values share one.
\<close>

lemma jlift_simps [simp]: "jlift (Inr a) s = (Inr a, s)" "jlift (Inl e) s = (Inl e, s)"
  by (simp_all add: jlift_def)

lemma jbind_simps:
  "m s = (Inr a, s') \<Longrightarrow> jbind m f s = f a s'"
  "m s = (Inl e, s') \<Longrightarrow> jbind m f s = (Inl e, s')"
  by (simp_all add: jbind_def)

lemma jret_app [simp]: "jret a s = (Inr a, s)"
  by (simp add: jret_def)

section \<open>Variants\<close>

definition variant_val :: "string \<Rightarrow> bool \<Rightarrow> val \<Rightarrow> val" where
  "variant_val name has_ty x = VObj ((''tag'', VStr name) # (if has_ty then [(''val'', x)] else []))"

lemma variant_val_props [simp]:
  "js_prop (variant_val name has_ty x) ''tag'' = Inr (VStr name)"
  "js_prop (variant_val name True x) ''val'' = Inr x"
  by (simp_all add: variant_val_def obj_get_def)

lemma find_case:
  assumes "i < length cs" "distinct (map fst cs)" "fst (cs ! i) = name"
  shows "find (\<lambda>c. name = fst c) cs = Some (cs ! i)"
  using assms
proof (induction cs arbitrary: i)
  case (Cons c cs)
  show ?case
  proof (cases i)
    case (Suc j)
    with Cons.prems have "j < length cs" "fst (cs ! j) = name" "fst c \<notin> fst ` set cs" by simp_all
    then have "fst c \<noteq> name" by (metis imageI nth_mem)
    with Suc Cons show ?thesis by auto
  qed (use Cons.prems in simp)
qed simp

lemma find_no_case: "name \<notin> fst ` set cs \<Longrightarrow> find (\<lambda>c. name = fst c) cs = None"
  by (force simp: find_None_iff)

text \<open>A variant value is lowered by the block of its own case, applied to its own payload, whose
  results go to the variant's variables (the rest stay undefined), and the number of the case makes the
  lift run the block of that case: if that block gives back the payload that was lowered, or one
  that corresponds to it, the lifted variant has the same case with that payload.\<close>

theorem variant_instr_roundtrip:
  assumes "distinct (map fst lowers)" "i < length lowers" "length lifts = length lowers"
    and "lowers ! i = (name, has_ty, lo)" "lifts ! i = (name, has_ty, li)"
    and "lo (if has_ty then x else VUndef) s = (Inr (VNum (int i) # ops), s')" "length ops < n"
    and "li s' = (Inr (if has_ty then [y] else []), s'')"
  shows "variant_lower lowers n (variant_val name has_ty x) s =
           (Inr (VNum (int i) # ops @ replicate (n - Suc (length ops)) VUndef), s') \<and>
         variant_lift valid_lifting lifts (VNum (int i)) s' = (Inr (variant_val name has_ty y), s'')"
proof (intro conjI)
  have "find (\<lambda>c. name = fst c) lowers = Some (name, has_ty, lo)"
    using find_case [OF assms(2,1)] assms(4) by simp
  moreover have "assign_results n (VNum (int i) # ops) = Inr (VNum (int i) # ops @ replicate (n - Suc (length ops)) VUndef)"
    using assms(7) by (simp add: assign_results_def)
  ultimately show "variant_lower lowers n (variant_val name has_ty x) s =
      (Inr (VNum (int i) # ops @ replicate (n - Suc (length ops)) VUndef), s')"
    using assms(6) by (cases has_ty) (simp_all add: variant_lower_def jbind_def)
  show "variant_lift valid_lifting lifts (VNum (int i)) s' = (Inr (variant_val name has_ty y), s'')"
    using assms(2,3,5,8)
    by (cases has_ty) (simp_all add: variant_lift_def switch_num_def jbind_def one_result_def no_result_def variant_val_def)
qed

text \<open>An unknown tag, and a number of no case, throw; without the check the lifted variable is undefined.\<close>

lemma variant_lower_unknown:
  "name \<notin> fst ` set lowers \<Longrightarrow>
   variant_lower lowers n (variant_val name has_ty x) s = (Inl (TypeErr ''invalid variant tag value''), s)"
  by (simp add: variant_lower_def jbind_def find_no_case jthrow_def)

lemma variant_lift_unknown:
  "d < 0 \<or> int (length lifts) \<le> d \<Longrightarrow>
   variant_lift valid_lifting lifts (VNum d) s =
     (if valid_lifting then (Inr VUndef, s) else (Inl (TypeErr ''invalid variant discriminant''), s))"
  by (auto simp: variant_lift_def switch_num_def jthrow_def)

section \<open>Enums and results\<close>

lemma enum_case_nth:
  "distinct names \<Longrightarrow> i < length names \<Longrightarrow> enum_case names k (VStr (names ! i)) = Inr (VNum (int (k + i)))"
proof (induction names arbitrary: i k)
  case (Cons name names)
  then show ?case by (cases i) (auto simp: in_set_conv_nth)
qed simp

lemma enum_roundtrip:
  assumes "distinct names" "i < length names"
  shows "enum_lower names (VStr (names ! i)) = Inr (VNum (int i))"
    and "enum_lift valid_lifting names (VNum (int i)) s = (Inr (VStr (names ! i)), s)"
  using assms enum_case_nth [of names i 0] by (simp_all add: enum_lower_def enum_lift_def switch_num_def)

lemma enum_lower_unknown: "\<forall>name \<in> set names. op \<noteq> VStr name \<Longrightarrow> enum_lower names op = Inl (TypeErr ''not one of the cases'')"
proof -
  assume a: "\<forall>name \<in> set names. op \<noteq> VStr name"
  have "enum_case names k op = Inl (TypeErr ''not one of the cases'')" for k
    using a by (induction names arbitrary: k) auto
  then show ?thesis by (simp add: enum_lower_def)
qed

lemma result_ok_roundtrip:
  assumes "ok e s = (Inr (VNum 0 # ops), s')" "n = Suc (length ops)" "l_ok s' = (Inr [y], s'')"
  shows "result_lower n ok err (VObj [(''tag'', VStr ''ok''), (''val'', e)]) s = (Inr (VNum 0 # ops), s')"
    and "result_lift valid_lifting True has_err l_ok l_err (VNum 0) s' = (Inr (VObj [(''tag'', VStr ''ok''), (''val'', y)]), s'')"
  using assms
  by (simp_all add: result_lower_def result_lift_def jbind_def obj_get_def first_results_def switch_num_def one_result_def Let_def)

lemma result_err_roundtrip:
  assumes "err e s = (Inr (VNum 1 # ops), s')" "n = Suc (length ops)" "l_err s' = (Inr [y], s'')"
  shows "result_lower n ok err (VObj [(''tag'', VStr ''err''), (''val'', e)]) s = (Inr (VNum 1 # ops), s')"
    and "result_lift valid_lifting has_ok True l_ok l_err (VNum 1) s' = (Inr (VObj [(''tag'', VStr ''err''), (''val'', y)]), s'')"
  using assms
  by (simp_all add: result_lower_def result_lift_def jbind_def obj_get_def first_results_def switch_num_def one_result_def Let_def)

section \<open>Options\<close>

text \<open>The values of a type built from options, and the JavaScript value that stands for each: \<open>undefined\<close>
  for none where the payload cannot be null, an object with a tag where it can.\<close>

datatype wval = NoneV | SomeV wval | BaseV val

fun has_wty :: "wit_type \<Rightarrow> wval \<Rightarrow> bool" where
  "has_wty (OptionDef t) NoneV = True"
| "has_wty (OptionDef t) (SomeV w) = has_wty t w"
| "has_wty (AliasDef t) w = has_wty t w"
| "has_wty (OptionDef t) (BaseV v) = False"
| "has_wty _ (BaseV v) = (v \<noteq> VNull \<and> v \<noteq> VUndef)"
| "has_wty _ _ = False"

fun js_rep :: "wit_type \<Rightarrow> wval \<Rightarrow> val" where
  "js_rep (OptionDef t) NoneV = (if maybe_null t then VObj [(''tag'', VStr ''none'')] else VUndef)"
| "js_rep (OptionDef t) (SomeV w) =
     (if maybe_null t then VObj [(''tag'', VStr ''some''), (''val'', js_rep t w)] else js_rep t w)"
| "js_rep (AliasDef t) w = js_rep t w"
| "js_rep _ (BaseV v) = v"
| "js_rep _ _ = VUndef"

lemma maybe_null_simps [simp]:
  "maybe_null (OptionDef t) \<longleftrightarrow> \<not> maybe_null t" "maybe_null (AliasDef t) \<longleftrightarrow> maybe_null t"
  by (auto simp: maybe_null_def)

text \<open>Where null is not allowed it is not used.\<close>

lemma rep_not_null: "has_wty t w \<Longrightarrow> \<not> maybe_null t \<Longrightarrow> js_rep t w \<noteq> VNull \<and> js_rep t w \<noteq> VUndef"
  by (induction t w rule: has_wty.induct) auto

lemma rep_inj: "has_wty t w \<Longrightarrow> has_wty t w' \<Longrightarrow> js_rep t w = js_rep t w' \<Longrightarrow> w = w'"
proof (induction t w arbitrary: w' rule: has_wty.induct)
  case (1 t)
  then show ?case using rep_not_null [of t] by (cases w') (auto split: if_splits, metis)
next
  case (2 t w)
  then show ?case using rep_not_null [of t w] by (cases w') (auto split: if_splits)
qed (auto elim: has_wty.elims)

text \<open>A nest of options lowered and lifted: a discriminant, and the flat values of the payload, which are
  zeros for none. A value of another type is its own flat value.\<close>

fun opt_flat_len :: "wit_type \<Rightarrow> nat" where
  "opt_flat_len (OptionDef t) = Suc (opt_flat_len t)"
| "opt_flat_len (AliasDef t) = opt_flat_len t"
| "opt_flat_len _ = 1"

fun opt_lower :: "wit_type \<Rightarrow> val \<Rightarrow> (val list, 's) jsop" where
  "opt_lower (OptionDef t) op =
     option_lower (maybe_null t) (Suc (opt_flat_len t)) (jret (replicate (Suc (opt_flat_len t)) (VNum 0)))
       (\<lambda>e. jbind (opt_lower t e) (\<lambda>rs. jret (VNum 1 # rs))) op"
| "opt_lower (AliasDef t) op = opt_lower t op"
| "opt_lower _ op = jret [op]"

fun opt_lift :: "bool \<Rightarrow> wit_type \<Rightarrow> val list \<Rightarrow> (val, 's) jsop" where
  "opt_lift valid (OptionDef t) ops =
     option_lift valid (maybe_null t) (jret []) (jbind (opt_lift valid t (tl ops)) (\<lambda>x. jret [x])) (hd ops)"
| "opt_lift valid (AliasDef t) ops = opt_lift valid t ops"
| "opt_lift valid _ ops = jret (hd ops)"

lemma opt_none: "option_lower (maybe_null t) n none some (js_rep (OptionDef t) NoneV) = jbind none (first_results n)"
  by (rule ext) (simp add: option_lower_def obj_get_def jbind_def)

lemma opt_some:
  "has_wty t w \<Longrightarrow> option_lower (maybe_null t) n none some (js_rep (OptionDef t) (SomeV w)) = jbind (some (js_rep t w)) (first_results n)"
  using rep_not_null [of t w] by (intro ext) (auto simp: option_lower_def obj_get_def jbind_def)

lemma opt_lower_lift:
  assumes "has_wty ty w"
  shows "\<exists>ops. length ops = opt_flat_len ty \<and> opt_lower ty (js_rep ty w) s = (Inr ops, s) \<and>
           opt_lift valid_lifting ty ops s = (Inr (js_rep ty w), s)"
  using assms
proof (induction ty w rule: has_wty.induct)
  case (1 t)
  let ?z = "replicate (Suc (opt_flat_len t)) (VNum 0)"
  have "opt_lower (OptionDef t) (js_rep (OptionDef t) NoneV) s = (Inr ?z, s)"
    unfolding opt_lower.simps opt_none by (simp add: jbind_def first_results_def)
  moreover have "opt_lift valid_lifting (OptionDef t) ?z s = (Inr (js_rep (OptionDef t) NoneV), s)"
    by (simp add: option_lift_def switch_num_def jbind_def no_result_def Let_def)
  moreover have "length ?z = opt_flat_len (OptionDef t)" by simp
  ultimately show ?case by blast
next
  case (2 t w)
  then obtain ops where ops: "length ops = opt_flat_len t" "opt_lower t (js_rep t w) s = (Inr ops, s)"
    "opt_lift valid_lifting t ops s = (Inr (js_rep t w), s)" by auto
  have "opt_lower (OptionDef t) (js_rep (OptionDef t) (SomeV w)) s = (Inr (VNum 1 # ops), s)"
    unfolding opt_lower.simps opt_some [OF 2(2) [unfolded has_wty.simps]] using ops by (simp add: jbind_def first_results_def)
  moreover have "opt_lift valid_lifting (OptionDef t) (VNum 1 # ops) s = (Inr (js_rep (OptionDef t) (SomeV w)), s)"
    using ops by (cases valid_lifting) (simp_all add: option_lift_def switch_num_def jbind_def one_result_def Let_def)
  moreover have "length (VNum 1 # ops) = opt_flat_len (OptionDef t)" using ops by simp
  ultimately show ?case by blast
qed auto

text \<open>C34. Options nested to any depth: lowering the JavaScript value of a value and lifting the result
  gives the same JavaScript value, and no two values of the type share it, so that none, some of none
  and so on are told apart although only every other level uses null.\<close>

theorem nested_options_roundtrip:
  assumes "has_wty ty w"
  shows "(\<exists>ops. length ops = opt_flat_len ty \<and> opt_lower ty (js_rep ty w) s = (Inr ops, s) \<and>
            opt_lift valid_lifting ty ops s = (Inr (js_rep ty w), s)) \<and>
         (\<forall>w'. has_wty ty w' \<longrightarrow> js_rep ty w' = js_rep ty w \<longrightarrow> w' = w)"
proof (intro conjI allI impI)
  show "\<exists>ops. length ops = opt_flat_len ty \<and> opt_lower ty (js_rep ty w) s = (Inr ops, s) \<and>
          opt_lift valid_lifting ty ops s = (Inr (js_rep ty w), s)"
    using assms by (rule opt_lower_lift)
  show "w' = w" if "has_wty ty w'" "js_rep ty w' = js_rep ty w" for w'
    using that(1) assms that(2) by (rule rep_inj)
qed

theorem nested_options_roundtrip_witness:
  "(\<exists>ops. length ops = opt_flat_len (OptionDef (OptionDef TU32)) \<and>
      opt_lower (OptionDef (OptionDef TU32)) (js_rep (OptionDef (OptionDef TU32)) (SomeV NoneV)) () = (Inr ops, ()) \<and>
      opt_lift False (OptionDef (OptionDef TU32)) ops () = (Inr (js_rep (OptionDef (OptionDef TU32)) (SomeV NoneV)), ())) \<and>
   js_rep (OptionDef (OptionDef TU32)) NoneV \<noteq> js_rep (OptionDef (OptionDef TU32)) (SomeV NoneV)"
  using nested_options_roundtrip [where ty = "OptionDef (OptionDef TU32)" and w = "SomeV NoneV" and valid_lifting = False and s = "()"]
  by (auto dest: spec [of _ NoneV])

text \<open>A variant of two cases, the first with a payload that takes one value.\<close>

theorem variant_instr_roundtrip_witness:
  "variant_lower [(''num'', True, \<lambda>e. jret [VNum 0, e]), (''nil'', False, \<lambda>_. jret [VNum 1])] 3 (variant_val ''num'' True (VNum 7)) () =
     (Inr (VNum (int 0) # [VNum 7] @ replicate (3 - Suc (length [VNum 7])) VUndef), ()) \<and>
   variant_lift False [(''num'', True, jret [VNum 7]), (''nil'', False, jret [])] (VNum (int 0)) () =
     (Inr (variant_val ''num'' True (VNum 7)), ())"
  by (rule variant_instr_roundtrip [where li = "jret [VNum 7]" and lo = "\<lambda>e. jret [VNum 0, e]"]) simp_all

end
