(* ===== verification/Ts_Types.thy ===== *)
theory Ts_Types
  imports Emit_Source Func_Cases
begin

text \<open>
  The TypeScript types that are printed for WIT types (\<open>print_ty\<close> and the functions it calls in
  \<open>src/crates/js-component-bindgen/src/ts_bindgen.rs\<close>, and \<open>as_nullable\<close>, \<open>maybe_null\<close> and \<open>js_array_ty\<close> of
  \<open>function_bindgen.rs\<close> on the full type language), and the text that is printed.

  A type definition of \<open>wit-parser\<close> is written in the place of its identifier: definitions have no cycles. The
  conversions between letter cases (\<open>heck\<close>) are parameters.
\<close>

section \<open>Types\<close>

type_synonym docs = "string option"

datatype owner = OwnerWorld nat | OwnerInterface nat | OwnerNone

datatype wtype =
    WBool | WU8 | WS8 | WU16 | WS16 | WU32 | WS32 | WU64 | WS64 | WF32 | WF64 | WChar | WString | WErrorContext
  | WId tdef
and tdef = TDef (def_name: "string option") (def_owner: owner) (def_docs: docs) (def_kind: tkind)
and tkind =
    KRecord "(string \<times> docs \<times> wtype) list" | KResource | KHandle "string option" | KFlags "(string \<times> docs) list"
  | KTuple "wtype list" | KVariant "(string \<times> docs \<times> wtype option) list" | KEnum "(string \<times> docs) list"
  | KOption wtype | KResult "wtype option" "wtype option" | KList wtype | KMap wtype wtype | KFixedList wtype nat
  | KFuture "wtype option" | KStream "wtype option" | KType wtype | KUnknown

record heck =
  upper_camel :: "string \<Rightarrow> string"
  lower_camel :: "string \<Rightarrow> string"
  kebab :: "string \<Rightarrow> string"

fun nullable_ty :: "wtype \<Rightarrow> wtype option" where
  "nullable_ty (WId (TDef _ _ _ (KOption t))) = (if nullable_ty t = None then Some t else None)"
| "nullable_ty (WId (TDef _ _ _ (KType t))) = nullable_ty t"
| "nullable_ty _ = None"

definition ty_maybe_null :: "wtype \<Rightarrow> bool" where
  "ty_maybe_null ty = (nullable_ty ty \<noteq> None)"

fun array_ty :: "wtype \<Rightarrow> string option" where
  "array_ty WU8 = Some ''Uint8Array''"
| "array_ty WS8 = Some ''Int8Array''"
| "array_ty WU16 = Some ''Uint16Array''"
| "array_ty WS16 = Some ''Int16Array''"
| "array_ty WU32 = Some ''Uint32Array''"
| "array_ty WS32 = Some ''Int32Array''"
| "array_ty WU64 = Some ''BigUint64Array''"
| "array_ty WS64 = Some ''BigInt64Array''"
| "array_ty WF32 = Some ''Float32Array''"
| "array_ty WF64 = Some ''Float64Array''"
| "array_ty (WId (TDef _ _ _ (KType t))) = array_ty t"
| "array_ty _ = None"

fun dealias :: "tdef \<Rightarrow> tdef" where
  "dealias (TDef n ow dc (KType (WId d))) = dealias d"
| "dealias d = d"

text \<open>The result type of a function that throws its error.\<close>

fun get_thrown_type :: "wtype option \<Rightarrow> (wtype option \<times> wtype option) option" where
  "get_thrown_type (Some (WId (TDef _ _ _ (KResult ok err)))) = Some (ok, err)"
| "get_thrown_type _ = None"

section \<open>Printing\<close>

text \<open>The part of \<open>TsInterface\<close> that printing a type changes.\<close>

record ts_out =
  ts_src :: source
  needs_ty_option :: bool
  needs_ty_result :: bool

definition ts_push :: "string \<Rightarrow> 'a ts_out_scheme \<Rightarrow> 'a ts_out_scheme" where
  "ts_push s out = out\<lparr>ts_src := push_str s (ts_src out)\<rparr>"

primrec repeat_rust :: "nat \<Rightarrow> ('s \<Rightarrow> 's rust) \<Rightarrow> 's \<Rightarrow> 's rust" where
  "repeat_rust 0 f s = Inr s"
| "repeat_rust (Suc n) f s = rbind (f s) (repeat_rust n f)"

fun print_ty :: "heck \<Rightarrow> wtype \<Rightarrow> 'a ts_out_scheme \<Rightarrow> 'a ts_out_scheme rust"
  and print_kind :: "heck \<Rightarrow> tkind \<Rightarrow> 'a ts_out_scheme \<Rightarrow> 'a ts_out_scheme rust"
  and print_optional_ty :: "heck \<Rightarrow> wtype option \<Rightarrow> 'a ts_out_scheme \<Rightarrow> 'a ts_out_scheme rust"
  and print_elems :: "heck \<Rightarrow> bool \<Rightarrow> wtype list \<Rightarrow> 'a ts_out_scheme \<Rightarrow> 'a ts_out_scheme rust" where
  "print_ty hk WBool out = Inr (ts_push ''boolean'' out)"
| "print_ty hk WU8 out = Inr (ts_push ''number'' out)"
| "print_ty hk WS8 out = Inr (ts_push ''number'' out)"
| "print_ty hk WU16 out = Inr (ts_push ''number'' out)"
| "print_ty hk WS16 out = Inr (ts_push ''number'' out)"
| "print_ty hk WU32 out = Inr (ts_push ''number'' out)"
| "print_ty hk WS32 out = Inr (ts_push ''number'' out)"
| "print_ty hk WF32 out = Inr (ts_push ''number'' out)"
| "print_ty hk WF64 out = Inr (ts_push ''number'' out)"
| "print_ty hk WU64 out = Inr (ts_push ''bigint'' out)"
| "print_ty hk WS64 out = Inr (ts_push ''bigint'' out)"
| "print_ty hk WChar out = Inr (ts_push ''string'' out)"
| "print_ty hk WString out = Inr (ts_push ''string'' out)"
| "print_ty hk WErrorContext out = Inr (ts_push ''number'' out)"
| "print_ty hk (WId (TDef (Some name) _ _ _)) out = Inr (ts_push (upper_camel hk name) out)"
| "print_ty hk (WId (TDef None _ _ k)) out = print_kind hk k out"
| "print_kind hk (KType t) out = print_ty hk t out"
| "print_kind hk (KTuple ts) out =
     rbind (print_elems hk True ts (ts_push ''['' out)) (\<lambda>out. Inr (ts_push '']'' out))"
| "print_kind hk (KRecord _) out = Inl (Panic ''anonymous record'')"
| "print_kind hk (KFlags _) out = Inl (Panic ''anonymous flags'')"
| "print_kind hk (KEnum _) out = Inl (Panic ''anonymous enum'')"
| "print_kind hk (KOption t) out =
     (if ty_maybe_null t
      then rbind (print_ty hk t (ts_push ''Option<'' (out\<lparr>needs_ty_option := True\<rparr>))) (\<lambda>out. Inr (ts_push ''>'' out))
      else rbind (print_ty hk t out) (\<lambda>out. Inr (ts_push '' | undefined'' out)))"
| "print_kind hk (KResult ok err) out =
     rbind (print_optional_ty hk ok (ts_push ''Result<'' (out\<lparr>needs_ty_result := True\<rparr>))) (\<lambda>out.
     rbind (print_optional_ty hk err (ts_push '', '' out)) (\<lambda>out. Inr (ts_push ''>'' out)))"
| "print_kind hk (KVariant _) out = Inl (Panic ''anonymous variant'')"
| "print_kind hk (KList t) out =
     (case array_ty t of
        Some a \<Rightarrow> Inr (ts_push a out)
      | None \<Rightarrow> rbind (print_ty hk t (ts_push ''Array<'' out)) (\<lambda>out. Inr (ts_push ''>'' out)))"
| "print_kind hk (KFixedList t len) out =
     (if len = 0 then Inl (Panic ''attempt to subtract with overflow'')
      else rbind (repeat_rust (len - 1) (\<lambda>out. rbind (print_ty hk t out) (\<lambda>out. Inr (ts_push '','' out))) (ts_push ''['' out)) (\<lambda>out.
           rbind (print_ty hk t out) (\<lambda>out. Inr (ts_push '']'' out))))"
| "print_kind hk (KFuture t) out =
     rbind (print_optional_ty hk t (ts_push ''PromiseLike<'' out)) (\<lambda>out. Inr (ts_push ''>'' out))"
| "print_kind hk (KStream t) out =
     rbind (print_optional_ty hk t (ts_push ''AsyncIterable<'' out)) (\<lambda>out. Inr (ts_push ''>'' out))"
| "print_kind hk KUnknown out = Inl (Panic ''unexpectedly unknown type def'')"
| "print_kind hk KResource out = Inl (Panic ''[print_ty()] resource'')"
| "print_kind hk (KHandle rsc) out =
     (case rsc of Some name \<Rightarrow> Inr (ts_push (upper_camel hk name) out) | None \<Rightarrow> Inl (Panic ''anonymous resource handle''))"
| "print_kind hk (KMap k v) out =
     rbind (print_ty hk k (ts_push ''Map<'' out)) (\<lambda>out.
     rbind (print_ty hk v (ts_push '', '' out)) (\<lambda>out. Inr (ts_push ''>'' out)))"
| "print_optional_ty hk None out = Inr (ts_push ''void'' out)"
| "print_optional_ty hk (Some t) out = print_ty hk t out"
| "print_elems hk first [] out = Inr out"
| "print_elems hk first (t # ts) out =
     rbind (print_ty hk t (if first then out else ts_push '', '' out)) (\<lambda>out. print_elems hk False ts out)"

section \<open>TypeScript types\<close>

datatype tst =
    TsNamed string | TsBoolean | TsNumber | TsBigint | TsString | TsVoid
  | TsOrUndefined tst | TsOption tst | TsResult tst tst | TsPromiseLike tst | TsAsyncIterable tst
  | TsTypedArray string | TsArray tst | TsMap tst tst | TsTuple "tst list" | TsFixed nat tst

fun ts_of :: "heck \<Rightarrow> wtype \<Rightarrow> tst rust"
  and ts_of_kind :: "heck \<Rightarrow> tkind \<Rightarrow> tst rust"
  and ts_of_opt :: "heck \<Rightarrow> wtype option \<Rightarrow> tst rust"
  and ts_of_list :: "heck \<Rightarrow> wtype list \<Rightarrow> tst list rust" where
  "ts_of hk WBool = Inr TsBoolean"
| "ts_of hk WU64 = Inr TsBigint"
| "ts_of hk WS64 = Inr TsBigint"
| "ts_of hk WChar = Inr TsString"
| "ts_of hk WString = Inr TsString"
| "ts_of hk (WId (TDef (Some name) _ _ _)) = Inr (TsNamed (upper_camel hk name))"
| "ts_of hk (WId (TDef None _ _ k)) = ts_of_kind hk k"
| "ts_of hk _ = Inr TsNumber"
| "ts_of_kind hk (KType t) = ts_of hk t"
| "ts_of_kind hk (KTuple ts) = rbind (ts_of_list hk ts) (\<lambda>xs. Inr (TsTuple xs))"
| "ts_of_kind hk (KRecord _) = Inl (Panic ''anonymous record'')"
| "ts_of_kind hk (KFlags _) = Inl (Panic ''anonymous flags'')"
| "ts_of_kind hk (KEnum _) = Inl (Panic ''anonymous enum'')"
| "ts_of_kind hk (KOption t) = rbind (ts_of hk t) (\<lambda>x. Inr (if ty_maybe_null t then TsOption x else TsOrUndefined x))"
| "ts_of_kind hk (KResult ok err) = rbind (ts_of_opt hk ok) (\<lambda>x. rbind (ts_of_opt hk err) (\<lambda>y. Inr (TsResult x y)))"
| "ts_of_kind hk (KVariant _) = Inl (Panic ''anonymous variant'')"
| "ts_of_kind hk (KList t) = (case array_ty t of Some a \<Rightarrow> Inr (TsTypedArray a) | None \<Rightarrow> rbind (ts_of hk t) (\<lambda>x. Inr (TsArray x)))"
| "ts_of_kind hk (KFixedList t len) =
     (if len = 0 then Inl (Panic ''attempt to subtract with overflow'') else rbind (ts_of hk t) (\<lambda>x. Inr (TsFixed len x)))"
| "ts_of_kind hk (KFuture t) = rbind (ts_of_opt hk t) (\<lambda>x. Inr (TsPromiseLike x))"
| "ts_of_kind hk (KStream t) = rbind (ts_of_opt hk t) (\<lambda>x. Inr (TsAsyncIterable x))"
| "ts_of_kind hk KUnknown = Inl (Panic ''unexpectedly unknown type def'')"
| "ts_of_kind hk KResource = Inl (Panic ''[print_ty()] resource'')"
| "ts_of_kind hk (KHandle rsc) =
     (case rsc of Some name \<Rightarrow> Inr (TsNamed (upper_camel hk name)) | None \<Rightarrow> Inl (Panic ''anonymous resource handle''))"
| "ts_of_kind hk (KMap k v) = rbind (ts_of hk k) (\<lambda>x. rbind (ts_of hk v) (\<lambda>y. Inr (TsMap x y)))"
| "ts_of_opt hk None = Inr TsVoid"
| "ts_of_opt hk (Some t) = ts_of hk t"
| "ts_of_list hk [] = Inr []"
| "ts_of_list hk (t # ts) = rbind (ts_of hk t) (\<lambda>x. rbind (ts_of_list hk ts) (\<lambda>xs. Inr (x # xs)))"

primrec joined_with :: "string \<Rightarrow> string list \<Rightarrow> string" where
  "joined_with sp [] = []"
| "joined_with sp (x # xs) = x @ (if xs = [] then [] else sp @ joined_with sp xs)"

fun show_ts :: "tst \<Rightarrow> string" where
  "show_ts (TsNamed n) = n"
| "show_ts TsBoolean = ''boolean''"
| "show_ts TsNumber = ''number''"
| "show_ts TsBigint = ''bigint''"
| "show_ts TsString = ''string''"
| "show_ts TsVoid = ''void''"
| "show_ts (TsOrUndefined t) = show_ts t @ '' | undefined''"
| "show_ts (TsOption t) = ''Option<'' @ show_ts t @ ''>''"
| "show_ts (TsResult t u) = ''Result<'' @ show_ts t @ '', '' @ show_ts u @ ''>''"
| "show_ts (TsPromiseLike t) = ''PromiseLike<'' @ show_ts t @ ''>''"
| "show_ts (TsAsyncIterable t) = ''AsyncIterable<'' @ show_ts t @ ''>''"
| "show_ts (TsTypedArray a) = a"
| "show_ts (TsArray t) = ''Array<'' @ show_ts t @ ''>''"
| "show_ts (TsMap t u) = ''Map<'' @ show_ts t @ '', '' @ show_ts u @ ''>''"
| "show_ts (TsTuple ts) = ''['' @ joined_with '', '' (map show_ts ts) @ '']''"
| "show_ts (TsFixed n t) = ''['' @ joined_with '','' (replicate n (show_ts t)) @ '']''"

fun uses_option :: "tst \<Rightarrow> bool" where
  "uses_option (TsOrUndefined t) = uses_option t"
| "uses_option (TsOption t) = True"
| "uses_option (TsResult t u) = (uses_option t \<or> uses_option u)"
| "uses_option (TsPromiseLike t) = uses_option t"
| "uses_option (TsAsyncIterable t) = uses_option t"
| "uses_option (TsArray t) = uses_option t"
| "uses_option (TsMap t u) = (uses_option t \<or> uses_option u)"
| "uses_option (TsTuple ts) = (\<exists>t \<in> set ts. uses_option t)"
| "uses_option (TsFixed n t) = uses_option t"
| "uses_option _ = False"

fun uses_result :: "tst \<Rightarrow> bool" where
  "uses_result (TsOrUndefined t) = uses_result t"
| "uses_result (TsOption t) = uses_result t"
| "uses_result (TsResult t u) = True"
| "uses_result (TsPromiseLike t) = uses_result t"
| "uses_result (TsAsyncIterable t) = uses_result t"
| "uses_result (TsArray t) = uses_result t"
| "uses_result (TsMap t u) = (uses_result t \<or> uses_result u)"
| "uses_result (TsTuple ts) = (\<exists>t \<in> set ts. uses_result t)"
| "uses_result (TsFixed n t) = uses_result t"
| "uses_result _ = False"

section \<open>The printed text\<close>

text \<open>The names that \<open>heck\<close> makes have no braces and no line ends: it drops everything but letters and digits.\<close>

definition names_plain :: "heck \<Rightarrow> bool" where
  "names_plain hk = (\<forall>s. plain (upper_camel hk s))"

definition ts_add :: "string \<Rightarrow> bool \<Rightarrow> bool \<Rightarrow> 'a ts_out_scheme \<Rightarrow> 'a ts_out_scheme" where
  "ts_add s uo ur out = out\<lparr>ts_src := (ts_src out)\<lparr>src_text := src_text (ts_src out) @ s\<rparr>,
     needs_ty_option := needs_ty_option out \<or> uo, needs_ty_result := needs_ty_result out \<or> ur\<rparr>"

lemma ts_add_add: "ts_add s2 o2 r2 (ts_add s1 o1 r1 out) = ts_add (s1 @ s2) (o1 \<or> o2) (r1 \<or> r2) out"
  by (simp add: ts_add_def disj_assoc)

lemma ts_push_plain: "plain p \<Longrightarrow> ts_push p out = ts_add p False False out"
  by (simp add: ts_push_def ts_add_def push_plain)

lemma ts_flags: "out\<lparr>needs_ty_option := True\<rparr> = ts_add [] True False out" "out\<lparr>needs_ty_result := True\<rparr> = ts_add [] False True out"
  by (simp_all add: ts_add_def)

lemma ts_add_nothing [simp]: "ts_add [] False False out = out"
  by (simp add: ts_add_def)

lemma plain_words:
  "plain ''boolean''" "plain ''number''" "plain ''bigint''" "plain ''string''" "plain ''void''" "plain '' | undefined''"
  "plain ''Option<''" "plain ''Result<''" "plain ''PromiseLike<''" "plain ''AsyncIterable<''" "plain ''Array<''" "plain ''Map<''"
  "plain ''>''" "plain '', ''" "plain '',''" "plain ''[''" "plain '']''"
  by (rule plainI; simp)+

lemma plain_array: "array_ty ty = Some a \<Longrightarrow> plain a"
  by (induction ty rule: array_ty.induct) (auto intro!: plainI)

definition printed :: "tst \<Rightarrow> 'a ts_out_scheme \<Rightarrow> 'a ts_out_scheme" where
  "printed t out = ts_add (show_ts t) (uses_option t) (uses_result t) out"

lemma repeat_add:
  "repeat_rust n (\<lambda>out. Inr (ts_add s uo ur out)) out = Inr (ts_add (concat (replicate n s)) (0 < n \<and> uo) (0 < n \<and> ur) out)"
proof (induction n arbitrary: out)
  case (Suc n)
  have "(uo \<or> 0 < n \<and> uo) = uo" "(ur \<or> 0 < n \<and> ur) = ur" by blast+
  then show ?case by (simp add: Suc.IH ts_add_add)
qed (simp add: ts_add_def)

lemma repeat_ty:
  "repeat_rust n (\<lambda>out. rbind m (\<lambda>a. Inr (ts_add (s a) (uo a) (ur a) out))) out =
     (if n = 0 then Inr out else rbind m (\<lambda>a. Inr (ts_add (concat (replicate n (s a))) (uo a) (ur a) out)))"
proof (cases m)
  case (Inl e)
  then show ?thesis by (cases n) simp_all
next
  case (Inr a)
  with Inr show ?thesis by (cases "n = 0") (simp_all add: repeat_add)
qed

lemma joined_replicate: "0 < n \<Longrightarrow> joined_with sp (replicate n x) = concat (replicate (n - 1) (x @ sp)) @ x"
proof (induction n)
  case (Suc n)
  then show ?case by (cases n) auto
qed simp

lemma rbind_twice: "rbind m (\<lambda>a. rbind m (f a)) = rbind m (\<lambda>a. f a a)"
  by (cases m) simp_all

lemma print_ty_text:
  assumes "names_plain hk"
  shows "(\<forall>out. print_ty hk ty (out :: 'a ts_out_scheme) = rbind (ts_of hk ty) (\<lambda>t. Inr (printed t out)))"
    and "(\<forall>out. print_kind hk k (out :: 'a ts_out_scheme) = rbind (ts_of_kind hk k) (\<lambda>t. Inr (printed t out)))"
    and "(\<forall>out. print_optional_ty hk o' (out :: 'a ts_out_scheme) = rbind (ts_of_opt hk o') (\<lambda>t. Inr (printed t out)))"
    and "(\<forall>out first. print_elems hk first l (out :: 'a ts_out_scheme) = rbind (ts_of_list hk l) (\<lambda>xs.
           Inr (ts_add ((if first \<or> xs = [] then [] else '', '') @ joined_with '', '' (map show_ts xs))
             (\<exists>t \<in> set xs. uses_option t) (\<exists>t \<in> set xs. uses_result t) out)))"
  using assms
proof (induction hk ty and hk k and hk o' and hk l rule: ts_of_ts_of_kind_ts_of_opt_ts_of_list.induct)
  case (15 hk ok err)
  then show ?case by (cases "ts_of_opt hk ok") (simp_all add: rbind_assoc printed_def ts_push_plain plain_words ts_flags ts_add_add)
next
  case (17 hk t)
  then show ?case by (cases "array_ty t") (simp_all add: rbind_assoc printed_def ts_push_plain plain_words plain_array ts_add_add)
next
  case (24 hk k v)
  then show ?case by (cases "ts_of hk k") (simp_all add: rbind_assoc printed_def ts_push_plain plain_words ts_add_add)
next
  case (28 hk t ts)
  then show ?case
    by (cases "ts_of hk t"; cases "ts_of_list hk ts") (auto simp: rbind_assoc printed_def ts_push_plain plain_words ts_add_add)
next
  case (18 hk t)
  then show ?case
    by (auto simp: rbind_assoc printed_def ts_push_plain plain_words ts_add_add repeat_ty joined_replicate rbind_twice)
qed (simp_all add: rbind_assoc printed_def ts_push_plain plain_words ts_flags ts_add_add names_plain_def split: option.split)

lemma print_ty_eq: "names_plain hk \<Longrightarrow> print_ty hk ty out = rbind (ts_of hk ty) (\<lambda>t. Inr (printed t out))"
  by (simp add: print_ty_text(1))

lemma print_optional_eq: "names_plain hk \<Longrightarrow> print_optional_ty hk ty out = rbind (ts_of_opt hk ty) (\<lambda>t. Inr (printed t out))"
  by (simp add: print_ty_text(3))

end
