(* ===== verification/Ts_Bindgen.thy ===== *)
theory Ts_Bindgen
  imports Ts_Types
begin

text \<open>
  The TypeScript declarations (\<open>src/crates/js-component-bindgen/src/ts_bindgen.rs\<close>): \<open>TsInterface\<close>, which prints the
  functions and types of one interface, and \<open>TsBindgen\<close>, which writes the files of the interfaces and the main
  file of a world. What the resolver of \<open>wit-parser\<close> answers for an interface or a function is part of their
  records; the letter cases (\<open>heck\<close>) and the hash of unique ids are parameters. The interface of a resource
  has no resources of its own.
\<close>

section \<open>Gates and async functions\<close>

datatype 'v stability = StabilityUnknown | Stable 'v | Unstable string

record 'v package_ctx =
  version_le :: "'v \<Rightarrow> 'v \<Rightarrow> bool"
  package_version :: "'v option"
  all_features :: bool
  features :: "string list"

definition feature_gate_allowed :: "'v package_ctx \<Rightarrow> 'v stability \<Rightarrow> bool rust" where
  "feature_gate_allowed pc st =
     (case st of
        StabilityUnknown \<Rightarrow> Inr True
      | Stable since \<Rightarrow>
          (case package_version pc of
             None \<Rightarrow> Inr True
           | Some v \<Rightarrow> if version_le pc since v then Inr True
                       else Inl (Bail ''feature gate refers to an unreleased (future) package version''))
      | Unstable feature \<Rightarrow> Inr (all_features pc \<or> feature \<in> set (features pc)))"

fun trim_prefixes :: "string \<Rightarrow> string \<Rightarrow> string" where
  "trim_prefixes pre s =
     (if pre \<noteq> [] \<and> take (length pre) s = pre \<and> s \<noteq> [] then trim_prefixes pre (drop (length pre) s) else s)"

declare trim_prefixes.simps [simp del]

definition requires_async_porcelain :: "string \<Rightarrow> string \<Rightarrow> string list \<Rightarrow> bool" where
  "requires_async_porcelain func_name ident async_funcs =
     (let name = trim_prefixes ''[async]'' func_name in
      name \<in> set async_funcs \<or> ident @ ''#'' @ name \<in> set async_funcs \<or>
      (CHR ''@'' \<in> set ident \<and> takeWhile (\<lambda>c. c \<noteq> CHR ''@'') ident @ ''#'' @ name \<in> set async_funcs))"

section \<open>Functions\<close>

text \<open>The resource of a method is given by its name.\<close>

datatype func_kind =
    Freestanding | AsyncFreestanding | Method string | AsyncMethod string | Static string | AsyncStatic string | Constructor string

record 'v ts_function =
  fn_name :: string
  fn_item_name :: string
  fn_kind :: func_kind
  fn_params :: "(string \<times> wtype) list"
  fn_result :: "wtype option"
  fn_docs :: docs
  fn_stability :: "'v stability"

record ts_resource = ts_out +
  rs_has_constructor :: bool

record ts_iface = ts_out +
  is_root :: bool
  is_guest :: bool
  if_has_constructor :: bool
  needs_module_end :: bool
  if_local_names :: local_names
  resources :: "(string \<times> bool \<times> ts_resource) list"
  references :: "string list"

definition ts_iface_new :: "bool \<Rightarrow> bool \<Rightarrow> ts_iface" where
  "ts_iface_new root guest = \<lparr>ts_src = source_default, needs_ty_option = False, needs_ty_result = False, is_root = root,
     is_guest = guest, if_has_constructor = False, needs_module_end = False, if_local_names = local_names_default,
     resources = [], references = []\<rparr>"

definition ts_resource_new :: ts_resource where
  "ts_resource_new = \<lparr>ts_src = source_default, needs_ty_option = False, needs_ty_result = False, rs_has_constructor = False\<rparr>"

definition ts_write :: "string list \<Rightarrow> 'a ts_out_scheme \<Rightarrow> 'a ts_out_scheme" where
  "ts_write parts out = fold ts_push parts out"

definition docs_raw :: "string \<Rightarrow> 'a ts_out_scheme \<Rightarrow> 'a ts_out_scheme" where
  "docs_raw d out =
     ts_push ('' */'' @ [NL]) (fold (\<lambda>line. ts_push ('' * '' @ line @ [NL])) (str_lines d) (ts_push (''/**'' @ [NL]) out))"

definition print_docs :: "docs \<Rightarrow> 'a ts_out_scheme \<Rightarrow> 'a ts_out_scheme" where
  "print_docs d out = (case d of Some s \<Rightarrow> docs_raw s out | None \<Rightarrow> out)"

definition out_name :: "heck \<Rightarrow> bool \<Rightarrow> 'v ts_function \<Rightarrow> string" where
  "out_name hk dflt f = (if dflt then ''default'' else lower_camel hk (fn_item_name f))"

definition quoted_name :: "string \<Rightarrow> string" where
  "quoted_name name = (if is_valid_js_identifier name then name else [CHR 0x27] @ name @ [CHR 0x27])"

text \<open>A freestanding function whose name is no identifier is declared under a local name and exported under its own.\<close>

definition freestanding_head :: "heck \<Rightarrow> (string \<Rightarrow> nat) \<Rightarrow> string \<Rightarrow> local_names \<Rightarrow> (string list \<times> local_names) rust" where
  "freestanding_head hk hash name ln =
     (if is_valid_js_identifier name then Inr ([''export function '' @ name], ln)
      else rbind (get_or_create (lower_camel hk) (hash name) name ln) (\<lambda>((l, _), ln').
        Inr ([''export { '' @ l @ '' as '' @ name @ '' };'' @ [NL], ''function '' @ l], ln')))"

text \<open>What is written before the parameters, with the local names of the interface.\<close>

definition func_head ::
    "heck \<Rightarrow> (string \<Rightarrow> nat) \<Rightarrow> bool \<Rightarrow> bool \<Rightarrow> 'v ts_function \<Rightarrow> local_names \<Rightarrow> (string list \<times> local_names) rust" where
  "func_head hk hash dflt declaration f ln =
     (let name = out_name hk dflt f in
      if declaration then
        (case fn_kind f of
           Freestanding \<Rightarrow> freestanding_head hk hash name ln
         | AsyncFreestanding \<Rightarrow> freestanding_head hk hash name ln
         | Constructor _ \<Rightarrow> Inr ([''constructor''], ln)
         | Static _ \<Rightarrow> Inr ([''static '' @ quoted_name name], ln)
         | AsyncStatic _ \<Rightarrow> Inr ([''static '' @ quoted_name name], ln)
         | Method _ \<Rightarrow> Inr ([quoted_name name], ln)
         | AsyncMethod _ \<Rightarrow> Inr ([quoted_name name], ln))
      else Inr ([quoted_name name], ln))"

definition param_start :: "func_kind \<Rightarrow> nat" where
  "param_start k = (case k of Method _ \<Rightarrow> 1 | AsyncMethod _ \<Rightarrow> 1 | _ \<Rightarrow> 0)"

definition param_name :: "heck \<Rightarrow> string \<Rightarrow> string" where
  "param_name hk n = (let name = lower_camel hk n in if binary_search_ok RESERVED_KEYWORDS name then name @ ''_'' else name)"

primrec print_params :: "heck \<Rightarrow> bool \<Rightarrow> (string \<times> wtype) list \<Rightarrow> 'a ts_out_scheme \<Rightarrow> 'a ts_out_scheme rust" where
  "print_params hk first [] out = Inr out"
| "print_params hk first (p # ps) out =
     rbind (print_ty hk (snd p) (ts_push '': '' (ts_push (param_name hk (fst p)) (if first then out else ts_push '', '' out))))
       (print_params hk False ps)"

definition is_async_kind :: "func_kind \<Rightarrow> bool" where
  "is_async_kind k = (case k of AsyncFreestanding \<Rightarrow> True | AsyncMethod _ \<Rightarrow> True | AsyncStatic _ \<Rightarrow> True | _ \<Rightarrow> False)"

definition print_result :: "heck \<Rightarrow> wtype option \<Rightarrow> 'a ts_out_scheme \<Rightarrow> 'a ts_out_scheme rust" where
  "print_result hk res out =
     (case get_thrown_type res of
        Some (ok_ty, _) \<Rightarrow> print_optional_ty hk ok_ty out
      | None \<Rightarrow> (case res of None \<Rightarrow> Inr (ts_push ''void'' out) | Some ty \<Rightarrow> print_ty hk ty out))"

text \<open>The function from its opening parenthesis.\<close>

definition func_tail :: "heck \<Rightarrow> bool \<Rightarrow> bool \<Rightarrow> 'v ts_function \<Rightarrow> 'a ts_out_scheme \<Rightarrow> 'a ts_out_scheme rust" where
  "func_tail hk declaration porcelain f out =
     (let k = fn_kind f; wrap = (porcelain \<or> is_async_kind k) in
      if param_start k > length (fn_params f) then Inl (Panic ''slice index'')
      else rbind (print_params hk True (drop (param_start k) (fn_params f)) (ts_push ''('' out)) (\<lambda>out.
        let out = ts_push '')'' out in
        case k of
          Constructor _ \<Rightarrow> Inr (ts_push [NL] out)
        | _ \<Rightarrow>
            rbind (print_result hk (fn_result f) (let out = ts_push '': '' out in if wrap then ts_push ''Promise<'' out else out)) (\<lambda>out.
              Inr (ts_push ((if declaration then '';'' else '','') @ [NL]) (if wrap then ts_push ''>'' out else out)))))"

definition resource_of :: "func_kind \<Rightarrow> string option" where
  "resource_of k =
     (case k of Method r \<Rightarrow> Some r | AsyncMethod r \<Rightarrow> Some r | Static r \<Rightarrow> Some r | AsyncStatic r \<Rightarrow> Some r
      | Constructor r \<Rightarrow> Some r | _ \<Rightarrow> None)"

definition resource_entry :: "bool \<Rightarrow> string \<Rightarrow> ts_iface \<Rightarrow> bool \<times> ts_resource" where
  "resource_entry meta r s = (case map_of (resources s) r of Some e \<Rightarrow> e | None \<Rightarrow> (meta, ts_resource_new))"

text \<open>\<open>ts_func\<close>: the function is written to the interface, or to that of its resource.\<close>

definition ts_func ::
    "heck \<Rightarrow> (string \<Rightarrow> nat) \<Rightarrow> 'v ts_function \<Rightarrow> bool \<Rightarrow> bool \<Rightarrow> bool \<Rightarrow> bool \<Rightarrow> ts_iface \<Rightarrow> ts_iface rust" where
  "ts_func hk hash f dflt declaration porcelain meta s =
     rbind (func_head hk hash dflt declaration f (if_local_names s)) (\<lambda>(head, ln).
       case resource_of (fn_kind f) of
         None \<Rightarrow>
           func_tail hk declaration porcelain f (ts_write head (print_docs (fn_docs f) (s\<lparr>if_local_names := ln\<rparr>)))
       | Some r \<Rightarrow>
           (case resource_entry meta r s of
              (m, rs) \<Rightarrow>
                let rs = print_docs (fn_docs f) rs;
                    rs = (case fn_kind f of Constructor _ \<Rightarrow> if declaration then rs\<lparr>rs_has_constructor := True\<rparr> else rs | _ \<Rightarrow> rs) in
                rbind (func_tail hk declaration porcelain f (ts_write head rs)) (\<lambda>rs.
                  Inr (s\<lparr>resources := bt_put r (m, rs) (resources s)\<rparr>))))"

section \<open>Types\<close>

primrec print_fields :: "heck \<Rightarrow> (string \<times> docs \<times> wtype) list \<Rightarrow> 'a ts_out_scheme \<Rightarrow> 'a ts_out_scheme rust" where
  "print_fields hk [] out = Inr out"
| "print_fields hk (f # fs) out =
     (case f of (name, d, ty) \<Rightarrow>
        (let (opt, ty') = (case nullable_ty ty of Some t \<Rightarrow> (''?'', t) | None \<Rightarrow> ([], ty)) in
         rbind (print_ty hk ty' (ts_push (maybe_quote_id (lower_camel hk name) @ opt @ '': '') (print_docs d out))) (\<lambda>out.
           print_fields hk fs (ts_push ('','' @ [NL]) out))))"

definition type_record :: "heck \<Rightarrow> string \<Rightarrow> (string \<times> docs \<times> wtype) list \<Rightarrow> docs \<Rightarrow> 'a ts_out_scheme \<Rightarrow> 'a ts_out_scheme rust" where
  "type_record hk name fds d out =
     rbind (print_fields hk fds (ts_push (''export interface '' @ upper_camel hk name @ '' {'' @ [NL]) (print_docs d out)))
       (\<lambda>out. Inr (ts_push (''}'' @ [NL]) out))"

definition type_flags :: "heck \<Rightarrow> string \<Rightarrow> (string \<times> docs) list \<Rightarrow> docs \<Rightarrow> 'a ts_out_scheme \<Rightarrow> 'a ts_out_scheme" where
  "type_flags hk name flags d out =
     ts_push (''}'' @ [NL]) (fold (\<lambda>(f, fd) out. ts_push (lower_camel hk f @ ''?: boolean,'' @ [NL]) (print_docs fd out)) flags
       (ts_push (''export interface '' @ upper_camel hk name @ '' {'' @ [NL]) (print_docs d out)))"

definition case_type_name :: "heck \<Rightarrow> string \<Rightarrow> string \<Rightarrow> string" where
  "case_type_name hk name c = upper_camel hk (name @ ''_'' @ c)"

primrec print_case_names :: "heck \<Rightarrow> string \<Rightarrow> bool \<Rightarrow> (string \<times> docs \<times> wtype option) list \<Rightarrow> 'a ts_out_scheme \<Rightarrow> 'a ts_out_scheme" where
  "print_case_names hk name first [] out = out"
| "print_case_names hk name first (c # cs) out =
     print_case_names hk name False cs (ts_push (case_type_name hk name (fst c)) (if first then out else ts_push '' | '' out))"

primrec case_decls :: "heck \<Rightarrow> string \<Rightarrow> (string \<times> docs \<times> wtype option) list \<Rightarrow> 'a ts_out_scheme \<Rightarrow> 'a ts_out_scheme rust" where
  "case_decls hk name [] out = Inr out"
| "case_decls hk name (c # cs) out =
     (case c of (cn, d, ty) \<Rightarrow>
        (let out = ts_push (''export interface '' @ case_type_name hk name cn @ '' {'' @ [NL]) (print_docs d out);
             out = ts_push ([CHR 0x27] @ '','' @ [NL]) (ts_push cn (ts_push (''tag: '' @ [CHR 0x27]) out)) in
         rbind (case ty of
                  None \<Rightarrow> Inr out
                | Some ty \<Rightarrow> rbind (print_ty hk ty (ts_push ''val: '' out)) (\<lambda>out. Inr (ts_push ('','' @ [NL]) out)))
           (\<lambda>out. case_decls hk name cs (ts_push (''}'' @ [NL]) out))))"

definition type_variant :: "heck \<Rightarrow> string \<Rightarrow> (string \<times> docs \<times> wtype option) list \<Rightarrow> docs \<Rightarrow> 'a ts_out_scheme \<Rightarrow> 'a ts_out_scheme rust" where
  "type_variant hk name cases d out =
     case_decls hk name cases (ts_push ('';'' @ [NL])
       (print_case_names hk name True cases (ts_push (''export type '' @ upper_camel hk name @ '' = '') (print_docs d out))))"

text \<open>The documentation of an enum with a section for each case. It is a \<open>String\<close>, not a \<open>Source\<close>.\<close>

definition enum_docs :: "(string \<times> docs) list \<Rightarrow> docs \<Rightarrow> string" where
  "enum_docs cases d =
     (case d of Some s \<Rightarrow> s @ [NL] | None \<Rightarrow> []) @ ''# Variants'' @ [NL] @
     concat (map (\<lambda>(c, cd). [NL] @ ''## `'' @ [CHR 0x22] @ c @ [CHR 0x22] @ ''`'' @ [NL] @
       (case cd of Some s \<Rightarrow> [NL] @ s | None \<Rightarrow> [])) cases)"

primrec print_enum_names :: "bool \<Rightarrow> (string \<times> docs) list \<Rightarrow> 'a ts_out_scheme \<Rightarrow> 'a ts_out_scheme" where
  "print_enum_names first [] out = out"
| "print_enum_names first (c # cs) out =
     print_enum_names False cs (ts_push ([CHR 0x27] @ fst c @ [CHR 0x27]) (if first then out else ts_push '' | '' out))"

definition type_enum :: "heck \<Rightarrow> string \<Rightarrow> (string \<times> docs) list \<Rightarrow> docs \<Rightarrow> 'a ts_out_scheme \<Rightarrow> 'a ts_out_scheme" where
  "type_enum hk name cases d out =
     ts_push ('';'' @ [NL]) (print_enum_names True cases
       (ts_push (''export type '' @ upper_camel hk name @ '' = '') (docs_raw (enum_docs cases d) out)))"

definition type_result :: "heck \<Rightarrow> string \<Rightarrow> wtype option \<Rightarrow> wtype option \<Rightarrow> docs \<Rightarrow> 'a ts_out_scheme \<Rightarrow> 'a ts_out_scheme rust" where
  "type_result hk name ok err d out =
     rbind (print_optional_ty hk ok (ts_push (''export type '' @ upper_camel hk name @ '' = Result<'') (print_docs d out\<lparr>needs_ty_result := True\<rparr>))) (\<lambda>out.
     rbind (print_optional_ty hk err (ts_push '', '' out)) (\<lambda>out.
       Inr (ts_push (''>;'' @ [NL]) out)))"

text \<open>\<open>type_future\<close> and \<open>type_stream\<close>, with the name of the wrapping type.\<close>

definition type_wrapped :: "string \<Rightarrow> heck \<Rightarrow> string \<Rightarrow> wtype option \<Rightarrow> docs \<Rightarrow> 'a ts_out_scheme \<Rightarrow> 'a ts_out_scheme rust" where
  "type_wrapped wrapper hk name element_ty d out =
     rbind (print_optional_ty hk element_ty (ts_push (''export type '' @ upper_camel hk name @ '' = '' @ wrapper @ ''<'') (print_docs d out)))
       (\<lambda>out. Inr (ts_push (''>;'' @ [NL]) out))"

text \<open>\<open>type_tuple\<close>, \<open>type_option\<close>, \<open>type_list\<close>, \<open>type_map\<close> and \<open>type_fixed_size_list\<close>: what is between the equation and the
  semicolon is pushed as \<open>print_ty\<close> does for the kind.\<close>

definition type_of_kind :: "heck \<Rightarrow> string \<Rightarrow> tkind \<Rightarrow> docs \<Rightarrow> 'a ts_out_scheme \<Rightarrow> 'a ts_out_scheme rust" where
  "type_of_kind hk name k d out =
     rbind (print_kind hk k (ts_push (''export type '' @ upper_camel hk name @ '' = '') (print_docs d out)))
       (\<lambda>out. Inr (ts_push ('';'' @ [NL]) out))"

section \<open>Interfaces\<close>

text \<open>An interface of the resolver: its number, the answers of \<open>id_of\<close> and \<open>canonicalized_id_of\<close>, its name, its
  functions and types, and whether a world exports it.\<close>

record 'v interface =
  if_number :: nat
  if_id :: "string option"
  if_canonical_id :: "string option"
  if_name :: "string option"
  if_functions :: "'v ts_function list"
  if_types :: "(string \<times> tdef) list"
  if_exported :: bool

definition interface_goal_name :: "heck \<Rightarrow> string \<Rightarrow> string" where
  "interface_goal_name hk iface_name =
     kebab hk (map (\<lambda>c. if c = CHR ''/'' \<or> c = CHR '':'' then CHR ''-'' else c) (takeWhile (\<lambda>c. c \<noteq> CHR ''@'') iface_name))"

text \<open>An insertion into a \<open>BTreeSet\<close>.\<close>

primrec bset_insert :: "string \<Rightarrow> string list \<Rightarrow> string list" where
  "bset_insert x [] = [x]"
| "bset_insert x (y # ys) = (if x < y then x # y # ys else if x = y then y # ys else y # bset_insert x ys)"

definition the_id :: "string option \<Rightarrow> string rust" where
  "the_id o' = (case o' of Some x \<Rightarrow> Inr x | None \<Rightarrow> Inl (Panic ''called Option::unwrap() on a None value''))"

text \<open>The owner of the type an alias stands for, when it is another interface; \<open>id_of\<close> is the resolver's function.\<close>

definition foreign_owner :: "(nat \<Rightarrow> string option) \<Rightarrow> nat option \<Rightarrow> wtype \<Rightarrow> string option rust" where
  "foreign_owner id_of parent_id ty =
     (case ty of
        WId d \<Rightarrow>
          (case def_owner d of
             OwnerInterface i \<Rightarrow> if parent_id = Some i then Inr None else rbind (the_id (id_of i)) (\<lambda>n. Inr (Some n))
           | _ \<Rightarrow> Inr None)
      | _ \<Rightarrow> Inr None)"

definition alias_decl ::
    "heck \<Rightarrow> (nat \<Rightarrow> string option) \<Rightarrow> nat option \<Rightarrow> tdef \<Rightarrow> string \<Rightarrow> wtype \<Rightarrow> docs \<Rightarrow> ts_iface \<Rightarrow> ts_iface rust" where
  "alias_decl hk id_of parent_id def name ty d s =
     rbind (foreign_owner id_of parent_id ty) (\<lambda>owner.
       let path_prefix = (if is_root s then ''./interfaces/'' else ''./''); type_name = upper_camel hk name in
       case owner of
         Some owned_id \<Rightarrow>
           rbind (the_id (def_name (dealias def))) (\<lambda>orig.
             let file = path_prefix @ interface_goal_name hk owned_id;
                 s = (if is_guest s then s\<lparr>references := bset_insert (file @ ''.d.ts'') (references s)\<rparr> else s);
                 import_name = (if is_guest s then owned_id else file @ ''.js'') in
             Inr (ts_write [''export type '', type_name, '' = import('' @ [CHR 0x27], import_name, [CHR 0x27] @ '').'',
                    upper_camel hk orig, '';'' @ [NL]] s))
       | None \<Rightarrow>
           rbind (print_ty hk ty (ts_push (''export type '' @ type_name @ '' = '') (print_docs d s))) (\<lambda>s.
             Inr (ts_push ('';'' @ [NL]) s)))"

definition type_resource :: "string option \<Rightarrow> bool \<Rightarrow> ts_iface \<Rightarrow> ts_iface rust" where
  "type_resource name meta s =
     rbind (the_id name) (\<lambda>r.
       Inr (if map_of (resources s) r = None then s\<lparr>resources := bt_put r (meta, ts_resource_new) (resources s)\<rparr> else s))"

definition ts_type ::
    "heck \<Rightarrow> (nat \<Rightarrow> string option) \<Rightarrow> nat option \<Rightarrow> bool \<Rightarrow> string \<times> tdef \<Rightarrow> ts_iface \<Rightarrow> ts_iface rust" where
  "ts_type hk id_of parent_id meta nd s =
     (case nd of (name, def) \<Rightarrow>
        (let d = def_docs def; k = def_kind def in
         case k of
           KRecord fds \<Rightarrow> type_record hk name fds d s
         | KFlags fs \<Rightarrow> Inr (type_flags hk name fs d s)
         | KEnum cases \<Rightarrow> Inr (type_enum hk name cases d s)
         | KVariant cases \<Rightarrow> type_variant hk name cases d s
         | KType t \<Rightarrow> alias_decl hk id_of parent_id def name t d s
         | KUnknown \<Rightarrow> Inl (Panic ''unexpectedly unknown type def'')
         | KResource \<Rightarrow> type_resource (def_name def) meta s
         | KHandle _ \<Rightarrow> Inl (Panic ''types for handle'')
         | KResult ok err \<Rightarrow> type_result hk name ok err d s
         | KFuture t \<Rightarrow> type_wrapped ''PromiseLike'' hk name t d s
         | KStream t \<Rightarrow> type_wrapped ''AsyncIterable'' hk name t d s
         | _ \<Rightarrow> type_of_kind hk name k d s))"

primrec ts_types ::
    "heck \<Rightarrow> (nat \<Rightarrow> string option) \<Rightarrow> nat option \<Rightarrow> bool \<Rightarrow> (string \<times> tdef) list \<Rightarrow> ts_iface \<Rightarrow> ts_iface rust" where
  "ts_types hk id_of parent_id meta [] s = Inr s"
| "ts_types hk id_of parent_id meta (d # ds) s = rbind (ts_type hk id_of parent_id meta d s) (ts_types hk id_of parent_id meta ds)"

definition ts_begin :: "string \<Rightarrow> ts_iface \<Rightarrow> ts_iface" where
  "ts_begin id_name s =
     (if is_guest s
      then (ts_write [''declare module '' @ [CHR 0x27], id_name, [CHR 0x27] @ '' {'' @ [NL]] s)\<lparr>needs_module_end := True\<rparr>
      else ts_write [''/** @module Interface '', id_name, '' **/'' @ [NL]] s)"

definition TS_OPTION_TYPE_ALIAS :: string where
  "TS_OPTION_TYPE_ALIAS =
     ''export type Option<T> = { tag: '' @ [CHR 0x27] @ ''none'' @ [CHR 0x27] @ '' } | { tag: '' @ [CHR 0x27] @ ''some'' @ [CHR 0x27] @
     '', val: T };'' @ [NL]"

definition TS_RESULT_TYPE_ALIAS :: string where
  "TS_RESULT_TYPE_ALIAS =
     ''export type Result<T, E> = { tag: '' @ [CHR 0x27] @ ''ok'' @ [CHR 0x27] @ '', val: T } | { tag: '' @ [CHR 0x27] @ ''err'' @ [CHR 0x27] @
     '', val: E };'' @ [NL]"

text \<open>Whether a helper alias is needed by the interface or one of its resources.\<close>

definition any_option :: "ts_iface \<Rightarrow> bool" where
  "any_option s = (needs_ty_option s \<or> (\<exists>r \<in> set (resources s). needs_ty_option (snd (snd r))))"

definition any_result :: "ts_iface \<Rightarrow> bool" where
  "any_result s = (needs_ty_result s \<or> (\<exists>r \<in> set (resources s). needs_ty_result (snd (snd r))))"

definition post_types :: "ts_iface \<Rightarrow> ts_iface" where
  "post_types s =
     (let s1 = (if any_option s then ts_push TS_OPTION_TYPE_ALIAS s else s) in
      if any_result s then ts_push TS_RESULT_TYPE_ALIAS s1 else s1)"

primrec finish_resources :: "heck \<Rightarrow> bool \<Rightarrow> (string \<times> bool \<times> ts_resource) list \<Rightarrow> source \<Rightarrow> source" where
  "finish_resources hk guest [] src = src"
| "finish_resources hk guest (r # rs) src =
     (case r of (name, is_export, res) \<Rightarrow>
        (let disposable = (guest \<and> \<not> is_export \<or> \<not> guest \<and> is_export);
             src = uwrite [[NL] @ ''export class '', upper_camel hk name, (if disposable then '' implements Disposable'' else []), '' {'' @ [NL]] src;
             src = (if rs_has_constructor res then src
                    else uwrite [''/**'' @ [NL], '' * This type does not have a public constructor.'' @ [NL], '' */'' @ [NL],
                           ''private constructor();'' @ [NL]] src);
             src = push_str (src_text (ts_src res)) src;
             src = (if disposable then uwrite [''[Symbol.dispose](): void;'', [NL]] src else src) in
         finish_resources hk guest rs (uwrite [''}'' @ [NL]] src)))"

definition ts_finish :: "heck \<Rightarrow> ts_iface \<Rightarrow> source \<times> string list" where
  "ts_finish hk s =
     (let src = finish_resources hk (is_guest s) (resources s) (ts_src s);
          src = (if src_text src = [] then uwrite [''export {};'' @ [NL]] src else src);
          src = (if needs_module_end s then uwrite [''}'' @ [NL]] src else src)
      in (src, references s))"

definition generate_references :: "string list \<Rightarrow> string" where
  "generate_references rs = concat (map (\<lambda>r. ''/// <reference path='' @ [CHR 0x22] @ r @ [CHR 0x22] @ '' />'' @ [NL]) rs)"

section \<open>Files of interfaces\<close>

record ts_bindgen =
  bg_src :: source
  interface_names :: local_names
  bg_local_names :: local_names
  import_object :: source
  export_object :: source
  bg_needs_option :: bool
  bg_needs_result :: bool
  bg_is_guest :: bool
  async_imports :: "string list"
  async_exports :: "string list"
  bg_references :: "string list"

definition ts_bindgen_new :: "bool \<Rightarrow> string list \<Rightarrow> string list \<Rightarrow> ts_bindgen" where
  "ts_bindgen_new guest imps exps = \<lparr>bg_src = source_default, interface_names = local_names_default, bg_local_names = local_names_default,
     import_object = source_default, export_object = source_default, bg_needs_option = False, bg_needs_result = False,
     bg_is_guest = guest, async_imports = imps, async_exports = exps, bg_references = []\<rparr>"

text \<open>The fixed surroundings: the letter cases, the hash of a name and of an interface, the resolver's \<open>id_of\<close>.\<close>

record 'v ts_env =
  te_heck :: heck
  te_hash :: "string \<Rightarrow> nat"
  te_id_of :: "nat \<Rightarrow> string option"
  te_package :: "'v package_ctx"

definition canonical_fn_name :: "'v interface \<Rightarrow> 'v ts_function \<Rightarrow> string" where
  "canonical_fn_name iface f =
     (case if_canonical_id iface of
        Some c \<Rightarrow> trim_prefixes ''$'' c @ ''#'' @ fn_name f
      | None \<Rightarrow> fn_name f)"

primrec interface_funcs ::
    "'v ts_env \<Rightarrow> 'v interface \<Rightarrow> string \<Rightarrow> string list \<Rightarrow> bool \<Rightarrow> 'v ts_function list \<Rightarrow> ts_iface \<Rightarrow> ts_iface rust" where
  "interface_funcs te iface id_name async_funcs meta [] s = Inr s"
| "interface_funcs te iface id_name async_funcs meta (f # fs) s =
     rbind (case feature_gate_allowed (te_package te) (fn_stability f) of
              Inl _ \<Rightarrow> Inl (Panic ''failed to check feature gate for function'')
            | Inr allowed \<Rightarrow>
                if \<not> allowed then Inr s
                else ts_func (te_heck te) (te_hash te) f False True
                       (requires_async_porcelain (canonical_fn_name iface f) id_name async_funcs) meta s)
       (interface_funcs te iface id_name async_funcs meta fs)"

definition interface_text :: "'v ts_env \<Rightarrow> ts_bindgen \<Rightarrow> string \<Rightarrow> 'v interface \<Rightarrow> bool \<Rightarrow> ts_iface rust" where
  "interface_text te b id_name iface meta =
     (let async_funcs = (if if_exported iface then async_exports b else async_imports b) in
      rbind (interface_funcs te iface id_name async_funcs meta (if_functions iface) (ts_begin id_name (ts_iface_new False (bg_is_guest b)))) (\<lambda>s.
      rbind (ts_types (te_heck te) (te_id_of te) (Some (if_number iface)) (if_exported iface) (if_types iface) s) (\<lambda>s.
        Inr (post_types s))))"

definition generate_interface ::
    "'v ts_env \<Rightarrow> string \<Rightarrow> 'v interface \<Rightarrow> bool \<Rightarrow> ts_bindgen \<times> files \<Rightarrow> (string \<times> ts_bindgen \<times> files) rust" where
  "generate_interface te name iface meta bf =
     (case bf of (b, fs) \<Rightarrow>
        (let id_name = (case if_id iface of Some i \<Rightarrow> i | None \<Rightarrow> name);
             goal_name = interface_goal_name (te_heck te) id_name;
             file_stem = ''interfaces/'' @ kebab (te_heck te) goal_name;
             file_name = file_stem @ ''.d.ts'' in
         rbind (get_or_create (lower_camel (te_heck te)) (te_hash te file_name) goal_name (interface_names b)) (\<lambda>((_, iface_exists), ln).
         let b = b\<lparr>interface_names := ln\<rparr> in
         rbind (if iface_exists then Inr fs
                else rbind (interface_text te b id_name iface meta) (\<lambda>s.
                  case ts_finish (te_heck te) s of
                    (src, refs) \<Rightarrow> Inr (files_push file_name (src_text src) (files_push file_name (generate_references refs) fs)))) (\<lambda>fs.
         Inr (if bg_is_guest b
              then (id_name, b\<lparr>bg_references := bset_insert (''./'' @ file_name) (bg_references b)\<rparr>, fs)
              else (''./'' @ file_stem @ ''.js'', b, fs))))))"

end
