(* ===== verification/Import_Map.thy ===== *)
theory Import_Map
  imports Names "HOL-Library.Sublist"
begin

text \<open>
  The mapping of import names to JavaScript modules
  (\<open>src/crates/js-component-bindgen/src/transpile_bindgen.rs\<close>: \<open>semver_compat_key\<close>, \<open>parse_mapping\<close>,
  \<open>resolve_wildcard_mapping\<close>, \<open>map_import\<close>, \<open>map_import_with_implements\<close>, \<open>parse_world_key\<close> and
  \<open>core_file_name\<close>).

  A Rust \<open>str\<close> is the list of its UTF-8 bytes, so that lengths and indices are those of the code. A
  slice whose ends are out of order, or inside the encoding of a character, is a panic. The options'
  \<open>HashMap\<close> is the list of its entries in the order of iteration, which Rust leaves open and seeds at
  random; a lookup is \<open>map_of\<close>. The version type is the one of the crate \<open>semver\<close>: \<open>vparse\<close> stands for
  \<open>Version::parse\<close> and \<open>vle\<close> for its \<open>\<le>\<close>. The lemmas give the import that is chosen as the first
  nonempty level of a declarative specification, and what depends on the order of the map.
\<close>

section \<open>Strings\<close>

text \<open>\<open>str::find\<close> and \<open>str::rfind\<close> of an ASCII character.\<close>

primrec str_find :: "char \<Rightarrow> string \<Rightarrow> nat option" where
  "str_find c [] = None"
| "str_find c (x # xs) = (if x = c then Some 0 else map_option Suc (str_find c xs))"

definition str_rfind :: "char \<Rightarrow> string \<Rightarrow> nat option" where
  "str_rfind c s = map_option (\<lambda>i. length s - Suc i) (str_find c (rev s))"

definition str_replace :: "char \<Rightarrow> string \<Rightarrow> string \<Rightarrow> string" where
  "str_replace c new s = concat (map (\<lambda>x. if x = c then new else [x]) s)"

text \<open>A byte \<open>10xxxxxx\<close> continues a character: no slice starts or ends before it.\<close>

definition continuation_byte :: "char \<Rightarrow> bool" where
  "continuation_byte c \<longleftrightarrow> 128 \<le> (of_char c :: nat) \<and> (of_char c :: nat) < 192"

definition str_slice :: "string \<Rightarrow> nat \<Rightarrow> nat \<Rightarrow> string rust" where
  "str_slice s i j =
     (if i \<le> j \<and> j \<le> length s then Inr (take (j - i) (drop i s))
      else Inl (Panic ''byte range out of bounds''))"

section \<open>The operations\<close>

record version =
  major :: nat
  minor :: nat
  patch :: nat
  pre :: string
  build :: string

definition semver_compat_key :: "(string \<Rightarrow> version option) \<Rightarrow> string \<Rightarrow> (string \<times> version) option" where
  "semver_compat_key vparse version_str =
     (case vparse version_str of
        None \<Rightarrow> None
      | Some v \<Rightarrow>
          if pre v \<noteq> [] then None
          else if major v \<noteq> 0 then Some (show_nat (major v), v)
          else if minor v \<noteq> 0 then Some (''0.'' @ show_nat (minor v), v)
          else None)"

definition parse_mapping :: "string \<Rightarrow> (string \<times> string option) rust" where
  "parse_mapping mapping =
     (if 1 < length mapping
      then if continuation_byte (mapping ! 1) then Inl (Panic ''byte index 1 is not a char boundary'')
           else (case str_find CHR ''#'' (drop 1 mapping) of
                   Some hash_idx \<Rightarrow> Inr (take (hash_idx + 1) mapping, Some (drop (hash_idx + 2) mapping))
                 | None \<Rightarrow> Inr (mapping, None))
      else Inr (mapping, None))"

definition resolve_wildcard_mapping :: "string \<Rightarrow> string \<Rightarrow> string \<Rightarrow> string option rust" where
  "resolve_wildcard_mapping key mapping impt =
     (case str_find CHR ''*'' key of
        None \<Rightarrow> Inr None
      | Some idx \<Rightarrow>
          let lhs = take idx key; rhs = drop (idx + 1) key in
          if \<not> prefix lhs impt \<or> \<not> suffix rhs impt then Inr None
          else if length impt < length lhs + length rhs then Inl (Panic ''attempt to subtract with overflow'')
          else let matched_len = length impt - length lhs - length rhs;
                   matched = take matched_len (drop (length lhs) impt) in
               Inr (Some (str_replace CHR ''*'' matched mapping)))"

type_synonym import_map = "(string \<times> string) list"

text \<open>A loop over the map that returns the mapping of the first key that matches.\<close>

primrec first_wildcard :: "(string \<Rightarrow> bool) \<Rightarrow> string \<Rightarrow> import_map \<Rightarrow> string option rust" where
  "first_wildcard skip impt [] = Inr None"
| "first_wildcard skip impt (e # m) =
     (if skip (fst e) then first_wildcard skip impt m
      else rbind (resolve_wildcard_mapping (fst e) (snd e) impt)
             (\<lambda>r. case r of Some w \<Rightarrow> Inr (Some w) | None \<Rightarrow> first_wildcard skip impt m))"

definition sans_version :: "string \<Rightarrow> string" where
  "sans_version impt = (case str_find CHR ''@'' impt of Some version_idx \<Rightarrow> take version_idx impt | None \<Rightarrow> impt)"

text \<open>The body of the loop over compatible versions, for one entry: the mapping it resolves to and the
  version of its key, if the entry applies.\<close>

definition compat_entry ::
    "(string \<Rightarrow> version option) \<Rightarrow> string \<Rightarrow> string \<Rightarrow> string \<times> string \<Rightarrow> (string \<times> version) option rust" where
  "compat_entry vparse impt_compat impt_sans_version e =
     (case str_find CHR ''@'' (fst e) of
        None \<Rightarrow> Inr None
      | Some key_at \<Rightarrow>
          let key_base = take key_at (fst e); key_ver_str = drop (key_at + 1) (fst e) in
          (case semver_compat_key vparse key_ver_str of
             None \<Rightarrow> Inr None
           | Some (key_compat, key_ver) \<Rightarrow>
               if impt_compat \<noteq> key_compat then Inr None
               else rbind (resolve_wildcard_mapping key_base (snd e) impt_sans_version)
                      (\<lambda>r. case r of
                         Some w \<Rightarrow> Inr (Some (w, key_ver))
                       | None \<Rightarrow> if key_base = impt_sans_version then Inr (Some (snd e, key_ver)) else Inr None)))"

definition better ::
    "(version \<Rightarrow> version \<Rightarrow> bool) \<Rightarrow> (string \<times> version) option \<Rightarrow> string \<times> version \<Rightarrow> (string \<times> version) option" where
  "better vle best_match c =
     (case best_match of
        Some p \<Rightarrow> if vle (snd c) (snd p) then best_match else Some c
      | None \<Rightarrow> Some c)"

primrec best_compat ::
    "(string \<Rightarrow> version option) \<Rightarrow> (version \<Rightarrow> version \<Rightarrow> bool) \<Rightarrow> string \<Rightarrow> string \<Rightarrow>
     (string \<times> version) option \<Rightarrow> import_map \<Rightarrow> (string \<times> version) option rust" where
  "best_compat vparse vle impt_compat impt_sans_version best_match [] = Inr best_match"
| "best_compat vparse vle impt_compat impt_sans_version best_match (e # m) =
     rbind (compat_entry vparse impt_compat impt_sans_version e)
       (\<lambda>r. best_compat vparse vle impt_compat impt_sans_version
              (case r of Some c \<Rightarrow> better vle best_match c | None \<Rightarrow> best_match) m)"

definition map_import_semver ::
    "(string \<Rightarrow> version option) \<Rightarrow> (version \<Rightarrow> version \<Rightarrow> bool) \<Rightarrow> import_map \<Rightarrow> string \<Rightarrow> string option rust" where
  "map_import_semver vparse vle m impt =
     (case str_find CHR ''@'' impt of
        None \<Rightarrow> Inr None
      | Some at \<Rightarrow>
          (case semver_compat_key vparse (drop (at + 1) impt) of
             None \<Rightarrow> Inr None
           | Some (impt_compat, _) \<Rightarrow>
               rbind (best_compat vparse vle impt_compat (sans_version impt) None m)
                 (\<lambda>r. Inr (map_option fst r))))"

definition map_import ::
    "(string \<Rightarrow> version option) \<Rightarrow> (version \<Rightarrow> version \<Rightarrow> bool) \<Rightarrow> import_map option \<Rightarrow> string \<Rightarrow>
     (string \<times> string option) rust" where
  "map_import vparse vle mp impt =
     (let impt_sans_version = sans_version impt in
      case mp of
        None \<Rightarrow> Inr (impt_sans_version, None)
      | Some m \<Rightarrow>
          (case map_of m impt of
             Some mapping \<Rightarrow> parse_mapping mapping
           | None \<Rightarrow>
             (case map_of m impt_sans_version of
                Some mapping \<Rightarrow> parse_mapping mapping
              | None \<Rightarrow>
                  rbind (first_wildcard (\<lambda>key. CHR ''@'' \<notin> set key) impt m) (\<lambda>r. case r of
                    Some mapping \<Rightarrow> parse_mapping mapping
                  | None \<Rightarrow>
                      rbind (first_wildcard (\<lambda>key. CHR ''@'' \<in> set key) impt_sans_version m) (\<lambda>r. case r of
                        Some mapping \<Rightarrow> parse_mapping mapping
                      | None \<Rightarrow>
                          rbind (map_import_semver vparse vle m impt) (\<lambda>r. case r of
                            Some mapping \<Rightarrow> parse_mapping mapping
                          | None \<Rightarrow> Inr (impt_sans_version, None)))))))"

definition map_import_with_implements ::
    "(string \<Rightarrow> version option) \<Rightarrow> (version \<Rightarrow> version \<Rightarrow> bool) \<Rightarrow> import_map option \<Rightarrow> string \<Rightarrow> string option \<Rightarrow>
     (string \<times> string option) rust" where
  "map_import_with_implements vparse vle mp impt implements =
     rbind (map_import vparse vle mp impt) (\<lambda>(specifier, iface_member).
       if specifier = impt \<and> iface_member = None
       then (case implements of
               None \<Rightarrow> Inr (specifier, iface_member)
             | Some target \<Rightarrow>
                 rbind (map_import vparse vle mp target) (\<lambda>(mapped, member).
                   if mapped \<noteq> sans_version target \<or> member \<noteq> None then Inr (mapped, member)
                   else Inr (specifier, iface_member)))
       else Inr (specifier, iface_member))"

definition parse_world_key :: "string \<Rightarrow> (string \<times> string \<times> string) option rust" where
  "parse_world_key name =
     (case str_find CHR '':'' name of
        None \<Rightarrow> Inr None
      | Some registry_idx \<Rightarrow>
          let ns = take registry_idx name in
          (case str_rfind CHR ''/'' name of
             Some sep_idx \<Rightarrow>
               let end_idx = (case str_rfind CHR ''@'' name of Some version_idx \<Rightarrow> version_idx | None \<Rightarrow> length name) in
               rbind (str_slice name (registry_idx + 1) sep_idx) (\<lambda>package.
               rbind (str_slice name (sep_idx + 1) end_idx) (\<lambda>iface.
               Inr (Some (ns, package, iface))))
           | None \<Rightarrow> Inr (Some (ns, drop (registry_idx + 1) name, []))))"

text \<open>The index is a \<open>u32\<close>.\<close>

definition core_file_name :: "string \<Rightarrow> nat \<Rightarrow> string rust" where
  "core_file_name name idx =
     (if 2 ^ 32 \<le> idx + 1 then Inl (Panic ''attempt to add with overflow'')
      else let i_str = if idx = 0 then '''' else show_nat (idx + 1) in
           Inr (name @ ''.core'' @ i_str @ ''.wasm''))"

section \<open>Strings: lemmas\<close>

lemma str_find_None: "str_find c s = None \<longleftrightarrow> c \<notin> set s"
  by (induction s) auto

lemma str_find_Some: "str_find c s = Some i \<longleftrightarrow> (\<exists>l r. s = l @ c # r \<and> c \<notin> set l \<and> i = length l)"
proof (induction s arbitrary: i)
  case Nil
  then show ?case by simp
next
  case (Cons x s)
  show ?case
  proof (cases "x = c")
    case True
    then show ?thesis by (auto simp: Cons_eq_append_conv)
  next
    case False
    then have "str_find c (x # s) = Some i \<longleftrightarrow> (\<exists>j. i = Suc j \<and> str_find c s = Some j)" by auto
    also have "\<dots> \<longleftrightarrow> (\<exists>l r. x # s = l @ c # r \<and> c \<notin> set l \<and> i = length l)"
      unfolding Cons.IH using False by (fastforce simp: Cons_eq_append_conv)
    finally show ?thesis .
  qed
qed

lemma str_find_SomeE:
  assumes "str_find c s = Some i"
  obtains l r where "s = l @ c # r" "c \<notin> set l" "i = length l"
  using assms by (auto simp: str_find_Some)

lemma str_find_app [simp]: "c \<notin> set l \<Longrightarrow> str_find c (l @ c # r) = Some (length l)"
  by (auto simp: str_find_Some)

text \<open>A key with a wildcard applied to an import: the declarative reading of
  \<open>resolve_wildcard_mapping\<close>.\<close>

definition wildcard_match :: "string \<Rightarrow> string \<Rightarrow> string \<Rightarrow> string \<Rightarrow> bool" where
  "wildcard_match key mapping impt w \<longleftrightarrow>
     (\<exists>lhs rhs matched. key = lhs @ CHR ''*'' # rhs \<and> CHR ''*'' \<notin> set lhs \<and> impt = lhs @ matched @ rhs \<and>
        w = str_replace CHR ''*'' matched mapping)"

text \<open>The import starts with what stands before the wildcard and ends with what stands after it, but is
  shorter than the two together.\<close>

definition wildcard_overlap :: "string \<Rightarrow> string \<Rightarrow> bool" where
  "wildcard_overlap key impt \<longleftrightarrow>
     (\<exists>lhs rhs. key = lhs @ CHR ''*'' # rhs \<and> CHR ''*'' \<notin> set lhs \<and> prefix lhs impt \<and> suffix rhs impt \<and>
        length impt < length lhs + length rhs)"

lemma split_first: "l @ c # r = l' @ c # r' \<Longrightarrow> c \<notin> set l \<Longrightarrow> c \<notin> set l' \<Longrightarrow> l = l' \<and> r = r'"
  by (induction l arbitrary: l') (auto simp: Cons_eq_append_conv append_eq_Cons_conv)

lemma resolve_split:
  "CHR ''*'' \<notin> set lhs \<Longrightarrow>
   resolve_wildcard_mapping (lhs @ CHR ''*'' # rhs) mapping impt =
     (if \<not> prefix lhs impt \<or> \<not> suffix rhs impt then Inr None
      else if length impt < length lhs + length rhs then Inl (Panic ''attempt to subtract with overflow'')
      else Inr (Some (str_replace CHR ''*'' (take (length impt - length lhs - length rhs) (drop (length lhs) impt)) mapping)))"
  by (simp add: resolve_wildcard_mapping_def Let_def)

lemma prefix_suffix_between:
  assumes "prefix lhs impt" "suffix rhs impt" "length lhs + length rhs \<le> length impt"
  shows "impt = lhs @ take (length impt - length lhs - length rhs) (drop (length lhs) impt) @ rhs"
proof -
  from assms(1) obtain t where t: "impt = lhs @ t" by (auto simp: prefix_def)
  with assms(2,3) have "suffix rhs t" by (auto simp: suffix_append)
  then obtain u where "t = u @ rhs" by (auto simp: suffix_def)
  with t show ?thesis by simp
qed

lemma resolve_Some: "resolve_wildcard_mapping key mapping impt = Inr (Some w) \<longleftrightarrow> wildcard_match key mapping impt w"
proof (cases "str_find CHR ''*'' key")
  case None
  then have "CHR ''*'' \<notin> set key" by (simp add: str_find_None)
  then show ?thesis by (auto simp: resolve_wildcard_mapping_def None wildcard_match_def)
next
  case (Some i)
  then obtain lhs rhs where k: "key = lhs @ CHR ''*'' # rhs" "CHR ''*'' \<notin> set lhs" by (rule str_find_SomeE)
  have m: "wildcard_match key mapping impt w \<longleftrightarrow> (\<exists>matched. impt = lhs @ matched @ rhs \<and> w = str_replace CHR ''*'' matched mapping)"
    using k by (auto simp: wildcard_match_def dest!: split_first)
  show ?thesis
    unfolding m using k prefix_suffix_between [of lhs impt rhs]
    by (fastforce simp: resolve_split prefix_def suffix_def split: if_splits)
qed

lemma resolve_Inl: "resolve_wildcard_mapping key mapping impt = Inl e \<Longrightarrow> wildcard_overlap key impt"
  by (auto simp: resolve_wildcard_mapping_def Let_def wildcard_overlap_def str_find_Some split: option.splits if_splits)

lemma overlap_resolve:
  "wildcard_overlap key impt \<Longrightarrow> resolve_wildcard_mapping key mapping impt = Inl (Panic ''attempt to subtract with overflow'')"
  by (auto simp: wildcard_overlap_def resolve_split)

section \<open>The levels of the search\<close>

lemma resolve_None:
  assumes "\<not> wildcard_overlap key impt" "\<nexists>w. wildcard_match key mapping impt w"
  shows "resolve_wildcard_mapping key mapping impt = Inr None"
  using assms resolve_Inl [of key mapping impt] resolve_Some [of key mapping impt]
  by (metis old.sum.exhaust option.exhaust)

lemma resolve_cases:
  assumes "\<not> wildcard_overlap key impt"
  obtains (found) w where "wildcard_match key mapping impt w" "resolve_wildcard_mapping key mapping impt = Inr (Some w)"
  | (not_found) "\<nexists>w. wildcard_match key mapping impt w" "resolve_wildcard_mapping key mapping impt = Inr None"
  using assms resolve_None [of key impt mapping] resolve_Some [of key mapping impt] by blast

definition same_track :: "version \<Rightarrow> version \<Rightarrow> bool" where
  "same_track a b \<longleftrightarrow> pre a = [] \<and> pre b = [] \<and>
     (major a \<noteq> 0 \<and> major a = major b \<or> major a = 0 \<and> major b = 0 \<and> minor a \<noteq> 0 \<and> minor a = minor b)"

definition compat_candidate ::
    "(string \<Rightarrow> version option) \<Rightarrow> import_map \<Rightarrow> string \<Rightarrow> string \<Rightarrow> version \<Rightarrow> bool" where
  "compat_candidate vparse m impt w ver \<longleftrightarrow>
     (\<exists>base kver v iver iv. (base @ CHR ''@'' # kver, v) \<in> set m \<and> CHR ''@'' \<notin> set base \<and> vparse kver = Some ver \<and>
        impt = sans_version impt @ CHR ''@'' # iver \<and> vparse iver = Some iv \<and> same_track ver iv \<and>
        (wildcard_match base v (sans_version impt) w \<or> base = sans_version impt \<and> w = v))"

text \<open>The mappings that apply to an import: exactly; without its version; by a wildcard with a version; by
  a wildcard without; by a compatible version, where only the highest counts.\<close>

definition import_level ::
    "(string \<Rightarrow> version option) \<Rightarrow> (version \<Rightarrow> version \<Rightarrow> bool) \<Rightarrow> import_map \<Rightarrow> string \<Rightarrow> nat \<Rightarrow> string set" where
  "import_level vparse vle m impt l =
     (if l = 0 then {w. (impt, w) \<in> set m}
      else if l = 1 then {w. (sans_version impt, w) \<in> set m}
      else if l = 2 then {w. \<exists>(k, v) \<in> set m. CHR ''@'' \<in> set k \<and> wildcard_match k v impt w}
      else if l = 3 then {w. \<exists>(k, v) \<in> set m. CHR ''@'' \<notin> set k \<and> wildcard_match k v (sans_version impt) w}
      else if l = 4 then {w. \<exists>ver. compat_candidate vparse m impt w ver \<and>
                              (\<forall>w' ver'. compat_candidate vparse m impt w' ver' \<longrightarrow> vle ver' ver)}
      else {})"

definition import_overlap :: "import_map \<Rightarrow> string \<Rightarrow> bool" where
  "import_overlap m impt \<longleftrightarrow>
     (\<exists>(k, v) \<in> set m. wildcard_overlap k impt \<or> wildcard_overlap k (sans_version impt) \<or>
        wildcard_overlap (sans_version k) (sans_version impt))"

lemma sans_split: "CHR ''@'' \<notin> set b \<Longrightarrow> sans_version (b @ CHR ''@'' # v) = b"
  by (simp add: sans_version_def)

lemma sans_no_at [simp]: "CHR ''@'' \<notin> set (sans_version impt)"
proof (cases "str_find CHR ''@'' impt")
  case None
  from None str_find_None have "CHR ''@'' \<notin> set impt" by metis
  with None show ?thesis by (simp add: sans_version_def)
next
  case (Some i)
  then show ?thesis by (auto simp: sans_version_def elim: str_find_SomeE)
qed

lemma str_find_at:
  "str_find CHR ''@'' s = Some i \<longleftrightarrow> s = sans_version s @ CHR ''@'' # drop (i + 1) s \<and> i = length (sans_version s)"
  (is "?l \<longleftrightarrow> ?r")
proof
  assume ?l
  then show ?r by (auto simp: sans_version_def elim!: str_find_SomeE)
next
  assume ?r
  then show ?l by (metis sans_no_at str_find_app)
qed

lemma first_wildcard_spec:
  assumes "\<forall>e \<in> set m. \<not> skip (fst e) \<longrightarrow> \<not> wildcard_overlap (fst e) impt"
  shows "(\<exists>w. first_wildcard skip impt m = Inr (Some w) \<and>
            (\<exists>(k, v) \<in> set m. \<not> skip k \<and> wildcard_match k v impt w)) \<or>
         first_wildcard skip impt m = Inr None \<and> (\<nexists>w. \<exists>(k, v) \<in> set m. \<not> skip k \<and> wildcard_match k v impt w)"
  using assms
proof (induction m)
  case Nil
  then show ?case by simp
next
  case (Cons e m)
  obtain k v where e: "e = (k, v)" by (cases e)
  show ?case
  proof (cases "skip k")
    case True
    with Cons e show ?thesis by simp
  next
    case False
    with Cons.prems e have no: "\<not> wildcard_overlap k impt" by simp
    then show ?thesis
    proof (cases rule: resolve_cases [where mapping = v])
      case (found w)
      with False e show ?thesis by auto
    next
      case not_found
      with False e Cons show ?thesis by simp
    qed
  qed
qed

lemma show_nat_no_dot: "CHR ''.'' \<notin> set (show_nat n)"
  using show_nat_digits [of n] by (auto simp: list_all_iff is_digit_def)

lemma compat_keys:
  assumes "vparse s = Some a" "vparse t = Some b"
  shows "(\<exists>k. semver_compat_key vparse s = Some (k, a) \<and> semver_compat_key vparse t = Some (k, b)) \<longleftrightarrow> same_track a b"
proof -
  have "show_nat n \<noteq> ''0.'' @ x" for n x using show_nat_no_dot [of n] by (metis UnCI append_Cons list.set_intros(1,2) set_append)
  then have "show_nat n \<noteq> CHR ''0'' # CHR ''.'' # x" "CHR ''0'' # CHR ''.'' # x \<noteq> show_nat n" for n x
    by (metis append_Cons append_Nil)+
  then show ?thesis
    using assms by (auto simp: semver_compat_key_def same_track_def dest: show_nat_inj)
qed

definition entry_candidate ::
    "(string \<Rightarrow> version option) \<Rightarrow> string \<Rightarrow> version \<Rightarrow> string \<times> string \<Rightarrow> string \<Rightarrow> version \<Rightarrow> bool" where
  "entry_candidate vparse sans iv e w ver \<longleftrightarrow>
     (\<exists>base kver. fst e = base @ CHR ''@'' # kver \<and> CHR ''@'' \<notin> set base \<and> vparse kver = Some ver \<and>
        same_track ver iv \<and> (wildcard_match base (snd e) sans w \<or> base = sans \<and> w = snd e))"

lemma replace_star: "str_replace c [c] s = s"
  by (induction s) (auto simp: str_replace_def)

lemma match_self: "wildcard_match s v s w \<Longrightarrow> w = v"
  by (auto simp: wildcard_match_def append_eq_append_conv2 replace_star Cons_eq_append_conv append_eq_Cons_conv)

lemma compat_entry_spec:
  assumes "semver_compat_key vparse iver = Some (ic, iv)" "\<not> wildcard_overlap (sans_version (fst e)) sans"
  shows "(\<exists>w ver. compat_entry vparse ic sans e = Inr (Some (w, ver)) \<and> entry_candidate vparse sans iv e w ver \<and>
              (\<forall>w' ver'. entry_candidate vparse sans iv e w' ver' \<longrightarrow> ver' = ver)) \<or>
         compat_entry vparse ic sans e = Inr None \<and> (\<nexists>w ver. entry_candidate vparse sans iv e w ver)"
proof (cases "str_find CHR ''@'' (fst e)")
  case None
  then show ?thesis using str_find_None [of "CHR ''@''" "fst e"]
    by (auto simp: compat_entry_def entry_candidate_def)
next
  case (Some i)
  then obtain base kver where k: "fst e = base @ CHR ''@'' # kver" "CHR ''@'' \<notin> set base"
    by (rule str_find_SomeE)
  have cand: "entry_candidate vparse sans iv e w ver \<longleftrightarrow>
      vparse kver = Some ver \<and> same_track ver iv \<and> (wildcard_match base (snd e) sans w \<or> base = sans \<and> w = snd e)" for w ver
    using k by (auto simp: entry_candidate_def dest!: split_first)
  from assms(1) have iver: "vparse iver = Some iv" by (auto simp: semver_compat_key_def split: option.splits if_splits)
  from assms(2) k have no: "\<not> wildcard_overlap base sans" by (simp add: sans_split)
  have entry: "compat_entry vparse ic sans e =
      (case semver_compat_key vparse kver of
         None \<Rightarrow> Inr None
       | Some (key_compat, key_ver) \<Rightarrow>
           if ic \<noteq> key_compat then Inr None
           else rbind (resolve_wildcard_mapping base (snd e) sans) (\<lambda>r. case r of
                   Some w \<Rightarrow> Inr (Some (w, key_ver))
                 | None \<Rightarrow> if base = sans then Inr (Some (snd e, key_ver)) else Inr None))"
    using k by (simp add: compat_entry_def Let_def)
  show ?thesis
  proof (cases "\<exists>ver. vparse kver = Some ver \<and> same_track ver iv")
    case False
    have "\<not> (\<exists>ver. semver_compat_key vparse kver = Some (ic, ver))"
    proof
      assume "\<exists>ver. semver_compat_key vparse kver = Some (ic, ver)"
      then obtain ver where v: "semver_compat_key vparse kver = Some (ic, ver)" by blast
      then have "vparse kver = Some ver" by (auto simp: semver_compat_key_def split: option.splits if_splits)
      with False compat_keys [OF this iver] v assms(1) show False by auto
    qed
    then have "compat_entry vparse ic sans e = Inr None" unfolding entry by (auto split: option.splits)
    with False show ?thesis by (auto simp: cand)
  next
    case True
    then obtain ver where v: "vparse kver = Some ver" "same_track ver iv" by blast
    with compat_keys [OF v(1) iver] assms(1) have "semver_compat_key vparse kver = Some (ic, ver)" by auto
    then have entry': "compat_entry vparse ic sans e = rbind (resolve_wildcard_mapping base (snd e) sans) (\<lambda>r. case r of
                   Some w \<Rightarrow> Inr (Some (w, ver))
                 | None \<Rightarrow> if base = sans then Inr (Some (snd e, ver)) else Inr None)"
      unfolding entry by simp
    from no show ?thesis
      by (cases rule: resolve_cases [where mapping = "snd e"]) (auto simp: entry' cand v)
  qed
qed

definition order_laws :: "(version \<Rightarrow> version \<Rightarrow> bool) \<Rightarrow> bool" where
  "order_laws vle \<longleftrightarrow> (\<forall>a b. vle a b \<or> vle b a) \<and> (\<forall>a b c. vle a b \<longrightarrow> vle b c \<longrightarrow> vle a c)"

text \<open>What the loop over compatible versions keeps as its best match so far.\<close>

definition best_of :: "(version \<Rightarrow> version \<Rightarrow> bool) \<Rightarrow> (string \<Rightarrow> version \<Rightarrow> bool) \<Rightarrow> (string \<times> version) option \<Rightarrow> bool" where
  "best_of vle C b \<longleftrightarrow>
     (case b of None \<Rightarrow> \<nexists>w ver. C w ver
      | Some (w, ver) \<Rightarrow> C w ver \<and> (\<forall>w' ver'. C w' ver' \<longrightarrow> vle ver' ver))"

lemma best_of_Some: "best_of vle C (Some (w, ver)) \<longleftrightarrow> C w ver \<and> (\<forall>w' ver'. C w' ver' \<longrightarrow> vle ver' ver)"
  by (simp add: best_of_def)

lemma best_of_better:
  assumes "order_laws vle" "best_of vle C b" "D w ver" "\<forall>w' ver'. D w' ver' \<longrightarrow> ver' = ver"
  shows "best_of vle (\<lambda>w ver. C w ver \<or> D w ver) (better vle b (w, ver))"
proof -
  have refl: "vle a a" and tr: "vle a b \<Longrightarrow> vle b c \<Longrightarrow> vle a c" and tot: "\<not> vle a b \<Longrightarrow> vle b a" for a b c
    using assms(1) by (auto simp: order_laws_def)
  have D: "D w' ver' \<Longrightarrow> vle ver' ver" for w' ver' using assms(4) refl by blast
  show ?thesis
  proof (cases b)
    case None
    with assms(2) have "\<not> C w v" for w v by (simp add: best_of_def)
    then have "best_of vle (\<lambda>w ver. C w ver \<or> D w ver) (Some (w, ver))"
      unfolding best_of_Some using assms(3) D by blast
    with None show ?thesis by (simp add: better_def)
  next
    case (Some p)
    obtain w0 v0 where p: "p = (w0, v0)" by (cases p)
    with Some assms(2) have C: "C w0 v0" "\<forall>w' ver'. C w' ver' \<longrightarrow> vle ver' v0" by (simp_all add: best_of_Some)
    show ?thesis
    proof (cases "vle ver v0")
      case True
      then have "best_of vle (\<lambda>w ver. C w ver \<or> D w ver) (Some (w0, v0))"
        unfolding best_of_Some using C D tr by blast
      with Some p True show ?thesis by (simp add: better_def)
    next
      case False
      then have "best_of vle (\<lambda>w ver. C w ver \<or> D w ver) (Some (w, ver))"
        unfolding best_of_Some using C(2) assms(3) D tr tot by blast
      with Some p False show ?thesis by (simp add: better_def)
    qed
  qed
qed

lemma best_compat_spec:
  assumes "order_laws vle" "semver_compat_key vparse iver = Some (ic, iv)"
    "\<forall>e \<in> set m. \<not> wildcard_overlap (sans_version (fst e)) sans" "best_of vle C b"
  shows "\<exists>r. best_compat vparse vle ic sans b m = Inr r \<and>
             best_of vle (\<lambda>w ver. C w ver \<or> (\<exists>e \<in> set m. entry_candidate vparse sans iv e w ver)) r"
  using assms(3,4)
proof (induction m arbitrary: b C)
  case Nil
  then show ?case by simp
next
  case (Cons e m)
  from Cons.prems(1) have no: "\<not> wildcard_overlap (sans_version (fst e)) sans" by simp
  from compat_entry_spec [OF assms(2) no] show ?case
  proof
    assume "\<exists>w ver. compat_entry vparse ic sans e = Inr (Some (w, ver)) \<and> entry_candidate vparse sans iv e w ver \<and>
              (\<forall>w' ver'. entry_candidate vparse sans iv e w' ver' \<longrightarrow> ver' = ver)"
    then obtain w ver where c: "compat_entry vparse ic sans e = Inr (Some (w, ver))" "entry_candidate vparse sans iv e w ver"
      "\<forall>w' ver'. entry_candidate vparse sans iv e w' ver' \<longrightarrow> ver' = ver" by blast
    have "best_of vle (\<lambda>w ver. C w ver \<or> entry_candidate vparse sans iv e w ver) (better vle b (w, ver))"
      using best_of_better [where D = "entry_candidate vparse sans iv e"] assms(1) Cons.prems(2) c(2,3) by blast
    with Cons.IH Cons.prems(1) c(1) show ?thesis by (fastforce simp: disj_assoc)
  next
    assume n: "compat_entry vparse ic sans e = Inr None \<and> (\<nexists>w ver. entry_candidate vparse sans iv e w ver)"
    with Cons.IH [OF _ Cons.prems(2)] Cons.prems(1) show ?thesis by simp
  qed
qed

lemma map_import_semver_spec:
  assumes "order_laws vle" "\<not> import_overlap m impt"
  shows "(\<exists>w. map_import_semver vparse vle m impt = Inr (Some w) \<and> w \<in> import_level vparse vle m impt 4) \<or>
         map_import_semver vparse vle m impt = Inr None \<and> import_level vparse vle m impt 4 = {}"
proof -
  let ?sans = "sans_version impt"
  have no: "\<forall>e \<in> set m. \<not> wildcard_overlap (sans_version (fst e)) ?sans"
    using assms(2) by (auto simp: import_overlap_def)
  show ?thesis
  proof (cases "\<exists>iver ic iv. impt = ?sans @ CHR ''@'' # iver \<and> semver_compat_key vparse iver = Some (ic, iv)")
    case True
    then obtain iver ic iv where i: "impt = ?sans @ CHR ''@'' # iver" "semver_compat_key vparse iver = Some (ic, iv)"
      by blast
    from i(2) have iver: "vparse iver = Some iv" by (auto simp: semver_compat_key_def split: option.splits if_splits)
    have f: "str_find CHR ''@'' impt = Some (length ?sans)" "drop (Suc (length ?sans)) impt = iver"
      by (subst i(1), simp)+
    have cand: "compat_candidate vparse m impt w ver \<longleftrightarrow> (\<exists>e \<in> set m. entry_candidate vparse ?sans iv e w ver)" for w ver
    proof -
      have "impt = ?sans @ CHR ''@'' # iver' \<longleftrightarrow> iver' = iver" for iver' using i(1) by (metis append_same_eq list.inject same_append_eq)
      then show ?thesis unfolding compat_candidate_def entry_candidate_def using iver by fastforce
    qed
    obtain r where r: "best_compat vparse vle ic ?sans None m = Inr r" "best_of vle (compat_candidate vparse m impt) r"
      using best_compat_spec [OF assms(1) i(2) no, where C = "\<lambda>_ _. False" and b = None]
      by (auto simp: best_of_def cand [abs_def])
    have "map_import_semver vparse vle m impt = Inr (map_option fst r)"
      by (simp add: map_import_semver_def f i(2) r(1))
    with r(2) show ?thesis
      by (cases r) (auto simp: best_of_def import_level_def split: prod.splits)
  next
    case False
    have "compat_candidate vparse m impt w ver \<Longrightarrow> False" for w ver
    proof -
      assume "compat_candidate vparse m impt w ver"
      then obtain iver iv where "impt = ?sans @ CHR ''@'' # iver" "vparse iver = Some iv" "same_track ver iv"
        by (auto simp: compat_candidate_def)
      moreover from this(2,3) have "\<exists>ic. semver_compat_key vparse iver = Some (ic, iv)"
        by (auto simp: semver_compat_key_def same_track_def)
      ultimately show False using False by blast
    qed
    moreover have "map_import_semver vparse vle m impt = Inr None"
      using False by (auto simp: map_import_semver_def str_find_at split: option.splits)
    ultimately show ?thesis by (auto simp: import_level_def)
  qed
qed

definition first_level :: "(nat \<Rightarrow> string set) \<Rightarrow> string set" where
  "first_level L =
     (if L 0 \<noteq> {} then L 0 else if L 1 \<noteq> {} then L 1 else if L 2 \<noteq> {} then L 2 else if L 3 \<noteq> {} then L 3 else L 4)"

lemma map_import_first_level:
  assumes "distinct (map fst m)" "order_laws vle" "\<not> import_overlap m impt"
  shows "if first_level (import_level vparse vle m impt) = {}
         then map_import vparse vle (Some m) impt = Inr (sans_version impt, None)
         else \<exists>w \<in> first_level (import_level vparse vle m impt). map_import vparse vle (Some m) impt = parse_mapping w"
proof -
  let ?L = "import_level vparse vle m impt" and ?sans = "sans_version impt"
  have L: "?L 0 = set_option (map_of m impt)" "?L 1 = set_option (map_of m ?sans)"
    using assms(1) by (auto simp: import_level_def)
  have no: "\<forall>e \<in> set m. \<not> wildcard_overlap (fst e) impt \<and> \<not> wildcard_overlap (fst e) ?sans"
    using assms(3) by (auto simp: import_overlap_def)
  have w2: "(\<exists>w. first_wildcard (\<lambda>key. CHR ''@'' \<notin> set key) impt m = Inr (Some w) \<and> w \<in> ?L 2) \<or>
      first_wildcard (\<lambda>key. CHR ''@'' \<notin> set key) impt m = Inr None \<and> ?L 2 = {}"
    using first_wildcard_spec [where m = m and impt = impt and skip = "\<lambda>key. CHR ''@'' \<notin> set key"] no
    by (simp add: import_level_def)
  have w3: "(\<exists>w. first_wildcard (\<lambda>key. CHR ''@'' \<in> set key) ?sans m = Inr (Some w) \<and> w \<in> ?L 3) \<or>
      first_wildcard (\<lambda>key. CHR ''@'' \<in> set key) ?sans m = Inr None \<and> ?L 3 = {}"
    using first_wildcard_spec [where m = m and impt = ?sans and skip = "\<lambda>key. CHR ''@'' \<in> set key"] no
    by (simp add: import_level_def)
  have w4: "(\<exists>w. map_import_semver vparse vle m impt = Inr (Some w) \<and> w \<in> ?L 4) \<or>
      map_import_semver vparse vle m impt = Inr None \<and> ?L 4 = {}"
    using map_import_semver_spec [OF assms(2,3)] .
  show ?thesis
  proof (cases "map_of m impt")
    case (Some w)
    with L show ?thesis by (simp add: map_import_def first_level_def)
  next
    case None
    note n0 = this
    show ?thesis
    proof (cases "map_of m ?sans")
      case (Some w)
      with n0 L show ?thesis by (simp add: map_import_def first_level_def)
    next
      case None
      note n = n0 this
      from w2 show ?thesis
      proof
        assume "\<exists>w. first_wildcard (\<lambda>key. CHR ''@'' \<notin> set key) impt m = Inr (Some w) \<and> w \<in> ?L 2"
        with n L show ?thesis by (fastforce simp: map_import_def first_level_def)
      next
        assume e2: "first_wildcard (\<lambda>key. CHR ''@'' \<notin> set key) impt m = Inr None \<and> ?L 2 = {}"
        from w3 show ?thesis
        proof
          assume "\<exists>w. first_wildcard (\<lambda>key. CHR ''@'' \<in> set key) ?sans m = Inr (Some w) \<and> w \<in> ?L 3"
          with n L e2 show ?thesis by (fastforce simp: map_import_def first_level_def)
        next
          assume e3: "first_wildcard (\<lambda>key. CHR ''@'' \<in> set key) ?sans m = Inr None \<and> ?L 3 = {}"
          from w4 n L e2 e3 show ?thesis by (fastforce simp: map_import_def first_level_def)
        qed
      qed
    qed
  qed
qed

text \<open>C32. An import resolves to a mapping of the first nonempty of five levels: the entry for the import
  itself, the entry for the import without its version, a wildcard with a version, a wildcard without
  (applied to the import without its version), an entry of the same compatibility track (same major
  version, or major version 0 and same minor version, and no pre-release), where the highest version
  wins; the mapping is split at its first hash. When every level is empty the import keeps its name
  without the version. No step panics, unless the splitting does, provided that no wildcard's two
  parts overlap in the import.\<close>

theorem map_import_levels:
  assumes "distinct (map fst m)" "order_laws vle" "\<not> import_overlap m impt"
  shows "if first_level (import_level vparse vle m impt) = {}
         then map_import vparse vle (Some m) impt = Inr (sans_version impt, None)
         else \<exists>w \<in> first_level (import_level vparse vle m impt). map_import vparse vle (Some m) impt = parse_mapping w"
  using assms by (rule map_import_first_level)

text \<open>The specification computes: for the demonstrations.\<close>

lemma wildcard_overlap_code [code]:
  "wildcard_overlap key impt = (case resolve_wildcard_mapping key [] impt of Inl e \<Rightarrow> True | Inr r \<Rightarrow> False)"
  using resolve_Inl [of key "[]" impt] overlap_resolve [of key impt "[]"] by (auto split: sum.splits)

lemma wildcard_match_code [code]:
  "wildcard_match key mapping impt w \<longleftrightarrow> resolve_wildcard_mapping key mapping impt = Inr (Some w)"
  by (simp add: resolve_Some)

definition demo_vparse :: "string \<Rightarrow> version option" where
  "demo_vparse s =
     map_of (map (\<lambda>n. (''0.2.'' @ show_nat n, \<lparr>major = 0, minor = 2, patch = n, pre = [], build = []\<rparr>)) [0..<11]) s"

definition demo_vle :: "version \<Rightarrow> version \<Rightarrow> bool" where
  "demo_vle a b \<longleftrightarrow> major a < major b \<or> major a = major b \<and>
     (minor a < minor b \<or> minor a = minor b \<and> patch a \<le> patch b)"

lemma demo_laws: "order_laws demo_vle"
  by (auto simp: order_laws_def demo_vle_def)

definition demo_imports :: import_map where
  "demo_imports =
     [(''wasi:cli/*'', ''./cli.js#*''), (''wasi:http/types@0.2.1'', ''./http-old.js''),
      (''wasi:http/types@0.2.5'', ''./http-new.js'')]"

theorem map_import_levels_witness:
  "(if first_level (import_level demo_vparse demo_vle demo_imports ''wasi:http/types@0.2.10'') = {}
    then map_import demo_vparse demo_vle (Some demo_imports) ''wasi:http/types@0.2.10'' = Inr (''wasi:http/types'', None)
    else \<exists>w \<in> first_level (import_level demo_vparse demo_vle demo_imports ''wasi:http/types@0.2.10'').
           map_import demo_vparse demo_vle (Some demo_imports) ''wasi:http/types@0.2.10'' = parse_mapping w) \<and>
   map_import demo_vparse demo_vle (Some demo_imports) ''wasi:http/types@0.2.10'' = Inr (''./http-new.js'', None) \<and>
   map_import demo_vparse demo_vle (Some demo_imports) ''wasi:cli/stdout@0.2.6'' = Inr (''./cli.js'', Some ''stdout'')"
proof (intro conjI)
  have d: "distinct (map fst demo_imports)" by code_simp
  have o: "\<not> import_overlap demo_imports ''wasi:http/types@0.2.10''" by code_simp
  have s: "sans_version ''wasi:http/types@0.2.10'' = ''wasi:http/types''" by code_simp
  show "if first_level (import_level demo_vparse demo_vle demo_imports ''wasi:http/types@0.2.10'') = {}
    then map_import demo_vparse demo_vle (Some demo_imports) ''wasi:http/types@0.2.10'' = Inr (''wasi:http/types'', None)
    else \<exists>w \<in> first_level (import_level demo_vparse demo_vle demo_imports ''wasi:http/types@0.2.10'').
           map_import demo_vparse demo_vle (Some demo_imports) ''wasi:http/types@0.2.10'' = parse_mapping w"
    using map_import_levels [OF d demo_laws o, where vparse = demo_vparse] unfolding s .
  show "map_import demo_vparse demo_vle (Some demo_imports) ''wasi:http/types@0.2.10'' = Inr (''./http-new.js'', None)"
    by code_simp
  show "map_import demo_vparse demo_vle (Some demo_imports) ''wasi:cli/stdout@0.2.6'' = Inr (''./cli.js'', Some ''stdout'')"
    by code_simp
qed

section \<open>The order of the map\<close>

lemma first_level_cong:
  assumes "set m = set m'"
  shows "import_level vparse vle m impt = import_level vparse vle m' impt"
  using assms by (intro ext) (simp add: import_level_def compat_candidate_def)

text \<open>The result does not depend on the order in which the map is iterated, provided that the first
  nonempty level has one mapping and no wildcard's two parts overlap in the import.\<close>

theorem map_import_order_free:
  assumes "distinct (map fst m)" "distinct (map fst m')" "set m = set m'" "order_laws vle" "\<not> import_overlap m impt"
    and "\<And>w w'. w \<in> first_level (import_level vparse vle m impt) \<Longrightarrow>
              w' \<in> first_level (import_level vparse vle m impt) \<Longrightarrow> w = w'"
  shows "map_import vparse vle (Some m) impt = map_import vparse vle (Some m') impt"
proof -
  have L: "import_level vparse vle m' impt = import_level vparse vle m impt"
    using assms(3) first_level_cong by metis
  have o: "\<not> import_overlap m' impt" using assms(3,5) by (simp add: import_overlap_def)
  show ?thesis
    using map_import_first_level [OF assms(1,4,5), of vparse] map_import_first_level [OF assms(2,4) o, of vparse]
      assms(6) unfolding L by (smt (verit))
qed

definition demo_wild :: import_map where
  "demo_wild = [(''wasi:http/*'', ''./http.js#*''), (''wasi:io/*'', ''./io.js#*'')]"

theorem map_import_order_free_witness:
  "map_import demo_vparse demo_vle (Some demo_wild) ''wasi:io/poll@0.2.1'' =
   map_import demo_vparse demo_vle (Some (rev demo_wild)) ''wasi:io/poll@0.2.1''"
proof (rule map_import_order_free [OF _ _ _ demo_laws])
  let ?L = "import_level demo_vparse demo_vle demo_wild ''wasi:io/poll@0.2.1''"
  have s: "sans_version ''wasi:io/poll@0.2.1'' = ''wasi:io/poll''" by code_simp
  have r: "resolve_wildcard_mapping ''wasi:http/*'' ''./http.js#*'' ''wasi:io/poll'' = Inr None"
    "resolve_wildcard_mapping ''wasi:io/*'' ''./io.js#*'' ''wasi:io/poll'' = Inr (Some ''./io.js#poll'')"
    by code_simp+
  have L: "?L 0 = {}" "?L 1 = {}" "?L 2 = {}" "?L 3 = {''./io.js#poll''}"
    by (simp_all add: import_level_def demo_wild_def s r flip: resolve_Some)
  show "w = w'" if "w \<in> first_level ?L" "w' \<in> first_level ?L" for w w'
    using that unfolding first_level_def L by simp
qed (code_simp; simp add: demo_wild_def)+

text \<open>Where several keys apply, the order decides, and Rust seeds it at random: two wildcards that
  match the same import, and two keys with the same compatible version, give either of their mappings.\<close>

theorem map_import_order_matters:
  "map_import demo_vparse demo_vle
     (Some [(''wasi:*'', ''./wasi.js#*''), (''wasi:http/*'', ''./http.js#*'')]) ''wasi:http/types'' =
     Inr (''./wasi.js'', Some ''http/types'') \<and>
   map_import demo_vparse demo_vle
     (Some [(''wasi:http/*'', ''./http.js#*''), (''wasi:*'', ''./wasi.js#*'')]) ''wasi:http/types'' =
     Inr (''./http.js'', Some ''types'') \<and>
   map_import demo_vparse demo_vle
     (Some [(''wasi:http/*@0.2.1'', ''./http.js#*''), (''wasi:http/types@0.2.1'', ''./types.js'')])
     ''wasi:http/types@0.2.10'' = Inr (''./http.js'', Some ''types'') \<and>
   map_import demo_vparse demo_vle
     (Some [(''wasi:http/types@0.2.1'', ''./types.js''), (''wasi:http/*@0.2.1'', ''./http.js#*'')])
     ''wasi:http/types@0.2.10'' = Inr (''./types.js'', None)"
  by (intro conjI; code_simp)

section \<open>The other functions\<close>

text \<open>A mapping is split at the first hash after its first byte, and nothing is lost.\<close>

lemma parse_mapping_rejoin:
  assumes "parse_mapping mapping = Inr (specifier, member)"
  shows "mapping = specifier @ (case member of Some m \<Rightarrow> CHR ''#'' # m | None \<Rightarrow> []) \<and> CHR ''#'' \<notin> set (drop 1 specifier)"
proof (cases mapping)
  case Nil
  with assms show ?thesis by (simp add: parse_mapping_def)
next
  case (Cons x t)
  show ?thesis
  proof (cases "str_find CHR ''#'' t")
    case None
    moreover from this have "CHR ''#'' \<notin> set t" using str_find_None by metis
    ultimately show ?thesis using assms Cons by (auto simp: parse_mapping_def split: if_splits)
  next
    case (Some i)
    then obtain l r where "t = l @ CHR ''#'' # r" "CHR ''#'' \<notin> set l" "i = length l" by (rule str_find_SomeE)
    with Some assms Cons show ?thesis by (auto simp: parse_mapping_def split: if_splits)
  qed
qed

lemma parse_mapping_panics_iff:
  "(\<exists>e. parse_mapping mapping = Inl e) \<longleftrightarrow> 1 < length mapping \<and> continuation_byte (mapping ! 1)"
  by (simp add: parse_mapping_def split: option.splits)

text \<open>A mapping that starts with a letter outside ASCII, here \<open>C3 A9\<close>, panics.\<close>

lemma parse_mapping_non_ascii: "parse_mapping (char_of (195 :: nat) # char_of (169 :: nat) # ''.js'') = Inl (Panic ''byte index 1 is not a char boundary'')"
  by code_simp

lemma wildcard_overlap_example: "wildcard_overlap ''a:b*b'' ''a:b''"
  by code_simp

text \<open>An explicit mapping of a label is not overruled by the interface it implements, unless it maps the
  label to itself.\<close>

lemma with_implements_explicit:
  assumes "map_import vparse vle mp impt = Inr r" "r \<noteq> (impt, None)"
  shows "map_import_with_implements vparse vle mp impt implements = Inr r"
  using assms by (cases r) (auto simp: map_import_with_implements_def)

lemma with_implements_fallback:
  assumes "map_import vparse vle mp impt = Inr (impt, None)" "map_import vparse vle mp target = Inr r"
    "r \<noteq> (sans_version target, None)"
  shows "map_import_with_implements vparse vle mp impt (Some target) = Inr r"
  using assms by (cases r) (auto simp: map_import_with_implements_def)

lemma with_implements_identity:
  "map_import_with_implements demo_vparse demo_vle (Some [(''log'', ''log''), (''wasi:logging/logger'', ''./logger.js'')])
     ''log'' (Some ''wasi:logging/logger'') = Inr (''./logger.js'', None)"
  by code_simp

lemma str_rfind_Some:
  assumes "c \<notin> set r"
  shows "str_rfind c (l @ c # r) = Some (length l)"
  using assms by (simp add: str_rfind_def)

lemma str_rfind_None: "c \<notin> set s \<Longrightarrow> str_rfind c s = None"
  using str_find_None [of c "rev s"] by (simp add: str_rfind_def)

lemma parse_world_key_versioned:
  assumes "CHR '':'' \<notin> set ns" "CHR ''/'' \<notin> set iface" "CHR ''/'' \<notin> set ver" "CHR ''@'' \<notin> set ver"
  shows "parse_world_key (ns @ CHR '':'' # package @ CHR ''/'' # iface @ CHR ''@'' # ver) = Inr (Some (ns, package, iface))"
proof -
  let ?name = "ns @ CHR '':'' # package @ CHR ''/'' # iface @ CHR ''@'' # ver"
  have "str_rfind CHR ''/'' ?name = Some (length (ns @ CHR '':'' # package))"
    using str_rfind_Some [of "CHR ''/''" "iface @ CHR ''@'' # ver" "ns @ CHR '':'' # package"] assms(2,3) by simp
  moreover have "str_rfind CHR ''@'' ?name = Some (length (ns @ CHR '':'' # package @ CHR ''/'' # iface))"
    using str_rfind_Some [of "CHR ''@''" ver "ns @ CHR '':'' # package @ CHR ''/'' # iface"] assms(4) by simp
  ultimately show ?thesis using assms(1) by (simp add: parse_world_key_def Let_def str_slice_def)
qed

lemma parse_world_key_panics: "parse_world_key ''a:b@1/c'' = Inl (Panic ''byte range out of bounds'')"
  by code_simp

lemma core_file_name_inj:
  assumes "core_file_name name i = Inr f" "core_file_name name j = Inr f"
  shows "i = j"
proof -
  have "show_nat (Suc n) \<noteq> []" for n by (rule show_nat_nonempty)
  with assms show ?thesis by (auto simp: core_file_name_def Let_def split: if_splits dest!: show_nat_inj)
qed

end
