(* ===== verification/Ts_World.thy ===== *)
theory Ts_World
  imports Ts_Bindgen Import_Map
begin

text \<open>
  The declarations of a world (\<open>TsBindgen\<close> and \<open>ts_bindgen\<close> in \<open>src/crates/js-component-bindgen/src/ts_bindgen.rs\<close>): the
  imports and exports in their order, the import and export objects, the helper types and the declaration of
  \<open>instantiate\<close>. The number of an interface stands for the interface; \<open>id_of\<close> of the resolver is part of the
  surroundings.
\<close>

section \<open>Imports and exports of interfaces\<close>

definition apostrophes :: "string \<Rightarrow> string" where
  "apostrophes s = [CHR 0x27] @ s @ [CHR 0x27]"

definition import_interface :: "'v ts_env \<Rightarrow> string \<Rightarrow> 'v interface \<Rightarrow> ts_bindgen \<times> files \<Rightarrow> (string \<times> ts_bindgen \<times> files) rust" where
  "import_interface te name iface bf =
     (let id_name = (case if_id iface of Some i \<Rightarrow> i | None \<Rightarrow> name);
          goal_name = interface_goal_name (te_heck te) id_name in
      rbind (generate_interface te name iface False bf) (\<lambda>(file_name, b, fs).
      rbind (get_or_create (lower_camel (te_heck te)) (te_hash te file_name) goal_name (bg_local_names b)) (\<lambda>((l, local_exists), ln).
        let local_name = upper_camel (te_heck te) l;
            b = b\<lparr>bg_local_names := ln\<rparr>;
            b = (if local_exists then b
                 else b\<lparr>bg_src := uwrite [''import type * as '', local_name, '' from '' @ [CHR 0x27], file_name, [CHR 0x27] @ ''; // '', id_name, [NL]]
                   (bg_src b)\<rparr>)
        in Inr (local_name, b, fs))))"

definition write_import_object :: "string list \<Rightarrow> ts_bindgen \<Rightarrow> ts_bindgen" where
  "write_import_object parts b = b\<lparr>import_object := uwrite parts (import_object b)\<rparr>"

definition write_export_object :: "string list \<Rightarrow> ts_bindgen \<Rightarrow> ts_bindgen" where
  "write_export_object parts b = b\<lparr>export_object := uwrite parts (export_object b)\<rparr>"

definition write_world :: "string list \<Rightarrow> ts_bindgen \<Rightarrow> ts_bindgen" where
  "write_world parts b = b\<lparr>bg_src := uwrite parts (bg_src b)\<rparr>"

definition world_import_interface ::
    "'v ts_env \<Rightarrow> bool \<Rightarrow> string \<Rightarrow> 'v interface \<Rightarrow> ts_bindgen \<times> files \<Rightarrow> (ts_bindgen \<times> files) rust" where
  "world_import_interface te instantiation name iface bf =
     (if instantiation
      then rbind (import_interface te name iface bf) (\<lambda>(local_name, b, fs).
        Inr (write_import_object [maybe_quote_id name, '': typeof '', local_name, '','' @ [NL]] b, fs))
      else
        let id_name = (case if_id iface of Some i \<Rightarrow> i | None \<Rightarrow> name) in
        rbind (generate_interface te id_name iface False bf) (\<lambda>(import_path, b, fs).
        Inr (write_world [''export type * as '', upper_camel (te_heck te) name, '' from '' @ [CHR 0x27], import_path,
               [CHR 0x27] @ ''; // import '', id_name, [NL]] b, fs)))"

primrec import_members ::
    "'v ts_env \<Rightarrow> (string \<times> 'v interface) list \<Rightarrow> ts_bindgen \<times> files \<Rightarrow> (ts_bindgen \<times> files) rust" where
  "import_members te [] bf = Inr bf"
| "import_members te (m # ms) bf =
     rbind (the_id (if_name (snd m))) (\<lambda>name.
     rbind (import_interface te name (snd m) bf) (\<lambda>(local_name, b, fs).
       import_members te ms (write_import_object [lower_camel (te_heck te) (fst m), '': typeof '', local_name, '','' @ [NL]] b, fs)))"

primrec import_types ::
    "'v ts_env \<Rightarrow> (string \<times> 'v interface) list \<Rightarrow> ts_bindgen \<times> files \<Rightarrow> (ts_bindgen \<times> files) rust" where
  "import_types te [] bf = Inr bf"
| "import_types te (m # ms) bf =
     rbind (the_id (if_id (snd m))) (\<lambda>id_name.
     rbind (generate_interface te id_name (snd m) False bf) (\<lambda>(import_path, b, fs).
       import_types te ms (write_world [''export type * as '', upper_camel (te_heck te) id_name, '' from '' @ [CHR 0x27], import_path,
         [CHR 0x27] @ ''; // import '', id_name, [NL]] b, fs)))"

definition world_import_interfaces ::
    "'v ts_env \<Rightarrow> bool \<Rightarrow> string \<Rightarrow> (string \<times> 'v interface) list \<Rightarrow> ts_bindgen \<times> files \<Rightarrow> (ts_bindgen \<times> files) rust" where
  "world_import_interfaces te instantiation import_name ifaces bf =
     (if \<not> instantiation then import_types te ifaces bf
      else
        let several =
          (case bf of (b, fs) \<Rightarrow>
             rbind (import_members te ifaces (write_import_object [maybe_quote_id import_name, '': {'' @ [NL]] b, fs)) (\<lambda>(b, fs).
               Inr (write_import_object [''},'' @ [NL]] b, fs))) in
        case ifaces of
          [(iface_name, iface)] \<Rightarrow>
            if iface_name = ''*'' then
              (case bf of (b, fs) \<Rightarrow>
                 rbind (the_id (if_name iface)) (\<lambda>name.
                 rbind (import_interface te name iface (write_import_object [maybe_quote_id import_name, '': ''] b, fs)) (\<lambda>(local_name, b, fs).
                   Inr (write_import_object [''typeof '', local_name, '','' @ [NL]] b, fs))))
            else several
        | _ \<Rightarrow> several)"

definition export_interface ::
    "'v ts_env \<Rightarrow> bool \<Rightarrow> string \<Rightarrow> 'v interface \<Rightarrow> ts_bindgen \<times> files \<Rightarrow> (ts_bindgen \<times> files) rust" where
  "export_interface te instantiation export_name iface bf =
     (if instantiation
      then rbind (import_interface te export_name iface bf) (\<lambda>(local_name, b, fs).
        Inr (write_export_object [maybe_quote_id export_name, '': typeof '', local_name, '','' @ [NL]] b, fs))
      else if export_name \<noteq> maybe_quote_id export_name then Inr bf
      else
        let id_name = (case if_id iface of Some i \<Rightarrow> i | None \<Rightarrow> export_name) in
        rbind (generate_interface te export_name iface True bf) (\<lambda>(file_name, b, fs).
        Inr (write_export_object [''export * as '', export_name, '' from '' @ [CHR 0x27], file_name, [CHR 0x27] @ ''; // export '', id_name, [NL]] b, fs)))"

section \<open>Functions of the world\<close>

definition add_references :: "string list \<Rightarrow> ts_bindgen \<Rightarrow> ts_bindgen" where
  "add_references rs b = b\<lparr>bg_references := fold bset_insert rs (bg_references b)\<rparr>"

definition import_funcs :: "'v ts_env \<Rightarrow> string \<Rightarrow> 'v ts_function \<Rightarrow> ts_bindgen \<Rightarrow> ts_bindgen rust" where
  "import_funcs te import_name f b =
     (let b = write_import_object [maybe_quote_id import_name, '': {'' @ [NL]] b in
      rbind (ts_func (te_heck te) (te_hash te) f True False False False (ts_iface_new False (bg_is_guest b))) (\<lambda>s.
        case ts_finish (te_heck te) s of
          (src, refs) \<Rightarrow>
            let b = add_references refs (b\<lparr>import_object := push_str (src_text src) (import_object b)\<rparr>) in
            Inr (write_import_object [''},'' @ [NL]] b)))"

text \<open>The kind behind an alias decides whether a function needs a helper type.\<close>

definition mark_type :: "wtype \<Rightarrow> ts_iface \<Rightarrow> ts_iface" where
  "mark_type ty s =
     (case ty of
        WId d \<Rightarrow>
          (case def_kind (dealias d) of
             KOption _ \<Rightarrow> s\<lparr>needs_ty_option := True\<rparr>
           | KResult _ _ \<Rightarrow> s\<lparr>needs_ty_result := True\<rparr>
           | _ \<Rightarrow> s)
      | _ \<Rightarrow> s)"

definition parameter_and_result_types :: "'v ts_function \<Rightarrow> wtype list" where
  "parameter_and_result_types f = map snd (fn_params f) @ (case fn_result f of Some t \<Rightarrow> [t] | None \<Rightarrow> [])"

primrec export_func_texts ::
    "'v ts_env \<Rightarrow> string \<Rightarrow> string list \<Rightarrow> bool \<Rightarrow> (string \<times> 'v ts_function) list \<Rightarrow> ts_iface \<Rightarrow> ts_iface rust" where
  "export_func_texts te id_name asyncs declaration [] s = Inr s"
| "export_func_texts te id_name asyncs declaration (f # fs) s =
     rbind (ts_func (te_heck te) (te_hash te) (snd f) False declaration (requires_async_porcelain (fn_name (snd f)) id_name asyncs) True
             (fold mark_type (parameter_and_result_types (snd f)) s))
       (export_func_texts te id_name asyncs declaration fs)"

definition export_funcs ::
    "'v ts_env \<Rightarrow> string \<Rightarrow> (string \<times> 'v ts_function) list \<Rightarrow> bool \<Rightarrow> ts_bindgen \<Rightarrow> ts_bindgen rust" where
  "export_funcs te world_name funcs declaration b =
     rbind (export_func_texts te world_name (async_exports b) declaration funcs (ts_iface_new False (bg_is_guest b))) (\<lambda>s.
       let b = b\<lparr>bg_needs_option := bg_needs_option b \<or> any_option s, bg_needs_result := bg_needs_result b \<or> any_result s\<rparr> in
       case ts_finish (te_heck te) s of
         (src, refs) \<Rightarrow> Inr (add_references refs (b\<lparr>export_object := push_str (src_text src) (export_object b)\<rparr>)))"

section \<open>The world\<close>

datatype 'v world_key = KeyName string | KeyInterface "'v interface"

text \<open>A type comes with its stability.\<close>

datatype 'v world_item =
    ItemFunction "'v ts_function"
  | ItemInterface "'v interface" "'v stability"
  | ItemType tdef "'v stability"

datatype instantiation_mode = InstAsync | InstSync

datatype async_mode = ModeSync | JSPromiseIntegration "string list" "string list"

record ts_opts =
  op_guest :: bool
  op_instantiation :: "instantiation_mode option"
  op_tla_compat :: bool
  op_asmjs :: bool
  op_async :: "async_mode option"

text \<open>\<open>w_interface_id\<close> is the answer of \<open>package.name.interface_id\<close> for the world, \<open>None\<close> when the world has no package.\<close>

record 'v ts_world =
  w_name :: string
  w_interface_id :: "string option"
  w_imports :: "('v world_key \<times> 'v world_item) list"
  w_exports :: "('v world_key \<times> 'v world_item) list"

text \<open>What the loop over the imports collects beside the text.\<close>

type_synonym 'v import_groups = "(string \<times> (string \<times> 'v interface) list) list"

definition ts_world_key :: "string \<Rightarrow> string rust" where
  "ts_world_key spec =
     rbind (parse_world_key spec) (\<lambda>k. case k of
         Some (_, _, iface) \<Rightarrow> Inr iface
       | None \<Rightarrow> Inl (Panic ''called Option::unwrap() on a None value''))"

definition add_import_group :: "string \<Rightarrow> string \<Rightarrow> 'v interface \<Rightarrow> 'v import_groups \<Rightarrow> 'v import_groups" where
  "add_import_group spec iface_name iface gs =
     (case map_of gs spec of
        None \<Rightarrow> bt_put spec [(''*'', iface)] gs
      | Some ms \<Rightarrow> bt_put spec (ms @ [(iface_name, iface)]) gs)"

text \<open>A type of the world is printed by a generator of its own, with its documentation twice, and its owner is no interface.\<close>

definition world_type :: "'v ts_env \<Rightarrow> tdef \<Rightarrow> ts_bindgen \<Rightarrow> ts_bindgen rust" where
  "world_type te d b =
     rbind (the_id (def_name d)) (\<lambda>name.
     rbind (ts_type (te_heck te) (te_id_of te) None False (name, d) (print_docs (def_docs d) (ts_iface_new True (bg_is_guest b)))) (\<lambda>s.
       case ts_finish (te_heck te) s of
         (src, refs) \<Rightarrow> Inr (add_references refs (b\<lparr>bg_src := push_str (src_text src) (bg_src b)\<rparr>))))"

definition world_import ::
    "'v ts_env \<Rightarrow> bool \<Rightarrow> 'v world_key \<times> 'v world_item \<Rightarrow>
     (string \<times> 'v ts_function) list \<times> 'v import_groups \<times> ts_bindgen \<times> files \<Rightarrow>
     ((string \<times> 'v ts_function) list \<times> 'v import_groups \<times> ts_bindgen \<times> files) rust" where
  "world_import te instantiation item st =
     (case (item, st) of ((key, it), (funcs, groups, b, fs)) \<Rightarrow>
        case it of
          ItemFunction f \<Rightarrow>
            rbind (feature_gate_allowed (te_package te) (fn_stability f)) (\<lambda>allowed.
            if \<not> allowed then Inr st
            else (case key of
                KeyName name \<Rightarrow> Inr (funcs @ [(name, f)], groups, b, fs)
              | KeyInterface i \<Rightarrow> rbind (the_id (if_id i)) (\<lambda>name. Inr (funcs @ [(name, f)], groups, b, fs))))
        | ItemInterface iface stability \<Rightarrow>
            rbind (feature_gate_allowed (te_package te) stability) (\<lambda>allowed.
            if \<not> allowed then rbind (the_id (if_id iface)) (\<lambda>spec. rbind (ts_world_key spec) (\<lambda>_. Inr st))
            else (case key of
                KeyName name \<Rightarrow>
                  rbind (world_import_interface te instantiation name iface (b, fs)) (\<lambda>(b, fs). Inr (funcs, groups, b, fs))
              | KeyInterface i \<Rightarrow>
                  rbind (the_id (if_id i)) (\<lambda>spec.
                  rbind (ts_world_key spec) (\<lambda>iface_name.
                    Inr (funcs, add_import_group spec iface_name i groups, b, fs)))))
        | ItemType d stability \<Rightarrow>
            rbind (the_id (def_name d)) (\<lambda>_.
            rbind (feature_gate_allowed (te_package te) stability) (\<lambda>allowed.
            if \<not> allowed then Inr st
            else rbind (world_type te d b) (\<lambda>b. Inr (funcs, groups, b, fs)))))"

primrec fold_rust :: "('x \<Rightarrow> 's \<Rightarrow> 's rust) \<Rightarrow> 'x list \<Rightarrow> 's \<Rightarrow> 's rust" where
  "fold_rust step [] s = Inr s"
| "fold_rust step (x # xs) s = rbind (step x s) (fold_rust step xs)"

definition world_imports :: "'v ts_env \<Rightarrow> bool \<Rightarrow> 'v ts_world \<Rightarrow> ts_bindgen \<times> files \<Rightarrow> (ts_bindgen \<times> files) rust" where
  "world_imports te instantiation w bf =
     (case bf of (b, fs) \<Rightarrow>
      rbind (fold_rust (world_import te instantiation) (w_imports w) ([], [], b, fs)) (\<lambda>(funcs, groups, b, fs).
      rbind (fold_rust (\<lambda>(name, f). import_funcs te name f) funcs b) (\<lambda>b.
        fold_rust (\<lambda>(name, members). world_import_interfaces te instantiation name members) groups (b, fs))))"

definition world_export ::
    "'v ts_env \<Rightarrow> bool \<Rightarrow> 'v world_key \<times> 'v world_item \<Rightarrow> (string \<times> 'v ts_function) list \<times> ts_bindgen \<times> files \<Rightarrow>
     ((string \<times> 'v ts_function) list \<times> ts_bindgen \<times> files) rust" where
  "world_export te instantiation item st =
     (case (item, st) of ((key, it), (funcs, b, fs)) \<Rightarrow>
        case it of
          ItemFunction f \<Rightarrow>
            (case key of
               KeyInterface _ \<Rightarrow> Inl (Panic ''unexpected interface export during export processing'')
             | KeyName export_name \<Rightarrow>
                 rbind (feature_gate_allowed (te_package te) (fn_stability f)) (\<lambda>allowed.
                   if \<not> allowed then Inr st else Inr (funcs @ [(lower_camel (te_heck te) export_name, f)], b, fs)))
        | ItemInterface iface stability \<Rightarrow>
            rbind (case key of
                     KeyName export_name \<Rightarrow> Inr (export_name, export_name)
                   | KeyInterface i \<Rightarrow>
                       rbind (the_id (if_id i)) (\<lambda>iface_id. rbind (ts_world_key iface_id) (\<lambda>iface_name. Inr (iface_id, iface_name))))
              (\<lambda>(export_name, iface_name).
            rbind (feature_gate_allowed (te_package te) stability) (\<lambda>allowed.
            if \<not> allowed then Inr st
            else rbind (export_interface te instantiation export_name iface (b, fs)) (\<lambda>bf.
                 let alt_export_name = lower_camel (te_heck te) iface_name in
                 rbind (if alt_export_name \<noteq> export_name then export_interface te instantiation alt_export_name iface bf else Inr bf)
                   (\<lambda>(b, fs). Inr (funcs, b, fs)))))
        | ItemType _ _ \<Rightarrow> Inl (Panic ''type exports''))"

definition world_exports :: "'v ts_env \<Rightarrow> bool \<Rightarrow> 'v ts_world \<Rightarrow> ts_bindgen \<times> files \<Rightarrow> (ts_bindgen \<times> files) rust" where
  "world_exports te instantiation w bf =
     (case bf of (b, fs) \<Rightarrow>
      rbind (fold_rust (world_export te instantiation) (w_exports w) ([], b, fs)) (\<lambda>(funcs, b, fs).
        if funcs = [] then Inr (b, fs)
        else rbind (export_funcs te (w_name w) funcs (\<not> instantiation) b) (\<lambda>b. Inr (b, fs))))"

section \<open>The main file\<close>

text \<open>The declaration of \<open>instantiate\<close>, piece by piece as the format string has it.\<close>

definition INSTANTIATE_ASMJS :: "string \<Rightarrow> string list" where
  "INSTANTIATE_ASMJS ret =
    [[NL] @ ''                /**'' @ [NL] @ ''                 * Instantiates this component with the provided imports and'' @ [NL]
       @ ''                 * returns a map of all the exports of the component.'' @ [NL] @ ''                 *'' @ [NL]
       @ ''                 * This function is intended to be similar to the'' @ [NL] @ ''                 * `WebAssembly.instantiate` function, but simplified'' @ [NL]
       @ ''                 * for `wasm2js` (asm.js) output. The `imports` argument'' @ [NL]
       @ ''                 * is the '' @ [CHR 0x22] @ ''import object'' @ [CHR 0x22] @ '' for transpiled core wasm,'' @ [NL]
       @ ''                 * except here it uses component-model-layer types instead of'' @ [NL]
       @ ''                 * core wasm integers/numbers/etc.'' @ [NL] @ ''                 */'' @ [NL]
       @ ''                export function instantiate('' @ [NL] @ ''                    imports: ImportObject,'' @ [NL]
       @ ''                ): '',
     ret,
     '';'' @ [NL] @ ''                '' @ [NL]]"

definition INSTANTIATE_ASYNC :: "string \<Rightarrow> string list" where
  "INSTANTIATE_ASYNC camel =
    [[NL] @ ''                /**'' @ [NL] @ ''                 * Instantiates this component with the provided imports and'' @ [NL]
       @ ''                 * returns a map of all the exports of the component.'' @ [NL] @ ''                 *'' @ [NL]
       @ ''                 * This function is intended to be similar to the'' @ [NL] @ ''                 * `WebAssembly.Instantiate` constructor. The second `imports`'' @ [NL]
       @ ''                 * argument is the '' @ [CHR 0x22] @ ''import object'' @ [CHR 0x22] @ '' for wasm, except here it'' @ [NL]
       @ ''                 * uses component-model-layer types instead of core wasm'' @ [NL]
       @ ''                 * integers/numbers/etc.'' @ [NL] @ ''                 *'' @ [NL]
       @ ''                 * The first argument to this function, `getCoreModule`, is'' @ [NL]
       @ ''                 * used to compile core wasm modules within the component.'' @ [NL]
       @ ''                 * Components are composed of core wasm modules and this callback'' @ [NL]
       @ ''                 * will be invoked per core wasm module. The caller of this'' @ [NL]
       @ ''                 * function is responsible for reading the core wasm module'' @ [NL]
       @ ''                 * identified by `path` and returning its compiled'' @ [NL] @ ''                 * `WebAssembly.Module` object. This would use the'' @ [NL]
       @ ''                 * `WebAssembly.Module` constructor on the web, for example.'' @ [NL]
       @ ''                 */'' @ [NL] @ ''                export function instantiate('' @ [NL]
       @ ''                    getCoreModule: (path: string) => WebAssembly.Module,'' @ [NL]
       @ ''                    imports: ImportObject,'' @ [NL] @ ''                    instantiateCore?: (module: WebAssembly.Module, imports: Record<string, any>) => WebAssembly.Instance'' @ [NL]
       @ ''                ): '',
     camel,
     '';'' @ [NL] @ ''                export function instantiate('' @ [NL] @ ''                    getCoreModule: (path: string) => WebAssembly.Module | Promise<WebAssembly.Module>,'' @ [NL]
       @ ''                    imports: ImportObject,'' @ [NL] @ ''                    instantiateCore?: (module: WebAssembly.Module, imports: Record<string, any>) => WebAssembly.Instance | Promise<WebAssembly.Instance>'' @ [NL]
       @ ''                ): '',
     camel,
     '' | Promise<'',
     camel,
     ''>;'' @ [NL] @ ''                '' @ [NL]]"

definition INSTANTIATE_SYNC :: "string \<Rightarrow> string list" where
  "INSTANTIATE_SYNC camel =
    [[NL] @ ''                    /**'' @ [NL] @ ''                     * Instantiates this component with the provided imports and'' @ [NL]
       @ ''                     * returns a map of all the exports of the component.'' @ [NL]
       @ ''                     *'' @ [NL] @ ''                     * This function is intended to be similar to the'' @ [NL]
       @ ''                     * `WebAssembly.Instantiate` constructor. The second `imports`'' @ [NL]
       @ ''                     * argument is the '' @ [CHR 0x22] @ ''import object'' @ [CHR 0x22] @ '' for wasm, except here it'' @ [NL]
       @ ''                     * uses component-model-layer types instead of core wasm'' @ [NL]
       @ ''                     * integers/numbers/etc.'' @ [NL] @ ''                     *'' @ [NL]
       @ ''                     * The first argument to this function, `getCoreModule`, is'' @ [NL]
       @ ''                     * used to compile core wasm modules within the component.'' @ [NL]
       @ ''                     * Components are composed of core wasm modules and this callback'' @ [NL]
       @ ''                     * will be invoked per core wasm module. The caller of this'' @ [NL]
       @ ''                     * function is responsible for reading the core wasm module'' @ [NL]
       @ ''                     * identified by `path` and returning its compiled'' @ [NL] @ ''                     * `WebAssembly.Module` object. This would use the'' @ [NL]
       @ ''                     * `WebAssembly.Module` constructor on the web, for example.'' @ [NL]
       @ ''                     */'' @ [NL] @ ''                    export function instantiate('' @ [NL]
       @ ''                        getCoreModule: (path: string) => WebAssembly.Module,'' @ [NL]
       @ ''                        imports: ImportObject,'' @ [NL] @ ''                        instantiateCore?: (module: WebAssembly.Module, imports: Record<string, any>) => WebAssembly.Instance'' @ [NL]
       @ ''                    ): '',
     camel,
     '';'' @ [NL] @ ''                    '' @ [NL]]"

definition write_instantiate :: "ts_opts \<Rightarrow> string \<Rightarrow> ts_bindgen \<Rightarrow> ts_bindgen" where
  "write_instantiate opts camel b =
     (case op_instantiation opts of
        None \<Rightarrow> b
      | Some mode \<Rightarrow>
          if op_asmjs opts
          then write_world (INSTANTIATE_ASMJS (case mode of InstAsync \<Rightarrow> ''Promise<'' @ camel @ ''>'' | InstSync \<Rightarrow> camel)) b
          else (case mode of
              InstAsync \<Rightarrow> write_world (INSTANTIATE_ASYNC camel) b
            | InstSync \<Rightarrow> write_world (INSTANTIATE_SYNC camel) b))"

definition push_world :: "string \<Rightarrow> ts_bindgen \<Rightarrow> ts_bindgen" where
  "push_world s b = b\<lparr>bg_src := push_str s (bg_src b)\<rparr>"

text \<open>The objects, then the helper types at the top level, then the promise of \<open>tla_compat\<close>.\<close>

definition write_objects :: "ts_opts \<Rightarrow> string \<Rightarrow> ts_bindgen \<Rightarrow> ts_bindgen" where
  "write_objects opts camel b =
     (let instantiation = (op_instantiation opts \<noteq> None);
          b = (if instantiation
               then write_world [''}'' @ [NL]] (push_world (src_text (import_object b)) (write_world [''export interface ImportObject {'' @ [NL]] b))
               else b);
          b = (if instantiation
               then write_world [''}'' @ [NL]] (push_world (src_text (export_object b)) (write_world [''export interface '', camel, '' {'' @ [NL]] b))
               else push_world (src_text (export_object b)) b);
          b = (if bg_needs_option b then push_world TS_OPTION_TYPE_ALIAS b else b);
          b = (if bg_needs_result b then push_world TS_RESULT_TYPE_ALIAS b else b)
      in if op_tla_compat opts \<and> \<not> instantiation
         then write_world [[NL] @ ''            export const $init: Promise<void>;'' @ [NL]] b else b)"

definition async_sets :: "ts_opts \<Rightarrow> string list \<times> string list" where
  "async_sets opts =
     (case op_async opts of
        None \<Rightarrow> ([], []) | Some ModeSync \<Rightarrow> ([], [])
      | Some (JSPromiseIntegration imps exps) \<Rightarrow> (imps, exps))"

definition ts_bindgen_main :: "'v ts_env \<Rightarrow> string \<Rightarrow> 'v ts_world \<Rightarrow> ts_opts \<Rightarrow> files \<Rightarrow> files rust" where
  "ts_bindgen_main te name w opts fs =
     (case async_sets opts of (imps, exps) \<Rightarrow>
      case w_interface_id w of
        None \<Rightarrow> Inl (Bail ''unexpectedly missing package in world'')
      | Some id_name \<Rightarrow>
          let b = ts_bindgen_new (op_guest opts) imps exps; instantiation = (op_instantiation opts \<noteq> None);
              b = (if op_guest opts then write_world [''declare module '' @ [CHR 0x27], id_name, [CHR 0x27] @ '' {'' @ [NL]] b
                   else write_world [''// world '', id_name, [NL]] b) in
          rbind (world_imports te instantiation w (b, fs)) (\<lambda>bf.
          rbind (world_exports te instantiation w bf) (\<lambda>(b, fs).
            let camel = upper_camel (te_heck te) (w_name w);
                b = write_instantiate opts camel (write_objects opts camel b);
                b = (if op_guest opts then write_world [''}'' @ [NL]] b else b);
                filename = name @ ''.d.ts'' in
            Inr (files_push filename (src_text (bg_src b)) (files_push filename (generate_references (bg_references b)) fs)))))"

end
