(* ===== verification/Func_Memory.thy ===== *)
theory Func_Memory
  imports Func_Bindgen
begin

text \<open>
  The instructions of \<open>FunctionBindgen\<close> (\<open>src/crates/js-component-bindgen/src/function_bindgen.rs\<close>)
  that read and write linear memory: loads and stores, allocation, strings, lists in the canonical form of
  typed arrays, lists and maps lowered and lifted by a block for each element. The state is the
  memory. The allocator is the guest's, a parameter that returns a pointer and may change the
  memory. \<open>TextEncoder\<close> and \<open>TextDecoder\<close> are parameters.
\<close>

section \<open>Loads and stores\<close>

type_synonym fb_realloc = "int \<Rightarrow> int \<Rightarrow> int \<Rightarrow> int \<Rightarrow> (int, mem) jsop"

text \<open>An operand that is an address, and the sum with the offset.\<close>

definition num_operand :: "val \<Rightarrow> int js" where
  "num_operand op = (case op of VNum n \<Rightarrow> Inr n | _ \<Rightarrow> Inl (OutOfModel ''address that is no number''))"

definition view_get :: "bool \<Rightarrow> nat \<Rightarrow> int \<Rightarrow> mem \<Rightarrow> int js" where
  "view_get sgned n p m =
     (if 0 \<le> p \<and> p + int n \<le> int (length m) then Inr (wrap_int sgned n (le_val (mem_read p n m)))
      else Inl (RangeErr ''Offset is outside the bounds of the DataView''))"

definition view_set :: "nat \<Rightarrow> int \<Rightarrow> int js \<Rightarrow> (unit, mem) jsop" where
  "view_set n p x m =
     (if p < 0 then (Inl (RangeErr ''Offset is outside the bounds of the DataView''), m)
      else case x of
        Inl e \<Rightarrow> (Inl e, m)
      | Inr v \<Rightarrow>
          if p + int n \<le> int (length m) then (Inr (), mem_write p (le_bytes n v) m)
          else (Inl (RangeErr ''Offset is outside the bounds of the DataView''), m))"

definition fb_load :: "bool \<Rightarrow> nat \<Rightarrow> (int \<Rightarrow> val) \<Rightarrow> int \<Rightarrow> val \<Rightarrow> (val, mem) jsop" where
  "fb_load sgned n mk offset op m =
     (rbind (num_operand op) (\<lambda>p. rbind (view_get sgned n (p + offset) m) (\<lambda>x. Inr (mk x))), m)"

definition fb_store :: "nat \<Rightarrow> (val \<Rightarrow> int js) \<Rightarrow> int \<Rightarrow> val \<Rightarrow> val \<Rightarrow> (unit, mem) jsop" where
  "fb_store n conv offset op0 op1 =
     jbind (jlift (num_operand op1)) (\<lambda>p. view_set n (p + offset) (conv op0))"

text \<open>The methods of the loads and the stores; those of floats are not modelled.\<close>

datatype load_op =
    I32Load | I64Load | I32Load8U | I32Load8S | I32Load16U | I32Load16S | LengthLoad | PointerLoad

fun load_instr :: "load_op \<Rightarrow> int \<Rightarrow> val \<Rightarrow> (val, mem) jsop" where
  "load_instr I32Load = fb_load True 4 VNum"
| "load_instr I64Load = fb_load True 8 VBig"
| "load_instr I32Load8U = fb_load False 1 VNum"
| "load_instr I32Load8S = fb_load True 1 VNum"
| "load_instr I32Load16U = fb_load False 2 VNum"
| "load_instr I32Load16S = fb_load True 2 VNum"
| "load_instr LengthLoad = fb_load False 4 VNum"
| "load_instr PointerLoad = fb_load False 4 VNum"

datatype store_op = I32Store | I64Store | I32Store8 | I32Store16 | LengthStore | PointerStore

fun store_instr :: "store_op \<Rightarrow> int \<Rightarrow> val \<Rightarrow> val \<Rightarrow> (unit, mem) jsop" where
  "store_instr I32Store = fb_store 4 to_number"
| "store_instr I64Store = fb_store 8 to_bigint"
| "store_instr I32Store8 = fb_store 1 to_number"
| "store_instr I32Store16 = fb_store 2 to_number"
| "store_instr LengthStore = fb_store 4 to_number"
| "store_instr PointerStore = fb_store 4 to_number"

definition malloc_instr :: "fb_realloc \<Rightarrow> int \<Rightarrow> int \<Rightarrow> (val, mem) jsop" where
  "malloc_instr ra align esz = jbind (ra 0 0 align esz) (\<lambda>ptr. jret (VNum ptr))"

section \<open>Lists by element\<close>

text \<open>\<open>v.length\<close>: a value without such a property gives \<open>undefined\<close>, which counts as 0 where a number
  is needed and ends a loop at once.\<close>

fun js_length :: "val \<Rightarrow> val js" where
  "js_length (VArr vs) = Inr (VNum (int (length vs)))"
| "js_length (VTyped k ns) = Inr (VNum (int (length ns)))"
| "js_length (VMap kvs) = Inr VUndef"
| "js_length (VStr s) = Inl (OutOfModel ''a string as a list'')"
| "js_length (VUtf16 s) = Inl (OutOfModel ''a string as a list'')"
| "js_length (VObj kvs) = (if obj_get kvs ''length'' = VUndef then Inr VUndef else Inl (OutOfModel ''array-like object''))"
| "js_length v = js_prop v ''length''"

fun loop_elems :: "val \<Rightarrow> val list" where
  "loop_elems (VArr vs) = vs"
| "loop_elems (VTyped k ns) = map (if is_big_kind k then VBig else VNum) ns"
| "loop_elems v = []"

definition len_num :: "val \<Rightarrow> int" where
  "len_num v = (case v of VNum n \<Rightarrow> n | _ \<Rightarrow> 0)"

primrec lower_elems :: "(val \<Rightarrow> int \<Rightarrow> (unit, mem) jsop) \<Rightarrow> int \<Rightarrow> int \<Rightarrow> nat \<Rightarrow> val list \<Rightarrow> (unit, mem) jsop" where
  "lower_elems body esz result i [] = jret ()"
| "lower_elems body esz result i (e # es) =
     jbind (body e (result + int i * esz)) (\<lambda>_. lower_elems body esz result (Suc i) es)"

definition list_lower :: "fb_realloc \<Rightarrow> int \<Rightarrow> int \<Rightarrow> (val \<Rightarrow> int \<Rightarrow> (unit, mem) jsop) \<Rightarrow> val \<Rightarrow> (val list, mem) jsop" where
  "list_lower ra align esz body vec =
     jbind (jlift (js_length vec)) (\<lambda>len.
     jbind (ra 0 0 align (len_num len * esz)) (\<lambda>result.
     jbind (lower_elems body esz result 0 (loop_elems vec)) (\<lambda>_.
     jret [VNum result, len])))"

primrec lift_elems :: "(int \<Rightarrow> (val list, mem) jsop) \<Rightarrow> int \<Rightarrow> int \<Rightarrow> nat \<Rightarrow> nat \<Rightarrow> (val list, mem) jsop" where
  "lift_elems body esz base i 0 = jret []"
| "lift_elems body esz base i (Suc n) =
     jbind (body (base + int i * esz)) (\<lambda>rs. jbind (one_result rs) (\<lambda>x.
     jbind (lift_elems body esz base (Suc i) n) (\<lambda>xs. jret (x # xs))))"

definition list_lift :: "int \<Rightarrow> (int \<Rightarrow> (val list, mem) jsop) \<Rightarrow> val \<Rightarrow> val \<Rightarrow> (val, mem) jsop" where
  "list_lift esz body op0 op1 =
     jbind (jlift (num_operand op1)) (\<lambda>len.
     jbind (if 0 < len then jlift (num_operand op0) else jret 0) (\<lambda>base.
     jbind (lift_elems body esz base 0 (nat len)) (\<lambda>xs. jret (VArr xs))))"

text \<open>A list of a known length: the elements as values, and in memory. Its length is not checked.\<close>

definition fixed_list_lower :: "nat \<Rightarrow> val \<Rightarrow> val list js" where
  "fixed_list_lower esz op = rmap (js_index op) [0..<esz]"

definition fixed_list_lift :: "val list \<Rightarrow> val" where
  "fixed_list_lift ops = VArr ops"

definition fixed_list_lower_to_memory ::
    "int \<Rightarrow> nat \<Rightarrow> (val \<Rightarrow> int \<Rightarrow> (unit, mem) jsop) \<Rightarrow> val \<Rightarrow> val \<Rightarrow> (unit, mem) jsop" where
  "fixed_list_lower_to_memory elem_size len body op0 op1 =
     jbind (jlift (num_operand op1)) (\<lambda>addr.
       jseq (\<lambda>i. jbind (jlift (js_index op0 i)) (\<lambda>e. body e (addr + int i * elem_size))) [0..<len])"

definition fixed_list_lift_from_memory :: "int \<Rightarrow> nat \<Rightarrow> (int \<Rightarrow> (val list, mem) jsop) \<Rightarrow> val \<Rightarrow> (val, mem) jsop" where
  "fixed_list_lift_from_memory elem_size len body op0 =
     jbind (jlift (num_operand op0)) (\<lambda>addr.
     jbind (lift_elems body elem_size addr 0 len) (\<lambda>xs. jret (VArr xs)))"

section \<open>Maps\<close>

primrec lower_entries ::
    "(val \<Rightarrow> val \<Rightarrow> int \<Rightarrow> (unit, mem) jsop) \<Rightarrow> int \<Rightarrow> int \<Rightarrow> nat \<Rightarrow> (val \<times> val) list \<Rightarrow> (unit, mem) jsop" where
  "lower_entries body esz result i [] = jret ()"
| "lower_entries body esz result i (kv # kvs) =
     jbind (body (fst kv) (snd kv) (result + int i * esz)) (\<lambda>_. lower_entries body esz result (Suc i) kvs)"

definition map_lower ::
    "fb_realloc \<Rightarrow> int \<Rightarrow> int \<Rightarrow> (val \<Rightarrow> val \<Rightarrow> int \<Rightarrow> (unit, mem) jsop) \<Rightarrow> val \<Rightarrow> (val list, mem) jsop" where
  "map_lower ra align esz body op =
     (case op of
        VMap kvs \<Rightarrow>
          jbind (ra 0 0 align (int (length kvs) * esz)) (\<lambda>result.
          jbind (lower_entries body esz result 0 kvs) (\<lambda>_.
          jret [VNum result, VNum (int (length kvs))]))
      | _ \<Rightarrow> jthrow (TypeErr ''expected a Map''))"

text \<open>\<open>Map.prototype.set\<close>: a key that is there keeps its place. Keys are compared as values; arrays
  and objects, which JavaScript compares by identity and which are new for each entry, are always
  different.\<close>

fun is_object :: "val \<Rightarrow> bool" where
  "is_object (VObj _) = True"
| "is_object (VArr _) = True"
| "is_object (VTyped _ _) = True"
| "is_object (VMap _) = True"
| "is_object _ = False"

primrec map_set :: "(val \<times> val) list \<Rightarrow> val \<Rightarrow> val \<Rightarrow> (val \<times> val) list" where
  "map_set [] k v = [(k, v)]"
| "map_set (kv # kvs) k v =
     (if fst kv = k \<and> \<not> is_object k then (k, v) # kvs else kv # map_set kvs k v)"

primrec lift_entries ::
    "(int \<Rightarrow> (val list, mem) jsop) \<Rightarrow> int \<Rightarrow> int \<Rightarrow> nat \<Rightarrow> nat \<Rightarrow> (val \<times> val) list \<Rightarrow> ((val \<times> val) list, mem) jsop" where
  "lift_entries body esz base i 0 acc = jret acc"
| "lift_entries body esz base i (Suc n) acc =
     jbind (body (base + int i * esz)) (\<lambda>rs.
       case rs of [k, v] \<Rightarrow> lift_entries body esz base (Suc i) n (map_set acc k v)
       | _ \<Rightarrow> jthrow (OutOfModel ''the generation panics''))"

definition map_lift :: "int \<Rightarrow> (int \<Rightarrow> (val list, mem) jsop) \<Rightarrow> val \<Rightarrow> val \<Rightarrow> (val, mem) jsop" where
  "map_lift entry_size body op0 op1 =
     jbind (jlift (num_operand op1)) (\<lambda>len.
     jbind (if 0 < len then jlift (num_operand op0) else jret 0) (\<lambda>base.
     jbind (lift_entries body entry_size base 0 (nat len) []) (\<lambda>kvs. jret (VMap kvs))))"

section \<open>Lists in canonical form\<close>

text \<open>The kind of the typed array and the name of the check, for the integer types.\<close>

fun check_name :: "typed_kind \<Rightarrow> string" where
  "check_name Uint8Array = ''u8''"
| "check_name Int8Array = ''s8''"
| "check_name Uint16Array = ''u16''"
| "check_name Int16Array = ''s16''"
| "check_name Uint32Array = ''u32''"
| "check_name Int32Array = ''s32''"
| "check_name BigUint64Array = ''u64''"
| "check_name BigInt64Array = ''s64''"

definition elem_bytes :: "typed_kind \<Rightarrow> nat" where
  "elem_bytes k = snd (kind_width k)"

fun js_byteLength :: "val \<Rightarrow> val js" where
  "js_byteLength (VTyped k ns) = Inr (VNum (int (elem_bytes k * length ns)))"
| "js_byteLength (VMap kvs) = Inr VUndef"
| "js_byteLength (VStr s) = Inr VUndef"
| "js_byteLength (VUtf16 s) = Inr VUndef"
| "js_byteLength v = js_prop v ''byteLength''"

definition canon_len :: "typed_kind \<Rightarrow> val \<Rightarrow> val js" where
  "canon_len k v = (if k = Uint8Array \<and> \<not> is_array v then js_byteLength v else js_length v)"

primrec set_elems :: "typed_kind \<Rightarrow> int \<Rightarrow> int \<Rightarrow> val list \<Rightarrow> (unit, mem) jsop" where
  "set_elems k ptr offset [] = jret ()"
| "set_elems k ptr offset (v # vs) =
     jbind (jlift (requireValidNumericPrimitive (check_name k) v)) (\<lambda>_.
     jbind (view_set (elem_bytes k) (ptr + offset) ((if is_big_kind k then to_bigint else to_number) v)) (\<lambda>_.
     set_elems k ptr (offset + int (elem_bytes k)) vs))"

text \<open>\<open>new Uint8Array(memory.buffer, ptr, n).set(bytes)\<close>\<close>

definition copy_bytes :: "int \<Rightarrow> mem \<Rightarrow> (unit, mem) jsop" where
  "copy_bytes ptr bs m =
     (if 0 \<le> ptr \<and> ptr + int (length bs) \<le> int (length m) then (Inr (), mem_write ptr bs m)
      else (Inl (RangeErr ''Invalid typed array length''), m))"

text \<open>A typed array that has fewer bytes than its length times the size of an element shows what its
  buffer holds behind it, which the model does not know.\<close>

definition list_canon_lower :: "fb_realloc \<Rightarrow> int \<Rightarrow> typed_kind \<Rightarrow> val \<Rightarrow> (val list, mem) jsop" where
  "list_canon_lower ra align k v =
     jbind (jlift (canon_len k v)) (\<lambda>len.
     jbind (ra 0 0 align (len_num len * int (elem_bytes k))) (\<lambda>ptr.
     jbind (case v of
              VArr vs \<Rightarrow> set_elems k ptr 0 vs
            | VTyped k' ns \<Rightarrow>
                (let bytes = concat (map (le_bytes (elem_bytes k')) ns);
                     valLenBytes = nat (len_num len * int (elem_bytes k)) in
                 if valLenBytes \<le> length bytes then copy_bytes ptr (take valLenBytes bytes)
                 else jthrow (OutOfModel ''the rest of a buffer''))
            | _ \<Rightarrow> jthrow (OutOfModel ''no array'')) (\<lambda>_.
     jret [VNum ptr, len])))"

text \<open>\<open>buffer.slice(a, b)\<close>: a negative index counts from the end, and both are clamped to the buffer.\<close>

definition slice_index :: "int \<Rightarrow> int \<Rightarrow> int" where
  "slice_index n i = (if i < 0 then max (n + i) 0 else min i n)"

definition buffer_slice :: "int \<Rightarrow> int \<Rightarrow> mem \<Rightarrow> mem" where
  "buffer_slice a b m =
     (let n = int (length m); i = slice_index n a; j = slice_index n b in mem_read i (nat (j - i)) m)"

fun typed_elems :: "bool \<Rightarrow> nat \<Rightarrow> mem \<Rightarrow> int list" where
  "typed_elems sgned n bs =
     (if bs = [] \<or> n = 0 then [] else wrap_int sgned n (le_val (take n bs)) # typed_elems sgned n (drop n bs))"

declare typed_elems.simps [simp del]

definition typed_of_bytes :: "typed_kind \<Rightarrow> mem \<Rightarrow> val js" where
  "typed_of_bytes k bs =
     (if length bs mod elem_bytes k \<noteq> 0 then Inl (RangeErr ''byte length should be a multiple'')
      else Inr (VTyped k (typed_elems (fst (kind_width k)) (elem_bytes k) bs)))"

definition list_canon_lift :: "typed_kind \<Rightarrow> val \<Rightarrow> val \<Rightarrow> (val, mem) jsop" where
  "list_canon_lift k op0 op1 m =
     (rbind (num_operand op0) (\<lambda>ptr. rbind (num_operand op1) (\<lambda>len.
        typed_of_bytes k (buffer_slice ptr (ptr + len * int (elem_bytes k)) m))), m)"

section \<open>Strings\<close>

text \<open>\<open>utf16Encode\<close> on a little-endian host, by code units.\<close>

fun code_units :: "val \<Rightarrow> nat list js" where
  "code_units (VStr s) = Inr (map of_char s)"
| "code_units (VUtf16 us) = Inr us"
| "code_units _ = Inl (OutOfModel ''no string'')"

definition utf16Encode :: "fb_realloc \<Rightarrow> val \<Rightarrow> (int \<times> int, mem) jsop" where
  "utf16Encode ra str =
     jbind (jlift (code_units str)) (\<lambda>us.
     jbind (ra 0 0 2 (int (length us) * 2)) (\<lambda>ptr.
     jbind (if ptr mod 2 \<noteq> 0 then jthrow (RangeErr ''start offset should be a multiple of 2'')
            else copy_bytes ptr (concat (map (\<lambda>u. le_bytes 2 (int u)) us))) (\<lambda>_.
     jret (ptr, int (length us)))))"

fun is_string :: "val \<Rightarrow> bool" where
  "is_string (VStr _) = True"
| "is_string (VUtf16 _) = True"
| "is_string _ = False"

text \<open>\<open>encode\<close> is \<open>TextEncoder.encode\<close>.\<close>

definition utf8Encode :: "(val \<Rightarrow> mem) \<Rightarrow> fb_realloc \<Rightarrow> val \<Rightarrow> (int \<times> int, mem) jsop" where
  "utf8Encode encode ra s =
     (if \<not> is_string s then jthrow (TypeErr ''expected a string'')
      else if s = VStr [] \<or> s = VUtf16 [] then jret (1, 0)
      else jbind (ra 0 0 1 (int (length (encode s)))) (\<lambda>ptr.
           jbind (copy_bytes ptr (encode s)) (\<lambda>_. jret (ptr, int (length (encode s))))))"

datatype string_encoding = UTF8 | UTF16

definition string_lower :: "(val \<Rightarrow> mem) \<Rightarrow> string_encoding \<Rightarrow> fb_realloc \<Rightarrow> val \<Rightarrow> (val list, mem) jsop" where
  "string_lower encode enc ra s =
     jbind (case enc of UTF8 \<Rightarrow> utf8Encode encode ra s | UTF16 \<Rightarrow> utf16Encode ra s) (\<lambda>(ptr, len).
       jret [VNum ptr, VNum len])"

text \<open>\<open>decode\<close> is the decoder of the encoding, applied to the bytes. The length of a UTF-16 view
  counts code units, and its start must be even.\<close>

definition string_lift :: "(mem \<Rightarrow> val) \<Rightarrow> string_encoding \<Rightarrow> val \<Rightarrow> val \<Rightarrow> (val, mem) jsop" where
  "string_lift decode enc op0 op1 m =
     (rbind (num_operand op0) (\<lambda>ptr. rbind (num_operand op1) (\<lambda>len.
        let n = (case enc of UTF8 \<Rightarrow> len | UTF16 \<Rightarrow> 2 * len) in
        if ptr < 0 \<or> len < 0 \<or> int (length m) < ptr + n \<or> (enc = UTF16 \<and> ptr mod 2 \<noteq> 0)
        then Inl (RangeErr ''Invalid typed array length'')
        else Inr (decode (mem_read ptr (nat n) m)))), m)"

end
