(* ===== verification/Ts_Values.thy ===== *)
theory Ts_Values
  imports Ts_Types Func_Memory
begin

text \<open>
  What values a printed TypeScript type has, and that the values which the function bodies lift
  (\<open>Func_Bindgen\<close>) are values of the type that is declared for them (\<open>Ts_Types\<close>).
\<close>

section \<open>The values of a printed type\<close>

text \<open>What the printed declarations say of a name.\<close>

datatype tsdecl =
    DAlias tst
  | DInterface "(string \<times> bool \<times> tst) list"
  | DUnion "(string \<times> tst option) list"
  | DEnum "string list"
  | DFlags "string list"

text \<open>The values of a type, as TypeScript reads the declarations in \<open>env\<close>: an optional property may be undefined,
  the types \<open>Option\<close> and \<open>Result\<close> are those of the two helper aliases.\<close>

fun class_of_kind :: "typed_kind \<Rightarrow> string" where
  "class_of_kind Uint8Array = ''Uint8Array''"
| "class_of_kind Int8Array = ''Int8Array''"
| "class_of_kind Uint16Array = ''Uint16Array''"
| "class_of_kind Int16Array = ''Int16Array''"
| "class_of_kind Uint32Array = ''Uint32Array''"
| "class_of_kind Int32Array = ''Int32Array''"
| "class_of_kind BigUint64Array = ''BigUint64Array''"
| "class_of_kind BigInt64Array = ''BigInt64Array''"

inductive ts_mem :: "(string \<Rightarrow> tsdecl option) \<Rightarrow> tst \<Rightarrow> val \<Rightarrow> bool" for env where
  Boolean: "ts_mem env TsBoolean (VBool b)"
| Number: "ts_mem env TsNumber (VNum n)"
| Bigint: "ts_mem env TsBigint (VBig n)"
| String: "ts_mem env TsString (VStr s)"
| String16: "ts_mem env TsString (VUtf16 u)"
| Void: "ts_mem env TsVoid VUndef"
| Undefined: "ts_mem env (TsOrUndefined t) VUndef"
| Defined: "ts_mem env t v \<Longrightarrow> ts_mem env (TsOrUndefined t) v"
| None: "ts_mem env (TsOption t) (VObj [(''tag'', VStr ''none'')])"
| Some: "ts_mem env t v \<Longrightarrow> ts_mem env (TsOption t) (VObj [(''tag'', VStr ''some''), (''val'', v)])"
| Ok: "ts_mem env t v \<Longrightarrow> ts_mem env (TsResult t u) (VObj [(''tag'', VStr ''ok''), (''val'', v)])"
| Err: "ts_mem env u v \<Longrightarrow> ts_mem env (TsResult t u) (VObj [(''tag'', VStr ''err''), (''val'', v)])"
| Typed: "class_of_kind k = a \<Longrightarrow> ts_mem env (TsTypedArray a) (VTyped k xs)"
| Array: "\<forall>v \<in> set vs. ts_mem env t v \<Longrightarrow> ts_mem env (TsArray t) (VArr vs)"
| Map: "\<forall>kv \<in> set kvs. ts_mem env t (fst kv) \<and> ts_mem env u (snd kv) \<Longrightarrow> ts_mem env (TsMap t u) (VMap kvs)"
| Tuple: "list_all2 (ts_mem env) ts vs \<Longrightarrow> ts_mem env (TsTuple ts) (VArr vs)"
| Fixed: "length vs = n \<Longrightarrow> \<forall>v \<in> set vs. ts_mem env t v \<Longrightarrow> ts_mem env (TsFixed n t) (VArr vs)"
| Alias: "env n = Some (DAlias t) \<Longrightarrow> ts_mem env t v \<Longrightarrow> ts_mem env (TsNamed n) v"
| Interface: "env n = Some (DInterface fds) \<Longrightarrow>
    \<forall>(f, optional, t) \<in> set fds. optional \<and> obj_get kvs f = VUndef \<or> ts_mem env t (obj_get kvs f) \<Longrightarrow>
    ts_mem env (TsNamed n) (VObj kvs)"
| Case: "env n = Some (DUnion cases) \<Longrightarrow> (tag, None) \<in> set cases \<Longrightarrow> ts_mem env (TsNamed n) (VObj [(''tag'', VStr tag)])"
| Payload: "env n = Some (DUnion cases) \<Longrightarrow> (tag, Some t) \<in> set cases \<Longrightarrow> ts_mem env t v \<Longrightarrow>
    ts_mem env (TsNamed n) (VObj [(''tag'', VStr tag), (''val'', v)])"
| Enum: "env n = Some (DEnum cases) \<Longrightarrow> c \<in> set cases \<Longrightarrow> ts_mem env (TsNamed n) (VStr c)"
| Flags: "env n = Some (DFlags flags) \<Longrightarrow> \<forall>f \<in> set flags. obj_get kvs f = VUndef \<or> (\<exists>b. obj_get kvs f = VBool b) \<Longrightarrow>
    ts_mem env (TsNamed n) (VObj kvs)"

text \<open>The declaration printed for a definition: what the functions \<open>type_record\<close>, \<open>type_variant\<close> and so on say.\<close>

fun decl_fields :: "heck \<Rightarrow> (string \<times> docs \<times> wtype) list \<Rightarrow> (string \<times> bool \<times> tst) list rust" where
  "decl_fields hk [] = Inr []"
| "decl_fields hk ((f, _, ty) # fs) =
     rbind (ts_of hk (case nullable_ty ty of Some t \<Rightarrow> t | None \<Rightarrow> ty)) (\<lambda>t.
     rbind (decl_fields hk fs) (\<lambda>ds. Inr ((lower_camel hk f, nullable_ty ty \<noteq> None, t) # ds)))"

fun decl_cases :: "heck \<Rightarrow> (string \<times> docs \<times> wtype option) list \<Rightarrow> (string \<times> tst option) list rust" where
  "decl_cases hk [] = Inr []"
| "decl_cases hk ((c, _, None) # cs) = rbind (decl_cases hk cs) (\<lambda>ds. Inr ((c, None) # ds))"
| "decl_cases hk ((c, _, Some ty) # cs) =
     rbind (ts_of hk ty) (\<lambda>t. rbind (decl_cases hk cs) (\<lambda>ds. Inr ((c, Some t) # ds)))"

definition decl_of :: "heck \<Rightarrow> tkind \<Rightarrow> tsdecl rust" where
  "decl_of hk k =
     (case k of
        KRecord fds \<Rightarrow> rbind (decl_fields hk fds) (\<lambda>fs. Inr (DInterface fs))
      | KVariant cases \<Rightarrow> rbind (decl_cases hk cases) (\<lambda>cs. Inr (DUnion cs))
      | KEnum cases \<Rightarrow> Inr (DEnum (map fst cases))
      | KFlags flags \<Rightarrow> Inr (DFlags (map (\<lambda>(f, _). lower_camel hk f) flags))
      | _ \<Rightarrow> rbind (ts_of_kind hk k) (\<lambda>t. Inr (DAlias t)))"

section \<open>The values that are lifted\<close>

definition int_range :: "wtype \<Rightarrow> (int \<times> int) option" where
  "int_range ty =
     (case ty of
        WU8 \<Rightarrow> Some (0, 255) | WS8 \<Rightarrow> Some (-128, 127) | WU16 \<Rightarrow> Some (0, 65535) | WS16 \<Rightarrow> Some (-32768, 32767)
      | WU32 \<Rightarrow> Some (0, 2 ^ 32 - 1) | WS32 \<Rightarrow> Some (-(2 ^ 31), 2 ^ 31 - 1) | WErrorContext \<Rightarrow> Some (0, 2 ^ 32 - 1)
      | _ \<Rightarrow> None)"

text \<open>The JavaScript values that the instructions of the canonical ABI build for the values of a type. Floats,
  resources, futures and streams are not among the values of the model.\<close>

inductive js_value :: "heck \<Rightarrow> wtype \<Rightarrow> val \<Rightarrow> bool" for hk where
  Bool: "js_value hk WBool (VBool b)"
| Int: "int_range ty = Some (lo, hi) \<Longrightarrow> lo \<le> n \<Longrightarrow> n \<le> hi \<Longrightarrow> js_value hk ty (VNum n)"
| U64: "0 \<le> n \<Longrightarrow> n < 2 ^ 64 \<Longrightarrow> js_value hk WU64 (VBig n)"
| S64: "- (2 ^ 63) \<le> n \<Longrightarrow> n < 2 ^ 63 \<Longrightarrow> js_value hk WS64 (VBig n)"
| Text: "ty = WChar \<or> ty = WString \<Longrightarrow> is_string v \<Longrightarrow> js_value hk ty v"
| Aliased: "js_value hk t v \<Longrightarrow> js_value hk (WId (TDef n ow dc (KType t))) v"
| Record: "list_all2 (\<lambda>f v. js_value hk (snd (snd f)) v) fds vs \<Longrightarrow> distinct (map (\<lambda>f. lower_camel hk (fst f)) fds) \<Longrightarrow>
    js_value hk (WId (TDef n ow dc (KRecord fds))) (record_lift (map (\<lambda>f. lower_camel hk (fst f)) fds) vs)"
| Flags: "length bs = length flags \<Longrightarrow>
    js_value hk (WId (TDef n ow dc (KFlags flags))) (record_lift (map (\<lambda>(f, _). lower_camel hk f) flags) (map VBool bs))"
| Tuple: "list_all2 (js_value hk) ts vs \<Longrightarrow> js_value hk (WId (TDef n ow dc (KTuple ts))) (tuple_lift vs)"
| Case: "(c, d, None) \<in> set cases \<Longrightarrow> js_value hk (WId (TDef n ow dc (KVariant cases))) (variant_val c False v)"
| Payload: "(c, d, Some t) \<in> set cases \<Longrightarrow> js_value hk t v \<Longrightarrow>
    js_value hk (WId (TDef n ow dc (KVariant cases))) (variant_val c True v)"
| Enum: "c \<in> fst ` set cases \<Longrightarrow> js_value hk (WId (TDef n ow dc (KEnum cases))) (VStr c)"
| OptionNone: "js_value hk (WId (TDef n ow dc (KOption t))) (if ty_maybe_null t then VObj [(''tag'', VStr ''none'')] else VUndef)"
| OptionSome: "js_value hk t v \<Longrightarrow>
    js_value hk (WId (TDef n ow dc (KOption t))) (if ty_maybe_null t then VObj [(''tag'', VStr ''some''), (''val'', v)] else v)"
| OkVoid: "js_value hk (WId (TDef n ow dc (KResult None err))) (VObj [(''tag'', VStr ''ok''), (''val'', VUndef)])"
| Ok: "js_value hk t v \<Longrightarrow> js_value hk (WId (TDef n ow dc (KResult (Some t) err))) (VObj [(''tag'', VStr ''ok''), (''val'', v)])"
| ErrVoid: "js_value hk (WId (TDef n ow dc (KResult ok None))) (VObj [(''tag'', VStr ''err''), (''val'', VUndef)])"
| Err: "js_value hk t v \<Longrightarrow> js_value hk (WId (TDef n ow dc (KResult ok (Some t)))) (VObj [(''tag'', VStr ''err''), (''val'', v)])"
| Typed: "array_ty t = Some (class_of_kind k) \<Longrightarrow> js_value hk (WId (TDef n ow dc (KList t))) (VTyped k xs)"
| List: "array_ty t = None \<Longrightarrow> \<forall>v \<in> set vs. js_value hk t v \<Longrightarrow> js_value hk (WId (TDef n ow dc (KList t))) (VArr vs)"
| Map: "\<forall>kv \<in> set kvs. js_value hk t (fst kv) \<and> js_value hk u (snd kv) \<Longrightarrow> js_value hk (WId (TDef n ow dc (KMap t u))) (VMap kvs)"
| Fixed: "length vs = len \<Longrightarrow> \<forall>v \<in> set vs. js_value hk t v \<Longrightarrow> js_value hk (WId (TDef n ow dc (KFixedList t len))) (fixed_list_lift vs)"

section \<open>Scopes\<close>

definition parts :: "tkind \<Rightarrow> wtype set" where
  "parts k =
     (case k of
        KRecord fs \<Rightarrow> (\<lambda>f. snd (snd f)) ` set fs | KTuple ts \<Rightarrow> set ts | KVariant cs \<Rightarrow> {t. Some t \<in> (\<lambda>c. snd (snd c)) ` set cs}
      | KOption t \<Rightarrow> {t} | KResult a b \<Rightarrow> set_option a \<union> set_option b | KList t \<Rightarrow> {t} | KMap t u \<Rightarrow> {t, u}
      | KFixedList t _ \<Rightarrow> {t} | KFuture a \<Rightarrow> set_option a | KStream a \<Rightarrow> set_option a | KType t \<Rightarrow> {t} | _ \<Rightarrow> {})"

definition in_scope :: "tdef set \<Rightarrow> wtype \<Rightarrow> bool" where
  "in_scope D ty = (\<forall>d. ty = WId d \<longrightarrow> d \<in> D)"

text \<open>The declarations of the definitions in \<open>D\<close>, whose parts are in \<open>D\<close> too.\<close>

definition scope_ok :: "heck \<Rightarrow> (string \<Rightarrow> tsdecl option) \<Rightarrow> tdef set \<Rightarrow> bool" where
  "scope_ok hk env D =
     (\<forall>d \<in> D. (\<forall>t \<in> parts (def_kind d). in_scope D t) \<and>
       (\<forall>n. def_name d = Some n \<longrightarrow> (\<exists>dc. decl_of hk (def_kind d) = Inr dc \<and> env (upper_camel hk n) = Some dc)))"

lemma scope_parts: "scope_ok hk env D \<Longrightarrow> in_scope D (WId (TDef n ow dc k)) \<Longrightarrow> t \<in> parts k \<Longrightarrow> in_scope D t"
  by (force simp: scope_ok_def in_scope_def)

lemma scope_decl:
  "scope_ok hk env D \<Longrightarrow> in_scope D (WId (TDef (Some n) ow dc k)) \<Longrightarrow> \<exists>d. decl_of hk k = Inr d \<and> env (upper_camel hk n) = Some d"
  by (force simp: scope_ok_def in_scope_def)

lemma scope_nullable:
  "scope_ok hk env D \<Longrightarrow> in_scope D ty \<Longrightarrow> nullable_ty ty = Some t \<Longrightarrow> in_scope D t"
proof (induction ty rule: nullable_ty.induct)
  case (1 n ow dc t')
  from 1 scope_parts [OF 1(2,3), of t'] show ?case by (simp add: parts_def split: if_splits)
next
  case (2 n ow dc t')
  from 2 scope_parts [OF 2(2,3), of t'] show ?case by (simp add: parts_def)
qed simp_all

text \<open>A value of a kind that is declared by an alias is a value of the definition, named or not.\<close>

lemma mem_of_kind:
  assumes "scope_ok hk env D" "in_scope D (WId (TDef n ow dc k))" "ts_of hk (WId (TDef n ow dc k)) = Inr t"
    and "decl_of hk k = rbind (ts_of_kind hk k) (\<lambda>t. Inr (DAlias t))" "\<And>t. ts_of_kind hk k = Inr t \<Longrightarrow> ts_mem env t v"
  shows "ts_mem env t v"
proof (cases n)
  case None
  with assms(3,5) show ?thesis by simp
next
  case (Some nm)
  with scope_decl [OF assms(1)] assms(2) obtain d where d: "decl_of hk k = Inr d" "env (upper_camel hk nm) = Some d" by blast
  from assms(4) d(1) have "rbind (ts_of_kind hk k) (\<lambda>t. Inr (DAlias t)) = Inr d" by simp
  then obtain t0 where t0: "ts_of_kind hk k = Inr t0" "d = DAlias t0" by auto
  from Some assms(3) have "t = TsNamed (upper_camel hk nm)" by simp
  with d(2) t0 assms(5) show ?thesis by (auto intro: ts_mem.Alias)
qed

lemma decl_fields_spec:
  "decl_fields hk fs = Inr ds \<Longrightarrow> list_all2 (\<lambda>f d. fst d = lower_camel hk (fst f) \<and> fst (snd d) = (nullable_ty (snd (snd f)) \<noteq> None) \<and>
     ts_of hk (case nullable_ty (snd (snd f)) of Some t \<Rightarrow> t | None \<Rightarrow> snd (snd f)) = Inr (snd (snd d))) fs ds"
  by (induction hk fs arbitrary: ds rule: decl_fields.induct) (auto simp: rbind_Inr_iff split: option.splits)

lemma decl_cases_spec:
  "decl_cases hk cs = Inr ds \<Longrightarrow> (c, d, topt) \<in> set cs \<Longrightarrow>
     (case topt of None \<Rightarrow> (c, None) \<in> set ds | Some ty \<Rightarrow> \<exists>t. ts_of hk ty = Inr t \<and> (c, Some t) \<in> set ds)"
  by (induction hk cs arbitrary: ds rule: decl_cases.induct; auto simp: rbind_Inr_iff split: option.splits; blast)

lemma record_lift_obj:
  "record_lift names vs = VObj kvs \<Longrightarrow> distinct names \<Longrightarrow> length vs = length names \<Longrightarrow> i < length names \<Longrightarrow>
     obj_get kvs (names ! i) = vs ! i"
proof -
  have keep: "obj_get (fold (\<lambda>(k, v) kvs. obj_set kvs k v) (zip ns ws) acc) k = obj_get acc k" if "k \<notin> set ns" for ns ws acc k
    using that
  proof (induction ns arbitrary: ws acc)
    case (Cons n ns)
    then show ?case by (cases ws) auto
  qed simp
  have "obj_get (fold (\<lambda>(k, v) kvs. obj_set kvs k v) (zip names vs) acc) (names ! i) = vs ! i"
    if "distinct names" "length vs = length names" "i < length names" for acc
    using that
  proof (induction names arbitrary: vs i acc)
    case (Cons n ns)
    then obtain w ws where vs: "vs = w # ws" by (cases vs) auto
    show ?case
    proof (cases i)
      case 0
      with Cons.prems vs keep show ?thesis by simp
    next
      case (Suc j)
      with Cons vs show ?thesis by simp
    qed
  qed simp
  then show "record_lift names vs = VObj kvs \<Longrightarrow> distinct names \<Longrightarrow> length vs = length names \<Longrightarrow> i < length names \<Longrightarrow>
     obj_get kvs (names ! i) = vs ! i" by (auto simp: record_lift_def)
qed

section \<open>The declared types are right\<close>

lemma decl_alias_kinds:
  "decl_of hk (KType t) = rbind (ts_of_kind hk (KType t)) (\<lambda>t. Inr (DAlias t))"
  "decl_of hk (KTuple ts) = rbind (ts_of_kind hk (KTuple ts)) (\<lambda>t. Inr (DAlias t))"
  "decl_of hk (KOption t) = rbind (ts_of_kind hk (KOption t)) (\<lambda>t. Inr (DAlias t))"
  "decl_of hk (KResult o1 o2) = rbind (ts_of_kind hk (KResult o1 o2)) (\<lambda>t. Inr (DAlias t))"
  "decl_of hk (KList t) = rbind (ts_of_kind hk (KList t)) (\<lambda>t. Inr (DAlias t))"
  "decl_of hk (KMap t u) = rbind (ts_of_kind hk (KMap t u)) (\<lambda>t. Inr (DAlias t))"
  "decl_of hk (KFixedList t n) = rbind (ts_of_kind hk (KFixedList t n)) (\<lambda>t. Inr (DAlias t))"
  by (simp_all add: decl_of_def)

lemma named_kind:
  assumes "scope_ok hk env D" "in_scope D (WId (TDef n ow dc k))" "ts_of hk (WId (TDef n ow dc k)) = Inr t"
    and "\<And>t. ts_of_kind hk k \<noteq> Inr t"
  obtains nm d where "n = Some nm" "t = TsNamed (upper_camel hk nm)" "decl_of hk k = Inr d" "env (upper_camel hk nm) = Some d"
proof (cases n)
  case None
  with assms(3,4) show ?thesis by simp
next
  case (Some nm)
  from assms(2) Some obtain d where "decl_of hk k = Inr d" "env (upper_camel hk nm) = Some d" using scope_decl [OF assms(1)] by blast
  moreover have "t = TsNamed (upper_camel hk nm)" using assms(3) Some by simp
  ultimately show ?thesis using Some that by blast
qed

lemma ts_of_list_Inr: "ts_of_list hk ts = Inr xs \<longleftrightarrow> list_all2 (\<lambda>t x. ts_of hk t = Inr x) ts xs"
proof (induction ts arbitrary: xs)
  case (Cons t ts)
  show ?case by (auto simp: rbind_Inr_iff list_all2_Cons1 Cons.IH)
qed auto

text \<open>The value of a nullable type is undefined or a value of the other type.\<close>

definition mem_for :: "heck \<Rightarrow> (string \<Rightarrow> tsdecl option) \<Rightarrow> tdef set \<Rightarrow> wtype \<Rightarrow> val \<Rightarrow> bool" where
  "mem_for hk env D ty v = (\<forall>t. in_scope D ty \<longrightarrow> ts_of hk ty = Inr t \<longrightarrow> ts_mem env t v)"

definition sound :: "heck \<Rightarrow> (string \<Rightarrow> tsdecl option) \<Rightarrow> tdef set \<Rightarrow> wtype \<Rightarrow> val \<Rightarrow> bool" where
  "sound hk env D ty v \<longleftrightarrow> mem_for hk env D ty v \<and> (\<forall>t. nullable_ty ty = Some t \<longrightarrow> v = VUndef \<or> mem_for hk env D t v)"

lemma sound_alias:
  assumes "scope_ok hk env D" "sound hk env D t v"
  shows "sound hk env D (WId (TDef n ow dc (KType t))) v"
proof -
  have "ts_mem env x v" if s: "in_scope D (WId (TDef n ow dc (KType t)))" "ts_of hk (WId (TDef n ow dc (KType t))) = Inr x" for x
  proof (rule mem_of_kind [OF assms(1) s decl_alias_kinds(1)])
    fix y assume "ts_of_kind hk (KType t) = Inr y"
    then show "ts_mem env y v"
      using assms(2) scope_parts [OF assms(1) s(1), of t] by (simp add: sound_def mem_for_def parts_def)
  qed
  with assms(2) show ?thesis by (auto simp: sound_def mem_for_def)
qed

lemma sound_kind:
  assumes "scope_ok hk env D" "decl_of hk k = rbind (ts_of_kind hk k) (\<lambda>t. Inr (DAlias t))"
    and "\<And>t. (\<And>p. p \<in> parts k \<Longrightarrow> in_scope D p) \<Longrightarrow> ts_of_kind hk k = Inr t \<Longrightarrow> ts_mem env t v"
    and "nullable_ty (WId (TDef n ow dc k)) = None"
  shows "sound hk env D (WId (TDef n ow dc k)) v"
proof -
  have "ts_mem env x v" if s: "in_scope D (WId (TDef n ow dc k))" "ts_of hk (WId (TDef n ow dc k)) = Inr x" for x
    by (rule mem_of_kind [OF assms(1) s assms(2)]) (rule assms(3) [OF scope_parts [OF assms(1) s(1)]])
  with assms(4) show ?thesis by (simp add: sound_def mem_for_def)
qed

lemma sound_option:
  assumes "scope_ok hk env D" "v = VUndef \<and> \<not> ty_maybe_null t \<or> (\<exists>w. (ty_maybe_null t \<longrightarrow> w = VObj [(''tag'', VStr ''none'')] \<or>
      (\<exists>u. w = VObj [(''tag'', VStr ''some''), (''val'', u)] \<and> mem_for hk env D t u)) \<and> (\<not> ty_maybe_null t \<longrightarrow> mem_for hk env D t w) \<and> v = w)"
  shows "sound hk env D (WId (TDef n ow dc (KOption t))) v"
proof -
  have "ts_mem env x v" if s: "in_scope D (WId (TDef n ow dc (KOption t)))" "ts_of hk (WId (TDef n ow dc (KOption t))) = Inr x" for x
  proof (rule mem_of_kind [OF assms(1) s decl_alias_kinds(3)])
    fix y assume y: "ts_of_kind hk (KOption t) = Inr y"
    have "in_scope D t" using scope_parts [OF assms(1) s(1), of t] by (simp add: parts_def)
    with y assms(2) show "ts_mem env y v"
      by (auto simp: mem_for_def rbind_Inr_iff intro: ts_mem.intros split: if_splits)
  qed
  then show ?thesis using assms(2) by (auto simp: sound_def mem_for_def ty_maybe_null_def)
qed

lemma sound_named:
  assumes "scope_ok hk env D" "\<And>t. ts_of_kind hk k \<noteq> Inr t" "nullable_ty (WId (TDef n ow dc k)) = None"
    and "\<And>nm d. (\<And>p. p \<in> parts k \<Longrightarrow> in_scope D p) \<Longrightarrow> decl_of hk k = Inr d \<Longrightarrow> env nm = Some d \<Longrightarrow> ts_mem env (TsNamed nm) v"
  shows "sound hk env D (WId (TDef n ow dc k)) v"
proof -
  have "ts_mem env x v" if s: "in_scope D (WId (TDef n ow dc k))" "ts_of hk (WId (TDef n ow dc k)) = Inr x" for x
  proof -
    from named_kind [OF assms(1) s assms(2)] obtain nm d where d: "x = TsNamed nm" "decl_of hk k = Inr d" "env nm = Some d" by metis
    show ?thesis unfolding d(1) by (rule assms(4) [OF _ d(2,3)]) (rule scope_parts [OF assms(1) s(1)])
  qed
  with assms(3) show ?thesis by (simp add: sound_def mem_for_def)
qed

lemma sound_record:
  assumes ok: "scope_ok hk env D" and vs: "list_all2 (\<lambda>f v. sound hk env D (snd (snd f)) v) fds vs"
    and di: "distinct (map (\<lambda>f. lower_camel hk (fst f)) fds)"
  shows "sound hk env D (WId (TDef n ow dc (KRecord fds))) (record_lift (map (\<lambda>f. lower_camel hk (fst f)) fds) vs)"
proof (rule sound_named [OF ok])
  fix nm d assume d: "decl_of hk (KRecord fds) = Inr d" "env nm = Some d"
    and parts: "\<And>p. p \<in> parts (KRecord fds) \<Longrightarrow> in_scope D p"
  from d(1) obtain ds where ds: "decl_fields hk fds = Inr ds" "d = DInterface ds" by (auto simp: decl_of_def rbind_Inr_iff)
  note spec = decl_fields_spec [OF ds(1)]
  define names where "names = map (\<lambda>f. lower_camel hk (fst f)) fds"
  obtain kvs where kvs: "record_lift names vs = VObj kvs" by (simp add: record_lift_def)
  have len: "length vs = length names" "length ds = length fds"
    using vs spec by (auto simp: names_def dest: list_all2_lengthD)
  have "optional \<and> obj_get kvs f = VUndef \<or> ts_mem env t (obj_get kvs f)" if "(f, optional, t) \<in> set ds" for f optional t
  proof -
    from that obtain i where i: "i < length ds" "ds ! i = (f, optional, t)" by (auto simp: in_set_conv_nth)
    have fi: "f = lower_camel hk (fst (fds ! i))" "optional = (nullable_ty (snd (snd (fds ! i))) \<noteq> None)"
      "ts_of hk (case nullable_ty (snd (snd (fds ! i))) of Some t \<Rightarrow> t | None \<Rightarrow> snd (snd (fds ! i))) = Inr t"
      using list_all2_nthD2 [OF spec i(1)] i(2) by simp_all
    have il: "i < length fds" using i(1) len by simp
    have v: "obj_get kvs f = vs ! i"
      using record_lift_obj [OF kvs, of i] di len il fi(1) by (simp add: names_def)
    have v: "obj_get kvs (lower_camel hk (fst (fds ! i))) = vs ! i" using v fi(1) by simp
    have s: "sound hk env D (snd (snd (fds ! i))) (vs ! i)" using list_all2_nthD [OF vs il] .
    have sc: "in_scope D (snd (snd (fds ! i)))" using parts il by (simp add: parts_def)
    show ?thesis
    proof (cases "nullable_ty (snd (snd (fds ! i)))")
      case None
      with s sc fi show ?thesis by (simp add: sound_def mem_for_def v)
    next
      case (Some t')
      with s fi scope_nullable [OF ok sc Some] show ?thesis by (auto simp: sound_def mem_for_def v)
    qed
  qed
  with d(2) ds(2) kvs show "ts_mem env (TsNamed nm) (record_lift (map (\<lambda>f. lower_camel hk (fst f)) fds) vs)"
    unfolding names_def by (auto intro!: ts_mem.Interface)
qed simp_all

lemma js_value_sound:
  assumes "js_value hk ty v" "scope_ok hk env D"
  shows "sound hk env D ty v"
  using assms(1)
proof (induction ty v)
  case (Bool b)
  show ?case by (simp add: sound_def mem_for_def ts_mem.Boolean)
next
  case (Int ty lo hi n)
  then show ?case by (auto simp: sound_def mem_for_def int_range_def ts_mem.Number split: wtype.splits)
next
  case (U64 n)
  show ?case by (simp add: sound_def mem_for_def ts_mem.Bigint)
next
  case (S64 n)
  show ?case by (simp add: sound_def mem_for_def ts_mem.Bigint)
next
  case (Text ty v)
  then show ?case by (cases v) (auto simp: sound_def mem_for_def intro: ts_mem.intros)
next
  case (Aliased t v n ow dc)
  then show ?case using sound_alias [OF assms(2)] by blast
next
  case (Record fds vs n ow dc)
  have "list_all2 (\<lambda>f v. sound hk env D (snd (snd f)) v) fds vs" using Record(1) by (rule list_all2_mono) blast
  from sound_record [OF assms(2) this Record(2)] show ?case .
next
  case (Flags bs flags n ow dc)
  show ?case
  proof (rule sound_named [OF assms(2)])
    fix nm d assume d: "decl_of hk (KFlags flags) = Inr d" "env nm = Some d"
    define names where "names = map (\<lambda>(f, _). lower_camel hk f) flags"
    obtain kvs where kvs: "record_lift names (map VBool bs) = VObj kvs" by (simp add: record_lift_def)
    have "obj_get kvs f = VUndef \<or> (\<exists>b. obj_get kvs f = VBool b)" for f
    proof -
      have "obj_get (fold (\<lambda>(k, v) kvs. obj_set kvs k v) (zip ns (map VBool bs)) acc) f \<in> insert VUndef (range VBool)"
        if "obj_get acc f \<in> insert VUndef (range VBool)" for ns bs acc
        using that
      proof (induction ns arbitrary: bs acc)
        case (Cons n ns)
        show ?case
        proof (cases bs)
          case (Cons b bs')
          have "obj_get (obj_set acc n (VBool b)) f \<in> insert VUndef (range VBool)" using Cons.prems by simp
          from Cons.IH [OF this, of bs'] show ?thesis by (simp add: \<open>bs = b # bs'\<close>)
        qed (use Cons.prems in simp)
      qed simp
      moreover have "obj_get [] f = VUndef" by (simp add: obj_get_def)
      ultimately show ?thesis using kvs by (auto simp: record_lift_def)
    qed
    with d kvs show "ts_mem env (TsNamed nm) (record_lift (map (\<lambda>(f, _). lower_camel hk f) flags) (map VBool bs))"
      unfolding names_def [symmetric] by (auto simp: decl_of_def intro: ts_mem.Flags)
  qed simp_all
next
  case (Tuple ts vs n ow dc)
  show ?case
  proof (rule sound_kind [OF assms(2) decl_alias_kinds(2)])
    fix t assume p: "\<And>p. p \<in> parts (KTuple ts) \<Longrightarrow> in_scope D p" and t: "ts_of_kind hk (KTuple ts) = Inr t"
    from t obtain xs where xs: "list_all2 (\<lambda>t x. ts_of hk t = Inr x) ts xs" "t = TsTuple xs"
      by (auto simp: rbind_Inr_iff ts_of_list_Inr)
    have "list_all2 (ts_mem env) xs vs"
    proof (rule list_all2_all_nthI)
      show "length xs = length vs" using list_all2_lengthD [OF xs(1)] list_all2_lengthD [OF Tuple] by simp
      fix i assume "i < length xs"
      then have i: "i < length ts" using xs(1) by (simp add: list_all2_lengthD)
      have "in_scope D (ts ! i)" using p i by (simp add: parts_def)
      with list_all2_nthD [OF Tuple i] list_all2_nthD [OF xs(1) i] show "ts_mem env (xs ! i) (vs ! i)" by (simp add: sound_def mem_for_def)
    qed
    with xs(2) show "ts_mem env t (tuple_lift vs)" by (simp add: tuple_lift_def ts_mem.Tuple)
  qed simp
next
  case (Case c d cases n ow dc v)
  show ?case
  proof (rule sound_named [OF assms(2)])
    fix nm dec assume d: "decl_of hk (KVariant cases) = Inr dec" "env nm = Some dec"
    then obtain ds where "decl_cases hk cases = Inr ds" "dec = DUnion ds" by (auto simp: decl_of_def rbind_Inr_iff)
    with decl_cases_spec [OF this(1) Case] d(2) show "ts_mem env (TsNamed nm) (variant_val c False v)"
      by (auto simp: variant_val_def intro: ts_mem.Case)
  qed simp_all
next
  case (Payload c d t cases v n ow dc)
  show ?case
  proof (rule sound_named [OF assms(2)])
    fix nm dec assume d: "decl_of hk (KVariant cases) = Inr dec" "env nm = Some dec"
      and p: "\<And>p. p \<in> parts (KVariant cases) \<Longrightarrow> in_scope D p"
    from d obtain ds where ds: "decl_cases hk cases = Inr ds" "dec = DUnion ds" by (auto simp: decl_of_def rbind_Inr_iff)
    from decl_cases_spec [OF ds(1) Payload(1)] obtain x where x: "ts_of hk t = Inr x" "(c, Some x) \<in> set ds" by auto
    have "in_scope D t" using p Payload(1) by (force simp: parts_def)
    with Payload(3) x(1) have "ts_mem env x v" by (simp add: sound_def mem_for_def)
    with ts_mem.Payload [OF _ x(2)] ds(2) d(2) show "ts_mem env (TsNamed nm) (variant_val c True v)"
      by (simp add: variant_val_def)
  qed simp_all
next
  case (Enum c cases n ow dc)
  show ?case
  proof (rule sound_named [OF assms(2)])
    fix nm d assume "decl_of hk (KEnum cases) = Inr d" "env nm = Some d"
    with Enum show "ts_mem env (TsNamed nm) (VStr c)" by (auto simp: decl_of_def intro!: ts_mem.Enum imageI) force
  qed simp_all
next
  case (OptionNone n ow dc t)
  show ?case by (rule sound_option [OF assms(2)]) auto
next
  case (OptionSome t v n ow dc)
  then show ?case by (intro sound_option [OF assms(2)]) (auto simp: sound_def)
next
  case (OkVoid n ow dc err)
  show ?case
    by (rule sound_kind [OF assms(2) decl_alias_kinds(4)]) (auto simp: rbind_Inr_iff intro: ts_mem.intros)
next
  case (Ok t v n ow dc err)
  show ?case
  proof (rule sound_kind [OF assms(2) decl_alias_kinds(4)])
    fix x assume p: "\<And>p. p \<in> parts (KResult (Some t) err) \<Longrightarrow> in_scope D p" and x: "ts_of_kind hk (KResult (Some t) err) = Inr x"
    from p [of t] Ok(2) x show "ts_mem env x (VObj [(''tag'', VStr ''ok''), (''val'', v)])"
      by (auto simp: parts_def sound_def mem_for_def rbind_Inr_iff intro!: ts_mem.Ok)
  qed simp
next
  case (ErrVoid n ow dc ok)
  show ?case
    by (rule sound_kind [OF assms(2) decl_alias_kinds(4)]) (auto simp: rbind_Inr_iff intro: ts_mem.intros)
next
  case (Err t v n ow dc ok)
  show ?case
  proof (rule sound_kind [OF assms(2) decl_alias_kinds(4)])
    fix x assume p: "\<And>p. p \<in> parts (KResult ok (Some t)) \<Longrightarrow> in_scope D p" and x: "ts_of_kind hk (KResult ok (Some t)) = Inr x"
    from p [of t] Err(2) x show "ts_mem env x (VObj [(''tag'', VStr ''err''), (''val'', v)])"
      by (auto simp: parts_def sound_def mem_for_def rbind_Inr_iff intro!: ts_mem.Err)
  qed simp
next
  case (Typed t k n ow dc xs)
  then show ?case
    by (intro sound_kind [OF assms(2) decl_alias_kinds(5)]) (auto intro: ts_mem.Typed)
next
  case (List t vs n ow dc)
  show ?case
  proof (rule sound_kind [OF assms(2) decl_alias_kinds(5)])
    fix x assume p: "\<And>p. p \<in> parts (KList t) \<Longrightarrow> in_scope D p" and x: "ts_of_kind hk (KList t) = Inr x"
    from p [of t] List x show "ts_mem env x (VArr vs)"
      by (auto simp: parts_def sound_def mem_for_def rbind_Inr_iff intro!: ts_mem.Array)
  qed simp
next
  case (Map kvs t u n ow dc)
  show ?case
  proof (rule sound_kind [OF assms(2) decl_alias_kinds(6)])
    fix x assume p: "\<And>p. p \<in> parts (KMap t u) \<Longrightarrow> in_scope D p" and x: "ts_of_kind hk (KMap t u) = Inr x"
    from p [of t] p [of u] Map x show "ts_mem env x (VMap kvs)"
      by (auto simp: parts_def sound_def mem_for_def rbind_Inr_iff intro!: ts_mem.Map)
  qed simp
next
  case (Fixed vs len t n ow dc)
  show ?case
  proof (rule sound_kind [OF assms(2) decl_alias_kinds(7)])
    fix x assume p: "\<And>p. p \<in> parts (KFixedList t len) \<Longrightarrow> in_scope D p" and x: "ts_of_kind hk (KFixedList t len) = Inr x"
    from p [of t] Fixed x show "ts_mem env x (fixed_list_lift vs)"
      by (auto simp: parts_def sound_def mem_for_def rbind_Inr_iff fixed_list_lift_def intro!: ts_mem.Fixed split: if_splits)
  qed simp
qed

section \<open>The lifting instructions make such values\<close>

lemma option_lift_value:
  assumes "option_lift valid (ty_maybe_null t) (jret []) (jret [x]) (VNum d) s = (Inr v, s')" "d = 0 \<or> d = 1" "js_value hk t x"
  shows "js_value hk (WId (TDef n ow dc (KOption t))) v"
proof -
  have "v = (if ty_maybe_null t then VObj [(''tag'', VStr ''none'')] else VUndef) \<or>
      v = (if ty_maybe_null t then VObj [(''tag'', VStr ''some''), (''val'', x)] else x)"
    using assms(2)
  proof
    assume "d = 0"
    with assms(1) show ?thesis by (cases valid) (simp_all add: option_lift_def Let_def switch_num_def jbind_def no_result_def)
  next
    assume "d = 1"
    with assms(1) show ?thesis by (cases valid) (simp_all add: option_lift_def Let_def switch_num_def jbind_def one_result_def)
  qed
  then show ?thesis
    using js_value.OptionNone [of hk n ow dc t] js_value.OptionSome [OF assms(3), of n ow dc] by (elim disjE) (simp_all only:)
qed

lemma result_lift_value:
  assumes "result_lift valid True True (jret [x]) (jret [y]) (VNum d) s = (Inr v, s')" "d = 0 \<or> d = 1" "js_value hk t x" "js_value hk u y"
  shows "js_value hk (WId (TDef n ow dc (KResult (Some t) (Some u)))) v"
proof -
  have "v = VObj [(''tag'', VStr ''ok''), (''val'', x)] \<or> v = VObj [(''tag'', VStr ''err''), (''val'', y)]"
    using assms(2)
  proof
    assume "d = 0"
    with assms(1) show ?thesis by (cases valid) (simp_all add: result_lift_def Let_def switch_num_def jbind_def one_result_def)
  next
    assume "d = 1"
    with assms(1) show ?thesis by (cases valid) (simp_all add: result_lift_def Let_def switch_num_def jbind_def one_result_def)
  qed
  then show ?thesis
    using js_value.Ok [OF assms(3), of n ow dc "Some u"] js_value.Err [OF assms(4), of n ow dc "Some t"] by (elim disjE) (simp_all only:)
qed

lemma enum_lift_value:
  assumes "enum_lift False (map fst cases) (VNum d) s = (Inr v, s')"
  shows "js_value hk (WId (TDef n ow dc (KEnum cases))) v"
proof -
  from assms have "0 \<le> d" "nat d < length cases" "v = VStr (fst (cases ! nat d))"
    by (auto simp: enum_lift_def switch_num_def jthrow_def jret_def split: if_splits)
  then show ?thesis by (auto intro!: js_value.Enum)
qed

lemma variant_lift_value:
  assumes "variant_lift False (map (\<lambda>(c, _, t). (c, t \<noteq> None, if t = None then jret [] else jret [x])) cases) (VNum d) s = (Inr v, s')"
    and "\<forall>(c, dc, t) \<in> set cases. case t of None \<Rightarrow> True | Some ty \<Rightarrow> js_value hk ty x"
  shows "js_value hk (WId (TDef n ow dc (KVariant cases))) v"
proof -
  from assms(1) have i: "0 \<le> d" "nat d < length cases" by (auto simp: variant_lift_def switch_num_def jthrow_def split: if_splits)
  have d: "d < int (length cases)" using i by linarith
  obtain c dc' t where c: "cases ! nat d = (c, dc', t)" by (cases "cases ! nat d")
  with i have m: "(c, dc', t) \<in> set cases" by (metis nth_mem)
  show ?thesis
  proof (cases t)
    case None
    with assms(1) i d c have "v = variant_val c False VUndef"
      by (auto simp: variant_lift_def switch_num_def jbind_def no_result_def variant_val_def jret_def)
    with js_value.Case [of c dc' cases] m None show ?thesis by simp
  next
    case (Some ty)
    with assms(1) i d c have "v = variant_val c True x"
      by (auto simp: variant_lift_def switch_num_def jbind_def one_result_def variant_val_def jret_def)
    with js_value.Payload [of c dc' ty cases] m Some assms(2) show ?thesis by force
  qed
qed

section \<open>Properties\<close>


text \<open>The flags for the two helper aliases: after printing a type, \<open>needs_ty_option\<close> is set if it was before or the
  printed type uses \<open>Option\<close> somewhere inside, and the same for \<open>Result\<close>; and the text is the one of the type.\<close>

theorem printed_type_needs:
  assumes "names_plain hk" "print_ty hk ty out = Inr out'"
  shows "\<exists>t. ts_of hk ty = Inr t \<and> src_text (ts_src out') = src_text (ts_src out) @ show_ts t \<and>
    (needs_ty_option out' \<longleftrightarrow> needs_ty_option out \<or> uses_option t) \<and> (needs_ty_result out' \<longleftrightarrow> needs_ty_result out \<or> uses_result t)"
proof -
  from assms(2) obtain t where "ts_of hk ty = Inr t" "out' = printed t out"
    by (auto simp: print_ty_eq [OF assms(1)] rbind_Inr_iff)
  then show ?thesis by (auto simp: printed_def ts_add_def)
qed

section \<open>Witnesses\<close>

text \<open>A record with an optional field and one of a doubly optional type.\<close>

definition demo_heck :: heck where
  "demo_heck = \<lparr>upper_camel = (\<lambda>s. filter is_letter s), lower_camel = id, kebab = id\<rparr>"

definition demo_opt :: "wtype \<Rightarrow> wtype" where
  "demo_opt t = WId (TDef None OwnerNone None (KOption t))"

definition demo_rec :: tdef where
  "demo_rec = TDef (Some ''r'') OwnerNone None (KRecord [(''a'', None, demo_opt WU32), (''b'', None, demo_opt (demo_opt WU8))])"

definition demo_scope :: "tdef set" where
  "demo_scope = {demo_rec, TDef None OwnerNone None (KOption WU32), TDef None OwnerNone None (KOption WU8), TDef None OwnerNone None (KOption (demo_opt WU8))}"

definition demo_decls :: "string \<Rightarrow> tsdecl option" where
  "demo_decls = [''r'' \<mapsto> DInterface [(''a'', True, TsNumber), (''b'', False, TsOption (TsOrUndefined TsNumber))]]"

lemma demo_names_plain: "names_plain demo_heck"
  by (auto simp: names_plain_def demo_heck_def is_letter_def Let_def intro!: plainI)

lemma demo_scope_ok: "scope_ok demo_heck demo_decls demo_scope"
proof -
  have "decl_of demo_heck (def_kind demo_rec) = Inr (DInterface [(''a'', True, TsNumber), (''b'', False, TsOption (TsOrUndefined TsNumber))])"
    by code_simp
  moreover have "upper_camel demo_heck ''r'' = ''r''" by code_simp
  ultimately show ?thesis
    by (auto simp: scope_ok_def demo_scope_def parts_def in_scope_def demo_rec_def demo_opt_def demo_decls_def)
qed

definition demo_out :: ts_out where
  "demo_out = \<lparr>ts_src = source_default, needs_ty_option = False, needs_ty_result = False\<rparr>"


theorem printed_type_needs_witness:
  "\<exists>out' t. print_ty demo_heck (demo_opt (demo_opt WU8)) demo_out = Inr out' \<and> src_text (ts_src out') = show_ts t \<and>
     show_ts t = ''Option<number | undefined>'' \<and> needs_ty_option out' \<and> \<not> needs_ty_result out'"
proof -
  have t: "ts_of demo_heck (demo_opt (demo_opt WU8)) = Inr (TsOption (TsOrUndefined TsNumber))" by code_simp
  obtain out' where o: "print_ty demo_heck (demo_opt (demo_opt WU8)) demo_out = Inr out'"
    using t by (simp add: print_ty_eq [OF demo_names_plain])
  from printed_type_needs [OF demo_names_plain o] t o show ?thesis
    by (auto simp: demo_out_def source_default_def intro!: exI [of _ "TsOption (TsOrUndefined TsNumber)"])
qed

end
