(* ===== verification/Ts_Helpers.thy ===== *)
theory Ts_Helpers
  imports Ts_World Ts_Values
begin

text \<open>
  What the declaration files hold: the helper aliases \<open>Option\<close> and \<open>Result\<close> are declared in the file of an interface
  exactly when a printed type uses them, while those used by the imports of a world are not; the side of a resource class;
  and interfaces that share a file.
\<close>

section \<open>Helper types that are needed\<close>

text \<open>Both flags at once: \<open>True\<close> stands for \<open>Option\<close>, \<open>False\<close> for \<open>Result\<close>.\<close>

definition need :: "bool \<Rightarrow> 'a ts_out_scheme \<Rightarrow> bool" where
  "need h out = (if h then needs_ty_option out else needs_ty_result out)"

definition uses :: "bool \<Rightarrow> tst \<Rightarrow> bool" where
  "uses h t = (if h then uses_option t else uses_result t)"

definition any_need :: "bool \<Rightarrow> ts_iface \<Rightarrow> bool" where
  "any_need h s = (if h then any_option s else any_result s)"

text \<open>A list of printed types uses the helper.\<close>

definition mentions :: "heck \<Rightarrow> wtype option list \<Rightarrow> bool \<Rightarrow> bool" where
  "mentions hk l h = (\<exists>x \<in> set l. \<exists>t. ts_of_opt hk x = Inr t \<and> uses h t)"

text \<open>Nothing but the text and the flags of \<open>u\<close> has changed.\<close>

definition marked :: "(bool \<Rightarrow> bool) \<Rightarrow> 'a ts_out_scheme \<Rightarrow> 'a ts_out_scheme \<Rightarrow> bool" where
  "marked u out out' = (\<exists>src. out' = out\<lparr>ts_src := src, needs_ty_option := needs_ty_option out \<or> u True,
     needs_ty_result := needs_ty_result out \<or> u False\<rparr>)"

lemma marked_refl: "marked (\<lambda>_. False) out out"
  unfolding marked_def by (intro exI [of _ "ts_src out"]) simp

lemma marked_pushed: "marked u a b \<Longrightarrow> marked u a (ts_push s b)"
  unfolding marked_def ts_push_def by (cases a) auto

lemma marked_from_pushed: "marked u (ts_push s a) b \<Longrightarrow> marked u a b"
  by (auto simp: marked_def ts_push_def)

lemma marked_trans: "marked u a b \<Longrightarrow> marked v b c \<Longrightarrow> marked (\<lambda>h. u h \<or> v h) a c"
  by (fastforce simp: marked_def disj_assoc)

lemma marked_need: "marked u a b \<Longrightarrow> need h b \<longleftrightarrow> need h a \<or> u h"
  by (cases h) (auto simp: marked_def need_def)

lemma marked_eq: "marked u a b \<Longrightarrow> (\<And>h. u h = v h) \<Longrightarrow> marked v a b"
  by (simp add: marked_def)

lemma mentions_Cons: "mentions hk (x # l) h \<longleftrightarrow> mentions hk [x] h \<or> mentions hk l h"
  by (auto simp: mentions_def)

lemma mentions_Nil [simp]: "mentions hk [] h = False"
  by (simp add: mentions_def)

lemma mentions_append: "mentions hk (k @ l) h \<longleftrightarrow> mentions hk k h \<or> mentions hk l h"
  by (auto simp: mentions_def)

lemma marked_printed: "marked (\<lambda>h. uses h t) out (printed t out)"
  by (auto simp: marked_def printed_def ts_add_def uses_def)

lemma marked_ty: "names_plain hk \<Longrightarrow> print_ty hk ty out = Inr out' \<Longrightarrow> marked (mentions hk [Some ty]) out out'"
  by (auto simp: print_ty_eq rbind_Inr_iff mentions_def intro: marked_eq [OF marked_printed])

lemma marked_optional: "names_plain hk \<Longrightarrow> print_optional_ty hk ty out = Inr out' \<Longrightarrow> marked (mentions hk [ty]) out out'"
  by (auto simp: print_optional_eq rbind_Inr_iff mentions_def intro: marked_eq [OF marked_printed])

lemma marked_kind:
  assumes "names_plain hk" "print_kind hk k out = Inr out'"
  shows "marked (\<lambda>h. \<exists>t. ts_of_kind hk k = Inr t \<and> uses h t) out out'"
proof -
  from assms(2) obtain t where "ts_of_kind hk k = Inr t" "out' = printed t out"
    by (auto simp: print_ty_text(2) [OF assms(1), rule_format] rbind_Inr_iff)
  then show ?thesis by (auto intro: marked_eq [OF marked_printed])
qed

lemma marked_write: "marked u a b \<Longrightarrow> marked u a (ts_write strs b)"
  unfolding ts_write_def by (induction strs arbitrary: b) (simp_all add: marked_pushed)

lemma marked_fold: "(\<And>x b. marked u a b \<Longrightarrow> marked u a (f x b)) \<Longrightarrow> marked u a b \<Longrightarrow> marked u a (fold f xs b)"
  by (induction xs arbitrary: b) simp_all

lemma marked_docs_raw: "marked u a b \<Longrightarrow> marked u a (docs_raw d b)"
  unfolding docs_raw_def by (intro marked_pushed marked_fold) (simp_all add: marked_pushed)

lemma marked_docs: "marked u a b \<Longrightarrow> marked u a (print_docs d b)"
  by (cases d) (simp_all add: print_docs_def marked_docs_raw)

lemmas marked_texts = marked_refl marked_pushed marked_write marked_docs_raw marked_docs

section \<open>Functions\<close>

text \<open>The types that the declaration of a function shows: those of the parameters, without the one of a method, and the
  result, or its success when the function throws its error.\<close>

definition shown_types :: "'v ts_function \<Rightarrow> wtype option list" where
  "shown_types f = map (\<lambda>p. Some (snd p)) (drop (param_start (fn_kind f)) (fn_params f)) @
     (case fn_kind f of
        Constructor _ \<Rightarrow> []
      | _ \<Rightarrow> (case get_thrown_type (fn_result f) of Some (ok_ty, _) \<Rightarrow> [ok_ty] | None \<Rightarrow>
               (case fn_result f of None \<Rightarrow> [] | Some ty \<Rightarrow> [Some ty])))"

lemma marked_params:
  assumes "names_plain hk"
  shows "print_params hk first ps out = Inr out' \<Longrightarrow> marked (mentions hk (map (\<lambda>p. Some (snd p)) ps)) out out'"
proof (induction ps arbitrary: first out)
  case Nil
  then show ?case by (auto intro: marked_eq [OF marked_refl])
next
  case (Cons p ps)
  obtain mid where m: "print_ty hk (snd p) (ts_push '': '' (ts_push (param_name hk (fst p)) (if first then out else ts_push '', '' out))) = Inr mid"
    "print_params hk False ps mid = Inr out'" using Cons.prems by (auto simp: rbind_Inr_iff)
  have "marked (mentions hk [Some (snd p)]) out mid"
    using marked_from_pushed [OF marked_from_pushed [OF marked_ty [OF assms m(1)]]] by (auto intro: marked_from_pushed split: if_splits)
  from marked_trans [OF this Cons.IH [OF m(2)]] show ?case
    by (rule marked_eq) (simp add: mentions_Cons [of hk "Some (snd p)" "map _ _"])
qed

lemma marked_result:
  assumes "names_plain hk" "print_result hk res out = Inr out'"
  shows "marked (mentions hk (case get_thrown_type res of Some (ok_ty, _) \<Rightarrow> [ok_ty] | None \<Rightarrow>
               (case res of None \<Rightarrow> [] | Some ty \<Rightarrow> [Some ty]))) out out'"
  using assms by (auto simp: print_result_def marked_optional marked_ty split: option.splits
      intro: marked_eq [OF marked_pushed [OF marked_refl]])

lemma marked_tail:
  assumes "names_plain hk" "func_tail hk declaration porcelain f out = Inr out'"
  shows "marked (mentions hk (shown_types f)) out out'"
proof -
  let ?ps = "drop (param_start (fn_kind f)) (fn_params f)"
  obtain mid where m: "print_params hk True ?ps (ts_push ''('' out) = Inr mid"
    using assms(2) by (auto simp: func_tail_def Let_def rbind_Inr_iff split: if_splits)
  have a: "marked (mentions hk (map (\<lambda>p. Some (snd p)) ?ps)) out mid"
    by (rule marked_from_pushed [OF marked_params [OF assms(1) m]])
  show ?thesis
  proof (cases "\<exists>r. fn_kind f = Constructor r")
    case True
    then have "out' = ts_push [NL] (ts_push '')'' mid)" "shown_types f = map (\<lambda>p. Some (snd p)) ?ps"
      using assms(2) m by (auto simp: func_tail_def Let_def shown_types_def split: if_splits)
    with a show ?thesis by (simp add: marked_pushed)
  next
    case False
    let ?r = "case get_thrown_type (fn_result f) of Some (ok_ty, _) \<Rightarrow> [ok_ty] | None \<Rightarrow>
               (case fn_result f of None \<Rightarrow> [] | Some ty \<Rightarrow> [Some ty])"
    from False have sh: "shown_types f = map (\<lambda>p. Some (snd p)) ?ps @ ?r" by (cases "fn_kind f") (simp_all add: shown_types_def)
    obtain start fin p q where r: "print_result hk (fn_result f) start = Inr fin" and
      s: "start = ts_push '': '' (ts_push '')'' mid) \<or> start = ts_push ''Promise<'' (ts_push '': '' (ts_push '')'' mid))" and
      e: "out' = ts_push p fin \<or> out' = ts_push p (ts_push q fin)"
    proof -
      from assms(2) m False show ?thesis
        by (cases "fn_kind f") (auto simp: func_tail_def Let_def rbind_Inr_iff split: if_splits intro: that)
    qed
    have "marked (mentions hk ?r) mid fin"
      using s marked_result [OF assms(1) r] by (auto dest!: marked_from_pushed)
    from marked_trans [OF a this] have "marked (mentions hk (shown_types f)) out fin"
      by (rule marked_eq) (simp add: sh mentions_append)
    with e show ?thesis by (auto intro: marked_pushed)
  qed
qed

section \<open>Interfaces and their resources\<close>

lemma any_need_map:
  "bt_ok (resources s) \<Longrightarrow> any_need h s \<longleftrightarrow> need h s \<or> (\<exists>r e. map_of (resources s) r = Some e \<and> need h (snd e))"
  by (cases h) (auto simp: any_need_def any_option_def any_result_def need_def Bex_def bt_ok_mem)

lemma any_need_marked:
  "marked u s s' \<Longrightarrow> bt_ok (resources s) \<Longrightarrow> bt_ok (resources s') \<and> resources s' = resources s \<and> (any_need h s' \<longleftrightarrow> any_need h s \<or> u h)"
  by (cases h) (auto simp: marked_def any_need_def any_option_def any_result_def)

lemma any_need_put:
  assumes "bt_ok (resources s)" "map_of (resources s) q = Some (m', rs) \<or> map_of (resources s) q = None \<and> \<not> need h rs"
    "need h rs' \<longleftrightarrow> need h rs \<or> u"
  shows "any_need h (s\<lparr>resources := bt_put q (m, rs') (resources s)\<rparr>) \<longleftrightarrow> any_need h s \<or> u"
proof -
  let ?M = "map_of (resources s)"
  have "need h (s\<lparr>resources := bt_put q (m, rs') (resources s)\<rparr>) = need h s" by (simp add: need_def)
  then have "any_need h (s\<lparr>resources := bt_put q (m, rs') (resources s)\<rparr>) \<longleftrightarrow>
      need h s \<or> need h rs' \<or> (\<exists>r e. r \<noteq> q \<and> ?M r = Some e \<and> need h (snd e))"
    using any_need_map [of "s\<lparr>resources := bt_put q (m, rs') (resources s)\<rparr>" h] assms(1) by (simp del: split_paired_Ex) blast
  moreover have "any_need h s \<longleftrightarrow> need h s \<or> need h rs \<or> (\<exists>r e. r \<noteq> q \<and> ?M r = Some e \<and> need h (snd e))"
    using any_need_map [OF assms(1), of h] assms(2) by (metis option.distinct(1) option.inject snd_conv)
  ultimately show ?thesis using assms(3) by blast
qed

lemma resource_entry_need:
  "resource_entry meta r s = (m, rs) \<Longrightarrow> map_of (resources s) r = Some (m, rs) \<or> map_of (resources s) r = None \<and> \<not> need h rs \<and> m = meta"
  by (auto simp: resource_entry_def ts_resource_new_def need_def split: option.splits)

text \<open>What the declaration of a function leaves: the needs of its types, and an entry for its resource.\<close>

lemma ts_func_effect:
  assumes "names_plain hk" "ts_func hk hash f dflt declaration porcelain meta s = Inr s'" "bt_ok (resources s)"
  shows "bt_ok (resources s')" and "any_need h s' \<longleftrightarrow> any_need h s \<or> mentions hk (shown_types f) h"
    and "map_option fst (map_of (resources s') r) =
      (if resource_of (fn_kind f) = Some r \<and> map_of (resources s) r = None then Some meta else map_option fst (map_of (resources s) r))"
    and "is_guest s' = is_guest s"
proof -
  obtain hd ln where h: "func_head hk hash dflt declaration f (if_local_names s) = Inr (hd, ln)"
    using assms(2) by (auto simp: ts_func_def rbind_Inr_iff)
  have "bt_ok (resources s') \<and> (any_need h s' \<longleftrightarrow> any_need h s \<or> mentions hk (shown_types f) h) \<and>
    map_option fst (map_of (resources s') r) =
      (if resource_of (fn_kind f) = Some r \<and> map_of (resources s) r = None then Some meta else map_option fst (map_of (resources s) r)) \<and>
    is_guest s' = is_guest s"
  proof (cases "resource_of (fn_kind f)")
    case None
    let ?s = "s\<lparr>if_local_names := ln\<rparr>"
    from None h assms(2) have t: "func_tail hk declaration porcelain f (ts_write hd (print_docs (fn_docs f) ?s)) = Inr s'"
      by (simp add: ts_func_def)
    have "marked (\<lambda>_. False) ?s (ts_write hd (print_docs (fn_docs f) ?s))" by (intro marked_texts)
    from marked_trans [OF this marked_tail [OF assms(1) t]] have m: "marked (mentions hk (shown_types f)) ?s s'" by simp
    have "any_need h ?s = any_need h s" by (simp add: any_need_def any_option_def any_result_def)
    with any_need_marked [OF m, of h] m assms(3) None show ?thesis by (auto simp: marked_def)
  next
    case (Some q)
    obtain m rs where e: "resource_entry meta q s = (m, rs)" by fastforce
    let ?rs = "case fn_kind f of Constructor _ \<Rightarrow> if declaration then (print_docs (fn_docs f) rs)\<lparr>rs_has_constructor := True\<rparr> else print_docs (fn_docs f) rs
      | _ \<Rightarrow> print_docs (fn_docs f) rs"
    from Some h e assms(2) obtain rs' where t: "func_tail hk declaration porcelain f (ts_write hd ?rs) = Inr rs'"
      and s': "s' = s\<lparr>resources := bt_put q (m, rs') (resources s)\<rparr>" by (auto simp: ts_func_def rbind_Inr_iff Let_def)
    have "marked (\<lambda>_. False) ?rs (ts_write hd ?rs)" by (intro marked_texts)
    from marked_trans [OF this marked_tail [OF assms(1) t]] have k: "marked (mentions hk (shown_types f)) ?rs rs'" by simp
    have "marked (\<lambda>_. False) rs (print_docs (fn_docs f) rs)" by (intro marked_texts)
    then have "need h (print_docs (fn_docs f) rs) = need h rs" by (simp add: marked_need)
    then have "need h ?rs = need h rs" by (auto simp: need_def split: func_kind.split)
    with marked_need [OF k, of h] have n: "need h rs' \<longleftrightarrow> need h rs \<or> mentions hk (shown_types f) h" by simp
    have ok: "bt_ok (resources s')" using assms(3) by (simp add: s')
    have "any_need h s' \<longleftrightarrow> any_need h s \<or> mentions hk (shown_types f) h"
      unfolding s' by (rule any_need_put [OF assms(3) _ n]) (use resource_entry_need [OF e, of h] in blast)
    moreover from resource_entry_need [OF e, of h] Some
    have "map_option fst (map_of (resources s') r) =
      (if resource_of (fn_kind f) = Some r \<and> map_of (resources s) r = None then Some meta else map_option fst (map_of (resources s) r))"
      by (auto simp: s')
    ultimately show ?thesis using ok by (simp add: s')
  qed
  then show "bt_ok (resources s')" and "any_need h s' \<longleftrightarrow> any_need h s \<or> mentions hk (shown_types f) h"
    and "map_option fst (map_of (resources s') r) =
      (if resource_of (fn_kind f) = Some r \<and> map_of (resources s) r = None then Some meta else map_option fst (map_of (resources s) r))"
    and "is_guest s' = is_guest s" by blast+
qed

section \<open>Types\<close>

text \<open>The types that a declaration shows; an alias of a type of another interface shows none.\<close>

definition shown_decl :: "heck \<Rightarrow> (nat \<Rightarrow> string option) \<Rightarrow> nat option \<Rightarrow> tdef \<Rightarrow> bool \<Rightarrow> bool" where
  "shown_decl hk id_of parent_id d h =
     (case def_kind d of
        KRecord fds \<Rightarrow> mentions hk (map (\<lambda>f. Some (case nullable_ty (snd (snd f)) of Some t \<Rightarrow> t | None \<Rightarrow> snd (snd f))) fds) h
      | KVariant cs \<Rightarrow> mentions hk (map (\<lambda>c. snd (snd c)) cs) h
      | KType t \<Rightarrow> foreign_owner id_of parent_id t = Inr None \<and> mentions hk [Some t] h
      | KFlags _ \<Rightarrow> False
      | KEnum _ \<Rightarrow> False
      | KResource \<Rightarrow> False
      | k \<Rightarrow> (\<exists>t. ts_of_kind hk k = Inr t \<and> uses h t))"

lemma marked_fields:
  assumes "names_plain hk"
  shows "print_fields hk fds out = Inr out' \<Longrightarrow>
    marked (mentions hk (map (\<lambda>f. Some (case nullable_ty (snd (snd f)) of Some t \<Rightarrow> t | None \<Rightarrow> snd (snd f))) fds)) out out'"
proof (induction fds arbitrary: out)
  case Nil
  then show ?case by (auto intro: marked_eq [OF marked_refl])
next
  case (Cons f fds)
  obtain name d ty where f: "f = (name, d, ty)" by (cases f)
  let ?ty = "case nullable_ty ty of Some t \<Rightarrow> t | None \<Rightarrow> ty"
  define opt :: string where "opt = (if nullable_ty ty = None then [] else ''?'')"
  have eq: "print_fields hk (f # fds) out = rbind (print_ty hk ?ty (ts_push (maybe_quote_id (lower_camel hk name) @ opt @ '': '') (print_docs d out)))
      (\<lambda>out. print_fields hk fds (ts_push ('','' @ [NL]) out))"
    by (cases "nullable_ty ty") (simp_all add: f opt_def)
  obtain mid where m: "print_ty hk ?ty (ts_push (maybe_quote_id (lower_camel hk name) @ opt @ '': '') (print_docs d out)) = Inr mid"
    "print_fields hk fds (ts_push ('','' @ [NL]) mid) = Inr out'" using Cons.prems [unfolded eq]
    by (elim rbind_InrE, intro that)
  have "marked (\<lambda>_. False) out (print_docs d out)" by (intro marked_texts)
  from marked_trans [OF this marked_from_pushed [OF marked_ty [OF assms m(1)]]] have "marked (mentions hk [Some ?ty]) out mid" by simp
  from marked_trans [OF this marked_from_pushed [OF Cons.IH [OF m(2)]]] show ?case
    by (rule marked_eq) (simp only: f list.map snd_conv, rule mentions_Cons [symmetric])
qed

lemma marked_case_names: "marked u a b \<Longrightarrow> marked u a (print_case_names hk name first cs b)"
  by (induction cs arbitrary: first b) (auto simp: marked_pushed)

lemma marked_enum_names: "marked u a b \<Longrightarrow> marked u a (print_enum_names first cs b)"
  by (induction cs arbitrary: first b) (auto simp: marked_pushed)

lemma marked_cases:
  assumes "names_plain hk"
  shows "case_decls hk name cs out = Inr out' \<Longrightarrow> marked (mentions hk (map (\<lambda>c. snd (snd c)) cs)) out out'"
proof (induction cs arbitrary: out)
  case Nil
  then show ?case by (auto intro: marked_eq [OF marked_refl])
next
  case (Cons c cs)
  obtain cn d ty where c: "c = (cn, d, ty)" by (cases c)
  define top where "top = ts_push ([CHR 0x27] @ '','' @ [NL]) (ts_push cn (ts_push (''tag: '' @ [CHR 0x27])
    (ts_push (''export interface '' @ case_type_name hk name cn @ '' {'' @ [NL]) (print_docs d out))))"
  have t: "marked (\<lambda>_. False) out top" unfolding top_def by (intro marked_texts)
  have eq: "case_decls hk name (c # cs) out = rbind (case ty of None \<Rightarrow> Inr top
      | Some ty \<Rightarrow> rbind (print_ty hk ty (ts_push ''val: '' top)) (\<lambda>out. Inr (ts_push ('','' @ [NL]) out)))
      (\<lambda>out. case_decls hk name cs (ts_push (''}'' @ [NL]) out))" by (simp only: case_decls.simps c prod.case Let_def top_def)
  obtain mid where m: "(case ty of None \<Rightarrow> Inr top
      | Some ty \<Rightarrow> rbind (print_ty hk ty (ts_push ''val: '' top)) (\<lambda>out. Inr (ts_push ('','' @ [NL]) out))) = Inr mid"
    "case_decls hk name cs (ts_push (''}'' @ [NL]) mid) = Inr out'" using Cons.prems [unfolded eq]
    by (elim rbind_InrE, intro that)
  have "marked (mentions hk [ty]) top mid"
  proof (cases ty)
    case None
    have "mentions hk [None] h = False" for h by (simp add: mentions_def uses_def)
    with None m(1) show ?thesis by (auto intro: marked_eq [OF marked_refl])
  next
    case (Some x)
    with m(1) obtain y where "print_ty hk x (ts_push ''val: '' top) = Inr y" "mid = ts_push ('','' @ [NL]) y" by (auto simp: rbind_Inr_iff)
    with Some show ?thesis by (auto intro!: marked_pushed dest: marked_from_pushed [OF marked_ty [OF assms]])
  qed
  from marked_trans [OF t this] have "marked (mentions hk [ty]) out mid" by simp
  from marked_trans [OF this marked_from_pushed [OF Cons.IH [OF m(2)]]] show ?case
    by (rule marked_eq) (simp add: c mentions_Cons [of hk ty "map _ _"])
qed

lemma marked_record:
  assumes "names_plain hk" "type_record hk name fds d out = Inr out'"
  shows "marked (mentions hk (map (\<lambda>f. Some (case nullable_ty (snd (snd f)) of Some t \<Rightarrow> t | None \<Rightarrow> snd (snd f))) fds)) out out'"
proof -
  from assms(2) obtain mid where m: "print_fields hk fds (ts_push (''export interface '' @ upper_camel hk name @ '' {'' @ [NL]) (print_docs d out)) = Inr mid"
    "out' = ts_push (''}'' @ [NL]) mid" by (auto simp: type_record_def rbind_Inr_iff)
  have "marked (\<lambda>_. False) out (print_docs d out)" by (intro marked_texts)
  from marked_trans [OF this marked_from_pushed [OF marked_fields [OF assms(1) m(1)]]] m(2) show ?thesis by (simp add: marked_pushed)
qed

lemma marked_variant:
  assumes "names_plain hk" "type_variant hk name cs d out = Inr out'"
  shows "marked (mentions hk (map (\<lambda>c. snd (snd c)) cs)) out out'"
proof -
  define top where "top = ts_push ('';'' @ [NL])
       (print_case_names hk name True cs (ts_push (''export type '' @ upper_camel hk name @ '' = '') (print_docs d out)))"
  have t: "marked (\<lambda>_. False) out top" unfolding top_def by (intro marked_texts marked_case_names)
  from assms(2) have "case_decls hk name cs top = Inr out'" by (simp add: type_variant_def top_def)
  from marked_trans [OF t marked_cases [OF assms(1) this]] show ?thesis by simp
qed

lemma marked_type_of_kind:
  assumes "names_plain hk" "type_of_kind hk name k d out = Inr out'"
  shows "marked (\<lambda>h. \<exists>t. ts_of_kind hk k = Inr t \<and> uses h t) out out'"
proof -
  from assms(2) obtain mid where m: "print_kind hk k (ts_push (''export type '' @ upper_camel hk name @ '' = '') (print_docs d out)) = Inr mid"
    "out' = ts_push ('';'' @ [NL]) mid" by (auto simp: type_of_kind_def rbind_Inr_iff)
  have "marked (\<lambda>_. False) out (print_docs d out)" by (intro marked_texts)
  from marked_trans [OF this marked_from_pushed [OF marked_kind [OF assms(1) m(1)]]] m(2) show ?thesis by (simp add: marked_pushed)
qed

lemma marked_type_result:
  assumes "names_plain hk" "type_result hk name ok err d out = Inr out'"
  shows "marked (\<lambda>h. \<exists>t. ts_of_kind hk (KResult ok err) = Inr t \<and> uses h t) out out'"
proof -
  let ?top = "ts_push (''export type '' @ upper_camel hk name @ '' = Result<'') (print_docs d out\<lparr>needs_ty_result := True\<rparr>)"
  from assms(2) obtain a b where m: "print_optional_ty hk ok ?top = Inr a" "print_optional_ty hk err (ts_push '', '' a) = Inr b"
    "out' = ts_push (''>;'' @ [NL]) b" by (auto simp: type_result_def rbind_Inr_iff)
  have "marked (\<lambda>_. False) out (print_docs d out)" by (intro marked_texts)
  moreover have "marked Not (print_docs d out) (print_docs d out\<lparr>needs_ty_result := True\<rparr>)"
    unfolding marked_def by (intro exI [of _ "ts_src (print_docs d out)"]) simp
  ultimately have "marked Not out (print_docs d out\<lparr>needs_ty_result := True\<rparr>)" by (auto dest: marked_trans)
  from marked_trans [OF marked_trans [OF this marked_from_pushed [OF marked_optional [OF assms(1) m(1)]]] marked_from_pushed [OF marked_optional [OF assms(1) m(2)]]]
  have "marked (\<lambda>h. (\<not> h \<or> mentions hk [ok] h) \<or> mentions hk [err] h) out out'" using m(3) by (simp add: marked_pushed)
  moreover from m(1,2) obtain x y where "ts_of_opt hk ok = Inr x" "ts_of_opt hk err = Inr y"
    by (auto simp: print_optional_eq [OF assms(1)] rbind_Inr_iff)
  then have "(\<exists>t. ts_of_kind hk (KResult ok err) = Inr t \<and> uses h t) \<longleftrightarrow> (\<not> h \<or> mentions hk [ok] h) \<or> mentions hk [err] h" for h
    by (cases h) (auto simp: mentions_def uses_def)
  ultimately show ?thesis by (auto elim: marked_eq)
qed

lemma marked_type_wrapped:
  assumes "names_plain hk" "type_wrapped wrapper hk name ty d out = Inr out'"
  shows "marked (mentions hk [ty]) out out'"
proof -
  from assms(2) obtain mid where m: "print_optional_ty hk ty (ts_push (''export type '' @ upper_camel hk name @ '' = '' @ wrapper @ ''<'') (print_docs d out)) = Inr mid"
    "out' = ts_push (''>;'' @ [NL]) mid" by (auto simp: type_wrapped_def rbind_Inr_iff)
  have "marked (\<lambda>_. False) out (print_docs d out)" by (intro marked_texts)
  from marked_trans [OF this marked_from_pushed [OF marked_optional [OF assms(1) m(1)]]] m(2) show ?thesis by (simp add: marked_pushed)
qed

text \<open>What the declaration of a type leaves; the resources change only by a resource type.\<close>

lemma ts_type_marked:
  assumes "names_plain hk" "ts_type hk id_of parent_id meta (name, d) s = Inr s'" "def_kind d \<noteq> KResource"
  shows "\<exists>refs. marked (shown_decl hk id_of parent_id d) (s\<lparr>references := refs\<rparr>) s'"
proof (cases "def_kind d")
  case (KType t)
  from KType assms(2) have a: "alias_decl hk id_of parent_id d name t (def_docs d) s = Inr s'" by (simp add: ts_type_def Let_def)
  then obtain ow where ow: "foreign_owner id_of parent_id t = Inr ow" by (auto simp: alias_decl_def rbind_Inr_iff)
  show ?thesis
  proof (cases ow)
    case None
    with a ow obtain mid where m: "print_ty hk t (ts_push (''export type '' @ upper_camel hk name @ '' = '') (print_docs (def_docs d) s)) = Inr mid"
      "s' = ts_push ('';'' @ [NL]) mid" by (auto simp: alias_decl_def rbind_Inr_iff Let_def)
    have "marked (\<lambda>_. False) s (print_docs (def_docs d) s)" by (intro marked_texts)
    from marked_trans [OF this marked_from_pushed [OF marked_ty [OF assms(1) m(1)]]] m(2) have "marked (mentions hk [Some t]) s s'" by (simp add: marked_pushed)
    then have "marked (shown_decl hk id_of parent_id d) s s'" by (rule marked_eq) (simp add: shown_decl_def KType ow None)
    then show ?thesis by (intro exI [of _ "references s"]) simp
  next
    case (Some owned)
    with a ow obtain refs strs where "s' = ts_write strs (s\<lparr>references := refs\<rparr>)"
    proof -
      have id: "s = s\<lparr>references := references s\<rparr>" by simp
      from Some a ow show ?thesis
        by (auto simp: alias_decl_def rbind_Inr_iff Let_def split: if_splits intro: that [of _ "references s"] that)
    qed
    then have "marked (\<lambda>_. False) (s\<lparr>references := refs\<rparr>) s'" by (auto intro: marked_texts)
    then have "marked (shown_decl hk id_of parent_id d) (s\<lparr>references := refs\<rparr>) s'"
      by (rule marked_eq) (simp add: shown_decl_def KType ow Some)
    then show ?thesis by blast
  qed
next
  case (KFlags fs)
  with assms(2) have "s' = type_flags hk name fs (def_docs d) s" by (simp add: ts_type_def Let_def)
  then have "marked (\<lambda>_. False) s s'"
    unfolding type_flags_def by (auto intro!: marked_texts marked_fold split: prod.splits)
  then have "marked (shown_decl hk id_of parent_id d) s s'" by (rule marked_eq) (simp add: shown_decl_def KFlags)
  then show ?thesis by (intro exI [of _ "references s"]) simp
next
  case (KEnum cs)
  with assms(2) have "s' = type_enum hk name cs (def_docs d) s" by (simp add: ts_type_def Let_def)
  then have "marked (\<lambda>_. False) s s'"
    unfolding type_enum_def by (auto intro!: marked_texts marked_enum_names)
  then have "marked (shown_decl hk id_of parent_id d) s s'" by (rule marked_eq) (simp add: shown_decl_def KEnum)
  then show ?thesis by (intro exI [of _ "references s"]) simp
next
  case (KRecord fds)
  with assms(2) have "type_record hk name fds (def_docs d) s = Inr s'" by (simp add: ts_type_def Let_def)
  from marked_record [OF assms(1) this] have "marked (shown_decl hk id_of parent_id d) s s'"
    by (rule marked_eq) (simp add: shown_decl_def KRecord)
  then show ?thesis by (intro exI [of _ "references s"]) simp
next
  case (KVariant cs)
  with assms(2) have "type_variant hk name cs (def_docs d) s = Inr s'" by (simp add: ts_type_def Let_def)
  from marked_variant [OF assms(1) this] have "marked (shown_decl hk id_of parent_id d) s s'"
    by (rule marked_eq) (simp add: shown_decl_def KVariant)
  then show ?thesis by (intro exI [of _ "references s"]) simp
next
  case (KResult ok err)
  with assms(2) have "type_result hk name ok err (def_docs d) s = Inr s'" by (simp add: ts_type_def Let_def)
  from marked_type_result [OF assms(1) this] have "marked (shown_decl hk id_of parent_id d) s s'"
    by (rule marked_eq) (simp add: shown_decl_def KResult)
  then show ?thesis by (intro exI [of _ "references s"]) simp
next
  case (KFuture ty)
  with assms(2) have "type_wrapped ''PromiseLike'' hk name ty (def_docs d) s = Inr s'" by (simp add: ts_type_def Let_def)
  from marked_type_wrapped [OF assms(1) this] have "marked (shown_decl hk id_of parent_id d) s s'"
    by (rule marked_eq) (auto simp: shown_decl_def KFuture mentions_def uses_def rbind_Inr_iff)
  then show ?thesis by (intro exI [of _ "references s"]) simp
next
  case (KStream ty)
  with assms(2) have "type_wrapped ''AsyncIterable'' hk name ty (def_docs d) s = Inr s'" by (simp add: ts_type_def Let_def)
  from marked_type_wrapped [OF assms(1) this] have "marked (shown_decl hk id_of parent_id d) s s'"
    by (rule marked_eq) (auto simp: shown_decl_def KStream mentions_def uses_def rbind_Inr_iff)
  then show ?thesis by (intro exI [of _ "references s"]) simp
qed (use assms in \<open>auto simp: ts_type_def Let_def shown_decl_def dest!: marked_type_of_kind intro!: exI [of _ "references s"] elim!: marked_eq\<close>)

lemma ts_type_effect:
  assumes "names_plain hk" "ts_type hk id_of parent_id meta (name, d) s = Inr s'" "bt_ok (resources s)"
  shows "bt_ok (resources s') \<and> (any_need h s' \<longleftrightarrow> any_need h s \<or> shown_decl hk id_of parent_id d h) \<and>
    map_option fst (map_of (resources s') r) =
      (if def_kind d = KResource \<and> def_name d = Some r \<and> map_of (resources s) r = None then Some meta else map_option fst (map_of (resources s) r)) \<and>
    is_guest s' = is_guest s"
proof (cases "def_kind d = KResource")
  case True
  with assms(2) obtain q where q: "def_name d = Some q"
    "s' = (if map_of (resources s) q = None then s\<lparr>resources := bt_put q (meta, ts_resource_new) (resources s)\<rparr> else s)"
    by (auto simp: ts_type_def Let_def type_resource_def the_id_def rbind_Inr_iff split: option.splits)
  have "\<not> need h ts_resource_new" by (simp add: need_def ts_resource_new_def)
  then have "any_need h s' = any_need h s"
    using any_need_put [OF assms(3), of q False ts_resource_new h ts_resource_new False meta] q(2) by (auto split: if_splits)
  then show ?thesis using True q assms(3) by (auto simp: shown_decl_def)
next
  case False
  from ts_type_marked [OF assms(1,2) False] obtain refs where m: "marked (shown_decl hk id_of parent_id d) (s\<lparr>references := refs\<rparr>) s'" ..
  have "any_need h (s\<lparr>references := refs\<rparr>) = any_need h s" by (simp add: any_need_def any_option_def any_result_def)
  with any_need_marked [OF m, of h] m assms(3) False show ?thesis by (auto simp: marked_def)
qed

section \<open>The file of an interface\<close>

definition gate_open :: "'v ts_env \<Rightarrow> 'v ts_function \<Rightarrow> bool" where
  "gate_open te f \<longleftrightarrow> feature_gate_allowed (te_package te) (fn_stability f) = Inr True"

lemma interface_funcs_effect:
  assumes "names_plain (te_heck te)"
  shows "interface_funcs te iface id_name asyncs meta fs s = Inr s' \<Longrightarrow> bt_ok (resources s) \<Longrightarrow>
    bt_ok (resources s') \<and>
    (any_need h s' \<longleftrightarrow> any_need h s \<or> (\<exists>f \<in> set fs. gate_open te f \<and> mentions (te_heck te) (shown_types f) h)) \<and>
    map_option fst (map_of (resources s') r) =
      (if map_of (resources s) r = None \<and> (\<exists>f \<in> set fs. gate_open te f \<and> resource_of (fn_kind f) = Some r) then Some meta
       else map_option fst (map_of (resources s) r))"
proof (induction fs arbitrary: s)
  case (Cons f fs)
  obtain mid where m: "(case feature_gate_allowed (te_package te) (fn_stability f) of
              Inl _ \<Rightarrow> Inl (Panic ''failed to check feature gate for function'')
            | Inr allowed \<Rightarrow>
                if \<not> allowed then Inr s
                else ts_func (te_heck te) (te_hash te) f False True
                       (requires_async_porcelain (canonical_fn_name iface f) id_name asyncs) meta s) = Inr mid"
    "interface_funcs te iface id_name asyncs meta fs mid = Inr s'"
    using Cons.prems(1) unfolding interface_funcs.simps by (elim rbind_InrE, intro that)
  show ?case
  proof (cases "gate_open te f")
    case True
    then have "ts_func (te_heck te) (te_hash te) f False True
                       (requires_async_porcelain (canonical_fn_name iface f) id_name asyncs) meta s = Inr mid"
      using m(1) by (simp add: gate_open_def)
    note ef = ts_func_effect [OF assms this Cons.prems(2)]
    from Cons.IH [OF m(2) ef(1)] ef(2) [of h] ef(3) [of r] True show ?thesis
      by (cases "map_of (resources s) r"; cases "map_of (resources mid) r") (auto split: if_splits)
  next
    case False
    then have "mid = s" using m(1) by (auto simp: gate_open_def split: sum.splits if_splits)
    with Cons.IH m(2) Cons.prems(2) False show ?thesis by auto
  qed
qed simp

lemma ts_types_effect:
  assumes "names_plain hk"
  shows "ts_types hk id_of parent_id meta ds s = Inr s' \<Longrightarrow> bt_ok (resources s) \<Longrightarrow>
    bt_ok (resources s') \<and>
    (any_need h s' \<longleftrightarrow> any_need h s \<or> (\<exists>d \<in> set ds. shown_decl hk id_of parent_id (snd d) h)) \<and>
    map_option fst (map_of (resources s') r) =
      (if map_of (resources s) r = None \<and> (\<exists>d \<in> set ds. def_kind (snd d) = KResource \<and> def_name (snd d) = Some r) then Some meta
       else map_option fst (map_of (resources s) r))"
proof (induction ds arbitrary: s)
  case (Cons d ds)
  obtain name dd where d: "d = (name, dd)" by fastforce
  obtain mid where m: "ts_type hk id_of parent_id meta (name, dd) s = Inr mid" "ts_types hk id_of parent_id meta ds mid = Inr s'"
    using Cons.prems(1) unfolding ts_types.simps d by (elim rbind_InrE, intro that)
  note ef = ts_type_effect [OF assms m(1) Cons.prems(2), of h r]
  then have "bt_ok (resources mid)" by blast
  from Cons.IH [OF m(2) this] ef show ?case
    by (cases "map_of (resources s) r"; cases "map_of (resources mid) r") (auto simp: d split: if_splits)
qed simp

text \<open>Some declaration in the file of an interface uses the helper.\<close>

definition file_uses :: "'v ts_env \<Rightarrow> 'v interface \<Rightarrow> bool \<Rightarrow> bool" where
  "file_uses te iface h \<longleftrightarrow>
     (\<exists>f \<in> set (if_functions iface). gate_open te f \<and> mentions (te_heck te) (shown_types f) h) \<or>
     (\<exists>d \<in> set (if_types iface). shown_decl (te_heck te) (te_id_of te) (Some (if_number iface)) (snd d) h)"

definition helper_aliases :: "bool \<Rightarrow> bool \<Rightarrow> string list" where
  "helper_aliases o' r' = (if o' then [TS_OPTION_TYPE_ALIAS] else []) @ (if r' then [TS_RESULT_TYPE_ALIAS] else [])"

lemma ts_begin_fields:
  "any_need h (ts_begin id_name (ts_iface_new root guest)) = False" "resources (ts_begin id_name (ts_iface_new root guest)) = []"
  by (cases h; cases guest; simp add: ts_begin_def ts_iface_new_def any_need_def any_option_def any_result_def ts_write_def ts_push_def)+

lemma post_types_src: "ts_src (post_types s) = uwrite (helper_aliases (any_option s) (any_result s)) (ts_src s)"
  by (simp add: post_types_def helper_aliases_def uwrite_def ts_push_def)

lemma post_types_resources: "resources (post_types s) = resources s"
  by (simp add: post_types_def ts_push_def)

lemma interface_text_parts:
  assumes "names_plain (te_heck te)" "interface_text te b id_name iface meta = Inr s"
  obtains mid fin where
    "interface_funcs te iface id_name (if if_exported iface then async_exports b else async_imports b) meta (if_functions iface)
       (ts_begin id_name (ts_iface_new False (bg_is_guest b))) = Inr mid"
    "ts_types (te_heck te) (te_id_of te) (Some (if_number iface)) (if_exported iface) (if_types iface) mid = Inr fin"
    "s = post_types fin" "\<And>h. any_need h fin \<longleftrightarrow> file_uses te iface h"
    "\<And>r. map_option fst (map_of (resources fin) r) =
      (if \<exists>f \<in> set (if_functions iface). gate_open te f \<and> resource_of (fn_kind f) = Some r then Some meta
       else if \<exists>d \<in> set (if_types iface). def_kind (snd d) = KResource \<and> def_name (snd d) = Some r then Some (if_exported iface) else None)"
proof -
  obtain mid fin where a: "interface_funcs te iface id_name (if if_exported iface then async_exports b else async_imports b) meta (if_functions iface)
       (ts_begin id_name (ts_iface_new False (bg_is_guest b))) = Inr mid"
    and t: "ts_types (te_heck te) (te_id_of te) (Some (if_number iface)) (if_exported iface) (if_types iface) mid = Inr fin"
    and s: "s = post_types fin"
    using assms(2) by (auto simp: interface_text_def Let_def rbind_Inr_iff)
  have "bt_ok (resources (ts_begin id_name (ts_iface_new False (bg_is_guest b))))" by (simp add: ts_begin_fields bt_ok_def)
  note f = interface_funcs_effect [OF assms(1) a this]
  then have "bt_ok (resources mid)" by blast
  note d = ts_types_effect [OF assms(1) t this]
  have n: "any_need h fin \<longleftrightarrow> file_uses te iface h" for h
    using f [of h] d [of h] by (simp add: file_uses_def ts_begin_fields)
  have r: "map_option fst (map_of (resources fin) r) =
      (if \<exists>f \<in> set (if_functions iface). gate_open te f \<and> resource_of (fn_kind f) = Some r then Some meta
       else if \<exists>d \<in> set (if_types iface). def_kind (snd d) = KResource \<and> def_name (snd d) = Some r then Some (if_exported iface) else None)" for r
  proof -
    from f [of True r] have "map_option fst (map_of (resources mid) r) =
        (if \<exists>f \<in> set (if_functions iface). gate_open te f \<and> resource_of (fn_kind f) = Some r then Some meta else None)"
      by (simp add: ts_begin_fields)
    with d [of True r] show ?thesis by (cases "map_of (resources mid) r") (simp_all only: option.map if_True if_False simp_thms option.distinct split: if_splits)
  qed
  show ?thesis by (rule that [OF a t s n r])
qed

text \<open>C37. The file of an interface declares the helper type \<open>Option\<close> exactly when some parameter, result, field, case or
  alias that it declares is printed with it, in a resource class too, and \<open>Result\<close> in the same way: after the declarations
  of the allowed functions and of the types come exactly the aliases that these use.\<close>

theorem helpers_declared:
  assumes "names_plain (te_heck te)" "interface_text te b id_name iface meta = Inr s"
  shows "\<exists>mid fin. interface_funcs te iface id_name (if if_exported iface then async_exports b else async_imports b) meta (if_functions iface)
       (ts_begin id_name (ts_iface_new False (bg_is_guest b))) = Inr mid \<and>
     ts_types (te_heck te) (te_id_of te) (Some (if_number iface)) (if_exported iface) (if_types iface) mid = Inr fin \<and>
     ts_src s = uwrite (helper_aliases (file_uses te iface True) (file_uses te iface False)) (ts_src fin) \<and>
     resources s = resources fin"
proof -
  from interface_text_parts [OF assms] obtain mid fin where
    "interface_funcs te iface id_name (if if_exported iface then async_exports b else async_imports b) meta (if_functions iface)
       (ts_begin id_name (ts_iface_new False (bg_is_guest b))) = Inr mid"
    "ts_types (te_heck te) (te_id_of te) (Some (if_number iface)) (if_exported iface) (if_types iface) mid = Inr fin"
    "s = post_types fin" "\<And>h. any_need h fin \<longleftrightarrow> file_uses te iface h" by metis
  moreover from this(4) [of True] this(4) [of False] have "any_option fin = file_uses te iface True" "any_result fin = file_uses te iface False"
    by (simp_all add: any_need_def)
  ultimately show ?thesis by (intro exI [of _ mid] exI [of _ fin]) (simp add: post_types_src post_types_resources)
qed


section \<open>Interfaces that share a file\<close>

lemma get_or_create_again:
  assumes "get_or_create camel hash goal ln = Inr ((n, e), ln')"
  shows "get_or_create camel hash goal' ln' = Inr ((n, True), ln')"
  using assms by (auto simp: get_or_create_def rbind_Inr_iff split: option.splits)

lemma goal_name_version: "CHR ''@'' \<notin> set base \<Longrightarrow> interface_goal_name hk (base @ CHR ''@'' # v) = interface_goal_name hk base"
  by (simp add: interface_goal_name_def takeWhile_tail)

text \<open>C39. The version of an interface is no part of the name of its file: after an interface has been generated, another
  version of it changes no file, whatever it declares, and for a host both get the same import path.\<close>

theorem versions_share_declarations:
  assumes "CHR ''@'' \<notin> set base" "if_id i1 = Some (base @ CHR ''@'' # v1)" "if_id i2 = Some (base @ CHR ''@'' # v2)"
    "generate_interface te n1 i1 m1 (b, fs) = Inr (spec1, b1, fs1)"
  shows "\<exists>spec2 b2. generate_interface te n2 i2 m2 (b1, fs1) = Inr (spec2, b2, fs1) \<and> (\<not> bg_is_guest b \<longrightarrow> spec2 = spec1 \<and> b2 = b1)"
proof -
  have g: "interface_goal_name (te_heck te) (base @ CHR ''@'' # v1) = interface_goal_name (te_heck te) (base @ CHR ''@'' # v2)"
    using assms(1) by (simp add: goal_name_version)
  let ?gn = "interface_goal_name (te_heck te) (base @ CHR ''@'' # v2)"
  let ?file = "''interfaces/'' @ kebab (te_heck te) ?gn @ ''.d.ts''"
  from assms(4) obtain n e ln where c: "get_or_create (lower_camel (te_heck te)) (te_hash te ?file) ?gn (interface_names b) = Inr ((n, e), ln)"
    and b1: "interface_names b1 = ln" "bg_is_guest b1 = bg_is_guest b"
    and sp: "\<not> bg_is_guest b \<longrightarrow> spec1 = ''./'' @ ''interfaces/'' @ kebab (te_heck te) ?gn @ ''.js''"
    by (auto simp: generate_interface_def assms(2) g Let_def rbind_Inr_iff split: if_splits)
  have "b1\<lparr>interface_names := interface_names b1\<rparr> = b1" by simp
  with get_or_create_again [OF c, of ?gn] b1 sp show ?thesis
    by (auto simp: generate_interface_def assms(3) Let_def)
qed

section \<open>Helper types of the main file\<close>

definition bg_need :: "bool \<Rightarrow> ts_bindgen \<Rightarrow> bool" where
  "bg_need h b = (if h then bg_needs_option b else bg_needs_result b)"

lemma bg_need_writes [simp]:
  "bg_need h (write_world strs b) = bg_need h b" "bg_need h (write_import_object strs b) = bg_need h b"
  "bg_need h (write_export_object strs b) = bg_need h b" "bg_need h (add_references rs b) = bg_need h b"
  by (simp_all add: bg_need_def write_world_def write_import_object_def write_export_object_def add_references_def)

lemma generate_interface_need: "generate_interface te name iface meta bf = Inr (spec, b', fs') \<Longrightarrow> bg_need h b' = bg_need h (fst bf)"
  by (cases bf) (auto simp: generate_interface_def Let_def rbind_Inr_iff bg_need_def split: if_splits)

lemma import_interface_need: "import_interface te name iface bf = Inr (l, b', fs') \<Longrightarrow> bg_need h b' = bg_need h (fst bf)"
  by (auto simp: import_interface_def Let_def rbind_Inr_iff bg_need_def dest!: generate_interface_need [where h = h] split: if_splits)

lemma world_import_interface_need: "world_import_interface te inst name iface bf = Inr (b', fs') \<Longrightarrow> bg_need h b' = bg_need h (fst bf)"
  by (auto simp: world_import_interface_def Let_def rbind_Inr_iff dest!: generate_interface_need [where h = h] import_interface_need [where h = h]
      split: if_splits)

lemma import_members_need: "import_members te ms bf = Inr (b', fs') \<Longrightarrow> bg_need h b' = bg_need h (fst bf)"
proof (induction ms arbitrary: bf)
  case (Cons m ms)
  then obtain l b fs where "import_interface te (the (if_name (snd m))) (snd m) bf = Inr (l, b, fs)"
    "import_members te ms (write_import_object [lower_camel (te_heck te) (fst m), '': typeof '', l, '','' @ [NL]] b, fs) = Inr (b', fs')"
    by (auto simp: rbind_Inr_iff the_id_def split: option.splits)
  with Cons.IH [of "(write_import_object [lower_camel (te_heck te) (fst m), '': typeof '', l, '','' @ [NL]] b, fs)"]
    import_interface_need [where h = h] show ?case by fastforce
qed auto

lemma import_types_need: "import_types te ms bf = Inr (b', fs') \<Longrightarrow> bg_need h b' = bg_need h (fst bf)"
proof (induction ms arbitrary: bf)
  case (Cons m ms)
  then obtain p b fs strs where "generate_interface te (the (if_id (snd m))) (snd m) False bf = Inr (p, b, fs)"
    "import_types te ms (write_world strs b, fs) = Inr (b', fs')"
    by (auto simp: rbind_Inr_iff the_id_def split: option.splits)
  with Cons.IH [of "(write_world strs b, fs)"] generate_interface_need [where h = h] show ?case by fastforce
qed auto

lemma world_import_interfaces_need:
  assumes "world_import_interfaces te inst name ms bf = Inr (b', fs')"
  shows "bg_need h b' = bg_need h (fst bf)"
proof -
  obtain b fs where bf: "bf = (b, fs)" by fastforce
  consider (types) "import_types te ms bf = Inr (b', fs')"
    | (several) c gs where "import_members te ms (write_import_object [maybe_quote_id name, '': {'' @ [NL]] b, fs) = Inr (c, gs)"
        "b' = write_import_object [''},'' @ [NL]] c"
    | (one) n iface l c gs where "import_interface te n iface (write_import_object [maybe_quote_id name, '': ''] b, fs) = Inr (l, c, gs)"
        "b' = write_import_object [''typeof '', l, '','' @ [NL]] c"
    using assms by (auto simp: world_import_interfaces_def Let_def bf rbind_Inr_iff simp del: import_members.simps split: if_splits list.splits prod.splits)
  then show ?thesis
    by cases (use bf in \<open>auto dest!: import_types_need [where h = h] import_members_need [where h = h] import_interface_need [where h = h]\<close>)
qed

lemma import_funcs_need: "import_funcs te name f b = Inr b' \<Longrightarrow> bg_need h b' = bg_need h b"
  by (auto simp: import_funcs_def Let_def rbind_Inr_iff bg_need_def write_import_object_def add_references_def case_prod_beta)

lemma world_type_need: "world_type te d b = Inr b' \<Longrightarrow> bg_need h b' = bg_need h b"
  by (auto simp: world_type_def rbind_Inr_iff bg_need_def add_references_def case_prod_beta)

lemma world_import_need:
  assumes "world_import te inst item (fl, gr, b, fs) = Inr (fl', gr', b', fs')"
  shows "bg_need h b' = bg_need h b"
proof -
  obtain key it where i: "item = (key, it)" by fastforce
  from assms show ?thesis
    by (cases it; cases key)
      (auto simp: world_import_def i rbind_Inr_iff dest!: world_import_interface_need [where h = h] world_type_need [where h = h] split: if_splits)
qed

lemma fold_rust_keeps:
  "(\<And>x s s'. step x s = Inr s' \<Longrightarrow> v s' = v s) \<Longrightarrow> fold_rust step xs s = Inr s' \<Longrightarrow> v s' = v s"
  by (induction xs arbitrary: s) (auto simp: rbind_Inr_iff)

lemma world_imports_need:
  assumes "world_imports te inst w (b, fs) = Inr (b', fs')"
  shows "bg_need h b' = bg_need h b"
proof -
  from assms obtain fl gr c gs d where a: "fold_rust (world_import te inst) (w_imports w) ([], [], b, fs) = Inr (fl, gr, c, gs)"
    "fold_rust (\<lambda>(name, f). import_funcs te name f) fl c = Inr d"
    "fold_rust (\<lambda>(name, members). world_import_interfaces te inst name members) gr (d, gs) = Inr (b', fs')"
    by (auto simp: world_imports_def rbind_Inr_iff)
  have "bg_need h (fst (snd (snd (fl, gr, c, gs)))) = bg_need h (fst (snd (snd ([] :: (string \<times> 'a ts_function) list, [] :: 'a import_groups, b, fs))))"
    by (rule fold_rust_keeps [OF _ a(1), of "\<lambda>s. bg_need h (fst (snd (snd s)))"]) (auto dest: world_import_need [where h = h])
  moreover have "bg_need h d = bg_need h c"
    by (rule fold_rust_keeps [OF _ a(2), of "bg_need h"]) (auto dest: import_funcs_need [where h = h])
  moreover have "bg_need h (fst (b', fs')) = bg_need h (fst (d, gs))"
    by (rule fold_rust_keeps [OF _ a(3), of "\<lambda>s. bg_need h (fst s)"]) (auto dest: world_import_interfaces_need [where h = h])
  ultimately show ?thesis by simp
qed

lemma export_interface_need: "export_interface te inst name iface bf = Inr (b', fs') \<Longrightarrow> bg_need h b' = bg_need h (fst bf)"
  by (auto simp: export_interface_def Let_def rbind_Inr_iff dest!: generate_interface_need [where h = h] import_interface_need [where h = h]
      split: if_splits)

text \<open>The functions that a world exports and the gates let through.\<close>

definition exported_function :: "'v ts_env \<Rightarrow> 'v world_key \<times> 'v world_item \<Rightarrow> (string \<times> 'v ts_function) list" where
  "exported_function te item =
     (case item of
        (KeyName name, ItemFunction f) \<Rightarrow> if gate_open te f then [(lower_camel (te_heck te) name, f)] else []
      | _ \<Rightarrow> [])"

definition exported_functions :: "'v ts_env \<Rightarrow> 'v ts_world \<Rightarrow> (string \<times> 'v ts_function) list" where
  "exported_functions te w = concat (map (exported_function te) (w_exports w))"

lemma world_export_effect:
  assumes "world_export te inst item (fl, b, fs) = Inr (fl', b', fs')"
  shows "fl' = fl @ exported_function te item \<and> bg_need h b' = bg_need h b"
proof -
  obtain key it where i: "item = (key, it)" by fastforce
  show ?thesis
  proof (cases it)
    case (ItemInterface iface st)
    with assms have "fl' = fl"
      by (auto simp: world_export_def i rbind_Inr_iff Let_def split: if_splits world_key.splits)
    moreover from assms ItemInterface have "bg_need h b' = bg_need h b"
      by (auto simp: world_export_def i rbind_Inr_iff Let_def dest!: export_interface_need [where h = h] split: if_splits world_key.splits)
    ultimately show ?thesis by (simp add: i ItemInterface exported_function_def split: world_key.split)
  qed (use assms in \<open>auto simp: world_export_def i exported_function_def gate_open_def rbind_Inr_iff split: world_key.splits if_splits\<close>)
qed

lemma world_exports_fold:
  "fold_rust (world_export te inst) items (fl, b, fs) = Inr (fl', b', fs') \<Longrightarrow>
   fl' = fl @ concat (map (exported_function te) items) \<and> bg_need h b' = bg_need h b"
proof (induction items arbitrary: fl b fs)
  case (Cons item items)
  then obtain fl1 b1 fs1 where m: "world_export te inst item (fl, b, fs) = Inr (fl1, b1, fs1)"
    "fold_rust (world_export te inst) items (fl1, b1, fs1) = Inr (fl', b', fs')" by (auto simp: rbind_Inr_iff)
  from world_export_effect [OF m(1), of h] Cons.IH [OF m(2)] show ?case by simp
qed simp

text \<open>What makes an exported function need a helper type: a printed type, or the kind of a parameter or of the result.\<close>

definition kind_marks :: "wtype \<Rightarrow> bool \<Rightarrow> bool" where
  "kind_marks ty h =
     (case ty of
        WId d \<Rightarrow> (case def_kind (dealias d) of KOption _ \<Rightarrow> h | KResult _ _ \<Rightarrow> \<not> h | _ \<Rightarrow> False)
      | _ \<Rightarrow> False)"

definition func_needs :: "heck \<Rightarrow> 'v ts_function \<Rightarrow> bool \<Rightarrow> bool" where
  "func_needs hk f h \<longleftrightarrow> mentions hk (shown_types f) h \<or> (\<exists>ty \<in> set (parameter_and_result_types f). kind_marks ty h)"

lemma mark_type_effect: "resources (mark_type ty s) = resources s \<and> (any_need h (mark_type ty s) \<longleftrightarrow> any_need h s \<or> kind_marks ty h)"
  by (cases h) (auto simp: mark_type_def kind_marks_def any_need_def any_option_def any_result_def split: wtype.split tkind.split)

lemma mark_types_effect:
  "resources (fold mark_type tys s) = resources s \<and> (any_need h (fold mark_type tys s) \<longleftrightarrow> any_need h s \<or> (\<exists>ty \<in> set tys. kind_marks ty h))"
  by (induction tys arbitrary: s) (auto simp: mark_type_effect)

lemma export_func_texts_need:
  assumes "names_plain (te_heck te)"
  shows "export_func_texts te id_name asyncs decl fs s = Inr s' \<Longrightarrow> bt_ok (resources s) \<Longrightarrow>
    any_need h s' \<longleftrightarrow> any_need h s \<or> (\<exists>f \<in> set fs. func_needs (te_heck te) (snd f) h)"
proof (induction fs arbitrary: s)
  case (Cons f fs)
  obtain mid where m: "ts_func (te_heck te) (te_hash te) (snd f) False decl (requires_async_porcelain (fn_name (snd f)) id_name asyncs) True
             (fold mark_type (parameter_and_result_types (snd f)) s) = Inr mid" "export_func_texts te id_name asyncs decl fs mid = Inr s'"
    using Cons.prems(1) unfolding export_func_texts.simps by (elim rbind_InrE, intro that)
  have "bt_ok (resources (fold mark_type (parameter_and_result_types (snd f)) s))" using Cons.prems(2) by (simp add: mark_types_effect)
  note ef = ts_func_effect [OF assms m(1) this]
  from Cons.IH [OF m(2) ef(1)] ef(2) [of h] show ?case by (auto simp: mark_types_effect func_needs_def)
qed simp

lemma export_funcs_need:
  assumes "names_plain (te_heck te)" "export_funcs te name fl decl b = Inr b'"
  shows "bg_need h b' \<longleftrightarrow> bg_need h b \<or> (\<exists>f \<in> set fl. func_needs (te_heck te) (snd f) h)"
proof -
  let ?s = "ts_iface_new False (bg_is_guest b)"
  from assms(2) obtain s where s: "export_func_texts te name (async_exports b) decl fl ?s = Inr s"
    "bg_need h b' \<longleftrightarrow> bg_need h b \<or> any_need h s"
    by (auto simp: export_funcs_def rbind_Inr_iff Let_def case_prod_beta bg_need_def add_references_def any_need_def)
  have "bt_ok (resources ?s)" "any_need h ?s = False"
    by (cases h; simp add: ts_iface_new_def bt_ok_def any_need_def any_option_def any_result_def)+
  with export_func_texts_need [OF assms(1) s(1), of h] s(2) show ?thesis by simp
qed


section \<open>Witnesses\<close>

text \<open>A resource with a method that takes an option of an option, and a world that imports such a function.\<close>

definition demo_gates :: "nat package_ctx" where
  "demo_gates = \<lparr>version_le = (\<le>), package_version = None, all_features = False, features = []\<rparr>"

definition demo_env :: "nat ts_env" where
  "demo_env = \<lparr>te_heck = demo_heck, te_hash = length, te_id_of = (\<lambda>_. None), te_package = demo_gates\<rparr>"

definition demo_method :: "nat ts_function" where
  "demo_method = \<lparr>fn_name = ''[method]r.m'', fn_item_name = ''m'', fn_kind = Method ''r'',
     fn_params = [(''self'', WId (TDef None OwnerNone None (KHandle (Some ''r'')))), (''x'', demo_opt (demo_opt WU8))],
     fn_result = None, fn_docs = None, fn_stability = StabilityUnknown\<rparr>"

definition demo_function :: "nat ts_function" where
  "demo_function = demo_method\<lparr>fn_name := ''f'', fn_item_name := ''f'', fn_kind := Freestanding, fn_params := [(''x'', demo_opt (demo_opt WU8))]\<rparr>"

definition demo_interface :: "string \<Rightarrow> nat ts_function list \<Rightarrow> nat interface" where
  "demo_interface i fs = \<lparr>if_number = 0, if_id = Some i, if_canonical_id = Some i, if_name = Some ''c'', if_functions = fs,
     if_types = [(''r'', TDef (Some ''r'') (OwnerInterface 0) None KResource)], if_exported = True\<rparr>"

definition demo_ts_world :: "nat ts_world" where
  "demo_ts_world = \<lparr>w_name = ''w'', w_interface_id = Some ''a:b/w'', w_imports = [(KeyName ''f'', ItemFunction demo_function)], w_exports = []\<rparr>"

lemma demo_gate: "feature_gate_allowed demo_gates StabilityUnknown = Inr True"
  by (simp add: feature_gate_allowed_def)

lemmas demo_ts_defs = demo_env_def demo_method_def demo_function_def demo_interface_def demo_ts_world_def demo_gate demo_heck_def demo_opt_def
  ts_func_def func_head_def func_tail_def param_start_def print_result_def Let_def is_async_kind_def resource_of_def ts_type_def
  type_resource_def the_id_def ty_maybe_null_def

lemma demo_interface_text: "\<exists>s. interface_text demo_env b n (demo_interface i [demo_method]) m = Inr s"
  by (simp add: interface_text_def demo_ts_defs split: prod.split)

lemma demo_generated: "\<exists>spec b1 fs1. generate_interface demo_env n (demo_interface i [demo_method]) m (ts_bindgen_new False [] [], []) = Inr (spec, b1, fs1)"
proof -
  have "\<exists>x ln. get_or_create c h g local_names_default = Inr ((x, False), ln)" for c h g
    using create_once_spec [of c g local_names_default] by (auto simp: get_or_create_def local_names_default_def)
  then obtain x ln where l: "get_or_create (lower_camel demo_heck) (te_hash demo_env (''interfaces/'' @ kebab demo_heck (interface_goal_name demo_heck i) @ ''.d.ts''))
      (interface_goal_name demo_heck i) local_names_default = Inr ((x, False), ln)" by blast
  obtain s where "interface_text demo_env (ts_bindgen_new False [] []\<lparr>interface_names := ln\<rparr>) i (demo_interface i [demo_method]) m = Inr s"
    using demo_interface_text by blast
  moreover have "te_heck demo_env = demo_heck" "if_id (demo_interface i [demo_method]) = Some i"
    "interface_names (ts_bindgen_new False [] []) = local_names_default" "\<not> bg_is_guest (ts_bindgen_new False [] [])"
    by (simp_all add: demo_env_def demo_interface_def ts_bindgen_new_def)
  ultimately show ?thesis using l by (simp add: generate_interface_def Let_def case_prod_beta)
qed

theorem helpers_declared_witness:
  "\<exists>s (fin :: ts_iface). interface_text demo_env (ts_bindgen_new False [] []) ''a:b/c'' (demo_interface ''a:b/c'' [demo_method]) True = Inr s \<and>
     ts_src s = uwrite [TS_OPTION_TYPE_ALIAS] (ts_src fin) \<and> resources s = resources fin"
proof -
  obtain s where s: "interface_text demo_env (ts_bindgen_new False [] []) ''a:b/c'' (demo_interface ''a:b/c'' [demo_method]) True = Inr s"
    using demo_interface_text by blast
  have n: "names_plain (te_heck demo_env)" by (simp add: demo_env_def demo_names_plain)
  have "file_uses demo_env (demo_interface ''a:b/c'' [demo_method]) True" "\<not> file_uses demo_env (demo_interface ''a:b/c'' [demo_method]) False"
    by (simp_all add: file_uses_def gate_open_def shown_types_def mentions_def uses_def shown_decl_def demo_ts_defs)
  then have "helper_aliases (file_uses demo_env (demo_interface ''a:b/c'' [demo_method]) True)
      (file_uses demo_env (demo_interface ''a:b/c'' [demo_method]) False) = [TS_OPTION_TYPE_ALIAS]" by (simp add: helper_aliases_def)
  from helpers_declared [OF n s, unfolded this] s show ?thesis by blast
qed


theorem versions_share_declarations_witness:
  "\<exists>spec b1 fs1. generate_interface demo_env ''c'' (demo_interface ''a:b/c@1.0.0'' [demo_method]) True (ts_bindgen_new False [] [], []) = Inr (spec, b1, fs1) \<and>
     generate_interface demo_env ''c'' (demo_interface ''a:b/c@2.0.0'' []) True (b1, fs1) = Inr (spec, b1, fs1)"
proof -
  obtain spec b1 fs1 where
    g: "generate_interface demo_env ''c'' (demo_interface ''a:b/c@1.0.0'' [demo_method]) True (ts_bindgen_new False [] [], []) = Inr (spec, b1, fs1)"
    using demo_generated by metis
  have "CHR ''@'' \<notin> set ''a:b/c''" "if_id (demo_interface ''a:b/c@1.0.0'' [demo_method]) = Some (''a:b/c'' @ CHR ''@'' # ''1.0.0'')"
    "if_id (demo_interface ''a:b/c@2.0.0'' []) = Some (''a:b/c'' @ CHR ''@'' # ''2.0.0'')" by (simp_all add: demo_interface_def)
  from versions_share_declarations [OF this g, of "''c''" True] g show ?thesis by (auto simp: ts_bindgen_new_def)
qed


end
