(* ===== verification/Handle_Table.thy ===== *)
theory Handle_Table
  imports Prelude
begin

text \<open>
  The interface of the handle tables of the runtime: the slab of \<open>RepTable\<close>
  (\<open>intrinsics/mod.rs\<close>) and the resource tables (\<open>intrinsics/resource.rs\<close>) hand out small
  positive integers for the values they store, keep the freed slots in a list threaded through the
  array, and use a freed slot again. This theory states what their clients rely on as the locale
  \<open>handle_table\<close>, proves the consequences once, and gives the theory of the free list the
  implementations share.
\<close>

section \<open>The free list threaded through an array\<close>

text \<open>
  \<open>chain nx v is\<close>: starting with the link \<open>v\<close>, the free list visits the slots \<open>is\<close> and
  ends at 0. \<open>nx i\<close> is the link stored in slot \<open>i\<close>; \<open>None\<close> is a word that is no link.
\<close>

primrec chain :: "(nat \<Rightarrow> nat option) \<Rightarrow> nat option \<Rightarrow> nat list \<Rightarrow> bool" where
  "chain nx v [] = (v = Some 0)"
| "chain nx v (i # is) = (v = Some i \<and> 0 < i \<and> chain nx (nx i) is)"

text \<open>The same list, computed with fuel.\<close>

primrec follow :: "nat \<Rightarrow> (nat \<Rightarrow> nat option) \<Rightarrow> nat option \<Rightarrow> nat list" where
  "follow 0 nx v = []"
| "follow (Suc n) nx v =
     (case v of None \<Rightarrow> [] | Some i \<Rightarrow> if i = 0 then [] else i # follow n nx (nx i))"

lemma follow_chain: "chain nx v is \<Longrightarrow> length is \<le> n \<Longrightarrow> follow n nx v = is"
proof (induction "is" arbitrary: v n)
  case Nil
  then show ?case by (cases n) auto
next
  case (Cons i "is")
  then show ?case by (cases n) auto
qed

lemma chain_unique: "chain nx v is \<Longrightarrow> chain nx v js \<Longrightarrow> is = js"
  by (metis follow_chain nle_le)

lemma chain_cong: "chain nx v is \<Longrightarrow> (\<And>i. i \<in> set is \<Longrightarrow> nx' i = nx i) \<Longrightarrow> chain nx' v is"
  by (induction "is" arbitrary: v) auto

lemma chain_zero [simp]: "chain nx (Some 0) is \<longleftrightarrow> is = []"
  by (cases "is") auto

lemma chain_pos: "chain nx (Some i) is \<Longrightarrow> 0 < i \<Longrightarrow> \<exists>js. is = i # js \<and> chain nx (nx i) js"
  by (cases "is") auto

lemma distinct_bounded_length: "distinct is \<Longrightarrow> (\<And>i. i \<in> set is \<Longrightarrow> i < n) \<Longrightarrow> length is \<le> n"
  by (metis card_lessThan card_mono distinct_card finite_lessThan lessThan_iff subsetI)

section \<open>The interface\<close>

text \<open>
  A client inserts a value and gets a handle, looks a handle up, and removes a live handle. The
  provider promises that a new handle is positive and not live, that the other handles keep their
  values, and that both operations keep its invariant. \<open>room\<close> says that one more value fits.
\<close>

locale handle_table =
  fixes inv :: "'t \<Rightarrow> bool"
    and room :: "'t \<Rightarrow> bool"
    and storable :: "'v \<Rightarrow> bool"
    and lookup :: "'t \<Rightarrow> nat \<Rightarrow> 'v option"
    and ins :: "'v \<Rightarrow> 't \<Rightarrow> nat \<times> 't"
    and del :: "nat \<Rightarrow> 't \<Rightarrow> 't"
  assumes ins_pos: "inv t \<Longrightarrow> room t \<Longrightarrow> storable v \<Longrightarrow> ins v t = (h, t') \<Longrightarrow> 0 < h"
    and ins_fresh: "inv t \<Longrightarrow> room t \<Longrightarrow> storable v \<Longrightarrow> ins v t = (h, t') \<Longrightarrow> lookup t h = None"
    and ins_lookup: "inv t \<Longrightarrow> room t \<Longrightarrow> storable v \<Longrightarrow> ins v t = (h, t') \<Longrightarrow>
      lookup t' = (lookup t)(h \<mapsto> v)"
    and ins_inv: "inv t \<Longrightarrow> room t \<Longrightarrow> storable v \<Longrightarrow> ins v t = (h, t') \<Longrightarrow> inv t'"
    and del_lookup: "inv t \<Longrightarrow> lookup t h \<noteq> None \<Longrightarrow> lookup (del h t) = (lookup t)(h := None)"
    and del_inv: "inv t \<Longrightarrow> lookup t h \<noteq> None \<Longrightarrow> inv (del h t)"
begin

lemma ins_get: "inv t \<Longrightarrow> room t \<Longrightarrow> storable v \<Longrightarrow> ins v t = (h, t') \<Longrightarrow> lookup t' h = Some v"
  by (simp add: ins_lookup)

lemma ins_stable:
  "inv t \<Longrightarrow> room t \<Longrightarrow> storable v \<Longrightarrow> ins v t = (h, t') \<Longrightarrow> lookup t k = Some w \<Longrightarrow>
   k \<noteq> h \<and> lookup t' k = Some w"
  using ins_fresh ins_lookup by fastforce

lemma ins_del:
  assumes "inv t" "room t" "storable v" "ins v t = (h, t')"
  shows "lookup (del h t') = lookup t" "inv (del h t')"
proof -
  note l = ins_lookup [OF assms] and f = ins_fresh [OF assms] and i = ins_inv [OF assms]
  from l have "lookup t' h \<noteq> None" by simp
  with i show "inv (del h t')" by (rule del_inv)
  from i \<open>lookup t' h \<noteq> None\<close> have "lookup (del h t') = (lookup t')(h := None)" by (rule del_lookup)
  with l f show "lookup (del h t') = lookup t" by (auto simp: fun_eq_iff)
qed

lemma two_ins_distinct:
  assumes "inv t" "room t" "storable v" "ins v t = (h, t')"
    and "room t'" "storable w" "ins w t' = (k, t'')"
  shows "h \<noteq> k \<and> lookup t'' h = Some v \<and> lookup t'' k = Some w"
  using ins_inv [OF assms(1-4)] ins_get [OF assms(1-4)] assms(5-7) ins_stable ins_get by blast

end

section \<open>Sequences of operations\<close>

text \<open>
  A client's use of a table is a list of operations; \<open>table_run\<close> runs it, collecting the
  handles the insertions returned, and \<open>legal\<close> says that the client removes live handles only
  and inserts when there is room.
\<close>

datatype 'v table_op = Ins 'v | Del nat

primrec table_run ::
    "('v \<Rightarrow> 't \<Rightarrow> nat \<times> 't) \<Rightarrow> (nat \<Rightarrow> 't \<Rightarrow> 't) \<Rightarrow> 'v table_op list \<Rightarrow> 't \<Rightarrow> nat list \<times> 't" where
  "table_run ins del [] t = ([], t)"
| "table_run ins del (x # xs) t =
     (case x of
        Ins v \<Rightarrow> (let (h, t1) = ins v t; (hs, t2) = table_run ins del xs t1 in (h # hs, t2))
      | Del h \<Rightarrow> table_run ins del xs (del h t))"

primrec legal ::
    "('v \<Rightarrow> 't \<Rightarrow> nat \<times> 't) \<Rightarrow> (nat \<Rightarrow> 't \<Rightarrow> 't) \<Rightarrow> ('t \<Rightarrow> bool) \<Rightarrow> ('v \<Rightarrow> bool) \<Rightarrow>
     ('t \<Rightarrow> nat \<Rightarrow> 'v option) \<Rightarrow> 'v table_op list \<Rightarrow> 't \<Rightarrow> bool" where
  "legal ins del room storable lookup [] t = True"
| "legal ins del room storable lookup (x # xs) t =
     (case x of
        Ins v \<Rightarrow> room t \<and> storable v \<and> legal ins del room storable lookup xs (snd (ins v t))
      | Del h \<Rightarrow> lookup t h \<noteq> None \<and> legal ins del room storable lookup xs (del h t))"

text \<open>The specification: a map from handles to values, updated at the handles the table chose.\<close>

primrec map_run :: "'v table_op list \<Rightarrow> nat list \<Rightarrow> (nat \<rightharpoonup> 'v) \<Rightarrow> (nat \<rightharpoonup> 'v)" where
  "map_run [] hs m = m"
| "map_run (x # xs) hs m =
     (case x of
        Ins v \<Rightarrow> (case hs of [] \<Rightarrow> m | h # hs' \<Rightarrow> map_run xs hs' (m(h \<mapsto> v)))
      | Del h \<Rightarrow> map_run xs hs (m(h := None)))"

context handle_table
begin

lemma run_refines:
  "inv t \<Longrightarrow> legal ins del room storable lookup xs t \<Longrightarrow> table_run ins del xs t = (hs, t') \<Longrightarrow>
   inv t' \<and> lookup t' = map_run xs hs (lookup t)"
proof (induction xs arbitrary: t hs)
  case Nil
  then show ?case by simp
next
  case (Cons x xs)
  show ?case
  proof (cases x)
    case (Ins v)
    obtain h t1 where i: "ins v t = (h, t1)" by (cases "ins v t")
    obtain hs1 t2 where r: "table_run ins del xs t1 = (hs1, t2)" by (cases "table_run ins del xs t1")
    from Cons.prems Ins i r have "room t" "storable v" "legal ins del room storable lookup xs t1"
      "hs = h # hs1" "t' = t2" by auto
    with Cons.IH [OF ins_inv, OF Cons.prems(1) _ _ i] r Ins ins_lookup [OF Cons.prems(1) _ _ i]
    show ?thesis by (simp add: fun_upd_def)
  next
    case (Del h)
    with Cons.prems have d: "lookup t h \<noteq> None" "legal ins del room storable lookup xs (del h t)"
      "table_run ins del xs (del h t) = (hs, t')" by auto
    with Cons.IH [OF del_inv, OF Cons.prems(1) d(1)] Del del_lookup [OF Cons.prems(1) d(1)]
    show ?thesis by (simp add: fun_upd_def)
  qed
qed

end

end
