(* ===== verification/Rep_Table.thy ===== *)
theory Rep_Table
  imports Handle_Table
begin

text \<open>
  The class \<open>RepTable\<close> emitted by \<open>Intrinsic::RepTableClass\<close>
  (\<open>src/crates/js-component-bindgen/src/intrinsics/mod.rs\<close>): the table that holds the waitables,
  subtasks, streams, futures and error contexts of a component by their representation number.

  The array \<open>#data\<close> holds two cells per slot. Cell 0 is the head of the free list; slot \<open>i\<close>
  has its value, or the link to the next free slot, in cell \<open>2 * i\<close>. Slot numbers are below
  \<open>2 ^ 30\<close>, so \<open>rep << 1\<close> does not wrap.
\<close>

section \<open>State and operations\<close>

record 'a rep_table =
  rt_data :: "'a jsv list"
  rt_size :: int

definition rep_new :: "'a rep_table" where
  "rep_new = \<lparr>rt_data = [JNum 0, JNull], rt_size = 0\<rparr>"

definition rep_insert :: "'a jsv \<Rightarrow> 'a rep_table \<Rightarrow> 'a jsv \<times> 'a rep_table" where
  "rep_insert val t =
     (let d = rt_data t; freeIdx = js_get d 0 in
      if freeIdx = JNum 0 then
        let d1 = (d @ [val]) @ [JNull];
            rep = js_shr (int (length d1)) 1 - 1
        in (JNum rep, t\<lparr>rt_data := d1, rt_size := rt_size t + 1\<rparr>)
      else
        let placementIdx = js_shl (num_of freeIdx) 1;
            d1 = js_set d 0 (js_get d placementIdx);
            d2 = js_set d1 placementIdx val;
            d3 = js_set d2 (placementIdx + 1) JNull
        in (freeIdx, t\<lparr>rt_data := d3, rt_size := rt_size t + 1\<rparr>))"

definition rep_get :: "int \<Rightarrow> 'a rep_table \<Rightarrow> 'a jsv js" where
  "rep_get rep t =
     (if rep = 0 then Inl (Err ''invalid resource rep during get, (cannot be 0)'')
      else Inr (js_get (rt_data t) (js_shl rep 1)))"

definition rep_contains :: "int \<Rightarrow> 'a rep_table \<Rightarrow> bool js" where
  "rep_contains rep t =
     (if rep = 0 then Inl (Err ''invalid resource rep during contains, (cannot be 0)'')
      else Inr (truthy (js_get (rt_data t) (js_shl rep 1))))"

definition rep_remove :: "int \<Rightarrow> 'a rep_table \<Rightarrow> ('a jsv \<times> 'a rep_table) js" where
  "rep_remove rep t =
     (if rep = 0 then Inl (Err ''invalid resource rep during remove, (cannot be 0)'')
      else if length (rt_data t) = 2 then Inl (Err ''invalid'')
      else
        let d = rt_data t; baseIdx = js_shl rep 1; val = js_get d baseIdx;
            d1 = js_set d baseIdx (js_get d 0);
            d2 = js_set d1 0 (JNum rep)
        in Inr (val, t\<lparr>rt_data := d2, rt_size := rt_size t - 1\<rparr>))"

definition rep_size :: "'a rep_table \<Rightarrow> int" where
  "rep_size t = rt_size t"

text \<open>\<open>clear\<close> passes an object literal that names the variable \<open>rep\<close> to the debug logger
  before it does anything; no such variable is in scope, so it throws and changes nothing.\<close>

definition rep_clear :: "'a rep_table \<Rightarrow> (unit, 'a rep_table) jsm" where
  "rep_clear t = (Inl (RefErr ''rep''), t)"

section \<open>Well-formed tables\<close>

definition rep_link :: "'a jsv list \<Rightarrow> nat \<Rightarrow> nat option" where
  "rep_link d i =
     (case js_get d (2 * int i) of JNum n \<Rightarrow> if 0 \<le> n then Some (nat n) else None | _ \<Rightarrow> None)"

definition rep_free :: "'a rep_table \<Rightarrow> nat list" where
  "rep_free t = follow (length (rt_data t)) (rep_link (rt_data t)) (rep_link (rt_data t) 0)"

definition rep_wf :: "'a rep_table \<Rightarrow> nat list \<Rightarrow> bool" where
  "rep_wf t fl \<longleftrightarrow>
     even (length (rt_data t)) \<and> 2 \<le> length (rt_data t) \<and> length (rt_data t) < 2 ^ 31 \<and>
     chain (rep_link (rt_data t)) (rep_link (rt_data t) 0) fl \<and> distinct fl \<and>
     (\<forall>i\<in>set fl. 2 * i < length (rt_data t)) \<and>
     rt_size t = int (length (rt_data t)) div 2 - 1 - int (length fl)"

definition rep_inv :: "'a rep_table \<Rightarrow> bool" where
  "rep_inv t \<longleftrightarrow> rep_wf t (rep_free t)"

definition rep_room :: "'a rep_table \<Rightarrow> bool" where
  "rep_room t \<longleftrightarrow> length (rt_data t) + 2 < 2 ^ 31"

definition rep_lookup :: "'a rep_table \<Rightarrow> nat \<Rightarrow> 'a jsv option" where
  "rep_lookup t h =
     (if 0 < h \<and> 2 * h < length (rt_data t) \<and> h \<notin> set (rep_free t)
      then Some (rt_data t ! (2 * h)) else None)"

lemma rep_wf_free: "rep_wf t fl \<Longrightarrow> rep_free t = fl"
proof -
  assume w: "rep_wf t fl"
  then have "length fl \<le> length (rt_data t)"
    by (intro distinct_bounded_length) (force simp: rep_wf_def)+
  with w show ?thesis unfolding rep_free_def rep_wf_def by (blast intro: follow_chain)
qed

lemma rep_inv_wf: "rep_inv t \<longleftrightarrow> (\<exists>fl. rep_wf t fl)"
  by (metis rep_inv_def rep_wf_free)

lemma rep_lookup_wf:
  "rep_wf t fl \<Longrightarrow> rep_lookup t h =
     (if 0 < h \<and> 2 * h < length (rt_data t) \<and> h \<notin> set fl then Some (rt_data t ! (2 * h)) else None)"
  by (simp add: rep_lookup_def rep_wf_free)

lemma rep_inv_new: "rep_inv rep_new"
  unfolding rep_inv_wf by (rule exI [of _ "[]"]) (simp add: rep_wf_def rep_new_def rep_link_def js_get_def)

lemma rep_free_pos: "rep_wf t fl \<Longrightarrow> i \<in> set fl \<Longrightarrow> 0 < i"
proof -
  have "chain nx v is \<Longrightarrow> i \<in> set is \<Longrightarrow> 0 < i" for nx v "is"
    by (induction "is" arbitrary: v) auto
  then show "rep_wf t fl \<Longrightarrow> i \<in> set fl \<Longrightarrow> 0 < i" by (auto simp: rep_wf_def)
qed

text \<open>Writing a cell changes the link of one slot only.\<close>

lemma rep_link_update:
  "rep_link (d[2 * j := v]) i =
     (if i = j \<and> 2 * j < length d
      then (case v of JNum n \<Rightarrow> if 0 \<le> n then Some (nat n) else None | _ \<Rightarrow> None) else rep_link d i)"
  by (auto simp: rep_link_def js_get_def nth_list_update nat_mult_distrib split: jsv.split)

lemma rep_link_update_odd: "rep_link (d[Suc (2 * j) := v]) i = rep_link d i"
proof -
  have "2 * i \<noteq> Suc (2 * j)" by presburger
  then show ?thesis by (simp add: rep_link_def js_get_def nat_mult_distrib)
qed

lemma rep_link_update_0: "0 < i \<Longrightarrow> rep_link (d[0 := v]) i = rep_link d i"
  by (simp add: rep_link_def js_get_def nat_mult_distrib)

lemma rep_link_append: "2 * i < length d \<Longrightarrow> rep_link (d @ xs) i = rep_link d i"
  by (simp add: rep_link_def js_get_def nat_mult_distrib nth_append)

section \<open>What the operations do on a well-formed table\<close>

lemma rep_wf_head: "rep_wf t (i # fl) \<Longrightarrow> js_get (rt_data t) 0 = JNum (int i) \<and> 0 < i \<and> 2 * i + 1 < length (rt_data t)"
proof -
  assume w: "rep_wf t (i # fl)"
  then have "rep_link (rt_data t) 0 = Some i" "0 < i" by (simp_all add: rep_wf_def)
  moreover from w have "2 * i + 1 < length (rt_data t)" by (auto simp: rep_wf_def elim!: evenE)
  ultimately show ?thesis by (auto simp: rep_link_def split: jsv.splits if_splits)
qed

lemma rep_wf_nil_head: "rep_wf t [] \<Longrightarrow> js_get (rt_data t) 0 = JNum 0"
  by (auto simp: rep_wf_def rep_link_def split: jsv.splits if_splits)

lemma rep_insert_nil:
  assumes "rep_wf t []" "rep_room t"
  shows "rep_insert v t =
    (JNum (int (length (rt_data t) div 2)),
     t\<lparr>rt_data := rt_data t @ [v, JNull], rt_size := rt_size t + 1\<rparr>)"
  using assms by (simp add: rep_insert_def rep_wf_nil_head Let_def js_shr1 rep_room_def)

lemma rep_insert_head:
  assumes "rt_data t ! 0 = JNum (int i)" "0 < i" "Suc (2 * i) < length (rt_data t)"
    and "length (rt_data t) < 2 ^ 31"
  shows "rep_insert v t =
    (JNum (int i),
     t\<lparr>rt_data := (rt_data t)[0 := rt_data t ! (2 * i), 2 * i := v, Suc (2 * i) := JNull],
       rt_size := rt_size t + 1\<rparr>)"
proof -
  from assms have p: "js_shl (int i) 1 = int (2 * i)" by simp
  have s: "int (2 * i) + 1 = int (Suc (2 * i))" by simp
  from assms have "js_get (rt_data t) 0 = JNum (int i)" "rt_data t \<noteq> []" by (auto simp: js_get_def)
  with assms show ?thesis unfolding rep_insert_def Let_def
    by (simp only: p num_of.simps jsv.inject s) (simp add: js_set_def js_get_def nat_mult_distrib nat_add_distrib)
qed

lemma rep_insert_cons:
  assumes "rep_wf t (i # fl)"
  shows "rep_insert v t =
    (JNum (int i),
     t\<lparr>rt_data := (rt_data t)[0 := rt_data t ! (2 * i), 2 * i := v, Suc (2 * i) := JNull],
       rt_size := rt_size t + 1\<rparr>)"
proof (rule rep_insert_head)
  from rep_wf_head [OF assms] show "rt_data t ! 0 = JNum (int i)" "0 < i" "Suc (2 * i) < length (rt_data t)"
    by (auto simp: js_get_def split: if_splits)
  from assms show "length (rt_data t) < 2 ^ 31" by (simp add: rep_wf_def)
qed

lemma rep_remove_wf:
  assumes "rep_wf t fl" "0 < h" "2 * h < length (rt_data t)"
  shows "rep_remove (int h) t =
    Inr (rt_data t ! (2 * h),
         t\<lparr>rt_data := (rt_data t)[2 * h := rt_data t ! 0, 0 := JNum (int h)], rt_size := rt_size t - 1\<rparr>)"
proof -
  from assms have "length (rt_data t) < 2 ^ 31" by (simp add: rep_wf_def)
  with assms have p: "js_shl (int h) 1 = int (2 * h)" by (simp add: js_shl1)
  from assms show ?thesis unfolding rep_remove_def Let_def
    by (simp only: p) (auto simp: js_set_def js_get_def nat_mult_distrib)
qed

lemma rep_insert_wf:
  assumes "rep_wf t fl" "rep_room t" "rep_insert v t = (r, t')"
  shows "r = JNum (int (case fl of [] \<Rightarrow> length (rt_data t) div 2 | i # _ \<Rightarrow> i)) \<and> rep_wf t' (tl fl)"
proof (cases fl)
  case Nil
  with assms rep_insert_nil [of t v] have
    r: "r = JNum (int (length (rt_data t) div 2))" and
    t': "t' = t\<lparr>rt_data := rt_data t @ [v, JNull], rt_size := rt_size t + 1\<rparr>" by auto
  with assms Nil show ?thesis
    by (auto simp: rep_wf_def rep_room_def rep_link_append)
next
  case (Cons i js)
  note h = rep_wf_head [OF assms(1) [unfolded Cons]]
  let ?d = "(rt_data t)[0 := rt_data t ! (2 * i), 2 * i := v, Suc (2 * i) := JNull]"
  from assms Cons rep_insert_cons [of t i js v] have
    r: "r = JNum (int i)" and t': "t' = t\<lparr>rt_data := ?d, rt_size := rt_size t + 1\<rparr>" by auto
  from assms(1) Cons have c: "chain (rep_link (rt_data t)) (rep_link (rt_data t) i) js"
    and di: "i \<notin> set js" "distinct js" and b: "\<forall>j\<in>set js. 2 * j < length (rt_data t)"
    by (auto simp: rep_wf_def)
  have pos: "0 < j" if "j \<in> set js" for j
    using rep_free_pos [OF assms(1)] that Cons by simp
  have l: "rep_link ?d j = rep_link (rt_data t) j" if "j \<in> set js" for j
    using that di pos [OF that] by (auto simp: rep_link_update rep_link_update_odd rep_link_update_0)
  have l0: "rep_link ?d 0 = rep_link (rt_data t) i"
    using h by (auto simp: rep_link_def js_get_def nat_mult_distrib)
  from c l have "chain (rep_link ?d) (rep_link ?d 0) js"
    unfolding l0 by (blast intro: chain_cong)
  with assms(1) Cons r t' di b show ?thesis by (auto simp: rep_wf_def)
qed

lemma rep_remove_keeps_wf:
  assumes "rep_wf t fl" "0 < h" "2 * h < length (rt_data t)" "h \<notin> set fl"
    and "rep_remove (int h) t = Inr (v, t')"
  shows "rep_wf t' (h # fl)"
proof -
  let ?d = "(rt_data t)[2 * h := rt_data t ! 0, 0 := JNum (int h)]"
  from assms have t': "t' = t\<lparr>rt_data := ?d, rt_size := rt_size t - 1\<rparr>"
    by (simp add: rep_remove_wf)
  from assms(1) have c: "chain (rep_link (rt_data t)) (rep_link (rt_data t) 0) fl" by (simp add: rep_wf_def)
  have l: "rep_link ?d j = rep_link (rt_data t) j" if "j \<in> set fl" for j
    using that assms(4) rep_free_pos [OF assms(1) that] by (auto simp: rep_link_update rep_link_update_0)
  have lh: "rep_link ?d h = rep_link (rt_data t) 0" and l0: "rep_link ?d 0 = Some h"
    using assms by (auto simp: rep_link_def js_get_def nat_mult_distrib)
  from c l have "chain (rep_link ?d) (rep_link (rt_data t) 0) fl" by (blast intro: chain_cong)
  with lh l0 assms t' show ?thesis by (auto simp: rep_wf_def)
qed

lemma rep_insert_lookup:
  assumes "rep_wf t fl" "rep_room t" "rep_insert v t = (JNum (int h), t')"
  shows "0 < h \<and> rep_lookup t h = None \<and> rep_lookup t' = (rep_lookup t)(h \<mapsto> v)"
proof (cases fl)
  case Nil
  with assms rep_insert_nil [of t v] have
    h: "h = length (rt_data t) div 2" and
    t': "t' = t\<lparr>rt_data := rt_data t @ [v, JNull], rt_size := rt_size t + 1\<rparr>" by auto
  from assms(1) have e: "2 * h = length (rt_data t)" "0 < h" by (auto simp: h rep_wf_def)
  have w: "rep_wf t' []" using rep_insert_wf [OF assms] Nil by simp
  show ?thesis
  proof (intro conjI ext)
    show "0 < h" "rep_lookup t h = None"
      using e by (simp_all add: rep_lookup_wf [OF assms(1)])
    have d: "rt_data t' = rt_data t @ [v, JNull]" by (simp add: t')
    have k: "2 * k < Suc (Suc (length (rt_data t))) \<longleftrightarrow> 2 * k < length (rt_data t) \<or> k = h" for k
      using e by linarith
    show "rep_lookup t' k = ((rep_lookup t)(h \<mapsto> v)) k" for k
      using e Nil k [of k] by (auto simp: rep_lookup_wf [OF assms(1)] rep_lookup_wf [OF w] d nth_append)
  qed
next
  case (Cons i js)
  note hd = rep_wf_head [OF assms(1) [unfolded Cons]]
  from assms Cons rep_insert_cons [of t i js v] have
    h: "h = i" and t': "t' = t\<lparr>rt_data := (rt_data t)[0 := rt_data t ! (2 * i), 2 * i := v, Suc (2 * i) := JNull],
       rt_size := rt_size t + 1\<rparr>" by auto
  have w: "rep_wf t' js" using rep_insert_wf [OF assms] Cons by simp
  have "i \<notin> set js" using assms(1) Cons by (simp add: rep_wf_def)
  have d: "rt_data t' = (rt_data t)[0 := rt_data t ! (2 * i), 2 * i := v, Suc (2 * i) := JNull]"
    by (simp add: t')
  have odd: "2 * k \<noteq> Suc (2 * i)" for k by presburger
  show ?thesis
  proof (intro conjI ext)
    show "0 < h" "rep_lookup t h = None"
      using hd h by (simp_all add: rep_lookup_wf [OF assms(1)] Cons)
    show "rep_lookup t' k = ((rep_lookup t)(h \<mapsto> v)) k" for k
      using hd h \<open>i \<notin> set js\<close> odd [of k]
      by (simp add: rep_lookup_wf [OF assms(1)] rep_lookup_wf [OF w] d Cons nth_list_update)
  qed
qed

lemma rep_remove_lookup:
  assumes "rep_wf t fl" "rep_lookup t h = Some w"
  obtains t' where "rep_remove (int h) t = Inr (w, t')" "rep_wf t' (h # fl)"
    "rep_lookup t' = (rep_lookup t)(h := None)"
proof -
  from assms have h: "0 < h" "2 * h < length (rt_data t)" "h \<notin> set fl" "w = rt_data t ! (2 * h)"
    by (auto simp: rep_lookup_wf split: if_splits)
  define t' where "t' = t\<lparr>rt_data := (rt_data t)[2 * h := rt_data t ! 0, 0 := JNum (int h)], rt_size := rt_size t - 1\<rparr>"
  have r: "rep_remove (int h) t = Inr (w, t')"
    using rep_remove_wf [OF assms(1) h(1,2)] by (simp add: t'_def h)
  have w: "rep_wf t' (h # fl)" using assms(1) h(1-3) r by (rule rep_remove_keeps_wf)
  have d: "rt_data t' = (rt_data t)[2 * h := rt_data t ! 0, 0 := JNum (int h)]" by (simp add: t'_def)
  have "rep_lookup t' k = ((rep_lookup t)(h := None)) k" for k
    using h by (auto simp: rep_lookup_wf [OF assms(1)] rep_lookup_wf [OF w] d)
  then have "rep_lookup t' = (rep_lookup t)(h := None)" by blast
  with r w show ?thesis by (rule that)
qed

section \<open>The table as a provider of the handle interface\<close>

definition rep_ins :: "'a jsv \<Rightarrow> 'a rep_table \<Rightarrow> nat \<times> 'a rep_table" where
  "rep_ins v t = (let (r, t') = rep_insert v t in (nat (num_of r), t'))"

definition rep_del :: "nat \<Rightarrow> 'a rep_table \<Rightarrow> 'a rep_table" where
  "rep_del h t = (case rep_remove (int h) t of Inl _ \<Rightarrow> t | Inr (_, t') \<Rightarrow> t')"

lemma rep_ins_insert:
  assumes "rep_inv t" "rep_room t" "rep_ins v t = (h, t')"
  shows "rep_insert v t = (JNum (int h), t')"
proof -
  from assms(1) obtain fl where "rep_wf t fl" by (auto simp: rep_inv_wf)
  with assms show ?thesis
    using rep_insert_wf [OF \<open>rep_wf t fl\<close> assms(2)]
    by (fastforce simp: rep_ins_def split: prod.splits)
qed

lemma rep_lookup_get:
  assumes "rep_inv t" "rep_lookup t h = Some v"
  shows "rep_get (int h) t = Inr v"
proof -
  from assms have "length (rt_data t) < 2 ^ 31" by (simp add: rep_inv_def rep_wf_def)
  with assms show ?thesis
    by (auto simp: rep_lookup_def rep_get_def js_get_def nat_mult_distrib split: if_splits)
qed

interpretation rt: handle_table rep_inv rep_room "\<lambda>_. True" rep_lookup rep_ins rep_del
proof unfold_locales
  fix t :: "'a rep_table" and t' v h
  assume a: "rep_inv t" "rep_room t" "rep_ins v t = (h, t')"
  note i = rep_ins_insert [OF a]
  from a(1) obtain fl where w: "rep_wf t fl" by (auto simp: rep_inv_wf)
  note l = rep_insert_lookup [OF w a(2) i]
  from l show "0 < h" "rep_lookup t h = None" "rep_lookup t' = (rep_lookup t)(h \<mapsto> v)" by simp_all
  from rep_insert_wf [OF w a(2) i] show "rep_inv t'" by (auto simp: rep_inv_wf)
next
  fix t :: "'a rep_table" and h
  assume "rep_inv t" and l: "rep_lookup t h \<noteq> None"
  then obtain fl w where "rep_wf t fl" "rep_lookup t h = Some w" by (auto simp: rep_inv_wf)
  then obtain t' where "rep_remove (int h) t = Inr (w, t')" "rep_wf t' (h # fl)"
    "rep_lookup t' = (rep_lookup t)(h := None)" by (rule rep_remove_lookup)
  then show "rep_lookup (rep_del h t) = (rep_lookup t)(h := None)" "rep_inv (rep_del h t)"
    by (auto simp: rep_del_def rep_inv_wf)
qed

section \<open>Properties\<close>

lemma rep_dom: "rep_wf t fl \<Longrightarrow> dom (rep_lookup t) = {1..<length (rt_data t) div 2} - set fl"
  by (auto simp: rep_lookup_wf rep_wf_def dom_def split: if_splits)

lemma rep_demo: "table_run rep_ins rep_del [Ins (JObj CHR ''a''), Ins (JObj CHR ''b''), Del 1, Ins (JObj CHR ''c'')] rep_new =
  ([1, 2, 1], \<lparr>rt_data = [JNum 0, JNull, JObj CHR ''c'', JNull, JObj CHR ''b'', JNull], rt_size = 2\<rparr>)"
  by (simp add: rep_ins_def rep_del_def rep_insert_def rep_remove_def rep_new_def js_get_def js_set_def Let_def)

lemma rep_demo_one:
  "rep_inv \<lparr>rt_data = [JNum 0, JNull, JObj CHR ''a'', JNull], rt_size = 1\<rparr>"
  unfolding rep_inv_wf
  by (rule exI [of _ "[]"]) (simp add: rep_wf_def rep_link_def js_get_def)

lemma rep_demo_lookup:
  "rep_lookup \<lparr>rt_data = [JNum 0, JNull, JObj CHR ''a'', JNull], rt_size = 1\<rparr> 1 = Some (JObj CHR ''a'')"
  by (simp add: rep_lookup_def rep_free_def rep_link_def js_get_def)

text \<open>C7. A \<open>RepTable\<close> implements a finite map: after any sequence of insertions and of removals
  of live handles on a new table, looking up each handle the table returned gives the value last
  stored under it and not removed since, and the table is well formed.\<close>

theorem rep_table_refines_map:
  assumes "legal rep_ins rep_del rep_room (\<lambda>_. True) rep_lookup xs rep_new"
    and "table_run rep_ins rep_del xs rep_new = (hs, t)"
  shows "rep_inv t \<and> (\<forall>h v. map_run xs hs Map.empty h = Some v \<longrightarrow> rep_get (int h) t = Inr v)"
proof -
  have "rep_lookup rep_new = (Map.empty :: nat \<Rightarrow> 'a jsv option)"
    by (auto simp: rep_lookup_def rep_new_def)
  with rt.run_refines [OF rep_inv_new assms] have "rep_inv t" "rep_lookup t = map_run xs hs Map.empty"
    by simp_all
  then show ?thesis using rep_lookup_get by fastforce
qed

theorem rep_table_refines_map_witness:
  "\<exists>t. table_run rep_ins rep_del [Ins (JObj CHR ''a''), Ins (JObj CHR ''b''), Del 1, Ins (JObj CHR ''c'')] rep_new =
     ([1, 2, 1], t) \<and> rep_get 1 t = Inr (JObj CHR ''c'') \<and> rep_get 2 t = Inr (JObj CHR ''b'')"
proof -
  have l: "legal rep_ins rep_del rep_room (\<lambda>_. True) rep_lookup
     [Ins (JObj CHR ''a''), Ins (JObj CHR ''b''), Del 1, Ins (JObj CHR ''c'')] rep_new"
    by (simp add: rep_ins_def rep_del_def rep_insert_def rep_remove_def rep_new_def js_get_def js_set_def Let_def
      rep_room_def rep_lookup_def rep_free_def rep_link_def)
  from rep_table_refines_map [OF l rep_demo] show ?thesis
    unfolding rep_demo by (auto dest: spec [of _ 1] spec [of _ 2])
qed

text \<open>The size counter of a well-formed table is the number of live handles.\<close>

theorem rep_size_counts_live:
  assumes "rep_inv t"
  shows "rep_size t = int (card (dom (rep_lookup t)))"
proof -
  from assms obtain fl where w: "rep_wf t fl" by (auto simp: rep_inv_wf)
  let ?n = "length (rt_data t) div 2"
  from w have s: "set fl \<subseteq> {1..<?n}" using rep_free_pos [OF w] by (fastforce simp: rep_wf_def)
  from w have "card (dom (rep_lookup t)) = ?n - 1 - length fl"
    unfolding rep_dom [OF w] using s by (simp add: card_Diff_subset rep_wf_def distinct_card)
  moreover have "length fl \<le> ?n - 1"
    using card_mono [OF _ s] w by (simp add: rep_wf_def distinct_card)
  moreover have "1 \<le> ?n" using w by (auto simp: rep_wf_def)
  ultimately show ?thesis using w by (simp add: rep_size_def rep_wf_def zdiv_int)
qed

theorem rep_size_counts_live_witness: "rep_size (rep_new :: nat rep_table) = int (card (dom (rep_lookup (rep_new :: nat rep_table))))"
  by (rule rep_size_counts_live [OF rep_inv_new])

text \<open>Removing the same handle twice corrupts the table: the next two insertions return the
  same handle, and the second value replaces the first.\<close>

theorem rep_double_remove_aliases:
  assumes "rep_inv t" "rep_lookup t h = Some w"
    and "rep_remove (int h) t = Inr (w1, t1)" "rep_remove (int h) t1 = Inr (w2, t2)"
    and "rep_insert a t2 = (r1, t3)" "rep_insert b t3 = (r2, t4)"
  shows "r1 = JNum (int h) \<and> r2 = JNum (int h) \<and> rep_get (int h) t4 = Inr b"
proof -
  from assms(1,2) have h: "0 < h" "2 * h < length (rt_data t)" "even (length (rt_data t))"
    "length (rt_data t) < 2 ^ 31" by (auto simp: rep_lookup_def rep_inv_def rep_wf_def split: if_splits)
  then have b: "Suc (2 * h) < length (rt_data t)" "rt_data t \<noteq> []" by (auto elim!: evenE)
  let ?f = "\<lambda>d. d[2 * h := d ! 0, 0 := JNum (int h)]"
  have p: "js_shl (int h) (Suc 0) = int (2 * h)" using h by simp
  have rm: "rep_remove (int h) s = Inr (v, s') \<Longrightarrow> rt_data s' = ?f (rt_data s)"
    if "length (rt_data s) = length (rt_data t)" for s :: "'a rep_table" and v s'
    using that h by (auto simp: rep_remove_def Let_def p js_set_def js_get_def nat_mult_distrib split: if_splits)
  from rm [OF refl assms(3)] have d1: "rt_data t1 = ?f (rt_data t)" .
  with rm [OF _ assms(4)] have d2: "rt_data t2 = ?f (?f (rt_data t))" by simp
  have i3: "rep_insert a t2 = (JNum (int h), t2\<lparr>rt_data := (rt_data t2)[0 := rt_data t2 ! (2 * h),
      2 * h := a, Suc (2 * h) := JNull], rt_size := rt_size t2 + 1\<rparr>)"
    by (rule rep_insert_head) (use h b d2 in auto)
  then have d3: "rt_data t3 = (rt_data t2)[0 := rt_data t2 ! (2 * h), 2 * h := a, Suc (2 * h) := JNull]"
    "r1 = JNum (int h)" using assms(5) by auto
  have "rt_data t3 ! 0 = JNum (int h)" using h b by (simp add: d3 d2)
  then have "rep_insert b t3 = (JNum (int h), t3\<lparr>rt_data := (rt_data t3)[0 := rt_data t3 ! (2 * h),
      2 * h := b, Suc (2 * h) := JNull], rt_size := rt_size t3 + 1\<rparr>)"
    by (rule rep_insert_head) (use h b d2 d3 in auto)
  then have "rt_data t4 = (rt_data t3)[0 := rt_data t3 ! (2 * h), 2 * h := b, Suc (2 * h) := JNull]"
    "r2 = JNum (int h)" using assms(6) by auto
  with d2 d3 h b show ?thesis by (simp add: rep_get_def js_get_def nat_mult_distrib)
qed

theorem rep_double_remove_aliases_witness:
  "\<exists>t1 w1 t2 w2 r1 t3 r2 t4.
     rep_remove 1 \<lparr>rt_data = [JNum 0, JNull, JObj CHR ''a'', JNull], rt_size = 1\<rparr> = Inr (w1, t1) \<and>
     rep_remove 1 t1 = Inr (w2, t2) \<and> rep_insert (JObj CHR ''b'') t2 = (r1, t3) \<and>
     rep_insert (JObj CHR ''c'') t3 = (r2, t4) \<and> r1 = JNum 1 \<and> r2 = JNum 1 \<and> rep_get 1 t4 = Inr (JObj CHR ''c'')"
proof -
  let ?t1 = "\<lparr>rt_data = [JNum 1, JNull, JNum 0, JNull], rt_size = 0\<rparr> :: char rep_table"
  let ?t2 = "\<lparr>rt_data = [JNum 1, JNull, JNum 1, JNull], rt_size = - 1\<rparr> :: char rep_table"
  have a: "rep_remove (int 1) \<lparr>rt_data = [JNum 0, JNull, JObj CHR ''a'', JNull], rt_size = 1\<rparr> = Inr (JObj CHR ''a'', ?t1)"
    and b: "rep_remove (int 1) ?t1 = Inr (JNum 0, ?t2)"
    by (simp_all add: rep_remove_def js_get_def js_set_def Let_def)
  obtain r1 t3 where c: "rep_insert (JObj CHR ''b'') ?t2 = (r1, t3)" by fastforce
  obtain r2 t4 where d: "rep_insert (JObj CHR ''c'') t3 = (r2, t4)" by fastforce
  from rep_double_remove_aliases [OF rep_demo_one rep_demo_lookup a b c d] a b c d show ?thesis
    by (metis of_nat_1)
qed

text \<open>\<open>contains\<close> does not tell free slots from live ones: after a removal the removed handle
  is still reported present, unless the free list was empty before.\<close>

theorem rep_contains_after_remove:
  assumes "rep_inv t" "rep_lookup t h = Some w" "rep_remove (int h) t = Inr (v, t')"
  shows "rep_contains (int h) t' = Inr (rep_free t \<noteq> [])"
proof -
  from assms(1) obtain fl where w: "rep_wf t fl" by (auto simp: rep_inv_wf)
  from assms(2) w have h: "0 < h" "2 * h < length (rt_data t)" "length (rt_data t) < 2 ^ 31"
    by (auto simp: rep_lookup_def rep_wf_def split: if_splits)
  from assms(3) rep_remove_wf [OF w h(1,2)] have
    d: "rt_data t' = (rt_data t)[2 * h := rt_data t ! 0, 0 := JNum (int h)]" by auto
  have "truthy (rt_data t ! 0) \<longleftrightarrow> fl \<noteq> []"
  proof (cases fl)
    case Nil
    with rep_wf_nil_head [of t] w h show ?thesis by (simp add: js_get_def split: if_splits)
  next
    case (Cons i js)
    with rep_wf_head [of t i js] w h show ?thesis by (simp add: js_get_def split: if_splits)
  qed
  with h show ?thesis by (simp add: rep_contains_def d js_get_def nat_mult_distrib rep_wf_free [OF w])
qed

theorem rep_contains_after_remove_witness:
  "\<exists>v t'. rep_remove 1 \<lparr>rt_data = [JNum 0, JNull, JObj CHR ''a'', JNull], rt_size = 1\<rparr> = Inr (v, t') \<and>
     rep_contains 1 t' = Inr False"
proof -
  have a: "rep_remove (int 1) \<lparr>rt_data = [JNum 0, JNull, JObj CHR ''a'', JNull], rt_size = 1\<rparr> =
      Inr (JObj CHR ''a'', \<lparr>rt_data = [JNum 1, JNull, JNum 0, JNull], rt_size = 0\<rparr>)"
    by (simp add: rep_remove_def js_get_def js_set_def Let_def)
  from rep_contains_after_remove [OF rep_demo_one rep_demo_lookup a] a show ?thesis
    by (auto simp: rep_free_def rep_link_def js_get_def)
qed
end
