(* ===== verification/Waitables.thy ===== *)
theory Waitables
  imports Rep_Table "HOL-Library.Multiset"
begin

text \<open>
  The classes \<open>Waitable\<close> and \<open>WaitableSet\<close> of the emitted runtime
  (\<open>src/crates/js-component-bindgen/src/intrinsics/p3/waitable.rs\<close>) and the intrinsics on the
  component's handles that need no task: \<open>waitableSetNew\<close>, \<open>waitableJoin\<close> and
  \<open>_removeWaitableSet\<close>.

  The objects are mutable and shared, so they live in a store: the address of a waitable or of a set
  is its position in the list of all that were created. The handle table of the component holds
  references. A pending event is a function of the stream, future or subtask that set it; the model
  keeps the outcome the function has when it is called. An operation returns its outcome with the
  store, because a JavaScript method that throws keeps what it already assigned.
\<close>

section \<open>State\<close>

record event =
  ev_code :: int
  ev_payload0 :: int
  ev_payload1 :: int

datatype async_event_code =
    EvNone | EvSubtask | EvStreamRead | EvStreamWrite | EvFutureRead | EvFutureWrite | EvTaskCancelled

fun event_code :: "async_event_code \<Rightarrow> int" where
  "event_code EvNone = 0"
| "event_code EvSubtask = 1"
| "event_code EvStreamRead = 2"
| "event_code EvStreamWrite = 3"
| "event_code EvFutureRead = 4"
| "event_code EvFutureWrite = 5"
| "event_code EvTaskCancelled = 6"

text \<open>The objects a component's handle table refers to. A subtask (with its id) and a stream or future
  end have a waitable of their own.\<close>

datatype hobj = HWaitable nat | HSet nat | HSubtask nat nat | HEnd nat | HOther

datatype settled = Unsettled | Resolved | Rejected

text \<open>\<open>w_promises\<close> holds the promises the waitable had, the newest first.\<close>

record waitable =
  w_componentIdx :: "int option"
  w_pendingEventFn :: "event js option"
  w_promises :: "settled list"
  w_waitableSet :: "hobj jsv"
  w_hasSyncWaiter :: bool
  w_idx :: "int option"

record waitable_set =
  ws_componentIdx :: int
  ws_waitables :: "nat list"
  ws_waiting :: int

record world =
  wo_waitables :: "waitable list"
  wo_sets :: "waitable_set list"
  wo_handles :: "hobj rep_table"
  wo_mayLeave :: bool

type_synonym 'a wop = "world \<Rightarrow> ('a, world) jsm"

definition upd_waitable :: "nat \<Rightarrow> (waitable \<Rightarrow> waitable) \<Rightarrow> world \<Rightarrow> world" where
  "upd_waitable a f wo = wo\<lparr>wo_waitables := (wo_waitables wo)[a := f (wo_waitables wo ! a)]\<rparr>"

definition upd_set :: "nat \<Rightarrow> (waitable_set \<Rightarrow> waitable_set) \<Rightarrow> world \<Rightarrow> world" where
  "upd_set s f wo = wo\<lparr>wo_sets := (wo_sets wo)[s := f (wo_sets wo ! s)]\<rparr>"

section \<open>Waitable\<close>

definition resetPromise :: "waitable \<Rightarrow> waitable" where
  "resetPromise w = w\<lparr>w_promises := Unsettled # w_promises w\<rparr>"

definition waitable_new :: "int option \<Rightarrow> world \<Rightarrow> nat \<times> world" where
  "waitable_new cidx wo =
     (length (wo_waitables wo),
      wo\<lparr>wo_waitables := wo_waitables wo @
        [resetPromise \<lparr>w_componentIdx = cidx, w_pendingEventFn = None, w_promises = [], w_waitableSet = JNull,
           w_hasSyncWaiter = False, w_idx = None\<rparr>]\<rparr>)"

definition isInSet :: "waitable \<Rightarrow> bool" where
  "isInSet w = (w_waitableSet w \<noteq> JNull)"

definition setIdx :: "int \<Rightarrow> waitable \<Rightarrow> waitable js" where
  "setIdx idx w =
     (if idx = 0 then Inl (Err ''waitable idx cannot be zero'') else Inr (w\<lparr>w_idx := Some idx\<rparr>))"

definition settle :: "settled \<Rightarrow> waitable \<Rightarrow> waitable" where
  "settle r w =
     w\<lparr>w_promises := (case w_promises w of [] \<Rightarrow> [] | p # ps \<Rightarrow> (if p = Unsettled then r else p) # ps)\<rparr>"

definition w_hasPendingEvent :: "waitable \<Rightarrow> bool" where
  "w_hasPendingEvent w = (w_pendingEventFn w \<noteq> None)"

definition w_setPendingEvent :: "event js \<Rightarrow> waitable \<Rightarrow> waitable" where
  "w_setPendingEvent fn w = w\<lparr>w_pendingEventFn := Some fn\<rparr>"

text \<open>The result is \<open>null\<close> (\<open>None\<close>) when nothing is pending; a function that throws leaves the
  promise as it was.\<close>

definition w_getPendingEvent :: "waitable \<Rightarrow> (event option, waitable) jsm" where
  "w_getPendingEvent w =
     (case w_pendingEventFn w of
        None \<Rightarrow> (Inr None, w)
      | Some eventFn \<Rightarrow>
          (let w1 = w\<lparr>w_pendingEventFn := None\<rparr> in
           case eventFn of
             Inl e \<Rightarrow> (Inl e, w1)
           | Inr e \<Rightarrow> (Inr (Some e), resetPromise w1)))"

section \<open>WaitableSet\<close>

definition wset_new :: "int option \<Rightarrow> world \<Rightarrow> (nat, world) jsm" where
  "wset_new cidx wo =
     (case cidx of
        None \<Rightarrow> (Inl (TypeErr ''missing/invalid component idx''), wo)
      | Some c \<Rightarrow> (Inr (length (wo_sets wo)),
          wo\<lparr>wo_sets := wo_sets wo @ [\<lparr>ws_componentIdx = c, ws_waitables = [], ws_waiting = 0\<rparr>]\<rparr>))"

definition numWaitables :: "waitable_set \<Rightarrow> nat" where
  "numWaitables ws = length (ws_waitables ws)"

definition incrementNumWaiting :: "waitable_set \<Rightarrow> waitable_set" where
  "incrementNumWaiting ws = ws\<lparr>ws_waiting := ws_waiting ws + 1\<rparr>"

definition decrementNumWaiting :: "waitable_set \<Rightarrow> waitable_set" where
  "decrementNumWaiting ws = ws\<lparr>ws_waiting := ws_waiting ws - 1\<rparr>"

text \<open>The random sort keys are an argument: the key of the waitable at each position.\<close>

definition shuffleWaitables :: "(nat \<Rightarrow> nat) \<Rightarrow> waitable_set \<Rightarrow> waitable_set" where
  "shuffleWaitables random ws =
     ws\<lparr>ws_waitables := map snd (sort_key fst (map (\<lambda>i. (random i, ws_waitables ws ! i)) [0..<length (ws_waitables ws)]))\<rparr>"

definition removeWaitable :: "nat \<Rightarrow> waitable_set \<Rightarrow> waitable_set" where
  "removeWaitable a ws =
     (if a \<notin> set (ws_waitables ws) then ws
      else ws\<lparr>ws_waitables := filter (\<lambda>w. w \<noteq> a) (ws_waitables ws)\<rparr>)"

definition addWaitable :: "nat \<Rightarrow> waitable_set \<Rightarrow> waitable_set" where
  "addWaitable a ws = (let ws1 = removeWaitable a ws in ws1\<lparr>ws_waitables := ws_waitables ws1 @ [a]\<rparr>)"

definition pending :: "world \<Rightarrow> nat \<Rightarrow> bool" where
  "pending wo a = w_hasPendingEvent (wo_waitables wo ! a)"

definition ws_hasPendingEvent :: "nat \<Rightarrow> world \<Rightarrow> bool" where
  "ws_hasPendingEvent s wo = (find (pending wo) (ws_waitables (wo_sets wo ! s)) \<noteq> None)"

definition ws_getPendingEvent :: "nat \<Rightarrow> event option wop" where
  "ws_getPendingEvent s wo =
     (case find (pending wo) (ws_waitables (wo_sets wo ! s)) of
        None \<Rightarrow> (Inl (Err ''no waitables had a pending event''), wo)
      | Some a \<Rightarrow>
          (let (r, w) = w_getPendingEvent (wo_waitables wo ! a) in (r, upd_waitable a (\<lambda>_. w) wo)))"

text \<open>\<open>waitUntil\<close> is asynchronous: up to the suspension of the task, and from the moment the task
  is resumed. A task that was not cancelled takes an event (and leaves the counter as it is when
  taking it throws).\<close>

definition waitUntil_begin :: "nat \<Rightarrow> world \<Rightarrow> world" where
  "waitUntil_begin s = upd_set s incrementNumWaiting"

definition waitUntil_ready :: "bool \<Rightarrow> nat \<Rightarrow> world \<Rightarrow> bool" where
  "waitUntil_ready ready s wo = (ready \<and> ws_hasPendingEvent s wo)"

definition waitUntil_resume :: "bool \<Rightarrow> nat \<Rightarrow> event option wop" where
  "waitUntil_resume keepGoing s wo =
     (let (r, wo1) = (if keepGoing then ws_getPendingEvent s wo
            else (Inr (Some \<lparr>ev_code = event_code EvTaskCancelled, ev_payload0 = 0, ev_payload1 = 0\<rparr>), wo))
      in case r of Inl e \<Rightarrow> (Inl e, wo1) | Inr e \<Rightarrow> (Inr e, upd_set s decrementNumWaiting wo1))"

section \<open>Joining a set\<close>

definition in_set_call :: "string \<Rightarrow> (waitable_set \<Rightarrow> waitable_set) \<Rightarrow> hobj jsv \<Rightarrow> unit wop" where
  "in_set_call m f v wo =
     (case v of
        JObj (HSet s) \<Rightarrow> (Inr (), upd_set s f wo)
      | _ \<Rightarrow> (Inl (TypeErr (m @ '' is not a function'')), wo))"

definition w_join :: "nat \<Rightarrow> hobj jsv \<Rightarrow> unit wop" where
  "w_join a waitableSet wo =
     (let old = w_waitableSet (wo_waitables wo ! a) in
      if old = JUndef then (Inl (TypeErr ''waitable set must be not be undefined''), wo)
      else
        let (r, wo1) = (if truthy old then in_set_call ''removeWaitable'' (removeWaitable a) old wo else (Inr (), wo)) in
        case r of
          Inl e \<Rightarrow> (Inl e, wo1)
        | Inr _ \<Rightarrow>
            let wo2 = upd_waitable a (\<lambda>w. w\<lparr>w_waitableSet := waitableSet\<rparr>) wo1 in
            if truthy waitableSet then in_set_call ''addWaitable'' (addWaitable a) waitableSet wo2 else (Inr (), wo2))"

definition w_drop :: "nat \<Rightarrow> unit wop" where
  "w_drop a wo =
     (if w_hasPendingEvent (wo_waitables wo ! a) then (Inl (Err ''waitables with pending events cannot be dropped''), wo)
      else w_join a JNull wo)"

text \<open>\<open>waitForPendingEvent\<close>, up to the wait on the component state and after it.\<close>

definition waitForPendingEvent_begin :: "nat \<Rightarrow> unit wop" where
  "waitForPendingEvent_begin a wo =
     (let w = wo_waitables wo ! a in
      if w_waitableSet w \<noteq> JNull \<or> w_hasSyncWaiter w then
        (Inl (Err ''waitable is already in a set/has a sync waiter''), wo)
      else (Inr (), upd_waitable a (\<lambda>w. w\<lparr>w_hasSyncWaiter := True\<rparr>) wo))"

definition waitForPendingEvent_end :: "nat \<Rightarrow> world \<Rightarrow> world" where
  "waitForPendingEvent_end a = upd_waitable a (\<lambda>w. w\<lparr>w_hasSyncWaiter := False\<rparr>)"

section \<open>Intrinsics on the handle table\<close>

definition waitableSetNew :: "int \<Rightarrow> int wop" where
  "waitableSetNew componentIdx wo =
     (let (r, wo1) = wset_new (Some componentIdx) wo in
      case r of
        Inl e \<Rightarrow> (Inl e, wo1)
      | Inr s \<Rightarrow>
          (let (rep, t) = rep_insert (JObj (HSet s)) (wo_handles wo1); wo2 = wo1\<lparr>wo_handles := t\<rparr> in
           case rep of
             JNum n \<Rightarrow> (Inr n, wo2)
           | _ \<Rightarrow> (Inl (Err ''invalid/missing waitable set rep''), wo2)))"

text \<open>The waitable behind the methods \<open>join\<close> and \<open>hasPendingEvent\<close> of a handle's object: that of
  a stream or future end, the waitable itself, or the waitable of a subtask. Other objects and the
  links that freed slots hold have no such methods.\<close>

definition join_target :: "hobj jsv \<Rightarrow> nat option" where
  "join_target v = (case v of JObj (HWaitable a) \<Rightarrow> Some a | JObj (HSubtask _ a) \<Rightarrow> Some a | JObj (HEnd a) \<Rightarrow> Some a | _ \<Rightarrow> None)"

definition removeWaitableSet :: "int \<Rightarrow> unit wop" where
  "removeWaitableSet rep wo =
     (if rep = 0 then (Inl (TypeErr ''missing component waitableSetRep''), wo)
      else case rep_get rep (wo_handles wo) of
        Inl e \<Rightarrow> (Inl e, wo)
      | Inr ws \<Rightarrow>
          if \<not> truthy ws then (Inl (Err ''cannot remove waitable set: no set present with rep''), wo)
          else (case ws of
            JObj (HSet s) \<Rightarrow>
              if ws_hasPendingEvent s wo then (Inl (Err ''waitable set cannot be removed with pending items remaining''), wo)
              else if numWaitables (wo_sets wo ! s) > 0 then (Inl (Err ''waitable set still contains waitables''), wo)
              else if ws_waiting (wo_sets wo ! s) > 0 then (Inl (Err ''waitable set still has other tasks waiting on it''), wo)
              else (case rep_remove rep (wo_handles wo) of
                      Inl e \<Rightarrow> (Inl e, wo)
                    | Inr (_, t) \<Rightarrow> (Inr (), wo\<lparr>wo_handles := t\<rparr>))
          | _ \<Rightarrow>
              (case join_target ws of
                 None \<Rightarrow> (Inl (TypeErr ''hasPendingEvent is not a function''), wo)
               | Some a \<Rightarrow>
                   if pending wo a then (Inl (Err ''waitable set cannot be removed with pending items remaining''), wo)
                   else (Inl (TypeErr ''numWaitables is not a function''), wo))))"

definition waitableJoin :: "int \<Rightarrow> int \<Rightarrow> unit wop" where
  "waitableJoin waitableRep waitableSetRep wo =
     (if \<not> wo_mayLeave wo then (Inl (Err ''component instance is not marked as may leave, cannot join waitable''), wo)
      else case rep_get waitableRep (wo_handles wo) of
        Inl e \<Rightarrow> (Inl e, wo)
      | Inr waitableObj \<Rightarrow>
          if \<not> truthy waitableObj then (Inl (Err ''missing waitable obj''), wo)
          else (case join_target waitableObj of
            None \<Rightarrow> (Inl (Err ''invalid waitable object, does not have join()''), wo)
          | Some a \<Rightarrow>
              if waitableSetRep = 0 then w_join a JNull wo
              else (case rep_get waitableSetRep (wo_handles wo) of
                Inl e \<Rightarrow> (Inl e, wo)
              | Inr waitableSet \<Rightarrow>
                  if \<not> truthy waitableSet then (Inl (Err ''missing waitable set''), wo)
                  else w_join a waitableSet wo)))"

section \<open>Sequences of operations\<close>

text \<open>What the stream, future and task code and the guest do to a component's waitables. Commands on an
  object name one that exists.\<close>

datatype command =
    NewWaitable "int option"
  | InsertHandle hobj
  | RemoveHandle int
  | SetNew int
  | SetRemove int
  | Join int int
  | SetPending nat "event js"
  | TakeEvent nat
  | Shuffle nat "nat \<Rightarrow> nat"
  | WaitBegin nat
  | WaitResume bool nat
  | SyncWaitBegin nat
  | SyncWaitEnd nat
  | Drop nat
  | SetMayLeave bool

fun obj_ok :: "world \<Rightarrow> hobj jsv \<Rightarrow> bool" where
  "obj_ok wo (JObj (HSet s)) = (s < length (wo_sets wo))"
| "obj_ok wo (JObj (HWaitable a)) = (a < length (wo_waitables wo))"
| "obj_ok wo (JObj (HSubtask _ a)) = (a < length (wo_waitables wo))"
| "obj_ok wo (JObj (HEnd a)) = (a < length (wo_waitables wo))"
| "obj_ok wo _ = True"

definition on_waitable :: "nat \<Rightarrow> (world \<Rightarrow> world) \<Rightarrow> world \<Rightarrow> world" where
  "on_waitable a f wo = (if a < length (wo_waitables wo) then f wo else wo)"

definition on_set :: "nat \<Rightarrow> (world \<Rightarrow> world) \<Rightarrow> world \<Rightarrow> world" where
  "on_set s f wo = (if s < length (wo_sets wo) then f wo else wo)"

fun world_step :: "command \<Rightarrow> world \<Rightarrow> world" where
  "world_step (NewWaitable c) wo = snd (waitable_new c wo)"
| "world_step (InsertHandle v) wo =
     (if obj_ok wo (JObj v) then wo\<lparr>wo_handles := snd (rep_insert (JObj v) (wo_handles wo))\<rparr> else wo)"
| "world_step (RemoveHandle r) wo =
     (case rep_remove r (wo_handles wo) of Inl _ \<Rightarrow> wo | Inr (_, t) \<Rightarrow> wo\<lparr>wo_handles := t\<rparr>)"
| "world_step (SetNew c) wo = snd (waitableSetNew c wo)"
| "world_step (SetRemove r) wo = snd (removeWaitableSet r wo)"
| "world_step (Join w s) wo = snd (waitableJoin w s wo)"
| "world_step (SetPending a fn) wo = on_waitable a (upd_waitable a (w_setPendingEvent fn)) wo"
| "world_step (TakeEvent s) wo = on_set s (\<lambda>wo. snd (ws_getPendingEvent s wo)) wo"
| "world_step (Shuffle s random) wo = on_set s (upd_set s (shuffleWaitables random)) wo"
| "world_step (WaitBegin s) wo = on_set s (waitUntil_begin s) wo"
| "world_step (WaitResume k s) wo = on_set s (\<lambda>wo. snd (waitUntil_resume k s wo)) wo"
| "world_step (SyncWaitBegin a) wo = on_waitable a (\<lambda>wo. snd (waitForPendingEvent_begin a wo)) wo"
| "world_step (SyncWaitEnd a) wo = on_waitable a (waitForPendingEvent_end a) wo"
| "world_step (Drop a) wo = on_waitable a (\<lambda>wo. snd (w_drop a wo)) wo"
| "world_step (SetMayLeave b) wo = wo\<lparr>wo_mayLeave := b\<rparr>"

definition world_new :: world where
  "world_new = \<lparr>wo_waitables = [], wo_sets = [], wo_handles = rep_new, wo_mayLeave = True\<rparr>"

section \<open>The handle table holds references to existing objects\<close>

lemma set_js_set: "set (js_set xs i v) \<subseteq> insert v (insert JUndef (set xs))"
  by (auto simp: js_set_def dest: set_update_subset_insert [THEN subsetD])

lemma js_get_in: "js_get xs i \<in> insert JUndef (set xs)"
  by (auto simp: js_get_def)

definition cells_ok :: "('a jsv \<Rightarrow> bool) \<Rightarrow> 'a rep_table \<Rightarrow> bool" where
  "cells_ok P t \<longleftrightarrow> P JUndef \<and> P JNull \<and> (\<forall>n. P (JNum n)) \<and> (\<forall>v\<in>set (rt_data t). P v)"

lemma cells_ok_set: "cells_ok P (t\<lparr>rt_data := xs\<rparr>) \<Longrightarrow> P v \<Longrightarrow> cells_ok P (t\<lparr>rt_data := js_set xs i v\<rparr>)"
  using set_js_set [of xs i v] by (auto simp: cells_ok_def)

lemma cells_ok_get: "cells_ok P t \<Longrightarrow> P (js_get (rt_data t) i)"
  using js_get_in [of "rt_data t" i] by (auto simp: cells_ok_def)

lemma cells_ok_get_data: "cells_ok P (t\<lparr>rt_data := xs\<rparr>) \<Longrightarrow> P (js_get xs i)"
  using cells_ok_get [of P "t\<lparr>rt_data := xs\<rparr>"] by simp

lemma cells_ok_size: "cells_ok P (t\<lparr>rt_data := xs, rt_size := n\<rparr>) = cells_ok P (t\<lparr>rt_data := xs\<rparr>)"
  by (simp add: cells_ok_def)

lemma cells_ok_insert:
  assumes "cells_ok P t" "P v"
  shows "cells_ok P (snd (rep_insert v t))"
proof -
  have t: "cells_ok P (t\<lparr>rt_data := rt_data t\<rparr>)" using assms(1) by simp
  have "P JNull" using assms(1) by (simp add: cells_ok_def)
  then have "cells_ok P (t\<lparr>rt_data := js_set (js_set (js_set (rt_data t) 0 (js_get (rt_data t) p)) p v) (p + 1) JNull\<rparr>)" for p
    by (intro cells_ok_set t cells_ok_get_data [OF t] assms(2))
  moreover have "cells_ok P (t\<lparr>rt_data := (rt_data t @ [v]) @ [JNull]\<rparr>)"
    using assms by (simp add: cells_ok_def)
  ultimately show ?thesis by (simp add: rep_insert_def Let_def cells_ok_size)
qed

lemma cells_ok_remove:
  assumes "cells_ok P t" "rep_remove r t = Inr (v, t')"
  shows "cells_ok P t'"
proof -
  have t: "cells_ok P (t\<lparr>rt_data := rt_data t\<rparr>)" using assms(1) by simp
  have "P (JNum n)" for n using assms(1) by (simp add: cells_ok_def)
  then have "cells_ok P (t\<lparr>rt_data := js_set (js_set (rt_data t) p (js_get (rt_data t) 0)) 0 (JNum r)\<rparr>)" for p
    by (intro cells_ok_set t cells_ok_get_data [OF t])
  with assms(2) show ?thesis by (auto simp: rep_remove_def Let_def cells_ok_size split: if_splits)
qed

lemma cells_ok_rep_get: "cells_ok P t \<Longrightarrow> rep_get r t = Inr v \<Longrightarrow> P v"
  using cells_ok_get [of P t] by (auto simp: rep_get_def split: if_splits)


section \<open>The sets and the waitables agree\<close>

definition links_ok :: "world \<Rightarrow> bool" where
  "links_ok wo \<longleftrightarrow>
     (\<forall>s<length (wo_sets wo). distinct (ws_waitables (wo_sets wo ! s)) \<and>
        (\<forall>a\<in>set (ws_waitables (wo_sets wo ! s)). a < length (wo_waitables wo))) \<and>
     (\<forall>a<length (wo_waitables wo). \<forall>s<length (wo_sets wo).
        w_waitableSet (wo_waitables wo ! a) = JObj (HSet s) \<longleftrightarrow> a \<in> set (ws_waitables (wo_sets wo ! s))) \<and>
     (\<forall>a<length (wo_waitables wo). obj_ok wo (w_waitableSet (wo_waitables wo ! a)))"

definition world_ok :: "world \<Rightarrow> bool" where
  "world_ok wo \<longleftrightarrow> links_ok wo \<and> cells_ok (obj_ok wo) (wo_handles wo)"

lemma obj_ok_cong:
  "length (wo_waitables wo') = length (wo_waitables wo) \<Longrightarrow> length (wo_sets wo') = length (wo_sets wo) \<Longrightarrow>
    obj_ok wo' = obj_ok wo"
proof
  fix v
  assume "length (wo_waitables wo') = length (wo_waitables wo)" "length (wo_sets wo') = length (wo_sets wo)"
  then show "obj_ok wo' v = obj_ok wo v" by (cases "(wo, v)" rule: obj_ok.cases) auto
qed

lemma obj_ok_mono:
  "length (wo_waitables wo) \<le> length (wo_waitables wo') \<Longrightarrow> length (wo_sets wo) \<le> length (wo_sets wo') \<Longrightarrow>
    obj_ok wo v \<Longrightarrow> obj_ok wo' v"
  by (cases "(wo, v)" rule: obj_ok.cases) auto

lemma upd_simps [simp]:
  "wo_sets (upd_waitable a f wo) = wo_sets wo" "wo_handles (upd_waitable a f wo) = wo_handles wo"
  "length (wo_waitables (upd_waitable a f wo)) = length (wo_waitables wo)"
  "wo_waitables (upd_set s g wo) = wo_waitables wo" "wo_handles (upd_set s g wo) = wo_handles wo"
  "length (wo_sets (upd_set s g wo)) = length (wo_sets wo)"
  "obj_ok (upd_waitable a f wo) = obj_ok wo" "obj_ok (upd_set s g wo) = obj_ok wo"
  "wo_mayLeave (upd_waitable a f wo) = wo_mayLeave wo" "wo_mayLeave (upd_set s g wo) = wo_mayLeave wo"
  by (auto simp: upd_waitable_def upd_set_def intro!: obj_ok_cong)

lemma upd_waitable_nth: "a < length (wo_waitables wo) \<Longrightarrow>
    wo_waitables (upd_waitable a f wo) ! b = (if b = a then f (wo_waitables wo ! a) else wo_waitables wo ! b)"
  by (simp add: upd_waitable_def nth_list_update)

lemma upd_set_nth: "s < length (wo_sets wo) \<Longrightarrow>
    wo_sets (upd_set s f wo) ! b = (if b = s then f (wo_sets wo ! s) else wo_sets wo ! b)"
  by (simp add: upd_set_def nth_list_update)

text \<open>Updates that change neither the back reference nor the members keep the invariant.\<close>

lemma world_ok_upd_waitable:
  assumes "world_ok wo" "a < length (wo_waitables wo)" "\<And>w. w_waitableSet (f w) = w_waitableSet w"
  shows "world_ok (upd_waitable a f wo)"
  using assms by (simp add: world_ok_def links_ok_def upd_waitable_nth)

lemma world_ok_upd_set:
  assumes "world_ok wo" "s < length (wo_sets wo)"
    and "\<And>w. distinct (ws_waitables w) \<Longrightarrow> distinct (ws_waitables (f w)) \<and> set (ws_waitables (f w)) = set (ws_waitables w)"
  shows "world_ok (upd_set s f wo)"
  using assms by (simp add: world_ok_def links_ok_def upd_set_nth)

lemma removeWaitable_props:
  "set (ws_waitables (removeWaitable a w)) = set (ws_waitables w) - {a}"
  "distinct (ws_waitables w) \<Longrightarrow> distinct (ws_waitables (removeWaitable a w))"
  by (auto simp: removeWaitable_def)

lemma addWaitable_props:
  "set (ws_waitables (addWaitable a w)) = insert a (set (ws_waitables w))"
  "distinct (ws_waitables w) \<Longrightarrow> distinct (ws_waitables (addWaitable a w))"
  by (auto simp: addWaitable_def Let_def removeWaitable_props)

text \<open>\<open>wo1\<close> is \<open>wo\<close> with the waitable \<open>a\<close> taken out of every set.\<close>

definition detached :: "nat \<Rightarrow> world \<Rightarrow> world \<Rightarrow> bool" where
  "detached a wo wo1 \<longleftrightarrow>
     length (wo_sets wo1) = length (wo_sets wo) \<and> wo_waitables wo1 = wo_waitables wo \<and> wo_handles wo1 = wo_handles wo \<and>
     (\<forall>s<length (wo_sets wo). distinct (ws_waitables (wo_sets wo1 ! s)) \<and>
        set (ws_waitables (wo_sets wo1 ! s)) = set (ws_waitables (wo_sets wo ! s)) - {a})"

lemma detached_self:
  assumes "world_ok wo" "a < length (wo_waitables wo)" "\<And>s. w_waitableSet (wo_waitables wo ! a) \<noteq> JObj (HSet s)"
  shows "detached a wo wo"
  using assms by (auto simp: detached_def world_ok_def links_ok_def)

lemma detached_remove:
  assumes "world_ok wo" "a < length (wo_waitables wo)" "w_waitableSet (wo_waitables wo ! a) = JObj (HSet s)"
  shows "detached a wo (upd_set s (removeWaitable a) wo)"
proof -
  have "obj_ok wo (JObj (HSet s))" using assms unfolding world_ok_def links_ok_def by metis
  then have s: "s < length (wo_sets wo)" by simp
  have "a \<notin> set (ws_waitables (wo_sets wo ! t))" if "t < length (wo_sets wo)" "t \<noteq> s" for t
  proof
    assume "a \<in> set (ws_waitables (wo_sets wo ! t))"
    with assms(1,2) that(1) have "w_waitableSet (wo_waitables wo ! a) = JObj (HSet t)"
      unfolding world_ok_def links_ok_def by metis
    with assms(3) that(2) show False by simp
  qed
  with assms(1) s show ?thesis
    by (auto simp: detached_def upd_set_nth removeWaitable_props world_ok_def links_ok_def)
qed

lemma attach_ok:
  assumes w: "world_ok wo" and a: "a < length (wo_waitables wo)" and d: "detached a wo wo1" and v: "obj_ok wo v"
  defines "wo2 \<equiv> upd_waitable a (\<lambda>w. w\<lparr>w_waitableSet := v\<rparr>) wo1"
  shows "(\<forall>s. v \<noteq> JObj (HSet s)) \<Longrightarrow> world_ok wo2"
    and "v = JObj (HSet s) \<Longrightarrow> world_ok (upd_set s (addWaitable a) wo2)"
proof -
  have l: "length (wo_sets wo1) = length (wo_sets wo)" "wo_waitables wo1 = wo_waitables wo" "wo_handles wo1 = wo_handles wo"
    using d by (simp_all add: detached_def)
  have o: "obj_ok wo1 = obj_ok wo" by (rule obj_ok_cong) (simp_all add: l)
  have m: "set (ws_waitables (wo_sets wo1 ! s)) = set (ws_waitables (wo_sets wo ! s)) - {a}"
    "distinct (ws_waitables (wo_sets wo1 ! s))" if "s < length (wo_sets wo)" for s
    using d that by (simp_all add: detached_def)
  show "world_ok wo2" if "\<forall>s. v \<noteq> JObj (HSet s)"
    using w a v that unfolding wo2_def
    by (auto simp: world_ok_def links_ok_def l o m upd_waitable_nth)
  show "world_ok (upd_set s (addWaitable a) wo2)" if "v = JObj (HSet s)"
  proof -
    from v that have "s < length (wo_sets wo)" by simp
    with w a v that show ?thesis unfolding wo2_def
      by (auto simp: world_ok_def links_ok_def l o m upd_waitable_nth upd_set_nth addWaitable_props)
  qed
qed

lemma w_join_ok:
  assumes "world_ok wo" "a < length (wo_waitables wo)" "obj_ok wo v"
  shows "world_ok (snd (w_join a v wo))"
proof -
  let ?old = "w_waitableSet (wo_waitables wo ! a)"
  have fin: "world_ok (snd (if truthy v then in_set_call m (addWaitable a) v wo2 else (Inr (), wo2)))"
    if "detached a wo wo1" "wo2 = upd_waitable a (\<lambda>w. w\<lparr>w_waitableSet := v\<rparr>) wo1" for m wo1 wo2
  proof (cases "\<exists>s. v = JObj (HSet s)")
    case True
    then obtain s where "v = JObj (HSet s)" by blast
    with attach_ok(2) [OF assms(1,2) that(1) assms(3)] that(2) show ?thesis by (simp add: in_set_call_def)
  next
    case False
    with attach_ok(1) [OF assms(1,2) that(1) assms(3)] that(2) have "world_ok wo2" by simp
    with False show ?thesis by (auto simp: in_set_call_def split: jsv.split hobj.split)
  qed
  show ?thesis
  proof (cases "\<exists>s. ?old = JObj (HSet s)")
    case True
    then obtain s where "?old = JObj (HSet s)" by blast
    with fin [OF detached_remove [OF assms(1,2) this] refl, of "''addWaitable''"] show ?thesis
      by (simp add: w_join_def in_set_call_def [of "''removeWaitable''"] Let_def)
  next
    case False
    then have "detached a wo wo" using assms by (intro detached_self) auto
    from fin [OF this refl] False assms(1) show ?thesis
      by (auto simp: w_join_def in_set_call_def Let_def split: jsv.split hobj.split)
  qed
qed

lemma ws_getPendingEvent_ok:
  assumes "world_ok wo" "s < length (wo_sets wo)"
  shows "world_ok (snd (ws_getPendingEvent s wo))"
proof (cases "find (pending wo) (ws_waitables (wo_sets wo ! s))")
  case None
  with assms show ?thesis by (simp add: ws_getPendingEvent_def)
next
  case (Some a)
  then have "a \<in> set (ws_waitables (wo_sets wo ! s))" by (auto simp: find_Some_iff)
  with assms have a: "a < length (wo_waitables wo)" by (auto simp: world_ok_def links_ok_def)
  let ?w = "snd (w_getPendingEvent (wo_waitables wo ! a))"
  have "w_waitableSet ?w = w_waitableSet (wo_waitables wo ! a)"
    by (auto simp: w_getPendingEvent_def resetPromise_def Let_def split: option.split sum.split)
  with assms a have "world_ok (upd_waitable a (\<lambda>_. ?w) wo)"
    by (simp add: world_ok_def links_ok_def upd_waitable_nth)
  with Some show ?thesis by (simp add: ws_getPendingEvent_def case_prod_unfold Let_def)
qed

lemma shuffle_props:
  "distinct (ws_waitables w) \<Longrightarrow> distinct (ws_waitables (shuffleWaitables random w)) \<and>
     set (ws_waitables (shuffleWaitables random w)) = set (ws_waitables w)"
proof -
  let ?xs = "map (\<lambda>i. (random i, ws_waitables w ! i)) [0..<length (ws_waitables w)]"
  have m: "mset (map snd (sort_key fst ?xs)) = mset (ws_waitables w)"
  proof -
    have "mset (map snd (sort_key fst ?xs)) = mset (map snd ?xs)" by (simp only: mset_map mset_sort)
    also have "map snd ?xs = ws_waitables w" by (simp add: comp_def map_nth)
    finally show ?thesis .
  qed
  assume "distinct (ws_waitables w)"
  with m mset_eq_imp_distinct_iff [OF m] mset_eq_setD [OF m] show ?thesis by (simp add: shuffleWaitables_def)
qed

lemma waitUntil_resume_ok:
  assumes "world_ok wo" "s < length (wo_sets wo)"
  shows "world_ok (snd (waitUntil_resume k s wo))"
proof -
  have d: "world_ok (upd_set s decrementNumWaiting wo1)" if "world_ok wo1" "s < length (wo_sets wo1)" for wo1
    using that by (intro world_ok_upd_set) (auto simp: decrementNumWaiting_def)
  have l: "length (wo_sets (snd (ws_getPendingEvent s wo))) = length (wo_sets wo)"
    by (simp add: ws_getPendingEvent_def case_prod_unfold Let_def split: option.split)
  show ?thesis
    using assms ws_getPendingEvent_ok [OF assms] d l
    by (simp add: waitUntil_resume_def case_prod_unfold Let_def split: sum.split)
qed

lemma world_ok_handles: "world_ok wo \<Longrightarrow> cells_ok (obj_ok wo) t \<Longrightarrow> world_ok (wo\<lparr>wo_handles := t\<rparr>)"
proof -
  have "obj_ok (wo\<lparr>wo_handles := t\<rparr>) = obj_ok wo" by (rule obj_ok_cong) simp_all
  then show "world_ok wo \<Longrightarrow> cells_ok (obj_ok wo) t \<Longrightarrow> world_ok (wo\<lparr>wo_handles := t\<rparr>)"
    by (simp add: world_ok_def links_ok_def)
qed

lemma world_ok_new_waitable: "world_ok wo \<Longrightarrow> world_ok (snd (waitable_new c wo))"
proof -
  let ?wo = "snd (waitable_new c wo)"
  have "obj_ok wo v \<Longrightarrow> obj_ok ?wo v" for v
    by (rule obj_ok_mono [of wo]) (simp_all add: waitable_new_def)
  then show "world_ok wo \<Longrightarrow> world_ok ?wo"
    by (fastforce simp: world_ok_def links_ok_def cells_ok_def waitable_new_def resetPromise_def nth_append less_Suc_eq)
qed

lemma world_ok_new_set:
  assumes "world_ok wo"
  shows "world_ok (snd (waitableSetNew c wo))"
proof -
  define wo1 where "wo1 = wo\<lparr>wo_sets := wo_sets wo @ [\<lparr>ws_componentIdx = c, ws_waitables = [], ws_waiting = 0\<rparr>]\<rparr>"
  have m: "obj_ok wo v \<Longrightarrow> obj_ok wo1 v" for v
    by (rule obj_ok_mono [of wo]) (simp_all add: wo1_def)
  have n: "w_waitableSet (wo_waitables wo ! a) \<noteq> JObj (HSet (length (wo_sets wo)))" if "a < length (wo_waitables wo)" for a
  proof
    assume "w_waitableSet (wo_waitables wo ! a) = JObj (HSet (length (wo_sets wo)))"
    with assms that have "obj_ok wo (JObj (HSet (length (wo_sets wo))))" unfolding world_ok_def links_ok_def by metis
    then show False by simp
  qed
  have l: "links_ok wo1"
    using assms m n by (auto simp: world_ok_def links_ok_def wo1_def nth_append less_Suc_eq)
  have "cells_ok (obj_ok wo1) (wo_handles wo)"
    using assms m by (auto simp: world_ok_def cells_ok_def)
  then have c: "cells_ok (obj_ok wo1) (snd (rep_insert (JObj (HSet (length (wo_sets wo)))) (wo_handles wo)))"
    by (rule cells_ok_insert) (simp add: wo1_def)
  have "world_ok wo1" using l \<open>cells_ok (obj_ok wo1) (wo_handles wo)\<close> by (simp add: world_ok_def wo1_def)
  from world_ok_handles [OF this c] show ?thesis
    by (simp add: waitableSetNew_def wset_new_def Let_def wo1_def case_prod_unfold split: jsv.split)
qed

lemma rep_get_ok: "world_ok wo \<Longrightarrow> rep_get r (wo_handles wo) = Inr v \<Longrightarrow> obj_ok wo v"
  unfolding world_ok_def by (blast intro: cells_ok_rep_get)

lemma join_target_ok: "obj_ok wo v \<Longrightarrow> join_target v = Some a \<Longrightarrow> a < length (wo_waitables wo)"
  by (auto simp: join_target_def split: jsv.splits hobj.splits)

lemma removeWaitableSet_ok:
  assumes "world_ok wo"
  shows "world_ok (snd (removeWaitableSet r wo))"
proof -
  have "world_ok (wo\<lparr>wo_handles := t\<rparr>)" if "rep_remove r (wo_handles wo) = Inr (v, t)" for v t
    using assms cells_ok_remove [OF _ that] by (intro world_ok_handles) (simp_all add: world_ok_def)
  with assms show ?thesis
    by (auto simp: removeWaitableSet_def split: sum.split jsv.split hobj.split option.split)
qed

lemma waitableJoin_ok:
  assumes "world_ok wo"
  shows "world_ok (snd (waitableJoin w s wo))"
proof -
  have "world_ok (snd (w_join a v wo))" if "rep_get w (wo_handles wo) = Inr obj" "join_target obj = Some a" "obj_ok wo v" for obj a v
    using assms that rep_get_ok join_target_ok by (intro w_join_ok) blast+
  moreover have "obj_ok wo JNull" by simp
  moreover note rep_get_ok [OF assms]
  ultimately show ?thesis using assms
    by (auto simp: waitableJoin_def split: sum.split option.split)
qed

lemma world_step_ok: "world_ok wo \<Longrightarrow> world_ok (world_step cmd wo)"
proof (cases cmd)
  case (InsertHandle v)
  assume w: "world_ok wo"
  have "world_ok (wo\<lparr>wo_handles := snd (rep_insert (JObj v) (wo_handles wo))\<rparr>)" if "obj_ok wo (JObj v)"
    using w that by (intro world_ok_handles cells_ok_insert) (simp_all add: world_ok_def)
  with w InsertHandle show ?thesis by simp
next
  case (RemoveHandle r)
  assume w: "world_ok wo"
  have "world_ok (wo\<lparr>wo_handles := t\<rparr>)" if "rep_remove r (wo_handles wo) = Inr (v, t)" for v t
    using w cells_ok_remove [OF _ that] by (intro world_ok_handles) (simp_all add: world_ok_def)
  with w RemoveHandle show ?thesis by (auto split: sum.split)
next
  case (Drop a)
  assume w: "world_ok wo"
  then have "a < length (wo_waitables wo) \<Longrightarrow> world_ok (snd (w_join a JNull wo))" by (intro w_join_ok) simp_all
  with w Drop show ?thesis by (simp add: on_waitable_def w_drop_def)
next
  case (SetMayLeave b)
  assume w: "world_ok wo"
  have "obj_ok (wo\<lparr>wo_mayLeave := b\<rparr>) = obj_ok wo" by (rule obj_ok_cong) simp_all
  with w SetMayLeave show ?thesis by (simp add: world_ok_def links_ok_def)
qed (auto simp: on_waitable_def on_set_def waitUntil_begin_def waitForPendingEvent_end_def w_setPendingEvent_def Let_def
    waitForPendingEvent_begin_def incrementNumWaiting_def shuffle_props world_ok_new_waitable world_ok_new_set
    removeWaitableSet_ok waitableJoin_ok ws_getPendingEvent_ok waitUntil_resume_ok
    intro!: world_ok_upd_waitable world_ok_upd_set)

lemma world_ok_new: "world_ok world_new"
  by (simp add: world_ok_def links_ok_def cells_ok_def world_new_def rep_new_def)

lemma world_run_ok: "world_ok (fold world_step cmds world_new)"
proof -
  have "world_ok wo \<Longrightarrow> world_ok (fold world_step cmds wo)" for wo
    by (induction cmds arbitrary: wo) (simp_all add: world_step_ok)
  then show ?thesis by (simp add: world_ok_new)
qed

section \<open>Properties\<close>

text \<open>C12. After any sequence of operations, failing ones included, the two sides of the membership agree:
  a waitable is in the list of a set exactly when its own reference is that set, and no set lists a
  waitable twice. So a waitable is in at most one set.\<close>

theorem wset_membership_consistent:
  assumes "wo = fold world_step cmds world_new"
    and "s < length (wo_sets wo)" "a < length (wo_waitables wo)"
  shows "distinct (ws_waitables (wo_sets wo ! s)) \<and>
     (a \<in> set (ws_waitables (wo_sets wo ! s)) \<longleftrightarrow> w_waitableSet (wo_waitables wo ! a) = JObj (HSet s))"
  using world_run_ok [of cmds] assms by (auto simp: world_ok_def links_ok_def)

definition demo_cmds :: "command list" where
  "demo_cmds = [SetNew 0, SetNew 0, NewWaitable (Some 0), InsertHandle (HEnd 0), Join 3 1, Join 3 2, Join 3 3]"

lemma demo_world:
  "fold world_step demo_cmds world_new =
    \<lparr>wo_waitables = [\<lparr>w_componentIdx = Some 0, w_pendingEventFn = None, w_promises = [Unsettled],
        w_waitableSet = JObj (HEnd 0), w_hasSyncWaiter = False, w_idx = None\<rparr>],
      wo_sets = [\<lparr>ws_componentIdx = 0, ws_waitables = [], ws_waiting = 0\<rparr>, \<lparr>ws_componentIdx = 0, ws_waitables = [], ws_waiting = 0\<rparr>],
      wo_handles = \<lparr>rt_data = [JNum 0, JNull, JObj (HSet 0), JNull, JObj (HSet 1), JNull, JObj (HEnd 0), JNull], rt_size = 3\<rparr>,
      wo_mayLeave = True\<rparr>"
  by (simp add: demo_cmds_def world_new_def waitableSetNew_def wset_new_def waitable_new_def resetPromise_def rep_new_def
    rep_insert_def rep_get_def js_get_def waitableJoin_def join_target_def w_join_def in_set_call_def upd_set_def upd_waitable_def
    removeWaitable_def addWaitable_def Let_def)

theorem wset_membership_consistent_witness:
  "distinct (ws_waitables (wo_sets (fold world_step demo_cmds world_new) ! 1)) \<and> length (wo_sets (fold world_step demo_cmds world_new)) = 2"
  using wset_membership_consistent [OF refl, of 1 demo_cmds 0] by (simp add: demo_world)

text \<open>A waitable set is dropped only when nothing depends on it any more: after a successful
  \<open>_removeWaitableSet\<close> no waitable refers to the set whose handle was removed, and no task waits
  on it.\<close>

theorem removed_set_unreferenced:
  assumes "wo = fold world_step cmds world_new" "removeWaitableSet rep wo = (Inr (), wo')"
  shows "\<exists>s. rep_get rep (wo_handles wo) = Inr (JObj (HSet s)) \<and> s < length (wo_sets wo') \<and> ws_waiting (wo_sets wo' ! s) \<le> 0 \<and>
    (\<forall>a<length (wo_waitables wo'). w_waitableSet (wo_waitables wo' ! a) \<noteq> JObj (HSet s))"
proof -
  have w: "world_ok wo" using world_run_ok assms(1) by simp
  from assms(2) obtain s where s: "rep_get rep (wo_handles wo) = Inr (JObj (HSet s))" "ws_waitables (wo_sets wo ! s) = []"
    "ws_waiting (wo_sets wo ! s) \<le> 0" "wo_sets wo' = wo_sets wo" "wo_waitables wo' = wo_waitables wo"
    by (auto simp: removeWaitableSet_def numWaitables_def not_less split: if_splits sum.splits jsv.splits hobj.splits option.splits)
  from rep_get_ok [OF w s(1)] have l: "s < length (wo_sets wo)" by simp
  with w s(2) have "\<forall>a<length (wo_waitables wo). w_waitableSet (wo_waitables wo ! a) \<noteq> JObj (HSet s)"
    by (auto simp: world_ok_def links_ok_def)
  with s l show ?thesis by auto
qed

theorem removed_set_unreferenced_witness:
  "\<exists>s. rep_get 2 (wo_handles (fold world_step demo_cmds world_new)) = Inr (JObj (HSet s)) \<and> s = 1"
proof -
  have "\<exists>wo'. removeWaitableSet 2 (fold world_step demo_cmds world_new) = (Inr (), wo')"
    by (simp add: demo_world removeWaitableSet_def rep_get_def js_get_def ws_hasPendingEvent_def numWaitables_def rep_remove_def Let_def)
  then obtain wo' where r: "removeWaitableSet 2 (fold world_step demo_cmds world_new) = (Inr (), wo')" by blast
  from removed_set_unreferenced [OF refl r] show ?thesis by (auto simp: demo_world rep_get_def js_get_def)
qed

text \<open>Taking an event of a set that has one takes the event of the first waitable in the set's order
  that has one pending, delivers the outcome of its event function, and consumes it: that waitable
  has nothing pending afterwards, all other waitables and the sets are as before.\<close>

theorem event_taken_once:
  assumes "wo = fold world_step cmds world_new" "s < length (wo_sets wo)" "ws_hasPendingEvent s wo"
  shows "\<exists>i fn. i < length (ws_waitables (wo_sets wo ! s)) \<and>
     (let a = ws_waitables (wo_sets wo ! s) ! i; (r, wo') = ws_getPendingEvent s wo in
      w_pendingEventFn (wo_waitables wo ! a) = Some fn \<and> r = map_sum id Some fn \<and>
      (\<forall>j<i. \<not> pending wo (ws_waitables (wo_sets wo ! s) ! j)) \<and> \<not> pending wo' a \<and>
      (\<forall>b. b \<noteq> a \<longrightarrow> wo_waitables wo' ! b = wo_waitables wo ! b) \<and> wo_sets wo' = wo_sets wo)"
proof -
  let ?ws = "ws_waitables (wo_sets wo ! s)"
  have w: "world_ok wo" using world_run_ok assms(1) by simp
  from assms(3) obtain a where f: "find (pending wo) ?ws = Some a" by (auto simp: ws_hasPendingEvent_def)
  then obtain i where i: "i < length ?ws" "pending wo (?ws ! i)" "a = ?ws ! i" "\<forall>j<i. \<not> pending wo (?ws ! j)"
    by (auto simp: find_Some_iff)
  from i w assms(2) have a: "a < length (wo_waitables wo)" by (auto simp: world_ok_def links_ok_def)
  from i obtain fn where fn: "w_pendingEventFn (wo_waitables wo ! a) = Some fn"
    by (auto simp: pending_def w_hasPendingEvent_def)
  define r where "r = w_getPendingEvent (wo_waitables wo ! a)"
  have r: "fst r = map_sum id Some fn" "w_pendingEventFn (snd r) = None"
    by (auto simp: r_def w_getPendingEvent_def fn resetPromise_def Let_def split: sum.split)
  have g: "ws_getPendingEvent s wo = (fst r, upd_waitable a (\<lambda>_. snd r) wo)"
    by (simp add: ws_getPendingEvent_def f r_def case_prod_unfold Let_def)
  have "\<forall>b. b \<noteq> a \<longrightarrow> wo_waitables (upd_waitable a (\<lambda>_. snd r) wo) ! b = wo_waitables wo ! b"
    "\<not> pending (upd_waitable a (\<lambda>_. snd r) wo) a"
    using a r(2) by (auto simp: upd_waitable_def pending_def w_hasPendingEvent_def)
  with i fn r(1) show ?thesis unfolding g Let_def prod.case
    by (intro exI [of _ i] exI [of _ fn]) simp
qed

definition event_cmds :: "command list" where
  "event_cmds =
    [SetNew 0, NewWaitable (Some 0), InsertHandle (HEnd 0), Join 2 1, SetPending 0 (Inr \<lparr>ev_code = 2, ev_payload0 = 5, ev_payload1 = 16\<rparr>)]"

lemma demo_event:
  "fold world_step event_cmds world_new =
    \<lparr>wo_waitables = [\<lparr>w_componentIdx = Some 0, w_pendingEventFn = Some (Inr \<lparr>ev_code = 2, ev_payload0 = 5, ev_payload1 = 16\<rparr>), w_promises = [Unsettled],
        w_waitableSet = JObj (HSet 0), w_hasSyncWaiter = False, w_idx = None\<rparr>],
      wo_sets = [\<lparr>ws_componentIdx = 0, ws_waitables = [0], ws_waiting = 0\<rparr>],
      wo_handles = \<lparr>rt_data = [JNum 0, JNull, JObj (HSet 0), JNull, JObj (HEnd 0), JNull], rt_size = 2\<rparr>, wo_mayLeave = True\<rparr>"
  by (simp add: event_cmds_def world_new_def waitableSetNew_def wset_new_def waitable_new_def resetPromise_def rep_new_def
    rep_insert_def rep_get_def js_get_def waitableJoin_def join_target_def w_join_def in_set_call_def upd_set_def upd_waitable_def
    removeWaitable_def addWaitable_def Let_def on_waitable_def w_setPendingEvent_def)

theorem event_taken_once_witness:
  "fst (ws_getPendingEvent 0 (fold world_step event_cmds world_new)) = Inr (Some \<lparr>ev_code = 2, ev_payload0 = 5, ev_payload1 = 16\<rparr>)"
  using event_taken_once [OF refl, of 0 event_cmds]
  by (simp add: demo_event ws_hasPendingEvent_def pending_def w_hasPendingEvent_def case_prod_unfold Let_def)

text \<open>\<open>waitableJoin\<close> does not check that the second handle is a waitable set. Joining a waitable to
  any other object throws, but only after the reference is stored, and from then on every join of that
  waitable, the one that should take it out of its set included, throws and changes nothing.\<close>

theorem join_non_set_sticks:
  assumes "wo_mayLeave wo" "rep_get wr (wo_handles wo) = Inr v" "truthy v" "join_target v = Some a" "a < length (wo_waitables wo)"
    and "sr \<noteq> 0" "rep_get sr (wo_handles wo) = Inr x" "truthy x" "\<forall>s. x \<noteq> JObj (HSet s)"
    and "w_waitableSet (wo_waitables wo ! a) = JNull"
  shows "\<exists>wo'. waitableJoin wr sr wo = (Inl (TypeErr ''addWaitable is not a function''), wo') \<and>
     (\<forall>sr'. \<exists>e. waitableJoin wr sr' wo' = (Inl e, wo'))"
proof -
  define wo' where "wo' = upd_waitable a (\<lambda>w. w\<lparr>w_waitableSet := x\<rparr>) wo"
  have c: "in_set_call m f x wo1 = (Inl (TypeErr (m @ '' is not a function'')), wo1)" for m f wo1
    using assms(9) by (auto simp: in_set_call_def split: jsv.split hobj.split)
  have j: "waitableJoin wr sr wo = (Inl (TypeErr ''addWaitable is not a function''), wo')"
    using assms by (simp add: waitableJoin_def w_join_def c Let_def wo'_def)
  have x: "w_waitableSet (wo_waitables wo' ! a) = x" using assms(5) by (simp add: wo'_def upd_waitable_nth)
  have "\<exists>e. w_join a y wo' = (Inl e, wo')" for y
    using assms(8) by (auto simp: w_join_def x c Let_def)
  moreover have "rep_get wr (wo_handles wo') = Inr v" "wo_mayLeave wo'" using assms by (simp_all add: wo'_def)
  ultimately have "\<exists>e. waitableJoin wr sr' wo' = (Inl e, wo')" for sr'
    using assms(3,4) by (auto simp: waitableJoin_def split: sum.split)
  with j show ?thesis by blast
qed

theorem join_non_set_sticks_witness:
  "\<exists>wo'. waitableJoin 1 1 \<lparr>wo_waitables = [\<lparr>w_componentIdx = Some 0, w_pendingEventFn = None, w_promises = [Unsettled],
        w_waitableSet = JNull, w_hasSyncWaiter = False, w_idx = None\<rparr>], wo_sets = [],
      wo_handles = \<lparr>rt_data = [JNum 0, JNull, JObj (HEnd 0), JNull], rt_size = 1\<rparr>, wo_mayLeave = True\<rparr>
     = (Inl (TypeErr ''addWaitable is not a function''), wo') \<and> (\<exists>e. waitableJoin 1 0 wo' = (Inl e, wo'))"
proof -
  let ?wo = "\<lparr>wo_waitables = [\<lparr>w_componentIdx = Some 0, w_pendingEventFn = None, w_promises = [Unsettled],
        w_waitableSet = JNull, w_hasSyncWaiter = False, w_idx = None\<rparr>], wo_sets = [],
      wo_handles = \<lparr>rt_data = [JNum 0, JNull, JObj (HEnd 0), JNull], rt_size = 1\<rparr>, wo_mayLeave = True\<rparr>"
  have g: "rep_get 1 (wo_handles ?wo) = Inr (JObj (HEnd 0))" by (simp add: rep_get_def js_get_def)
  from join_non_set_sticks [OF _ g _ _ _ _ g] show ?thesis by (fastforce simp: join_target_def)
qed

end
