(* ===== verification/Stream_Copy.thy ===== *)
theory Stream_Copy
  imports Managed_Buffer Waitables
begin

text \<open>
  The rendezvous of the two ends of a stream
  (\<open>src/crates/js-component-bindgen/src/intrinsics/p3/async_stream.rs\<close>: \<open>StreamEnd\<close>,
  \<open>StreamReadableEnd\<close>, \<open>StreamWritableEnd\<close> and \<open>InternalStream\<close>).

  The ends of an internal stream share the metadata of the pending buffer (the buffer of the
  operation that came first, with the functions that tell its end about progress), the element
  metadata and the dropped flag. A copy registers its buffer as the pending one, or meets the
  pending buffer of the other end and transfers elements. Buffers are shared between the pending
  metadata and the functions that make an end's event later, so they are addresses into a store;
  buffers of one memory share its contents.

  An end's pending event is a function that runs when the event is taken: it reads how far the
  buffer has been processed then, and may release the pending buffer. The model keeps what the
  closure captured. The asynchronous \<open>copy\<close> is split at its suspension. Not modelled: ends lowered
  from the host (\<open>hostInjectFn\<close>, \<open>hostDropFn\<close>, \<open>hostCancelFn\<close>), debug logging and targets. All
  callers give an event code. The buffer manager's ids are left out: by \<open>buffer_ids_unique\<close> it
  creates a buffer exactly when the constructor does.
\<close>

section \<open>State\<close>

datatype side = Readable | Writable

fun other_side :: "side \<Rightarrow> side" where
  "other_side Readable = Writable"
| "other_side Writable = Readable"

datatype copy_state = IDLE | SYNC_COPYING | ASYNC_COPYING | CANCELLING_COPY | DONE

datatype copy_result = COMPLETED | DROPPED | CANCELLED

fun result_code :: "copy_result \<Rightarrow> int" where
  "result_code COMPLETED = 0"
| "result_code DROPPED = 1"
| "result_code CANCELLED = 2"

text \<open>The functions \<open>onCopyFn\<close> and \<open>onCopyDoneFn\<close> that \<open>setupCopy\<close> returns, by what they capture; and
  the event function they install.\<close>

record copy_fns =
  cf_side :: side
  cf_buffer :: nat
  cf_eventCode :: int

record event_fn =
  ef_fns :: copy_fns
  ef_result :: copy_result
  ef_reclaim :: bool
  ef_rejectedLength :: "int option"

record stream_event =
  sv_code :: int
  sv_payload0 :: int
  sv_payload1 :: int
  sv_rejectedLength :: "int option"

text \<open>\<open>se_pendingEventFn\<close> and \<open>se_inSet\<close> belong to the waitable of the end.\<close>

record stream_end =
  se_copyState :: copy_state
  se_pendingEventFn :: "event_fn option"
  se_inSet :: bool
  se_waitableIdx :: int
  se_rejectedLength :: "int option"

record pending_meta =
  pm_componentIdx :: "int option"
  pm_buffer :: "nat option"
  pm_onCopyFn :: "copy_fns option"
  pm_onCopyDoneFn :: "copy_fns option"
  pm_rejectLength :: "int option"

text \<open>A buffer with the memory object it is a window of; the host's buffers share the element metadata
  of the stream, the guests' have a copy of their own.\<close>

record stored_buffer =
  sb_buffer :: managed_buffer
  sb_memory :: "nat option"
  sb_shared :: bool

record stream =
  st_read :: stream_end
  st_write :: stream_end
  st_dropped :: bool
  st_pending :: pending_meta
  st_elemMeta :: elem_meta
  st_buffers :: "stored_buffer list"
  st_mems :: "mem list"

type_synonym 'a sop = "('a, stream) jsop"

fun get_end :: "side \<Rightarrow> stream \<Rightarrow> stream_end" where
  "get_end Readable st = st_read st"
| "get_end Writable st = st_write st"

fun upd_end :: "side \<Rightarrow> (stream_end \<Rightarrow> stream_end) \<Rightarrow> stream \<Rightarrow> stream" where
  "upd_end Readable f st = st\<lparr>st_read := f (st_read st)\<rparr>"
| "upd_end Writable f st = st\<lparr>st_write := f (st_write st)\<rparr>"

definition no_pending :: pending_meta where
  "no_pending = \<lparr>pm_componentIdx = None, pm_buffer = None, pm_onCopyFn = None, pm_onCopyDoneFn = None, pm_rejectLength = None\<rparr>"

definition new_end :: "int \<Rightarrow> stream_end" where
  "new_end idx = \<lparr>se_copyState = IDLE, se_pendingEventFn = None, se_inSet = False, se_waitableIdx = idx, se_rejectedLength = None\<rparr>"

definition newInternalStream :: "elem_meta \<Rightarrow> int \<Rightarrow> int \<Rightarrow> mem list \<Rightarrow> stream" where
  "newInternalStream meta readIdx writeIdx mems =
     \<lparr>st_read = new_end readIdx, st_write = new_end writeIdx, st_dropped = False, st_pending = no_pending,
      st_elemMeta = meta, st_buffers = [], st_mems = mems\<rparr>"

section \<open>Buffers in the store\<close>

definition load_buffer :: "nat \<Rightarrow> stream \<Rightarrow> managed_buffer" where
  "load_buffer i st =
     (let h = st_buffers st ! i in
      (sb_buffer h)\<lparr>mb_memory := map_option (\<lambda>k. st_mems st ! k) (sb_memory h),
        mb_elemMeta := (if sb_shared h then st_elemMeta st else mb_elemMeta (sb_buffer h))\<rparr>)"

definition store_buffer :: "nat \<Rightarrow> managed_buffer \<Rightarrow> stream \<Rightarrow> stream" where
  "store_buffer i b st =
     (let h = st_buffers st ! i in
      st\<lparr>st_buffers := (st_buffers st)[i := h\<lparr>sb_buffer := b\<rparr>],
         st_mems := (case (sb_memory h, mb_memory b) of
            (Some k, Some m) \<Rightarrow> (st_mems st)[k := m] | _ \<Rightarrow> st_mems st)\<rparr>)"

definition on_buffer :: "nat \<Rightarrow> ('a, managed_buffer) jsop \<Rightarrow> 'a sop" where
  "on_buffer i op st = (case op (load_buffer i st) of (r, b) \<Rightarrow> (r, store_buffer i b st))"

definition buf_meta :: "nat \<Rightarrow> stream \<Rightarrow> elem_meta" where
  "buf_meta i st = mb_elemMeta (load_buffer i st)"

definition set_encoding :: "nat \<Rightarrow> string option \<Rightarrow> stream \<Rightarrow> stream" where
  "set_encoding i enc st =
     (if sb_shared (st_buffers st ! i) then st\<lparr>st_elemMeta := (st_elemMeta st)\<lparr>stringEncoding := enc\<rparr>\<rparr>
      else store_buffer i ((load_buffer i st)\<lparr>mb_elemMeta := (buf_meta i st)\<lparr>stringEncoding := enc\<rparr>\<rparr>) st)"

section \<open>Pending buffer and events\<close>

definition setPendingBufferMeta :: "int option \<Rightarrow> nat option \<Rightarrow> copy_fns option \<Rightarrow> copy_fns option \<Rightarrow> int option \<Rightarrow> stream \<Rightarrow> stream" where
  "setPendingBufferMeta cidx buffer onCopyFn onCopyDoneFn rejectLength st =
     st\<lparr>st_pending := \<lparr>pm_componentIdx = cidx, pm_buffer = buffer, pm_onCopyFn = onCopyFn,
        pm_onCopyDoneFn = onCopyDoneFn, pm_rejectLength = rejectLength\<rparr>\<rparr>"

definition resetPendingBufferMeta :: "stream \<Rightarrow> stream" where
  "resetPendingBufferMeta st = st\<lparr>st_pending := no_pending\<rparr>"

definition isCopying :: "stream_end \<Rightarrow> bool" where
  "isCopying e = (se_copyState e \<in> {SYNC_COPYING, ASYNC_COPYING, CANCELLING_COPY})"

definition hasPendingEvent :: "side \<Rightarrow> stream \<Rightarrow> bool" where
  "hasPendingEvent s st = (se_pendingEventFn (get_end s st) \<noteq> None)"

definition setCopyState :: "side \<Rightarrow> copy_state \<Rightarrow> stream \<Rightarrow> stream" where
  "setCopyState s cs = upd_end s (\<lambda>e. e\<lparr>se_copyState := cs\<rparr>)"

definition setPendingEvent :: "side \<Rightarrow> event_fn \<Rightarrow> stream \<Rightarrow> stream" where
  "setPendingEvent s fn = upd_end s (\<lambda>e. e\<lparr>se_pendingEventFn := Some fn\<rparr>)"

text \<open>The reclaim function that every caller of \<open>onCopyFn\<close> gives resets the pending buffer.\<close>

definition onCopyFn :: "copy_fns \<Rightarrow> stream \<Rightarrow> stream" where
  "onCopyFn f = setPendingEvent (cf_side f) \<lparr>ef_fns = f, ef_result = COMPLETED, ef_reclaim = True, ef_rejectedLength = None\<rparr>"

definition onCopyDoneFn :: "copy_fns \<Rightarrow> copy_result \<Rightarrow> int option \<Rightarrow> stream \<Rightarrow> stream" where
  "onCopyDoneFn f r rejected =
     setPendingEvent (cf_side f) \<lparr>ef_fns = f, ef_result = r, ef_reclaim = False, ef_rejectedLength = rejected\<rparr>"

definition resetAndNotifyPending :: "copy_result \<Rightarrow> stream \<Rightarrow> stream" where
  "resetAndNotifyPending r st =
     (case pm_onCopyDoneFn (st_pending st) of
        None \<Rightarrow> resetPendingBufferMeta st
      | Some f \<Rightarrow> onCopyDoneFn f r None (resetPendingBufferMeta st))"

text \<open>\<open>(Number(buffer.processed) << 4) | result\<close>, and how the host's \<open>read\<close> takes it apart.\<close>

definition pack_result :: "int \<Rightarrow> copy_result \<Rightarrow> int" where
  "pack_result processed r = js_or (js_shl processed 4) (result_code r)"

definition unpack_result :: "int \<Rightarrow> int \<times> int" where
  "unpack_result packed = (js_and packed 15, js_shr packed 4)"

text \<open>The error message for a result that is too long names the undeclared \<open>buf\<close>.\<close>

definition processFn :: "event_fn \<Rightarrow> stream_event sop" where
  "processFn ef st =
     (let s = cf_side (ef_fns ef);
          st1 = (if ef_reclaim ef then resetPendingBufferMeta st else st);
          st2 = setCopyState s (if ef_result ef = DROPPED then DONE else IDLE) st1;
          processed = mb_processed (load_buffer (cf_buffer (ef_fns ef)) st2)
      in if MAX_LENGTH \<le> processed then (Inl (RefErr ''buf is not defined''), st2)
         else (Inr \<lparr>sv_code = cf_eventCode (ef_fns ef), sv_payload0 = se_waitableIdx (get_end s st2),
                 sv_payload1 = pack_result processed (ef_result ef), sv_rejectedLength = ef_rejectedLength ef\<rparr>, st2))"

text \<open>Taking the event, by the end itself or by the set that its waitable is in.\<close>

definition getPendingEvent :: "side \<Rightarrow> stream_event option sop" where
  "getPendingEvent s st =
     (case se_pendingEventFn (get_end s st) of
        None \<Rightarrow> (Inr None, st)
      | Some ef \<Rightarrow> jbind (processFn ef) (\<lambda>ev. jret (Some ev)) (upd_end s (\<lambda>e. e\<lparr>se_pendingEventFn := None\<rparr>) st))"

section \<open>Copying\<close>

record copy_args =
  ca_isAsync :: bool
  ca_memory :: "nat option"
  ca_componentIdx :: int
  ca_ptr :: "int option"
  ca_count :: int
  ca_eventCode :: int
  ca_stringEncoding :: "string option"
  ca_buffer :: "nat option"
  ca_rejectLength :: "int option"
  ca_hasTask :: bool

definition setupCopy :: "side \<Rightarrow> copy_args \<Rightarrow> (nat \<times> copy_fns) sop" where
  "setupCopy s a st =
     (if isCopying (get_end s st) then (Inl (Err ''stream is currently undergoing a separate copy''), st)
      else if se_copyState (get_end s st) \<noteq> IDLE then (Inl (Err ''stream copy state is not idle''), st)
      else if isBorrowed (st_elemMeta st) then (Inl (Err ''borrowed types cannot be sent over streams''), st)
      else case ca_buffer a of
        Some i \<Rightarrow> (Inr (i, \<lparr>cf_side = s, cf_buffer = i, cf_eventCode = ca_eventCode a\<rparr>), st)
      | None \<Rightarrow>
          (case newManagedBuffer
              \<lparr>ba_componentIdx = Some (ca_componentIdx a), ba_memory = map_option (\<lambda>k. st_mems st ! k) (ca_memory a),
               ba_start = ca_ptr a, ba_capacity = Some (ca_count a), ba_elemMeta = Some (st_elemMeta st),
               ba_data = VUndef, ba_target = VUndef\<rparr> of
             Inl e \<Rightarrow> (Inl e, st)
           | Inr b \<Rightarrow>
               let i = length (st_buffers st) in
               (Inr (i, \<lparr>cf_side = s, cf_buffer = i, cf_eventCode = ca_eventCode a\<rparr>),
                st\<lparr>st_buffers := st_buffers st @ [\<lparr>sb_buffer = b, sb_memory = ca_memory a, sb_shared = False\<rparr>]\<rparr>)))"

text \<open>\<open>dst.write(src.read(n))\<close>, and the call of the pending end's \<open>onCopyFn\<close>.\<close>

definition transfer :: "nat \<Rightarrow> nat \<Rightarrow> int \<Rightarrow> unit sop" where
  "transfer src dst n =
     jbind (on_buffer src (buf_read (Some n))) (\<lambda>vs. on_buffer dst (buf_write (VArr vs)))"

definition notify_pending_copy :: "unit sop" where
  "notify_pending_copy st =
     (case pm_onCopyFn (st_pending st) of
        None \<Rightarrow> (Inl (TypeErr ''onCopyFn is not a function''), st)
      | Some f \<Rightarrow> (Inr (), onCopyFn f st))"

definition same_component_values :: "nat \<Rightarrow> nat \<Rightarrow> stream \<Rightarrow> bool" where
  "same_component_values pb b st =
     (let c = mb_componentIdx (load_buffer b st); m = buf_meta pb st in
      pm_componentIdx (st_pending st) = Some c \<and> c \<noteq> -1 \<and> \<not> isNone m \<and> \<not> isNumeric m)"

definition write_op :: "nat \<Rightarrow> copy_fns \<Rightarrow> int \<Rightarrow> unit sop" where
  "write_op b fns cidx st =
     (let register = setPendingBufferMeta (Some cidx) (Some b) (Some fns) (Some fns) None in
      if st_dropped st then (Inr (), onCopyDoneFn fns DROPPED None st)
      else case pm_buffer (st_pending st) of
        None \<Rightarrow> (Inr (), register st)
      | Some pb \<Rightarrow>
         let rem = remaining (load_buffer b st); prem = remaining (load_buffer pb st) in
         if payloadTypeName (buf_meta pb st) \<noteq> payloadTypeName (buf_meta b st)
         then (Inl (Err ''trap: stream end type does not match internal buffer''), st)
         else if same_component_values pb b st
         then (Inl (Err ''trap: cannot stream non-numeric types within the same component''), st)
         else if mb_capacity (load_buffer b st) = 0 \<and> mb_capacity (load_buffer pb st) = 0
         then (Inr (), onCopyDoneFn fns COMPLETED None st)
         else if prem = 0 then (Inr (), register (resetAndNotifyPending COMPLETED st))
         else if 0 < rem then
           (case pm_rejectLength (st_pending st) of
              Some l \<Rightarrow>
                if l < rem then
                  (case pm_onCopyDoneFn (st_pending st) of
                     None \<Rightarrow> (Inl (TypeErr ''pendingOnCopyDoneFn is not a function''), resetPendingBufferMeta st)
                   | Some f \<Rightarrow>
                      (Inr (), onCopyDoneFn fns DROPPED None (onCopyDoneFn f DROPPED (Some rem) (resetPendingBufferMeta st))))
                else jbind (transfer b pb (min rem prem)) (\<lambda>_. jbind notify_pending_copy
                       (\<lambda>_. jassign (onCopyDoneFn fns COMPLETED None))) st
            | None \<Rightarrow> jbind (transfer b pb (min rem prem)) (\<lambda>_. jbind notify_pending_copy
                       (\<lambda>_. jassign (onCopyDoneFn fns COMPLETED None))) st)
         else (Inr (), onCopyDoneFn fns COMPLETED None st))"

text \<open>The two buffers agree on a string encoding before values are lifted.\<close>

definition agree_encoding :: "nat \<Rightarrow> nat \<Rightarrow> unit sop" where
  "agree_encoding pb b st =
     (let pe = stringEncoding (buf_meta pb st); be = stringEncoding (buf_meta b st) in
      if be = None \<or> pe = None then
        (case (if pe = None then be else pe) of
           None \<Rightarrow> (Inl (Err ''both writer & reader missing string encoding''), st)
         | Some enc \<Rightarrow> (Inr (), set_encoding pb (Some enc) (set_encoding b (Some enc) st)))
      else (Inr (), st))"

definition read_met :: "nat \<Rightarrow> nat \<Rightarrow> copy_fns \<Rightarrow> int \<Rightarrow> int option \<Rightarrow> unit sop" where
  "read_met pb b fns cidx rejectLength st =
     (let prem = remaining (load_buffer pb st); rem = remaining (load_buffer b st) in
      if same_component_values pb b st
      then (Inl (Err ''trap: cannot stream non-numeric types within the same component''), st)
      else if 0 < prem then
        (if (case rejectLength of None \<Rightarrow> False | Some l \<Rightarrow> l < prem)
         then (Inr (), onCopyDoneFn fns DROPPED (Some prem) (resetAndNotifyPending DROPPED st))
         else if 0 < rem
         then jbind (transfer pb b (min prem rem)) (\<lambda>_. jbind notify_pending_copy
                (\<lambda>_. jassign (onCopyDoneFn fns COMPLETED None))) st
         else (Inr (), onCopyDoneFn fns COMPLETED None st))
      else (Inr (), setPendingBufferMeta (Some cidx) (Some b) (Some fns) (Some fns) rejectLength
                      (resetAndNotifyPending COMPLETED st)))"

definition read_op :: "nat \<Rightarrow> copy_fns \<Rightarrow> int \<Rightarrow> int option \<Rightarrow> unit sop" where
  "read_op b fns cidx rejectLength st =
     (if st_dropped st then (Inr (), onCopyDoneFn fns DROPPED None st)
      else case pm_buffer (st_pending st) of
        None \<Rightarrow> (Inr (), setPendingBufferMeta (Some cidx) (Some b) (Some fns) (Some fns) rejectLength st)
      | Some pb \<Rightarrow>
         if payloadTypeName (buf_meta pb st) \<noteq> payloadTypeName (buf_meta b st)
         then (Inl (Err ''trap: stream end type does not match internal buffer''), st)
         else jbind (agree_encoding pb b) (\<lambda>_. read_met pb b fns cidx rejectLength) st)"

fun rw_op :: "side \<Rightarrow> nat \<Rightarrow> copy_fns \<Rightarrow> int \<Rightarrow> int option \<Rightarrow> unit sop" where
  "rw_op Readable b fns cidx rejectLength = read_op b fns cidx rejectLength"
| "rw_op Writable b fns cidx rejectLength = write_op b fns cidx"

definition ASYNC_BLOCKED_CODE :: int where
  "ASYNC_BLOCKED_CODE = 0xFFFFFFFF"

text \<open>What \<open>copy\<close> does when it is called: it returns a value, or suspends its task until the end has a
  pending event and then goes on with \<open>copy_finish\<close>.\<close>

datatype copy_outcome = Returned int | Suspended

definition copy_finish :: "side \<Rightarrow> int \<Rightarrow> int sop" where
  "copy_finish s eventCode =
     jbind (getPendingEvent s) (\<lambda>ev.
       case ev of
         None \<Rightarrow> jthrow (Err ''unexpectedly missing pending event'')
       | Some e \<Rightarrow> (\<lambda>st.
           if sv_code e \<noteq> eventCode \<or> sv_payload0 e \<noteq> se_waitableIdx (get_end s st) \<or> sv_payload1 e = ASYNC_BLOCKED_CODE
           then (Inl (Err ''invalid event code/event during stream operation''), st)
           else (Inr (sv_payload1 e),
             if sv_rejectedLength e = None then st
             else upd_end s (\<lambda>x. x\<lparr>se_rejectedLength := sv_rejectedLength e\<rparr>) st)))"

definition take_encoding :: "copy_args \<Rightarrow> unit sop" where
  "take_encoding a st =
     (case (stringEncoding (st_elemMeta st), ca_stringEncoding a) of
        (None, enc) \<Rightarrow> (Inr (), if enc = None then st else st\<lparr>st_elemMeta := (st_elemMeta st)\<lparr>stringEncoding := enc\<rparr>\<rparr>)
      | (Some old, Some enc) \<Rightarrow>
          if old \<noteq> enc then (Inl (Err ''inconsistent string encoding''), st) else (Inr (), st)
      | (Some old, None) \<Rightarrow> (Inr (), st))"

definition copy_dropped :: "side \<Rightarrow> stream \<Rightarrow> stream" where
  "copy_dropped s st =
     setCopyState s DONE
       (case pm_onCopyDoneFn (st_pending st) of
          None \<Rightarrow> st
        | Some f \<Rightarrow> onCopyDoneFn f DROPPED None (st\<lparr>st_pending := (st_pending st)\<lparr>pm_onCopyDoneFn := None\<rparr>\<rparr>))"

definition copy_rest :: "side \<Rightarrow> copy_args \<Rightarrow> copy_outcome sop" where
  "copy_rest s a st =
     (if hasPendingEvent s st then jbind (copy_finish s (ca_eventCode a)) (\<lambda>p. jret (Returned p)) st
      else if ca_isAsync a then (Inr (Returned ASYNC_BLOCKED_CODE), setCopyState s ASYNC_COPYING st)
      else if \<not> ca_hasTask a then (Inl (Err ''missing task meta''), setCopyState s SYNC_COPYING st)
      else (Inr Suspended, setCopyState s SYNC_COPYING st))"

definition copy :: "side \<Rightarrow> copy_args \<Rightarrow> copy_outcome sop" where
  "copy s a =
     jbind (take_encoding a) (\<lambda>_ st.
       if st_dropped st then (Inr (Returned (result_code DROPPED)), copy_dropped s st)
       else jbind (setupCopy s a) (\<lambda>(b, fns).
         jbind (rw_op s b fns (ca_componentIdx a) (ca_rejectLength a)) (\<lambda>_. copy_rest s a)) st)"

section \<open>Cancelling and dropping\<close>

definition processed_some :: "stream \<Rightarrow> bool" where
  "processed_some st = (case pm_buffer (st_pending st) of None \<Rightarrow> False | Some b \<Rightarrow> 0 < mb_processed (load_buffer b st))"

definition cancel_end :: "side \<Rightarrow> stream \<Rightarrow> stream" where
  "cancel_end s st =
     (if st_dropped st then st
      else resetAndNotifyPending (if processed_some st then COMPLETED else CANCELLED) st)"

text \<open>The waitable of a dropped end leaves its set; a waitable with a pending event cannot be dropped.\<close>

definition drop_end :: "side \<Rightarrow> unit sop" where
  "drop_end s st =
     (if st_dropped st then (Inr (), st)
      else if hasPendingEvent s st then (Inl (Err ''waitables with pending events cannot be dropped''), st)
      else
        let st1 = (upd_end s (\<lambda>e. e\<lparr>se_inSet := False\<rparr>) st)\<lparr>st_dropped := True\<rparr> in
        (Inr (), resetAndNotifyPending (if processed_some st1 then COMPLETED else DROPPED) st1))"

text \<open>\<open>streamCancelRead\<close> and \<open>streamCancelWrite\<close> on the end they found, up to the suspension of a
  synchronous call and after it.\<close>

definition cancel_finish :: "side \<Rightarrow> int \<Rightarrow> int sop" where
  "cancel_finish s eventCode =
     jbind (getPendingEvent s) (\<lambda>ev.
       case ev of
         None \<Rightarrow> jthrow (TypeErr ''Cannot destructure property of null'')
       | Some e \<Rightarrow> (\<lambda>st.
           if isCopying (get_end s st) then (Inl (Err ''stream end is still in copying state''), st)
           else if sv_code e \<noteq> eventCode then (Inl (Err ''unexpected event code''), st)
           else if sv_payload0 e \<noteq> se_waitableIdx (get_end s st) then (Inl (Err ''event index does not match stream end''), st)
           else (Inr (sv_payload1 e), st)))"

definition streamCancel :: "side \<Rightarrow> bool \<Rightarrow> bool \<Rightarrow> int \<Rightarrow> copy_outcome sop" where
  "streamCancel s isAsync hasTask eventCode st =
     (if \<not> isCopying (get_end s st) then (Inl (Err ''stream end is not copying, cannot cancel''), st)
      else
        let st1 = setCopyState s CANCELLING_COPY st;
            st2 = (if hasPendingEvent s st1 then st1 else cancel_end s st1)
        in if hasPendingEvent s st2 then jbind (cancel_finish s eventCode) (\<lambda>p. jret (Returned p)) st2
           else if isAsync then (Inr (Returned ASYNC_BLOCKED_CODE), st2)
           else if \<not> hasTask then (Inl (Err ''missing current task metadata''), st2)
           else (Inr Suspended, st2))"

section \<open>Sequences of operations\<close>

text \<open>What the host, the guests and the waitable sets do to a stream: the host adds buffers, an end copies,
  resumes after a suspension, cancels, drops, has its event taken, or joins or leaves a set.\<close>

datatype stream_command =
    Add_Buffer stored_buffer
  | Copy side copy_args
  | Copy_Resume side int
  | Take_Event side
  | Cancel side bool bool int
  | Cancel_Resume side int
  | Drop_End side
  | Join_Set side bool
  | Guest_Store nat mem

fun stream_step :: "stream_command \<Rightarrow> stream \<Rightarrow> stream" where
  "stream_step (Add_Buffer b) st = st\<lparr>st_buffers := st_buffers st @ [b]\<rparr>"
| "stream_step (Copy s a) st = snd (copy s a st)"
| "stream_step (Copy_Resume s ec) st = snd (copy_finish s ec st)"
| "stream_step (Take_Event s) st = snd (getPendingEvent s st)"
| "stream_step (Cancel s isAsync hasTask ec) st = snd (streamCancel s isAsync hasTask ec st)"
| "stream_step (Cancel_Resume s ec) st = snd (cancel_finish s ec st)"
| "stream_step (Drop_End s) st = snd (drop_end s st)"
| "stream_step (Join_Set s b) st = upd_end s (\<lambda>e. e\<lparr>se_inSet := b\<rparr>) st"
| "stream_step (Guest_Store k m) st = st\<lparr>st_mems := (st_mems st)[k := m]\<rparr>"

section \<open>The protocol of the two ends\<close>

text \<open>The part of the state that the protocol is about: everything but buffers and memories.\<close>

definition protocol :: "stream \<Rightarrow> stream_end \<times> stream_end \<times> bool \<times> pending_meta" where
  "protocol st = (st_read st, st_write st, st_dropped st, st_pending st)"

definition blocked :: "side \<Rightarrow> stream \<Rightarrow> bool" where
  "blocked s st \<longleftrightarrow> isCopying (get_end s st) \<and> \<not> hasPendingEvent s st"

definition owner :: "stream \<Rightarrow> side option" where
  "owner st = (if pm_buffer (st_pending st) = None then None else map_option cf_side (pm_onCopyDoneFn (st_pending st)))"

definition end_ok :: "side \<Rightarrow> stream \<Rightarrow> bool" where
  "end_ok s st \<longleftrightarrow>
     (blocked s st \<longrightarrow> owner st = Some s) \<and>
     (owner st = Some s \<longrightarrow> isCopying (get_end s st)) \<and>
     (se_copyState (get_end s st) = IDLE \<longrightarrow> \<not> hasPendingEvent s st) \<and>
     (\<forall>ef. se_pendingEventFn (get_end s st) = Some ef \<longrightarrow>
        cf_side (ef_fns ef) = s \<and> (ef_reclaim ef \<longleftrightarrow> owner st = Some s))"

definition pending_ok :: "stream \<Rightarrow> bool" where
  "pending_ok st \<longleftrightarrow>
     (case pm_buffer (st_pending st) of
        None \<Rightarrow> st_pending st = no_pending
      | Some b \<Rightarrow> \<not> st_dropped st \<and> (\<exists>f. pm_onCopyFn (st_pending st) = Some f \<and> pm_onCopyDoneFn (st_pending st) = Some f))"

definition stream_ok :: "stream \<Rightarrow> bool" where
  "stream_ok st \<longleftrightarrow> end_ok Readable st \<and> end_ok Writable st \<and> pending_ok st"

lemma get_upd_end [simp]:
  "get_end s (upd_end t f st) = (if s = t then f (get_end s st) else get_end s st)"
  "st_dropped (upd_end t f st) = st_dropped st" "st_pending (upd_end t f st) = st_pending st"
  "st_elemMeta (upd_end t f st) = st_elemMeta st" "st_buffers (upd_end t f st) = st_buffers st"
  "st_mems (upd_end t f st) = st_mems st"
  by (cases s; cases t; simp)+

lemma get_end_upd [simp]:
  "get_end s (st\<lparr>st_pending := p\<rparr>) = get_end s st" "get_end s (st\<lparr>st_dropped := d\<rparr>) = get_end s st"
  "get_end s (st\<lparr>st_elemMeta := em\<rparr>) = get_end s st" "get_end s (st\<lparr>st_buffers := bs\<rparr>) = get_end s st"
  "get_end s (st\<lparr>st_mems := ms\<rparr>) = get_end s st"
  by (cases s; simp)+

lemma other_side_simps [simp]: "other_side s \<noteq> s" "s \<noteq> other_side s" "other_side (other_side s) = s"
  by (cases s; simp)+

lemma side_other: "t \<noteq> s \<longleftrightarrow> t = other_side s"
  by (cases s; cases t; simp)

lemma stream_ok_iff: "stream_ok st \<longleftrightarrow> end_ok s st \<and> end_ok (other_side s) st \<and> pending_ok st"
  by (cases s) (auto simp: stream_ok_def)

lemma protocol_fields:
  assumes "protocol st' = protocol st"
  shows "get_end s st' = get_end s st" "st_dropped st' = st_dropped st" "st_pending st' = st_pending st"
proof -
  have f: "st_read st' = st_read st" "st_write st' = st_write st" "st_dropped st' = st_dropped st" "st_pending st' = st_pending st"
    using assms by (simp_all add: protocol_def)
  then show "get_end s st' = get_end s st" by (cases s) simp_all
  show "st_dropped st' = st_dropped st" "st_pending st' = st_pending st" using f by simp_all
qed

lemma stream_ok_protocol:
  assumes "protocol st' = protocol st"
  shows "stream_ok st' = stream_ok st"
  unfolding stream_ok_def end_ok_def pending_ok_def blocked_def owner_def hasPendingEvent_def protocol_fields [OF assms] ..

lemma protocol_upd [simp]:
  "protocol (st\<lparr>st_elemMeta := em\<rparr>) = protocol st" "protocol (st\<lparr>st_buffers := bs\<rparr>) = protocol st"
  "protocol (st\<lparr>st_mems := ms\<rparr>) = protocol st"
  by (simp_all add: protocol_def)

lemma protocol_store [simp]: "protocol (store_buffer i b st) = protocol st"
  by (simp add: protocol_def store_buffer_def Let_def)

lemma protocol_set_encoding [simp]: "protocol (set_encoding i enc st) = protocol st"
  by (simp add: set_encoding_def)

lemma protocol_on_buffer [simp]: "protocol (snd (on_buffer i op st)) = protocol st"
  by (simp add: on_buffer_def split: prod.split)

lemma protocol_bind:
  "(\<And>st. protocol (snd (m st)) = protocol st) \<Longrightarrow> (\<And>a st. protocol (snd (f a st)) = protocol st) \<Longrightarrow>
   protocol (snd (jbind m f st)) = protocol st"
  by (simp add: jbind_def split: prod.split sum.split) (metis snd_conv)

lemma protocol_transfer [simp]: "protocol (snd (transfer src dst n st)) = protocol st"
  unfolding transfer_def by (intro protocol_bind) simp_all

lemma protocol_agree_encoding: "protocol (snd (agree_encoding pb b st)) = protocol st"
  by (auto simp: agree_encoding_def Let_def split: option.splits)

lemmas protocol_defs = stream_ok_def end_ok_def pending_ok_def blocked_def owner_def hasPendingEvent_def
  isCopying_def setCopyState_def setPendingEvent_def onCopyFn_def onCopyDoneFn_def resetPendingBufferMeta_def
  setPendingBufferMeta_def no_pending_def

text \<open>A copy that has met its partner or is registered, before its own state is set.\<close>

definition joined :: "side \<Rightarrow> stream \<Rightarrow> bool" where
  "joined s st \<longleftrightarrow> se_copyState (get_end s st) = IDLE \<and> stream_ok (setCopyState s ASYNC_COPYING st)"

lemma pending_fns:
  assumes "stream_ok st" "pm_buffer (st_pending st) = Some b"
  obtains f where "pm_onCopyFn (st_pending st) = Some f" "pm_onCopyDoneFn (st_pending st) = Some f"
    "owner st = Some (cf_side f)" "isCopying (get_end (cf_side f) st)" "\<not> st_dropped st"
proof -
  from assms obtain f where f: "pm_onCopyFn (st_pending st) = Some f" "pm_onCopyDoneFn (st_pending st) = Some f" "\<not> st_dropped st"
    by (auto simp: stream_ok_def pending_ok_def)
  then have o: "owner st = Some (cf_side f)" using assms(2) by (simp add: owner_def)
  moreover have "isCopying (get_end (cf_side f) st)"
    using assms(1) o unfolding stream_ok_iff [of st "cf_side f"] end_ok_def by blast
  ultimately show ?thesis using that f by blast
qed

lemma owner_other:
  assumes "stream_ok st" "se_copyState (get_end s st) = IDLE" "pm_buffer (st_pending st) = Some b"
    "pm_onCopyDoneFn (st_pending st) = Some f"
  shows "cf_side f = other_side s"
proof -
  from pending_fns [OF assms(1,3)] assms(4) have "isCopying (get_end (cf_side f) st)" by auto
  then show ?thesis using assms(2) by (cases s; cases "cf_side f") (auto simp: isCopying_def)
qed

lemma owner_upd [simp]: "owner (upd_end t g st) = owner st"
  by (simp add: owner_def)

lemma pending_ok_upd [simp]: "pending_ok (upd_end t g st) = pending_ok st"
  unfolding pending_ok_def get_upd_end ..

lemma pending_ok_none: "st_pending st = no_pending \<Longrightarrow> pending_ok st"
  by (simp add: pending_ok_def no_pending_def)

lemma stream_okI: "end_ok s st \<Longrightarrow> end_ok (other_side s) st \<Longrightarrow> pending_ok st \<Longrightarrow> stream_ok st"
  by (simp add: stream_ok_iff [of st s])

lemmas end_defs = end_ok_def blocked_def hasPendingEvent_def isCopying_def

lemma idle_not_owner:
  assumes "stream_ok st" "se_copyState (get_end s st) = IDLE"
  shows "owner st \<noteq> Some s" "se_pendingEventFn (get_end s st) = None"
  using assms by (auto simp: stream_ok_iff [of st s] end_defs)

lemma joined_done:
  assumes "stream_ok st" "se_copyState (get_end s st) = IDLE" "cf_side f = s"
  shows "joined s (onCopyDoneFn f r rej st)"
proof -
  let ?st = "setCopyState s ASYNC_COPYING (onCopyDoneFn f r rej st)"
  have r: "end_ok (other_side s) st" "pending_ok st" using assms(1) by (simp_all add: stream_ok_iff [of st s])
  have "end_ok s ?st"
    using idle_not_owner [OF assms(1,2)] assms(3)
    by (simp add: end_defs setCopyState_def onCopyDoneFn_def setPendingEvent_def)
  moreover have "end_ok (other_side s) ?st"
    using r(1) assms(3) by (simp add: end_defs setCopyState_def onCopyDoneFn_def setPendingEvent_def)
  moreover have "pending_ok ?st"
    using r(2) by (simp add: setCopyState_def onCopyDoneFn_def setPendingEvent_def)
  ultimately have "stream_ok ?st" by (rule stream_okI)
  then show ?thesis using assms(2) by (auto simp: joined_def onCopyDoneFn_def setPendingEvent_def)
qed

lemma joined_register:
  assumes "stream_ok st" "se_copyState (get_end s st) = IDLE" "cf_side f = s" "pm_buffer (st_pending st) = None" "\<not> st_dropped st"
  shows "joined s (setPendingBufferMeta (Some c) (Some b) (Some f) (Some f) l st)"
proof -
  let ?st = "setCopyState s ASYNC_COPYING (setPendingBufferMeta (Some c) (Some b) (Some f) (Some f) l st)"
  have o: "owner st = None" "owner ?st = Some s"
    using assms(3,4) by (simp_all add: owner_def setPendingBufferMeta_def setCopyState_def)
  have g: "get_end t ?st = (if t = s then (get_end s st)\<lparr>se_copyState := ASYNC_COPYING\<rparr> else get_end t st)" for t
    by (simp add: setPendingBufferMeta_def setCopyState_def)
  have "end_ok s ?st" using idle_not_owner [OF assms(1,2)] o g by (simp add: end_defs)
  moreover have "end_ok (other_side s) ?st"
    using assms(1) o g unfolding stream_ok_iff [of st s] by (simp add: end_defs)
  moreover have "pending_ok ?st" using assms(5) by (simp add: pending_ok_def setPendingBufferMeta_def setCopyState_def)
  ultimately have "stream_ok ?st" by (rule stream_okI)
  then show ?thesis using assms(2) by (simp add: joined_def setPendingBufferMeta_def)
qed

lemma notify_reset_ok:
  assumes "stream_ok st" "pm_buffer (st_pending st) = Some b" "pm_onCopyDoneFn (st_pending st) = Some f"
  shows "stream_ok (onCopyDoneFn f r rej (resetPendingBufferMeta st))"
proof -
  let ?t = "cf_side f"
  let ?st = "onCopyDoneFn f r rej (resetPendingBufferMeta st)"
  from pending_fns [OF assms(1,2)] assms(3) have f: "owner st = Some ?t" "isCopying (get_end ?t st)" by auto
  have o: "owner ?st = None" by (simp add: owner_def onCopyDoneFn_def setPendingEvent_def resetPendingBufferMeta_def no_pending_def)
  have g: "get_end s ?st = (if s = ?t
      then (get_end s st)\<lparr>se_pendingEventFn := Some \<lparr>ef_fns = f, ef_result = r, ef_reclaim = False, ef_rejectedLength = rej\<rparr>\<rparr>
      else get_end s st)" for s
    by (simp add: onCopyDoneFn_def setPendingEvent_def resetPendingBufferMeta_def)
  have "end_ok ?t ?st" using f(2) o g by (auto simp: end_defs)
  moreover have "end_ok (other_side ?t) ?st"
    using assms(1) f o g unfolding stream_ok_iff [of st ?t] by (simp add: end_defs)
  moreover have "pending_ok ?st"
    by (simp add: pending_ok_def onCopyDoneFn_def setPendingEvent_def resetPendingBufferMeta_def no_pending_def)
  ultimately show ?thesis by (rule stream_okI)
qed

lemma resetAndNotify_ok:
  assumes "stream_ok st"
  shows "stream_ok (resetAndNotifyPending r st)" "pm_buffer (st_pending (resetAndNotifyPending r st)) = None"
    "st_dropped (resetAndNotifyPending r st) = st_dropped st"
    "get_end s (resetAndNotifyPending r st) = get_end s st \<or>
     (\<exists>b f. pm_buffer (st_pending st) = Some b \<and> pm_onCopyDoneFn (st_pending st) = Some f \<and> cf_side f = s)"
proof -
  show "stream_ok (resetAndNotifyPending r st)"
  proof (cases "pm_buffer (st_pending st)")
    case None
    then have "st_pending st = no_pending" using assms by (simp add: stream_ok_def pending_ok_def)
    then have "resetAndNotifyPending r st = st"
      by (simp add: resetAndNotifyPending_def resetPendingBufferMeta_def no_pending_def)
    then show ?thesis using assms by simp
  next
    case (Some b)
    from pending_fns [OF assms this] obtain f where "pm_onCopyDoneFn (st_pending st) = Some f" by blast
    with notify_reset_ok [OF assms Some this] show ?thesis by (simp add: resetAndNotifyPending_def)
  qed
  show "pm_buffer (st_pending (resetAndNotifyPending r st)) = None" "st_dropped (resetAndNotifyPending r st) = st_dropped st"
    by (simp_all add: resetAndNotifyPending_def onCopyDoneFn_def setPendingEvent_def resetPendingBufferMeta_def no_pending_def
      split: option.split)
  show "get_end s (resetAndNotifyPending r st) = get_end s st \<or>
     (\<exists>b f. pm_buffer (st_pending st) = Some b \<and> pm_onCopyDoneFn (st_pending st) = Some f \<and> cf_side f = s)"
  proof (cases "pm_buffer (st_pending st)")
    case None
    then have "st_pending st = no_pending" using assms by (simp add: stream_ok_def pending_ok_def)
    then show ?thesis by (simp add: resetAndNotifyPending_def resetPendingBufferMeta_def no_pending_def)
  next
    case (Some b)
    from pending_fns [OF assms this] obtain f where "pm_onCopyDoneFn (st_pending st) = Some f" by blast
    then show ?thesis using Some
      by (auto simp: resetAndNotifyPending_def onCopyDoneFn_def setPendingEvent_def resetPendingBufferMeta_def)
  qed
qed

lemma set_event_ok:
  assumes "stream_ok st" "isCopying (get_end t st)" "cf_side (ef_fns ef) = t" "ef_reclaim ef \<longleftrightarrow> owner st = Some t"
  shows "stream_ok (setPendingEvent t ef st)"
proof -
  have t: "end_ok t st" "end_ok (other_side t) st" "pending_ok st"
    using assms(1) by (simp_all add: stream_ok_iff [of st t])
  have "end_ok t (setPendingEvent t ef st)"
    using assms t(1) by (auto simp: end_defs setPendingEvent_def)
  moreover have "end_ok (other_side t) (setPendingEvent t ef st)"
    using t(2) by (simp add: end_ok_def setPendingEvent_def blocked_def hasPendingEvent_def)
  moreover have "pending_ok (setPendingEvent t ef st)"
    using t(3) by (simp add: setPendingEvent_def)
  ultimately show ?thesis by (rule stream_okI)
qed

lemma notify_pending_copy_ok:
  assumes "stream_ok st"
  shows "stream_ok (snd (notify_pending_copy st))"
proof (cases "pm_buffer (st_pending st)")
  case None
  then have "st_pending st = no_pending" using assms by (simp add: stream_ok_def pending_ok_def)
  then show ?thesis using assms by (simp add: notify_pending_copy_def no_pending_def)
next
  case (Some b)
  from pending_fns [OF assms this] obtain f where
    f: "pm_onCopyFn (st_pending st) = Some f" "owner st = Some (cf_side f)" "isCopying (get_end (cf_side f) st)" by blast
  then have e: "snd (notify_pending_copy st) = onCopyFn f st" by (simp add: notify_pending_copy_def)
  show ?thesis unfolding e onCopyFn_def using assms f by (intro set_event_ok) simp_all
qed

lemma take_event_ok:
  assumes "stream_ok st"
  shows "stream_ok (snd (getPendingEvent s st))"
proof (cases "se_pendingEventFn (get_end s st)")
  case None
  then show ?thesis using assms by (simp add: getPendingEvent_def)
next
  case (Some ef)
  then have sd: "cf_side (ef_fns ef) = s" using assms unfolding stream_ok_iff [of st s] end_ok_def by blast
  let ?st0 = "upd_end s (\<lambda>e. e\<lparr>se_pendingEventFn := None\<rparr>) st"
  let ?st1 = "setCopyState s (if ef_result ef = DROPPED then DONE else IDLE)
    (if ef_reclaim ef then resetPendingBufferMeta ?st0 else ?st0)"
  have "snd (getPendingEvent s st) = ?st1"
    using Some sd by (simp add: getPendingEvent_def processFn_def jbind_def jret_def Let_def)
  moreover have "stream_ok ?st1"
  proof -
    have r: "end_ok s st" "end_ok (other_side s) st" "pending_ok st"
      using assms by (simp_all add: stream_ok_iff [of st s])
    have o: "owner ?st1 = (if ef_reclaim ef then None else owner st)"
      by (simp add: setCopyState_def owner_def resetPendingBufferMeta_def no_pending_def)
    have c: "ef_reclaim ef \<longleftrightarrow> owner st = Some s" using r(1) Some unfolding end_ok_def by blast
    have g: "get_end t ?st1 = (if t = s then (get_end s st)\<lparr>se_pendingEventFn := None,
        se_copyState := (if ef_result ef = DROPPED then DONE else IDLE)\<rparr> else get_end t st)" for t
      by (simp add: setCopyState_def resetPendingBufferMeta_def)
    have "end_ok s ?st1" using o c g by (auto simp: end_defs)
    moreover have "end_ok (other_side s) ?st1" using r(2) o c g by (auto simp: end_defs)
    moreover have "pending_ok ?st1" using r(3)
      by (cases "ef_reclaim ef") (simp_all add: setCopyState_def resetPendingBufferMeta_def pending_ok_none)
    ultimately show ?thesis by (rule stream_okI)
  qed
  ultimately show ?thesis by simp
qed

subsection \<open>Copies\<close>

text \<open>What a read or write step leaves: after an exception the protocol state is as consistent as before,
  otherwise the end has met its partner or is registered.\<close>

definition op_ok :: "side \<Rightarrow> js_error + unit \<Rightarrow> stream \<Rightarrow> bool" where
  "op_ok s r st = (case r of Inl _ \<Rightarrow> stream_ok st | Inr _ \<Rightarrow> joined s st)"

lemma joined_protocol:
  assumes "protocol st' = protocol st"
  shows "joined s st' = joined s st"
proof -
  have "protocol (setCopyState s ASYNC_COPYING st') = protocol (setCopyState s ASYNC_COPYING st)"
    using assms by (cases s) (simp_all add: protocol_def setCopyState_def)
  from stream_ok_protocol [OF this] show ?thesis unfolding joined_def protocol_fields(1) [OF assms] by simp
qed

lemma idle_protocol: "protocol st' = protocol st \<Longrightarrow> se_copyState (get_end s st') = se_copyState (get_end s st)"
  by (drule protocol_fields(1) [where s = s]) simp

lemma notify_pending_copy_end:
  assumes "stream_ok st" "se_copyState (get_end s st) = IDLE"
  shows "se_copyState (get_end s (snd (notify_pending_copy st))) = IDLE"
  using assms(2) by (auto simp: notify_pending_copy_def onCopyFn_def setPendingEvent_def split: option.split)

lemma transfer_notify_done:
  assumes "stream_ok st" "se_copyState (get_end s st) = IDLE" "cf_side f = s"
    "jbind (transfer src dst n) (\<lambda>_. jbind notify_pending_copy (\<lambda>_. jassign (onCopyDoneFn f res rej))) st = (r, st')"
  shows "op_ok s r st'"
proof -
  obtain r1 st1 where t: "transfer src dst n st = (r1, st1)" by fastforce
  then have p: "protocol st1 = protocol st" using protocol_transfer [of src dst n st] by simp
  then have ok: "stream_ok st1" "se_copyState (get_end s st1) = IDLE"
    using assms(1,2) stream_ok_protocol [OF p] idle_protocol [OF p, of s] by simp_all
  obtain r2 st2 where n: "notify_pending_copy st1 = (r2, st2)" by fastforce
  then have ok2: "stream_ok st2" "se_copyState (get_end s st2) = IDLE"
    using notify_pending_copy_ok [OF ok(1)] notify_pending_copy_end [OF ok] by simp_all
  show ?thesis
    using assms(4) t n ok(1) ok2 joined_done [OF ok2 assms(3)]
    by (cases r1; cases r2) (auto simp: jbind_def jassign_def op_ok_def)
qed

lemma reset_notify_register:
  assumes "stream_ok st" "se_copyState (get_end s st) = IDLE" "cf_side f = s" "\<not> st_dropped st"
  shows "joined s (setPendingBufferMeta (Some c) (Some b) (Some f) (Some f) l (resetAndNotifyPending r st))"
proof -
  note k = resetAndNotify_ok [OF assms(1), where r = r]
  have "get_end s (resetAndNotifyPending r st) = get_end s st"
    using k(4) [of s] owner_other [OF assms(1,2)] by fastforce
  then show ?thesis using k(1-3) assms by (intro joined_register) simp_all
qed

lemma reset_notify_done:
  assumes "stream_ok st" "se_copyState (get_end s st) = IDLE" "cf_side f = s"
  shows "joined s (onCopyDoneFn f res rej (resetAndNotifyPending r st))"
proof -
  note k = resetAndNotify_ok [OF assms(1), where r = r]
  have "get_end s (resetAndNotifyPending r st) = get_end s st"
    using k(4) [of s] owner_other [OF assms(1,2)] by fastforce
  then show ?thesis using k(1) assms by (intro joined_done) simp_all
qed

lemma write_op_ok:
  assumes "stream_ok st" "se_copyState (get_end Writable st) = IDLE" "cf_side f = Writable" "write_op b f c st = (r, st')"
  shows "op_ok Writable r st'"
proof -
  let ?go = "\<lambda>pb. jbind (transfer b pb (min (remaining (load_buffer b st)) (remaining (load_buffer pb st))))
      (\<lambda>_. jbind notify_pending_copy (\<lambda>_. jassign (onCopyDoneFn f COMPLETED None))) st"
  have go: "op_ok Writable r st'" if "?go pb = (r, st')" for pb
    by (rule transfer_notify_done [OF assms(1-3) that])
  have fin: "joined Writable (onCopyDoneFn f res rej st)" for res rej
    by (rule joined_done [OF assms(1-3)])
  show ?thesis
  proof (cases "st_dropped st")
    case True
    then show ?thesis using assms(4) fin by (auto simp: write_op_def op_ok_def)
  next
    case nd: False
    show ?thesis
    proof (cases "pm_buffer (st_pending st)")
      case None
      then show ?thesis using assms(4) nd joined_register [OF assms(1-3) None nd]
        by (auto simp: write_op_def op_ok_def Let_def)
    next
      case (Some pb)
      from pending_fns [OF assms(1) Some] obtain g where g: "pm_onCopyDoneFn (st_pending st) = Some g" by blast
      have rej: "joined Writable (onCopyDoneFn f DROPPED None (onCopyDoneFn g DROPPED l (resetPendingBufferMeta st)))" for l
      proof (rule joined_done [OF notify_reset_ok [OF assms(1) Some g] _ assms(3)])
        show "se_copyState (get_end Writable (onCopyDoneFn g DROPPED l (resetPendingBufferMeta st))) = IDLE"
          using assms(2) by (simp add: onCopyDoneFn_def setPendingEvent_def resetPendingBufferMeta_def)
      qed
      show ?thesis
        using assms(4) nd Some g rej fin go [of pb] assms(1) reset_notify_register [OF assms(1-3) nd]
        by (auto simp: write_op_def Let_def op_ok_def [where r = "Inl e" for e] op_ok_def [where r = "Inr e" for e]
          split: if_splits option.splits)
    qed
  qed
qed

lemma read_met_ok:
  assumes "stream_ok st" "se_copyState (get_end Readable st) = IDLE" "cf_side f = Readable" "\<not> st_dropped st"
    "read_met pb b f c l st = (r, st')"
  shows "op_ok Readable r st'"
proof -
  let ?go = "jbind (transfer pb b (min (remaining (load_buffer pb st)) (remaining (load_buffer b st))))
      (\<lambda>_. jbind notify_pending_copy (\<lambda>_. jassign (onCopyDoneFn f COMPLETED None))) st"
  have go: "op_ok Readable r st'" if "?go = (r, st')"
    by (rule transfer_notify_done [OF assms(1-3) that])
  show ?thesis
    using assms(5) go assms(1) joined_done [OF assms(1-3)] reset_notify_done [OF assms(1-3)]
      reset_notify_register [OF assms(1-4)]
    by (auto simp: read_met_def Let_def op_ok_def [where r = "Inl e" for e] op_ok_def [where r = "Inr e" for e]
      split: if_splits option.splits)
qed

lemma read_op_ok:
  assumes "stream_ok st" "se_copyState (get_end Readable st) = IDLE" "cf_side f = Readable" "read_op b f c l st = (r, st')"
  shows "op_ok Readable r st'"
proof (cases "st_dropped st")
  case True
  then show ?thesis using assms(4) joined_done [OF assms(1-3)] by (auto simp: read_op_def op_ok_def)
next
  case nd: False
  show ?thesis
  proof (cases "pm_buffer (st_pending st)")
    case None
    then show ?thesis using assms(4) nd joined_register [OF assms(1-3) None nd]
      by (auto simp: read_op_def op_ok_def)
  next
    case (Some pb)
    obtain r1 st1 where e: "agree_encoding pb b st = (r1, st1)" by fastforce
    then have p: "protocol st1 = protocol st" using protocol_agree_encoding [of pb b st] by simp
    have ok: "stream_ok st1" "se_copyState (get_end Readable st1) = IDLE" "\<not> st_dropped st1"
      using assms(1,2) nd stream_ok_protocol [OF p] idle_protocol [OF p, of Readable] protocol_fields(2) [OF p] by simp_all
    have met: "op_ok Readable r st'" if "read_met pb b f c l st1 = (r, st')"
      by (rule read_met_ok [OF ok(1,2) assms(3) ok(3) that])
    show ?thesis
      using assms(4) nd Some e ok(1) met assms(1)
      by (cases r1) (auto simp: read_op_def jbind_def op_ok_def [where r = "Inl e" for e] split: if_splits)
  qed
qed

lemma rw_op_ok:
  assumes "stream_ok st" "se_copyState (get_end s st) = IDLE" "cf_side f = s" "rw_op s b f c l st = (r, st')"
  shows "op_ok s r st'"
  using assms by (cases s) (auto intro: read_op_ok write_op_ok)

text \<open>The state that a copy sets does not matter when its event is taken.\<close>

lemma setCopyState_twice [simp]: "setCopyState s x (setCopyState s y st) = setCopyState s x st"
  by (cases s) (simp_all add: setCopyState_def)

lemma take_after_set:
  assumes "stream_ok (setCopyState s cs st)" "hasPendingEvent s st"
  shows "snd (getPendingEvent s (setCopyState s cs st)) = snd (getPendingEvent s st)"
proof -
  from assms(2) obtain ef where ef: "se_pendingEventFn (get_end s st) = Some ef" by (auto simp: hasPendingEvent_def)
  have ef': "se_pendingEventFn (get_end s (setCopyState s cs st)) = Some ef" using ef by (simp add: setCopyState_def)
  have sd: "cf_side (ef_fns ef) = s"
    using assms(1) ef' unfolding stream_ok_iff [of "setCopyState s cs st" s] end_ok_def by blast
  have "setCopyState s x (upd_end s (\<lambda>e. e\<lparr>se_pendingEventFn := None\<rparr>) (setCopyState s cs st)) =
      setCopyState s x (upd_end s (\<lambda>e. e\<lparr>se_pendingEventFn := None\<rparr>) st)"
    "setCopyState s x (resetPendingBufferMeta (upd_end s (\<lambda>e. e\<lparr>se_pendingEventFn := None\<rparr>) (setCopyState s cs st))) =
      setCopyState s x (resetPendingBufferMeta (upd_end s (\<lambda>e. e\<lparr>se_pendingEventFn := None\<rparr>) st))" for x
    by (cases s; simp add: setCopyState_def resetPendingBufferMeta_def)+
  then show ?thesis using ef ef' sd
    by (simp add: getPendingEvent_def processFn_def jbind_def jret_def Let_def)
qed

lemma protocol_rejected: "stream_ok (upd_end s (\<lambda>x. x\<lparr>se_rejectedLength := l\<rparr>) st) = stream_ok st"
proof -
  have "end_ok t (upd_end s (\<lambda>x. x\<lparr>se_rejectedLength := l\<rparr>) st) = end_ok t st" for t
    by (simp add: end_defs)
  then show ?thesis by (simp add: stream_ok_def)
qed

lemma copy_finish_state:
  "snd (copy_finish s ec st) = snd (getPendingEvent s st) \<or>
   (\<exists>l. snd (copy_finish s ec st) = upd_end s (\<lambda>x. x\<lparr>se_rejectedLength := l\<rparr>) (snd (getPendingEvent s st)))"
  by (auto simp: copy_finish_def jbind_def jthrow_def split: prod.split sum.split option.split)

lemma cancel_finish_state: "snd (cancel_finish s ec st) = snd (getPendingEvent s st)"
  by (auto simp: cancel_finish_def jbind_def jthrow_def split: prod.split sum.split option.split)

lemma finish_ok:
  assumes "stream_ok st"
  shows "stream_ok (snd (copy_finish s ec st))" "stream_ok (snd (cancel_finish s ec st))"
  using take_event_ok [OF assms, of s] copy_finish_state [of s ec st] cancel_finish_state [of s ec st]
  by (auto simp: protocol_rejected)

lemma set_copying_ok:
  assumes "stream_ok (setCopyState s ASYNC_COPYING st)" "cs \<in> {SYNC_COPYING, ASYNC_COPYING, CANCELLING_COPY}"
  shows "stream_ok (setCopyState s cs st)"
proof -
  have "end_ok t (setCopyState s cs st) = end_ok t (setCopyState s ASYNC_COPYING st)" for t
    using assms(2) by (auto simp: setCopyState_def end_defs)
  then show ?thesis using assms(1) by (simp add: stream_ok_def setCopyState_def)
qed

lemma copy_rest_ok: "joined s st \<Longrightarrow> stream_ok (snd (copy_rest s a st))"
proof -
  assume j: "joined s st"
  then have ok: "stream_ok (setCopyState s ASYNC_COPYING st)" by (simp add: joined_def)
  show ?thesis
  proof (cases "hasPendingEvent s st")
    case True
    have "stream_ok (snd (getPendingEvent s st))"
      using take_event_ok [OF ok, of s] take_after_set [OF ok True] by simp
    then have "stream_ok (snd (copy_finish s (ca_eventCode a) st))"
      using copy_finish_state [of s "ca_eventCode a" st] by (auto simp: protocol_rejected)
    with True show ?thesis
      by (auto simp: copy_rest_def jbind_def jret_def split: prod.splits sum.splits)
  next
    case False
    with ok set_copying_ok [OF ok, of SYNC_COPYING] show ?thesis by (simp add: copy_rest_def)
  qed
qed

lemma setupCopy_cases:
  assumes "setupCopy s a st = (r, st')"
  shows "protocol st' = protocol st"
    "r = Inr (b, f) \<Longrightarrow> cf_side f = s \<and> cf_buffer f = b \<and> se_copyState (get_end s st) = IDLE"
  using assms
  by (auto simp: setupCopy_def Let_def split: if_splits option.splits sum.splits)

lemma protocol_take_encoding: "protocol (snd (take_encoding a st)) = protocol st"
  by (simp add: take_encoding_def split: option.split)

lemma copy_dropped_ok:
  assumes "stream_ok st" "st_dropped st"
  shows "stream_ok (copy_dropped s st)"
proof -
  have p: "st_pending st = no_pending"
    using assms by (auto simp: stream_ok_def pending_ok_def split: option.splits)
  then have e: "copy_dropped s st = setCopyState s DONE st" by (simp add: copy_dropped_def no_pending_def)
  have o: "owner st = None" using p by (simp add: owner_def no_pending_def)
  have "end_ok s (setCopyState s DONE st)" "end_ok (other_side s) (setCopyState s DONE st)" "pending_ok (setCopyState s DONE st)"
    using assms(1) o unfolding stream_ok_iff [of st s] by (auto simp: end_defs setCopyState_def)
  then show ?thesis unfolding e by (rule stream_okI)
qed

lemma copy_ok:
  assumes "stream_ok st"
  shows "stream_ok (snd (copy s a st))"
proof -
  obtain r1 st1 where t: "take_encoding a st = (r1, st1)" by fastforce
  then have p1: "protocol st1 = protocol st" using protocol_take_encoding [of a st] by simp
  then have ok1: "stream_ok st1" using assms stream_ok_protocol by blast
  show ?thesis
  proof (cases "r1 = Inr () \<and> \<not> st_dropped st1")
    case False
    then show ?thesis using t ok1 copy_dropped_ok [OF ok1, of s]
      by (cases r1) (auto simp: copy_def jbind_def)
  next
    case nd: True
    obtain r2 st2 where u: "setupCopy s a st1 = (r2, st2)" by fastforce
    note sc = setupCopy_cases [OF u]
    have ok2: "stream_ok st2" using ok1 stream_ok_protocol [OF sc(1)] by simp
    show ?thesis
    proof (cases r2)
      case (Inl e)
      then show ?thesis using t u nd ok2 by (simp add: copy_def jbind_def)
    next
      case (Inr bf)
      obtain b f where bf: "bf = (b, f)" by fastforce
      with sc(2) Inr have f: "cf_side f = s" "se_copyState (get_end s st1) = IDLE" by auto
      then have idle: "se_copyState (get_end s st2) = IDLE" using idle_protocol [OF sc(1), of s] by simp
      obtain r3 st3 where w: "rw_op s b f (ca_componentIdx a) (ca_rejectLength a) st2 = (r3, st3)" by fastforce
      have "op_ok s r3 st3" by (rule rw_op_ok [OF ok2 idle f(1) w])
      moreover have "snd (copy s a st) = (case r3 of Inl e \<Rightarrow> st3 | Inr x \<Rightarrow> snd (copy_rest s a st3))"
        using t u w nd Inr bf by (simp add: copy_def jbind_def split: sum.split)
      ultimately show ?thesis by (cases r3) (auto simp: op_ok_def copy_rest_ok)
    qed
  qed
qed

subsection \<open>Cancelling, dropping, and every run\<close>

lemma cancel_end_ok: "stream_ok st \<Longrightarrow> stream_ok (cancel_end s st)"
  by (simp add: cancel_end_def resetAndNotify_ok)

lemma set_cancelling_ok:
  assumes "stream_ok st" "isCopying (get_end s st)"
  shows "stream_ok (setCopyState s CANCELLING_COPY st)"
proof -
  have "end_ok t (setCopyState s CANCELLING_COPY st)" if "end_ok t st" for t
    using that assms(2) by (auto simp: setCopyState_def end_defs)
  then show ?thesis using assms(1) by (simp add: stream_ok_def setCopyState_def)
qed

lemma streamCancel_ok:
  assumes "stream_ok st"
  shows "stream_ok (snd (streamCancel s isAsync hasTask ec st))"
proof (cases "isCopying (get_end s st)")
  case True
  let ?st1 = "setCopyState s CANCELLING_COPY st"
  let ?st2 = "if hasPendingEvent s ?st1 then ?st1 else cancel_end s ?st1"
  have ok: "stream_ok ?st2" using set_cancelling_ok [OF assms True] by (simp add: cancel_end_ok)
  then have "stream_ok (snd (cancel_finish s ec ?st2))" by (rule finish_ok)
  moreover have "snd (streamCancel s isAsync hasTask ec st) =
      (if hasPendingEvent s ?st2 then snd (cancel_finish s ec ?st2) else ?st2)"
    using True by (auto simp: streamCancel_def Let_def jbind_def jret_def split: prod.split sum.split)
  ultimately show ?thesis using ok by presburger
qed (simp add: streamCancel_def assms)

lemma drop_end_ok:
  assumes "stream_ok st"
  shows "stream_ok (snd (drop_end s st))"
proof (cases "st_dropped st \<or> hasPendingEvent s st")
  case True
  then show ?thesis using assms by (auto simp: drop_end_def)
next
  case False
  let ?st1 = "(upd_end s (\<lambda>e. e\<lparr>se_inSet := False\<rparr>) st)\<lparr>st_dropped := False\<rparr>"
  let ?r = "\<lambda>st1. if processed_some st1 then COMPLETED else DROPPED"
  have e: "end_ok t ?st1 = end_ok t st" for t by (simp add: end_defs owner_def)
  have "pending_ok ?st1 = pending_ok st" using False
    by (cases "pm_buffer (st_pending st)") (simp_all add: pending_ok_def)
  with e have ok: "stream_ok ?st1" using assms by (simp add: stream_ok_def)
  have r: "resetAndNotifyPending r (x\<lparr>st_dropped := True\<rparr>) = (resetAndNotifyPending r x)\<lparr>st_dropped := True\<rparr>" for r x
    by (cases "pm_onCopyDoneFn (st_pending x)"; (cases "cf_side (the (pm_onCopyDoneFn (st_pending x)))")?)
      (simp_all add: resetAndNotifyPending_def onCopyDoneFn_def setPendingEvent_def resetPendingBufferMeta_def)
  have d: "stream_ok (x\<lparr>st_dropped := True\<rparr>)" if "stream_ok x" "pm_buffer (st_pending x) = None" for x
  proof -
    have "end_ok t (x\<lparr>st_dropped := True\<rparr>) = end_ok t x" for t by (simp add: end_defs owner_def)
    moreover have "pending_ok (x\<lparr>st_dropped := True\<rparr>)" using that by (simp add: pending_ok_def stream_ok_def)
    ultimately show ?thesis using that(1) by (simp add: stream_ok_def)
  qed
  have "snd (drop_end s st) = (resetAndNotifyPending (?r (?st1\<lparr>st_dropped := True\<rparr>)) ?st1)\<lparr>st_dropped := True\<rparr>"
    using False by (simp add: drop_end_def Let_def r [symmetric])
  then show ?thesis using resetAndNotify_ok(1,2) [OF ok] d by metis
qed

lemma stream_step_ok: "stream_ok st \<Longrightarrow> stream_ok (stream_step c st)"
proof (cases c)
  case (Join_Set s b)
  assume "stream_ok st"
  moreover have "end_ok t (upd_end s (\<lambda>e. e\<lparr>se_inSet := b\<rparr>) st) = end_ok t st" for t by (simp add: end_defs)
  ultimately show ?thesis using Join_Set by (simp add: stream_ok_def)
next
  case (Add_Buffer b)
  assume "stream_ok st"
  then show ?thesis using Add_Buffer stream_ok_protocol [OF protocol_upd(2)] by simp
next
  case (Guest_Store k m)
  assume "stream_ok st"
  then show ?thesis using Guest_Store stream_ok_protocol [OF protocol_upd(3)] by simp
qed (simp_all add: copy_ok finish_ok take_event_ok streamCancel_ok drop_end_ok)

lemma new_stream_ok: "stream_ok (newInternalStream meta i j mems)"
  by (simp add: newInternalStream_def new_end_def stream_ok_def end_defs owner_def no_pending_def pending_ok_def)

lemma stream_run_ok: "stream_ok (fold stream_step cs (newInternalStream meta i j mems))"
proof -
  have "stream_ok st \<Longrightarrow> stream_ok (fold stream_step cs st)" for st
    by (induction cs arbitrary: st) (simp_all add: stream_step_ok)
  then show ?thesis by (simp add: new_stream_ok)
qed

section \<open>Properties\<close>

text \<open>C17. No wake-up is lost: whatever the host, the guests and the waitable sets did before, an end that
  is copying and has no pending event is the one whose buffer and functions are registered, the
  stream is not dropped, and the other end is not blocked too.\<close>

theorem blocked_end_is_registered:
  assumes "blocked s (fold stream_step cs (newInternalStream meta i j mems))"
  shows "let st = fold stream_step cs (newInternalStream meta i j mems) in
    (\<exists>b f. pm_buffer (st_pending st) = Some b \<and> pm_onCopyFn (st_pending st) = Some f \<and>
       pm_onCopyDoneFn (st_pending st) = Some f \<and> cf_side f = s) \<and>
    \<not> st_dropped st \<and> \<not> blocked (other_side s) st"
proof -
  let ?st = "fold stream_step cs (newInternalStream meta i j mems)"
  have ok: "stream_ok ?st" by (rule stream_run_ok)
  then have e: "end_ok s ?st" "end_ok (other_side s) ?st" by (simp_all add: stream_ok_iff [of ?st s])
  then have o: "owner ?st = Some s" "\<not> blocked (other_side s) ?st" using assms unfolding end_ok_def by auto
  then obtain b where b: "pm_buffer (st_pending ?st) = Some b" by (auto simp: owner_def split: if_splits)
  from pending_fns [OF ok b] obtain f where "pm_onCopyFn (st_pending ?st) = Some f"
    "pm_onCopyDoneFn (st_pending ?st) = Some f" "owner ?st = Some (cf_side f)" "\<not> st_dropped ?st" by blast
  with o b show ?thesis by (simp add: Let_def)
qed

definition demo_stream :: stream where
  "demo_stream = newInternalStream demo_buf_meta 1 2 [replicate 8 0, replicate 8 7]"

definition demo_args :: "nat \<Rightarrow> int \<Rightarrow> copy_args" where
  "demo_args k ec = \<lparr>ca_isAsync = True, ca_memory = Some k, ca_componentIdx = int k, ca_ptr = Some 2, ca_count = 3,
     ca_eventCode = ec, ca_stringEncoding = None, ca_buffer = None, ca_rejectLength = None, ca_hasTask = True\<rparr>"

definition demo_cmds :: "stream_command list" where
  "demo_cmds = [Copy Readable (demo_args 0 2)]"

lemma demo_blocked: "blocked Readable (fold stream_step demo_cmds (newInternalStream demo_buf_meta 1 2 [replicate 8 0, replicate 8 7]))"
  by code_simp

theorem blocked_end_is_registered_witness:
  "pm_buffer (st_pending (fold stream_step demo_cmds demo_stream)) \<noteq> None"
  using blocked_end_is_registered [OF demo_blocked] by (auto simp: demo_stream_def Let_def)

lemma blocked_notified:
  assumes "stream_ok st" "blocked s st"
  shows "hasPendingEvent s (resetAndNotifyPending r st)"
proof -
  have o: "owner st = Some s" using assms by (simp add: stream_ok_iff [of st s] end_ok_def)
  then obtain b where b: "pm_buffer (st_pending st) = Some b" by (auto simp: owner_def split: if_splits)
  from pending_fns [OF assms(1) b] obtain f where "pm_onCopyDoneFn (st_pending st) = Some f" "owner st = Some (cf_side f)" by blast
  with o show ?thesis
    by (simp add: resetAndNotifyPending_def onCopyDoneFn_def setPendingEvent_def hasPendingEvent_def resetPendingBufferMeta_def)
qed

text \<open>C18. A blocked end can always be woken: when the other end is dropped (which it can be when it has no
  pending event of its own) the blocked end gets an event, and cancelling the blocked operation ends
  it at once, without blocking.\<close>

theorem blocked_end_wakes:
  assumes "blocked s (fold stream_step cs (newInternalStream meta i j mems))"
  shows "let st = fold stream_step cs (newInternalStream meta i j mems) in
    (\<not> hasPendingEvent (other_side s) st \<longrightarrow>
       fst (drop_end (other_side s) st) = Inr () \<and> hasPendingEvent s (snd (drop_end (other_side s) st))) \<and>
    \<not> isCopying (get_end s (snd (streamCancel s isAsync hasTask ec st)))"
proof -
  let ?st = "fold stream_step cs (newInternalStream meta i j mems)"
  have ok: "stream_ok ?st" by (rule stream_run_ok)
  have o: "owner ?st = Some s" using ok assms by (simp add: stream_ok_iff [of ?st s] end_ok_def)
  then obtain b where b: "pm_buffer (st_pending ?st) = Some b" by (auto simp: owner_def split: if_splits)
  from pending_fns [OF ok b] o obtain f where f: "pm_onCopyDoneFn (st_pending ?st) = Some f" "cf_side f = s" "\<not> st_dropped ?st" by auto
  have "hasPendingEvent s (snd (drop_end (other_side s) ?st))" if "\<not> hasPendingEvent (other_side s) ?st"
    using that f
    by (simp add: drop_end_def Let_def resetAndNotifyPending_def onCopyDoneFn_def setPendingEvent_def hasPendingEvent_def
      resetPendingBufferMeta_def)
  moreover have "fst (drop_end (other_side s) ?st) = Inr ()" if "\<not> hasPendingEvent (other_side s) ?st"
    using that f by (simp add: drop_end_def Let_def)
  moreover have "\<not> isCopying (get_end s (snd (streamCancel s isAsync hasTask ec ?st)))"
  proof -
    have c: "isCopying (get_end s ?st)" "\<not> hasPendingEvent s ?st" using assms by (simp_all add: blocked_def)
    let ?st1 = "setCopyState s CANCELLING_COPY ?st"
    let ?st2 = "cancel_end s ?st1"
    have ok1: "stream_ok ?st1" using set_cancelling_ok [OF ok c(1)] .
    have n1: "\<not> hasPendingEvent s ?st1" "\<not> st_dropped ?st1" using c(2) f(3) by (simp_all add: setCopyState_def hasPendingEvent_def)
    then have "blocked s ?st1" by (simp add: blocked_def setCopyState_def isCopying_def)
    then have h: "hasPendingEvent s ?st2" using n1 blocked_notified [OF ok1] by (simp add: cancel_end_def)
    have ok2: "stream_ok ?st2" using ok1 by (rule cancel_end_ok)
    from h obtain ef where ef: "se_pendingEventFn (get_end s ?st2) = Some ef" by (auto simp: hasPendingEvent_def)
    then have "cf_side (ef_fns ef) = s" using ok2 unfolding stream_ok_iff [of ?st2 s] end_ok_def by blast
    then have "\<not> isCopying (get_end s (snd (getPendingEvent s ?st2)))"
      using ef by (simp add: getPendingEvent_def processFn_def jbind_def jret_def Let_def setCopyState_def isCopying_def)
    moreover have "snd (streamCancel s isAsync hasTask ec ?st) = snd (getPendingEvent s ?st2)"
      using c n1 h cancel_finish_state [of s ec ?st2]
      by (auto simp: streamCancel_def Let_def jbind_def jret_def split: prod.split sum.split)
    ultimately show ?thesis by simp
  qed
  ultimately show ?thesis by (simp add: Let_def)
qed

theorem blocked_end_wakes_witness:
  "\<not> isCopying (get_end Readable (snd (streamCancel Readable True True 2 (fold stream_step demo_cmds demo_stream))))"
  using blocked_end_wakes [OF demo_blocked, of True True 2] by (simp add: demo_stream_def Let_def)

text \<open>Host buffers in the store.\<close>

definition host_list :: "nat \<Rightarrow> stream \<Rightarrow> val list \<Rightarrow> bool" where
  "host_list i st xs \<longleftrightarrow>
     i < length (st_buffers st) \<and> sb_memory (st_buffers st ! i) = None \<and> mb_hostOnlyData (load_buffer i st) = VArr xs \<and>
     \<not> isNone (buf_meta i st)"

lemma load_store:
  assumes "i < length (st_buffers st)" "sb_memory (st_buffers st ! i) = None"
  shows "load_buffer i (store_buffer i ((load_buffer i st)\<lparr>mb_hostOnlyData := d, mb_processed := p\<rparr>) st) =
      (load_buffer i st)\<lparr>mb_hostOnlyData := d, mb_processed := p\<rparr>"
    "j \<noteq> i \<Longrightarrow> load_buffer j (store_buffer i b st) = load_buffer j st"
    "length (st_buffers (store_buffer i b st)) = length (st_buffers st)"
    "sb_memory (st_buffers (store_buffer i b st) ! j) = sb_memory (st_buffers st ! j)"
    "sb_shared (st_buffers (store_buffer i b st) ! j) = sb_shared (st_buffers st ! j)"
  using assms by (auto simp: load_buffer_def store_buffer_def Let_def nth_list_update)

lemma host_read:
  assumes "host_list i st xs" "0 < n" "n \<le> mb_capacity (load_buffer i st)"
  shows "on_buffer i (buf_read (Some n)) st = (Inr (take (nat n) xs),
    store_buffer i ((load_buffer i st)\<lparr>mb_hostOnlyData := VArr (drop (nat n) xs), mb_processed := mb_processed (load_buffer i st) + n\<rparr>) st)"
proof -
  have "mb_memory (load_buffer i st) = None" using assms(1) by (simp add: host_list_def load_buffer_def Let_def)
  then show ?thesis using assms
    by (simp add: on_buffer_def buf_read_def read_source_def host_slice_def host_list_def buf_meta_def)
qed

lemma host_write:
  assumes "host_list i st xs" "int (length vs) \<le> remaining (load_buffer i st)"
  shows "on_buffer i (buf_write (VArr vs)) st = (Inr (),
    store_buffer i ((load_buffer i st)\<lparr>mb_hostOnlyData := VArr (xs @ vs),
      mb_processed := mb_processed (load_buffer i st) + int (length vs)\<rparr>) st)"
proof -
  have "mb_memory (load_buffer i st) = None" using assms(1) by (simp add: host_list_def load_buffer_def Let_def)
  then show ?thesis using assms
    by (simp add: on_buffer_def buf_write_def write_target_def host_list_def buf_meta_def)
qed

lemma host_transfer:
  assumes src: "host_list src st xs" "int (length xs) = remaining (load_buffer src st)" "0 \<le> mb_processed (load_buffer src st)"
    and dst: "host_list dst st ys" "src \<noteq> dst"
    and n: "0 < n" "n \<le> remaining (load_buffer src st)" "n \<le> remaining (load_buffer dst st)"
  shows "\<exists>st'. transfer src dst n st = (Inr (), st') \<and>
    host_list src st' (drop (nat n) xs) \<and> host_list dst st' (ys @ take (nat n) xs) \<and>
    remaining (load_buffer src st') = remaining (load_buffer src st) - n \<and>
    remaining (load_buffer dst st') = remaining (load_buffer dst st) - n"
proof -
  have cap: "n \<le> mb_capacity (load_buffer src st)" using n src(3) by (simp add: remaining_def)
  let ?st1 = "store_buffer src ((load_buffer src st)\<lparr>mb_hostOnlyData := VArr (drop (nat n) xs),
    mb_processed := mb_processed (load_buffer src st) + n\<rparr>) st"
  have s: "src < length (st_buffers st)" "sb_memory (st_buffers st ! src) = None" using src(1) by (simp_all add: host_list_def)
  have d: "dst < length (st_buffers st)" "sb_memory (st_buffers st ! dst) = None" using dst(1) by (simp_all add: host_list_def)
  have l: "load_buffer dst ?st1 = load_buffer dst st" using load_store(2) [OF s, of dst] dst(2) by auto
  have h1: "host_list dst ?st1 ys" using dst d l load_store(3,4) [OF s] by (simp add: host_list_def buf_meta_def)
  have len: "int (length (take (nat n) xs)) = n" using n src(2) by simp
  let ?st2 = "store_buffer dst ((load_buffer dst ?st1)\<lparr>mb_hostOnlyData := VArr (ys @ take (nat n) xs),
      mb_processed := mb_processed (load_buffer dst ?st1) + n\<rparr>) ?st1"
  have d1: "dst < length (st_buffers ?st1)" "sb_memory (st_buffers ?st1 ! dst) = None"
    using d load_store(3,4) [OF s] by simp_all
  have "transfer src dst n st = (Inr (), ?st2)"
    using host_read [OF src(1) n(1) cap] host_write [OF h1, of "take (nat n) xs"] n(3) l len
    by (simp add: transfer_def jbind_def)
  moreover have b2: "load_buffer dst ?st2 = (load_buffer dst st)\<lparr>mb_hostOnlyData := VArr (ys @ take (nat n) xs),
      mb_processed := mb_processed (load_buffer dst st) + n\<rparr>"
    using load_store(1) [OF d1] l by simp
  moreover have b1: "load_buffer src ?st2 = (load_buffer src st)\<lparr>mb_hostOnlyData := VArr (drop (nat n) xs),
      mb_processed := mb_processed (load_buffer src st) + n\<rparr>"
    using load_store(2) [OF d1, of src] dst(2) load_store(1) [OF s] by simp
  moreover have "host_list src ?st2 (drop (nat n) xs)" "host_list dst ?st2 (ys @ take (nat n) xs)"
    using b1 b2 s d src(1) dst(1) load_store(3,4) [OF s] load_store(3,4) [OF d1]
    by (simp_all add: host_list_def buf_meta_def)
  moreover have "remaining (load_buffer src ?st2) = remaining (load_buffer src st) - n"
    "remaining (load_buffer dst ?st2) = remaining (load_buffer dst st) - n"
    using b1 b2 by (simp_all add: remaining_def)
  ultimately show ?thesis by blast
qed

lemma load_upd_end [simp]:
  "load_buffer k (upd_end t h st) = load_buffer k st" "host_list k (upd_end t h st) xs = host_list k st xs"
  unfolding host_list_def buf_meta_def load_buffer_def get_upd_end by (rule refl)+

lemma after_transfer:
  assumes "pm_onCopyFn (st_pending st) = Some g" "cf_side g = other_side (cf_side f)"
  shows "\<exists>st'. jbind notify_pending_copy (\<lambda>_. jassign (onCopyDoneFn f COMPLETED None)) st = (Inr (), st') \<and>
    load_buffer k st' = load_buffer k st \<and> host_list k st' xs = host_list k st xs \<and>
    se_pendingEventFn (get_end (cf_side f) st') = Some \<lparr>ef_fns = f, ef_result = COMPLETED, ef_reclaim = False, ef_rejectedLength = None\<rparr> \<and>
    se_pendingEventFn (get_end (other_side (cf_side f)) st') =
      Some \<lparr>ef_fns = g, ef_result = COMPLETED, ef_reclaim = True, ef_rejectedLength = None\<rparr>"
  using assms
  by (simp add: jbind_def notify_pending_copy_def jassign_def onCopyFn_def onCopyDoneFn_def setPendingEvent_def)

lemma transfer_pending: "st_pending (snd (transfer src dst n st)) = st_pending st"
  by (rule protocol_fields(3)) simp


definition demo_host_buffer :: "int \<Rightarrow> val list \<Rightarrow> stored_buffer" where
  "demo_host_buffer cap vs = \<lparr>sb_buffer = \<lparr>mb_componentIdx = -1, mb_memory = None, mb_start = None, mb_ptr = None,
     mb_capacity = cap, mb_processed = 0, mb_elemMeta = demo_buf_meta, mb_hostOnlyData = VArr vs, mb_target = VUndef\<rparr>,
     sb_memory = None, sb_shared = True\<rparr>"

definition demo_met :: stream where
  "demo_met = (newInternalStream demo_buf_meta 1 2 [])\<lparr>
     st_buffers := [demo_host_buffer 2 [], demo_host_buffer 3 [VNum 5, VNum 6, VNum 7]],
     st_pending := \<lparr>pm_componentIdx = Some (-1), pm_buffer = Some 0,
       pm_onCopyFn = Some \<lparr>cf_side = Readable, cf_buffer = 0, cf_eventCode = 2\<rparr>,
       pm_onCopyDoneFn = Some \<lparr>cf_side = Readable, cf_buffer = 0, cf_eventCode = 2\<rparr>, pm_rejectLength = None\<rparr>\<rparr>"


lemma push4_or:
  assumes "0 \<le> c" "c < (16 :: int)"
  shows "push_bit 4 x OR c = 16 * x + c"
proof -
  have c: "take_bit 4 c = c" using assms by (simp add: take_bit_int_eq_self)
  have "push_bit 4 x AND take_bit 4 c = 0" by (rule bit_eqI) (auto simp: bit_simps)
  then show ?thesis using plus_and_or [of "push_bit 4 x" c] c by (simp add: push_bit_eq_mult)
qed

text \<open>The packed result of a copy carries the number of elements only up to \<open>2 ^ 27 - 1\<close>: there it is
  unpacked to the result and the number; from \<open>2 ^ 27\<close> elements on, which a buffer can hold, the
  number comes out negative, so the host's read takes a successful copy for the end of the stream.\<close>

theorem copy_result_packing:
  "(0 \<le> p \<and> p < 2 ^ 27 \<longrightarrow> unpack_result (pack_result p r) = (result_code r, p)) \<and>
   (2 ^ 27 \<le> p \<and> p < MAX_LENGTH \<longrightarrow> unpack_result (pack_result p r) = (result_code r, p - 2 ^ 28) \<and> p - 2 ^ 28 < 0)"
proof -
  have c: "0 \<le> result_code r" "result_code r < 16" by (cases r; simp)+
  have un: "unpack_result (16 * q + result_code r) = (result_code r, q)" if "- (2 ^ 27) \<le> q" "q < 2 ^ 27" for q :: int
  proof -
    let ?x = "16 * q + result_code r"
    have "to_int32 ?x = ?x" using that c by (intro to_int32_id) simp_all
    moreover have "?x AND 15 = ?x mod 16" using take_bit_eq_mask [of 4 ?x] by (simp add: take_bit_eq_mod mask_eq_exp_minus_1)
    moreover have "drop_bit 4 ?x = ?x div 16" by (simp add: drop_bit_eq_div)
    ultimately show ?thesis using c by (simp add: unpack_result_def js_and_def js_shr_def)
  qed
  have small: "pack_result p r = 16 * p + result_code r" if "0 \<le> p" "p < 2 ^ 27"
    using that push4_or [OF c, of p] to_int32_id [of "push_bit 4 p"] c
    by (simp add: pack_result_def js_or_def js_shl_def push_bit_eq_mult)
  have large: "pack_result p r = 16 * (p - 2 ^ 28) + result_code r" if "2 ^ 27 \<le> p" "p < MAX_LENGTH"
  proof -
    have p: "to_int32 p = p" using that by (intro to_int32_id) (simp_all add: MAX_LENGTH_def)
    have "take_bit 32 (push_bit 4 p) = push_bit 4 p"
      using that by (intro take_bit_int_eq_self) (simp_all add: push_bit_eq_mult MAX_LENGTH_def)
    then have "to_int32 (push_bit 4 p) = push_bit 4 p - 2 ^ 32"
      using that by (simp add: to_int32_def signed_wrap push_bit_eq_mult)
    also have "\<dots> = push_bit 4 (p - 2 ^ 28)" by (simp add: push_bit_eq_mult)
    finally have e: "js_shl p 4 = push_bit 4 (p - 2 ^ 28)" using p by (simp add: js_shl_def)
    have "to_int32 (push_bit 4 (p - 2 ^ 28)) = push_bit 4 (p - 2 ^ 28)"
      using that by (intro to_int32_id) (simp_all add: push_bit_eq_mult MAX_LENGTH_def)
    then show ?thesis using e push4_or [OF c, of "p - 2 ^ 28"] c by (simp add: pack_result_def js_or_def)
  qed
  show ?thesis using un [of p] un [of "p - 2 ^ 28"] small large by (auto simp: MAX_LENGTH_def)
qed

theorem copy_result_packing_witness:
  "unpack_result (pack_result 134217728 COMPLETED) = (0, - 134217728) \<and> unpack_result (pack_result 5 DROPPED) = (1, 5)"
  using copy_result_packing [of 134217728 COMPLETED] copy_result_packing [of 5 DROPPED] by (simp add: MAX_LENGTH_def)

end
