(* ===== verification/Future_Copy.thy ===== *)
theory Future_Copy
  imports Stream_Copy
begin

text \<open>
  The two ends of a future (\<open>src/crates/js-component-bindgen/src/intrinsics/p3/async_future.rs\<close>:
  \<open>FutureEnd\<close>, \<open>FutureReadableEnd\<close>, \<open>FutureWritableEnd\<close>, \<open>InternalFuture\<close>, and the intrinsics
  \<open>futureRead\<close>, \<open>futureWrite\<close>, the cancellations, the drops and \<open>futureTransfer\<close>).

  The ends share the metadata of the pending buffer and the element metadata; the dropped flag is
  each end's own. A read or write makes a buffer for one value and registers it, or meets the other
  end's. Buffers lie in a store; a buffer of linear memory names its memory. All buffers refer to the
  element metadata of the future itself. The asynchronous operations are split where they wait for an
  event; the inner operation they await before does not suspend. Not modelled: futures whose values
  the host injects (\<open>hostInjectFn\<close>), debug logging and targets. \<open>FutureValue\<close>, a thenable around the
  host's read, is left to the JavaScript promise machinery.
\<close>

section \<open>State\<close>

text \<open>What \<open>futureEvent\<close> and \<open>onCopyDoneFn\<close> capture.\<close>

record future_fns =
  ff_side :: side
  ff_buffer :: nat

record future_event_fn =
  fv_fns :: future_fns
  fv_result :: copy_result

datatype future_code = FUTURE_READ | FUTURE_WRITE

record future_event =
  fe_code :: future_code
  fe_payload0 :: int
  fe_payload1 :: int

record future_end =
  fd_copyState :: copy_state
  fd_pendingEventFn :: "future_event_fn option"
  fd_waitableIdx :: int
  fd_dropped :: bool

record future_pending =
  fp_componentIdx :: "int option"
  fp_buffer :: "nat option"
  fp_onCopyDoneFn :: "future_fns option"

record future_buffer =
  fb_buffer :: managed_buffer
  fb_memory :: "nat option"

record future =
  fu_read :: future_end
  fu_write :: future_end
  fu_pending :: future_pending
  fu_elemMeta :: elem_meta
  fu_buffers :: "future_buffer list"
  fu_mems :: "mem list"

type_synonym 'a fop = "('a, future) jsop"

fun fut_end :: "side \<Rightarrow> future \<Rightarrow> future_end" where
  "fut_end Readable fu = fu_read fu"
| "fut_end Writable fu = fu_write fu"

fun upd_fut :: "side \<Rightarrow> (future_end \<Rightarrow> future_end) \<Rightarrow> future \<Rightarrow> future" where
  "upd_fut Readable f fu = fu\<lparr>fu_read := f (fu_read fu)\<rparr>"
| "upd_fut Writable f fu = fu\<lparr>fu_write := f (fu_write fu)\<rparr>"

fun event_code :: "side \<Rightarrow> future_code" where
  "event_code Readable = FUTURE_READ"
| "event_code Writable = FUTURE_WRITE"

definition no_future_pending :: future_pending where
  "no_future_pending = \<lparr>fp_componentIdx = None, fp_buffer = None, fp_onCopyDoneFn = None\<rparr>"

definition new_future_end :: "int \<Rightarrow> future_end" where
  "new_future_end idx = \<lparr>fd_copyState = IDLE, fd_pendingEventFn = None, fd_waitableIdx = idx, fd_dropped = False\<rparr>"

definition newInternalFuture :: "elem_meta \<Rightarrow> int \<Rightarrow> int \<Rightarrow> mem list \<Rightarrow> future" where
  "newInternalFuture meta readIdx writeIdx mems =
     \<lparr>fu_read = new_future_end readIdx, fu_write = new_future_end writeIdx, fu_pending = no_future_pending,
      fu_elemMeta = meta, fu_buffers = [], fu_mems = mems\<rparr>"

definition load_fut :: "nat \<Rightarrow> future \<Rightarrow> managed_buffer" where
  "load_fut i fu =
     (let h = fu_buffers fu ! i in
      (fb_buffer h)\<lparr>mb_memory := map_option (\<lambda>k. fu_mems fu ! k) (fb_memory h), mb_elemMeta := fu_elemMeta fu\<rparr>)"

definition store_fut :: "nat \<Rightarrow> managed_buffer \<Rightarrow> future \<Rightarrow> future" where
  "store_fut i b fu =
     (let h = fu_buffers fu ! i in
      fu\<lparr>fu_buffers := (fu_buffers fu)[i := h\<lparr>fb_buffer := b\<rparr>],
         fu_mems := (case (fb_memory h, mb_memory b) of
            (Some k, Some m) \<Rightarrow> (fu_mems fu)[k := m] | _ \<Rightarrow> fu_mems fu)\<rparr>)"

definition on_fut_buffer :: "nat \<Rightarrow> ('a, managed_buffer) jsop \<Rightarrow> 'a fop" where
  "on_fut_buffer i op fu = (case op (load_fut i fu) of (r, b) \<Rightarrow> (r, store_fut i b fu))"

section \<open>Pending buffer and events\<close>

definition fut_hasPendingEvent :: "side \<Rightarrow> future \<Rightarrow> bool" where
  "fut_hasPendingEvent s fu = (fd_pendingEventFn (fut_end s fu) \<noteq> None)"

definition fut_setCopyState :: "side \<Rightarrow> copy_state \<Rightarrow> future \<Rightarrow> future" where
  "fut_setCopyState s cs = upd_fut s (\<lambda>e. e\<lparr>fd_copyState := cs\<rparr>)"

definition fut_isCopying :: "future_end \<Rightarrow> bool" where
  "fut_isCopying e = (fd_copyState e \<in> {SYNC_COPYING, ASYNC_COPYING, CANCELLING_COPY})"

definition fut_setPendingBufferMeta :: "int option \<Rightarrow> nat option \<Rightarrow> future_fns option \<Rightarrow> future \<Rightarrow> future" where
  "fut_setPendingBufferMeta c b f fu = fu\<lparr>fu_pending := \<lparr>fp_componentIdx = c, fp_buffer = b, fp_onCopyDoneFn = f\<rparr>\<rparr>"

definition fut_resetPendingBufferMeta :: "future \<Rightarrow> future" where
  "fut_resetPendingBufferMeta = fut_setPendingBufferMeta None None None"

definition fut_onCopyDoneFn :: "future_fns \<Rightarrow> copy_result \<Rightarrow> unit fop" where
  "fut_onCopyDoneFn f r fu =
     (if r = DROPPED \<and> ff_side f = Readable then (Inl (Err ''cannot read from a dropped future''), fu)
      else (Inr (), upd_fut (ff_side f) (\<lambda>e. e\<lparr>fd_pendingEventFn := Some \<lparr>fv_fns = f, fv_result = r\<rparr>\<rparr>) fu))"

definition fut_resetAndNotifyPending :: "copy_result \<Rightarrow> unit fop" where
  "fut_resetAndNotifyPending r fu =
     (case fp_onCopyDoneFn (fu_pending fu) of
        None \<Rightarrow> (Inr (), fut_resetPendingBufferMeta fu)
      | Some f \<Rightarrow> fut_onCopyDoneFn f r (fut_resetPendingBufferMeta fu))"

definition futureEvent :: "future_event_fn \<Rightarrow> future_event fop" where
  "futureEvent ev fu =
     (let s = ff_side (fv_fns ev); rem = remaining (load_fut (ff_buffer (fv_fns ev)) fu); r = fv_result ev in
      if rem = 0 \<and> r \<noteq> COMPLETED then (Inl (Err ''invalid buffer state, expected zero remaining post-completion''), fu)
      else if rem \<noteq> 0 \<and> r = COMPLETED then (Inl (Err ''invalid buffer state, expected 1 remaining post-completion''), fu)
      else
        let fu' = fut_setCopyState s (if r = DROPPED \<or> r = COMPLETED then DONE else IDLE) fu in
        (Inr \<lparr>fe_code = event_code s, fe_payload0 = fd_waitableIdx (fut_end s fu'), fe_payload1 = result_code r\<rparr>, fu'))"

definition fut_getPendingEvent :: "side \<Rightarrow> future_event option fop" where
  "fut_getPendingEvent s fu =
     (case fd_pendingEventFn (fut_end s fu) of
        None \<Rightarrow> (Inr None, fu)
      | Some ev \<Rightarrow> jbind (futureEvent ev) (\<lambda>e. jret (Some e)) (upd_fut s (\<lambda>e. e\<lparr>fd_pendingEventFn := None\<rparr>) fu))"

section \<open>Reading and writing\<close>

text \<open>\<open>dst.write(src.read(1))\<close>. The check for values within one component asks for the property
  \<open>isNoneOrNumberType\<close>, which no element metadata has, so it applies to every type.\<close>

definition fut_transfer :: "nat \<Rightarrow> nat \<Rightarrow> unit fop" where
  "fut_transfer src dst =
     jbind (on_fut_buffer src (buf_read (Some 1))) (\<lambda>vs. on_fut_buffer dst (buf_write (VArr vs)))"

definition fut_met :: "nat \<Rightarrow> nat \<Rightarrow> future_fns \<Rightarrow> unit fop" where
  "fut_met src dst fns =
     jbind (fut_transfer src dst) (\<lambda>_. jbind (fut_resetAndNotifyPending COMPLETED) (\<lambda>_. fut_onCopyDoneFn fns COMPLETED))"

definition fut_same_component :: "int \<Rightarrow> future \<Rightarrow> bool" where
  "fut_same_component c fu = (fp_componentIdx (fu_pending fu) = Some c \<and> c \<noteq> - 1)"

definition fut_read :: "nat \<Rightarrow> future_fns \<Rightarrow> int \<Rightarrow> unit fop" where
  "fut_read b fns c fu =
     (if fd_dropped (fu_read fu) then (Inl (Err ''cannot read from dropped future''), fu)
      else if remaining (load_fut b fu) \<noteq> 1 then (Inl (Err ''invalid remaining values in buffer''), fu)
      else case fp_buffer (fu_pending fu) of
        None \<Rightarrow> (Inr (), fut_setPendingBufferMeta (Some c) (Some b) (Some fns) fu)
      | Some pb \<Rightarrow>
          if fut_same_component c fu
          then (Inl (Err ''same-component future reads not allowed for non-numeric types''), fu)
          else fut_met pb b fns fu)"

text \<open>A write registers its buffer without the component's index.\<close>

definition fut_write :: "nat \<Rightarrow> future_fns \<Rightarrow> int \<Rightarrow> unit fop" where
  "fut_write b fns c fu =
     (if remaining (load_fut b fu) \<noteq> 1 then (Inl (Err ''invalid remaining capacity for pending buffer''), fu)
      else if fd_dropped (fu_write fu) then fut_onCopyDoneFn fns DROPPED fu
      else case fp_buffer (fu_pending fu) of
        None \<Rightarrow> (Inr (), fut_setPendingBufferMeta None (Some b) (Some fns) fu)
      | Some pb \<Rightarrow>
          if fut_same_component c fu
          then (Inl (Err ''same-component future writes not allowed for non-numeric types''), fu)
          else fut_met b pb fns fu)"

fun fut_rw :: "side \<Rightarrow> nat \<Rightarrow> future_fns \<Rightarrow> int \<Rightarrow> unit fop" where
  "fut_rw Readable b fns c = fut_read b fns c"
| "fut_rw Writable b fns c = fut_write b fns c"

record fut_args =
  fa_componentIdx :: int
  fa_stringEncoding :: "string option"
  fa_getReallocFn :: "(int \<Rightarrow> int \<Rightarrow> int \<Rightarrow> int \<Rightarrow> mem \<Rightarrow> (int \<times> mem) js) option"
  fa_memory :: "nat option"
  fa_ptr :: "int option"
  fa_data :: val

definition fut_take_meta :: "fut_args \<Rightarrow> elem_meta \<Rightarrow> elem_meta" where
  "fut_take_meta a m =
     (let m1 = (if stringEncoding m = None then m\<lparr>stringEncoding := fa_stringEncoding a\<rparr> else m) in
      if getRealloc m1 = None then m1\<lparr>getRealloc := fa_getReallocFn a\<rparr> else m1)"

definition fut_createBuffer :: "fut_args \<Rightarrow> nat fop" where
  "fut_createBuffer a fu =
     (if fa_ptr a = None \<and> fa_data a = VUndef
      then (Inl (TypeErr ''either a starting pointer or initial values must be provided''), fu)
      else case newManagedBuffer
              \<lparr>ba_componentIdx = Some (fa_componentIdx a), ba_memory = map_option (\<lambda>k. fu_mems fu ! k) (fa_memory a),
               ba_start = fa_ptr a, ba_capacity = Some 1, ba_elemMeta = Some (fu_elemMeta fu),
               ba_data = fa_data a, ba_target = VUndef\<rparr> of
             Inl e \<Rightarrow> (Inl e, fu)
           | Inr b \<Rightarrow> (Inr (length (fu_buffers fu)), fu\<lparr>fu_buffers := fu_buffers fu @ [\<lparr>fb_buffer = b, fb_memory = fa_memory a\<rparr>]\<rparr>))"

text \<open>\<open>guestRead\<close> and \<open>guestWrite\<close>; the result is the buffer.\<close>

definition guest_op :: "side \<Rightarrow> fut_args \<Rightarrow> nat fop" where
  "guest_op s a =
     jbind (jassign (\<lambda>fu. fu\<lparr>fu_elemMeta := fut_take_meta a (fu_elemMeta fu)\<rparr>)) (\<lambda>_.
     jbind (jguard (\<lambda>fu. isBorrowed (fu_elemMeta fu)) (Err ''cannot call future.read on a borrow'')) (\<lambda>_.
     jbind (fut_createBuffer a) (\<lambda>b.
     jbind (fut_rw s b \<lparr>ff_side = s, ff_buffer = b\<rparr> (fa_componentIdx a)) (\<lambda>_. jret b))))"

text \<open>\<open>futureRead\<close> and \<open>futureWrite\<close> on the end they found: an end of the wrong class, a state that is not
  idle, a task that may not block.\<close>

definition future_finish :: "side \<Rightarrow> int fop" where
  "future_finish s =
     jbind (fut_getPendingEvent s) (\<lambda>ev.
       case ev of
         None \<Rightarrow> jthrow (TypeErr ''Cannot destructure property of null'')
       | Some e \<Rightarrow> (\<lambda>fu.
           if fe_code e \<noteq> event_code s then (Inl (Err ''mismatched event code''), fu)
           else if fe_payload0 e \<noteq> fd_waitableIdx (fut_end s fu) then (Inl (Err ''mismatched future end index''), fu)
           else (Inr (fe_payload1 e), fu)))"

definition future_rest :: "side \<Rightarrow> bool \<Rightarrow> copy_outcome fop" where
  "future_rest s isAsync fu =
     (if fut_hasPendingEvent s fu then jbind (future_finish s) (\<lambda>p. jret (Returned p)) fu
      else if isAsync then (Inr (Returned ASYNC_BLOCKED_CODE), fut_setCopyState s ASYNC_COPYING fu)
      else (Inr Suspended, fut_setCopyState s SYNC_COPYING fu))"

definition future_op :: "side \<Rightarrow> bool \<Rightarrow> bool \<Rightarrow> bool \<Rightarrow> bool \<Rightarrow> side \<Rightarrow> fut_args \<Rightarrow> copy_outcome fop" where
  "future_op s hasTask mayLeave mayBlock isAsync found a fu =
     (if \<not> hasTask then (Inl (Err ''missing task metadata during future operation''), fu)
      else if \<not> mayLeave then (Inl (Err ''component instance is not marked as may leave''), fu)
      else if \<not> mayBlock \<and> \<not> isAsync then (Inl (Err ''only tasks that may block may call''), fu)
      else if found \<noteq> s then (Inl (Err ''invalid future end''), fu)
      else if fd_copyState (fut_end s fu) \<noteq> IDLE then (Inl (Err ''future state must be idle''), fu)
      else jbind (guest_op s a) (\<lambda>_. future_rest s isAsync) fu)"

text \<open>The host's read and write: up to the wait for the event, and after it.\<close>

definition host_args :: "string option \<Rightarrow> (int \<Rightarrow> int \<Rightarrow> int \<Rightarrow> int \<Rightarrow> mem \<Rightarrow> (int \<times> mem) js) option \<Rightarrow> val list \<Rightarrow> fut_args" where
  "host_args enc re vs = \<lparr>fa_componentIdx = - 1, fa_stringEncoding = enc, fa_getReallocFn = re, fa_memory = None, fa_ptr = None,
     fa_data = VArr vs\<rparr>"

definition host_start :: "side \<Rightarrow> fut_args \<Rightarrow> nat fop" where
  "host_start s a =
     jbind (guest_op s a) (\<lambda>b fu.
       (Inr b, if fut_hasPendingEvent s fu then fu else fut_setCopyState s ASYNC_COPYING fu))"

definition hostRead_finish :: "nat \<Rightarrow> val fop" where
  "hostRead_finish b =
     jbind (future_finish Readable) (\<lambda>_.
     jbind (on_fut_buffer b (buf_read (Some 1))) (\<lambda>vs.
       case vs of [v] \<Rightarrow> jret v | _ \<Rightarrow> jthrow (Err ''multiple results from future'')))"

definition hostWrite_finish :: "unit fop" where
  "hostWrite_finish = jbind (future_finish Writable) (\<lambda>_. jret ())"

text \<open>The result is the value, or \<open>None\<close> when the operation waits for its event.\<close>

definition hostRead :: "fut_args \<Rightarrow> val option fop" where
  "hostRead a =
     jbind (host_start Readable a) (\<lambda>b fu.
       if fut_hasPendingEvent Readable fu then jbind (hostRead_finish b) (\<lambda>v. jret (Some v)) fu else (Inr None, fu))"

definition hostWrite :: "fut_args \<Rightarrow> unit option fop" where
  "hostWrite a =
     jbind (host_start Writable a) (\<lambda>b fu.
       if fut_hasPendingEvent Writable fu then jbind hostWrite_finish (\<lambda>v. jret (Some v)) fu else (Inr None, fu))"

section \<open>Cancelling, dropping and transferring\<close>

definition future_cancel_end :: "unit fop" where
  "future_cancel_end = fut_resetAndNotifyPending CANCELLED"

text \<open>The first statement of the cancel intrinsics names a variable that does not exist (the parameter is
  called \<open>futureEndIdx\<close>), so nothing after it is reached.\<close>

definition futureCancel :: "int fop" where
  "futureCancel fu = (Inl (RefErr ''futureEndWaitableIdx''), fu)"

text \<open>An end that is dropped while a buffer is pending names the undeclared \<open>pendingBufferMeta\<close>.\<close>

definition future_drop_end :: "side \<Rightarrow> unit fop" where
  "future_drop_end s fu =
     (if s = Writable \<and> fd_copyState (fu_write fu) \<noteq> DONE
      then (Inl (Err ''trap: futures must not be dropped before being completed''), fu)
      else if fd_dropped (fut_end s fu) then (Inl (Err ''future already dropped''), fu)
      else if fp_buffer (fu_pending fu) \<noteq> None then (Inl (RefErr ''pendingBufferMeta''), fu)
      else (Inr (), upd_fut s (\<lambda>e. e\<lparr>fd_dropped := True\<rparr>) fu))"

text \<open>The intrinsics on the end they removed from the tables (\<open>removeFutureEndFromTable\<close>).\<close>

definition futureDrop :: "side \<Rightarrow> bool \<Rightarrow> side \<Rightarrow> unit fop" where
  "futureDrop s mayLeave found fu =
     (if \<not> mayLeave then (Inl (Err ''component instance is not marked as may leave''), fu)
      else if found \<noteq> s then (Inl (Err ''invalid future end''), fu)
      else future_drop_end s fu)"

text \<open>\<open>futureTransfer\<close> is a stub: it returns \<open>undefined\<close>.\<close>

definition futureTransfer :: "val fop" where
  "futureTransfer fu = (Inr VUndef, fu)"

section \<open>Runs\<close>

text \<open>What guests, host and waitable sets do to a future. An operation that throws ends the run (the guest
  traps), so a step is one that succeeds. The intrinsics find their end in the tables and pass no
  values; the host reads a future once (\<open>promise\<close> keeps the first one), into the buffer that its event
  will name, and writes one value.\<close>

datatype future_command =
    Guest_Op side bool fut_args
  | Guest_Resume side
  | Host_Read "string option"
  | Host_Read_Finish
  | Host_Write "string option" val
  | Host_Write_Finish
  | Take_Future_Event side
  | Drop_Future_End side
  | Store_Memory nat mem

definition unless_busy :: "side \<Rightarrow> 'a fop \<Rightarrow> 'a fop" where
  "unless_busy s op fu = (if fd_copyState (fut_end s fu) \<noteq> IDLE then (Inl (OutOfModel ''second use of an end''), fu) else op fu)"

fun fut_step :: "future_command \<Rightarrow> unit fop" where
  "fut_step (Guest_Op s isAsync a) = jbind (future_op s True True True isAsync s (a\<lparr>fa_data := VUndef\<rparr>)) (\<lambda>_. jret ())"
| "fut_step (Guest_Resume s) = jbind (future_finish s) (\<lambda>_. jret ())"
| "fut_step (Host_Read enc) = unless_busy Readable (jbind (hostRead (host_args enc None [])) (\<lambda>_. jret ()))"
| "fut_step Host_Read_Finish = (\<lambda>fu.
     case fd_pendingEventFn (fu_read fu) of
       None \<Rightarrow> (Inl (OutOfModel ''still waiting''), fu)
     | Some ev \<Rightarrow> jbind (hostRead_finish (ff_buffer (fv_fns ev))) (\<lambda>_. jret ()) fu)"
| "fut_step (Host_Write enc v) = unless_busy Writable (jbind (hostWrite (host_args enc None [v])) (\<lambda>_. jret ()))"
| "fut_step Host_Write_Finish = hostWrite_finish"
| "fut_step (Take_Future_Event s) = jbind (fut_getPendingEvent s) (\<lambda>_. jret ())"
| "fut_step (Drop_Future_End s) = futureDrop s True s"
| "fut_step (Store_Memory k m) = jassign (\<lambda>fu. fu\<lparr>fu_mems := (fu_mems fu)[k := m]\<rparr>)"

inductive fut_reach :: "future \<Rightarrow> bool" where
  new: "fut_reach (newInternalFuture meta r w mems)"
| step: "fut_reach fu \<Longrightarrow> fut_step c fu = (Inr (), fu') \<Longrightarrow> fut_reach fu'"

section \<open>The protocol of the two ends\<close>

definition fut_owner :: "future \<Rightarrow> side option" where
  "fut_owner fu = (if fp_buffer (fu_pending fu) = None then None else map_option ff_side (fp_onCopyDoneFn (fu_pending fu)))"

definition fut_left :: "nat \<Rightarrow> future \<Rightarrow> int" where
  "fut_left b fu = remaining (load_fut b fu)"

text \<open>A buffer of host values that is read from holds one value.\<close>

definition source_ok :: "managed_buffer \<Rightarrow> bool" where
  "source_ok b \<longleftrightarrow> (\<forall>ds. mb_hostOnlyData b = VArr ds \<longrightarrow> length ds = 1)"

definition fut_pending_ok :: "future \<Rightarrow> bool" where
  "fut_pending_ok fu \<longleftrightarrow>
     (case fp_buffer (fu_pending fu) of
        None \<Rightarrow> fp_onCopyDoneFn (fu_pending fu) = None
      | Some b \<Rightarrow> b < length (fu_buffers fu) \<and> fut_left b fu = 1 \<and>
          (\<exists>f. fp_onCopyDoneFn (fu_pending fu) = Some f \<and> ff_buffer f = b \<and> (ff_side f = Writable \<longrightarrow> source_ok (load_fut b fu))))"

definition fut_end_ok :: "side \<Rightarrow> future \<Rightarrow> bool" where
  "fut_end_ok s fu \<longleftrightarrow>
     (fut_owner fu = Some s \<longleftrightarrow> fut_isCopying (fut_end s fu) \<and> fd_pendingEventFn (fut_end s fu) = None) \<and>
     (\<forall>ev. fd_pendingEventFn (fut_end s fu) = Some ev \<longrightarrow>
        fut_isCopying (fut_end s fu) \<and> ff_side (fv_fns ev) = s \<and> ff_buffer (fv_fns ev) < length (fu_buffers fu) \<and>
        fv_result ev \<in> {COMPLETED, DROPPED} \<and> (fv_result ev = DROPPED \<longrightarrow> s = Writable) \<and>
        (fv_result ev = COMPLETED \<longleftrightarrow> fut_left (ff_buffer (fv_fns ev)) fu = 0))"

text \<open>The events of the two ends are about different buffers.\<close>

definition fut_apart :: "future \<Rightarrow> bool" where
  "fut_apart fu \<longleftrightarrow>
     (\<forall>ev ev'. fd_pendingEventFn (fut_end Readable fu) = Some ev \<longrightarrow> fd_pendingEventFn (fut_end Writable fu) = Some ev' \<longrightarrow>
        ff_buffer (fv_fns ev) \<noteq> ff_buffer (fv_fns ev'))"

definition fut_ok :: "future \<Rightarrow> bool" where
  "fut_ok fu \<longleftrightarrow> fut_end_ok Readable fu \<and> fut_end_ok Writable fu \<and> fut_pending_ok fu \<and> fut_apart fu"

lemma fut_end_upd [simp]:
  "fut_end s (upd_fut t f fu) = (if s = t then f (fut_end s fu) else fut_end s fu)"
  "fu_pending (upd_fut t f fu) = fu_pending fu" "fu_elemMeta (upd_fut t f fu) = fu_elemMeta fu"
  "fu_buffers (upd_fut t f fu) = fu_buffers fu" "fu_mems (upd_fut t f fu) = fu_mems fu"
  by (cases s; cases t; simp)+

lemma fut_end_fields [simp]:
  "fut_end s (fu\<lparr>fu_pending := p\<rparr>) = fut_end s fu" "fut_end s (fu\<lparr>fu_elemMeta := em\<rparr>) = fut_end s fu"
  "fut_end s (fu\<lparr>fu_buffers := bs\<rparr>) = fut_end s fu" "fut_end s (fu\<lparr>fu_mems := ms\<rparr>) = fut_end s fu"
  by (cases s; simp)+

lemma fut_load_upd [simp]:
  "load_fut i (upd_fut t f fu) = load_fut i fu" "load_fut i (fu\<lparr>fu_pending := p\<rparr>) = load_fut i fu"
  by (simp_all add: load_fut_def)

lemma fut_left_upd [simp]:
  "fut_left i (upd_fut t f fu) = fut_left i fu" "fut_left i (fu\<lparr>fu_pending := p\<rparr>) = fut_left i fu"
  "fut_left i (fu\<lparr>fu_read := e\<rparr>) = fut_left i fu" "fut_left i (fu\<lparr>fu_write := e\<rparr>) = fut_left i fu"
  "fut_left i (fu\<lparr>fu_mems := ms\<rparr>) = fut_left i fu" "fut_left i (fu\<lparr>fu_elemMeta := em\<rparr>) = fut_left i fu"
  by (simp_all add: fut_left_def load_fut_def remaining_def Let_def)

lemma source_ok_load: "source_ok (load_fut i fu) \<longleftrightarrow> source_ok (fb_buffer (fu_buffers fu ! i))"
  by (simp add: source_ok_def load_fut_def Let_def)

lemma fut_left_buffers: "fut_left i fu = remaining (fb_buffer (fu_buffers fu ! i))"
  by (simp add: fut_left_def load_fut_def remaining_def Let_def)

lemma store_fut_fields [simp]:
  "fut_end s (store_fut i b fu) = fut_end s fu" "fu_pending (store_fut i b fu) = fu_pending fu"
  "fu_elemMeta (store_fut i b fu) = fu_elemMeta fu" "length (fu_buffers (store_fut i b fu)) = length (fu_buffers fu)"
  by (cases s; simp add: store_fut_def Let_def)+

lemma store_fut_ends [simp]: "fu_read (store_fut i b fu) = fu_read fu" "fu_write (store_fut i b fu) = fu_write fu"
  by (simp_all add: store_fut_def Let_def)

lemma fut_left_store:
  "i < length (fu_buffers fu) \<Longrightarrow> fut_left j (store_fut i b fu) = (if j = i then remaining b else fut_left j fu)"
  by (simp add: fut_left_buffers store_fut_def Let_def)

lemmas fut_defs = fut_ok_def fut_end_ok_def fut_pending_ok_def fut_owner_def fut_isCopying_def fut_setCopyState_def
  fut_setPendingBufferMeta_def fut_resetPendingBufferMeta_def no_future_pending_def

text \<open>The protocol only sees the ends, the pending buffer, and what is left in the buffers.\<close>

lemma fut_ok_cong:
  assumes "\<And>s. fut_end s fu' = fut_end s fu" "fu_pending fu' = fu_pending fu" "length (fu_buffers fu) \<le> length (fu_buffers fu')"
    "\<And>i. i < length (fu_buffers fu) \<Longrightarrow> fut_left i fu' = fut_left i fu"
    "\<And>i. i < length (fu_buffers fu) \<Longrightarrow> source_ok (load_fut i fu) \<Longrightarrow> source_ok (load_fut i fu')" "fut_ok fu"
  shows "fut_ok fu'"
proof -
  have o: "fut_owner fu' = fut_owner fu" by (simp add: fut_owner_def assms(2))
  have "fut_end_ok s fu'" if "fut_end_ok s fu" for s
  proof (cases "fd_pendingEventFn (fut_end s fu)")
    case None
    with that show ?thesis by (simp add: fut_end_ok_def o assms(1))
  next
    case (Some ev)
    with that have "ff_buffer (fv_fns ev) < length (fu_buffers fu)" by (simp add: fut_end_ok_def)
    with Some that assms(3,4) show ?thesis by (auto simp: fut_end_ok_def o assms(1))
  qed
  moreover have "fut_pending_ok fu'"
    using assms(3-6) unfolding fut_ok_def fut_pending_ok_def assms(2) by (cases "fp_buffer (fu_pending fu)") auto
  moreover have "fut_apart fu'" using assms(6) unfolding fut_ok_def fut_apart_def assms(1) by blast
  ultimately show ?thesis using assms(6) unfolding fut_ok_def by blast
qed

section \<open>Taking an event\<close>

lemma fut_getPendingEvent_ok:
  assumes "fd_pendingEventFn (fut_end s fu) = Some ev" "ff_side (fv_fns ev) = s" "fv_result ev \<in> {COMPLETED, DROPPED}"
    "fv_result ev = COMPLETED \<longleftrightarrow> fut_left (ff_buffer (fv_fns ev)) fu = 0"
  shows "fut_getPendingEvent s fu =
    (Inr (Some \<lparr>fe_code = event_code s, fe_payload0 = fd_waitableIdx (fut_end s fu), fe_payload1 = result_code (fv_result ev)\<rparr>),
     upd_fut s (\<lambda>e. e\<lparr>fd_pendingEventFn := None, fd_copyState := DONE\<rparr>) fu)"
proof -
  have "remaining (load_fut (ff_buffer (fv_fns ev)) fu) = fut_left (ff_buffer (fv_fns ev)) fu" by (simp add: fut_left_def)
  moreover have "upd_fut s g (upd_fut s f fu) = upd_fut s (\<lambda>e. g (f e)) fu" for f g by (cases s; simp)
  ultimately show ?thesis using assms
    by (auto simp: fut_getPendingEvent_def futureEvent_def jbind_def jret_def fut_setCopyState_def Let_def)
qed

lemma fut_take_ok:
  assumes ok: "fut_ok fu" and ev: "fd_pendingEventFn (fut_end s fu) = Some ev"
  shows "fut_getPendingEvent s fu =
    (Inr (Some \<lparr>fe_code = event_code s, fe_payload0 = fd_waitableIdx (fut_end s fu), fe_payload1 = result_code (fv_result ev)\<rparr>),
     upd_fut s (\<lambda>e. e\<lparr>fd_pendingEventFn := None, fd_copyState := DONE\<rparr>) fu)"
    "fut_ok (upd_fut s (\<lambda>e. e\<lparr>fd_pendingEventFn := None, fd_copyState := DONE\<rparr>) fu)"
proof -
  have e: "fut_end_ok s fu" using ok by (cases s) (simp_all add: fut_ok_def)
  then show "fut_getPendingEvent s fu =
    (Inr (Some \<lparr>fe_code = event_code s, fe_payload0 = fd_waitableIdx (fut_end s fu), fe_payload1 = result_code (fv_result ev)\<rparr>),
     upd_fut s (\<lambda>e. e\<lparr>fd_pendingEventFn := None, fd_copyState := DONE\<rparr>) fu)"
    using ev by (intro fut_getPendingEvent_ok) (auto simp: fut_end_ok_def)
  have o: "fut_owner fu \<noteq> Some s" using e ev by (auto simp: fut_end_ok_def)
  let ?fu = "upd_fut s (\<lambda>e. e\<lparr>fd_pendingEventFn := None, fd_copyState := DONE\<rparr>) fu"
  have "fut_end_ok t ?fu" if "fut_end_ok t fu" for t
    using that o by (auto simp: fut_end_ok_def fut_owner_def fut_isCopying_def)
  moreover have "fut_pending_ok ?fu"
    using ok unfolding fut_ok_def fut_pending_ok_def fut_end_upd fut_load_upd fut_left_upd by blast
  moreover have "fut_apart ?fu" using ok by (simp add: fut_ok_def fut_apart_def)
  ultimately show "fut_ok ?fu" using ok by (simp add: fut_ok_def)
qed

section \<open>Copying the value\<close>

lemma buf_read_one:
  assumes "buf_read (Some 1) b = (Inr vs, b')" "source_ok b"
  shows "length vs = 1 \<and> remaining b' = remaining b - 1"
proof -
  have "lift_values f 1 c = Inr (ws, c') \<Longrightarrow> length ws = 1" for f c ws c'
    by (auto simp: rbind_Inr_iff)
  then have s: "length ws = 1 \<and> mb_capacity b1 = mb_capacity b \<and> mb_processed b1 = mb_processed b"
    if "read_source 1 b = Inr (ws, b1)" for ws b1
    using that assms(2)
    by (auto simp: read_source_def rbind_Inr_iff host_slice_def bytes_from_def byte_view_def mem_read_def Let_def source_ok_def
      split: option.splits if_splits val.splits)
  show ?thesis
  proof (cases "isNone (mb_elemMeta b)")
    case True
    with assms(1) show ?thesis by (auto simp: buf_read_def remaining_def split: if_splits)
  next
    case False
    with assms(1) obtain b1 where "read_source 1 b = Inr (vs, b1)" "b' = b1\<lparr>mb_processed := mb_processed b1 + 1\<rparr>"
      by (auto simp: buf_read_def split: if_splits sum.splits)
    with s show ?thesis by (auto simp: remaining_def)
  qed
qed

lemma buf_write_left:
  assumes "buf_write (VArr vs) b = (Inr (), b')"
  shows "remaining b' = remaining b - int (length vs)"
proof -
  have w: "mb_capacity b1 = mb_capacity b \<and> mb_processed b1 = mb_processed b" if "write_target vs b = (Inr (), b1)" for b1
    using that by (auto simp: write_target_def split: option.splits if_splits sum.splits prod.splits val.splits)
  show ?thesis
    using assms w by (auto simp: buf_write_def remaining_def split: if_splits sum.splits prod.splits)
qed

lemma fut_transfer_ok:
  assumes t: "fut_transfer src dst fu = (Inr (), fu')" and "src < length (fu_buffers fu)" "dst < length (fu_buffers fu)" "src \<noteq> dst"
    and "fut_left src fu = 1" "fut_left dst fu = 1" "source_ok (load_fut src fu)"
  shows "(\<forall>s. fut_end s fu' = fut_end s fu) \<and> fu_pending fu' = fu_pending fu \<and> length (fu_buffers fu') = length (fu_buffers fu) \<and>
    fut_left src fu' = 0 \<and> fut_left dst fu' = 0 \<and> (\<forall>i. i \<noteq> src \<and> i \<noteq> dst \<longrightarrow> fut_left i fu' = fut_left i fu)"
proof -
  obtain r b where r: "buf_read (Some 1) (load_fut src fu) = (r, b)" by fastforce
  with t obtain vs where vs: "r = Inr vs" by (cases r) (auto simp: fut_transfer_def jbind_def on_fut_buffer_def)
  let ?f = "store_fut src b fu"
  obtain q d where w: "buf_write (VArr vs) (load_fut dst ?f) = (q, d)" by fastforce
  with t r vs have q: "q = Inr ()" "fu' = store_fut dst d ?f" by (auto simp: fut_transfer_def jbind_def on_fut_buffer_def)
  from buf_read_one [OF r [unfolded vs] assms(7)] have b: "length vs = 1" "remaining b = 0" using assms(5) by (simp_all add: fut_left_def)
  have "fut_left dst ?f = 1" using assms(2,4,6) by (simp add: fut_left_store)
  then have "remaining d = 0" using buf_write_left [OF w [unfolded q(1)]] b(1) by (simp add: fut_left_def)
  then show ?thesis using assms(2-4) b(2) by (auto simp: q(2) fut_left_store)
qed

text \<open>An idle end whose operation has registered its buffer or has its event.\<close>

definition fut_joined :: "side \<Rightarrow> future \<Rightarrow> bool" where
  "fut_joined s fu \<longleftrightarrow> fd_copyState (fut_end s fu) = IDLE \<and> fut_ok (fut_setCopyState s ASYNC_COPYING fu)"

lemma fut_okI:
  assumes "fut_end_ok s fu" "fut_end_ok (other_side s) fu" "fut_pending_ok fu" "fut_apart fu"
  shows "fut_ok fu"
  using assms by (cases s) (simp_all add: fut_ok_def)

lemma fut_okD: "fut_ok fu \<Longrightarrow> fut_end_ok s fu" "fut_ok fu \<Longrightarrow> fut_pending_ok fu" "fut_ok fu \<Longrightarrow> fut_apart fu"
  by (cases s; simp add: fut_ok_def)+

text \<open>Registering the buffer.\<close>

lemma fut_register_ok:
  assumes ok: "fut_ok fu" and idle: "fd_copyState (fut_end s fu) = IDLE" and n: "fp_buffer (fu_pending fu) = None"
    and b: "b < length (fu_buffers fu)" "fut_left b fu = 1" "s = Writable \<longrightarrow> source_ok (load_fut b fu)"
  shows "fut_joined s (fut_setPendingBufferMeta c (Some b) (Some \<lparr>ff_side = s, ff_buffer = b\<rparr>) fu)"
proof -
  let ?fu = "fut_setCopyState s ASYNC_COPYING (fut_setPendingBufferMeta c (Some b) (Some \<lparr>ff_side = s, ff_buffer = b\<rparr>) fu)"
  have e: "fd_pendingEventFn (fut_end s fu) = None"
    using fut_okD(1) [OF ok, of s] idle by (cases "fd_pendingEventFn (fut_end s fu)") (auto simp: fut_end_ok_def fut_isCopying_def)
  have "fut_end_ok s ?fu" using e by (simp add: fut_defs)
  moreover have "fut_end_ok (other_side s) ?fu"
    using fut_okD(1) [OF ok, of "other_side s"] n by (auto simp: fut_defs)
  moreover have "fut_pending_ok ?fu" using b by (simp add: fut_defs)
  moreover have "fut_apart ?fu" using e by (cases s) (simp_all add: fut_apart_def fut_defs)
  ultimately show ?thesis using idle unfolding fut_joined_def
    by (auto intro: fut_okI simp: fut_setPendingBufferMeta_def)
qed

text \<open>Meeting the pending buffer: it is the other end's, since this one is idle.\<close>

lemma fut_pending_other:
  assumes ok: "fut_ok fu" and idle: "fd_copyState (fut_end s fu) = IDLE" and p: "fp_buffer (fu_pending fu) = Some pb"
  shows "fp_onCopyDoneFn (fu_pending fu) = Some \<lparr>ff_side = other_side s, ff_buffer = pb\<rparr>"
    "pb < length (fu_buffers fu)" "fut_left pb fu = 1" "other_side s = Writable \<Longrightarrow> source_ok (load_fut pb fu)"
    "fut_isCopying (fut_end (other_side s) fu)" "fd_pendingEventFn (fut_end (other_side s) fu) = None"
proof -
  from fut_okD(2) [OF ok] p obtain f where f: "fp_onCopyDoneFn (fu_pending fu) = Some f" "ff_buffer f = pb"
    "pb < length (fu_buffers fu)" "fut_left pb fu = 1" "ff_side f = Writable \<longrightarrow> source_ok (load_fut pb fu)"
    by (auto simp: fut_pending_ok_def)
  have "fut_owner fu = Some (ff_side f)" using f p by (simp add: fut_owner_def)
  moreover have "fut_owner fu \<noteq> Some s" using fut_okD(1) [OF ok, of s] idle by (auto simp: fut_end_ok_def fut_isCopying_def)
  ultimately have o: "ff_side f = other_side s" "fut_owner fu = Some (other_side s)"
    using side_other [of "ff_side f" s] by auto
  show "fp_onCopyDoneFn (fu_pending fu) = Some \<lparr>ff_side = other_side s, ff_buffer = pb\<rparr>"
    using f o by (cases f) simp
  show "pb < length (fu_buffers fu)" "fut_left pb fu = 1" "other_side s = Writable \<Longrightarrow> source_ok (load_fut pb fu)"
    using f o by simp_all
  show "fut_isCopying (fut_end (other_side s) fu)" "fd_pendingEventFn (fut_end (other_side s) fu) = None"
    using fut_okD(1) [OF ok, of "other_side s"] o(2) by (auto simp: fut_end_ok_def)
qed

lemma idle_no_event:
  "fut_ok fu \<Longrightarrow> fd_copyState (fut_end s fu) = IDLE \<Longrightarrow> fd_pendingEventFn (fut_end s fu) = None"
  using fut_okD(1) [of fu s] by (cases "fd_pendingEventFn (fut_end s fu)") (auto simp: fut_end_ok_def fut_isCopying_def)

definition fut_done_event :: "side \<Rightarrow> nat \<Rightarrow> future_event_fn" where
  "fut_done_event s b = \<lparr>fv_fns = \<lparr>ff_side = s, ff_buffer = b\<rparr>, fv_result = COMPLETED\<rparr>"

lemma fut_met_ok:
  assumes ok: "fut_ok fu" and idle: "fd_copyState (fut_end s fu) = IDLE" and p: "fp_buffer (fu_pending fu) = Some pb"
    and b: "b < length (fu_buffers fu)" "fut_left b fu = 1" "s = Writable \<longrightarrow> source_ok (load_fut b fu)" "pb \<noteq> b"
    and sd: "(src, dst) = (if s = Readable then (pb, b) else (b, pb))"
    and m: "fut_met src dst \<lparr>ff_side = s, ff_buffer = b\<rparr> fu = (Inr (), fu')"
  shows "fut_joined s fu'" "fd_pendingEventFn (fut_end s fu') = Some (fut_done_event s b)"
    "fd_pendingEventFn (fut_end (other_side s) fu') = Some (fut_done_event (other_side s) pb)"
    "fd_copyState (fut_end (other_side s) fu') = fd_copyState (fut_end (other_side s) fu)"
    "length (fu_buffers fu') = length (fu_buffers fu)"
proof -
  note po = fut_pending_other [OF ok idle p]
  obtain r fu1 where t: "fut_transfer src dst fu = (r, fu1)" by fastforce
  with m have r: "r = Inr ()" by (cases r) (auto simp: fut_met_def jbind_def)
  have sd': "src < length (fu_buffers fu)" "dst < length (fu_buffers fu)" "src \<noteq> dst" "fut_left src fu = 1" "fut_left dst fu = 1"
    "source_ok (load_fut src fu)" "\<And>i. (i \<noteq> src \<and> i \<noteq> dst) = (i \<noteq> pb \<and> i \<noteq> b)" "fut_left b x = fut_left src x \<or> fut_left b x = fut_left dst x"
    for x using sd b po(2-4) by (cases s; auto)+
  from fut_transfer_ok [OF t [unfolded r] sd'(1-6)] have
    t1: "\<And>u. fut_end u fu1 = fut_end u fu" "fu_pending fu1 = fu_pending fu" "length (fu_buffers fu1) = length (fu_buffers fu)"
      "fut_left pb fu1 = 0" "fut_left b fu1 = 0" "\<And>i. i \<noteq> pb \<Longrightarrow> i \<noteq> b \<Longrightarrow> fut_left i fu1 = fut_left i fu"
    using sd by (cases s; simp)+
  have "fu' = upd_fut s (\<lambda>e. e\<lparr>fd_pendingEventFn := Some (fut_done_event s b)\<rparr>)
      (upd_fut (other_side s) (\<lambda>e. e\<lparr>fd_pendingEventFn := Some (fut_done_event (other_side s) pb)\<rparr>) (fut_resetPendingBufferMeta fu1))"
    using m t r t1(2) po(1)
    by (simp add: fut_met_def jbind_def fut_resetAndNotifyPending_def fut_onCopyDoneFn_def fut_done_event_def)
  note fu' = this
  have ends: "fut_end s fu' = (fut_end s fu)\<lparr>fd_pendingEventFn := Some (fut_done_event s b)\<rparr>"
    "fut_end (other_side s) fu' = (fut_end (other_side s) fu)\<lparr>fd_pendingEventFn := Some (fut_done_event (other_side s) pb)\<rparr>"
    by (simp_all add: fu' fut_resetPendingBufferMeta_def fut_setPendingBufferMeta_def t1(1))
  show "fd_pendingEventFn (fut_end s fu') = Some (fut_done_event s b)"
    "fd_pendingEventFn (fut_end (other_side s) fu') = Some (fut_done_event (other_side s) pb)"
    "fd_copyState (fut_end (other_side s) fu') = fd_copyState (fut_end (other_side s) fu)" by (simp_all add: ends)
  have left: "fut_left i fu' = fut_left i fu1" for i
    by (simp add: fu' fut_resetPendingBufferMeta_def fut_setPendingBufferMeta_def)
  show len: "length (fu_buffers fu') = length (fu_buffers fu)"
    by (simp add: fu' fut_resetPendingBufferMeta_def fut_setPendingBufferMeta_def t1(3))
  have pend: "fu_pending fu' = no_future_pending"
    by (simp add: fu' fut_resetPendingBufferMeta_def fut_setPendingBufferMeta_def no_future_pending_def)
  let ?fu = "fut_setCopyState s ASYNC_COPYING fu'"
  have "fut_end_ok s ?fu"
    using b(1) len left t1(5) by (simp add: fut_end_ok_def fut_owner_def fut_setCopyState_def pend no_future_pending_def ends fut_done_event_def fut_isCopying_def)
  moreover have "fut_end_ok (other_side s) ?fu"
    using po(2,5) len left t1(4) by (simp add: fut_end_ok_def fut_owner_def fut_setCopyState_def pend no_future_pending_def ends fut_done_event_def fut_isCopying_def)
  moreover have "fut_pending_ok ?fu" by (simp add: fut_pending_ok_def fut_setCopyState_def pend no_future_pending_def)
  moreover have "fut_apart ?fu" using ends b(4) by (cases s) (simp_all add: fut_apart_def fut_setCopyState_def fut_done_event_def)
  ultimately show "fut_joined s fu'" using idle unfolding fut_joined_def by (auto intro: fut_okI simp: ends)
qed

text \<open>A write to an end that was dropped.\<close>

lemma fut_dropped_ok:
  assumes ok: "fut_ok fu" and idle: "fd_copyState (fut_end Writable fu) = IDLE"
    and b: "b < length (fu_buffers fu)" "fut_left b fu = 1" "\<And>ev. fd_pendingEventFn (fu_read fu) = Some ev \<Longrightarrow> ff_buffer (fv_fns ev) \<noteq> b"
    and d: "fut_onCopyDoneFn \<lparr>ff_side = Writable, ff_buffer = b\<rparr> DROPPED fu = (Inr (), fu')"
  shows "fut_joined Writable fu'"
proof -
  have fu': "fu' = upd_fut Writable (\<lambda>e. e\<lparr>fd_pendingEventFn := Some \<lparr>fv_fns = \<lparr>ff_side = Writable, ff_buffer = b\<rparr>, fv_result = DROPPED\<rparr>\<rparr>) fu"
    using d by (simp add: fut_onCopyDoneFn_def)
  have o: "fut_owner fu \<noteq> Some Writable" using fut_okD(1) [OF ok, of Writable] idle by (auto simp: fut_end_ok_def fut_isCopying_def)
  let ?fu = "fut_setCopyState Writable ASYNC_COPYING fu'"
  have ow: "fut_owner ?fu = fut_owner fu" by (simp add: fut_owner_def fu' fut_setCopyState_def)
  have "fut_end_ok Writable ?fu"
    using b o by (simp add: fut_end_ok_def ow) (simp add: fu' fut_setCopyState_def fut_isCopying_def)
  moreover have "fut_end_ok Readable ?fu"
    using fut_okD(1) [OF ok, of Readable] unfolding fut_end_ok_def ow by (auto simp: fu' fut_setCopyState_def)
  moreover have "fut_pending_ok ?fu"
    using fut_okD(2) [OF ok] unfolding fu' fut_setCopyState_def fut_pending_ok_def fut_end_upd fut_load_upd fut_left_upd .
  moreover have "fut_apart ?fu" using b(3) by (simp add: fut_apart_def fut_setCopyState_def fu')
  ultimately show ?thesis using idle by (simp add: fut_joined_def fut_ok_def fu')
qed

section \<open>The operations\<close>

text \<open>A new buffer for one value.\<close>

lemma fut_createBuffer_ok:
  assumes "fut_createBuffer a fu = (Inr b, fu')"
  shows "b = length (fu_buffers fu)" "\<And>s. fut_end s fu' = fut_end s fu" "fu_pending fu' = fu_pending fu"
    "length (fu_buffers fu') = Suc (length (fu_buffers fu))" "\<And>i. i < length (fu_buffers fu) \<Longrightarrow> fut_left i fu' = fut_left i fu"
    "\<And>i. i < length (fu_buffers fu) \<Longrightarrow> source_ok (load_fut i fu') = source_ok (load_fut i fu)"
    "fut_left b fu' = 1" "mb_hostOnlyData (load_fut b fu') = fa_data a"
proof -
  let ?r = "newManagedBuffer \<lparr>ba_componentIdx = Some (fa_componentIdx a), ba_memory = map_option (\<lambda>k. fu_mems fu ! k) (fa_memory a),
               ba_start = fa_ptr a, ba_capacity = Some 1, ba_elemMeta = Some (fu_elemMeta fu), ba_data = fa_data a, ba_target = VUndef\<rparr>"
  from assms obtain mb where r: "?r = Inr mb" "b = length (fu_buffers fu)"
    "fu' = fu\<lparr>fu_buffers := fu_buffers fu @ [\<lparr>fb_buffer = mb, fb_memory = fa_memory a\<rparr>]\<rparr>"
    by (auto simp: fut_createBuffer_def split: if_splits sum.splits)
  from r(1) have mb: "mb_capacity mb = 1" "mb_processed mb = 0" "mb_hostOnlyData mb = fa_data a"
    by (auto simp: newManagedBuffer_def split: if_splits)
  show "b = length (fu_buffers fu)" "\<And>s. fut_end s fu' = fut_end s fu" "fu_pending fu' = fu_pending fu"
    "length (fu_buffers fu') = Suc (length (fu_buffers fu))" using r by simp_all
  show "fut_left i fu' = fut_left i fu" if "i < length (fu_buffers fu)" for i
    using that by (simp add: r(3) fut_left_buffers nth_append)
  show "source_ok (load_fut i fu') = source_ok (load_fut i fu)" if "i < length (fu_buffers fu)" for i
    using that by (simp add: r(3) source_ok_load nth_append)
  show "fut_left b fu' = 1" using mb by (simp add: r(2,3) fut_left_buffers remaining_def)
  show "mb_hostOnlyData (load_fut b fu') = fa_data a" using mb by (simp add: r(2,3) load_fut_def Let_def)
qed

definition good_data :: "side \<Rightarrow> fut_args \<Rightarrow> bool" where
  "good_data s a \<longleftrightarrow> (s = Writable \<longrightarrow> (\<forall>ds. fa_data a = VArr ds \<longrightarrow> length ds = 1))"

text \<open>An event of the operation names the buffer it made.\<close>

definition fut_event_buffer :: "side \<Rightarrow> nat \<Rightarrow> future \<Rightarrow> bool" where
  "fut_event_buffer s b fu \<longleftrightarrow> (\<forall>ev. fd_pendingEventFn (fut_end s fu) = Some ev \<longrightarrow> ff_buffer (fv_fns ev) = b)"

lemma guest_op_ok:
  assumes ok: "fut_ok fu" and idle: "fd_copyState (fut_end s fu) = IDLE" and d: "good_data s a"
    and g: "guest_op s a fu = (Inr b, fu')"
  shows "fut_joined s fu' \<and> b = length (fu_buffers fu) \<and> length (fu_buffers fu') = Suc (length (fu_buffers fu)) \<and>
    fd_copyState (fut_end (other_side s) fu') = fd_copyState (fut_end (other_side s) fu) \<and> fut_event_buffer s b fu'"
proof -
  let ?m = "fu\<lparr>fu_elemMeta := fut_take_meta a (fu_elemMeta fu)\<rparr>"
  let ?f = "\<lambda>b. \<lparr>ff_side = s, ff_buffer = b\<rparr>"
  have okm: "fut_ok ?m"
    by (rule fut_ok_cong [OF _ _ _ _ _ ok]) (simp_all add: source_ok_load)
  from g obtain fu1 where c: "fut_createBuffer a ?m = (Inr b, fu1)" and rw: "fut_rw s b (?f b) (fa_componentIdx a) fu1 = (Inr (), fu')"
    by (auto simp: guest_op_def jbind_def jassign_def jguard_def jret_def split: if_splits sum.splits prod.splits)
  note cb = fut_createBuffer_ok [OF c]
  have ok1: "fut_ok fu1" by (rule fut_ok_cong [OF _ _ _ _ _ okm]) (use cb in simp_all)
  have idle1: "fd_copyState (fut_end s fu1) = IDLE" using idle cb(2) by simp
  have b: "b < length (fu_buffers fu1)" "fut_left b fu1 = 1" using cb(1,4,7) by simp_all
  have "ff_buffer (fv_fns ev) < length (fu_buffers fu)" if "fd_pendingEventFn (fu_read fu) = Some ev" for ev
    using fut_okD(1) [OF ok, of Readable] that by (simp add: fut_end_ok_def)
  then have fresh: "ff_buffer (fv_fns ev) \<noteq> b" if "fd_pendingEventFn (fu_read fu1) = Some ev" for ev
    using that cb(1) cb(2) [of Readable] by fastforce
  have so: "s = Writable \<longrightarrow> source_ok (load_fut b fu1)" using d cb(8) by (auto simp: good_data_def source_ok_def)
  have goal: "fut_joined s fu' \<and> length (fu_buffers fu') = length (fu_buffers fu1) \<and>
      fd_copyState (fut_end (other_side s) fu') = fd_copyState (fut_end (other_side s) fu1) \<and> fut_event_buffer s b fu'"
  proof (cases "s = Writable \<and> fd_dropped (fu_write fu1)")
    case True
    then have "fut_onCopyDoneFn (?f b) DROPPED fu1 = (Inr (), fu')" using rw b(2) by (simp add: fut_write_def fut_left_def)
    moreover from this True have "fut_joined s fu'" using fut_dropped_ok [OF ok1] idle1 b fresh by simp
    ultimately show ?thesis using True by (auto simp: fut_onCopyDoneFn_def fut_event_buffer_def)
  next
    case nd: False
    show ?thesis
    proof (cases "fp_buffer (fu_pending fu1)")
      case None
      obtain c where fu': "fu' = fut_setPendingBufferMeta c (Some b) (Some (?f b)) fu1"
        using rw nd None b(2) by (cases s) (auto simp: fut_read_def fut_write_def fut_left_def split: if_splits)
      have "fut_event_buffer s b fu'" using idle_no_event [OF ok1 idle1] by (simp add: fu' fut_event_buffer_def fut_setPendingBufferMeta_def)
      then show ?thesis using fut_register_ok [OF ok1 idle1 None b so] by (simp add: fu') (simp add: fut_setPendingBufferMeta_def)
    next
      case (Some pb)
      have "pb < length (fu_buffers ?m)" using fut_pending_other(2) [OF okm] idle Some cb(3) by simp
      then have ne: "pb \<noteq> b" using cb(1) by simp
      have met: "fut_met (fst (if s = Readable then (pb, b) else (b, pb))) (snd (if s = Readable then (pb, b) else (b, pb))) (?f b) fu1 = (Inr (), fu')"
        using rw nd Some b(2) by (cases s) (auto simp: fut_read_def fut_write_def fut_left_def split: if_splits)
      from fut_met_ok [OF ok1 idle1 Some b so ne _ met] show ?thesis by (simp add: fut_event_buffer_def fut_done_event_def)
    qed
  qed
  then show ?thesis using cb(1,2,4) by simp
qed

lemma fut_joined_event:
  assumes "fut_joined s fu" "fd_pendingEventFn (fut_end s fu) = Some ev"
  shows "fut_getPendingEvent s fu =
    (Inr (Some \<lparr>fe_code = event_code s, fe_payload0 = fd_waitableIdx (fut_end s fu), fe_payload1 = result_code (fv_result ev)\<rparr>),
     upd_fut s (\<lambda>e. e\<lparr>fd_pendingEventFn := None, fd_copyState := DONE\<rparr>) fu)"
    "fut_ok (upd_fut s (\<lambda>e. e\<lparr>fd_pendingEventFn := None, fd_copyState := DONE\<rparr>) fu)"
proof -
  let ?fu = "fut_setCopyState s ASYNC_COPYING fu"
  have ok: "fut_ok ?fu" and ev: "fd_pendingEventFn (fut_end s ?fu) = Some ev" using assms by (simp_all add: fut_joined_def fut_setCopyState_def)
  have "fut_end_ok s ?fu" by (rule fut_okD(1) [OF ok])
  then show "fut_getPendingEvent s fu =
    (Inr (Some \<lparr>fe_code = event_code s, fe_payload0 = fd_waitableIdx (fut_end s fu), fe_payload1 = result_code (fv_result ev)\<rparr>),
     upd_fut s (\<lambda>e. e\<lparr>fd_pendingEventFn := None, fd_copyState := DONE\<rparr>) fu)"
    using ev assms(2) by (intro fut_getPendingEvent_ok) (auto simp: fut_end_ok_def fut_setCopyState_def)
  have "upd_fut s (\<lambda>e. e\<lparr>fd_pendingEventFn := None, fd_copyState := DONE\<rparr>) ?fu = upd_fut s (\<lambda>e. e\<lparr>fd_pendingEventFn := None, fd_copyState := DONE\<rparr>) fu"
    by (cases s) (simp_all add: fut_setCopyState_def)
  with fut_take_ok(2) [OF ok ev] show "fut_ok (upd_fut s (\<lambda>e. e\<lparr>fd_pendingEventFn := None, fd_copyState := DONE\<rparr>) fu)" by simp
qed

text \<open>The state of a copy that has no event may be either kind of copying.\<close>

lemma fut_joined_copying:
  assumes "fut_joined s fu" "st \<in> {SYNC_COPYING, ASYNC_COPYING}"
  shows "fut_ok (fut_setCopyState s st fu)"
proof -
  let ?fu = "fut_setCopyState s ASYNC_COPYING fu" and ?fu' = "fut_setCopyState s st fu"
  have ok: "fut_ok ?fu" using assms(1) by (simp add: fut_joined_def)
  have o: "fut_owner ?fu' = fut_owner ?fu" by (simp add: fut_owner_def fut_setCopyState_def)
  have "fut_end_ok t ?fu'" for t
    using fut_okD(1) [OF ok, of t] assms(2) unfolding fut_end_ok_def o by (auto simp: fut_setCopyState_def fut_isCopying_def)
  moreover have "fut_pending_ok ?fu'"
    using fut_okD(2) [OF ok] unfolding fut_setCopyState_def fut_pending_ok_def fut_end_upd fut_load_upd fut_left_upd .
  moreover have "fut_apart ?fu'" using fut_okD(3) [OF ok] by (simp add: fut_apart_def fut_setCopyState_def split: if_splits)
  ultimately show ?thesis by (simp add: fut_ok_def)
qed

section \<open>The invariant\<close>

text \<open>How an end's state may change: a finished end stays finished.\<close>

definition fut_keeps_done :: "future \<Rightarrow> future \<Rightarrow> bool" where
  "fut_keeps_done fu fu' \<longleftrightarrow> (\<forall>s. fd_copyState (fut_end s fu) = DONE \<longrightarrow> fd_copyState (fut_end s fu') = DONE)"

lemma fut_keeps_done_side:
  assumes "fd_copyState (fut_end s fu) \<noteq> DONE \<or> fd_copyState (fut_end s fu') = DONE"
    "fd_copyState (fut_end (other_side s) fu') = fd_copyState (fut_end (other_side s) fu)"
  shows "fut_keeps_done fu fu'"
proof -
  have "fd_copyState (fut_end t fu') = DONE" if "fd_copyState (fut_end t fu) = DONE" for t
    using that assms side_other [of t s] by (cases "t = s") auto
  then show ?thesis by (simp add: fut_keeps_done_def)
qed

lemma fut_taken_done:
  "fut_keeps_done fu (upd_fut s (\<lambda>e. e\<lparr>fd_pendingEventFn := None, fd_copyState := DONE\<rparr>) fu)"
  by (rule fut_keeps_done_side [of s]) simp_all

lemma future_finish_ok:
  assumes ok: "fut_ok fu" and f: "future_finish s fu = (Inr p, fu')"
  shows "fut_ok fu' \<and> fut_keeps_done fu fu'"
proof (cases "fd_pendingEventFn (fut_end s fu)")
  case None
  with f show ?thesis by (simp add: future_finish_def jbind_def fut_getPendingEvent_def jthrow_def)
next
  case (Some ev)
  have "fu' = upd_fut s (\<lambda>e. e\<lparr>fd_pendingEventFn := None, fd_copyState := DONE\<rparr>) fu"
    using f fut_take_ok(1) [OF ok Some] by (auto simp: future_finish_def jbind_def split: if_splits)
  with fut_take_ok(2) [OF ok Some] fut_taken_done show ?thesis by simp
qed

lemma future_rest_ok:
  assumes j: "fut_joined s fu" and f: "future_rest s isAsync fu = (Inr p, fu')"
  shows "fut_ok fu' \<and> fd_copyState (fut_end (other_side s) fu') = fd_copyState (fut_end (other_side s) fu)"
proof (cases "fd_pendingEventFn (fut_end s fu)")
  case None
  with f obtain st where "fu' = fut_setCopyState s st fu" "st \<in> {SYNC_COPYING, ASYNC_COPYING}"
    by (auto simp: future_rest_def fut_hasPendingEvent_def split: if_splits)
  with fut_joined_copying [OF j] show ?thesis by (simp add: fut_setCopyState_def)
next
  case (Some ev)
  have "fu' = upd_fut s (\<lambda>e. e\<lparr>fd_pendingEventFn := None, fd_copyState := DONE\<rparr>) fu"
    using f Some fut_joined_event(1) [OF j Some]
    by (auto simp: future_rest_def fut_hasPendingEvent_def future_finish_def jbind_def jret_def split: if_splits)
  with fut_joined_event(2) [OF j Some] show ?thesis by simp
qed

lemma host_start_ok:
  assumes ok: "fut_ok fu" and idle: "fd_copyState (fut_end s fu) = IDLE" and d: "good_data s a" and h: "host_start s a fu = (Inr b, fu')"
  shows "fut_keeps_done fu fu' \<and> (if fut_hasPendingEvent s fu' then fut_joined s fu' else fut_ok fu')"
proof -
  from h obtain fu1 where g: "guest_op s a fu = (Inr b, fu1)"
    "fu' = (if fut_hasPendingEvent s fu1 then fu1 else fut_setCopyState s ASYNC_COPYING fu1)"
    by (auto simp: host_start_def jbind_def split: sum.splits prod.splits)
  note go = guest_op_ok [OF ok idle d g(1)]
  have "fut_keeps_done fu fu'" by (rule fut_keeps_done_side [of s]) (use idle go g(2) in \<open>simp_all add: fut_setCopyState_def\<close>)
  moreover have "fut_hasPendingEvent s (fut_setCopyState s ASYNC_COPYING fu1) = fut_hasPendingEvent s fu1"
    by (simp add: fut_hasPendingEvent_def fut_setCopyState_def)
  ultimately show ?thesis using go g(2) fut_joined_copying [of s fu1] by auto
qed

text \<open>The buffer of a read end's event is no longer used by the rest of the future.\<close>

lemma fut_store_unused:
  assumes ok: "fut_ok fu" and b: "b < length (fu_buffers fu)" "fp_buffer (fu_pending fu) \<noteq> Some b"
    "\<And>s ev. fd_pendingEventFn (fut_end s fu) = Some ev \<Longrightarrow> ff_buffer (fv_fns ev) \<noteq> b"
  shows "fut_ok (store_fut b mb fu)"
proof -
  let ?fu = "store_fut b mb fu"
  have o: "fut_owner ?fu = fut_owner fu" by (simp add: fut_owner_def)
  have e: "fut_end_ok s ?fu" if "fut_end_ok s fu" for s
    using that b(1) b(3) [of s] by (auto simp: fut_end_ok_def o fut_left_store)
  have "source_ok (load_fut i ?fu) = source_ok (load_fut i fu)" if "i \<noteq> b" for i
    using that by (simp add: source_ok_load store_fut_def Let_def)
  then have "fut_pending_ok ?fu"
    using fut_okD(2) [OF ok] b(1,2) by (cases "fp_buffer (fu_pending fu)") (auto simp: fut_pending_ok_def fut_left_store)
  moreover have "fut_apart ?fu" using fut_okD(3) [OF ok] by (simp add: fut_apart_def)
  ultimately show ?thesis using e fut_okD(1) [OF ok] by (simp add: fut_ok_def)
qed

abbreviation fut_taken :: "side \<Rightarrow> future \<Rightarrow> future" where
  "fut_taken s fu \<equiv> upd_fut s (\<lambda>e. e\<lparr>fd_pendingEventFn := None, fd_copyState := DONE\<rparr>) fu"

lemma fut_read_taken:
  assumes ok: "fut_ok fu" and ev: "fd_pendingEventFn (fu_read fu) = Some ev"
  shows "fut_ok (store_fut (ff_buffer (fv_fns ev)) mb (fut_taken Readable fu))"
proof (rule fut_store_unused)
  have e: "fut_end_ok Readable fu" "fut_pending_ok fu" "fut_apart fu" using fut_okD [OF ok] by simp_all
  show "fut_ok (fut_taken Readable fu)" using fut_take_ok(2) [OF ok, of Readable ev] ev by simp
  show "ff_buffer (fv_fns ev) < length (fu_buffers (fut_taken Readable fu))" using e(1) ev by (simp add: fut_end_ok_def)
  have "fut_left (ff_buffer (fv_fns ev)) fu = 0" using e(1) ev by (auto simp: fut_end_ok_def)
  then show "fp_buffer (fu_pending (fut_taken Readable fu)) \<noteq> Some (ff_buffer (fv_fns ev))" using e(2) by (auto simp: fut_pending_ok_def)
  show "ff_buffer (fv_fns ev') \<noteq> ff_buffer (fv_fns ev)"
    if "fd_pendingEventFn (fut_end s (fut_taken Readable fu)) = Some ev'" for s ev'
    using that e(3) ev by (cases s) (auto simp: fut_apart_def)
qed

lemma fut_taken_copying: "fut_taken s (fut_setCopyState s st fu) = fut_taken s fu"
  by (cases s) (simp_all add: fut_setCopyState_def)

lemma future_finish_taken:
  assumes "fut_ok fu \<or> fut_joined s fu" "fd_pendingEventFn (fut_end s fu) = Some ev"
  shows "future_finish s fu = (Inr (result_code (fv_result ev)), fut_taken s fu)"
  using assms fut_take_ok(1) [of fu s ev] fut_joined_event(1) [of s fu ev] by (auto simp: future_finish_def jbind_def)

lemma host_read_taken:
  assumes "fut_ok fu \<or> fut_joined Readable fu" "fd_pendingEventFn (fu_read fu) = Some ev"
  shows "fut_ok (store_fut (ff_buffer (fv_fns ev)) mb (fut_taken Readable fu))"
proof (cases "fut_ok fu")
  case True
  with fut_read_taken assms(2) show ?thesis by blast
next
  case False
  let ?fu = "fut_setCopyState Readable ASYNC_COPYING fu"
  have ok: "fut_ok ?fu" using False assms(1) by (simp add: fut_joined_def)
  have ev: "fd_pendingEventFn (fu_read ?fu) = Some ev" using assms(2) by (simp add: fut_setCopyState_def)
  show ?thesis using fut_read_taken [OF ok ev, of mb] by (simp only: fut_taken_copying)
qed

lemma hostRead_finish_ok:
  assumes "fut_ok fu \<or> fut_joined Readable fu" "fd_pendingEventFn (fu_read fu) = Some ev" "b = ff_buffer (fv_fns ev)"
    "hostRead_finish b fu = (Inr v, fu')"
  shows "fut_ok fu' \<and> fut_keeps_done fu fu'"
proof -
  have "future_finish Readable fu = (Inr (result_code (fv_result ev)), fut_taken Readable fu)"
    using future_finish_taken [of fu Readable ev] assms(1,2) by simp
  then obtain mb where "fu' = store_fut b mb (fut_taken Readable fu)"
    using assms(4) by (auto simp: hostRead_finish_def jbind_def on_fut_buffer_def jret_def jthrow_def split: prod.splits sum.splits list.splits)
  with host_read_taken [OF assms(1,2), of mb] assms(3) show ?thesis
    using fut_taken_done [of fu Readable] by (auto simp: fut_keeps_done_def)
qed

lemma host_op_joined:
  assumes ok: "fut_ok fu" and idle: "fd_copyState (fut_end s fu) = IDLE" and d: "good_data s a" and h: "host_start s a fu = (Inr b, fu')"
  shows "fut_event_buffer s b fu'"
  using guest_op_ok [OF ok idle d] h
  by (auto simp: host_start_def jbind_def fut_event_buffer_def fut_setCopyState_def split: sum.splits prod.splits if_splits)

lemma hostRead_ok:
  assumes ok: "fut_ok fu" and idle: "fd_copyState (fu_read fu) = IDLE" and h: "hostRead a fu = (Inr v, fu')"
  shows "fut_ok fu' \<and> fut_keeps_done fu fu'"
proof -
  from h obtain b fu1 where st: "host_start Readable a fu = (Inr b, fu1)" by (auto simp: hostRead_def jbind_def split: sum.splits prod.splits)
  have g: "good_data Readable a" by (simp add: good_data_def)
  have idle': "fd_copyState (fut_end Readable fu) = IDLE" using idle by simp
  note so = host_start_ok [OF ok idle' g st] host_op_joined [OF ok idle' g st]
  show ?thesis
  proof (cases "fd_pendingEventFn (fu_read fu1)")
    case None
    with h st so show ?thesis by (auto simp: hostRead_def jbind_def fut_hasPendingEvent_def)
  next
    case (Some ev)
    with h st obtain w where "hostRead_finish b fu1 = (Inr w, fu')"
      by (auto simp: hostRead_def jbind_def fut_hasPendingEvent_def jret_def split: sum.splits prod.splits)
    moreover have "fut_joined Readable fu1" "b = ff_buffer (fv_fns ev)" using so Some by (auto simp: fut_hasPendingEvent_def fut_event_buffer_def)
    ultimately have "fut_ok fu' \<and> fut_keeps_done fu1 fu'" using hostRead_finish_ok [of fu1 ev b w fu'] Some by blast
    then show ?thesis using so(1) by (auto simp: fut_keeps_done_def)
  qed
qed

lemma hostWrite_ok:
  assumes ok: "fut_ok fu" and idle: "fd_copyState (fu_write fu) = IDLE" and d: "good_data Writable a" and h: "hostWrite a fu = (Inr v, fu')"
  shows "fut_ok fu' \<and> fut_keeps_done fu fu'"
proof -
  from h obtain b fu1 where st: "host_start Writable a fu = (Inr b, fu1)" by (auto simp: hostWrite_def jbind_def split: sum.splits prod.splits)
  have idle': "fd_copyState (fut_end Writable fu) = IDLE" using idle by simp
  note so = host_start_ok [OF ok idle' d st]
  show ?thesis
  proof (cases "fd_pendingEventFn (fut_end Writable fu1)")
    case None
    with h st so show ?thesis by (auto simp: hostWrite_def jbind_def fut_hasPendingEvent_def)
  next
    case (Some ev)
    then have j: "fut_joined Writable fu1" using so by (simp add: fut_hasPendingEvent_def)
    have "fu' = fut_taken Writable fu1"
      using h st Some future_finish_taken [OF disjI2 [OF j] Some]
      by (auto simp: hostWrite_def hostWrite_finish_def jbind_def fut_hasPendingEvent_def jret_def)
    then show ?thesis using fut_joined_event(2) [OF j Some] so fut_taken_done [of fu1 Writable] by (auto simp: fut_keeps_done_def)
  qed
qed

lemma future_op_ok:
  assumes ok: "fut_ok fu" and d: "good_data s a" and h: "future_op s True True True isAsync s a fu = (Inr v, fu')"
  shows "fut_ok fu' \<and> fut_keeps_done fu fu'"
proof -
  from h obtain b fu1 where g: "guest_op s a fu = (Inr b, fu1)" "future_rest s isAsync fu1 = (Inr v, fu')" and idle: "fd_copyState (fut_end s fu) = IDLE"
    by (auto simp: future_op_def jbind_def split: sum.splits prod.splits if_splits)
  note go = guest_op_ok [OF ok idle d g(1)]
  have r: "fut_ok fu'" "fd_copyState (fut_end (other_side s) fu') = fd_copyState (fut_end (other_side s) fu1)"
    using future_rest_ok [OF _ g(2)] go by auto
  then show ?thesis using fut_keeps_done_side [of s fu fu'] idle go by simp
qed

lemma fut_step_ok:
  assumes ok: "fut_ok fu" and h: "fut_step c fu = (Inr (), fu')"
  shows "fut_ok fu' \<and> fut_keeps_done fu fu'"
proof (cases c)
  case (Guest_Op s isAsync a)
  then show ?thesis using h future_op_ok [OF ok, of s "a\<lparr>fa_data := VUndef\<rparr>"]
    by (auto simp: jbind_def jret_def good_data_def split: sum.splits prod.splits)
next
  case (Guest_Resume s)
  then show ?thesis using h future_finish_ok [OF ok, of s] by (auto simp: jbind_def jret_def split: sum.splits prod.splits)
next
  case (Host_Read enc)
  then show ?thesis using h hostRead_ok [OF ok] by (auto simp: jbind_def jret_def unless_busy_def split: sum.splits prod.splits if_splits)
next
  case Host_Read_Finish
  then show ?thesis using h hostRead_finish_ok [OF disjI1 [OF ok]] by (auto simp: jbind_def jret_def split: sum.splits prod.splits option.splits)
next
  case (Host_Write enc v)
  then show ?thesis using h hostWrite_ok [OF ok, of "host_args enc None [v]"]
    by (auto simp: jbind_def jret_def unless_busy_def good_data_def host_args_def split: sum.splits prod.splits if_splits)
next
  case Host_Write_Finish
  then show ?thesis using h future_finish_ok [OF ok, of Writable] by (auto simp: hostWrite_finish_def jbind_def jret_def split: sum.splits prod.splits)
next
  case (Take_Future_Event s)
  show ?thesis
  proof (cases "fd_pendingEventFn (fut_end s fu)")
    case None
    with Take_Future_Event h show ?thesis using ok by (simp add: jbind_def jret_def fut_getPendingEvent_def fut_keeps_done_def)
  next
    case (Some ev)
    with Take_Future_Event h have "fu' = fut_taken s fu" using fut_take_ok(1) [OF ok Some] by (simp add: jbind_def jret_def)
    with fut_take_ok(2) [OF ok Some] fut_taken_done show ?thesis by simp
  qed
next
  case (Drop_Future_End s)
  then have fu': "fu' = upd_fut s (\<lambda>e. e\<lparr>fd_dropped := True\<rparr>) fu"
    using h by (auto simp: futureDrop_def future_drop_end_def split: if_splits)
  have o: "fut_owner fu' = fut_owner fu" by (simp add: fu' fut_owner_def)
  have "fut_end_ok t fu'" for t
    using fut_okD(1) [OF ok, of t] unfolding fut_end_ok_def o by (cases "t = s") (auto simp: fu' fut_isCopying_def)
  moreover have "fut_pending_ok fu'"
    using fut_okD(2) [OF ok] unfolding fu' fut_pending_ok_def fut_end_upd fut_load_upd fut_left_upd .
  moreover have "fut_apart fu'" using fut_okD(3) [OF ok] by (simp add: fut_apart_def fu' split: if_splits)
  ultimately show ?thesis by (simp add: fut_ok_def fut_keeps_done_def fu')
next
  case (Store_Memory k m)
  then have fu': "fu' = fu\<lparr>fu_mems := (fu_mems fu)[k := m]\<rparr>" using h by (simp add: jassign_def)
  have "fut_ok fu'" by (rule fut_ok_cong [OF _ _ _ _ _ ok]) (simp_all add: fu' source_ok_load)
  then show ?thesis by (simp add: fut_keeps_done_def fu')
qed

lemma fut_reach_ok: "fut_reach fu \<Longrightarrow> fut_ok fu"
proof (induction rule: fut_reach.induct)
  case (new meta r w mems)
  then show ?case by (simp add: fut_defs fut_apart_def newInternalFuture_def new_future_end_def)
next
  case (step fu c fu')
  then show ?case using fut_step_ok by blast
qed

section \<open>Properties\<close>

text \<open>C28. The protocol of a future's ends, in every reachable state. An end that waits without an event is
  the one whose buffer is registered, with its value still to copy. An end's event can always be taken:
  it has the code of the end's side and its own waitable index, reports completion or a drop, and leaves
  the end done. An end that is not copying has no event and is not registered. An end that is done stays
  done, whatever happens.\<close>

theorem future_ends_protocol:
  assumes "fut_reach fu"
  shows "\<forall>s. (fut_isCopying (fut_end s fu) \<and> fd_pendingEventFn (fut_end s fu) = None \<longrightarrow>
           (\<exists>f. fp_onCopyDoneFn (fu_pending fu) = Some f \<and> ff_side f = s \<and> fp_buffer (fu_pending fu) = Some (ff_buffer f) \<and>
              remaining (load_fut (ff_buffer f) fu) = 1)) \<and>
       (fd_pendingEventFn (fut_end s fu) \<noteq> None \<longrightarrow>
           (\<exists>r fu'. r \<in> {COMPLETED, DROPPED} \<and> fd_copyState (fut_end s fu') = DONE \<and>
              fut_getPendingEvent s fu = (Inr (Some \<lparr>fe_code = event_code s, fe_payload0 = fd_waitableIdx (fut_end s fu),
                 fe_payload1 = result_code r\<rparr>), fu'))) \<and>
       (\<not> fut_isCopying (fut_end s fu) \<longrightarrow>
           fd_pendingEventFn (fut_end s fu) = None \<and> (\<forall>f. fp_onCopyDoneFn (fu_pending fu) = Some f \<longrightarrow> ff_side f \<noteq> s)) \<and>
       (fd_copyState (fut_end s fu) = DONE \<longrightarrow>
           (\<forall>c fu'. fut_step c fu = (Inr (), fu') \<longrightarrow> fd_copyState (fut_end s fu') = DONE))"
proof (intro allI conjI impI)
  fix s
  have ok: "fut_ok fu" using fut_reach_ok [OF assms] .
  have e: "fut_end_ok s fu" and p: "fut_pending_ok fu" using fut_okD [OF ok] by simp_all
  show "\<exists>f. fp_onCopyDoneFn (fu_pending fu) = Some f \<and> ff_side f = s \<and> fp_buffer (fu_pending fu) = Some (ff_buffer f) \<and>
      remaining (load_fut (ff_buffer f) fu) = 1"
    if "fut_isCopying (fut_end s fu) \<and> fd_pendingEventFn (fut_end s fu) = None"
  proof -
    have "fut_owner fu = Some s" using e that by (simp add: fut_end_ok_def)
    with p show ?thesis by (auto simp: fut_owner_def fut_pending_ok_def fut_left_def split: if_splits)
  qed
  show "\<exists>r fu'. r \<in> {COMPLETED, DROPPED} \<and> fd_copyState (fut_end s fu') = DONE \<and>
      fut_getPendingEvent s fu = (Inr (Some \<lparr>fe_code = event_code s, fe_payload0 = fd_waitableIdx (fut_end s fu),
        fe_payload1 = result_code r\<rparr>), fu')"
    if "fd_pendingEventFn (fut_end s fu) \<noteq> None"
  proof -
    from that obtain ev where ev: "fd_pendingEventFn (fut_end s fu) = Some ev" by auto
    then have "fv_result ev \<in> {COMPLETED, DROPPED}" using e by (auto simp: fut_end_ok_def)
    moreover have "fd_copyState (fut_end s (fut_taken s fu)) = DONE" by simp
    ultimately show ?thesis using fut_take_ok(1) [OF ok ev] by blast
  qed
  show "fd_pendingEventFn (fut_end s fu) = None" if "\<not> fut_isCopying (fut_end s fu)"
    using e that by (cases "fd_pendingEventFn (fut_end s fu)") (auto simp: fut_end_ok_def)
  show "ff_side f \<noteq> s" if "\<not> fut_isCopying (fut_end s fu)" "fp_onCopyDoneFn (fu_pending fu) = Some f" for f
    using e p that by (cases "fp_buffer (fu_pending fu)") (auto simp: fut_end_ok_def fut_pending_ok_def fut_owner_def)
  show "fd_copyState (fut_end s fu') = DONE" if "fd_copyState (fut_end s fu) = DONE" "fut_step c fu = (Inr (), fu')" for c fu'
    using fut_step_ok [OF ok that(2)] that(1) by (simp add: fut_keeps_done_def)
qed

text \<open>Copying into an empty buffer of the host.\<close>

definition host_buffer :: "elem_meta \<Rightarrow> managed_buffer" where
  "host_buffer m = \<lparr>mb_componentIdx = - 1, mb_memory = None, mb_start = None, mb_ptr = None, mb_capacity = 1, mb_processed = 0,
     mb_elemMeta = m, mb_hostOnlyData = VArr [], mb_target = VUndef\<rparr>"

lemma host_buffer_holds:
  assumes "isNone m \<longrightarrow> v = VNull"
  shows "\<exists>hb. buf_write (VArr [v]) (host_buffer m) = (Inr (), hb) \<and> mb_memory hb = None \<and> remaining hb = 0 \<and>
    (\<forall>m'. m' = m \<longrightarrow> (\<exists>hb'. buf_read (Some 1) (hb\<lparr>mb_elemMeta := m'\<rparr>) = (Inr [v], hb')))"
  using assms
  by (cases "isNone m") (auto simp: host_buffer_def buf_write_def write_target_def remaining_def buf_read_def read_source_def host_slice_def)

lemma load_store_host:
  "dst < length (fu_buffers f) \<Longrightarrow> fb_memory (fu_buffers f ! dst) = None \<Longrightarrow> mb_memory hb = None \<Longrightarrow>
   load_fut dst (store_fut dst hb f) = hb\<lparr>mb_elemMeta := fu_elemMeta f\<rparr>"
  by (cases hb) (simp add: load_fut_def store_fut_def Let_def)

lemma fut_host_transfer:
  assumes "src < length (fu_buffers fu)" "dst < length (fu_buffers fu)" "src \<noteq> dst" "buf_read (Some 1) (load_fut src fu) = (Inr [v], b')"
    "fu_buffers fu ! dst = \<lparr>fb_buffer = host_buffer m0, fb_memory = None\<rparr>" "isNone (fu_elemMeta fu) \<longrightarrow> v = VNull"
  shows "\<exists>fu' hb'. fut_transfer src dst fu = (Inr (), fu') \<and> buf_read (Some 1) (load_fut dst fu') = (Inr [v], hb') \<and>
    remaining (load_fut dst fu') = 0 \<and> remaining (load_fut src fu') = remaining b' \<and> (\<forall>s. fut_end s fu' = fut_end s fu) \<and>
    fu_pending fu' = fu_pending fu \<and> length (fu_buffers fu') = length (fu_buffers fu)"
proof -
  let ?f = "store_fut src b' fu" and ?m = "fu_elemMeta fu"
  have l: "load_fut dst ?f = host_buffer ?m"
    using assms(3,5) by (simp add: load_fut_def store_fut_def Let_def host_buffer_def split: option.splits)
  obtain hb where hb: "buf_write (VArr [v]) (host_buffer ?m) = (Inr (), hb)" "mb_memory hb = None" "remaining hb = 0"
    "\<exists>hb'. buf_read (Some 1) (hb\<lparr>mb_elemMeta := ?m\<rparr>) = (Inr [v], hb')"
    using host_buffer_holds [OF assms(6)] by blast
  let ?g = "store_fut dst hb ?f"
  have d: "fu_buffers ?f ! dst = \<lparr>fb_buffer = host_buffer m0, fb_memory = None\<rparr>" using assms(3,5) by (simp add: store_fut_def Let_def)
  have "load_fut dst ?g = hb\<lparr>mb_elemMeta := ?m\<rparr>"
    using load_store_host [of dst ?f hb] assms(2) d hb(2) by simp
  moreover have "fut_transfer src dst fu = (Inr (), ?g)"
    using assms(4) l hb(1) by (simp add: fut_transfer_def jbind_def on_fut_buffer_def)
  moreover have "remaining (load_fut src ?g) = remaining b'"
    using fut_left_store [of dst ?f src hb] fut_left_store [of src fu src b'] assms(1-3) by (simp add: fut_left_def)
  moreover have "remaining (load_fut dst ?g) = 0"
    using fut_left_store [of dst ?f dst hb] assms(2) hb(3) by (simp add: fut_left_def)
  ultimately show ?thesis using hb(4) by auto
qed

text \<open>A guest's write to a future that nobody reads yet.\<close>

lemma guest_write_blocks:
  assumes "fd_copyState (fu_write fu) = IDLE" "fd_pendingEventFn (fu_write fu) = None" "\<not> fd_dropped (fu_write fu)"
    and pend: "fp_buffer (fu_pending fu) = None" and m: "m = fut_take_meta a (fu_elemMeta fu)" "\<not> isBorrowed m"
    and b: "newManagedBuffer \<lparr>ba_componentIdx = Some (fa_componentIdx a), ba_memory = map_option (\<lambda>k. fu_mems fu ! k) (fa_memory a),
               ba_start = fa_ptr a, ba_capacity = Some 1, ba_elemMeta = Some m, ba_data = fa_data a, ba_target = VUndef\<rparr> = Inr b"
    and d: "fa_ptr a \<noteq> None"
  shows "future_op Writable True True True True Writable a fu =
    (Inr (Returned ASYNC_BLOCKED_CODE),
     fut_setCopyState Writable ASYNC_COPYING
       (fut_setPendingBufferMeta None (Some (length (fu_buffers fu))) (Some \<lparr>ff_side = Writable, ff_buffer = length (fu_buffers fu)\<rparr>)
         (fu\<lparr>fu_elemMeta := m, fu_buffers := fu_buffers fu @ [\<lparr>fb_buffer = b, fb_memory = fa_memory a\<rparr>]\<rparr>)))"
proof -
  let ?m = "fu\<lparr>fu_elemMeta := m\<rparr>" and ?n = "length (fu_buffers fu)"
  let ?f = "?m\<lparr>fu_buffers := fu_buffers fu @ [\<lparr>fb_buffer = b, fb_memory = fa_memory a\<rparr>]\<rparr>"
  have c: "fut_createBuffer a ?m = (Inr ?n, ?f)" using b d by (simp add: fut_createBuffer_def)
  have r: "remaining (load_fut ?n ?f) = 1" using fut_createBuffer_ok(7) [OF c] by (simp add: fut_left_def)
  have e: "fut_end Writable ?f = fu_write fu" "fu_pending ?f = fu_pending fu" by simp_all
  let ?g = "fut_setPendingBufferMeta None (Some ?n) (Some \<lparr>ff_side = Writable, ff_buffer = ?n\<rparr>) ?f"
  have w: "fut_write ?n \<lparr>ff_side = Writable, ff_buffer = ?n\<rparr> (fa_componentIdx a) ?f = (Inr (), ?g)"
    unfolding fut_write_def using r assms(3) pend by simp
  have "guest_op Writable a fu = (Inr ?n, ?g)"
    using c w m by (simp add: guest_op_def jbind_def jassign_def jguard_def jret_def)
  moreover have "future_rest Writable True ?g = (Inr (Returned ASYNC_BLOCKED_CODE), fut_setCopyState Writable ASYNC_COPYING ?g)"
    using assms(2) by (simp add: future_rest_def fut_hasPendingEvent_def fut_setPendingBufferMeta_def)
  ultimately show ?thesis using assms(1) by (simp add: future_op_def jbind_def)
qed

text \<open>The host's read of a future whose writer waits.\<close>

lemma host_read_meets:
  assumes ends: "fd_copyState (fu_read fu) = IDLE" "\<not> fd_dropped (fu_read fu)"
    and pend: "fu_pending fu = \<lparr>fp_componentIdx = None, fp_buffer = Some pb, fp_onCopyDoneFn = Some \<lparr>ff_side = Writable, ff_buffer = pb\<rparr>\<rparr>"
    and m: "stringEncoding (fu_elemMeta fu) \<noteq> None" "\<not> isBorrowed (fu_elemMeta fu)" "isNone (fu_elemMeta fu) \<longrightarrow> v = VNull"
    and re: "getRealloc (fu_elemMeta fu) = None \<longrightarrow> re = None"
    and pb: "pb < length (fu_buffers fu)" "buf_read (Some 1) (load_fut pb fu) = (Inr [v], b')" "remaining b' = 0"
  shows "\<exists>fu'. hostRead (host_args enc re []) fu = (Inr (Some v), fu') \<and> fd_copyState (fu_read fu') = DONE \<and>
    fut_end Writable fu' = (fu_write fu)\<lparr>fd_pendingEventFn := Some (fut_done_event Writable pb)\<rparr> \<and>
    fu_pending fu' = no_future_pending \<and> remaining (load_fut pb fu') = 0"
proof -
  let ?n = "length (fu_buffers fu)" and ?m = "fu_elemMeta fu" and ?a = "host_args enc re []"
  let ?f = "fu\<lparr>fu_buffers := fu_buffers fu @ [\<lparr>fb_buffer = host_buffer ?m, fb_memory = None\<rparr>]\<rparr>"
  have "fut_take_meta ?a ?m = ?m" using m(1) re by (cases ?m) (auto simp: fut_take_meta_def host_args_def Let_def)
  then have c: "guest_op Readable ?a fu = jbind (fut_read ?n \<lparr>ff_side = Readable, ff_buffer = ?n\<rparr> (- 1)) (\<lambda>_. jret ?n) ?f"
    using m(2) by (simp add: guest_op_def jbind_def jassign_def jguard_def jret_def fut_createBuffer_def host_args_def newManagedBuffer_def
      MAX_LENGTH_def misaligned_def host_buffer_def)
  have l: "load_fut pb ?f = load_fut pb fu" using pb(1) by (simp add: load_fut_def nth_append)
  have r: "remaining (load_fut ?n ?f) = 1" by (simp add: load_fut_def remaining_def host_buffer_def)
  obtain fu1 hb' where t: "fut_transfer pb ?n ?f = (Inr (), fu1)" "buf_read (Some 1) (load_fut ?n fu1) = (Inr [v], hb')"
    "remaining (load_fut ?n fu1) = 0" "remaining (load_fut pb fu1) = remaining b'" "\<And>s. fut_end s fu1 = fut_end s ?f"
    "fu_pending fu1 = fu_pending ?f" "length (fu_buffers fu1) = Suc ?n"
    using fut_host_transfer [of pb ?f ?n v b' ?m] pb m(3) l by auto
  let ?g = "upd_fut Readable (\<lambda>e. e\<lparr>fd_pendingEventFn := Some (fut_done_event Readable ?n)\<rparr>)
      (upd_fut Writable (\<lambda>e. e\<lparr>fd_pendingEventFn := Some (fut_done_event Writable pb)\<rparr>) (fut_resetPendingBufferMeta fu1))"
  have met: "fut_met pb ?n \<lparr>ff_side = Readable, ff_buffer = ?n\<rparr> ?f = (Inr (), ?g)"
    using t(1,6) pend by (simp add: fut_met_def jbind_def fut_resetAndNotifyPending_def fut_onCopyDoneFn_def fut_done_event_def)
  have "fut_read ?n \<lparr>ff_side = Readable, ff_buffer = ?n\<rparr> (- 1) ?f = (Inr (), ?g)"
    unfolding fut_read_def using ends(2) r pend met by (simp add: fut_same_component_def)
  with c have op: "guest_op Readable ?a fu = (Inr ?n, ?g)" by (simp add: jbind_def jret_def)
  have ld: "load_fut i ?g = load_fut i fu1" for i by (simp add: fut_resetPendingBufferMeta_def fut_setPendingBufferMeta_def load_fut_def)
  have ev: "fd_pendingEventFn (fut_end Readable ?g) = Some (fut_done_event Readable ?n)" by simp
  have fin: "future_finish Readable ?g = (Inr (result_code COMPLETED), fut_taken Readable ?g)"
    using fut_getPendingEvent_ok [OF ev] t(3) ld by (simp add: future_finish_def jbind_def fut_done_event_def fut_left_def)
  let ?h = "store_fut ?n hb' (fut_taken Readable ?g)"
  have "hostRead_finish ?n ?g = (Inr v, ?h)"
    using fin t(2) ld by (simp add: hostRead_finish_def jbind_def on_fut_buffer_def jret_def fut_load_upd(1) del: fut_end.simps upd_fut.simps)
  with op have "hostRead ?a fu = (Inr (Some v), ?h)"
    by (simp add: hostRead_def host_start_def jbind_def fut_hasPendingEvent_def jret_def)
  moreover have "remaining (load_fut pb ?h) = 0"
    using fut_left_store [of ?n "fut_taken Readable ?g" pb hb'] t(4,7) pb(1,3) ld
    by (simp add: fut_left_def fut_resetPendingBufferMeta_def fut_setPendingBufferMeta_def del: fut_end.simps upd_fut.simps)
  moreover have "fut_end Writable ?h = (fu_write fu)\<lparr>fd_pendingEventFn := Some (fut_done_event Writable pb)\<rparr>"
    using t(5) [of Writable] by (simp add: fut_resetPendingBufferMeta_def fut_setPendingBufferMeta_def)
  ultimately show ?thesis
    by (intro exI [of _ ?h]) (simp add: fut_resetPendingBufferMeta_def fut_setPendingBufferMeta_def no_future_pending_def)
qed

text \<open>C29. A guest's write to a future whose ends are both idle returns the code for a blocked operation,
  and the host's read that follows returns the one value that the writer's buffer holds at that moment:
  the read end is done, nothing is pending any more, and the write end's event reports that the copy
  completed, after which it is done and may be dropped.\<close>

theorem future_value_delivered:
  assumes "fd_copyState (fu_read fu) = IDLE" "\<not> fd_dropped (fu_read fu)"
    "fd_copyState (fu_write fu) = IDLE" "fd_pendingEventFn (fu_write fu) = None" "\<not> fd_dropped (fu_write fu)"
    "fp_buffer (fu_pending fu) = None"
    "m = fut_take_meta a (fu_elemMeta fu)" "\<not> isBorrowed m" "stringEncoding m \<noteq> None"
    "newManagedBuffer \<lparr>ba_componentIdx = Some (fa_componentIdx a), ba_memory = map_option (\<lambda>k. fu_mems fu ! k) (fa_memory a),
       ba_start = fa_ptr a, ba_capacity = Some 1, ba_elemMeta = Some m, ba_data = VUndef, ba_target = VUndef\<rparr> = Inr b"
    "fa_ptr a \<noteq> None" "fa_data a = VUndef" "buf_read (Some 1) b = (Inr [v], b')"
  shows "\<exists>fu1 fu2 fu3. future_op Writable True True True True Writable a fu = (Inr (Returned ASYNC_BLOCKED_CODE), fu1) \<and>
    hostRead (host_args enc None []) fu1 = (Inr (Some v), fu2) \<and> fd_copyState (fu_read fu2) = DONE \<and>
    fu_pending fu2 = no_future_pending \<and> future_finish Writable fu2 = (Inr (result_code COMPLETED), fu3) \<and>
    futureDrop Writable True Writable fu3 = (Inr (), upd_fut Writable (\<lambda>e. e\<lparr>fd_dropped := True\<rparr>) fu3)"
proof -
  let ?n = "length (fu_buffers fu)"
  let ?h = "\<lparr>fb_buffer = b, fb_memory = fa_memory a\<rparr>"
  let ?f = "fut_setCopyState Writable ASYNC_COPYING
       (fut_setPendingBufferMeta None (Some ?n) (Some \<lparr>ff_side = Writable, ff_buffer = ?n\<rparr>)
         (fu\<lparr>fu_elemMeta := m, fu_buffers := fu_buffers fu @ [?h]\<rparr>))"
  have w: "future_op Writable True True True True Writable a fu = (Inr (Returned ASYNC_BLOCKED_CODE), ?f)"
    by (rule guest_write_blocks) (use assms in simp_all)
  have bf: "mb_memory b = map_option (\<lambda>k. fu_mems fu ! k) (fa_memory a)" "mb_elemMeta b = m" "remaining b = 1" "mb_hostOnlyData b = VUndef"
    using assms(10) by (auto simp: newManagedBuffer_def remaining_def split: if_splits)
  then have l: "load_fut ?n ?f = b"
    by (cases b) (simp add: fut_setCopyState_def fut_setPendingBufferMeta_def load_fut_def Let_def)
  have "length [v] = 1 \<and> remaining b' = remaining b - 1" by (rule buf_read_one [OF assms(13)]) (simp add: source_ok_def bf)
  then have b': "remaining b' = 0" using bf(3) by simp
  have nul: "isNone m \<longrightarrow> v = VNull" using assms(13) bf(2) by (auto simp: buf_read_def split: if_splits)
  obtain fu2 where r: "hostRead (host_args enc None []) ?f = (Inr (Some v), fu2)" "fd_copyState (fu_read fu2) = DONE"
    "fut_end Writable fu2 = (fu_write ?f)\<lparr>fd_pendingEventFn := Some (fut_done_event Writable ?n)\<rparr>"
    "fu_pending fu2 = no_future_pending" "remaining (load_fut ?n fu2) = 0"
    using host_read_meets [of ?f ?n v None b' enc] assms(1,2,8,9,13) l b' nul
    by (auto simp: fut_setCopyState_def fut_setPendingBufferMeta_def)
  have ev: "fd_pendingEventFn (fut_end Writable fu2) = Some (fut_done_event Writable ?n)" using r(3) by simp
  have fin: "future_finish Writable fu2 = (Inr (result_code COMPLETED), fut_taken Writable fu2)"
    using fut_getPendingEvent_ok [OF ev] r(5) by (simp add: future_finish_def jbind_def fut_done_event_def fut_left_def)
  have "\<not> fd_dropped (fu_write fu2)" using r(3) assms(5) by (simp add: fut_setCopyState_def fut_setPendingBufferMeta_def)
  then have "futureDrop Writable True Writable (fut_taken Writable fu2) =
      (Inr (), upd_fut Writable (\<lambda>e. e\<lparr>fd_dropped := True\<rparr>) (fut_taken Writable fu2))"
    using r(4) by (simp add: futureDrop_def future_drop_end_def no_future_pending_def)
  with w r(1,2,4) fin show ?thesis by blast
qed

definition demo_future :: future where
  "demo_future = newInternalFuture demo_buf_meta 5 6 [[0, 0, 7, 1, 0, 0, 0, 0]]"

definition demo_fut_args :: fut_args where
  "demo_fut_args = \<lparr>fa_componentIdx = 3, fa_stringEncoding = Some ''utf8'', fa_getReallocFn = None, fa_memory = Some 0,
     fa_ptr = Some 2, fa_data = VUndef\<rparr>"

theorem future_value_delivered_witness:
  "\<exists>fu1 fu2 fu3. future_op Writable True True True True Writable demo_fut_args demo_future = (Inr (Returned ASYNC_BLOCKED_CODE), fu1) \<and>
    hostRead (host_args None None []) fu1 = (Inr (Some (VNum 263)), fu2) \<and> fd_copyState (fu_read fu2) = DONE \<and>
    fu_pending fu2 = no_future_pending \<and> future_finish Writable fu2 = (Inr (result_code COMPLETED), fu3) \<and>
    futureDrop Writable True Writable fu3 = (Inr (), upd_fut Writable (\<lambda>e. e\<lparr>fd_dropped := True\<rparr>) fu3)"
proof -
  let ?m = "fut_take_meta demo_fut_args (fu_elemMeta demo_future)"
  let ?b = "\<lparr>mb_componentIdx = 3, mb_memory = Some [0, 0, 7, 1, 0, 0, 0, 0], mb_start = Some 2, mb_ptr = Some 2, mb_capacity = 1,
    mb_processed = 0, mb_elemMeta = ?m, mb_hostOnlyData = VUndef, mb_target = VUndef\<rparr>"
  have m: "?m = demo_buf_meta" by (simp add: fut_take_meta_def demo_fut_args_def demo_future_def newInternalFuture_def demo_buf_meta_def)
  have "fst (buf_read (Some 1) ?b) = Inr [VNum 263]" unfolding m by code_simp
  then obtain b' where "buf_read (Some 1) ?b = (Inr [VNum 263], b')" by (cases "buf_read (Some 1) ?b") simp
  then show ?thesis
    by (intro future_value_delivered [where m = ?m and b = ?b and b' = b'])
      (simp_all only: m, simp_all add: demo_future_def newInternalFuture_def new_future_end_def no_future_pending_def demo_fut_args_def
        demo_buf_meta_def newManagedBuffer_def MAX_LENGTH_def misaligned_def js_rem_def)
qed

theorem future_ends_protocol_witness:
  "fd_pendingEventFn (fu_write (snd (fut_step (Host_Write None VNull) (newInternalFuture demo_buf_meta 5 6 [])))) = None \<and>
   (\<exists>f. fp_onCopyDoneFn (fu_pending (snd (fut_step (Host_Write None VNull) (newInternalFuture demo_buf_meta 5 6 [])))) = Some f \<and> ff_side f = Writable)"
proof -
  obtain r fu' where st: "fut_step (Host_Write None VNull) (newInternalFuture demo_buf_meta 5 6 []) = (r, fu')" by fastforce
  have "fst (fut_step (Host_Write None VNull) (newInternalFuture demo_buf_meta 5 6 [])) = Inr () \<and>
      fut_isCopying (fut_end Writable (snd (fut_step (Host_Write None VNull) (newInternalFuture demo_buf_meta 5 6 [])))) \<and>
      \<not> fut_hasPendingEvent Writable (snd (fut_step (Host_Write None VNull) (newInternalFuture demo_buf_meta 5 6 [])))" by code_simp
  then have f: "r = Inr ()" "fut_isCopying (fut_end Writable fu')" "fd_pendingEventFn (fut_end Writable fu') = None"
    unfolding st fst_conv snd_conv by (simp_all add: fut_hasPendingEvent_def)
  from st f(1) have "fut_reach fu'" by (metis fut_reach.new fut_reach.step)
  with f(2,3) future_ends_protocol [of fu'] have "\<exists>g. fp_onCopyDoneFn (fu_pending fu') = Some g \<and> ff_side g = Writable" by blast
  with f(3) show ?thesis unfolding st snd_conv by simp
qed

section \<open>Drops that nobody notices\<close>

fun fut_run :: "future_command list \<Rightarrow> unit fop" where
  "fut_run [] = jret ()"
| "fut_run (c # cs) = jbind (fut_step c) (\<lambda>_. fut_run cs)"

definition fut_waits :: "side \<Rightarrow> future \<Rightarrow> bool" where
  "fut_waits s fu \<longleftrightarrow> fut_isCopying (fut_end s fu) \<and> fd_pendingEventFn (fut_end s fu) = None"

lemma fut_waits_pending: "fut_ok fu \<Longrightarrow> fut_waits s fu \<Longrightarrow> fp_buffer (fu_pending fu) \<noteq> None"
  using fut_okD(1) [of fu s] by (auto simp: fut_end_ok_def fut_waits_def fut_owner_def split: if_splits)

lemma read_dropped_throws:
  assumes "fd_dropped (fu_read fu)"
  shows "guest_op Readable a fu \<noteq> (Inr b, fu')"
proof
  assume "guest_op Readable a fu = (Inr b, fu')"
  then obtain fu1 where c: "fut_createBuffer a (fu\<lparr>fu_elemMeta := fut_take_meta a (fu_elemMeta fu)\<rparr>) = (Inr b, fu1)"
    and rd: "fut_read b \<lparr>ff_side = Readable, ff_buffer = b\<rparr> (fa_componentIdx a) fu1 = (Inr (), fu')"
    by (auto simp: guest_op_def jbind_def jassign_def jguard_def jret_def split: if_splits sum.splits prod.splits)
  have "fu_read fu1 = fu_read fu" using fut_createBuffer_ok(2) [OF c, of Readable] by simp
  with rd assms show False by (simp add: fut_read_def)
qed

lemma waiting_writer_step:
  assumes ok: "fut_ok fu" and w: "fut_waits Writable fu" "fd_dropped (fu_read fu)" and h: "fut_step c fu = (Inr (), fu')"
  shows "fut_waits Writable fu' \<and> fd_dropped (fu_read fu')"
proof -
  have busy: "fd_copyState (fu_write fu) \<noteq> IDLE" "fd_pendingEventFn (fu_write fu) = None" using w(1) by (auto simp: fut_waits_def fut_isCopying_def)
  show ?thesis
  proof (cases c)
    case (Guest_Op s isAsync a)
    then obtain b fu1 where "guest_op s (a\<lparr>fa_data := VUndef\<rparr>) fu = (Inr b, fu1)" "fd_copyState (fut_end s fu) = IDLE"
      using h by (auto simp: future_op_def jbind_def jret_def split: sum.splits prod.splits if_splits)
    then show ?thesis using busy(1) read_dropped_throws [OF w(2)] by (cases s) auto
  next
    case (Host_Read enc)
    then obtain b fu1 where "guest_op Readable (host_args enc None []) fu = (Inr b, fu1)"
      using h by (auto simp: unless_busy_def hostRead_def host_start_def jbind_def split: sum.splits prod.splits if_splits)
    then show ?thesis using read_dropped_throws [OF w(2)] by auto
  next
    case (Drop_Future_End s)
    then show ?thesis using h fut_waits_pending [OF ok w(1)] by (simp add: futureDrop_def future_drop_end_def split: if_splits)
  next
    case (Guest_Resume s)
    show ?thesis
    proof (cases "fd_pendingEventFn (fut_end s fu)")
      case None
      with Guest_Resume h show ?thesis by (simp add: future_finish_def fut_getPendingEvent_def jbind_def jthrow_def)
    next
      case (Some ev)
      with busy(2) have "s = Readable" by (cases s) simp_all
      moreover have "fu' = fut_taken s fu" using Guest_Resume h future_finish_taken [OF disjI1 [OF ok] Some] by (simp add: jbind_def jret_def)
      ultimately show ?thesis using w by (simp add: fut_waits_def)
    qed
  next
    case (Take_Future_Event s)
    show ?thesis
    proof (cases "fd_pendingEventFn (fut_end s fu)")
      case None
      with Take_Future_Event h w show ?thesis by (simp add: fut_getPendingEvent_def jbind_def jret_def)
    next
      case (Some ev)
      with busy(2) have "s = Readable" by (cases s) simp_all
      moreover have "fu' = fut_taken s fu" using Take_Future_Event h fut_take_ok(1) [OF ok Some] by (simp add: jbind_def jret_def)
      ultimately show ?thesis using w by (simp add: fut_waits_def)
    qed
  next
    case Host_Read_Finish
    then obtain ev where ev: "fd_pendingEventFn (fu_read fu) = Some ev" using h by (auto split: option.splits)
    then have "future_finish Readable fu = (Inr (result_code (fv_result ev)), fut_taken Readable fu)"
      using future_finish_taken [OF disjI1 [OF ok], of Readable ev] by simp
    then obtain b mb where "fu' = store_fut b mb (fut_taken Readable fu)"
      using Host_Read_Finish h ev
      by (auto simp: hostRead_finish_def jbind_def on_fut_buffer_def jret_def jthrow_def split: prod.splits sum.splits list.splits)
    then show ?thesis using w by (simp add: fut_waits_def)
  next
    case Host_Write_Finish
    then show ?thesis using h busy(2) by (simp add: hostWrite_finish_def future_finish_def fut_getPendingEvent_def jbind_def jthrow_def)
  next
    case (Host_Write enc v)
    then show ?thesis using h busy(1) by (simp add: unless_busy_def)
  next
    case (Store_Memory k m)
    then show ?thesis using h w by (auto simp: jassign_def fut_waits_def)
  qed
qed

lemma waiting_writer_run:
  "fut_run cs fu = (Inr (), fu') \<Longrightarrow> fut_ok fu \<Longrightarrow> fut_waits Writable fu \<Longrightarrow> fd_dropped (fu_read fu) \<Longrightarrow> fut_waits Writable fu'"
proof (induction cs arbitrary: fu)
  case (Cons c cs)
  from Cons.prems(1) obtain fu1 where c: "fut_step c fu = (Inr (), fu1)" "fut_run cs fu1 = (Inr (), fu')"
    by (auto simp: jbind_def split: sum.splits prod.splits)
  have "fut_waits Writable fu1" "fd_dropped (fu_read fu1)" using waiting_writer_step [OF Cons.prems(2-4) c(1)] by simp_all
  then show ?case using Cons.IH [OF c(2)] fut_step_ok [OF Cons.prems(2) c(1)] by blast
qed (simp add: jret_def)

text \<open>C30. A drop does not reach an end that waits. While an end waits, no end can be dropped: the attempt
  throws and changes nothing (for a read end that was not dropped yet, because the code names a variable
  that does not exist). And a writer that starts to wait after the read end was dropped, which it is not
  told, waits forever: whatever runs after that, it gets no event.\<close>

theorem future_drop_unnoticed:
  assumes "fut_reach fu" "fut_waits s fu"
  shows "(\<forall>t mayLeave found. \<exists>e. futureDrop t mayLeave found fu = (Inl e, fu)) \<and>
    (\<not> fd_dropped (fu_read fu) \<longrightarrow> futureDrop Readable True Readable fu = (Inl (RefErr ''pendingBufferMeta''), fu)) \<and>
    (s = Writable \<and> fd_dropped (fu_read fu) \<longrightarrow> (\<forall>cs fu'. fut_run cs fu = (Inr (), fu') \<longrightarrow> fut_waits Writable fu'))"
proof (intro conjI)
  have ok: "fut_ok fu" using fut_reach_ok [OF assms(1)] .
  have p: "fp_buffer (fu_pending fu) \<noteq> None" by (rule fut_waits_pending [OF ok assms(2)])
  show "\<forall>t mayLeave found. \<exists>e. futureDrop t mayLeave found fu = (Inl e, fu)"
    using p by (auto simp: futureDrop_def future_drop_end_def)
  show "\<not> fd_dropped (fu_read fu) \<longrightarrow> futureDrop Readable True Readable fu = (Inl (RefErr ''pendingBufferMeta''), fu)"
    using p by (simp add: futureDrop_def future_drop_end_def)
  show "s = Writable \<and> fd_dropped (fu_read fu) \<longrightarrow> (\<forall>cs fu'. fut_run cs fu = (Inr (), fu') \<longrightarrow> fut_waits Writable fu')"
    using waiting_writer_run [OF _ ok] assms(2) by blast
qed

definition demo_dropped :: "future_command list" where
  "demo_dropped = [Drop_Future_End Readable, Host_Write None VNull]"

lemma fut_run_reach: "fut_reach fu \<Longrightarrow> fut_run cs fu = (Inr (), fu') \<Longrightarrow> fut_reach fu'"
  by (induction cs arbitrary: fu) (auto simp: jret_def jbind_def intro: fut_reach.step split: sum.splits prod.splits)

theorem future_drop_unnoticed_witness:
  "\<exists>fu. fut_run demo_dropped (newInternalFuture demo_buf_meta 5 6 []) = (Inr (), fu) \<and> fut_waits Writable fu \<and>
     (\<forall>cs fu'. fut_run cs fu = (Inr (), fu') \<longrightarrow> fut_waits Writable fu')"
proof -
  let ?fu = "newInternalFuture demo_buf_meta 5 6 []"
  obtain r fu where st: "fut_run demo_dropped ?fu = (r, fu)" by fastforce
  have "fst (fut_run demo_dropped ?fu) = Inr () \<and> fut_isCopying (fut_end Writable (snd (fut_run demo_dropped ?fu))) \<and>
      \<not> fut_hasPendingEvent Writable (snd (fut_run demo_dropped ?fu)) \<and> fd_dropped (fu_read (snd (fut_run demo_dropped ?fu)))" by code_simp
  then have f: "r = Inr ()" "fut_waits Writable fu" "fd_dropped (fu_read fu)"
    unfolding st fst_conv snd_conv by (simp_all add: fut_hasPendingEvent_def fut_waits_def)
  have "fut_reach fu" using fut_run_reach [OF fut_reach.new] st f(1) by blast
  then show ?thesis using future_drop_unnoticed [of fu Writable] f st by blast
qed

end
