(* ===== verification/Flat_Types.thy ===== *)
theory Flat_Types
  imports Flat_Lists
begin

text \<open>
  The lift and lower functions generated for an interface type
  (\<open>src/crates/js-component-bindgen/src/transpile_bindgen.rs\<close>: \<open>gen_flat_lift_fn_js_expr\<close> and
  \<open>gen_flat_lower_fn_js_expr\<close>, one definition per arm of their matches). The Rust code prints an
  expression; the definitions are the functions that the expressions evaluate to. The component's types
  come from wasmtime-environ, which also computes sizes, alignments, flat counts and payload offsets: the
  types are the datatype \<open>ity\<close>, with the types that the indices stand for in place, and the numbers are
  parameters, as are the camel-case conversion of heck and the functions of the types that are not
  modelled (strings, resources, futures, streams and error contexts). Floats are left out.
\<close>

section \<open>Interface types\<close>

datatype ity =
    TBool | TS8 | TU8 | TS16 | TU16 | TS32 | TU32 | TS64 | TU64 | TChar | TString
  | TRecord "(string \<times> ity) list"
  | TVariant "(string \<times> ity option) list"
  | TList ity
  | TFixedLengthList nat ity
  | TTuple "ity list"
  | TFlags "string list"
  | TEnum "string list"
  | TOption ity
  | TResult "ity option" "ity option"
  | TOwn nat
  | TBorrow nat
  | TFuture nat
  | TStream nat
  | TErrorContext nat
  | TMap ity ity

text \<open>\<open>CanonicalAbiInfo\<close>: the ABI of a type, of the entries of a map type, and the offsets that
  \<open>VariantInfo\<close> and the map types hold.\<close>

record cabi =
  size32 :: int
  align32 :: int
  flat_count :: "int option"

record gen_env =
  ge_abi :: "ity \<Rightarrow> cabi"
  ge_flat_count :: "cabi \<Rightarrow> nat \<Rightarrow> int option"
  ge_payload_offset32 :: "ity \<Rightarrow> int"
  ge_entry_abi :: "ity \<Rightarrow> cabi"
  ge_value_offset32 :: "ity \<Rightarrow> int"
  ge_camel :: "string \<Rightarrow> string"
  ge_lift :: "ity \<Rightarrow> lift_fn"
  ge_lower :: "ity \<Rightarrow> lower_fn"

definition MAX_FLAT_PARAMS :: nat where
  "MAX_FLAT_PARAMS = 16"

text \<open>Sizes of the parts, for the recursion over types.\<close>

lemma size_field [termination_simp]:
  "f \<in> set fs \<Longrightarrow> size (snd f) < Suc (size_list (size_prod (\<lambda>_. 0) size) fs)"
  by (induction fs) auto

lemma size_case [termination_simp]:
  "k \<in> set ks \<Longrightarrow> snd k = Some t \<Longrightarrow> size t < Suc (size_list (size_prod (\<lambda>_. 0) (size_option size)) ks)"
  by (induction ks) auto

section \<open>Lifting\<close>

definition flags_int_size :: "nat \<Rightarrow> int" where
  "flags_int_size num_flags = (if num_flags \<le> 8 then 1 else if num_flags \<le> 16 then 2 else 4)"

fun js_typed_array_ctor :: "ity \<Rightarrow> typed_kind option" where
  "js_typed_array_ctor TU8 = Some Uint8Array"
| "js_typed_array_ctor TS8 = Some Int8Array"
| "js_typed_array_ctor TU16 = Some Uint16Array"
| "js_typed_array_ctor TS16 = Some Int16Array"
| "js_typed_array_ctor TU32 = Some Uint32Array"
| "js_typed_array_ctor TS32 = Some Int32Array"
| "js_typed_array_ctor TU64 = Some BigUint64Array"
| "js_typed_array_ctor TS64 = Some BigInt64Array"
| "js_typed_array_ctor _ = None"

definition lift_record_expr :: "gen_env \<Rightarrow> ity \<Rightarrow> (string \<times> ity \<times> lift_fn) list \<Rightarrow> lift_fn" where
  "lift_record_expr E ty fs =
     (let abi = ge_abi E ty in
      liftFlatRecord
        (map (\<lambda>(name, t, f). (ge_camel E name, f, size32 (ge_abi E t), align32 (ge_abi E t))) fs)
        (size32 abi) (align32 abi))"

definition lift_case_expr :: "string \<Rightarrow> lift_fn option \<Rightarrow> bool \<Rightarrow> int option \<Rightarrow> lift_case" where
  "lift_case_expr name f isF64 count = \<lparr>lc_tag = name, lc_liftFn = f, lc_isF64 = isF64, lc_flatCount = count\<rparr>"

definition lift_meta_expr :: "gen_env \<Rightarrow> ity \<Rightarrow> lift_case list \<Rightarrow> lift_variant_meta" where
  "lift_meta_expr E ty cases =
     (let abi = ge_abi E ty in
      \<lparr>lv_caseMetas = cases, lv_size32 = size32 abi, lv_align32 = align32 abi,
       lv_payloadOffset32 = Some (ge_payload_offset32 E ty), lv_flatCount = flat_count abi, lv_isEnum = False\<rparr>)"

definition lift_variant_expr :: "gen_env \<Rightarrow> ity \<Rightarrow> (string \<times> (ity \<times> lift_fn) option) list \<Rightarrow> lift_fn" where
  "lift_variant_expr E ty cases =
     liftFlatVariant (lift_meta_expr E ty
       (map (\<lambda>(name, maybe_ty). case maybe_ty of
            Some (t, f) \<Rightarrow> lift_case_expr name (Some f) False (ge_flat_count E (ge_abi E t) MAX_FLAT_PARAMS)
          | None \<Rightarrow> lift_case_expr name None False (Some 0)) cases))"

definition lift_list_expr :: "gen_env \<Rightarrow> ity \<Rightarrow> lift_fn \<Rightarrow> lift_fn" where
  "lift_list_expr E element f =
     liftFlatList \<lparr>li_elemLiftFn = f, li_elemSize32 = size32 (ge_abi E element), li_knownLen = None,
       li_typedArray = js_typed_array_ctor element\<rparr>"

definition lift_fixed_list_expr :: "gen_env \<Rightarrow> nat \<Rightarrow> ity \<Rightarrow> lift_fn \<Rightarrow> lift_fn" where
  "lift_fixed_list_expr E len element f =
     liftFlatList \<lparr>li_elemLiftFn = f, li_elemSize32 = size32 (ge_abi E element), li_knownLen = Some len, li_typedArray = None\<rparr>"

definition lift_tuple_expr :: "gen_env \<Rightarrow> ity \<Rightarrow> (ity \<times> lift_fn) list \<Rightarrow> lift_fn" where
  "lift_tuple_expr E ty ts =
     (let abi = ge_abi E ty in
      liftFlatTuple (map (\<lambda>(t, f). (f, size32 (ge_abi E t), align32 (ge_abi E t))) ts) (size32 abi) (align32 abi))"

definition lift_flags_expr :: "gen_env \<Rightarrow> ity \<Rightarrow> string list \<Rightarrow> lift_fn" where
  "lift_flags_expr E ty names =
     liftFlatFlags (map (ge_camel E) names) (align32 (ge_abi E ty)) (flags_int_size (length names))"

text \<open>The cases of an enum have the payload offset where other variants have the flat count.\<close>

definition lift_enum_expr :: "gen_env \<Rightarrow> ity \<Rightarrow> string list \<Rightarrow> lift_fn" where
  "lift_enum_expr E ty names =
     liftFlatEnum (lift_meta_expr E ty
       (map (\<lambda>name. lift_case_expr name None False (Some (ge_payload_offset32 E ty))) names))"

definition lift_option_expr :: "gen_env \<Rightarrow> ity \<Rightarrow> ity \<Rightarrow> lift_fn \<Rightarrow> lift_fn" where
  "lift_option_expr E ty some_ty f =
     liftFlatOption (lift_meta_expr E ty
       [lift_case_expr ''none'' None False (Some 0), lift_case_expr ''some'' (Some f) False (flat_count (ge_abi E some_ty))])"

definition lift_result_case :: "gen_env \<Rightarrow> string \<Rightarrow> (ity \<times> lift_fn) option \<Rightarrow> lift_case" where
  "lift_result_case E name maybe_ty =
     (case maybe_ty of
        Some (t, f) \<Rightarrow> lift_case_expr name (Some f) False (flat_count (ge_abi E t))
      | None \<Rightarrow> lift_case_expr name None False (Some 0))"

definition lift_result_expr :: "gen_env \<Rightarrow> ity \<Rightarrow> (ity \<times> lift_fn) option \<Rightarrow> (ity \<times> lift_fn) option \<Rightarrow> lift_fn" where
  "lift_result_expr E ty ok err =
     liftFlatResult (lift_meta_expr E ty [lift_result_case E ''ok'' ok, lift_result_case E ''err'' err])"

definition lift_map_expr :: "gen_env \<Rightarrow> ity \<Rightarrow> lift_fn \<Rightarrow> lift_fn \<Rightarrow> lift_fn" where
  "lift_map_expr E ty kf vf =
     liftFlatMap \<lparr>lm_keyLiftFn = kf, lm_valueLiftFn = vf, lift_entrySize32 = size32 (ge_entry_abi E ty),
       lift_valueOffset32 = ge_value_offset32 E ty\<rparr>"

fun gen_lift :: "gen_env \<Rightarrow> ity \<Rightarrow> lift_fn" where
  "gen_lift E TBool = liftFlatBool"
| "gen_lift E TS8 = liftFlatS8"
| "gen_lift E TU8 = liftFlatU8"
| "gen_lift E TS16 = liftFlatS16"
| "gen_lift E TU16 = liftFlatU16"
| "gen_lift E TS32 = liftFlatS32"
| "gen_lift E TU32 = liftFlatU32"
| "gen_lift E TS64 = liftFlatS64"
| "gen_lift E TU64 = liftFlatU64"
| "gen_lift E TChar = liftFlatChar"
| "gen_lift E (TRecord fs) = lift_record_expr E (TRecord fs) (map (\<lambda>f. (fst f, snd f, gen_lift E (snd f))) fs)"
| "gen_lift E (TVariant cs) =
     lift_variant_expr E (TVariant cs) (map (\<lambda>k. (fst k, map_option (\<lambda>t. (t, gen_lift E t)) (snd k))) cs)"
| "gen_lift E (TList t) = lift_list_expr E t (gen_lift E t)"
| "gen_lift E (TFixedLengthList n t) = lift_fixed_list_expr E n t (gen_lift E t)"
| "gen_lift E (TTuple ts) = lift_tuple_expr E (TTuple ts) (map (\<lambda>t. (t, gen_lift E t)) ts)"
| "gen_lift E (TFlags names) = lift_flags_expr E (TFlags names) names"
| "gen_lift E (TEnum names) = lift_enum_expr E (TEnum names) names"
| "gen_lift E (TOption t) = lift_option_expr E (TOption t) t (gen_lift E t)"
| "gen_lift E (TResult ok err) =
     lift_result_expr E (TResult ok err) (map_option (\<lambda>t. (t, gen_lift E t)) ok) (map_option (\<lambda>t. (t, gen_lift E t)) err)"
| "gen_lift E (TMap k v) = lift_map_expr E (TMap k v) (gen_lift E k) (gen_lift E v)"
| "gen_lift E t = ge_lift E t"

section \<open>Lowering\<close>

definition lower_record_expr :: "gen_env \<Rightarrow> ity \<Rightarrow> (string \<times> ity \<times> lower_fn) list \<Rightarrow> lower_fn" where
  "lower_record_expr E ty fs =
     (let abi = ge_abi E ty in
      lowerFlatRecord
        (map (\<lambda>(name, t, f). (ge_camel E name, f, size32 (ge_abi E t), align32 (ge_abi E t))) fs)
        (size32 abi) (align32 abi))"

text \<open>The sizes, alignments and flat counts of the cases, which the lower functions do not read, have no
  counterpart here (for a result the code passes those of the result itself).\<close>

definition lower_variant_expr :: "gen_env \<Rightarrow> ity \<Rightarrow> (string \<times> (ity \<times> lower_fn) option) list \<Rightarrow> lower_fn" where
  "lower_variant_expr E ty cases =
     (let abi = ge_abi E ty in
      lowerFlatVariant (map (\<lambda>(name, maybe_ty). (name, map_option snd maybe_ty)) cases)
        (size32 abi) (align32 abi) (ge_payload_offset32 E ty))"

definition lower_list_expr :: "gen_env \<Rightarrow> ity \<Rightarrow> lower_fn \<Rightarrow> lower_fn" where
  "lower_list_expr E element f =
     lowerFlatList \<lparr>ll_elemLowerFn = f, ll_knownLen = None, ll_size32 = None, ll_elemSize32 = size32 (ge_abi E element),
       ll_elemAlign32 = align32 (ge_abi E element)\<rparr>"

definition lower_fixed_list_expr :: "gen_env \<Rightarrow> ity \<Rightarrow> nat \<Rightarrow> ity \<Rightarrow> lower_fn \<Rightarrow> lower_fn" where
  "lower_fixed_list_expr E ty len element f =
     lowerFlatList \<lparr>ll_elemLowerFn = f, ll_knownLen = Some len, ll_size32 = Some (size32 (ge_abi E ty)),
       ll_elemSize32 = size32 (ge_abi E element), ll_elemAlign32 = align32 (ge_abi E element)\<rparr>"

definition lower_tuple_expr :: "gen_env \<Rightarrow> ity \<Rightarrow> (ity \<times> lower_fn) list \<Rightarrow> lower_fn" where
  "lower_tuple_expr E ty ts =
     (let abi = ge_abi E ty in
      lowerFlatTuple (map (\<lambda>(t, f). (f, size32 (ge_abi E t), align32 (ge_abi E t))) ts) (size32 abi) (align32 abi))"

definition lower_flags_expr :: "gen_env \<Rightarrow> ity \<Rightarrow> string list \<Rightarrow> lower_fn" where
  "lower_flags_expr E ty names =
     lowerFlatFlags (map (ge_camel E) names) (align32 (ge_abi E ty)) (flags_int_size (length names))"

definition lower_enum_expr :: "gen_env \<Rightarrow> ity \<Rightarrow> string list \<Rightarrow> lower_fn" where
  "lower_enum_expr E ty names =
     (let abi = ge_abi E ty in
      lowerFlatEnum (map (\<lambda>name. (name, None)) names) (size32 abi) (align32 abi) (ge_payload_offset32 E ty))"

definition lower_option_expr :: "gen_env \<Rightarrow> ity \<Rightarrow> lower_fn \<Rightarrow> lower_fn" where
  "lower_option_expr E ty f =
     (let abi = ge_abi E ty in
      lowerFlatOption [(''none'', None), (''some'', Some f)] (size32 abi) (align32 abi) (ge_payload_offset32 E ty))"

definition lower_result_expr :: "gen_env \<Rightarrow> ity \<Rightarrow> lower_fn option \<Rightarrow> lower_fn option \<Rightarrow> lower_fn" where
  "lower_result_expr E ty ok err =
     (let abi = ge_abi E ty in
      lowerFlatResult [(''ok'', ok), (''err'', err)] (size32 abi) (align32 abi) (ge_payload_offset32 E ty))"

definition lower_map_expr :: "gen_env \<Rightarrow> ity \<Rightarrow> lower_fn \<Rightarrow> lower_fn \<Rightarrow> lower_fn" where
  "lower_map_expr E ty kf vf =
     lowerFlatMap \<lparr>lm_keyLowerFn = kf, lm_valueLowerFn = vf, lm_entrySize32 = size32 (ge_entry_abi E ty),
       lm_entryAlign32 = align32 (ge_entry_abi E ty), lm_valueOffset32 = ge_value_offset32 E ty\<rparr>"

fun gen_lower :: "gen_env \<Rightarrow> ity \<Rightarrow> lower_fn" where
  "gen_lower E TBool = lowerFlatBool"
| "gen_lower E TS8 = lowerFlatS8"
| "gen_lower E TU8 = lowerFlatU8"
| "gen_lower E TS16 = lowerFlatS16"
| "gen_lower E TU16 = lowerFlatU16"
| "gen_lower E TS32 = lowerFlatS32"
| "gen_lower E TU32 = lowerFlatU32"
| "gen_lower E TS64 = lowerFlatS64"
| "gen_lower E TU64 = lowerFlatU64"
| "gen_lower E TChar = lowerFlatChar"
| "gen_lower E (TRecord fs) = lower_record_expr E (TRecord fs) (map (\<lambda>f. (fst f, snd f, gen_lower E (snd f))) fs)"
| "gen_lower E (TVariant cs) =
     lower_variant_expr E (TVariant cs) (map (\<lambda>k. (fst k, map_option (\<lambda>t. (t, gen_lower E t)) (snd k))) cs)"
| "gen_lower E (TList t) = lower_list_expr E t (gen_lower E t)"
| "gen_lower E (TFixedLengthList n t) = lower_fixed_list_expr E (TFixedLengthList n t) n t (gen_lower E t)"
| "gen_lower E (TTuple ts) = lower_tuple_expr E (TTuple ts) (map (\<lambda>t. (t, gen_lower E t)) ts)"
| "gen_lower E (TFlags names) = lower_flags_expr E (TFlags names) names"
| "gen_lower E (TEnum names) = lower_enum_expr E (TEnum names) names"
| "gen_lower E (TOption t) = lower_option_expr E (TOption t) (gen_lower E t)"
| "gen_lower E (TResult ok err) = lower_result_expr E (TResult ok err) (map_option (gen_lower E) ok) (map_option (gen_lower E) err)"
| "gen_lower E (TMap k v) = lower_map_expr E (TMap k v) (gen_lower E k) (gen_lower E v)"
| "gen_lower E t = ge_lower E t"

text \<open>The lists of functions for parameters and results.\<close>

definition gen_flat_lift_fn_list :: "gen_env \<Rightarrow> ity list \<Rightarrow> lift_fn list" where
  "gen_flat_lift_fn_list E types = map (gen_lift E) types"

definition gen_flat_lower_fn_list :: "gen_env \<Rightarrow> ity list \<Rightarrow> lower_fn list" where
  "gen_flat_lower_fn_list E types = map (gen_lower E) types"

section \<open>What is relied on of the ABI\<close>

text \<open>The rules of the Canonical ABI that the round trip needs: sizes and alignments of the fixed types,
  composite types hold their parts, payloads lie behind the discriminant; and that names stay distinct.
  \<open>layout_end\<close> is where the parts end that are laid out one after the other from \<open>q\<close> on.\<close>

primrec layout_end :: "gen_env \<Rightarrow> int \<Rightarrow> ity list \<Rightarrow> int" where
  "layout_end E q [] = q"
| "layout_end E q (t # ts) = layout_end E (align_up (align32 (ge_abi E t)) q + size32 (ge_abi E t)) ts"

definition has_abi :: "gen_env \<Rightarrow> ity \<Rightarrow> int \<Rightarrow> int \<Rightarrow> bool" where
  "has_abi E t sz al \<longleftrightarrow> size32 (ge_abi E t) = sz \<and> align32 (ge_abi E t) = al"

definition pos_abi :: "gen_env \<Rightarrow> ity \<Rightarrow> bool" where
  "pos_abi E t \<longleftrightarrow> 0 < align32 (ge_abi E t) \<and> 0 \<le> size32 (ge_abi E t) \<and> align32 (ge_abi E t) dvd size32 (ge_abi E t)"

definition holds_parts :: "gen_env \<Rightarrow> ity \<Rightarrow> ity list \<Rightarrow> bool" where
  "holds_parts E ty ts \<longleftrightarrow>
     (\<forall>t\<in>set ts. align32 (ge_abi E t) dvd align32 (ge_abi E ty)) \<and> layout_end E 0 ts \<le> size32 (ge_abi E ty)"

definition holds_cases :: "gen_env \<Rightarrow> ity \<Rightarrow> string list \<Rightarrow> ity list \<Rightarrow> bool" where
  "holds_cases E ty names ts \<longleftrightarrow>
     distinct names \<and> int (length names) < 4294967296 \<and>
     ge_payload_offset32 E ty \<le> size32 (ge_abi E ty) \<and> disc_size (length names) \<le> ge_payload_offset32 E ty \<and>
     disc_size (length names) dvd align32 (ge_abi E ty) \<and>
     (\<forall>t\<in>set ts. ge_payload_offset32 E ty + size32 (ge_abi E t) \<le> size32 (ge_abi E ty) \<and>
        align32 (ge_abi E t) dvd align32 (ge_abi E ty) \<and> align32 (ge_abi E t) dvd ge_payload_offset32 E ty)"

text \<open>The types whose values have a fixed size in memory and whose functions are modelled.\<close>

fun fixed_type :: "gen_env \<Rightarrow> ity \<Rightarrow> bool" where
  "fixed_type E TBool = has_abi E TBool 1 1"
| "fixed_type E TS8 = has_abi E TS8 1 1"
| "fixed_type E TU8 = has_abi E TU8 1 1"
| "fixed_type E TS16 = has_abi E TS16 2 2"
| "fixed_type E TU16 = has_abi E TU16 2 2"
| "fixed_type E TS32 = has_abi E TS32 4 4"
| "fixed_type E TU32 = has_abi E TU32 4 4"
| "fixed_type E TS64 = has_abi E TS64 8 8"
| "fixed_type E TU64 = has_abi E TU64 8 8"
| "fixed_type E (TRecord fs) =
     (list_all (\<lambda>f. fixed_type E (snd f)) fs \<and> pos_abi E (TRecord fs) \<and> holds_parts E (TRecord fs) (map snd fs) \<and>
      distinct (map (\<lambda>f. ge_camel E (fst f)) fs))"
| "fixed_type E (TVariant cs) =
     (list_all (\<lambda>k. case snd k of None \<Rightarrow> True | Some t \<Rightarrow> fixed_type E t) cs \<and> pos_abi E (TVariant cs) \<and>
      holds_cases E (TVariant cs) (map fst cs) (List.map_filter snd cs))"
| "fixed_type E (TFixedLengthList n t) =
     (fixed_type E t \<and> pos_abi E t \<and> has_abi E (TFixedLengthList n t) (int n * size32 (ge_abi E t)) (align32 (ge_abi E t)))"
| "fixed_type E (TTuple ts) = (list_all (fixed_type E) ts \<and> pos_abi E (TTuple ts) \<and> holds_parts E (TTuple ts) ts)"
| "fixed_type E (TFlags names) =
     (length names \<le> 32 \<and> distinct (map (ge_camel E) names) \<and>
      has_abi E (TFlags names) (flags_int_size (length names)) (flags_int_size (length names)))"
| "fixed_type E (TEnum names) = (pos_abi E (TEnum names) \<and> holds_cases E (TEnum names) names [])"
| "fixed_type E (TOption t) = (fixed_type E t \<and> pos_abi E (TOption t) \<and> holds_cases E (TOption t) [''none'', ''some''] [t])"
| "fixed_type E (TResult ok err) =
     ((case ok of None \<Rightarrow> True | Some t \<Rightarrow> fixed_type E t) \<and> (case err of None \<Rightarrow> True | Some t \<Rightarrow> fixed_type E t) \<and>
      pos_abi E (TResult ok err) \<and> holds_cases E (TResult ok err) [''ok'', ''err''] (List.map_filter (\<lambda>t. t) [ok, err]))"
| "fixed_type E _ = False"

lemma fixed_pos: "fixed_type E t \<Longrightarrow> pos_abi E t"
  by (cases "(E, t)" rule: fixed_type.cases) (auto simp: has_abi_def pos_abi_def flags_int_size_def)

end
