(* ===== verification/Gen_Roundtrip.thy ===== *)
theory Gen_Roundtrip
  imports Flat_Types
begin

text \<open>
  The round trip of the generated functions: by induction over the interface types, from the contracts
  of the composite functions in \<open>Flat_Composite\<close>, \<open>Flat_Cases\<close> and \<open>Flat_Lists\<close>.
\<close>

section \<open>Values of a type\<close>

text \<open>\<open>carries E t v w\<close>: the JavaScript value \<open>v\<close> is one that the code accepts for the type, and \<open>w\<close> is
  the value that the other side gets.\<close>

inductive carries :: "gen_env \<Rightarrow> ity \<Rightarrow> val \<Rightarrow> val \<Rightarrow> bool"
  and carries_opt :: "gen_env \<Rightarrow> ity option \<Rightarrow> val \<Rightarrow> (string \<times> val) list \<Rightarrow> bool" for E where
  bool_of: "carries E TBool v (VBool (val_truthy v))"
| s8: "int_rel (- 128) 128 v w \<Longrightarrow> carries E TS8 v w"
| u8: "int_rel 0 256 v w \<Longrightarrow> carries E TU8 v w"
| s16: "int_rel (- 32768) 32768 v w \<Longrightarrow> carries E TS16 v w"
| u16: "int_rel 0 65536 v w \<Longrightarrow> carries E TU16 v w"
| s32: "int_rel (- 2147483648) 2147483648 v w \<Longrightarrow> carries E TS32 v w"
| u32: "int_rel 0 4294967296 v w \<Longrightarrow> carries E TU32 v w"
| s64: "big_rel (- (2 ^ 63)) (2 ^ 63) v w \<Longrightarrow> carries E TS64 v w"
| u64: "big_rel 0 (2 ^ 64) v w \<Longrightarrow> carries E TU64 v w"
| record_of: "list_all2 (\<lambda>f w. carries E (snd f) (obj_get kvs (ge_camel E (fst f))) w) fs ws \<Longrightarrow>
    carries E (TRecord fs) (VObj kvs) (VObj (zip (map (\<lambda>f. ge_camel E (fst f)) fs) ws))"
| variant: "i < length cs \<Longrightarrow> js_prop v ''tag'' = Inr (VStr (fst (cs ! i))) \<Longrightarrow> js_prop v ''val'' = Inr x \<Longrightarrow>
    carries_opt E (snd (cs ! i)) x kvs \<Longrightarrow> carries E (TVariant cs) v (VObj ((''tag'', VStr (fst (cs ! i))) # kvs))"
| fixed_list: "list_elems v = Inr vs \<Longrightarrow> length vs = n \<Longrightarrow> list_all2 (carries E t) vs ws \<Longrightarrow>
    carries E (TFixedLengthList n t) v (VArr ws)"
| tuple: "length vs = length ts \<Longrightarrow> list_all2 (\<lambda>p w. carries E (fst p) (snd p) w) (zip ts vs) ws \<Longrightarrow>
    carries E (TTuple ts) (VArr vs) (VArr ws)"
| flags: "carries E (TFlags names) (VObj kvs) (flags_val (map (ge_camel E) names) kvs)"
| enum: "name \<in> set names \<Longrightarrow> carries E (TEnum names) (VStr name) (VStr name)"
| none: "v = VNull \<or> v = VUndef \<Longrightarrow> carries E (TOption t) v (VObj [(''tag'', VStr ''none'')])"
| none_object: "is_option_object v \<Longrightarrow> tag_of v = VStr ''none'' \<Longrightarrow> carries E (TOption t) v (VObj [(''tag'', VStr ''none'')])"
| some: "v \<noteq> VNull \<Longrightarrow> v \<noteq> VUndef \<Longrightarrow> \<not> is_option_object v \<Longrightarrow> carries E t v w \<Longrightarrow>
    carries E (TOption t) v (VObj [(''tag'', VStr ''some''), (''val'', w)])"
| some_object: "is_option_object (VObj kvs) \<Longrightarrow> obj_get kvs ''tag'' = VStr ''some'' \<Longrightarrow> carries E t (obj_get kvs ''val'') w \<Longrightarrow>
    carries E (TOption t) (VObj kvs) (VObj [(''tag'', VStr ''some''), (''val'', w)])"
| ok_object: "is_result_object (VObj kvs) \<Longrightarrow> obj_get kvs ''tag'' = VStr ''ok'' \<Longrightarrow> carries_opt E ok (obj_get kvs ''val'') res \<Longrightarrow>
    carries E (TResult ok err) (VObj kvs) (VObj ((''tag'', VStr ''ok'') # res))"
| err_object: "is_result_object (VObj kvs) \<Longrightarrow> obj_get kvs ''tag'' = VStr ''err'' \<Longrightarrow> carries_opt E err (obj_get kvs ''val'') res \<Longrightarrow>
    carries E (TResult ok err) (VObj kvs) (VObj ((''tag'', VStr ''err'') # res))"
| ok_plain: "v \<noteq> VNull \<Longrightarrow> \<not> is_result_object v \<Longrightarrow> carries_opt E ok v res \<Longrightarrow>
    carries E (TResult ok err) v (VObj ((''tag'', VStr ''ok'') # res))"
| no_payload: "carries_opt E None v []"
| payload: "carries E t v w \<Longrightarrow> carries_opt E (Some t) v [(''val'', w)]"
  monos list_all2_mono

section \<open>Parts\<close>

definition gen_ok :: "gen_env \<Rightarrow> ity \<Rightarrow> val \<Rightarrow> val \<Rightarrow> bool" where
  "gen_ok E t v w \<longleftrightarrow> stores (gen_lower E t) (gen_lift E t) (size32 (ge_abi E t)) (align32 (ge_abi E t)) v w"

definition gen_part :: "gen_env \<Rightarrow> ity \<Rightarrow> val \<Rightarrow> val \<Rightarrow> part" where
  "gen_part E t v w = \<lparr>pt_lower = gen_lower E t, pt_lift = gen_lift E t, pt_sz = size32 (ge_abi E t), pt_al = align32 (ge_abi E t),
     pt_val = v, pt_res = w\<rparr>"

lemma gen_part_simps [simp]:
  "pt_lower (gen_part E t v w) = gen_lower E t" "pt_lift (gen_part E t v w) = gen_lift E t"
  "pt_sz (gen_part E t v w) = size32 (ge_abi E t)" "pt_al (gen_part E t v w) = align32 (ge_abi E t)"
  "pt_val (gen_part E t v w) = v" "pt_res (gen_part E t v w) = w"
  by (simp_all add: gen_part_def)

lemma gen_part_ok: "fixed_type E t \<Longrightarrow> gen_ok E t v w \<Longrightarrow> part_ok (gen_part E t v w)"
  using fixed_pos by (auto simp: part_ok_def gen_ok_def pos_abi_def)

lemma ends_layout: "map pt_sz xs = map (\<lambda>t. size32 (ge_abi E t)) ts \<Longrightarrow> map pt_al xs = map (\<lambda>t. align32 (ge_abi E t)) ts \<Longrightarrow>
  ends q xs = layout_end E q ts"
  by (induction ts arbitrary: xs q) (auto simp: map_eq_Cons_conv)

text \<open>A list of types with the values they are given.\<close>

definition gen_parts :: "gen_env \<Rightarrow> ity list \<Rightarrow> val list \<Rightarrow> val list \<Rightarrow> part list" where
  "gen_parts E ts vs ws = map (\<lambda>(t, v, w). gen_part E t v w) (zip ts (zip vs ws))"

lemma gen_parts_maps [simp]:
  assumes "length vs = length ts" "length ws = length ts"
  shows "map pt_val (gen_parts E ts vs ws) = vs" "map pt_res (gen_parts E ts vs ws) = ws" "length (gen_parts E ts vs ws) = length ts"
    "map pt_sz (gen_parts E ts vs ws) = map (\<lambda>t. size32 (ge_abi E t)) ts" "map pt_al (gen_parts E ts vs ws) = map (\<lambda>t. align32 (ge_abi E t)) ts"
    "map lift_entry (gen_parts E ts vs ws) = map (\<lambda>t. (gen_lift E t, size32 (ge_abi E t), align32 (ge_abi E t))) ts"
    "map (\<lambda>x. (pt_lower x, pt_sz x, pt_al x)) (gen_parts E ts vs ws) = map (\<lambda>t. (gen_lower E t, size32 (ge_abi E t), align32 (ge_abi E t))) ts"
  using assms by (auto simp: gen_parts_def lift_entry_def intro!: nth_equalityI)

lemma gen_parts_ok:
  assumes "list_all (fixed_type E) ts" "length vs = length ts" "length ws = length ts" "\<And>i. i < length ts \<Longrightarrow> gen_ok E (ts ! i) (vs ! i) (ws ! i)"
    and "holds_parts E ty ts" "pos_abi E ty"
  shows "\<forall>x\<in>set (gen_parts E ts vs ws). part_ok x \<and> pt_al x dvd align32 (ge_abi E ty)"
    "ends 0 (gen_parts E ts vs ws) \<le> size32 (ge_abi E ty)"
proof -
  show "\<forall>x\<in>set (gen_parts E ts vs ws). part_ok x \<and> pt_al x dvd align32 (ge_abi E ty)"
  proof
    fix x assume "x \<in> set (gen_parts E ts vs ws)"
    then obtain i where i: "i < length ts" "x = gen_part E (ts ! i) (vs ! i) (ws ! i)"
      using assms(2,3) by (auto simp: gen_parts_def set_zip)
    then have "fixed_type E (ts ! i)" "ts ! i \<in> set ts" using assms(1) by (auto simp: list_all_length)
    with i assms(4,5) show "part_ok x \<and> pt_al x dvd align32 (ge_abi E ty)"
      by (auto simp: gen_part_ok holds_parts_def)
  qed
  show "ends 0 (gen_parts E ts vs ws) \<le> size32 (ge_abi E ty)"
    using ends_layout [of "gen_parts E ts vs ws" E ts 0] assms by (simp add: holds_parts_def)
qed

section \<open>The cases of the induction\<close>

lemma gen_record:
  assumes "list_all2 (\<lambda>f w. gen_ok E (snd f) (obj_get kvs (ge_camel E (fst f))) w) fs ws" "fixed_type E (TRecord fs)"
  shows "gen_ok E (TRecord fs) (VObj kvs) (VObj (zip (map (\<lambda>f. ge_camel E (fst f)) fs) ws))"
proof -
  let ?ks = "map (\<lambda>f. ge_camel E (fst f)) fs" and ?ts = "map snd fs" and ?ty = "TRecord fs"
  let ?vs = "map (obj_get kvs) ?ks"
  let ?xs = "gen_parts E ?ts ?vs ws"
  have len: "length ws = length fs" using assms(1) by (simp add: list_all2_lengthD)
  have p: "list_all (fixed_type E) ?ts" "holds_parts E ?ty ?ts" "pos_abi E ?ty" "distinct ?ks"
    using assms(2) by (simp_all add: list_all_iff)
  have ok: "gen_ok E (?ts ! i) (?vs ! i) (ws ! i)" if "i < length ?ts" for i
    using that assms(1) by (auto simp: list_all2_conv_all_nth)
  note po = gen_parts_ok [OF p(1) _ _ ok p(2,3)]
  have m: "lower_field_metas ?ks ?xs = map (\<lambda>f. (ge_camel E (fst f), gen_lower E (snd f), size32 (ge_abi E (snd f)), align32 (ge_abi E (snd f)))) fs"
    "lift_field_metas ?ks ?xs = map (\<lambda>f. (ge_camel E (fst f), gen_lift E (snd f), size32 (ge_abi E (snd f)), align32 (ge_abi E (snd f)))) fs"
    using len by (simp_all add: lower_field_metas_def lift_field_metas_def zip_map_map map_zip_map) (auto intro!: nth_equalityI)
  have "list_all2 (\<lambda>k x. obj_get kvs k = pt_val x) ?ks ?xs"
    using len by (auto simp: list_all2_conv_all_nth gen_parts_def)
  with po len p(3,4) have "stores (lowerFlatRecord (lower_field_metas ?ks ?xs) (size32 (ge_abi E ?ty)) (align32 (ge_abi E ?ty)))
      (liftFlatRecord (lift_field_metas ?ks ?xs) (size32 (ge_abi E ?ty)) (align32 (ge_abi E ?ty)))
      (size32 (ge_abi E ?ty)) (align32 (ge_abi E ?ty)) (VObj kvs) (VObj (zip ?ks (map pt_res ?xs)))"
    by (intro record_stores) (auto simp: pos_abi_def)
  then show ?thesis using len unfolding m
    by (simp add: gen_ok_def lower_record_expr_def lift_record_expr_def Let_def comp_def)
qed

lemma gen_tuple:
  assumes "length vs = length ts" "list_all2 (\<lambda>p w. gen_ok E (fst p) (snd p) w) (zip ts vs) ws" "fixed_type E (TTuple ts)"
  shows "gen_ok E (TTuple ts) (VArr vs) (VArr ws)"
proof -
  let ?ty = "TTuple ts" and ?xs = "gen_parts E ts vs ws"
  have len: "length ws = length ts" using assms(1,2) by (auto dest: list_all2_lengthD)
  have p: "list_all (fixed_type E) ts" "holds_parts E ?ty ts" "pos_abi E ?ty" using assms(3) by simp_all
  have ok: "gen_ok E (ts ! i) (vs ! i) (ws ! i)" if "i < length ts" for i
    using that assms(1,2) by (auto simp: list_all2_conv_all_nth)
  note po = gen_parts_ok [OF p(1) assms(1) len ok p(2,3)]
  have "stores (lowerFlatTuple (lower_elem_metas ?xs) (size32 (ge_abi E ?ty)) (align32 (ge_abi E ?ty)))
      (liftFlatTuple (map lift_entry ?xs) (size32 (ge_abi E ?ty)) (align32 (ge_abi E ?ty)))
      (size32 (ge_abi E ?ty)) (align32 (ge_abi E ?ty)) (VArr (map pt_val ?xs)) (VArr (map pt_res ?xs))"
    using po p(3) by (intro tuple_stores) (auto simp: pos_abi_def)
  then show ?thesis using assms(1) len
    by (simp add: gen_ok_def lower_tuple_expr_def lift_tuple_expr_def Let_def lower_elem_metas_def comp_def)
qed

lemma gen_fixed_list:
  assumes "list_elems v = Inr vs" "length vs = n" "list_all2 (gen_ok E t) vs ws" "fixed_type E (TFixedLengthList n t)"
  shows "gen_ok E (TFixedLengthList n t) v (VArr ws)"
proof -
  have a: "pos_abi E t" "has_abi E (TFixedLengthList n t) (int n * size32 (ge_abi E t)) (align32 (ge_abi E t))"
    using assms(4) by simp_all
  have "list_all2 (stores (gen_lower E t) (gen_lift E t) (size32 (ge_abi E t)) (align32 (ge_abi E t))) vs ws"
    using assms(3) by (simp add: gen_ok_def [abs_def])
  then have "stores (gen_lower E (TFixedLengthList n t)) (gen_lift E (TFixedLengthList n t)) (int (length vs) * size32 (ge_abi E t))
      (align32 (ge_abi E t)) v (VArr ws)"
    using a assms(1,2) unfolding gen_lower.simps gen_lift.simps lower_fixed_list_expr_def lift_fixed_list_expr_def
    by (intro known_list_stores [where ta = None]) (auto simp: pos_abi_def list_value_def)
  with a(2) assms(2) show ?thesis by (simp add: gen_ok_def has_abi_def)
qed

lemma gen_flags:
  assumes "fixed_type E (TFlags names)"
  shows "gen_ok E (TFlags names) (VObj kvs) (flags_val (map (ge_camel E) names) kvs)"
proof -
  let ?n = "nat (flags_int_size (length names))"
  have n: "?n \<in> {1, 2, 4}" "length names \<le> 8 * ?n" "int ?n = flags_int_size (length names)"
    using assms by (auto simp: flags_int_size_def)
  have "stores (lowerFlatFlags (map (ge_camel E) names) (int ?n) (int ?n)) (liftFlatFlags (map (ge_camel E) names) (int ?n) (int ?n))
      (int ?n) (int ?n) (VObj kvs) (flags_val (map (ge_camel E) names) kvs)"
    using n assms by (intro flags_stores) simp_all
  then show ?thesis using assms n(3)
    by (simp add: gen_ok_def lower_flags_expr_def lift_flags_expr_def has_abi_def)
qed

text \<open>The cases of a type with a discriminant: the lists of both sides are those of one list of names
  with optional payload types.\<close>

definition lower_cases_of :: "gen_env \<Rightarrow> (string \<times> ity option) list \<Rightarrow> lower_case list" where
  "lower_cases_of E cs = map (\<lambda>k. (fst k, map_option (gen_lower E) (snd k))) cs"

lemma gen_variant_metas:
  assumes "holds_cases E ty (map fst cs) ts" "pos_abi E ty"
    and "map lc_tag (lv_caseMetas meta) = map fst cs" "lv_size32 meta = size32 (ge_abi E ty)" "lv_align32 meta = align32 (ge_abi E ty)"
      "lv_payloadOffset32 meta = Some (ge_payload_offset32 E ty)"
  shows "variant_metas (lower_cases_of E cs) meta (size32 (ge_abi E ty)) (align32 (ge_abi E ty)) (ge_payload_offset32 E ty)"
proof -
  have m: "map fst (lower_cases_of E cs) = map fst cs" "length (lower_cases_of E cs) = length cs" by (simp_all add: lower_cases_of_def)
  show ?thesis unfolding variant_metas_def m using assms by (simp add: holds_cases_def pos_abi_def)
qed

definition gen_opt_ok :: "gen_env \<Rightarrow> ity option \<Rightarrow> val \<Rightarrow> (string \<times> val) list \<Rightarrow> bool" where
  "gen_opt_ok E ot v kvs \<longleftrightarrow> (case ot of None \<Rightarrow> kvs = [] | Some t \<Rightarrow> (\<exists>w. kvs = [(''val'', w)] \<and> gen_ok E t v w))"

lemma gen_case_payload:
  assumes "holds_cases E ty (map fst cs) ts" "i < length cs" "snd (cs ! i) = Some t \<longrightarrow> t \<in> set ts \<and> pos_abi E t"
    and "lc_liftFn (lv_caseMetas meta ! i) = map_option (gen_lift E) (snd (cs ! i))" "gen_opt_ok E (snd (cs ! i)) v kvs"
    "\<And>t. snd (cs ! i) = Some t \<Longrightarrow> t \<in> set ts \<and> pos_abi E t"
  shows "case_payload (lower_cases_of E cs) meta (size32 (ge_abi E ty)) (align32 (ge_abi E ty)) (ge_payload_offset32 E ty) i v kvs"
proof (cases "snd (cs ! i)")
  case None
  with assms(2,4,5) show ?thesis by (simp add: case_payload_def lower_cases_of_def gen_opt_ok_def)
next
  case (Some t)
  with assms(5) obtain w where w: "kvs = [(''val'', w)]" "gen_ok E t v w" by (auto simp: gen_opt_ok_def)
  have "t \<in> set ts" "pos_abi E t" using assms(6) Some by simp_all
  with w assms(1,2,4) Some show ?thesis unfolding w(1)
    by (intro case_payload_Some [where psz = "size32 (ge_abi E t)" and pal = "align32 (ge_abi E t)"])
      (auto simp: lower_cases_of_def gen_ok_def holds_cases_def pos_abi_def)
qed

lemma gen_cases:
  assumes "holds_cases E ty (map fst cs) ts" "pos_abi E ty" "i < length cs" "gen_opt_ok E (snd (cs ! i)) x kvs"
    "\<And>t. snd (cs ! i) = Some t \<Longrightarrow> t \<in> set ts \<and> pos_abi E t"
    and meta: "lv_caseMetas meta = map (\<lambda>k. lift_case_expr (fst k) (map_option (gen_lift E) (snd k)) False (cnt k)) cs"
      "lv_size32 meta = size32 (ge_abi E ty)" "lv_align32 meta = align32 (ge_abi E ty)"
      "lv_payloadOffset32 meta = Some (ge_payload_offset32 E ty)"
    and v: "js_prop v ''tag'' = Inr (VStr (fst (cs ! i)))" "js_prop v ''val'' = Inr x"
  shows "stores (lowerFlatVariant (lower_cases_of E cs) (size32 (ge_abi E ty)) (align32 (ge_abi E ty)) (ge_payload_offset32 E ty))
    (liftFlatVariant meta) (size32 (ge_abi E ty)) (align32 (ge_abi E ty)) v (VObj ((''tag'', VStr (fst (cs ! i))) # kvs))"
proof -
  have tags: "map lc_tag (lv_caseMetas meta) = map fst cs" by (simp add: meta(1) lift_case_expr_def)
  have lf: "lc_liftFn (lv_caseMetas meta ! i) = map_option (gen_lift E) (snd (cs ! i))"
    using assms(3) by (simp add: meta(1) lift_case_expr_def)
  have n: "fst (lower_cases_of E cs ! i) = fst (cs ! i)" using assms(3) by (simp add: lower_cases_of_def)
  have "variant_metas (lower_cases_of E cs) meta (size32 (ge_abi E ty)) (align32 (ge_abi E ty)) (ge_payload_offset32 E ty)"
    by (rule gen_variant_metas [OF assms(1,2) tags meta(2-4)])
  moreover have "case_payload (lower_cases_of E cs) meta (size32 (ge_abi E ty)) (align32 (ge_abi E ty)) (ge_payload_offset32 E ty) i x kvs"
    by (rule gen_case_payload [OF assms(1,3) _ lf assms(4,5)]) (use assms(5) in auto)
  moreover have "i < length (lower_cases_of E cs)" using assms(3) by (simp add: lower_cases_of_def)
  ultimately show ?thesis using variant_stores [of "lower_cases_of E cs" meta _ _ _ i x kvs v] v unfolding n by blast
qed

lemma gen_variant:
  assumes "i < length cs" "js_prop v ''tag'' = Inr (VStr (fst (cs ! i)))" "js_prop v ''val'' = Inr x"
    "gen_opt_ok E (snd (cs ! i)) x kvs" "fixed_type E (TVariant cs)"
  shows "gen_ok E (TVariant cs) v (VObj ((''tag'', VStr (fst (cs ! i))) # kvs))"
proof -
  let ?ty = "TVariant cs" and ?ts = "List.map_filter snd cs"
  have a: "holds_cases E ?ty (map fst cs) ?ts" "pos_abi E ?ty" using assms(5) by simp_all
  have p: "t \<in> set ?ts \<and> pos_abi E t" if "snd (cs ! i) = Some t" for t
  proof -
    have "cs ! i \<in> set cs" using assms(1) by simp
    with that assms(5) have "fixed_type E t" by (auto simp: list_all_iff dest!: bspec)
    with \<open>cs ! i \<in> set cs\<close> that show ?thesis using fixed_pos by (force simp: map_filter_def)
  qed
  let ?lifts = "map (\<lambda>k. (fst k, map_option (\<lambda>t. (t, gen_lift E t)) (snd k))) cs"
  let ?cnt = "\<lambda>k. case snd k of None \<Rightarrow> Some 0 | Some t \<Rightarrow> ge_flat_count E (ge_abi E t) MAX_FLAT_PARAMS"
  let ?meta = "lift_meta_expr E ?ty (map (\<lambda>k. lift_case_expr (fst k) (map_option (gen_lift E) (snd k)) False (?cnt k)) cs)"
  have l: "gen_lift E ?ty = liftFlatVariant ?meta"
    by (auto simp: lift_variant_expr_def intro!: arg_cong [where f = "\<lambda>cs. liftFlatVariant (lift_meta_expr E ?ty cs)"] split: option.splits)
  have w: "gen_lower E ?ty = lowerFlatVariant (lower_cases_of E cs) (size32 (ge_abi E ?ty)) (align32 (ge_abi E ?ty)) (ge_payload_offset32 E ?ty)"
    by (simp add: lower_variant_expr_def lower_cases_of_def Let_def comp_def option.map_comp)
  show ?thesis unfolding gen_ok_def l w
    by (rule gen_cases [OF a assms(1,4) p, where cnt = ?cnt]) (use assms(2,3) in \<open>simp_all add: lift_meta_expr_def Let_def\<close>)
qed

text \<open>Options, results and enums only change the value around the variant's function.\<close>

definition option_cases :: "ity \<Rightarrow> (string \<times> ity option) list" where
  "option_cases t = [(''none'', None), (''some'', Some t)]"

lemma gen_option_variant:
  assumes "fixed_type E (TOption t)" "gen_opt_ok E (if n = ''some'' then Some t else None) x kvs" "n \<in> {''none'', ''some''}"
    and "js_prop v ''tag'' = Inr (VStr n)" "js_prop v ''val'' = Inr x"
    and g: "\<And>c. vals c = [u] \<Longrightarrow> lowerFlatOption (lower_cases_of E (option_cases t)) (size32 (ge_abi E (TOption t)))
        (align32 (ge_abi E (TOption t))) (ge_payload_offset32 E (TOption t)) c =
      lowerFlatVariant (lower_cases_of E (option_cases t)) (size32 (ge_abi E (TOption t)))
        (align32 (ge_abi E (TOption t))) (ge_payload_offset32 E (TOption t)) (c\<lparr>vals := [v]\<rparr>)"
  shows "gen_ok E (TOption t) u (VObj ((''tag'', VStr n) # kvs))"
proof -
  let ?ty = "TOption t" and ?cs = "option_cases t" and ?i = "if n = ''some'' then 1 else 0 :: nat"
  let ?cnt = "\<lambda>k. if fst k = ''some'' then flat_count (ge_abi E t) else Some 0"
  let ?meta = "lift_meta_expr E ?ty (map (\<lambda>k. lift_case_expr (fst k) (map_option (gen_lift E) (snd k)) False (?cnt k)) ?cs)"
  have a: "holds_cases E ?ty (map fst ?cs) [t]" "pos_abi E ?ty" "fixed_type E t" using assms(1) by (simp_all add: option_cases_def)
  have i: "?i < length ?cs" "snd (?cs ! ?i) = (if n = ''some'' then Some t else None)" "fst (?cs ! ?i) = n"
    using assms(3) by (auto simp: option_cases_def)
  have p: "t' \<in> set [t] \<and> pos_abi E t'" if "snd (?cs ! ?i) = Some t'" for t'
    using that fixed_pos [OF a(3)] unfolding i(2) by (simp split: if_splits)
  have "stores (lowerFlatVariant (lower_cases_of E ?cs) (size32 (ge_abi E ?ty)) (align32 (ge_abi E ?ty)) (ge_payload_offset32 E ?ty))
      (liftFlatVariant ?meta) (size32 (ge_abi E ?ty)) (align32 (ge_abi E ?ty)) v (VObj ((''tag'', VStr (fst (?cs ! ?i))) # kvs))"
    by (rule gen_cases [OF a(1,2) i(1) _ p, where cnt = ?cnt and x = x])
      (use assms(2,4,5) i in \<open>simp_all only: lift_meta_expr_def Let_def lift_variant_meta.simps\<close>)
  then have st: "stores (lowerFlatVariant (lower_cases_of E ?cs) (size32 (ge_abi E ?ty)) (align32 (ge_abi E ?ty)) (ge_payload_offset32 E ?ty))
      (liftFlatVariant ?meta) (size32 (ge_abi E ?ty)) (align32 (ge_abi E ?ty)) v (VObj ((''tag'', VStr n) # kvs))" unfolding i(3) .
  have "gen_lift E ?ty = liftFlatVariant ?meta"
    by (simp add: lift_option_expr_def liftFlatOption_def option_cases_def)
  moreover have "gen_lower E ?ty = lowerFlatOption (lower_cases_of E ?cs) (size32 (ge_abi E ?ty)) (align32 (ge_abi E ?ty)) (ge_payload_offset32 E ?ty)"
    by (simp add: lower_option_expr_def lower_cases_of_def option_cases_def Let_def)
  ultimately show ?thesis unfolding gen_ok_def using stores_via [OF st g] by simp
qed

lemma gen_none:
  assumes "v = VNull \<or> v = VUndef" "fixed_type E (TOption t)"
  shows "gen_ok E (TOption t) v (VObj [(''tag'', VStr ''none'')])"
  by (rule gen_option_variant [OF assms(2), where v = "VObj [(''tag'', VStr ''none'')]" and x = VUndef])
    (use assms(1) in \<open>auto simp: gen_opt_ok_def obj_get_def lowerFlatOption_def\<close>)

lemma gen_none_object:
  assumes "is_option_object v" "tag_of v = VStr ''none''" "fixed_type E (TOption t)"
  shows "gen_ok E (TOption t) v (VObj [(''tag'', VStr ''none'')])"
proof -
  obtain kvs where v: "v = VObj kvs" using assms(1) by (cases v) (auto simp: is_option_object_def two_keys_with_tag_def)
  show ?thesis
    by (rule gen_option_variant [OF assms(3), where v = v and x = "obj_get kvs ''val''"])
      (use assms(1,2) v in \<open>auto simp: gen_opt_ok_def tag_of_def lowerFlatOption_def vals_id Let_def\<close>)
qed

lemma gen_some:
  assumes "v \<noteq> VNull" "v \<noteq> VUndef" "\<not> is_option_object v" "gen_ok E t v w" "fixed_type E (TOption t)"
  shows "gen_ok E (TOption t) v (VObj [(''tag'', VStr ''some''), (''val'', w)])"
  by (rule gen_option_variant [OF assms(5), where v = "VObj [(''tag'', VStr ''some''), (''val'', v)]" and x = v])
    (use assms(1-4) in \<open>auto simp: gen_opt_ok_def obj_get_def lowerFlatOption_def Let_def\<close>)

lemma gen_some_object:
  assumes "is_option_object (VObj kvs)" "obj_get kvs ''tag'' = VStr ''some''" "gen_ok E t (obj_get kvs ''val'') w" "fixed_type E (TOption t)"
  shows "gen_ok E (TOption t) (VObj kvs) (VObj [(''tag'', VStr ''some''), (''val'', w)])"
  by (rule gen_option_variant [OF assms(4), where v = "VObj kvs" and x = "obj_get kvs ''val''"])
    (use assms(1-3) in \<open>auto simp: gen_opt_ok_def lowerFlatOption_def vals_id Let_def\<close>)

definition result_cases :: "ity option \<Rightarrow> ity option \<Rightarrow> (string \<times> ity option) list" where
  "result_cases ok err = [(''ok'', ok), (''err'', err)]"

lemma gen_result:
  assumes "fixed_type E (TResult ok err)" "gen_opt_ok E (if n = ''ok'' then ok else err) x kvs" "n \<in> {''ok'', ''err''}"
    and "js_prop v ''tag'' = Inr (VStr n)" "js_prop v ''val'' = Inr x"
    and g: "\<And>c. vals c = [u] \<Longrightarrow> lowerFlatResult (lower_cases_of E (result_cases ok err)) (size32 (ge_abi E (TResult ok err)))
        (align32 (ge_abi E (TResult ok err))) (ge_payload_offset32 E (TResult ok err)) c =
      lowerFlatVariant (lower_cases_of E (result_cases ok err)) (size32 (ge_abi E (TResult ok err)))
        (align32 (ge_abi E (TResult ok err))) (ge_payload_offset32 E (TResult ok err)) (c\<lparr>vals := [v]\<rparr>)"
  shows "gen_ok E (TResult ok err) u (VObj ((''tag'', VStr n) # kvs))"
proof -
  let ?ty = "TResult ok err" and ?cs = "result_cases ok err" and ?i = "if n = ''ok'' then 0 else 1 :: nat"
  let ?ts = "List.map_filter (\<lambda>t. t) [ok, err]"
  let ?cnt = "\<lambda>k. case snd k of None \<Rightarrow> Some 0 | Some t \<Rightarrow> flat_count (ge_abi E t)"
  let ?meta = "lift_meta_expr E ?ty (map (\<lambda>k. lift_case_expr (fst k) (map_option (gen_lift E) (snd k)) False (?cnt k)) ?cs)"
  have a: "holds_cases E ?ty (map fst ?cs) ?ts" "pos_abi E ?ty" using assms(1) by (simp_all add: result_cases_def)
  have i: "?i < length ?cs" "snd (?cs ! ?i) = (if n = ''ok'' then ok else err)" "fst (?cs ! ?i) = n"
    using assms(3) by (auto simp: result_cases_def)
  have p: "t \<in> set ?ts \<and> pos_abi E t" if "snd (?cs ! ?i) = Some t" for t
    using that fixed_pos [of E t] assms(1) unfolding i(2) by (auto simp: map_filter_def split: if_splits)
  have "stores (lowerFlatVariant (lower_cases_of E ?cs) (size32 (ge_abi E ?ty)) (align32 (ge_abi E ?ty)) (ge_payload_offset32 E ?ty))
      (liftFlatVariant ?meta) (size32 (ge_abi E ?ty)) (align32 (ge_abi E ?ty)) v (VObj ((''tag'', VStr (fst (?cs ! ?i))) # kvs))"
    by (rule gen_cases [OF a(1,2) i(1) _ p, where cnt = ?cnt and x = x])
      (use assms(2,4,5) i in \<open>simp_all only: lift_meta_expr_def Let_def lift_variant_meta.simps\<close>)
  then have st: "stores (lowerFlatVariant (lower_cases_of E ?cs) (size32 (ge_abi E ?ty)) (align32 (ge_abi E ?ty)) (ge_payload_offset32 E ?ty))
      (liftFlatVariant ?meta) (size32 (ge_abi E ?ty)) (align32 (ge_abi E ?ty)) v (VObj ((''tag'', VStr n) # kvs))" unfolding i(3) .
  have "gen_lift E ?ty = liftFlatVariant ?meta"
    by (simp add: lift_result_expr_def lift_result_case_def liftFlatResult_def result_cases_def lift_case_expr_def split: option.splits)
  moreover have "gen_lower E ?ty = lowerFlatResult (lower_cases_of E ?cs) (size32 (ge_abi E ?ty)) (align32 (ge_abi E ?ty)) (ge_payload_offset32 E ?ty)"
    by (simp add: lower_result_expr_def lower_cases_of_def result_cases_def Let_def)
  ultimately show ?thesis unfolding gen_ok_def using stores_via [OF st g] by simp
qed

lemma gen_result_object:
  assumes "is_result_object (VObj kvs)" "obj_get kvs ''tag'' = VStr n" "n \<in> {''ok'', ''err''}"
    "gen_opt_ok E (if n = ''ok'' then ok else err) (obj_get kvs ''val'') res" "fixed_type E (TResult ok err)"
  shows "gen_ok E (TResult ok err) (VObj kvs) (VObj ((''tag'', VStr n) # res))"
  by (rule gen_result [OF assms(5), where v = "VObj kvs" and x = "obj_get kvs ''val''"])
    (use assms(1-4) in \<open>auto simp: lowerFlatResult_def vals_id Let_def\<close>)

lemma gen_ok_plain:
  assumes "v \<noteq> VNull" "\<not> is_result_object v" "gen_opt_ok E ok v res" "fixed_type E (TResult ok err)"
  shows "gen_ok E (TResult ok err) v (VObj ((''tag'', VStr ''ok'') # res))"
  by (rule gen_result [OF assms(4), where v = "VObj [(''tag'', VStr ''ok''), (''val'', v)]" and x = v])
    (use assms(1-3) in \<open>auto simp: obj_get_def lowerFlatResult_def Let_def\<close>)

text \<open>An enum is lifted as the tag of a variant.\<close>

lemma reads_via:
  assumes "reads f sz al v m p" "h v = Inr w"
  shows "reads (\<lambda>c. rbind (f c) (\<lambda>(x, c'). rbind (h x) (\<lambda>y. Inr (y, c')))) sz al w m p"
  using assms unfolding reads_def by fastforce

lemma stores_lift_via:
  assumes "stores lower f sz al v x" "h x = Inr w"
  shows "stores lower (\<lambda>c. rbind (f c) (\<lambda>(x, c'). rbind (h x) (\<lambda>y. Inr (y, c')))) sz al v w"
  unfolding stores_def
proof (intro allI impI)
  fix c m p
  assume "ready sz al m p c" "storageLen c = None" "vals c = [v]"
  from storesE [OF assms(1) this] obtain c' m' where "lower c = Inr c'" "wrote sz m p c c' m'"
    "\<And>m2. agree p sz m' m2 \<Longrightarrow> reads f sz al x m2 p" by blast
  moreover have "reads (\<lambda>c. rbind (f c) (\<lambda>(x, c'). rbind (h x) (\<lambda>y. Inr (y, c')))) sz al w m2 p" if "reads f sz al x m2 p" for m2
    using that assms(2) by (rule reads_via)
  ultimately show "\<exists>c' m'. lower c = Inr c' \<and> wrote sz m p c c' m' \<and>
      (\<forall>m2. agree p sz m' m2 \<longrightarrow> reads (\<lambda>c. rbind (f c) (\<lambda>(x, c'). rbind (h x) (\<lambda>y. Inr (y, c')))) sz al w m2 p)" by blast
qed

lemma gen_enum:
  assumes "name \<in> set names" "fixed_type E (TEnum names)"
  shows "gen_ok E (TEnum names) (VStr name) (VStr name)"
proof -
  let ?ty = "TEnum names" and ?cs = "map (\<lambda>n. (n, None :: ity option)) names"
  let ?cnt = "\<lambda>k. Some (ge_payload_offset32 E ?ty)"
  let ?meta = "lift_meta_expr E ?ty (map (\<lambda>k. lift_case_expr (fst k) (map_option (gen_lift E) (snd k)) False (?cnt k)) ?cs)"
  let ?meta' = "?meta\<lparr>lv_isEnum := True\<rparr>" and ?v = "VObj [(''tag'', VStr name)]"
  obtain i where i: "i < length names" "names ! i = name" using assms(1) by (auto simp: in_set_conv_nth)
  have a: "holds_cases E ?ty (map fst ?cs) []" "pos_abi E ?ty" using assms(2) by (simp_all add: comp_def)
  have st: "stores (lowerFlatVariant (lower_cases_of E ?cs) (size32 (ge_abi E ?ty)) (align32 (ge_abi E ?ty)) (ge_payload_offset32 E ?ty))
      (liftFlatVariant ?meta') (size32 (ge_abi E ?ty)) (align32 (ge_abi E ?ty)) ?v (VObj ((''tag'', VStr (fst (?cs ! i))) # []))"
    by (rule gen_cases [OF a, where cnt = ?cnt and x = VUndef])
      (use i in \<open>simp_all add: lift_meta_expr_def Let_def gen_opt_ok_def obj_get_def\<close>)
  have lo: "stores (lowerFlatEnum (lower_cases_of E ?cs) (size32 (ge_abi E ?ty)) (align32 (ge_abi E ?ty)) (ge_payload_offset32 E ?ty))
      (liftFlatVariant ?meta') (size32 (ge_abi E ?ty)) (align32 (ge_abi E ?ty)) (VStr name) ?v"
    by (rule stores_via [where w = ?v]) (use st i in \<open>simp_all add: lowerFlatEnum_def two_keys_with_tag_def Let_def\<close>)
  have "js_prop ?v ''tag'' = Inr (VStr name)" by (simp add: obj_get_def)
  from stores_lift_via [of _ _ _ _ _ _ "\<lambda>x. js_prop x ''tag''", OF lo this]
  have "stores (lowerFlatEnum (lower_cases_of E ?cs) (size32 (ge_abi E ?ty)) (align32 (ge_abi E ?ty)) (ge_payload_offset32 E ?ty))
      (liftFlatEnum ?meta) (size32 (ge_abi E ?ty)) (align32 (ge_abi E ?ty)) (VStr name) (VStr name)"
    by (simp add: liftFlatEnum_def [abs_def])
  moreover have "gen_lift E ?ty = liftFlatEnum ?meta" by (simp add: lift_enum_expr_def comp_def)
  moreover have "gen_lower E ?ty = lowerFlatEnum (lower_cases_of E ?cs) (size32 (ge_abi E ?ty)) (align32 (ge_abi E ?ty)) (ge_payload_offset32 E ?ty)"
    by (simp add: lower_enum_expr_def lower_cases_of_def Let_def comp_def)
  ultimately show ?thesis by (simp add: gen_ok_def)
qed

section \<open>The round trip\<close>

lemma gen_number:
  "int_rel (- 128) 128 v w \<Longrightarrow> has_abi E TS8 1 1 \<Longrightarrow> gen_ok E TS8 v w"
  "int_rel 0 256 v w \<Longrightarrow> has_abi E TU8 1 1 \<Longrightarrow> gen_ok E TU8 v w"
  "int_rel (- 32768) 32768 v w \<Longrightarrow> has_abi E TS16 2 2 \<Longrightarrow> gen_ok E TS16 v w"
  "int_rel 0 65536 v w \<Longrightarrow> has_abi E TU16 2 2 \<Longrightarrow> gen_ok E TU16 v w"
  "int_rel (- 2147483648) 2147483648 v w \<Longrightarrow> has_abi E TS32 4 4 \<Longrightarrow> gen_ok E TS32 v w"
  "int_rel 0 4294967296 v w \<Longrightarrow> has_abi E TU32 4 4 \<Longrightarrow> gen_ok E TU32 v w"
  "big_rel (- (2 ^ 63)) (2 ^ 63) v w \<Longrightarrow> has_abi E TS64 8 8 \<Longrightarrow> gen_ok E TS64 v w"
  "big_rel 0 (2 ^ 64) v w \<Longrightarrow> has_abi E TU64 8 8 \<Longrightarrow> gen_ok E TU64 v w"
  unfolding gen_ok_def has_abi_def gen_lower.simps gen_lift.simps
  by (auto intro: s8.stores u8.stores s16.stores u16.stores s32.stores u32.stores s64.stores u64.stores)

lemma gen_stores:
  "carries E t v w \<Longrightarrow> fixed_type E t \<longrightarrow> gen_ok E t v w"
  "carries_opt E ot v kvs \<Longrightarrow> (\<forall>t. ot = Some t \<longrightarrow> fixed_type E t) \<longrightarrow> gen_opt_ok E ot v kvs"
proof (induction rule: carries_carries_opt.inducts)
  case (bool_of v)
  show ?case using bool_codec.stores [OF refl, of v] by (simp add: gen_ok_def has_abi_def)
next
  case (record_of kvs fs ws)
  show ?case
  proof
    assume f: "fixed_type E (TRecord fs)"
    have "list_all2 (\<lambda>f w. gen_ok E (snd f) (obj_get kvs (ge_camel E (fst f))) w) fs ws"
      using record_of f by (auto simp: list_all2_conv_all_nth list_all_length)
    with f show "gen_ok E (TRecord fs) (VObj kvs) (VObj (zip (map (\<lambda>f. ge_camel E (fst f)) fs) ws))" by (rule gen_record [rotated])
  qed
next
  case (variant i cs v x kvs)
  show ?case
  proof
    assume f: "fixed_type E (TVariant cs)"
    have "fixed_type E t" if "snd (cs ! i) = Some t" for t
      using f that variant.hyps(1) by (auto simp: list_all_length dest: spec [of _ i])
    with variant f show "gen_ok E (TVariant cs) v (VObj ((''tag'', VStr (fst (cs ! i))) # kvs))" by (intro gen_variant) auto
  qed
next
  case (fixed_list v vs n t ws)
  show ?case
  proof
    assume f: "fixed_type E (TFixedLengthList n t)"
    have "list_all2 (gen_ok E t) vs ws" using fixed_list f by (auto simp: list_all2_conv_all_nth)
    with fixed_list.hyps f show "gen_ok E (TFixedLengthList n t) v (VArr ws)" by (intro gen_fixed_list)
  qed
next
  case (tuple vs ts ws)
  show ?case
  proof
    assume f: "fixed_type E (TTuple ts)"
    have "list_all2 (\<lambda>p w. gen_ok E (fst p) (snd p) w) (zip ts vs) ws"
      using tuple f by (auto simp: list_all2_conv_all_nth list_all_length)
    with tuple.hyps f show "gen_ok E (TTuple ts) (VArr vs) (VArr ws)" by (intro gen_tuple)
  qed
next
  case (ok_object kvs ok res err)
  then show ?case using gen_result_object [of kvs "''ok''" E ok err res] by auto
next
  case (err_object kvs err res ok)
  then show ?case using gen_result_object [of kvs "''err''" E ok err res] by auto
next
  case (ok_plain v ok res err)
  then show ?case using gen_ok_plain [of v E ok res err] by auto
qed (auto simp: gen_number gen_flags gen_enum gen_none gen_none_object gen_some gen_some_object gen_opt_ok_def)


text \<open>An instance of the parameters: the rules of the Canonical ABI, and names that stay as they are.\<close>

definition canon_seq :: "(int \<times> int) list \<Rightarrow> int \<times> int" where
  "canon_seq xs =
     (let al = foldl (\<lambda>a x. max a (snd x)) 1 xs in (align_up al (foldl (\<lambda>q x. align_up (snd x) q + fst x) 0 xs), al))"

definition canon_offset :: "nat \<Rightarrow> (int \<times> int) list \<Rightarrow> int" where
  "canon_offset n xs = align_up (foldl (\<lambda>a x. max a (snd x)) 1 xs) (disc_size n)"

definition canon_cases :: "nat \<Rightarrow> (int \<times> int) list \<Rightarrow> int \<times> int" where
  "canon_cases n xs =
     (let al = foldl (\<lambda>a x. max a (snd x)) (disc_size n) xs in
      (align_up al (canon_offset n xs + foldl (\<lambda>a x. max a (fst x)) 0 xs), al))"

fun canon :: "ity \<Rightarrow> int \<times> int" where
  "canon TBool = (1, 1)" | "canon TS8 = (1, 1)" | "canon TU8 = (1, 1)"
| "canon TS16 = (2, 2)" | "canon TU16 = (2, 2)"
| "canon TS64 = (8, 8)" | "canon TU64 = (8, 8)"
| "canon (TRecord fs) = canon_seq (map (\<lambda>f. canon (snd f)) fs)"
| "canon (TVariant cs) = canon_cases (length cs) (map (\<lambda>k. case snd k of None \<Rightarrow> (0, 1) | Some t \<Rightarrow> canon t) cs)"
| "canon (TList t) = (8, 4)" | "canon TString = (8, 4)"
| "canon (TFixedLengthList n t) = (int n * fst (canon t), snd (canon t))"
| "canon (TTuple ts) = canon_seq (map canon ts)"
| "canon (TFlags names) = (flags_int_size (length names), flags_int_size (length names))"
| "canon (TEnum names) = canon_cases (length names) []"
| "canon (TOption t) = canon_cases 2 [canon t]"
| "canon (TResult ok err) =
     canon_cases 2 [case ok of None \<Rightarrow> (0, 1) | Some t \<Rightarrow> canon t, case err of None \<Rightarrow> (0, 1) | Some t \<Rightarrow> canon t]"
| "canon (TMap k v) = (8, 4)"
| "canon t = (4, 4)"

fun canon_payload :: "ity \<Rightarrow> int" where
  "canon_payload (TVariant cs) = canon_offset (length cs) (map (\<lambda>k. case snd k of None \<Rightarrow> (0, 1) | Some t \<Rightarrow> canon t) cs)"
| "canon_payload (TEnum names) = canon_offset (length names) []"
| "canon_payload (TOption t) = canon_offset 2 [canon t]"
| "canon_payload (TResult ok err) =
     canon_offset 2 [case ok of None \<Rightarrow> (0, 1) | Some t \<Rightarrow> canon t, case err of None \<Rightarrow> (0, 1) | Some t \<Rightarrow> canon t]"
| "canon_payload t = 0"

definition canon_env :: gen_env where
  "canon_env = \<lparr>ge_abi = (\<lambda>t. \<lparr>size32 = fst (canon t), align32 = snd (canon t), flat_count = Some 1\<rparr>), ge_flat_count = (\<lambda>c n. flat_count c),
     ge_payload_offset32 = canon_payload, ge_entry_abi = (\<lambda>t. \<lparr>size32 = 0, align32 = 1, flat_count = None\<rparr>), ge_value_offset32 = (\<lambda>_. 0),
     ge_camel = (\<lambda>s. s), ge_lift = (\<lambda>_ _. Inl (OutOfModel ''lift'')), ge_lower = (\<lambda>_ _. Inl (OutOfModel ''lower''))\<rparr>"

definition demo_lower_ctx :: "nat \<Rightarrow> int \<Rightarrow> val \<Rightarrow> ctx" where
  "demo_lower_ctx n p v = \<lparr>memory = Some (replicate n 0), storagePtr = Some p, storageLen = None, params = [], useDirectParams = False,
     inVariant = False, vals = [v], realloc = None, componentIdx = None\<rparr>"

definition demo_type :: ity where
  "demo_type = TRecord [(''id'', TU32), (''kind'', TVariant [(''none'', None), (''pair'', Some (TTuple [TU8, TU64]))]),
     (''mode'', TOption (TEnum [''on'', ''off'']))]"

definition demo_value :: val where
  "demo_value = VObj [(''id'', VNum 7), (''kind'', VObj [(''tag'', VStr ''pair''), (''val'', VArr [VNum 255, VBig 5])]), (''mode'', VStr ''off'')]"

definition demo_lifted :: val where
  "demo_lifted = VObj [(''id'', VNum 7), (''kind'', VObj [(''tag'', VStr ''pair''), (''val'', VArr [VNum 255, VBig 5])]),
     (''mode'', VObj [(''tag'', VStr ''some''), (''val'', VStr ''off'')])]"

lemma demo_carries: "carries canon_env demo_type demo_value demo_lifted"
proof -
  let ?E = canon_env
  have p: "carries ?E (TTuple [TU8, TU64]) (VArr [VNum 255, VBig 5]) (VArr [VNum 255, VBig 5])"
    by (rule carries_carries_opt.tuple) (auto intro!: carries_carries_opt.intros simp: int_rel_def big_rel_def)
  have k: "carries ?E (TVariant [(''none'', None), (''pair'', Some (TTuple [TU8, TU64]))])
      (VObj [(''tag'', VStr ''pair''), (''val'', VArr [VNum 255, VBig 5])]) (VObj [(''tag'', VStr ''pair''), (''val'', VArr [VNum 255, VBig 5])])"
    using carries_carries_opt.variant [of 1 "[(''none'', None), (''pair'', Some (TTuple [TU8, TU64]))]"
        "VObj [(''tag'', VStr ''pair''), (''val'', VArr [VNum 255, VBig 5])]" "VArr [VNum 255, VBig 5]" ?E] p
    by (simp add: obj_get_def carries_carries_opt.payload)
  have o: "carries ?E (TOption (TEnum [''on'', ''off''])) (VStr ''off'') (VObj [(''tag'', VStr ''some''), (''val'', VStr ''off'')])"
    by (rule carries_carries_opt.some) (auto intro!: carries_carries_opt.enum simp: is_option_object_def two_keys_with_tag_def)
  have "list_all2 (\<lambda>f w. carries ?E (snd f) (obj_get [(''id'', VNum 7), (''kind'', VObj [(''tag'', VStr ''pair''), (''val'', VArr [VNum 255, VBig 5])]),
      (''mode'', VStr ''off'')] (ge_camel ?E (fst f))) w)
     [(''id'', TU32), (''kind'', TVariant [(''none'', None), (''pair'', Some (TTuple [TU8, TU64]))]), (''mode'', TOption (TEnum [''on'', ''off'']))]
     [VNum 7, VObj [(''tag'', VStr ''pair''), (''val'', VArr [VNum 255, VBig 5])], VObj [(''tag'', VStr ''some''), (''val'', VStr ''off'')]]"
    using k o by (simp add: canon_env_def obj_get_def) (simp add: carries_carries_opt.u32 int_rel_def)
  from carries_carries_opt.record_of [OF this] show ?thesis by (simp add: demo_type_def demo_value_def demo_lifted_def canon_env_def)
qed


end
