(* ===== verification/Gen_Typing.thy ===== *)
theory Gen_Typing
  imports Flat_Types
begin

text \<open>
  What the generated lift functions return: whatever bytes lie in memory, a value that is lifted has the
  type it was lifted at.
\<close>

section \<open>Values of a type\<close>

fun num_in :: "int \<Rightarrow> int \<Rightarrow> val \<Rightarrow> bool" where
  "num_in lo hi (VNum n) = (lo \<le> n \<and> n < hi)"
| "num_in lo hi _ = False"

fun big_in :: "int \<Rightarrow> int \<Rightarrow> val \<Rightarrow> bool" where
  "big_in lo hi (VBig n) = (lo \<le> n \<and> n < hi)"
| "big_in lo hi _ = False"

definition kind_holds :: "typed_kind \<Rightarrow> int \<Rightarrow> bool" where
  "kind_holds k n = (case kind_width k of (sgned, b) \<Rightarrow>
     if sgned then - (2 ^ (8 * b - 1)) \<le> n \<and> n < 2 ^ (8 * b - 1) else 0 \<le> n \<and> n < 2 ^ (8 * b))"

text \<open>A string of one character.\<close>

fun is_char :: "val \<Rightarrow> bool" where
  "is_char (VStr s) = (length s = 1)"
| "is_char (VUtf16 us) = (length us = 1)"
| "is_char _ = False"

fun is_flags :: "string list \<Rightarrow> val \<Rightarrow> bool" where
  "is_flags names (VObj kvs) = (map fst kvs = names \<and> list_all (\<lambda>kv. \<exists>b. snd kv = VBool b) kvs)"
| "is_flags names _ = False"

text \<open>A case without and with a payload.\<close>

definition is_case :: "string \<Rightarrow> (val \<Rightarrow> bool) option \<Rightarrow> val \<Rightarrow> bool" where
  "is_case name payload v =
     (case payload of
        None \<Rightarrow> v = VObj [(''tag'', VStr name)]
      | Some P \<Rightarrow> (case v of VObj [(a, b), (c, d)] \<Rightarrow> a = ''tag'' \<and> b = VStr name \<and> c = ''val'' \<and> P d | _ \<Rightarrow> False))"

definition is_list :: "typed_kind option \<Rightarrow> (val \<Rightarrow> bool) \<Rightarrow> val \<Rightarrow> bool" where
  "is_list ta P v =
     (case ta of
        None \<Rightarrow> (case v of VArr vs \<Rightarrow> list_all P vs | _ \<Rightarrow> False)
      | Some k \<Rightarrow> (case v of VTyped k' ns \<Rightarrow> k' = k \<and> list_all (kind_holds k) ns | _ \<Rightarrow> False))"

fun of_type :: "gen_env \<Rightarrow> ity \<Rightarrow> val \<Rightarrow> bool" where
  "of_type E TBool v = (v \<in> {VBool True, VBool False})"
| "of_type E TS8 v = num_in (- 128) 128 v"
| "of_type E TU8 v = num_in 0 256 v"
| "of_type E TS16 v = num_in (- 32768) 32768 v"
| "of_type E TU16 v = num_in 0 65536 v"
| "of_type E TS32 v = num_in (- 2147483648) 2147483648 v"
| "of_type E TU32 v = num_in 0 4294967296 v"
| "of_type E TS64 v = big_in (- (2 ^ 63)) (2 ^ 63) v"
| "of_type E TU64 v = big_in 0 (2 ^ 64) v"
| "of_type E TChar v = is_char v"
| "of_type E (TRecord fs) v =
     (case v of VObj kvs \<Rightarrow> map fst kvs = map (\<lambda>f. ge_camel E (fst f)) fs \<and> list_all2 (\<lambda>f kv. of_type E (snd f) (snd kv)) fs kvs
      | _ \<Rightarrow> False)"
| "of_type E (TVariant cs) v = list_ex (\<lambda>k. is_case (fst k) (map_option (of_type E) (snd k)) v) cs"
| "of_type E (TList t) v = is_list (js_typed_array_ctor t) (of_type E t) v"
| "of_type E (TFixedLengthList n t) v = (case v of VArr vs \<Rightarrow> length vs = n \<and> list_all (of_type E t) vs | _ \<Rightarrow> False)"
| "of_type E (TTuple ts) v = (case v of VArr vs \<Rightarrow> list_all2 (\<lambda>t v. of_type E t v) ts vs | _ \<Rightarrow> False)"
| "of_type E (TFlags names) v = is_flags (map (ge_camel E) names) v"
| "of_type E (TEnum names) v = (case v of VStr s \<Rightarrow> s \<in> set names | _ \<Rightarrow> False)"
| "of_type E (TOption t) v = (is_case ''none'' None v \<or> is_case ''some'' (Some (of_type E t)) v)"
| "of_type E (TResult ok err) v =
     (is_case ''ok'' (map_option (of_type E) ok) v \<or> is_case ''err'' (map_option (of_type E) err) v)"
| "of_type E (TMap k t) v =
     (case v of VMap kvs \<Rightarrow> list_all (\<lambda>kv. of_type E k (fst kv) \<and> of_type E t (snd kv)) kvs | _ \<Rightarrow> False)"
| "of_type E _ v = True"

text \<open>Types whose functions are modelled, and whose names stay distinct.\<close>

fun lift_type :: "gen_env \<Rightarrow> ity \<Rightarrow> bool" where
  "lift_type E (TRecord fs) = (list_all (\<lambda>f. lift_type E (snd f)) fs \<and> distinct (map (\<lambda>f. ge_camel E (fst f)) fs))"
| "lift_type E (TVariant cs) = list_all (\<lambda>k. case snd k of None \<Rightarrow> True | Some t \<Rightarrow> lift_type E t) cs"
| "lift_type E (TList t) = lift_type E t"
| "lift_type E (TFixedLengthList n t) = lift_type E t"
| "lift_type E (TTuple ts) = list_all (lift_type E) ts"
| "lift_type E (TFlags names) = distinct (map (ge_camel E) names)"
| "lift_type E (TOption t) = lift_type E t"
| "lift_type E (TResult ok err) =
     ((case ok of None \<Rightarrow> True | Some t \<Rightarrow> lift_type E t) \<and> (case err of None \<Rightarrow> True | Some t \<Rightarrow> lift_type E t))"
| "lift_type E (TMap k v) = (lift_type E k \<and> lift_type E v)"
| "lift_type E TString = False"
| "lift_type E (TOwn n) = False"
| "lift_type E (TBorrow n) = False"
| "lift_type E (TFuture n) = False"
| "lift_type E (TStream n) = False"
| "lift_type E (TErrorContext n) = False"
| "lift_type E _ = True"

section \<open>Typed lift functions\<close>

definition kept :: "ctx \<Rightarrow> ctx \<Rightarrow> bool" where
  "kept c c' \<longleftrightarrow> \<not> useDirectParams c' \<and> params c' = params c"

definition lifts :: "lift_fn \<Rightarrow> (val \<Rightarrow> bool) \<Rightarrow> bool" where
  "lifts f P \<longleftrightarrow> (\<forall>c v c'. \<not> useDirectParams c \<longrightarrow> f c = Inr (v, c') \<longrightarrow> P v \<and> kept c c')"

lemma liftsD: "lifts f P \<Longrightarrow> f c = Inr (v, c') \<Longrightarrow> \<not> useDirectParams c \<Longrightarrow> P v \<and> kept c c'"
  unfolding lifts_def by blast

lemma lifts_cong: "lifts g P \<Longrightarrow> (\<And>c. \<not> useDirectParams c \<Longrightarrow> f c = g c) \<Longrightarrow> lifts f P"
  unfolding lifts_def by metis

lemma direct_simps [simp]:
  "useDirectParams (align_ptr a c) = useDirectParams c" "useDirectParams (add_ptr n c) = useDirectParams c"
  "useDirectParams (sub_len n c) = useDirectParams c" "useDirectParams (max_ptr b n c) = useDirectParams c"
  "useDirectParams (max_ptr_defined b n c) = useDirectParams c" "useDirectParams (restore_len l n c) = useDirectParams c"
  "params (align_ptr a c) = params c" "params (add_ptr n c) = params c"
  "params (sub_len n c) = params c" "params (max_ptr b n c) = params c"
  "params (max_ptr_defined b n c) = params c" "params (restore_len l n c) = params c"
  by (simp_all add: align_ptr_def add_ptr_def sub_len_def max_ptr_def max_ptr_defined_def restore_len_def split: option.splits)

lemma wrap_int_bounds:
  "0 < n \<Longrightarrow> if sgned then - (2 ^ (8 * n - 1)) \<le> wrap_int sgned n x \<and> wrap_int sgned n x < 2 ^ (8 * n - 1)
    else 0 \<le> wrap_int sgned n x \<and> wrap_int sgned n x < 2 ^ (8 * n)"
  by (simp add: wrap_int_def signed_take_bit_int_less_exp signed_take_bit_int_greater_eq_minus_exp)

lemma lifts_mem: "(\<And>x. P (mk (wrap_int sgned n x))) \<Longrightarrow> lifts (lift_mem sgned n mk) P"
  by (auto simp: lifts_def kept_def lift_mem_def rbind_Inr_iff dv_get_def split: if_splits)

lemma lifts_numbers:
  "lifts liftFlatBool (of_type E TBool)" "lifts liftFlatS8 (of_type E TS8)" "lifts liftFlatU8 (of_type E TU8)"
  "lifts liftFlatS16 (of_type E TS16)" "lifts liftFlatU16 (of_type E TU16)" "lifts liftFlatS32 (of_type E TS32)"
  "lifts liftFlatU32 (of_type E TU32)" "lifts liftFlatS64 (of_type E TS64)" "lifts liftFlatU64 (of_type E TU64)"
proof -
  note b = wrap_int_bounds [of 1] wrap_int_bounds [of 2] wrap_int_bounds [of 4] wrap_int_bounds [of 8]
  have m: "lifts (lift_mem False 1 (\<lambda>x. VBool (x = 1))) (of_type E TBool)" "lifts (lift_mem True 1 VNum) (of_type E TS8)"
    "lifts (lift_mem False 1 VNum) (of_type E TU8)" "lifts (lift_mem True 2 VNum) (of_type E TS16)" "lifts (lift_mem False 2 VNum) (of_type E TU16)"
    "lifts (lift_mem True 4 VNum) (of_type E TS32)" "lifts (lift_mem False 4 VNum) (of_type E TU32)"
    "lifts (lift_mem True 8 VBig) (of_type E TS64)" "lifts (lift_mem False 8 VBig) (of_type E TU64)"
    by (rule lifts_mem, use b [where sgned = True] b [where sgned = False] in simp)+
  show "lifts liftFlatBool (of_type E TBool)" by (rule lifts_cong [OF m(1)]) (simp add: liftFlatBool_def)
  show "lifts liftFlatS8 (of_type E TS8)" by (rule lifts_cong [OF m(2)]) (simp add: liftFlatS8_def)
  show "lifts liftFlatU8 (of_type E TU8)" by (rule lifts_cong [OF m(3)]) (simp add: liftFlatU8_def)
  show "lifts liftFlatS16 (of_type E TS16)" by (rule lifts_cong [OF m(4)]) (simp add: liftFlatS16_def)
  show "lifts liftFlatS32 (of_type E TS32)" by (rule lifts_cong [OF m(6)]) (simp add: liftFlatS32_def)
  show "lifts liftFlatU32 (of_type E TU32)" by (rule lifts_cong [OF m(7)]) (simp add: liftFlatU32_def)
  show "lifts liftFlatS64 (of_type E TS64)" by (rule lifts_cong [OF m(8)]) (simp add: liftFlatS64_def)
  show "lifts liftFlatU64 (of_type E TU64)" by (rule lifts_cong [OF m(9)]) (simp add: liftFlatU64_def)
  show "lifts liftFlatU16 (of_type E TU16)"
    unfolding lifts_def by (auto simp: liftFlatU16_def rbind_Inr_iff kept_def dest: liftsD [OF m(5)])
qed

lemma lifts_char: "lifts liftFlatChar (of_type E TChar)"
proof -
  have "is_char w" if "i32ToChar v = Inr w" for v w
    using that by (cases v) (auto simp: i32ToChar_def from_char_code_def Let_def split: if_splits)
  then show ?thesis by (auto simp: lifts_def kept_def liftFlatChar_def rbind_Inr_iff lift_mem_def)
qed

section \<open>Sequences of parts\<close>

text \<open>The loop of records and tuples, whose entries return values of their types.\<close>

lemma seq_lift_typed:
  assumes "list_all2 (\<lambda>e P. lifts (fst e) P) es Ps" "seq_lift es c = Inr (vs, c')" "\<not> useDirectParams c"
  shows "list_all2 (\<lambda>P v. P v) Ps vs \<and> kept c c'"
  using assms
proof (induction es Ps arbitrary: c vs rule: list_all2_induct)
  case Nil
  then show ?case by (simp add: kept_def)
next
  case (Cons e es P Ps)
  obtain f s a where e: "e = (f, s, a)" by (cases e)
  from Cons.prems obtain v c1 vs1 where f: "f (align_ptr a c) = Inr (v, c1)"
    "seq_lift es (restore_len (storageLen (align_ptr a c)) s (max_ptr_defined (storagePtr (align_ptr a c)) s c1)) = Inr (vs1, c')" "vs = v # vs1"
    by (auto simp: e Let_def rbind_Inr_iff)
  have "P v \<and> kept c c1" using liftsD [OF Cons.hyps(1) [unfolded e fst_conv] f(1)] Cons.prems(2) by (simp add: kept_def)
  with Cons.IH [OF f(2)] f(3) show ?case by (simp add: kept_def)
qed

lemma lifts_record:
  assumes "list_all2 (\<lambda>e P. lifts (fst (snd e)) P) es Ps" "distinct (map fst es)"
  shows "lifts (liftFlatRecord es sz al)
    (\<lambda>v. case v of VObj kvs \<Rightarrow> map fst kvs = map fst es \<and> list_all2 (\<lambda>P kv. P (snd kv)) Ps kvs | _ \<Rightarrow> False)"
  unfolding lifts_def
proof (intro allI impI)
  fix c w c'
  assume d: "\<not> useDirectParams c" and l: "liftFlatRecord es sz al c = Inr (w, c')"
  from l obtain vs c1 where s: "seq_lift (map snd es) c = Inr (vs, c1)" and w: "w = VObj (set_all [] (map fst es) vs)"
    and c': "c' = align_ptr al (max_ptr_defined (storagePtr c) sz c1)"
    by (auto simp: liftFlatRecord_def Let_def lift_fields_seq rbind_Inr_iff)
  have t: "list_all2 (\<lambda>P v. P v) Ps vs \<and> kept c c1"
    using seq_lift_typed [of "map snd es" Ps c vs c1] assms(1) s d by (simp add: list_all2_map1)
  have len: "length vs = length es" using seq_lift_length [OF s] by simp
  have "w = VObj (zip (map fst es) vs)" using set_all_fresh [of vs "map fst es" "[]"] assms(2) len by (simp add: w)
  moreover have "list_all2 (\<lambda>P kv. P (snd kv)) Ps (zip (map fst es) vs)" using t len by (auto simp: list_all2_conv_all_nth)
  ultimately show "(case w of VObj kvs \<Rightarrow> map fst kvs = map fst es \<and> list_all2 (\<lambda>P kv. P (snd kv)) Ps kvs | _ \<Rightarrow> False) \<and> kept c c'"
    using t len by (simp add: c' kept_def)
qed

lemma lifts_tuple:
  assumes "list_all2 (\<lambda>e P. lifts (fst e) P) es Ps"
  shows "lifts (liftFlatTuple es sz al) (\<lambda>v. case v of VArr vs \<Rightarrow> list_all2 (\<lambda>P v. P v) Ps vs | _ \<Rightarrow> False)"
  unfolding lifts_def
proof (intro allI impI)
  fix c w c'
  assume d: "\<not> useDirectParams c" and l: "liftFlatTuple es sz al c = Inr (w, c')"
  from l obtain vs c1 where "seq_lift es c = Inr (vs, c1)" "w = VArr vs"
    "c' = align_ptr al (max_ptr_defined (storagePtr c) sz c1)"
    by (auto simp: liftFlatTuple_def Let_def lift_elems_seq rbind_Inr_iff)
  with seq_lift_typed [OF assms this(1) d] show "(case w of VArr vs \<Rightarrow> list_all2 (\<lambda>P v. P v) Ps vs | _ \<Rightarrow> False) \<and> kept c c'"
    by (simp add: kept_def)
qed

section \<open>Variants, flags, lists and maps\<close>

lemma lifts_mono: "lifts f P \<Longrightarrow> (\<And>v. P v \<Longrightarrow> Q v) \<Longrightarrow> lifts f Q"
  unfolding lifts_def by blast

lemma num_in_VNum: "num_in lo hi v \<Longrightarrow> \<exists>i. v = VNum i"
  by (cases v) auto

lemma lifts_disc: "disc_lift n = Inr f \<Longrightarrow> lifts f (\<lambda>v. \<exists>i. v = VNum i)"
proof -
  have "lifts liftFlatU8 (\<lambda>v. \<exists>i. v = VNum i)" "lifts liftFlatU16 (\<lambda>v. \<exists>i. v = VNum i)" "lifts liftFlatU32 (\<lambda>v. \<exists>i. v = VNum i)"
    by (rule lifts_numbers(3,5,7) [THEN lifts_mono], rule num_in_VNum, simp)+
  then show "disc_lift n = Inr f \<Longrightarrow> ?thesis" by (auto simp: disc_lift_def split: if_splits)
qed

lemma lifts_variant:
  assumes "list_all2 (\<lambda>k P. rel_option lifts (lc_liftFn k) P) (lv_caseMetas meta) Ps"
  shows "lifts (liftFlatVariant meta) (\<lambda>v. \<exists>i < length Ps. is_case (lc_tag (lv_caseMetas meta ! i)) (Ps ! i) v)"
  unfolding lifts_def
proof (intro allI impI)
  fix c w c'
  assume d: "\<not> useDirectParams c" and l: "liftFlatVariant meta c = Inr (w, c')"
  from l obtain disc ci c1 k off v c3 where h: "disc_lift (length (lv_caseMetas meta)) = Inr disc"
    "disc (c\<lparr>inVariant := True\<rparr>) = Inr (ci, c1)" "nth_case (lv_caseMetas meta) ci = Inr k" "lv_payloadOffset32 meta = Some off"
    "lift_payload k (storagePtr c) (lv_size32 meta)
       (if storagePtr c = None then c1 else c1\<lparr>storagePtr := map_option (\<lambda>p. p + off) (storagePtr c)\<rparr>) = Inr (v, c3)"
    "w = v" "c' = (align_ptr (lv_align32 meta) c3)\<lparr>inVariant := inVariant c\<rparr>"
    using d by (auto simp: liftFlatVariant_def Let_def rbind_Inr_iff split: option.splits)
  let ?c2 = "if storagePtr c = None then c1 else c1\<lparr>storagePtr := map_option (\<lambda>p. p + off) (storagePtr c)\<rparr>"
  have "(\<exists>i. ci = VNum i) \<and> kept c c1" using liftsD [OF lifts_disc [OF h(1)] h(2)] d by (simp add: kept_def)
  then obtain i where ci: "ci = VNum i" and d1: "\<not> useDirectParams ?c2" "params ?c2 = params c" by (auto simp: kept_def)
  then have i: "nat i < length (lv_caseMetas meta)" "k = lv_caseMetas meta ! nat i" using h(3) by (auto simp: nth_case_def split: if_splits)
  then have ki: "nat i < length Ps" "rel_option lifts (lc_liftFn k) (Ps ! nat i)" using assms by (auto simp: list_all2_conv_all_nth)
  have "is_case (lc_tag k) (Ps ! nat i) v \<and> kept c c3"
  proof (cases "lc_liftFn k")
    case None
    with h(5) ki d1 show ?thesis by (auto simp: lift_payload_def is_case_def kept_def split: if_splits)
  next
    case (Some f)
    with ki obtain P where P: "Ps ! nat i = Some P" "lifts f P" by (cases "Ps ! nat i") auto
    from h(5) Some d1 obtain x where "f ?c2 = Inr (x, c3)" "v = VObj [(''tag'', VStr (lc_tag k)), (''val'', x)]"
      by (auto simp: lift_payload_def rbind_Inr_iff join_param_def)
    with liftsD [OF P(2) _ d1(1)] P(1) d1(2) show ?thesis by (auto simp: is_case_def kept_def)
  qed
  with ki(1) i(2) h(6,7) show "(\<exists>i < length Ps. is_case (lc_tag (lv_caseMetas meta ! i)) (Ps ! i) w) \<and> kept c c'"
    by (auto simp: kept_def intro!: exI [of _ "nat i"])
qed

lemma flags_of_bits_type:
  "distinct names \<Longrightarrow> fst ` set res \<inter> set names = {} \<Longrightarrow>
   \<exists>bs. length bs = length names \<and> flags_of_bits bits names res = res @ zip names (map VBool bs)"
proof (induction bits names res rule: flags_of_bits.induct)
  case (2 bits name names res)
  have "obj_set res name (VBool (odd bits)) = res @ [(name, VBool (odd bits))]" using 2(3) by (intro obj_set_fresh) auto
  with 2 obtain bs where "length bs = length names"
    "flags_of_bits (drop_bit 1 (to_uint32 bits)) names (res @ [(name, VBool (odd bits))]) = (res @ [(name, VBool (odd bits))]) @ zip names (map VBool bs)"
    by auto
  with 2 show ?case by (intro exI [of _ "odd bits # bs"]) (simp add: obj_set_fresh)
qed simp

lemma lifts_flags: "distinct names \<Longrightarrow> lifts (liftFlatFlags names al n) (is_flags names)"
  unfolding lifts_def
proof (intro allI impI)
  fix c w c'
  assume n: "distinct names" and d: "\<not> useDirectParams c" and l: "liftFlatFlags names al n c = Inr (w, c')"
  from l obtain f v c1 where "f \<in> {liftFlatU8, liftFlatU16, liftFlatU32}" "f c = Inr (v, c1)"
    "\<exists>bits. w = VObj (flags_of_bits bits names [])" "c' = align_ptr al c1"
    by (cases "names = []") (fastforce simp: liftFlatFlags_def rbind_Inr_iff split: if_splits)+
  moreover from this obtain bits where "w = VObj (flags_of_bits bits names [])" by blast
  moreover have "kept c c1" using calculation(1,2) lifts_numbers(3,5,7) [THEN liftsD] d by blast
  moreover obtain bs where "length bs = length names" "flags_of_bits bits names [] = zip names (map VBool bs)"
    using flags_of_bits_type [OF n, of "[]" bits] by auto
  ultimately show "is_flags names w \<and> kept c c'" by (auto simp: list_all_length kept_def)
qed

lemma read_values_typed:
  assumes "lifts f P"
  shows "read_values f esz p i n acc c = Inr (vs, c') \<Longrightarrow> \<not> useDirectParams c \<Longrightarrow> list_all P acc \<Longrightarrow>
    list_all P vs \<and> length vs = length acc + n \<and> kept c c'"
proof (induction n arbitrary: i acc c)
  case (Suc n)
  from Suc.prems(1) obtain v c1 where r: "f (c\<lparr>storagePtr := map_option (\<lambda>p. p + int i * esz) p\<rparr>) = Inr (v, c1)"
    "read_values f esz p (Suc i) n (acc @ [v]) (max_ptr (map_option (\<lambda>p. p + int i * esz) p) esz c1) = Inr (vs, c')"
    by (auto simp: Let_def rbind_Inr_iff)
  have "P v \<and> kept c c1" using liftsD [OF assms r(1)] Suc.prems(2) by (simp add: kept_def)
  with Suc.IH [OF r(2)] Suc.prems(3) show ?case by (simp add: kept_def)
qed (simp add: kept_def)

lemma kind_holds_wrap: "kind_holds k (wrap_int (fst (kind_width k)) (snd (kind_width k)) x)"
proof -
  have "0 < snd (kind_width k)" by (cases k) simp_all
  then show ?thesis using wrap_int_bounds [of "snd (kind_width k)" "fst (kind_width k)" x] by (simp add: kind_holds_def split_def)
qed

lemma new_typed_type: "new_typed k vs = Inr v \<Longrightarrow> \<exists>ns. v = VTyped k ns \<and> list_all (kind_holds k) ns"
proof -
  have "rmap (\<lambda>v. rbind ((if is_big_kind k then to_bigint else to_number) v)
      (\<lambda>n. Inr (wrap_int (fst (kind_width k)) (snd (kind_width k)) n))) vs = Inr ns \<Longrightarrow> list_all (kind_holds k) ns" for ns
    by (induction vs arbitrary: ns) (auto simp: rbind_Inr_iff kind_holds_wrap)
  then show "new_typed k vs = Inr v \<Longrightarrow> ?thesis" by (auto simp: new_typed_def rbind_Inr_iff)
qed

lemma list_value_type: "list_value ta vs = Inr v \<Longrightarrow> list_all P vs \<Longrightarrow> is_list ta P v"
  by (cases ta) (auto simp: list_value_def is_list_def dest!: new_typed_type)

lemma readValuesAndReset_typed:
  assumes "lifts (li_elemLiftFn meta) P" "readValuesAndReset meta c op ol dp n = Inr (v, c')" "\<not> useDirectParams c"
  shows "is_list (li_typedArray meta) P v \<and> (li_typedArray meta = None \<longrightarrow> (\<exists>vs. v = VArr vs \<and> length vs = n)) \<and> kept c c'"
proof -
  from assms(2) obtain vs c1 where r: "read_values (li_elemLiftFn meta) (li_elemSize32 meta) dp 0 n [] (c\<lparr>storagePtr := dp\<rparr>) = Inr (vs, c1)"
    "list_value (li_typedArray meta) vs = Inr v" "useDirectParams c' = useDirectParams c1" "params c' = params c1"
    by (auto simp: readValuesAndReset_def rbind_Inr_iff Let_def split: option.splits)
  from read_values_typed [OF assms(1) r(1)] assms(3) have "list_all P vs \<and> length vs = n \<and> kept c c1" by (simp add: kept_def)
  with r(2-4) list_value_type [of "li_typedArray meta" vs v P] show ?thesis by (auto simp: list_value_def kept_def)
qed

lemma lift_header_direct:
  assumes "lift_header c = Inr (p, l, c')" "\<not> useDirectParams c"
  shows "kept c c'"
proof -
  from assms obtain v c1 w where h: "liftFlatU32 c = Inr (v, c1)" "liftFlatU32 c1 = Inr (w, c')" by (auto simp: lift_header_def rbind_Inr_iff)
  have "kept c c1" using lifts_numbers(7) [THEN liftsD, OF h(1) assms(2)] by simp
  with lifts_numbers(7) [THEN liftsD, OF h(2)] show ?thesis by (simp add: kept_def)
qed

lemma lifts_list:
  assumes "lifts (li_elemLiftFn meta) P" "li_knownLen meta = None"
  shows "lifts (liftFlatList meta) (is_list (li_typedArray meta) P)"
  unfolding lifts_def
proof (intro allI impI)
  fix c v c'
  assume d: "\<not> useDirectParams c" and l: "liftFlatList meta c = Inr (v, c')"
  from l assms(2) d obtain p n c1 where "lift_header (c\<lparr>storageLen := Some 8\<rparr>) = Inr (p, n, c1)"
    "readValuesAndReset meta (c1\<lparr>storageLen := Some (n * li_elemSize32 meta)\<rparr>) (Some (storagePtr c1)) (storageLen c) (Some p) (nat n) = Inr (v, c')"
    by (auto simp: liftFlatList_def rbind_Inr_iff)
  with readValuesAndReset_typed [OF assms(1) this(2)] lift_header_direct [OF this(1)] d
  show "is_list (li_typedArray meta) P v \<and> kept c c'" by (simp add: kept_def)
qed

lemma lifts_known_list:
  assumes "lifts (li_elemLiftFn meta) P" "li_knownLen meta = Some n" "li_typedArray meta = None"
  shows "lifts (liftFlatList meta) (\<lambda>v. case v of VArr vs \<Rightarrow> length vs = n \<and> list_all P vs | _ \<Rightarrow> False)"
  unfolding lifts_def
proof (intro allI impI)
  fix c v c'
  assume d: "\<not> useDirectParams c" and l: "liftFlatList meta c = Inr (v, c')"
  from l assms(2) d have "readValuesAndReset meta (c\<lparr>storageLen := Some (int n * li_elemSize32 meta)\<rparr>) None (storageLen c) (storagePtr c) n = Inr (v, c')"
    by (auto simp: liftFlatList_def split: if_splits)
  from readValuesAndReset_typed [OF assms(1) this] assms(3) d
  show "(case v of VArr vs \<Rightarrow> length vs = n \<and> list_all P vs | _ \<Rightarrow> False) \<and> kept c c'" by (auto simp: is_list_def kept_def)
qed

lemma map_set_all: "list_all Q kvs \<Longrightarrow> Q (k, v) \<Longrightarrow> list_all Q (map_set kvs k v)"
  by (induction kvs) auto

lemma read_entries_typed:
  assumes "lifts (lm_keyLiftFn meta) P" "lifts (lm_valueLiftFn meta) Q"
  shows "read_entries meta p i n acc c = Inr (kvs, c') \<Longrightarrow> \<not> useDirectParams c \<Longrightarrow> list_all (\<lambda>kv. P (fst kv) \<and> Q (snd kv)) acc \<Longrightarrow>
    list_all (\<lambda>kv. P (fst kv) \<and> Q (snd kv)) kvs \<and> kept c c'"
proof (induction n arbitrary: i acc c)
  case (Suc n)
  from Suc.prems(1) obtain k c1 v c2 where r: "lm_keyLiftFn meta (c\<lparr>storagePtr := Some (p + int i * lift_entrySize32 meta)\<rparr>) = Inr (k, c1)"
    "lm_valueLiftFn meta (c1\<lparr>storagePtr := Some (p + int i * lift_entrySize32 meta + lift_valueOffset32 meta)\<rparr>) = Inr (v, c2)"
    "read_entries meta p (Suc i) n (map_set acc k v) c2 = Inr (kvs, c')"
    by (auto simp: Let_def rbind_Inr_iff split: if_splits)
  have k: "P k \<and> kept c c1" using liftsD [OF assms(1) r(1)] Suc.prems(2) by (simp add: kept_def)
  then have "Q v \<and> kept c c2" using liftsD [OF assms(2) r(2)] by (simp add: kept_def)
  with k Suc.IH [OF r(3)] map_set_all [OF Suc.prems(3)] show ?case by (simp add: kept_def)
qed (simp add: kept_def)

lemma lifts_map:
  assumes "lifts (lm_keyLiftFn meta) P" "lifts (lm_valueLiftFn meta) Q"
  shows "lifts (liftFlatMap meta) (\<lambda>v. case v of VMap kvs \<Rightarrow> list_all (\<lambda>kv. P (fst kv) \<and> Q (snd kv)) kvs | _ \<Rightarrow> False)"
  unfolding lifts_def
proof (intro allI impI)
  fix c v c'
  assume d: "\<not> useDirectParams c" and l: "liftFlatMap meta c = Inr (v, c')"
  from l d obtain p n c1 kvs c2 where "lift_header (c\<lparr>storageLen := Some 8\<rparr>) = Inr (p, n, c1)" "read_entries meta p 0 (nat n) [] (c1\<lparr>useDirectParams := False, storageLen := Some (n * lift_entrySize32 meta)\<rparr>) = Inr (kvs, c2)"
    "v = VMap kvs" "useDirectParams c' = useDirectParams c" "params c' = params c2"
    by (auto simp: liftFlatMap_def rbind_Inr_iff Let_def)
  with read_entries_typed [OF assms this(2)] lift_header_direct [OF this(1)] d
  show "(case v of VMap kvs \<Rightarrow> list_all (\<lambda>kv. P (fst kv) \<and> Q (snd kv)) kvs | _ \<Rightarrow> False) \<and> kept c c'" by (simp add: kept_def)
qed

section \<open>Type soundness\<close>

text \<open>The cases that variants, options and results have in common.\<close>

lemma lifts_cases:
  assumes "\<And>k t. k \<in> set cs \<Longrightarrow> snd k = Some t \<Longrightarrow> lifts (gen_lift E t) (of_type E t)"
    and "lv_caseMetas meta = map (\<lambda>k. lift_case_expr (fst k) (map_option (gen_lift E) (snd k)) False (cnt k)) cs"
  shows "lifts (liftFlatVariant meta) (\<lambda>v. list_ex (\<lambda>k. is_case (fst k) (map_option (of_type E) (snd k)) v) cs)"
proof -
  let ?Ps = "map (\<lambda>k. map_option (of_type E) (snd k)) cs"
  have "rel_option lifts (map_option (gen_lift E) (snd k)) (map_option (of_type E) (snd k))" if "k \<in> set cs" for k
    using assms(1) [OF that] by (cases "snd k") simp_all
  then have "list_all2 (\<lambda>k P. rel_option lifts (lc_liftFn k) P) (lv_caseMetas meta) ?Ps"
    by (auto simp: assms(2) list_all2_conv_all_nth lift_case_expr_def)
  from lifts_variant [OF this] show ?thesis
    by (rule lifts_mono) (auto simp: assms(2) lift_case_expr_def list_ex_length)
qed

lemma gen_enum_typed: "lifts (gen_lift E (TEnum names)) (of_type E (TEnum names))"
  unfolding lifts_def
proof (intro allI impI)
  fix c v c'
  assume d: "\<not> useDirectParams c" and l: "gen_lift E (TEnum names) c = Inr (v, c')"
  let ?cs = "map (\<lambda>n. (n, None :: ity option)) names"
  let ?cnt = "\<lambda>k. Some (ge_payload_offset32 E (TEnum names))"
  let ?meta = "(lift_meta_expr E (TEnum names) (map (\<lambda>k. lift_case_expr (fst k) (map_option (gen_lift E) (snd k)) False (?cnt k)) ?cs))\<lparr>lv_isEnum := True\<rparr>"
  have g: "gen_lift E (TEnum names) = (\<lambda>c. rbind (liftFlatVariant ?meta c) (\<lambda>(v, c'). rbind (js_prop v ''tag'') (\<lambda>t. Inr (t, c'))))"
    by (simp add: lift_enum_expr_def liftFlatEnum_def [abs_def] comp_def)
  have m: "lifts (liftFlatVariant ?meta) (\<lambda>v. list_ex (\<lambda>k. is_case (fst k) (map_option (of_type E) (snd k)) v) ?cs)"
    by (rule lifts_cases [where cnt = ?cnt]) (auto simp: lift_meta_expr_def Let_def)
  from l obtain w where w: "liftFlatVariant ?meta c = Inr (w, c')" "js_prop w ''tag'' = Inr v"
    unfolding g by (auto simp: rbind_Inr_iff)
  from liftsD [OF m w(1) d] obtain name where "name \<in> set names" "w = VObj [(''tag'', VStr name)]" "kept c c'"
    by (auto simp: list_ex_iff is_case_def)
  with w(2) show "of_type E (TEnum names) v \<and> kept c c'" by (auto simp: obj_get_def kept_def)
qed

lemma gen_lift_typed: "lift_type E t \<Longrightarrow> lifts (gen_lift E t) (of_type E t)"
proof (induction E t rule: lift_type.induct)
  case (1 E fs)
  let ?es = "map (\<lambda>f. (ge_camel E (fst f), gen_lift E (snd f), size32 (ge_abi E (snd f)), align32 (ge_abi E (snd f)))) fs"
  let ?Ps = "map (\<lambda>f. of_type E (snd f)) fs"
  have g: "gen_lift E (TRecord fs) = liftFlatRecord ?es (size32 (ge_abi E (TRecord fs))) (align32 (ge_abi E (TRecord fs)))"
    by (simp add: lift_record_expr_def Let_def comp_def)
  have "list_all2 (\<lambda>e P. lifts (fst (snd e)) P) ?es ?Ps" using 1 by (auto simp: list_all2_conv_all_nth list_all_length)
  moreover have "distinct (map fst ?es)" using 1(2) by (simp add: comp_def)
  ultimately have r: "lifts (gen_lift E (TRecord fs))
      (\<lambda>v. case v of VObj kvs \<Rightarrow> map fst kvs = map fst ?es \<and> list_all2 (\<lambda>P kv. P (snd kv)) ?Ps kvs | _ \<Rightarrow> False)"
    unfolding g by (rule lifts_record)
  have m: "map fst ?es = map (\<lambda>f. ge_camel E (fst f)) fs" by simp
  show ?case using r unfolding m list_all2_map1 by (rule lifts_mono) (simp only: of_type.simps)
next
  case (2 E cs)
  let ?cnt = "\<lambda>k. case snd k of None \<Rightarrow> Some 0 | Some t \<Rightarrow> ge_flat_count E (ge_abi E t) MAX_FLAT_PARAMS"
  let ?meta = "lift_meta_expr E (TVariant cs) (map (\<lambda>k. lift_case_expr (fst k) (map_option (gen_lift E) (snd k)) False (?cnt k)) cs)"
  have l: "gen_lift E (TVariant cs) = liftFlatVariant ?meta"
    by (auto simp: lift_variant_expr_def intro!: arg_cong [where f = "\<lambda>cs'. liftFlatVariant (lift_meta_expr E (TVariant cs) cs')"] split: option.splits)
  have "lifts (gen_lift E t) (of_type E t)" if "k \<in> set cs" "snd k = Some t" for k t
  proof -
    have "lift_type E t" using 2(2) that by (fastforce simp: list_all_iff split: option.splits)
    then show ?thesis by (rule 2(1) [OF that])
  qed
  from lifts_cases [where cs = cs and meta = ?meta and cnt = ?cnt, OF this] show ?case unfolding l by (simp add: lift_meta_expr_def Let_def)
next
  case (3 E t)
  then show ?case using lifts_list [of "\<lparr>li_elemLiftFn = gen_lift E t, li_elemSize32 = size32 (ge_abi E t), li_knownLen = None,
      li_typedArray = js_typed_array_ctor t\<rparr>" "of_type E t"] by (simp add: lift_list_expr_def [abs_def])
next
  case (4 E n t)
  then show ?case using lifts_known_list [of "\<lparr>li_elemLiftFn = gen_lift E t, li_elemSize32 = size32 (ge_abi E t), li_knownLen = Some n,
      li_typedArray = None\<rparr>" "of_type E t" n] by (simp add: lift_fixed_list_expr_def [abs_def])
next
  case (5 E ts)
  let ?es = "map (\<lambda>t. (gen_lift E t, size32 (ge_abi E t), align32 (ge_abi E t))) ts"
  have g: "gen_lift E (TTuple ts) = liftFlatTuple ?es (size32 (ge_abi E (TTuple ts))) (align32 (ge_abi E (TTuple ts)))"
    by (simp add: lift_tuple_expr_def Let_def comp_def)
  have "list_all2 (\<lambda>e P. lifts (fst e) P) ?es (map (of_type E) ts)" using 5 by (auto simp: list_all2_conv_all_nth list_all_length)
  then have r: "lifts (gen_lift E (TTuple ts)) (\<lambda>v. case v of VArr vs \<Rightarrow> list_all2 (\<lambda>P v. P v) (map (of_type E) ts) vs | _ \<Rightarrow> False)"
    unfolding g by (rule lifts_tuple)
  show ?case using r unfolding list_all2_map1 by (rule lifts_mono) (simp only: of_type.simps)
next
  case (6 E names)
  then show ?case using lifts_flags [of "map (ge_camel E) names"] by (simp add: lift_flags_expr_def [abs_def])
next
  case (7 E t)
  let ?cs = "[(''none'', None), (''some'', Some t)]"
  let ?cnt = "\<lambda>k. if fst k = ''some'' then flat_count (ge_abi E t) else Some 0"
  let ?meta = "lift_meta_expr E (TOption t) (map (\<lambda>k. lift_case_expr (fst k) (map_option (gen_lift E) (snd k)) False (?cnt k)) ?cs)"
  have l: "gen_lift E (TOption t) = liftFlatVariant ?meta" by (simp add: lift_option_expr_def liftFlatOption_def)
  have "lifts (gen_lift E t') (of_type E t')" if "k \<in> set ?cs" "snd k = Some t'" for k t' using 7 that by auto
  from lifts_cases [where cs = ?cs and meta = ?meta and cnt = ?cnt, OF this] show ?case unfolding l by (simp add: lift_meta_expr_def Let_def)
next
  case (8 E ok err)
  let ?cs = "[(''ok'', ok), (''err'', err)]"
  let ?cnt = "\<lambda>k. case snd k of None \<Rightarrow> Some 0 | Some t \<Rightarrow> flat_count (ge_abi E t)"
  let ?meta = "lift_meta_expr E (TResult ok err) (map (\<lambda>k. lift_case_expr (fst k) (map_option (gen_lift E) (snd k)) False (?cnt k)) ?cs)"
  have l: "gen_lift E (TResult ok err) = liftFlatVariant ?meta"
    by (simp add: lift_result_expr_def lift_result_case_def liftFlatResult_def lift_case_expr_def split: option.splits)
  have "lifts (gen_lift E t') (of_type E t')" if "k \<in> set ?cs" "snd k = Some t'" for k t' using 8 that by auto
  from lifts_cases [where cs = ?cs and meta = ?meta and cnt = ?cnt, OF this] show ?case unfolding l by (simp add: lift_meta_expr_def Let_def)
next
  case (9 E k v)
  then show ?case using lifts_map [of "\<lparr>lm_keyLiftFn = gen_lift E k, lm_valueLiftFn = gen_lift E v, lift_entrySize32 = size32 (ge_entry_abi E (TMap k v)),
      lift_valueOffset32 = ge_value_offset32 E (TMap k v)\<rparr>" "of_type E k" "of_type E v"]
    by (simp add: lift_map_expr_def [abs_def])
qed (simp_all only: gen_enum_typed, simp_all only: gen_lift.simps lift_type.simps lifts_numbers lifts_char simp_thms)

text \<open>C6. Type soundness of the generated code: whatever bytes lie in memory, if the function generated for
  a type lifts a value, then the value has the type: numbers in range, records and flags with exactly the
  type's names, variants, options and results with one of the cases, lists of values of the element type
  (typed arrays for the integer types), strings of one character for characters. Parameters that are
  passed directly are not checked, so the theorem is about lifting from memory.\<close>

theorem generated_lift_type:
  assumes "lift_type E t" "\<not> useDirectParams c" "gen_lift E t c = Inr (v, c')"
  shows "of_type E t v"
  using liftsD [OF gen_lift_typed [OF assms(1)] assms(3,2)] by blast

definition typing_env :: gen_env where
  "typing_env = \<lparr>ge_abi = (\<lambda>t. \<lparr>size32 = 4, align32 = 2, flat_count = Some 1\<rparr>), ge_flat_count = (\<lambda>c n. flat_count c),
     ge_payload_offset32 = (\<lambda>_. 2), ge_entry_abi = (\<lambda>t. \<lparr>size32 = 0, align32 = 1, flat_count = None\<rparr>), ge_value_offset32 = (\<lambda>_. 0),
     ge_camel = (\<lambda>s. s), ge_lift = (\<lambda>_ _. Inl (OutOfModel ''lift'')), ge_lower = (\<lambda>_ _. Inl (OutOfModel ''lower''))\<rparr>"

definition typing_ctx :: ctx where
  "typing_ctx = \<lparr>memory = Some [1, 0, 255, 255], storagePtr = Some 0, storageLen = None, params = [], useDirectParams = False,
     inVariant = False, vals = [], realloc = None, componentIdx = None\<rparr>"

theorem generated_lift_type_witness:
  "\<exists>v c'. gen_lift typing_env (TOption TS16) typing_ctx = Inr (v, c') \<and> of_type typing_env (TOption TS16) v"
proof -
  have "map_sum id fst (gen_lift typing_env (TOption TS16) typing_ctx) = Inr (VObj [(''tag'', VStr ''some''), (''val'', VNum (- 1))])" by code_simp
  then obtain v c' where "gen_lift typing_env (TOption TS16) typing_ctx = Inr (v, c')"
    by (cases "gen_lift typing_env (TOption TS16) typing_ctx") auto
  moreover from generated_lift_type [OF _ _ this] have "of_type typing_env (TOption TS16) v" by (simp add: typing_ctx_def)
  ultimately show ?thesis by blast
qed

end
