(* ===== verification/Gen_Params.thy ===== *)
theory Gen_Params
  imports Gen_Typing
begin

text \<open>
  Lifting from the flat parameters: how many of them the generated functions take, and where the values
  they make of them are not those of the type.
\<close>

section \<open>Functions that take a number of parameters\<close>

definition took :: "int \<Rightarrow> ctx \<Rightarrow> ctx \<Rightarrow> bool" where
  "took n c c' \<longleftrightarrow> 0 \<le> n \<and> params c' = drop (nat n) (params c) \<and> useDirectParams c'"

definition takes :: "lift_fn \<Rightarrow> int \<Rightarrow> bool" where
  "takes f n \<longleftrightarrow> (\<forall>c v c'. useDirectParams c \<longrightarrow> f c = Inr (v, c') \<longrightarrow> took n c c')"

lemma takesD: "takes f n \<Longrightarrow> f c = Inr (v, c') \<Longrightarrow> useDirectParams c \<Longrightarrow> took n c c'"
  unfolding takes_def by blast

lemma took_trans: "took n c c1 \<Longrightarrow> took k c1 c2 \<Longrightarrow> took (n + k) c c2"
  by (auto simp: took_def nat_add_distrib add.commute)

lemma took_same: "useDirectParams c' \<Longrightarrow> params c' = params c \<Longrightarrow> took 0 c c'"
  by (simp add: took_def)

lemma took_cong: "took n c c1 \<Longrightarrow> params c2 = params c1 \<Longrightarrow> useDirectParams c2 = useDirectParams c1 \<Longrightarrow> took n c c2"
  by (simp add: took_def)

lemma took_cong_left: "took n c c1 \<Longrightarrow> params d = params c \<Longrightarrow> took n d c1"
  by (simp add: took_def)

lemma takes_numbers:
  "takes liftFlatBool 1" "takes liftFlatS8 1" "takes liftFlatU8 1" "takes liftFlatS16 1" "takes liftFlatU16 1"
  "takes liftFlatS32 1" "takes liftFlatU32 1" "takes liftFlatS64 1" "takes liftFlatU64 1" "takes liftFlatChar 1"
proof -
  have f: "first_param msg c = Inr (v, c') \<Longrightarrow> useDirectParams c \<Longrightarrow> took 1 c c'" for msg c v c'
    by (auto simp: first_param_def took_def split: list.splits)
  have b: "took 1 c c'" if h: "bigint_param c = Inr (v, c')" "useDirectParams c" for c v c'
  proof -
    from h(1) obtain a c1 where "first_param ''expected at least one single i64 argument'' c = Inr (a, c1)"
      "(case a of VBig n \<Rightarrow> Inr (a, c1) | _ \<Rightarrow> Inl (Err ''expected bigint'')) = Inr (v, c')"
      by (auto simp: bigint_param_def rbind_Inr_iff)
    with f [OF this(1) h(2)] show ?thesis by (cases a) auto
  qed
  show "takes liftFlatBool 1" "takes liftFlatS8 1" "takes liftFlatU8 1" "takes liftFlatS16 1" "takes liftFlatU16 1"
    "takes liftFlatS32 1" "takes liftFlatU32 1" "takes liftFlatChar 1"
    unfolding takes_def
    by (auto simp: liftFlatBool_def liftFlatS8_def liftFlatU8_def liftFlatS16_def liftFlatU16_def liftFlatS32_def liftFlatU32_def liftFlatChar_def
      rbind_Inr_iff intro: f)
  show "takes liftFlatS64 1" "takes liftFlatU64 1"
    unfolding takes_def by (auto simp: liftFlatS64_def liftFlatU64_def intro: b)
qed

lemma seq_lift_takes:
  assumes "list_all2 (\<lambda>e n. takes (fst e) n) es ns" "seq_lift es c = Inr (vs, c')" "useDirectParams c"
  shows "took (sum_list ns) c c'"
  using assms
proof (induction es ns arbitrary: c vs rule: list_all2_induct)
  case Nil
  then show ?case by (simp add: took_same)
next
  case (Cons e es n ns)
  obtain f s a where e: "e = (f, s, a)" by (cases e)
  let ?r = "\<lambda>c1. restore_len (storageLen (align_ptr a c)) s (max_ptr_defined (storagePtr (align_ptr a c)) s c1)"
  from Cons.prems obtain v c1 vs1 where f: "f (align_ptr a c) = Inr (v, c1)" "seq_lift es (?r c1) = Inr (vs1, c')"
    by (auto simp: e Let_def rbind_Inr_iff)
  have t: "took n (align_ptr a c) c1" using takesD [OF Cons.hyps(1) [unfolded e fst_conv] f(1)] Cons.prems(2) by simp
  then have t1: "took n c (?r c1)" by (rule took_cong [THEN took_cong_left]) simp_all
  then have "useDirectParams (?r c1)" by (simp add: took_def)
  from took_trans [OF t1 Cons.IH [OF f(2) this]] show ?case by simp
qed

lemma takes_record:
  "list_all2 (\<lambda>e n. takes (fst (snd e)) n) es ns \<Longrightarrow> takes (liftFlatRecord es sz al) (sum_list ns)"
  unfolding takes_def
proof (intro allI impI)
  fix c v c'
  assume es: "list_all2 (\<lambda>e n. \<forall>c v c'. useDirectParams c \<longrightarrow> fst (snd e) c = Inr (v, c') \<longrightarrow> took n c c') es ns"
    and d: "useDirectParams c" and l: "liftFlatRecord es sz al c = Inr (v, c')"
  from l obtain vs c1 where s: "seq_lift (map snd es) c = Inr (vs, c1)" and c': "c' = align_ptr al (max_ptr_defined (storagePtr c) sz c1)"
    by (auto simp: liftFlatRecord_def Let_def lift_fields_seq rbind_Inr_iff)
  have "took (sum_list ns) c c1" using seq_lift_takes [OF _ s d] es by (simp add: list_all2_map1 takes_def)
  then show "took (sum_list ns) c c'" by (rule took_cong) (simp_all add: c')
qed

lemma takes_tuple: "list_all2 (\<lambda>e n. takes (fst e) n) es ns \<Longrightarrow> takes (liftFlatTuple es sz al) (sum_list ns)"
  unfolding takes_def
proof (intro allI impI)
  fix c v c'
  assume es: "list_all2 (\<lambda>e n. \<forall>c v c'. useDirectParams c \<longrightarrow> fst e c = Inr (v, c') \<longrightarrow> took n c c') es ns"
    and d: "useDirectParams c" and l: "liftFlatTuple es sz al c = Inr (v, c')"
  from l obtain vs c1 where s: "seq_lift es c = Inr (vs, c1)" and c': "c' = align_ptr al (max_ptr_defined (storagePtr c) sz c1)"
    by (auto simp: liftFlatTuple_def Let_def lift_elems_seq rbind_Inr_iff)
  have "took (sum_list ns) c c1" using seq_lift_takes [OF _ s d] es by (simp add: takes_def)
  then show "took (sum_list ns) c c'" by (rule took_cong) (simp_all add: c')
qed

text \<open>A variant takes what its flat count says, whatever case is present, when each case's count is what its
  payload takes: the rest is dropped.\<close>

lemma join_takes:
  assumes "join_param b c = Inr c1" "takes f n" "1 \<le> n" "f c1 = Inr (v, c2)" "useDirectParams c"
  shows "took n c c2"
proof -
  have j: "useDirectParams c1 \<and> length (params c1) = length (params c) \<and> drop (Suc k) (params c1) = drop (Suc k) (params c)" for k
    using assms(1,5) by (auto simp: join_param_def split: if_splits list.splits val.splits)
  then have "took n c1 c2" using takesD [OF assms(2,4)] by blast
  moreover obtain k where "nat n = Suc k" using assms(3) by (cases "nat n") auto
  ultimately show ?thesis using j by (auto simp: took_def)
qed

lemma disc_takes: "disc_lift n = Inr f \<Longrightarrow> takes f 1"
  using takes_numbers by (auto simp: disc_lift_def split: if_splits)

lemma takes_variant:
  assumes "\<And>k. k \<in> set (lv_caseMetas meta) \<Longrightarrow>
      case lc_liftFn k of None \<Rightarrow> True | Some f \<Rightarrow> (\<exists>n. lc_flatCount k = Some n \<and> 1 \<le> n \<and> takes f n)"
    and "\<And>k. k \<in> set (lv_caseMetas meta) \<Longrightarrow> lc_liftFn k = None \<Longrightarrow> lv_isEnum meta \<or> lc_flatCount k = Some 0"
    and "lv_flatCount meta = Some n" "lv_isEnum meta \<Longrightarrow> n = 1 \<and> (\<forall>k\<in>set (lv_caseMetas meta). lc_liftFn k = None \<and> (\<exists>m\<ge>1. lc_flatCount k = Some m))"
  shows "takes (liftFlatVariant meta) n"
  unfolding takes_def
proof (intro allI impI)
  fix c v c'
  assume d: "useDirectParams c" and l: "liftFlatVariant meta c = Inr (v, c')"
  from l obtain disc ci c1 k off w c3 c4 where h: "disc_lift (length (lv_caseMetas meta)) = Inr disc"
    "disc (c\<lparr>inVariant := True\<rparr>) = Inr (ci, c1)" "nth_case (lv_caseMetas meta) ci = Inr k"
    "lift_payload k (storagePtr c) (lv_size32 meta)
       (if storagePtr c = None then c1 else c1\<lparr>storagePtr := map_option (\<lambda>p. p + off) (storagePtr c)\<rparr>) = Inr (w, c3)"
    "drop_rest meta k c3 = Inr c4" "c' = (align_ptr (lv_align32 meta) c4)\<lparr>inVariant := inVariant c\<rparr>"
    using d by (auto simp: liftFlatVariant_def Let_def rbind_Inr_iff split: option.splits)
  let ?c2 = "if storagePtr c = None then c1 else c1\<lparr>storagePtr := map_option (\<lambda>p. p + off) (storagePtr c)\<rparr>"
  have "took 1 (c\<lparr>inVariant := True\<rparr>) c1" using takesD [OF disc_takes [OF h(1)] h(2)] d by simp
  then have t1: "took 1 c ?c2" by (rule took_cong [THEN took_cong_left]) simp_all
  then have d2: "useDirectParams ?c2" by (simp add: took_def)
  have k: "k \<in> set (lv_caseMetas meta)" using h(3) by (auto simp: nth_case_def split: val.splits if_splits)
  from h(5) assms(3) obtain m where m: "lc_flatCount k = Some m" "0 \<le> n - m - (if lv_isEnum meta then 0 else 1)"
    "n - m - (if lv_isEnum meta then 0 else 1) \<le> int (length (params c3))"
    "c4 = c3\<lparr>params := drop (nat (n - m - (if lv_isEnum meta then 0 else 1))) (params c3)\<rparr>"
    by (auto simp: drop_rest_def Let_def split: option.splits if_splits)
  have t3: "took (if lc_liftFn k = None then 0 else m) ?c2 c3"
  proof (cases "lc_liftFn k")
    case None
    with h(4) d2 show ?thesis by (auto simp: lift_payload_def intro: took_same split: if_splits)
  next
    case (Some f)
    with assms(1) [OF k] m(1) have f: "1 \<le> m" "takes f m" by auto
    from h(4) Some obtain c2' x where "join_param (lc_isF64 k) ?c2 = Inr c2'" "f c2' = Inr (x, c3)"
      by (auto simp: lift_payload_def rbind_Inr_iff)
    with join_takes [OF this(1) f(2,1) this(2) d2] Some show ?thesis by simp
  qed
  have t4: "took (n - m - (if lv_isEnum meta then 0 else 1)) c3 c4" using m(2-4) t3 by (simp add: took_def)
  have "1 + (if lc_liftFn k = None then 0 else m) + (n - m - (if lv_isEnum meta then 0 else 1)) = n"
  proof (cases "lv_isEnum meta")
    case True
    with assms(4) k m(1,2) show ?thesis by fastforce
  next
    case False
    with assms(2) [OF k] m(1) show ?thesis by auto
  qed
  with took_trans [OF took_trans [OF t1 t3] t4] have "took n c c4" by simp
  then show "took n c c'" by (rule took_cong) (simp_all add: h(6))
qed

section \<open>Flat counts\<close>

definition flat_n :: "gen_env \<Rightarrow> ity \<Rightarrow> int" where
  "flat_n E t = (case flat_count (ge_abi E t) of None \<Rightarrow> 0 | Some n \<Rightarrow> n)"

text \<open>The flat counts of the Canonical ABI, as far as they are needed: one for numbers, characters, flags
  and enums, two for lists and maps, the sum of the parts for records and tuples, and some count for
  variants, options and results, whose payloads have counts that are not zero. A list of a known length
  has as many parameters as it has elements only if each of them is one parameter.\<close>

definition flat_payload :: "gen_env \<Rightarrow> ity \<Rightarrow> bool" where
  "flat_payload E t \<longleftrightarrow> flat_count (ge_abi E t) = Some (flat_n E t) \<and> 1 \<le> flat_n E t \<and>
     ge_flat_count E (ge_abi E t) MAX_FLAT_PARAMS = flat_count (ge_abi E t)"

fun flat_ok :: "gen_env \<Rightarrow> ity \<Rightarrow> bool" where
  "flat_ok E (TRecord fs) =
     (list_all (\<lambda>f. flat_ok E (snd f)) fs \<and> flat_n E (TRecord fs) = sum_list (map (\<lambda>f. flat_n E (snd f)) fs))"
| "flat_ok E (TVariant cs) =
     (list_all (\<lambda>k. case snd k of None \<Rightarrow> True | Some t \<Rightarrow> flat_ok E t \<and> flat_payload E t) cs \<and>
      flat_count (ge_abi E (TVariant cs)) \<noteq> None)"
| "flat_ok E (TList t) = (lift_type E t \<and> flat_n E (TList t) = 2)"
| "flat_ok E (TFixedLengthList n t) = (flat_n E (TFixedLengthList n t) = int n)"
| "flat_ok E (TTuple ts) = (list_all (flat_ok E) ts \<and> flat_n E (TTuple ts) = sum_list (map (flat_n E) ts))"
| "flat_ok E (TEnum names) = (flat_count (ge_abi E (TEnum names)) = Some 1 \<and> 1 \<le> ge_payload_offset32 E (TEnum names))"
| "flat_ok E (TOption t) = (flat_ok E t \<and> flat_payload E t \<and> flat_count (ge_abi E (TOption t)) \<noteq> None)"
| "flat_ok E (TResult ok err) =
     ((case ok of None \<Rightarrow> True | Some t \<Rightarrow> flat_ok E t \<and> flat_payload E t) \<and>
      (case err of None \<Rightarrow> True | Some t \<Rightarrow> flat_ok E t \<and> flat_payload E t) \<and> flat_count (ge_abi E (TResult ok err)) \<noteq> None)"
| "flat_ok E (TMap k v) = (lift_type E k \<and> lift_type E v \<and> flat_n E (TMap k v) = 2)"
| "flat_ok E TString = False"
| "flat_ok E (TOwn n) = False"
| "flat_ok E (TBorrow n) = False"
| "flat_ok E (TFuture n) = False"
| "flat_ok E (TStream n) = False"
| "flat_ok E (TErrorContext n) = False"
| "flat_ok E t = (flat_n E t = 1)"

lemma two_params_took: "two_params c = Inr (p, l, c') \<Longrightarrow> useDirectParams c \<Longrightarrow> took 2 c c'"
  by (auto simp: two_params_def took_def split: list.splits val.splits)

lemma takes_list:
  assumes "lifts (li_elemLiftFn meta) P" "li_knownLen meta = None"
  shows "takes (liftFlatList meta) 2"
  unfolding takes_def
proof (intro allI impI)
  fix c v c'
  assume d: "useDirectParams c" and l: "liftFlatList meta c = Inr (v, c')"
  from l assms(2) d obtain p n c1 c2 where t: "two_params c = Inr (p, n, c1)"
    "readValuesAndReset meta (c1\<lparr>useDirectParams := False, storageLen := Some (n * li_elemSize32 meta)\<rparr>)
       (Some (storagePtr c1)) (storageLen c1) (Some p) (nat n) = Inr (v, c2)" "c' = c2\<lparr>useDirectParams := True\<rparr>"
    by (auto simp: liftFlatList_def rbind_Inr_iff)
  from readValuesAndReset_typed [OF assms(1) t(2)] have "params c2 = params c1" by (simp add: kept_def)
  with two_params_took [OF t(1) d] t(3) show "took 2 c c'" by (simp add: took_def)
qed

lemma takes_map:
  assumes "lifts (lm_keyLiftFn meta) P" "lifts (lm_valueLiftFn meta) Q"
  shows "takes (liftFlatMap meta) 2"
  unfolding takes_def
proof (intro allI impI)
  fix c v c'
  assume d: "useDirectParams c" and l: "liftFlatMap meta c = Inr (v, c')"
  from l d obtain p n c1 kvs c2 where t: "two_params c = Inr (p, n, c1)"
    "read_entries meta p 0 (nat n) [] (c1\<lparr>useDirectParams := False, storageLen := Some (n * lift_entrySize32 meta)\<rparr>) = Inr (kvs, c2)"
    "params c' = params c2" "useDirectParams c'"
    by (auto simp: liftFlatMap_def rbind_Inr_iff Let_def)
  from read_entries_typed [OF assms t(2)] have "params c2 = params c1" by (simp add: kept_def)
  with two_params_took [OF t(1) d] t(3,4) show "took 2 c c'" by (simp add: took_def)
qed

lemma takes_flags: "takes (liftFlatFlags names al n) 1"
  unfolding takes_def
proof (intro allI impI)
  fix c v c'
  assume d: "useDirectParams c" and l: "liftFlatFlags names al n c = Inr (v, c')"
  from l obtain f w c1 where "f \<in> {liftFlatU8, liftFlatU16, liftFlatU32}" "f c = Inr (w, c1)" "c' = align_ptr al c1"
    by (fastforce simp: liftFlatFlags_def rbind_Inr_iff split: if_splits)
  moreover from this have "took 1 c c1" using takes_numbers(3,5,7) [THEN takesD] d by blast
  ultimately show "took 1 c c'" by (auto intro: took_cong)
qed

lemma takes_known_list:
  assumes "li_knownLen meta = Some n" "li_typedArray meta = None"
  shows "useDirectParams c \<Longrightarrow> liftFlatList meta c = Inr (VArr (take n (params c)), c\<lparr>params := drop n (params c)\<rparr>)"
  using assms by (simp add: liftFlatList_def list_value_def)

section \<open>What is taken\<close>

lemma takes_cases:
  assumes "\<And>k t. k \<in> set cs \<Longrightarrow> snd k = Some t \<Longrightarrow> takes (gen_lift E t) (flat_n E t) \<and> flat_payload E t \<and> cnt k = Some (flat_n E t)"
    and "\<And>k. k \<in> set cs \<Longrightarrow> snd k = None \<Longrightarrow> cnt k = Some 0"
    and "lv_caseMetas meta = map (\<lambda>k. lift_case_expr (fst k) (map_option (gen_lift E) (snd k)) False (cnt k)) cs"
    and "lv_flatCount meta = Some n" "\<not> lv_isEnum meta"
  shows "takes (liftFlatVariant meta) n"
proof (rule takes_variant [OF _ _ assms(4)])
  fix k assume "k \<in> set (lv_caseMetas meta)"
  then obtain k' where k: "k' \<in> set cs" "k = lift_case_expr (fst k') (map_option (gen_lift E) (snd k')) False (cnt k')"
    by (auto simp: assms(3))
  show "case lc_liftFn k of None \<Rightarrow> True | Some f \<Rightarrow> (\<exists>n. lc_flatCount k = Some n \<and> 1 \<le> n \<and> takes f n)"
    using assms(1) [OF k(1)] by (cases "snd k'") (auto simp: k(2) lift_case_expr_def flat_payload_def)
  show "lv_isEnum meta \<or> lc_flatCount k = Some 0" if "lc_liftFn k = None"
    using assms(2) [OF k(1)] that by (simp add: k(2) lift_case_expr_def)
qed (use assms(5) in simp)

lemma gen_lift_takes: "flat_ok E t \<Longrightarrow> takes (gen_lift E t) (flat_n E t)"
proof (induction E t rule: flat_ok.induct)
  case (1 E fs)
  let ?es = "map (\<lambda>f. (ge_camel E (fst f), gen_lift E (snd f), size32 (ge_abi E (snd f)), align32 (ge_abi E (snd f)))) fs"
  have g: "gen_lift E (TRecord fs) = liftFlatRecord ?es (size32 (ge_abi E (TRecord fs))) (align32 (ge_abi E (TRecord fs)))"
    by (simp add: lift_record_expr_def Let_def comp_def)
  have "list_all2 (\<lambda>e n. takes (fst (snd e)) n) ?es (map (\<lambda>f. flat_n E (snd f)) fs)"
    using 1 by (auto simp: list_all2_conv_all_nth list_all_length)
  from takes_record [OF this] 1(2) show ?case unfolding g by simp
next
  case (2 E cs)
  let ?cnt = "\<lambda>k. case snd k of None \<Rightarrow> Some 0 | Some t \<Rightarrow> ge_flat_count E (ge_abi E t) MAX_FLAT_PARAMS"
  let ?meta = "lift_meta_expr E (TVariant cs) (map (\<lambda>k. lift_case_expr (fst k) (map_option (gen_lift E) (snd k)) False (?cnt k)) cs)"
  have l: "gen_lift E (TVariant cs) = liftFlatVariant ?meta"
    by (auto simp: lift_variant_expr_def intro!: arg_cong [where f = "\<lambda>cs'. liftFlatVariant (lift_meta_expr E (TVariant cs) cs')"] split: option.splits)
  have p: "takes (gen_lift E t) (flat_n E t) \<and> flat_payload E t \<and> ?cnt k = Some (flat_n E t)" if "k \<in> set cs" "snd k = Some t" for k t
  proof -
    have f: "flat_ok E t \<and> flat_payload E t" using 2(2) that by (fastforce simp: list_all_iff split: option.splits)
    with 2(1) [OF that] that(2) show ?thesis by (simp add: flat_payload_def)
  qed
  have "takes (liftFlatVariant ?meta) (flat_n E (TVariant cs))"
    by (rule takes_cases [where cs = cs and cnt = ?cnt, OF p]) (use 2(2) in \<open>auto simp: lift_meta_expr_def Let_def flat_n_def\<close>)
  then show ?case unfolding l .
next
  case (3 E t)
  then show ?case using takes_list [of "\<lparr>li_elemLiftFn = gen_lift E t, li_elemSize32 = size32 (ge_abi E t), li_knownLen = None,
      li_typedArray = js_typed_array_ctor t\<rparr>" "of_type E t"] gen_lift_typed [of E t] by (simp add: lift_list_expr_def [abs_def])
next
  case (4 E n t)
  then show ?case unfolding takes_def took_def
    by (simp add: lift_fixed_list_expr_def takes_known_list)
next
  case (5 E ts)
  let ?es = "map (\<lambda>t. (gen_lift E t, size32 (ge_abi E t), align32 (ge_abi E t))) ts"
  have g: "gen_lift E (TTuple ts) = liftFlatTuple ?es (size32 (ge_abi E (TTuple ts))) (align32 (ge_abi E (TTuple ts)))"
    by (simp add: lift_tuple_expr_def Let_def comp_def)
  have "list_all2 (\<lambda>e n. takes (fst e) n) ?es (map (flat_n E) ts)" using 5 by (auto simp: list_all2_conv_all_nth list_all_length)
  from takes_tuple [OF this] 5(2) show ?case unfolding g by simp
next
  case (6 E names)
  let ?ty = "TEnum names"
  let ?meta = "(lift_meta_expr E ?ty (map (\<lambda>name. lift_case_expr name None False (Some (ge_payload_offset32 E ?ty))) names))\<lparr>lv_isEnum := True\<rparr>"
  have "takes (liftFlatVariant ?meta) 1"
    by (rule takes_variant) (use 6 in \<open>auto simp: lift_meta_expr_def Let_def lift_case_expr_def\<close>)
  moreover have "flat_n E ?ty = 1" using 6 by (simp add: flat_n_def)
  moreover have "gen_lift E ?ty = (\<lambda>c. rbind (liftFlatVariant ?meta c) (\<lambda>(v, c'). rbind (js_prop v ''tag'') (\<lambda>t. Inr (t, c'))))"
    by (simp add: lift_enum_expr_def liftFlatEnum_def [abs_def])
  ultimately show ?case unfolding takes_def by (auto simp: rbind_Inr_iff)
next
  case (7 E t)
  let ?cs = "[(''none'', None), (''some'', Some t)]"
  let ?cnt = "\<lambda>k. if fst k = ''some'' then flat_count (ge_abi E t) else Some 0"
  let ?meta = "lift_meta_expr E (TOption t) (map (\<lambda>k. lift_case_expr (fst k) (map_option (gen_lift E) (snd k)) False (?cnt k)) ?cs)"
  have l: "gen_lift E (TOption t) = liftFlatVariant ?meta" by (simp add: lift_option_expr_def liftFlatOption_def)
  have "takes (liftFlatVariant ?meta) (flat_n E (TOption t))"
    by (rule takes_cases [where cs = ?cs and cnt = ?cnt]) (use 7 in \<open>auto simp: lift_meta_expr_def Let_def flat_n_def flat_payload_def\<close>)
  then show ?case unfolding l .
next
  case (8 E ok err)
  let ?cs = "[(''ok'', ok), (''err'', err)]"
  let ?cnt = "\<lambda>k. case snd k of None \<Rightarrow> Some 0 | Some t \<Rightarrow> flat_count (ge_abi E t)"
  let ?meta = "lift_meta_expr E (TResult ok err) (map (\<lambda>k. lift_case_expr (fst k) (map_option (gen_lift E) (snd k)) False (?cnt k)) ?cs)"
  have l: "gen_lift E (TResult ok err) = liftFlatVariant ?meta"
    by (simp add: lift_result_expr_def lift_result_case_def liftFlatResult_def lift_case_expr_def split: option.splits)
  have "takes (liftFlatVariant ?meta) (flat_n E (TResult ok err))"
    by (rule takes_cases [where cs = ?cs and cnt = ?cnt]) (use 8 in \<open>auto simp: lift_meta_expr_def Let_def flat_n_def flat_payload_def\<close>)
  then show ?case unfolding l .
next
  case (9 E k v)
  then show ?case using takes_map [of "\<lparr>lm_keyLiftFn = gen_lift E k, lm_valueLiftFn = gen_lift E v, lift_entrySize32 = size32 (ge_entry_abi E (TMap k v)),
      lift_valueOffset32 = ge_value_offset32 E (TMap k v)\<rparr>" "of_type E k" "of_type E v"] gen_lift_typed [of E k] gen_lift_typed [of E v]
    by (simp add: lift_map_expr_def [abs_def])
qed (simp_all add: takes_numbers lift_flags_expr_def takes_flags)

text \<open>Lifting an argument from the flat parameters takes exactly the parameters of its type: if the flat
  counts follow the Canonical ABI and the generated function succeeds, it leaves the parameters behind the
  first \<open>flat_count\<close> ones, whichever case of a variant is present, so the next argument is lifted from
  its own parameters. (Lists of a known length count one parameter for each element.)\<close>

theorem direct_params_taken:
  assumes "flat_ok E t" "useDirectParams c" "gen_lift E t c = Inr (v, c')"
  shows "params c' = drop (nat (flat_n E t)) (params c) \<and> useDirectParams c'"
  using takesD [OF gen_lift_takes [OF assms(1)] assms(3,2)] by (simp add: took_def)

definition params_env :: gen_env where
  "params_env = typing_env\<lparr>ge_abi := (\<lambda>t. \<lparr>size32 = 4, align32 = 2, flat_count = Some (case t of TOption _ \<Rightarrow> 2 | _ \<Rightarrow> 1)\<rparr>)\<rparr>"

definition params_ctx :: "val list \<Rightarrow> ctx" where
  "params_ctx ps = \<lparr>memory = None, storagePtr = None, storageLen = None, params = ps, useDirectParams = True,
     inVariant = False, vals = [], realloc = None, componentIdx = None\<rparr>"

theorem direct_params_taken_witness:
  "\<exists>v c'. gen_lift params_env (TOption TS16) (params_ctx [VNum 0, VNum 7, VNum 9]) = Inr (v, c') \<and> params c' = [VNum 9]"
proof -
  let ?r = "gen_lift params_env (TOption TS16) (params_ctx [VNum 0, VNum 7, VNum 9])"
  have "map_sum id fst ?r = Inr (VObj [(''tag'', VStr ''none'')])" by code_simp
  then obtain v c' where r: "?r = Inr (v, c')" by (cases ?r) auto
  have "flat_ok params_env (TOption TS16)" by (simp add: params_env_def typing_env_def flat_payload_def flat_n_def)
  from direct_params_taken [OF this _ r] r show ?thesis by (simp add: params_ctx_def params_env_def flat_n_def)
qed

lemma large_enum_throws:
  assumes "useDirectParams c" "flat_count (ge_abi E (TEnum names)) = Some 1" "1 < ge_payload_offset32 E (TEnum names)" "i < length names"
    "int (length names) < 4294967296" "params c = VNum (int i) # ps"
  shows "gen_lift E (TEnum names) c = Inl (Err ''invalid variant flat count metadata'')"
proof -
  let ?d = "c\<lparr>inVariant := True\<rparr>"
  have "liftFlatU8 ?d = Inr (VNum (int i), ?d\<lparr>params := ps\<rparr>)" "liftFlatU16 ?d = Inr (VNum (int i), ?d\<lparr>params := ps\<rparr>)"
    "liftFlatU32 ?d = Inr (VNum (int i), ?d\<lparr>params := ps\<rparr>)"
    using assms(1,6) by (simp_all add: liftFlatU8_def liftFlatU16_def liftFlatU32_def first_param_def)
  moreover have "disc_lift (length names) \<in> {Inr liftFlatU8, Inr liftFlatU16, Inr liftFlatU32}"
    using assms(5) by (simp add: disc_lift_def)
  ultimately obtain f where f: "disc_lift (length names) = Inr f" "f ?d = Inr (VNum (int i), ?d\<lparr>params := ps\<rparr>)"
    by auto
  show ?thesis
    using f assms(1-4)
    by (simp add: lift_enum_expr_def liftFlatEnum_def liftFlatVariant_def lift_meta_expr_def Let_def nth_case_def lift_case_expr_def
      lift_payload_def drop_rest_def)
qed

text \<open>Two types whose direct parameters are lifted wrongly. An enum with more than 256 cases has its
  payload offset, 2 or more, where the function expects the flat count of a case, so lifting any of its
  values throws. And a list of a known length is the list of its raw parameters, whatever the element type:
  booleans stay numbers, and records and variants are not put together.\<close>

theorem direct_params_misread:
  assumes "useDirectParams c"
  shows "(\<forall>names i ps. flat_count (ge_abi E (TEnum names)) = Some 1 \<longrightarrow> 1 < ge_payload_offset32 E (TEnum names) \<longrightarrow> i < length names \<longrightarrow>
        int (length names) < 4294967296 \<longrightarrow> params c = VNum (int i) # ps \<longrightarrow>
        gen_lift E (TEnum names) c = Inl (Err ''invalid variant flat count metadata'')) \<and>
    (\<forall>n t. gen_lift E (TFixedLengthList n t) c = Inr (VArr (take n (params c)), c\<lparr>params := drop n (params c)\<rparr>))"
  using large_enum_throws [OF assms] assms by (simp add: lift_fixed_list_expr_def takes_known_list)

definition enum_env :: gen_env where
  "enum_env = typing_env\<lparr>ge_payload_offset32 := (\<lambda>t. case t of TEnum names \<Rightarrow> (if length names < 257 then 1 else 2) | _ \<Rightarrow> 1)\<rparr>"

definition big_enum :: ity where
  "big_enum = TEnum (map (\<lambda>n. replicate n CHR ''a'') [0..<300])"

theorem direct_params_misread_witness:
  "gen_lift enum_env big_enum (params_ctx [VNum 299]) = Inl (Err ''invalid variant flat count metadata'') \<and>
   (\<exists>c'. gen_lift enum_env (TFixedLengthList 2 TBool) (params_ctx [VNum 1, VNum 0]) = Inr (VArr [VNum 1, VNum 0], c'))"
proof -
  have d: "useDirectParams (params_ctx ps)" for ps by (simp add: params_ctx_def)
  have "flat_count (ge_abi enum_env big_enum) = Some 1" "1 < ge_payload_offset32 enum_env big_enum"
    by (simp_all add: enum_env_def typing_env_def big_enum_def)
  then have "gen_lift enum_env big_enum (params_ctx [VNum 299]) = Inl (Err ''invalid variant flat count metadata'')"
    using direct_params_misread [OF d [of "[VNum 299]"], of enum_env, THEN conjunct1, rule_format,
        of "map (\<lambda>n. replicate n CHR ''a'') [0..<300]" 299 "[]"]
    unfolding big_enum_def by (simp add: params_ctx_def)
  moreover have "\<exists>c'. gen_lift enum_env (TFixedLengthList 2 TBool) (params_ctx [VNum 1, VNum 0]) = Inr (VArr [VNum 1, VNum 0], c')"
    using direct_params_misread [OF d [of "[VNum 1, VNum 0]"], of enum_env, THEN conjunct2, rule_format, of 2 TBool]
    by (simp add: params_ctx_def)
  ultimately show ?thesis by blast
qed

end
