(* ===== verification/Value_Queue.thy ===== *)
theory Value_Queue
  imports Js_Values
begin

text \<open>
  The queue of values that were read from a host's source but not yet asked for by the guest
  (\<open>src/crates/js-component-bindgen/src/intrinsics/p3/async_stream.rs\<close>, \<open>PendingValueQueue\<close>): a list
  of chunks with an offset into the first one. It implements a first-in first-out queue whose front
  takes values back. The promise that concurrent reads of the source share is not modelled:
  \<open>readSource\<close> is what happens when a read returns. An \<open>ArrayBuffer\<close> is given as the byte array it
  is viewed as.
\<close>

section \<open>The interface of a queue\<close>

locale value_fifo =
  fixes contents :: "'q \<Rightarrow> 'a list" and ok :: "'q \<Rightarrow> bool"
    and push :: "'a list \<Rightarrow> 'q \<Rightarrow> 'q" and prepend :: "'a list \<Rightarrow> 'q \<Rightarrow> 'q"
    and drain :: "nat \<Rightarrow> 'q \<Rightarrow> 'a list \<times> 'q"
  assumes push: "ok q \<Longrightarrow> ok (push vs q) \<and> contents (push vs q) = contents q @ vs"
    and prepend: "ok q \<Longrightarrow> ok (prepend vs q) \<and> contents (prepend vs q) = vs @ contents q"
    and drain: "ok q \<Longrightarrow> drain n q = (vs, q') \<Longrightarrow> ok q' \<and> vs = take n (contents q) \<and> contents q' = drop n (contents q)"
begin

text \<open>Values that were drained and put back leave the queue as it was.\<close>

lemma put_back:
  assumes "ok q" "drain n q = (vs, q')"
  shows "ok (prepend vs q') \<and> contents (prepend vs q') = contents q"
  using drain [OF assms] prepend [of q' vs] by simp

text \<open>Two drains give what one gives, whatever is pushed between them that the first did not need.\<close>

lemma drain_drain:
  assumes "ok q" "drain n q = (vs, q1)" "drain m q1 = (ws, q2)"
  shows "vs @ ws = take (n + m) (contents q) \<and> contents q2 = drop (n + m) (contents q)"
  using drain [OF assms(1,2)] drain [of q1 m ws q2] assms(3)
  by (simp add: take_add [symmetric]) (simp add: add.commute)

lemma drain_push:
  assumes "ok q" "drain n q = (vs, q1)" "n \<le> length (contents q)"
  shows "drain n (push ws q) = (vs', q2) \<Longrightarrow> vs' = vs \<and> contents q2 = contents (push ws q1)"
  using drain [OF assms(1,2)] push [OF assms(1), of ws] drain [of "push ws q" n vs' q2] push [of q1 ws] assms(3) by simp

end

section \<open>PendingValueQueue\<close>

record value_queue =
  vq_chunks :: "val list list"
  vq_offset :: nat
  vq_length :: nat
  vq_done :: bool
  vq_isNumeric :: bool

definition newQueue :: "bool \<Rightarrow> value_queue" where
  "newQueue numeric = \<lparr>vq_chunks = [], vq_offset = 0, vq_length = 0, vq_done = False, vq_isNumeric = numeric\<rparr>"

definition vq_push :: "val list \<Rightarrow> value_queue \<Rightarrow> value_queue" where
  "vq_push source q =
     (if source = [] then q
      else q\<lparr>vq_chunks := vq_chunks q @ [source], vq_length := vq_length q + length source\<rparr>)"

text \<open>The values a read value stands for: the elements of an array of numbers, or itself.\<close>

fun read_source_values :: "bool \<Rightarrow> val \<Rightarrow> val list" where
  "read_source_values numeric VUndef = []"
| "read_source_values True (VArr vs) = vs"
| "read_source_values True (VTyped k ns) = map (if is_big_kind k then VBig else VNum) ns"
| "read_source_values numeric v = [v]"

definition appendReadValue :: "val \<Rightarrow> value_queue \<Rightarrow> nat \<times> value_queue" where
  "appendReadValue v q =
     (let source = read_source_values (vq_isNumeric q) v in (length source, vq_push source q))"

definition readSource :: "val \<Rightarrow> bool \<Rightarrow> value_queue \<Rightarrow> nat \<times> value_queue" where
  "readSource v done_flag q = (let (n, q1) = appendReadValue v q in (n, q1\<lparr>vq_done := done_flag\<rparr>))"

definition vq_prepend :: "val list \<Rightarrow> value_queue \<Rightarrow> value_queue" where
  "vq_prepend source q =
     (if source = [] then q
      else
        let q1 = (if vq_offset q \<noteq> 0 \<and> vq_chunks q \<noteq> []
                  then q\<lparr>vq_chunks := drop (vq_offset q) (hd (vq_chunks q)) # tl (vq_chunks q), vq_offset := 0\<rparr>
                  else q)
        in q1\<lparr>vq_chunks := source # vq_chunks q1, vq_length := vq_length q1 + length source\<rparr>)"

text \<open>The loop of \<open>drainInto\<close>: how many are still to be moved, and what was moved. The first chunk is
  always there and longer than the offset (\<open>vq_ok\<close>); the two branches for the other cases stop, where
  the code would throw and where it would not make progress.\<close>

function drain_loop :: "nat \<Rightarrow> val list \<Rightarrow> value_queue \<Rightarrow> val list \<times> value_queue" where
  "drain_loop remaining target q =
     (if remaining = 0 then (target, q)
      else case vq_chunks q of
        [] \<Rightarrow> (target, q)
      | chunk # rest \<Rightarrow>
          let transfer = min remaining (length chunk - vq_offset q);
              off = vq_offset q + transfer;
              q1 = q\<lparr>vq_offset := off, vq_length := vq_length q - transfer\<rparr>;
              q2 = (if off = length chunk then q1\<lparr>vq_chunks := rest, vq_offset := 0\<rparr> else q1)
          in if transfer = 0 then (target, q)
             else drain_loop (remaining - transfer) (target @ take transfer (drop (vq_offset q) chunk)) q2)"
  by pat_completeness auto
termination by (relation "measure fst") auto

declare drain_loop.simps [simp del]

definition drainInto :: "int \<Rightarrow> value_queue \<Rightarrow> val list \<times> value_queue" where
  "drainInto maxCount q = drain_loop (nat (min maxCount (int (vq_length q)))) [] q"

section \<open>Refinement\<close>

definition vq_contents :: "value_queue \<Rightarrow> val list" where
  "vq_contents q = drop (vq_offset q) (concat (vq_chunks q))"

definition vq_ok :: "value_queue \<Rightarrow> bool" where
  "vq_ok q \<longleftrightarrow>
     vq_length q = length (vq_contents q) \<and> [] \<notin> set (vq_chunks q) \<and>
     (case vq_chunks q of [] \<Rightarrow> vq_offset q = 0 | chunk # rest \<Rightarrow> vq_offset q < length chunk)"

lemma vq_contents_Cons:
  "vq_chunks q = chunk # rest \<Longrightarrow> vq_offset q < length chunk \<Longrightarrow> vq_contents q = drop (vq_offset q) chunk @ concat rest"
  by (simp add: vq_contents_def)

lemma vq_push_ok:
  assumes "vq_ok q"
  shows "vq_ok (vq_push vs q)" "vq_contents (vq_push vs q) = vq_contents q @ vs"
proof -
  have o: "vq_offset q \<le> length (concat (vq_chunks q))"
    using assms by (cases "vq_chunks q") (auto simp: vq_ok_def)
  then show "vq_contents (vq_push vs q) = vq_contents q @ vs" by (simp add: vq_push_def vq_contents_def)
  with assms show "vq_ok (vq_push vs q)"
    by (cases "vq_chunks q") (auto simp: vq_ok_def vq_push_def)
qed

lemma vq_prepend_ok:
  assumes "vq_ok q"
  shows "vq_ok (vq_prepend vs q)" "vq_contents (vq_prepend vs q) = vs @ vq_contents q"
proof -
  show c: "vq_contents (vq_prepend vs q) = vs @ vq_contents q"
    using assms by (cases "vq_chunks q") (auto simp: vq_ok_def vq_prepend_def vq_contents_def Let_def)
  show "vq_ok (vq_prepend vs q)"
    using assms c by (cases "vq_chunks q") (auto simp: vq_ok_def vq_prepend_def Let_def)
qed

lemma drain_loop_ok:
  assumes "vq_ok q" "n \<le> length (vq_contents q)" "drain_loop n target q = (out, q')"
  shows "vq_ok q' \<and> out = target @ take n (vq_contents q) \<and> vq_contents q' = drop n (vq_contents q)"
  using assms
proof (induction n target q arbitrary: out q' rule: drain_loop.induct)
  case (1 n target q)
  show ?case
  proof (cases "n = 0 \<or> vq_chunks q = []")
    case True
    then show ?thesis using "1.prems"
      by (auto simp: drain_loop.simps [of n] vq_contents_def)
  next
    case False
    then obtain chunk rest where ch: "vq_chunks q = chunk # rest" and n: "0 < n" by (cases "vq_chunks q") auto
    then have off: "vq_offset q < length chunk" using "1.prems"(1) by (simp add: vq_ok_def)
    let ?t = "min n (length chunk - vq_offset q)"
    let ?q1 = "q\<lparr>vq_offset := vq_offset q + ?t, vq_length := vq_length q - ?t\<rparr>"
    let ?q2 = "if vq_offset q + ?t = length chunk then ?q1\<lparr>vq_chunks := rest, vq_offset := 0\<rparr> else ?q1"
    let ?target = "target @ take ?t (drop (vq_offset q) chunk)"
    have t: "0 < ?t" using n off by simp
    have c: "vq_contents q = drop (vq_offset q) chunk @ concat rest" using ch off by (rule vq_contents_Cons)
    have c2: "vq_contents ?q2 = drop ?t (vq_contents q)"
      using ch off unfolding c by (auto simp: vq_contents_def min_def add.commute)
    have ok2: "vq_ok ?q2"
    proof -
      have "vq_length ?q2 = length (vq_contents ?q2)"
        unfolding c2 using "1.prems"(1) by (auto simp: vq_ok_def)
      moreover have "[] \<notin> set (vq_chunks ?q2)" using "1.prems"(1) ch by (auto simp: vq_ok_def)
      moreover have "case vq_chunks ?q2 of [] \<Rightarrow> vq_offset ?q2 = 0 | chunk # rest \<Rightarrow> vq_offset ?q2 < length chunk"
        using "1.prems"(1) ch off by (cases rest) (auto simp: vq_ok_def min_def)
      ultimately show ?thesis by (simp add: vq_ok_def)
    qed
    have le: "n - ?t \<le> length (vq_contents ?q2)" using "1.prems"(2) c2 by simp
    have dl: "drain_loop (n - ?t) ?target ?q2 = (out, q')"
      using "1.prems"(3) n ch t by (subst (asm) drain_loop.simps) (simp add: Let_def)
    have n0: "n \<noteq> 0" "?t \<noteq> 0" using n t by simp_all
    have r: "vq_ok q' \<and> out = ?target @ take (n - ?t) (vq_contents ?q2) \<and>
        vq_contents q' = drop (n - ?t) (vq_contents ?q2)"
      by (rule "1.IH" [OF n0(1) ch refl refl refl refl n0(2) ok2 le dl])
    have "take ?t (drop (vq_offset q) chunk) = take ?t (vq_contents q)" unfolding c by simp
    moreover have "take ?t (vq_contents q) @ take (n - ?t) (drop ?t (vq_contents q)) = take n (vq_contents q)"
      using take_add [of ?t "n - ?t" "vq_contents q"] by simp
    ultimately show ?thesis using r c2 by simp
  qed
qed

lemma drainInto_ok:
  assumes "vq_ok q" "drainInto (int n) q = (vs, q')"
  shows "vq_ok q' \<and> vs = take n (vq_contents q) \<and> vq_contents q' = drop n (vq_contents q)"
proof -
  have l: "vq_length q = length (vq_contents q)" using assms(1) by (simp add: vq_ok_def)
  have "nat (min (int n) (int (vq_length q))) = min n (length (vq_contents q))" using l by (simp add: min_def)
  with assms(2) have "drain_loop (min n (length (vq_contents q))) [] q = (vs, q')" by (simp add: drainInto_def)
  from drain_loop_ok [OF assms(1) _ this] show ?thesis by (auto simp: min_def)
qed

interpretation pending_values: value_fifo vq_contents vq_ok vq_push vq_prepend "\<lambda>n. drainInto (int n)"
  by unfold_locales (simp_all add: vq_push_ok vq_prepend_ok drainInto_ok)

section \<open>Property\<close>

datatype queue_command = Push "val list" | Read_Source val bool | Prepend "val list" | Drain nat

primrec queue_step :: "queue_command \<Rightarrow> value_queue \<Rightarrow> value_queue" where
  "queue_step (Push vs) q = vq_push vs q"
| "queue_step (Read_Source v d) q = snd (readSource v d q)"
| "queue_step (Prepend vs) q = vq_prepend vs q"
| "queue_step (Drain n) q = snd (drainInto (int n) q)"

primrec list_step :: "bool \<Rightarrow> queue_command \<Rightarrow> val list \<Rightarrow> val list" where
  "list_step numeric (Push vs) xs = xs @ vs"
| "list_step numeric (Read_Source v d) xs = xs @ read_source_values numeric v"
| "list_step numeric (Prepend vs) xs = vs @ xs"
| "list_step numeric (Drain n) xs = drop n xs"

lemma drain_loop_numeric: "vq_isNumeric (snd (drain_loop n t q)) = vq_isNumeric q"
proof (induction n t q rule: drain_loop.induct)
  case (1 n t q)
  then show ?case
    by (subst drain_loop.simps) (auto simp: Let_def split: list.split)
qed

lemma queue_step_ok:
  assumes "vq_ok q"
  shows "vq_ok (queue_step c q) \<and> vq_contents (queue_step c q) = list_step (vq_isNumeric q) c (vq_contents q) \<and>
    vq_isNumeric (queue_step c q) = vq_isNumeric q"
proof (cases c)
  case (Push vs)
  then show ?thesis using pending_values.push [OF assms] by (simp add: vq_push_def)
next
  case (Read_Source v d)
  have "vq_ok (q\<lparr>vq_done := d\<rparr>) = vq_ok q" "vq_contents (q\<lparr>vq_done := d\<rparr>) = vq_contents q" for q
    by (cases "vq_chunks q"; simp add: vq_ok_def vq_contents_def)+
  then show ?thesis using Read_Source pending_values.push [OF assms]
    by (simp add: readSource_def appendReadValue_def Let_def vq_push_def)
next
  case (Prepend vs)
  then show ?thesis using pending_values.prepend [OF assms] by (simp add: vq_prepend_def Let_def)
next
  case (Drain n)
  obtain vs q' where "drainInto (int n) q = (vs, q')" by fastforce
  with Drain pending_values.drain [OF assms this] drain_loop_numeric show ?thesis
    by (metis drainInto_def list_step.simps(4) queue_step.simps(4) snd_conv)
qed

text \<open>C22. The chunked queue implements a list: after any sequence of pushes, reads of the source, drains and
  values put back at the front, its contents are those of the list under the same operations, its
  length is the length of the list, a drain gives the longest prefix that was asked for, and putting
  drained values back restores the contents.\<close>

theorem value_queue_refines_list:
  "let q = fold queue_step cs (newQueue numeric); xs = fold (list_step numeric) cs [] in
   vq_contents q = xs \<and> vq_length q = length xs \<and> fst (drainInto (int n) q) = take n xs \<and>
   vq_contents (vq_prepend (fst (drainInto (int n) q)) (snd (drainInto (int n) q))) = xs"
proof -
  have "vq_ok q \<Longrightarrow> vq_isNumeric q = numeric \<Longrightarrow> vq_ok (fold queue_step cs q) \<and>
      vq_contents (fold queue_step cs q) = fold (list_step numeric) cs (vq_contents q)" for q
    by (induction cs arbitrary: q) (simp_all add: queue_step_ok)
  moreover have "vq_ok (newQueue numeric)" "vq_contents (newQueue numeric) = []" "vq_isNumeric (newQueue numeric) = numeric"
    by (simp_all add: newQueue_def vq_ok_def vq_contents_def)
  ultimately have q: "vq_ok (fold queue_step cs (newQueue numeric))"
    "vq_contents (fold queue_step cs (newQueue numeric)) = fold (list_step numeric) cs []" by metis+
  obtain vs q' where d: "drainInto (int n) (fold queue_step cs (newQueue numeric)) = (vs, q')" by fastforce
  from pending_values.drain [OF q(1) d] pending_values.put_back [OF q(1) d] q d show ?thesis
    by (simp add: Let_def vq_ok_def)
qed

end
