(* ===== verification/Rep_Objects.thy ===== *)
theory Rep_Objects
  imports Rep_Table
begin

text \<open>
  The slab of \<open>Rep_Table\<close> in the form its clients use: an insertion of a table with room always gives a
  positive index, a removal of a live one succeeds, an object read from the table is a live one, and
  an object that is assigned to stays where it is.
\<close>

section \<open>Insertion, removal and lookup\<close>

lemma rep_insert_ok:
  assumes "rep_inv t" "rep_room t"
  obtains h t' where "rep_insert v t = (JNum (int h), t')" "0 < h" "rep_lookup t h = None"
    "rep_lookup t' = (rep_lookup t)(h \<mapsto> v)" "rep_inv t'" "length (rt_data t') \<le> length (rt_data t) + 2"
proof -
  obtain h t' where r: "rep_ins v t = (h, t')" by fastforce
  from assms(1) obtain fl where w: "rep_wf t fl" by (auto simp: rep_inv_wf)
  have i: "rep_insert v t = (JNum (int h), t')" by (rule rep_ins_insert [OF assms r])
  have "length (rt_data t') \<le> length (rt_data t) + 2"
  proof (cases fl)
    case Nil
    then show ?thesis using rep_insert_nil [of t v] w assms(2) i by simp
  next
    case (Cons x xs)
    then show ?thesis using rep_insert_cons [of t x xs v] w i by auto
  qed
  with i show ?thesis
    using rt.ins_pos [OF assms _ r] rt.ins_fresh [OF assms _ r] rt.ins_lookup [OF assms _ r] rt.ins_inv [OF assms _ r] that
    by simp
qed

lemma rep_remove_ok:
  assumes "rep_inv t" "rep_lookup t h = Some v"
  obtains t' where "rep_remove (int h) t = Inr (v, t')" "rep_lookup t' = (rep_lookup t)(h := None)" "rep_inv t'"
    "length (rt_data t') = length (rt_data t)"
proof -
  from assms(1) obtain fl where w: "rep_wf t fl" by (auto simp: rep_inv_wf)
  from rep_remove_lookup [OF w assms(2)] obtain t' where t': "rep_remove (int h) t = Inr (v, t')" "rep_wf t' (h # fl)"
    "rep_lookup t' = (rep_lookup t)(h := None)" .
  have "0 < h" "2 * h < length (rt_data t)" using assms(2) by (auto simp: rep_lookup_def split: if_splits)
  from rep_remove_wf [OF w this] t'(1) have "length (rt_data t') = length (rt_data t)" by auto
  with t' show ?thesis using that by (auto simp: rep_inv_wf)
qed

lemma chain_link: "chain nx v is \<Longrightarrow> i \<in> set is \<Longrightarrow> nx i \<noteq> None"
proof (induction "is" arbitrary: v)
  case (Cons j js)
  then show ?case by (cases js) auto
qed simp

lemma rep_get_obj:
  assumes "rep_inv t" "rep_get w t = Inr (JObj x)" "0 \<le> w" "w < 2 ^ 30"
  shows "rep_lookup t (nat w) = Some (JObj x)"
proof -
  from assms(1) obtain fl where wf: "rep_wf t fl" by (auto simp: rep_inv_wf)
  have w: "w \<noteq> 0" using assms(2) by (auto simp: rep_get_def)
  have g: "js_get (rt_data t) (2 * w) = JObj x"
    using assms(2) w js_shl1 [OF assms(3)] assms(4) by (simp add: rep_get_def)
  have l: "2 * nat w < length (rt_data t)" "rt_data t ! (2 * nat w) = JObj x"
    using g assms(3) by (auto simp: js_get_def nat_mult_distrib split: if_splits)
  have "nat w \<notin> set fl"
  proof
    assume "nat w \<in> set fl"
    then have "rep_link (rt_data t) (nat w) \<noteq> None" using wf unfolding rep_wf_def by (blast dest: chain_link)
    moreover have "js_get (rt_data t) (2 * int (nat w)) = JObj x" using g assms(3) by simp
    ultimately show False by (simp add: rep_link_def)
  qed
  then show ?thesis using l w assms(3) by (simp add: rep_lookup_wf [OF wf])
qed

lemma rep_lookup_new [simp]: "rep_lookup rep_new h = None"
  by (simp add: rep_lookup_def rep_new_def)

section \<open>Objects that are changed in place\<close>

text \<open>A field of an object in the table is assigned: the cell that \<open>get\<close> reads holds the new object.\<close>

definition rep_put :: "int \<Rightarrow> 'a jsv \<Rightarrow> 'a rep_table \<Rightarrow> 'a rep_table" where
  "rep_put rep v t = t\<lparr>rt_data := (rt_data t)[nat (js_shl rep 1) := v]\<rparr>"

lemma rep_put_ok:
  assumes "rep_inv t" "rep_lookup t h = Some u"
  shows "rep_inv (rep_put (int h) v t)" "rep_lookup (rep_put (int h) v t) = (rep_lookup t)(h \<mapsto> v)"
    "length (rt_data (rep_put (int h) v t)) = length (rt_data t)"
proof -
  from assms(1) obtain fl where w: "rep_wf t fl" by (auto simp: rep_inv_wf)
  have h: "0 < h" "2 * h < length (rt_data t)" "h \<notin> set fl" "length (rt_data t) < 2 ^ 31"
    using assms(2) w by (auto simp: rep_lookup_wf [OF w] rep_wf_def split: if_splits)
  have d: "rep_put (int h) v t = t\<lparr>rt_data := (rt_data t)[2 * h := v]\<rparr>"
    using h by (simp add: rep_put_def nat_mult_distrib)
  have l: "rep_link ((rt_data t)[2 * h := v]) i = rep_link (rt_data t) i" if "i \<noteq> h" for i
    using that by (simp add: rep_link_update)
  have "chain (rep_link ((rt_data t)[2 * h := v])) (rep_link (rt_data t) 0) fl"
    using w h(3) unfolding rep_wf_def by (blast intro: chain_cong l)
  then have w': "rep_wf (rep_put (int h) v t) fl"
    using w h l [of 0] by (simp add: rep_wf_def d)
  then show "rep_inv (rep_put (int h) v t)" by (auto simp: rep_inv_wf)
  have e: "rt_data (rep_put (int h) v t) = (rt_data t)[2 * h := v]" by (simp add: d)
  show "rep_lookup (rep_put (int h) v t) = (rep_lookup t)(h \<mapsto> v)"
    using h by (auto simp: fun_eq_iff rep_lookup_wf [OF w] rep_lookup_wf [OF w'] e nth_list_update)
  show "length (rt_data (rep_put (int h) v t)) = length (rt_data t)" by (simp add: d)
qed

end
