(* ===== verification/End_Tables.thy ===== *)
theory End_Tables
  imports Rep_Objects
begin

text \<open>
  The tables of stream and future ends
  (\<open>src/crates/js-component-bindgen/src/intrinsics/component.rs\<close>, the table methods of
  \<open>ComponentAsyncState\<close>, and the intrinsics \<open>streamNew\<close>, \<open>streamDropReadable\<close>,
  \<open>streamDropWritable\<close> and \<open>streamTransfer\<close> of \<open>p3/async_stream.rs\<close> up to the methods of the end
  itself). An end is registered twice: in the handles of its component under its waitable index, and
  in a table of its type under its handle; the end keeps both numbers and the table's index.

  The objects live in a store; the tables hold their addresses. The handles of a component hold other
  objects too, which have none of the ends' methods. A component's state is made on first use, so
  the handles are a total function. The methods of an end that the intrinsics call at the end
  (\<open>drop\<close>, \<open>copy\<close>) are those of \<open>Stream_Copy\<close>.
\<close>

section \<open>State\<close>

datatype end_kind = Stream_End | Future_End

datatype handle_obj = End_Ref nat | Other_Obj

record end_obj =
  eo_kind :: end_kind
  eo_readable :: bool
  eo_tableIdx :: int
  eo_handle :: "int option"
  eo_waitableIdx :: "int option"
  eo_done :: bool

text \<open>\<open>tb_map\<close> is \<open>STREAM_TABLES\<close> and \<open>FUTURE_TABLES\<close>: for an index the component and the table.\<close>

record end_tables =
  tb_ends :: "end_obj list"
  tb_handles :: "int \<Rightarrow> handle_obj rep_table"
  tb_map :: "end_kind \<Rightarrow> int \<rightharpoonup> int \<times> nat rep_table"
  tb_mayLeave :: "int \<Rightarrow> bool"

type_synonym 'a top = "end_tables \<Rightarrow> ('a, end_tables) jsm"

definition upd_eo :: "nat \<Rightarrow> (end_obj \<Rightarrow> end_obj) \<Rightarrow> end_tables \<Rightarrow> end_tables" where
  "upd_eo e f tb = tb\<lparr>tb_ends := (tb_ends tb)[e := f (tb_ends tb ! e)]\<rparr>"

text \<open>\<open>streamEnd.setWaitableIdx(cstate.handles.insert(streamEnd))\<close>; a waitable's index must not be 0.\<close>

definition register_handle :: "int \<Rightarrow> nat \<Rightarrow> unit top" where
  "register_handle c e tb =
     (let (r, t) = rep_insert (JObj (End_Ref e)) (tb_handles tb c); tb1 = tb\<lparr>tb_handles := (tb_handles tb)(c := t)\<rparr> in
      case r of
        JNum w \<Rightarrow> if w = 0 then (Inl (Err ''waitable idx cannot be zero''), tb1)
                  else (Inr (), upd_eo e (\<lambda>x. x\<lparr>eo_waitableIdx := Some w\<rparr>) tb1)
      | _ \<Rightarrow> (Inl (OutOfModel ''index that is no number''), tb1))"

text \<open>\<open>streamEnd.setHandle(table.insert(streamEnd))\<close>\<close>

definition register_table :: "end_kind \<Rightarrow> int \<Rightarrow> nat \<Rightarrow> unit top" where
  "register_table k ti e tb =
     (case tb_map tb k ti of
        None \<Rightarrow> (Inl (TypeErr ''Cannot destructure property of undefined''), tb)
      | Some (c, t) \<Rightarrow>
         (let (r, t1) = rep_insert (JObj e) t;
              tb1 = tb\<lparr>tb_map := (tb_map tb)(k := (tb_map tb k)(ti \<mapsto> (c, t1)))\<rparr> in
          case r of
            JNum h \<Rightarrow> (Inr (), upd_eo e (\<lambda>x. x\<lparr>eo_handle := Some h\<rparr>) tb1)
          | _ \<Rightarrow> (Inl (OutOfModel ''handle that is no number''), tb1)))"

section \<open>Creating ends\<close>

definition new_end_obj :: "end_kind \<Rightarrow> bool \<Rightarrow> int \<Rightarrow> end_tables \<Rightarrow> nat \<times> end_tables" where
  "new_end_obj k readable ti tb =
     (length (tb_ends tb), tb\<lparr>tb_ends := tb_ends tb @ [\<lparr>eo_kind = k, eo_readable = readable, eo_tableIdx = ti,
        eo_handle = None, eo_waitableIdx = None, eo_done = False\<rparr>]\<rparr>)"

definition idx_of :: "nat \<Rightarrow> end_tables \<Rightarrow> int" where
  "idx_of e tb = (case eo_waitableIdx (tb_ends tb ! e) of None \<Rightarrow> 0 | Some w \<Rightarrow> w)"

text \<open>Both ends of a new stream or future; the write end is registered first. The result is the waitable
  indices of the write and the read end.\<close>

definition create_ends :: "end_kind \<Rightarrow> int \<Rightarrow> int option \<Rightarrow> (int \<times> int) top" where
  "create_ends k cidx tableIdx tb =
     (case tableIdx of
        None \<Rightarrow> (Inl (Err ''missing table idx''), tb)
      | Some ti \<Rightarrow>
        (case tb_map tb k ti of
           None \<Rightarrow> (Inl (TypeErr ''Cannot destructure property of undefined''), tb)
         | Some (c, _) \<Rightarrow>
            if c \<noteq> cidx then (Inl (Err ''component idx mismatch''), tb)
            else
              let (re, tb1) = new_end_obj k True ti tb; (we, tb2) = new_end_obj k False ti tb1 in
              jbind (register_handle cidx we) (\<lambda>_. jbind (register_table k ti we) (\<lambda>_.
              jbind (register_handle cidx re) (\<lambda>_. jbind (register_table k ti re) (\<lambda>_ tb'.
                (Inr (idx_of we tb', idx_of re tb'), tb'))))) tb2))"

definition createStream :: "int \<Rightarrow> int option \<Rightarrow> (int \<times> int) top" where
  "createStream = create_ends Stream_End"

definition createFuture :: "int \<Rightarrow> int option \<Rightarrow> (int \<times> int) top" where
  "createFuture = create_ends Future_End"

text \<open>A read end alone, for a stream that the host lowers.\<close>

definition createReadableStreamEnd :: "int \<Rightarrow> int \<Rightarrow> int top" where
  "createReadableStreamEnd cidx ti tb =
     (case tb_map tb Stream_End ti of
        None \<Rightarrow> (Inl (TypeErr ''Cannot destructure property of undefined''), tb)
      | Some (c, _) \<Rightarrow>
         if c \<noteq> cidx then (Inl (Err ''component idx mismatch while creating stream''), tb)
         else
           let (e, tb1) = new_end_obj Stream_End True ti tb in
           jbind (register_handle cidx e) (\<lambda>_. jbind (register_table Stream_End ti e) (\<lambda>_ tb'. (Inr (idx_of e tb'), tb'))) tb1)"

text \<open>The packed result of \<open>streamNew\<close>.\<close>

definition pack_ends :: "int \<Rightarrow> int \<Rightarrow> int" where
  "pack_ends w r = (push_bit 32 w OR r)"

definition streamNew :: "bool \<Rightarrow> int \<Rightarrow> int option \<Rightarrow> int top" where
  "streamNew hasTask cidx tableIdx tb =
     (if \<not> hasTask then (Inl (Err ''missing async task metadata during stream.new''), tb)
      else if \<not> tb_mayLeave tb cidx
      then (Inl (Err ''component instance is not marked as may leave during stream.new''), tb)
      else jbind (createStream cidx tableIdx) (\<lambda>(w, r). jret (pack_ends w r)) tb)"

section \<open>Looking ends up\<close>

text \<open>What \<open>get\<close> gives for an index: nothing (a falsy value), an end, or an object without the methods of
  an end of the kind.\<close>

definition as_end :: "end_kind \<Rightarrow> end_tables \<Rightarrow> handle_obj jsv \<Rightarrow> nat option" where
  "as_end k tb v = (case v of JObj (End_Ref e) \<Rightarrow> if eo_kind (tb_ends tb ! e) = k then Some e else None | _ \<Rightarrow> None)"

text \<open>An end looked up by waitable index. The table index is not checked when it is 0; for an object that is
  no end of the kind the model then returns nothing (the callers check the class).\<close>

definition get_end_by_waitable :: "end_kind \<Rightarrow> int \<Rightarrow> int \<Rightarrow> nat option top" where
  "get_end_by_waitable k ti w tb =
     (case tb_map tb k ti of
        None \<Rightarrow> (Inl (TypeErr ''Cannot destructure property of undefined''), tb)
      | Some (c, _) \<Rightarrow>
         (case rep_get w (tb_handles tb c) of
            Inl e \<Rightarrow> (Inl e, tb)
          | Inr v \<Rightarrow>
             if \<not> truthy v then (Inl (Err ''missing end''), tb)
             else if ti = 0 then (Inr (as_end k tb v), tb)
             else (case as_end k tb v of
                None \<Rightarrow> (Inl (TypeErr ''streamTableIdx is not a function''), tb)
              | Some e \<Rightarrow>
                  if eo_tableIdx (tb_ends tb ! e) \<noteq> ti then (Inl (Err ''end table idx does not match''), tb)
                  else (Inr (Some e), tb))))"

definition getStreamEnd :: "int \<Rightarrow> int \<Rightarrow> nat option top" where
  "getStreamEnd = get_end_by_waitable Stream_End"

definition getFutureEnd :: "int \<Rightarrow> int \<Rightarrow> nat option top" where
  "getFutureEnd = get_end_by_waitable Future_End"

section \<open>Removing ends\<close>

text \<open>The two removals that \<open>deleteStreamEnd\<close>, \<open>removeStreamEndFromTable\<close> and
  \<open>removeFutureEndFromTable\<close> end with: from the handles under \<open>w\<close>, from the table under the end's
  handle. A removed value that is falsy is an error.\<close>

definition remove_both :: "end_kind \<Rightarrow> int \<Rightarrow> int \<Rightarrow> nat \<Rightarrow> int \<Rightarrow> unit top" where
  "remove_both k c ti e w tb =
     (case rep_remove w (tb_handles tb c) of
        Inl err \<Rightarrow> (Inl err, tb)
      | Inr (v, t) \<Rightarrow>
         (let tb1 = tb\<lparr>tb_handles := (tb_handles tb)(c := t)\<rparr> in
          if \<not> truthy v then (Inl (Err ''failed to remove end from handles''), tb1)
          else (case (tb_map tb1 k ti, eo_handle (tb_ends tb1 ! e)) of
             (Some (c', t'), Some h) \<Rightarrow>
               (case rep_remove h t' of
                  Inl err \<Rightarrow> (Inl err, tb1)
                | Inr (v', t'') \<Rightarrow>
                   (let tb2 = tb1\<lparr>tb_map := (tb_map tb1)(k := (tb_map tb1 k)(ti \<mapsto> (c', t'')))\<rparr> in
                    if \<not> truthy v' then (Inl (Err ''failed to remove end from table''), tb2) else (Inr (), tb2)))
           | _ \<Rightarrow> (Inl (OutOfModel ''end without handle''), tb1))))"

definition deleteStreamEnd :: "int \<Rightarrow> int \<Rightarrow> nat top" where
  "deleteStreamEnd ti w tb =
     (case tb_map tb Stream_End ti of
        None \<Rightarrow> (Inl (TypeErr ''Cannot destructure property of undefined''), tb)
      | Some (c, _) \<Rightarrow>
         (case rep_get w (tb_handles tb c) of
            Inl e \<Rightarrow> (Inl e, tb)
          | Inr v \<Rightarrow>
             if \<not> truthy v then (Inl (Err ''missing stream end in component handles while deleting stream''), tb)
             else (case as_end Stream_End tb v of
                None \<Rightarrow> (Inl (TypeErr ''streamTableIdx is not a function''), tb)
              | Some e \<Rightarrow>
                  if eo_tableIdx (tb_ends tb ! e) \<noteq> ti then (Inl (Err ''stream end table idx does not match''), tb)
                  else jbind (remove_both Stream_End c ti e (idx_of e tb)) (\<lambda>_. jret e) tb)))"

text \<open>Here the end's table index is not compared with the table it is removed from.\<close>

definition remove_end_from_table :: "end_kind \<Rightarrow> int \<Rightarrow> int \<Rightarrow> nat top" where
  "remove_end_from_table k ti w tb =
     (case tb_map tb k ti of
        None \<Rightarrow> (Inl (TypeErr ''Cannot destructure property of undefined''), tb)
      | Some (c, _) \<Rightarrow>
         (case rep_get w (tb_handles tb c) of
            Inl e \<Rightarrow> (Inl e, tb)
          | Inr v \<Rightarrow>
             if \<not> truthy v then (Inl (Err ''missing end''), tb)
             else (case as_end k tb v of
                None \<Rightarrow> (Inl (TypeErr ''handle is not a function''), tb)
              | Some e \<Rightarrow> jbind (remove_both k c ti e w) (\<lambda>_. jret e) tb)))"

definition removeStreamEndFromTable :: "int \<Rightarrow> int \<Rightarrow> nat top" where
  "removeStreamEndFromTable = remove_end_from_table Stream_End"

definition removeFutureEndFromTable :: "int \<Rightarrow> int \<Rightarrow> nat top" where
  "removeFutureEndFromTable = remove_end_from_table Future_End"

definition addStreamEndToTable :: "int \<Rightarrow> nat \<Rightarrow> int top" where
  "addStreamEndToTable ti e tb =
     (case tb_map tb Stream_End ti of
        None \<Rightarrow> (Inl (TypeErr ''Cannot destructure property of undefined''), tb)
      | Some (c, _) \<Rightarrow>
         jbind (register_table Stream_End ti e) (\<lambda>_.
         jbind (jassign (upd_eo e (\<lambda>x. x\<lparr>eo_tableIdx := ti\<rparr>))) (\<lambda>_.
         jbind (register_handle c e) (\<lambda>_ tb'. (Inr (idx_of e tb'), tb')))) tb)"

section \<open>Dropping and transferring\<close>

text \<open>\<open>streamDropReadable\<close> and \<open>streamDropWritable\<close> up to the end's own \<open>drop\<close>: the end is removed
  before its class is checked.\<close>

definition streamDrop :: "bool \<Rightarrow> bool \<Rightarrow> int \<Rightarrow> int \<Rightarrow> nat top" where
  "streamDrop readable hasTask ti w tb =
     (if \<not> hasTask then (Inl (Err ''invalid/missing async task''), tb)
      else jbind (deleteStreamEnd ti w) (\<lambda>e tb'.
        if eo_readable (tb_ends tb' ! e) \<noteq> readable then (Inl (Err ''invalid stream end class''), tb')
        else (Inr e, tb')) tb)"

definition streamTransfer :: "bool \<Rightarrow> int \<Rightarrow> int \<Rightarrow> int \<Rightarrow> int top" where
  "streamTransfer hasTask w srcTable destTable tb =
     (case tb_map tb Stream_End srcTable of
        None \<Rightarrow> (Inl (Err ''missing stream meta during transfer''), tb)
      | Some _ \<Rightarrow>
         if \<not> hasTask then (Inl (Err ''missing global current task globalTaskMeta''), tb)
         else jbind (removeStreamEndFromTable srcTable w) (\<lambda>e.
           jbind (jguard (\<lambda>tb. \<not> eo_readable (tb_ends tb ! e)) (Err ''writable stream ends cannot be moved'')) (\<lambda>_.
           jbind (jguard (\<lambda>tb. eo_done (tb_ends tb ! e)) (Err ''readable ends cannot be moved once writable ends are dropped'')) (\<lambda>_.
             addStreamEndToTable destTable e))) tb)"

section \<open>Every end is registered in both tables\<close>

definition in_handles :: "end_tables \<Rightarrow> int \<Rightarrow> nat \<Rightarrow> nat \<Rightarrow> bool" where
  "in_handles tb c w e \<longleftrightarrow> rep_lookup (tb_handles tb c) w = Some (JObj (End_Ref e))"

definition in_table :: "end_tables \<Rightarrow> end_kind \<Rightarrow> int \<Rightarrow> int \<Rightarrow> nat \<Rightarrow> nat jsv \<Rightarrow> bool" where
  "in_table tb k ti c h v \<longleftrightarrow> (\<exists>t. tb_map tb k ti = Some (c, t) \<and> rep_lookup t h = Some v)"

definition registered :: "end_tables \<Rightarrow> int \<Rightarrow> nat \<Rightarrow> nat \<Rightarrow> nat \<Rightarrow> bool" where
  "registered tb c w h e \<longleftrightarrow>
     (let x = tb_ends tb ! e in
      e < length (tb_ends tb) \<and> eo_waitableIdx x = Some (int w) \<and> eo_handle x = Some (int h) \<and>
      in_handles tb c w e \<and> in_table tb (eo_kind x) (eo_tableIdx x) c h (JObj e))"

definition tables_ok :: "end_tables \<Rightarrow> bool" where
  "tables_ok tb \<longleftrightarrow>
     (\<forall>c. rep_inv (tb_handles tb c)) \<and> (\<forall>k ti c t. tb_map tb k ti = Some (c, t) \<longrightarrow> rep_inv t) \<and>
     (\<forall>c w e. in_handles tb c w e \<longrightarrow> (\<exists>h. registered tb c w h e)) \<and>
     (\<forall>k ti c h v. in_table tb k ti c h v \<longrightarrow>
        (\<exists>e w. v = JObj e \<and> registered tb c w h e \<and> eo_kind (tb_ends tb ! e) = k \<and> eo_tableIdx (tb_ends tb ! e) = ti))"

definition sized :: "nat \<Rightarrow> end_tables \<Rightarrow> bool" where
  "sized n tb \<longleftrightarrow>
     (\<forall>c. length (rt_data (tb_handles tb c)) \<le> n) \<and> (\<forall>k ti c t. tb_map tb k ti = Some (c, t) \<longrightarrow> length (rt_data t) \<le> n)"

definition unregistered :: "end_tables \<Rightarrow> nat \<Rightarrow> bool" where
  "unregistered tb e \<longleftrightarrow> (\<forall>c w. \<not> in_handles tb c w e) \<and> (\<forall>k ti c h. \<not> in_table tb k ti c h (JObj e))"

text \<open>What putting an end into both tables, and taking it out of both, makes of the state.\<close>

definition placed :: "end_tables \<Rightarrow> end_kind \<Rightarrow> int \<Rightarrow> int \<Rightarrow> nat \<Rightarrow> end_tables \<Rightarrow> bool" where
  "placed tb k ti c e tb' \<longleftrightarrow> (\<exists>t hs' t' w h.
     tb_map tb k ti = Some (c, t) \<and> rep_lookup (tb_handles tb c) w = None \<and> rep_inv hs' \<and>
     rep_lookup hs' = (rep_lookup (tb_handles tb c))(w \<mapsto> JObj (End_Ref e)) \<and>
     length (rt_data hs') \<le> length (rt_data (tb_handles tb c)) + 2 \<and>
     rep_lookup t h = None \<and> rep_inv t' \<and> rep_lookup t' = (rep_lookup t)(h \<mapsto> JObj e) \<and>
     length (rt_data t') \<le> length (rt_data t) + 2 \<and>
     tb' = tb\<lparr>tb_ends := (tb_ends tb)[e := (tb_ends tb ! e)\<lparr>eo_tableIdx := ti, eo_handle := Some (int h), eo_waitableIdx := Some (int w)\<rparr>],
       tb_handles := (tb_handles tb)(c := hs'), tb_map := (tb_map tb)(k := (tb_map tb k)(ti \<mapsto> (c, t')))\<rparr>)"

lemma tables_ok_slabs:
  "tables_ok tb \<Longrightarrow> rep_inv (tb_handles tb c)" "tables_ok tb \<Longrightarrow> tb_map tb k ti = Some (c, t) \<Longrightarrow> rep_inv t"
  unfolding tables_ok_def by blast+

lemma sized_room:
  "sized n tb \<Longrightarrow> n + 2 < 2 ^ 31 \<Longrightarrow> rep_room (tb_handles tb c)"
  "sized n tb \<Longrightarrow> n + 2 < 2 ^ 31 \<Longrightarrow> tb_map tb k ti = Some (c, t) \<Longrightarrow> rep_room t"
  unfolding sized_def rep_room_def by (meson add_le_mono1 le_less_trans)+

lemma register_order_1:
  assumes "tables_ok tb" "sized n tb" "n + 2 < 2 ^ 31" "tb_map tb k ti = Some (c, t)" "e < length (tb_ends tb)"
    "eo_tableIdx (tb_ends tb ! e) = ti"
  shows "\<exists>tb'. jbind (register_handle c e) (\<lambda>_. register_table k ti e) tb = (Inr (), tb') \<and> placed tb k ti c e tb'"
proof -
  have hs: "rep_inv (tb_handles tb c)" "rep_room (tb_handles tb c)" and tt: "rep_inv t" "rep_room t"
    using tables_ok_slabs [OF assms(1)] sized_room [OF assms(2,3)] assms(4) by simp_all
  from rep_insert_ok [OF hs] obtain w hs' where w: "rep_insert (JObj (End_Ref e)) (tb_handles tb c) = (JNum (int w), hs')" "0 < w"
    "rep_lookup (tb_handles tb c) w = None" "rep_lookup hs' = (rep_lookup (tb_handles tb c))(w \<mapsto> JObj (End_Ref e))" "rep_inv hs'"
    "length (rt_data hs') \<le> length (rt_data (tb_handles tb c)) + 2" by blast
  from rep_insert_ok [OF tt] obtain h t' where h: "rep_insert (JObj e) t = (JNum (int h), t')"
    "rep_lookup t h = None" "rep_lookup t' = (rep_lookup t)(h \<mapsto> JObj e)" "rep_inv t'"
    "length (rt_data t') \<le> length (rt_data t) + 2" by blast
  let ?tb = "tb\<lparr>tb_ends := (tb_ends tb)[e := (tb_ends tb ! e)\<lparr>eo_tableIdx := ti, eo_handle := Some (int h), eo_waitableIdx := Some (int w)\<rparr>],
       tb_handles := (tb_handles tb)(c := hs'), tb_map := (tb_map tb)(k := (tb_map tb k)(ti \<mapsto> (c, t')))\<rparr>"
  have "jbind (register_handle c e) (\<lambda>_. register_table k ti e) tb = (Inr (), ?tb)"
    using w h assms(4,5,6) by (cases "tb_ends tb ! e") (simp add: jbind_def register_handle_def register_table_def upd_eo_def)
  moreover have "placed tb k ti c e ?tb" unfolding placed_def using w h assms(4) by blast
  ultimately show ?thesis by blast
qed

lemma register_order_2:
  assumes "tables_ok tb" "sized n tb" "n + 2 < 2 ^ 31" "tb_map tb k ti = Some (c, t)" "e < length (tb_ends tb)"
  shows "\<exists>tb'. jbind (register_table k ti e) (\<lambda>_. jbind (jassign (upd_eo e (\<lambda>x. x\<lparr>eo_tableIdx := ti\<rparr>))) (\<lambda>_. register_handle c e)) tb =
    (Inr (), tb') \<and> placed tb k ti c e tb'"
proof -
  have hs: "rep_inv (tb_handles tb c)" "rep_room (tb_handles tb c)" and tt: "rep_inv t" "rep_room t"
    using tables_ok_slabs [OF assms(1)] sized_room [OF assms(2,3)] assms(4) by simp_all
  from rep_insert_ok [OF hs] obtain w hs' where w: "rep_insert (JObj (End_Ref e)) (tb_handles tb c) = (JNum (int w), hs')" "0 < w"
    "rep_lookup (tb_handles tb c) w = None" "rep_lookup hs' = (rep_lookup (tb_handles tb c))(w \<mapsto> JObj (End_Ref e))" "rep_inv hs'"
    "length (rt_data hs') \<le> length (rt_data (tb_handles tb c)) + 2" by blast
  from rep_insert_ok [OF tt] obtain h t' where h: "rep_insert (JObj e) t = (JNum (int h), t')"
    "rep_lookup t h = None" "rep_lookup t' = (rep_lookup t)(h \<mapsto> JObj e)" "rep_inv t'"
    "length (rt_data t') \<le> length (rt_data t) + 2" by blast
  let ?tb = "tb\<lparr>tb_ends := (tb_ends tb)[e := (tb_ends tb ! e)\<lparr>eo_tableIdx := ti, eo_handle := Some (int h), eo_waitableIdx := Some (int w)\<rparr>],
       tb_handles := (tb_handles tb)(c := hs'), tb_map := (tb_map tb)(k := (tb_map tb k)(ti \<mapsto> (c, t')))\<rparr>"
  have "jbind (register_table k ti e) (\<lambda>_. jbind (jassign (upd_eo e (\<lambda>x. x\<lparr>eo_tableIdx := ti\<rparr>))) (\<lambda>_. register_handle c e)) tb = (Inr (), ?tb)"
    using w h assms(4,5) by (cases "tb_ends tb ! e") (simp add: jbind_def jassign_def register_handle_def register_table_def upd_eo_def)
  moreover have "placed tb k ti c e ?tb" unfolding placed_def using w h assms(4) by blast
  ultimately show ?thesis by blast
qed

lemma registered_unregistered: "registered tb c w h x \<Longrightarrow> unregistered tb e \<Longrightarrow> x \<noteq> e"
  by (auto simp: registered_def unregistered_def Let_def)

lemma placed_ok:
  assumes ok: "tables_ok tb" and un: "unregistered tb e" and e: "e < length (tb_ends tb)" "eo_kind (tb_ends tb ! e) = k"
    and pl: "placed tb k ti c e tb'"
  shows "tables_ok tb'" "\<exists>w h. registered tb' c w h e \<and> eo_tableIdx (tb_ends tb' ! e) = ti"
    "sized n tb \<Longrightarrow> sized (n + 2) tb'" "length (tb_ends tb') = length (tb_ends tb)"
    "\<And>x. unregistered tb x \<Longrightarrow> x \<noteq> e \<Longrightarrow> unregistered tb' x"
    "\<And>x. x \<noteq> e \<Longrightarrow> tb_ends tb' ! x = tb_ends tb ! x"
    "eo_kind (tb_ends tb' ! e) = k" "eo_readable (tb_ends tb' ! e) = eo_readable (tb_ends tb ! e)"
    "\<And>k' ti'. map_option fst (tb_map tb' k' ti') = map_option fst (tb_map tb k' ti')" "tb_mayLeave tb' = tb_mayLeave tb"
proof -
  from pl obtain t hs' t' w h where p: "tb_map tb k ti = Some (c, t)" "rep_lookup (tb_handles tb c) w = None" "rep_inv hs'"
     "rep_lookup hs' = (rep_lookup (tb_handles tb c))(w \<mapsto> JObj (End_Ref e))"
     "length (rt_data hs') \<le> length (rt_data (tb_handles tb c)) + 2"
     "rep_lookup t h = None" "rep_inv t'" "rep_lookup t' = (rep_lookup t)(h \<mapsto> JObj e)"
     "length (rt_data t') \<le> length (rt_data t) + 2"
    and tb': "tb' = tb\<lparr>tb_ends := (tb_ends tb)[e := (tb_ends tb ! e)\<lparr>eo_tableIdx := ti, eo_handle := Some (int h), eo_waitableIdx := Some (int w)\<rparr>],
       tb_handles := (tb_handles tb)(c := hs'), tb_map := (tb_map tb)(k := (tb_map tb k)(ti \<mapsto> (c, t')))\<rparr>"
    unfolding placed_def by blast
  have ih: "in_handles tb' c' w' x \<longleftrightarrow> in_handles tb c' w' x \<or> (c' = c \<and> w' = w \<and> x = e)" for c' w' x
    using p unfolding in_handles_def tb' by auto
  have it: "in_table tb' k' ti' c' h' v \<longleftrightarrow> in_table tb k' ti' c' h' v \<or> (k' = k \<and> ti' = ti \<and> c' = c \<and> h' = h \<and> v = JObj e)" for k' ti' c' h' v
    using p unfolding in_table_def tb' by auto
  have ee: "tb_ends tb' ! e = (tb_ends tb ! e)\<lparr>eo_tableIdx := ti, eo_handle := Some (int h), eo_waitableIdx := Some (int w)\<rparr>"
    "\<And>x. x \<noteq> e \<Longrightarrow> tb_ends tb' ! x = tb_ends tb ! x" "length (tb_ends tb') = length (tb_ends tb)"
    using e unfolding tb' by auto
  have re: "registered tb' c w h e" using ee e ih it by (simp add: registered_def Let_def)
  have ro: "registered tb' c' w' h' x" if "registered tb c' w' h' x" for c' w' h' x
    using that registered_unregistered [OF that un] ee ih it by (auto simp: registered_def Let_def)
  show "\<exists>w h. registered tb' c w h e \<and> eo_tableIdx (tb_ends tb' ! e) = ti" using re ee by auto
  show "length (tb_ends tb') = length (tb_ends tb)" by (rule ee(3))
  show "\<And>x. x \<noteq> e \<Longrightarrow> tb_ends tb' ! x = tb_ends tb ! x" by (rule ee(2))
  show "eo_kind (tb_ends tb' ! e) = k" "eo_readable (tb_ends tb' ! e) = eo_readable (tb_ends tb ! e)" using ee e by simp_all
  show "unregistered tb' x" if "unregistered tb x" "x \<noteq> e" for x using that ih it by (auto simp: unregistered_def)
  show "sized (n + 2) tb'" if sz: "sized n tb"
  proof -
    have b: "length (rt_data (tb_handles tb c')) \<le> n + 2" for c' using sz by (meson sized_def le_add1 le_trans)
    have "length (rt_data s) \<le> n + 2" if "tb_map tb k' ti' = Some (c', s)" for k' ti' c' s
      using that sz by (meson sized_def le_add1 le_trans)
    moreover have "length (rt_data hs') \<le> n + 2" "length (rt_data t') \<le> n + 2"
      using p(1,5,9) sz unfolding sized_def by (meson add_le_mono1 le_trans)+
    ultimately show ?thesis using b unfolding sized_def tb' by auto
  qed
  show "map_option fst (tb_map tb' k' ti') = map_option fst (tb_map tb k' ti')" for k' ti' using p(1) unfolding tb' by auto
  show "tb_mayLeave tb' = tb_mayLeave tb" unfolding tb' by simp
  show "tables_ok tb'" unfolding tables_ok_def
  proof (intro conjI allI impI)
    show "rep_inv (tb_handles tb' c')" for c' using p(3) tables_ok_slabs(1) [OF ok] unfolding tb' by simp
    show "rep_inv s" if "tb_map tb' k' ti' = Some (c', s)" for k' ti' c' s
      using that p(7) tables_ok_slabs(2) [OF ok] unfolding tb' by (auto split: if_splits)
    show "\<exists>h. registered tb' c' w' h x" if i: "in_handles tb' c' w' x" for c' w' x
    proof (cases "in_handles tb c' w' x")
      case True
      then show ?thesis using ok ro unfolding tables_ok_def by blast
    next
      case False
      then show ?thesis using i ih re by blast
    qed
    show "\<exists>x w. v = JObj x \<and> registered tb' c' w h' x \<and> eo_kind (tb_ends tb' ! x) = k' \<and> eo_tableIdx (tb_ends tb' ! x) = ti'"
      if i: "in_table tb' k' ti' c' h' v" for k' ti' c' h' v
    proof (cases "in_table tb k' ti' c' h' v")
      case True
      then obtain x w' where x: "v = JObj x" "registered tb c' w' h' x" "eo_kind (tb_ends tb ! x) = k'" "eo_tableIdx (tb_ends tb ! x) = ti'"
        using ok unfolding tables_ok_def by blast
      with ro ee(2) registered_unregistered [OF x(2) un] show ?thesis by metis
    next
      case False
      then have "k' = k" "ti' = ti" "c' = c" "h' = h" "v = JObj e" using i it by blast+
      then show ?thesis using re ee e by auto
    qed
  qed
qed

text \<open>Removing a registered end from both tables.\<close>

lemma remove_both_ok:
  assumes ok: "tables_ok tb" and re: "registered tb c w h e"
  shows "\<exists>tb'. remove_both (eo_kind (tb_ends tb ! e)) c (eo_tableIdx (tb_ends tb ! e)) e (int w) tb = (Inr (), tb') \<and>
    tables_ok tb' \<and> unregistered tb' e \<and> tb_ends tb' = tb_ends tb \<and> (sized n tb \<longrightarrow> sized n tb') \<and>
    (\<forall>k ti. map_option fst (tb_map tb' k ti) = map_option fst (tb_map tb k ti)) \<and> tb_mayLeave tb' = tb_mayLeave tb \<and>
    (\<forall>c' w' h' x. registered tb c' w' h' x \<longrightarrow> x \<noteq> e \<longrightarrow> registered tb' c' w' h' x)"
proof -
  let ?x = "tb_ends tb ! e"
  let ?k = "eo_kind ?x" and ?ti = "eo_tableIdx ?x"
  from re have r: "e < length (tb_ends tb)" "eo_waitableIdx ?x = Some (int w)" "eo_handle ?x = Some (int h)"
    "rep_lookup (tb_handles tb c) w = Some (JObj (End_Ref e))" by (simp_all add: registered_def Let_def in_handles_def)
  from re obtain t where t: "tb_map tb ?k ?ti = Some (c, t)" "rep_lookup t h = Some (JObj e)"
    by (auto simp: registered_def Let_def in_table_def)
  from rep_remove_ok [OF tables_ok_slabs(1) [OF ok] r(4)] obtain hs' where hs: "rep_remove (int w) (tb_handles tb c) = Inr (JObj (End_Ref e), hs')"
    "rep_lookup hs' = (rep_lookup (tb_handles tb c))(w := None)" "rep_inv hs'" "length (rt_data hs') = length (rt_data (tb_handles tb c))" .
  from rep_remove_ok [OF tables_ok_slabs(2) [OF ok t(1)] t(2)] obtain t' where t': "rep_remove (int h) t = Inr (JObj e, t')"
    "rep_lookup t' = (rep_lookup t)(h := None)" "rep_inv t'" "length (rt_data t') = length (rt_data t)" .
  define tb' where "tb' = tb\<lparr>tb_handles := (tb_handles tb)(c := hs'), tb_map := (tb_map tb)(?k := (tb_map tb ?k)(?ti \<mapsto> (c, t')))\<rparr>"
  have run: "remove_both ?k c ?ti e (int w) tb = (Inr (), tb')"
    using hs t t' r by (simp add: remove_both_def tb'_def)
  have ih: "in_handles tb' c' w' x \<longleftrightarrow> in_handles tb c' w' x \<and> \<not> (c' = c \<and> w' = w)" for c' w' x
    using hs(2) unfolding in_handles_def tb'_def by auto
  have it: "in_table tb' k' ti' c' h' v \<longleftrightarrow> in_table tb k' ti' c' h' v \<and> \<not> (k' = ?k \<and> ti' = ?ti \<and> h' = h)" for k' ti' c' h' v
    using t t'(2) unfolding in_table_def tb'_def by auto
  have ends: "tb_ends tb' = tb_ends tb" by (simp add: tb'_def)
  have at_w: "x = e" if "registered tb c w h' x" for x h'
    using that r(4) by (auto simp: registered_def Let_def in_handles_def)
  have at_h: "x = e" if "registered tb c' w' h x" "eo_kind (tb_ends tb ! x) = ?k" "eo_tableIdx (tb_ends tb ! x) = ?ti" for c' w' x
    using that t by (auto simp: registered_def Let_def in_table_def)
  have ro: "registered tb' c' w' h' x" if "registered tb c' w' h' x" "x \<noteq> e" for c' w' h' x
  proof -
    from that at_w have "\<not> (c' = c \<and> w' = w)" by blast
    moreover from that at_h have "\<not> (eo_kind (tb_ends tb ! x) = ?k \<and> eo_tableIdx (tb_ends tb ! x) = ?ti \<and> h' = h)" by blast
    ultimately show ?thesis using that(1) ends ih it by (simp add: registered_def Let_def)
  qed
  have same: "c' = c \<and> w' = w \<and> h' = h" if "registered tb c' w' h' e" for c' w' h'
    using that r t by (auto simp: registered_def Let_def in_table_def)
  have un: "unregistered tb' e" unfolding unregistered_def
  proof (intro conjI allI notI)
    fix c' w' assume i: "in_handles tb' c' w' e"
    then obtain h' where "registered tb c' w' h' e" using ih ok unfolding tables_ok_def by blast
    with same have "c' = c" "w' = w" by blast+
    with i ih show False by blast
  next
    fix k' ti' c' h' assume i: "in_table tb' k' ti' c' h' (JObj e)"
    then obtain x w' where "JObj e = JObj x" "registered tb c' w' h' x" "eo_kind (tb_ends tb ! x) = k'" "eo_tableIdx (tb_ends tb ! x) = ti'"
      using it ok unfolding tables_ok_def by blast
    with same have "h' = h" "k' = ?k" "ti' = ?ti" by auto
    with i it show False by blast
  qed
  have "tables_ok tb'" unfolding tables_ok_def
  proof (intro conjI allI impI)
    show "rep_inv (tb_handles tb' c')" for c' using hs(3) tables_ok_slabs(1) [OF ok] unfolding tb'_def by simp
    show "rep_inv s" if "tb_map tb' k' ti' = Some (c', s)" for k' ti' c' s
      using that t'(3) tables_ok_slabs(2) [OF ok] unfolding tb'_def by (auto split: if_splits)
    show "\<exists>h. registered tb' c' w' h x" if i: "in_handles tb' c' w' x" for c' w' x
    proof -
      have "x \<noteq> e" using i un by (auto simp: unregistered_def)
      moreover have "in_handles tb c' w' x" using i ih by blast
      then obtain h' where "registered tb c' w' h' x" using ok unfolding tables_ok_def by blast
      ultimately show ?thesis using ro by blast
    qed
    show "\<exists>x w. v = JObj x \<and> registered tb' c' w h' x \<and> eo_kind (tb_ends tb' ! x) = k' \<and> eo_tableIdx (tb_ends tb' ! x) = ti'"
      if i: "in_table tb' k' ti' c' h' v" for k' ti' c' h' v
    proof -
      obtain x w' where x: "v = JObj x" "registered tb c' w' h' x" "eo_kind (tb_ends tb ! x) = k'" "eo_tableIdx (tb_ends tb ! x) = ti'"
        using i it ok unfolding tables_ok_def by blast
      then have "x \<noteq> e" using i un by (auto simp: unregistered_def)
      with x ro ends show ?thesis by metis
    qed
  qed
  moreover have "sized n tb'" if sz: "sized n tb"
  proof -
    have "length (rt_data t') \<le> n" "length (rt_data hs') \<le> n"
      using sz t(1) hs(4) t'(4) unfolding sized_def by auto
    then show ?thesis using sz unfolding sized_def tb'_def by auto
  qed
  moreover have "\<forall>k ti. map_option fst (tb_map tb' k ti) = map_option fst (tb_map tb k ti)" using t(1) by (auto simp: tb'_def)
  moreover have "tb_mayLeave tb' = tb_mayLeave tb" by (simp add: tb'_def)
  ultimately show ?thesis using run un ends ro by blast
qed

lemma new_end_ok:
  assumes "tables_ok tb" "new_end_obj k rd ti tb = (e, tb')"
  shows "tables_ok tb'" "unregistered tb' e" "e < length (tb_ends tb')" "eo_kind (tb_ends tb' ! e) = k"
    "eo_tableIdx (tb_ends tb' ! e) = ti" "eo_readable (tb_ends tb' ! e) = rd" "tb_map tb' = tb_map tb" "sized n tb' = sized n tb"
    "e = length (tb_ends tb)" "length (tb_ends tb') = Suc (length (tb_ends tb))"
    "\<And>x. x < length (tb_ends tb) \<Longrightarrow> tb_ends tb' ! x = tb_ends tb ! x"
    "\<And>x. unregistered tb' x = unregistered tb x"
proof -
  have e: "e = length (tb_ends tb)" and tb': "tb' = tb\<lparr>tb_ends := tb_ends tb @ [\<lparr>eo_kind = k, eo_readable = rd, eo_tableIdx = ti,
        eo_handle = None, eo_waitableIdx = None, eo_done = False\<rparr>]\<rparr>" using assms(2) by (simp_all add: new_end_obj_def)
  have ih: "in_handles tb' = in_handles tb" "in_table tb' = in_table tb"
    by (intro ext; simp add: in_handles_def in_table_def tb')+
  have ro: "registered tb' c w h x" if "registered tb c w h x" for c w h x
    using that unfolding registered_def ih by (simp add: Let_def tb' nth_append)
  have lt: "x < length (tb_ends tb)" if "registered tb c w h x" for c w h x using that by (simp add: registered_def Let_def)
  show "tables_ok tb'" unfolding tables_ok_def
  proof (intro conjI allI impI)
    show "rep_inv (tb_handles tb' c)" for c using tables_ok_slabs(1) [OF assms(1)] by (simp add: tb')
    show "rep_inv t" if "tb_map tb' k ti = Some (c, t)" for k ti c t using that tables_ok_slabs(2) [OF assms(1)] by (simp add: tb')
    show "\<exists>h. registered tb' c w h x" if "in_handles tb' c w x" for c w x
      using that ro assms(1) unfolding ih tables_ok_def by blast
    show "\<exists>x w. v = JObj x \<and> registered tb' c w h x \<and> eo_kind (tb_ends tb' ! x) = k' \<and> eo_tableIdx (tb_ends tb' ! x) = ti'"
      if i: "in_table tb' k' ti' c h v" for k' ti' c h v
    proof -
      obtain x w where x: "v = JObj x" "registered tb c w h x" "eo_kind (tb_ends tb ! x) = k'" "eo_tableIdx (tb_ends tb ! x) = ti'"
        using i assms(1) unfolding ih tables_ok_def by blast
      then have "tb_ends tb' ! x = tb_ends tb ! x" using lt by (simp add: tb' nth_append)
      with x ro show ?thesis by metis
    qed
  qed
  show "unregistered tb' e" unfolding unregistered_def ih
  proof (intro conjI allI notI)
    show False if "in_handles tb c w e" for c w
      using that lt assms(1) e unfolding tables_ok_def by blast
    show False if "in_table tb k ti c h (JObj e)" for k ti c h
      using that lt assms(1) e unfolding tables_ok_def by blast
  qed
  show "unregistered tb' x = unregistered tb x" for x unfolding unregistered_def ih ..
qed (use assms(2) in \<open>auto simp: new_end_obj_def sized_def nth_append\<close>)

section \<open>The operations keep both registrations\<close>

lemma two_steps: "jbind m (\<lambda>_. n) s = (Inr u, s') \<Longrightarrow> jbind m (\<lambda>_. jbind n f) s = f u s'"
  by (auto simp: jbind_def split: prod.splits sum.splits)

lemma create_ends_ok:
  assumes ok: "tables_ok tb" "sized n tb" "n + 4 < 2 ^ 31" and t: "tb_map tb k ti = Some (c, t)"
  shows "\<exists>w r tb'. create_ends k c (Some ti) tb = (Inr (w, r), tb') \<and> tables_ok tb' \<and> sized (n + 4) tb' \<and>
    (\<exists>we re hw hr nw nr. w = int nw \<and> r = int nr \<and> registered tb' c nw hw we \<and> registered tb' c nr hr re \<and>
      \<not> eo_readable (tb_ends tb' ! we) \<and> eo_readable (tb_ends tb' ! re) \<and>
      eo_tableIdx (tb_ends tb' ! we) = ti \<and> eo_tableIdx (tb_ends tb' ! re) = ti)"
proof -
  obtain re tb1 where n1: "new_end_obj k True ti tb = (re, tb1)" by fastforce
  obtain we tb2 where n2: "new_end_obj k False ti tb1 = (we, tb2)" by fastforce
  note k1 = new_end_ok [OF ok(1) n1] note k2 = new_end_ok [OF k1(1) n2]
  have ne: "re \<noteq> we" "re < length (tb_ends tb2)" using k1(3) k2(9,10) by simp_all
  have un: "unregistered tb2 re" "unregistered tb2 we" using k1(2) k2(2,12) by simp_all
  have rek: "eo_kind (tb_ends tb2 ! re) = k" "eo_tableIdx (tb_ends tb2 ! re) = ti" "eo_readable (tb_ends tb2 ! re)"
    using k2(11) [of re] k1(3-6) by simp_all
  have m2: "tb_map tb2 k ti = Some (c, t)" using k1(7) k2(7) t by simp
  have s2: "sized n tb2" using ok(2) k1(8) k2(8) by simp
  from register_order_1 [OF k2(1) s2 _ m2 k2(3,5)] ok(3) obtain tb3 where
    r3: "jbind (register_handle c we) (\<lambda>_. register_table k ti we) tb2 = (Inr (), tb3)" and p3: "placed tb2 k ti c we tb3" by auto
  note q3 = placed_ok [OF k2(1) un(2) k2(3,4) p3]
  from q3(9) [of k ti] m2 obtain t3 where m3: "tb_map tb3 k ti = Some (c, t3)" by auto
  have e3: "re < length (tb_ends tb3)" "eo_kind (tb_ends tb3 ! re) = k" "eo_tableIdx (tb_ends tb3 ! re) = ti" "eo_readable (tb_ends tb3 ! re)"
    using q3(4) q3(6) [OF ne(1)] ne rek by simp_all
  have un3: "unregistered tb3 re" by (rule q3(5) [OF un(1) ne(1)])
  have "n + 2 + 2 < 2 ^ 31" using ok(3) by simp
  from register_order_1 [OF q3(1) q3(3) [OF s2] this m3 e3(1,3)] obtain tb4 where
    r4: "jbind (register_handle c re) (\<lambda>_. register_table k ti re) tb3 = (Inr (), tb4)" and p4: "placed tb3 k ti c re tb4" by auto
  note q4 = placed_ok [OF q3(1) un3 e3(1,2) p4]
  obtain nw hw where w: "registered tb3 c nw hw we" "eo_tableIdx (tb_ends tb3 ! we) = ti" using q3(2) by blast
  obtain nr hr where r: "registered tb4 c nr hr re" "eo_tableIdx (tb_ends tb4 ! re) = ti" using q4(2) by blast
  have we4: "tb_ends tb4 ! we = tb_ends tb3 ! we" using q4(6) ne(1) by metis
  have w4: "registered tb4 c nw hw we"
  proof -
    have "in_handles tb3 c nw we" "in_table tb3 (eo_kind (tb_ends tb3 ! we)) (eo_tableIdx (tb_ends tb3 ! we)) c hw (JObj we)"
      using w(1) by (simp_all add: registered_def Let_def)
    moreover from p4 have "in_handles tb3 c nw we \<Longrightarrow> in_handles tb4 c nw we"
      unfolding placed_def in_handles_def by (auto split: if_splits)
    moreover from p4 have "in_table tb3 k' ti' c hw (JObj we) \<Longrightarrow> in_table tb4 k' ti' c hw (JObj we)" for k' ti'
      unfolding placed_def in_table_def by (auto split: if_splits)
    ultimately show ?thesis using w(1) we4 q4(4) by (simp add: registered_def Let_def)
  qed
  have run: "create_ends k c (Some ti) tb = (Inr (idx_of we tb4, idx_of re tb4), tb4)"
    using t n1 n2 r3 r4 by (simp add: create_ends_def two_steps [OF r3] two_steps [OF r4])
  have "idx_of we tb4 = int nw" "idx_of re tb4 = int nr"
    using w4 r(1) by (simp_all add: idx_of_def registered_def Let_def)
  then have "create_ends k c (Some ti) tb = (Inr (int nw, int nr), tb4)" using run by simp
  moreover have "\<not> eo_readable (tb_ends tb4 ! we)" "eo_readable (tb_ends tb4 ! re)" "eo_tableIdx (tb_ends tb4 ! we) = ti"
    using we4 q3(8) k2(6) q4(8) e3(4) w(2) by simp_all
  moreover have "sized (n + 4) tb4" using q4(3) [OF q3(3) [OF s2]] by (simp add: numeral_eq_Suc)
  ultimately show ?thesis using q4(1) w4 r by blast
qed

lemma sized_mono: "sized n tb \<Longrightarrow> n \<le> m \<Longrightarrow> sized m tb"
  unfolding sized_def by (meson le_trans)

lemma create_readable_ok:
  assumes ok: "tables_ok tb" "sized n tb" "n + 4 < 2 ^ 31"
  shows "tables_ok (snd (createReadableStreamEnd c ti tb)) \<and> sized (n + 4) (snd (createReadableStreamEnd c ti tb))"
proof (cases "tb_map tb Stream_End ti")
  case None
  then show ?thesis using ok sized_mono [OF ok(2), of "n + 4"] by (simp add: createReadableStreamEnd_def)
next
  case (Some ct)
  obtain c' t where ct: "ct = (c', t)" by fastforce
  show ?thesis
  proof (cases "c' = c")
    case False
    then show ?thesis using ok sized_mono [OF ok(2), of "n + 4"] Some ct by (simp add: createReadableStreamEnd_def)
  next
    case True
    obtain e tb1 where n1: "new_end_obj Stream_End True ti tb = (e, tb1)" by fastforce
    note k1 = new_end_ok [OF ok(1) n1]
    have m1: "tb_map tb1 Stream_End ti = Some (c, t)" using k1(7) Some ct True by simp
    have s1: "sized n tb1" using ok(2) k1(8) by simp
    from register_order_1 [OF k1(1) s1 _ m1 k1(3,5)] ok(3) obtain tb2 where
      r: "jbind (register_handle c e) (\<lambda>_. register_table Stream_End ti e) tb1 = (Inr (), tb2)" and p: "placed tb1 Stream_End ti c e tb2" by auto
    note q = placed_ok [OF k1(1,2,3,4) p]
    have "snd (createReadableStreamEnd c ti tb) = tb2"
      using Some ct True n1 by (simp add: createReadableStreamEnd_def two_steps [OF r])
    then show ?thesis using q(1) sized_mono [OF q(3) [OF s1], of "n + 4"] by simp
  qed
qed

lemma registered_at:
  assumes "tables_ok tb" "rep_get w (tb_handles tb c) = Inr v" "as_end k tb v = Some e" "0 \<le> w" "w < 2 ^ 30"
  obtains h where "registered tb c (nat w) h e" "eo_kind (tb_ends tb ! e) = k"
proof -
  from assms(3) have v: "v = JObj (End_Ref e)" "eo_kind (tb_ends tb ! e) = k"
    by (auto simp: as_end_def split: jsv.splits handle_obj.splits if_splits)
  with rep_get_obj [OF tables_ok_slabs(1) [OF assms(1)]] assms(2,4,5) have "in_handles tb c (nat w) e" by (simp add: in_handles_def)
  with assms(1) obtain h where "registered tb c (nat w) h e" unfolding tables_ok_def by blast
  with v(2) that show ?thesis by blast
qed

text \<open>A deletion takes the end out of both tables, or fails and changes nothing.\<close>

lemma deleteStreamEnd_ok:
  assumes ok: "tables_ok tb" "sized n tb" and w: "0 \<le> w" "w < 2 ^ 30" and d: "deleteStreamEnd ti w tb = (r, tb')"
  shows "tables_ok tb' \<and> sized n tb' \<and> tb_ends tb' = tb_ends tb \<and>
    (case r of Inl _ \<Rightarrow> tb' = tb
     | Inr e \<Rightarrow> unregistered tb' e \<and> (\<forall>c w' h x. registered tb c w' h x \<longrightarrow> x \<noteq> e \<longrightarrow> registered tb' c w' h x))"
proof -
  have "(\<exists>err. deleteStreamEnd ti w tb = (Inl err, tb)) \<or>
    (\<exists>c t v e. tb_map tb Stream_End ti = Some (c, t) \<and> rep_get w (tb_handles tb c) = Inr v \<and> as_end Stream_End tb v = Some e \<and>
      eo_tableIdx (tb_ends tb ! e) = ti \<and>
      deleteStreamEnd ti w tb = jbind (remove_both Stream_End c ti e (idx_of e tb)) (\<lambda>_. jret e) tb)"
  proof (cases "tb_map tb Stream_End ti")
    case None
    then show ?thesis by (simp add: deleteStreamEnd_def)
  next
    case (Some ct)
    obtain c t where ct: "ct = (c, t)" by fastforce
    show ?thesis
    proof (cases "rep_get w (tb_handles tb c)")
      case (Inl e)
      then show ?thesis using Some ct by (simp add: deleteStreamEnd_def)
    next
      case (Inr v)
      then show ?thesis using Some ct
        by (cases "as_end Stream_End tb v") (auto simp: deleteStreamEnd_def as_end_def split: jsv.splits handle_obj.splits)
    qed
  qed
  then show ?thesis
  proof
    assume "\<exists>err. deleteStreamEnd ti w tb = (Inl err, tb)"
    then show ?thesis using ok d by auto
  next
    assume "\<exists>c t v e. tb_map tb Stream_End ti = Some (c, t) \<and> rep_get w (tb_handles tb c) = Inr v \<and> as_end Stream_End tb v = Some e \<and>
      eo_tableIdx (tb_ends tb ! e) = ti \<and>
      deleteStreamEnd ti w tb = jbind (remove_both Stream_End c ti e (idx_of e tb)) (\<lambda>_. jret e) tb"
    then obtain c t v e where k: "rep_get w (tb_handles tb c) = Inr v" "as_end Stream_End tb v = Some e"
      "eo_tableIdx (tb_ends tb ! e) = ti" "deleteStreamEnd ti w tb = jbind (remove_both Stream_End c ti e (idx_of e tb)) (\<lambda>_. jret e) tb"
      by blast
    from registered_at [OF ok(1) k(1,2) w] obtain h where g: "registered tb c (nat w) h e" "eo_kind (tb_ends tb ! e) = Stream_End" .
    then have i: "idx_of e tb = int (nat w)" by (simp add: idx_of_def registered_def Let_def)
    from remove_both_ok [OF ok(1) g(1), of n] obtain tb1 where
      m: "remove_both Stream_End c ti e (idx_of e tb) tb = (Inr (), tb1)" "tables_ok tb1" "unregistered tb1 e" "tb_ends tb1 = tb_ends tb"
      "sized n tb \<longrightarrow> sized n tb1" "\<forall>c' w' h' x. registered tb c' w' h' x \<longrightarrow> x \<noteq> e \<longrightarrow> registered tb1 c' w' h' x"
      unfolding g(2) k(3) i by blast
    have "r = Inr e" "tb' = tb1" using d k(4) m(1) by (simp_all add: jbind_def jret_def)
    with m ok(2) show ?thesis by simp
  qed
qed

text \<open>The table an end is removed from must be its own: the code does not check it.\<close>

definition own_table :: "end_kind \<Rightarrow> int \<Rightarrow> int \<Rightarrow> end_tables \<Rightarrow> bool" where
  "own_table k ti w tb \<longleftrightarrow>
     (case tb_map tb k ti of None \<Rightarrow> True
      | Some (c, _) \<Rightarrow>
         (case rep_lookup (tb_handles tb c) (nat w) of
            Some (JObj (End_Ref e)) \<Rightarrow> eo_kind (tb_ends tb ! e) = k \<longrightarrow> eo_tableIdx (tb_ends tb ! e) = ti
          | _ \<Rightarrow> True))"

lemma remove_end_ok:
  assumes ok: "tables_ok tb" "sized n tb" and w: "0 \<le> w" "w < 2 ^ 30" and own: "own_table k ti w tb"
    and d: "remove_end_from_table k ti w tb = (r, tb')"
  shows "tables_ok tb' \<and> sized n tb' \<and> tb_ends tb' = tb_ends tb \<and>
    (case r of Inl _ \<Rightarrow> tb' = tb
     | Inr e \<Rightarrow> unregistered tb' e \<and> e < length (tb_ends tb) \<and> eo_kind (tb_ends tb ! e) = k \<and>
         (\<forall>c w' h x. registered tb c w' h x \<longrightarrow> x \<noteq> e \<longrightarrow> registered tb' c w' h x))"
proof -
  have "(\<exists>err. remove_end_from_table k ti w tb = (Inl err, tb)) \<or>
    (\<exists>c t v e. tb_map tb k ti = Some (c, t) \<and> rep_get w (tb_handles tb c) = Inr v \<and> as_end k tb v = Some e \<and>
      remove_end_from_table k ti w tb = jbind (remove_both k c ti e w) (\<lambda>_. jret e) tb)"
  proof (cases "tb_map tb k ti")
    case None
    then show ?thesis by (simp add: remove_end_from_table_def)
  next
    case (Some ct)
    obtain c t where ct: "ct = (c, t)" by fastforce
    show ?thesis
    proof (cases "rep_get w (tb_handles tb c)")
      case (Inl e)
      then show ?thesis using Some ct by (simp add: remove_end_from_table_def)
    next
      case (Inr v)
      then show ?thesis using Some ct
        by (cases "as_end k tb v") (auto simp: remove_end_from_table_def as_end_def split: jsv.splits handle_obj.splits)
    qed
  qed
  then show ?thesis
  proof
    assume "\<exists>err. remove_end_from_table k ti w tb = (Inl err, tb)"
    then show ?thesis using ok d by auto
  next
    assume "\<exists>c t v e. tb_map tb k ti = Some (c, t) \<and> rep_get w (tb_handles tb c) = Inr v \<and> as_end k tb v = Some e \<and>
      remove_end_from_table k ti w tb = jbind (remove_both k c ti e w) (\<lambda>_. jret e) tb"
    then obtain c t v e where k: "tb_map tb k ti = Some (c, t)" "rep_get w (tb_handles tb c) = Inr v" "as_end k tb v = Some e"
      "remove_end_from_table k ti w tb = jbind (remove_both k c ti e w) (\<lambda>_. jret e) tb"
      by blast
    from registered_at [OF ok(1) k(2,3) w] obtain h where g: "registered tb c (nat w) h e" "eo_kind (tb_ends tb ! e) = k" .
    then have "rep_lookup (tb_handles tb c) (nat w) = Some (JObj (End_Ref e))" by (simp add: registered_def Let_def in_handles_def)
    then have ti: "eo_tableIdx (tb_ends tb ! e) = ti" using own k(1) g(2) by (simp add: own_table_def)
    have i: "int (nat w) = w" using w by simp
    from remove_both_ok [OF ok(1) g(1), of n] obtain tb1 where
      m: "remove_both k c ti e w tb = (Inr (), tb1)" "tables_ok tb1" "unregistered tb1 e" "tb_ends tb1 = tb_ends tb"
      "sized n tb \<longrightarrow> sized n tb1" "\<forall>c' w' h' x. registered tb c' w' h' x \<longrightarrow> x \<noteq> e \<longrightarrow> registered tb1 c' w' h' x"
      unfolding g(2) ti i by blast
    have "r = Inr e" "tb' = tb1" using d k(4) m(1) by (simp_all add: jbind_def jret_def)
    moreover have "e < length (tb_ends tb)" using g(1) by (simp add: registered_def Let_def)
    ultimately show ?thesis using m ok(2) g(2) by simp
  qed
qed

lemma streamDrop_ok:
  assumes "tables_ok tb" "sized n tb" "0 \<le> w" "w < 2 ^ 30"
  shows "tables_ok (snd (streamDrop rd task ti w tb)) \<and> sized n (snd (streamDrop rd task ti w tb))"
proof -
  obtain r tb' where d: "deleteStreamEnd ti w tb = (r, tb')" by fastforce
  from deleteStreamEnd_ok [OF assms d] have "tables_ok tb' \<and> sized n tb'" by blast
  with d assms(1,2) show ?thesis by (cases r) (auto simp: streamDrop_def jbind_def)
qed

lemma addStreamEnd_ok:
  assumes ok: "tables_ok tb" "sized n tb" "n + 4 < 2 ^ 31" and e: "unregistered tb e" "e < length (tb_ends tb)" "eo_kind (tb_ends tb ! e) = Stream_End"
    and r: "addStreamEndToTable ti e tb = (r, tb')"
  shows "tables_ok tb' \<and> sized (n + 4) tb' \<and>
    (\<forall>w. r = Inr w \<longrightarrow> (\<exists>c h. registered tb' c (nat w) h e \<and> w = int (nat w) \<and> eo_tableIdx (tb_ends tb' ! e) = ti))"
proof (cases "tb_map tb Stream_End ti")
  case None
  then show ?thesis using ok r sized_mono [OF ok(2), of "n + 4"] by (auto simp: addStreamEndToTable_def)
next
  case (Some ct)
  obtain c t where ct: "ct = (c, t)" by fastforce
  have n: "n + 2 < 2 ^ 31" using ok(3) by simp
  from register_order_2 [OF ok(1,2) n, of Stream_End ti c t e] Some ct e(2) obtain tb1 where
    s: "jbind (register_table Stream_End ti e) (\<lambda>_. jbind (jassign (upd_eo e (\<lambda>x. x\<lparr>eo_tableIdx := ti\<rparr>))) (\<lambda>_. register_handle c e)) tb = (Inr (), tb1)"
    and p: "placed tb Stream_End ti c e tb1" by auto
  note q = placed_ok [OF ok(1) e(1,2,3) p]
  from q(2) obtain w h where g: "registered tb1 c w h e" "eo_tableIdx (tb_ends tb1 ! e) = ti" by blast
  have "addStreamEndToTable ti e tb = (Inr (idx_of e tb1), tb1)"
    using Some ct s by (auto simp: addStreamEndToTable_def jbind_def jassign_def split: prod.splits sum.splits)
  moreover have "idx_of e tb1 = int w" using g(1) by (simp add: idx_of_def registered_def Let_def)
  ultimately show ?thesis using r q(1) sized_mono [OF q(3) [OF ok(2)], of "n + 4"] g by auto
qed

lemma streamTransfer_ok:
  assumes ok: "tables_ok tb" "sized n tb" "n + 4 < 2 ^ 31" and w: "0 \<le> w" "w < 2 ^ 30" and own: "own_table Stream_End src w tb"
    and r: "streamTransfer task w src dst tb = (r, tb')"
  shows "tables_ok tb' \<and> sized (n + 4) tb' \<and>
    (\<forall>w'. r = Inr w' \<longrightarrow> (\<exists>e c h. registered tb' c (nat w') h e \<and> w' = int (nat w') \<and> eo_tableIdx (tb_ends tb' ! e) = dst))"
proof -
  obtain r1 tb1 where d: "remove_end_from_table Stream_End src w tb = (r1, tb1)" by fastforce
  note k = remove_end_ok [OF ok(1,2) w own d]
  have s1: "sized (n + 4) tb1" using k sized_mono [of n tb1 "n + 4"] by simp
  have s0: "sized (n + 4) tb" by (rule sized_mono [OF ok(2)]) simp
  show ?thesis
  proof (cases "\<exists>e. r1 = Inr e \<and> task \<and> tb_map tb Stream_End src \<noteq> None \<and> eo_readable (tb_ends tb1 ! e) \<and> \<not> eo_done (tb_ends tb1 ! e)")
    case False
    then have "(\<exists>err. r = Inl err) \<and> (tb' = tb1 \<or> tb' = tb)"
      using r d by (cases r1) (auto simp: streamTransfer_def removeStreamEndFromTable_def jbind_def jguard_def split: option.splits if_splits)
    then show ?thesis using k ok(1) s1 s0 by auto
  next
    case True
    then obtain e where e: "r1 = Inr e" "task" "tb_map tb Stream_End src \<noteq> None" "eo_readable (tb_ends tb1 ! e)" "\<not> eo_done (tb_ends tb1 ! e)" by blast
    then have a: "addStreamEndToTable dst e tb1 = (r, tb')"
      using r d by (auto simp: streamTransfer_def removeStreamEndFromTable_def jbind_def jguard_def)
    have u: "unregistered tb1 e" "e < length (tb_ends tb1)" "eo_kind (tb_ends tb1 ! e) = Stream_End" "tables_ok tb1" "sized n tb1"
      using k e(1) by auto
    from addStreamEnd_ok [OF u(4,5) ok(3) u(1-3) a] show ?thesis by blast
  qed
qed

section \<open>Properties\<close>

datatype table_command =
    Create end_kind int "int option"
  | Create_Readable int int
  | Drop_Stream bool int int
  | Remove_Future int int
  | Transfer int int int
  | Add_Other int
  | Mark_Done nat

primrec table_step :: "table_command \<Rightarrow> end_tables \<Rightarrow> end_tables" where
  "table_step (Create k c ti) tb = snd (create_ends k c ti tb)"
| "table_step (Create_Readable c ti) tb = snd (createReadableStreamEnd c ti tb)"
| "table_step (Drop_Stream rd ti w) tb = snd (streamDrop rd True ti w tb)"
| "table_step (Remove_Future ti w) tb = snd (removeFutureEndFromTable ti w tb)"
| "table_step (Transfer w src dst) tb = snd (streamTransfer True w src dst tb)"
| "table_step (Add_Other c) tb = tb\<lparr>tb_handles := (tb_handles tb)(c := snd (rep_insert (JObj Other_Obj) (tb_handles tb c)))\<rparr>"
| "table_step (Mark_Done e) tb = upd_eo e (\<lambda>x. x\<lparr>eo_done := True\<rparr>) tb"

text \<open>Indices are those of a table of fewer than \<open>2 ^ 30\<close> slots, and a removal names the end's own table.\<close>

primrec legal_command :: "end_tables \<Rightarrow> table_command \<Rightarrow> bool" where
  "legal_command tb (Create k c ti) = True"
| "legal_command tb (Create_Readable c ti) = True"
| "legal_command tb (Drop_Stream rd ti w) = (0 \<le> w \<and> w < 2 ^ 30)"
| "legal_command tb (Remove_Future ti w) = (0 \<le> w \<and> w < 2 ^ 30 \<and> own_table Future_End ti w tb)"
| "legal_command tb (Transfer w src dst) = (0 \<le> w \<and> w < 2 ^ 30 \<and> own_table Stream_End src w tb)"
| "legal_command tb (Add_Other c) = True"
| "legal_command tb (Mark_Done e) = True"

primrec legal_commands :: "table_command list \<Rightarrow> end_tables \<Rightarrow> bool" where
  "legal_commands [] tb = True"
| "legal_commands (c # cs) tb = (legal_command tb c \<and> legal_commands cs (table_step c tb))"

definition empty_tables :: "(end_kind \<Rightarrow> int \<rightharpoonup> int) \<Rightarrow> end_tables" where
  "empty_tables m = \<lparr>tb_ends = [], tb_handles = (\<lambda>_. rep_new), tb_map = (\<lambda>k ti. map_option (\<lambda>c. (c, rep_new)) (m k ti)),
     tb_mayLeave = (\<lambda>_. True)\<rparr>"

lemma tables_ok_cong_ends:
  assumes "tables_ok tb" "\<And>x. eo_kind (es ! x) = eo_kind (tb_ends tb ! x) \<and> eo_tableIdx (es ! x) = eo_tableIdx (tb_ends tb ! x) \<and>
      eo_handle (es ! x) = eo_handle (tb_ends tb ! x) \<and> eo_waitableIdx (es ! x) = eo_waitableIdx (tb_ends tb ! x)"
    "length es = length (tb_ends tb)"
  shows "tables_ok (tb\<lparr>tb_ends := es\<rparr>)"
proof -
  have "registered (tb\<lparr>tb_ends := es\<rparr>) c w h e = registered tb c w h e" for c w h e
    using assms(2) [of e] assms(3) by (simp add: registered_def Let_def in_handles_def in_table_def)
  moreover have "in_handles (tb\<lparr>tb_ends := es\<rparr>) = in_handles tb" "in_table (tb\<lparr>tb_ends := es\<rparr>) = in_table tb"
    by (intro ext; simp add: in_handles_def in_table_def)+
  ultimately show ?thesis using assms(1,2) unfolding tables_ok_def by simp
qed

lemma add_other_ok:
  assumes ok: "tables_ok tb" "sized n tb" "n + 4 < 2 ^ 31"
  shows "tables_ok (table_step (Add_Other c) tb) \<and> sized (n + 4) (table_step (Add_Other c) tb)"
proof -
  have "rep_room (tb_handles tb c)" by (rule sized_room(1) [OF ok(2)]) (use ok(3) in simp)
  from rep_insert_ok [OF tables_ok_slabs(1) [OF ok(1)] this] obtain h t' where
    t: "rep_insert (JObj Other_Obj) (tb_handles tb c) = (JNum (int h), t')" "rep_lookup (tb_handles tb c) h = None"
    "rep_lookup t' = (rep_lookup (tb_handles tb c))(h \<mapsto> JObj Other_Obj)" "rep_inv t'"
    "length (rt_data t') \<le> length (rt_data (tb_handles tb c)) + 2" by blast
  let ?tb = "tb\<lparr>tb_handles := (tb_handles tb)(c := t')\<rparr>"
  have i: "in_handles ?tb = in_handles tb" "in_table ?tb = in_table tb"
    using t(2,3) by (intro ext; auto simp: in_handles_def in_table_def)+
  then have g: "registered ?tb = registered tb" by (intro ext) (simp add: registered_def)
  have "tables_ok ?tb" using ok(1) t(4) unfolding tables_ok_def i g by simp
  moreover have "length (rt_data (tb_handles tb c)) \<le> n" using ok(2) by (simp add: sized_def)
  then have "length (rt_data t') \<le> n + 4" using t(5) by linarith
  then have "sized (n + 4) ?tb" using sized_mono [OF ok(2), of "n + 4"] unfolding sized_def by simp
  ultimately show ?thesis using t(1) by simp
qed

lemma table_step_ok:
  assumes ok: "tables_ok tb" "sized n tb" "n + 4 < 2 ^ 31" and l: "legal_command tb cmd"
  shows "tables_ok (table_step cmd tb) \<and> sized (n + 4) (table_step cmd tb)"
proof -
  have id: "tables_ok tb \<and> sized (n + 4) tb" using ok sized_mono [OF ok(2), of "n + 4"] by simp
  show ?thesis
  proof (cases cmd)
    case (Create k c ti)
    have "(\<exists>err. create_ends k c ti tb = (Inl err, tb)) \<or> (\<exists>x t. ti = Some x \<and> tb_map tb k x = Some (c, t))"
      by (auto simp: create_ends_def split: option.splits)
    then show ?thesis
    proof
      assume "\<exists>x t. ti = Some x \<and> tb_map tb k x = Some (c, t)"
      then obtain x t where "ti = Some x" "tb_map tb k x = Some (c, t)" by blast
      with create_ends_ok [OF ok this(2)] show ?thesis unfolding Create by auto
    qed (use id Create in auto)
  next
    case (Drop_Stream rd ti w)
    then show ?thesis using streamDrop_ok [OF ok(1,2), of w rd True ti] l sized_mono [of n _ "n + 4"] by simp
  next
    case (Remove_Future ti w)
    obtain r tb' where d: "remove_end_from_table Future_End ti w tb = (r, tb')" by fastforce
    then show ?thesis using Remove_Future remove_end_ok [OF ok(1,2) _ _ _ d] l sized_mono [of n tb' "n + 4"]
      by (simp add: removeFutureEndFromTable_def)
  next
    case (Transfer w src dst)
    obtain r tb' where "streamTransfer True w src dst tb = (r, tb')" by fastforce
    with streamTransfer_ok [OF ok _ _ _ this] l Transfer show ?thesis by simp
  next
    case (Mark_Done e)
    have "tables_ok (tb\<lparr>tb_ends := (tb_ends tb)[e := (tb_ends tb ! e)\<lparr>eo_done := True\<rparr>]\<rparr>)"
      by (rule tables_ok_cong_ends [OF ok(1)]; cases "e < length (tb_ends tb)") (auto simp: nth_list_update list_update_beyond)
    then show ?thesis using id Mark_Done by (simp add: upd_eo_def sized_def)
  qed (use create_readable_ok [OF ok] add_other_ok [OF ok] in simp_all)
qed

lemma empty_tables_ok: "tables_ok (empty_tables m)" "sized 2 (empty_tables m)"
proof -
  show "tables_ok (empty_tables m)"
    by (auto simp: rep_lookup_new tables_ok_def empty_tables_def in_handles_def in_table_def rep_inv_new)
  show "sized 2 (empty_tables m)" by (auto simp: sized_def empty_tables_def rep_new_def)
qed

lemma table_run_ok:
  "tables_ok tb \<Longrightarrow> sized n tb \<Longrightarrow> n + 4 * length cs < 2 ^ 31 \<Longrightarrow> legal_commands cs tb \<Longrightarrow>
   tables_ok (fold table_step cs tb) \<and> sized (n + 4 * length cs) (fold table_step cs tb)"
proof (induction cs arbitrary: tb n)
  case Nil
  then show ?case by simp
next
  case (Cons c cs)
  have "n + 4 < 2 ^ 31" using Cons.prems(3) by simp
  from table_step_ok [OF Cons.prems(1,2) this] Cons.prems(4) have
    k: "tables_ok (table_step c tb)" "sized (n + 4) (table_step c tb)" by simp_all
  have "n + 4 + 4 * length cs < 2 ^ 31" using Cons.prems(3) by simp
  from Cons.IH [OF k this] Cons.prems(4) show ?case by (simp add: add.assoc)
qed


definition demo_map :: "end_kind \<Rightarrow> int \<rightharpoonup> int" where
  "demo_map k ti = (if k = Stream_End \<and> ti \<in> {1, 2} then Some 0 else if k = Stream_End \<and> ti = 3 then Some 1 else None)"

definition demo_table_cmds :: "table_command list" where
  "demo_table_cmds = [Create Stream_End 0 (Some 1), Add_Other 0, Transfer 2 1 3, Drop_Stream True 1 1]"

lemma demo_table_legal: "legal_commands demo_table_cmds (empty_tables demo_map)"
  by code_simp


text \<open>A transfer that names another table of the component than the end's own corrupts the tables: the end
  is taken out of the handles, and the table that was named loses the end it has under the same
  handle, although that end stays in the handles.\<close>

theorem transfer_wrong_table:
  "let tb = fold table_step [Create Stream_End 0 (Some 1), Create Stream_End 0 (Some 2)] (empty_tables demo_map);
       tb' = snd (streamTransfer True 2 2 3 tb) in
   rep_lookup (tb_handles tb 0) 2 = Some (JObj (End_Ref 0)) \<and> eo_tableIdx (tb_ends tb ! 0) = 1 \<and>
   rep_lookup (tb_handles tb 0) 4 = Some (JObj (End_Ref 2)) \<and> eo_tableIdx (tb_ends tb ! 2) = 2 \<and>
   fst (streamTransfer True 2 2 3 tb) = Inr 1 \<and> rep_lookup (tb_handles tb' 0) 4 = Some (JObj (End_Ref 2)) \<and>
   (case tb_map tb' Stream_End 2 of Some (_, t) \<Rightarrow> rep_lookup t 2 = None | None \<Rightarrow> False)"
  by code_simp

end
