(* ===== verification/Err_Ctx.thy ===== *)
theory Err_Ctx
  imports Rep_Objects
begin

text \<open>
  Error contexts (\<open>src/crates/js-component-bindgen/src/intrinsics/p3/error_context.rs\<close>, with the
  lift and lower functions of \<open>intrinsics/lift.rs\<close> and \<open>lower.rs\<close>). An error context has one entry in
  a global table, with its message and a reference count, and one object for each component that
  holds it; the object lies in the component's handles, and its index in a local table.

  The tables hold the objects by value: every object is inserted once, and an assignment to a field
  is an update of the cell it lies in. The handles of a component hold other objects too. The message
  is the string that the guest's memory decodes to, and reading it may throw.
\<close>

section \<open>State\<close>

record err_home =
  eh_localIdx :: int
  eh_waitableIdx :: int
  eh_componentIdx :: int
  eh_localTableIdx :: int

record global_ctx =
  gc_refCount :: int
  gc_debugMessage :: string
  gc_home :: "err_home option"

record local_ctx =
  lc_globalRep :: int
  lc_refCount :: int
  lc_localIdx :: "int option"

datatype err_obj = Err_Obj local_ctx | Foreign

text \<open>\<open>es_tables\<close> is \<open>ERR_CTX_TABLES\<close>: the component of a table.\<close>

record err_state =
  es_global :: "global_ctx rep_table"
  es_handles :: "int \<Rightarrow> err_obj rep_table"
  es_local :: "int \<rightharpoonup> (int \<rightharpoonup> unit rep_table)"
  es_tables :: "int \<rightharpoonup> int"

type_synonym 'a eop = "err_state \<Rightarrow> ('a, err_state) jsm"

definition insert_idx :: "'v jsv \<Rightarrow> 'v rep_table \<Rightarrow> (int, 'v rep_table) jsm" where
  "insert_idx v t =
     (let (r, t') = rep_insert v t in
      case r of JNum n \<Rightarrow> (Inr n, t') | _ \<Rightarrow> (Inl (OutOfModel ''index that is no number''), t'))"

definition remove_idx :: "int \<Rightarrow> 'v rep_table \<Rightarrow> ('v jsv, 'v rep_table) jsm" where
  "remove_idx h t = (case rep_remove h t of Inl e \<Rightarrow> (Inl e, t) | Inr (v, t') \<Rightarrow> (Inr v, t'))"

definition get_idx :: "int \<Rightarrow> 'v rep_table \<Rightarrow> ('v jsv, 'v rep_table) jsm" where
  "get_idx h t = (rep_get h t, t)"

definition put_idx :: "int \<Rightarrow> 'v \<Rightarrow> 'v rep_table \<Rightarrow> (unit, 'v rep_table) jsm" where
  "put_idx h v t = (Inr (), rep_put h (JObj v) t)"

definition on_global :: "(global_ctx rep_table \<Rightarrow> ('a, global_ctx rep_table) jsm) \<Rightarrow> 'a eop" where
  "on_global = jpart es_global (\<lambda>t s. s\<lparr>es_global := t\<rparr>)"

definition on_handles :: "int \<Rightarrow> (err_obj rep_table \<Rightarrow> ('a, err_obj rep_table) jsm) \<Rightarrow> 'a eop" where
  "on_handles c = jpart (\<lambda>s. es_handles s c) (\<lambda>t s. s\<lparr>es_handles := (es_handles s)(c := t)\<rparr>)"

definition local_of :: "err_state \<Rightarrow> int \<Rightarrow> int \<Rightarrow> unit rep_table option" where
  "local_of s c ti = Option.bind (es_local s c) (\<lambda>ts. ts ti)"

definition set_local :: "int \<Rightarrow> int \<Rightarrow> unit rep_table \<Rightarrow> err_state \<Rightarrow> err_state" where
  "set_local c ti t s =
     s\<lparr>es_local := (es_local s)(c \<mapsto> (case es_local s c of None \<Rightarrow> Map.empty | Some ts \<Rightarrow> ts)(ti \<mapsto> t))\<rparr>"

text \<open>The methods of the local table that \<open>getLocalTable\<close> has returned.\<close>

definition on_local :: "int \<Rightarrow> int \<Rightarrow> (unit rep_table \<Rightarrow> ('a, unit rep_table) jsm) \<Rightarrow> 'a eop" where
  "on_local c ti = jpart (\<lambda>s. case local_of s c ti of None \<Rightarrow> rep_new | Some t \<Rightarrow> t) (set_local c ti)"

definition as_err :: "err_obj jsv \<Rightarrow> local_ctx option" where
  "as_err v = (case v of JObj (Err_Obj ec) \<Rightarrow> Some ec | _ \<Rightarrow> None)"

definition as_global :: "global_ctx jsv \<Rightarrow> global_ctx option" where
  "as_global v = (case v of JObj g \<Rightarrow> Some g | _ \<Rightarrow> None)"

section \<open>The tables of a component\<close>

definition getLocalTable :: "int \<Rightarrow> int \<Rightarrow> bool \<Rightarrow> unit eop" where
  "getLocalTable c ti upsert s =
     (case es_local s c of
        None \<Rightarrow>
          if upsert then (Inr (), set_local c ti rep_new s)
          else (Inl (Err ''missing local error context table for component while getting local table''), s)
      | Some ts \<Rightarrow>
          (case ts ti of
             Some _ \<Rightarrow> (Inr (), s)
           | None \<Rightarrow>
               if upsert then (Inr (), set_local c ti rep_new s)
               else (Inl (Err ''missing table in tables for component while getting local table''), s)))"

text \<open>\<open>ensure_error_context_local_table\<close> of \<open>transpile_bindgen.rs\<close> emits the statements that create a
  local table, each once; the flags are kept for components and for tables.\<close>

datatype local_init = Set_Component nat | Set_Table nat nat

record init_flags =
  fl_component :: "bool list"
  fl_table :: "bool list"
  fl_js :: "local_init list"

definition ensure_error_context_local_table :: "nat \<Rightarrow> nat \<Rightarrow> init_flags \<Rightarrow> init_flags" where
  "ensure_error_context_local_table c t f =
     (if fl_component f ! c \<and> fl_table f ! t then f
      else
        let f1 = (if fl_component f ! c then f
                  else f\<lparr>fl_js := fl_js f @ [Set_Component c], fl_component := (fl_component f)[c := True]\<rparr>) in
        if fl_table f1 ! t then f1
        else f1\<lparr>fl_js := fl_js f1 @ [Set_Table c t], fl_table := (fl_table f1)[t := True]\<rparr>)"

primrec run_local_init :: "local_init \<Rightarrow> unit eop" where
  "run_local_init (Set_Component c) s = (Inr (), s\<lparr>es_local := (es_local s)(int c \<mapsto> Map.empty)\<rparr>)"
| "run_local_init (Set_Table c t) s =
     (case es_local s (int c) of
        None \<Rightarrow> (Inl (TypeErr ''Cannot read properties of undefined''), s)
      | Some _ \<Rightarrow> (Inr (), set_local (int c) (int t) rep_new s))"

section \<open>Creating, dropping and transferring\<close>

definition reserveGlobalRep :: "string \<Rightarrow> int \<Rightarrow> int eop" where
  "reserveGlobalRep msg rc = on_global (insert_idx (JObj \<lparr>gc_refCount = rc, gc_debugMessage = msg, gc_home = None\<rparr>))"

text \<open>\<open>globalRefCountAdd\<close> returns the new count.\<close>

definition globalRefCountAdd :: "int \<Rightarrow> int \<Rightarrow> int eop" where
  "globalRefCountAdd rep amount =
     jbind (on_global (get_idx rep)) (\<lambda>v.
       case as_global v of
         None \<Rightarrow> if truthy v then jthrow (OutOfModel ''global entry that is no object'')
                 else jthrow (Err ''missing global error-context while incrementing refcount'')
       | Some g \<Rightarrow> jbind (on_global (put_idx rep (g\<lparr>gc_refCount := gc_refCount g + amount\<rparr>)))
                     (\<lambda>_. jret (gc_refCount g + amount)))"

definition createLocalHandle :: "int \<Rightarrow> int \<Rightarrow> int \<Rightarrow> (int \<times> int) eop" where
  "createLocalHandle c ti rep =
     jbind (on_global (\<lambda>t. (rep_contains rep t, t))) (\<lambda>present.
     if \<not> present then jthrow (Err ''missing global error-context during local handle create'')
     else
       jbind (on_handles c (insert_idx (JObj (Err_Obj \<lparr>lc_globalRep = rep, lc_refCount = 1, lc_localIdx = None\<rparr>)))) (\<lambda>w.
       jbind (on_local c ti (insert_idx (JNum w))) (\<lambda>l.
       jbind (on_handles c (put_idx w (Err_Obj \<lparr>lc_globalRep = rep, lc_refCount = 1, lc_localIdx = Some l\<rparr>))) (\<lambda>_.
       jbind (on_global (get_idx rep)) (\<lambda>v.
         case as_global v of
           None \<Rightarrow> jthrow (OutOfModel ''global entry that is no object'')
         | Some g \<Rightarrow> jbind (on_global (put_idx rep (g\<lparr>gc_refCount := gc_refCount g + 1\<rparr>)))
                       (\<lambda>_. jret (w, l)))))))"

text \<open>The global entry is the one just reserved, so the four assignments are one update of its cell.\<close>

definition errCtxNew :: "int \<Rightarrow> int \<Rightarrow> string js \<Rightarrow> int eop" where
  "errCtxNew c ti readStr =
     jbind (getLocalTable c ti False) (\<lambda>_.
     case readStr of
       Inl e \<Rightarrow> jthrow e
     | Inr msg \<Rightarrow>
         jbind (reserveGlobalRep msg 0) (\<lambda>rep.
         jbind (createLocalHandle c ti rep) (\<lambda>(w, l).
         jbind (on_global (get_idx rep)) (\<lambda>v.
           case as_global v of
             None \<Rightarrow> jthrow (OutOfModel ''global entry that is no object'')
           | Some g \<Rightarrow>
               jbind (on_global (put_idx rep (g\<lparr>gc_home := Some \<lparr>eh_localIdx = l, eh_waitableIdx = w,
                  eh_componentIdx = c, eh_localTableIdx = ti\<rparr>\<rparr>))) (\<lambda>_. jret w)))))"

text \<open>The result is the message that is handed to the function that writes it into the guest's memory.\<close>

definition errCtxDebugMessage :: "int \<Rightarrow> int \<Rightarrow> string eop" where
  "errCtxDebugMessage c w =
     jbind (on_handles c (get_idx w)) (\<lambda>v.
     case as_err v of
       None \<Rightarrow> jthrow (Err ''missing error context in component idx during debug msg'')
     | Some ec \<Rightarrow>
         jbind (on_global (get_idx (lc_globalRep ec))) (\<lambda>v.
         case v of
           JObj g \<Rightarrow> jret (gc_debugMessage g)
         | JNum n \<Rightarrow> jthrow (OutOfModel ''undefined as a message'')
         | _ \<Rightarrow> jthrow (TypeErr ''Cannot read properties of undefined'')))"

definition errCtxDrop :: "int \<Rightarrow> int \<Rightarrow> int \<Rightarrow> unit eop" where
  "errCtxDrop c ti w =
     jbind (on_handles c (get_idx w)) (\<lambda>v.
     case as_err v of
       None \<Rightarrow> jthrow (Err ''missing error context in component idx during drop'')
     | Some ec \<Rightarrow>
         jbind (getLocalTable c ti False) (\<lambda>_.
         case lc_localIdx ec of
           None \<Rightarrow> jthrow (OutOfModel ''error context without local index'')
         | Some l \<Rightarrow>
             jbind (on_local c ti (get_idx l)) (\<lambda>lv.
             if \<not> truthy lv then jthrow (Err ''missing error-context with handle in component during drop'')
             else
               let rc = lc_refCount ec - 1 in
               jbind (on_handles c (put_idx w (Err_Obj (ec\<lparr>lc_refCount := rc\<rparr>)))) (\<lambda>_.
               jbind (if rc \<le> 0
                      then jbind (on_local c ti (remove_idx l)) (\<lambda>_. jbind (on_handles c (remove_idx w)) (\<lambda>_. jret ()))
                      else jret ()) (\<lambda>_.
               jbind (globalRefCountAdd (lc_globalRep ec) (- 1)) (\<lambda>grc.
               if grc \<noteq> 0 then jret ()
               else if rc \<noteq> 0 then jthrow (Err ''local refCount exceeds global during removal'')
               else jbind (on_global (remove_idx (lc_globalRep ec))) (\<lambda>_. jret ())))))))"

definition errCtxTransfer :: "int \<Rightarrow> int \<Rightarrow> int \<Rightarrow> int eop" where
  "errCtxTransfer w srcTable destTable s =
     (case (es_tables s srcTable, es_tables s destTable) of
        (Some sc, Some dc) \<Rightarrow>
          jbind (getLocalTable sc srcTable False) (\<lambda>_.
          jbind (getLocalTable dc destTable True) (\<lambda>_.
          jbind (on_handles sc (get_idx w)) (\<lambda>v.
          if \<not> truthy v then jthrow (Err ''missing error context (waitable idx)'')
          else case as_err v of
            None \<Rightarrow> jthrow (Err ''unexpectedly missing local idx from error context object'')
          | Some ec \<Rightarrow>
              if lc_localIdx ec = None \<or> lc_localIdx ec = Some 0
              then jthrow (Err ''unexpectedly missing local idx from error context object'')
              else if lc_globalRep ec = 0
              then jthrow (Err ''unexpectedly missing globalRep from error context object'')
              else
                jbind (on_handles sc (put_idx w (Err_Obj (ec\<lparr>lc_refCount := lc_refCount ec - 1\<rparr>)))) (\<lambda>_.
                jbind (createLocalHandle dc destTable (lc_globalRep ec)) (\<lambda>(w', l). jret w'))))) s
      | _ \<Rightarrow> (Inl (TypeErr ''Cannot destructure property of undefined''), s))"

section \<open>Lifting and lowering\<close>

text \<open>The object a component's handles give for a cell of a local table. \<open>null\<close> is read as index 0 of the
  array, the head of the free list.\<close>

definition get_by_cell :: "int \<Rightarrow> unit jsv \<Rightarrow> err_obj jsv eop" where
  "get_by_cell c v =
     (case v of
        JNum n \<Rightarrow> on_handles c (get_idx n)
      | JNull \<Rightarrow> on_handles c (\<lambda>t. (Inr (js_get (rt_data t) 0), t))
      | _ \<Rightarrow> jthrow (OutOfModel ''cell that is no number''))"

text \<open>The parameter is taken for an index of the local table.\<close>

definition liftFlatErrorContext :: "int \<Rightarrow> int \<Rightarrow> bool \<Rightarrow> int list \<Rightarrow> (int \<times> int list) eop" where
  "liftFlatErrorContext ti c useDirectParams params =
     (if \<not> useDirectParams then jthrow (Err ''indirect flat lift for error-contexts not yet implemented!'')
      else case params of
        [] \<Rightarrow> jthrow (Err ''expected at least one single i32 argument'')
      | val # rest \<Rightarrow>
          jbind (getLocalTable c ti False) (\<lambda>_.
          jbind (on_local c ti (get_idx val)) (\<lambda>handle.
          if handle = JUndef then jthrow (Err ''missing  error ctx'')
          else
            jbind (get_by_cell c handle) (\<lambda>v.
            case as_err v of
              None \<Rightarrow> jthrow (Err ''malformed error context'')
            | Some ec \<Rightarrow>
                jbind (on_handles c (put_idx (num_of handle) (Err_Obj (ec\<lparr>lc_refCount := lc_refCount ec - 1\<rparr>)))) (\<lambda>_.
                jbind (globalRefCountAdd (lc_globalRep ec) 1) (\<lambda>_. jret (lc_globalRep ec, rest)))))))"

text \<open>The first part of the lower function, which looks at the object of the component that created the
  error context. \<open>ComponentAsyncState\<close> has no method \<open>remove\<close>.\<close>

definition check_previous :: "int \<Rightarrow> unit eop" where
  "check_previous rep =
     jbind (on_global (get_idx rep)) (\<lambda>v.
     case v of
       JNum _ \<Rightarrow> jthrow (OutOfModel ''global entry that is no object'')
     | JObj g \<Rightarrow>
         (case gc_home g of
            None \<Rightarrow> jthrow (OutOfModel ''global entry without its component'')
          | Some hm \<Rightarrow>
              jbind (on_handles (eh_componentIdx hm) (get_idx (eh_waitableIdx hm))) (\<lambda>p.
              case p of
                JObj (Err_Obj pc) \<Rightarrow>
                  if lc_refCount pc = 0 then jthrow (TypeErr ''prevComponentState.remove is not a function'') else jret ()
              | JObj Foreign \<Rightarrow> jret ()
              | JNum _ \<Rightarrow> jret ()
              | _ \<Rightarrow> jthrow (TypeErr ''Cannot read properties of undefined'')))
     | _ \<Rightarrow> jthrow (TypeErr ''Cannot read properties of undefined''))"

text \<open>The branch for a handle that is found: it increments the count and then names the undeclared
  \<open>errCtx\<close>. The component's index, which it assigns before, is never read.\<close>

definition bump_existing :: "int \<Rightarrow> unit jsv \<Rightarrow> int eop" where
  "bump_existing c cell =
     jbind (get_by_cell c cell) (\<lambda>v.
     case v of
       JObj (Err_Obj ec) \<Rightarrow>
         jbind (on_handles c (put_idx (num_of cell) (Err_Obj (ec\<lparr>lc_refCount := lc_refCount ec + 1\<rparr>)))) (\<lambda>_.
           jthrow (RefErr ''errCtx''))
     | JObj Foreign \<Rightarrow> jthrow (RefErr ''errCtx'')
     | JNum _ \<Rightarrow> jthrow (TypeErr ''Cannot create property on number'')
     | _ \<Rightarrow> jthrow (TypeErr ''Cannot read properties of undefined''))"

text \<open>The result is the number that is then lowered as a \<open>u32\<close>. The local table is looked up at the
  component's index.\<close>

definition lowerFlatErrorContext :: "int \<Rightarrow> int \<Rightarrow> int \<Rightarrow> int eop" where
  "lowerFlatErrorContext ti c rep =
     jbind (check_previous rep) (\<lambda>_.
     jbind (getLocalTable c ti True) (\<lambda>_.
     jbind (on_local c ti (get_idx c)) (\<lambda>handle.
     jbind (if handle = JUndef then jbind (createLocalHandle c ti rep) (\<lambda>(w, l). jret w)
            else bump_existing c handle) (\<lambda>h.
     jbind (globalRefCountAdd rep (- 1)) (\<lambda>_. jret h)))))"

section \<open>The methods of the tables\<close>

lemma jpart_ok: "m (get s) = (r, t) \<Longrightarrow> jpart get put m s = (r, put t s)"
  by (simp add: jpart_def)

lemma insert_idx_ok:
  assumes "rep_inv t" "rep_room t"
  obtains w t' where "insert_idx v t = (Inr (int w), t')" "0 < w" "rep_lookup t w = None"
    "rep_lookup t' = (rep_lookup t)(w \<mapsto> v)" "rep_inv t'" "length (rt_data t') \<le> length (rt_data t) + 2"
proof -
  from rep_insert_ok [OF assms, of v] obtain h t' where
    "rep_insert v t = (JNum (int h), t')" "0 < h" "rep_lookup t h = None" "rep_lookup t' = (rep_lookup t)(h \<mapsto> v)" "rep_inv t'"
    "length (rt_data t') \<le> length (rt_data t) + 2" by blast
  then show ?thesis by (intro that [of h t']) (simp_all add: insert_idx_def)
qed

lemma remove_idx_ok:
  assumes "rep_inv t" "rep_lookup t w = Some v"
  obtains t' where "remove_idx (int w) t = (Inr v, t')" "rep_lookup t' = (rep_lookup t)(w := None)" "rep_inv t'"
proof -
  from rep_remove_ok [OF assms] obtain t' where
    "rep_remove (int w) t = Inr (v, t')" "rep_lookup t' = (rep_lookup t)(w := None)" "rep_inv t'" by blast
  then show ?thesis by (intro that [of t']) (simp_all add: remove_idx_def)
qed

lemma get_idx_ok: "rep_inv t \<Longrightarrow> rep_lookup t w = Some v \<Longrightarrow> get_idx (int w) t = (Inr v, t)"
  by (simp add: get_idx_def rep_lookup_get)

lemma rep_lookup_0 [simp]: "rep_lookup t 0 = None"
  by (simp add: rep_lookup_def)

lemma get_idx_obj:
  assumes "rep_inv t" "get_idx w t = (Inr (JObj x), t')" "0 \<le> w" "w < 2 ^ 30"
  shows "rep_lookup t (nat w) = Some (JObj x) \<and> t' = t"
  using rep_get_obj [OF assms(1) _ assms(3,4)] assms(2) by (auto simp: get_idx_def)

section \<open>The invariant\<close>

text \<open>What a component holds under a handle, and the global entry of a representation.\<close>

definition live :: "err_state \<Rightarrow> int \<Rightarrow> nat \<Rightarrow> local_ctx option" where
  "live s c w = Option.bind (rep_lookup (es_handles s c) w) as_err"

definition glob :: "err_state \<Rightarrow> nat \<Rightarrow> global_ctx option" where
  "glob s g = Option.bind (rep_lookup (es_global s) g) as_global"

lemma as_err_iff: "as_err v = Some ec \<longleftrightarrow> v = JObj (Err_Obj ec)"
  by (cases v) (auto simp: as_err_def split: err_obj.splits)

lemma live_iff: "live s c w = Some ec \<longleftrightarrow> rep_lookup (es_handles s c) w = Some (JObj (Err_Obj ec))"
  by (auto simp: live_def Option.bind_eq_Some_conv as_err_iff)

definition holders :: "err_state \<Rightarrow> nat \<Rightarrow> (int \<times> nat) set" where
  "holders s g = {(c, w). \<exists>ec. live s c w = Some ec \<and> lc_globalRep ec = int g}"

definition local_at :: "err_state \<Rightarrow> int \<Rightarrow> int \<Rightarrow> nat \<Rightarrow> unit jsv option" where
  "local_at s c ti l = Option.bind (local_of s c ti) (\<lambda>t. rep_lookup t l)"

definition slabs_ok :: "err_state \<Rightarrow> bool" where
  "slabs_ok s \<longleftrightarrow>
     rep_inv (es_global s) \<and> (\<forall>c. rep_inv (es_handles s c)) \<and> (\<forall>c ti t. local_of s c ti = Some t \<longrightarrow> rep_inv t)"

definition slabs_room :: "err_state \<Rightarrow> bool" where
  "slabs_room s \<longleftrightarrow>
     rep_room (es_global s) \<and> (\<forall>c. rep_room (es_handles s c)) \<and> (\<forall>c ti t. local_of s c ti = Some t \<longrightarrow> rep_room t)"

text \<open>A component has at most one table of error contexts.\<close>

definition one_table :: "err_state \<Rightarrow> bool" where
  "one_table s \<longleftrightarrow> (\<forall>ti ti' c. es_tables s ti = Some c \<longrightarrow> es_tables s ti' = Some c \<longrightarrow> ti = ti')"

definition global_ok :: "err_state \<Rightarrow> bool" where
  "global_ok s \<longleftrightarrow>
     (\<forall>g v. rep_lookup (es_global s) g = Some v \<longrightarrow>
        (\<exists>m. v = JObj m \<and> gc_refCount m = int (card (holders s g))))"

definition live_ok :: "err_state \<Rightarrow> int \<Rightarrow> nat \<Rightarrow> local_ctx \<Rightarrow> bool" where
  "live_ok s c w ec \<longleftrightarrow>
     lc_refCount ec \<le> 1 \<and> (\<exists>g. lc_globalRep ec = int g \<and> glob s g \<noteq> None) \<and>
     (\<exists>ti l. es_tables s ti = Some c \<and> lc_localIdx ec = Some (int l) \<and> local_at s c ti l = Some (JNum (int w)))"

definition err_inv :: "err_state \<Rightarrow> bool" where
  "err_inv s \<longleftrightarrow>
     slabs_ok s \<and> one_table s \<and> global_ok s \<and> (\<forall>c w ec. live s c w = Some ec \<longrightarrow> live_ok s c w ec) \<and>
     finite {(c, w). live s c w \<noteq> None}"

lemma local_of_set: "local_of (set_local c ti t s) c' ti' = (if c' = c \<and> ti' = ti then Some t else local_of s c' ti')"
  by (auto simp: local_of_def set_local_def split: option.splits)

lemma set_local_fields [simp]:
  "es_global (set_local c ti t s) = es_global s" "es_handles (set_local c ti t s) = es_handles s"
  "es_tables (set_local c ti t s) = es_tables s"
  by (simp_all add: set_local_def)

lemma set_local_commute [simp]:
  "(set_local c ti t s)\<lparr>es_handles := H\<rparr> = set_local c ti t (s\<lparr>es_handles := H\<rparr>)"
  "(set_local c ti t s)\<lparr>es_global := G\<rparr> = set_local c ti t (s\<lparr>es_global := G\<rparr>)"
  by (simp_all add: set_local_def)

lemma set_local_same: "local_of s c ti = Some t \<Longrightarrow> set_local c ti t s = s"
  by (cases s) (auto simp: set_local_def local_of_def Option.bind_eq_Some_conv fun_eq_iff)

lemma local_of_fields [simp]:
  "local_of (s\<lparr>es_global := G\<rparr>) = local_of s" "local_of (s\<lparr>es_handles := H\<rparr>) = local_of s"
  by (simp_all add: local_of_def fun_eq_iff)

lemma holders_finite: "err_inv s \<Longrightarrow> finite (holders s g)"
  unfolding err_inv_def holders_def by (elim conjE, erule rev_finite_subset) auto

text \<open>A handle with a new object, and one that is removed.\<close>

lemma live_update:
  "live (s\<lparr>es_handles := (es_handles s)(c := t)\<rparr>) c' w = (if c' = c then Option.bind (rep_lookup t w) as_err else live s c' w)"
  by (simp add: live_def)

section \<open>Creating a handle\<close>

definition created :: "err_state \<Rightarrow> int \<Rightarrow> int \<Rightarrow> nat \<Rightarrow> global_ctx \<Rightarrow> nat \<Rightarrow> nat \<Rightarrow> err_state \<Rightarrow> bool" where
  "created s c ti g m w l s' \<longleftrightarrow> (\<exists>G H L t.
     0 < w \<and> 0 < l \<and> rep_lookup (es_handles s c) w = None \<and> local_of s c ti = Some t \<and> rep_lookup t l = None \<and>
     rep_inv G \<and> rep_lookup G = (rep_lookup (es_global s))(g \<mapsto> JObj (m\<lparr>gc_refCount := gc_refCount m + 1\<rparr>)) \<and>
     rep_inv H \<and> rep_lookup H = (rep_lookup (es_handles s c))(w \<mapsto>
       JObj (Err_Obj \<lparr>lc_globalRep = int g, lc_refCount = 1, lc_localIdx = Some (int l)\<rparr>)) \<and>
     rep_inv L \<and> rep_lookup L = (rep_lookup t)(l \<mapsto> JNum (int w)) \<and>
     s' = set_local c ti L (s\<lparr>es_global := G, es_handles := (es_handles s)(c := H)\<rparr>))"

lemma createLocalHandle_ok:
  assumes ok: "slabs_ok s" and t: "local_of s c ti = Some t" and rm: "rep_room (es_handles s c)" "rep_room t"
    and g: "rep_lookup (es_global s) g = Some (JObj m)"
  obtains w l s' where "createLocalHandle c ti (int g) s = (Inr (int w, int l), s')" "created s c ti g m w l s'"
proof -
  have inv: "rep_inv (es_global s)" "rep_inv (es_handles s c)" "rep_inv t"
    using ok t by (auto simp: slabs_ok_def)
  let ?e = "\<lambda>li. JObj (Err_Obj \<lparr>lc_globalRep = int g, lc_refCount = 1, lc_localIdx = li\<rparr>)"
  have con: "rep_contains (int g) (es_global s) = Inr True"
    using rep_lookup_get [OF inv(1) g] by (auto simp: rep_contains_def rep_get_def split: if_splits)
  obtain w H1 where w: "insert_idx (?e None) (es_handles s c) = (Inr (int w), H1)" "0 < w"
    "rep_lookup (es_handles s c) w = None" "rep_lookup H1 = (rep_lookup (es_handles s c))(w \<mapsto> ?e None)" "rep_inv H1"
    using insert_idx_ok [OF inv(2) rm(1)] by metis
  obtain l L where l: "insert_idx (JNum (int w)) t = (Inr (int l), L)" "0 < l"
    "rep_lookup t l = None" "rep_lookup L = (rep_lookup t)(l \<mapsto> JNum (int w))" "rep_inv L"
    using insert_idx_ok [OF inv(3) rm(2)] by metis
  define H where "H = rep_put (int w) (?e (Some (int l))) H1"
  have H: "rep_inv H" "rep_lookup H = (rep_lookup (es_handles s c))(w \<mapsto> ?e (Some (int l)))"
    using rep_put_ok [of H1 w "?e None" "?e (Some (int l))"] w by (simp_all add: H_def)
  define G where "G = rep_put (int g) (JObj (m\<lparr>gc_refCount := gc_refCount m + 1\<rparr>)) (es_global s)"
  have G: "rep_inv G" "rep_lookup G = (rep_lookup (es_global s))(g \<mapsto> JObj (m\<lparr>gc_refCount := gc_refCount m + 1\<rparr>))"
    using rep_put_ok [OF inv(1) g] by (simp_all add: G_def)
  define s' where "s' = set_local c ti L (s\<lparr>es_global := G, es_handles := (es_handles s)(c := H)\<rparr>)"
  have gg: "get_idx (int g) (es_global s) = (Inr (JObj m), es_global s)" using get_idx_ok [OF inv(1) g] .
  have "createLocalHandle c ti (int g) s = (Inr (int w, int l), s')"
    using w(1) l(1) t gg
    by (simp add: createLocalHandle_def jbind_def on_global_def on_handles_def on_local_def jpart_def con put_idx_def
      local_of_def as_global_def jret_def H_def [symmetric] G_def [symmetric] s'_def set_local_def)
  moreover have "created s c ti g m w l s'" unfolding created_def s'_def using w l H G t by blast
  ultimately show ?thesis by (rule that)
qed

section \<open>What changes keep the invariant\<close>

text \<open>The object under one handle changes to \<open>x\<close>.\<close>

definition live_upd :: "err_state \<Rightarrow> int \<Rightarrow> nat \<Rightarrow> local_ctx option \<Rightarrow> err_state \<Rightarrow> bool" where
  "live_upd s c w x s' \<longleftrightarrow> live s' = (live s)(c := (live s c)(w := x))"

lemma live_upd_self [simp]: "live_upd s c w x s' \<Longrightarrow> live s' c w = x"
  by (simp add: live_upd_def)

lemma live_upd_other: "live_upd s c w x s' \<Longrightarrow> c' \<noteq> c \<or> w' \<noteq> w \<Longrightarrow> live s' c' w' = live s c' w'"
  by (auto simp: live_upd_def fun_upd_def)

lemma live_updI:
  assumes "\<And>c' w'. live s' c' w' = (if c' = c \<and> w' = w then x else live s c' w')"
  shows "live_upd s c w x s'"
  unfolding live_upd_def by (intro ext, subst assms) simp

lemma live_upd_finite:
  assumes "live_upd s c w x s'" "finite {(c, w). live s c w \<noteq> None}"
  shows "finite {(c, w). live s' c w \<noteq> None}"
proof (rule finite_subset)
  show "{(c, w). live s' c w \<noteq> None} \<subseteq> insert (c, w) {(c, w). live s c w \<noteq> None}"
    unfolding assms(1) [unfolded live_upd_def] by (auto split: if_splits)
  show "finite (insert (c, w) {(c, w). live s c w \<noteq> None})" using assms(2) by simp
qed

lemma holders_iff: "(c, w) \<in> holders s g \<longleftrightarrow> (\<exists>ec. live s c w = Some ec \<and> lc_globalRep ec = int g)"
  by (simp add: holders_def)

lemma holders_new:
  assumes "live_upd s c w (Some ec) s'" "live s c w = None" "lc_globalRep ec = int g"
  shows "holders s' g' = (if g' = g then insert (c, w) (holders s g) else holders s g')" "(c, w) \<notin> holders s g"
proof -
  show "(c, w) \<notin> holders s g" using assms(2) by (simp add: holders_iff)
  have "x \<in> holders s' g' \<longleftrightarrow> x \<in> (if g' = g then insert (c, w) (holders s g) else holders s g')" for x
    using assms(2,3) by (cases x) (auto simp: holders_iff assms(1) [unfolded live_upd_def])
  then show "holders s' g' = (if g' = g then insert (c, w) (holders s g) else holders s g')" by blast
qed

lemma holders_gone:
  assumes "live_upd s c w None s'" "live s c w = Some ec" "lc_globalRep ec = int g"
  shows "holders s' g' = (if g' = g then holders s g - {(c, w)} else holders s g')" "(c, w) \<in> holders s g"
proof -
  show "(c, w) \<in> holders s g" using assms(2,3) by (simp add: holders_iff)
  have "x \<in> holders s' g' \<longleftrightarrow> x \<in> (if g' = g then holders s g - {(c, w)} else holders s g')" for x
    using assms(2,3) by (cases x) (auto simp: holders_iff assms(1) [unfolded live_upd_def])
  then show "holders s' g' = (if g' = g then holders s g - {(c, w)} else holders s g')" by blast
qed

lemma holders_same:
  assumes "live_upd s c w (Some ec') s'" "live s c w = Some ec" "lc_globalRep ec' = lc_globalRep ec"
  shows "holders s' g = holders s g"
proof -
  have "x \<in> holders s' g \<longleftrightarrow> x \<in> holders s g" for x
    using assms(2,3) by (cases x) (auto simp: holders_iff assms(1) [unfolded live_upd_def])
  then show ?thesis by blast
qed

lemma holders_live: "live s' = live s \<Longrightarrow> holders s' g = holders s g"
  by (simp add: holders_def)

lemma err_invD:
  assumes "err_inv s"
  shows "slabs_ok s" "one_table s" "global_ok s" "live s c w = Some ec \<Longrightarrow> live_ok s c w ec"
    "finite {(c, w). live s c w \<noteq> None}"
  using assms by (auto simp: err_inv_def)

lemma slabs_okD:
  assumes "slabs_ok s"
  shows "rep_inv (es_global s)" "rep_inv (es_handles s c)" "local_of s c ti = Some t \<Longrightarrow> rep_inv t"
  using assms by (auto simp: slabs_ok_def)

lemma live_okE:
  assumes "err_inv s" "live s c w = Some ec"
  obtains g m ti l t where "lc_refCount ec \<le> 1" "lc_globalRep ec = int g" "rep_lookup (es_global s) g = Some (JObj m)"
    "gc_refCount m = int (card (holders s g))" "es_tables s ti = Some c" "lc_localIdx ec = Some (int l)"
    "local_of s c ti = Some t" "rep_lookup t l = Some (JNum (int w))" "(c, w) \<in> holders s g" "0 < g" "0 < l" "0 < w"
proof -
  from err_invD(4) [OF assms] obtain g ti l t where o: "lc_refCount ec \<le> 1" "lc_globalRep ec = int g" "glob s g \<noteq> None"
    "es_tables s ti = Some c" "lc_localIdx ec = Some (int l)" "local_of s c ti = Some t" "rep_lookup t l = Some (JNum (int w))"
    unfolding live_ok_def local_at_def by (auto simp: Option.bind_eq_Some_conv)
  then obtain v where v: "rep_lookup (es_global s) g = Some v" by (auto simp: glob_def Option.bind_eq_Some_conv)
  then obtain m where m: "v = JObj m" "gc_refCount m = int (card (holders s g))"
    using err_invD(3) [OF assms(1)] by (auto simp: global_ok_def)
  have "0 < g" "0 < l" "0 < w" using v o assms(2) by (auto simp: live_def intro: gr0I)
  moreover have "(c, w) \<in> holders s g" using assms(2) o by (auto simp: holders_def)
  ultimately show ?thesis using o v m that by blast
qed

lemma global_okI:
  assumes "\<And>g v. rep_lookup (es_global s) g = Some v \<Longrightarrow> \<exists>m. v = JObj m \<and> gc_refCount m = int (card (holders s g))"
  shows "global_ok s"
  using assms by (auto simp: global_ok_def)

lemma global_okD: "global_ok s \<Longrightarrow> rep_lookup (es_global s) g = Some v \<Longrightarrow> \<exists>m. v = JObj m \<and> gc_refCount m = int (card (holders s g))"
  by (auto simp: global_ok_def)

lemma glob_lookup: "rep_lookup (es_global s) g = Some (JObj m) \<Longrightarrow> glob s g = Some m"
  by (simp add: glob_def as_global_def)

text \<open>The other handles stay in order when their table entries and global entries stay.\<close>

lemma live_ok_mono:
  assumes "live_ok s c w ec" "es_tables s' = es_tables s" "\<And>g. lc_globalRep ec = int g \<Longrightarrow> glob s g \<noteq> None \<Longrightarrow> glob s' g \<noteq> None"
    "\<And>ti l. es_tables s ti = Some c \<Longrightarrow> lc_localIdx ec = Some (int l) \<Longrightarrow> local_at s c ti l = Some (JNum (int w)) \<Longrightarrow>
       local_at s' c ti l = Some (JNum (int w))"
  shows "live_ok s' c w ec"
  using assms(1,3,4) unfolding live_ok_def assms(2) by blast

lemma created_inv:
  assumes inv: "err_inv s" and cr: "created s c ti g m w l s'" and tb: "es_tables s ti = Some c"
    and g: "rep_lookup (es_global s) g = Some (JObj m)"
  shows "err_inv s'" "live_upd s c w (Some \<lparr>lc_globalRep = int g, lc_refCount = 1, lc_localIdx = Some (int l)\<rparr>) s'"
    "live s c w = None" "rep_lookup (es_global s') = (rep_lookup (es_global s))(g \<mapsto> JObj (m\<lparr>gc_refCount := gc_refCount m + 1\<rparr>))"
proof -
  let ?m = "m\<lparr>gc_refCount := gc_refCount m + 1\<rparr>"
  let ?e = "\<lparr>lc_globalRep = int g, lc_refCount = 1, lc_localIdx = Some (int l)\<rparr>"
  from cr obtain G H L t where d: "0 < w" "0 < l" "rep_lookup (es_handles s c) w = None" "local_of s c ti = Some t" "rep_lookup t l = None"
     "rep_inv G" "rep_lookup G = (rep_lookup (es_global s))(g \<mapsto> JObj ?m)"
     "rep_inv H" "rep_lookup H = (rep_lookup (es_handles s c))(w \<mapsto> JObj (Err_Obj ?e))"
     "rep_inv L" "rep_lookup L = (rep_lookup t)(l \<mapsto> JNum (int w))"
     "s' = set_local c ti L (s\<lparr>es_global := G, es_handles := (es_handles s)(c := H)\<rparr>)" unfolding created_def by blast
  show G: "rep_lookup (es_global s') = (rep_lookup (es_global s))(g \<mapsto> JObj ?m)" using d by simp
  show none: "live s c w = None" using d by (simp add: live_def)
  show lu: "live_upd s c w (Some ?e) s'" by (rule live_updI) (use d in \<open>auto simp: live_def as_err_def\<close>)
  note ho = holders_new [OF lu none, of g, simplified]
  have fin: "finite (holders s g)" using inv by (rule holders_finite)
  have loc: "local_of s' = (\<lambda>c' ti'. if c' = c \<and> ti' = ti then Some L else local_of s c' ti')"
    using d(12) by (simp add: fun_eq_iff local_of_set)
  have fields: "es_global s' = G" "es_handles s' = (es_handles s)(c := H)" "es_tables s' = es_tables s" using d(12) by simp_all
  have "slabs_ok s'"
    unfolding slabs_ok_def loc fields using err_invD(1) [OF inv] d(6,8,10) by (auto simp: slabs_ok_def)
  moreover have "one_table s'" using err_invD(2) [OF inv] by (simp add: one_table_def fields)
  moreover have "global_ok s'"
  proof (rule global_okI)
    fix g' v assume v: "rep_lookup (es_global s') g' = Some v"
    show "\<exists>m. v = JObj m \<and> gc_refCount m = int (card (holders s' g'))"
      using v global_okD [OF err_invD(3) [OF inv], of g' v] global_okD [OF err_invD(3) [OF inv] g] ho fin
      by (auto simp: G split: if_splits)
  qed
  moreover have "live_ok s' c' w' ec" if e: "live s' c' w' = Some ec" for c' w' ec
  proof (cases "c' = c \<and> w' = w")
    case True
    with e lu have "ec = ?e" by simp
    then show ?thesis using True d(11) tb by (simp add: live_ok_def glob_def G as_global_def local_at_def loc fields(3)) blast
  next
    case False
    with e live_upd_other [OF lu, of c' w'] have "live s c' w' = Some ec" by auto
    from err_invD(4) [OF inv this] show ?thesis
      by (rule live_ok_mono) (use d(4,5,11) in \<open>auto simp: fields(3) glob_def G as_global_def local_at_def loc\<close>)
  qed
  moreover have "finite {(c, w). live s' c w \<noteq> None}" using live_upd_finite [OF lu] err_invD(5) [OF inv] by simp
  ultimately show "err_inv s'" unfolding err_inv_def by blast
qed

text \<open>The object under a live handle is assigned to; its representation and index stay.\<close>

lemma put_live_inv:
  assumes inv: "err_inv s" and e: "live s c w = Some ec"
    and e': "lc_globalRep ec' = lc_globalRep ec" "lc_localIdx ec' = lc_localIdx ec" "lc_refCount ec' \<le> 1"
  defines "s' \<equiv> s\<lparr>es_handles := (es_handles s)(c := rep_put (int w) (JObj (Err_Obj ec')) (es_handles s c))\<rparr>"
  shows "err_inv s'" "live_upd s c w (Some ec') s'"
proof -
  from e obtain v where v: "rep_lookup (es_handles s c) w = Some v" by (auto simp: live_def Option.bind_eq_Some_conv)
  note p = rep_put_ok [OF slabs_okD(2) [OF err_invD(1) [OF inv]] v, of "JObj (Err_Obj ec')"]
  show lu: "live_upd s c w (Some ec') s'"
    by (rule live_updI) (auto simp: s'_def live_def p as_err_def)
  have fields: "es_global s' = es_global s" "local_of s' = local_of s" "es_tables s' = es_tables s" by (simp_all add: s'_def)
  have "slabs_ok s'" unfolding slabs_ok_def fields using err_invD(1) [OF inv] p by (auto simp: slabs_ok_def s'_def)
  moreover have "one_table s'" using err_invD(2) [OF inv] by (simp add: one_table_def fields)
  moreover have "global_ok s'"
    using err_invD(3) [OF inv] holders_same [OF lu e e'(1)] by (simp add: global_ok_def fields)
  moreover have "live_ok s' c' w' x" if x: "live s' c' w' = Some x" for c' w' x
  proof -
    have gl: "glob s' = glob s" "local_at s' = local_at s" by (simp_all add: glob_def local_at_def fields fun_eq_iff)
    show ?thesis
    proof (cases "c' = c \<and> w' = w")
      case True
      with x lu have "x = ec'" by simp
      with err_invD(4) [OF inv e] e' True show ?thesis by (simp add: live_ok_def gl fields)
    next
      case False
      with x live_upd_other [OF lu, of c' w'] have "live s c' w' = Some x" by auto
      from err_invD(4) [OF inv this] show ?thesis by (simp add: live_ok_def gl fields)
    qed
  qed
  moreover have "finite {(c, w). live s' c w \<noteq> None}" using live_upd_finite [OF lu] err_invD(5) [OF inv] by simp
  ultimately show "err_inv s'" unfolding err_inv_def by blast
qed

text \<open>Changes that leave the handles alone.\<close>

lemma same_live_inv:
  assumes inv: "err_inv s" and ok: "slabs_ok s'" and tb: "es_tables s' = es_tables s" and lv: "live s' = live s"
    and gl: "\<And>g v. rep_lookup (es_global s') g = Some v \<Longrightarrow> \<exists>m. v = JObj m \<and>
        (gc_refCount m = int (card (holders s g)))"
      "\<And>g. glob s g \<noteq> None \<Longrightarrow> glob s' g \<noteq> None"
    and la: "\<And>c ti l v. local_at s c ti l = Some v \<Longrightarrow> local_at s' c ti l = Some v"
  shows "err_inv s'"
proof -
  have "one_table s'" using err_invD(2) [OF inv] by (simp add: one_table_def tb)
  moreover have "global_ok s'" by (rule global_okI) (use gl(1) in \<open>simp add: holders_live [OF lv]\<close>)
  moreover have "live_ok s' c w ec" if "live s' c w = Some ec" for c w ec
    using err_invD(4) [OF inv that [unfolded lv]] by (rule live_ok_mono) (use tb gl(2) la in auto)
  moreover have "finite {(c, w). live s' c w \<noteq> None}" using err_invD(5) [OF inv] by (simp add: lv)
  ultimately show ?thesis using ok unfolding err_inv_def by blast
qed

lemma set_local_new_inv:
  assumes inv: "err_inv s" and n: "local_of s c ti = None"
  shows "err_inv (set_local c ti rep_new s)"
proof (rule same_live_inv [OF inv])
  show "slabs_ok (set_local c ti rep_new s)"
    using err_invD(1) [OF inv] by (auto simp: slabs_ok_def local_of_set rep_inv_new)
  show "local_at (set_local c ti rep_new s) c' ti' l = Some v" if "local_at s c' ti' l = Some v" for c' ti' l v
    using that n by (auto simp: local_at_def local_of_set)
qed (use global_okD [OF err_invD(3) [OF inv]] in \<open>auto simp: live_def glob_def fun_eq_iff\<close>)

lemma getLocalTable_cases:
  obtains (found) t where "getLocalTable c ti u s = (Inr (), s)" "local_of s c ti = Some t"
  | (made) "u" "local_of s c ti = None" "getLocalTable c ti u s = (Inr (), set_local c ti rep_new s)"
  | (missing) e where "\<not> u" "local_of s c ti = None" "getLocalTable c ti u s = (Inl e, s)"
  by (fastforce simp: getLocalTable_def local_of_def split: option.splits if_splits)

lemma put_global_inv:
  assumes inv: "err_inv s" and g: "rep_lookup (es_global s) g = Some (JObj m)" and m': "gc_refCount m' = gc_refCount m"
  shows "err_inv (s\<lparr>es_global := rep_put (int g) (JObj m') (es_global s)\<rparr>)"
proof -
  let ?s' = "s\<lparr>es_global := rep_put (int g) (JObj m') (es_global s)\<rparr>"
  note p = rep_put_ok [OF slabs_okD(1) [OF err_invD(1) [OF inv]] g, of "JObj m'"]
  show ?thesis
  proof (rule same_live_inv [OF inv])
    show "slabs_ok ?s'" using err_invD(1) [OF inv] p by (auto simp: slabs_ok_def)
    show "\<exists>m. v = JObj m \<and> gc_refCount m = int (card (holders s x))" if "rep_lookup (es_global ?s') x = Some v" for x v
      using that m' global_okD [OF err_invD(3) [OF inv], of x v] global_okD [OF err_invD(3) [OF inv] g] by (auto simp: p split: if_splits)
    show "glob ?s' x \<noteq> None" if "glob s x \<noteq> None" for x
      using that by (auto simp: glob_def p as_global_def)
  qed (auto simp: live_def local_at_def fun_eq_iff)
qed

text \<open>A representation that is not in use has no holders.\<close>

lemma holders_fresh: "err_inv s \<Longrightarrow> rep_lookup (es_global s) g = None \<Longrightarrow> holders s g = {}"
  by (auto simp: holders_def elim: live_okE)

lemma reserve_inv:
  assumes inv: "err_inv s" and room: "rep_room (es_global s)"
  obtains g G where "reserveGlobalRep msg 0 s = (Inr (int g), s\<lparr>es_global := G\<rparr>)" "err_inv (s\<lparr>es_global := G\<rparr>)"
    "rep_lookup (es_global s) g = None" "rep_lookup G = (rep_lookup (es_global s))(g \<mapsto> JObj \<lparr>gc_refCount = 0, gc_debugMessage = msg, gc_home = None\<rparr>)"
proof -
  let ?m = "\<lparr>gc_refCount = 0, gc_debugMessage = msg, gc_home = None\<rparr>"
  obtain g G where g: "insert_idx (JObj ?m) (es_global s) = (Inr (int g), G)" "rep_lookup (es_global s) g = None"
    "rep_lookup G = (rep_lookup (es_global s))(g \<mapsto> JObj ?m)" "rep_inv G"
    using insert_idx_ok [OF slabs_okD(1) [OF err_invD(1) [OF inv]] room] by metis
  have "err_inv (s\<lparr>es_global := G\<rparr>)"
  proof (rule same_live_inv [OF inv])
    show "slabs_ok (s\<lparr>es_global := G\<rparr>)" using err_invD(1) [OF inv] g by (auto simp: slabs_ok_def)
    show "\<exists>m. v = JObj m \<and> gc_refCount m = int (card (holders s x))" if "rep_lookup (es_global (s\<lparr>es_global := G\<rparr>)) x = Some v" for x v
      using that global_okD [OF err_invD(3) [OF inv], of x v] holders_fresh [OF inv g(2)] by (auto simp: g split: if_splits)
    show "glob (s\<lparr>es_global := G\<rparr>) x \<noteq> None" if "glob s x \<noteq> None" for x
      using that by (auto simp: glob_def g as_global_def)
  qed (auto simp: live_def local_at_def fun_eq_iff)
  with g show ?thesis by (intro that) (simp_all add: reserveGlobalRep_def on_global_def jpart_def)
qed

section \<open>Dropping a handle\<close>

text \<open>The global entry after a drop: gone when it was the last handle and the handle's own count was 1.\<close>

definition entry_dropped :: "nat \<Rightarrow> global_ctx \<Rightarrow> local_ctx \<Rightarrow> (nat \<rightharpoonup> global_ctx jsv) \<Rightarrow> (nat \<rightharpoonup> global_ctx jsv)" where
  "entry_dropped g m ec G =
     (if gc_refCount m = 1 \<and> lc_refCount ec = 1 then G(g := None)
      else G(g \<mapsto> JObj (m\<lparr>gc_refCount := gc_refCount m - 1\<rparr>)))"

definition dropped :: "err_state \<Rightarrow> int \<Rightarrow> int \<Rightarrow> nat \<Rightarrow> nat \<Rightarrow> nat \<Rightarrow> global_ctx \<Rightarrow> local_ctx \<Rightarrow> err_state \<Rightarrow> bool" where
  "dropped s c ti w l g m ec s' \<longleftrightarrow> (\<exists>G H L t.
     local_of s c ti = Some t \<and> rep_inv G \<and> rep_lookup G = entry_dropped g m ec (rep_lookup (es_global s)) \<and>
     rep_inv H \<and> rep_lookup H = (rep_lookup (es_handles s c))(w := None) \<and>
     rep_inv L \<and> rep_lookup L = (rep_lookup t)(l := None) \<and>
     s' = set_local c ti L (s\<lparr>es_global := G, es_handles := (es_handles s)(c := H)\<rparr>))"

lemma errCtxDrop_ok:
  assumes ok: "slabs_ok s" and v: "live s c w = Some ec" and rc: "lc_refCount ec \<le> 1"
    and g: "lc_globalRep ec = int g" "rep_lookup (es_global s) g = Some (JObj m)"
    and l: "lc_localIdx ec = Some (int l)" "local_of s c ti = Some t" "rep_lookup t l = Some (JNum (int w))" and w0: "0 < w"
  obtains s' where "dropped s c ti w l g m ec s'" "errCtxDrop c ti (int w) s =
      (if gc_refCount m = 1 \<and> lc_refCount ec \<noteq> 1 then Inl (Err ''local refCount exceeds global during removal'') else Inr (), s')"
proof -
  have inv: "rep_inv (es_global s)" "rep_inv (es_handles s c)" "rep_inv t" using slabs_okD [OF ok] l by blast+
  from v have h: "rep_lookup (es_handles s c) w = Some (JObj (Err_Obj ec))"
    by (simp add: live_iff)
  let ?e = "JObj (Err_Obj (ec\<lparr>lc_refCount := lc_refCount ec - 1\<rparr>))"
  note p = rep_put_ok [OF inv(2) h, of ?e]
  from p(2) have "rep_lookup (rep_put (int w) ?e (es_handles s c)) w = Some ?e" by simp
  from remove_idx_ok [OF p(1) this] obtain H where H: "remove_idx (int w) (rep_put (int w) ?e (es_handles s c)) = (Inr ?e, H)"
    "rep_lookup H = (rep_lookup (es_handles s c))(w := None)" "rep_inv H" by (auto simp: p(2))
  from remove_idx_ok [OF inv(3) l(3)] obtain L where L: "remove_idx (int l) t = (Inr (JNum (int w)), L)"
    "rep_lookup L = (rep_lookup t)(l := None)" "rep_inv L" .
  let ?m = "m\<lparr>gc_refCount := gc_refCount m - 1\<rparr>"
  define G1 where "G1 = rep_put (int g) (JObj ?m) (es_global s)"
  note q = rep_put_ok [OF inv(1) g(2), of "JObj ?m", folded G1_def]
  from q(2) have "rep_lookup G1 g = Some (JObj ?m)" by simp
  from remove_idx_ok [OF q(1) this] obtain G2 where G2: "remove_idx (int g) G1 = (Inr (JObj ?m), G2)"
    "rep_lookup G2 = (rep_lookup (es_global s))(g := None)" "rep_inv G2" by (auto simp: q(2))
  define G where "G = (if gc_refCount m = 1 \<and> lc_refCount ec = 1 then G2 else G1)"
  define s' where "s' = set_local c ti L (s\<lparr>es_global := G, es_handles := (es_handles s)(c := H)\<rparr>)"
  have rm: "\<not> gc_refCount m - 1 = 0" if "gc_refCount m \<noteq> 1" using that by simp
  note gets = get_idx_ok [OF inv(2) h] get_idx_ok [OF inv(1) g(2)] get_idx_ok [OF inv(3) l(3)]
  have lt: "getLocalTable c ti False s = (Inr (), s)"
    by (rule getLocalTable_cases [of c ti False s]) (use l(2) in auto)
  let ?S = "\<lambda>G. set_local c ti L (s\<lparr>es_handles := (es_handles s)(c := H), es_global := G\<rparr>)"
  have "errCtxDrop c ti (int w) s =
      (if gc_refCount m - 1 \<noteq> 0 then (Inr (), ?S G1)
       else if lc_refCount ec - 1 \<noteq> 0 then (Inl (Err ''local refCount exceeds global during removal''), ?S G1)
       else (Inr (), ?S G2))"
    using rc H(1) L(1) G2(1) w0
    by (simp add: errCtxDrop_def jbind_def on_handles_def on_global_def on_local_def jpart_def gets as_err_def lt l(1,2)
      put_idx_def jret_def jthrow_def globalRefCountAdd_def as_global_def g(1) G1_def [symmetric] set_local_same local_of_set
      Let_def if_distribR cong: if_weak_cong split del: if_split)
      (auto simp: jret_def jthrow_def jbind_def on_global_def jpart_def g(1))
  then have "errCtxDrop c ti (int w) s =
      (if gc_refCount m = 1 \<and> lc_refCount ec \<noteq> 1 then Inl (Err ''local refCount exceeds global during removal'') else Inr (), s')"
    by (auto simp: s'_def G_def set_local_def)
  moreover have "dropped s c ti w l g m ec s'"
    unfolding dropped_def s'_def entry_dropped_def G_def using l(2) q G2 H L by auto
  ultimately show ?thesis by (rule that [rotated])
qed

lemma dropped_inv:
  assumes inv: "err_inv s" and dr: "dropped s c ti w l g m ec s'" and tb: "es_tables s ti = Some c"
    and e: "live s c w = Some ec" "lc_globalRep ec = int g" "rep_lookup (es_global s) g = Some (JObj m)"
      "lc_localIdx ec = Some (int l)" "local_at s c ti l = Some (JNum (int w))"
  shows "err_inv s'" "live_upd s c w None s'" "rep_lookup (es_global s') = entry_dropped g m ec (rep_lookup (es_global s))"
proof -
  from dr obtain G H L t where d: "local_of s c ti = Some t" "rep_inv G"
     "rep_lookup G = entry_dropped g m ec (rep_lookup (es_global s))"
     "rep_inv H" "rep_lookup H = (rep_lookup (es_handles s c))(w := None)" "rep_inv L" "rep_lookup L = (rep_lookup t)(l := None)"
     "s' = set_local c ti L (s\<lparr>es_global := G, es_handles := (es_handles s)(c := H)\<rparr>)" unfolding dropped_def by blast
  have fields: "es_global s' = G" "es_handles s' = (es_handles s)(c := H)" "es_tables s' = es_tables s" using d(8) by simp_all
  have loc: "local_of s' = (\<lambda>c' ti'. if c' = c \<and> ti' = ti then Some L else local_of s c' ti')"
    using d(8) by (simp add: fun_eq_iff local_of_set)
  show G: "rep_lookup (es_global s') = entry_dropped g m ec (rep_lookup (es_global s))" using d by simp
  show lu: "live_upd s c w None s'" by (rule live_updI) (auto simp: live_def fields d(5))
  note ho = holders_gone [OF lu e(1,2)]
  have fin: "finite (holders s g)" using inv by (rule holders_finite)
  have cnt: "gc_refCount m = int (card (holders s g))" using global_okD [OF err_invD(3) [OF inv] e(3)] by simp
  have pos: "0 < card (holders s g)" using ho(2) fin by (auto simp: card_gt_0_iff)
  have other: "x = (c, w)" if "x \<in> holders s g" "card (holders s g) = 1" for x
    using that ho(2) by (auto simp: card_1_singleton_iff)
  have "slabs_ok s'"
    unfolding slabs_ok_def loc fields using err_invD(1) [OF inv] d(2,4,6) by (auto simp: slabs_ok_def)
  moreover have "one_table s'" using err_invD(2) [OF inv] by (simp add: one_table_def fields)
  moreover have "global_ok s'"
  proof (rule global_okI)
    fix g' v assume v: "rep_lookup (es_global s') g' = Some v"
    show "\<exists>m. v = JObj m \<and> gc_refCount m = int (card (holders s' g'))"
    proof (cases "g' = g")
      case True
      with v have "v = JObj (m\<lparr>gc_refCount := gc_refCount m - 1\<rparr>)" by (auto simp: G entry_dropped_def split: if_splits)
      moreover have "int (card (holders s g - {(c, w)})) = int (card (holders s g)) - 1"
        using fin ho(2) pos by (simp add: card_Diff_singleton of_nat_diff)
      ultimately show ?thesis using True ho(1) [of g] cnt by simp
    next
      case False
      with v have "rep_lookup (es_global s) g' = Some v" by (simp add: G entry_dropped_def split: if_splits)
      from global_okD [OF err_invD(3) [OF inv] this] False ho(1) show ?thesis by simp
    qed
  qed
  moreover have "live_ok s' c' w' x" if x: "live s' c' w' = Some x" for c' w' x
  proof -
    from x lu have ne: "(c', w') \<noteq> (c, w)" by auto
    with x live_upd_other [OF lu, of c' w'] have o: "live s c' w' = Some x" by auto
    have lg: "rep_lookup (es_global s') g \<noteq> None" if "lc_globalRep x = int g"
    proof -
      have "(c', w') \<in> holders s g" using o that by (simp add: holders_iff)
      then have "gc_refCount m \<noteq> 1" using other ne cnt by auto
      then show ?thesis by (simp add: G entry_dropped_def)
    qed
    from err_invD(4) [OF inv o] show ?thesis
    proof (rule live_ok_mono)
      show "es_tables s' = es_tables s" by (rule fields)
      fix g' assume "lc_globalRep x = int g'" "glob s g' \<noteq> None"
      then show "glob s' g' \<noteq> None"
        using lg by (cases "g' = g") (auto simp: glob_def G entry_dropped_def as_global_def split: if_splits)
    next
      fix ti' l' assume "es_tables s ti' = Some c'" "lc_localIdx x = Some (int l')" "local_at s c' ti' l' = Some (JNum (int w'))"
      moreover have "c' = c \<Longrightarrow> ti' = ti \<Longrightarrow> l' \<noteq> l" using calculation(3) e(5) ne by auto
      ultimately show "local_at s' c' ti' l' = Some (JNum (int w'))" using d(1,7) by (auto simp: local_at_def loc)
    qed
  qed
  moreover have "finite {(c, w). live s' c w \<noteq> None}" using live_upd_finite [OF lu] err_invD(5) [OF inv] by simp
  ultimately show "err_inv s'" unfolding err_inv_def by blast
qed

section \<open>Steps\<close>

text \<open>What no operation but a drop undoes: handles keep their error context, entries their message.\<close>

definition err_grows :: "err_state \<Rightarrow> err_state \<Rightarrow> bool" where
  "err_grows s s' \<longleftrightarrow>
     (\<forall>c w ec. live s c w = Some ec \<longrightarrow> (\<exists>ec'. live s' c w = Some ec' \<and> lc_globalRep ec' = lc_globalRep ec)) \<and>
     (\<forall>g m. glob s g = Some m \<longrightarrow> (\<exists>m'. glob s' g = Some m' \<and> gc_debugMessage m' = gc_debugMessage m))"

lemma err_grows_refl [simp]: "err_grows s s"
  by (simp add: err_grows_def)

lemma err_grows_trans: "err_grows s s' \<Longrightarrow> err_grows s' s'' \<Longrightarrow> err_grows s s''"
  unfolding err_grows_def by metis

lemma err_grows_live:
  assumes "live_upd s c w (Some ec') s'" "\<And>ec. live s c w = Some ec \<Longrightarrow> lc_globalRep ec' = lc_globalRep ec"
    "\<And>g m. glob s g = Some m \<Longrightarrow> \<exists>m'. glob s' g = Some m' \<and> gc_debugMessage m' = gc_debugMessage m"
  shows "err_grows s s'"
  unfolding err_grows_def
proof (intro conjI allI impI)
  fix c' w' ec assume e: "live s c' w' = Some ec"
  show "\<exists>ec'. live s' c' w' = Some ec' \<and> lc_globalRep ec' = lc_globalRep ec"
  proof (cases "c' = c \<and> w' = w")
    case True
    then show ?thesis using assms(1,2) e by simp
  next
    case False
    then show ?thesis using live_upd_other [OF assms(1), of c' w'] e by auto
  qed
qed (use assms(3) in blast)

lemma err_grows_same:
  assumes "live s' = live s" "\<And>g m. glob s g = Some m \<Longrightarrow> \<exists>m'. glob s' g = Some m' \<and> gc_debugMessage m' = gc_debugMessage m"
  shows "err_grows s s'"
  using assms by (simp add: err_grows_def)

lemma glob_iff: "glob s g = Some m \<longleftrightarrow> rep_lookup (es_global s) g = Some (JObj m)"
proof -
  have "as_global v = Some m \<longleftrightarrow> v = JObj m" for v by (cases v) (auto simp: as_global_def)
  then show ?thesis by (auto simp: glob_def Option.bind_eq_Some_conv)
qed

lemma created_grows:
  assumes "err_inv s" "created s c ti g m w l s'" "es_tables s ti = Some c" "rep_lookup (es_global s) g = Some (JObj m)"
  shows "err_grows s s'"
  by (rule err_grows_live [OF created_inv(2) [OF assms]])
    (use created_inv(3,4) [OF assms] assms(4) in \<open>auto simp: glob_iff\<close>)

lemma live_of_get:
  assumes ok: "slabs_ok s" and w: "0 \<le> w" "w < 2 ^ 30" and r: "rep_get w (es_handles s c) = Inr v" "as_err v = Some ec"
  shows "live s c (nat w) = Some ec"
  using rep_get_obj [OF slabs_okD(2) [OF ok], of w c] r w by (auto simp: live_iff as_err_iff)

lemma slabs_room_put:
  assumes "err_inv s" "slabs_room s" "live s c w = Some ec"
  shows "slabs_room (s\<lparr>es_handles := (es_handles s)(c := rep_put (int w) v (es_handles s c))\<rparr>)"
proof -
  from assms(3) have "rep_lookup (es_handles s c) w = Some (JObj (Err_Obj ec))" by (simp add: live_iff)
  from rep_put_ok(3) [OF slabs_okD(2) [OF err_invD(1) [OF assms(1)]] this] assms(2)
  show ?thesis by (auto simp: slabs_room_def rep_room_def)
qed

lemma set_local_new_room: "slabs_room s \<Longrightarrow> slabs_room (set_local c ti rep_new s)"
  by (auto simp: slabs_room_def local_of_set rep_room_def rep_new_def)

lemma getLocalTable_ok:
  assumes "err_inv s" "slabs_room s" "getLocalTable c ti u s = (r, s')"
  shows "err_inv s'" "slabs_room s'" "err_grows s s'" "r = Inr () \<Longrightarrow> \<exists>t. local_of s' c ti = Some t"
    "es_tables s' = es_tables s" "es_global s' = es_global s" "es_handles s' = es_handles s"
    "local_of s c' ti' = Some t' \<Longrightarrow> local_of s' c' ti' = Some t'"
  by (rule getLocalTable_cases [of c ti u s];
      use assms in \<open>auto simp: set_local_new_inv set_local_new_room local_of_set live_def glob_def fun_eq_iff intro!: err_grows_same\<close>)+

lemma slabs_roomD:
  assumes "slabs_room s"
  shows "rep_room (es_global s)" "rep_room (es_handles s c)" "local_of s c ti = Some t \<Longrightarrow> rep_room t"
  using assms by (auto simp: slabs_room_def)

lemma errCtxNew_ok:
  assumes inv: "err_inv s" and room: "slabs_room s" and tb: "es_tables s ti = Some c" and t: "local_of s c ti = Some t"
  obtains w l g m s' where "errCtxNew c ti (Inr msg) s = (Inr (int w), s')" "err_inv s'" "err_grows s s'" "live s c w = None"
    "live s' c w = Some \<lparr>lc_globalRep = int g, lc_refCount = 1, lc_localIdx = Some (int l)\<rparr>"
    "glob s g = None" "glob s' g = Some m" "gc_debugMessage m = msg" "gc_refCount m = 1"
    "gc_home m = Some \<lparr>eh_localIdx = int l, eh_waitableIdx = int w, eh_componentIdx = c, eh_localTableIdx = ti\<rparr>"
    "es_tables s' = es_tables s"
proof -
  from reserve_inv [OF inv slabs_roomD(1) [OF room], of msg] obtain g G where
    g: "reserveGlobalRep msg 0 s = (Inr (int g), s\<lparr>es_global := G\<rparr>)" "err_inv (s\<lparr>es_global := G\<rparr>)" "rep_lookup (es_global s) g = None"
      "rep_lookup G = (rep_lookup (es_global s))(g \<mapsto> JObj \<lparr>gc_refCount = 0, gc_debugMessage = msg, gc_home = None\<rparr>)" by blast
  let ?s1 = "s\<lparr>es_global := G\<rparr>" and ?m = "\<lparr>gc_refCount = 0, gc_debugMessage = msg, gc_home = None\<rparr>"
  have t1: "local_of ?s1 c ti = Some t" "es_tables ?s1 ti = Some c" using t tb by simp_all
  have r1: "rep_room (es_handles ?s1 c)" "rep_room t" using slabs_roomD [OF room] t by auto
  have l1: "rep_lookup (es_global ?s1) g = Some (JObj ?m)" using g(4) by simp
  from createLocalHandle_ok [OF err_invD(1) [OF g(2)] t1(1) r1 l1] obtain w l s2 where
    w: "createLocalHandle c ti (int g) ?s1 = (Inr (int w, int l), s2)" "created ?s1 c ti g ?m w l s2" by blast
  note c2 = created_inv [OF g(2) w(2) t1(2) l1]
  let ?m2 = "?m\<lparr>gc_refCount := 1\<rparr>"
  have l2: "rep_lookup (es_global s2) g = Some (JObj ?m2)" using c2(4) by simp
  let ?m3 = "?m2\<lparr>gc_home := Some \<lparr>eh_localIdx = int l, eh_waitableIdx = int w, eh_componentIdx = c, eh_localTableIdx = ti\<rparr>\<rparr>"
  let ?s' = "s2\<lparr>es_global := rep_put (int g) (JObj ?m3) (es_global s2)\<rparr>"
  have i3: "err_inv ?s'" by (rule put_global_inv [OF c2(1) l2]) simp
  note p3 = rep_put_ok [OF slabs_okD(1) [OF err_invD(1) [OF c2(1)]] l2, of "JObj ?m3", simplified]
  have gi: "get_idx (int g) (es_global s2) = (Inr (JObj ?m2), es_global s2)"
    by (rule get_idx_ok [OF slabs_okD(1) [OF err_invD(1) [OF c2(1)]] l2])
  have lt: "getLocalTable c ti False s = (Inr (), s)"
    by (rule getLocalTable_cases [of c ti False s]) (use t in auto)
  have "errCtxNew c ti (Inr msg) s = (Inr (int w), ?s')"
    by (simp add: errCtxNew_def jbind_def lt g(1) w(1) on_global_def jpart_def gi as_global_def put_idx_def jret_def)
  moreover have "err_grows s ?s'"
  proof (rule err_grows_trans, rule err_grows_same)
    show "live ?s1 = live s" by (simp add: live_def fun_eq_iff)
    show "\<exists>m'. glob ?s1 x = Some m' \<and> gc_debugMessage m' = gc_debugMessage y" if "glob s x = Some y" for x y
      using that g(3,4) by (auto simp: glob_iff)
    show "err_grows ?s1 ?s'"
    proof (rule err_grows_trans [OF created_grows [OF g(2) w(2) t1(2) l1] err_grows_same])
      show "live ?s' = live s2" by (simp add: live_def fun_eq_iff)
      show "\<exists>m'. glob ?s' x = Some m' \<and> gc_debugMessage m' = gc_debugMessage y" if "glob s2 x = Some y" for x y
        using that l2 by (auto simp: glob_iff p3)
    qed
  qed
  moreover have "es_tables ?s' = es_tables s" using w(2) by (auto simp: created_def)
  moreover have "live s c w = None" using c2(3) by (simp add: live_def)
  moreover have "live ?s' c w = Some \<lparr>lc_globalRep = int g, lc_refCount = 1, lc_localIdx = Some (int l)\<rparr>"
    using live_upd_self [OF c2(2)] by (simp add: live_def)
  moreover have "glob s g = None" using g(3) by (simp add: glob_def)
  moreover have "glob ?s' g = Some ?m3" by (simp add: glob_iff p3)
  ultimately show ?thesis using i3 by (intro that [of w ?s' g l ?m3]) simp_all
qed

lemma errCtxTransfer_ok:
  assumes inv: "err_inv s" and room: "slabs_room s" and tb: "es_tables s st = Some sc" "es_tables s dt = Some dc"
    and t: "local_of s sc st = Some t0" and e: "live s sc w = Some ec"
  obtains w' l g s' where "errCtxTransfer (int w) st dt s = (Inr (int w'), s')" "err_inv s'" "err_grows s s'"
    "lc_globalRep ec = int g" "live s dc w' = None"
    "live s' dc w' = Some \<lparr>lc_globalRep = int g, lc_refCount = 1, lc_localIdx = Some (int l)\<rparr>"
    "live s' sc w = Some (ec\<lparr>lc_refCount := lc_refCount ec - 1\<rparr>)"
proof -
  have lt: "getLocalTable sc st False s = (Inr (), s)"
    by (rule getLocalTable_cases [of sc st False s]) (use t in auto)
  obtain s1 where s1: "getLocalTable dc dt True s = (Inr (), s1)"
    by (rule getLocalTable_cases [of dc dt True s]) auto
  note o1 = getLocalTable_ok [OF inv room s1]
  from o1(4) obtain t1 where t1: "local_of s1 dc dt = Some t1" by auto
  have e1: "live s1 sc w = Some ec" using e by (simp add: live_def o1(7))
  from live_okE [OF o1(1) e1] obtain g m l0 where g: "lc_refCount ec \<le> 1" "lc_globalRep ec = int g"
    "rep_lookup (es_global s1) g = Some (JObj m)" "lc_localIdx ec = Some (int l0)" "0 < g" "0 < l0" by metis
  let ?e = "ec\<lparr>lc_refCount := lc_refCount ec - 1\<rparr>"
  let ?s2 = "s1\<lparr>es_handles := (es_handles s1)(sc := rep_put (int w) (JObj (Err_Obj ?e)) (es_handles s1 sc))\<rparr>"
  have i2: "err_inv ?s2" and u2: "live_upd s1 sc w (Some ?e) ?s2" by (rule put_live_inv [OF o1(1) e1], use g in simp_all)+
  have r2: "slabs_room ?s2" by (rule slabs_room_put [OF o1(1,2) e1])
  have t2: "local_of ?s2 dc dt = Some t1" "es_tables ?s2 dt = Some dc" "rep_lookup (es_global ?s2) g = Some (JObj m)"
    using t1 o1(5) tb g by simp_all
  from createLocalHandle_ok [OF err_invD(1) [OF i2] t2(1) slabs_roomD(2) [OF r2] slabs_roomD(3) [OF r2 t2(1)] t2(3)] obtain w' l s3 where
    w: "createLocalHandle dc dt (int g) ?s2 = (Inr (int w', int l), s3)" "created ?s2 dc dt g m w' l s3" by blast
  note c3 = created_inv [OF i2 w(2) t2(2,3)]
  have gi: "get_idx (int w) (es_handles s1 sc) = (Inr (JObj (Err_Obj ec)), es_handles s1 sc)"
    using get_idx_ok [OF slabs_okD(2) [OF err_invD(1) [OF o1(1)]]] e1 by (simp add: live_iff)
  have "errCtxTransfer (int w) st dt s = (Inr (int w'), s3)"
    using g w(1) by (simp add: errCtxTransfer_def tb jbind_def lt s1 on_handles_def jpart_def gi as_err_def put_idx_def jret_def)
  moreover have "err_grows s s3"
  proof (rule err_grows_trans [OF o1(3)], rule err_grows_trans)
    show "err_grows s1 ?s2" by (rule err_grows_live [OF u2]) (use e1 in \<open>auto simp: glob_def\<close>)
    show "err_grows ?s2 s3" by (rule created_grows [OF i2 w(2) t2(2,3)])
  qed
  moreover have ne: "dc \<noteq> sc \<or> w' \<noteq> w" using c3(3) live_upd_self [OF u2] by auto
  have "live s3 sc w = Some ?e" using live_upd_other [OF c3(2), of sc w] ne live_upd_self [OF u2] by auto
  moreover have "live s dc w' = None"
    using c3(3) live_upd_other [OF u2 ne] by (simp add: live_def o1(7))
  ultimately show ?thesis using c3(1) live_upd_self [OF c3(2)] g(2) by (intro that [of w' s3 g l]) simp_all
qed

definition err_evolves :: "err_state \<Rightarrow> err_state \<Rightarrow> bool" where
  "err_evolves s s' \<longleftrightarrow>
     (\<forall>c w ec ec'. live s c w = Some ec \<longrightarrow> live s' c w = Some ec' \<longrightarrow> lc_globalRep ec' = lc_globalRep ec) \<and>
     (\<forall>g m m'. glob s g = Some m \<longrightarrow> glob s' g = Some m' \<longrightarrow> gc_debugMessage m' = gc_debugMessage m)"

lemma grows_evolves: "err_grows s s' \<Longrightarrow> err_evolves s s'"
  unfolding err_grows_def err_evolves_def by fastforce

text \<open>The operations of the guests, and the other users of a component's handles.\<close>

inductive err_step :: "err_state \<Rightarrow> err_state \<Rightarrow> bool" where
  Step_New: "es_tables s ti = Some c \<Longrightarrow> slabs_room s \<Longrightarrow> err_step s (snd (errCtxNew c ti readStr s))"
| Step_Drop: "es_tables s ti = Some c \<Longrightarrow> 0 \<le> w \<Longrightarrow> w < 2 ^ 30 \<Longrightarrow> err_step s (snd (errCtxDrop c ti w s))"
| Step_Transfer: "slabs_room s \<Longrightarrow> 0 \<le> w \<Longrightarrow> w < 2 ^ 30 \<Longrightarrow> err_step s (snd (errCtxTransfer w st dt s))"
| Step_Message: "err_step s (snd (errCtxDebugMessage c w s))"
| Step_Foreign_In: "slabs_room s \<Longrightarrow> err_step s (snd (on_handles c (insert_idx (JObj Foreign)) s))"
| Step_Foreign_Out: "rep_lookup (es_handles s c) w = Some (JObj Foreign) \<Longrightarrow>
     err_step s (snd (on_handles c (remove_idx (int w)) s))"

inductive_cases err_stepE: "err_step s s'"

definition err_start :: "err_state \<Rightarrow> bool" where
  "err_start s \<longleftrightarrow> one_table s \<and> es_global s = rep_new \<and> es_handles s = (\<lambda>_. rep_new) \<and>
     (\<forall>c ti t. local_of s c ti = Some t \<longrightarrow> t = rep_new)"

lemma err_start_inv:
  assumes "err_start s"
  shows "err_inv s"
proof -
  have "rep_inv t" if "local_of s c ti = Some t" for c ti t
    using assms that rep_inv_new by (auto simp: err_start_def)
  with assms show ?thesis by (auto simp: err_start_def err_inv_def slabs_ok_def rep_inv_new global_ok_def live_def)
qed

lemma other_handles_inv:
  assumes inv: "err_inv s" and h: "rep_inv H" "\<And>w. Option.bind (rep_lookup H w) as_err = live s c w"
  shows "err_inv (s\<lparr>es_handles := (es_handles s)(c := H)\<rparr>)" "err_grows s (s\<lparr>es_handles := (es_handles s)(c := H)\<rparr>)"
proof -
  let ?s' = "s\<lparr>es_handles := (es_handles s)(c := H)\<rparr>"
  have lv: "live ?s' = live s" using h(2) by (simp add: fun_eq_iff live_update)
  show "err_inv ?s'"
  proof (rule same_live_inv [OF inv _ _ lv])
    show "slabs_ok ?s'" using err_invD(1) [OF inv] h(1) by (auto simp: slabs_ok_def)
  qed (use global_okD [OF err_invD(3) [OF inv]] in \<open>auto simp: glob_def local_at_def\<close>)
  show "err_grows s ?s'" by (rule err_grows_same [OF lv]) (simp add: glob_def)
qed

lemma foreign_in_inv:
  assumes "err_inv s" "slabs_room s"
  shows "err_inv (snd (on_handles c (insert_idx (JObj Foreign)) s)) \<and> err_grows s (snd (on_handles c (insert_idx (JObj Foreign)) s))"
proof -
  obtain w H where "insert_idx (JObj Foreign) (es_handles s c) = (Inr (int w), H)" "rep_lookup (es_handles s c) w = None"
    "rep_lookup H = (rep_lookup (es_handles s c))(w \<mapsto> JObj Foreign)" "rep_inv H"
    using insert_idx_ok [OF slabs_okD(2) [OF err_invD(1) [OF assms(1)]] slabs_roomD(2) [OF assms(2)]] by metis
  then show ?thesis using other_handles_inv [OF assms(1), of H c] by (simp add: on_handles_def jpart_def live_def as_err_def)
qed

lemma foreign_out_inv:
  assumes "err_inv s" "rep_lookup (es_handles s c) w = Some (JObj Foreign)"
  shows "err_inv (snd (on_handles c (remove_idx (int w)) s)) \<and> err_grows s (snd (on_handles c (remove_idx (int w)) s))"
proof -
  obtain H where "remove_idx (int w) (es_handles s c) = (Inr (JObj Foreign), H)"
    "rep_lookup H = (rep_lookup (es_handles s c))(w := None)" "rep_inv H"
    using remove_idx_ok [OF slabs_okD(2) [OF err_invD(1) [OF assms(1)]] assms(2)] by metis
  then show ?thesis using other_handles_inv [OF assms(1), of H c] assms(2)
    by (simp add: on_handles_def jpart_def live_def as_err_def)
qed

lemma get_handle_cases:
  assumes "err_inv s" "0 \<le> w" "w < 2 ^ 30"
  obtains (fails) e where "get_idx w (es_handles s c) = (Inl e, es_handles s c)"
  | (none) v where "get_idx w (es_handles s c) = (Inr v, es_handles s c)" "as_err v = None"
  | (some) ec where "get_idx w (es_handles s c) = (Inr (JObj (Err_Obj ec)), es_handles s c)" "live s c (nat w) = Some ec"
proof (cases "rep_get w (es_handles s c)")
  case (Inr v)
  then show ?thesis using that(2,3) live_of_get [OF err_invD(1) [OF assms(1)] assms(2,3) Inr]
    by (cases "as_err v") (auto simp: get_idx_def as_err_iff)
qed (use that(1) in \<open>auto simp: get_idx_def\<close>)

lemma errCtxDrop_inv:
  assumes inv: "err_inv s" and tb: "es_tables s ti = Some c" and w: "0 \<le> w" "w < 2 ^ 30"
  shows "err_inv (snd (errCtxDrop c ti w s)) \<and> err_evolves s (snd (errCtxDrop c ti w s))"
proof (rule get_handle_cases [OF inv w, of c])
  fix ec assume g: "get_idx w (es_handles s c) = (Inr (JObj (Err_Obj ec)), es_handles s c)" and e: "live s c (nat w) = Some ec"
  from live_okE [OF inv e] obtain g m ti' l t where o: "lc_refCount ec \<le> 1" "lc_globalRep ec = int g"
    "rep_lookup (es_global s) g = Some (JObj m)" "es_tables s ti' = Some c" "lc_localIdx ec = Some (int l)"
    "local_of s c ti' = Some t" "rep_lookup t l = Some (JNum (int (nat w)))" "0 < nat w" by metis
  have ti: "ti' = ti" using err_invD(2) [OF inv] o(4) tb by (auto simp: one_table_def)
  from errCtxDrop_ok [OF err_invD(1) [OF inv] e o(1,2,3,5) o(6) [unfolded ti] o(7,8)] obtain s' where
    s': "dropped s c ti (nat w) l g m ec s'" "snd (errCtxDrop c ti (int (nat w)) s) = s'" by (metis snd_conv)
  have "local_at s c ti l = Some (JNum (int (nat w)))" using o ti by (simp add: local_at_def)
  note d = dropped_inv [OF inv s'(1) tb e o(2,3,5) this]
  have "err_evolves s s'"
    unfolding err_evolves_def
  proof (intro conjI allI impI)
    fix c' w' x x' assume "live s c' w' = Some x" "live s' c' w' = Some x'"
    then show "lc_globalRep x' = lc_globalRep x"
      using live_upd_self [OF d(2)] live_upd_other [OF d(2), of c' w'] by (cases "c' = c \<and> w' = nat w") auto
  next
    fix g' y y' assume "glob s g' = Some y" "glob s' g' = Some y'"
    then show "gc_debugMessage y' = gc_debugMessage y"
      using o(3) by (auto simp: glob_iff d(3) entry_dropped_def split: if_splits)
  qed
  with d(1) s'(2) w show ?thesis by simp
qed (auto simp: errCtxDrop_def jbind_def on_handles_def jpart_def jthrow_def inv grows_evolves)

lemma errCtxTransfer_inv:
  assumes inv: "err_inv s" and room: "slabs_room s" and w: "0 \<le> w" "w < 2 ^ 30"
  shows "err_inv (snd (errCtxTransfer w st dt s)) \<and> err_grows s (snd (errCtxTransfer w st dt s))"
proof (cases "\<exists>sc dc t. es_tables s st = Some sc \<and> es_tables s dt = Some dc \<and> local_of s sc st = Some t")
  case False
  have "snd (errCtxTransfer w st dt s) = s"
  proof (cases "es_tables s st = None \<or> es_tables s dt = None")
    case True
    then show ?thesis by (auto simp: errCtxTransfer_def split: option.splits)
  next
    case False
    with \<open>\<not> (\<exists>sc dc t. _ sc dc t)\<close> obtain sc dc where c: "es_tables s st = Some sc" "es_tables s dt = Some dc" "local_of s sc st = None"
      by (metis not_Some_eq)
    show ?thesis by (rule getLocalTable_cases [of sc st False s]) (use c in \<open>auto simp: errCtxTransfer_def jbind_def\<close>)
  qed
  then show ?thesis using inv by simp
next
  case True
  then obtain sc dc t where c: "es_tables s st = Some sc" "es_tables s dt = Some dc" "local_of s sc st = Some t" by blast
  have lt: "getLocalTable sc st False s = (Inr (), s)"
    by (rule getLocalTable_cases [of sc st False s]) (use c in auto)
  obtain s1 where s1: "getLocalTable dc dt True s = (Inr (), s1)"
    by (rule getLocalTable_cases [of dc dt True s]) auto
  note o1 = getLocalTable_ok [OF inv room s1]
  show ?thesis
  proof (rule get_handle_cases [OF o1(1) w, of sc])
    fix ec assume "live s1 sc (nat w) = Some ec"
    then have "live s sc (nat w) = Some ec" by (simp add: live_def o1(7))
    from errCtxTransfer_ok [OF inv room c this] w show ?thesis by (metis nat_0_le snd_conv)
  qed (use o1(1,3) in \<open>auto simp: errCtxTransfer_def c jbind_def lt s1 on_handles_def jpart_def jthrow_def\<close>)
qed

lemma errCtxNew_inv:
  assumes inv: "err_inv s" and room: "slabs_room s" and tb: "es_tables s ti = Some c"
  shows "err_inv (snd (errCtxNew c ti readStr s)) \<and> err_grows s (snd (errCtxNew c ti readStr s))"
proof (cases "local_of s c ti")
  case None
  show ?thesis by (rule getLocalTable_cases [of c ti False s]) (use None inv in \<open>auto simp: errCtxNew_def jbind_def\<close>)
next
  case (Some t)
  have lt: "getLocalTable c ti False s = (Inr (), s)"
    by (rule getLocalTable_cases [of c ti False s]) (use Some in auto)
  show ?thesis
  proof (cases readStr)
    case (Inl e)
    then show ?thesis using inv by (simp add: errCtxNew_def jbind_def lt jthrow_def)
  next
    case (Inr msg)
    from errCtxNew_ok [OF inv room tb Some, of msg] show ?thesis unfolding Inr by (metis snd_conv)
  qed
qed

lemma debug_message_state [simp]: "snd (errCtxDebugMessage c w s) = s"
  by (simp add: errCtxDebugMessage_def jbind_def on_handles_def on_global_def jpart_def get_idx_def jret_def jthrow_def
    split: sum.split option.split jsv.split)

lemma err_step_inv: "err_step s s' \<Longrightarrow> err_inv s \<Longrightarrow> err_inv s' \<and> err_evolves s s'"
  by (erule err_stepE; hypsubst)
    (simp_all add: errCtxDrop_inv errCtxNew_inv errCtxTransfer_inv foreign_in_inv foreign_out_inv grows_evolves)

lemma err_reachable_inv:
  assumes "err_start s0" "err_step\<^sup>*\<^sup>* s0 s"
  shows "err_inv s"
  using assms(2) by (induction rule: rtranclp_induct) (use err_start_inv [OF assms(1)] err_step_inv in blast)+

section \<open>The tables that are created at instantiation\<close>

lemma jseq_snoc: "jseq f (xs @ [x]) = jbind (jseq f xs) (\<lambda>_. f x)"
  by (induction xs) (simp_all add: jbind_def jret_def fun_eq_iff split: prod.split sum.split)

text \<open>The statements emitted so far have created the tables whose flag is set, and only those components'
  maps; \<open>owner\<close> is the component of a table.\<close>

definition inits_ok :: "(nat \<Rightarrow> nat) \<Rightarrow> err_state \<Rightarrow> init_flags \<Rightarrow> bool" where
  "inits_ok owner s0 f \<longleftrightarrow> (\<exists>s. jseq run_local_init (fl_js f) s0 = (Inr (), s) \<and>
     (\<forall>c < length (fl_component f). fl_component f ! c \<longleftrightarrow> es_local s (int c) \<noteq> None) \<and>
     (\<forall>t < length (fl_table f). fl_table f ! t \<longrightarrow> local_of s (int (owner t)) (int t) = Some rep_new))"

lemma init_component_ok:
  assumes "inits_ok owner s0 f" "c < length (fl_component f)" "\<not> fl_component f ! c"
  shows "inits_ok owner s0 (f\<lparr>fl_js := fl_js f @ [Set_Component c], fl_component := (fl_component f)[c := True]\<rparr>)"
proof -
  from assms(1) obtain s where s: "jseq run_local_init (fl_js f) s0 = (Inr (), s)"
    "\<forall>c < length (fl_component f). fl_component f ! c \<longleftrightarrow> es_local s (int c) \<noteq> None"
    "\<forall>t < length (fl_table f). fl_table f ! t \<longrightarrow> local_of s (int (owner t)) (int t) = Some rep_new"
    unfolding inits_ok_def by blast
  have n: "es_local s (int c) = None" using s(2) assms(2,3) by auto
  let ?s = "s\<lparr>es_local := (es_local s)(int c \<mapsto> Map.empty)\<rparr>"
  have "local_of ?s (int c') t = (if c' = c then None else local_of s (int c') t)" for c' t
    by (simp add: local_of_def)
  moreover have "local_of s (int c) t = None" for t using n by (simp add: local_of_def)
  ultimately have "\<forall>t < length (fl_table f). fl_table f ! t \<longrightarrow> local_of ?s (int (owner t)) (int t) = Some rep_new"
    using s(3) by force
  with s assms(2) show ?thesis
    by (auto simp: inits_ok_def jseq_snoc jbind_def nth_list_update intro!: exI [of _ ?s])
qed

lemma init_table_ok:
  assumes "inits_ok owner s0 f" "t < length (fl_table f)" "owner t < length (fl_component f)" "fl_component f ! owner t"
  shows "inits_ok owner s0 (f\<lparr>fl_js := fl_js f @ [Set_Table (owner t) t], fl_table := (fl_table f)[t := True]\<rparr>)"
proof -
  from assms(1) obtain s where s: "jseq run_local_init (fl_js f) s0 = (Inr (), s)"
    "\<forall>c < length (fl_component f). fl_component f ! c \<longleftrightarrow> es_local s (int c) \<noteq> None"
    "\<forall>t < length (fl_table f). fl_table f ! t \<longrightarrow> local_of s (int (owner t)) (int t) = Some rep_new"
    unfolding inits_ok_def by blast
  then obtain ts where n: "es_local s (int (owner t)) = Some ts" using assms(3,4) by auto
  let ?s = "set_local (int (owner t)) (int t) rep_new s"
  have "\<forall>c < length (fl_component f). fl_component f ! c \<longleftrightarrow> es_local ?s (int c) \<noteq> None"
    using s(2) assms(3,4) by (auto simp: set_local_def)
  moreover have "\<forall>x < length (fl_table f). (fl_table f)[t := True] ! x \<longrightarrow> local_of ?s (int (owner x)) (int x) = Some rep_new"
    using s(3) assms(2) by (auto simp: local_of_set nth_list_update split: if_splits)
  ultimately show ?thesis using s(1) n
    by (auto simp: inits_ok_def jseq_snoc jbind_def intro!: exI [of _ ?s])
qed

text \<open>Whatever tables are asked for, the emitted statements run without an error, create every table that
  was asked for, empty, and replace none.\<close>

lemma ensure_tables_run:
  assumes "inits_ok owner s0 f" "\<forall>t\<in>set ts. t < length (fl_table f) \<and> owner t < length (fl_component f)"
  shows "inits_ok owner s0 (fold (\<lambda>t. ensure_error_context_local_table (owner t) t) ts f) \<and>
    (\<forall>t\<in>set ts. fl_table (fold (\<lambda>t. ensure_error_context_local_table (owner t) t) ts f) ! t)"
proof -
  let ?e = "\<lambda>t. ensure_error_context_local_table (owner t) t"
  have step: "inits_ok owner s0 (?e t f) \<and> fl_table (?e t f) ! t \<and> length (fl_table (?e t f)) = length (fl_table f) \<and>
      length (fl_component (?e t f)) = length (fl_component f) \<and> (\<forall>x. fl_table f ! x \<longrightarrow> fl_table (?e t f) ! x)"
    if "inits_ok owner s0 f" "t < length (fl_table f)" "owner t < length (fl_component f)" for t f
  proof -
    let ?f1 = "f\<lparr>fl_js := fl_js f @ [Set_Component (owner t)], fl_component := (fl_component f)[owner t := True]\<rparr>"
    have "inits_ok owner s0 (f\<lparr>fl_js := fl_js f @ [Set_Table (owner t) t], fl_table := (fl_table f)[t := True]\<rparr>)"
      if "fl_component f ! owner t" using init_table_ok \<open>inits_ok owner s0 f\<close> \<open>t < _\<close> \<open>owner t < _\<close> that by blast
    moreover have "inits_ok owner s0 ?f1" if "\<not> fl_component f ! owner t"
      using init_component_ok \<open>inits_ok owner s0 f\<close> \<open>owner t < _\<close> that by blast
    moreover have "inits_ok owner s0 (?f1\<lparr>fl_js := fl_js ?f1 @ [Set_Table (owner t) t], fl_table := (fl_table ?f1)[t := True]\<rparr>)"
      if "\<not> fl_component f ! owner t" using init_table_ok [of owner s0 ?f1 t] calculation(2) that \<open>t < _\<close> \<open>owner t < _\<close> by simp
    ultimately show ?thesis using that
      by (auto simp: ensure_error_context_local_table_def Let_def nth_list_update)
  qed
  have "inits_ok owner s0 (fold ?e ts f) \<and> (\<forall>t\<in>set ts. fl_table (fold ?e ts f) ! t) \<and> (\<forall>x. fl_table f ! x \<longrightarrow> fl_table (fold ?e ts f) ! x)"
    using assms
  proof (induction ts arbitrary: f)
    case (Cons t ts)
    from step [of f t] Cons.prems have e: "inits_ok owner s0 (?e t f)" "fl_table (?e t f) ! t"
      "length (fl_table (?e t f)) = length (fl_table f)" "length (fl_component (?e t f)) = length (fl_component f)"
      "\<forall>x. fl_table f ! x \<longrightarrow> fl_table (?e t f) ! x" by auto
    from Cons.IH [OF e(1)] Cons.prems(2) e show ?case by auto
  qed simp
  then show ?thesis by blast
qed

section \<open>Properties\<close>

lemma debug_message_live:
  assumes "slabs_ok s" "live s c w = Some ec" "lc_globalRep ec = int g" "glob s g = Some m"
  shows "errCtxDebugMessage c (int w) s = (Inr (gc_debugMessage m), s)"
  using get_idx_ok [OF slabs_okD(2) [OF assms(1)]] get_idx_ok [OF slabs_okD(1) [OF assms(1)]] assms(2-)
  by (simp add: errCtxDebugMessage_def jbind_def on_handles_def on_global_def jpart_def live_iff glob_iff as_err_def jret_def)


text \<open>The handle that creating an error context returns gives the message it was created with, for
  as long as the handle is not dropped, whatever the components do in between.\<close>

theorem error_context_message_kept:
  assumes "err_start s0" "err_step\<^sup>*\<^sup>* s0 s" "es_tables s ti = Some c" "slabs_room s"
    and "errCtxNew c ti (Inr msg) s = (Inr w, s1)"
    and "(\<lambda>a b. err_step a b \<and> live b c (nat w) \<noteq> None)\<^sup>*\<^sup>* s1 s2"
  shows "errCtxDebugMessage c w s2 = (Inr msg, s2)"
proof -
  note inv = err_reachable_inv [OF assms(1,2)]
  have "local_of s c ti \<noteq> None"
    by (rule getLocalTable_cases [of c ti False s]) (use assms(5) in \<open>auto simp: errCtxNew_def jbind_def\<close>)
  then obtain t where t: "local_of s c ti = Some t" by blast
  from errCtxNew_ok [OF inv assms(4,3) t, of msg] assms(5) obtain w' g l m where
    n: "w = int w'" "err_inv s1" "live s1 c w' = Some \<lparr>lc_globalRep = int g, lc_refCount = 1, lc_localIdx = Some (int l)\<rparr>"
      "glob s1 g = Some m" "gc_debugMessage m = msg" by (metis Inr_inject Pair_inject)
  have "err_inv s2 \<and> (\<exists>ec m. live s2 c w' = Some ec \<and> lc_globalRep ec = int g \<and> glob s2 g = Some m \<and> gc_debugMessage m = msg)"
    using assms(6)
  proof (induction rule: rtranclp_induct)
    case base
    then show ?case using n by auto
  next
    case (step a b)
    then obtain ec m where a: "err_inv a" "live a c w' = Some ec" "lc_globalRep ec = int g" "glob a g = Some m" "gc_debugMessage m = msg"
      by blast
    from step.hyps(2) a(1) have b: "err_inv b" "err_evolves a b" using err_step_inv by blast+
    from step.hyps(2) obtain ec' where ec': "live b c w' = Some ec'" by (auto simp: n(1))
    with a b(2) have g': "lc_globalRep ec' = int g" unfolding err_evolves_def by metis
    from live_okE [OF b(1) ec'] g' obtain m' where "glob b g = Some m'" by (metis glob_iff of_nat_eq_iff)
    moreover from this a b(2) have "gc_debugMessage m' = msg" unfolding err_evolves_def by metis
    ultimately show ?case using b(1) ec' g' by blast
  qed
  then show ?thesis using debug_message_live err_invD(1) n(1) by blast
qed

text \<open>Dropping a handle that is not the last one of its error context succeeds. Dropping the last one
  removes the error context only when the component never passed it on: otherwise the drop throws after
  it has removed the handle, and the entry of the error context stays although no handle is left.\<close>

theorem error_context_drop:
  assumes "err_start s0" "err_step\<^sup>*\<^sup>* s0 s" "es_tables s ti = Some c"
    and "live s c w = Some ec" "lc_globalRep ec = int g" "errCtxDrop c ti (int w) s = (r, s')"
  shows "live s' c w = None \<and> holders s' g = holders s g - {(c, w)} \<and>
    (if holders s g \<noteq> {(c, w)} then r = Inr () \<and> glob s' g \<noteq> None
     else if lc_refCount ec = 1 then r = Inr () \<and> glob s' g = None
     else r = Inl (Err ''local refCount exceeds global during removal'') \<and> glob s' g \<noteq> None)"
proof -
  note inv = err_reachable_inv [OF assms(1,2)]
  from live_okE [OF inv assms(4)] assms(5) obtain m ti' l t where o: "lc_refCount ec \<le> 1"
    "rep_lookup (es_global s) g = Some (JObj m)" "gc_refCount m = int (card (holders s g))" "es_tables s ti' = Some c" "lc_localIdx ec = Some (int l)"
    "local_of s c ti' = Some t" "rep_lookup t l = Some (JNum (int w))" "0 < w" "(c, w) \<in> holders s g" by (metis of_nat_eq_iff)
  have ti: "ti' = ti" using err_invD(2) [OF inv] o(4) assms(3) by (auto simp: one_table_def)
  from errCtxDrop_ok [OF err_invD(1) [OF inv] assms(4) o(1) assms(5) o(2,5) o(6) [unfolded ti] o(7,8)] obtain s'' where
    e: "dropped s c ti w l g m ec s''" "errCtxDrop c ti (int w) s =
      (if gc_refCount m = 1 \<and> lc_refCount ec \<noteq> 1 then Inl (Err ''local refCount exceeds global during removal'') else Inr (), s'')" .
  from e(2) assms(6) have
    r: "r = (if gc_refCount m = 1 \<and> lc_refCount ec \<noteq> 1 then Inl (Err ''local refCount exceeds global during removal'') else Inr ())"
    and "s'' = s'" by simp_all
  with e(1) have s': "dropped s c ti w l g m ec s'" by simp
  have "local_at s c ti l = Some (JNum (int w))" using o ti by (simp add: local_at_def)
  note d = dropped_inv [OF inv s' assms(3,4,5) o(2,5) this]
  have one: "gc_refCount m = 1 \<longleftrightarrow> holders s g = {(c, w)}"
    using o(3,9) by (auto simp: card_1_singleton_iff)
  show ?thesis
    using live_upd_self [OF d(2)] holders_gone(1) [OF d(2) assms(4,5), of g] r one
    by (auto simp: glob_def d(3) entry_dropped_def as_global_def)
qed

text \<open>An error context that was lifted right after it was created can be lowered nowhere: the lower function
  calls a method \<open>remove\<close> that the state of a component does not have.\<close>

theorem lifted_error_context_not_lowered:
  assumes "err_start s0" "err_step\<^sup>*\<^sup>* s0 s" "es_tables s ti = Some c" "slabs_room s"
    and "errCtxNew c ti (Inr msg) s = (Inr w, s1)"
  shows "\<exists>l rep s2. liftFlatErrorContext ti c True [l] s1 = (Inr (rep, []), s2) \<and>
    (\<forall>c' ti'. lowerFlatErrorContext ti' c' rep s2 = (Inl (TypeErr ''prevComponentState.remove is not a function''), s2))"
proof -
  note inv = err_reachable_inv [OF assms(1,2)]
  have "local_of s c ti \<noteq> None"
    by (rule getLocalTable_cases [of c ti False s]) (use assms(5) in \<open>auto simp: errCtxNew_def jbind_def\<close>)
  then obtain t where t: "local_of s c ti = Some t" by blast
  let ?e = "\<lambda>g l r. \<lparr>lc_globalRep = int g, lc_refCount = r, lc_localIdx = Some (int l)\<rparr>"
  from errCtxNew_ok [OF inv assms(4,3) t, of msg] assms(5) obtain w' g l m where
    n: "w = int w'" "err_inv s1" "live s1 c w' = Some (?e g l 1)" "glob s1 g = Some m"
      "gc_home m = Some \<lparr>eh_localIdx = int l, eh_waitableIdx = int w', eh_componentIdx = c, eh_localTableIdx = ti\<rparr>"
    and tbs: "es_tables s1 = es_tables s" by (metis Inr_inject Pair_inject)
  from live_okE [OF n(2,3)] obtain ti' t1 where o: "es_tables s1 ti' = Some c" "local_of s1 c ti' = Some t1"
    "rep_lookup t1 l = Some (JNum (int w'))" by (metis local_ctx.select_convs(3) nat_int option.inject)
  have "ti' = ti" using err_invD(2) [OF n(2)] o(1) assms(3) tbs by (auto simp: one_table_def)
  note ok = err_invD(1) [OF n(2)]
  have h: "rep_lookup (es_handles s1 c) w' = Some (JObj (Err_Obj (?e g l 1)))" using n(3) by (simp add: live_iff)
  have gg: "rep_lookup (es_global s1) g = Some (JObj m)" using n(4) by (simp add: glob_iff)
  let ?H = "rep_put (int w') (JObj (Err_Obj (?e g l 0))) (es_handles s1 c)"
  let ?m = "m\<lparr>gc_refCount := gc_refCount m + 1\<rparr>"
  let ?G = "rep_put (int g) (JObj ?m) (es_global s1)"
  let ?s2 = "s1\<lparr>es_handles := (es_handles s1)(c := ?H), es_global := ?G\<rparr>"
  note ph = rep_put_ok [OF slabs_okD(2) [OF ok] h, of "JObj (Err_Obj (?e g l 0))"]
  note pg = rep_put_ok [OF slabs_okD(1) [OF ok] gg, of "JObj ?m"]
  have lt: "getLocalTable c ti False s1 = (Inr (), s1)"
    by (rule getLocalTable_cases [of c ti False s1]) (use o(2) \<open>ti' = ti\<close> in auto)
  note gets = get_idx_ok [OF slabs_okD(3) [OF ok o(2)] o(3)] get_idx_ok [OF slabs_okD(2) [OF ok] h] get_idx_ok [OF slabs_okD(1) [OF ok] gg]
  have "liftFlatErrorContext ti c True [int l] s1 = (Inr (int g, []), ?s2)"
    using o(2) \<open>ti' = ti\<close>
    by (simp add: liftFlatErrorContext_def jbind_def lt on_local_def jpart_def gets get_by_cell_def on_handles_def as_err_def
      put_idx_def globalRefCountAdd_def on_global_def as_global_def jret_def set_local_same)
  moreover have "lowerFlatErrorContext ti'' c'' (int g) ?s2 = (Inl (TypeErr ''prevComponentState.remove is not a function''), ?s2)" for ti'' c''
  proof -
    have "get_idx (int g) ?G = (Inr (JObj ?m), ?G)" "get_idx (int w') ?H = (Inr (JObj (Err_Obj (?e g l 0))), ?H)"
      by (rule get_idx_ok; simp add: pg ph)+
    then show ?thesis using n(5)
      by (simp add: lowerFlatErrorContext_def check_previous_def jbind_def on_global_def on_handles_def jpart_def jthrow_def)
  qed
  ultimately show ?thesis by blast
qed

section \<open>Witnesses\<close>

text \<open>Two components with a table each; component 0 creates an error context, passes it to component 1,
  which drops it.\<close>

definition err_d0 :: err_state where
  "err_d0 = \<lparr>es_global = rep_new, es_handles = \<lambda>_. rep_new, es_local = [0 \<mapsto> [0 \<mapsto> rep_new]], es_tables = [0 \<mapsto> 0, 1 \<mapsto> 1]\<rparr>"

definition err_one :: "'v jsv \<Rightarrow> 'v rep_table" where
  "err_one v = \<lparr>rt_data = [JNum 0, JNull, v, JNull], rt_size = 1\<rparr>"

definition err_dg :: "int \<Rightarrow> global_ctx" where
  "err_dg n = \<lparr>gc_refCount = n, gc_debugMessage = ''x'',
     gc_home = Some \<lparr>eh_localIdx = 1, eh_waitableIdx = 1, eh_componentIdx = 0, eh_localTableIdx = 0\<rparr>\<rparr>"

definition err_dl :: "int \<Rightarrow> err_obj jsv" where
  "err_dl n = JObj (Err_Obj \<lparr>lc_globalRep = 1, lc_refCount = n, lc_localIdx = Some 1\<rparr>)"

definition err_d1 :: err_state where
  "err_d1 = \<lparr>es_global = err_one (JObj (err_dg 1)), es_handles = (\<lambda>_. rep_new)(0 := err_one (err_dl 1)),
     es_local = [0 \<mapsto> [0 \<mapsto> err_one (JNum 1)]], es_tables = [0 \<mapsto> 0, 1 \<mapsto> 1]\<rparr>"

definition err_d2 :: err_state where
  "err_d2 = \<lparr>es_global = err_one (JObj (err_dg 2)), es_handles = (\<lambda>_. rep_new)(0 := err_one (err_dl 0), 1 := err_one (err_dl 1)),
     es_local = [0 \<mapsto> [0 \<mapsto> err_one (JNum 1)], 1 \<mapsto> [1 \<mapsto> err_one (JNum 1)]], es_tables = [0 \<mapsto> 0, 1 \<mapsto> 1]\<rparr>"

lemmas err_eval = err_d0_def err_d1_def err_d2_def err_one_def err_dg_def err_dl_def jbind_def jret_def jthrow_def jpart_def
  on_global_def on_handles_def on_local_def local_of_def set_local_def insert_idx_def remove_idx_def get_idx_def put_idx_def
  rep_insert_def rep_remove_def rep_get_def rep_put_def rep_contains_def rep_new_def js_get_def js_set_def Let_def
  getLocalTable_def reserveGlobalRep_def createLocalHandle_def globalRefCountAdd_def as_err_def as_global_def

lemma err_demo_new: "errCtxNew 0 0 (Inr ''x'') err_d0 = (Inr 1, err_d1)"
  by (simp add: errCtxNew_def err_eval)

lemma err_demo_transfer: "errCtxTransfer 1 0 1 err_d1 = (Inr 1, err_d2)"
  by (simp add: errCtxTransfer_def err_eval)

lemma err_demo_start: "err_start err_d0"
  by (auto simp: err_start_def one_table_def err_d0_def local_of_def Option.bind_eq_Some_conv split: if_splits)

lemma err_demo_room: "slabs_room err_d0" "slabs_room err_d1"
  by (auto simp: slabs_room_def rep_room_def err_d0_def err_d1_def err_one_def rep_new_def local_of_def
    Option.bind_eq_Some_conv split: if_splits)

lemma err_demo_tables [simp]: "es_tables err_d0 0 = Some 0" "es_tables err_d1 0 = Some 0" "es_tables err_d2 0 = Some 0"
  "es_tables err_d2 1 = Some 1"
  by (simp_all add: err_d0_def err_d1_def err_d2_def)

lemma err_demo_step1: "err_step err_d0 err_d1"
  using Step_New [of err_d0 0 0 "Inr ''x''"] err_demo_room(1) by (simp add: err_demo_new)

lemma err_demo_step2: "err_step err_d1 err_d2"
  using Step_Transfer [of err_d1 1 0 1] err_demo_room(2) by (simp add: err_demo_transfer)

lemma err_demo_live: "live err_d2 0 1 = Some \<lparr>lc_globalRep = 1, lc_refCount = 0, lc_localIdx = Some 1\<rparr>"
  "live err_d2 1 1 = Some \<lparr>lc_globalRep = 1, lc_refCount = 1, lc_localIdx = Some 1\<rparr>"
  "live err_d1 0 1 = Some \<lparr>lc_globalRep = 1, lc_refCount = 1, lc_localIdx = Some 1\<rparr>"
  "glob err_d2 1 = Some (err_dg 2)"
  by (simp_all add: live_iff glob_iff err_d1_def err_d2_def err_one_def err_dl_def rep_lookup_def rep_free_def rep_link_def js_get_def)


theorem error_context_message_kept_witness: "errCtxDebugMessage 0 1 err_d2 = (Inr ''x'', err_d2)"
proof -
  have "(\<lambda>a b. err_step a b \<and> live b 0 (nat 1) \<noteq> None)\<^sup>*\<^sup>* err_d1 err_d2"
    using err_demo_step2 err_demo_live(1) by (intro r_into_rtranclp) simp
  from error_context_message_kept [OF err_demo_start rtranclp.rtrancl_refl _ err_demo_room(1) err_demo_new this] show ?thesis by simp
qed

definition err_d3 :: err_state where
  "err_d3 = snd (errCtxDrop 1 1 1 err_d2)"

lemma err_demo_step3: "err_step err_d2 err_d3"
  unfolding err_d3_def by (rule Step_Drop) simp_all

lemma err_demo_drop: "err_d3 = err_d2\<lparr>es_global := err_one (JObj (err_dg 1)),
    es_handles := (es_handles err_d2)(1 := \<lparr>rt_data = [JNum 1, JNull, JNum 0, JNull], rt_size = 0\<rparr>),
    es_local := [0 \<mapsto> [0 \<mapsto> err_one (JNum 1)], 1 \<mapsto> [1 \<mapsto> \<lparr>rt_data = [JNum 1, JNull, JNum 0, JNull], rt_size = 0\<rparr>]]\<rparr>"
  by (simp add: err_d3_def errCtxDrop_def err_eval)

theorem error_context_drop_witness:
  "\<exists>s'. errCtxDrop 0 0 1 err_d3 = (Inl (Err ''local refCount exceeds global during removal''), s') \<and>
     holders s' 1 = {} \<and> glob s' 1 \<noteq> None"
proof -
  obtain r s' where d: "errCtxDrop 0 0 (int 1) err_d3 = (r, s')" by fastforce
  have reach: "err_step\<^sup>*\<^sup>* err_d0 err_d3"
    using err_demo_step1 err_demo_step2 err_demo_step3 by (meson converse_rtranclp_into_rtranclp rtranclp.rtrancl_refl)
  have live: "live err_d3 0 1 = Some \<lparr>lc_globalRep = 1, lc_refCount = 0, lc_localIdx = Some 1\<rparr>"
    using err_demo_live(1) by (simp add: live_def err_demo_drop)
  have "glob err_d3 1 = Some (err_dg 1)"
    by (simp add: glob_iff err_demo_drop err_one_def rep_lookup_def rep_free_def rep_link_def js_get_def)
  then have "card (holders err_d3 1) = 1"
    using global_okD [OF err_invD(3) [OF err_reachable_inv [OF err_demo_start reach]], of 1 "JObj (err_dg 1)"]
    by (simp add: glob_iff err_dg_def)
  moreover have "(0, 1) \<in> holders err_d3 1" using live by (simp add: holders_iff)
  ultimately have "holders err_d3 1 = {(0, 1)}" by (auto simp: card_1_singleton_iff)
  with error_context_drop [OF err_demo_start reach _ live _ d, of 1] d show ?thesis
    by (simp add: err_demo_drop err_d2_def)
qed

theorem lifted_error_context_not_lowered_witness:
  "\<exists>l rep s2. liftFlatErrorContext 0 0 True [l] err_d1 = (Inr (rep, []), s2) \<and>
     lowerFlatErrorContext 1 1 rep s2 = (Inl (TypeErr ''prevComponentState.remove is not a function''), s2)"
  using lifted_error_context_not_lowered [OF err_demo_start rtranclp.rtrancl_refl _ err_demo_room(1) err_demo_new]
  by (simp, blast)

end
