(* ===== verification/Resource_Table.thy ===== *)
theory Resource_Table
  imports Handle_Table
begin

text \<open>
  The resource handle tables emitted by \<open>ResourceIntrinsic\<close>
  (\<open>src/crates/js-component-bindgen/src/intrinsics/resource.rs\<close>): a slab of pairs of numbers. The
  pair 0 holds the head of the free list; a free pair holds the next free pair with the bit
  \<open>1 << 30\<close> set; the pair of a live handle holds the scope and then the representation, with
  the same bit set in the second cell when the handle owns the resource.
\<close>

section \<open>State and operations\<close>

definition T_FLAG :: int where
  "T_FLAG = js_shl 1 30"

type_synonym cells = "unit jsv list"

record rsc_table =
  rsc_cells :: cells
  rsc_created :: "int set"

text \<open>A table as the transfers create it: \<open>[T_FLAG, 0]\<close> with an empty \<open>_createdReps\<close>.\<close>

definition rsc_new :: rsc_table where
  "rsc_new = \<lparr>rsc_cells = [JNum T_FLAG, JNum 0], rsc_created = {}\<rparr>"

type_synonym rsc_entry = "int \<times> unit jsv \<times> bool"

definition rsc_free_head :: "rsc_table \<Rightarrow> int" where
  "rsc_free_head t = js_and (num_of (js_get (rsc_cells t) 0)) (js_not T_FLAG)"

text \<open>The common part of the two creation functions: take a free pair, or push a new one.\<close>

definition rsc_place :: "unit jsv \<Rightarrow> unit jsv \<Rightarrow> rsc_table \<Rightarrow> int \<times> rsc_table" where
  "rsc_place scope val t =
     (let free = rsc_free_head t; c = rsc_cells t in
      if free = 0 then
        let c1 = (c @ [scope]) @ [val]
        in (js_shr (int (length c1)) 1 - 1, t\<lparr>rsc_cells := c1\<rparr>)
      else
        let c1 = js_set c 0 (js_get c (js_shl free 1));
            c2 = js_set c1 (js_shl free 1) scope;
            c3 = js_set c2 (js_shl free 1 + 1) val
        in (free, t\<lparr>rsc_cells := c3\<rparr>))"

definition rscTableCreateBorrow :: "int \<Rightarrow> unit jsv \<Rightarrow> rsc_table \<Rightarrow> (int \<times> rsc_table) js" where
  "rscTableCreateBorrow rep scopeId t =
     (if scopeId = JUndef then Inl (Err ''missing scopeId'')
      else Inr (rsc_place scopeId (JNum rep) t))"

definition rscTableCreateOwn :: "int \<Rightarrow> rsc_table \<Rightarrow> int \<times> rsc_table" where
  "rscTableCreateOwn rep t =
     rsc_place (JNum 0) (JNum (js_or rep T_FLAG)) (t\<lparr>rsc_created := insert rep (rsc_created t)\<rparr>)"

definition rscTableGet :: "int \<Rightarrow> rsc_table \<Rightarrow> rsc_entry js" where
  "rscTableGet handle t =
     (let scope = js_get (rsc_cells t) (js_shl handle 1);
          val = js_get (rsc_cells t) (js_shl handle 1 + 1);
          own = (js_and (num_of val) T_FLAG \<noteq> 0);
          rep = js_and (num_of val) (js_not T_FLAG)
      in if rep = 0 \<or> js_and (num_of scope) T_FLAG \<noteq> 0 then Inl (TypeErr ''Invalid handle'')
         else Inr (rep, scope, own))"

definition rscTableEnsureBorrowDrop :: "int \<Rightarrow> unit jsv \<Rightarrow> rsc_table \<Rightarrow> unit js" where
  "rscTableEnsureBorrowDrop handle scope t =
     (if js_get (rsc_cells t) (js_shl handle 1) = scope
      then Inl (TypeErr ''Resource borrow was not dropped at end of call'') else Inr ())"

definition rscTableRemove :: "int \<Rightarrow> rsc_table \<Rightarrow> (rsc_entry \<times> rsc_table) js" where
  "rscTableRemove handle t =
     (let c = rsc_cells t;
          scope = js_get c (js_shl handle 1);
          val = js_get c (js_shl handle 1 + 1);
          own = (js_and (num_of val) T_FLAG \<noteq> 0);
          rep = js_and (num_of val) (js_not T_FLAG)
      in if val = JNum 0 \<or> js_and (num_of scope) T_FLAG \<noteq> 0 then Inl (TypeErr ''Invalid handle'')
         else
           let c1 = js_set c (js_shl handle 1) (JNum (js_or (num_of (js_get c 0)) T_FLAG));
               c2 = js_set c1 0 (JNum (js_or handle T_FLAG))
           in Inr ((rep, scope, own), t\<lparr>rsc_cells := c2\<rparr>))"

section \<open>Transfers between tables\<close>

text \<open>The globals the transfers use: \<open>HANDLE_TABLES\<close>, \<open>SCOPE_ID\<close> and
  \<open>RESOURCE_CALL_BORROWS\<close>.\<close>

record rsc_state =
  handle_tables :: "nat \<Rightarrow> rsc_table option"
  scope_id :: int
  call_borrows :: "(nat \<times> int) list"

text \<open>Reading a missing table gives \<open>undefined\<close>, and reading a cell of \<open>undefined\<close> throws.\<close>

definition from_table :: "nat \<Rightarrow> rsc_state \<Rightarrow> rsc_table js" where
  "from_table tid s =
     (case handle_tables s tid of None \<Rightarrow> Inl (TypeErr ''undefined is not an object'') | Some t \<Rightarrow> Inr t)"

definition to_table :: "nat \<Rightarrow> rsc_state \<Rightarrow> rsc_table" where
  "to_table tid s = (case handle_tables s tid of None \<Rightarrow> rsc_new | Some t \<Rightarrow> t)"

definition put_table :: "nat \<Rightarrow> rsc_table \<Rightarrow> rsc_state \<Rightarrow> rsc_state" where
  "put_table tid t s = s\<lparr>handle_tables := (handle_tables s)(tid \<mapsto> t)\<rparr>"

text \<open>The representation a borrow is made for: an own handle keeps its entry; a borrow handle is
  removed. \<open>victim\<close> is the handle number given to \<open>rscTableRemove\<close> in the second case.\<close>

definition borrow_rep :: "int \<Rightarrow> unit jsv \<Rightarrow> nat \<Rightarrow> rsc_state \<Rightarrow> (int \<times> rsc_state) js" where
  "borrow_rep victim fromHandle fromTid s =
     rbind (from_table fromTid s) (\<lambda>fromTable.
       if js_and (num_of fromHandle) T_FLAG \<noteq> 0
       then Inr (js_and (num_of fromHandle) (js_not T_FLAG), s)
       else rbind (rscTableRemove victim fromTable) (\<lambda>((rep, _, _), fromTable').
              Inr (rep, put_table fromTid fromTable' s)))"

definition resourceTransferBorrow :: "int \<Rightarrow> nat \<Rightarrow> nat \<Rightarrow> rsc_state \<Rightarrow> (int \<times> rsc_state) js" where
  "resourceTransferBorrow handle fromTid toTid s =
     rbind (from_table fromTid s) (\<lambda>fromTable.
       let fromHandle = js_get (rsc_cells fromTable) (js_shl handle 1 + 1) in
       rbind (borrow_rep (num_of fromHandle) fromHandle fromTid s) (\<lambda>(rep, s1).
         let toTable = to_table toTid s1 in
         if rep \<in> rsc_created toTable then Inr (rep, put_table toTid toTable s1)
         else rbind (rscTableCreateBorrow rep (JNum (scope_id s1)) toTable) (\<lambda>(newHandle, toTable').
           let s2 = put_table toTid toTable' s1 in
           Inr (newHandle, s2\<lparr>call_borrows := call_borrows s2 @ [(toTid, newHandle)]\<rparr>))))"

definition resourceTransferBorrowValidLifting :: "int \<Rightarrow> nat \<Rightarrow> nat \<Rightarrow> rsc_state \<Rightarrow> (int \<times> rsc_state) js" where
  "resourceTransferBorrowValidLifting handle fromTid toTid s =
     rbind (from_table fromTid s) (\<lambda>fromTable.
       let fromHandle = js_get (rsc_cells fromTable) (js_shl handle 1 + 1) in
       rbind (borrow_rep handle fromHandle fromTid s) (\<lambda>(rep, s1).
         let toTable = to_table toTid s1 in
         if rep \<in> rsc_created toTable then Inr (rep, put_table toTid toTable s1)
         else rbind (rscTableCreateBorrow rep (JNum (scope_id s1)) toTable) (\<lambda>(newHandle, toTable').
           Inr (newHandle, put_table toTid toTable' s1))))"

definition resourceTransferOwn :: "int \<Rightarrow> nat \<Rightarrow> nat \<Rightarrow> rsc_state \<Rightarrow> (int \<times> rsc_state) js" where
  "resourceTransferOwn handle fromTid toTid s =
     rbind (from_table fromTid s) (\<lambda>fromTable.
       rbind (rscTableRemove handle fromTable) (\<lambda>((rep, _, _), fromTable').
         let s1 = put_table fromTid fromTable' s;
             (newHandle, toTable') = rscTableCreateOwn rep (to_table toTid s1)
         in Inr (newHandle, put_table toTid toTable' s1)))"

section \<open>The flag bit\<close>

lemma T_FLAG_value: "T_FLAG = 1073741824"
  by (simp add: T_FLAG_def js_shl_def push_bit_eq_mult)

lemma T_FLAG_pos [simp]: "0 < T_FLAG" "T_FLAG \<noteq> 0"
  by (simp_all add: T_FLAG_value)

lemma T_FLAG_push_bit: "T_FLAG = push_bit 30 1"
  by (simp add: T_FLAG_value push_bit_eq_mult)

lemma js_not_T_FLAG: "js_not T_FLAG = NOT T_FLAG" "to_int32 (NOT T_FLAG) = NOT T_FLAG"
  by (simp_all add: js_not_def T_FLAG_value to_int32_id)

lemma to_int32_flagged [simp]: "0 \<le> x \<Longrightarrow> x < T_FLAG \<Longrightarrow> to_int32 (x + T_FLAG) = x + T_FLAG"
  "to_int32 T_FLAG = T_FLAG" "0 \<le> x \<Longrightarrow> x < T_FLAG \<Longrightarrow> to_int32 x = x"
  by (simp_all add: T_FLAG_value)

lemma flag_bits:
  assumes "0 \<le> x" "x < T_FLAG"
  shows "js_and x T_FLAG = 0" "js_and x (js_not T_FLAG) = x" "js_or x T_FLAG = x + T_FLAG"
    and "js_and (x + T_FLAG) T_FLAG = T_FLAG" "js_and (x + T_FLAG) (js_not T_FLAG) = x"
    and "js_or (x + T_FLAG) T_FLAG = x + T_FLAG"
proof -
  have x: "x < 2 ^ 30" using assms by (simp add: T_FLAG_value)
  have o: "x OR T_FLAG = x + T_FLAG"
    using or_push_bit [OF assms(1) x] by (simp add: T_FLAG_push_bit push_bit_eq_mult)
  have a: "x AND T_FLAG = 0" "x AND NOT T_FLAG = x"
    using and_push_bit [OF assms(1) x] and_not_push_bit [OF assms(1) x] by (simp_all only: T_FLAG_push_bit)
  show "js_and x T_FLAG = 0" "js_and x (js_not T_FLAG) = x" "js_or x T_FLAG = x + T_FLAG"
    using assms by (simp_all add: js_and_def js_or_def js_not_T_FLAG o a)
  have b: "(x OR T_FLAG) AND T_FLAG = T_FLAG" "(x OR T_FLAG) AND NOT T_FLAG = x AND NOT T_FLAG"
    "(x OR T_FLAG) OR T_FLAG = x OR T_FLAG"
    by (rule bit_eqI, auto simp: bit_simps)+
  note b = this [unfolded o a]
  show "js_and (x + T_FLAG) T_FLAG = T_FLAG" "js_and (x + T_FLAG) (js_not T_FLAG) = x"
    "js_or (x + T_FLAG) T_FLAG = x + T_FLAG"
    using assms by (simp_all add: js_and_def js_or_def js_not_T_FLAG b)
qed

section \<open>Well-formed tables\<close>

definition rsc_link :: "cells \<Rightarrow> nat \<Rightarrow> nat option" where
  "rsc_link c i =
     (case js_get c (2 * int i) of
        JNum n \<Rightarrow> if T_FLAG \<le> n \<and> n < 2 * T_FLAG then Some (nat (n - T_FLAG)) else None
      | _ \<Rightarrow> None)"

definition is_scope :: "unit jsv \<Rightarrow> bool" where
  "is_scope x = (case x of JNum n \<Rightarrow> 0 \<le> n \<and> n < T_FLAG | _ \<Rightarrow> False)"

definition is_val :: "unit jsv \<Rightarrow> bool" where
  "is_val x = (case x of JNum n \<Rightarrow> 0 < n \<and> n < T_FLAG \<or> T_FLAG < n \<and> n < 2 * T_FLAG | _ \<Rightarrow> False)"

definition rsc_entry_at :: "cells \<Rightarrow> nat \<Rightarrow> rsc_entry" where
  "rsc_entry_at c h =
     (let val = num_of (c ! Suc (2 * h))
      in (js_and val (js_not T_FLAG), c ! (2 * h), js_and val T_FLAG \<noteq> 0))"

definition rsc_free :: "rsc_table \<Rightarrow> nat list" where
  "rsc_free t = follow (length (rsc_cells t)) (rsc_link (rsc_cells t)) (rsc_link (rsc_cells t) 0)"

definition rsc_wf :: "rsc_table \<Rightarrow> nat list \<Rightarrow> bool" where
  "rsc_wf t fl \<longleftrightarrow>
     even (length (rsc_cells t)) \<and> 2 \<le> length (rsc_cells t) \<and> length (rsc_cells t) < 2 ^ 31 \<and>
     chain (rsc_link (rsc_cells t)) (rsc_link (rsc_cells t) 0) fl \<and> distinct fl \<and>
     (\<forall>i\<in>set fl. 2 * i < length (rsc_cells t)) \<and>
     (\<forall>h. 0 < h \<longrightarrow> 2 * h < length (rsc_cells t) \<longrightarrow> h \<notin> set fl \<longrightarrow>
        is_scope (rsc_cells t ! (2 * h)) \<and> is_val (rsc_cells t ! Suc (2 * h)))"

definition rsc_inv :: "rsc_table \<Rightarrow> bool" where
  "rsc_inv t \<longleftrightarrow> (\<exists>fl. rsc_wf t fl)"

definition rsc_room :: "rsc_table \<Rightarrow> bool" where
  "rsc_room t \<longleftrightarrow> int (length (rsc_cells t)) + 2 < 2 ^ 31"

definition rsc_lookup :: "rsc_table \<Rightarrow> nat \<Rightarrow> rsc_entry option" where
  "rsc_lookup t h =
     (if 0 < h \<and> 2 * h < length (rsc_cells t) \<and> h \<notin> set (rsc_free t)
      then Some (rsc_entry_at (rsc_cells t) h) else None)"

text \<open>The entries a table stores: a positive representation below the flag, and scope 0 for an
  own handle.\<close>

definition rsc_storable :: "rsc_entry \<Rightarrow> bool" where
  "rsc_storable e = (case e of (rep, scope, own) \<Rightarrow>
     0 < rep \<and> rep < T_FLAG \<and> is_scope scope \<and> (own \<longrightarrow> scope = JNum 0))"

lemma rsc_wf_free: "rsc_wf t fl \<Longrightarrow> rsc_free t = fl"
proof -
  assume w: "rsc_wf t fl"
  then have "length fl \<le> length (rsc_cells t)"
    by (intro distinct_bounded_length) (force simp: rsc_wf_def)+
  with w show ?thesis unfolding rsc_free_def rsc_wf_def by (blast intro: follow_chain)
qed

lemma rsc_lookup_wf:
  "rsc_wf t fl \<Longrightarrow> rsc_lookup t h =
     (if 0 < h \<and> 2 * h < length (rsc_cells t) \<and> h \<notin> set fl then Some (rsc_entry_at (rsc_cells t) h) else None)"
  by (simp add: rsc_lookup_def rsc_wf_free)

lemma rsc_inv_new: "rsc_inv rsc_new"
  unfolding rsc_inv_def
  by (rule exI [of _ "[]"]) (auto simp: rsc_wf_def rsc_new_def rsc_link_def js_get_def T_FLAG_value)

lemma chain_members_pos: "chain nx v js \<Longrightarrow> i \<in> set js \<Longrightarrow> 0 < i"
  by (induction js arbitrary: v) auto

lemma rsc_free_pos: "rsc_wf t fl \<Longrightarrow> i \<in> set fl \<Longrightarrow> 0 < i"
  by (auto simp: rsc_wf_def dest: chain_members_pos)

lemma rsc_link_cell: "2 * i < length c \<Longrightarrow> rsc_link c i = Some j \<longleftrightarrow> c ! (2 * i) = JNum (int j + T_FLAG) \<and> int j < T_FLAG"
  by (auto simp: rsc_link_def js_get_def nat_mult_distrib T_FLAG_value split: jsv.splits if_splits)

lemma rsc_link_cong: "2 * i < length c \<Longrightarrow> 2 * i < length c' \<Longrightarrow> c' ! (2 * i) = c ! (2 * i) \<Longrightarrow> rsc_link c' i = rsc_link c i"
  by (simp add: rsc_link_def js_get_def nat_mult_distrib)

section \<open>What the operations do on a well-formed table\<close>

lemma rsc_wf_head:
  assumes "rsc_wf t fl"
  shows "rsc_free_head t = (case fl of [] \<Rightarrow> 0 | i # _ \<Rightarrow> int i)"
    and "rsc_cells t ! 0 = JNum (T_FLAG + (case fl of [] \<Rightarrow> 0 | i # _ \<Rightarrow> int i))"
    and "case fl of [] \<Rightarrow> True | i # _ \<Rightarrow> 0 < i \<and> Suc (2 * i) < length (rsc_cells t) \<and> int i < T_FLAG"
proof -
  let ?i = "case fl of [] \<Rightarrow> 0 | i # _ \<Rightarrow> i"
  from assms have l: "rsc_link (rsc_cells t) 0 = Some ?i" "0 < length (rsc_cells t)"
    by (auto simp: rsc_wf_def split: list.splits)
  then have c: "rsc_cells t ! 0 = JNum (int ?i + T_FLAG)" "int ?i < T_FLAG"
    using rsc_link_cell [of 0 "rsc_cells t"] by auto
  then show "rsc_cells t ! 0 = JNum (T_FLAG + (case fl of [] \<Rightarrow> 0 | i # _ \<Rightarrow> int i))"
    by (cases fl) simp_all
  from c l have "rsc_free_head t = int ?i"
    by (auto simp: rsc_free_head_def js_get_def flag_bits)
  then show "rsc_free_head t = (case fl of [] \<Rightarrow> 0 | i # _ \<Rightarrow> int i)" by (cases fl) simp_all
  show "case fl of [] \<Rightarrow> True | i # _ \<Rightarrow> 0 < i \<and> Suc (2 * i) < length (rsc_cells t) \<and> int i < T_FLAG"
    using assms c by (auto simp: rsc_wf_def elim!: evenE split: list.splits)
qed

lemma rsc_handle_bound:
  "rsc_wf t fl \<Longrightarrow> 2 * h < length (rsc_cells t) \<Longrightarrow>
   Suc (2 * h) < length (rsc_cells t) \<and> int h < T_FLAG \<and> js_shl (int h) (Suc 0) = int (2 * h)"
  by (auto simp: rsc_wf_def T_FLAG_value elim!: evenE)

lemma rsc_place_nil:
  assumes "rsc_wf t []" "rsc_room t"
  shows "rsc_place s v t = (int (length (rsc_cells t) div 2), t\<lparr>rsc_cells := rsc_cells t @ [s, v]\<rparr>)"
  using assms rsc_wf_head(1) [OF assms(1)] by (simp add: rsc_place_def Let_def rsc_room_def)

lemma rsc_place_cons:
  assumes "rsc_wf t (i # fl)"
  shows "rsc_place s v t =
    (int i, t\<lparr>rsc_cells := (rsc_cells t)[0 := rsc_cells t ! (2 * i), 2 * i := s, Suc (2 * i) := v]\<rparr>)"
proof -
  from rsc_wf_head [OF assms] have h: "rsc_free_head t = int i" "0 < i" "Suc (2 * i) < length (rsc_cells t)"
    by simp_all
  with rsc_handle_bound [OF assms, of i] have p: "js_shl (int i) (Suc 0) = int (2 * i)" by simp
  have q: "int (2 * i) + 1 = int (Suc (2 * i))" by simp
  from h have "rsc_cells t \<noteq> []" by auto
  with h show ?thesis unfolding rsc_place_def Let_def One_nat_def
    by (simp only: h(1) p q) (simp add: js_set_def js_get_def nat_mult_distrib nat_add_distrib)
qed

lemma rsc_place_wf:
  assumes "rsc_wf t fl" "rsc_room t" "is_scope s" "is_val v" "rsc_place s v t = (r, t')"
  shows "rsc_wf t' (tl fl) \<and> (\<exists>h. r = int h \<and> 0 < h \<and> rsc_lookup t h = None \<and>
    2 * h < length (rsc_cells t') \<and> rsc_cells t' ! (2 * h) = s \<and> rsc_cells t' ! Suc (2 * h) = v \<and>
    rsc_lookup t' = (rsc_lookup t)(h \<mapsto> rsc_entry_at (rsc_cells t') h))"
proof (cases fl)
  case Nil
  let ?h = "length (rsc_cells t) div 2"
  from assms Nil rsc_place_nil [of t s v] have
    r: "r = int ?h" and d: "rsc_cells t' = rsc_cells t @ [s, v]" by auto
  from assms(1) have e: "2 * ?h = length (rsc_cells t)" "0 < ?h" by (auto simp: rsc_wf_def)
  have k: "2 * k < Suc (Suc (length (rsc_cells t))) \<longleftrightarrow> 2 * k < length (rsc_cells t) \<or> k = ?h" for k
    using e by linarith
  have odd: "2 * k < length (rsc_cells t) \<Longrightarrow> Suc (2 * k) < length (rsc_cells t)" for k
    using e(1) by presburger
  from assms(1) Nil have "rsc_link (rsc_cells t) 0 = Some 0" "rsc_cells t \<noteq> []" by (auto simp: rsc_wf_def)
  then have "rsc_link (rsc_cells t') 0 = Some 0" by (simp add: d rsc_link_def js_get_def nth_append)
  with assms(1-4) Nil e have w: "rsc_wf t' []"
    by (auto simp: rsc_wf_def rsc_room_def d nth_append k dest: odd)
  have "rsc_lookup t' k = ((rsc_lookup t)(?h \<mapsto> rsc_entry_at (rsc_cells t') ?h)) k" for k
    using e Nil k [of k] odd [of k]
    by (auto simp: rsc_lookup_wf [OF assms(1)] rsc_lookup_wf [OF w] d nth_append rsc_entry_at_def)
  moreover have "rsc_lookup t ?h = None" using e by (simp add: rsc_lookup_wf [OF assms(1)])
  ultimately show ?thesis using w r e Nil by (auto simp: d nth_append)
next
  case (Cons i js)
  from rsc_wf_head(3) [OF assms(1)] Cons have hd: "0 < i" "Suc (2 * i) < length (rsc_cells t)" by simp_all
  from assms Cons rsc_place_cons [of t i js s v] have r: "r = int i" and
    d: "rsc_cells t' = (rsc_cells t)[0 := rsc_cells t ! (2 * i), 2 * i := s, Suc (2 * i) := v]" by auto
  have par: "2 * k \<noteq> Suc (2 * j)" "Suc (2 * k) \<noteq> 2 * j" for k j by presburger+
  have ne: "rsc_cells t \<noteq> []" using hd by auto
  from assms(1) Cons have wt: "chain (rsc_link (rsc_cells t)) (rsc_link (rsc_cells t) i) js"
    "i \<notin> set js" "\<forall>j\<in>set js. 2 * j < length (rsc_cells t)" by (auto simp: rsc_wf_def)
  have nth: "0 < k \<Longrightarrow> k \<noteq> i \<Longrightarrow> rsc_cells t' ! (2 * k) = rsc_cells t ! (2 * k)"
    "k \<noteq> i \<Longrightarrow> rsc_cells t' ! Suc (2 * k) = rsc_cells t ! Suc (2 * k)" for k
    using par [of k i] by (simp_all add: d)
  have at: "rsc_cells t' ! (2 * i) = s" "rsc_cells t' ! Suc (2 * i) = v" "rsc_cells t' ! 0 = rsc_cells t ! (2 * i)"
    using hd ne by (simp_all add: d)
  have len: "length (rsc_cells t') = length (rsc_cells t)" by (simp add: d)
  have pos: "0 < j" if "j \<in> set js" for j using rsc_free_pos [OF assms(1)] that Cons by simp
  have l0: "rsc_link (rsc_cells t') 0 = rsc_link (rsc_cells t) i"
    using at(3) hd ne by (simp add: rsc_link_def js_get_def nat_mult_distrib d)
  have "rsc_link (rsc_cells t') j = rsc_link (rsc_cells t) j" if "j \<in> set js" for j
    using that wt pos [OF that] nth(1) [of j] len by (intro rsc_link_cong) auto
  with wt(1) have "chain (rsc_link (rsc_cells t')) (rsc_link (rsc_cells t') 0) js"
    unfolding l0 by (blast intro: chain_cong)
  moreover have "is_scope (rsc_cells t' ! (2 * k)) \<and> is_val (rsc_cells t' ! Suc (2 * k))"
    if "0 < k" "2 * k < length (rsc_cells t)" "k \<notin> set js" for k
    using that assms(1,3,4) at(1,2) nth [of k] Cons by (cases "k = i") (auto simp: rsc_wf_def)
  ultimately have w: "rsc_wf t' js" using assms(1) Cons wt by (auto simp: rsc_wf_def len)
  have "rsc_lookup t' k = ((rsc_lookup t)(i \<mapsto> rsc_entry_at (rsc_cells t') i)) k" for k
    using hd wt(2) nth [of k]
    by (auto simp: rsc_lookup_wf [OF assms(1)] rsc_lookup_wf [OF w] Cons len rsc_entry_at_def)
  moreover have "rsc_lookup t i = None" by (simp add: rsc_lookup_wf [OF assms(1)] Cons)
  ultimately show ?thesis using w r hd at Cons len by (auto intro!: exI [of _ i])
qed

lemma rsc_created_irrelevant [simp]:
  "rsc_wf (t\<lparr>rsc_created := x\<rparr>) fl = rsc_wf t fl" "rsc_room (t\<lparr>rsc_created := x\<rparr>) = rsc_room t"
  "rsc_lookup (t\<lparr>rsc_created := x\<rparr>) = rsc_lookup t"
  by (simp_all add: rsc_wf_def rsc_room_def rsc_lookup_def rsc_free_def fun_eq_iff)

lemma chain_members_link: "chain nx v js \<Longrightarrow> i \<in> set js \<Longrightarrow> nx i \<noteq> None"
proof (induction js arbitrary: v)
  case Nil
  then show ?case by simp
next
  case (Cons j js)
  then show ?case by (cases js) auto
qed

lemma rsc_live_cells:
  assumes "rsc_wf t fl" "rsc_lookup t h = Some e"
  shows "0 < h" "Suc (2 * h) < length (rsc_cells t)" "h \<notin> set fl" "e = rsc_entry_at (rsc_cells t) h"
    and "js_and (num_of (rsc_cells t ! (2 * h))) T_FLAG = 0" "fst e \<noteq> 0" "rsc_cells t ! Suc (2 * h) \<noteq> JNum 0"
proof -
  from assms show h: "0 < h" "Suc (2 * h) < length (rsc_cells t)" "h \<notin> set fl"
      "e = rsc_entry_at (rsc_cells t) h"
    by (auto simp: rsc_lookup_wf dest: rsc_handle_bound split: if_splits)
  with assms(1) have c: "is_scope (rsc_cells t ! (2 * h))" "is_val (rsc_cells t ! Suc (2 * h))"
    by (simp_all add: rsc_wf_def)
  from c(1) show "js_and (num_of (rsc_cells t ! (2 * h))) T_FLAG = 0"
    by (auto simp: is_scope_def flag_bits split: jsv.splits)
  from c(2) obtain v where v: "rsc_cells t ! Suc (2 * h) = JNum v" "0 < v \<and> v < T_FLAG \<or> T_FLAG < v \<and> v < 2 * T_FLAG"
    by (auto simp: is_val_def split: jsv.splits)
  from v(2) have "js_and v (js_not T_FLAG) \<noteq> 0"
    using flag_bits(2) [of v] flag_bits(5) [of "v - T_FLAG"] by auto
  with v show "fst e \<noteq> 0" "rsc_cells t ! Suc (2 * h) \<noteq> JNum 0"
    by (auto simp: h rsc_entry_at_def T_FLAG_value)
qed

lemma rsc_dead_cells:
  assumes "rsc_wf t fl" "rsc_lookup t h = None" "2 * h < length (rsc_cells t)"
  shows "js_and (num_of (rsc_cells t ! (2 * h))) T_FLAG \<noteq> 0"
proof -
  have "\<exists>j. rsc_link (rsc_cells t) h = Some j"
  proof (cases "h = 0")
    case True
    with assms(1) show ?thesis by (cases fl) (auto simp: rsc_wf_def)
  next
    case False
    with assms have "h \<in> set fl" by (auto simp: rsc_lookup_wf split: if_splits)
    with assms(1) show ?thesis by (auto simp: rsc_wf_def dest: chain_members_link)
  qed
  with assms(3) show ?thesis by (auto simp: rsc_link_cell flag_bits)
qed

lemma rsc_get_cells:
  assumes "rsc_wf t fl" "2 * h < length (rsc_cells t)"
  shows "rscTableGet (int h) t =
    (let e = rsc_entry_at (rsc_cells t) h
     in if fst e = 0 \<or> js_and (num_of (rsc_cells t ! (2 * h))) T_FLAG \<noteq> 0
        then Inl (TypeErr ''Invalid handle'') else Inr e)"
  using rsc_handle_bound [OF assms]
  by (auto simp: rscTableGet_def Let_def js_get_def rsc_entry_at_def nat_mult_distrib nat_add_distrib)

text \<open>Looking a handle up is a complete check: it succeeds on the live handles only, with the
  entry stored under them.\<close>

lemma rsc_get_lookup:
  assumes "rsc_wf t fl" "int h < T_FLAG"
  shows "rscTableGet (int h) t =
    (case rsc_lookup t h of Some e \<Rightarrow> Inr e | None \<Rightarrow> Inl (TypeErr ''Invalid handle''))"
proof (cases "2 * h < length (rsc_cells t)")
  case True
  show ?thesis
  proof (cases "rsc_lookup t h")
    case None
    then show ?thesis using rsc_get_cells [OF assms(1) True] rsc_dead_cells [OF assms(1) None True] by simp
  next
    case (Some e)
    then show ?thesis using rsc_get_cells [OF assms(1) True] rsc_live_cells [OF assms(1) Some]
      by (simp add: Let_def)
  qed
next
  case False
  with assms have "js_get (rsc_cells t) (js_shl (int h) 1 + 1) = JUndef"
    by (auto simp: js_get_def T_FLAG_value nat_add_distrib nat_mult_distrib)
  moreover have "rsc_lookup t h = None" using False by (simp add: rsc_lookup_def)
  moreover have "js_and 0 (js_not T_FLAG) = 0" using flag_bits(2) [of 0] by (simp add: T_FLAG_value)
  ultimately show ?thesis by (simp add: rscTableGet_def Let_def)
qed

lemma rsc_remove_live:
  assumes "rsc_wf t fl" "rsc_lookup t h = Some e"
  shows "\<exists>t'. rscTableRemove (int h) t = Inr (e, t') \<and> rsc_wf t' (h # fl) \<and>
    rsc_lookup t' = (rsc_lookup t)(h := None) \<and> rsc_created t' = rsc_created t"
proof -
  note l = rsc_live_cells [OF assms]
  let ?c = "rsc_cells t"
  define t' where "t' = t\<lparr>rsc_cells := ?c[2 * h := JNum (js_or (num_of (?c ! 0)) T_FLAG), 0 := JNum (js_or (int h) T_FLAG)]\<rparr>"
  from l have ne: "?c \<noteq> []" "2 * h < length ?c" by auto
  note b = rsc_handle_bound [OF assms(1) ne(2)]
  have rem: "rscTableRemove (int h) t = Inr (e, t')"
    using l ne b by (simp add: rscTableRemove_def Let_def js_get_def js_set_def rsc_entry_at_def t'_def
      nat_mult_distrib nat_add_distrib)
  let ?hd = "case fl of [] \<Rightarrow> 0 | i # _ \<Rightarrow> int i"
  have hd: "?c ! 0 = JNum (?hd + T_FLAG)" "0 \<le> ?hd" "?hd < T_FLAG"
    using rsc_wf_head(2,3) [OF assms(1)] by (auto simp: T_FLAG_value split: list.splits)
  have d: "rsc_cells t' = ?c[2 * h := ?c ! 0, 0 := JNum (int h + T_FLAG)]"
    using b hd by (simp add: t'_def flag_bits)
  have len: "length (rsc_cells t') = length ?c" by (simp add: d)
  have nth: "0 < k \<Longrightarrow> k \<noteq> h \<Longrightarrow> rsc_cells t' ! (2 * k) = ?c ! (2 * k)"
    "rsc_cells t' ! Suc (2 * k) = ?c ! Suc (2 * k)" for k
  proof -
    have "Suc (2 * k) \<noteq> 2 * h" by presburger
    then show "0 < k \<Longrightarrow> k \<noteq> h \<Longrightarrow> rsc_cells t' ! (2 * k) = ?c ! (2 * k)"
      "rsc_cells t' ! Suc (2 * k) = ?c ! Suc (2 * k)" by (simp_all add: d)
  qed
  have links: "rsc_link (rsc_cells t') k = rsc_link ?c k" if "k \<in> set fl" for k
    using that assms(1) l(3) rsc_free_pos [OF assms(1) that] len nth(1) [of k]
    by (intro rsc_link_cong) (auto simp: rsc_wf_def)
  have lh: "rsc_link (rsc_cells t') h = rsc_link ?c 0"
    using l ne by (simp add: rsc_link_def js_get_def nat_mult_distrib d)
  have l0: "rsc_link (rsc_cells t') 0 = Some h"
    using rsc_link_cell [of 0 "rsc_cells t'" h] ne b l by (simp add: d)
  from assms(1) links have "chain (rsc_link (rsc_cells t')) (rsc_link ?c 0) fl"
    unfolding rsc_wf_def by (blast intro: chain_cong)
  with l0 lh l ne nth assms(1) have w: "rsc_wf t' (h # fl)" by (auto simp: rsc_wf_def len)
  have "rsc_lookup t' k = ((rsc_lookup t)(h := None)) k" for k
    using nth [of k] by (auto simp: rsc_lookup_wf [OF assms(1)] rsc_lookup_wf [OF w] len rsc_entry_at_def)
  then have "rsc_lookup t' = (rsc_lookup t)(h := None)" by blast
  with rem w show ?thesis by (auto simp: t'_def)
qed

section \<open>The table as a provider of the handle interface\<close>

definition rsc_ins :: "rsc_entry \<Rightarrow> rsc_table \<Rightarrow> nat \<times> rsc_table" where
  "rsc_ins e t =
     (case e of (rep, scope, own) \<Rightarrow>
        if own then (let (h, t') = rscTableCreateOwn rep t in (nat h, t'))
        else (case rscTableCreateBorrow rep scope t of Inl _ \<Rightarrow> (0, t) | Inr (h, t') \<Rightarrow> (nat h, t')))"

definition rsc_del :: "nat \<Rightarrow> rsc_table \<Rightarrow> rsc_table" where
  "rsc_del h t = (case rscTableRemove (int h) t of Inl _ \<Rightarrow> t | Inr (_, t') \<Rightarrow> t')"

lemma rsc_create_own:
  assumes "rsc_wf t fl" "rsc_room t" "0 < rep" "rep < T_FLAG"
  shows "\<exists>h t'. rscTableCreateOwn rep t = (int h, t') \<and> 0 < h \<and> rsc_wf t' (tl fl) \<and> rsc_lookup t h = None \<and>
    rsc_lookup t' = (rsc_lookup t)(h \<mapsto> (rep, JNum 0, True)) \<and> rsc_created t' = insert rep (rsc_created t)"
proof -
  let ?t = "t\<lparr>rsc_created := insert rep (rsc_created t)\<rparr>"
  obtain r t' where p: "rsc_place (JNum 0) (JNum (js_or rep T_FLAG)) ?t = (r, t')" by fastforce
  have v: "js_or rep T_FLAG = rep + T_FLAG" using assms by (simp add: flag_bits)
  have "rsc_created t' = insert rep (rsc_created t)"
    using p by (auto simp: rsc_place_def Let_def split: if_splits)
  moreover have "is_val (JNum (js_or rep T_FLAG))" "is_scope (JNum 0)"
    unfolding v using assms by (simp_all add: is_val_def is_scope_def)
  ultimately show ?thesis using rsc_place_wf [OF _ _ _ _ p, of fl] assms p
    by (auto simp: rscTableCreateOwn_def rsc_entry_at_def v flag_bits)
qed

lemma rsc_create_borrow:
  assumes "rsc_wf t fl" "rsc_room t" "0 < rep" "rep < T_FLAG" "is_scope scope"
  shows "\<exists>h t'. rscTableCreateBorrow rep scope t = Inr (int h, t') \<and> 0 < h \<and> rsc_wf t' (tl fl) \<and>
    rsc_lookup t h = None \<and> rsc_lookup t' = (rsc_lookup t)(h \<mapsto> (rep, scope, False)) \<and>
    rsc_created t' = rsc_created t"
proof -
  obtain r t' where p: "rsc_place scope (JNum rep) t = (r, t')" by fastforce
  have "rsc_created t' = rsc_created t" using p by (auto simp: rsc_place_def Let_def split: if_splits)
  moreover have "is_val (JNum rep)" "scope \<noteq> JUndef" using assms by (auto simp: is_val_def is_scope_def)
  ultimately show ?thesis using rsc_place_wf [OF assms(1,2,5) _ p] assms p
    by (auto simp: rscTableCreateBorrow_def rsc_entry_at_def flag_bits)
qed

lemma rsc_live_rep:
  assumes "rsc_wf t fl" "rsc_lookup t h = Some (rep, scope, own)"
  shows "0 < rep" "rep < T_FLAG" "rsc_cells t ! Suc (2 * h) = JNum (if own then rep + T_FLAG else rep)"
proof -
  note l = rsc_live_cells [OF assms]
  with assms(1) have "is_val (rsc_cells t ! Suc (2 * h))" by (auto simp: rsc_wf_def)
  then obtain v where v: "rsc_cells t ! Suc (2 * h) = JNum v" "0 < v \<and> v < T_FLAG \<or> T_FLAG < v \<and> v < 2 * T_FLAG"
    by (auto simp: is_val_def split: jsv.splits)
  with l(4) have e: "rep = js_and v (js_not T_FLAG)" "own = (js_and v T_FLAG \<noteq> 0)"
    by (simp_all add: rsc_entry_at_def)
  have "0 < rep \<and> rep < T_FLAG \<and> v = (if own then rep + T_FLAG else rep)"
  proof (cases "v < T_FLAG")
    case True
    with v e show ?thesis by (simp add: flag_bits)
  next
    case False
    with v have w: "0 \<le> v - T_FLAG" "v - T_FLAG < T_FLAG" by auto
    from False v e flag_bits(4,5) [OF w] show ?thesis by simp
  qed
  with v show "0 < rep" "rep < T_FLAG" "rsc_cells t ! Suc (2 * h) = JNum (if own then rep + T_FLAG else rep)"
    by simp_all
qed

interpretation rsc: handle_table rsc_inv rsc_room rsc_storable rsc_lookup rsc_ins rsc_del
proof unfold_locales
  fix t t' v h
  assume a: "rsc_inv t" "rsc_room t" "rsc_storable v" "rsc_ins v t = (h, t')"
  obtain rep scope own where v: "v = (rep, scope, own)" by (cases v)
  from a(1) obtain fl where w: "rsc_wf t fl" by (auto simp: rsc_inv_def)
  have "0 < h \<and> rsc_wf t' (tl fl) \<and> rsc_lookup t h = None \<and> rsc_lookup t' = (rsc_lookup t)(h \<mapsto> v)"
    using a v rsc_create_own [OF w a(2), of rep] rsc_create_borrow [OF w a(2), of rep scope]
    by (cases own) (auto simp: rsc_storable_def rsc_ins_def)
  then show "0 < h" "rsc_lookup t h = None" "rsc_lookup t' = (rsc_lookup t)(h \<mapsto> v)" "rsc_inv t'"
    by (auto simp: rsc_inv_def)
next
  fix t h
  assume "rsc_inv t" and l: "rsc_lookup t h \<noteq> None"
  then obtain fl e where w: "rsc_wf t fl" and e: "rsc_lookup t h = Some e" by (auto simp: rsc_inv_def)
  from rsc_remove_live [OF w e]
  show "rsc_lookup (rsc_del h t) = (rsc_lookup t)(h := None)" "rsc_inv (rsc_del h t)"
    by (auto simp: rsc_del_def rsc_inv_def)
qed

section \<open>Properties\<close>

lemma rsc_demo: "table_run rsc_ins rsc_del [Ins (5, JNum 0, True), Ins (7, JNum 3, False), Del 1] rsc_new =
  ([1, 2], \<lparr>rsc_cells = [JNum (1 + T_FLAG), JNum 0, JNum T_FLAG, JNum (5 + T_FLAG), JNum 3, JNum 7], rsc_created = {5}\<rparr>)"
  by code_simp

text \<open>Two tables for the examples: table 0 owns representation 5 as handle 1 and borrows
  representation 1 as handle 2; table 1 is not created yet.\<close>

definition demo_table :: rsc_table where
  "demo_table = snd (table_run rsc_ins rsc_del [Ins (5, JNum 0, True), Ins (1, JNum 3, False)] rsc_new)"

definition demo_rsc_state :: rsc_state where
  "demo_rsc_state = \<lparr>handle_tables = [0 \<mapsto> demo_table], scope_id = 4, call_borrows = []\<rparr>"

lemma demo_table: "rsc_inv demo_table" "rsc_lookup demo_table 1 = Some (5, JNum 0, True)"
  "rsc_lookup demo_table 2 = Some (int 1, JNum 3, False)"
proof -
  have l: "legal rsc_ins rsc_del rsc_room rsc_storable rsc_lookup [Ins (5, JNum 0, True), Ins (1, JNum 3, False)] rsc_new"
    by code_simp
  have r: "table_run rsc_ins rsc_del [Ins (5, JNum 0, True), Ins (1, JNum 3, False)] rsc_new = ([1, 2], demo_table)"
    unfolding demo_table_def by code_simp
  have "rsc_lookup rsc_new = Map.empty" by (auto simp: rsc_lookup_def rsc_new_def)
  with rsc.run_refines [OF rsc_inv_new l r] show "rsc_inv demo_table"
    "rsc_lookup demo_table 1 = Some (5, JNum 0, True)" "rsc_lookup demo_table 2 = Some (int 1, JNum 3, False)"
    by simp_all
qed

lemma demo_rsc_state:
  "handle_tables demo_rsc_state 0 = Some demo_table" "to_table 1 demo_rsc_state = rsc_new"
  "rsc_inv (to_table 1 demo_rsc_state)" "rsc_room (to_table 1 demo_rsc_state)" "scope_id demo_rsc_state = 4"
  using rsc_inv_new by (simp_all add: demo_rsc_state_def to_table_def rsc_room_def rsc_new_def)

text \<open>C8. A resource table implements a finite map from handles to entries, and \<open>rscTableGet\<close> is
  a complete check: after any legal sequence of creations and removals on a new table, it returns
  the entry stored under a live handle and throws on every other handle number.\<close>

theorem rsc_table_refines_map:
  assumes "legal rsc_ins rsc_del rsc_room rsc_storable rsc_lookup xs rsc_new"
    and "table_run rsc_ins rsc_del xs rsc_new = (hs, t)" and "int h < T_FLAG"
  shows "rscTableGet (int h) t =
    (case map_run xs hs Map.empty h of Some e \<Rightarrow> Inr e | None \<Rightarrow> Inl (TypeErr ''Invalid handle''))"
proof -
  have "rsc_lookup rsc_new = Map.empty" by (auto simp: rsc_lookup_def rsc_new_def)
  with rsc.run_refines [OF rsc_inv_new assms(1,2)] have "rsc_inv t" "rsc_lookup t = map_run xs hs Map.empty"
    by simp_all
  with assms(3) show ?thesis using rsc_get_lookup by (auto simp: rsc_inv_def)
qed

theorem rsc_table_refines_map_witness:
  "\<exists>t. table_run rsc_ins rsc_del [Ins (5, JNum 0, True), Ins (7, JNum 3, False), Del 1] rsc_new = ([1, 2], t) \<and>
     rscTableGet (int 1) t = Inl (TypeErr ''Invalid handle'') \<and> rscTableGet (int 2) t = Inr (7, JNum 3, False)"
proof -
  have l: "legal rsc_ins rsc_del rsc_room rsc_storable rsc_lookup
     [Ins (5, JNum 0, True), Ins (7, JNum 3, False), Del 1] rsc_new"
    by code_simp
  have b: "int 1 < T_FLAG" "int 2 < T_FLAG" by (simp_all add: T_FLAG_value)
  from rsc_table_refines_map [OF l rsc_demo b(1)] rsc_table_refines_map [OF l rsc_demo b(2)] show ?thesis
    unfolding rsc_demo by auto
qed

text \<open>Removing a handle number past the end of the table is not rejected, though looking the
  same number up is: the removal succeeds with representation 0, and the number becomes the head of
  the free list, so the next creation returns it.\<close>

theorem rsc_remove_out_of_range:
  assumes "rsc_inv t" "length (rsc_cells t) \<le> 2 * h" "int h < T_FLAG"
  shows "rscTableGet (int h) t = Inl (TypeErr ''Invalid handle'') \<and>
    (\<exists>t'. rscTableRemove (int h) t = Inr ((0, JUndef, False), t') \<and>
      fst (rscTableCreateOwn rep t') = int h)"
proof -
  from assms(1) obtain fl where w: "rsc_wf t fl" by (auto simp: rsc_inv_def)
  let ?c = "rsc_cells t"
  from w have len: "2 \<le> length ?c" by (simp add: rsc_wf_def)
  from assms(3) have p: "js_shl (int h) (Suc 0) = int (2 * h)" by (simp add: T_FLAG_value)
  have g: "js_get ?c (int (2 * h)) = JUndef" "js_get ?c (int (2 * h) + 1) = JUndef"
    using assms(2) by (auto simp: js_get_def nat_add_distrib nat_mult_distrib)
  have z: "js_and 0 T_FLAG = 0" "js_and 0 (js_not T_FLAG) = 0"
    using flag_bits(1,2) [of 0] by simp_all
  obtain t' where r: "rscTableRemove (int h) t = Inr ((0, JUndef, False), t')"
    and c: "rsc_cells t' = js_set (js_set ?c (int (2 * h)) (JNum (js_or (num_of (js_get ?c 0)) T_FLAG))) 0
      (JNum (js_or (int h) T_FLAG))"
    using p g z by (simp add: rscTableRemove_def Let_def)
  from len assms(2,3) have "js_get (rsc_cells t') 0 = JNum (int h + T_FLAG)"
    by (auto simp: c js_set_def js_get_def flag_bits)
  with assms(3) have "rsc_free_head (t'\<lparr>rsc_created := x\<rparr>) = int h" for x
    by (simp add: rsc_free_head_def flag_bits)
  moreover have "0 < h" using len assms(2) by auto
  ultimately have "fst (rscTableCreateOwn rep t') = int h"
    by (simp add: rscTableCreateOwn_def rsc_place_def Let_def)
  moreover have "rsc_lookup t h = None" using assms(2) by (simp add: rsc_lookup_def)
  ultimately show ?thesis using r rsc_get_lookup [OF w assms(3)] by simp
qed

theorem rsc_remove_out_of_range_witness:
  "\<exists>t'. rscTableRemove (int 9) rsc_new = Inr ((0, JUndef, False), t') \<and> fst (rscTableCreateOwn 4 t') = int 9"
  using rsc_remove_out_of_range [OF rsc_inv_new, of 9 4] by (simp add: rsc_new_def T_FLAG_value)

text \<open>Transferring an own handle between two component instances moves it: the source handle
  dies, a fresh handle of the destination owns the same representation, and no other handle of
  either table changes.\<close>

theorem transfer_own_moves:
  assumes "handle_tables s f = Some tf" "rsc_inv tf" "rsc_lookup tf h = Some (rep, scope, own)"
    and "f \<noteq> d" "rsc_inv (to_table d s)" "rsc_room (to_table d s)"
  shows "\<exists>k tf' td s'. resourceTransferOwn (int h) f d s = Inr (int k, s') \<and>
    handle_tables s' = (handle_tables s)(f \<mapsto> tf', d \<mapsto> td) \<and> rsc_inv tf' \<and> rsc_inv td \<and>
    rsc_lookup tf' = (rsc_lookup tf)(h := None) \<and>
    rsc_lookup (to_table d s) k = None \<and>
    rsc_lookup td = (rsc_lookup (to_table d s))(k \<mapsto> (rep, JNum 0, True))"
proof -
  from assms(2,5) obtain fl fl' where w: "rsc_wf tf fl" and w': "rsc_wf (to_table d s) fl'"
    by (auto simp: rsc_inv_def)
  from rsc_remove_live [OF w assms(3)] obtain tf' where
    r: "rscTableRemove (int h) tf = Inr ((rep, scope, own), tf')" "rsc_wf tf' (h # fl)"
    "rsc_lookup tf' = (rsc_lookup tf)(h := None)" by auto
  have td: "to_table d (put_table f tf' s) = to_table d s"
    using assms(4) by (simp add: to_table_def put_table_def)
  from rsc_create_own [OF w' assms(6) rsc_live_rep(1,2) [OF w assms(3)]] obtain k td where
    c: "rscTableCreateOwn rep (to_table d s) = (int k, td)" "rsc_wf td (tl fl')"
    "rsc_lookup (to_table d s) k = None"
    "rsc_lookup td = (rsc_lookup (to_table d s))(k \<mapsto> (rep, JNum 0, True))" by auto
  show ?thesis
    by (rule exI [of _ k], rule exI [of _ tf'], rule exI [of _ td], rule exI [of _ "put_table d td (put_table f tf' s)"])
      (use assms(1) r c td in \<open>auto simp: resourceTransferOwn_def from_table_def Let_def rsc_inv_def put_table_def\<close>)
qed

theorem transfer_own_moves_witness:
  "\<exists>k tf' td s'. resourceTransferOwn (int 1) 0 1 demo_rsc_state = Inr (int k, s') \<and>
     handle_tables s' = (handle_tables demo_rsc_state)(0 \<mapsto> tf', 1 \<mapsto> td) \<and>
     rsc_lookup tf' 1 = None \<and> rsc_lookup td k = Some (5, JNum 0, True)"
  using transfer_own_moves [OF demo_rsc_state(1) demo_table(1,2) zero_neq_one demo_rsc_state(3,4)]
  by (metis (no_types, lifting) fun_upd_same)



text \<open>\<open>resourceTransferBorrow\<close> gives \<open>rscTableRemove\<close> the value of the handle's second cell
  instead of the handle: transferring a borrow handle whose representation is the number of another
  live handle removes that other handle from the source table and keeps the borrow.\<close>

theorem transfer_borrow_removes_wrong_handle:
  assumes "handle_tables s f = Some tf" "rsc_inv tf" "rsc_lookup tf h = Some (int r, scope, False)"
    and "rsc_lookup tf r = Some e" "r \<noteq> h" "f \<noteq> d"
    and "resourceTransferBorrow (int h) f d s = Inr (k, s')"
  shows "\<exists>tf'. handle_tables s' f = Some tf' \<and> rsc_lookup tf' = (rsc_lookup tf)(r := None) \<and>
    rsc_lookup tf' h = Some (int r, scope, False)"
proof -
  from assms(2) obtain fl where w: "rsc_wf tf fl" by (auto simp: rsc_inv_def)
  note l = rsc_live_rep [OF w assms(3)] rsc_live_cells(1,2) [OF w assms(3)]
  then have "2 * h < length (rsc_cells tf)" by simp
  note b = rsc_handle_bound [OF w this]
  with l have cell: "js_get (rsc_cells tf) (js_shl (int h) (Suc 0) + 1) = JNum (int r)"
    by (simp add: js_get_def nat_add_distrib nat_mult_distrib)
  from rsc_remove_live [OF w assms(4)] obtain tf' where
    rm: "rscTableRemove (int r) tf = Inr (e, tf')" "rsc_lookup tf' = (rsc_lookup tf)(r := None)" by auto
  obtain rep x y where e: "e = (rep, x, y)" by (cases e)
  have br: "borrow_rep (int r) (JNum (int r)) f s = Inr (rep, put_table f tf' s)"
    using l rm assms(1) by (simp add: borrow_rep_def from_table_def flag_bits e)
  from assms(7) have "handle_tables s' f = Some tf'"
    using assms(1,6) cell br
    by (auto simp: resourceTransferBorrow_def from_table_def Let_def put_table_def split: if_splits)
  with rm assms(3,5) show ?thesis by auto
qed

theorem transfer_borrow_removes_wrong_handle_witness:
  "\<exists>k s' tf'. resourceTransferBorrow (int 2) 0 1 demo_rsc_state = Inr (k, s') \<and>
     handle_tables s' 0 = Some tf' \<and> rsc_lookup tf' 1 = None \<and> rsc_lookup tf' 2 = Some (int 1, JNum 3, False)"
proof -
  have "case resourceTransferBorrow (int 2) 0 1 demo_rsc_state of Inl _ \<Rightarrow> False | Inr _ \<Rightarrow> True"
    by code_simp
  then obtain k s' where r: "resourceTransferBorrow (int 2) 0 1 demo_rsc_state = Inr (k, s')"
    by (auto split: sum.splits)
  have "(1 :: nat) \<noteq> 2" by simp
  from transfer_borrow_removes_wrong_handle [OF demo_rsc_state(1) demo_table(1,3,2) this zero_neq_one r] r
  show ?thesis by auto
qed

end
