(* ===== verification/Flat_Properties.thy ===== *)
theory Flat_Properties
  imports Flat_Lists
begin

text \<open>
  The properties of the flat lift and lower functions, with their witnesses. \<open>stores lower lift sz al
  v v'\<close> says that lowering \<open>v\<close> at an aligned pointer succeeds, writes only the \<open>sz\<close> bytes there and
  moves the pointer past them, and that lifting these bytes gives \<open>v'\<close>.
\<close>

section \<open>Numbers\<close>

text \<open>The integer types and booleans round-trip through linear memory: a number of the type's
  range is stored in the type's bytes at an aligned pointer, and is lifted unchanged.\<close>

theorem number_roundtrip:
  "(int_rel 0 256 v v' \<longrightarrow> stores lowerFlatU8 liftFlatU8 1 1 v v')
   \<and> (int_rel (- 128) 128 v v' \<longrightarrow> stores lowerFlatS8 liftFlatS8 1 1 v v')
   \<and> (int_rel 0 65536 v v' \<longrightarrow> stores lowerFlatU16 liftFlatU16 2 2 v v')
   \<and> (int_rel (- 32768) 32768 v v' \<longrightarrow> stores lowerFlatS16 liftFlatS16 2 2 v v')
   \<and> (int_rel 0 4294967296 v v' \<longrightarrow> stores lowerFlatU32 liftFlatU32 4 4 v v')
   \<and> (int_rel (- 2147483648) 2147483648 v v' \<longrightarrow> stores lowerFlatS32 liftFlatS32 4 4 v v')
   \<and> (big_rel 0 (2 ^ 64) v v' \<longrightarrow> stores lowerFlatU64 liftFlatU64 8 8 v v')
   \<and> (big_rel (- (2 ^ 63)) (2 ^ 63) v v' \<longrightarrow> stores lowerFlatS64 liftFlatS64 8 8 v v')
   \<and> stores lowerFlatBool liftFlatBool 1 1 v (VBool (val_truthy v))"
  using u8.stores s8.stores u16.stores s16.stores u32.stores s32.stores u64.stores s64.stores stores_bool
  by blast

theorem number_roundtrip_witness:
  "stores lowerFlatS16 liftFlatS16 2 2 (VNum (- 300)) (VNum (- 300))
   \<and> stores lowerFlatU64 liftFlatU64 8 8 (VBig 18446744073709551615) (VBig 18446744073709551615)"
  using number_roundtrip [of "VNum (- 300)" "VNum (- 300)"]
    number_roundtrip [of "VBig 18446744073709551615" "VBig 18446744073709551615"]
  by (simp add: int_rel_def big_rel_def)

text \<open>The lower functions check no ranges: any integral number is stored, wrapped to the type's
  width, so a caller who passes 256 as a \<open>u8\<close> gets 0 back and no exception.\<close>

theorem lower_wraps_out_of_range:
  "stores lowerFlatU8 liftFlatU8 1 1 (VNum n) (VNum (take_bit 8 n))
   \<and> stores lowerFlatS8 liftFlatS8 1 1 (VNum n) (VNum (signed_take_bit 7 n))"
proof
  have "stores lowerFlatU8 liftFlatU8 (int 1) 1 (VNum n) (VNum (take_bit 8 n))"
    by (rule stores_number [where x = n and sgned = False and mk = VNum])
      (simp_all add: lowerFlatU8_def liftFlatU8_def dv_set_def not_direct wrap_int_def)
  then show "stores lowerFlatU8 liftFlatU8 1 1 (VNum n) (VNum (take_bit 8 n))" by simp
  have "stores lowerFlatS8 liftFlatS8 (int 1) 1 (VNum n) (VNum (signed_take_bit 7 n))"
    by (rule stores_number [where x = n and sgned = True and mk = VNum])
      (simp_all add: lowerFlatS8_def liftFlatS8_def dv_set_def not_direct wrap_int_def)
  then show "stores lowerFlatS8 liftFlatS8 1 1 (VNum n) (VNum (signed_take_bit 7 n))" by simp
qed

text \<open>A character that was lifted cannot be lowered again: lifting gives a string, and lowering
  converts its argument with \<open>i32ToChar\<close>, which throws on everything but a number.\<close>

theorem lifted_char_is_not_lowerable:
  assumes "liftFlatChar d = Inr (s, d')" "vals c = [s]" "memory c \<noteq> None"
  shows "lowerFlatChar c = Inl (Err ''invalid i32'')"
proof -
  have "i32ToChar v = Inr t \<Longrightarrow> i32ToChar t = Inl (Err ''invalid i32'')" for v t
    by (auto simp: i32ToChar_def from_char_code_def Let_def split: val.splits if_splits)
  moreover obtain v where "i32ToChar v = Inr s"
    using assms(1) by (auto simp: liftFlatChar_def rbind_Inr_iff split: if_splits)
  ultimately show ?thesis
    using assms(2,3) by (auto simp: lowerFlatChar_def ctx_mem_def)
qed

definition demo_ctx :: "mem \<Rightarrow> int \<Rightarrow> val list \<Rightarrow> ctx" where
  "demo_ctx m p vs = \<lparr>memory = Some m, storagePtr = Some p, storageLen = None, params = [],
     useDirectParams = False, inVariant = False, vals = vs, realloc = None, componentIdx = Some 0\<rparr>"

theorem lifted_char_is_not_lowerable_witness:
  "liftFlatChar (demo_ctx [97, 0, 0, 0] 0 []) = Inr (VStr ''a'', (demo_ctx [97, 0, 0, 0] 4 []))
   \<and> lowerFlatChar (demo_ctx [97, 0, 0, 0] 0 [VStr ''a'']) = Inl (Err ''invalid i32'')"
proof
  show l: "liftFlatChar (demo_ctx [97, 0, 0, 0] 0 []) = Inr (VStr ''a'', (demo_ctx [97, 0, 0, 0] 4 []))"
    by (simp add: demo_ctx_def liftFlatChar_def lift_mem_def enough_len_def dv_get_def ctx_mem_def addr_def
      mem_read_def wrap_int_def add_ptr_def sub_len_def i32ToChar_def from_char_code_def take_bit_eq_mod) code_simp
  show "lowerFlatChar (demo_ctx [97, 0, 0, 0] 0 [VStr ''a'']) = Inl (Err ''invalid i32'')"
    by (rule lifted_char_is_not_lowerable [OF l]) (simp_all add: demo_ctx_def)
qed

section \<open>Composite types\<close>

text \<open>Records: if every field's functions round-trip its value, the layout of the fields fits into
  the record's size, and the alignments divide the record's, then the record round-trips; the lifted
  object has the fields in the order of the type. The storage budget of one field does not leak into
  the next.\<close>

theorem record_roundtrip:
  assumes "\<forall>x\<in>set xs. part_ok x \<and> pt_al x dvd al" "0 < al" "al dvd sz" "ends 0 xs \<le> sz"
    and "distinct ks" "list_all2 (\<lambda>k x. obj_get kvs k = pt_val x) ks xs"
  shows "stores (lowerFlatRecord (lower_field_metas ks xs) sz al) (liftFlatRecord (lift_field_metas ks xs) sz al)
     sz al (VObj kvs) (VObj (zip ks (map pt_res xs)))"
  using assms by (rule record_stores)

definition u8_part :: "int \<Rightarrow> part" where
  "u8_part n = \<lparr>pt_lower = lowerFlatU8, pt_lift = liftFlatU8, pt_sz = 1, pt_al = 1, pt_val = VNum n, pt_res = VNum n\<rparr>"

definition u32_part :: "int \<Rightarrow> part" where
  "u32_part n = \<lparr>pt_lower = lowerFlatU32, pt_lift = liftFlatU32, pt_sz = 4, pt_al = 4, pt_val = VNum n, pt_res = VNum n\<rparr>"

lemma part_ok_u8: "0 \<le> n \<Longrightarrow> n < 256 \<Longrightarrow> part_ok (u8_part n)"
  by (auto simp: part_ok_def u8_part_def int_rel_def intro!: stores_u8)

lemma part_ok_u32: "0 \<le> n \<Longrightarrow> n < 4294967296 \<Longrightarrow> part_ok (u32_part n)"
  by (auto simp: part_ok_def u32_part_def int_rel_def intro!: stores_u32)

theorem record_roundtrip_witness:
  "stores (lowerFlatRecord [(''a'', lowerFlatU8, 1, 1), (''b'', lowerFlatU32, 4, 4)] 8 4)
     (liftFlatRecord [(''a'', liftFlatU8, 1, 1), (''b'', liftFlatU32, 4, 4)] 8 4) 8 4
     (VObj [(''b'', VNum 70000), (''a'', VNum 5)]) (VObj [(''a'', VNum 5), (''b'', VNum 70000)])"
  using record_roundtrip [of "[u8_part 5, u32_part 70000]" 4 8 "[''a'', ''b'']" "[(''b'', VNum 70000), (''a'', VNum 5)]"]
    part_ok_u8 [of 5] part_ok_u32 [of 70000]
  by (simp add: lower_field_metas_def lift_field_metas_def lift_entry_def obj_get_def u8_part_def u32_part_def
    align_up_def js_rem_def)

text \<open>Tuples round-trip under the same conditions.\<close>

theorem tuple_roundtrip:
  assumes "\<forall>x\<in>set xs. part_ok x \<and> pt_al x dvd al" "0 < al" "al dvd sz" "ends 0 xs \<le> sz"
  shows "stores (lowerFlatTuple (lower_elem_metas xs) sz al) (liftFlatTuple (map lift_entry xs) sz al)
     sz al (VArr (map pt_val xs)) (VArr (map pt_res xs))"
  using assms by (rule tuple_stores)

theorem tuple_roundtrip_witness:
  "stores (lowerFlatTuple [(lowerFlatU32, 4, 4), (lowerFlatU8, 1, 1)] 8 4)
     (liftFlatTuple [(liftFlatU32, 4, 4), (liftFlatU8, 1, 1)] 8 4) 8 4
     (VArr [VNum 9, VNum 200]) (VArr [VNum 9, VNum 200])"
  using tuple_roundtrip [of "[u32_part 9, u8_part 200]" 4 8] part_ok_u8 [of 200] part_ok_u32 [of 9]
  by (simp add: lower_elem_metas_def lift_entry_def u8_part_def u32_part_def align_up_def js_rem_def)

text \<open>Variants: with matching case lists and Canonical ABI sizes, a value of any case whose payload
  functions round-trip is lowered as its discriminant and payload, and lifted as the same case. The
  lower function's reference to the undeclared \<open>varianttAlign32\<close> is never reached, because the size is
  a multiple of the alignment.\<close>

theorem variant_roundtrip:
  assumes "variant_metas lcs meta sz al off" "i < length lcs" "case_payload lcs meta sz al off i x kvs"
    and "js_prop v ''tag'' = Inr (VStr (fst (lcs ! i)))" "js_prop v ''val'' = Inr x"
  shows "stores (lowerFlatVariant lcs sz al off) (liftFlatVariant meta) sz al v
     (VObj ((''tag'', VStr (fst (lcs ! i))) # kvs))"
  using assms by (rule variant_stores)

definition demo_case :: "string \<Rightarrow> lift_fn option \<Rightarrow> lift_case" where
  "demo_case t f = \<lparr>lc_tag = t, lc_liftFn = f, lc_isF64 = False, lc_flatCount = Some (if f = None then 0 else 1)\<rparr>"

definition demo_meta :: "lift_case list \<Rightarrow> int \<Rightarrow> int \<Rightarrow> int \<Rightarrow> lift_variant_meta" where
  "demo_meta cs sz al off = \<lparr>lv_caseMetas = cs, lv_size32 = sz, lv_align32 = al,
     lv_payloadOffset32 = Some off, lv_flatCount = Some 2, lv_isEnum = False\<rparr>"

lemmas demo_meta_simps = demo_meta_def demo_case_def variant_metas_def disc_size_def

theorem variant_roundtrip_witness:
  "stores (lowerFlatVariant [(''x'', None), (''y'', Some lowerFlatU32)] 8 4 4)
     (liftFlatVariant (demo_meta [demo_case ''x'' None, demo_case ''y'' (Some liftFlatU32)] 8 4 4)) 8 4
     (VObj [(''tag'', VStr ''y''), (''val'', VNum 1000)]) (VObj [(''tag'', VStr ''y''), (''val'', VNum 1000)])"
proof -
  let ?cs = "[(''x'', None), (''y'', Some lowerFlatU32)]"
  let ?m = "demo_meta [demo_case ''x'' None, demo_case ''y'' (Some liftFlatU32)] 8 4 4"
  have "stores lowerFlatU32 liftFlatU32 4 4 (VNum 1000) (VNum 1000)"
    by (rule stores_u32) (simp add: int_rel_def)
  then have "case_payload ?cs ?m 8 4 4 1 (VNum 1000) [(''val'', VNum 1000)]"
    by (intro case_payload_Some [where f = lowerFlatU32 and g = liftFlatU32 and psz = 4 and pal = 4])
      (simp_all add: demo_meta_simps)
  from variant_roundtrip [OF _ _ this, where v = "VObj [(''tag'', VStr ''y''), (''val'', VNum 1000)]"]
  show ?thesis by (simp add: demo_meta_simps obj_get_def)
qed

text \<open>Options: \<open>null\<close> and \<open>undefined\<close> are carried as \<open>none\<close>, and a payload that does not itself look
  like an option object is carried as \<open>some\<close>.\<close>

theorem option_roundtrip:
  assumes "variant_metas [(''none'', None), (''some'', Some f)] meta sz al off"
    "lc_liftFn (lv_caseMetas meta ! 0) = None" "lc_liftFn (lv_caseMetas meta ! 1) = Some g"
    and "v \<noteq> VNull \<Longrightarrow> v \<noteq> VUndef \<Longrightarrow> \<not> is_option_object v \<and> stores f g psz pal v w"
    and "0 \<le> psz" "off + psz \<le> sz" "0 < pal" "pal dvd al" "pal dvd off"
  shows "stores (lowerFlatOption [(''none'', None), (''some'', Some f)] sz al off) (liftFlatOption meta) sz al v
     (if v = VNull \<or> v = VUndef then VObj [(''tag'', VStr ''none'')]
      else VObj [(''tag'', VStr ''some''), (''val'', w)])"
proof (cases "v = VNull \<or> v = VUndef")
  case True
  with option_none_stores [OF assms(1) True assms(2)] show ?thesis by simp
next
  case False
  with assms(4) have "\<not> is_option_object v" "stores f g psz pal v w" by auto
  with option_some_stores [OF assms(1) _ _ _ assms(3) _ assms(5-9), of v w] False show ?thesis by simp
qed

theorem option_roundtrip_witness:
  "stores (lowerFlatOption [(''none'', None), (''some'', Some lowerFlatU8)] 2 1 1)
     (liftFlatOption (demo_meta [demo_case ''none'' None, demo_case ''some'' (Some liftFlatU8)] 2 1 1)) 2 1
     (VNum 7) (VObj [(''tag'', VStr ''some''), (''val'', VNum 7)])"
proof -
  have "stores lowerFlatU8 liftFlatU8 1 1 (VNum 7) (VNum 7)" by (rule stores_u8) (simp add: int_rel_def)
  then show ?thesis
    using option_roundtrip [of lowerFlatU8 "demo_meta [demo_case ''none'' None, demo_case ''some'' (Some liftFlatU8)] 2 1 1"
        2 1 1 liftFlatU8 "VNum 7" 1 1 "VNum 7"]
    by (simp add: demo_meta_simps is_option_object_def two_keys_with_tag_def)
qed

text \<open>What lifting an option gives for \<open>none\<close>, the object \<open>{tag: 'none'}\<close>, is not recognised when
  it is lowered again, because it has one key and not two: it is stored as \<open>some\<close> of itself. For an
  option of a boolean, the second lift gives \<open>some(true)\<close>.\<close>

theorem relifted_none_becomes_some:
  assumes "variant_metas [(''none'', None), (''some'', Some lowerFlatBool)] meta sz al off"
    "lc_liftFn (lv_caseMetas meta ! 0) = None" "lc_liftFn (lv_caseMetas meta ! 1) = Some liftFlatBool" "off < sz"
  shows "stores (lowerFlatOption [(''none'', None), (''some'', Some lowerFlatBool)] sz al off) (liftFlatOption meta) sz al
      VNull (VObj [(''tag'', VStr ''none'')])
    \<and> stores (lowerFlatOption [(''none'', None), (''some'', Some lowerFlatBool)] sz al off) (liftFlatOption meta) sz al
      (VObj [(''tag'', VStr ''none'')]) (VObj [(''tag'', VStr ''some''), (''val'', VBool True)])"
proof
  show "stores (lowerFlatOption [(''none'', None), (''some'', Some lowerFlatBool)] sz al off) (liftFlatOption meta) sz al
      VNull (VObj [(''tag'', VStr ''none'')])"
    by (rule option_none_stores [OF assms(1) _ assms(2)]) simp
  have "stores lowerFlatBool liftFlatBool 1 1 (VObj [(''tag'', VStr ''none'')]) (VBool True)"
    using stores_bool [of "VObj [(''tag'', VStr ''none'')]"] by simp
  then show "stores (lowerFlatOption [(''none'', None), (''some'', Some lowerFlatBool)] sz al off) (liftFlatOption meta) sz al
      (VObj [(''tag'', VStr ''none'')]) (VObj [(''tag'', VStr ''some''), (''val'', VBool True)])"
    by (intro option_some_stores [OF assms(1) _ _ _ assms(3), where psz = 1 and pal = 1])
      (use assms(4) in \<open>simp_all add: is_option_object_def two_keys_with_tag_def\<close>)
qed

theorem relifted_none_becomes_some_witness:
  "stores (lowerFlatOption [(''none'', None), (''some'', Some lowerFlatBool)] 2 1 1)
     (liftFlatOption (demo_meta [demo_case ''none'' None, demo_case ''some'' (Some liftFlatBool)] 2 1 1)) 2 1
     (VObj [(''tag'', VStr ''none'')]) (VObj [(''tag'', VStr ''some''), (''val'', VBool True)])"
  using relifted_none_becomes_some [of "demo_meta [demo_case ''none'' None, demo_case ''some'' (Some liftFlatBool)] 2 1 1" 2 1 1]
  by (simp add: demo_meta_simps)

text \<open>Likewise the lifted error of a \<open>result\<close> without payloads, \<open>{tag: 'err'}\<close>, is lowered as
  success.\<close>

theorem relifted_err_becomes_ok:
  assumes "variant_metas [(''ok'', None), (''err'', None)] meta sz al off"
    "lc_liftFn (lv_caseMetas meta ! 0) = None"
  shows "stores (lowerFlatResult [(''ok'', None), (''err'', None)] sz al off) (liftFlatResult meta) sz al
      (VObj [(''tag'', VStr ''err'')]) (VObj [(''tag'', VStr ''ok'')])"
proof -
  let ?w = "VObj [(''tag'', VStr ''ok''), (''val'', VObj [(''tag'', VStr ''err'')])]"
  have "stores (lowerFlatVariant [(''ok'', None), (''err'', None)] sz al off) (liftFlatVariant meta) sz al ?w
      (VObj [(''tag'', VStr ''ok'')])"
    using variant_stores [OF assms(1), of 0 "VObj [(''tag'', VStr ''err'')]" "[]" ?w] assms(2)
    by (simp add: case_payload_def obj_get_def)
  then show ?thesis
    unfolding liftFlatResult_def
    by (rule stores_via) (simp add: lowerFlatResult_def Let_def is_result_object_def two_keys_with_tag_def)
qed

theorem relifted_err_becomes_ok_witness:
  "stores (lowerFlatResult [(''ok'', None), (''err'', None)] 1 1 1)
     (liftFlatResult (demo_meta [demo_case ''ok'' None, demo_case ''err'' None] 1 1 1)) 1 1
     (VObj [(''tag'', VStr ''err'')]) (VObj [(''tag'', VStr ''ok'')])"
  using relifted_err_becomes_ok [of "demo_meta [demo_case ''ok'' None, demo_case ''err'' None] 1 1 1" 1 1 1]
  by (simp add: demo_meta_simps)

text \<open>Flags: an object is stored as the bit set of the names whose property is \<open>true\<close>, and lifted
  as an object with a boolean for every name, up to the 8, 16 or 32 names of the type.\<close>

theorem flags_roundtrip:
  assumes "n \<in> {1, 2, 4}" "length names \<le> 8 * n" "distinct names"
  shows "stores (lowerFlatFlags names (int n) (int n)) (liftFlatFlags names (int n) (int n)) (int n) (int n)
    (VObj kvs) (VObj (map (\<lambda>name. (name, VBool (obj_get kvs name = VBool True))) names))"
  using flags_stores [OF assms, of kvs] by (simp add: flags_val_def)

theorem flags_roundtrip_witness:
  "stores (lowerFlatFlags [''r'', ''w'', ''x''] 1 1) (liftFlatFlags [''r'', ''w'', ''x''] 1 1) 1 1
     (VObj [(''x'', VBool True)]) (VObj [(''r'', VBool False), (''w'', VBool False), (''x'', VBool True)])"
  using flags_roundtrip [of 1 "[''r'', ''w'', ''x'']" "[(''x'', VBool True)]"] by (simp add: obj_get_def)

section \<open>Lists\<close>

text \<open>Lists of a known length round-trip element by element.\<close>

theorem known_list_roundtrip:
  assumes "list_all2 (stores f g esz al) vs ws" "0 < al" "al dvd esz" "0 \<le> esz"
    and "list_elems v = Inr vs" "list_value ta ws = Inr w"
    and "ll_elemLowerFn lm = f" "ll_knownLen lm = Some (length vs)" "ll_elemSize32 lm = esz"
      "li_elemLiftFn rm = g" "li_elemSize32 rm = esz" "li_knownLen rm = Some (length vs)" "li_typedArray rm = ta"
  shows "stores (lowerFlatList lm) (liftFlatList rm) (int (length vs) * esz) al v w"
  using assms by (rule known_list_stores)

theorem known_list_roundtrip_witness:
  "stores (lowerFlatList \<lparr>ll_elemLowerFn = lowerFlatU8, ll_knownLen = Some 2, ll_size32 = Some 2, ll_elemSize32 = 1, ll_elemAlign32 = 1\<rparr>)
     (liftFlatList \<lparr>li_elemLiftFn = liftFlatU8, li_elemSize32 = 1, li_knownLen = Some 2, li_typedArray = Some Uint8Array\<rparr>)
     2 1 (VArr [VNum 1, VNum 255]) (VTyped Uint8Array [1, 255])"
proof -
  have "stores lowerFlatU8 liftFlatU8 1 1 (VNum 1) (VNum 1)" "stores lowerFlatU8 liftFlatU8 1 1 (VNum 255) (VNum 255)"
    by (rule stores_u8, simp add: int_rel_def)+
  then show ?thesis
    using known_list_roundtrip [of lowerFlatU8 liftFlatU8 1 1 "[VNum 1, VNum 255]" "[VNum 1, VNum 255]"
        "VArr [VNum 1, VNum 255]" "Some Uint8Array" "VTyped Uint8Array [1, 255]"
        "\<lparr>ll_elemLowerFn = lowerFlatU8, ll_knownLen = Some 2, ll_size32 = Some 2, ll_elemSize32 = 1, ll_elemAlign32 = 1\<rparr>"
        "\<lparr>li_elemLiftFn = liftFlatU8, li_elemSize32 = 1, li_knownLen = Some 2, li_typedArray = Some Uint8Array\<rparr>"]
    by (simp add: list_value_def new_typed_def wrap_int_def take_bit_eq_mod)
qed

text \<open>Lists of unknown length: if the guest's allocator returns an aligned area inside its memory,
  apart from the 8 bytes of the list's pointer and length, then lowering stores the elements there and
  lifting from the resulting memory gives them back, and restores the storage budget.\<close>

theorem list_roundtrip:
  assumes "list_all2 (stores f g esz al) vs ws" "0 < al" "al dvd esz" "0 \<le> esz"
    and "vals c = [x]" "list_elems x = Inr vs" "int (length vs) < 4294967296"
    and "ll_elemLowerFn lm = f" "ll_knownLen lm = None" "ll_elemSize32 lm = esz" "ll_elemAlign32 lm = al"
    and "memory c = Some m" "storagePtr c = Some p" "\<not> useDirectParams c" "storageLen c = None" "realloc c = Some ra"
    and "ra 0 0 al (esz * int (length vs)) m = Inr (dp, m1)"
    and "0 \<le> dp" "dp < 4294967296" "al dvd dp" "dp + esz * int (length vs) \<le> int (length m1)"
    and "0 \<le> p" "4 dvd p" "p + 8 \<le> int (length m1)" "p + 8 \<le> dp \<or> dp + esz * int (length vs) \<le> p"
    and "li_elemLiftFn rm = g" "li_elemSize32 rm = esz" "li_knownLen rm = None" "list_value (li_typedArray rm) ws = Inr w"
  shows "\<exists>c' m'. lowerFlatList lm c = Inr c' \<and> memory c' = Some m' \<and> storagePtr c' = Some (p + 8) \<and>
    (\<forall>d. memory d = Some m' \<longrightarrow> storagePtr d = Some p \<longrightarrow> \<not> useDirectParams d \<longrightarrow>
      (\<exists>d'. liftFlatList rm d = Inr (w, d') \<and> storagePtr d' = Some (p + 8) \<and> storageLen d' = storageLen d))"
proof -
  have len: "length ws = length vs" using assms(1) by (simp add: list_all2_lengthD)
  obtain c' m' where c': "lowerFlatList lm c = Inr c'" "memory c' = Some m'" "storagePtr c' = Some (p + 8)"
    and m': "mem_read p 4 m' = le_bytes 4 dp" "mem_read (p + 4) 4 m' = le_bytes 4 (int (length vs))" "length m' = length m1"
      "loop_reads g esz dp 0 ws m'"
    by (rule unknown_list_lower [OF assms(1-6,8-18,20-25)])
  with unknown_list_lift [OF m'(4) m'(1) _ assms(18,19) _ assms(22) _ assms(26-29)] assms(7,24) len
  show ?thesis by auto
qed

text \<open>An allocator that always returns address 8.\<close>

definition demo_realloc :: "int \<Rightarrow> int \<Rightarrow> int \<Rightarrow> int \<Rightarrow> mem \<Rightarrow> (int \<times> mem) js" where
  "demo_realloc op os al n m = Inr (8, m)"

theorem list_roundtrip_witness:
  "\<exists>c' m'. lowerFlatList \<lparr>ll_elemLowerFn = lowerFlatU8, ll_knownLen = None, ll_size32 = None, ll_elemSize32 = 1, ll_elemAlign32 = 1\<rparr>
       ((demo_ctx (replicate 16 0) 0 [VArr [VNum 3, VNum 4]])\<lparr>realloc := Some demo_realloc\<rparr>) = Inr c' \<and> memory c' = Some m' \<and>
     (\<exists>d'. liftFlatList \<lparr>li_elemLiftFn = liftFlatU8, li_elemSize32 = 1, li_knownLen = None, li_typedArray = None\<rparr>
        (demo_ctx m' 0 []) = Inr (VArr [VNum 3, VNum 4], d'))"
proof -
  have "stores lowerFlatU8 liftFlatU8 1 1 (VNum 3) (VNum 3)" "stores lowerFlatU8 liftFlatU8 1 1 (VNum 4) (VNum 4)"
    by (rule stores_u8, simp add: int_rel_def)+
  then have "\<exists>c' m'. lowerFlatList \<lparr>ll_elemLowerFn = lowerFlatU8, ll_knownLen = None, ll_size32 = None, ll_elemSize32 = 1, ll_elemAlign32 = 1\<rparr>
      ((demo_ctx (replicate 16 0) 0 [VArr [VNum 3, VNum 4]])\<lparr>realloc := Some demo_realloc\<rparr>) = Inr c' \<and> memory c' = Some m' \<and>
      storagePtr c' = Some (0 + 8) \<and>
      (\<forall>d. memory d = Some m' \<longrightarrow> storagePtr d = Some 0 \<longrightarrow> \<not> useDirectParams d \<longrightarrow>
        (\<exists>d'. liftFlatList \<lparr>li_elemLiftFn = liftFlatU8, li_elemSize32 = 1, li_knownLen = None, li_typedArray = None\<rparr> d
            = Inr (VArr [VNum 3, VNum 4], d') \<and> storagePtr d' = Some (0 + 8) \<and> storageLen d' = storageLen d))"
    by (intro list_roundtrip [where f = lowerFlatU8 and g = liftFlatU8 and esz = 1 and al = 1
        and vs = "[VNum 3, VNum 4]" and ws = "[VNum 3, VNum 4]" and x = "VArr [VNum 3, VNum 4]"
        and m = "replicate 16 0" and ra = demo_realloc and dp = 8 and ?m1.0 = "replicate 16 0"])
      (simp_all add: demo_ctx_def demo_realloc_def list_value_def)
  then obtain c' m' where a: "lowerFlatList \<lparr>ll_elemLowerFn = lowerFlatU8, ll_knownLen = None, ll_size32 = None, ll_elemSize32 = 1, ll_elemAlign32 = 1\<rparr>
      ((demo_ctx (replicate 16 0) 0 [VArr [VNum 3, VNum 4]])\<lparr>realloc := Some demo_realloc\<rparr>) = Inr c'" "memory c' = Some m'"
    and b: "\<And>d. memory d = Some m' \<Longrightarrow> storagePtr d = Some 0 \<Longrightarrow> \<not> useDirectParams d \<Longrightarrow>
        (\<exists>d'. liftFlatList \<lparr>li_elemLiftFn = liftFlatU8, li_elemSize32 = 1, li_knownLen = None, li_typedArray = None\<rparr> d
            = Inr (VArr [VNum 3, VNum 4], d'))"
    by blast
  from a b [of "demo_ctx m' 0 []"] show ?thesis by (auto simp: demo_ctx_def)
qed

end
