(* ===== verification/Core_Refine.thy ===== *)
theory Core_Refine
  imports Core_Props
begin

text \<open>
  The effect of a rewritten instruction sequence. The reference is a machine with several memories, as
  WebAssembly's multi-memory proposal defines the loads and stores; the functions that are called, and
  the instructions that the rewriting passes through, are parameters. The rewritten sequence runs on
  the same machine, but accesses only memory 0 itself: the functions behind the imported ones are the
  JavaScript accessors of \<open>augmented_import_def\<close>. Sequences are straight-line code; branches and
  blocks are instructions that are passed through and are not followed here. A float access has no
  effect in either machine (\<open>None\<close>, as a trap).
\<close>

section \<open>The machine\<close>

record 's machine =
  mc_stack :: "wval list"
  mc_mems :: "8 word list list"
  mc_other :: 's

type_synonym 's effect = "'s machine \<Rightarrow> 's machine option"

record ('i, 's) world =
  wd_func :: "nat \<Rightarrow> 's effect"
  wd_plain :: "'i \<Rightarrow> 's effect"
  wd_with_func :: "'i \<Rightarrow> 's effect \<Rightarrow> 's effect"
  wd_with_mem :: "'i \<Rightarrow> nat \<Rightarrow> 's effect"

definition is_load :: "augmented_op \<Rightarrow> bool" where
  "is_load op \<longleftrightarrow> op \<in> {I32Load, I32Load8U, I32Load8S, I32Load16U, I32Load16S, I64Load}"

definition push :: "wval \<Rightarrow> 's machine \<Rightarrow> 's machine" where
  "push v s = s\<lparr>mc_stack := v # mc_stack s\<rparr>"

text \<open>A load or store of WebAssembly: the effective address is the sum of the unsigned operand and the
  offset, and an access outside the memory traps.\<close>

definition wasm_access :: "augmented_op \<Rightarrow> memarg \<Rightarrow> 's effect" where
  "wasm_access op ma s =
     (case access_width op of
        None \<Rightarrow> None
      | Some (sgned, n) \<Rightarrow>
          if length (mc_mems s) \<le> ma_memory ma then None
          else let mem = mc_mems s ! ma_memory ma in
            (case mc_stack s of
               WI32 ptr # st \<Rightarrow>
                 if is_load op then
                   (let ea = uint ptr + int (ma_offset ma) in
                    if ea + int n \<le> int (length mem) then
                      let x = wrap_int sgned n (le_val (take n (drop (nat ea) mem))) in
                      Some (s\<lparr>mc_stack := (if op = I64Load then WI64 (word_of_int x) else WI32 (word_of_int x)) # st\<rparr>)
                    else None)
                 else (case st of
                     WI32 p # st' \<Rightarrow>
                       if op = I64Store then None
                       else
                         (let ea = uint p + int (ma_offset ma) in
                          if ea + int n \<le> int (length mem) then
                            Some (s\<lparr>mc_stack := st', mc_mems := (mc_mems s)[ma_memory ma :=
                              take (nat ea) mem @ le_bytes n (sint ptr) @ drop (nat ea + n) mem]\<rparr>)
                          else None)
                   | _ \<Rightarrow> None)
             | WI64 v # WI32 p # st' \<Rightarrow>
                 if op = I64Store then
                   (let ea = uint p + int (ma_offset ma) in
                    if ea + int n \<le> int (length mem) then
                      Some (s\<lparr>mc_stack := st', mc_mems := (mc_mems s)[ma_memory ma :=
                        take (nat ea) mem @ le_bytes n (sint v) @ drop (nat ea + n) mem]\<rparr>)
                    else None)
                 else None
             | _ \<Rightarrow> None))"

definition wasm_memory_size :: "nat \<Rightarrow> 's effect" where
  "wasm_memory_size k s =
     (if length (mc_mems s) \<le> k then None
      else Some (push (WI32 (word_of_int (int (length (mc_mems s ! k)) div 65536))) s))"

fun exec_op :: "('i, 's) world \<Rightarrow> 'i operator \<Rightarrow> 's effect" where
  "exec_op w (OpAccess op ma) s = wasm_access op ma s"
| "exec_op w (OpMemorySize k) s = wasm_memory_size k s"
| "exec_op w (OpOtherMem i k) s = wd_with_mem w i k s"
| "exec_op w (OpCall f) s = wd_func w f s"
| "exec_op w (OpFunc i f) s = wd_with_func w i (wd_func w f) s"
| "exec_op w (OpConst n) s = Some (push (WI32 (word_of_int n)) s)"
| "exec_op w (OpPlain i) s = wd_plain w i s"

primrec exec_ops :: "('i, 's) world \<Rightarrow> 'i operator list \<Rightarrow> 's effect" where
  "exec_ops w [] s = Some s"
| "exec_ops w (op # ops) s = Option.bind (exec_op w op s) (exec_ops w ops)"

lemma exec_ops_append: "exec_ops w (xs @ ys) s = Option.bind (exec_ops w xs s) (exec_ops w ys)"
proof (induction xs arbitrary: s)
  case Nil
  then show ?case by simp
next
  case (Cons x xs)
  then show ?case by (cases "exec_op w x s") simp_all
qed

section \<open>The accessors as functions\<close>

text \<open>Calling an accessor takes its arguments from the stack, the last one on top.\<close>

definition accessor :: "string \<times> string \<times> nat \<times> augmented_op \<Rightarrow> 's effect" where
  "accessor x s =
     (case x of (_, _, index, op) \<Rightarrow>
        let n = length (fst (encode_type op)) in
        if length (mc_stack s) < n \<or> length (mc_mems s) \<le> Suc index then None
        else
          (case augmented_import_def op (mc_mems s ! Suc index) (rev (take n (mc_stack s))) of
             Inl _ \<Rightarrow> None
           | Inr (res, mem') \<Rightarrow>
               Some (s\<lparr>mc_stack := res @ drop n (mc_stack s), mc_mems := (mc_mems s)[Suc index := mem']\<rparr>)))"

text \<open>The functions of the rewritten module: the imported ones, the accessors, and the module's own,
  shifted.\<close>

definition aug_func :: "'i augmenter \<Rightarrow> (nat \<Rightarrow> 's effect) \<Rightarrow> nat \<Rightarrow> 's effect" where
  "aug_func a env idx =
     (if idx < imported_funcs a then env idx
      else if idx < imported_funcs a + length (imports_added a)
      then accessor (imports_added a ! (idx - imported_funcs a))
      else env (idx - length (imports_added a)))"

definition aug_world :: "'i augmenter \<Rightarrow> ('i, 's) world \<Rightarrow> ('i, 's) world" where
  "aug_world a w = w\<lparr>wd_func := aug_func a (wd_func w)\<rparr>"

lemma aug_func_remap: "aug_func a env (remap_func a f) = env f"
  by (auto simp: aug_func_def remap_func_def)

lemma aug_func_accessor:
  "j < length (imports_added a) \<Longrightarrow> aug_func a env (imported_funcs a + j) = accessor (imports_added a ! j)"
  by (simp add: aug_func_def)

section \<open>Signed addresses\<close>

lemma sint_uint32: "sint (p :: 32 word) = (if uint p < 2147483648 then uint p else uint p - 4294967296)"
proof -
  have "sint p = signed_take_bit 31 (uint p)" by (simp add: sint_uint)
  moreover have "take_bit 32 (uint p) = uint p" using uint_lt2p [of p] by (intro take_bit_int_eq_self) auto
  ultimately show ?thesis using signed_wrap [of 31 "uint p"] by auto
qed

lemma sint_offset: "off < 2147483648 \<Longrightarrow> sint (word_of_int (to_int32 (int off)) :: 32 word) = int off"
proof -
  assume off: "off < 2147483648"
  then have "to_int32 (int off) = int off" by simp
  moreover have "signed_take_bit 31 (int off) = int off"
    using off by (intro signed_take_bit_int_eq_self) auto
  ultimately show ?thesis by (simp add: signed_of_int del: of_int_of_nat_eq)
qed

text \<open>JavaScript sees the address and the offset as signed numbers. In a memory of at most 2 GiB this
  makes no difference to an access that is in bounds.\<close>

lemma signed_address:
  fixes p :: "32 word"
  assumes "int len \<le> 2147483648" "0 < n" "uint p + int off + int n \<le> int len"
  shows "sint p + sint (word_of_int (to_int32 (int off)) :: 32 word) = uint p + int off"
proof -
  have "0 \<le> uint p" by simp
  with assms have "uint p < 2147483648" "off < 2147483648" by linarith+
  then show ?thesis unfolding sint_uint32 [of p] by (simp only: sint_offset) simp
qed

definition small_mems :: "'s machine \<Rightarrow> bool" where
  "small_mems s \<longleftrightarrow> (\<forall>mem\<in>set (mc_mems s). int (length mem) \<le> 2147483648)"

lemma access_width_pos: "access_width op = Some (sgned, n) \<Longrightarrow> 0 < n"
  by (cases op) auto

definition offset_const :: "memarg \<Rightarrow> wval" where
  "offset_const ma = WI32 (word_of_int (to_int32 (int (ma_offset ma))))"

lemma wasm_load_Some:
  assumes "wasm_access op ma s = Some s'" "is_load op"
  obtains sgned n p st where "access_width op = Some (sgned, n)" "ma_memory ma < length (mc_mems s)"
    "mc_stack s = WI32 p # st" "uint p + int (ma_offset ma) + int n \<le> int (length (mc_mems s ! ma_memory ma))"
    "s' = s\<lparr>mc_stack := (let x = wrap_int sgned n (le_val (take n (drop (nat (uint p + int (ma_offset ma))) (mc_mems s ! ma_memory ma))))
        in if op = I64Load then WI64 (word_of_int x) else WI32 (word_of_int x)) # st\<rparr>"
  using assms
  by (auto simp: wasm_access_def Let_def is_load_def split: option.splits list.splits wval.splits if_splits)

lemma accessor_call:
  assumes "aug_key x = (k, op)" "length args = length (fst (encode_type op))" "mc_stack t = rev args @ st"
    "Suc k < length (mc_mems t)" "augmented_import_def op (mc_mems t ! Suc k) args = Inr (res, mem')" "ms = mc_mems t"
  shows "accessor x t = Some (t\<lparr>mc_stack := res @ st, mc_mems := ms[Suc k := mem']\<rparr>)"
  using assms by (cases x) (simp add: accessor_def Let_def aug_key_def)

lemma accessor_load:
  assumes ok: "small_mems s" and k: "aug_key x = (k, op)" "ma_memory ma = Suc k" and ld: "is_load op"
    and w: "wasm_access op ma s = Some s'"
  shows "accessor x (push (offset_const ma) s) = Some s'"
proof -
  from w ld obtain sgned n p st where wd: "access_width op = Some (sgned, n)" and mem: "ma_memory ma < length (mc_mems s)"
    and st: "mc_stack s = WI32 p # st" and b: "uint p + int (ma_offset ma) + int n \<le> int (length (mc_mems s ! ma_memory ma))"
    and s': "s' = s\<lparr>mc_stack := (let x = wrap_int sgned n (le_val (take n (drop (nat (uint p + int (ma_offset ma))) (mc_mems s ! ma_memory ma))))
        in if op = I64Load then WI64 (word_of_int x) else WI32 (word_of_int x)) # st\<rparr>"
    by (rule wasm_load_Some)
  have len: "int (length (mc_mems s ! ma_memory ma)) \<le> 2147483648" using ok mem by (simp add: small_mems_def)
  note a = signed_address [OF len access_width_pos [OF wd] b]
  have g: "view_get sgned n (mc_mems s ! ma_memory ma) (sint p + sint (word_of_int (to_int32 (int (ma_offset ma))) :: 32 word)) =
      Inr (wrap_int sgned n (le_val (take n (drop (nat (uint p + int (ma_offset ma))) (mc_mems s ! ma_memory ma)))))"
    unfolding a using b by (simp add: view_get_def)
  have "augmented_import_def op (mc_mems s ! ma_memory ma) [WI32 p, offset_const ma] =
      Inr ([let x = wrap_int sgned n (le_val (take n (drop (nat (uint p + int (ma_offset ma))) (mc_mems s ! ma_memory ma))))
        in if op = I64Load then WI64 (word_of_int x) else WI32 (word_of_int x)], mc_mems s ! ma_memory ma)"
    using ld g wd by (auto simp: augmented_import_def_def offset_const_def is_load_def Let_def)
  moreover have "length [WI32 p, offset_const ma] = length (fst (encode_type op))" using ld by (auto simp: is_load_def)
  ultimately have "accessor x (push (offset_const ma) s) =
      Some ((push (offset_const ma) s)\<lparr>mc_stack := [let x = wrap_int sgned n (le_val (take n (drop (nat (uint p + int (ma_offset ma))) (mc_mems s ! ma_memory ma))))
        in if op = I64Load then WI64 (word_of_int x) else WI32 (word_of_int x)] @ st, mc_mems := (mc_mems s)[ma_memory ma := mc_mems s ! ma_memory ma]\<rparr>)"
    using mem st unfolding k(2) by (intro accessor_call [OF k(1)]) (simp_all add: push_def)
  then show ?thesis by (simp add: s' push_def)
qed

lemma wasm_store_Some:
  assumes "wasm_access op ma s = Some s'" "\<not> is_load op"
  obtains sgned n p v z st where "access_width op = Some (sgned, n)" "ma_memory ma < length (mc_mems s)"
    "mc_stack s = v # WI32 p # st" "(case v of WI32 u \<Rightarrow> op \<noteq> I64Store \<and> z = sint u | WI64 u \<Rightarrow> op = I64Store \<and> z = sint u)"
    "uint p + int (ma_offset ma) + int n \<le> int (length (mc_mems s ! ma_memory ma))"
    "s' = s\<lparr>mc_stack := st, mc_mems := (mc_mems s)[ma_memory ma :=
        take (nat (uint p + int (ma_offset ma))) (mc_mems s ! ma_memory ma) @ le_bytes n z @
        drop (nat (uint p + int (ma_offset ma)) + n) (mc_mems s ! ma_memory ma)]\<rparr>"
  using assms
  by (auto simp: wasm_access_def Let_def split: option.splits list.splits wval.splits if_splits)

lemma accessor_store:
  assumes ok: "small_mems s" and k: "aug_key x = (k, op)" "ma_memory ma = Suc k" and ld: "\<not> is_load op"
    and w: "wasm_access op ma s = Some s'"
  shows "accessor x (push (offset_const ma) s) = Some s'"
proof -
  let ?mem = "mc_mems s ! ma_memory ma"
  from w ld obtain sgned n p v z st where wd: "access_width op = Some (sgned, n)" and mem: "ma_memory ma < length (mc_mems s)"
    and st: "mc_stack s = v # WI32 p # st" and v: "(case v of WI32 u \<Rightarrow> op \<noteq> I64Store \<and> z = sint u | WI64 u \<Rightarrow> op = I64Store \<and> z = sint u)"
    and b: "uint p + int (ma_offset ma) + int n \<le> int (length ?mem)"
    and s': "s' = s\<lparr>mc_stack := st, mc_mems := (mc_mems s)[ma_memory ma :=
        take (nat (uint p + int (ma_offset ma))) ?mem @ le_bytes n z @ drop (nat (uint p + int (ma_offset ma)) + n) ?mem]\<rparr>"
    by (rule wasm_store_Some)
  have len: "int (length ?mem) \<le> 2147483648" using ok mem by (simp add: small_mems_def)
  note a = signed_address [OF len access_width_pos [OF wd] b]
  let ?mem' = "take (nat (uint p + int (ma_offset ma))) ?mem @ le_bytes n z @ drop (nat (uint p + int (ma_offset ma)) + n) ?mem"
  have g: "view_set n ?mem (sint p + sint (word_of_int (to_int32 (int (ma_offset ma))) :: 32 word)) z = Inr ?mem'"
    unfolding a using b by (simp add: view_set_def)
  have "augmented_import_def op ?mem [WI32 p, v, offset_const ma] = Inr ([], ?mem')"
    using v ld wd g by (cases op) (auto simp: augmented_import_def_def offset_const_def is_load_def split: wval.splits)
  moreover have "length [WI32 p, v, offset_const ma] = length (fst (encode_type op))"
    using ld wd by (cases op) (auto simp: is_load_def)
  ultimately have "accessor x (push (offset_const ma) s) =
      Some ((push (offset_const ma) s)\<lparr>mc_stack := [] @ st, mc_mems := (mc_mems s)[ma_memory ma := ?mem']\<rparr>)"
    using mem st unfolding k(2) by (intro accessor_call [OF k(1)]) (simp_all add: push_def)
  then show ?thesis by (simp add: s' push_def)
qed

lemma accessor_size:
  assumes "aug_key x = (k, MemorySize)" "wasm_memory_size (Suc k) s = Some s'"
  shows "accessor x s = Some s'"
proof -
  obtain m nm where x: "x = (m, nm, k, MemorySize)" using assms(1) by (cases x) (auto simp: aug_key_def)
  show ?thesis
    using assms(2) by (auto simp: accessor_def x wasm_memory_size_def augmented_import_def_def push_def split: if_splits)
qed

section \<open>Forward simulation\<close>

text \<open>The functions and instructions of the world keep memories at most 2 GiB large.\<close>

definition keeps_small :: "'s effect \<Rightarrow> bool" where
  "keeps_small f \<longleftrightarrow> (\<forall>s s'. small_mems s \<longrightarrow> f s = Some s' \<longrightarrow> small_mems s')"

definition world_small :: "('i, 's) world \<Rightarrow> bool" where
  "world_small w \<longleftrightarrow> (\<forall>f. keeps_small (wd_func w f)) \<and> (\<forall>i. keeps_small (wd_plain w i)) \<and>
     (\<forall>i f. keeps_small (wd_with_func w i (wd_func w f))) \<and> (\<forall>i k. keeps_small (wd_with_mem w i k))"

lemma small_push [simp]: "small_mems (push v s) = small_mems s"
  by (simp add: small_mems_def push_def)

lemma small_wasm_access: "wasm_access op ma s = Some s' \<Longrightarrow> small_mems s \<Longrightarrow> small_mems s'"
proof (cases "is_load op")
  case True
  then show "wasm_access op ma s = Some s' \<Longrightarrow> small_mems s \<Longrightarrow> ?thesis"
    by (elim wasm_load_Some) (auto simp: small_mems_def)
next
  case False
  assume w: "wasm_access op ma s = Some s'" and sm: "small_mems s"
  from w False obtain sgned n p v z st where "access_width op = Some (sgned, n)"
    "mc_stack s = v # WI32 p # st" "(case v of WI32 u \<Rightarrow> op \<noteq> I64Store \<and> z = sint u | WI64 u \<Rightarrow> op = I64Store \<and> z = sint u)" and
    b: "ma_memory ma < length (mc_mems s)" "uint p + int (ma_offset ma) + int n \<le> int (length (mc_mems s ! ma_memory ma))"
    and s': "s' = s\<lparr>mc_stack := st, mc_mems := (mc_mems s)[ma_memory ma :=
        take (nat (uint p + int (ma_offset ma))) (mc_mems s ! ma_memory ma) @ le_bytes n z @
        drop (nat (uint p + int (ma_offset ma)) + n) (mc_mems s ! ma_memory ma)]\<rparr>"
    by (elim wasm_store_Some) blast
  have "0 \<le> uint p" by simp
  with b(2) have "nat (uint p + int (ma_offset ma)) + n \<le> length (mc_mems s ! ma_memory ma)" by linarith
  then have "length (take (nat (uint p + int (ma_offset ma))) (mc_mems s ! ma_memory ma) @ le_bytes n z @
        drop (nat (uint p + int (ma_offset ma)) + n) (mc_mems s ! ma_memory ma)) = length (mc_mems s ! ma_memory ma)"
    by simp
  with sm b(1) show ?thesis
    unfolding s' small_mems_def by (auto dest!: set_update_subset_insert [THEN subsetD])
qed

lemma keeps_smallD: "keeps_small f \<Longrightarrow> small_mems s \<Longrightarrow> f s = Some s' \<Longrightarrow> small_mems s'"
  by (simp add: keeps_small_def)

lemma exec_op_small:
  assumes w: "world_small w" and sm: "small_mems s" and e: "exec_op w op s = Some s'"
  shows "small_mems s'"
proof (cases op)
  case (OpAccess o1 ma)
  with e sm show ?thesis by (simp add: small_wasm_access)
next
  case (OpMemorySize k)
  with e sm show ?thesis by (auto simp: wasm_memory_size_def split: if_splits)
next
  case (OpConst n)
  with e sm show ?thesis by auto
next
  case (OpOtherMem i k)
  with w e sm show ?thesis by - (rule keeps_smallD [of "wd_with_mem w i k"], simp_all add: world_small_def)
next
  case (OpCall f)
  with w e sm show ?thesis by - (rule keeps_smallD [of "wd_func w f"], simp_all add: world_small_def)
next
  case (OpFunc i f)
  with w e sm show ?thesis by - (rule keeps_smallD [of "wd_with_func w i (wd_func w f)"], simp_all add: world_small_def)
next
  case (OpPlain i)
  with w e sm show ?thesis by - (rule keeps_smallD [of "wd_plain w i"], simp_all add: world_small_def)
qed

lemma translate_op_simulates:
  assumes ok: "aug_ok a" and t: "translate a op = Inr ops" and sm: "small_mems s"
    and e: "exec_op w op s = Some s'"
  shows "exec_ops (aug_world a w) ops s = Some s'"
proof -
  have idx: "\<exists>x. aug_func a (wd_func w) f = accessor x \<and> aug_key x = k" if "augment_index a k = Inr f" for k f
  proof -
    from that have "augments a k = Some f" by (simp add: augment_index_def split: option.splits)
    from aug_ok_index [OF ok this] obtain j where "j < length (imports_added a)" "f = imported_funcs a + j"
      "aug_key (imports_added a ! j) = k" by blast
    then show ?thesis by (intro exI [of _ "imports_added a ! j"]) (simp add: aug_func_accessor)
  qed
  show ?thesis
  proof (cases op)
    case (OpAccess o1 ma)
    show ?thesis
    proof (cases "0 < ma_memory ma")
      case True
      with t OpAccess obtain f where f: "augment_index a (ma_memory ma - 1, o1) = Inr f"
        "ops = [OpConst (to_int32 (int (ma_offset ma))), OpCall f]"
        by (auto simp: translate_def augment_def rbind_Inr_iff)
      from idx [OF f(1)] obtain x where x: "aug_func a (wd_func w) f = accessor x" "aug_key x = (ma_memory ma - 1, o1)" by blast
      from e OpAccess have w: "wasm_access o1 ma s = Some s'" by simp
      have "accessor x (push (offset_const ma) s) = Some s'"
        using accessor_load [OF sm x(2) _ _ w] accessor_store [OF sm x(2) _ _ w] True by fastforce
      then show ?thesis by (simp add: f aug_world_def x(1) offset_const_def)
    next
      case False
      with t OpAccess e show ?thesis by (auto simp: translate_def remap_memory_def)
    qed
  next
    case (OpMemorySize k)
    show ?thesis
    proof (cases "0 < k")
      case True
      with t OpMemorySize obtain f where f: "augment_index a (k - 1, MemorySize) = Inr f" "ops = [OpCall f]"
        by (auto simp: translate_def rbind_Inr_iff)
      from idx [OF f(1)] obtain x where x: "aug_func a (wd_func w) f = accessor x" "aug_key x = (k - 1, MemorySize)" by blast
      from e OpMemorySize True have "accessor x s = Some s'" by (intro accessor_size [OF x(2)]) simp
      then show ?thesis by (simp add: f aug_world_def x(1))
    next
      case False
      with t OpMemorySize e show ?thesis by (auto simp: translate_def remap_memory_def)
    qed
  next
    case (OpOtherMem i k)
    with t e show ?thesis by (auto simp: translate_def remap_memory_def aug_world_def rbind_Inr_iff split: if_splits)
  next
    case (OpCall f)
    with t have "ops = [OpCall (remap_func a f)]" by (simp add: translate_def)
    with OpCall e show ?thesis by (simp add: aug_world_def aug_func_remap)
  next
    case (OpFunc i f)
    with t have "ops = [OpFunc i (remap_func a f)]" by (simp add: translate_def)
    with OpFunc e show ?thesis by (simp add: aug_world_def aug_func_remap)
  next
    case (OpConst n)
    with t have "ops = [OpConst n]" by (simp add: translate_def)
    with OpConst e show ?thesis by simp
  next
    case (OpPlain i)
    with t have "ops = [OpPlain i]" by (simp add: translate_def)
    with OpPlain e show ?thesis by (simp add: aug_world_def)
  qed
qed

lemma translate_simulates:
  assumes "aug_ok a" "world_small w"
  shows "rmap (translate a) body = Inr opss \<Longrightarrow> small_mems s \<Longrightarrow> exec_ops w body s = Some s' \<Longrightarrow>
    exec_ops (aug_world a w) (concat opss) s = Some s'"
proof (induction body arbitrary: opss s)
  case Nil
  then show ?case by simp
next
  case (Cons op body)
  from Cons.prems(1) obtain ops rest where o: "translate a op = Inr ops" "rmap (translate a) body = Inr rest" "opss = ops # rest"
    by (auto simp: rbind_Inr_iff)
  from Cons.prems(3) obtain s1 where s1: "exec_op w op s = Some s1" "exec_ops w body s1 = Some s'"
    by (cases "exec_op w op s") auto
  from translate_op_simulates [OF assms(1) o(1) Cons.prems(2) s1(1)]
    Cons.IH [OF o(2) exec_op_small [OF assms(2) Cons.prems(2) s1(1)] s1(2)] o(3)
  show ?case by (simp add: exec_ops_append)
qed

end
