(* ===== verification/Core_Properties.thy ===== *)
theory Core_Properties
  imports Core_Refine
begin

text \<open>
  The properties of the multi-memory rewriting, with their witnesses.
\<close>

section \<open>What parsing collects\<close>

primrec payload_bodies :: "'i payload \<Rightarrow> 'i operator list list" where
  "payload_bodies (TypeSection ts) = []"
| "payload_bodies (ImportSection es) = []"
| "payload_bodies (ExportSection es) = []"
| "payload_bodies (FunctionSection ts) = []"
| "payload_bodies (CodeSectionEntry b) = [b]"
| "payload_bodies UnsupportedSection = []"
| "payload_bodies ComponentSection = []"
| "payload_bodies OtherPayload = []"

definition all_bodies :: "'i payload list \<Rightarrow> 'i operator list list" where
  "all_bodies ps = concat (map payload_bodies ps)"

lemma parse_import_bodies: "parse_import i a = Inr b \<Longrightarrow> local_funcs b = local_funcs a \<and> exports b = exports a"
  by (auto simp: parse_import_def split: type_ref.splits if_splits)

lemma parse_imports_bodies: "rfold parse_import es a = Inr b \<Longrightarrow> local_funcs b = local_funcs a \<and> exports b = exports a"
  by (induction es arbitrary: a) (auto simp: rbind_Inr_iff dest: parse_import_bodies)

lemma parse_bodies: "rfold parse_payload ps a = Inr b \<Longrightarrow> local_funcs b = local_funcs a @ all_bodies ps"
proof (induction ps arbitrary: a)
  case Nil
  then show ?case by (simp add: all_bodies_def)
next
  case (Cons p ps)
  then obtain a1 where a1: "parse_payload p a = Inr a1" "rfold parse_payload ps a1 = Inr b" by auto
  have "local_funcs a1 = local_funcs a @ payload_bodies p"
    using a1(1) parse_imports_bodies by (cases p) (fastforce simp: parse_payload_def)+
  with Cons.IH [OF a1(2)] show ?case by (simp add: all_bodies_def)
qed

lemma run_code:
  assumes "augmenter_run ps = Inr (m, a)"
  shows "local_funcs a = all_bodies ps" "length (en_code m) = length (all_bodies ps)"
    "k < length (all_bodies ps) \<Longrightarrow> \<exists>opss. rmap (translate a) (all_bodies ps ! k) = Inr opss \<and> en_code m ! k = concat opss"
proof -
  from run_steps [OF assms] obtain a0 where a0: "rfold parse_payload ps augmenter_new = Inr a0" "same_frame a0 a" "encode a = Inr m"
    by metis
  have l: "local_funcs a0 = all_bodies ps" using parse_bodies [OF a0(1)] by (simp add: augmenter_new_def)
  with a0(2) show lf: "local_funcs a = all_bodies ps" by (simp add: same_frame_def)
  from a0(3) have c: "rmap (\<lambda>body. rbind (rmap (translate a) body) (\<lambda>ops. Inr (concat ops))) (local_funcs a) = Inr (en_code m)"
    by (auto simp: encode_def rbind_Inr_iff)
  from rmap_Inr_length [OF c] lf show "length (en_code m) = length (all_bodies ps)" by simp
  show "\<exists>opss. rmap (translate a) (all_bodies ps ! k) = Inr opss \<and> en_code m ! k = concat opss"
    if "k < length (all_bodies ps)"
    using rmap_nth [OF c, of k] that lf by (auto simp: rbind_Inr_iff)
qed

section \<open>Refinement\<close>


definition demo_payloads :: "unit payload list" where
  "demo_payloads =
    [TypeSection [([TI32], [TI32])],
     ImportSection [\<lparr>im_module = ''m'', im_name = ''a'', im_ty = RefMemory\<rparr>,
       \<lparr>im_module = ''m'', im_name = ''f'', im_ty = RefFuncTy 0\<rparr>,
       \<lparr>im_module = ''m'', im_name = ''b'', im_ty = RefMemory\<rparr>],
     FunctionSection [0],
     ExportSection [\<lparr>ex_name = ''run'', ex_kind = ExtFunc, ex_index = 1\<rparr>],
     CodeSectionEntry [OpAccess I32Load8U \<lparr>ma_offset = 1, ma_memory = 1\<rparr>, OpCall 0]]"

definition demo_added :: "(string \<times> string \<times> nat \<times> augmented_op) list" where
  "demo_added = [(''augments'', ''mem1 I32Load8U'', 0, I32Load8U)]"

definition demo_encoded :: "unit encoded" where
  "demo_encoded = \<lparr>en_types = [([TI32], [TI32]), ([TI32, TI32], [TI32])],
     en_imports = [\<lparr>im_module = ''m'', im_name = ''a'', im_ty = RefMemory\<rparr>,
       \<lparr>im_module = ''m'', im_name = ''f'', im_ty = RefFuncTy 0\<rparr>,
       \<lparr>im_module = ''augments'', im_name = ''mem1 I32Load8U'', im_ty = RefFuncTy 1\<rparr>],
     en_funcs = [0], en_exports = [\<lparr>ex_name = ''run'', ex_kind = ExtFunc, ex_index = 2\<rparr>],
     en_code = [[OpConst 1, OpCall 1, OpCall 0]]\<rparr>"

lemma show_nat_1: "show_nat 1 = ''1''"
  by (subst show_nat.simps) code_simp

lemma demo_run:
  "\<exists>a. augmenter_run demo_payloads = Inr (demo_encoded, a) \<and> imports_added a = demo_added \<and>
     imported_funcs a = 1 \<and> imports_removed a = {(''m'', ''b'')}"
proof -
  have "to_int32 1 = 1" by (rule to_int32_id) simp_all
  then show ?thesis
    using show_nat_1
    by (simp add: augmenter_run_def demo_payloads_def augmenter_new_def parse_payload_def parse_import_def
      visit_operator_def augment_op_def Let_def encode_def encode_export_def remap_func_def translate_def
      augment_def augment_index_def added_imports_def demo_encoded_def demo_added_def)
qed

definition demo_world :: "(unit, unit) world" where
  "demo_world = \<lparr>wd_func = (\<lambda>f s. Some s), wd_plain = (\<lambda>i s. Some s), wd_with_func = (\<lambda>i f s. Some s),
     wd_with_mem = (\<lambda>i k s. Some s)\<rparr>"


text \<open>C4. Beyond 2 GiB the rewriting is not faithful: for an address and offset whose sum is just over
  \<open>2 ^ 32\<close>, the original load traps, while the accessor, which adds signed numbers, reads from the
  start of the memory.\<close>

theorem accessor_wraps_around:
  assumes "2147483648 \<le> uint p" "off < 2147483648" "4294967296 \<le> uint p + int off"
    and "uint p + int off - 4294967296 < int (length mem)" "int (length mem) \<le> 4294967296"
  shows "wasm_access I32Load8U \<lparr>ma_offset = off, ma_memory = 1\<rparr>
      \<lparr>mc_stack = [WI32 p], mc_mems = [[], mem], mc_other = ()\<rparr> = None
    \<and> augmented_import_def I32Load8U mem [WI32 p, WI32 (word_of_int (to_int32 (int off)))] =
      Inr ([WI32 (ucast (mem ! nat (uint p + int off - 4294967296)))], mem)"
proof
  show "wasm_access I32Load8U \<lparr>ma_offset = off, ma_memory = 1\<rparr>
      \<lparr>mc_stack = [WI32 p], mc_mems = [[], mem], mc_other = ()\<rparr> = None"
    using assms by (simp add: wasm_access_def is_load_def Let_def)
  let ?q = "uint p + int off - 4294967296"
  have a: "sint p + sint (word_of_int (to_int32 (int off)) :: 32 word) = ?q"
    unfolding sint_offset [OF assms(2)] using assms(1) by (simp add: sint_uint32)
  have "take 1 (drop (nat ?q) mem) = [mem ! nat ?q]"
    using assms(3,4) by (simp add: take_Suc_conv_app_nth)
  moreover have "wrap_int False 1 (uint b) = uint b" for b :: "8 word"
    using uint_lt2p [of b] by (intro wrap_int_id) auto
  ultimately have "view_get False 1 mem ?q = Inr (uint (mem ! nat ?q))"
    using assms(3,4) by (simp add: view_get_def)
  then show "augmented_import_def I32Load8U mem [WI32 p, WI32 (word_of_int (to_int32 (int off)))] =
      Inr ([WI32 (ucast (mem ! nat ?q))], mem)"
    by (simp add: augmented_import_def_def a)
qed

theorem accessor_wraps_around_witness:
  "wasm_access I32Load8U \<lparr>ma_offset = 1, ma_memory = 1\<rparr>
      \<lparr>mc_stack = [WI32 4294967295], mc_mems = [[], [42]], mc_other = ()\<rparr> = None
    \<and> augmented_import_def I32Load8U [42] [WI32 4294967295, WI32 (word_of_int (to_int32 1))] = Inr ([WI32 42], [42])"
  using accessor_wraps_around [of 4294967295 1 "[42]"] by simp

section \<open>One memory\<close>

text \<open>C3. The rewritten module uses one memory: it imports at most one, and no instruction of it has
  another memory index; and each accessor is imported with the function type of its operation.\<close>

theorem rewritten_module_single_memory:
  assumes "augmenter_run ps = Inr (m, a)"
  shows "length (memory_imports (en_imports m)) \<le> 1
    \<and> (\<forall>body\<in>set (en_code m). \<forall>op\<in>set body. single_mem op)
    \<and> (\<forall>j < length (imports_added a).
          im_ty (en_imports m ! (length (aug_imports a) + j)) = RefFuncTy (length (types a) + j)
          \<and> en_types m ! (length (types a) + j) = encode_type (snd (aug_key (imports_added a ! j))))"
proof -
  from run_steps [OF assms] obtain a0 where a0: "parsed (all_imports ps) a0" "same_frame a0 a" "encode a = Inr m"
    by metis
  from a0(3) have e: "en_imports m = aug_imports a @ added_imports a"
    "en_types m = types a @ map (\<lambda>(_, _, _, op). encode_type op) (imports_added a)"
    by (auto simp: encode_def rbind_Inr_iff)
  have "memory_imports (added_imports a) = []"
    by (auto simp: memory_imports_def added_imports_def filter_empty_conv)
  then have "length (memory_imports (en_imports m)) = length (memory_imports (aug_imports a0))"
    using a0(2) by (simp add: e memory_imports_def same_frame_def)
  also have "\<dots> \<le> 1" using a0(1) by (simp add: parsed_def)
  finally have one: "length (memory_imports (en_imports m)) \<le> 1" .
  have code: "\<forall>op\<in>set body. single_mem op" if "body \<in> set (en_code m)" for body
  proof -
    from that obtain k where k: "k < length (all_bodies ps)" "body = en_code m ! k"
      using run_code(2) [OF assms] by (auto simp: in_set_conv_nth)
    from run_code(3) [OF assms k(1)] obtain opss where "rmap (translate a) (all_bodies ps ! k) = Inr opss" "body = concat opss"
      using k by auto
    then show ?thesis using rmap_set [of "translate a"] translate_single by fastforce
  qed
  have ty: "im_ty (en_imports m ! (length (aug_imports a) + j)) = RefFuncTy (length (types a) + j)
      \<and> en_types m ! (length (types a) + j) = encode_type (snd (aug_key (imports_added a ! j)))"
    if "j < length (imports_added a)" for j
    using that by (cases "imports_added a ! j") (simp add: e added_imports_def nth_append aug_key_def)
  from one code ty show ?thesis by blast
qed

theorem rewritten_module_single_memory_witness:
  "length (memory_imports (en_imports demo_encoded)) \<le> 1"
  using demo_run rewritten_module_single_memory by blast

section \<open>Totality\<close>

lemma parse_imports_total:
  assumes "distinct (map im_key (drop 1 (memory_imports (es @ fs))))" "parsed es a"
  shows "\<exists>b. rfold parse_import fs a = Inr b"
  using assms
proof (induction fs arbitrary: es a)
  case Nil
  then show ?case by simp
next
  case (Cons i fs)
  have "\<exists>b. parse_import i a = Inr b"
  proof (cases "im_ty i = RefMemory \<and> memory_imports es \<noteq> []")
    case True
    then obtain j js where m: "memory_imports es = j # js" by (cases "memory_imports es") auto
    have "memory_imports (es @ i # fs) = (j # js) @ i # memory_imports fs"
      using True m by (simp add: memory_imports_def)
    with Cons.prems(1) have "im_key i \<notin> im_key ` set js" by auto
    with Cons.prems(2) m True show ?thesis by (auto simp: parse_import_def parsed_def im_key_def)
  next
    case False
    with Cons.prems(2) show ?thesis
      by (auto simp: parse_import_def parsed_def split: type_ref.splits)
  qed
  then obtain b where b: "parse_import i a = Inr b" ..
  from Cons.IH [of "es @ [i]" b] Cons.prems parse_import_parsed [OF Cons.prems(2) b] b show ?case by simp
qed

lemma distinct_drop1_prefix: "distinct (map f (drop 1 (xs @ ys))) \<Longrightarrow> distinct (map f (drop 1 xs))"
  by (cases xs) auto

lemma parse_total:
  assumes "\<forall>p\<in>set ps. p \<noteq> UnsupportedSection \<and> p \<noteq> ComponentSection"
    "distinct (map im_key (drop 1 (memory_imports (es @ all_imports ps))))" "parsed es a"
  shows "\<exists>b. rfold parse_payload ps a = Inr b"
  using assms
proof (induction ps arbitrary: es a)
  case Nil
  then show ?case by simp
next
  case (Cons p ps)
  have d: "distinct (map im_key (drop 1 (memory_imports (es @ payload_imports p))))"
  proof -
    have "memory_imports (es @ all_imports (p # ps)) = memory_imports (es @ payload_imports p) @ memory_imports (all_imports ps)"
      by (simp add: all_imports_def memory_imports_def)
    with Cons.prems(2) show ?thesis by (metis distinct_drop1_prefix)
  qed
  have "\<exists>b. parse_payload p a = Inr b"
    using Cons.prems(1) parse_imports_total [OF d Cons.prems(3)]
    by (cases p) (auto simp: parse_payload_def)
  then obtain b where b: "parse_payload p a = Inr b" ..
  from Cons.IH [of "es @ payload_imports p" b] Cons.prems parse_payload_parsed [OF b Cons.prems(3)] b
  show ?case by (simp add: all_imports_def)
qed

primrec payload_exports :: "'i payload \<Rightarrow> export_entry list" where
  "payload_exports (TypeSection ts) = []"
| "payload_exports (ImportSection es) = []"
| "payload_exports (ExportSection es) = es"
| "payload_exports (FunctionSection ts) = []"
| "payload_exports (CodeSectionEntry b) = []"
| "payload_exports UnsupportedSection = []"
| "payload_exports ComponentSection = []"
| "payload_exports OtherPayload = []"

lemma parse_exports: "rfold parse_payload ps a = Inr b \<Longrightarrow> exports b = exports a @ concat (map payload_exports ps)"
proof (induction ps arbitrary: a)
  case Nil
  then show ?case by simp
next
  case (Cons p ps)
  then obtain a1 where a1: "parse_payload p a = Inr a1" "rfold parse_payload ps a1 = Inr b" by auto
  have "exports a1 = exports a @ payload_exports p"
    using a1(1) parse_imports_bodies by (cases p) (fastforce simp: parse_payload_def)+
  with Cons.IH [OF a1(2)] show ?case by simp
qed



section \<open>Wiring of the imports\<close>

lemma split_imports_filter:
  "split_imports R xs = (map (\<lambda>((m, n), arg). (m, n, ImpCoreDef arg)) (filter (\<lambda>x. fst x \<notin> R) xs), map snd (filter (\<lambda>x. fst x \<in> R) xs))"
  by (induction R xs rule: split_imports.induct) (auto simp: Let_def split_def)

text \<open>The arguments of the memory imports, in order.\<close>

definition memory_args :: "import_entry list \<Rightarrow> 'd list \<Rightarrow> 'd list" where
  "memory_args es args = map snd (filter (\<lambda>(i, _). im_ty i = RefMemory) (zip es args))"

lemma removed_args:
  assumes "distinct (map im_key es)" "length args = length es"
  shows "map snd (filter (\<lambda>x. fst x \<in> im_key ` set (drop 1 (memory_imports es))) (zip (map im_key es) args)) =
    drop 1 (memory_args es args)"
  using assms(2,1)
proof (induction es args rule: list_induct2')
  case (4 e es x args)
  have ind: "map snd (filter (\<lambda>x. fst x \<in> im_key ` set (memory_imports es)) (zip (map im_key es) args)) = memory_args es args"
    if "length args = length es" "distinct (map im_key es)" for es :: "import_entry list" and args :: "'a list"
    using that
  proof (induction es args rule: list_induct2')
    case (4 e es x args)
    have "filter (\<lambda>x. fst x \<in> im_key ` set (memory_imports (e # es))) (zip (map im_key es) args) =
        filter (\<lambda>x. fst x \<in> im_key ` set (memory_imports es)) (zip (map im_key es) args)"
      using 4(3) by (intro filter_cong refl) (auto simp: memory_imports_def dest!: set_zip_leftD)
    moreover have "im_key e \<in> im_key ` set (memory_imports (e # es)) \<longleftrightarrow> im_ty e = RefMemory"
      using 4(3) by (auto simp: memory_imports_def)
    ultimately show ?case using 4 by (simp add: memory_args_def)
  qed (simp_all add: memory_args_def)
  show ?case
  proof (cases "im_ty e = RefMemory")
    case True
    have "im_key e \<notin> im_key ` set (memory_imports es)" using 4(3) by (auto simp: memory_imports_def)
    with True ind [of args es] 4(2,3) show ?thesis by (simp add: memory_imports_def memory_args_def)
  next
    case False
    have "im_key e \<notin> im_key ` set (drop 1 (memory_imports es))"
      using 4(3) by (auto simp: memory_imports_def dest!: in_set_dropD)
    with False 4 show ?thesis by (simp add: memory_imports_def memory_args_def)
  qed
qed (simp_all add: memory_imports_def memory_args_def)

text \<open>The imports of an augmented module: the original imports keep their arguments, in order, but
  for the memories beyond the first, and every accessor of memory \<open>k\<close> is wired to the argument of the
  \<open>k\<close>-th memory import. (The names of the imports must differ: the memories are recognised by name.)\<close>

theorem augmented_imports_wired:
  assumes "augmenter_run ps = Inr (w, a)" "mt_imports t = map im_key (all_imports ps)"
    and "distinct (map im_key (all_imports ps))" "length args = length (all_imports ps)"
    and "\<forall>x\<in>set (imports_added a). Suc (fst (aug_key x)) < length (memory_args (all_imports ps) args)"
  shows "translation_imports (Augmented t w (imports_removed a) (imports_added a)) args =
    Inr (map (\<lambda>((m, n), arg). (m, n, ImpCoreDef arg))
           (filter (\<lambda>x. fst x \<notin> im_key ` set (drop 1 (memory_imports (all_imports ps)))) (zip (map im_key (all_imports ps)) args))
       @ map (\<lambda>(m, n, k, op). (m, n, ImpMemory (memory_args (all_imports ps) args ! Suc k) op)) (imports_added a))"
proof -
  from run_steps [OF assms(1)] obtain a0 where "parsed (all_imports ps) a0" "same_frame a0 a"
    by metis
  then have r: "imports_removed a = im_key ` set (drop 1 (memory_imports (all_imports ps)))"
    by (simp add: parsed_def same_frame_def)
  let ?f = "\<lambda>(m, n, index, op). if index < length (drop 1 (memory_args (all_imports ps) args))
      then Inr (m, n, ImpMemory (drop 1 (memory_args (all_imports ps) args) ! index) op) else Inl (Panic ''index out of bounds'')"
  have "rmap ?f xs = Inr (map (\<lambda>(m, n, k, op). (m, n, ImpMemory (memory_args (all_imports ps) args ! Suc k) op)) xs)"
    if "\<forall>x\<in>set xs. Suc (fst (aug_key x)) < length (memory_args (all_imports ps) args)" for xs
    using that by (induction xs) (auto simp: aug_key_def)
  from this [OF assms(5)] show ?thesis
    by (simp only: translation_imports_def translation.case split_imports_filter assms(2) r
      removed_args [OF assms(3,4)] Let_def prod.case rbind_simps)
qed

theorem augmented_imports_wired_witness:
  "translation_imports (Augmented \<lparr>mt_payloads = demo_payloads, mt_imports = [(''m'', ''a''), (''m'', ''f''), (''m'', ''b'')],
       mt_exports = []\<rparr> demo_encoded {(''m'', ''b'')} demo_added) [1, 2, 3 :: nat] =
   Inr [(''m'', ''a'', ImpCoreDef 1), (''m'', ''f'', ImpCoreDef 2), (''augments'', ''mem1 I32Load8U'', ImpMemory 3 I32Load8U)]"
proof -
  from demo_run obtain a where a: "augmenter_run demo_payloads = Inr (demo_encoded, a)" "imports_added a = demo_added"
    "imports_removed a = {(''m'', ''b'')}" by blast
  from augmented_imports_wired [OF a(1), of "\<lparr>mt_payloads = demo_payloads, mt_imports = [(''m'', ''a''), (''m'', ''f''), (''m'', ''b'')],
       mt_exports = []\<rparr>" "[1, 2, 3 :: nat]"]
  show ?thesis
    by (simp add: a(2,3) demo_added_def demo_payloads_def all_imports_def im_key_def memory_args_def aug_key_def memory_imports_def)
qed

end
