(* ===== verification/Func_Flags.thy ===== *)
theory Func_Flags
  imports Func_Bindgen Core_Augment
begin

text \<open>
  The scalar instructions and the flags instructions of \<open>FunctionBindgen\<close>: a value that is lowered and
  lifted comes back, and values that are no value of the type are refused. Flags are words of 32 bits;
  the round trip is for any number of words.
\<close>

section \<open>Bits\<close>

lemma bit_js_or: "k < 32 \<Longrightarrow> bit (js_or a b) k \<longleftrightarrow> bit a k \<or> bit b k"
proof -
  assume "k < 32"
  then have "k < 31 \<or> k = 31" by arith
  then show ?thesis by (auto simp: js_or_def to_int32_def bit_or_iff bit_signed_take_bit_iff min_def)
qed

lemma bit_foldl_or: "k < 32 \<Longrightarrow> bit (foldl js_or a xs) k \<longleftrightarrow> bit a k \<or> (\<exists>x \<in> set xs. bit x k)"
  by (induction xs arbitrary: a) (auto simp: bit_js_or)

lemma bit_js_shl_bool: "k < 32 \<Longrightarrow> i < 32 \<Longrightarrow> bit (js_shl (if b then 1 else 0) i) k \<longleftrightarrow> b \<and> k = i"
proof -
  assume k: "k < 32" "i < 32"
  then have "k < 31 \<or> k = 31" by arith
  with k show ?thesis
    by (auto simp: js_shl_def to_int32_def bit_signed_take_bit_iff min_def bit_push_bit_iff bit_1_iff)
qed

lemma js_and_bit: "i < 32 \<Longrightarrow> js_and n (push_bit i 1) \<noteq> 0 \<longleftrightarrow> bit n i"
proof -
  assume i: "i < 32"
  show ?thesis
  proof (cases "i = 31")
    case True
    have t: "to_int32 (push_bit 31 1) = NOT (mask 31)"
      unfolding minus_exp_eq_not_mask [symmetric]
      by (simp add: to_int32_def push_bit_eq_mult signed_take_bit_eq_take_bit_minus take_bit_eq_mod)
    have "js_and n (push_bit 31 1) \<noteq> 0 \<longleftrightarrow> (\<exists>k. bit (to_int32 n AND NOT (mask 31)) k)"
      unfolding js_and_def t using bit_eq_iff [of "to_int32 n AND NOT (mask 31)" 0] by simp
    also have "\<dots> \<longleftrightarrow> bit n 31"
      by (auto simp: bit_and_iff bit_not_iff bit_mask_iff to_int32_def bit_signed_take_bit_iff min_def)
    finally show ?thesis using True by simp
  next
    case False
    with i have i': "i < 31" by simp
    then have t: "to_int32 (push_bit i 1) = push_bit i 1"
      using power_strict_increasing [of i 31 "2 :: int"] zero_le_power [of "2 :: int" i]
      by (intro to_int32_id) (auto simp: push_bit_eq_mult simp del: zero_le_power)
    have "js_and n (push_bit i 1) \<noteq> 0 \<longleftrightarrow> (\<exists>k. bit (to_int32 n AND push_bit i 1) k)"
      unfolding js_and_def t using bit_eq_iff [of "to_int32 n AND push_bit i 1" 0] by simp
    also have "\<dots> \<longleftrightarrow> bit n i"
      using i' by (auto simp: bit_and_iff to_int32_def bit_signed_take_bit_iff bit_exp_iff push_bit_eq_mult min_def)
    finally show ?thesis .
  qed
qed

lemma js_and_pow: "i < 32 \<Longrightarrow> js_and n (2 ^ i) = 0 \<longleftrightarrow> \<not> bit n i"
  using js_and_bit [of i n] by (auto simp: push_bit_eq_mult)

lemma js_and_extraneous:
  assumes "0 < j" "j < 32" "\<And>k. j \<le> k \<Longrightarrow> k < 32 \<Longrightarrow> \<not> bit n k"
  shows "js_and n (extraneous_mask j) = 0"
proof -
  have m: "bit (extraneous_mask j) k \<longleftrightarrow> j \<le> k \<and> k < 32" for k
  proof -
    have c: "extraneous_mask j = take_bit 32 (push_bit j (mask 32))"
      by (simp add: extraneous_mask_def mask_eq_exp_minus_1)
    show ?thesis unfolding c by (auto simp: bit_take_bit_iff bit_push_bit_iff bit_mask_iff)
  qed
  have "\<not> bit (js_and n (extraneous_mask j)) k" for k
  proof -
    have "min 31 k < 32" by simp
    then show ?thesis using assms(2) assms(3) [of "min 31 k"]
      by (auto simp: js_and_def bit_and_iff to_int32_def bit_signed_take_bit_iff m min.commute)
  qed
  then show ?thesis by (simp add: bit_eq_iff)
qed

lemma div32_pred:
  assumes "(n :: nat) mod 32 \<noteq> 0"
  shows "(n - 1) div 32 = n div 32" "(n + 31) div 32 = Suc (n div 32)"
proof -
  obtain q r where n: "n = 32 * q + r" "0 < r" "r < 32" using assms by (metis gr0I mod_less_divisor mult_div_mod_eq zero_less_numeral)
  then have "n - 1 = (r - 1) + 32 * q" "n + 31 = (r - 1) + 32 * Suc q" by simp_all
  moreover have "(r - 1) div 32 = 0" "n div 32 = q" using n by simp_all
  ultimately show "(n - 1) div 32 = n div 32" "(n + 31) div 32 = Suc (n div 32)"
    by simp_all
qed

section \<open>Words of flags\<close>

lemma chunks32_Nil [simp]: "chunks32 [] = []"
  by (simp add: chunks32.simps)

lemma chunks32_step: "xs \<noteq> [] \<Longrightarrow> chunks32 xs = take 32 xs # chunks32 (drop 32 xs)"
  by (subst chunks32.simps) simp

lemma length_chunks32: "length (chunks32 xs) = (length xs + 31) div 32"
proof (induction xs rule: chunks32.induct)
  case (1 xs)
  show ?case
  proof (cases "xs = []")
    case False
    with 1 have "length (chunks32 xs) = Suc ((length xs - 32 + 31) div 32)" by (simp add: chunks32_step)
    also have "\<dots> = (length xs + 31) div 32"
    proof (cases "length xs \<le> 32")
      case True
      with False have "0 < length xs" "length xs \<le> 32" by simp_all
      then have "(length xs + 31) div 32 = 1" by (intro div_nat_eqI) (auto simp: Suc_le_eq)
      with True show ?thesis by simp
    next
      case False
      then have "length xs + 31 = (length xs - 32 + 31) + 32" by simp
      then show ?thesis by simp
    qed
    finally show ?thesis .
  qed simp
qed

lemma chunks32_nth: "i < length xs \<Longrightarrow> chunks32 xs ! (i div 32) = take 32 (drop (32 * (i div 32)) xs)"
proof (induction xs arbitrary: i rule: chunks32.induct)
  case (1 xs)
  then have ne: "xs \<noteq> []" by auto
  show ?case
  proof (cases "i < 32")
    case True
    with ne show ?thesis by (simp add: chunks32_step)
  next
    case False
    then have d: "i div 32 = Suc ((i - 32) div 32)" by (simp add: le_div_geq)
    have "chunks32 (drop 32 xs) ! ((i - 32) div 32) = take 32 (drop (32 * ((i - 32) div 32)) (drop 32 xs))"
      using 1 False ne by (intro "1.IH") auto
    with ne d show ?thesis by (simp add: chunks32_step add.commute)
  qed
qed

lemma chunks32_elem:
  assumes "i < length xs"
  shows "i mod 32 < length (chunks32 xs ! (i div 32))" "chunks32 xs ! (i div 32) ! (i mod 32) = xs ! i"
proof -
  have e: "32 * (i div 32) + i mod 32 = i" "i mod 32 < 32" by simp_all
  then have "i mod 32 < length xs - 32 * (i div 32)" using assms by linarith
  with e show "i mod 32 < length (chunks32 xs ! (i div 32))" "chunks32 xs ! (i div 32) ! (i mod 32) = xs ! i"
    using assms by (simp_all add: chunks32_nth)
qed

lemma chunks32_lengths: "c \<in> set (chunks32 xs) \<Longrightarrow> 0 < length c \<and> length c \<le> 32"
proof (induction xs rule: chunks32.induct)
  case (1 xs)
  then show ?case by (cases "xs = []") (auto simp: chunks32_step)
qed

lemma rmap_map: "(\<And>x. x \<in> set xs \<Longrightarrow> f x = Inr (g x)) \<Longrightarrow> rmap f xs = Inr (map g xs)"
  by (induction xs) auto

lemma flags_word_bits:
  assumes "0 < length chunk" "length chunk \<le> 32"
  shows "\<exists>r. flags_word (VObj kvs) chunk = Inr (VNum r) \<and>
           (\<forall>k<32. bit r k \<longleftrightarrow> k < length chunk \<and> val_truthy (obj_get kvs (chunk ! k)))"
proof -
  let ?g = "\<lambda>fi. js_shl (if val_truthy (obj_get kvs (fst fi)) then 1 else 0) (snd fi)"
  let ?bits = "map ?g (zip chunk [0..<length chunk])"
  have "flag_bit (VObj kvs) fi = Inr (?g fi)" for fi by (simp add: flag_bit_def)
  then have f: "flags_word (VObj kvs) chunk = Inr (VNum (foldl js_or (hd ?bits) (tl ?bits)))"
    by (simp add: flags_word_def rmap_map)
  have "bit (foldl js_or (hd ?bits) (tl ?bits)) k \<longleftrightarrow> k < length chunk \<and> val_truthy (obj_get kvs (chunk ! k))" if "k < 32" for k
  proof -
    have "?bits \<noteq> []" using assms(1) by auto
    then have "bit (foldl js_or (hd ?bits) (tl ?bits)) k \<longleftrightarrow> (\<exists>x \<in> set ?bits. bit x k)"
      using that bit_foldl_or [of k "hd ?bits" "tl ?bits"] by (cases ?bits) auto
    also have "\<dots> \<longleftrightarrow> (\<exists>x \<in> set (map (\<lambda>i. ?g (chunk ! i, i)) [0..<length chunk]). bit x k)"
    proof -
      have "?bits = map (\<lambda>i. ?g (chunk ! i, i)) [0..<length chunk]" by (intro nth_equalityI) auto
      then show ?thesis by simp
    qed
    also have "(\<exists>x \<in> set (map (\<lambda>i. ?g (chunk ! i, i)) [0..<length chunk]). bit x k) \<longleftrightarrow>
        (\<exists>i < length chunk. bit (?g (chunk ! i, i)) k)" by auto
    also have "\<dots> \<longleftrightarrow> (\<exists>i < length chunk. val_truthy (obj_get kvs (chunk ! i)) \<and> k = i)"
      using that assms(2) by (intro ex_cong1 conj_cong refl) (simp add: bit_js_shl_bool del: if_distrib)
    also have "\<dots> \<longleftrightarrow> k < length chunk \<and> val_truthy (obj_get kvs (chunk ! k))" by auto
    finally show ?thesis .
  qed
  with f show ?thesis by blast
qed

lemma fold_obj_set:
  "distinct (map fst kvs @ map fst o0) \<Longrightarrow> fold (\<lambda>(k, v) o'. obj_set o' k v) kvs o0 = o0 @ kvs"
proof (induction kvs arbitrary: o0)
  case Nil
  then show ?case by simp
next
  case (Cons kv kvs)
  obtain k v where kv: "kv = (k, v)" by (cases kv)
  with Cons.prems have "obj_set o0 k v = o0 @ [(k, v)]" by (intro obj_set_fresh) auto
  with Cons kv show ?case by simp
qed

text \<open>C33. Flags of any number: an object is lowered to one word for each 32 flags, a flag being set when
  its property is true, and the words are lifted to an object that has exactly these flags, with
  or without the check for bits that belong to no flag.\<close>

theorem flags_words_roundtrip:
  assumes "distinct names"
  shows "\<exists>ops. flags_lower names (VObj kvs) = Inr ops \<and> length ops = (length names + 31) div 32 \<and>
           flags_lift valid_lifting names ops =
             Inr (VObj (map (\<lambda>name. (name, VBool (val_truthy (obj_get kvs name)))) names))"
proof -
  have "\<forall>c \<in> set (chunks32 names). \<exists>r. flags_word (VObj kvs) c = Inr (VNum r) \<and>
           (\<forall>k<32. bit r k \<longleftrightarrow> k < length c \<and> val_truthy (obj_get kvs (c ! k)))"
    using flags_word_bits chunks32_lengths by blast
  then obtain w where w: "\<And>c. c \<in> set (chunks32 names) \<Longrightarrow> flags_word (VObj kvs) c = Inr (VNum (w c))"
    "\<And>c k. c \<in> set (chunks32 names) \<Longrightarrow> k < 32 \<Longrightarrow> bit (w c) k \<longleftrightarrow> k < length c \<and> val_truthy (obj_get kvs (c ! k))"
    by metis
  let ?ops = "map (\<lambda>c. VNum (w c)) (chunks32 names)"
  have lo: "flags_lower names (VObj kvs) = Inr ?ops"
    using w(1) by (simp add: flags_lower_def rmap_map)
  have op: "?ops ! (i div 32) = VNum (w (chunks32 names ! (i div 32)))" and
    bit: "bit (w (chunks32 names ! (i div 32))) (i mod 32) \<longleftrightarrow> val_truthy (obj_get kvs (names ! i))"
    if i: "i < length names" for i
  proof -
    have l: "i div 32 < length (chunks32 names)"
      unfolding length_chunks32 using i by (simp add: div_less_iff_less_mult)
    then show "?ops ! (i div 32) = VNum (w (chunks32 names ! (i div 32)))" by simp
    show "bit (w (chunks32 names ! (i div 32))) (i mod 32) \<longleftrightarrow> val_truthy (obj_get kvs (names ! i))"
      using w(2) [of "chunks32 names ! (i div 32)" "i mod 32"] l chunks32_elem [OF i] by simp
  qed
  have ext: "js_and (w (last (chunks32 names))) (extraneous_mask (length names mod 32)) = 0"
    if n: "chunks32 names \<noteq> []" "length names mod 32 \<noteq> 0"
  proof (rule js_and_extraneous)
    let ?i = "length names - 1" and ?j = "length names mod 32"
    have i: "?i < length names" using n by (cases names) auto
    note d = div32_pred(1) [OF n(2)] and e' = div32_pred(2) [OF n(2)]
    have e: "?i div 32 = length (chunks32 names) - 1" using d e' by (simp add: length_chunks32)
    have l: "last (chunks32 names) = chunks32 names ! (?i div 32)" using n(1) e by (simp add: last_conv_nth)
    then have len: "length (last (chunks32 names)) = ?j"
      using chunks32_nth [OF i] d by (simp add: minus_mult_div_eq_mod min_def)
    show "\<not> bit (w (last (chunks32 names))) k" if "?j \<le> k" "k < 32" for k
      using w(2) [of "last (chunks32 names)" k] n(1) that len by simp
  qed (use n in auto)
  have "rmap (\<lambda>(flag, i). rbind (to_number (?ops ! (i div 32))) (\<lambda>n.
           Inr (flag, VBool (js_and n (push_bit (i mod 32) 1) \<noteq> 0)))) (zip names [0..<length names]) =
      Inr (map (\<lambda>(flag, i). (flag, VBool (val_truthy (obj_get kvs flag)))) (zip names [0..<length names]))"
    by (intro rmap_map) (auto simp: set_zip op bit js_and_pow)
  moreover have "map (\<lambda>(flag, i). (flag, VBool (val_truthy (obj_get kvs flag)))) (zip names [0..<length names]) =
      map (\<lambda>name. (name, VBool (val_truthy (obj_get kvs name)))) names" (is "_ = ?kvs")
    by (intro nth_equalityI) auto
  moreover have "fold (\<lambda>(k, v) o'. obj_set o' k v) ?kvs [] = ?kvs"
    using assms by (subst fold_obj_set) (auto simp: comp_def)
  moreover have "(if ?ops \<noteq> [] \<and> length names mod 32 \<noteq> 0 \<and> \<not> valid_lifting
            then rbind (to_number (last ?ops)) (\<lambda>n.
              if js_and n (extraneous_mask (length names mod 32)) \<noteq> 0
              then Inl (TypeErr ''flags have extraneous bits set'') else Inr ())
            else Inr ()) = Inr ()"
    using ext by (auto simp: last_map)
  ultimately have "flags_lift valid_lifting names ?ops = Inr (VObj ?kvs)"
    unfolding flags_lift_def by simp
  with lo show ?thesis by (simp add: length_chunks32)
qed

definition demo_flags :: "string list" where
  "demo_flags = map (\<lambda>i. ''f'' @ show_nat i) [0..<33]"

theorem flags_words_roundtrip_witness:
  "(\<exists>ops. flags_lower demo_flags (VObj [(''f0'', VBool True), (''f31'', VNum 1), (''f32'', VStr ''x'')]) = Inr ops \<and>
       length ops = (length demo_flags + 31) div 32 \<and>
       flags_lift False demo_flags ops =
         Inr (VObj (map (\<lambda>name. (name, VBool (val_truthy (obj_get
           [(''f0'', VBool True), (''f31'', VNum 1), (''f32'', VStr ''x'')] name)))) demo_flags))) \<and>
   flags_lower demo_flags (VObj [(''f0'', VBool True), (''f31'', VNum 1), (''f32'', VStr ''x'')]) =
     Inr [VNum (- 2147483647), VNum 1]"
proof (intro conjI)
  have "distinct demo_flags" by code_simp
  then show "\<exists>ops. flags_lower demo_flags (VObj [(''f0'', VBool True), (''f31'', VNum 1), (''f32'', VStr ''x'')]) = Inr ops \<and>
       length ops = (length demo_flags + 31) div 32 \<and>
       flags_lift False demo_flags ops =
         Inr (VObj (map (\<lambda>name. (name, VBool (val_truthy (obj_get
           [(''f0'', VBool True), (''f31'', VNum 1), (''f32'', VStr ''x'')] name)))) demo_flags))"
    by (rule flags_words_roundtrip)
  show "flags_lower demo_flags (VObj [(''f0'', VBool True), (''f31'', VNum 1), (''f32'', VStr ''x'')]) =
     Inr [VNum (- 2147483647), VNum 1]" by code_simp
qed

text \<open>A set bit that belongs to no flag is refused unless the check is optimised away.\<close>

lemma flags_lift_extraneous:
  "flags_lift False [''a'', ''b''] [VNum 4] = Inl (TypeErr ''flags have extraneous bits set'')"
  "flags_lift True [''a'', ''b''] [VNum 4] = Inr (VObj [(''a'', VBool False), (''b'', VBool False)])"
  by code_simp+

section \<open>Scalars\<close>

text \<open>Without strict checks a lowered integer wraps; the lift of the result accepts exactly the numbers of
  the type.\<close>

lemma small_ints_roundtrip:
  "0 \<le> n \<Longrightarrow> n \<le> 255 \<Longrightarrow> rbind (lower_int_instr strict I32FromU8 (VNum n)) u8_from_i32 = Inr (VNum n)"
  "- 128 \<le> n \<Longrightarrow> n \<le> 127 \<Longrightarrow> rbind (lower_int_instr strict I32FromS8 (VNum n)) s8_from_i32 = Inr (VNum n)"
  "0 \<le> n \<Longrightarrow> n \<le> 65535 \<Longrightarrow> rbind (lower_int_instr strict I32FromU16 (VNum n)) u16_from_i32 = Inr (VNum n)"
  "- 32768 \<le> n \<Longrightarrow> n \<le> 32767 \<Longrightarrow> rbind (lower_int_instr strict I32FromS16 (VNum n)) s16_from_i32 = Inr (VNum n)"
proof -
  have k: "signed_take_bit 7 n = n" if "- 128 \<le> n" "n \<le> 127"
    using that by (intro signed_take_bit_int_eq_self) auto
  have k': "signed_take_bit 15 n = n" if "- 32768 \<le> n" "n \<le> 32767"
    using that by (intro signed_take_bit_int_eq_self) auto
  have s: "strict_checks strict ty (VNum n) = Inr () \<Longrightarrow> toUint8 strict (VNum n) = toUint8 False (VNum n) \<or> True" for ty by simp
  note c = toInt8_def toUint8_def toInt16_def toUint16_def strict_checks_def requireValidNumericPrimitive_def
    isValidNumericPrimitive_def in_range_def
  note w = to_small_int_wraps_lemma [of n, unfolded toInt8_def toUint8_def toInt16_def toUint16_def strict_checks_def, simplified]
  show "0 \<le> n \<Longrightarrow> n \<le> 255 \<Longrightarrow> rbind (lower_int_instr strict I32FromU8 (VNum n)) u8_from_i32 = Inr (VNum n)"
    using w(2) by (cases strict) (simp_all add: c u8_from_i32_def clampGuest_def take_bit_int_eq_self)
  show "- 128 \<le> n \<Longrightarrow> n \<le> 127 \<Longrightarrow> rbind (lower_int_instr strict I32FromS8 (VNum n)) s8_from_i32 = Inr (VNum n)"
    using w(1) k by (cases strict) (simp_all add: c s8_from_i32_def clampGuest_def)
  show "0 \<le> n \<Longrightarrow> n \<le> 65535 \<Longrightarrow> rbind (lower_int_instr strict I32FromU16 (VNum n)) u16_from_i32 = Inr (VNum n)"
    using w(4) by (cases strict) (simp_all add: c u16_from_i32_def clampGuest_def take_bit_int_eq_self)
  show "- 32768 \<le> n \<Longrightarrow> n \<le> 32767 \<Longrightarrow> rbind (lower_int_instr strict I32FromS16 (VNum n)) s16_from_i32 = Inr (VNum n)"
    using w(3) k' by (cases strict) (simp_all add: c s16_from_i32_def clampGuest_def)
qed

lemma clamp_refuses: "n < lo \<or> hi < n \<Longrightarrow> clampGuest lo hi (VNum n) = Inl (TypeErr ''must be between min and max'')"
  by (auto simp: clampGuest_def)

lemma bool_roundtrip: "rbind (i32_from_bool v) (bool_from_i32 valid) = Inr (VBool (val_truthy v))"
  by (simp add: i32_from_bool_def bool_from_i32_def)

text \<open>A Unicode scalar value becomes a string of one character, and that string the scalar value. This
  holds above 65535 too, unlike for the flat lift function, which uses \<open>String.fromCharCode\<close>.\<close>

lemma char_roundtrip:
  assumes "0 \<le> n" "n \<le> 1114111" "\<not> (55296 \<le> n \<and> n \<le> 57343)"
  shows "rbind (validateGuestChar (VNum n)) validateHostChar = Inr (VNum n)"
proof -
  consider "n < 256" | "256 \<le> n" "n < 65536" | "65536 \<le> n" by linarith
  then show ?thesis
  proof cases
    case 3
    let ?m = "nat (n - 65536)"
    have "?m < 1024 * 1024" using assms(2) by simp
    then have q: "?m div 1024 < 1024" by (simp only: div_less_iff_less_mult zero_less_numeral)
    have r: "?m mod 1024 < 1024" by simp
    have "int (?m div 1024 * 1024 + ?m mod 1024) = n - 65536" using 3 by simp
    then have e: "int (?m div 1024 * 1024 + ?m mod 1024 + 65536) = n" by linarith
    have "validateGuestChar (VNum n) = Inr (VUtf16 [55296 + ?m div 1024, 56320 + ?m mod 1024])"
      using 3 assms by (simp add: validateGuestChar_def from_code_point_def)
    moreover have "code_point_at0 [55296 + a, 56320 + b] = VNum (int (a * 1024 + b + 65536))"
      if "a < 1024" "b < 1024" for a b using that by simp
    ultimately show ?thesis using q r e by (simp del: of_nat_add)
  qed (use assms in \<open>simp_all add: validateGuestChar_def from_code_point_def\<close>)
qed

lemma bitcast_i32_i64: "rbind (bitcast_instr fl I32ToI64 (VNum n)) (bitcast_instr fl I64ToI32) = Inr (VNum n)"
  by (simp add: js_BigInt_def js_Number_def)

end
