(* ===== verification/Func_Lists.thy ===== *)
theory Func_Lists
  imports Func_Memory Func_Cases
begin

text \<open>
  The lists of \<open>FunctionBindgen\<close>: a list in canonical form is stored and read back as the typed array
  of its elements, from an array or from a typed array alike; a list lowered and lifted by element, by
  blocks that keep to the bytes of their element, comes back. The exceptions are what the code does
  with a pointer or a length outside the memory, and with a value that is no list.
\<close>

section \<open>Typed elements\<close>

lemma typed_elems_Nil [simp]: "typed_elems sgned n [] = []"
  by (simp add: typed_elems.simps)

lemma typed_elems_bytes:
  assumes "0 < n" "\<And>x. x \<in> set ns \<Longrightarrow> wrap_int sgned n x = x"
  shows "typed_elems sgned n (concat (map (le_bytes n) ns)) = ns"
  using assms(2)
proof (induction ns)
  case (Cons x ns)
  have ne: "le_bytes n x @ concat (map (le_bytes n) ns) \<noteq> []" using assms(1) by (cases n) auto
  have "typed_elems sgned n (concat (map (le_bytes n) (x # ns))) =
      wrap_int sgned n (le_val (le_bytes n x)) # typed_elems sgned n (concat (map (le_bytes n) ns))"
    using ne assms(1) by (subst typed_elems.simps) simp
  with Cons assms(1) show ?case by (simp add: wrap_le_bytes)
qed simp

lemma length_concat_bytes: "length (concat (map (le_bytes n) ns)) = n * length ns"
  by (induction ns) auto

lemma elem_bytes_pos: "0 < elem_bytes k"
  by (cases k) (simp_all add: elem_bytes_def)

text \<open>The values of the elements of a kind.\<close>

definition elem_val :: "typed_kind \<Rightarrow> int \<Rightarrow> val" where
  "elem_val k = (if is_big_kind k then VBig else VNum)"

definition elem_ok :: "typed_kind \<Rightarrow> int \<Rightarrow> bool" where
  "elem_ok k x \<longleftrightarrow> wrap_int (fst (kind_width k)) (elem_bytes k) x = x"

lemma elem_ok_range:
  "elem_ok k x \<longleftrightarrow> (if fst (kind_width k) then - (2 ^ (8 * elem_bytes k - 1)) \<le> x \<and> x < 2 ^ (8 * elem_bytes k - 1)
                   else 0 \<le> x \<and> x < 2 ^ (8 * elem_bytes k))"
  using elem_bytes_pos [of k]
  by (auto simp: elem_ok_def wrap_int_def signed_take_bit_int_eq_self_iff take_bit_int_eq_self_iff)

lemma check_elem: "elem_ok k x \<Longrightarrow> requireValidNumericPrimitive (check_name k) (elem_val k x) = Inr ()"
  by (cases k) (auto simp: elem_ok_range elem_bytes_def elem_val_def requireValidNumericPrimitive_def
    isValidNumericPrimitive_def in_range_def)

lemma conv_elem: "(if is_big_kind k then to_bigint else to_number) (elem_val k x) = Inr x"
  by (simp add: elem_val_def)

lemma mem_write_append:
  assumes "0 \<le> p" "p + int (length a) + int (length b) \<le> int (length m)"
  shows "mem_write (p + int (length a)) b (mem_write p a m) = mem_write p (a @ b) m"
proof (rule nth_equalityI)
  have la: "p + int (length a) \<le> int (length m)" using assms by linarith
  show "length (mem_write (p + int (length a)) b (mem_write p a m)) = length (mem_write p (a @ b) m)"
    using assms la by simp
  fix i assume "i < length (mem_write (p + int (length a)) b (mem_write p a m))"
  then have i: "i < length m" using assms la by simp
  have n: "nat (p + int (length a)) = nat p + length a" using assms(1) by simp
  show "mem_write (p + int (length a)) b (mem_write p a m) ! i = mem_write p (a @ b) m ! i"
    using assms i by (auto simp: mem_write_def nth_append n min_def not_less)
qed

lemma mem_write_Nil [simp]: "mem_write p [] m = m"
  by (simp add: mem_write_def)

lemma set_elems_ok:
  assumes "\<And>x. x \<in> set ns \<Longrightarrow> elem_ok k x" "0 \<le> ptr + off" "ptr + off + int (elem_bytes k * length ns) \<le> int (length m)"
  shows "set_elems k ptr off (map (elem_val k) ns) m =
           (Inr (), mem_write (ptr + off) (concat (map (le_bytes (elem_bytes k)) ns)) m)"
  using assms
proof (induction ns arbitrary: off m)
  case Nil
  then show ?case by simp
next
  case (Cons x ns)
  let ?b = "elem_bytes k" and ?bs = "le_bytes (elem_bytes k) x"
  let ?m = "mem_write (ptr + off) ?bs m"
  have bounds: "ptr + off + int ?b \<le> int (length m)"
  proof -
    have "0 \<le> int ?b * int (length ns)" by simp
    moreover have "int (?b * length (x # ns)) = int ?b + int ?b * int (length ns)" by (simp add: distrib_left)
    ultimately show ?thesis using Cons.prems(3) by linarith
  qed
  have "set_elems k ptr (off + int ?b) (map (elem_val k) ns) ?m =
      (Inr (), mem_write (ptr + (off + int ?b)) (concat (map (le_bytes ?b) ns)) ?m)"
    using Cons.prems bounds by (intro Cons.IH) (auto simp: algebra_simps)
  moreover have "mem_write (ptr + (off + int ?b)) (concat (map (le_bytes ?b) ns)) ?m =
      mem_write (ptr + off) (concat (map (le_bytes ?b) (x # ns))) m"
    using mem_write_append [of "ptr + off" ?bs "concat (map (le_bytes ?b) ns)" m] Cons.prems(2,3)
    by (simp add: length_concat_bytes algebra_simps)
  moreover have "view_set ?b (ptr + off) (Inr x) m = (Inr (), ?m)"
    using Cons.prems(2) bounds by (simp add: view_set_def)
  ultimately show ?case
    using Cons.prems(1) by (simp add: jbind_def check_elem conv_elem)
qed

section \<open>Canonical lists\<close>

lemma canon_len_list: "canon_len k (VArr vs) = Inr (VNum (int (length vs)))"
  by (simp add: canon_len_def)

lemma canon_len_typed: "canon_len k (VTyped k ns) = Inr (VNum (int (length ns)))"
  by (simp add: canon_len_def elem_bytes_def)

lemma slice_index_simps:
  "0 \<le> i \<Longrightarrow> i \<le> n \<Longrightarrow> slice_index n i = i"
  "0 \<le> n \<Longrightarrow> n \<le> i \<Longrightarrow> slice_index n i = n"
  "i < 0 \<Longrightarrow> 0 \<le> n + i \<Longrightarrow> slice_index n i = n + i"
  by (simp_all add: slice_index_def)

lemma canon_lift_stored:
  assumes "\<And>x. x \<in> set ns \<Longrightarrow> elem_ok k x" "0 \<le> ptr" "ptr + int (elem_bytes k * length ns) \<le> int (length m)"
  shows "list_canon_lift k (VNum ptr) (VNum (int (length ns)))
           (mem_write ptr (concat (map (le_bytes (elem_bytes k)) ns)) m) =
         (Inr (VTyped k ns), mem_write ptr (concat (map (le_bytes (elem_bytes k)) ns)) m)"
proof -
  let ?bs = "concat (map (le_bytes (elem_bytes k)) ns)" and ?m = "mem_write ptr (concat (map (le_bytes (elem_bytes k)) ns)) m"
  have l: "length ?bs = elem_bytes k * length ns" by (rule length_concat_bytes)
  let ?n = "elem_bytes k * length ns"
  have "buffer_slice ptr (ptr + int ?n) ?m = ?bs"
  proof -
    have "0 \<le> int ?n" by (rule of_nat_0_le_iff)
    then have "slice_index (int (length m)) ptr = ptr" "slice_index (int (length m)) (ptr + int ?n) = ptr + int ?n"
      using assms(2,3) by (simp_all only: slice_index_simps add_increasing)
    then show ?thesis using assms(2,3) mem_read_write [of ptr ?bs m] unfolding buffer_slice_def Let_def
      by (simp only: l length_mem_write add_diff_cancel_left' nat_int)
  qed
  then have "buffer_slice ptr (ptr + int (length ns) * int (elem_bytes k)) ?m = ?bs" by (simp add: mult.commute)
  moreover have "typed_of_bytes k ?bs = Inr (VTyped k ns)"
    using typed_elems_bytes [OF elem_bytes_pos, of ns "fst (kind_width k)" k] assms(1)
    by (simp add: typed_of_bytes_def l elem_ok_def)
  ultimately show ?thesis by (simp add: list_canon_lift_def num_operand_def)
qed



text \<open>A canonical list that is not in the memory does not trap: the slice of the buffer is clamped, so
  a list that runs over the end is lifted with the elements up to the end, and a pointer that reaches the
  code as a negative number, which those above 2 GiB in flat parameters do, counts from the end of the
  memory.\<close>

theorem canonical_list_not_trapping:
  assumes "0 < ptr" "ptr \<le> int (length m)" "0 \<le> len"
  shows "(int (length m) < ptr + len \<longrightarrow>
           list_canon_lift Uint8Array (VNum ptr) (VNum len) m =
             (Inr (VTyped Uint8Array (typed_elems False 1 (drop (nat ptr) m))), m)) \<and>
         (len < ptr \<longrightarrow>
           list_canon_lift Uint8Array (VNum (- ptr)) (VNum len) m =
             (Inr (VTyped Uint8Array (typed_elems False 1 (take (nat len) (drop (length m - nat ptr) m)))), m))"
proof (intro conjI impI)
  let ?n = "int (length m)"
  have k: "elem_bytes Uint8Array = 1" "fst (kind_width Uint8Array) = False" by (simp_all add: elem_bytes_def)
  show "list_canon_lift Uint8Array (VNum ptr) (VNum len) m =
      (Inr (VTyped Uint8Array (typed_elems False 1 (drop (nat ptr) m))), m)" if "?n < ptr + len"
  proof -
    have "slice_index ?n ptr = ptr" "slice_index ?n (ptr + len) = ?n"
      using assms that by (simp_all add: slice_index_simps)
    moreover have "nat (?n - ptr) = length m - nat ptr" using assms by linarith
    ultimately have "buffer_slice ptr (ptr + len) m = drop (nat ptr) m"
      by (simp add: buffer_slice_def Let_def mem_read_def)
    then show ?thesis by (simp add: list_canon_lift_def num_operand_def typed_of_bytes_def k)
  qed
  show "list_canon_lift Uint8Array (VNum (- ptr)) (VNum len) m =
      (Inr (VTyped Uint8Array (typed_elems False 1 (take (nat len) (drop (length m - nat ptr) m)))), m)" if "len < ptr"
  proof -
    have "slice_index ?n (- ptr) = ?n - ptr" "slice_index ?n (- ptr + len) = ?n - ptr + len"
      using assms that slice_index_simps(3) [of "- ptr" ?n] slice_index_simps(3) [of "- ptr + len" ?n] by simp_all
    moreover have "nat (?n - ptr) = length m - nat ptr" using assms by linarith
    ultimately have "buffer_slice (- ptr) (- ptr + len) m = take (nat len) (drop (length m - nat ptr) m)"
      by (simp add: buffer_slice_def Let_def mem_read_def)
    then show ?thesis by (simp add: list_canon_lift_def num_operand_def typed_of_bytes_def k)
  qed
qed

theorem canonical_list_not_trapping_witness:
  "list_canon_lift Uint8Array (VNum 2) (VNum 100) [1, 2, 3, 4] = (Inr (VTyped Uint8Array [3, 4]), [1, 2, 3, 4]) \<and>
   list_canon_lift Uint8Array (VNum (- 2)) (VNum 1) [1, 2, 3, 4] = (Inr (VTyped Uint8Array [3]), [1, 2, 3, 4])"
proof -
  have t: "typed_elems False 1 [3, 4] = [3, 4]" "typed_elems False 1 [3] = [3]" by code_simp+
  have "list_canon_lift Uint8Array (VNum 2) (VNum 100) [1, 2, 3, 4] =
      (Inr (VTyped Uint8Array (typed_elems False 1 (drop (nat 2) [1, 2, 3, 4]))), [1, 2, 3, 4])"
    using canonical_list_not_trapping [of 2 "[1, 2, 3, 4]" 100] by simp
  moreover have "list_canon_lift Uint8Array (VNum (- 2)) (VNum 1) [1, 2, 3, 4] =
      (Inr (VTyped Uint8Array (typed_elems False 1 (take (nat 1) (drop (length [1, 2, 3, 4 :: 8 word] - nat 2) [1, 2, 3, 4])))), [1, 2, 3, 4])"
    using canonical_list_not_trapping [of 2 "[1, 2, 3, 4]" 1] by simp
  ultimately show ?thesis using t by simp
qed

section \<open>Lists by element\<close>

text \<open>Blocks that lower and lift an element: at any place \<open>p\<close> in the memory the one writes only the \<open>sz\<close>
  bytes there, and the other gives back what corresponds to the element on any memory that has these
  bytes.\<close>

definition agree_on :: "int \<Rightarrow> int \<Rightarrow> mem \<Rightarrow> mem \<Rightarrow> bool" where
  "agree_on p sz m m' \<longleftrightarrow> length m' = length m \<and> (\<forall>i < length m. p \<le> int i \<longrightarrow> int i < p + sz \<longrightarrow> m' ! i = m ! i)"

definition agree_off :: "int \<Rightarrow> int \<Rightarrow> mem \<Rightarrow> mem \<Rightarrow> bool" where
  "agree_off p sz m m' \<longleftrightarrow> length m' = length m \<and> (\<forall>i < length m. int i < p \<or> p + sz \<le> int i \<longrightarrow> m' ! i = m ! i)"

definition elem_blocks ::
    "int \<Rightarrow> (val \<Rightarrow> int \<Rightarrow> (unit, mem) jsop) \<Rightarrow> (int \<Rightarrow> (val list, mem) jsop) \<Rightarrow> (val \<Rightarrow> val) \<Rightarrow> val \<Rightarrow> bool" where
  "elem_blocks sz lo li canon e \<longleftrightarrow>
     (\<forall>p m. 0 \<le> p \<longrightarrow> p + sz \<le> int (length m) \<longrightarrow>
       (\<exists>m'. lo e p m = (Inr (), m') \<and> agree_off p sz m m' \<and>
          (\<forall>m''. agree_on p sz m' m'' \<longrightarrow> li p m'' = (Inr [canon e], m''))))"

lemma agree_off_trans:
  "agree_off p sz m m' \<Longrightarrow> agree_off q sz' m' m'' \<Longrightarrow> r \<le> p \<Longrightarrow> p + sz \<le> r + t \<Longrightarrow> r \<le> q \<Longrightarrow> q + sz' \<le> r + t \<Longrightarrow>
   agree_off r t m m''"
  by (auto simp: agree_off_def)

lemma agree_on_part: "agree_on p t m m' \<Longrightarrow> p \<le> q \<Longrightarrow> q + sz \<le> p + t \<Longrightarrow> agree_on q sz m m'"
  by (auto simp: agree_on_def)

lemma agree_on_before: "agree_off (p + sz) t m m' \<Longrightarrow> agree_on p sz m' m'' \<Longrightarrow> agree_on p sz m m''"
  by (auto simp: agree_on_def agree_off_def)

text \<open>The loops: the lowered elements fill an area, and any memory with this area lifts to them.\<close>

lemma lower_elems_area:
  assumes "0 \<le> sz" "\<And>e. e \<in> set es \<Longrightarrow> elem_blocks sz lo li canon e" "0 \<le> base"
    "base + int (i + length es) * sz \<le> int (length m)"
  shows "\<exists>m'. lower_elems lo sz base i es m = (Inr (), m') \<and>
           agree_off (base + int i * sz) (int (length es) * sz) m m' \<and>
           (\<forall>m''. agree_on (base + int i * sz) (int (length es) * sz) m' m'' \<longrightarrow>
              lift_elems li sz base i (length es) m'' = (Inr (map canon es), m''))"
  using assms(2,4)
proof (induction es arbitrary: i m)
  case Nil
  then show ?case by (auto simp: agree_off_def)
next
  case (Cons e es)
  let ?p = "base + int i * sz"
  have len: "?p + sz + int (length es) * sz = base + int (i + length (e # es)) * sz"
    "?p + sz = base + int (Suc i) * sz" by (simp_all add: algebra_simps)
  have pos: "0 \<le> int i * sz" "0 \<le> int (length es) * sz" using assms(1) by simp_all
  have p: "0 \<le> ?p" "?p + sz \<le> int (length m)" using assms(3) Cons.prems(2) len pos by linarith+
  have "elem_blocks sz lo li canon e" using Cons.prems(1) by simp
  with p have "\<exists>m1. lo e ?p m = (Inr (), m1) \<and> agree_off ?p sz m m1 \<and>
      (\<forall>m''. agree_on ?p sz m1 m'' \<longrightarrow> li ?p m'' = (Inr [canon e], m''))"
    unfolding elem_blocks_def by blast
  then obtain m1 where m1: "lo e ?p m = (Inr (), m1)" "agree_off ?p sz m m1"
    "\<And>m''. agree_on ?p sz m1 m'' \<Longrightarrow> li ?p m'' = (Inr [canon e], m'')"
    by blast
  from m1(2) have "length m1 = length m" by (simp add: agree_off_def)
  with Cons.IH [of "Suc i" m1] Cons.prems obtain m2 where m2: "lower_elems lo sz base (Suc i) es m1 = (Inr (), m2)"
    "agree_off (?p + sz) (int (length es) * sz) m1 m2"
    "\<And>m''. agree_on (?p + sz) (int (length es) * sz) m2 m'' \<Longrightarrow>
       lift_elems li sz base (Suc i) (length es) m'' = (Inr (map canon es), m'')"
    unfolding len by auto
  have tot: "int (length (e # es)) * sz = sz + int (length es) * sz" by (simp add: algebra_simps)
  have "agree_off ?p (int (length (e # es)) * sz) m m2"
    unfolding tot using m1(2) m2(2) by (rule agree_off_trans) (use assms(1) pos in linarith)+
  moreover have "lift_elems li sz base i (length (e # es)) m'' = (Inr (map canon (e # es)), m'')"
    if a: "agree_on ?p (int (length (e # es)) * sz) m2 m''" for m''
  proof -
    have "agree_on ?p sz m2 m''" "agree_on (?p + sz) (int (length es) * sz) m2 m''"
      by (rule agree_on_part [OF a [unfolded tot]]; use assms(1) pos in linarith)+
    moreover from agree_on_before [OF m2(2) this(1)] have "agree_on ?p sz m1 m''" .
    ultimately show ?thesis using m1(3) m2(3) by (simp add: jbind_def one_result_def)
  qed
  moreover have "lower_elems lo sz base i (e # es) m = (Inr (), m2)"
    using m1(1) m2(1) by (simp add: jbind_def)
  ultimately show ?case by blast
qed

text \<open>A list lowered by element into room of the allocator writes only there and gives the pointer and
  the length; lifting these, in any memory in which the area has not changed, gives the list of what
  corresponds to its elements, in order.\<close>

theorem list_instr_roundtrip:
  assumes "0 \<le> sz" "\<And>e. e \<in> set es \<Longrightarrow> elem_blocks sz lo li canon e"
    and "ra 0 0 align (int (length es) * sz) m = (Inr ptr, m1)"
    and "0 \<le> ptr" "ptr + int (length es) * sz \<le> int (length m1)"
  shows "\<exists>m2. list_lower ra align sz lo (VArr es) m = (Inr [VNum ptr, VNum (int (length es))], m2) \<and>
           agree_off ptr (int (length es) * sz) m1 m2 \<and>
           (\<forall>m3. agree_on ptr (int (length es) * sz) m2 m3 \<longrightarrow>
              list_lift sz li (VNum ptr) (VNum (int (length es))) m3 = (Inr (VArr (map canon es)), m3))"
proof -
  obtain m2 where m2: "lower_elems lo sz ptr 0 es m1 = (Inr (), m2)" "agree_off ptr (int (length es) * sz) m1 m2"
    "\<And>m3. agree_on ptr (int (length es) * sz) m2 m3 \<Longrightarrow> lift_elems li sz ptr 0 (length es) m3 = (Inr (map canon es), m3)"
    using lower_elems_area [of sz es lo li canon ptr 0 m1] assms by auto
  have "list_lower ra align sz lo (VArr es) m = (Inr [VNum ptr, VNum (int (length es))], m2)"
    using assms(3) m2(1) by (simp add: list_lower_def jbind_def len_num_def)
  moreover have "list_lift sz li (VNum ptr) (VNum (int (length es))) m3 = (Inr (VArr (map canon es)), m3)"
    if "agree_on ptr (int (length es) * sz) m2 m3" for m3
    using m2(3) [OF that] by (cases "es = []") (simp_all add: list_lift_def jbind_def num_operand_def)
  ultimately show ?thesis using m2(2) by blast
qed

text \<open>A list of a known length in memory.\<close>

lemma fixed_list_memory_roundtrip:
  assumes "0 \<le> sz" "\<And>e. e \<in> set es \<Longrightarrow> elem_blocks sz lo li canon e" "0 \<le> ptr" "ptr + int (length es) * sz \<le> int (length m)"
  shows "\<exists>m'. lower_elems lo sz ptr 0 es m = (Inr (), m') \<and>
           (\<forall>m''. agree_on ptr (int (length es) * sz) m' m'' \<longrightarrow>
              fixed_list_lift_from_memory sz (length es) li (VNum ptr) m'' = (Inr (VArr (map canon es)), m''))"
  using lower_elems_area [of sz es lo li canon ptr 0 m] assms
  by (auto simp: fixed_list_lift_from_memory_def jbind_def num_operand_def)

text \<open>A value that is no list, here a set-like object or a map, is lowered as the empty list.\<close>

lemma list_lower_no_list:
  assumes "ra 0 0 align 0 m = (Inr ptr, m')"
  shows "list_lower ra align sz lo (VMap kvs) m = (Inr [VNum ptr, VUndef], m')"
    and "list_lower ra align sz lo (VObj []) m = (Inr [VNum ptr, VUndef], m')"
    and "list_lower ra align sz lo (VNum n) m = (Inr [VNum ptr, VUndef], m')"
  using assms by (simp_all add: list_lower_def jbind_def len_num_def obj_get_def)

text \<open>A list of a known length is not checked for its length: missing elements are undefined, and elements
  beyond the length are dropped.\<close>

lemma fixed_list_length_unchecked:
  "fixed_list_lower 3 (VArr [a]) = Inr [a, VUndef, VUndef]" "fixed_list_lower 1 (VArr [a, b]) = Inr [a]"
  by (simp_all add: fixed_list_lower_def numeral_3_eq_3)

text \<open>Four-byte numbers as elements, lowered by a store and lifted by a load.\<close>

lemma u32_blocks:
  assumes "0 \<le> n" "n < 2 ^ 32"
  shows "elem_blocks 4 (\<lambda>e p. store_instr I32Store 0 e (VNum p)) (\<lambda>p. jbind (load_instr LengthLoad 0 (VNum p)) (\<lambda>x. jret [x]))
           (\<lambda>v. v) (VNum n)"
  unfolding elem_blocks_def
proof (intro allI impI)
  fix p :: int and m :: mem
  assume p: "0 \<le> p" "p + 4 \<le> int (length m)"
  let ?m = "mem_write p (le_bytes 4 n) m"
  have w: "store_instr I32Store 0 (VNum n) (VNum p) m = (Inr (), ?m)"
    using p by (simp add: fb_store_def jbind_def num_operand_def view_set_def)
  moreover have "agree_off p 4 m ?m"
    using p mem_write_nth [of p "le_bytes 4 n" m] by (auto simp: agree_off_def)
  moreover have "jbind (load_instr LengthLoad 0 (VNum p)) (\<lambda>x. jret [x]) m'' = (Inr [VNum n], m'')" if "agree_on p 4 ?m m''" for m''
  proof -
    have "mem_read p 4 m'' = mem_read p 4 ?m"
      using that p by (intro mem_read_cong) (auto simp: agree_on_def)
    also have "\<dots> = le_bytes 4 n" using p mem_read_write [of p "le_bytes 4 n" m] by simp
    finally show ?thesis using that p assms wrap_le_bytes [of 4 False n]
      by (simp add: fb_load_def jbind_def num_operand_def view_get_def agree_on_def wrap_int_def take_bit_int_eq_self)
  qed
  ultimately show "\<exists>m'. store_instr I32Store 0 (VNum n) (VNum p) m = (Inr (), m') \<and> agree_off p 4 m m' \<and>
      (\<forall>m''. agree_on p 4 m' m'' \<longrightarrow> jbind (load_instr LengthLoad 0 (VNum p)) (\<lambda>x. jret [x]) m'' = (Inr [VNum n], m''))"
    by blast
qed

theorem list_instr_roundtrip_witness:
  "\<exists>m2. list_lower (\<lambda>_ _ _ _ m. (Inr 4, m)) 4 4 (\<lambda>e p. store_instr I32Store 0 e (VNum p)) (VArr [VNum 7, VNum 70000]) (replicate 12 0) =
          (Inr [VNum 4, VNum (int (length [VNum 7, VNum 70000]))], m2) \<and>
     agree_off 4 (int (length [VNum 7, VNum 70000]) * 4) (replicate 12 0) m2 \<and>
     (\<forall>m3. agree_on 4 (int (length [VNum 7, VNum 70000]) * 4) m2 m3 \<longrightarrow>
        list_lift 4 (\<lambda>p. jbind (load_instr LengthLoad 0 (VNum p)) (\<lambda>x. jret [x])) (VNum 4) (VNum (int (length [VNum 7, VNum 70000]))) m3 =
          (Inr (VArr (map (\<lambda>v. v) [VNum 7, VNum 70000])), m3))"
proof (rule list_instr_roundtrip)
  let ?lo = "\<lambda>e p. store_instr I32Store 0 e (VNum p)" and ?li = "\<lambda>p. jbind (load_instr LengthLoad 0 (VNum p)) (\<lambda>x. jret [x])"
  show "elem_blocks 4 ?lo ?li (\<lambda>v. v) e" if "e \<in> set [VNum 7, VNum 70000]" for e
  proof -
    have "elem_blocks 4 ?lo ?li (\<lambda>v. v) (VNum 7)" "elem_blocks 4 ?lo ?li (\<lambda>v. v) (VNum 70000)"
      by (rule u32_blocks; simp)+
    moreover from that have "e = VNum 7 \<or> e = VNum 70000" by simp
    ultimately show ?thesis by blast
  qed
qed simp_all

end
