(* ===== verification/Func_Handles.thy ===== *)
theory Func_Handles
  imports Resource_Table "HOL-Library.Multiset"
begin

text \<open>
  Resources at the border between the component and JavaScript: the instructions \<open>HandleLift\<close> and
  \<open>HandleLower\<close> of \<open>src/crates/js-component-bindgen/src/function_bindgen.rs\<close> for resources with
  host-side data, and the trampolines \<open>ResourceNew\<close>, \<open>ResourceRep\<close> and \<open>ResourceDrop\<close>, the handle
  table and the finalization registry of \<open>transpile_bindgen.rs\<close>.

  The state is that of one resource type: its handle table, the JavaScript objects (an object is its
  place in a list that only grows), the registrations of the finalization registry, the table of
  captured objects with its counter, the borrows of the current call, and the destructor calls made so
  far, by representation. The three symbol-named properties of an object are its fields: a handle, a
  representation, and the function under \<open>Symbol.dispose\<close>. A resource defined by the component is
  local, the others are imported. A handle that is 0 counts as missing, as in the code.
\<close>

section \<open>State\<close>

datatype disposer = Inherited | EmptyFunc | Disposer int

record robj =
  ro_instance :: bool
  ro_handle :: "int option"
  ro_rep :: "int option"
  ro_dispose :: disposer

record res_state =
  handleTable :: rsc_table
  objects :: "robj list"
  registrations :: "(nat \<times> int) list"
  captureTable :: "(int \<times> nat) list"
  captureCnt :: int
  curBorrows :: "nat list"
  dtorCalls :: "int list"

text \<open>The state that \<open>ensure_resource_table\<close> emits.\<close>

definition res_init :: res_state where
  "res_init = \<lparr>handleTable = rsc_new, objects = [], registrations = [], captureTable = [], captureCnt = 0,
     curBorrows = [], dtorCalls = []\<rparr>"

definition set_handle :: "nat \<Rightarrow> int option \<Rightarrow> res_state \<Rightarrow> res_state" where
  "set_handle ob h s = s\<lparr>objects := (objects s)[ob := (objects s ! ob)\<lparr>ro_handle := h\<rparr>]\<rparr>"

definition set_dispose :: "nat \<Rightarrow> disposer \<Rightarrow> res_state \<Rightarrow> res_state" where
  "set_dispose ob d s = s\<lparr>objects := (objects s)[ob := (objects s ! ob)\<lparr>ro_dispose := d\<rparr>]\<rparr>"

definition new_object :: "robj \<Rightarrow> res_state \<Rightarrow> nat \<times> res_state" where
  "new_object r s = (length (objects s), s\<lparr>objects := objects s @ [r]\<rparr>)"

definition register :: "nat \<Rightarrow> int \<Rightarrow> res_state \<Rightarrow> res_state" where
  "register ob h s = s\<lparr>registrations := registrations s @ [(ob, h)]\<rparr>"

definition unregister :: "nat \<Rightarrow> res_state \<Rightarrow> res_state" where
  "unregister ob s = s\<lparr>registrations := filter (\<lambda>r. fst r \<noteq> ob) (registrations s)\<rparr>"

definition table_val :: "int \<Rightarrow> res_state \<Rightarrow> int" where
  "table_val h s = num_of (js_get (rsc_cells (handleTable s)) (js_shl h 1 + 1))"

definition table_remove :: "int \<Rightarrow> (rsc_entry, res_state) jsop" where
  "table_remove h s =
     (case rscTableRemove h (handleTable s) of
        Inl e \<Rightarrow> (Inl e, s)
      | Inr (e, t) \<Rightarrow> (Inr e, s\<lparr>handleTable := t\<rparr>))"

definition call_dtor :: "bool \<Rightarrow> int \<Rightarrow> res_state \<Rightarrow> res_state" where
  "call_dtor has_dtor rep s = (if has_dtor then s\<lparr>dtorCalls := dtorCalls s @ [rep]\<rparr> else s)"

definition no_handle :: "int option \<Rightarrow> bool" where
  "no_handle h \<longleftrightarrow> h = None \<or> h = Some 0"

section \<open>Trampolines\<close>

definition resource_new :: "int \<Rightarrow> (int, res_state) jsop" where
  "resource_new rep s = (case rscTableCreateOwn rep (handleTable s) of (h, t) \<Rightarrow> (Inr h, s\<lparr>handleTable := t\<rparr>))"

definition resource_rep :: "int \<Rightarrow> (int, res_state) jsop" where
  "resource_rep h s = (Inr (js_and (table_val h s) (js_not T_FLAG)), s)"

definition resource_drop_local :: "bool \<Rightarrow> int \<Rightarrow> (unit, res_state) jsop" where
  "resource_drop_local has_dtor h =
     jbind (table_remove h) (\<lambda>(rep, scope, own). jassign (if own then call_dtor has_dtor rep else (\<lambda>s. s)))"

text \<open>What an imported resource's drop does to the world: the \<open>Symbol.dispose\<close> of the captured object is
  called, or the class's destructor with the representation, each if there is one.\<close>

datatype drop_effect = DisposeObject nat | CabiDispose int | NoDrop

definition resource_drop_imported :: "int \<Rightarrow> (drop_effect, res_state) jsop" where
  "resource_drop_imported h =
     jbind (table_remove h) (\<lambda>(rep, scope, own) s.
       if own
       then (case map_of (captureTable s) rep of
               Some ob \<Rightarrow> (Inr (DisposeObject ob), s\<lparr>captureTable := filter (\<lambda>c. fst c \<noteq> rep) (captureTable s)\<rparr>)
             | None \<Rightarrow> (Inr (CabiDispose rep), s))
       else (Inr NoDrop, s))"

text \<open>The callback of the finalization registry for a registration, which is taken out of it.\<close>

definition finalize :: "bool \<Rightarrow> nat \<Rightarrow> (unit, res_state) jsop" where
  "finalize has_dtor i s =
     (let h = snd (registrations s ! i);
          s1 = s\<lparr>registrations := take i (registrations s) @ drop (Suc i) (registrations s)\<rparr> in
      jbind (table_remove h) (\<lambda>(rep, scope, own). jassign (call_dtor has_dtor rep)) s1)"

section \<open>Local resources\<close>

text \<open>\<open>this_obj\<close> is the object under construction when the function is a constructor.\<close>

definition target_object :: "nat option \<Rightarrow> res_state \<Rightarrow> nat \<times> res_state" where
  "target_object this_obj s =
     (case this_obj of
        Some ob \<Rightarrow> (ob, s)
      | None \<Rightarrow> new_object \<lparr>ro_instance = True, ro_handle = None, ro_rep = None, ro_dispose = Inherited\<rparr> s)"

definition lift_own_local :: "nat option \<Rightarrow> int \<Rightarrow> res_state \<Rightarrow> nat \<times> res_state" where
  "lift_own_local this_obj h s =
     (let (rsc, s1) = target_object this_obj s in
      (rsc, set_dispose rsc (Disposer h) (register rsc h (set_handle rsc (Some h) s1))))"

text \<open>The function under \<open>Symbol.dispose\<close>.\<close>

definition dispose :: "bool \<Rightarrow> nat \<Rightarrow> (unit, res_state) jsop" where
  "dispose has_dtor rsc s =
     (case ro_dispose (objects s ! rsc) of
        Inherited \<Rightarrow> (Inl (TypeErr ''rsc[Symbol.dispose] is not a function''), s)
      | EmptyFunc \<Rightarrow> (Inr (), s)
      | Disposer h \<Rightarrow>
          jbind (table_remove h) (\<lambda>(rep, scope, own) s.
            (Inr (), call_dtor has_dtor rep (set_handle rsc None (set_dispose rsc EmptyFunc s)))) (unregister rsc s))"

definition lift_borrow_local :: "nat option \<Rightarrow> int \<Rightarrow> res_state \<Rightarrow> nat \<times> res_state" where
  "lift_borrow_local this_obj h s =
     (let (rsc, s1) = target_object this_obj s; s2 = set_handle rsc (Some h) s1 in
      (rsc, s2\<lparr>curBorrows := curBorrows s2 @ [rsc]\<rparr>))"

definition lower_own_local :: "nat \<Rightarrow> (int, res_state) jsop" where
  "lower_own_local ob s =
     (case ro_handle (objects s ! ob) of
        Some h \<Rightarrow> if h = 0 then (Inl (TypeErr ''Resource error: Not a valid resource.''), s)
                  else (Inr h, set_handle ob None (set_dispose ob EmptyFunc (unregister ob s)))
      | None \<Rightarrow> (Inl (TypeErr ''Resource error: Not a valid resource.''), s))"

definition lower_borrow_local :: "nat \<Rightarrow> (int, res_state) jsop" where
  "lower_borrow_local ob s =
     (case ro_handle (objects s ! ob) of
        Some h \<Rightarrow> if h = 0 \<or> js_and (table_val h s) T_FLAG = 0
                  then (Inl (TypeErr ''Resource error: Not a valid resource.''), s)
                  else (Inr (js_and (table_val h s) (js_not T_FLAG)), s)
      | None \<Rightarrow> (Inl (TypeErr ''Resource error: Not a valid resource.''), s))"

text \<open>What \<open>CallInterface\<close> does with the borrows after the call; those of host data have no drop function.\<close>

definition release_borrows :: "res_state \<Rightarrow> res_state" where
  "release_borrows s = (fold (\<lambda>rsc. set_handle rsc None) (curBorrows s) s)\<lparr>curBorrows := []\<rparr>"

section \<open>Imported resources\<close>

definition map_put :: "int \<Rightarrow> nat \<Rightarrow> (int \<times> nat) list \<Rightarrow> (int \<times> nat) list" where
  "map_put k v m = (if k \<in> fst ` set m then map (\<lambda>e. if fst e = k then (k, v) else e) m else m @ [(k, v)])"

definition lift_imported_object :: "int \<Rightarrow> res_state \<Rightarrow> nat \<times> bool \<times> int \<times> res_state" where
  "lift_imported_object h s =
     (let rep = js_and (table_val h s) (js_not T_FLAG) in
      case map_of (captureTable s) rep of
        Some ob \<Rightarrow> (ob, True, rep, s)
      | None \<Rightarrow>
          (case new_object \<lparr>ro_instance = True, ro_handle = Some h, ro_rep = Some rep, ro_dispose = Inherited\<rparr> s of
             (ob, s1) \<Rightarrow> (ob, False, rep, s1)))"

definition lift_own_imported :: "int \<Rightarrow> (nat, res_state) jsop" where
  "lift_own_imported h s =
     (case lift_imported_object h s of
        (rsc, captured, rep, s1) \<Rightarrow>
          jbind (table_remove h) (\<lambda>_. jret rsc)
            (if captured then s1\<lparr>captureTable := filter (\<lambda>c. fst c \<noteq> rep) (captureTable s1)\<rparr> else s1))"

definition lift_borrow_imported :: "int \<Rightarrow> res_state \<Rightarrow> nat \<times> res_state" where
  "lift_borrow_imported h s =
     (case lift_imported_object h s of
        (rsc, captured, rep, s1) \<Rightarrow> (rsc, s1\<lparr>curBorrows := curBorrows s1 @ [rsc]\<rparr>))"

text \<open>The representation of an object without a handle: its own, or the next number of the counter.\<close>

definition capture_object :: "nat \<Rightarrow> res_state \<Rightarrow> int \<times> res_state" where
  "capture_object ob s =
     (let (rep, s1) = (case ro_rep (objects s ! ob) of
                         Some r \<Rightarrow> if r \<noteq> 0 then (r, s) else (captureCnt s + 1, s\<lparr>captureCnt := captureCnt s + 1\<rparr>)
                       | None \<Rightarrow> (captureCnt s + 1, s\<lparr>captureCnt := captureCnt s + 1\<rparr>)) in
      (rep, s1\<lparr>captureTable := map_put rep ob (captureTable s1)\<rparr>))"

definition lower_own_imported :: "nat \<Rightarrow> (int, res_state) jsop" where
  "lower_own_imported ob s =
     (if \<not> ro_instance (objects s ! ob) then (Inl (TypeErr ''Resource error: Not a valid resource.''), s)
      else if no_handle (ro_handle (objects s ! ob))
      then (let (rep, s1) = capture_object ob s; (h, t) = rscTableCreateOwn rep (handleTable s1) in
            (Inr h, s1\<lparr>handleTable := t\<rparr>))
      else (Inr (the (ro_handle (objects s ! ob))), s))"

definition lower_borrow_imported :: "int \<Rightarrow> nat \<Rightarrow> (int, res_state) jsop" where
  "lower_borrow_imported scope ob s =
     (if \<not> ro_instance (objects s ! ob) then (Inl (TypeErr ''Resource error: Not a valid resource.''), s)
      else if no_handle (ro_handle (objects s ! ob))
      then (let (rep, s1) = capture_object ob s in
            case rscTableCreateBorrow rep (JNum scope) (handleTable s1) of
              Inl e \<Rightarrow> (Inl e, s1)
            | Inr (h, t) \<Rightarrow> (Inr h, s1\<lparr>handleTable := t\<rparr>))
      else (Inr (the (ro_handle (objects s ! ob))), s))"

section \<open>Ownership of local resources\<close>

text \<open>The runs of a well-behaved component: it makes handles, gives those it holds to JavaScript or drops
  them, and takes them back; JavaScript lowers and disposes objects, and the collector finalizes objects
  it no longer refers to, after which they are not used. \<open>G\<close> is the set of handles the component holds,
  \<open>C\<close> the representations it made handles for. Lowering a borrow changes nothing and has no step.\<close>

inductive res_reach :: "bool \<Rightarrow> res_state \<Rightarrow> int set \<Rightarrow> int list \<Rightarrow> bool" for has_dtor where
  Start: "res_reach has_dtor res_init {} []"
| New: "res_reach has_dtor s G C \<Longrightarrow> 0 < rep \<Longrightarrow> rep < T_FLAG \<Longrightarrow> rsc_room (handleTable s) \<Longrightarrow>
    resource_new rep s = (Inr h, s') \<Longrightarrow> res_reach has_dtor s' (insert h G) (C @ [rep])"
| Construct: "res_reach has_dtor s G C \<Longrightarrow>
    new_object \<lparr>ro_instance = True, ro_handle = None, ro_rep = None, ro_dispose = Inherited\<rparr> s = (ob, s') \<Longrightarrow>
    res_reach has_dtor s' G C"
| Lift: "res_reach has_dtor s G C \<Longrightarrow> h \<in> G \<Longrightarrow>
    (case this_obj of None \<Rightarrow> True | Some ob \<Rightarrow> ob < length (objects s) \<and> ro_handle (objects s ! ob) = None) \<Longrightarrow>
    lift_own_local this_obj h s = (rsc, s') \<Longrightarrow> res_reach has_dtor s' (G - {h}) C"
| Lower: "res_reach has_dtor s G C \<Longrightarrow> ob < length (objects s) \<Longrightarrow> lower_own_local ob s = (Inr h, s') \<Longrightarrow>
    res_reach has_dtor s' (insert h G) C"
| Dispose: "res_reach has_dtor s G C \<Longrightarrow> ob < length (objects s) \<Longrightarrow> dispose has_dtor ob s = (r, s') \<Longrightarrow>
    res_reach has_dtor s' G C"
| Collect: "res_reach has_dtor s G C \<Longrightarrow> i < length (registrations s) \<Longrightarrow> registrations s ! i = (ob, h) \<Longrightarrow>
    finalize has_dtor i s = (r, s') \<Longrightarrow> res_reach has_dtor (set_handle ob None (set_dispose ob EmptyFunc s')) G C"
| Drop: "res_reach has_dtor s G C \<Longrightarrow> h \<in> G \<Longrightarrow> resource_drop_local has_dtor h s = (r, s') \<Longrightarrow>
    res_reach has_dtor s' (G - {h}) C"

definition held :: "res_state \<Rightarrow> (nat \<times> int) set" where
  "held s = {(ob, h). ob < length (objects s) \<and> ro_handle (objects s ! ob) = Some h}"

definition live_reps :: "rsc_table \<Rightarrow> int multiset" where
  "live_reps t = image_mset (\<lambda>h. fst (the (rsc_lookup t h))) (mset_set (dom (rsc_lookup t)))"

definition res_inv :: "res_state \<Rightarrow> int set \<Rightarrow> bool" where
  "res_inv s G \<longleftrightarrow>
     rsc_inv (handleTable s) \<and>
     (\<forall>h e. rsc_lookup (handleTable s) h = Some e \<longrightarrow> snd (snd e)) \<and>
     (\<forall>h. rsc_lookup (handleTable s) h \<noteq> None \<longleftrightarrow> int h \<in> G \<union> snd ` held s) \<and>
     (\<forall>h \<in> G \<union> snd ` held s. 0 < h) \<and>
     inj_on snd (held s) \<and> G \<inter> snd ` held s = {} \<and>
     set (registrations s) = held s \<and> distinct (registrations s) \<and>
     (\<forall>ob h. ob < length (objects s) \<longrightarrow> (ro_dispose (objects s ! ob) = Disposer h \<longleftrightarrow> ro_handle (objects s ! ob) = Some h))"

lemma held_simps [simp]:
  "held (s\<lparr>handleTable := t\<rparr>) = held s" "held (s\<lparr>registrations := rs\<rparr>) = held s" "held (s\<lparr>dtorCalls := ds\<rparr>) = held s"
  "held (call_dtor dt rep s) = held s" "held (register ob' h s) = held s" "held (unregister ob' s) = held s"
  by (simp_all add: held_def call_dtor_def register_def unregister_def)

lemma held_dispose [simp]: "held (set_dispose ob d s) = held s"
  by (cases "ob < length (objects s)") (auto simp: held_def set_dispose_def nth_list_update split: if_splits)

lemma held_set: "ob < length (objects s) \<Longrightarrow>
  held (set_handle ob h s) = {p \<in> held s. fst p \<noteq> ob} \<union> (case h of None \<Rightarrow> {} | Some h' \<Rightarrow> {(ob, h')})"
  by (auto simp: held_def set_handle_def nth_list_update split: option.splits if_splits)

lemma held_new: "new_object r s = (ob, s') \<Longrightarrow> ro_handle r = None \<Longrightarrow> held s' = held s \<and> ob = length (objects s) \<and>
    ob < length (objects s') \<and> ro_handle (objects s' ! ob) = None"
  by (auto simp: held_def new_object_def nth_append split: if_splits)

lemma res_parts [simp]:
  "handleTable (set_handle ob h s) = handleTable s" "handleTable (set_dispose ob d s) = handleTable s"
  "handleTable (register ob x s) = handleTable s" "handleTable (unregister ob s) = handleTable s"
  "handleTable (call_dtor dt rep s) = handleTable s"
  "registrations (set_handle ob h s) = registrations s" "registrations (set_dispose ob d s) = registrations s"
  "registrations (call_dtor dt rep s) = registrations s"
  "objects (register ob x s) = objects s" "objects (unregister ob s) = objects s" "objects (call_dtor dt rep s) = objects s"
  "dtorCalls (set_handle ob h s) = dtorCalls s" "dtorCalls (set_dispose ob d s) = dtorCalls s"
  "dtorCalls (register ob x s) = dtorCalls s" "dtorCalls (unregister ob s) = dtorCalls s"
  by (simp_all add: set_handle_def set_dispose_def register_def unregister_def call_dtor_def)

lemma finite_live: "rsc_inv t \<Longrightarrow> finite (dom (rsc_lookup t))"
proof -
  have "dom (rsc_lookup t) \<subseteq> {..< length (rsc_cells t)}" by (auto simp: rsc_lookup_def split: if_splits)
  then show ?thesis by (rule finite_subset) simp
qed

lemma live_reps_add:
  assumes "rsc_inv t" "rsc_lookup t h = None" "rsc_lookup t' = (rsc_lookup t)(h \<mapsto> e)"
  shows "live_reps t' = add_mset (fst e) (live_reps t)"
proof -
  have "image_mset (\<lambda>k. fst (the (rsc_lookup t' k))) (mset_set (dom (rsc_lookup t))) = live_reps t"
    unfolding live_reps_def using assms finite_live [OF assms(1)] by (intro image_mset_cong) auto
  moreover have "dom (rsc_lookup t') = insert h (dom (rsc_lookup t))" "h \<notin> dom (rsc_lookup t)" using assms by auto
  ultimately show ?thesis using finite_live [OF assms(1)] assms(3) by (simp add: live_reps_def)
qed

lemma live_reps_del:
  assumes "rsc_inv t" "rsc_lookup t h = Some e" "rsc_lookup t' = (rsc_lookup t)(h := None)"
  shows "live_reps t = add_mset (fst e) (live_reps t')"
proof -
  have d: "dom (rsc_lookup t) = insert h (dom (rsc_lookup t'))" "h \<notin> dom (rsc_lookup t')" "finite (dom (rsc_lookup t'))"
    using assms finite_live [OF assms(1)] by auto
  have "image_mset (\<lambda>k. fst (the (rsc_lookup t k))) (mset_set (dom (rsc_lookup t'))) = live_reps t'"
    unfolding live_reps_def using assms d by (intro image_mset_cong) auto
  then show ?thesis using d assms(2) by (simp add: live_reps_def)
qed

lemma table_remove_live:
  assumes "rsc_inv t" "rsc_lookup t h = Some e"
  shows "\<exists>t'. rscTableRemove (int h) t = Inr (e, t') \<and> rsc_inv t' \<and> rsc_lookup t' = (rsc_lookup t)(h := None) \<and>
           live_reps t = add_mset (fst e) (live_reps t')"
proof -
  from assms(1) obtain fl where w: "rsc_wf t fl" by (auto simp: rsc_inv_def)
  from rsc_remove_live [OF w assms(2)] obtain t' where "rscTableRemove (int h) t = Inr (e, t')" "rsc_wf t' (h # fl)"
    "rsc_lookup t' = (rsc_lookup t)(h := None)" by blast
  with live_reps_del [OF assms] show ?thesis by (auto simp: rsc_inv_def)
qed

text \<open>Each operation keeps the invariant: the handle that a step moves goes from one owner to the other.\<close>

lemma res_invD:
  assumes "res_inv s G"
  shows "rsc_inv (handleTable s)"
    and "rsc_lookup (handleTable s) h = Some e \<Longrightarrow> snd (snd e)"
    and "rsc_lookup (handleTable s) h \<noteq> None \<longleftrightarrow> int h \<in> G \<union> snd ` held s"
    and "x \<in> G \<union> snd ` held s \<Longrightarrow> 0 < x"
    and "inj_on snd (held s)" "G \<inter> snd ` held s = {}"
    and "set (registrations s) = held s" "distinct (registrations s)"
    and "ob < length (objects s) \<Longrightarrow> ro_dispose (objects s ! ob) = Disposer k \<longleftrightarrow> ro_handle (objects s ! ob) = Some k"
  using assms unfolding res_inv_def by blast+

text \<open>A handle someone owns is live.\<close>

lemma owned_live:
  assumes "res_inv s G" "x \<in> G \<union> snd ` held s"
  obtains h rep scope where "x = int h" "rsc_lookup (handleTable s) h = Some (rep, scope, True)"
proof -
  have "0 < x" using res_invD(4) [OF assms] .
  then have x: "x = int (nat x)" by simp
  with assms res_invD(3) [OF assms(1), of "nat x"] have "rsc_lookup (handleTable s) (nat x) \<noteq> None" by simp
  then obtain rep scope own where l: "rsc_lookup (handleTable s) (nat x) = Some (rep, scope, own)" by auto
  with res_invD(2) [OF assms(1) l] have "rsc_lookup (handleTable s) (nat x) = Some (rep, scope, True)" by simp
  with x that show ?thesis by blast
qed

lemma res_inv_new:
  assumes "res_inv s G" "0 < rep" "rep < T_FLAG" "rsc_room (handleTable s)" "resource_new rep s = (Inr h, s')"
  shows "res_inv s' (insert h G) \<and> live_reps (handleTable s') = add_mset rep (live_reps (handleTable s)) \<and> dtorCalls s' = dtorCalls s"
proof -
  from res_invD(1) [OF assms(1)] obtain fl where w: "rsc_wf (handleTable s) fl" by (auto simp: rsc_inv_def)
  from rsc_create_own [OF w assms(4,2,3)] obtain k t where t: "rscTableCreateOwn rep (handleTable s) = (int k, t)" "0 < k"
    "rsc_wf t (tl fl)" "rsc_lookup (handleTable s) k = None"
    "rsc_lookup t = (rsc_lookup (handleTable s))(k \<mapsto> (rep, JNum 0, True))" by blast
  with assms(5) have s': "h = int k" "s' = s\<lparr>handleTable := t\<rparr>" by (simp_all add: resource_new_def)
  have fresh: "int k \<notin> G \<union> snd ` held s" using t(4) res_invD(3) [OF assms(1), of k] by simp
  note i = res_invD [OF assms(1)]
  have "res_inv s' (insert h G)"
    unfolding res_inv_def
  proof (intro conjI allI impI ballI)
    show "rsc_inv (handleTable s')" using t(3) s' by (auto simp: rsc_inv_def)
    show "snd (snd e)" if "rsc_lookup (handleTable s') n = Some e" for n e
      using that t(5) s' i(2) by (auto split: if_splits)
    show "(rsc_lookup (handleTable s') n \<noteq> None) = (int n \<in> insert h G \<union> snd ` held s')" for n
      using t(5) s' i(3) [of n] by auto
    show "0 < x" if "x \<in> insert h G \<union> snd ` held s'" for x
      using that i(4) t(2) s' by auto
    show "insert h G \<inter> snd ` held s' = {}" using i(6) fresh s' by auto
  qed (use i s' in auto)
  moreover have "live_reps (handleTable s') = add_mset rep (live_reps (handleTable s))"
    using live_reps_add [OF i(1) t(4,5)] s' by simp
  ultimately show ?thesis using s' by simp
qed

lemma res_inv_construct:
  assumes "res_inv s G" "new_object \<lparr>ro_instance = True, ro_handle = None, ro_rep = None, ro_dispose = Inherited\<rparr> s = (ob, s')"
  shows "res_inv s' G \<and> handleTable s' = handleTable s \<and> dtorCalls s' = dtorCalls s"
proof -
  have s': "s' = s\<lparr>objects := objects s @ [\<lparr>ro_instance = True, ro_handle = None, ro_rep = None, ro_dispose = Inherited\<rparr>]\<rparr>"
    using assms(2) by (simp add: new_object_def)
  have h: "held s' = held s" using held_new [OF assms(2)] by simp
  note i = res_invD [OF assms(1)]
  have "res_inv s' G"
    unfolding res_inv_def h using i by (auto simp: s' nth_append less_Suc_eq)
  then show ?thesis by (simp add: s')
qed

lemma object_fields [simp]:
  "length (objects (set_handle ob h s)) = length (objects s)" "length (objects (set_dispose ob d s)) = length (objects s)"
  by (simp_all add: set_handle_def set_dispose_def)

lemma object_handle:
  assumes "ob < length (objects s)"
  shows "ro_handle (objects (set_handle ob h s) ! k) = (if k = ob then h else ro_handle (objects s ! k))"
    and "ro_dispose (objects (set_handle ob h s) ! k) = ro_dispose (objects s ! k)"
    and "ro_dispose (objects (set_dispose ob d s) ! k) = (if k = ob then d else ro_dispose (objects s ! k))"
    and "ro_handle (objects (set_dispose ob d s) ! k) = ro_handle (objects s ! k)"
  using assms by (auto simp: set_handle_def set_dispose_def nth_list_update)

lemma target_object_props:
  assumes "res_inv s G" "case this_obj of None \<Rightarrow> True | Some ob \<Rightarrow> ob < length (objects s) \<and> ro_handle (objects s ! ob) = None"
    and "target_object this_obj s = (rsc, s1)"
  shows "res_inv s1 G \<and> handleTable s1 = handleTable s \<and> dtorCalls s1 = dtorCalls s \<and> rsc < length (objects s1) \<and>
           ro_handle (objects s1 ! rsc) = None"
proof (cases this_obj)
  case None
  with assms res_inv_construct [OF assms(1)] held_new show ?thesis by (simp add: target_object_def)
next
  case (Some ob)
  with assms show ?thesis by (simp add: target_object_def)
qed

lemma res_inv_lift:
  assumes "res_inv s G" "x \<in> G"
    and "case this_obj of None \<Rightarrow> True | Some ob \<Rightarrow> ob < length (objects s) \<and> ro_handle (objects s ! ob) = None"
    and "lift_own_local this_obj x s = (rsc, s')"
  shows "res_inv s' (G - {x}) \<and> handleTable s' = handleTable s \<and> dtorCalls s' = dtorCalls s \<and>
           rsc < length (objects s') \<and> ro_handle (objects s' ! rsc) = Some x"
proof -
  obtain s1 where t: "target_object this_obj s = (rsc, s1)"
    and s': "s' = set_dispose rsc (Disposer x) (register rsc x (set_handle rsc (Some x) s1))"
    using assms(4) by (auto simp: lift_own_local_def split: prod.splits)
  from target_object_props [OF assms(1,3) t] have i1: "res_inv s1 G" and same: "handleTable s1 = handleTable s" "dtorCalls s1 = dtorCalls s"
    and rsc: "rsc < length (objects s1)" "ro_handle (objects s1 ! rsc) = None" by simp_all
  note i = res_invD [OF i1]
  have none: "fst p \<noteq> rsc" if "p \<in> held s1" for p using that rsc(2) by (auto simp: held_def)
  have h: "held s' = insert (rsc, x) (held s1)"
    using none by (auto simp: s' held_set [OF rsc(1)])
  have "res_inv s' (G - {x})"
    unfolding res_inv_def h
  proof (intro conjI allI impI ballI)
    show "inj_on snd (insert (rsc, x) (held s1))" using i(5,6) assms(2) by (auto simp: inj_on_def image_iff)
    show "(G - {x}) \<inter> snd ` insert (rsc, x) (held s1) = {}" using i(6) by auto
    have "(rsc, x) \<notin> held s1" using none by force
    with i(7,8) show "set (registrations s') = insert (rsc, x) (held s1)" "distinct (registrations s')"
      by (simp_all add: s' register_def)
    show "(ro_dispose (objects s' ! ob) = Disposer k) = (ro_handle (objects s' ! ob) = Some k)" if "ob < length (objects s')" for ob k
      using that i(9) rsc by (auto simp: s' object_handle)
    show "(rsc_lookup (handleTable s') n \<noteq> None) = (int n \<in> G - {x} \<union> snd ` insert (rsc, x) (held s1))" for n
      using i(3) [of n] assms(2) by (auto simp: s')
    show "snd (snd e)" if "rsc_lookup (handleTable s') n = Some e" for n e using i(2) that by (simp add: s')
    show "rsc_inv (handleTable s')" using i(1) by (simp add: s')
    show "0 < y" if "y \<in> G - {x} \<union> snd ` insert (rsc, x) (held s1)" for y using that i(4) assms(2) by auto
  qed
  then show ?thesis using rsc same by (simp add: s' object_handle)
qed

text \<open>An object that gives up its handle: what lowering, disposal and collection share.\<close>

definition give_up :: "nat \<Rightarrow> res_state \<Rightarrow> res_state" where
  "give_up ob s = set_handle ob None (set_dispose ob EmptyFunc (unregister ob s))"

lemma give_up_props:
  assumes "res_inv s G" "ob < length (objects s)" "ro_handle (objects s ! ob) = Some x"
  shows "held (give_up ob s) = held s - {(ob, x)}" "snd ` held (give_up ob s) = snd ` held s - {x}"
    "set (registrations (give_up ob s)) = held (give_up ob s)" "distinct (registrations (give_up ob s))"
    "\<And>o' k. o' < length (objects (give_up ob s)) \<Longrightarrow>
       ro_dispose (objects (give_up ob s) ! o') = Disposer k \<longleftrightarrow> ro_handle (objects (give_up ob s) ! o') = Some k"
    "handleTable (give_up ob s) = handleTable s" "dtorCalls (give_up ob s) = dtorCalls s" "(ob, x) \<in> held s"
proof -
  note i = res_invD [OF assms(1)]
  show m: "(ob, x) \<in> held s" using assms(2,3) by (simp add: held_def)
  have l: "ob < length (objects (set_dispose ob EmptyFunc (unregister ob s)))" using assms(2) by simp
  have f: "{p \<in> held s. fst p \<noteq> ob} = held s - {(ob, x)}" using assms(3) by (auto simp: held_def)
  show h: "held (give_up ob s) = held s - {(ob, x)}"
    using f by (simp add: give_up_def held_set [OF l])
  show "snd ` held (give_up ob s) = snd ` held s - {x}"
  proof -
    have "snd q \<noteq> x" if "q \<in> held s" "q \<noteq> (ob, x)" for q
      using i(5) m that by (metis inj_on_def snd_conv)
    then show ?thesis unfolding h by (auto simp: image_iff)
  qed
  show "set (registrations (give_up ob s)) = held (give_up ob s)" "distinct (registrations (give_up ob s))"
    using i(7,8) unfolding h f [symmetric] by (auto simp: give_up_def unregister_def)
  show "ro_dispose (objects (give_up ob s) ! o') = Disposer k \<longleftrightarrow> ro_handle (objects (give_up ob s) ! o') = Some k"
    if "o' < length (objects (give_up ob s))" for o' k
    using that i(9) [of o' k] assms(2) by (simp add: give_up_def object_handle)
  show "handleTable (give_up ob s) = handleTable s" "dtorCalls (give_up ob s) = dtorCalls s" by (simp_all add: give_up_def)
qed

lemma res_inv_lower:
  assumes "res_inv s G" "ob < length (objects s)" "lower_own_local ob s = (Inr x, s')"
  shows "res_inv s' (insert x G) \<and> handleTable s' = handleTable s \<and> dtorCalls s' = dtorCalls s"
proof -
  from assms(3) have o: "ro_handle (objects s ! ob) = Some x" "s' = give_up ob s"
    by (auto simp: lower_own_local_def give_up_def split: option.splits if_splits)
  note i = res_invD [OF assms(1)] and g = give_up_props [OF assms(1,2) o(1)]
  have x: "x \<in> snd ` held s" using g(8) by force
  have "res_inv s' (insert x G)"
    unfolding res_inv_def o(2)
  proof (intro conjI allI impI ballI)
    show "inj_on snd (held (give_up ob s))" using i(5) unfolding g(1) by (rule inj_on_subset) auto
    show "(rsc_lookup (handleTable (give_up ob s)) n \<noteq> None) = (int n \<in> insert x G \<union> snd ` held (give_up ob s))" for n
      using i(3) [of n] x unfolding g(2,6) by auto
    show "insert x G \<inter> snd ` held (give_up ob s) = {}" using i(6) unfolding g(2) by auto
    show "0 < y" if "y \<in> insert x G \<union> snd ` held (give_up ob s)" for y using that i(4) x unfolding g(2) by auto
  qed (use i g in auto)
  then show ?thesis using g o(2) by simp
qed

lemma objects_table_commute: "s\<lparr>objects := os, handleTable := t\<rparr> = s\<lparr>handleTable := t, objects := os\<rparr>"
  by simp

lemma dtor_calls: "dtorCalls (call_dtor has_dtor rep s) = dtorCalls s @ (if has_dtor then [rep] else [])"
  by (simp add: call_dtor_def)

text \<open>The entry of a handle that an object gives up is removed: disposal and collection.\<close>

lemma res_inv_call_dtor [simp]: "res_inv (call_dtor has_dtor rep s) G = res_inv s G"
  by (simp add: res_inv_def)

lemma res_inv_release:
  assumes "res_inv s G" "ob < length (objects s)" "ro_handle (objects s ! ob) = Some x"
  obtains rep scope t where "rscTableRemove x (handleTable s) = Inr ((rep, scope, True), t)"
    "res_inv ((give_up ob s)\<lparr>handleTable := t\<rparr>) G" "live_reps (handleTable s) = add_mset rep (live_reps t)"
proof -
  note i = res_invD [OF assms(1)] and g = give_up_props [OF assms]
  have m: "x \<in> snd ` held s" using g(8) by force
  with assms(1) obtain n rep scope where n: "x = int n" "rsc_lookup (handleTable s) n = Some (rep, scope, True)"
    using owned_live by (metis UnCI)
  from table_remove_live [OF i(1) n(2)] obtain t where t: "rscTableRemove (int n) (handleTable s) = Inr ((rep, scope, True), t)"
    "rsc_inv t" "rsc_lookup t = (rsc_lookup (handleTable s))(n := None)" "live_reps (handleTable s) = add_mset rep (live_reps t)" by auto
  have "res_inv ((give_up ob s)\<lparr>handleTable := t\<rparr>) G"
    unfolding res_inv_def held_simps
  proof (intro conjI allI impI ballI)
    show "inj_on snd (held (give_up ob s))" using i(5) unfolding g(1) by (rule inj_on_subset) auto
    show "(rsc_lookup (handleTable (give_up ob s\<lparr>handleTable := t\<rparr>)) k \<noteq> None) = (int k \<in> G \<union> snd ` held (give_up ob s))" for k
      using i(3) [of k] i(6) m n(1) t(3) unfolding g(2) by auto
    show "G \<inter> snd ` held (give_up ob s) = {}" using i(6) unfolding g(2) by auto
    show "0 < y" if "y \<in> G \<union> snd ` held (give_up ob s)" for y using that i(4) unfolding g(2) by auto
    show "snd (snd e)" if "rsc_lookup (handleTable (give_up ob s\<lparr>handleTable := t\<rparr>)) k = Some e" for k e
      using that t(3) i(2) by (simp split: if_splits)
  qed (use t g in auto)
  with t n(1) that show ?thesis by simp
qed

lemma res_inv_dispose:
  assumes "res_inv s G" "ob < length (objects s)" "dispose has_dtor ob s = (r, s')"
  shows "res_inv s' G \<and> (\<exists>reps. live_reps (handleTable s) = mset reps + live_reps (handleTable s') \<and>
           (has_dtor \<longrightarrow> dtorCalls s' = dtorCalls s @ reps))"
proof (cases "ro_dispose (objects s ! ob)")
  case (Disposer x)
  with res_invD(9) [OF assms(1,2), of x] have x: "ro_handle (objects s ! ob) = Some x" by simp
  from res_inv_release [OF assms(1,2) x] obtain rep scope t where t: "rscTableRemove x (handleTable s) = Inr ((rep, scope, True), t)"
    "res_inv ((give_up ob s)\<lparr>handleTable := t\<rparr>) G" "live_reps (handleTable s) = add_mset rep (live_reps t)" by blast
  have s': "s' = call_dtor has_dtor rep ((give_up ob s)\<lparr>handleTable := t\<rparr>)"
    using assms(3) Disposer t(1)
    by (auto simp: dispose_def jbind_def table_remove_def give_up_def set_handle_def set_dispose_def unregister_def
        objects_table_commute)
  show ?thesis
  proof (intro conjI exI [where x = "[rep]"] impI)
    show "dtorCalls s' = dtorCalls s @ [rep]" if has_dtor
      using that give_up_props(7) [OF assms(1,2) x] by (simp add: s' call_dtor_def)
  qed (use t s' in simp_all)
qed (use assms in \<open>auto simp: dispose_def\<close>)

lemma filter_nth_unique:
  assumes "distinct xs" "i < length xs" "xs ! i = (k, v)" "\<And>w. (k, w) \<in> set xs \<Longrightarrow> w = v"
  shows "take i xs @ drop (Suc i) xs = filter (\<lambda>p. fst p \<noteq> k) xs"
proof -
  have xs: "xs = take i xs @ (k, v) # drop (Suc i) xs" using id_take_nth_drop [OF assms(2)] assms(3) by simp
  have "(k, v) \<notin> set (take i xs) \<union> set (drop (Suc i) xs)" using assms(1) by (subst (asm) xs) auto
  then have "fst p \<noteq> k" if "p \<in> set (take i xs) \<union> set (drop (Suc i) xs)" for p
    using that assms(4) [of "snd p"] by (cases p) (auto dest: in_set_takeD in_set_dropD)
  then have "filter (\<lambda>p. fst p \<noteq> k) (take i xs) = take i xs" "filter (\<lambda>p. fst p \<noteq> k) (drop (Suc i) xs) = drop (Suc i) xs"
    by (simp_all add: filter_id_conv)
  moreover have "filter (\<lambda>p. fst p \<noteq> k) xs = filter (\<lambda>p. fst p \<noteq> k) (take i xs) @ filter (\<lambda>p. fst p \<noteq> k) (drop (Suc i) xs)"
    by (subst xs) simp
  ultimately show ?thesis by simp
qed

lemma res_inv_collect:
  assumes "res_inv s G" "i < length (registrations s)" "registrations s ! i = (ob, x)" "finalize has_dtor i s = (r, s1)"
    and "s' = set_handle ob None (set_dispose ob EmptyFunc s1)"
  shows "res_inv s' G \<and> (\<exists>rep. live_reps (handleTable s) = add_mset rep (live_reps (handleTable s')) \<and>
           (has_dtor \<longrightarrow> dtorCalls s' = dtorCalls s @ [rep]))"
proof -
  note i = res_invD [OF assms(1)]
  have "(ob, x) \<in> held s" using i(7) assms(2,3) nth_mem by fastforce
  then have ob: "ob < length (objects s)" "ro_handle (objects s ! ob) = Some x" by (simp_all add: held_def)
  have "w = x" if "(ob, w) \<in> set (registrations s)" for w using that i(7) ob(2) by (auto simp: held_def)
  then have rs: "take i (registrations s) @ drop (Suc i) (registrations s) = registrations (unregister ob s)"
    using filter_nth_unique [OF i(8) assms(2,3)] by (simp add: unregister_def)
  from res_inv_release [OF assms(1) ob] obtain rep scope t where t: "rscTableRemove x (handleTable s) = Inr ((rep, scope, True), t)"
    "res_inv ((give_up ob s)\<lparr>handleTable := t\<rparr>) G" "live_reps (handleTable s) = add_mset rep (live_reps t)" by blast
  have s': "s' = call_dtor has_dtor rep ((give_up ob s)\<lparr>handleTable := t\<rparr>)"
    using assms(3-5) t(1)
    by (auto simp: finalize_def Let_def rs jbind_def jassign_def table_remove_def give_up_def call_dtor_def
        set_handle_def set_dispose_def unregister_def split: prod.splits)
  show ?thesis
  proof (intro conjI exI [where x = rep] impI)
    show "dtorCalls s' = dtorCalls s @ [rep]" if has_dtor
      using that give_up_props(7) [OF assms(1) ob] by (simp add: s' call_dtor_def)
  qed (use t s' in simp_all)
qed

lemma res_inv_drop:
  assumes "res_inv s G" "x \<in> G" "resource_drop_local has_dtor x s = (r, s')"
  shows "res_inv s' (G - {x}) \<and> (\<exists>rep. live_reps (handleTable s) = add_mset rep (live_reps (handleTable s')) \<and>
           (has_dtor \<longrightarrow> dtorCalls s' = dtorCalls s @ [rep]))"
proof -
  note i = res_invD [OF assms(1)]
  from assms(1,2) obtain n rep scope where n: "x = int n" "rsc_lookup (handleTable s) n = Some (rep, scope, True)"
    using owned_live by (metis UnCI)
  from table_remove_live [OF i(1) n(2)] obtain t where t: "rscTableRemove (int n) (handleTable s) = Inr ((rep, scope, True), t)"
    "rsc_inv t" "rsc_lookup t = (rsc_lookup (handleTable s))(n := None)" "live_reps (handleTable s) = add_mset rep (live_reps t)" by auto
  have s': "s' = call_dtor has_dtor rep (s\<lparr>handleTable := t\<rparr>)"
    using assms(3) t(1) n(1) by (auto simp: resource_drop_local_def jbind_def jassign_def table_remove_def)
  have "res_inv (s\<lparr>handleTable := t\<rparr>) (G - {x})"
    unfolding res_inv_def held_simps
  proof (intro conjI allI impI ballI)
    show "(rsc_lookup (handleTable (s\<lparr>handleTable := t\<rparr>)) k \<noteq> None) = (int k \<in> G - {x} \<union> snd ` held s)" for k
      using i(3) [of k] i(6) assms(2) n(1) t(3) by auto
    show "0 < y" if "y \<in> G - {x} \<union> snd ` held s" for y using that i(4) by auto
    show "snd (snd e)" if "rsc_lookup (handleTable (s\<lparr>handleTable := t\<rparr>)) k = Some e" for k e
      using that t(3) i(2) by (simp split: if_splits)
  qed (use t i in auto)
  then show ?thesis using t by (auto simp: s' dtor_calls)
qed

section \<open>Imported resources and borrows\<close>

lemma table_val_live:
  assumes "rsc_inv (handleTable s)" "rsc_lookup (handleTable s) h = Some (rep, scope, own)"
  shows "js_and (table_val (int h) s) (js_not T_FLAG) = rep" "0 < h" "int h < T_FLAG"
proof -
  from assms(1) obtain fl where w: "rsc_wf (handleTable s) fl" by (auto simp: rsc_inv_def)
  note l = rsc_live_cells [OF w assms(2)] and b = rsc_handle_bound [OF w, of h]
  have c: "js_get (rsc_cells (handleTable s)) (js_shl (int h) 1 + 1) = rsc_cells (handleTable s) ! Suc (2 * h)"
    using l b by (auto simp: js_get_def nat_mult_distrib nat_add_distrib)
  show "js_and (table_val (int h) s) (js_not T_FLAG) = rep"
    unfolding table_val_def c using l(4) by (simp add: rsc_entry_at_def Let_def)
  show "0 < h" "int h < T_FLAG" using l b by simp_all
qed

lemma capture_missing_rep:
  "no_handle (ro_rep (objects s ! ob)) \<Longrightarrow> capture_object ob s =
     (captureCnt s + 1, s\<lparr>captureCnt := captureCnt s + 1, captureTable := map_put (captureCnt s + 1) ob (captureTable s)\<rparr>)"
  by (auto simp: capture_object_def no_handle_def)

lemma map_put_fresh: "k \<notin> fst ` set m \<Longrightarrow> map_put k v m = m @ [(k, v)]" by (simp add: map_put_def)

lemma map_of_appended: "k \<notin> fst ` set m \<Longrightarrow> map_of (m @ [(k, v)]) k = Some v"
  by (simp add: map_add_def map_of_eq_None_iff [THEN iffD2])

lemma filter_keys_fresh: "k \<notin> fst ` set m \<Longrightarrow> filter (\<lambda>c. fst c \<noteq> k) m = m"
  by (force simp: filter_id_conv)

lemma release_fold:
  "objects (fold (\<lambda>rsc. set_handle rsc None) obs s) ! ob =
     (if ob \<in> set obs \<and> ob < length (objects s) then (objects s ! ob)\<lparr>ro_handle := None\<rparr> else objects s ! ob)"
proof (induction obs arbitrary: s)
  case (Cons a obs)
  have "objects (set_handle a None s) ! ob =
      (if ob = a \<and> ob < length (objects s) then (objects s ! ob)\<lparr>ro_handle := None\<rparr> else objects s ! ob)"
    by (cases "a < length (objects s)") (auto simp: set_handle_def nth_list_update list_update_beyond not_less)
  then show ?case by (auto simp: Cons.IH)
qed simp

text \<open>Borrows of local resources carry their representation where own objects carry a handle: while the call
  runs, an own parameter accepts the object and passes the representation on as a handle. After the call the
  object is refused.\<close>

theorem borrow_lowered_as_own:
  assumes "lift_borrow_local None rep s = (ob, s1)" "rep \<noteq> 0"
  shows "fst (lower_own_local ob s1) = Inr rep" "\<exists>m. fst (lower_own_local ob (release_borrows s1)) = Inl (TypeErr m)"
proof -
  from assms have o: "ob = length (objects s)" "s1 = s\<lparr>objects := objects s @
      [\<lparr>ro_instance = True, ro_handle = Some rep, ro_rep = None, ro_dispose = Inherited\<rparr>], curBorrows := curBorrows s @ [ob]\<rparr>"
    by (auto simp: lift_borrow_local_def target_object_def new_object_def set_handle_def)
  show "fst (lower_own_local ob s1) = Inr rep" using assms(2) by (simp add: o(2) lower_own_local_def) (simp add: o(1))
  have "ob \<in> set (curBorrows s1)" "ob < length (objects s1)" by (simp_all add: o)
  then show "\<exists>m. fst (lower_own_local ob (release_borrows s1)) = Inl (TypeErr m)"
    by (simp add: lower_own_local_def release_borrows_def release_fold)
qed

section \<open>Properties\<close>

text \<open>C10. Ownership of a component's resources, over every run of the component, JavaScript and the collector
  in which handles do not run out: the live own handles are those the component holds and those of
  JavaScript objects, and no handle has two owners; an object with a handle is registered for finalization
  once, and nothing else is; and where the resource has a destructor, every representation that was made is
  either still live or was destroyed, and none was destroyed twice.\<close>

theorem resource_ownership:
  assumes "res_reach has_dtor s G C"
  shows "(\<forall>h. rsc_lookup (handleTable s) h \<noteq> None \<longleftrightarrow> int h \<in> G \<union> snd ` held s) \<and>
    (G \<inter> snd ` held s = {} \<and> inj_on snd (held s)) \<and>
    (set (registrations s) = held s \<and> distinct (registrations s)) \<and>
    (has_dtor \<longrightarrow> mset C = mset (dtorCalls s) + live_reps (handleTable s))"
proof -
  have "res_inv s G \<and> (has_dtor \<longrightarrow> mset C = mset (dtorCalls s) + live_reps (handleTable s))"
    using assms
  proof induction
    case Start
    have "rsc_lookup rsc_new = Map.empty" by (auto simp: rsc_lookup_def rsc_new_def)
    then show ?case using rsc_inv_new by (simp add: res_inv_def res_init_def held_def live_reps_def)
  next
    case (New s G C rep h s')
    with res_inv_new [of s G rep h s'] show ?case by simp
  next
    case (Construct s G C ob s')
    with res_inv_construct [of s G ob s'] show ?case by simp
  next
    case (Lift s G C h this_obj rsc s')
    with res_inv_lift [of s G h this_obj rsc s'] show ?case by simp
  next
    case (Lower s G C ob h s')
    with res_inv_lower [of s G ob h s'] show ?case by simp
  next
    case (Dispose s G C ob r s')
    with res_inv_dispose [of s G ob has_dtor r s'] show ?case by auto
  next
    case (Collect s G C i ob h r s')
    with res_inv_collect [OF _ Collect(2-4) refl] show ?case by fastforce
  next
    case (Drop s G C h r s')
    with res_inv_drop [of s G h has_dtor r s'] show ?case by fastforce
  qed
  then show ?thesis unfolding res_inv_def by blast
qed

text \<open>C11. An object that JavaScript made for an imported resource survives the trip through the component:
  lowering it as own captures it under a fresh number and makes an own handle for that; lifting the handle
  gives back the same object, and the handle table and the table of captured objects are as they were. When
  the component drops the handle instead, it is this object whose \<open>Symbol.dispose\<close> is called.\<close>

theorem captured_resource_roundtrip:
  assumes "rsc_inv (handleTable s)" "rsc_room (handleTable s)" "ro_instance (objects s ! ob)"
    and "no_handle (ro_handle (objects s ! ob))" "no_handle (ro_rep (objects s ! ob))"
    and "0 \<le> captureCnt s" "captureCnt s + 1 < T_FLAG" "captureCnt s + 1 \<notin> fst ` set (captureTable s)"
  shows "\<exists>h s1 s2 s3. lower_own_imported ob s = (Inr (int h), s1) \<and> rsc_lookup (handleTable s) h = None \<and>
    rsc_lookup (handleTable s1) = (rsc_lookup (handleTable s))(h \<mapsto> (captureCnt s + 1, JNum 0, True)) \<and>
    lift_own_imported (int h) s1 = (Inr ob, s2) \<and> rsc_lookup (handleTable s2) = rsc_lookup (handleTable s) \<and>
    captureTable s2 = captureTable s \<and> objects s2 = objects s \<and>
    resource_drop_imported (int h) s1 = (Inr (DisposeObject ob), s3) \<and>
    rsc_lookup (handleTable s3) = rsc_lookup (handleTable s) \<and> captureTable s3 = captureTable s"
proof -
  let ?rep = "captureCnt s + 1"
  from assms(1) obtain fl where w: "rsc_wf (handleTable s) fl" by (auto simp: rsc_inv_def)
  from rsc_create_own [OF w assms(2)] assms(6,7) obtain h t where t: "rscTableCreateOwn ?rep (handleTable s) = (int h, t)"
    "rsc_wf t (tl fl)" "rsc_lookup (handleTable s) h = None" "rsc_lookup t = (rsc_lookup (handleTable s))(h \<mapsto> (?rep, JNum 0, True))"
    by (metis add.commute zle_iff_zadd zless_add1_eq order_le_less)
  define s1 where "s1 = s\<lparr>captureCnt := ?rep, captureTable := captureTable s @ [(?rep, ob)], handleTable := t\<rparr>"
  have low: "lower_own_imported ob s = (Inr (int h), s1)"
    using assms(3,4) t(1) by (simp add: lower_own_imported_def capture_missing_rep [OF assms(5)] map_put_fresh [OF assms(8)] s1_def)
  have i1: "rsc_inv (handleTable s1)" and l1: "rsc_lookup (handleTable s1) h = Some (?rep, JNum 0, True)"
    using t by (auto simp: s1_def rsc_inv_def)
  from table_remove_live [OF i1 l1] obtain t2 where t2: "rscTableRemove (int h) (handleTable s1) = Inr ((?rep, JNum 0, True), t2)"
    "rsc_lookup t2 = (rsc_lookup (handleTable s1))(h := None)" by auto
  have restored: "rsc_lookup t2 = rsc_lookup (handleTable s)" using t t2(2) by (auto simp: s1_def fun_upd_idem)
  have cap: "map_of (captureTable s1) ?rep = Some ob" "filter (\<lambda>c. fst c \<noteq> ?rep) (captureTable s1) = captureTable s"
    using map_of_appended [OF assms(8)] filter_keys_fresh [OF assms(8)] by (simp_all add: s1_def)
  define s2 where "s2 = s1\<lparr>captureTable := captureTable s, handleTable := t2\<rparr>"
  have "lift_own_imported (int h) s1 = (Inr ob, s2)"
    using cap t2(1) by (simp add: lift_own_imported_def lift_imported_object_def table_val_live(1) [OF i1 l1] table_remove_def jbind_def jret_def s2_def)
  moreover have "resource_drop_imported (int h) s1 = (Inr (DisposeObject ob), s1\<lparr>handleTable := t2, captureTable := captureTable s\<rparr>)"
    using cap t2(1) by (simp add: resource_drop_imported_def table_remove_def jbind_def)
  ultimately show ?thesis using low t restored by (simp add: s1_def s2_def)
qed

text \<open>An imported resource that JavaScript did not make, and so is not captured, keeps the number of its
  handle when it is lifted as own, although the handle is removed from the table: lowering the object again
  hands the component this number, under which the table holds nothing.\<close>

theorem lifted_import_keeps_dead_handle:
  assumes "rsc_inv (handleTable s)" "rsc_lookup (handleTable s) h = Some (rep, scope, own)" "map_of (captureTable s) rep = None"
  shows "\<exists>ob s1. lift_own_imported (int h) s = (Inr ob, s1) \<and> lower_own_imported ob s1 = (Inr (int h), s1) \<and>
    rsc_lookup (handleTable s1) h = None \<and> rscTableGet (int h) (handleTable s1) = Inl (TypeErr ''Invalid handle'')"
proof -
  from table_remove_live [OF assms(1,2)] obtain t where t: "rscTableRemove (int h) (handleTable s) = Inr ((rep, scope, own), t)"
    "rsc_inv t" "rsc_lookup t = (rsc_lookup (handleTable s))(h := None)" by auto
  note v = table_val_live [OF assms(1,2)]
  define s1 where "s1 = s\<lparr>objects := objects s @
      [\<lparr>ro_instance = True, ro_handle = Some (int h), ro_rep = Some rep, ro_dispose = Inherited\<rparr>], handleTable := t\<rparr>"
  have "lift_own_imported (int h) s = (Inr (length (objects s)), s1)"
    using assms(3) t(1) by (simp add: lift_own_imported_def lift_imported_object_def v(1) new_object_def table_remove_def jbind_def jret_def s1_def)
  moreover have "lower_own_imported (length (objects s)) s1 = (Inr (int h), s1)"
    using v(2) by (simp add: lower_own_imported_def s1_def no_handle_def)
  moreover have "rscTableGet (int h) t = Inl (TypeErr ''Invalid handle'')"
    using t(2,3) v(3) rsc_get_lookup [of t _ h] by (auto simp: rsc_inv_def)
  ultimately show ?thesis using t(3) by (auto simp: s1_def)
qed

section \<open>Witnesses\<close>

text \<open>A handle for representation 5 is made, lifted and disposed by JavaScript.\<close>

definition demo_res :: "nat \<Rightarrow> res_state" where
  "demo_res n =
     (let s1 = snd (resource_new 5 res_init); s2 = snd (lift_own_local None 1 s1) in
      if n = 0 then res_init else if n = 1 then s1 else if n = 2 then s2 else snd (dispose True 0 s2))"

lemma demo_res_run: "resource_new 5 (demo_res 0) = (Inr 1, demo_res 1)" "lift_own_local None 1 (demo_res 1) = (0, demo_res 2)"
  "dispose True 0 (demo_res 2) = (Inr (), demo_res 3)" "dtorCalls (demo_res 3) = [5]" "length (objects (demo_res 2)) = 1"
  by code_simp+

theorem resource_ownership_witness:
  "res_reach True (demo_res 3) {} [5] \<and> live_reps (handleTable (demo_res 3)) = {#} \<and> registrations (demo_res 3) = []"
proof -
  have "res_reach True (demo_res 0) {} []" using res_reach.Start by (simp add: demo_res_def Let_def)
  from res_reach.New [OF this _ _ _ demo_res_run(1)] have "res_reach True (demo_res 1) {1} [5]"
    by (simp add: rsc_room_def rsc_new_def demo_res_def res_init_def T_FLAG_value)
  from res_reach.Lift [OF this _ _ demo_res_run(2)] have "res_reach True (demo_res 2) {} [5]" by simp
  from res_reach.Dispose [OF this _ demo_res_run(3)] demo_res_run(5) have r: "res_reach True (demo_res 3) {} [5]" by simp
  have "registrations (demo_res 3) = []" by code_simp
  with resource_ownership [OF r] r demo_res_run(4) show ?thesis by simp
qed

definition demo_capture :: res_state where
  "demo_capture = res_init\<lparr>objects := [\<lparr>ro_instance = True, ro_handle = None, ro_rep = None, ro_dispose = Inherited\<rparr>]\<rparr>"

theorem captured_resource_roundtrip_witness:
  "\<exists>h s1 s2. lower_own_imported 0 demo_capture = (Inr (int h), s1) \<and> lift_own_imported (int h) s1 = (Inr 0, s2) \<and>
     captureTable s2 = []"
  using captured_resource_roundtrip [of demo_capture 0] rsc_inv_new
  by (fastforce simp: demo_capture_def res_init_def rsc_room_def rsc_new_def T_FLAG_value no_handle_def)

definition demo_import :: res_state where
  "demo_import = res_init\<lparr>handleTable := demo_table\<rparr>"

theorem lifted_import_keeps_dead_handle_witness:
  "\<exists>ob s1. lift_own_imported (int 1) demo_import = (Inr ob, s1) \<and> lower_own_imported ob s1 = (Inr (int 1), s1) \<and>
     rscTableGet (int 1) (handleTable s1) = Inl (TypeErr ''Invalid handle'')"
proof -
  have "rsc_inv (handleTable demo_import)" "rsc_lookup (handleTable demo_import) 1 = Some (5, JNum 0, True)"
    "map_of (captureTable demo_import) 5 = None"
    using demo_table by (simp_all add: demo_import_def res_init_def)
  from lifted_import_keeps_dead_handle [OF this] show ?thesis by blast
qed

end
