(* ===== verification/Esm_Bindgen.thy ===== *)
theory Esm_Bindgen
  imports Emit_Source "HOL-Library.Sublist"
begin

text \<open>
  The imports and exports of the generated module (\<open>src/crates/js-component-bindgen/src/esm_bindgen.rs\<close>): the
  tables that the transpiler fills while it walks the component, the aliases of exported interfaces, and the
  statements rendered from them. The camel-case conversion (\<open>heck\<close>) and the hash of a unique id are the
  parameters \<open>camel\<close> and \<open>hash\<close>. What is rendered is only appended to the output, so a rendering
  function returns its writes in order, each a list of the parts that \<open>uwrite!\<close> passes on.
\<close>

section \<open>State\<close>

datatype import_binding = ImportInterface "(string \<times> import_binding) list" | ImportLocal "string list"

type_synonym import_table = "(string \<times> import_binding) list"

datatype export_binding = ExportInterface "(string \<times> export_binding) list" | ExportLocal string string

type_synonym export_table = "(string \<times> export_binding) list"

record esm_bindgen =
  esm_imports :: import_table
  esm_exports :: export_table
  esm_aliases :: "(string \<times> string) list"

definition esm_default :: esm_bindgen where
  "esm_default = \<lparr>esm_imports = [], esm_exports = [], esm_aliases = []\<rparr>"

section \<open>Imports\<close>

text \<open>The walk along the path: an interface that is missing is created on the way.\<close>

fun add_import :: "string list \<Rightarrow> string \<Rightarrow> import_table \<Rightarrow> import_table rust" where
  "add_import [] name m = Inl (Panic ''attempt to subtract with overflow'')"
| "add_import [p] name m =
     (case map_of m p of
        Some (ImportInterface _) \<Rightarrow> Inl (Panic ''Multi-version interfaces must have the same shape'')
      | Some (ImportLocal names) \<Rightarrow>
          Inr (if name \<in> set names then m else bt_put p (ImportLocal (names @ [name])) m)
      | None \<Rightarrow> Inr (bt_put p (ImportLocal [name]) m))"
| "add_import (p # q # ps) name m =
     (case map_of m p of
        Some (ImportLocal _) \<Rightarrow> Inl (Panic ''Internal bindgen error: Import cannot be both an interface and a function'')
      | Some (ImportInterface iface) \<Rightarrow>
          rbind (add_import (q # ps) name iface) (\<lambda>iface'. Inr (bt_put p (ImportInterface iface') m))
      | None \<Rightarrow> rbind (add_import (q # ps) name []) (\<lambda>iface'. Inr (bt_put p (ImportInterface iface') m)))"

definition add_import_binding :: "string list \<Rightarrow> string \<Rightarrow> esm_bindgen \<Rightarrow> esm_bindgen rust" where
  "add_import_binding path name s =
     rbind (add_import path name (esm_imports s)) (\<lambda>m. Inr (s\<lparr>esm_imports := m\<rparr>))"

definition import_specifiers :: "esm_bindgen \<Rightarrow> string list" where
  "import_specifiers s = map fst (esm_imports s)"

section \<open>Exports\<close>

definition add_export_binding ::
    "(string \<Rightarrow> string) \<Rightarrow> string option \<Rightarrow> string \<Rightarrow> string \<Rightarrow> string \<Rightarrow> esm_bindgen \<Rightarrow> esm_bindgen rust" where
  "add_export_binding camel iface_id local_name func_name wasm_name s =
     (case iface_id of
        None \<Rightarrow> Inr (s\<lparr>esm_exports := bt_put func_name (ExportLocal local_name wasm_name) (esm_exports s)\<rparr>)
      | Some iface_id \<Rightarrow>
          (let key = (if CHR '':'' \<in> set iface_id then iface_id else camel iface_id) in
           case map_of (esm_exports s) key of
             Some (ExportLocal _ _) \<Rightarrow> Inl (Panic ''Exported interface cannot be both a function and an interface'')
           | Some (ExportInterface iface) \<Rightarrow>
               Inr (s\<lparr>esm_exports := bt_put key (ExportInterface (bt_put func_name (ExportLocal local_name wasm_name) iface)) (esm_exports s)\<rparr>)
           | None \<Rightarrow>
               Inr (s\<lparr>esm_exports := bt_put key (ExportInterface [(func_name, ExportLocal local_name wasm_name)]) (esm_exports s)\<rparr>)))"

text \<open>\<open>str::rfind\<close> and \<open>str::find\<close> of a character, and the panic of a slice whose end is before its start.\<close>

definition find_char :: "char \<Rightarrow> string \<Rightarrow> nat option" where
  "find_char c s = (if c \<in> set s then Some (length (takeWhile (\<lambda>x. x \<noteq> c) s)) else None)"

definition rfind_char :: "char \<Rightarrow> string \<Rightarrow> nat option" where
  "rfind_char c s = (if c \<in> set s then Some (length s - 1 - length (takeWhile (\<lambda>x. x \<noteq> c) (rev s))) else None)"

definition slice :: "nat \<Rightarrow> nat \<Rightarrow> string \<Rightarrow> string rust" where
  "slice from to s = (if from \<le> to \<and> to \<le> length s then Inr (take (to - from) (drop from s)) else Inl (Panic ''slice index''))"

definition alias_of :: "(string \<Rightarrow> string) \<Rightarrow> string \<Rightarrow> string option rust" where
  "alias_of camel name =
     (case rfind_char (CHR ''/'') name of
        None \<Rightarrow> Inr None
      | Some path_idx \<Rightarrow>
          rbind (slice (path_idx + 1) (case rfind_char (CHR ''@'') name of Some v \<Rightarrow> v | None \<Rightarrow> length name) name)
            (\<lambda>part. Inr (Some (camel part))))"

primrec populate_aliases ::
    "(string \<Rightarrow> string) \<Rightarrow> export_table \<Rightarrow> string list \<Rightarrow> (string \<times> string) list \<Rightarrow> (string \<times> string) list rust" where
  "populate_aliases camel exps [] aliases = Inr aliases"
| "populate_aliases camel exps (name # names) aliases =
     rbind (alias_of camel name) (\<lambda>a. populate_aliases camel exps names
       (case a of
          None \<Rightarrow> aliases
        | Some alias \<Rightarrow> if map_of exps alias = None \<and> map_of aliases alias = None then bt_put alias name aliases else aliases))"

definition populate_export_aliases :: "(string \<Rightarrow> string) \<Rightarrow> esm_bindgen \<Rightarrow> esm_bindgen rust" where
  "populate_export_aliases camel s =
     rbind (populate_aliases camel (esm_exports s) (map fst (esm_exports s)) (esm_aliases s))
       (\<lambda>aliases. Inr (s\<lparr>esm_aliases := aliases\<rparr>))"

definition exports_of :: "esm_bindgen \<Rightarrow> (string \<times> string) list" where
  "exports_of s = esm_aliases s @
     map (\<lambda>(name, binding). (name, case binding of ExportInterface _ \<Rightarrow> name | ExportLocal _ wasm \<Rightarrow> wasm)) (esm_exports s)"

section \<open>Rendering the exports\<close>

type_synonym writes = "string list list"

definition contains_js_quote :: "string \<Rightarrow> bool" where
  "contains_js_quote s = (CHR 0x22 \<in> set s \<or> CHR 0x27 \<in> set s \<or> CHR 0x60 \<in> set s)"

primrec render_members :: "(string \<times> export_binding) list \<Rightarrow> writes rust" where
  "render_members [] = Inr []"
| "render_members (e # es) =
     (case snd e of
        ExportInterface _ \<Rightarrow> Inl (Panic ''Unsupported nested export interface'')
      | ExportLocal local_name _ \<Rightarrow>
          rbind (render_members es) (\<lambda>ws. Inr ([maybe_quote_id (fst e), '': '', local_name, '','' @ [NL]] # ws)))"

primrec render_interfaces ::
    "(string \<Rightarrow> string) \<Rightarrow> (string \<Rightarrow> nat) \<Rightarrow> export_table \<Rightarrow> local_names \<Rightarrow> (writes \<times> local_names) rust" where
  "render_interfaces camel hash [] ln = Inr ([], ln)"
| "render_interfaces camel hash (e # es) ln =
     (case snd e of
        ExportLocal _ _ \<Rightarrow> render_interfaces camel hash es ln
      | ExportInterface iface \<Rightarrow>
          rbind (get_or_create camel (hash (''export:'' @ fst e)) (fst e) ln) (\<lambda>((local_name, _), ln').
          rbind (render_members iface) (\<lambda>members.
          rbind (render_interfaces camel hash es ln') (\<lambda>(ws, ln'').
            Inr ([''const '', local_name, '' = {'' @ [NL]] # members @ [[NL # ''};'' @ [NL]]] @ ws, ln'')))))"

definition export_local :: "(string \<Rightarrow> nat) \<Rightarrow> local_names \<Rightarrow> string \<Rightarrow> export_binding \<Rightarrow> string rust" where
  "export_local hash ln name binding =
     (case binding of
        ExportLocal local_name _ \<Rightarrow> Inr local_name
      | ExportInterface _ \<Rightarrow> local_names_get (hash (''export:'' @ name)) ln)"

definition export_item :: "bool \<Rightarrow> bool \<Rightarrow> string \<Rightarrow> string \<Rightarrow> writes" where
  "export_item instantiation no_namespaced_exports name local_name =
     (let quoted = maybe_quote_id name in
      if local_name = quoted then [[local_name], ['', '']]
      else if instantiation then [[quoted, '': '', local_name], ['', '']]
      else if \<not> contains_js_quote quoted \<or> \<not> no_namespaced_exports then [[local_name, '' as '', quoted], ['', '']]
      else [])"

primrec render_items ::
    "(string \<Rightarrow> nat) \<Rightarrow> bool \<Rightarrow> bool \<Rightarrow> local_names \<Rightarrow> (string \<times> string \<times> export_binding) list \<Rightarrow> writes rust" where
  "render_items hash inst no_ns ln [] = Inr []"
| "render_items hash inst no_ns ln (i # items) =
     (case i of (shown, name, binding) \<Rightarrow>
        rbind (export_local hash ln name binding) (\<lambda>local_name.
        rbind (render_items hash inst no_ns ln items) (\<lambda>ws. Inr (export_item inst no_ns shown local_name @ ws))))"

text \<open>\<open>self.exports[export_name]\<close> for the name an alias stands for.\<close>

primrec alias_items :: "export_table \<Rightarrow> (string \<times> string) list \<Rightarrow> (string \<times> string \<times> export_binding) list rust" where
  "alias_items exps [] = Inr []"
| "alias_items exps (a # as) =
     (case map_of exps (snd a) of
        None \<Rightarrow> Inl (Panic ''no entry found for key'')
      | Some b \<Rightarrow> rbind (alias_items exps as) (\<lambda>items. Inr ((fst a, snd a, b) # items)))"

definition render_exports ::
    "(string \<Rightarrow> string) \<Rightarrow> (string \<Rightarrow> nat) \<Rightarrow> bool \<Rightarrow> bool \<Rightarrow> esm_bindgen \<Rightarrow> local_names \<Rightarrow> (writes \<times> local_names) rust" where
  "render_exports camel hash instantiation no_namespaced_exports s ln =
     (if esm_exports s = [] then Inr (if instantiation then [[''return {}'']] else [], ln)
      else
        rbind (render_interfaces camel hash (esm_exports s) ln) (\<lambda>(ifaces, ln').
        rbind (alias_items (esm_exports s) (esm_aliases s)) (\<lambda>aliases.
        rbind (render_items hash instantiation no_namespaced_exports ln' aliases) (\<lambda>ws1.
        rbind (render_items hash instantiation no_namespaced_exports ln' (map (\<lambda>(n, b). (n, n, b)) (esm_exports s))) (\<lambda>ws2.
          Inr (ifaces @ [[[NL], if instantiation then ''return'' else ''export'', '' { '']] @ ws1 @ ws2 @ [['' }'']], ln'))))))"

section \<open>Rendering the imports\<close>

definition has_prefix :: "string \<Rightarrow> string \<Rightarrow> bool" where
  "has_prefix pre s = (take (length pre) s = pre)"

text \<open>The global object that a specifier \<open>webidl:\<close> names: its path below \<open>globalThis\<close>, joined by dashes.\<close>

definition idl_binding :: "string \<Rightarrow> string option rust" where
  "idl_binding specifier =
     (if has_prefix ''webidl:'' specifier then
        (case find_char (CHR ''/'') specifier of
           None \<Rightarrow> Inl (Panic ''called Option::unwrap() on a None value'')
         | Some i \<Rightarrow>
             rbind (slice (i + 1) (case find_char (CHR ''@'') specifier of Some v \<Rightarrow> v | None \<Rightarrow> length specifier) specifier)
               (\<lambda>name. Inr (Some (if has_prefix ''global-'' name then drop 7 name else []))))
      else Inr None)"

definition lower_char :: "char \<Rightarrow> char" where
  "lower_char c =
     (let n = of_char c :: nat in if 65 \<le> n \<and> n \<le> 90 \<or> 192 \<le> n \<and> n \<le> 222 \<and> n \<noteq> 215 then char_of (n + 32) else c)"

fun split_dash :: "string \<Rightarrow> string list" where
  "split_dash [] = [[]]"
| "split_dash (c # cs) =
     (if c = CHR ''-'' then [] # split_dash cs
      else case split_dash cs of [] \<Rightarrow> [[c]] | s # ss \<Rightarrow> (c # s) # ss)"

definition sep :: "bool \<Rightarrow> string \<Rightarrow> string list" where
  "sep first s = (if first then ['' ''] else [s])"

definition bound_item :: "bool \<Rightarrow> string \<Rightarrow> string \<Rightarrow> string list" where
  "bound_item as_object external_name local_name =
     (if external_name = local_name then [external_name]
      else if as_object then [external_name, '': '', local_name]
      else [external_name, '' as '', local_name])"

primrec bind_locals :: "bool \<Rightarrow> string \<Rightarrow> string list \<Rightarrow> bool \<Rightarrow> writes" where
  "bind_locals as_object ext [] first = []"
| "bind_locals as_object ext (l # ls) first =
     [sep first '', '', bound_item as_object ext l] @ bind_locals as_object ext ls False"

text \<open>The bindings of a specifier: what is written, the pairs that were bound, and the interfaces whose members are
  bound later.\<close>

type_synonym bound = "(string \<times> string) list"

primrec render_bindings ::
    "(string \<Rightarrow> string) \<Rightarrow> (string \<Rightarrow> nat) \<Rightarrow> bool \<Rightarrow> string \<Rightarrow> import_table \<Rightarrow> bool \<Rightarrow> local_names \<Rightarrow>
       (bool \<times> writes \<times> bound \<times> (string \<times> import_table) list \<times> local_names) rust" where
  "render_bindings camel hash as_object specifier [] first ln = Inr (first, [], [], [], ln)"
| "render_bindings camel hash as_object specifier (b # bs) first ln =
     (case snd b of
        ImportInterface iface \<Rightarrow>
          rbind (get_or_create camel (hash (''import:'' @ specifier @ ''#'' @ fst b)) (fst b) ln) (\<lambda>((l, _), ln1).
          rbind (render_bindings camel hash as_object specifier bs False ln1) (\<lambda>(first', ws, bound, ifaces, ln2).
            Inr (first', [sep first '', '', bound_item as_object (fst b) l] @ ws, (fst b, l) # bound, (l, iface) # ifaces, ln2)))
      | ImportLocal names \<Rightarrow>
          rbind (render_bindings camel hash as_object specifier bs (first \<and> names = []) ln) (\<lambda>(first', ws, bound, ifaces, ln1).
            Inr (first', bind_locals as_object (fst b) names first @ ws, map (Pair (fst b)) names @ bound, ifaces, ln1)))"

definition spaces :: "nat \<Rightarrow> string" where
  "spaces n = replicate n (CHR '' '')"

definition undefined_check :: "nat \<Rightarrow> string \<Rightarrow> string \<times> string \<Rightarrow> string list" where
  "undefined_check ind kind eb =
     [[NL] @ spaces ind @ ''if ('', snd eb, '' === undefined) {'' @ [NL] @ spaces (ind + 4) @
        ''const err = new Error('' @ [CHR 0x22] @ ''unexpectedly undefined '' @ kind @ '' import '' @ [CHR 0x27], snd eb,
      [CHR 0x27] @ '', was '' @ [CHR 0x27], fst eb,
      [CHR 0x27] @ '' available at instantiation?'' @ [CHR 0x22] @ '');'' @ [NL] @ spaces (ind + 4) @
        ''console.error('' @ [CHR 0x22] @ ''ERROR:'' @ [CHR 0x22] @ '', err.toString());'' @ [NL] @ spaces (ind + 4) @
        ''throw err;'' @ [NL] @ spaces ind @ ''}'' @ [NL] @ spaces ind @ [NL]]"

definition from_clause :: "string \<Rightarrow> string \<Rightarrow> string list" where
  "from_clause before specifier = [before, '' from '' @ [CHR 0x27], specifier, [CHR 0x27] @ '';'' @ [NL]]"

definition other_locals :: "string \<Rightarrow> string list \<Rightarrow> writes" where
  "other_locals l ls = map (\<lambda>o'. [''const '', o', '' = '', l, '';'' @ [NL]]) ls"

definition first_name :: "string list \<Rightarrow> string rust" where
  "first_name names = (case names of [] \<Rightarrow> Inl (Panic ''index out of bounds'') | l # _ \<Rightarrow> Inr l)"

definition close_bindings :: "string option \<Rightarrow> string option \<Rightarrow> string \<Rightarrow> bound \<Rightarrow> writes" where
  "close_bindings imports_object idl specifier bound =
     (case imports_object of
        Some obj \<Rightarrow>
          [[''} = '', obj, maybe_quote_member specifier, '';'' @ [NL]]] @ map (undefined_check 32 ''instance'') bound
      | None \<Rightarrow>
          (case idl of
             Some idl \<Rightarrow>
               [[''} = '', ''globalThisIdlProxy'', ''()'']] @
               (if idl \<noteq> [] then map (\<lambda>seg. [''.'', map lower_char seg, ''()'']) (split_dash idl) else []) @
               [['';'' @ [NL]]]
           | None \<Rightarrow> [[''} from '' @ [CHR 0x27], specifier, [CHR 0x27] @ '';'' @ [NL]]]))"

definition render_specifier ::
    "(string \<Rightarrow> string) \<Rightarrow> (string \<Rightarrow> nat) \<Rightarrow> string option \<Rightarrow> string \<times> import_binding \<Rightarrow> local_names \<Rightarrow>
       (writes \<times> (string \<times> import_table) list \<times> local_names) rust" where
  "render_specifier camel hash imports_object sb ln =
     rbind (idl_binding (fst sb)) (\<lambda>idl.
       let as_object = (imports_object \<noteq> None \<or> idl \<noteq> None);
           keyword = [[if as_object then ''const '' else ''import '']] in
       case snd sb of
         ImportInterface bindings \<Rightarrow>
           if \<not> as_object \<and> length bindings = 1 \<and> fst (hd bindings) = ''default'' then
             (case snd (hd bindings) of
                ImportInterface iface \<Rightarrow>
                  rbind (create_once camel (fst sb) ln) (\<lambda>(l, ln1).
                    Inr (keyword @ [from_clause l (fst sb)], [(l, iface)], ln1))
              | ImportLocal names \<Rightarrow>
                  rbind (first_name names) (\<lambda>l.
                    Inr (keyword @ [from_clause l (fst sb)] @ other_locals l (tl names), [], ln)))
           else
             rbind (render_bindings camel hash as_object (fst sb) bindings True ln) (\<lambda>(first, ws, bound, ifaces, ln1).
               Inr (keyword @ [[''{'']] @ ws @ (if first then [] else [['' '']]) @
                    close_bindings imports_object idl (fst sb) bound, ifaces, ln1))
       | ImportLocal names \<Rightarrow>
           rbind (first_name names) (\<lambda>l.
             Inr (keyword @
                  [case imports_object of
                     Some obj \<Rightarrow> [l, '' = '', obj, maybe_quote_member (fst sb), ''.default;'' @ [NL]]
                   | None \<Rightarrow> from_clause l (fst sb)] @ other_locals l (tl names), [], ln)))"

text \<open>The members of an imported interface. Interfaces below it are skipped.\<close>

primrec member_locals :: "string \<Rightarrow> string list \<Rightarrow> bool \<Rightarrow> writes" where
  "member_locals member [] first = []"
| "member_locals member (l # ls) first =
     [sep first ('','' @ [NL]), if member = l then [l] else [member, '': '', l]] @ member_locals member ls False"

primrec render_member_bindings :: "import_table \<Rightarrow> bool \<Rightarrow> bool \<times> writes \<times> bound" where
  "render_member_bindings [] first = (first, [], [])"
| "render_member_bindings (m # ms) first =
     (case snd m of
        ImportInterface _ \<Rightarrow> render_member_bindings ms first
      | ImportLocal names \<Rightarrow>
          (case render_member_bindings ms (first \<and> names = []) of
             (first', ws, bound) \<Rightarrow> (first', member_locals (fst m) names first @ ws, map (Pair (fst m)) names @ bound)))"

definition render_getters :: "string \<times> import_table \<Rightarrow> writes" where
  "render_getters li =
     (case render_member_bindings (snd li) True of
        (first, ws, bound) \<Rightarrow>
          [[''const {'']] @ ws @ (if first then [] else [['' '']]) @ [[''} = '', fst li, '';'' @ [NL]]] @
          map (undefined_check 20 ''local'') bound)"

primrec render_specifiers ::
    "(string \<Rightarrow> string) \<Rightarrow> (string \<Rightarrow> nat) \<Rightarrow> string option \<Rightarrow> import_table \<Rightarrow> local_names \<Rightarrow>
       (writes \<times> (string \<times> import_table) list \<times> local_names) rust" where
  "render_specifiers camel hash imports_object [] ln = Inr ([], [], ln)"
| "render_specifiers camel hash imports_object (sb # sbs) ln =
     rbind (render_specifier camel hash imports_object sb ln) (\<lambda>(ws1, ifaces1, ln1).
     rbind (render_specifiers camel hash imports_object sbs ln1) (\<lambda>(ws2, ifaces2, ln2).
       Inr (ws1 @ ws2, ifaces1 @ ifaces2, ln2)))"

definition render_imports ::
    "(string \<Rightarrow> string) \<Rightarrow> (string \<Rightarrow> nat) \<Rightarrow> string option \<Rightarrow> esm_bindgen \<Rightarrow> local_names \<Rightarrow> (writes \<times> local_names) rust" where
  "render_imports camel hash imports_object s ln =
     rbind (render_specifiers camel hash imports_object (esm_imports s) ln) (\<lambda>(ws, ifaces, ln').
       Inr (ws @ concat (map render_getters ifaces), ln'))"

section \<open>What the import table holds\<close>

text \<open>The names recorded for a path.\<close>

fun import_at :: "string list \<Rightarrow> import_table \<Rightarrow> string list option" where
  "import_at [] m = None"
| "import_at [p] m = (case map_of m p of Some (ImportLocal names) \<Rightarrow> Some names | _ \<Rightarrow> None)"
| "import_at (p # q # ps) m = (case map_of m p of Some (ImportInterface iface) \<Rightarrow> import_at (q # ps) iface | _ \<Rightarrow> None)"

definition with_name :: "string \<Rightarrow> string list option \<Rightarrow> string list option" where
  "with_name name old = Some (case old of None \<Rightarrow> [name] | Some ns \<Rightarrow> if name \<in> set ns then ns else ns @ [name])"

lemma import_at_empty [simp]: "import_at q [] = None"
  by (cases q rule: remdups_adj.cases) auto

lemma add_import_at:
  "add_import p name m = Inr m' \<Longrightarrow> import_at q m' = (if q = p then with_name name (import_at p m) else import_at q m)"
proof (induction p name m arbitrary: q m' rule: add_import.induct)
  case (1 name m)
  then show ?case by simp
next
  case (2 p name m)
  then show ?case
    by (cases q rule: remdups_adj.cases) (auto simp: with_name_def split: option.splits import_binding.splits if_splits)
next
  case (3 p p2 ps name m)
  note prems = 3
  show ?case
  proof (cases "map_of m p")
    case None
    with prems(3) obtain iface' where i: "add_import (p2 # ps) name [] = Inr iface'" "m' = bt_put p (ImportInterface iface') m" by auto
    from prems(1) [OF None i(1)] have IH: "import_at r iface' = (if r = p2 # ps then with_name name None else None)" for r by simp
    show ?thesis using None i(2) by (cases q rule: remdups_adj.cases) (auto simp: IH)
  next
    case (Some b)
    then show ?thesis
    proof (cases b)
      case (ImportInterface iface)
      with Some prems(3) obtain iface' where i: "add_import (p2 # ps) name iface = Inr iface'" "m' = bt_put p (ImportInterface iface') m" by auto
      note IH = prems(2) [OF Some ImportInterface i(1)] 
      show ?thesis using Some ImportInterface i(2) by (cases q rule: remdups_adj.cases) (auto simp: IH)
    qed (use Some prems(3) in simp)
  qed
qed

text \<open>An interface in the table has something below it.\<close>

fun full :: "import_binding \<Rightarrow> bool" where
  "full (ImportLocal names) = True"
| "full (ImportInterface m) = (m \<noteq> [] \<and> (\<forall>e \<in> set m. full (snd e)))"

definition full_table :: "import_table \<Rightarrow> bool" where
  "full_table m = (\<forall>e \<in> set m. full (snd e))"

lemma full_has_path: "full b \<Longrightarrow> b = ImportInterface m \<Longrightarrow> \<exists>q ns. q \<noteq> [] \<and> import_at q m = Some ns"
proof (induction b arbitrary: m rule: full.induct)
  case (2 m')
  then obtain k b es where m: "m = (k, b) # es" by (cases m) auto
  show ?case
  proof (cases b)
    case (ImportLocal ns)
    then have "import_at [k] m = Some ns" using m by simp
    then show ?thesis by blast
  next
    case (ImportInterface m2)
    have "(k, b) \<in> set m'" "full b" using 2(2,3) m by auto
    from 2(1) [OF this(1)] this(2) ImportInterface obtain q ns where q: "q \<noteq> []" "import_at q m2 = Some ns" by fastforce
    then obtain a as where "q = a # as" by (cases q) auto
    with q ImportInterface m have "import_at (k # q) m = Some ns" by simp
    then show ?thesis by blast
  qed
qed simp

lemma set_bt_put: "set (bt_put k v m) \<subseteq> insert (k, v) (set m)"
  by (induction m) auto

lemma bt_put_nonempty [simp]: "bt_put k v m \<noteq> []"
  by (cases m) auto

lemma full_table_put: "full_table m \<Longrightarrow> full b \<Longrightarrow> full_table (bt_put k b m)"
  using set_bt_put [of k b m] by (auto simp: full_table_def)

lemma full_table_get: "full_table m \<Longrightarrow> map_of m k = Some b \<Longrightarrow> full b"
  by (force simp: full_table_def dest: map_of_SomeD)

lemma add_import_full: "full_table m \<Longrightarrow> add_import p name m = Inr m' \<Longrightarrow> full_table m' \<and> m' \<noteq> []"
proof (induction p name m arbitrary: m' rule: add_import.induct)
  case (2 p name m)
  then show ?case by (auto simp: full_table_put split: option.splits import_binding.splits if_splits)
next
  case (3 p p2 ps name m)
  have below: "full_table (bt_put p (ImportInterface i) m)" if "full_table i \<and> i \<noteq> []" for i
    using that 3(3) by (intro full_table_put) (auto simp: full_table_def)
  show ?case
  proof (cases "map_of m p")
    case None
    with 3(4) obtain i where i: "add_import (p2 # ps) name [] = Inr i" "m' = bt_put p (ImportInterface i) m" by auto
    from 3(1) [OF None _ i(1)] below i(2) show ?thesis by (simp add: full_table_def)
  next
    case (Some b)
    then show ?thesis
    proof (cases b)
      case (ImportInterface iface)
      have "full_table iface" using full_table_get [OF 3(3) Some] ImportInterface by (simp add: full_table_def)
      moreover from Some ImportInterface 3(4) obtain i where i: "add_import (p2 # ps) name iface = Inr i"
        "m' = bt_put p (ImportInterface i) m" by auto
      ultimately show ?thesis using 3(2) [OF Some ImportInterface _ i(1)] below by simp
    qed (use Some 3(4) in simp)
  qed
qed simp

lemma import_at_Cons:
  "import_at (p # q) m =
     (case map_of m p of
        None \<Rightarrow> None
      | Some (ImportLocal ns) \<Rightarrow> if q = [] then Some ns else None
      | Some (ImportInterface i) \<Rightarrow> import_at q i)"
  by (cases q) (auto split: option.split import_binding.split)

definition clear_of :: "string list \<Rightarrow> import_table \<Rightarrow> bool" where
  "clear_of p m = (\<forall>q. import_at q m \<noteq> None \<longrightarrow> \<not> strict_prefix q p \<and> \<not> strict_prefix p q)"

text \<open>Adding a name fails exactly where a path would lead through a function, or end at an interface.\<close>

lemma strict_prefix_step: "strict_prefix (a # q) (p # ps) \<longleftrightarrow> a = p \<and> strict_prefix q ps"
  by (auto simp: strict_prefix_def)

lemma clear_of_shift:
  "clear_of (p # ps) m \<longleftrightarrow> (\<forall>q. import_at (p # q) m \<noteq> None \<longrightarrow> \<not> strict_prefix q ps \<and> \<not> strict_prefix ps q)"
proof
  assume "clear_of (p # ps) m"
  then show "\<forall>q. import_at (p # q) m \<noteq> None \<longrightarrow> \<not> strict_prefix q ps \<and> \<not> strict_prefix ps q"
    unfolding clear_of_def by (metis strict_prefix_step)
next
  assume a: "\<forall>q. import_at (p # q) m \<noteq> None \<longrightarrow> \<not> strict_prefix q ps \<and> \<not> strict_prefix ps q"
  show "clear_of (p # ps) m"
    unfolding clear_of_def
  proof (intro allI impI)
    fix q assume q: "import_at q m \<noteq> None"
    then obtain x q' where "q = x # q'" by (cases q) auto
    with a q show "\<not> strict_prefix q (p # ps) \<and> \<not> strict_prefix (p # ps) q"
      by (cases "x = p") (auto simp: strict_prefix_step)
  qed
qed

lemma clear_of_Cons:
  "ps \<noteq> [] \<Longrightarrow> clear_of (p # ps) m \<longleftrightarrow>
    (case map_of m p of None \<Rightarrow> True | Some (ImportLocal _) \<Rightarrow> False | Some (ImportInterface i) \<Rightarrow> clear_of ps i)"
  unfolding clear_of_shift by (auto simp: import_at_Cons clear_of_def strict_prefix_def split: option.splits import_binding.splits)

lemma clear_of_single:
  assumes "full_table m"
  shows "clear_of [p] m \<longleftrightarrow> (case map_of m p of Some (ImportInterface i) \<Rightarrow> False | _ \<Rightarrow> True)"
proof (cases "\<exists>i. map_of m p = Some (ImportInterface i)")
  case True
  then obtain i where i: "map_of m p = Some (ImportInterface i)" by blast
  from full_has_path [OF full_table_get [OF assms i] refl] obtain q ns where "q \<noteq> []" "import_at q i = Some ns" by blast
  with i have "import_at (p # q) m \<noteq> None" "strict_prefix [p] (p # q)" by (simp_all add: import_at_Cons strict_prefix_def)
  with i show ?thesis by (auto simp: clear_of_def)
next
  case False
  then have "clear_of [p] m"
    unfolding clear_of_shift by (auto simp: import_at_Cons strict_prefix_def split: option.splits import_binding.splits if_splits)
  with False show ?thesis by (auto split: option.splits import_binding.splits)
qed

lemma add_import_total:
  "full_table m \<Longrightarrow>
     (if p \<noteq> [] \<and> clear_of p m then \<exists>m'. add_import p name m = Inr m' else \<exists>e. add_import p name m = Inl (Panic e))"
proof (induction p name m rule: add_import.induct)
  case (2 p name m)
  then show ?case by (auto simp: clear_of_single split: option.splits import_binding.splits)
next
  case (3 p p2 ps name m)
  show ?case
  proof (cases "map_of m p")
    case None
    then have "clear_of (p # p2 # ps) m" "clear_of (p2 # ps) []" by (simp_all add: clear_of_Cons) (simp add: clear_of_def)
    with 3(1) [OF None] None show ?thesis by (auto simp: full_table_def)
  next
    case (Some b)
    then show ?thesis
    proof (cases b)
      case (ImportInterface i)
      have "full_table i" using full_table_get [OF 3(3) Some] ImportInterface by (simp add: full_table_def)
      with 3(2) [OF Some ImportInterface] Some ImportInterface show ?thesis
        by (auto simp: clear_of_Cons split: if_splits)
    qed (use Some in \<open>simp add: clear_of_Cons\<close>)
  qed
qed simp

primrec add_bindings :: "(string list \<times> string) list \<Rightarrow> esm_bindgen \<Rightarrow> esm_bindgen rust" where
  "add_bindings [] s = Inr s"
| "add_bindings (b # bs) s = rbind (add_import_binding (fst b) (snd b) s) (add_bindings bs)"

lemma add_bindings_snoc: "add_bindings (bs @ [b]) s = rbind (add_bindings bs s) (add_import_binding (fst b) (snd b))"
proof (induction bs arbitrary: s)
  case Nil
  show ?case by (cases "add_import_binding (fst b) (snd b) s") simp_all
next
  case (Cons a bs)
  then show ?case by (cases "add_import_binding (fst a) (snd a) s") simp_all
qed

definition names_for :: "(string list \<times> string) list \<Rightarrow> string list \<Rightarrow> string list option" where
  "names_for bs q =
     (let ns = map snd (filter (\<lambda>b. fst b = q) bs) in if ns = [] then None else Some (rev (remdups (rev ns))))"

definition separate :: "(string list \<times> string) list \<Rightarrow> bool" where
  "separate bs = (\<forall>p \<in> fst ` set bs. p \<noteq> [] \<and> (\<forall>q \<in> fst ` set bs. \<not> strict_prefix p q))"

lemma names_for_snoc: "names_for (bs @ [(p, n)]) q = (if q = p then with_name n (names_for bs p) else names_for bs q)"
  by (auto simp: names_for_def with_name_def Let_def filter_empty_conv)

lemma names_for_None: "names_for bs q = None \<longleftrightarrow> q \<notin> fst ` set bs"
proof -
  have "filter (\<lambda>b. fst b = q) bs = [] \<longleftrightarrow> q \<notin> fst ` set bs" by (induction bs) auto
  then show ?thesis by (simp add: names_for_def Let_def)
qed

lemma add_bindings_spec:
  "if separate bs
   then \<exists>s. add_bindings bs esm_default = Inr s \<and> full_table (esm_imports s) \<and> (\<forall>q. import_at q (esm_imports s) = names_for bs q)
   else \<exists>e. add_bindings bs esm_default = Inl (Panic e)"
proof (induction bs rule: rev_induct)
  case Nil
  show ?case by (simp add: separate_def esm_default_def full_table_def names_for_def)
next
  case (snoc b bs)
  obtain p n where b: "b = (p, n)" by (cases b)
  show ?case
  proof (cases "separate bs")
    case False
    with snoc have "\<exists>e. add_bindings (bs @ [b]) esm_default = Inl (Panic e)" by (auto simp: add_bindings_snoc)
    moreover have "\<not> separate (bs @ [b])" using False by (auto simp: separate_def)
    ultimately show ?thesis by simp
  next
    case True
    with snoc obtain s where s: "add_bindings bs esm_default = Inr s" "full_table (esm_imports s)"
      "\<And>q. import_at q (esm_imports s) = names_for bs q" by auto
    have sep: "separate (bs @ [b]) \<longleftrightarrow> p \<noteq> [] \<and> clear_of p (esm_imports s)"
      using True by (auto simp: separate_def clear_of_def s(3) names_for_None b)
    show ?thesis
    proof (cases "separate (bs @ [b])")
      case True
      with sep add_import_total [OF s(2), of p n] obtain m where m: "add_import p n (esm_imports s) = Inr m" by auto
      with add_import_full [OF s(2) m] add_import_at [OF m] s True show ?thesis
        by (simp add: add_bindings_snoc add_import_binding_def b names_for_snoc)
    next
      case False
      with sep add_import_total [OF s(2), of p n] obtain e where "add_import p n (esm_imports s) = Inl (Panic e)" by (auto split: if_splits)
      with s(1) False show ?thesis by (simp add: add_bindings_snoc add_import_binding_def b)
    qed
  qed
qed

section \<open>Aliases\<close>

lemma populate_aliases_spec:
  assumes "sorted_wrt (<) (ds @ names)" "set (ds @ names) = fst ` set exps"
    and "\<forall>k \<in> set ds. \<exists>a. alias_of camel k = Inr a"
    and "\<forall>al n. map_of aliases al = Some n \<longleftrightarrow>
           map_of exps al = None \<and> n \<in> set ds \<and> alias_of camel n = Inr (Some al) \<and>
           (\<forall>k \<in> set ds. alias_of camel k = Inr (Some al) \<longrightarrow> n \<le> k)"
  shows "if \<forall>k \<in> fst ` set exps. \<exists>a. alias_of camel k = Inr a
    then \<exists>aliases'. populate_aliases camel exps names aliases = Inr aliases' \<and>
      (\<forall>al n. map_of aliases' al = Some n \<longleftrightarrow>
         map_of exps al = None \<and> n \<in> fst ` set exps \<and> alias_of camel n = Inr (Some al) \<and>
         (\<forall>k \<in> fst ` set exps. alias_of camel k = Inr (Some al) \<longrightarrow> n \<le> k))
    else \<exists>e. populate_aliases camel exps names aliases = Inl e"
  using assms
proof (induction names arbitrary: ds aliases)
  case Nil
  then show ?case by simp
next
  case (Cons name names)
  have le: "\<forall>k \<in> set ds. k < name" using Cons.prems(1) by (auto simp: sorted_wrt_append)
  show ?case
  proof (cases "alias_of camel name")
    case (Inl e)
    have m: "name \<in> fst ` set exps" unfolding Cons.prems(2) [symmetric] by simp
    have "\<not> (\<forall>k \<in> fst ` set exps. \<exists>a. alias_of camel k = Inr a)"
    proof
      assume "\<forall>k \<in> fst ` set exps. \<exists>a. alias_of camel k = Inr a"
      from bspec [OF this m] Inl show False by simp
    qed
    moreover have "\<exists>e. populate_aliases camel exps (name # names) aliases = Inl e" using Inl by simp
    ultimately show ?thesis by (simp only: if_False)
  next
    case (Inr a)
    define aliases1 where "aliases1 = (case a of None \<Rightarrow> aliases
      | Some alias \<Rightarrow> if map_of exps alias = None \<and> map_of aliases alias = None then bt_put alias name aliases else aliases)"
    have step: "populate_aliases camel exps (name # names) aliases = populate_aliases camel exps names aliases1"
      using Inr by (simp add: aliases1_def)
    have inv: "\<forall>al n. map_of aliases1 al = Some n \<longleftrightarrow>
        map_of exps al = None \<and> n \<in> set (ds @ [name]) \<and> alias_of camel n = Inr (Some al) \<and>
        (\<forall>k \<in> set (ds @ [name]). alias_of camel k = Inr (Some al) \<longrightarrow> n \<le> k)"
    proof (intro allI)
      fix al n
      let ?old = "map_of exps al = None \<and> n \<in> set ds \<and> alias_of camel n = Inr (Some al) \<and>
           (\<forall>k \<in> set ds. alias_of camel k = Inr (Some al) \<longrightarrow> n \<le> k)"
      have old: "map_of aliases al = Some n \<longleftrightarrow> ?old" using Cons.prems(4) by blast
      show "map_of aliases1 al = Some n \<longleftrightarrow>
        map_of exps al = None \<and> n \<in> set (ds @ [name]) \<and> alias_of camel n = Inr (Some al) \<and>
        (\<forall>k \<in> set (ds @ [name]). alias_of camel k = Inr (Some al) \<longrightarrow> n \<le> k)"
      proof (cases "a = Some al")
        case False
        then have "map_of aliases1 al = map_of aliases al" by (auto simp: aliases1_def split: option.splits)
        moreover have "alias_of camel name \<noteq> Inr (Some al)" using Inr False by simp
        ultimately show ?thesis using old by auto
      next
        case True
        note a = this
        have none: "map_of aliases al = None \<longleftrightarrow> \<not> (map_of exps al = None \<and> (\<exists>k \<in> set ds. alias_of camel k = Inr (Some al)))"
        proof -
          have "\<exists>m \<in> set ds. alias_of camel m = Inr (Some al) \<and> (\<forall>k \<in> set ds. alias_of camel k = Inr (Some al) \<longrightarrow> m \<le> k)"
            if "k \<in> set ds" "alias_of camel k = Inr (Some al)" for k
          proof -
            let ?S = "{k \<in> set ds. alias_of camel k = Inr (Some al)}"
            have "finite ?S" "?S \<noteq> {}" using that by auto
            from Min_in [OF this] Min_le [OF this(1)] show ?thesis by (intro bexI [of _ "Min ?S"]) auto
          qed
          then show ?thesis using Cons.prems(4) by (metis not_None_eq)
        qed
        show ?thesis
        proof (cases "map_of exps al = None \<and> map_of aliases al = None")
          case True
          then have "map_of aliases1 al = Some name" by (simp add: aliases1_def a)
          moreover have "\<not> (\<exists>k \<in> set ds. alias_of camel k = Inr (Some al))" using True none by blast
          ultimately show ?thesis using True Inr a by auto
        next
          case False
          then have "map_of aliases1 al = map_of aliases al" by (auto simp: aliases1_def a)
          then show ?thesis using old none False Inr a le by (auto dest: less_imp_le simp: not_le [symmetric])
        qed
      qed
    qed
    have "sorted_wrt (<) ((ds @ [name]) @ names)" "set ((ds @ [name]) @ names) = fst ` set exps"
      "\<forall>k \<in> set (ds @ [name]). \<exists>a. alias_of camel k = Inr a"
      using Cons.prems(1-3) Inr by auto
    from Cons.IH [OF this inv] show ?thesis unfolding step .
  qed
qed

section \<open>Rendering does not fail\<close>

text \<open>What the transpiler does to the tables before they are rendered.\<close>

datatype esm_op = AddImport "string list" string | AddExport "string option" string string string

primrec esm_run :: "(string \<Rightarrow> string) \<Rightarrow> esm_op list \<Rightarrow> esm_bindgen \<Rightarrow> esm_bindgen rust" where
  "esm_run camel [] s = Inr s"
| "esm_run camel (x # xs) s =
     rbind (case x of
              AddImport path name \<Rightarrow> add_import_binding path name s
            | AddExport iface local_name func wasm \<Rightarrow> add_export_binding camel iface local_name func wasm s)
       (esm_run camel xs)"

fun named :: "import_binding \<Rightarrow> bool" where
  "named (ImportLocal names) = (names \<noteq> [])"
| "named (ImportInterface m) = (\<forall>e \<in> set m. named (snd e))"

definition is_export_local :: "export_binding \<Rightarrow> bool" where
  "is_export_local b = (case b of ExportLocal _ _ \<Rightarrow> True | ExportInterface _ \<Rightarrow> False)"

definition flat_export :: "export_binding \<Rightarrow> bool" where
  "flat_export b = (case b of ExportLocal _ _ \<Rightarrow> True | ExportInterface m \<Rightarrow> \<forall>e \<in> set m. is_export_local (snd e))"

definition esm_ok :: "esm_bindgen \<Rightarrow> bool" where
  "esm_ok s \<longleftrightarrow> (\<forall>e \<in> set (esm_imports s). named (snd e)) \<and> (\<forall>e \<in> set (esm_exports s). flat_export (snd e)) \<and>
     bt_ok (esm_exports s) \<and> esm_aliases s = []"

lemma named_get: "\<forall>e \<in> set m. named (snd e) \<Longrightarrow> map_of m k = Some b \<Longrightarrow> named b"
  by (force dest: map_of_SomeD)

lemma named_put: "\<forall>e \<in> set m. named (snd e) \<Longrightarrow> named b \<Longrightarrow> \<forall>e \<in> set (bt_put k b m). named (snd e)"
  using set_bt_put [of k b m] by auto

lemma add_import_named:
  "\<forall>e \<in> set m. named (snd e) \<Longrightarrow> add_import p name m = Inr m' \<Longrightarrow> \<forall>e \<in> set m'. named (snd e)"
proof (induction p name m arbitrary: m' rule: add_import.induct)
  case (2 p name m)
  then have "m' = m \<or> (\<exists>ns. ns \<noteq> [] \<and> m' = bt_put p (ImportLocal ns) m)"
    by (auto split: option.splits import_binding.splits if_splits)
  then show ?case using 2(1) named_put [OF 2(1), of "ImportLocal _"] by auto
next
  case (3 p p2 ps name m)
  show ?case
  proof (cases "map_of m p")
    case None
    with 3(4) obtain i where i: "add_import (p2 # ps) name [] = Inr i" "m' = bt_put p (ImportInterface i) m" by auto
    show ?thesis unfolding i(2) by (rule named_put [OF 3(3)]) (use 3(1) [OF None _ i(1)] in simp)
  next
    case (Some b)
    then show ?thesis
    proof (cases b)
      case (ImportInterface iface)
      with Some 3(4) obtain i where i: "add_import (p2 # ps) name iface = Inr i" "m' = bt_put p (ImportInterface i) m" by auto
      have "\<forall>e \<in> set iface. named (snd e)" using named_get [OF 3(3) Some] ImportInterface by simp
      from 3(2) [OF Some ImportInterface this i(1)] show ?thesis unfolding i(2) by (intro named_put [OF 3(3)]) simp
    qed (use Some 3(4) in simp)
  qed
qed simp

lemma flat_put: "\<forall>e \<in> set m. flat_export (snd e) \<Longrightarrow> flat_export b \<Longrightarrow> \<forall>e \<in> set (bt_put k b m). flat_export (snd e)"
  using set_bt_put [of k b m] by auto

lemma add_export_ok:
  assumes "esm_ok s" "add_export_binding camel iface l f w s = Inr s'"
  shows "esm_ok s'"
proof (cases iface)
  case None
  with assms(2) have "s' = s\<lparr>esm_exports := bt_put f (ExportLocal l w) (esm_exports s)\<rparr>" by (simp add: add_export_binding_def)
  moreover have "flat_export (ExportLocal l w)" by (simp add: flat_export_def)
  ultimately show ?thesis using assms(1) flat_put [of "esm_exports s" "ExportLocal l w" f] by (simp add: esm_ok_def)
next
  case (Some i)
  define key where "key = (if CHR '':'' \<in> set i then i else camel i)"
  have "flat_export b" if "map_of (esm_exports s) key = Some b" for b
    using assms(1) map_of_SomeD [OF that] by (auto simp: esm_ok_def)
  then have below: "flat_export (ExportInterface (bt_put f (ExportLocal l w) m))"
    if "map_of (esm_exports s) key = Some (ExportInterface m)" for m
    using that set_bt_put [of f "ExportLocal l w" m] by (auto simp: flat_export_def is_export_local_def)
  have new: "flat_export (ExportInterface [(f, ExportLocal l w)])" by (simp add: flat_export_def is_export_local_def)
  show ?thesis
  proof (cases "map_of (esm_exports s) key")
    case None
    with assms Some have "s' = s\<lparr>esm_exports := bt_put key (ExportInterface [(f, ExportLocal l w)]) (esm_exports s)\<rparr>"
      by (simp add: add_export_binding_def key_def Let_def)
    then show ?thesis using assms(1) flat_put [OF _ new, of "esm_exports s" key] by (simp add: esm_ok_def)
  next
    case (Some b)
    with assms \<open>iface = Some i\<close> obtain m where m: "b = ExportInterface m"
      "s' = s\<lparr>esm_exports := bt_put key (ExportInterface (bt_put f (ExportLocal l w) m)) (esm_exports s)\<rparr>"
      by (cases b) (simp_all add: add_export_binding_def key_def Let_def)
    then show ?thesis using assms(1) flat_put [OF _ below [OF Some [unfolded m(1)]], of "esm_exports s" key] by (simp add: esm_ok_def)
  qed
qed

lemma esm_run_ok: "esm_ok s \<Longrightarrow> esm_run camel xs s = Inr s' \<Longrightarrow> esm_ok s'"
proof (induction xs arbitrary: s)
  case (Cons x xs)
  show ?case
  proof (cases x)
    case (AddImport p n)
    with Cons.prems(2) obtain m where m: "add_import p n (esm_imports s) = Inr m"
      "esm_run camel xs (s\<lparr>esm_imports := m\<rparr>) = Inr s'" by (auto simp: add_import_binding_def)
    have "esm_ok (s\<lparr>esm_imports := m\<rparr>)" using Cons.prems(1) add_import_named [OF _ m(1)] by (simp add: esm_ok_def)
    from Cons.IH [OF this m(2)] show ?thesis .
  next
    case (AddExport i l f w)
    with Cons.prems(2) obtain s1 where "add_export_binding camel i l f w s = Inr s1" "esm_run camel xs s1 = Inr s'" by auto
    with Cons add_export_ok show ?thesis by blast
  qed
qed simp

lemma get_or_create_ok:
  "\<exists>n b ln'. get_or_create camel h goal ln = Inr ((n, b), ln') \<and> map_of (local_name_ids ln') h = Some n \<and>
     (\<forall>h' v. map_of (local_name_ids ln) h' = Some v \<longrightarrow> map_of (local_name_ids ln') h' = Some v)"
proof (cases "map_of (local_name_ids ln) h")
  case None
  obtain g s' where "create_once camel goal ln = Inr (g, s')" "local_name_ids s' = local_name_ids ln" using create_once_spec by blast
  with None show ?thesis by (auto simp: get_or_create_def)
qed (auto simp: get_or_create_def)

lemma render_members_ok: "\<forall>e \<in> set m. is_export_local (snd e) \<Longrightarrow> \<exists>ws. render_members m = Inr ws"
  by (induction m) (auto simp: is_export_local_def split: export_binding.splits)

lemma render_interfaces_ok:
  "\<forall>e \<in> set es. flat_export (snd e) \<Longrightarrow>
     \<exists>ws ln'. render_interfaces camel hash es ln = Inr (ws, ln') \<and>
       (\<forall>h v. map_of (local_name_ids ln) h = Some v \<longrightarrow> map_of (local_name_ids ln') h = Some v) \<and>
       (\<forall>e \<in> set es. \<not> is_export_local (snd e) \<longrightarrow> map_of (local_name_ids ln') (hash (''export:'' @ fst e)) \<noteq> None)"
proof (induction es arbitrary: ln)
  case (Cons e es)
  show ?case
  proof (cases "snd e")
    case (ExportLocal l w)
    with Cons show ?thesis by (simp add: is_export_local_def)
  next
    case (ExportInterface m)
    obtain n b ln1 where g: "get_or_create camel (hash (''export:'' @ fst e)) (fst e) ln = Inr ((n, b), ln1)"
      "map_of (local_name_ids ln1) (hash (''export:'' @ fst e)) = Some n"
      "\<And>h v. map_of (local_name_ids ln) h = Some v \<Longrightarrow> map_of (local_name_ids ln1) h = Some v"
      using get_or_create_ok [of camel "hash (''export:'' @ fst e)" "fst e" ln] by blast
    from Cons.prems ExportInterface render_members_ok [of m] obtain ws where ws: "render_members m = Inr ws"
      by (auto simp: flat_export_def)
    have "\<forall>e \<in> set es. flat_export (snd e)" using Cons.prems by simp
    from Cons.IH [OF this, of ln1] obtain ws' ln' where i: "render_interfaces camel hash es ln1 = Inr (ws', ln')"
      "\<And>h v. map_of (local_name_ids ln1) h = Some v \<Longrightarrow> map_of (local_name_ids ln') h = Some v"
      "\<And>e. e \<in> set es \<Longrightarrow> \<not> is_export_local (snd e) \<Longrightarrow> map_of (local_name_ids ln') (hash (''export:'' @ fst e)) \<noteq> None" by blast
    show ?thesis using ExportInterface g(1) ws i(1) i(2) [OF g(2)] i(2) [OF g(3)] i(3) by auto
  qed
qed simp

lemma render_items_ok:
  assumes "\<forall>(shown, name, b) \<in> set its. is_export_local b \<or> map_of (local_name_ids ln) (hash (''export:'' @ name)) \<noteq> None"
  shows "\<exists>ws. render_items hash inst no_ns ln its = Inr ws"
  using assms
proof (induction its)
  case (Cons i its)
  obtain shown name b where i: "i = (shown, name, b)" by (cases i)
  have "\<exists>l. export_local hash ln name b = Inr l"
    using Cons.prems i by (cases b) (auto simp: export_local_def is_export_local_def local_names_get_def)
  with Cons i show ?case by auto
qed simp

lemma alias_items_ok:
  "\<forall>a \<in> set as. map_of exps (snd a) \<noteq> None \<Longrightarrow>
     \<exists>its. alias_items exps as = Inr its \<and> (\<forall>(shown, name, b) \<in> set its. map_of exps name = Some b)"
  by (induction as) auto

lemma render_exports_ok:
  assumes "\<forall>e \<in> set (esm_exports s). flat_export (snd e)" "bt_ok (esm_exports s)"
    and "\<forall>a \<in> set (esm_aliases s). map_of (esm_exports s) (snd a) \<noteq> None"
  shows "\<exists>ws ln'. render_exports camel hash inst no_ns s ln = Inr (ws, ln')"
proof -
  from render_interfaces_ok [OF assms(1), of camel hash ln] obtain ifs ln1 where i: "render_interfaces camel hash (esm_exports s) ln = Inr (ifs, ln1)"
    "\<And>e. e \<in> set (esm_exports s) \<Longrightarrow> \<not> is_export_local (snd e) \<Longrightarrow> map_of (local_name_ids ln1) (hash (''export:'' @ fst e)) \<noteq> None"
    by blast
  from alias_items_ok [OF assms(3)] obtain its where a: "alias_items (esm_exports s) (esm_aliases s) = Inr its"
    "\<forall>(shown, name, b) \<in> set its. map_of (esm_exports s) name = Some b" by blast
  have ok: "is_export_local b \<or> map_of (local_name_ids ln1) (hash (''export:'' @ name)) \<noteq> None"
    if "map_of (esm_exports s) name = Some b" for name b
    using i(2) [of "(name, b)"] map_of_SomeD [OF that] by auto
  have "\<forall>(shown, name, b) \<in> set its. is_export_local b \<or> map_of (local_name_ids ln1) (hash (''export:'' @ name)) \<noteq> None"
    using a(2) ok by blast
  from render_items_ok [OF this] obtain w1 where w1: "render_items hash inst no_ns ln1 its = Inr w1" by blast
  have "\<forall>(shown, name, b) \<in> set (map (\<lambda>(n, b). (n, n, b)) (esm_exports s)).
      is_export_local b \<or> map_of (local_name_ids ln1) (hash (''export:'' @ name)) \<noteq> None"
    using ok bt_ok_mem [OF assms(2)] by fastforce
  from render_items_ok [OF this] obtain w2 where
    w2: "render_items hash inst no_ns ln1 (map (\<lambda>(n, b). (n, n, b)) (esm_exports s)) = Inr w2" by blast
  show ?thesis using i(1) a(1) w1 w2 by (simp add: render_exports_def)
qed

lemma render_bindings_ok: "\<exists>r. render_bindings camel hash as_object spec bs first ln = Inr r"
proof (induction bs arbitrary: first ln)
  case (Cons b bs)
  show ?case
  proof (cases "snd b")
    case (ImportInterface m)
    obtain n x ln1 where g: "get_or_create camel (hash (''import:'' @ spec @ ''#'' @ fst b)) (fst b) ln = Inr ((n, x), ln1)"
      using get_or_create_ok [of camel "hash (''import:'' @ spec @ ''#'' @ fst b)" "fst b" ln] by blast
    from Cons [of False ln1] obtain r where "render_bindings camel hash as_object spec bs False ln1 = Inr r" by blast
    with ImportInterface g show ?thesis by (cases r) simp
  next
    case (ImportLocal names)
    from Cons [of "first \<and> names = []" ln] obtain r where
      "render_bindings camel hash as_object spec bs (first \<and> names = []) ln = Inr r" by blast
    with ImportLocal show ?thesis by (cases r) simp
  qed
qed simp

lemma first_name_ok: "names \<noteq> [] \<Longrightarrow> first_name names = Inr (hd names)"
  by (cases names) (simp_all add: first_name_def)

lemma render_specifier_ok:
  assumes "named (snd sb)" "idl_binding (fst sb) = Inr idl"
  shows "\<exists>r. render_specifier camel hash obj sb ln = Inr r"
proof (cases "snd sb")
  case (ImportLocal names)
  with assms show ?thesis by (simp add: render_specifier_def first_name_ok Let_def)
next
  case (ImportInterface bs)
  obtain l ln1 where c: "create_once camel (fst sb) ln = Inr (l, ln1)" using create_once_spec by blast
  have one: "\<exists>r. (case snd (hd bs) of
        ImportInterface iface \<Rightarrow> rbind (create_once camel (fst sb) ln) (\<lambda>(l, ln1). Inr (k1 l, k2 l iface, ln1))
      | ImportLocal names \<Rightarrow> rbind (first_name names) (\<lambda>l. Inr (k3 l names, [], ln))) = Inr r" if "length bs = 1" for k1 k2 k3
  proof (cases "snd (hd bs)")
    case (ImportLocal names)
    have "named (snd (hd bs))" using assms(1) ImportInterface that by (cases bs) auto
    with ImportLocal show ?thesis by (simp add: first_name_ok)
  qed (use c in simp)
  from render_bindings_ok obtain r where r: "render_bindings camel hash (obj \<noteq> None \<or> idl \<noteq> None) (fst sb) bs True ln = Inr r" by blast
  show ?thesis
  proof (cases "\<not> (obj \<noteq> None \<or> idl \<noteq> None) \<and> length bs = 1 \<and> fst (hd bs) = ''default''")
    case True
    then show ?thesis using ImportInterface assms(2) one by (simp add: render_specifier_def Let_def)
  next
    case False
    then show ?thesis using ImportInterface assms(2) r by (cases r) (simp add: render_specifier_def Let_def del: de_Morgan_conj)
  qed
qed

lemma render_imports_ok:
  assumes "\<forall>e \<in> set (esm_imports s). named (snd e) \<and> (\<exists>i. idl_binding (fst e) = Inr i)"
  shows "\<exists>ws ln'. render_imports camel hash obj s ln = Inr (ws, ln')"
proof -
  have "\<exists>r. render_specifiers camel hash obj m ln = Inr r"
    if "\<forall>e \<in> set m. named (snd e) \<and> (\<exists>i. idl_binding (fst e) = Inr i)" for m
    using that
  proof (induction m arbitrary: ln)
    case (Cons e m)
    then obtain i where "named (snd e)" "idl_binding (fst e) = Inr i" by auto
    from render_specifier_ok [OF this] obtain ws ifs ln1 where "render_specifier camel hash obj e ln = Inr (ws, ifs, ln1)" by (metis prod_cases3)
    moreover from Cons.IH [of ln1] Cons.prems obtain r where "render_specifiers camel hash obj m ln1 = Inr r" by auto
    ultimately show ?case by (cases r) simp
  qed simp
  from this [OF assms] obtain ws ifs ln' where "render_specifiers camel hash obj (esm_imports s) ln = Inr (ws, ifs, ln')" by (metis prod_cases3)
  then show ?thesis by (simp add: render_imports_def)
qed

lemma populate_aliases_bt_ok: "populate_aliases camel exps names aliases = Inr r \<Longrightarrow> bt_ok aliases \<Longrightarrow> bt_ok r"
proof (induction names arbitrary: aliases)
  case (Cons n ns)
  then obtain a where a: "alias_of camel n = Inr a" by auto
  with Cons show ?case by (cases a) (auto split: if_splits)
qed simp

lemma export_aliases_lookup:
  assumes "bt_ok (esm_exports s)" "esm_aliases s = []" "populate_export_aliases camel s = Inr s'" "map_of (esm_aliases s') al = Some n"
  shows "n \<in> fst ` set (esm_exports s)"
proof -
  have "sorted_wrt (<) ([] @ map fst (esm_exports s))" "set ([] @ map fst (esm_exports s)) = fst ` set (esm_exports s)"
    using assms(1) by (simp_all add: bt_ok_def)
  from populate_aliases_spec [OF this, of camel "[]"] assms(2-4) show ?thesis
    by (auto simp: populate_export_aliases_def split: if_splits)
qed

section \<open>Properties\<close>

text \<open>C23. The import table as a map from paths to names: a run of additions succeeds exactly if no path is empty
  or leads on from another path, whatever the order; then each path has the names added for it, each once, in the
  order of their first addition. In every other case the generator panics.\<close>

theorem import_table_holds:
  "if separate bs
   then \<exists>s. add_bindings bs esm_default = Inr s \<and> (\<forall>q. import_at q (esm_imports s) = names_for bs q)
   else \<exists>m. add_bindings bs esm_default = Inl (Panic m)"
  using add_bindings_spec [of bs] by auto

text \<open>C24. The aliases of exported interfaces: every exported interface \<open>ns:pkg/name@version\<close> whose name in camel
  case is not itself exported has this alias, unless an interface that comes before it in the order of the
  names has the same one; so of two versions or two packages the first in this order gets the alias. The only
  failure is a version sign before the last slash.\<close>

theorem export_aliases_first:
  assumes "bt_ok (esm_exports s)" "esm_aliases s = []"
  shows "if \<forall>k \<in> fst ` set (esm_exports s). \<exists>a. alias_of camel k = Inr a
    then \<exists>s'. populate_export_aliases camel s = Inr s' \<and> esm_exports s' = esm_exports s \<and>
      (\<forall>al n. map_of (esm_aliases s') al = Some n \<longleftrightarrow>
         map_of (esm_exports s) al = None \<and> n \<in> fst ` set (esm_exports s) \<and> alias_of camel n = Inr (Some al) \<and>
         (\<forall>k \<in> fst ` set (esm_exports s). alias_of camel k = Inr (Some al) \<longrightarrow> n \<le> k))
    else \<exists>e. populate_export_aliases camel s = Inl e"
proof -
  have "sorted_wrt (<) ([] @ map fst (esm_exports s))" "set ([] @ map fst (esm_exports s)) = fst ` set (esm_exports s)"
    using assms(1) by (simp_all add: bt_ok_def)
  from populate_aliases_spec [OF this, of camel "[]"] show ?thesis
    by (auto simp: populate_export_aliases_def assms(2) split: if_splits)
qed

text \<open>C31. The order of exports matters: a function exported under the name of an exported interface replaces the
  interface without a trace, while an interface exported under the name of an exported function panics.\<close>

theorem export_collision_by_order:
  assumes "camel name = name" "add_export_binding camel (Some name) l f w s = Inr s1"
    "add_export_binding camel None l' name w' s = Inr s2"
  shows "(\<exists>s3. add_export_binding camel None l' name w' s1 = Inr s3 \<and> map_of (esm_exports s3) name = Some (ExportLocal l' w')) \<and>
    (\<exists>m. add_export_binding camel (Some name) l f w s2 = Inl (Panic m))"
proof -
  have "esm_exports s2 = bt_put name (ExportLocal l' w') (esm_exports s)" using assms(3) by (auto simp: add_export_binding_def)
  with assms(1) show ?thesis by (simp add: add_export_binding_def)
qed

text \<open>Rendering does not fail: after any run of additions that succeeds, and the aliases, both the import and
  the export statements are rendered, whatever names are taken, provided that specifiers of the Web IDL kind
  have the form \<open>webidl:ns/name\<close>.\<close>

theorem module_rendered:
  assumes "esm_run camel xs esm_default = Inr s" "populate_export_aliases camel s = Inr s'"
    and "\<forall>k \<in> set (import_specifiers s'). \<exists>i. idl_binding k = Inr i"
  shows "(\<exists>ws ln'. render_imports camel hash obj s' ln = Inr (ws, ln')) \<and>
    (\<exists>ws ln'. render_exports camel hash inst no_ns s' ln = Inr (ws, ln'))"
proof -
  have ok: "esm_ok s" using esm_run_ok [OF _ assms(1)] by (simp add: esm_ok_def esm_default_def bt_ok_def)
  have e: "esm_imports s' = esm_imports s" "esm_exports s' = esm_exports s"
    using assms(2) by (auto simp: populate_export_aliases_def)
  have al: "map_of (esm_exports s) n \<noteq> None" if "map_of (esm_aliases s') a = Some n" for a n
    using export_aliases_lookup [OF _ _ assms(2) that] ok by (auto simp: esm_ok_def map_of_eq_None_iff)
  have "bt_ok (esm_aliases s')" using populate_aliases_bt_ok ok assms(2) by (auto simp: populate_export_aliases_def esm_ok_def bt_ok_def)
  then have al': "\<forall>a \<in> set (esm_aliases s'). map_of (esm_exports s') (snd a) \<noteq> None"
    using al bt_ok_mem e(2) by (metis prod.collapse)
  have "\<forall>b \<in> set (esm_imports s'). named (snd b) \<and> (\<exists>i. idl_binding (fst b) = Inr i)"
    using ok assms(3) e(1) by (auto simp: esm_ok_def import_specifiers_def)
  from render_imports_ok [OF this] render_exports_ok [of s'] ok al' e show ?thesis by (auto simp: esm_ok_def)
qed

section \<open>Witnesses\<close>

text \<open>Two packages export an interface \<open>foo\<close>, and there are imports of two levels.\<close>

definition demo_ops :: "esm_op list" where
  "demo_ops = [AddExport (Some ''c:d/foo'') ''f1'' ''run'' ''run'', AddExport (Some ''a:b/foo@1'') ''f2'' ''run'' ''run'',
     AddImport [''wasi:io/error'', ''Error''] ''Error$1'', AddImport [''shim'', ''types'', ''D''] ''D'']"

definition demo_esm :: esm_bindgen where
  "demo_esm = \<lparr>
     esm_imports = [(''shim'', ImportInterface [(''types'', ImportInterface [(''D'', ImportLocal [''D''])])]),
       (''wasi:io/error'', ImportInterface [(''Error'', ImportLocal [''Error$1''])])],
     esm_exports = [(''a:b/foo@1'', ExportInterface [(''run'', ExportLocal ''f2'' ''run'')]),
       (''c:d/foo'', ExportInterface [(''run'', ExportLocal ''f1'' ''run'')])],
     esm_aliases = []\<rparr>"

lemma demo_esm_run: "esm_run id demo_ops esm_default = Inr demo_esm"
  by code_simp

lemma demo_aliases:
  "alias_of id ''a:b/foo@1'' = Inr (Some ''foo'')" "alias_of id ''c:d/foo'' = Inr (Some ''foo'')"
  "(''a:b/foo@1'' :: string) \<le> ''c:d/foo''"
  by code_simp+

lemma demo_populated: "populate_export_aliases id demo_esm = Inr (demo_esm\<lparr>esm_aliases := [(''foo'', ''a:b/foo@1'')]\<rparr>)"
  by code_simp

theorem export_aliases_first_witness:
  "\<exists>s'. populate_export_aliases id demo_esm = Inr s' \<and> map_of (esm_aliases s') ''foo'' = Some ''a:b/foo@1''"
proof -
  have "bt_ok (esm_exports demo_esm)" unfolding bt_ok_def demo_esm_def by code_simp
  moreover have "esm_aliases demo_esm = []" by (simp add: demo_esm_def)
  moreover have k: "fst ` set (esm_exports demo_esm) = {''a:b/foo@1'', ''c:d/foo''}" by (simp add: demo_esm_def)
  ultimately obtain s' where s': "populate_export_aliases id demo_esm = Inr s'"
    "\<And>al n. map_of (esm_aliases s') al = Some n \<longleftrightarrow>
         map_of (esm_exports demo_esm) al = None \<and> n \<in> {''a:b/foo@1'', ''c:d/foo''} \<and> alias_of id n = Inr (Some al) \<and>
         (\<forall>k \<in> {''a:b/foo@1'', ''c:d/foo''}. alias_of id k = Inr (Some al) \<longrightarrow> n \<le> k)"
    using export_aliases_first [of demo_esm id] demo_aliases by auto
  have "map_of (esm_exports demo_esm) ''foo'' = None" by (simp add: demo_esm_def)
  with s'(2) [of "''foo''" "''a:b/foo@1''"] demo_aliases have "map_of (esm_aliases s') ''foo'' = Some ''a:b/foo@1''" by simp
  with s'(1) show ?thesis by blast
qed

theorem module_rendered_witness:
  "\<exists>s'. populate_export_aliases id demo_esm = Inr s' \<and>
     (\<exists>ws ln'. render_imports id length None s' local_names_default = Inr (ws, ln')) \<and>
     (\<exists>ws ln'. render_exports id length False False s' local_names_default = Inr (ws, ln'))"
proof -
  obtain s' where s': "populate_export_aliases id demo_esm = Inr s'" using demo_populated by blast
  then have "esm_imports s' = esm_imports demo_esm" by (auto simp: populate_export_aliases_def)
  then have "\<forall>k \<in> set (import_specifiers s'). \<exists>i. idl_binding k = Inr i"
    by (simp add: import_specifiers_def demo_esm_def idl_binding_def has_prefix_def)
  from module_rendered [OF demo_esm_run s' this] s' show ?thesis by blast
qed

theorem export_collision_by_order_witness:
  "(\<exists>s3. add_export_binding id None ''g'' ''foo'' ''foo'' (demo_esm\<lparr>esm_exports := [(''foo'', ExportInterface [(''run'', ExportLocal ''f'' ''run'')])]\<rparr>)
       = Inr s3 \<and> map_of (esm_exports s3) ''foo'' = Some (ExportLocal ''g'' ''foo'')) \<and>
   (\<exists>m. add_export_binding id (Some ''foo'') ''f'' ''run'' ''run'' (demo_esm\<lparr>esm_exports := [(''foo'', ExportLocal ''g'' ''foo'')]\<rparr>) = Inl (Panic m))"
proof -
  let ?s = "demo_esm\<lparr>esm_exports := []\<rparr>"
  have a: "add_export_binding id (Some ''foo'') ''f'' ''run'' ''run'' ?s =
      Inr (demo_esm\<lparr>esm_exports := [(''foo'', ExportInterface [(''run'', ExportLocal ''f'' ''run'')])]\<rparr>)"
    "add_export_binding id None ''g'' ''foo'' ''foo'' ?s = Inr (demo_esm\<lparr>esm_exports := [(''foo'', ExportLocal ''g'' ''foo'')]\<rparr>)"
    by (simp_all add: add_export_binding_def)
  show ?thesis by (rule export_collision_by_order [OF _ a]) simp
qed

text \<open>What is written for a small module.\<close>

lemma demo_import_text:
  "map_sum id (\<lambda>r. concat (concat (fst r)))
     (render_imports id length None (demo_esm\<lparr>esm_imports := tl (esm_imports demo_esm)\<rparr>) local_names_default)
   = Inr (''import { Error as Error$1 } from '' @ [CHR 0x27] @ ''wasi:io/error'' @ [CHR 0x27] @ '';'' @ [NL])"
  by code_simp

end
