(* ===== verification/Subtask.thy ===== *)
theory Subtask
  imports Waitables
begin

text \<open>
  The class \<open>AsyncSubtask\<close> of the emitted runtime
  (\<open>src/crates/js-component-bindgen/src/intrinsics/p3/async_task.rs\<close>) and the intrinsic
  \<open>subtaskDrop\<close>.

  Functions the subtask was given (the progress function, the handlers, the start function of the
  call metadata, the function that lowers the result) are numbers: what calling number \<open>f\<close> with a
  value gives, or throws, is the parameter \<open>call\<close>, and every call is recorded in \<open>st_calls\<close>. These
  functions are taken not to change the subtask. The lowering of the result happens when the call
  metadata has no return function but a result pointer, a memory and a lower function: then
  \<open>st_lowerFn\<close> is that function.
\<close>

section \<open>State\<close>

datatype subtask_state = STARTING | STARTED | RETURNED | CANCELLED_BEFORE_STARTED | CANCELLED_BEFORE_RETURNED

type_synonym 'v callable = "nat \<Rightarrow> 'v jsv \<Rightarrow> 'v jsv js"

record 'v subtask =
  st_id :: nat
  st_state :: subtask_state
  st_parentTask :: nat
  st_childTask :: "nat option"
  st_dropped :: bool
  st_cancelRequested :: bool
  st_lenders :: "int list option"
  st_waitable :: nat
  st_callbackFn :: "nat option"
  st_postReturnFn :: "nat option"
  st_onProgressFn :: "nat option"
  st_startFn :: "nat option"
  st_lowerFn :: "nat option"
  st_resolved :: bool
  st_onResolveHandlers :: "nat list"
  st_onStartHandlers :: "nat list"
  st_result :: "'v jsv"
  st_resultSet :: bool
  st_isAsync :: bool
  st_calls :: "(nat \<times> 'v jsv) list"

text \<open>The subtask with the subtasks of its parent task and the waitables of its component.\<close>

record 'v sub_state =
  su_sub :: "'v subtask"
  su_siblings :: "nat list"
  su_world :: world

type_synonym ('a, 'v) sop = "('a, 'v sub_state) jsop"

definition subtask_new :: "nat \<Rightarrow> nat \<Rightarrow> nat option \<Rightarrow> nat \<Rightarrow> nat option \<Rightarrow> nat option \<Rightarrow> bool \<Rightarrow> 'v subtask" where
  "subtask_new sid parentTask childTask waitable startFn lowerFn isAsync =
     \<lparr>st_id = sid, st_state = STARTING, st_parentTask = parentTask, st_childTask = childTask, st_dropped = False,
       st_cancelRequested = False, st_lenders = Some [], st_waitable = waitable, st_callbackFn = None,
       st_postReturnFn = None, st_onProgressFn = None, st_startFn = startFn, st_lowerFn = lowerFn, st_resolved = False,
       st_onResolveHandlers = [], st_onStartHandlers = [], st_result = JNull, st_resultSet = False, st_isAsync = isAsync,
       st_calls = []\<rparr>"

definition upd_sub :: "('v subtask \<Rightarrow> 'v subtask) \<Rightarrow> (unit, 'v) sop" where
  "upd_sub f = jassign (\<lambda>s. s\<lparr>su_sub := f (su_sub s)\<rparr>)"

definition call_fn :: "'v callable \<Rightarrow> nat \<Rightarrow> 'v jsv \<Rightarrow> ('v jsv, 'v) sop" where
  "call_fn call f v =
     jbind (upd_sub (\<lambda>st. st\<lparr>st_calls := st_calls st @ [(f, v)]\<rparr>))
       (\<lambda>_ s. (call f v, s))"

definition call_opt :: "'v callable \<Rightarrow> nat option \<Rightarrow> 'v jsv \<Rightarrow> ('v jsv, 'v) sop" where
  "call_opt call f v = (case f of None \<Rightarrow> jret JUndef | Some g \<Rightarrow> call_fn call g v)"

section \<open>Setters\<close>

definition getResult :: "'v subtask \<Rightarrow> 'v jsv js" where
  "getResult st = (if \<not> st_resultSet st then Inl (Err ''subtask result has not been set'') else Inr (st_result st))"

definition setResult :: "'v jsv \<Rightarrow> (unit, 'v) sop" where
  "setResult v =
     jbind (jguard (\<lambda>s. st_resultSet (su_sub s)) (Err ''subtask result has already been set''))
       (\<lambda>_. upd_sub (\<lambda>st. st\<lparr>st_result := v, st_resultSet := True\<rparr>))"

definition setChildTask :: "nat \<Rightarrow> (unit, 'v) sop" where
  "setChildTask t =
     jbind (jguard (\<lambda>s. st_childTask (su_sub s) \<noteq> None) (Err ''child task is already set on subtask''))
       (\<lambda>_. jbind (jguard (\<lambda>s. st_parentTask (su_sub s) = t) (Err ''parent cannot be child''))
         (\<lambda>_. upd_sub (\<lambda>st. st\<lparr>st_childTask := Some t\<rparr>)))"

definition st_setCallbackFn :: "nat option \<Rightarrow> (unit, 'v) sop" where
  "st_setCallbackFn f =
     (case f of None \<Rightarrow> jret ()
      | Some g \<Rightarrow> jbind (jguard (\<lambda>s. st_callbackFn (su_sub s) \<noteq> None) (Err ''callback fn can only be set once''))
          (\<lambda>_. upd_sub (\<lambda>st. st\<lparr>st_callbackFn := Some g\<rparr>)))"

definition st_setPostReturnFn :: "nat option \<Rightarrow> (unit, 'v) sop" where
  "st_setPostReturnFn f =
     (case f of None \<Rightarrow> jret ()
      | Some g \<Rightarrow> jbind (jguard (\<lambda>s. st_postReturnFn (su_sub s) \<noteq> None) (Err ''postReturn fn can only be set once''))
          (\<lambda>_. upd_sub (\<lambda>st. st\<lparr>st_postReturnFn := Some g\<rparr>)))"

definition setOnProgressFn :: "nat \<Rightarrow> (unit, 'v) sop" where
  "setOnProgressFn f =
     jbind (jguard (\<lambda>s. st_onProgressFn (su_sub s) \<noteq> None) (Err ''on progress fn can only be set once''))
       (\<lambda>_. upd_sub (\<lambda>st. st\<lparr>st_onProgressFn := Some f\<rparr>))"

definition st_registerOnStartHandler :: "nat \<Rightarrow> (unit, 'v) sop" where
  "st_registerOnStartHandler f = upd_sub (\<lambda>st. st\<lparr>st_onStartHandlers := st_onStartHandlers st @ [f]\<rparr>)"

definition st_registerOnResolveHandler :: "nat \<Rightarrow> (unit, 'v) sop" where
  "st_registerOnResolveHandler f = upd_sub (\<lambda>st. st\<lparr>st_onResolveHandlers := st_onResolveHandlers st @ [f]\<rparr>)"

section \<open>Lifecycle\<close>

definition isNotStarted :: "'v subtask \<Rightarrow> bool" where
  "isNotStarted st = (st_state st = STARTING)"

definition isReturned :: "'v subtask \<Rightarrow> bool" where
  "isReturned st = (st_state st = RETURNED)"

definition isResolved :: "'v subtask \<Rightarrow> bool" where
  "isResolved st = (st_state st \<noteq> STARTING \<and> st_state st \<noteq> STARTED)"

definition onStart :: "'v callable \<Rightarrow> 'v jsv \<Rightarrow> ('v jsv, 'v) sop" where
  "onStart call args =
     jbind (\<lambda>s. call_opt call (st_onProgressFn (su_sub s)) JUndef s)
       (\<lambda>_. jbind (upd_sub (\<lambda>st. st\<lparr>st_state := STARTED\<rparr>))
         (\<lambda>_ s. call_opt call (st_startFn (su_sub s)) args s))"

text \<open>\<open>addLender\<close> calls \<open>Number.isNumber\<close>, which does not exist.\<close>

definition addLender :: "int \<Rightarrow> (unit, 'v) sop" where
  "addLender handle = jthrow (TypeErr ''Number.isNumber is not a function'')"

definition resolveDelivered :: "(bool, 'v) sop" where
  "resolveDelivered =
     jbind (jguard (\<lambda>s. st_lenders (su_sub s) = None \<and> \<not> isResolved (su_sub s))
              (Err ''invalid subtask state, lenders missing and subtask has not been resolved''))
       (\<lambda>_ s. (Inr (st_lenders (su_sub s) = None), s))"

definition deliverResolve :: "(unit, 'v) sop" where
  "deliverResolve =
     jbind resolveDelivered (\<lambda>d.
       jbind (jguard (\<lambda>s. d \<or> \<not> isResolved (su_sub s))
                (Err ''subtask cannot deliver resolution twice, and the subtask must be resolved''))
         (\<lambda>_. upd_sub (\<lambda>st. st\<lparr>st_lenders := None\<rparr>)))"

definition st_drop :: "(unit, 'v) sop" where
  "st_drop =
     jbind resolveDelivered (\<lambda>d.
       jbind (jguard (\<lambda>_. \<not> d) (Err ''cannot drop subtask before resolve is delivered''))
         (\<lambda>_. jbind (\<lambda>s. (case w_drop (st_waitable (su_sub s)) (su_world s) of (r, wo) \<Rightarrow> (r, s\<lparr>su_world := wo\<rparr>)))
           (\<lambda>_. upd_sub (\<lambda>st. st\<lparr>st_dropped := True\<rparr>))))"

text \<open>The state after the resolution with \<open>v\<close>.\<close>

definition resolve_state :: "'v jsv \<Rightarrow> 'v subtask \<Rightarrow> subtask_state js" where
  "resolve_state v st =
     (if v = JNull \<and> st_cancelRequested st then
        (if st_state st = STARTING then Inr CANCELLED_BEFORE_STARTED
         else if st_state st \<noteq> STARTED then Inl (Err ''resolved subtask must have been started before cancellation'')
         else Inr CANCELLED_BEFORE_RETURNED)
      else if st_state st \<noteq> STARTED then Inl (Err ''resolved subtask must have been started before completion'')
      else Inr RETURNED)"

text \<open>\<open>removeSubtask\<close> of the parent task.\<close>

definition removeSubtask :: "(unit, 'v) sop" where
  "removeSubtask =
     jbind (jguard (\<lambda>s. su_siblings s = []) (Err ''cannot end current subtask: no current subtask''))
       (\<lambda>_. jassign (\<lambda>s. s\<lparr>su_siblings := filter (\<lambda>t. t \<noteq> st_id (su_sub s)) (su_siblings s)\<rparr>))"

definition waitableRep :: "'v sub_state \<Rightarrow> int option" where
  "waitableRep s = w_idx (wo_waitables (su_world s) ! st_waitable (su_sub s))"

text \<open>The \<open>try\<close> block at the end of a synchronous subtask: what it throws is only logged.\<close>

definition remove_own_handle :: "int \<Rightarrow> (unit, 'v) sop" where
  "remove_own_handle rep s =
     (case rep_remove rep (wo_handles (su_world s)) of
        Inl e \<Rightarrow> (Inl e, s)
      | Inr (removed, t) \<Rightarrow>
          (let s1 = s\<lparr>su_world := (su_world s)\<lparr>wo_handles := t\<rparr>\<rparr> in
           if removed \<noteq> JObj (HSubtask (st_id (su_sub s)) (st_waitable (su_sub s)))
           then (Inl (Err ''unexpectedly received non-self Subtask from handle removal''), s1)
           else st_drop s1))"

definition finish_sync :: "(unit, 'v) sop" where
  "finish_sync =
     jbind deliverResolve (\<lambda>_ s.
       case waitableRep s of
         None \<Rightarrow> (Inr (), s)
       | Some rep \<Rightarrow> if rep = 0 then (Inr (), s) else (Inr (), snd (remove_own_handle rep s)))"

definition st_onResolve :: "'v callable \<Rightarrow> 'v jsv \<Rightarrow> (unit, 'v) sop" where
  "st_onResolve call v =
     jbind (jguard (\<lambda>s. st_resolved (su_sub s)) (Err ''subtask has already been resolved'')) (\<lambda>_.
     jbind (\<lambda>s. call_opt call (st_onProgressFn (su_sub s)) JUndef s) (\<lambda>_.
     jbind (\<lambda>s. (resolve_state v (su_sub s), s)) (\<lambda>st'.
     jbind (upd_sub (\<lambda>st. st\<lparr>st_state := st'\<rparr>)) (\<lambda>_.
     jbind (setResult v) (\<lambda>_.
     jbind (\<lambda>s. jseq (\<lambda>f. jbind (call_fn call f v) (\<lambda>_. jret ())) (st_onResolveHandlers (su_sub s)) s) (\<lambda>_.
     jbind (\<lambda>s. call_opt call (st_lowerFn (su_sub s)) v s) (\<lambda>_.
     jbind (upd_sub (\<lambda>st. st\<lparr>st_resolved := True\<rparr>)) (\<lambda>_.
     jbind removeSubtask (\<lambda>_ s.
       if st_isAsync (su_sub s) then (Inr (), s) else finish_sync s)))))))))"

section \<open>The intrinsic subtaskDrop\<close>

text \<open>The handle is removed before the subtask checks whether it may be dropped. The object of the handle
  is taken to be this subtask.\<close>

definition subtaskDrop :: "int \<Rightarrow> (unit, 'v) sop" where
  "subtaskDrop rep =
     jbind (jguard (\<lambda>s. \<not> wo_mayLeave (su_world s)) (Err ''component is not marked as may leave, cannot be cancelled''))
       (\<lambda>_ s. case rep_remove rep (wo_handles (su_world s)) of
          Inl e \<Rightarrow> (Inl e, s)
        | Inr (v, t) \<Rightarrow>
            (let s1 = s\<lparr>su_world := (su_world s)\<lparr>wo_handles := t\<rparr>\<rparr> in
             if \<not> truthy v then (Inl (Err ''missing/invalid subtask specified for drop in component instance''), s1)
             else if v = JObj (HSubtask (st_id (su_sub s)) (st_waitable (su_sub s))) then st_drop s1
             else (Inl (OutOfModel ''the handle of another object''), s1)))"

section \<open>Sequences of operations\<close>

datatype 'v sub_cmd =
    SuStart "'v jsv"
  | SuResolve "'v jsv"
  | SuSetResult "'v jsv"
  | SuDeliver
  | SuDrop
  | SuHandleDrop int
  | SuAddLender int
  | SuRegister nat
  | SuSetChild nat
  | SuOnProgress nat

fun sub_step :: "'v callable \<Rightarrow> 'v sub_cmd \<Rightarrow> 'v sub_state \<Rightarrow> 'v sub_state" where
  "sub_step call (SuStart v) s = snd (onStart call v s)"
| "sub_step call (SuResolve v) s = snd (st_onResolve call v s)"
| "sub_step call (SuSetResult v) s = snd (setResult v s)"
| "sub_step call SuDeliver s = snd (deliverResolve s)"
| "sub_step call SuDrop s = snd (st_drop s)"
| "sub_step call (SuHandleDrop r) s = snd (subtaskDrop r s)"
| "sub_step call (SuAddLender h) s = snd (addLender h s)"
| "sub_step call (SuRegister f) s = snd (st_registerOnResolveHandler f s)"
| "sub_step call (SuSetChild t) s = snd (setChildTask t s)"
| "sub_step call (SuOnProgress f) s = snd (setOnProgressFn f s)"

text \<open>Invariants of the fields \<open>result\<close>, \<open>resolved\<close>, \<open>lenders\<close> and \<open>dropped\<close>.\<close>

definition final_fields :: "'v sub_state \<Rightarrow> 'v jsv \<times> bool \<times> bool \<times> int list option \<times> bool" where
  "final_fields s = (st_result (su_sub s), st_resultSet (su_sub s), st_resolved (su_sub s), st_lenders (su_sub s), st_dropped (su_sub s))"

definition sub_inv :: "'v sub_state \<Rightarrow> bool" where
  "sub_inv s \<longleftrightarrow> (st_dropped (su_sub s) \<longrightarrow> st_lenders (su_sub s) = None) \<and> (st_resolved (su_sub s) \<longrightarrow> st_resultSet (su_sub s))"

definition has_result :: "'v jsv \<Rightarrow> 'v sub_state \<Rightarrow> bool" where
  "has_result v s \<longleftrightarrow> st_resultSet (su_sub s) \<and> st_result (su_sub s) = v"

lemma keeps_fields:
  assumes "\<And>x. jkeeps (\<lambda>s. final_fields s = x) m"
  shows "jkeeps sub_inv m" "jkeeps (has_result v) m" "jkeeps (\<lambda>s. st_resolved (su_sub s)) m"
    "jkeeps (\<lambda>s. sub_inv s \<and> st_resultSet (su_sub s)) m"
proof -
  have f: "final_fields (snd (m s)) = final_fields s" for s using assms [of "final_fields s"] by (simp add: jkeeps_def)
  then have e: "st_result (su_sub (snd (m s))) = st_result (su_sub s)" "st_resultSet (su_sub (snd (m s))) = st_resultSet (su_sub s)"
    "st_resolved (su_sub (snd (m s))) = st_resolved (su_sub s)" "st_lenders (su_sub (snd (m s))) = st_lenders (su_sub s)"
    "st_dropped (su_sub (snd (m s))) = st_dropped (su_sub s)" for s
    using f [of s] by (simp_all add: final_fields_def)
  show "jkeeps sub_inv m" "jkeeps (has_result v) m" "jkeeps (\<lambda>s. st_resolved (su_sub s)) m"
    "jkeeps (\<lambda>s. sub_inv s \<and> st_resultSet (su_sub s)) m"
    by (simp_all add: jkeeps_def sub_inv_def has_result_def e)
qed

lemma fields_assign: "(\<And>st. st_result (f st) = st_result st \<and> st_resultSet (f st) = st_resultSet st \<and> st_resolved (f st) = st_resolved st
    \<and> st_lenders (f st) = st_lenders st \<and> st_dropped (f st) = st_dropped st) \<Longrightarrow> jkeeps (\<lambda>s. final_fields s = x) (upd_sub f)"
  by (simp add: upd_sub_def jkeeps_def jassign_def final_fields_def)

lemma fields_call: "jkeeps (\<lambda>s. final_fields s = x) (call_fn call f v)"
  unfolding call_fn_def by (intro jkeeps_bind fields_assign) (simp_all add: jkeeps_def)

lemma fields_call_opt: "jkeeps (\<lambda>s. final_fields s = x) (call_opt call f v)"
  by (simp add: call_opt_def fields_call split: option.split)

lemma fields_call_field: "jkeeps (\<lambda>s. final_fields s = x) (\<lambda>s. call_opt call (g s) v s)"
proof -
  have "final_fields (snd (call_opt call f v s)) = final_fields s" for f s
    using fields_call_opt [of "final_fields s" call f v] by (simp add: jkeeps_def)
  then show ?thesis by (simp add: jkeeps_def)
qed

lemma fields_handlers:
  "jkeeps (\<lambda>s. final_fields s = x) (\<lambda>s. jseq (\<lambda>f. jbind (call_fn call f v) (\<lambda>_. jret ())) (hs s) s)"
proof -
  have "jkeeps (\<lambda>s. final_fields s = x) (jseq (\<lambda>f. jbind (call_fn call f v) (\<lambda>_. jret ())) l)" for l
    by (intro jkeeps_seq jkeeps_bind fields_call jkeeps_ret)
  then show ?thesis by (simp add: jkeeps_def)
qed

lemma fields_simple:
  "jkeeps (\<lambda>s. final_fields s = x) (addLender h)" "jkeeps (\<lambda>s. final_fields s = x) (st_registerOnResolveHandler f)"
  "jkeeps (\<lambda>s. final_fields s = x) (setChildTask t)" "jkeeps (\<lambda>s. final_fields s = x) (setOnProgressFn f)"
  "jkeeps (\<lambda>s. final_fields s = x) (onStart call w)" "jkeeps (\<lambda>s. final_fields s = x) removeSubtask"
  unfolding addLender_def st_registerOnResolveHandler_def setChildTask_def setOnProgressFn_def onStart_def removeSubtask_def
  by ((intro jkeeps_bind jkeeps_ret fields_assign fields_call_field jkeeps_assign; simp add: final_fields_def)+)

text \<open>Delivery and drop keep the result; a drop succeeds only after the delivery.\<close>

lemma deliver_props:
  "st_result (su_sub (snd (deliverResolve s))) = st_result (su_sub s)"
  "st_resultSet (su_sub (snd (deliverResolve s))) = st_resultSet (su_sub s)"
  "st_resolved (su_sub (snd (deliverResolve s))) = st_resolved (su_sub s)"
  "sub_inv s \<Longrightarrow> sub_inv (snd (deliverResolve s))"
  by (auto simp: deliverResolve_def resolveDelivered_def jbind_def jguard_def upd_sub_def jassign_def sub_inv_def)

lemma drop_props:
  "st_result (su_sub (snd (st_drop s))) = st_result (su_sub s)"
  "st_resultSet (su_sub (snd (st_drop s))) = st_resultSet (su_sub s)"
  "st_resolved (su_sub (snd (st_drop s))) = st_resolved (su_sub s)"
  "sub_inv s \<Longrightarrow> sub_inv (snd (st_drop s))"
  by (auto simp: st_drop_def resolveDelivered_def jbind_def jguard_def upd_sub_def jassign_def sub_inv_def split: prod.split sum.split)

lemma finish_props:
  "st_result (su_sub (snd (finish_sync s))) = st_result (su_sub s)"
  "st_resultSet (su_sub (snd (finish_sync s))) = st_resultSet (su_sub s)"
  "st_resolved (su_sub (snd (finish_sync s))) = st_resolved (su_sub s)"
  "sub_inv s \<Longrightarrow> sub_inv (snd (finish_sync s))"
proof -
  have w: "sub_inv (s\<lparr>su_world := wo\<rparr>) = sub_inv s" for s :: "'a sub_state" and wo by (simp add: sub_inv_def)
  have r: "st_result (su_sub (snd (remove_own_handle rep s))) = st_result (su_sub s)"
    "st_resultSet (su_sub (snd (remove_own_handle rep s))) = st_resultSet (su_sub s)"
    "st_resolved (su_sub (snd (remove_own_handle rep s))) = st_resolved (su_sub s)"
    "sub_inv s \<Longrightarrow> sub_inv (snd (remove_own_handle rep s))" for rep and s :: "'a sub_state"
    by (auto simp: remove_own_handle_def drop_props Let_def w split: sum.split)
  obtain x u where u: "deliverResolve s = (x, u)" by fastforce
  show "st_result (su_sub (snd (finish_sync s))) = st_result (su_sub s)"
    "st_resultSet (su_sub (snd (finish_sync s))) = st_resultSet (su_sub s)"
    "st_resolved (su_sub (snd (finish_sync s))) = st_resolved (su_sub s)"
    "sub_inv s \<Longrightarrow> sub_inv (snd (finish_sync s))"
    using deliver_props [of s] u by (auto simp: finish_sync_def jbind_def r split: sum.split option.split)
qed

lemma handle_drop_props:
  "st_result (su_sub (snd (subtaskDrop h s))) = st_result (su_sub s)"
  "st_resultSet (su_sub (snd (subtaskDrop h s))) = st_resultSet (su_sub s)"
  "st_resolved (su_sub (snd (subtaskDrop h s))) = st_resolved (su_sub s)"
  "sub_inv s \<Longrightarrow> sub_inv (snd (subtaskDrop h s))"
proof -
  have w: "sub_inv (s\<lparr>su_world := wo\<rparr>) = sub_inv s" for s :: "'a sub_state" and wo by (simp add: sub_inv_def)
  show "st_result (su_sub (snd (subtaskDrop h s))) = st_result (su_sub s)"
    "st_resultSet (su_sub (snd (subtaskDrop h s))) = st_resultSet (su_sub s)"
    "st_resolved (su_sub (snd (subtaskDrop h s))) = st_resolved (su_sub s)"
    "sub_inv s \<Longrightarrow> sub_inv (snd (subtaskDrop h s))"
    by (auto simp: subtaskDrop_def jbind_def jguard_def drop_props Let_def w split: sum.split)
qed

lemma resolve_fails: "st_resolved (su_sub s) \<Longrightarrow> st_onResolve call v s = (Inl (Err ''subtask has already been resolved''), s)"
  by (simp add: st_onResolve_def jbind_def jguard_def)

text \<open>The part of \<open>onResolve\<close> behind \<open>setResult\<close>.\<close>

lemma resolve_tail:
  "jkeeps (\<lambda>s. sub_inv s \<and> st_resultSet (su_sub s))
    (jbind (\<lambda>s. jseq (\<lambda>f. jbind (call_fn call f v) (\<lambda>_. jret ())) (st_onResolveHandlers (su_sub s)) s) (\<lambda>_.
     jbind (\<lambda>s. call_opt call (st_lowerFn (su_sub s)) v s) (\<lambda>_.
     jbind (upd_sub (\<lambda>st. st\<lparr>st_resolved := True\<rparr>)) (\<lambda>_.
     jbind removeSubtask (\<lambda>_ s. if st_isAsync (su_sub s) then (Inr (), s) else finish_sync s)))))"
proof -
  let ?P = "\<lambda>s. sub_inv s \<and> st_resultSet (su_sub s)"
  have h: "jkeeps ?P (\<lambda>s. jseq (\<lambda>f. jbind (call_fn call f v) (\<lambda>_. jret ())) (st_onResolveHandlers (su_sub s)) s)"
    by (rule keeps_fields(4)) (rule fields_handlers)
  have l: "jkeeps ?P (\<lambda>s. call_opt call (st_lowerFn (su_sub s)) v s)"
    by (rule keeps_fields(4)) (rule fields_call_field)
  have u: "jkeeps ?P (upd_sub (\<lambda>st. st\<lparr>st_resolved := True\<rparr>))"
    by (simp add: upd_sub_def jkeeps_def jassign_def sub_inv_def)
  have r: "jkeeps ?P removeSubtask"
    by (rule keeps_fields(4)) (rule fields_simple)
  have e: "jkeeps ?P (\<lambda>s. if st_isAsync (su_sub s) then (Inr (), s) else finish_sync s)"
    by (simp add: jkeeps_def finish_props)
  show ?thesis by (intro jkeeps_bind h l u r e)
qed

lemma sub_inv_resolve: "jkeeps sub_inv (st_onResolve call v)"
proof -
  define tail :: "(unit, 'a) sop" where "tail =
    jbind (\<lambda>s. jseq (\<lambda>f. jbind (call_fn call f v) (\<lambda>_. jret ())) (st_onResolveHandlers (su_sub s)) s) (\<lambda>_.
     jbind (\<lambda>s. call_opt call (st_lowerFn (su_sub s)) v s) (\<lambda>_.
     jbind (upd_sub (\<lambda>st. st\<lparr>st_resolved := True\<rparr>)) (\<lambda>_.
     jbind removeSubtask (\<lambda>_ s. if st_isAsync (su_sub s) then (Inr (), s) else finish_sync s))))"
  have t: "sub_inv s \<Longrightarrow> st_resultSet (su_sub s) \<Longrightarrow> sub_inv (snd (tail s))" for s
    using resolve_tail [of call v] unfolding tail_def jkeeps_def by blast
  have "jkeeps sub_inv (jbind (setResult v) (\<lambda>_. tail))"
    using t by (auto simp: jkeeps_def setResult_def jbind_def jguard_def upd_sub_def jassign_def sub_inv_def)
  moreover have "jkeeps sub_inv (\<lambda>s. call_opt call (st_onProgressFn (su_sub s)) JUndef s)"
    by (rule keeps_fields(1)) (rule fields_call_field)
  moreover have "jkeeps sub_inv (upd_sub (\<lambda>st. st\<lparr>st_state := st'\<rparr>))" for st'
    by (rule keeps_fields(1)) (rule fields_assign, simp)
  moreover have "jkeeps sub_inv (\<lambda>s. (resolve_state v (su_sub s), s))" by (simp add: jkeeps_def)
  ultimately show ?thesis unfolding st_onResolve_def tail_def [symmetric]
    by - (rule jkeeps_bind, rule jkeeps_ret, rule jkeeps_bind, assumption, rule jkeeps_bind, assumption,
      rule jkeeps_bind, assumption)
qed

lemma result_resolve: "jkeeps (has_result w) (st_onResolve call v)"
proof -
  have f: "jkeeps (has_result w) (jbind (setResult v) g)" for g :: "unit \<Rightarrow> (unit, 'a) sop"
    by (auto simp: jkeeps_def setResult_def jbind_def jguard_def has_result_def)
  have "jkeeps (has_result w) (\<lambda>s. call_opt call (st_onProgressFn (su_sub s)) JUndef s)"
    by (rule keeps_fields(2)) (rule fields_call_field)
  moreover have "jkeeps (has_result w) (upd_sub (\<lambda>st. st\<lparr>st_state := st'\<rparr>))" for st'
    by (rule keeps_fields(2)) (rule fields_assign, simp)
  moreover have "jkeeps (has_result w) (\<lambda>s. (resolve_state v (su_sub s), s))" by (simp add: jkeeps_def)
  ultimately show ?thesis unfolding st_onResolve_def
    by - (rule jkeeps_bind, rule jkeeps_ret, rule jkeeps_bind, assumption, rule jkeeps_bind, assumption,
      rule jkeeps_bind, assumption, rule f)
qed

lemma fields_D:
  assumes "final_fields s' = final_fields s"
  shows "sub_inv s' = sub_inv s" "has_result w s' = has_result w s" "st_resolved (su_sub s') = st_resolved (su_sub s)"
  using assms by (simp_all add: final_fields_def sub_inv_def has_result_def)

lemma fields_simple_eq:
  "final_fields (snd (addLender h s)) = final_fields s" "final_fields (snd (st_registerOnResolveHandler f s)) = final_fields s"
  "final_fields (snd (setChildTask t s)) = final_fields s" "final_fields (snd (setOnProgressFn f s)) = final_fields s"
  "final_fields (snd (onStart call w s)) = final_fields s"
  using fields_simple [of "final_fields s"] by (simp_all add: jkeeps_def)

lemmas simple_props = fields_D [OF fields_simple_eq(1)] fields_D [OF fields_simple_eq(2)] fields_D [OF fields_simple_eq(3)]
  fields_D [OF fields_simple_eq(4)] fields_D [OF fields_simple_eq(5)]

lemma setResult_props:
  "sub_inv s \<Longrightarrow> sub_inv (snd (setResult v s))" "has_result w s \<Longrightarrow> has_result w (snd (setResult v s))"
  "st_resolved (su_sub (snd (setResult v s))) = st_resolved (su_sub s)"
  by (auto simp: setResult_def jbind_def jguard_def upd_sub_def jassign_def sub_inv_def has_result_def)

lemma sub_step_inv: "sub_inv s \<Longrightarrow> sub_inv (sub_step call c s)"
  using sub_inv_resolve [of call]
  by (cases c) (simp_all add: jkeeps_def deliver_props drop_props handle_drop_props simple_props setResult_props)

lemma has_result_eq: "st_result (su_sub s') = st_result (su_sub s) \<Longrightarrow> st_resultSet (su_sub s') = st_resultSet (su_sub s) \<Longrightarrow>
    has_result w s' = has_result w s"
  by (simp add: has_result_def)

lemma sub_step_result: "has_result w s \<Longrightarrow> has_result w (sub_step call c s)"
  using result_resolve [of w call]
  by (cases c) (simp_all add: jkeeps_def has_result_eq [OF deliver_props(1,2)] has_result_eq [OF drop_props(1,2)]
    has_result_eq [OF handle_drop_props(1,2)] simple_props setResult_props)

lemma sub_step_resolved: "st_resolved (su_sub s) \<Longrightarrow> st_resolved (su_sub (sub_step call c s))"
  by (cases c) (simp_all add: resolve_fails deliver_props drop_props handle_drop_props simple_props setResult_props)

section \<open>Properties\<close>

definition sub_run :: "'v callable \<Rightarrow> 'v sub_cmd list \<Rightarrow> 'v sub_state \<Rightarrow> 'v sub_state" where
  "sub_run call cmds s = fold (sub_step call) cmds s"

lemma sub_run_keeps:
  "sub_inv s \<Longrightarrow> sub_inv (sub_run call cmds s)"
  "has_result w s \<Longrightarrow> has_result w (sub_run call cmds s)"
  "st_resolved (su_sub s) \<Longrightarrow> st_resolved (su_sub (sub_run call cmds s))"
  unfolding sub_run_def
  by (induction cmds arbitrary: s) (simp_all add: sub_step_inv sub_step_result sub_step_resolved)

text \<open>C15. A subtask is resolved at most once and its result is final. After any calls on a new subtask:
  it is dropped only if the resolution was delivered; once it is resolved its result is set, no later
  call changes the result, and every further \<open>onResolve\<close> throws and changes nothing.\<close>

theorem subtask_result_final:
  assumes "s = sub_run call cmds \<lparr>su_sub = subtask_new i p c a sf lf asyn, su_siblings = sibs, su_world = wo\<rparr>"
    and "s' = sub_run call cmds' s"
  shows "(st_dropped (su_sub s) \<longrightarrow> st_lenders (su_sub s) = None) \<and>
    (st_resolved (su_sub s) \<longrightarrow> getResult (su_sub s') = getResult (su_sub s) \<and> (\<exists>r. getResult (su_sub s) = Inr r) \<and>
       st_onResolve call v s' = (Inl (Err ''subtask has already been resolved''), s'))"
proof -
  have "sub_inv \<lparr>su_sub = subtask_new i p c a sf lf asyn, su_siblings = sibs, su_world = wo\<rparr>"
    by (simp add: sub_inv_def subtask_new_def)
  then have i: "sub_inv s" unfolding assms(1) by (rule sub_run_keeps)
  have "getResult (su_sub s') = getResult (su_sub s) \<and> (\<exists>r. getResult (su_sub s) = Inr r) \<and>
      st_onResolve call v s' = (Inl (Err ''subtask has already been resolved''), s')" if r: "st_resolved (su_sub s)"
  proof -
    have h: "has_result (st_result (su_sub s)) s" using i r by (simp add: sub_inv_def has_result_def)
    then have h': "has_result (st_result (su_sub s)) s'" unfolding assms(2) by (rule sub_run_keeps)
    have "st_resolved (su_sub s')" unfolding assms(2) using r by (rule sub_run_keeps)
    with h h' resolve_fails [of s'] show ?thesis by (simp add: has_result_def getResult_def)
  qed
  with i show ?thesis by (simp add: sub_inv_def)
qed

definition demo_sub :: "nat sub_state" where
  "demo_sub = \<lparr>su_sub = subtask_new 1 1 None 0 None None True, su_siblings = [1], su_world = world_new\<rparr>"

lemma demo_sub_resolved:
  "st_resolved (su_sub (sub_run (\<lambda>f v. Inr JUndef) [SuStart JUndef, SuResolve (JNum 7)] demo_sub))"
  "getResult (su_sub (sub_run (\<lambda>f v. Inr JUndef) [SuStart JUndef, SuResolve (JNum 7)] demo_sub)) = Inr (JNum 7)"
  by (simp_all add: sub_run_def demo_sub_def subtask_new_def onStart_def st_onResolve_def call_opt_def jbind_def jguard_def jret_def
    upd_sub_def jassign_def resolve_state_def setResult_def removeSubtask_def getResult_def)

theorem subtask_result_final_witness:
  "getResult (su_sub (sub_run (\<lambda>f v. Inr JUndef) [SuResolve (JNum 8), SuDeliver, SuDrop]
     (sub_run (\<lambda>f v. Inr JUndef) [SuStart JUndef, SuResolve (JNum 7)] demo_sub))) = Inr (JNum 7)"
  using subtask_result_final [OF _ refl, of _ "\<lambda>f v. Inr JUndef" "[SuStart JUndef, SuResolve (JNum 7)]" 1 1 None 0 None None True "[1]" world_new]
    demo_sub_resolved unfolding demo_sub_def by metis

end
