(* ===== verification/Comp_State.thy ===== *)
theory Comp_State
  imports Prelude
begin

text \<open>
  The class \<open>ComponentAsyncState\<close> of the emitted runtime
  (\<open>src/crates/js-component-bindgen/src/intrinsics/component.rs\<close>): backpressure, event handlers, the
  exclusive lock, the queue of tasks that wait for their turn, and the suspended tasks with the tick
  loop that resumes them. The tables of handles, streams and futures are not part of this theory.

  Tasks and functions are numbers. What a ready function answers during a tick, whether a task was
  rejected or cancelled, and what a release handler throws are arguments of the operations. The
  promise of a suspended task is the record in \<open>cs_resumed\<close> that it was settled, and with what.
\<close>

section \<open>State\<close>

record cstate =
  cs_errored :: "nat option"
  cs_callingAsyncImport :: bool
  cs_syncImportEnds :: nat
  cs_backpressure :: int
  cs_backpressureWaiters :: int
  cs_handlerMap :: "string \<rightharpoonup> (nat \<times> nat) list"
  cs_nextHandlerID :: nat
  cs_locked :: bool
  cs_onExclusiveRelease :: "nat option list"
  cs_suspended :: "nat set"
  cs_suspendedIDs :: "nat option list"
  cs_resumed :: "(nat \<times> bool) list"
  cs_tickLoop :: bool
  cs_nextTaskQueue :: "nat list"
  cs_completed :: "nat set"
  cs_nextTaskPromise :: "nat option"

type_synonym 'a csop = "('a, cstate) jsop"

definition cstate_new :: cstate where
  "cstate_new = \<lparr>cs_errored = None, cs_callingAsyncImport = False, cs_syncImportEnds = 0, cs_backpressure = 0,
     cs_backpressureWaiters = 0, cs_handlerMap = Map.empty, cs_nextHandlerID = 0, cs_locked = False,
     cs_onExclusiveRelease = [], cs_suspended = {}, cs_suspendedIDs = [], cs_resumed = [], cs_tickLoop = False,
     cs_nextTaskQueue = [], cs_completed = {}, cs_nextTaskPromise = None\<rparr>"

section \<open>Errors and synchronous imports\<close>

text \<open>\<open>setErrored\<close> keeps the first error; a missing error is replaced by a new one (\<open>dflt\<close>).\<close>

definition cs_setErrored :: "nat option \<Rightarrow> nat \<Rightarrow> cstate \<Rightarrow> cstate" where
  "cs_setErrored err dflt s =
     (if cs_errored s \<noteq> None then s
      else s\<lparr>cs_errored := Some (case err of Some e \<Rightarrow> e | None \<Rightarrow> dflt)\<rparr>)"

text \<open>\<open>callingSyncImport(val)\<close>: at the end of a synchronous import, those who wait for it are notified.\<close>

definition callingSyncImport :: "bool \<Rightarrow> cstate \<Rightarrow> cstate" where
  "callingSyncImport val s =
     (let prev = cs_callingAsyncImport s; s1 = s\<lparr>cs_callingAsyncImport := val\<rparr> in
      if prev \<and> \<not> val then s1\<lparr>cs_syncImportEnds := cs_syncImportEnds s1 + 1\<rparr> else s1)"

section \<open>Backpressure\<close>

definition setBackpressure :: "int \<Rightarrow> int csop" where
  "setBackpressure v s = (Inr v, s\<lparr>cs_backpressure := v\<rparr>)"

definition incrementBackpressure :: "int csop" where
  "incrementBackpressure s =
     (let current = cs_backpressure s in
      if current < 0 \<or> current > 2 ^ 16 then (Inl (Err ''invalid current backpressure value''), s)
      else let newValue = current + 1 in
        if newValue \<ge> 2 ^ 16 then (Inl (Err ''invalid new backpressure value, overflow''), s)
        else setBackpressure newValue s)"

definition decrementBackpressure :: "int csop" where
  "decrementBackpressure s =
     (let current = cs_backpressure s in
      if current < 0 \<or> current > 2 ^ 16 then (Inl (Err ''invalid current backpressure value''), s)
      else let newValue = max 0 (current - 1) in
        if newValue < 0 then (Inl (Err ''invalid new backpressure value, underflow''), s)
        else setBackpressure newValue s)"

definition hasBackpressure :: "cstate \<Rightarrow> bool" where
  "hasBackpressure s = (cs_backpressure s > 0)"

definition addBackpressureWaiter :: "cstate \<Rightarrow> cstate" where
  "addBackpressureWaiter s = s\<lparr>cs_backpressureWaiters := cs_backpressureWaiters s + 1\<rparr>"

definition removeBackpressureWaiter :: "unit csop" where
  "removeBackpressureWaiter s =
     (let s1 = s\<lparr>cs_backpressureWaiters := cs_backpressureWaiters s - 1\<rparr> in
      if cs_backpressureWaiters s1 < 0 then (Inl (Err ''unexepctedly negative number of backpressure waiters''), s1)
      else (Inr (), s1))"

section \<open>Event handlers\<close>

definition EVENT_HANDLER_EVENTS :: "string list" where
  "EVENT_HANDLER_EVENTS = [''backpressure-change'']"

definition registerHandler :: "string \<Rightarrow> nat \<Rightarrow> nat csop" where
  "registerHandler event fn s =
     (if event = '''' then (Inl (Err ''missing handler event''), s)
      else if event \<notin> set EVENT_HANDLER_EVENTS then (Inl (Err ''unrecognized event handler''), s)
      else
        let hid = cs_nextHandlerID s;
            hs = (case cs_handlerMap s event of None \<Rightarrow> [] | Some hs \<Rightarrow> hs)
        in (Inr hid, s\<lparr>cs_nextHandlerID := hid + 1, cs_handlerMap := (cs_handlerMap s)(event \<mapsto> hs @ [(hid, fn)])\<rparr>))"

definition removeHandler :: "string \<Rightarrow> nat \<Rightarrow> cstate \<Rightarrow> cstate" where
  "removeHandler event hid s =
     (case cs_handlerMap s event of
        None \<Rightarrow> s
      | Some hs \<Rightarrow>
          if hid \<notin> fst ` set hs then s
          else s\<lparr>cs_handlerMap := (cs_handlerMap s)(event \<mapsto> filter (\<lambda>h. fst h \<noteq> hid) hs)\<rparr>)"

text \<open>\<open>waitForBackpressure\<close>: the registration, and one run of the timer's function. The timer goes on
  only while the backpressure is cleared: it resolves the promise (the result is true) at its first
  run unless the handler has run before.\<close>

definition waitForBackpressure_begin :: "nat \<Rightarrow> nat csop" where
  "waitForBackpressure_begin fn s = registerHandler ''backpressure-change'' fn (addBackpressureWaiter s)"

definition waitForBackpressure_timer :: "bool \<Rightarrow> bool csop" where
  "waitForBackpressure_timer backpressureCleared =
     (if backpressureCleared then jret False
      else jbind removeBackpressureWaiter (\<lambda>_. jret True))"

section \<open>The exclusive lock\<close>

definition exclusiveLock :: "cstate \<Rightarrow> cstate" where
  "exclusiveLock s = s\<lparr>cs_locked := True\<rparr>"

text \<open>\<open>throws f\<close> is what the handler \<open>f\<close> throws. The handlers are taken not to register others.\<close>

fun run_release :: "(nat \<Rightarrow> js_error option) \<Rightarrow> nat \<Rightarrow> nat option list \<Rightarrow> unit csop" where
  "run_release throws idx [] s = (Inr (), s)"
| "run_release throws idx (None # fs) s = (Inl (TypeErr ''f is not a function''), s)"
| "run_release throws idx (Some f # fs) s =
     (let s1 = s\<lparr>cs_onExclusiveRelease := (cs_onExclusiveRelease s)[idx := None]\<rparr> in
      case throws f of Some e \<Rightarrow> (Inl e, s1) | None \<Rightarrow> run_release throws (Suc idx) fs s1)"

definition exclusiveRelease :: "(nat \<Rightarrow> js_error option) \<Rightarrow> unit csop" where
  "exclusiveRelease throws s =
     (let s1 = s\<lparr>cs_locked := False\<rparr>;
          hs = filter (\<lambda>v. v \<noteq> None) (cs_onExclusiveRelease s1)
      in run_release throws 0 hs (s1\<lparr>cs_onExclusiveRelease := hs\<rparr>))"

definition onNextExclusiveRelease :: "nat \<Rightarrow> cstate \<Rightarrow> cstate" where
  "onNextExclusiveRelease fn s = s\<lparr>cs_onExclusiveRelease := cs_onExclusiveRelease s @ [Some fn]\<rparr>"

section \<open>The queue for execution\<close>

text \<open>\<open>nextTaskExecutionSlot\<close>: the task is queued; each time \<open>#nextTaskPromise\<close> is settled, the task
  looks whether it is the first one in the queue that has not exited. If so, its exit becomes the
  promise the others wait for, and it goes on (the result is true).\<close>

definition slot_enter :: "nat \<Rightarrow> cstate \<Rightarrow> cstate" where
  "slot_enter task s = s\<lparr>cs_nextTaskQueue := cs_nextTaskQueue s @ [task]\<rparr>"

definition slot_exit :: "nat \<Rightarrow> cstate \<Rightarrow> cstate" where
  "slot_exit task s = s\<lparr>cs_completed := insert task (cs_completed s)\<rparr>"

definition promise_settled :: "cstate \<Rightarrow> bool" where
  "promise_settled s = (case cs_nextTaskPromise s of None \<Rightarrow> True | Some t \<Rightarrow> t \<in> cs_completed s)"

definition slot_check :: "nat \<Rightarrow> bool csop" where
  "slot_check task s =
     (case find (\<lambda>t. t \<notin> cs_completed s) (cs_nextTaskQueue s) of
        None \<Rightarrow> (Inl (TypeErr ''Cannot read properties of undefined''), s)
      | Some next \<Rightarrow>
          if next = task then
            (let s1 = s\<lparr>cs_nextTaskPromise := Some task\<rparr> in
             (Inr True, if length (cs_nextTaskQueue s1) > 1000
                        then s1\<lparr>cs_nextTaskQueue := filter (\<lambda>t. t \<notin> cs_completed s1) (cs_nextTaskQueue s1)\<rparr> else s1))
          else (Inr False, s))"

section \<open>Suspended tasks\<close>

definition live_ids :: "cstate \<Rightarrow> nat list" where
  "live_ids s = map the (filter (\<lambda>t. t \<noteq> None) (cs_suspendedIDs s))"

definition removeSuspendedTaskMeta :: "nat \<Rightarrow> cstate \<Rightarrow> bool \<times> cstate" where
  "removeSuspendedTaskMeta taskID s =
     (let ids = cs_suspendedIDs s; idx = length (takeWhile (\<lambda>t. t \<noteq> Some taskID) ids) in
      (taskID \<in> cs_suspended s,
       s\<lparr>cs_suspendedIDs := ids[idx := None], cs_suspended := cs_suspended s - {taskID}\<rparr>))"

definition addSuspendedTaskMeta :: "nat \<Rightarrow> cstate \<Rightarrow> cstate" where
  "addSuspendedTaskMeta taskID s =
     (let s1 = s\<lparr>cs_suspended := insert taskID (cs_suspended s), cs_suspendedIDs := cs_suspendedIDs s @ [Some taskID]\<rparr> in
      if int (card (cs_suspended s1)) < int (length (cs_suspendedIDs s1)) - 10
      then s1\<lparr>cs_suspendedIDs := filter (\<lambda>t. t \<noteq> None) (cs_suspendedIDs s1)\<rparr> else s1)"

definition runTickLoop :: "cstate \<Rightarrow> cstate" where
  "runTickLoop s = s\<lparr>cs_tickLoop := True\<rparr>"

text \<open>\<open>own\<close>: the task belongs to this component.\<close>

definition suspendTask :: "bool \<Rightarrow> nat \<Rightarrow> unit csop" where
  "suspendTask own taskID s =
     (if \<not> own then (Inl (Err ''assert: task component idx should match async state''), s)
      else if taskID \<in> cs_suspended s then (Inl (Err ''task already suspended''), s)
      else (Inr (), runTickLoop (addSuspendedTaskMeta taskID s)))"

definition resumeTaskByID :: "(nat \<Rightarrow> bool) \<Rightarrow> nat \<Rightarrow> cstate \<Rightarrow> cstate" where
  "resumeTaskByID cancelled taskID s =
     (let (found, s1) = removeSuspendedTaskMeta taskID s in
      if found then s1\<lparr>cs_resumed := cs_resumed s1 @ [(taskID, \<not> cancelled taskID)]\<rparr> else s1)"

text \<open>The loop of \<open>tick\<close>: the result is whether the tick left early, because of a rejected task.\<close>

record tick_env =
  tick_ready :: "nat \<Rightarrow> bool"
  tick_rejected :: "nat \<Rightarrow> bool"
  tick_cancelled :: "nat \<Rightarrow> bool"

fun tick_tasks :: "tick_env \<Rightarrow> nat list \<Rightarrow> bool csop" where
  "tick_tasks env [] s = (Inr False, s)"
| "tick_tasks env (taskID # ids) s =
     (if taskID \<notin> cs_suspended s then (Inl (Err ''missing/invalid task despite ID being present''), s)
      else if tick_rejected env taskID then (Inr True, resumeTaskByID (tick_cancelled env) taskID s)
      else if \<not> tick_ready env taskID then tick_tasks env ids s
      else tick_tasks env ids (resumeTaskByID (tick_cancelled env) taskID s))"

text \<open>After a rejection \<open>tick\<close> returns \<open>undefined\<close>, which is no more true than false: the loop goes on.\<close>

definition tick :: "tick_env \<Rightarrow> bool csop" where
  "tick env s =
     jbind (tick_tasks env (live_ids s)) (\<lambda>early s1. (Inr (\<not> early \<and> live_ids s1 = []), s1)) s"

text \<open>One round of the loop that \<open>runTickLoop\<close> starts: it ends when the tick is done.\<close>

definition tick_round :: "tick_env \<Rightarrow> unit csop" where
  "tick_round env =
     jbind (tick env) (\<lambda>done. if done then jassign (\<lambda>s. s\<lparr>cs_tickLoop := False\<rparr>) else jret ())"

section \<open>The states of all components\<close>

definition getOrCreateAsyncState :: "int \<Rightarrow> (int \<rightharpoonup> cstate) \<Rightarrow> cstate \<times> (int \<rightharpoonup> cstate)" where
  "getOrCreateAsyncState componentIdx m =
     (case m componentIdx of Some s \<Rightarrow> (s, m) | None \<Rightarrow> (cstate_new, m(componentIdx \<mapsto> cstate_new)))"

definition on_cstate :: "'a csop \<Rightarrow> int \<Rightarrow> ('a, int \<rightharpoonup> cstate) jsop" where
  "on_cstate f c m = (let (s, m1) = getOrCreateAsyncState c m; (r, s1) = f s in (r, m1(c \<mapsto> s1)))"

definition backpressureInc :: "int \<Rightarrow> (unit, int \<rightharpoonup> cstate) jsop" where
  "backpressureInc c = jbind (on_cstate incrementBackpressure c) (\<lambda>_. jret ())"

definition backpressureDec :: "int \<Rightarrow> (unit, int \<rightharpoonup> cstate) jsop" where
  "backpressureDec c = jbind (on_cstate decrementBackpressure c) (\<lambda>_. jret ())"

definition componentStateSetAllError :: "(int \<Rightarrow> nat) \<Rightarrow> (int \<rightharpoonup> cstate) \<Rightarrow> (int \<rightharpoonup> cstate)" where
  "componentStateSetAllError dflt m = (\<lambda>c. map_option (cs_setErrored None (dflt c)) (m c))"

section \<open>Sequences of operations\<close>

datatype cs_cmd =
    CsSuspend bool nat
  | CsResume "nat \<Rightarrow> bool" nat
  | CsTick tick_env
  | CsBackpressure int
  | CsIncrement
  | CsDecrement
  | CsAddWaiter
  | CsRemoveWaiter
  | CsRegister string nat
  | CsUnregister string nat
  | CsLock
  | CsOnRelease nat
  | CsRelease "nat \<Rightarrow> js_error option"
  | CsEnter nat
  | CsExit nat
  | CsCheck nat
  | CsErrored "nat option" nat
  | CsSyncImport bool

fun cs_step :: "cs_cmd \<Rightarrow> cstate \<Rightarrow> cstate" where
  "cs_step (CsSuspend own t) s = snd (suspendTask own t s)"
| "cs_step (CsResume c t) s = resumeTaskByID c t s"
| "cs_step (CsTick env) s = snd (tick_round env s)"
| "cs_step (CsBackpressure v) s = snd (setBackpressure v s)"
| "cs_step CsIncrement s = snd (incrementBackpressure s)"
| "cs_step CsDecrement s = snd (decrementBackpressure s)"
| "cs_step CsAddWaiter s = addBackpressureWaiter s"
| "cs_step CsRemoveWaiter s = snd (removeBackpressureWaiter s)"
| "cs_step (CsRegister e f) s = snd (registerHandler e f s)"
| "cs_step (CsUnregister e h) s = removeHandler e h s"
| "cs_step CsLock s = exclusiveLock s"
| "cs_step (CsOnRelease f) s = onNextExclusiveRelease f s"
| "cs_step (CsRelease th) s = snd (exclusiveRelease th s)"
| "cs_step (CsEnter t) s = slot_enter t s"
| "cs_step (CsExit t) s = slot_exit t s"
| "cs_step (CsCheck t) s = snd (slot_check t s)"
| "cs_step (CsErrored e d) s = cs_setErrored e d s"
| "cs_step (CsSyncImport b) s = callingSyncImport b s"

section \<open>The suspended tasks\<close>

definition susp_ok :: "cstate \<Rightarrow> bool" where
  "susp_ok s \<longleftrightarrow> distinct (live_ids s) \<and> set (live_ids s) = cs_suspended s"

definition susp_fields :: "cstate \<Rightarrow> nat set \<times> nat option list" where
  "susp_fields s = (cs_suspended s, cs_suspendedIDs s)"

lemma susp_ok_fields: "susp_fields s' = susp_fields s \<Longrightarrow> susp_ok s' = susp_ok s"
  by (simp add: susp_fields_def susp_ok_def live_ids_def)

abbreviation live :: "nat option list \<Rightarrow> nat list" where
  "live ids \<equiv> map the (filter (\<lambda>t. t \<noteq> None) ids)"

lemma live_remove:
  "distinct (live ids) \<Longrightarrow> live (ids[length (takeWhile (\<lambda>x. x \<noteq> Some t) ids) := None]) = filter (\<lambda>x. x \<noteq> t) (live ids)"
proof (induction ids)
  case (Cons i ids)
  show ?case
  proof (cases "i = Some t")
    case True
    have "t \<notin> set (live ids)" using Cons.prems True by auto
    then have "filter (\<lambda>x. x \<noteq> t) (live ids) = live ids" by (intro filter_True) blast
    with True show ?thesis by simp
  next
    case False
    with Cons show ?thesis by (cases i) auto
  qed
qed simp

lemma removeSuspended_props:
  assumes "susp_ok s"
  shows "live_ids (snd (removeSuspendedTaskMeta t s)) = filter (\<lambda>x. x \<noteq> t) (live_ids s)"
    and "susp_ok (snd (removeSuspendedTaskMeta t s))"
    and "cs_suspended (snd (removeSuspendedTaskMeta t s)) = cs_suspended s - {t}"
proof -
  show l: "live_ids (snd (removeSuspendedTaskMeta t s)) = filter (\<lambda>x. x \<noteq> t) (live_ids s)"
    using assms live_remove [of "cs_suspendedIDs s" t] by (simp add: removeSuspendedTaskMeta_def live_ids_def susp_ok_def Let_def)
  show c: "cs_suspended (snd (removeSuspendedTaskMeta t s)) = cs_suspended s - {t}"
    by (simp add: removeSuspendedTaskMeta_def Let_def)
  show "susp_ok (snd (removeSuspendedTaskMeta t s))"
    using assms unfolding susp_ok_def l c by auto
qed

lemma resume_props:
  assumes "susp_ok s"
  shows "live_ids (resumeTaskByID c t s) = filter (\<lambda>x. x \<noteq> t) (live_ids s)" "susp_ok (resumeTaskByID c t s)"
    "t \<in> cs_suspended s \<Longrightarrow> cs_resumed (resumeTaskByID c t s) = cs_resumed s @ [(t, \<not> c t)]"
proof -
  have r: "live_ids (u\<lparr>cs_resumed := x\<rparr>) = live_ids u" "susp_ok (u\<lparr>cs_resumed := x\<rparr>) = susp_ok u" for u x
    by (simp_all add: live_ids_def susp_ok_def)
  show "live_ids (resumeTaskByID c t s) = filter (\<lambda>x. x \<noteq> t) (live_ids s)" "susp_ok (resumeTaskByID c t s)"
    using removeSuspended_props [OF assms, of t] by (simp_all add: resumeTaskByID_def case_prod_unfold Let_def r)
  show "t \<in> cs_suspended s \<Longrightarrow> cs_resumed (resumeTaskByID c t s) = cs_resumed s @ [(t, \<not> c t)]"
    by (simp add: resumeTaskByID_def removeSuspendedTaskMeta_def Let_def)
qed

lemma suspend_ok: "susp_ok s \<Longrightarrow> susp_ok (snd (suspendTask own t s))"
proof (cases "own \<and> t \<notin> cs_suspended s")
  case True
  assume "susp_ok s"
  let ?s = "addSuspendedTaskMeta t s"
  have "live (filter (\<lambda>t. t \<noteq> None) ids) = live ids" for ids :: "nat option list" by simp
  then have "live_ids ?s = live_ids s @ [t]" by (simp add: addSuspendedTaskMeta_def live_ids_def Let_def del: not_None_eq)
  moreover have "cs_suspended ?s = insert t (cs_suspended s)" by (simp add: addSuspendedTaskMeta_def Let_def)
  moreover have "susp_ok (snd (suspendTask own t s)) = susp_ok ?s"
    using True by (intro susp_ok_fields) (simp add: suspendTask_def runTickLoop_def susp_fields_def)
  ultimately show ?thesis using \<open>susp_ok s\<close> True by (simp add: susp_ok_def)
qed (auto simp: suspendTask_def)

text \<open>What the loop of a tick does for the tasks \<open>ids\<close>, when none of them was rejected.\<close>

lemma tick_tasks_ready:
  assumes "susp_ok s" "distinct ids" "set ids \<subseteq> cs_suspended s" "\<forall>t\<in>set ids. \<not> tick_rejected env t"
  shows "\<exists>s'. tick_tasks env ids s = (Inr False, s') \<and> susp_ok s' \<and>
    live_ids s' = filter (\<lambda>t. \<not> (t \<in> set ids \<and> tick_ready env t)) (live_ids s) \<and>
    cs_resumed s' = cs_resumed s @ map (\<lambda>t. (t, \<not> tick_cancelled env t)) (filter (tick_ready env) ids)"
  using assms
proof (induction ids arbitrary: s)
  case (Cons t ids)
  show ?case
  proof (cases "tick_ready env t")
    case True
    let ?s = "resumeTaskByID (tick_cancelled env) t s"
    note p = resume_props [OF Cons.prems(1), where c = "tick_cancelled env" and t = t]
    have m: "cs_suspended ?s = set (live_ids ?s)" using p(2) by (simp add: susp_ok_def)
    have i: "set ids \<subseteq> cs_suspended ?s" using Cons.prems unfolding m p(1) by (auto simp: susp_ok_def)
    from Cons.IH [OF p(2) _ i] Cons.prems obtain s' where s': "tick_tasks env ids ?s = (Inr False, s')" "susp_ok s'"
      "live_ids s' = filter (\<lambda>t. \<not> (t \<in> set ids \<and> tick_ready env t)) (live_ids ?s)"
      "cs_resumed s' = cs_resumed ?s @ map (\<lambda>t. (t, \<not> tick_cancelled env t)) (filter (tick_ready env) ids)" by auto
    have "live_ids s' = filter (\<lambda>u. \<not> (u \<in> set (t # ids) \<and> tick_ready env u)) (live_ids s)"
      unfolding s'(3) p(1) filter_filter using True by (intro filter_cong) auto
    with s' p(3) Cons.prems True show ?thesis by simp
  next
    case False
    from Cons.IH [OF Cons.prems(1)] Cons.prems obtain s' where s': "tick_tasks env ids s = (Inr False, s')" "susp_ok s'"
      "live_ids s' = filter (\<lambda>t. \<not> (t \<in> set ids \<and> tick_ready env t)) (live_ids s)"
      "cs_resumed s' = cs_resumed s @ map (\<lambda>t. (t, \<not> tick_cancelled env t)) (filter (tick_ready env) ids)" by auto
    have "live_ids s' = filter (\<lambda>u. \<not> (u \<in> set (t # ids) \<and> tick_ready env u)) (live_ids s)"
      unfolding s'(3) using False by (intro filter_cong) auto
    with s' Cons.prems False show ?thesis by simp
  qed
qed simp

text \<open>In general the loop does not throw, and it keeps the invariant.\<close>

lemma tick_tasks_total:
  assumes "susp_ok s" "distinct ids" "set ids \<subseteq> cs_suspended s"
  shows "\<exists>b s'. tick_tasks env ids s = (Inr b, s') \<and> susp_ok s'"
  using assms
proof (induction ids arbitrary: s)
  case (Cons t ids)
  let ?s = "resumeTaskByID (tick_cancelled env) t s"
  note p = resume_props [OF Cons.prems(1), where c = "tick_cancelled env" and t = t]
  have m: "cs_suspended ?s = set (live_ids ?s)" using p(2) by (simp add: susp_ok_def)
  have i: "set ids \<subseteq> cs_suspended ?s" using Cons.prems unfolding m p(1) by (auto simp: susp_ok_def)
  from Cons.IH [OF p(2) _ i] Cons.IH [OF Cons.prems(1)] Cons.prems p(2) show ?case by auto
qed (auto intro!: exI [of _ False])

lemma tick_total: "susp_ok s \<Longrightarrow> \<exists>b s'. tick env s = (Inr b, s') \<and> susp_ok s'"
  using tick_tasks_total [of s "live_ids s" env] by (auto simp: tick_def jbind_def susp_ok_def)

lemma release_fields: "susp_fields (snd (run_release th i hs s)) = susp_fields s"
  by (induction th i hs s rule: run_release.induct) (auto simp: susp_fields_def Let_def split: option.split)

lemma other_fields:
  "susp_fields (snd (setBackpressure v s)) = susp_fields s" "susp_fields (snd (incrementBackpressure s)) = susp_fields s"
  "susp_fields (snd (decrementBackpressure s)) = susp_fields s" "susp_fields (addBackpressureWaiter s) = susp_fields s"
  "susp_fields (snd (removeBackpressureWaiter s)) = susp_fields s" "susp_fields (snd (registerHandler e f s)) = susp_fields s"
  "susp_fields (removeHandler e h s) = susp_fields s" "susp_fields (exclusiveLock s) = susp_fields s"
  "susp_fields (onNextExclusiveRelease f s) = susp_fields s" "susp_fields (slot_enter t s) = susp_fields s"
  "susp_fields (slot_exit t s) = susp_fields s" "susp_fields (snd (slot_check t s)) = susp_fields s"
  "susp_fields (cs_setErrored er d s) = susp_fields s" "susp_fields (callingSyncImport b s) = susp_fields s"
proof -
  show i: "susp_fields (snd (setBackpressure v s)) = susp_fields s" for v s by (simp add: susp_fields_def setBackpressure_def)
  show "susp_fields (snd (incrementBackpressure s)) = susp_fields s" "susp_fields (snd (decrementBackpressure s)) = susp_fields s"
    by (simp_all add: incrementBackpressure_def decrementBackpressure_def Let_def i)
  show "susp_fields (removeHandler e h s) = susp_fields s" by (simp add: removeHandler_def susp_fields_def split: option.split)
  show "susp_fields (snd (slot_check t s)) = susp_fields s"
    by (simp add: slot_check_def susp_fields_def Let_def split: option.split)
  show "susp_fields (snd (registerHandler e f s)) = susp_fields s"
    by (simp add: registerHandler_def susp_fields_def Let_def)
qed (simp_all add: susp_fields_def addBackpressureWaiter_def removeBackpressureWaiter_def
    exclusiveLock_def onNextExclusiveRelease_def slot_enter_def slot_exit_def cs_setErrored_def callingSyncImport_def Let_def)

lemmas other_ok = other_fields [THEN susp_ok_fields]

lemma cs_step_ok: "susp_ok s \<Longrightarrow> susp_ok (cs_step c s)"
proof (cases c)
  case (CsTick env)
  assume "susp_ok s"
  from tick_total [OF this, of env] obtain b s' where "tick env s = (Inr b, s')" "susp_ok s'" by blast
  with CsTick show ?thesis by (auto simp: tick_round_def jbind_def jassign_def jret_def susp_ok_def live_ids_def)
next
  case (CsRelease th)
  assume "susp_ok s"
  moreover have "susp_fields (cs_step c s) = susp_fields s"
    by (simp add: CsRelease exclusiveRelease_def Let_def release_fields) (simp add: susp_fields_def)
  ultimately show ?thesis using susp_ok_fields by blast
qed (simp_all add: suspend_ok resume_props other_ok)

lemma cs_run_ok: "susp_ok (fold cs_step cmds cstate_new)"
proof -
  have "susp_ok s \<Longrightarrow> susp_ok (fold cs_step cmds s)" for s
    by (induction cmds arbitrary: s) (simp_all add: cs_step_ok)
  then show ?thesis by (simp add: susp_ok_def cstate_new_def live_ids_def)
qed

section \<open>Properties\<close>


definition cs_demo :: "cs_cmd list" where
  "cs_demo = [CsSuspend True 4, CsSuspend True 7, CsSuspend True 4]"

lemma demo_susp: "live_ids (fold cs_step cs_demo cstate_new) = [4, 7]"
  "cs_resumed (fold cs_step cs_demo cstate_new) = []"
  by (simp_all add: cs_demo_def cstate_new_def suspendTask_def addSuspendedTaskMeta_def runTickLoop_def live_ids_def Let_def)


end
