(* ===== verification/Async_Task.thy ===== *)
theory Async_Task
  imports Subtask Comp_State
begin

text \<open>
  The class \<open>AsyncTask\<close> of the emitted runtime
  (\<open>src/crates/js-component-bindgen/src/intrinsics/p3/async_task.rs\<close>): its construction, the
  setters, resolution, rejection, cancellation and exit (which releases the lock of the component), and
  the bookkeeping of the current tasks (\<open>createNewCurrentTask\<close>, \<open>getCurrentTask\<close>, \<open>clearCurrentTask\<close>). The asynchronous methods
  (\<open>enter\<close>, \<open>waitUntil\<close>, \<open>suspendUntil\<close>) are not modelled, nor is what the handlers, the post-return
  function and the return function of the caller do: they are numbers, as in \<open>Subtask\<close>.
\<close>

section \<open>State\<close>

text \<open>The object \<open>AsyncTask.State\<close> has no key \<open>PENDING_CANCEL\<close>, the name that \<open>reject\<close> and
  \<open>deliverPendingCancel\<close> use: it reads as \<open>undefined\<close>.\<close>

datatype task_state = INITIAL | CANCELLED | CANCEL_PENDING | CANCEL_DELIVERED | RESOLVED | UNDEFINED

definition PENDING_CANCEL :: task_state where
  "PENDING_CANCEL = UNDEFINED"

text \<open>A resolution handler is the one that the constructor registers, or a function that was registered.\<close>

datatype handler = Completion | Registered nat

datatype 'v promise = Waiting | Fulfilled "'v jsv" | FulfilledAsValue "'v jsv" | RejectedWith "'v jsv"

record 'v task =
  tk_id :: nat
  tk_componentIdx :: int
  tk_state :: task_state
  tk_isAsync :: bool
  tk_isManualAsync :: bool
  tk_preserveFutureResult :: bool
  tk_onResolveHandlers :: "handler list"
  tk_completion :: "'v promise"
  tk_rejected :: bool
  tk_exitResolved :: bool
  tk_onExitHandlers :: "handler list"
  tk_callbackFn :: "nat option"
  tk_postReturnFn :: "nat option"
  tk_returnFn :: "nat option"
  tk_returnFnCalled :: bool
  tk_parentSubtask :: "'v sub_state option"
  tk_exited :: bool
  tk_errored :: "'v jsv option"
  tk_cancelled :: bool
  tk_cancelRequested :: bool
  tk_runs :: "handler list"

type_synonym ('a, 'v) top = "('a, 'v task) jsop"

text \<open>The values of the errors that the methods make themselves.\<close>

record 'v task_env =
  te_call :: "'v callable"
  te_cancelled_error :: "'v jsv"
  te_is_future :: "'v jsv \<Rightarrow> bool"

definition task_new :: "nat \<Rightarrow> int \<Rightarrow> bool \<Rightarrow> bool \<Rightarrow> bool \<Rightarrow> nat option \<Rightarrow> 'v task" where
  "task_new tid componentIdx isAsync isManualAsync preserve callbackFn =
     \<lparr>tk_id = tid, tk_componentIdx = componentIdx, tk_state = INITIAL, tk_isAsync = isAsync, tk_isManualAsync = isManualAsync,
       tk_preserveFutureResult = preserve, tk_onResolveHandlers = [Completion], tk_completion = Waiting, tk_rejected = False,
       tk_exitResolved = False, tk_onExitHandlers = [Completion], tk_callbackFn = callbackFn, tk_postReturnFn = None,
       tk_returnFn = None, tk_returnFnCalled = False, tk_parentSubtask = None, tk_exited = False, tk_errored = None,
       tk_cancelled = False, tk_cancelRequested = False, tk_runs = []\<rparr>"

section \<open>Setters\<close>

text \<open>The subtask comes with the return function of its call metadata.\<close>

definition setParentSubtask :: "'v sub_state \<Rightarrow> nat option \<Rightarrow> (unit, 'v) top" where
  "setParentSubtask st returnFn =
     jbind (jguard (\<lambda>t. tk_parentSubtask t \<noteq> None) (Err ''parent subtask can only be set once''))
       (\<lambda>_. jassign (\<lambda>t. t\<lparr>tk_parentSubtask := Some st, tk_returnFn := returnFn\<rparr>))"

definition setPostReturnFn :: "nat option \<Rightarrow> (unit, 'v) top" where
  "setPostReturnFn f =
     (case f of None \<Rightarrow> jret ()
      | Some g \<Rightarrow> jbind (jguard (\<lambda>t. tk_postReturnFn t \<noteq> None) (Err ''postReturn fn can only be set once''))
          (\<lambda>_. jassign (\<lambda>t. t\<lparr>tk_postReturnFn := Some g\<rparr>)))"

definition setCallbackFn :: "nat option \<Rightarrow> (unit, 'v) top" where
  "setCallbackFn f =
     (case f of None \<Rightarrow> jret ()
      | Some g \<Rightarrow> jbind (jguard (\<lambda>t. tk_callbackFn t \<noteq> None) (Err ''callback fn can only be set once''))
          (\<lambda>_. jassign (\<lambda>t. t\<lparr>tk_callbackFn := Some g\<rparr>)))"

definition registerOnResolveHandler :: "nat \<Rightarrow> (unit, 'v) top" where
  "registerOnResolveHandler f = jassign (\<lambda>t. t\<lparr>tk_onResolveHandlers := tk_onResolveHandlers t @ [Registered f]\<rparr>)"

definition setErrored :: "'v jsv \<Rightarrow> (unit, 'v) top" where
  "setErrored err = jassign (\<lambda>t. t\<lparr>tk_errored := Some err\<rparr>)"

definition task_isResolved :: "'v task \<Rightarrow> bool" where
  "task_isResolved t = (tk_state t = RESOLVED)"

definition needsExclusiveLock :: "'v task \<Rightarrow> bool" where
  "needsExclusiveLock t = (\<not> tk_isAsync t \<or> tk_callbackFn t \<noteq> None)"

definition mayBlock :: "'v task \<Rightarrow> bool" where
  "mayBlock t = (tk_isAsync t \<or> task_isResolved t)"

section \<open>Resolution\<close>

text \<open>Settling a promise a second time has no effect.\<close>

definition settle_completion :: "'v promise \<Rightarrow> 'v task \<Rightarrow> 'v task" where
  "settle_completion p t = (if tk_completion t = Waiting then t\<lparr>tk_completion := p\<rparr> else t)"

text \<open>The handler that the constructor registers.\<close>

definition completion_handler :: "'v task_env \<Rightarrow> 'v jsv \<Rightarrow> 'v task \<Rightarrow> 'v task" where
  "completion_handler env results t =
     (if tk_parentSubtask t \<noteq> None then t
      else if \<not> tk_isAsync t then t
      else case tk_errored t of
        Some e \<Rightarrow> settle_completion (RejectedWith e) t
      | None \<Rightarrow>
          if tk_rejected t then settle_completion (RejectedWith results) t
          else if tk_preserveFutureResult t \<and> te_is_future env results
          then settle_completion (FulfilledAsValue results) t
          else settle_completion (Fulfilled results) t)"

definition run_handler :: "'v task_env \<Rightarrow> 'v jsv \<Rightarrow> handler \<Rightarrow> (unit, 'v) top" where
  "run_handler env v h =
     jbind (jassign (\<lambda>t. t\<lparr>tk_runs := tk_runs t @ [h]\<rparr>)) (\<lambda>_.
       case h of
         Completion \<Rightarrow> jassign (completion_handler env v)
       | Registered f \<Rightarrow> (\<lambda>t. (map_sum id (\<lambda>_. ()) (te_call env f v), t)))"

definition call_if :: "'v task_env \<Rightarrow> nat option \<Rightarrow> 'v jsv \<Rightarrow> (unit, 'v) top" where
  "call_if env f v = (case f of None \<Rightarrow> jret () | Some g \<Rightarrow> (\<lambda>t. (map_sum id (\<lambda>_. ()) (te_call env g v), t)))"

definition run_returnFn :: "'v task_env \<Rightarrow> 'v jsv \<Rightarrow> (unit, 'v) top" where
  "run_returnFn env v t =
     (if tk_parentSubtask t \<noteq> None \<and> tk_returnFn t \<noteq> None \<and> \<not> tk_returnFnCalled t
      then jbind (call_if env (tk_returnFn t) v) (\<lambda>_. jassign (\<lambda>t. t\<lparr>tk_returnFnCalled := True\<rparr>)) t
      else (Inr (), t))"

definition resolve_parent :: "'v task_env \<Rightarrow> 'v jsv \<Rightarrow> (unit, 'v) top" where
  "resolve_parent env v t =
     (case tk_parentSubtask t of
        None \<Rightarrow> (Inr (), t)
      | Some st \<Rightarrow> (case st_onResolve (te_call env) v st of (r, st') \<Rightarrow> (r, t\<lparr>tk_parentSubtask := Some st'\<rparr>)))"

definition task_onResolve :: "'v task_env \<Rightarrow> 'v jsv \<Rightarrow> (unit, 'v) top" where
  "task_onResolve env v t =
     (let handlers = tk_onResolveHandlers t in
      jbind (jassign (\<lambda>t. t\<lparr>tk_onResolveHandlers := []\<rparr>)) (\<lambda>_.
      jbind (jseq (run_handler env v) handlers) (\<lambda>_.
      jbind (run_returnFn env v) (\<lambda>_.
      jbind (\<lambda>t. call_if env (tk_postReturnFn t) v t) (\<lambda>_.
        resolve_parent env v)))) t)"

section \<open>Cancellation\<close>

definition deliverPendingCancel :: "bool \<Rightarrow> 'v task \<Rightarrow> bool \<times> 'v task" where
  "deliverPendingCancel cancellable t =
     (if cancellable \<and> tk_state t = PENDING_CANCEL then (True, t\<lparr>tk_state := CANCEL_DELIVERED\<rparr>) else (False, t))"

text \<open>\<open>borrowedHandles\<close> is an object literal without a length, so its check never fails.\<close>

definition cancel :: "'v task_env \<Rightarrow> 'v jsv option \<Rightarrow> (unit, 'v) top" where
  "cancel env err =
     jbind (jguard (\<lambda>t. tk_state t \<noteq> CANCEL_DELIVERED) (Err ''invalid task state for cancellation'')) (\<lambda>_.
     jbind (jassign (\<lambda>t. t\<lparr>tk_cancelled := True\<rparr>)) (\<lambda>_.
     jbind (task_onResolve env (case err of Some e \<Rightarrow> e | None \<Rightarrow> te_cancelled_error env)) (\<lambda>_.
       jassign (\<lambda>t. t\<lparr>tk_state := RESOLVED\<rparr>))))"

definition task_reject :: "'v task_env \<Rightarrow> 'v jsv \<Rightarrow> (unit, 'v) top" where
  "task_reject env err t =
     (if task_isResolved t \<or> tk_rejected t then (Inr (), t)
      else
        let t1 = t\<lparr>tk_rejected := True, tk_cancelRequested := True, tk_state := PENDING_CANCEL\<rparr>;
            (cancelled, t2) = deliverPendingCancel True t1
        in cancel env (Some err) t2)"

definition resolve :: "'v task_env \<Rightarrow> 'v jsv list \<Rightarrow> (unit, 'v) top" where
  "resolve env results =
     jbind (jguard (\<lambda>t. tk_state t = RESOLVED) (Err ''task is already resolved (did you forget to wait for an import?)'')) (\<lambda>_.
     jbind (jassign (\<lambda>t. t\<lparr>tk_state := RESOLVED\<rparr>)) (\<lambda>_.
       case results of
         [] \<Rightarrow> task_onResolve env JUndef
       | [r] \<Rightarrow> task_onResolve env r
       | _ \<Rightarrow> jthrow (Err ''unexpected number of results'')))"

section \<open>The current tasks\<close>

record task_meta =
  tm_id :: nat
  tm_componentIdx :: int

text \<open>\<open>ASYNC_TASKS_BY_COMPONENT_IDX\<close>, \<open>ASYNC_CURRENT_TASK_IDS\<close>, \<open>ASYNC_CURRENT_COMPONENT_IDXS\<close> and the
  counter of task ids.\<close>

record current_tasks =
  ct_tasks :: "int \<rightharpoonup> task_meta list"
  ct_ids :: "nat list"
  ct_components :: "int list"
  ct_counter :: nat

definition current_tasks_new :: current_tasks where
  "current_tasks_new = \<lparr>ct_tasks = Map.empty, ct_ids = [], ct_components = [], ct_counter = 0\<rparr>"

definition createNewCurrentTask :: "int option \<Rightarrow> (nat, current_tasks) jsop" where
  "createNewCurrentTask componentIdx ct =
     (case componentIdx of
        None \<Rightarrow> (Inl (Err ''missing/invalid component instance index while starting task''), ct)
      | Some c \<Rightarrow>
          (let tid = ct_counter ct + 1; meta = \<lparr>tm_id = tid, tm_componentIdx = c\<rparr> in
           (Inr tid,
            ct\<lparr>ct_counter := tid, ct_ids := ct_ids ct @ [tid], ct_components := ct_components ct @ [c],
               ct_tasks := (ct_tasks ct)(c \<mapsto> (case ct_tasks ct c of None \<Rightarrow> [meta] | Some ms \<Rightarrow> ms @ [meta]))\<rparr>)))"

text \<open>With an id, the first task with that id; without, the newest task.\<close>

definition getCurrentTask :: "int option \<Rightarrow> nat option \<Rightarrow> current_tasks \<Rightarrow> task_meta option js" where
  "getCurrentTask componentIdx taskID ct =
     (case componentIdx of
        None \<Rightarrow> Inl (Err ''missing component idx'')
      | Some c \<Rightarrow>
          (case ct_tasks ct c of
             None \<Rightarrow> Inr None
           | Some [] \<Rightarrow> Inr None
           | Some ms \<Rightarrow>
               (case taskID of
                  Some i \<Rightarrow> if i \<noteq> 0 then Inr (find (\<lambda>m. tm_id m = i) ms) else Inr (Some (last ms))
                | None \<Rightarrow> Inr (Some (last ms)))))"

definition clearCurrentTask :: "int option \<Rightarrow> nat option \<Rightarrow> (nat option, current_tasks) jsop" where
  "clearCurrentTask componentIdx taskID ct =
     (case componentIdx of
        None \<Rightarrow> (Inl (Err ''missing/invalid component instance index while ending current task''), ct)
      | Some c \<Rightarrow>
          (case ct_tasks ct c of
             None \<Rightarrow> (Inl (Err ''missing/invalid tasks for component instance while ending task''), ct)
           | Some ms \<Rightarrow>
               if ms = [] then (Inl (Err ''no current tasks for component instance while ending task''), ct)
               else if (case taskID of None \<Rightarrow> False | Some i \<Rightarrow> tm_id (last ms) \<noteq> i) then (Inr None, ct)
               else (Inr (Some (tm_id (last ms))),
                     ct\<lparr>ct_ids := butlast (ct_ids ct), ct_components := butlast (ct_components ct),
                        ct_tasks := (ct_tasks ct)(c \<mapsto> butlast ms)\<rparr>)))"

section \<open>Exit\<close>

definition run_exit_handler :: "'v task_env \<Rightarrow> handler \<Rightarrow> (unit, 'v) top" where
  "run_exit_handler env h =
     (case h of
        Completion \<Rightarrow> jassign (\<lambda>t. t\<lparr>tk_exitResolved := True\<rparr>)
      | Registered f \<Rightarrow> call_if env (Some f) JUndef)"

text \<open>The exit of a task concerns the task, the state of its component and the current tasks. \<open>skip\<close> is the
  option \<open>skipExclusiveLockCheck\<close>; \<open>throws\<close> is what the release handlers throw.\<close>

record 'v exit_state =
  es_task :: "'v task"
  es_cstate :: cstate
  es_current :: current_tasks

definition on_task :: "('a, 'v) top \<Rightarrow> ('a, 'v exit_state) jsop" where
  "on_task = jpart es_task (\<lambda>t s. s\<lparr>es_task := t\<rparr>)"

definition task_exit :: "'v task_env \<Rightarrow> (nat \<Rightarrow> js_error option) \<Rightarrow> bool \<Rightarrow> (unit, 'v exit_state) jsop" where
  "task_exit env throws skip =
     jbind (jguard (\<lambda>s. tk_exited (es_task s)) (Err ''task has already exited'')) (\<lambda>_.
     jbind (jguard (\<lambda>s. tk_state (es_task s) \<noteq> RESOLVED) (Err ''task exited without resolution'')) (\<lambda>_.
     jbind (jguard (\<lambda>s. tk_componentIdx (es_task s) \<noteq> -1 \<and> \<not> skip \<and> needsExclusiveLock (es_task s) \<and> \<not> cs_locked (es_cstate s))
              (Err ''task exit: component should have been exclusively locked'')) (\<lambda>_.
     jbind (jpart es_cstate (\<lambda>c s. s\<lparr>es_cstate := c\<rparr>) (exclusiveRelease throws)) (\<lambda>_.
     jbind (on_task (\<lambda>t. jseq (run_exit_handler env) (tk_onExitHandlers t) t)) (\<lambda>_.
     jbind (on_task (jassign (\<lambda>t. t\<lparr>tk_exited := True\<rparr>))) (\<lambda>_ s.
     jbind (jpart es_current (\<lambda>c s. s\<lparr>es_current := c\<rparr>)
              (clearCurrentTask (Some (tk_componentIdx (es_task s))) (Some (tk_id (es_task s))))) (\<lambda>_. jret ()) s))))))"

section \<open>Sequences of operations\<close>

datatype 'v task_cmd =
    TkRegister nat
  | TkSetParent "'v sub_state" "nat option"
  | TkSetPostReturn "nat option"
  | TkSetCallback "nat option"
  | TkSetErrored "'v jsv"
  | TkDeliverCancel bool
  | TkCancel "'v jsv option"
  | TkReject "'v jsv"
  | TkResolve "'v jsv list"
  | TkExit "nat \<Rightarrow> js_error option" bool cstate current_tasks

fun task_step :: "'v task_env \<Rightarrow> 'v task_cmd \<Rightarrow> 'v task \<Rightarrow> 'v task" where
  "task_step env (TkRegister f) t = snd (registerOnResolveHandler f t)"
| "task_step env (TkSetParent st r) t = snd (setParentSubtask st r t)"
| "task_step env (TkSetPostReturn f) t = snd (setPostReturnFn f t)"
| "task_step env (TkSetCallback f) t = snd (setCallbackFn f t)"
| "task_step env (TkSetErrored e) t = snd (setErrored e t)"
| "task_step env (TkDeliverCancel c) t = snd (deliverPendingCancel c t)"
| "task_step env (TkCancel e) t = snd (cancel env e t)"
| "task_step env (TkReject e) t = snd (task_reject env e t)"
| "task_step env (TkResolve rs) t = snd (resolve env rs t)"
| "task_step env (TkExit th k cs ct) t = es_task (snd (task_exit env th k \<lparr>es_task = t, es_cstate = cs, es_current = ct\<rparr>))"

fun registered :: "'v task_cmd list \<Rightarrow> handler list" where
  "registered [] = []"
| "registered (TkRegister f # cs) = Registered f # registered cs"
| "registered (_ # cs) = registered cs"

section \<open>Invariant\<close>

text \<open>\<open>reg\<close> lists the handlers registered so far, \<open>hs\<close> the handlers that \<open>onResolve\<close> is about to run.\<close>

definition running :: "handler list \<Rightarrow> handler list \<Rightarrow> 'v task \<Rightarrow> bool" where
  "running reg hs t \<longleftrightarrow>
     (\<forall>h. count_list (tk_runs t) h + count_list hs h + count_list (tk_onResolveHandlers t) h \<le> count_list reg h) \<and>
     (tk_exited t \<longrightarrow> tk_state t = RESOLVED)"

definition task_inv :: "handler list \<Rightarrow> 'v task \<Rightarrow> bool" where
  "task_inv reg t \<longleftrightarrow> running reg [] t \<and> tk_state t \<in> {INITIAL, CANCEL_DELIVERED, RESOLVED}"

text \<open>A part of the invariant that most operations trivially keep: it depends on three fields only.\<close>

definition shape :: "'v task \<Rightarrow> task_state \<times> handler list \<times> handler list \<times> bool" where
  "shape t = (tk_state t, tk_runs t, tk_onResolveHandlers t, tk_exited t)"

lemma jkeeps_value: "jkeeps P (\<lambda>t. (r t, t))"
  by (simp add: jkeeps_def)

lemma shape_call_if [keeps]: "jkeeps (\<lambda>t. shape t = x) (call_if env f v)"
  by (auto simp: call_if_def jkeeps_value split: option.split)

lemma shape_returnFn [keeps]: "jkeeps (\<lambda>t. shape t = x) (run_returnFn env v)"
proof -
  have "jkeeps (\<lambda>t. shape t = x) (jbind (call_if env f v) (\<lambda>_. jassign (\<lambda>t. t\<lparr>tk_returnFnCalled := True\<rparr>)))" for f
    by (intro keeps jkeeps_assign) (simp add: shape_def)
  then show ?thesis unfolding run_returnFn_def jkeeps_def by auto
qed

lemma shape_parent [keeps]: "jkeeps (\<lambda>t. shape t = x) (resolve_parent env v)"
  by (auto simp: jkeeps_def resolve_parent_def shape_def split: option.split prod.split)

lemma shape_completion [simp]: "shape (completion_handler env v t) = shape t"
  by (auto simp: completion_handler_def settle_completion_def shape_def split: option.split)

lemma run_handler_shape:
  "shape (snd (run_handler env v h t)) = (tk_state t, tk_runs t @ [h], tk_onResolveHandlers t, tk_exited t)"
  by (cases h) (auto simp: run_handler_def jbind_def jassign_def, simp_all add: shape_def)

lemma running_shape: "shape t = shape t' \<Longrightarrow> running reg hs t = running reg hs t'"
  by (simp add: shape_def running_def)

lemma task_inv_shape: "shape t = shape t' \<Longrightarrow> task_inv reg t = task_inv reg t'"
  using running_shape by (fastforce simp: task_inv_def shape_def)

lemma run_handlers_keep:
  "running reg hs t \<Longrightarrow> running reg [] (snd (jseq (run_handler env v) hs t)) \<and> tk_state (snd (jseq (run_handler env v) hs t)) = tk_state t"
proof (induction hs arbitrary: t)
  case Nil
  then show ?case by (simp add: jret_def)
next
  case (Cons h hs)
  obtain r t1 where t1: "run_handler env v h t = (r, t1)" by fastforce
  with run_handler_shape [of env v h t] have
    s: "tk_state t1 = tk_state t" "tk_runs t1 = tk_runs t @ [h]" "tk_onResolveHandlers t1 = tk_onResolveHandlers t"
      "tk_exited t1 = tk_exited t" by (simp_all add: shape_def)
  have n: "count_list (tk_runs t1) k + count_list hs k + count_list (tk_onResolveHandlers t1) k \<le> count_list reg k" for k
  proof -
    have "count_list (tk_runs t) k + count_list (h # hs) k + count_list (tk_onResolveHandlers t) k \<le> count_list reg k"
      using Cons.prems by (simp add: running_def)
    then show ?thesis by (simp add: s split: if_splits)
  qed
  with Cons.prems s have "running reg hs t1" by (simp add: running_def)
  moreover have "count_list (tk_runs t1) k + count_list (tk_onResolveHandlers t1) k \<le> count_list reg k" for k
    using n [of k] by linarith
  with Cons.prems s have "running reg [] t1" by (simp add: running_def)
  ultimately show ?case using Cons.IH [of t1] t1 s(1) by (cases r) (simp_all add: jbind_def)
qed

lemma jkeeps_shape:
  fixes m :: "('a, 'v) top"
  assumes "\<And>x. jkeeps (\<lambda>t. shape t = x) m"
  shows "jkeeps (\<lambda>t. running reg hs t \<and> tk_state t = st) m"
  unfolding jkeeps_def
proof (intro allI impI)
  fix t :: "'v task"
  assume t: "running reg hs t \<and> tk_state t = st"
  have "shape (snd (m t)) = shape t" using assms [of "shape t"] by (simp add: jkeeps_def)
  from running_shape [OF this] this t show "running reg hs (snd (m t)) \<and> tk_state (snd (m t)) = st"
    by (simp add: shape_def)
qed

lemma shape_postReturn [keeps]: "jkeeps (\<lambda>t. shape t = x) (\<lambda>t. call_if env (tk_postReturnFn t) v t)"
  by (auto simp: jkeeps_def call_if_def jret_def split: option.split)

lemma onResolve_keeps:
  assumes "running reg [] t"
  shows "running reg [] (snd (task_onResolve env v t)) \<and> tk_state (snd (task_onResolve env v t)) = tk_state t"
proof -
  let ?P = "\<lambda>u. running reg [] u \<and> tk_state u = tk_state t"
  let ?t = "t\<lparr>tk_onResolveHandlers := []\<rparr>"
  have r: "running reg (tk_onResolveHandlers t) ?t" using assms by (simp add: running_def)
  have k: "jkeeps ?P (jbind (run_returnFn env v) (\<lambda>_. jbind (\<lambda>t. call_if env (tk_postReturnFn t) v t) (\<lambda>_. resolve_parent env v)))"
    by (rule jkeeps_shape) (intro keeps)
  have h: "?P (snd (jseq (run_handler env v) (tk_onResolveHandlers t) ?t))" using run_handlers_keep [OF r] by simp
  obtain x u where u: "jseq (run_handler env v) (tk_onResolveHandlers t) ?t = (x, u)" by fastforce
  with h jkeepsD [OF k, of u] show ?thesis
    by (cases x) (simp_all add: task_onResolve_def jbind_def [of "jassign _"] jassign_def jbind_def [of "jseq _ _"])
qed

lemma task_inv_cancel: "task_inv reg t \<Longrightarrow> task_inv reg (snd (cancel env e t))"
proof (cases "tk_state t = CANCEL_DELIVERED")
  case True
  assume i: "task_inv reg t"
  let ?v = "case e of Some e \<Rightarrow> e | None \<Rightarrow> te_cancelled_error env"
  have "running reg [] (t\<lparr>tk_cancelled := True\<rparr>)" using i by (simp add: task_inv_def running_def)
  from onResolve_keeps [OF this, of env ?v] have
    k: "running reg [] (snd (task_onResolve env ?v (t\<lparr>tk_cancelled := True\<rparr>)))"
    "tk_state (snd (task_onResolve env ?v (t\<lparr>tk_cancelled := True\<rparr>))) = CANCEL_DELIVERED" using True by simp_all
  obtain x u where u: "task_onResolve env ?v (t\<lparr>tk_cancelled := True\<rparr>) = (x, u)" by fastforce
  with k True show ?thesis
    by (cases x) (auto simp: cancel_def jbind_def jguard_def jassign_def task_inv_def running_def)
next
  case False
  assume "task_inv reg t"
  with False show ?thesis by (simp add: cancel_def jbind_def jguard_def)
qed

lemma task_inv_reject:
  assumes "task_inv reg t"
  shows "task_inv reg (snd (task_reject env e t))"
proof (cases "task_isResolved t \<or> tk_rejected t")
  case False
  let ?t = "t\<lparr>tk_rejected := True, tk_cancelRequested := True, tk_state := CANCEL_DELIVERED\<rparr>"
  have "task_inv reg ?t" using assms False by (auto simp: task_inv_def running_def task_isResolved_def)
  from task_inv_cancel [OF this] False show ?thesis
    by (simp add: task_reject_def deliverPendingCancel_def)
qed (use assms in \<open>simp add: task_reject_def\<close>)

lemma task_inv_resolve:
  assumes "task_inv reg t"
  shows "task_inv reg (snd (resolve env rs t))"
proof (cases "tk_state t = RESOLVED")
  case False
  let ?t = "t\<lparr>tk_state := RESOLVED\<rparr>"
  have r: "running reg [] ?t" using assms by (auto simp: task_inv_def running_def)
  have "task_inv reg (snd ((case rs of [] \<Rightarrow> task_onResolve env JUndef | [r] \<Rightarrow> task_onResolve env r
      | _ \<Rightarrow> jthrow (Err ''unexpected number of results'')) ?t))"
    using onResolve_keeps [OF r] r by (auto simp: task_inv_def jthrow_def split: list.split)
  with False show ?thesis by (simp add: resolve_def jbind_def jguard_def jassign_def)
qed (use assms in \<open>simp add: resolve_def jbind_def jguard_def\<close>)

lemma task_inv_exit:
  assumes "task_inv reg (es_task s)"
  shows "task_inv reg (es_task (snd (task_exit env th k s)))"
proof (cases "tk_state (es_task s) = RESOLVED")
  case True
  let ?Q = "\<lambda>t. running reg [] t \<and> tk_state t = RESOLVED" and ?P = "\<lambda>s. running reg [] (es_task s) \<and> tk_state (es_task s) = RESOLVED"
  have "jkeeps ?Q (run_exit_handler env h)" for h
    by (cases h) (auto simp: run_exit_handler_def jkeeps_def jassign_def running_def call_if_def)
  then have "jkeeps ?Q (jseq (run_exit_handler env) hs)" for hs by (rule jkeeps_seq)
  then have "jkeeps ?Q (\<lambda>t. jseq (run_exit_handler env) (tk_onExitHandlers t) t)" by (simp add: jkeeps_def)
  then have h: "jkeeps ?P (on_task (\<lambda>t. jseq (run_exit_handler env) (tk_onExitHandlers t) t))"
    unfolding on_task_def by (rule jkeeps_part) simp_all
  have "jkeeps ?Q (jassign (\<lambda>t. t\<lparr>tk_exited := True\<rparr>))" by (rule jkeeps_assign) (simp add: running_def)
  then have e: "jkeeps ?P (on_task (jassign (\<lambda>t. t\<lparr>tk_exited := True\<rparr>)))" unfolding on_task_def by (rule jkeeps_part) simp_all
  have r: "jkeeps ?P (jpart es_cstate (\<lambda>c s. s\<lparr>es_cstate := c\<rparr>) m)" "jkeeps ?P (jpart es_current (\<lambda>c s. s\<lparr>es_current := c\<rparr>) m')" for m m'
    by (simp_all add: jkeeps_def jpart_def split: prod.split)
  have c: "jkeeps ?P (\<lambda>s. jbind (jpart es_current (\<lambda>c s. s\<lparr>es_current := c\<rparr>) (f s)) (\<lambda>_. jret ()) s)"
    for f :: "'a exit_state \<Rightarrow> (nat option, current_tasks) jsop"
    by (rule jkeeps_dep [of ?P "\<lambda>x. jbind (jpart es_current (\<lambda>c s. s\<lparr>es_current := c\<rparr>) (f x)) (\<lambda>_. jret ())"])
      (intro jkeeps_bind r jkeeps_ret)
  have "jkeeps ?P (task_exit env th k)"
    unfolding task_exit_def by (intro jkeeps_bind jkeeps_ret h e r c)
  with assms True show ?thesis by (simp add: task_inv_def jkeeps_def)
next
  case False
  with assms show ?thesis by (auto simp: task_exit_def jbind_def jguard_def)
qed

lemma shape_step:
  "jkeeps (\<lambda>t. shape t = x) (setParentSubtask st r)" "jkeeps (\<lambda>t. shape t = x) (setPostReturnFn f)"
  "jkeeps (\<lambda>t. shape t = x) (setCallbackFn f)" "jkeeps (\<lambda>t. shape t = x) (setErrored e)"
  by (auto simp: setParentSubtask_def setPostReturnFn_def setCallbackFn_def setErrored_def shape_def
    intro!: jkeeps_bind jkeeps_assign split: option.split)

lemma task_inv_keeps: "(\<And>x. jkeeps (\<lambda>t. shape t = x) m) \<Longrightarrow> task_inv reg t \<Longrightarrow> task_inv reg (snd (m t))"
  by (metis (mono_tags) jkeepsD task_inv_shape)

lemma task_inv_deliver: "task_inv reg t \<Longrightarrow> deliverPendingCancel c t = (False, t)"
  by (auto simp: deliverPendingCancel_def PENDING_CANCEL_def task_inv_def)

lemma task_step_inv:
  assumes "task_inv reg t"
  shows "task_inv (reg @ registered [c]) (task_step env c t)"
proof (cases c)
  case (TkRegister f)
  have "task_inv (reg @ [Registered f]) (t\<lparr>tk_onResolveHandlers := tk_onResolveHandlers t @ [Registered f]\<rparr>)"
    using assms by (simp add: task_inv_def running_def)
  with TkRegister show ?thesis by (simp add: registerOnResolveHandler_def jassign_def)
qed (use assms in \<open>simp_all add: task_inv_cancel task_inv_reject task_inv_resolve task_inv_exit task_inv_deliver
    task_inv_keeps shape_step\<close>)

lemma registered_Cons: "registered (c # cs) = registered [c] @ registered cs"
  by (cases c) simp_all

lemma task_run_inv: "task_inv reg t \<Longrightarrow> task_inv (reg @ registered cs) (fold (task_step env) cs t)"
proof (induction cs arbitrary: reg t)
  case (Cons c cs)
  from Cons.IH [OF task_step_inv [OF Cons.prems]] show ?case by (simp add: registered_Cons [of c cs])
qed simp

section \<open>Properties\<close>

text \<open>C14. The lifecycle of a task. Whatever is called on a new task, in any order and with any functions
  that throw: its state is initial, resolved, or (when a handler threw during a rejection) cancel
  delivered; a pending cancellation is never delivered to the code that asks for it; every resolution
  handler runs at most as often as it was registered, the completion handler at most once; and a task
  that has exited is resolved.\<close>

theorem task_lifecycle:
  fixes env :: "'v task_env"
  assumes "t = fold (task_step env) cs (task_new i c a m p f)"
  shows "tk_state t \<in> {INITIAL, CANCEL_DELIVERED, RESOLVED} \<and> fst (deliverPendingCancel b t) = False \<and>
    count_list (tk_runs t) Completion \<le> 1 \<and> (\<forall>h. count_list (tk_runs t) (Registered h) \<le> count_list (registered cs) (Registered h))
    \<and> (\<not> tk_exited t \<or> tk_state t = RESOLVED)"
proof -
  have "task_inv [Completion] (task_new i c a m p f :: 'v task)" by (simp add: task_inv_def running_def task_new_def)
  from task_run_inv [OF this, of cs env] have i: "task_inv (Completion # registered cs) t" by (simp add: assms)
  have "count_list (tk_runs t) h \<le> count_list (Completion # registered cs) h" for h
  proof -
    have "count_list (tk_runs t) h + count_list (tk_onResolveHandlers t) h \<le> count_list (Completion # registered cs) h"
      using i by (simp add: task_inv_def running_def)
    then show ?thesis by linarith
  qed
  moreover have "count_list (registered cs) Completion = 0" by (induction cs rule: registered.induct) simp_all
  ultimately have "count_list (tk_runs t) Completion \<le> 1"
    "count_list (tk_runs t) (Registered h) \<le> count_list (registered cs) (Registered h)" for h
    by (metis One_nat_def add_0 count_list.simps(2) plus_1_eq_Suc, metis count_list.simps(2) handler.distinct(1))
  with i task_inv_deliver [OF i, of b] show ?thesis by (auto simp: task_inv_def running_def)
qed

theorem task_lifecycle_witness:
  "count_list (tk_runs (fold (task_step \<lparr>te_call = (\<lambda>f v. Inr JUndef), te_cancelled_error = JObj 0, te_is_future = (\<lambda>_. False)\<rparr>)
     [TkRegister 7, TkResolve [JNum 1], TkReject (JObj (2 :: nat))] (task_new 1 0 True False False None))) Completion \<le> 1"
  using task_lifecycle [OF refl, of "\<lparr>te_call = (\<lambda>f v. Inr JUndef), te_cancelled_error = JObj 0, te_is_future = (\<lambda>_. False)\<rparr>"
     "[TkRegister 7, TkResolve [JNum 1], TkReject (JObj (2 :: nat))]" 1 0 True False False None] by blast

lemma demo_task:
  "tk_runs (fold (task_step \<lparr>te_call = (\<lambda>f v. Inr JUndef), te_cancelled_error = JObj 0, te_is_future = (\<lambda>_. False)\<rparr>)
     [TkRegister 7, TkResolve [JNum 1], TkReject (JObj (2 :: nat))] (task_new 1 0 True False False None)) = [Completion, Registered 7]"
  by code_simp

end
