(* ===== verification/Waitable_Intrinsics.thy ===== *)
theory Waitable_Intrinsics
  imports Async_Task Flat_Ctx
begin

text \<open>
  The intrinsics on waitable sets that need the current task
  (\<open>src/crates/js-component-bindgen/src/intrinsics/p3/waitable.rs\<close>): \<open>waitableSetWait\<close>,
  \<open>waitableSetPoll\<close> and \<open>waitableSetDrop\<close>, and \<open>_storeEventInComponentMemory\<close>
  (\<open>intrinsics/p3/host.rs\<close>), which writes an event where the guest asked for it.
\<close>

section \<open>Storing an event\<close>

definition set_uint32 :: "int \<Rightarrow> int \<Rightarrow> (unit, mem) jsop" where
  "set_uint32 ptr v m =
     (if 0 \<le> ptr \<and> ptr + 4 \<le> int (length m) then (Inr (), mem_write ptr (le_bytes 4 v) m)
      else (Inl (RangeErr ''Offset is outside the bounds of the DataView''), m))"

text \<open>The memory, the pointer and the event are \<open>None\<close> when they are missing.\<close>

definition storeEventInComponentMemory :: "int option \<Rightarrow> event option \<Rightarrow> (int, mem option) jsop" where
  "storeEventInComponentMemory ptr ev mo =
     (case mo of
        None \<Rightarrow> (Inl (Err ''unexpectedly missing memory''), mo)
      | Some m \<Rightarrow>
          (case ptr of
             None \<Rightarrow> (Inl (Err ''unexpectedly missing pointer''), mo)
           | Some p \<Rightarrow>
               (case ev of
                  None \<Rightarrow> (Inl (Err ''event object missing''), mo)
                | Some e \<Rightarrow>
                    (let (r, m') = jbind (set_uint32 p (ev_payload0 e))
                        (\<lambda>_. jbind (set_uint32 (p + 4) (ev_payload1 e)) (\<lambda>_. jret (ev_code e))) m
                     in (r, Some m')))))"

section \<open>The intrinsics\<close>

text \<open>The state: the waitables of the component, its memory, the current tasks, and the tasks by their id.\<close>

record 'v wset_env =
  we_world :: world
  we_memory :: "mem option"
  we_current :: current_tasks
  we_tasks :: "nat \<Rightarrow> 'v task"

type_synonym ('a, 'v) weop = "('a, 'v wset_env) jsop"

definition current_meta :: "int \<Rightarrow> (task_meta, 'v) weop" where
  "current_meta c s =
     (case getCurrentTask (Some c) None (we_current s) of
        Inl e \<Rightarrow> (Inl e, s)
      | Inr None \<Rightarrow> (Inl (Err ''invalid/missing current task meta''), s)
      | Inr (Some m) \<Rightarrow> (Inr m, s))"

definition store_event :: "int option \<Rightarrow> event option \<Rightarrow> (int, 'v) weop" where
  "store_event ptr ev s =
     (case storeEventInComponentMemory ptr ev (we_memory s) of (r, m) \<Rightarrow> (r, s\<lparr>we_memory := m\<rparr>))"

text \<open>\<open>waitableSetWait\<close> up to the suspension, which gives the set the task waits on, and from the
  moment the task is resumed.\<close>

definition waitableSetWait_begin :: "int \<Rightarrow> int \<Rightarrow> (nat, 'v) weop" where
  "waitableSetWait_begin cidx rep =
     jbind (current_meta cidx) (\<lambda>meta.
     jbind (jguard (\<lambda>s. tk_componentIdx (we_tasks s (tm_id meta)) \<noteq> cidx) (Err ''task component !== executing component''))
       (\<lambda>_ s. case rep_get rep (wo_handles (we_world s)) of
          Inl e \<Rightarrow> (Inl e, s)
        | Inr v \<Rightarrow>
            (case v of
               JObj (HSet a) \<Rightarrow> (Inr a, s\<lparr>we_world := waitUntil_begin a (we_world s)\<rparr>)
             | _ \<Rightarrow> (Inl (Err ''non-waitable set returned from component state handles''), s))))"

definition waitableSetWait_resume :: "nat \<Rightarrow> bool \<Rightarrow> int option \<Rightarrow> (int, 'v) weop" where
  "waitableSetWait_resume a keepGoing ptr =
     jbind (\<lambda>s. case waitUntil_resume keepGoing a (we_world s) of (r, wo) \<Rightarrow> (r, s\<lparr>we_world := wo\<rparr>))
       (\<lambda>ev. store_event ptr ev)"

definition no_event :: "async_event_code \<Rightarrow> event" where
  "no_event c = \<lparr>ev_code = event_code c, ev_payload0 = 0, ev_payload1 = 0\<rparr>"

definition poll_event :: "bool \<Rightarrow> nat \<Rightarrow> nat \<Rightarrow> (event option, 'v) weop" where
  "poll_event isCancellable tid a s =
     (let (cancelDelivered, t) = deliverPendingCancel isCancellable (we_tasks s tid); s1 = s\<lparr>we_tasks := (we_tasks s)(tid := t)\<rparr> in
      if cancelDelivered then (Inr (Some (no_event EvTaskCancelled)), s1)
      else if \<not> ws_hasPendingEvent a (we_world s1) then (Inr (Some (no_event EvNone)), s1)
      else (case ws_getPendingEvent a (we_world s1) of (r, wo) \<Rightarrow> (r, s1\<lparr>we_world := wo\<rparr>)))"

definition waitableSetPoll :: "int \<Rightarrow> bool \<Rightarrow> int \<Rightarrow> int option \<Rightarrow> (int, 'v) weop" where
  "waitableSetPoll cidx isCancellable rep ptr =
     jbind (current_meta cidx) (\<lambda>meta.
     jbind (jguard (\<lambda>_. tm_componentIdx meta \<noteq> cidx) (RefErr ''task is not defined'')) (\<lambda>_.
     jbind (jguard (\<lambda>s. tk_componentIdx (we_tasks s (tm_id meta)) \<noteq> cidx) (Err ''task component idx does not match generated''))
       (\<lambda>_ s. case rep_get rep (wo_handles (we_world s)) of
          Inl e \<Rightarrow> (Inl e, s)
        | Inr v \<Rightarrow>
            if \<not> truthy v then (Inl (Err ''missing waitable set''), s)
            else (case v of
               JObj (HSet a) \<Rightarrow> jbind (poll_event isCancellable (tm_id meta) a) (store_event ptr) s
             | _ \<Rightarrow> (Inl (OutOfModel ''the handle of another object''), s)))))"

definition waitableSetDrop :: "int \<Rightarrow> int \<Rightarrow> (unit, 'v) weop" where
  "waitableSetDrop cidx rep =
     jbind (current_meta cidx) (\<lambda>meta.
     jbind (jguard (\<lambda>_. tm_componentIdx meta \<noteq> cidx) (Err ''task component idx != component instance ID'')) (\<lambda>_.
     jbind (jguard (\<lambda>s. \<not> wo_mayLeave (we_world s)) (Err ''component instance is not marked as may leave, cannot be cancelled''))
       (\<lambda>_ s. case removeWaitableSet rep (we_world s) of (r, wo) \<Rightarrow> (r, s\<lparr>we_world := wo\<rparr>))))"

end
